(* ===== verification/Prelude.thy ===== *)
theory Prelude
  imports Main "HOL-Library.Word" "HOL-Library.AList" "HOL-Library.Char_ord"
    "HOL-Library.List_Lexorder" "HOL-Library.Product_Lexorder" "HOL-Library.Sublist"
    "HOL-Library.Multiset"
begin

text \<open>
  What every component shares: results, Rust's byte strings and the operations on
  them that the code calls, the two kinds of key-value containers (the ordered map of
  the standard library and the insertion-ordered object of a JSON document) behind one
  interface, and the interface of a machine whose steps keep an invariant.

  A Rust \<open>str\<close> is its sequence of UTF-8 bytes, so a \<open>string\<close> here (a list of 8-bit
  characters) is that sequence; \<open><\<close> on strings is the lexicographic order on bytes,
  which is the order of Rust's \<open>Ord for str\<close>.
\<close>

named_theorems container_simps \<open>lookup laws of the key-value containers\<close>

named_theorems core_simps \<open>how the engine core's operations act on the run state's fields\<close>

type_synonym u32 = "32 word"

type_synonym u64 = "64 word"

section \<open>Results\<close>

text \<open>A \<open>Result<T, E>\<close> is a sum with the error on the left; \<open>?\<close> is \<open>res_bind\<close>.\<close>

definition res_bind :: "'e + 'a \<Rightarrow> ('a \<Rightarrow> 'e + 'b) \<Rightarrow> 'e + 'b" where
  "res_bind m f = (case m of Inl e \<Rightarrow> Inl e | Inr x \<Rightarrow> f x)"

lemma res_bind_simps [simp]:
  "res_bind (Inl e) f = Inl e"
  "res_bind (Inr x) f = f x"
  by (simp_all add: res_bind_def)

lemma res_bind_eq_Inr: "res_bind m f = Inr y \<longleftrightarrow> (\<exists>x. m = Inr x \<and> f x = Inr y)"
  by (cases m) auto

lemma res_bind_eq_Inl: "res_bind m f = Inl e \<longleftrightarrow> m = Inl e \<or> (\<exists>x. m = Inr x \<and> f x = Inl e)"
  by (cases m) auto

text \<open>Collecting an iterator of results stops at the first error.\<close>

fun res_map :: "('a \<Rightarrow> 'e + 'b) \<Rightarrow> 'a list \<Rightarrow> 'e + 'b list" where
  "res_map f [] = Inr []"
| "res_map f (x # xs) = res_bind (f x) (\<lambda>y. res_bind (res_map f xs) (\<lambda>ys. Inr (y # ys)))"

lemma res_map_cong [fundef_cong]:
  assumes "xs = ys" and "\<And>x. x \<in> set ys \<Longrightarrow> f x = g x"
  shows "res_map f xs = res_map g ys"
proof -
  have "res_map f ys = res_map g ys" using assms(2)
    by (induction ys) (auto simp: res_bind_def split: sum.splits)
  then show ?thesis using assms(1) by simp
qed

lemma res_map_length: "res_map f xs = Inr ys \<Longrightarrow> length ys = length xs"
  by (induction xs arbitrary: ys) (auto simp: res_bind_eq_Inr)

section \<open>Byte strings\<close>

text \<open>The UTF-8 encodings of the characters with the White\_Space property.\<close>

definition ws_words :: "string list" where
  "ws_words =
    [[CHR 0x09], [CHR 0x0A], [CHR 0x0B], [CHR 0x0C], [CHR 0x0D], [CHR 0x20],
     [CHR 0xC2, CHR 0x85], [CHR 0xC2, CHR 0xA0], [CHR 0xE1, CHR 0x9A, CHR 0x80],
     [CHR 0xE2, CHR 0x80, CHR 0x80], [CHR 0xE2, CHR 0x80, CHR 0x81],
     [CHR 0xE2, CHR 0x80, CHR 0x82], [CHR 0xE2, CHR 0x80, CHR 0x83],
     [CHR 0xE2, CHR 0x80, CHR 0x84], [CHR 0xE2, CHR 0x80, CHR 0x85],
     [CHR 0xE2, CHR 0x80, CHR 0x86], [CHR 0xE2, CHR 0x80, CHR 0x87],
     [CHR 0xE2, CHR 0x80, CHR 0x88], [CHR 0xE2, CHR 0x80, CHR 0x89],
     [CHR 0xE2, CHR 0x80, CHR 0x8A], [CHR 0xE2, CHR 0x80, CHR 0xA8],
     [CHR 0xE2, CHR 0x80, CHR 0xA9], [CHR 0xE2, CHR 0x80, CHR 0xAF],
     [CHR 0xE2, CHR 0x81, CHR 0x9F], [CHR 0xE3, CHR 0x80, CHR 0x80]]"

definition leading_word :: "string list \<Rightarrow> string \<Rightarrow> string option" where
  "leading_word ws s = find (\<lambda>w. w \<noteq> [] \<and> prefix w s) ws"

lemma leading_word_Some:
  "leading_word ws s = Some w \<Longrightarrow> w \<in> set ws \<and> w \<noteq> [] \<and> prefix w s"
  by (auto simp: leading_word_def find_Some_iff)

lemma leading_word_None:
  "leading_word ws s = None \<longleftrightarrow> (\<forall>w \<in> set ws. w = [] \<or> \<not> prefix w s)"
  by (auto simp: leading_word_def find_None_iff)

function strip_words :: "string list \<Rightarrow> string \<Rightarrow> string" where
  "strip_words ws s =
     (case leading_word ws s of None \<Rightarrow> s | Some w \<Rightarrow> strip_words ws (drop (length w) s))"
  by pat_completeness auto
termination
  by (relation "measure (\<lambda>(ws, s). length s)") (auto dest!: leading_word_Some simp: prefix_def)

declare strip_words.simps [simp del]

lemma strip_words_stable: "leading_word ws s = None \<Longrightarrow> strip_words ws s = s"
  by (simp add: strip_words.simps)

lemma strip_words_done: "leading_word ws (strip_words ws s) = None"
proof (induction ws s rule: strip_words.induct)
  case (1 ws s)
  then show ?case
    by (cases "leading_word ws s") (simp_all add: strip_words.simps [of ws s])
qed

lemma strip_words_suffix: "suffix (strip_words ws s) s"
proof (induction ws s rule: strip_words.induct)
  case (1 ws s)
  show ?case
  proof (cases "leading_word ws s")
    case None
    then show ?thesis by (simp add: strip_words_stable)
  next
    case (Some w)
    then have "suffix (strip_words ws (drop (length w) s)) (drop (length w) s)" by (rule "1.IH")
    then have "suffix (strip_words ws (drop (length w) s)) s"
      using suffix_drop suffix_order.trans by blast
    with Some show ?thesis by (simp add: strip_words.simps [of ws s])
  qed
qed

lemma leading_word_prefix: "leading_word ws s = None \<Longrightarrow> prefix t s \<Longrightarrow> leading_word ws t = None"
  unfolding leading_word_None by (meson prefix_order.trans)

text \<open>\<open>str::trim\<close>: strip white space at both ends.\<close>

definition trim :: "string \<Rightarrow> string" where
  "trim s = rev (strip_words (map rev ws_words) (rev (strip_words ws_words s)))"

lemma trim_trim [simp]: "trim (trim s) = trim s"
proof -
  let ?a = "strip_words ws_words s"
  have "prefix (trim s) ?a"
    by (simp add: trim_def suffix_to_prefix [symmetric] strip_words_suffix
        flip: suffix_to_prefix) (metis rev_rev_ident strip_words_suffix suffix_to_prefix)
  then have "leading_word ws_words (trim s) = None"
    using strip_words_done leading_word_prefix by blast
  then have "strip_words ws_words (trim s) = trim s" by (rule strip_words_stable)
  moreover have "leading_word (map rev ws_words) (rev (trim s)) = None"
    by (simp add: trim_def strip_words_done)
  ultimately show ?thesis
    by (simp add: trim_def strip_words_stable)
qed

lemma strip_words_Nil [simp]: "strip_words ws [] = []"
  using strip_words_suffix [of ws "[]"] by simp

lemma trim_Nil [simp]: "trim [] = []"
  by (simp add: trim_def)

text \<open>A string no white space word starts or ends with is its own trim.\<close>

lemma trim_id:
  "leading_word ws_words s = None \<Longrightarrow> leading_word (map rev ws_words) (rev s) = None \<Longrightarrow> trim s = s"
  by (simp add: trim_def strip_words_stable)

text \<open>\<open>str::split(c)\<close>: the empty string splits into one empty piece.\<close>

fun split_on :: "char \<Rightarrow> string \<Rightarrow> string list" where
  "split_on c [] = [[]]"
| "split_on c (x # xs) =
     (if x = c then [] # split_on c xs
      else (case split_on c xs of [] \<Rightarrow> [[x]] | y # ys \<Rightarrow> (x # y) # ys))"

lemma split_on_nonempty [simp]: "split_on c s \<noteq> []"
  by (induction s) (auto split: list.splits)

text \<open>\<open>str::find\<close>: the offset of the first occurrence; \<open>str::contains\<close> is that there is one.\<close>

fun find_sub :: "string \<Rightarrow> string \<Rightarrow> nat option" where
  "find_sub p [] = (if p = [] then Some 0 else None)"
| "find_sub p (x # xs) = (if prefix p (x # xs) then Some 0 else map_option Suc (find_sub p xs))"

definition str_contains :: "string \<Rightarrow> string \<Rightarrow> bool" where
  "str_contains s p \<longleftrightarrow> find_sub p s \<noteq> None"

lemma find_sub_Some: "find_sub p s = Some i \<Longrightarrow> prefix p (drop i s) \<and> i + length p \<le> length s"
proof (induction s arbitrary: i)
  case Nil
  then show ?case by (simp split: if_splits)
next
  case (Cons x xs)
  show ?case
  proof (cases "prefix p (x # xs)")
    case True
    with Cons.prems show ?thesis using prefix_length_le by fastforce
  next
    case False
    with Cons.prems obtain j where "find_sub p xs = Some j" "i = Suc j" by auto
    with Cons.IH [of j] show ?thesis by simp
  qed
qed

lemma find_sub_prefix: "prefix p s \<Longrightarrow> find_sub p s = Some 0"
  by (cases s) auto

lemma find_sub_append:
  assumes "\<And>i. i < length t \<Longrightarrow> \<not> prefix p (drop i (t @ p @ r))"
  shows "find_sub p (t @ p @ r) = Some (length t)"
  using assms
proof (induction t)
  case Nil
  then show ?case by (simp add: find_sub_prefix)
next
  case (Cons x t)
  have "\<not> prefix p (x # t @ p @ r)" using Cons.prems [of 0] by simp
  moreover have "find_sub p (t @ p @ r) = Some (length t)"
    by (rule Cons.IH) (use Cons.prems [of "Suc i" for i] in simp)
  ultimately show ?case by simp
qed

abbreviation within :: "char \<Rightarrow> char \<Rightarrow> char \<Rightarrow> bool" where
  "within lo hi c \<equiv> lo \<le> c \<and> c \<le> hi"

definition ascii_digit :: "char \<Rightarrow> bool" where
  "ascii_digit = within (CHR ''0'') (CHR ''9'')"

definition ascii_alphabetic :: "char \<Rightarrow> bool" where
  "ascii_alphabetic c \<longleftrightarrow> within (CHR ''A'') (CHR ''Z'') c \<or> within (CHR ''a'') (CHR ''z'') c"

definition ascii_alphanumeric :: "char \<Rightarrow> bool" where
  "ascii_alphanumeric c \<longleftrightarrow> ascii_alphabetic c \<or> ascii_digit c"

text \<open>\<open>str::parse::<u64>\<close>: an optional plus sign, one or more digits, a value below \<open>2^64\<close>.\<close>

definition decimal :: "string \<Rightarrow> nat" where
  "decimal ds = foldl (\<lambda>n c. 10 * n + (of_char c - 48)) 0 ds"

definition parse_u64 :: "string \<Rightarrow> u64 option" where
  "parse_u64 s =
     (let ds = (case s of c # r \<Rightarrow> if c = CHR ''+'' then r else s | [] \<Rightarrow> s)
      in if ds = [] \<or> \<not> list_all ascii_digit ds \<or> decimal ds \<ge> 2 ^ 64 then None
         else Some (of_nat (decimal ds)))"

lemma parse_u64_plain: "parse_u64 ''42'' = Some 42"
  by (simp add: parse_u64_def ascii_digit_def decimal_def less_eq_char_def)

text \<open>How a natural number prints.\<close>

fun show_nat :: "nat \<Rightarrow> string" where
  "show_nat n = (if n < 10 then [char_of (48 + n)] else show_nat (n div 10) @ [char_of (48 + n mod 10)])"

declare show_nat.simps [simp del]

section \<open>Key-value containers\<close>

text \<open>
  The interface the clients rely on: what a lookup returns after an insertion and after
  a removal, on containers that satisfy their invariant. Both the ordered map of the
  standard library and the object of a JSON document provide it.
\<close>

locale kv_store =
  fixes get :: "'m \<Rightarrow> 'k \<Rightarrow> 'v option"
    and put :: "'k \<Rightarrow> 'v \<Rightarrow> 'm \<Rightarrow> 'm"
    and del :: "'k \<Rightarrow> 'm \<Rightarrow> 'm"
    and wf :: "'m \<Rightarrow> bool"
  assumes get_put: "wf m \<Longrightarrow> get (put k v m) k' = (if k' = k then Some v else get m k')"
    and get_del: "wf m \<Longrightarrow> get (del k m) k' = (if k' = k then None else get m k')"
    and wf_put: "wf m \<Longrightarrow> wf (put k v m)"
    and wf_del: "wf m \<Longrightarrow> wf (del k m)"
begin

lemma wf_fold_put: "wf m \<Longrightarrow> wf (fold (\<lambda>(k, v). put k v) kvs m)"
  by (induction kvs arbitrary: m) (auto simp: wf_put)

lemma get_fold_put:
  "wf m \<Longrightarrow> get (fold (\<lambda>(k, v). put k v) kvs m) k' =
     (case map_of (rev kvs) k' of None \<Rightarrow> get m k' | Some v \<Rightarrow> Some v)"
proof (induction kvs arbitrary: m)
  case Nil
  then show ?case by simp
next
  case (Cons kv kvs)
  then show ?case
    by (cases kv) (auto simp: wf_put get_put map_add_def split: option.splits)
qed

lemma wf_fold_del: "wf m \<Longrightarrow> wf (fold del ks m)"
  by (induction ks arbitrary: m) (auto simp: wf_del)

lemma get_fold_del:
  "wf m \<Longrightarrow> get (fold del ks m) k' = (if k' \<in> set ks then None else get m k')"
  by (induction ks arbitrary: m) (auto simp: wf_del get_del)

lemma get_put_twice: "wf m \<Longrightarrow> get (put k v (put k w m)) = get (put k v m)"
  by (rule ext) (simp add: get_put wf_put)

lemma get_del_put: "wf m \<Longrightarrow> get m k = None \<Longrightarrow> get (del k (put k v m)) = get m"
  by (rule ext) (simp add: get_put get_del wf_put)

end

subsection \<open>The ordered map\<close>

text \<open>
  \<open>BTreeMap\<close>: the entries in the order of their keys, which is the order of iteration.
\<close>

fun bt_insert :: "'k::linorder \<Rightarrow> 'v \<Rightarrow> ('k \<times> 'v) list \<Rightarrow> ('k \<times> 'v) list" where
  "bt_insert k v [] = [(k, v)]"
| "bt_insert k v ((a, b) # m) =
     (if k < a then (k, v) # (a, b) # m
      else if k = a then (k, v) # m
      else (a, b) # bt_insert k v m)"

definition bt_remove :: "'k::linorder \<Rightarrow> ('k \<times> 'v) list \<Rightarrow> ('k \<times> 'v) list" where
  "bt_remove k m = filter (\<lambda>e. fst e \<noteq> k) m"

definition bt_wf :: "('k::linorder \<times> 'v) list \<Rightarrow> bool" where
  "bt_wf m \<longleftrightarrow> sorted_wrt (<) (map fst m)"

lemma bt_wf_Nil [simp]: "bt_wf []"
  by (simp add: bt_wf_def)

lemma bt_get_insert [simp, container_simps]:
  "map_of (bt_insert k v m) = (map_of m)(k \<mapsto> v)"
  by (induction k v m rule: bt_insert.induct) auto

lemma bt_get_remove [simp, container_simps]:
  "map_of (bt_remove k m) = (map_of m)(k := None)"
  unfolding bt_remove_def by (induction m) auto

lemma bt_keys_insert: "set (map fst (bt_insert k v m)) = insert k (set (map fst m))"
  by (induction k v m rule: bt_insert.induct) auto

lemma bt_wf_insert: "bt_wf m \<Longrightarrow> bt_wf (bt_insert k v m)"
proof (induction k v m rule: bt_insert.induct)
  case (1 k v)
  then show ?case by (simp add: bt_wf_def)
next
  case (2 k v a b m)
  have keys: "set (map fst (bt_insert k v m)) = insert k (set (map fst m))"
    by (rule bt_keys_insert)
  from 2 show ?case
    unfolding bt_wf_def using keys by (auto simp: bt_wf_def simp del: set_map)
qed

lemma bt_wf_remove: "bt_wf m \<Longrightarrow> bt_wf (bt_remove k m)"
  unfolding bt_wf_def bt_remove_def
  by (induction m) auto

lemma bt_wf_distinct: "bt_wf m \<Longrightarrow> distinct (map fst m)"
  by (simp add: bt_wf_def strict_sorted_iff)

interpretation btree: kv_store map_of bt_insert bt_remove bt_wf
  by unfold_locales (auto simp: bt_wf_insert bt_wf_remove)

subsection \<open>The insertion-ordered map\<close>

text \<open>
  \<open>serde_json::Map\<close> with the feature \<open>preserve_order\<close>, which the workspace selects:
  an insertion replaces the value in place or appends the entry, a removal puts the last
  entry where the removed one was.
\<close>

fun key_index :: "'k \<Rightarrow> ('k \<times> 'v) list \<Rightarrow> nat option" where
  "key_index k [] = None"
| "key_index k (e # m) = (if fst e = k then Some 0 else map_option Suc (key_index k m))"

definition im_remove :: "'k \<Rightarrow> ('k \<times> 'v) list \<Rightarrow> ('k \<times> 'v) list" where
  "im_remove k m =
     (case key_index k m of
        None \<Rightarrow> m
      | Some i \<Rightarrow> if Suc i = length m then butlast m else (butlast m)[i := last m])"

definition im_wf :: "('k \<times> 'v) list \<Rightarrow> bool" where
  "im_wf m \<longleftrightarrow> distinct (map fst m)"

lemma im_wf_Nil [simp]: "im_wf []"
  by (simp add: im_wf_def)

lemma key_index_None: "key_index k m = None \<longleftrightarrow> k \<notin> fst ` set m"
  by (induction m) auto

lemma key_index_Some: "key_index k m = Some i \<Longrightarrow> i < length m \<and> fst (m ! i) = k"
  by (induction m arbitrary: i) (auto split: if_splits)

lemma im_wf_update: "im_wf m \<Longrightarrow> im_wf (AList.update k v m)"
  by (simp add: im_wf_def distinct_update)

lemma key_index_append:
  "k \<notin> fst ` set a \<Longrightarrow> key_index k (a @ (k, v) # b) = Some (length a)"
  by (induction a) auto

lemma im_remove_mset:
  assumes "im_wf m"
  shows "mset (im_remove k m) = mset (filter (\<lambda>e. fst e \<noteq> k) m)"
proof (cases "k \<in> fst ` set m")
  case False
  then have "filter (\<lambda>e. fst e \<noteq> k) m = m" by (auto intro: filter_True)
  with False show ?thesis by (simp add: im_remove_def key_index_None [THEN iffD2])
next
  case True
  then obtain v where "(k, v) \<in> set m" by auto
  then obtain a b where m: "m = a @ (k, v) # b" by (auto simp: in_set_conv_decomp)
  with assms have a: "k \<notin> fst ` set a" and b: "k \<notin> fst ` set b"
    by (auto simp: im_wf_def)
  from a have idx: "key_index k m = Some (length a)" by (simp add: m key_index_append)
  have "filter (\<lambda>e. fst e \<noteq> k) a = a" "filter (\<lambda>e. fst e \<noteq> k) b = b"
    using a b by (force intro: filter_True)+
  then have rest: "filter (\<lambda>e. fst e \<noteq> k) m = a @ b" by (simp add: m)
  show ?thesis
  proof (cases b rule: rev_cases)
    case Nil
    with idx rest show ?thesis by (simp add: im_remove_def m)
  next
    case (snoc b' e)
    with idx rest show ?thesis by (simp add: im_remove_def m butlast_append)
  qed
qed

lemma im_wf_remove: "im_wf m \<Longrightarrow> im_wf (im_remove k m)"
proof -
  assume wf: "im_wf m"
  have "mset (map fst (im_remove k m)) = mset (map fst (filter (\<lambda>e. fst e \<noteq> k) m))"
    using im_remove_mset [OF wf] by (metis mset_map)
  moreover have "distinct (map fst (filter (\<lambda>e. fst e \<noteq> k) m))"
    using wf by (simp add: im_wf_def distinct_map_filter)
  ultimately show ?thesis unfolding im_wf_def using mset_eq_imp_distinct_iff by blast
qed

lemma map_of_mset_eq: "im_wf m \<Longrightarrow> mset m = mset m' \<Longrightarrow> map_of m = map_of m'"
  unfolding im_wf_def
  by (metis map_of_inject_set mset_eq_imp_distinct_iff mset_eq_setD mset_map)

lemma im_get_remove:
  assumes "im_wf m"
  shows "map_of (im_remove k m) = (map_of m)(k := None)"
proof -
  have "map_of (im_remove k m) = map_of (filter (\<lambda>e. fst e \<noteq> k) m)"
    using assms by (intro map_of_mset_eq im_wf_remove im_remove_mset)
  also have "\<dots> = (map_of m)(k := None)" by (induction m) auto
  finally show ?thesis .
qed

lemma im_get_update: "map_of (AList.update k v m) = (map_of m)(k \<mapsto> v)"
  by (rule update_conv')

interpretation imap: kv_store map_of AList.update im_remove im_wf
  by unfold_locales (auto simp: im_get_remove im_get_update im_wf_update im_wf_remove)

lemmas imap_laws = im_wf_update im_wf_remove im_get_update im_get_remove

text \<open>
  \<open>entry(k).or_insert(v)\<close>: the value stays when there is one. Collecting pairs into a
  map inserts them one after the other, so the last value of a key wins.
\<close>

definition im_or_insert :: "'k \<Rightarrow> 'v \<Rightarrow> ('k \<times> 'v) list \<Rightarrow> ('k \<times> 'v) list" where
  "im_or_insert k v m = (case map_of m k of None \<Rightarrow> AList.update k v m | Some _ \<Rightarrow> m)"

definition im_collect :: "('k \<times> 'v) list \<Rightarrow> ('k \<times> 'v) list" where
  "im_collect kvs = fold (\<lambda>(k, v). AList.update k v) kvs []"

lemma im_wf_or_insert: "im_wf m \<Longrightarrow> im_wf (im_or_insert k v m)"
  by (simp add: im_or_insert_def im_wf_update split: option.splits)

lemma im_get_or_insert:
  "map_of (im_or_insert k v m) k' =
     (if k' = k then Some (case map_of m k of None \<Rightarrow> v | Some w \<Rightarrow> w) else map_of m k')"
  by (auto simp: im_or_insert_def im_get_update split: option.splits)

lemma im_wf_collect: "im_wf (im_collect kvs)"
  unfolding im_collect_def by (rule imap.wf_fold_put) simp

section \<open>Machines with an invariant\<close>

text \<open>
  Running a fallible step over a sequence of events stops at the first error. A
  component whose step keeps an invariant gets the invariant of whole runs from here.
\<close>

fun run_steps :: "('s \<Rightarrow> 'e \<Rightarrow> 'f + 's) \<Rightarrow> 's \<Rightarrow> 'e list \<Rightarrow> 'f + 's" where
  "run_steps f s [] = Inr s"
| "run_steps f s (e # es) = res_bind (f s e) (\<lambda>s'. run_steps f s' es)"

lemma run_steps_append:
  "run_steps f s (es @ fs) = res_bind (run_steps f s es) (\<lambda>s'. run_steps f s' fs)"
  by (induction es arbitrary: s) (auto simp: res_bind_def split: sum.splits)

locale guarded_machine =
  fixes step :: "'s \<Rightarrow> 'e \<Rightarrow> 'f + 's"
    and inv :: "'s \<Rightarrow> bool"
    and legal :: "'f \<Rightarrow> bool"
  assumes step_keeps: "inv s \<Longrightarrow> step s e = Inr s' \<Longrightarrow> inv s'"
    and step_fails_legally: "inv s \<Longrightarrow> step s e = Inl f \<Longrightarrow> legal f"
begin

lemma run_keeps: "inv s \<Longrightarrow> run_steps step s es = Inr s' \<Longrightarrow> inv s'"
  by (induction es arbitrary: s) (auto simp: res_bind_eq_Inr intro: step_keeps)

lemma run_fails_legally: "inv s \<Longrightarrow> run_steps step s es = Inl f \<Longrightarrow> legal f"
  by (induction es arbitrary: s)
    (auto simp: res_bind_eq_Inl intro: step_keeps dest: step_fails_legally)

lemma run_prefix_keeps:
  "inv s \<Longrightarrow> run_steps step s (es @ fs) = Inr s' \<Longrightarrow>
     \<exists>t. run_steps step s es = Inr t \<and> inv t \<and> run_steps step t fs = Inr s'"
  by (auto simp: run_steps_append res_bind_eq_Inr intro: run_keeps)

end

end
