(* ===== verification/Json.thy ===== *)
theory Json
  imports Prelude
begin

text \<open>
  JSON documents as the code holds them (\<open>serde_json::Value\<close>): the documented variants
  of the type, the accessors the code calls on them, and assignment through a path of
  keys, which creates missing objects and panics on a value that is not an object.

  A number is an unsigned or a negative integer, or a finite binary float, given by its
  mantissa and exponent (\<open>Float m e\<close> is \<open>m * 2^e\<close>); \<open>FloatNegZero\<close> is the negative zero of
  the float format. How a number is printed is not modelled here: interpolation takes
  the printer as an argument.
\<close>

datatype json_num = PosInt u64 | NegInt int | Float int int | FloatNegZero

datatype json =
    JNull
  | JBool bool
  | JNumber json_num
  | JString string
  | JArray "json list"
  | JObject "(string \<times> json) list"

abbreviation jempty :: json where "jempty \<equiv> JObject []"

section \<open>Accessors\<close>

fun as_object :: "json \<Rightarrow> (string \<times> json) list option" where
  "as_object (JObject m) = Some m"
| "as_object _ = None"

fun as_array :: "json \<Rightarrow> json list option" where
  "as_array (JArray xs) = Some xs"
| "as_array _ = None"

fun as_str :: "json \<Rightarrow> string option" where
  "as_str (JString s) = Some s"
| "as_str _ = None"

fun as_bool :: "json \<Rightarrow> bool option" where
  "as_bool (JBool b) = Some b"
| "as_bool _ = None"

fun as_u64 :: "json \<Rightarrow> u64 option" where
  "as_u64 (JNumber (PosInt n)) = Some n"
| "as_u64 _ = None"

fun is_number :: "json \<Rightarrow> bool" where
  "is_number (JNumber _) = True"
| "is_number _ = False"

definition is_boolean :: "json \<Rightarrow> bool" where
  "is_boolean v \<longleftrightarrow> as_bool v \<noteq> None"

definition is_object :: "json \<Rightarrow> bool" where
  "is_object v \<longleftrightarrow> as_object v \<noteq> None"

definition is_string :: "json \<Rightarrow> bool" where
  "is_string v \<longleftrightarrow> as_str v \<noteq> None"

lemma is_object_simps [simp]:
  "is_object (JObject m)" "\<not> is_object JNull" "\<not> is_object (JBool b)"
  "\<not> is_object (JNumber n)" "\<not> is_object (JString s)" "\<not> is_object (JArray xs)"
  by (simp_all add: is_object_def)

lemma is_objectE: "is_object v \<Longrightarrow> (\<And>m. v = JObject m \<Longrightarrow> P) \<Longrightarrow> P"
  by (cases v) auto

text \<open>\<open>Value::get(key)\<close>: a member of an object, nothing on any other value.\<close>

definition jget :: "string \<Rightarrow> json \<Rightarrow> json option" where
  "jget k v = (case as_object v of None \<Rightarrow> None | Some m \<Rightarrow> map_of m k)"

lemma jget_object [simp]: "jget k (JObject m) = map_of m k"
  by (simp add: jget_def)

lemma jget_Some_object: "jget k v = Some w \<Longrightarrow> is_object v"
  by (auto simp: jget_def is_object_def split: option.splits)

fun jget_path :: "string list \<Rightarrow> json \<Rightarrow> json option" where
  "jget_path [] v = Some v"
| "jget_path (k # ks) v = (case jget k v of None \<Rightarrow> None | Some w \<Rightarrow> jget_path ks w)"

lemma jget_path_append:
  "jget_path (ks @ ls) v = (case jget_path ks v of None \<Rightarrow> None | Some w \<Rightarrow> jget_path ls w)"
  by (induction ks arbitrary: v) (auto split: option.splits)

text \<open>\<open>value.as_f64() != 0.0\<close>: only the integer and the float zero are zero.\<close>

fun num_nonzero :: "json_num \<Rightarrow> bool" where
  "num_nonzero (PosInt n) \<longleftrightarrow> n \<noteq> 0"
| "num_nonzero (NegInt n) \<longleftrightarrow> n \<noteq> 0"
| "num_nonzero (Float m e) \<longleftrightarrow> m \<noteq> 0"
| "num_nonzero FloatNegZero \<longleftrightarrow> False"

section \<open>Assignment through a path\<close>

text \<open>
  \<open>v[k1][k2] = w\<close>: indexing a null turns it into an object, a missing member is created
  as null, indexing any other value than an object panics (\<open>None\<close>).
\<close>

fun jset_path :: "string list \<Rightarrow> json \<Rightarrow> json \<Rightarrow> json option" where
  "jset_path [] w v = Some w"
| "jset_path (k # ks) w v =
     (case (case v of JNull \<Rightarrow> Some [] | JObject m \<Rightarrow> Some m | _ \<Rightarrow> None) of
        None \<Rightarrow> None
      | Some m \<Rightarrow>
          (case jset_path ks w (case map_of m k of None \<Rightarrow> JNull | Some c \<Rightarrow> c) of
             None \<Rightarrow> None
           | Some c \<Rightarrow> Some (JObject (AList.update k c m))))"

lemma jset_path_get: "jset_path ks w v = Some v' \<Longrightarrow> jget_path ks v' = Some w"
proof (induction ks arbitrary: v v')
  case Nil
  then show ?case by simp
next
  case (Cons k ks)
  then show ?case by (auto simp: im_get_update split: json.splits option.splits)
qed

text \<open>A write does not show through a path that leaves it at its first key.\<close>

lemma jset_path_other:
  "jset_path (k # ks) w v = Some v' \<Longrightarrow> k' \<noteq> k \<Longrightarrow> jget k' v' = jget k' v"
  by (auto simp: im_get_update jget_def split: json.splits option.splits)

lemma jset_path_is_object: "jset_path (k # ks) w v = Some v' \<Longrightarrow> is_object v'"
  by (auto split: json.splits option.splits)

lemma jset_path_object1:
  "is_object v \<Longrightarrow> jset_path [k] w v = Some v' \<longleftrightarrow>
     (\<exists>m. v = JObject m \<and> v' = JObject (AList.update k w m))"
  by (cases v) auto

text \<open>Members that are themselves values of an object: every nested object has distinct keys.\<close>

fun jwf :: "json \<Rightarrow> bool" where
  "jwf (JArray xs) \<longleftrightarrow> (\<forall>x \<in> set xs. jwf x)"
| "jwf (JObject m) \<longleftrightarrow> im_wf m \<and> (\<forall>e \<in> set m. jwf (snd e))"
| "jwf _ \<longleftrightarrow> True"

lemma jwf_get: "jwf v \<Longrightarrow> jget k v = Some w \<Longrightarrow> jwf w"
  by (cases v) (auto simp: jget_def dest!: map_of_SomeD split: option.splits)

lemma set_AList_update: "set (AList.update k w m) \<subseteq> insert (k, w) (set m)"
  by (induction m) auto

lemma jwf_update: "jwf (JObject m) \<Longrightarrow> jwf w \<Longrightarrow> jwf (JObject (AList.update k w m))"
  using set_AList_update [of k w m]
  by (fastforce simp: im_wf_update)

lemma jwf_set_path: "jset_path ks w v = Some v' \<Longrightarrow> jwf v \<Longrightarrow> jwf w \<Longrightarrow> jwf v'"
proof (induction ks arbitrary: v v')
  case Nil
  then show ?case by simp
next
  case (Cons k ks)
  from Cons.prems(1) obtain m c where
    m: "v = JNull \<and> m = [] \<or> v = JObject m" and
    c: "jset_path ks w (case map_of m k of None \<Rightarrow> JNull | Some c \<Rightarrow> c) = Some c" and
    v': "v' = JObject (AList.update k c m)"
    by (auto split: json.splits option.splits)
  from m Cons.prems(2) have wf: "jwf (JObject m)" by fastforce
  then have "jwf (case map_of m k of None \<Rightarrow> JNull | Some c \<Rightarrow> c)"
    using jwf_get [of "JObject m" k] by (auto split: option.splits)
  with c Cons.prems(3) have "jwf c" by (blast intro: Cons.IH)
  with wf show ?case unfolding v' by (rule jwf_update)
qed

section \<open>Equality\<close>

text \<open>
  The derived equality of the code: numbers of different variants differ, floats compare
  by value, objects compare as maps (the order of insertion does not count).
\<close>

definition float_eq :: "int \<Rightarrow> int \<Rightarrow> int \<Rightarrow> int \<Rightarrow> bool" where
  "float_eq m e m' e' \<longleftrightarrow>
     m * 2 ^ nat (e - min e e') = m' * 2 ^ nat (e' - min e e')"

text \<open>The binary floats themselves, with the values that are not JSON numbers.\<close>

datatype f64 = Finite int int | NegZero | Infinite bool | NaN

fun f64_eq :: "f64 \<Rightarrow> f64 \<Rightarrow> bool" where
  "f64_eq (Finite m e) (Finite m' e') \<longleftrightarrow> float_eq m e m' e'"
| "f64_eq (Finite m e) NegZero \<longleftrightarrow> m = 0"
| "f64_eq NegZero (Finite m e) \<longleftrightarrow> m = 0"
| "f64_eq NegZero NegZero \<longleftrightarrow> True"
| "f64_eq (Infinite a) (Infinite b) \<longleftrightarrow> a = b"
| "f64_eq _ _ \<longleftrightarrow> False"

fun num_eq :: "json_num \<Rightarrow> json_num \<Rightarrow> bool" where
  "num_eq (PosInt a) (PosInt b) \<longleftrightarrow> a = b"
| "num_eq (NegInt a) (NegInt b) \<longleftrightarrow> a = b"
| "num_eq (Float m e) (Float m' e') \<longleftrightarrow> float_eq m e m' e'"
| "num_eq (Float m e) FloatNegZero \<longleftrightarrow> m = 0"
| "num_eq FloatNegZero (Float m e) \<longleftrightarrow> m = 0"
| "num_eq FloatNegZero FloatNegZero \<longleftrightarrow> True"
| "num_eq _ _ \<longleftrightarrow> False"

fun json_eq :: "json \<Rightarrow> json \<Rightarrow> bool" where
  "json_eq JNull JNull \<longleftrightarrow> True"
| "json_eq (JBool a) (JBool b) \<longleftrightarrow> a = b"
| "json_eq (JNumber a) (JNumber b) \<longleftrightarrow> num_eq a b"
| "json_eq (JString a) (JString b) \<longleftrightarrow> a = b"
| "json_eq (JArray xs) (JArray ys) \<longleftrightarrow> list_all2 json_eq xs ys"
| "json_eq (JObject m) (JObject m') \<longleftrightarrow>
     length m = length m' \<and>
     (\<forall>e \<in> set m. case map_of m' (fst e) of None \<Rightarrow> False | Some w \<Rightarrow> json_eq (snd e) w)"
| "json_eq _ _ \<longleftrightarrow> False"

lemma float_eq_refl [simp]: "float_eq m e m e"
  by (simp add: float_eq_def)

lemma num_eq_refl [simp]: "num_eq n n"
  by (cases n) auto

lemma json_eq_refl: "jwf v \<Longrightarrow> json_eq v v"
proof (induction v rule: jwf.induct)
  case (1 xs)
  then show ?case by (auto simp: list_all2_conv_all_nth)
next
  case (2 m)
  then show ?case by (auto simp: im_wf_def)
qed auto

end
