(* ===== verification/Blueprint.thy ===== *)
theory Blueprint
  imports Json
begin

text \<open>
  The automation blueprint (\<open>crates/wardian-core/src/automation/blueprint.rs\<close>): nodes,
  edges between ports, and the lookup by id; its canonical form (\<open>normalize.rs\<close>), the
  structural diff of two blueprints (\<open>diff.rs\<close>) and the JSON document a blueprint
  serializes to.
\<close>

section \<open>Data\<close>

record position =
  pos_x :: f64
  pos_y :: f64

record node =
  nd_id :: string
  nd_type :: string
  nd_name :: "string option"
  nd_parent :: "string option"
  nd_fields :: "(string \<times> json) list"
  nd_position :: "position option"

record edge =
  ed_from :: string
  ed_to :: string
  ed_from_port :: string
  ed_to_port :: string

record blueprint =
  bp_schema :: u32
  bp_id :: string
  bp_name :: string
  bp_nodes :: "node list"
  bp_edges :: "edge list"
  bp_body :: string

definition find_node :: "blueprint \<Rightarrow> string \<Rightarrow> node option" where
  "find_node bp i = find (\<lambda>n. nd_id n = i) (bp_nodes bp)"

abbreviation node_ids :: "blueprint \<Rightarrow> string list" where
  "node_ids bp \<equiv> map nd_id (bp_nodes bp)"

lemma find_node_Some: "find_node bp i = Some n \<Longrightarrow> n \<in> set (bp_nodes bp) \<and> nd_id n = i"
  by (auto simp: find_node_def find_Some_iff)

lemma find_node_None: "find_node bp i = None \<longleftrightarrow> i \<notin> set (node_ids bp)"
  by (auto simp: find_node_def find_None_iff)

lemma find_node_exists: "i \<in> set (node_ids bp) \<Longrightarrow> \<exists>n. find_node bp i = Some n"
  using find_node_None by (cases "find_node bp i") auto

lemma find_distinct_key:
  "distinct (map f xs) \<Longrightarrow> x \<in> set xs \<Longrightarrow> find (\<lambda>y. f y = f x) xs = Some x"
  by (induction xs) (auto simp: image_iff)

lemma find_node_distinct:
  "distinct (node_ids bp) \<Longrightarrow> n \<in> set (bp_nodes bp) \<Longrightarrow> find_node bp (nd_id n) = Some n"
  unfolding find_node_def by (rule find_distinct_key)

section \<open>Derived equality of nodes\<close>

definition option_eq :: "('a \<Rightarrow> 'a \<Rightarrow> bool) \<Rightarrow> 'a option \<Rightarrow> 'a option \<Rightarrow> bool" where
  "option_eq eq a b =
     (case (a, b) of (None, None) \<Rightarrow> True | (Some x, Some y) \<Rightarrow> eq x y | _ \<Rightarrow> False)"

definition position_eq :: "position \<Rightarrow> position \<Rightarrow> bool" where
  "position_eq p q \<longleftrightarrow> f64_eq (pos_x p) (pos_x q) \<and> f64_eq (pos_y p) (pos_y q)"

definition node_eq :: "node \<Rightarrow> node \<Rightarrow> bool" where
  "node_eq a b \<longleftrightarrow>
     nd_id a = nd_id b \<and> nd_type a = nd_type b \<and> nd_name a = nd_name b \<and>
     nd_parent a = nd_parent b \<and> json_eq (JObject (nd_fields a)) (JObject (nd_fields b)) \<and>
     option_eq position_eq (nd_position a) (nd_position b)"

text \<open>A node whose field objects have distinct keys and whose coordinates are numbers.\<close>

definition node_plain :: "node \<Rightarrow> bool" where
  "node_plain n \<longleftrightarrow> jwf (JObject (nd_fields n)) \<and>
     (case nd_position n of None \<Rightarrow> True | Some p \<Rightarrow> pos_x p \<noteq> NaN \<and> pos_y p \<noteq> NaN)"

lemma f64_eq_refl: "x \<noteq> NaN \<Longrightarrow> f64_eq x x"
  by (cases x) auto

lemma node_eq_refl: "node_plain n \<Longrightarrow> node_eq n n"
  unfolding node_eq_def node_plain_def option_eq_def position_eq_def
  using json_eq_refl [of "JObject (nd_fields n)"]
  by (auto simp: f64_eq_refl split: option.splits simp del: json_eq.simps jwf.simps)

section \<open>Canonical form\<close>

definition edge_key :: "edge \<Rightarrow> string \<times> string \<times> string \<times> string" where
  "edge_key e = (ed_from e, ed_from_port e, ed_to e, ed_to_port e)"

text \<open>\<open>sort_by\<close> is a stable sort, as \<open>sort_key\<close> is.\<close>

definition normalize_blueprint :: "blueprint \<Rightarrow> blueprint" where
  "normalize_blueprint bp = bp\<lparr>bp_nodes := sort_key nd_id (bp_nodes bp),
                               bp_edges := sort_key edge_key (bp_edges bp)\<rparr>"

lemma edge_key_inj: "inj edge_key"
  by (rule injI) (simp add: edge_key_def)

lemma sort_key_perm_eq:
  assumes "mset xs = mset ys" "inj_on f (set xs)"
  shows "sort_key f xs = sort_key f ys"
  by (rule sort_key_inj_key_eq) (use assms in auto)

lemma find_node_normalize:
  assumes "distinct (node_ids bp)"
  shows "find_node (normalize_blueprint bp) i = find_node bp i"
proof (cases "i \<in> set (node_ids bp)")
  case True
  then obtain n where n: "n \<in> set (bp_nodes bp)" "nd_id n = i" by auto
  have "distinct (node_ids (normalize_blueprint bp))"
    using assms by (simp add: normalize_blueprint_def distinct_map)
  with n assms show ?thesis
    using find_node_distinct [of "normalize_blueprint bp" n] find_node_distinct [of bp n]
    by (simp add: normalize_blueprint_def)
next
  case False
  then have "i \<notin> set (node_ids (normalize_blueprint bp))"
    by (auto simp: normalize_blueprint_def)
  with False show ?thesis using find_node_None by metis
qed

text \<open>
  Normalizing brings a blueprint into a canonical form: it is idempotent, keeps the
  nodes and the edges as collections and the node an id names, and two blueprints with the
  same nodes and edges in any order (and distinct node ids) have the same normal form.
\<close>

theorem normalize_canonical:
  assumes "distinct (node_ids bp)"
    and "mset (bp_nodes bp') = mset (bp_nodes bp)"
    and "mset (bp_edges bp') = mset (bp_edges bp)"
  shows "normalize_blueprint (normalize_blueprint bp) = normalize_blueprint bp \<and>
    find_node (normalize_blueprint bp) i = find_node bp i \<and>
    mset (bp_nodes (normalize_blueprint bp)) = mset (bp_nodes bp) \<and>
    bp_nodes (normalize_blueprint bp') = bp_nodes (normalize_blueprint bp) \<and>
    bp_edges (normalize_blueprint bp') = bp_edges (normalize_blueprint bp)"
proof -
  have "inj_on nd_id (set (bp_nodes bp'))"
    using assms(1,2) by (metis distinct_map mset_eq_setD)
  moreover have "inj_on edge_key (set (bp_edges bp'))"
    using edge_key_inj by (rule inj_on_subset) simp
  ultimately show ?thesis
    using assms find_node_normalize [OF assms(1)]
    by (simp add: normalize_blueprint_def sort_key_id_if_sorted sort_key_perm_eq)
qed

definition sample_task :: "string \<Rightarrow> node" where
  "sample_task i = \<lparr>nd_id = i, nd_type = ''task'', nd_name = None, nd_parent = None,
     nd_fields = [(''agent'', JString ''role:x''), (''prompt'', JString ''do it'')],
     nd_position = None\<rparr>"

definition sample_pair :: "string \<Rightarrow> string \<Rightarrow> blueprint" where
  "sample_pair a b = \<lparr>bp_schema = 2, bp_id = ''wf'', bp_name = ''wf'',
     bp_nodes = [sample_task a, sample_task b], bp_edges = [], bp_body = []\<rparr>"

theorem normalize_canonical_witness:
  "bp_nodes (normalize_blueprint (sample_pair ''b'' ''a'')) = [sample_task ''a'', sample_task ''b''] \<and>
   bp_nodes (normalize_blueprint (sample_pair ''b'' ''a'')) =
     bp_nodes (normalize_blueprint (sample_pair ''a'' ''b''))"
proof -
  have "distinct (node_ids (sample_pair ''a'' ''b''))"
    by (simp add: sample_pair_def sample_task_def)
  moreover have "mset (bp_nodes (sample_pair ''b'' ''a'')) = mset (bp_nodes (sample_pair ''a'' ''b''))"
    by (simp add: sample_pair_def)
  moreover have "mset (bp_edges (sample_pair ''b'' ''a'')) = mset (bp_edges (sample_pair ''a'' ''b''))"
    by (simp add: sample_pair_def)
  ultimately have "bp_nodes (normalize_blueprint (sample_pair ''b'' ''a'')) =
     bp_nodes (normalize_blueprint (sample_pair ''a'' ''b''))"
    using normalize_canonical by blast
  then show ?thesis
    by (simp add: normalize_blueprint_def sample_pair_def sample_task_def)
qed

section \<open>Structural diff\<close>

record node_diff =
  added_nodes :: "string list"
  removed_nodes :: "string list"
  changed_nodes :: "string list"

definition diff_is_empty :: "node_diff \<Rightarrow> bool" where
  "diff_is_empty d \<longleftrightarrow> added_nodes d = [] \<and> removed_nodes d = [] \<and> changed_nodes d = []"

text \<open>Collecting the nodes into the ordered map keyed by id: a later node replaces an earlier one.\<close>

definition node_map :: "blueprint \<Rightarrow> (string \<times> node) list" where
  "node_map bp = fold (\<lambda>(k, v). bt_insert k v) (map (\<lambda>n. (nd_id n, n)) (bp_nodes bp)) []"

definition blueprint_diff :: "blueprint \<Rightarrow> blueprint \<Rightarrow> node_diff" where
  "blueprint_diff before after =
     (let bm = node_map before; am = node_map after
      in \<lparr>added_nodes = sort [fst e. e \<leftarrow> am, map_of bm (fst e) = None],
          removed_nodes = sort [fst e. e \<leftarrow> bm, map_of am (fst e) = None],
          changed_nodes = sort [fst e. e \<leftarrow> am,
            (case map_of bm (fst e) of None \<Rightarrow> False | Some prev \<Rightarrow> \<not> node_eq prev (snd e))]\<rparr>)"

lemma node_map_wf: "bt_wf (node_map bp)"
  unfolding node_map_def by (rule btree.wf_fold_put) simp

lemma node_map_get:
  "map_of (node_map bp) i = find (\<lambda>n. nd_id n = i) (rev (bp_nodes bp))"
proof -
  have "map_of (map (\<lambda>n. (nd_id n, n)) xs) i = find (\<lambda>n. nd_id n = i) xs" for xs
    by (induction xs) auto
  then have "map_of (rev (map (\<lambda>n. (nd_id n, n)) (bp_nodes bp))) i =
      find (\<lambda>n. nd_id n = i) (rev (bp_nodes bp))" by (simp add: rev_map)
  then show ?thesis
    unfolding node_map_def by (simp add: btree.get_fold_put split: option.splits)
qed

lemma node_map_distinct:
  assumes "distinct (node_ids bp)"
  shows "map_of (node_map bp) i = find_node bp i"
proof (cases "i \<in> set (node_ids bp)")
  case True
  then obtain n where n: "n \<in> set (bp_nodes bp)" "nd_id n = i" by auto
  from assms have "distinct (map nd_id (rev (bp_nodes bp)))" by (simp flip: rev_map)
  with n assms show ?thesis
    using find_distinct_key [of nd_id "rev (bp_nodes bp)" n] find_node_distinct [of bp n]
    by (auto simp: node_map_get)
next
  case False
  then have "find (\<lambda>n. nd_id n = i) (rev (bp_nodes bp)) = None" by (auto simp: find_None_iff)
  with False show ?thesis by (simp add: node_map_get find_node_None [THEN iffD2])
qed

lemma in_btree: "bt_wf m \<Longrightarrow> (k, v) \<in> set m \<longleftrightarrow> map_of m k = Some v"
  by (metis bt_wf_distinct map_of_eq_Some_iff)

text \<open>
  On blueprints with distinct node ids the diff lists, in ascending order and once
  each, exactly the ids only the newer blueprint has, the ids only the older one has, and
  the ids both have with different nodes.
\<close>

theorem blueprint_diff_correct:
  assumes "distinct (node_ids before)" "distinct (node_ids after)"
  shows "set (added_nodes (blueprint_diff before after)) = set (node_ids after) - set (node_ids before) \<and>
    set (removed_nodes (blueprint_diff before after)) = set (node_ids before) - set (node_ids after) \<and>
    set (changed_nodes (blueprint_diff before after)) =
      {i. \<exists>n m. find_node before i = Some n \<and> find_node after i = Some m \<and> \<not> node_eq n m} \<and>
    sorted (added_nodes (blueprint_diff before after)) \<and>
    sorted (removed_nodes (blueprint_diff before after)) \<and>
    sorted (changed_nodes (blueprint_diff before after))"
proof -
  have mem: "(i, n) \<in> set (node_map bp) \<longleftrightarrow> find_node bp i = Some n"
    and get: "map_of (node_map bp) i = find_node bp i"
    if "distinct (node_ids bp)" for bp i n
    using that by (simp_all add: in_btree node_map_wf node_map_distinct)
  have some: "i \<in> set (node_ids bp) \<longleftrightarrow> (\<exists>n. find_node bp i = Some n)" for bp i
    using find_node_None [of bp i] by (cases "find_node bp i") auto
  have ids: "set (node_ids bp) = {i. \<exists>n. find_node bp i = Some n}" for bp
    by (rule set_eqI) (simp only: mem_Collect_eq some)
  have picks: "set (sort [fst e. e \<leftarrow> m, P e]) = {i. \<exists>n. (i, n) \<in> set m \<and> P (i, n)}"
    for m :: "(string \<times> node) list" and P
    by force
  show ?thesis
    unfolding blueprint_diff_def Let_def node_diff.simps picks ids
    by (auto simp: mem get assms split: option.splits)
qed

lemma sample_pair_ids [simp]: "node_ids (sample_pair a b) = [a, b]"
  by (simp add: sample_pair_def sample_task_def)

theorem blueprint_diff_correct_witness:
  "set (added_nodes (blueprint_diff (sample_pair ''a'' ''b'') (sample_pair ''b'' ''c''))) = {''c''} \<and>
   set (removed_nodes (blueprint_diff (sample_pair ''a'' ''b'') (sample_pair ''b'' ''c''))) = {''a''}"
proof -
  have d: "distinct (node_ids (sample_pair ''a'' ''b''))" "distinct (node_ids (sample_pair ''b'' ''c''))"
    by simp_all
  show ?thesis
    using blueprint_diff_correct [OF d] unfolding sample_pair_ids by auto
qed

section \<open>The serialized document\<close>

text \<open>
  What serde derives from the declarations: absent options and an empty field map are
  left out, the Markdown body is not part of the document, a coordinate that is not a
  finite number prints as null.
\<close>

fun f64_to_json :: "f64 \<Rightarrow> json" where
  "f64_to_json (Finite m e) = JNumber (Float m e)"
| "f64_to_json NegZero = JNumber FloatNegZero"
| "f64_to_json _ = JNull"

definition skip_none :: "string \<Rightarrow> ('a \<Rightarrow> json) \<Rightarrow> 'a option \<Rightarrow> (string \<times> json) list" where
  "skip_none k f v = (case v of None \<Rightarrow> [] | Some x \<Rightarrow> [(k, f x)])"

definition position_to_json :: "position \<Rightarrow> json" where
  "position_to_json p = JObject [(''x'', f64_to_json (pos_x p)), (''y'', f64_to_json (pos_y p))]"

definition node_to_json :: "node \<Rightarrow> json" where
  "node_to_json n = JObject (
     [(''id'', JString (nd_id n)), (''type'', JString (nd_type n))] @
     skip_none ''name'' JString (nd_name n) @
     skip_none ''parent'' JString (nd_parent n) @
     (if nd_fields n = [] then [] else [(''fields'', JObject (nd_fields n))]) @
     skip_none ''position'' position_to_json (nd_position n))"

definition edge_to_json :: "edge \<Rightarrow> json" where
  "edge_to_json e = JObject [(''from'', JString (ed_from e)), (''to'', JString (ed_to e)),
     (''from_port'', JString (ed_from_port e)), (''to_port'', JString (ed_to_port e))]"

definition blueprint_to_json :: "blueprint \<Rightarrow> json" where
  "blueprint_to_json bp = JObject
     [(''schema'', JNumber (PosInt (ucast (bp_schema bp)))),
      (''id'', JString (bp_id bp)), (''name'', JString (bp_name bp)),
      (''nodes'', JArray (map node_to_json (bp_nodes bp))),
      (''edges'', JArray (map edge_to_json (bp_edges bp)))]"

lemma blueprint_to_json_body [simp]:
  "blueprint_to_json (bp\<lparr>bp_body := b\<rparr>) = blueprint_to_json bp"
  by (simp add: blueprint_to_json_def)

end
