(* ===== verification/Interpolate.thy ===== *)
theory Interpolate
  imports Json
begin

text \<open>
  Interpolation of \<open>{{path}}\<close> placeholders (\<open>engine/interpolate.rs\<close>). How a number
  prints is the JSON library's, so the printer is a parameter.
\<close>

type_synonym printer = "json_num \<Rightarrow> string"

section \<open>Model\<close>

definition lookup_scalar :: "printer \<Rightarrow> string \<Rightarrow> json \<Rightarrow> string option" where
  "lookup_scalar pr path registry =
     (case jget_path (split_on CHR ''.'' path) registry of
        None \<Rightarrow> None
      | Some cur \<Rightarrow>
          (case cur of
             JString s \<Rightarrow> Some s
           | JNull \<Rightarrow> None
           | JObject _ \<Rightarrow> None
           | JArray _ \<Rightarrow> None
           | JBool b \<Rightarrow> Some (if b then ''true'' else ''false'')
           | JNumber n \<Rightarrow> Some (pr n)))"

function resolve_from :: "printer \<Rightarrow> json \<Rightarrow> string \<Rightarrow> string \<Rightarrow> string + string" where
  "resolve_from pr registry out rest =
     (case find_sub ''{{'' rest of
        None \<Rightarrow> Inr (out @ rest)
      | Some start \<Rightarrow>
          (let out = out @ take start rest; after = drop (start + 2) rest
           in case find_sub ''}}'' after of
                None \<Rightarrow> Inl ''unterminated {{''
              | Some fin \<Rightarrow>
                  (let path = trim (take fin after)
                   in case lookup_scalar pr path registry of
                        None \<Rightarrow> Inl path
                      | Some v \<Rightarrow> resolve_from pr registry (out @ v) (drop (fin + 2) after))))"
  by pat_completeness auto
termination
  by (relation "measure (\<lambda>(pr, registry, out, rest). length rest)")
    (auto dest!: find_sub_Some)

declare resolve_from.simps [simp del]

definition resolve :: "printer \<Rightarrow> string \<Rightarrow> json \<Rightarrow> string + string" where
  "resolve pr template registry = resolve_from pr registry [] template"

section \<open>Templates as texts and references\<close>

text \<open>
  A template is texts with references between them. Rendered with the references in
  double braces, it resolves to the texts with the values in their place, or to the first
  reference without a scalar value.
\<close>

type_synonym template = "(string \<times> string) list \<times> string"

fun render :: "(string \<times> string) list \<Rightarrow> string \<Rightarrow> string" where
  "render [] fin = fin"
| "render ((t, p) # ps) fin = t @ ''{{'' @ p @ ''}}'' @ render ps fin"

fun fill :: "printer \<Rightarrow> json \<Rightarrow> (string \<times> string) list \<Rightarrow> string \<Rightarrow> string + string" where
  "fill pr registry [] fin = Inr fin"
| "fill pr registry ((t, p) # ps) fin =
     (case lookup_scalar pr (trim p) registry of
        None \<Rightarrow> Inl (trim p)
      | Some v \<Rightarrow> map_sum id (\<lambda>r. t @ v @ r) (fill pr registry ps fin))"

text \<open>The braces that follow a text, and a reference, are the first ones there.\<close>

definition pieces_ok :: "(string \<times> string) list \<Rightarrow> string \<Rightarrow> bool" where
  "pieces_ok ps fin \<longleftrightarrow> find_sub ''{{'' fin = None \<and>
     (\<forall>(t, p) \<in> set ps. find_sub ''{{'' (t @ ''{{'') = Some (length t) \<and>
                       find_sub ''}}'' (p @ ''}}'') = Some (length p))"

lemma find_sub_least: "find_sub p s = Some i \<Longrightarrow> j < i \<Longrightarrow> \<not> prefix p (drop j s)"
proof (induction s arbitrary: i j)
  case Nil
  then show ?case by (simp split: if_splits)
next
  case (Cons x xs)
  then show ?case
    by (cases j) (auto split: if_splits)
qed

lemma find_sub_extend:
  assumes "find_sub p (t @ p) = Some (length t)"
  shows "find_sub p (t @ p @ r) = Some (length t)"
proof (rule find_sub_append)
  fix i assume i: "i < length t"
  then have no: "\<not> prefix p (drop i (t @ p))"
    using assms find_sub_least by blast
  show "\<not> prefix p (drop i (t @ p @ r))"
  proof
    assume "prefix p (drop i (t @ p @ r))"
    then have "take (length p) (drop i (t @ p @ r)) = p" by (metis append_eq_conv_conj prefixE)
    moreover have "take (length p) (drop i (t @ p @ r)) = take (length p) (drop i (t @ p))"
      using i by simp
    ultimately have "prefix p (drop i (t @ p))" by (metis take_is_prefix)
    with no show False by contradiction
  qed
qed

lemma resolve_from_render:
  "pieces_ok ps fin \<Longrightarrow>
   resolve_from pr registry out (render ps fin) =
     map_sum id (\<lambda>r. out @ r) (fill pr registry ps fin)"
proof (induction ps arbitrary: out)
  case Nil
  then show ?case by (simp add: pieces_ok_def resolve_from.simps)
next
  case (Cons tp ps)
  obtain t p where tp: "tp = (t, p)" by fastforce
  from Cons.prems have ok: "pieces_ok ps fin"
    and t0: "find_sub ''{{'' (t @ ''{{'') = Some (length t)"
    and p0: "find_sub ''}}'' (p @ ''}}'') = Some (length p)"
    by (auto simp: pieces_ok_def tp)
  note t = find_sub_extend [OF t0, of "p @ ''}}'' @ render ps fin"]
  note p = find_sub_extend [OF p0, of "render ps fin"]
  show ?case
    using Cons.IH [OF ok] t p
    by (auto simp: tp resolve_from.simps [of pr registry out] sum.map_comp comp_def
        split: option.splits)
qed

lemma find_sub_split:
  assumes "find_sub p s = Some i"
  shows "s = take i s @ p @ drop (i + length p) s"
    and "find_sub p (take i s @ p) = Some (length (take i s))"
proof -
  from find_sub_Some [OF assms] obtain r where r: "drop i s = p @ r" and i: "i + length p \<le> length s"
    by (auto simp: prefix_def)
  then have "drop (i + length p) s = r"
    by (metis add.commute append_eq_conv_conj drop_drop)
  with r show s: "s = take i s @ p @ drop (i + length p) s" by (metis append_take_drop_id)
  have "find_sub p (take i s @ p @ []) = Some (length (take i s))"
  proof (rule find_sub_append)
    fix j assume "j < length (take i s)"
    then have j: "j < i" by simp
    show "\<not> prefix p (drop j (take i s @ p @ []))"
    proof
      assume "prefix p (drop j (take i s @ p @ []))"
      moreover have "prefix (drop j (take i s @ p)) (drop j s)"
      proof -
        have "drop j s = drop j (take i s @ p) @ drop (i + length p) s"
          using s j i by (metis append.assoc drop_append drop_eq_Nil diff_is_0_eq drop_0
              length_append length_take less_imp_le_nat min.absorb2 add_leD1 trans_le_add1)
        then show ?thesis by simp
      qed
      ultimately have "prefix p (drop j s)" using prefix_order.trans by fastforce
      with find_sub_least [OF assms j] show False by contradiction
    qed
  qed
  then show "find_sub p (take i s @ p) = Some (length (take i s))" by simp
qed

lemma resolve_from_Inr_render:
  "resolve_from pr registry out rest = Inr r \<Longrightarrow> \<exists>ps fin. pieces_ok ps fin \<and> rest = render ps fin"
proof (induction pr registry out rest rule: resolve_from.induct)
  case (1 pr registry out rest)
  show ?case
  proof (cases "find_sub ''{{'' rest")
    case None
    then have "pieces_ok [] rest \<and> rest = render [] rest" by (simp add: pieces_ok_def)
    then show ?thesis by blast
  next
    case (Some start)
    let ?t = "take start rest" and ?after = "drop (start + 2) rest"
    from Some 1(2) obtain fin where fin: "find_sub ''}}'' ?after = Some fin"
      by (auto simp: resolve_from.simps [of pr registry out] Let_def split: option.splits)
    let ?p = "take fin ?after" and ?tail = "drop (fin + 2) ?after"
    from Some fin 1(2) obtain v where v: "lookup_scalar pr (trim ?p) registry = Some v"
      and ret: "resolve_from pr registry (out @ ?t @ v) ?tail = Inr r"
      by (auto simp: resolve_from.simps [of pr registry out] Let_def split: option.splits)
    have "\<exists>ps l. pieces_ok ps l \<and> ?tail = render ps l"
      by (rule 1(1) [OF Some refl refl fin refl v]) (use ret in simp)
    then obtain ps l where ps: "pieces_ok ps l" "?tail = render ps l" by blast
    have "rest = render ((?t, ?p) # ps) l"
      using find_sub_split(1) [OF Some] find_sub_split(1) [OF fin] ps(2) by simp
    moreover have "pieces_ok ((?t, ?p) # ps) l"
      using find_sub_split(2) [OF Some] find_sub_split(2) [OF fin] ps(1)
      by (auto simp: pieces_ok_def)
    ultimately show ?thesis by blast
  qed
qed

lemma map_sum_ident [simp]: "map_sum id (\<lambda>r. r) x = x"
  by (cases x) auto

text \<open>
  C21. Interpolation is exactly the substitution of references: it succeeds with a text if
  and only if the template is made of texts and references in double braces (the braces
  being the first ones after each text and each reference) and the text is the one with
  every reference replaced by the scalar it names in the registry.
\<close>

theorem resolve_substitutes:
  "resolve pr template registry = Inr out \<longleftrightarrow>
     (\<exists>ps fin. pieces_ok ps fin \<and> template = render ps fin \<and> fill pr registry ps fin = Inr out)"
proof
  assume l: "resolve pr template registry = Inr out"
  then obtain ps fin where "pieces_ok ps fin" "template = render ps fin"
    using resolve_from_Inr_render unfolding resolve_def by blast
  with l show "\<exists>ps fin. pieces_ok ps fin \<and> template = render ps fin \<and> fill pr registry ps fin = Inr out"
    by (auto simp: resolve_def resolve_from_render)
next
  assume "\<exists>ps fin. pieces_ok ps fin \<and> template = render ps fin \<and> fill pr registry ps fin = Inr out"
  then show "resolve pr template registry = Inr out"
    by (auto simp: resolve_def resolve_from_render)
qed

text \<open>Text without an opening double brace passes through.\<close>

lemma resolve_plain: "find_sub ''{{'' t = None \<Longrightarrow> resolve pr t registry = Inr t"
  by (simp add: resolve_def resolve_from.simps)

end
