(* ===== verification/Condition.thy ===== *)
theory Condition
  imports Json
begin

text \<open>
  The condition language of branches and loops (\<open>automation/condition.rs\<close>): a
  dot-separated path into the run registry, its validation, and the truth value of the
  member it names.
\<close>

definition msg_empty_path :: string where
  "msg_empty_path = ''expected a non-empty dot-separated registry path''"

definition msg_not_path :: string where
  "msg_not_path = ''expected a dot-separated registry path''"

definition msg_operators :: string where
  "msg_operators = ''expected a dot-separated registry path; operators and comparisons are not supported''"

text \<open>The segments are checked from the left; the first bad one decides the message.\<close>

fun check_segments :: "string list \<Rightarrow> string option" where
  "check_segments [] = None"
| "check_segments (seg # segs) =
     (case seg of
        [] \<Rightarrow> Some msg_not_path
      | first # chars \<Rightarrow>
          if \<not> (ascii_alphabetic first \<or> first = CHR ''_'') \<or>
             \<not> list_all (\<lambda>ch. ascii_alphanumeric ch \<or> ch = CHR ''_'' \<or> ch = CHR ''-'') chars
          then Some msg_operators
          else check_segments segs)"

definition validate_path :: "string \<Rightarrow> string + string" where
  "validate_path condition =
     (let path = trim condition
      in if path = [] then Inl msg_empty_path
         else (case check_segments (split_on CHR ''.'' path) of
                 Some e \<Rightarrow> Inl e
               | None \<Rightarrow> Inr path))"

fun truthy :: "json \<Rightarrow> bool" where
  "truthy (JBool b) \<longleftrightarrow> b"
| "truthy JNull \<longleftrightarrow> False"
| "truthy (JString s) \<longleftrightarrow> s \<noteq> []"
| "truthy (JNumber n) \<longleftrightarrow> num_nonzero n"
| "truthy _ \<longleftrightarrow> True"

definition lookup_truthy :: "json \<Rightarrow> string \<Rightarrow> bool" where
  "lookup_truthy registry path =
     (case jget_path (split_on CHR ''.'' path) registry of None \<Rightarrow> False | Some v \<Rightarrow> truthy v)"

section \<open>What a validated path looks like\<close>

definition segment_ok :: "string \<Rightarrow> bool" where
  "segment_ok seg \<longleftrightarrow> seg \<noteq> [] \<and> (ascii_alphabetic (hd seg) \<or> hd seg = CHR ''_'') \<and>
     list_all (\<lambda>ch. ascii_alphanumeric ch \<or> ch = CHR ''_'' \<or> ch = CHR ''-'') (tl seg)"

lemma check_segments_None: "check_segments segs = None \<longleftrightarrow> list_all segment_ok segs"
  by (induction segs rule: check_segments.induct)
    (auto simp: segment_ok_def split: list.splits)

lemma validate_path_Inr:
  "validate_path c = Inr p \<longleftrightarrow>
     p = trim c \<and> p \<noteq> [] \<and> list_all segment_ok (split_on CHR ''.'' p)"
  by (auto simp: validate_path_def Let_def check_segments_None [symmetric] split: option.splits)

lemma validate_path_stable: "validate_path c = Inr p \<Longrightarrow> validate_path p = Inr p"
  by (auto simp: validate_path_Inr)

end
