(* ===== verification/Node_Registry.thy ===== *)
theory Node_Registry
  imports Condition
begin

text \<open>
  The node types an automation may use (\<open>automation/field\_type.rs\<close>,
  \<open>automation/registry.rs\<close>): the field types and field definitions with their builder
  methods, the ports, and the registry itself, one definition per node type in the order
  of the source.
\<close>

section \<open>Fields\<close>

datatype field_type =
    Text | LongText | Prompt | Code string | Enum "string list" | BoolField | NumberField
  | Duration | PathField | AgentRef | RoleRef | ClassRef | McpRef | AutomationRef
  | JsonSchema | KvMap | BranchPort | Cron | SecretRef

record field_def =
  fd_id :: string
  fd_type :: field_type
  fd_label :: string
  fd_required :: bool
  fd_multiple :: bool
  fd_default :: "json option"
  fd_help :: string

definition fd_new :: "string \<Rightarrow> field_type \<Rightarrow> string \<Rightarrow> field_def" where
  "fd_new i ty label = \<lparr>fd_id = i, fd_type = ty, fd_label = label, fd_required = False,
     fd_multiple = False, fd_default = None, fd_help = []\<rparr>"

definition fd_make_required :: "field_def \<Rightarrow> field_def" where
  "fd_make_required f = f\<lparr>fd_required := True\<rparr>"

definition fd_make_multiple :: "field_def \<Rightarrow> field_def" where
  "fd_make_multiple f = f\<lparr>fd_multiple := True\<rparr>"

definition fd_with_default :: "json \<Rightarrow> field_def \<Rightarrow> field_def" where
  "fd_with_default v f = f\<lparr>fd_default := Some v\<rparr>"

definition fd_with_help :: "string \<Rightarrow> field_def \<Rightarrow> field_def" where
  "fd_with_help t f = f\<lparr>fd_help := t\<rparr>"

section \<open>Node types\<close>

datatype node_kind = AgentKind | EngineKind | TriggerKind

record port_def =
  port_id :: string
  port_label :: string

record node_type_def =
  nt_id :: string
  nt_kind :: node_kind
  nt_category :: string
  nt_label :: string
  nt_icon :: string
  nt_description :: string
  nt_supported :: bool
  nt_fields :: "field_def list"
  nt_inputs :: "port_def list"
  nt_outputs :: "port_def list"
  nt_outputs_from_field :: "string option"
  nt_version :: u32

definition port_new :: "string \<Rightarrow> string \<Rightarrow> port_def" where
  "port_new i label = \<lparr>port_id = i, port_label = label\<rparr>"

definition default_in :: "port_def list" where
  "default_in = [port_new ''in'' ''In'']"

definition default_out :: "port_def list" where
  "default_out = [port_new ''out'' ''Out'']"

definition condition_help :: string where
  "condition_help = ''A dot-separated registry path such as nodes.agent-1.output.ready. Operators and comparisons are not supported.''"

section \<open>The registry\<close>

definition nt_task :: node_type_def where
  "nt_task = \<lparr>nt_id = ''task'', nt_kind = AgentKind, nt_category = ''Agent'', nt_label = ''Task'', nt_icon = ''robot'',
     nt_description = ''Delegate work to an agent; returns structured output.'',
     nt_supported = True,
     nt_fields = [fd_with_help ''Agent or role to run this task.'' (fd_make_required (fd_new ''agent'' AgentRef ''Agent'')),
       fd_make_required (fd_new ''prompt'' Prompt ''Prompt''),
       fd_new ''output_schema'' JsonSchema ''Output schema''],
     nt_inputs = default_in, nt_outputs = default_out, nt_outputs_from_field = None, nt_version = 1\<rparr>"

definition nt_decision :: node_type_def where
  "nt_decision = \<lparr>nt_id = ''decision'', nt_kind = AgentKind, nt_category = ''Agent'', nt_label = ''Decision'', nt_icon = ''git-branch'',
     nt_description = ''Agent chooses one of the declared outgoing branches.'',
     nt_supported = True,
     nt_fields = [fd_make_required (fd_new ''agent'' AgentRef ''Agent''),
       fd_make_required (fd_new ''prompt'' Prompt ''Prompt''),
       fd_with_help ''Unique non-empty port ids the agent may choose between; each must connect to an outgoing edge.'' (fd_make_required (fd_make_multiple (fd_new ''choices'' BranchPort ''Choices'')))],
     nt_inputs = default_in, nt_outputs = [], nt_outputs_from_field = Some ''choices'', nt_version = 1\<rparr>"

definition nt_branch :: node_type_def where
  "nt_branch = \<lparr>nt_id = ''branch'', nt_kind = EngineKind, nt_category = ''Control'', nt_label = ''Branch'', nt_icon = ''git-fork'',
     nt_description = ''Deterministic condition on run state.'',
     nt_supported = True,
     nt_fields = [fd_with_help condition_help (fd_make_required (fd_new ''condition'' Text ''Condition''))],
     nt_inputs = default_in, nt_outputs = [port_new ''on_true'' ''True'', port_new ''on_false'' ''False''], nt_outputs_from_field = None, nt_version = 1\<rparr>"

definition nt_loop :: node_type_def where
  "nt_loop = \<lparr>nt_id = ''loop'', nt_kind = EngineKind, nt_category = ''Control'', nt_label = ''Loop'', nt_icon = ''repeat'',
     nt_description = ''Container: repeats its body subgraph until a bound is hit.'',
     nt_supported = True,
     nt_fields = [fd_new ''max_iterations'' NumberField ''Max iterations'',
       fd_with_help condition_help (fd_new ''until'' Text ''Until condition'')],
     nt_inputs = default_in, nt_outputs = [port_new ''body'' ''Body'', port_new ''done'' ''Done''], nt_outputs_from_field = None, nt_version = 1\<rparr>"

definition nt_join :: node_type_def where
  "nt_join = \<lparr>nt_id = ''join'', nt_kind = EngineKind, nt_category = ''Control'', nt_label = ''Join'', nt_icon = ''merge'',
     nt_description = ''Synchronization barrier; waits for all inbound edges.'',
     nt_supported = True,
     nt_fields = [],
     nt_inputs = default_in, nt_outputs = default_out, nt_outputs_from_field = None, nt_version = 1\<rparr>"

definition nt_approval :: node_type_def where
  "nt_approval = \<lparr>nt_id = ''approval'', nt_kind = EngineKind, nt_category = ''Control'', nt_label = ''Approval'', nt_icon = ''shield-check'',
     nt_description = ''Human-in-the-loop gate; parks the run until a person approves.'',
     nt_supported = True,
     nt_fields = [fd_with_help ''What the approver is signing off on.'' (fd_new ''prompt'' Prompt ''Approval prompt'')],
     nt_inputs = default_in, nt_outputs = default_out, nt_outputs_from_field = None, nt_version = 1\<rparr>"

definition nt_shell :: node_type_def where
  "nt_shell = \<lparr>nt_id = ''shell'', nt_kind = EngineKind, nt_category = ''Action'', nt_label = ''Shell'', nt_icon = ''terminal'',
     nt_description = ''Run a shell command.'',
     nt_supported = True,
     nt_fields = [fd_make_required (fd_new ''command'' LongText ''Command''),
       fd_new ''cwd'' PathField ''Working directory''],
     nt_inputs = default_in, nt_outputs = default_out, nt_outputs_from_field = None, nt_version = 1\<rparr>"

definition nt_script :: node_type_def where
  "nt_script = \<lparr>nt_id = ''script'', nt_kind = EngineKind, nt_category = ''Action'', nt_label = ''Script'', nt_icon = ''file-code'',
     nt_description = ''Run a local script through a selected runtime.'',
     nt_supported = True,
     nt_fields = [fd_make_required (fd_new ''runtime'' (Enum [''python'', ''node'', ''sh'']) ''Runtime''),
       fd_make_required (fd_new ''path'' PathField ''Script path'')],
     nt_inputs = default_in, nt_outputs = default_out, nt_outputs_from_field = None, nt_version = 1\<rparr>"

definition nt_state :: node_type_def where
  "nt_state = \<lparr>nt_id = ''state'', nt_kind = EngineKind, nt_category = ''State'', nt_label = ''State'', nt_icon = ''database'',
     nt_description = ''Read or write storage scoped to the current automation run.'',
     nt_supported = True,
     nt_fields = [fd_make_required (fd_new ''op'' (Enum [''get'', ''set'', ''merge'', ''delete'']) ''Operation''),
       fd_new ''entries'' KvMap ''Entries''],
     nt_inputs = default_in, nt_outputs = default_out, nt_outputs_from_field = None, nt_version = 1\<rparr>"

definition nt_memory_commit :: node_type_def where
  "nt_memory_commit = \<lparr>nt_id = ''memory_commit'', nt_kind = EngineKind, nt_category = ''State'', nt_label = ''Memory commit'', nt_icon = ''database'',
     nt_description = ''Validate and atomically commit structured agent-memory changes.'',
     nt_supported = True,
     nt_fields = [fd_make_required (fd_new ''source_node'' Text ''Source node''),
       fd_with_help ''Engine-owned invocation agent; only {{trigger.output.agent_id}} is accepted.'' (fd_with_default (JString ''{{trigger.output.agent_id}}'') (fd_make_required (fd_new ''agent_id'' Text ''Memory agent'')))],
     nt_inputs = default_in, nt_outputs = default_out, nt_outputs_from_field = None, nt_version = 1\<rparr>"

definition nt_message_send :: node_type_def where
  "nt_message_send = \<lparr>nt_id = ''message_send'', nt_kind = EngineKind, nt_category = ''Action'', nt_label = ''Send message'', nt_icon = ''send'',
     nt_description = ''Admit an exact UTF-8 workspace artifact as a host informational message. Requires the application host; no task or reply is created.'',
     nt_supported = True,
     nt_fields = [fd_with_help ''One exact UUID or unambiguous exact agent name. No class or broadcast selectors. Must resolve before tasks start.'' (fd_make_required (fd_new ''recipient'' Text ''Recipient'')),
       fd_with_help ''Workspace-relative UTF-8 file, at most 64 KiB. Use a run-specific directory such as .wardian-review/{{run.id}}/review.md; an existing artifact fails fresh-run preflight.'' (fd_make_required (fd_new ''artifact_path'' Text ''Artifact path''))],
     nt_inputs = default_in, nt_outputs = default_out, nt_outputs_from_field = None, nt_version = 1\<rparr>"

definition nt_notify :: node_type_def where
  "nt_notify = \<lparr>nt_id = ''notify'', nt_kind = EngineKind, nt_category = ''State'', nt_label = ''Notify'', nt_icon = ''bell'',
     nt_description = ''Send an operator-facing notification.'',
     nt_supported = True,
     nt_fields = [fd_make_required (fd_new ''message'' Prompt ''Message'')],
     nt_inputs = default_in, nt_outputs = default_out, nt_outputs_from_field = None, nt_version = 1\<rparr>"

definition nt_sub_automation :: node_type_def where
  "nt_sub_automation = \<lparr>nt_id = ''sub_automation'', nt_kind = EngineKind, nt_category = ''Action'', nt_label = ''Sub-automation'', nt_icon = ''automation'',
     nt_description = ''Reserved for durable child automation runs; not available for execution yet.'',
     nt_supported = False,
     nt_fields = [fd_make_required (fd_new ''automation'' AutomationRef ''Automation'')],
     nt_inputs = default_in, nt_outputs = default_out, nt_outputs_from_field = None, nt_version = 1\<rparr>"

definition nt_manual_trigger :: node_type_def where
  "nt_manual_trigger = \<lparr>nt_id = ''manual_trigger'', nt_kind = TriggerKind, nt_category = ''Trigger'', nt_label = ''Manual Trigger'', nt_icon = ''play'',
     nt_description = ''Entry point. Runs on demand or when an invoker fires it.'',
     nt_supported = True,
     nt_fields = [fd_new ''input_schema'' JsonSchema ''Input schema''],
     nt_inputs = [], nt_outputs = default_out, nt_outputs_from_field = None, nt_version = 1\<rparr>"

definition node_types :: "node_type_def list" where
  "node_types = [nt_task, nt_decision, nt_branch, nt_loop, nt_join, nt_approval, nt_shell, nt_script, nt_state, nt_memory_commit, nt_message_send, nt_notify, nt_sub_automation, nt_manual_trigger]"

definition find_node_type :: "string \<Rightarrow> node_type_def option" where
  "find_node_type i = find (\<lambda>n. nt_id n = i) node_types"

lemmas node_type_defs = nt_task_def nt_decision_def nt_branch_def nt_loop_def nt_join_def nt_approval_def nt_shell_def nt_script_def nt_state_def nt_memory_commit_def nt_message_send_def nt_notify_def nt_sub_automation_def nt_manual_trigger_def

lemma find_node_type_Some: "find_node_type i = Some d \<Longrightarrow> d \<in> set node_types \<and> nt_id d = i"
  by (auto simp: find_node_type_def find_Some_iff)

text \<open>The ids and the support flags of the registry, as one equation per lookup.\<close>

lemma node_type_ids:
  "map nt_id node_types = [''task'', ''decision'', ''branch'', ''loop'', ''join'', ''approval'',
     ''shell'', ''script'', ''state'', ''memory_commit'', ''message_send'', ''notify'',
     ''sub_automation'', ''manual_trigger'']"
  by (simp add: node_types_def node_type_defs)

lemma node_type_ids_distinct: "distinct (map nt_id node_types)"
  unfolding node_type_ids by simp

lemma find_node_type_known [simp]:
  "find_node_type ''task'' = Some nt_task"
  "find_node_type ''decision'' = Some nt_decision"
  "find_node_type ''branch'' = Some nt_branch"
  "find_node_type ''loop'' = Some nt_loop"
  "find_node_type ''join'' = Some nt_join"
  "find_node_type ''approval'' = Some nt_approval"
  "find_node_type ''shell'' = Some nt_shell"
  "find_node_type ''script'' = Some nt_script"
  "find_node_type ''state'' = Some nt_state"
  "find_node_type ''memory_commit'' = Some nt_memory_commit"
  "find_node_type ''message_send'' = Some nt_message_send"
  "find_node_type ''notify'' = Some nt_notify"
  "find_node_type ''sub_automation'' = Some nt_sub_automation"
  "find_node_type ''manual_trigger'' = Some nt_manual_trigger"
  unfolding find_node_type_def node_types_def by (simp_all add: node_type_defs)

text \<open>
  Only \<open>sub_automation\<close> is registered without being supported, and only a decision
  takes its output ports from one of its fields.
\<close>

lemma node_types_supported: "d \<in> set node_types \<Longrightarrow> nt_supported d \<longleftrightarrow> nt_id d \<noteq> ''sub_automation''"
  by (auto simp: node_types_def node_type_defs)

lemma node_types_ports_from_field:
  "d \<in> set node_types \<Longrightarrow>
     nt_outputs_from_field d = (if nt_id d = ''decision'' then Some ''choices'' else None)"
  by (auto simp: node_types_def node_type_defs)

end
