(* ===== verification/Cycle.thy ===== *)
theory Cycle
  imports Blueprint
begin

text \<open>
  Cycle detection (\<open>has_cycle\<close> of \<open>automation/validate.rs\<close>): Kahn's algorithm over the
  edges between nodes that exist. The result is \<open>None\<close> where the code would panic (a
  missing key, or a count that drops below zero); it never is. The order in which the hash
  map yields the first nodes is not specified, so the loop is analysed for every order.
\<close>

section \<open>Model\<close>

type_synonym counts = "(string \<times> nat) list"

definition init_counts :: "blueprint \<Rightarrow> counts" where
  "init_counts bp = im_collect (map (\<lambda>n. (nd_id n, 0)) (bp_nodes bp))"

definition count_edge :: "edge \<Rightarrow> counts \<times> (string \<Rightarrow> string list) \<Rightarrow> counts \<times> (string \<Rightarrow> string list)" where
  "count_edge e st =
     (case st of (indegree, adj) \<Rightarrow>
        (case (map_of indegree (ed_from e), map_of indegree (ed_to e)) of
           (Some _, Some d) \<Rightarrow>
             (AList.update (ed_to e) (d + 1) indegree,
              adj(ed_from e := adj (ed_from e) @ [ed_to e]))
         | _ \<Rightarrow> (indegree, adj)))"

fun relax :: "string list \<Rightarrow> string list \<Rightarrow> counts \<Rightarrow> (string list \<times> counts) option" where
  "relax [] queue indegree = Some (queue, indegree)"
| "relax (c # cs) queue indegree =
     (case map_of indegree c of
        None \<Rightarrow> None
      | Some 0 \<Rightarrow> None
      | Some (Suc d) \<Rightarrow>
          relax cs (if d = 0 then c # queue else queue) (AList.update c d indegree))"

abbreviation weight :: "counts \<Rightarrow> nat" where
  "weight indegree \<equiv> sum_list (map snd indegree)"

lemma weight_update:
  "map_of m c = Some v \<Longrightarrow> weight (AList.update c d m) + v = weight m + d"
  by (induction m) auto

lemma relax_weight:
  "relax cs q m = Some (q', m') \<Longrightarrow> length q' + weight m' \<le> length q + weight m"
proof (induction cs q m rule: relax.induct)
  case (1 queue indegree)
  then show ?case by simp
next
  case (2 c cs queue indegree)
  from "2.prems" obtain d where d: "map_of indegree c = Some (Suc d)" and
    r: "relax cs (if d = 0 then c # queue else queue) (AList.update c d indegree) = Some (q', m')"
    by (auto split: option.splits nat.splits)
  from "2.IH" [OF d refl r] weight_update [OF d, of d] show ?case
    by (auto split: if_splits)
qed

text \<open>The queue is a stack (\<open>Vec::pop\<close>), kept with its top first.\<close>

function kahn_loop :: "(string \<Rightarrow> string list) \<Rightarrow> string list \<Rightarrow> counts \<Rightarrow> nat \<Rightarrow> nat option" where
  "kahn_loop adj [] indegree visited = Some visited"
| "kahn_loop adj (n # queue) indegree visited =
     (case relax (adj n) queue indegree of
        None \<Rightarrow> None
      | Some (queue', indegree') \<Rightarrow> kahn_loop adj queue' indegree' (visited + 1))"
  by pat_completeness auto
termination
  by (relation "measure (\<lambda>(adj, queue, indegree, visited). length queue + weight indegree)")
    (auto dest: relax_weight)

definition edge_counts :: "blueprint \<Rightarrow> counts \<times> (string \<Rightarrow> string list)" where
  "edge_counts bp = fold count_edge (bp_edges bp) (init_counts bp, \<lambda>_. [])"

definition start_nodes :: "counts \<Rightarrow> string list" where
  "start_nodes indegree = map fst (filter (\<lambda>e. snd e = 0) indegree)"

definition has_cycle :: "blueprint \<Rightarrow> bool option" where
  "has_cycle bp =
     (case edge_counts bp of (indegree, adj) \<Rightarrow>
        map_option (\<lambda>visited. visited \<noteq> length (bp_nodes bp))
          (kahn_loop adj (start_nodes indegree) indegree 0))"

section \<open>The graph it decides about\<close>

definition known_edges :: "blueprint \<Rightarrow> (string \<times> string) list" where
  "known_edges bp = [(ed_from e, ed_to e). e \<leftarrow> bp_edges bp,
     ed_from e \<in> set (node_ids bp) \<and> ed_to e \<in> set (node_ids bp)]"

definition graph_rel :: "blueprint \<Rightarrow> (string \<times> string) set" where
  "graph_rel bp = set (known_edges bp)"

abbreviation children :: "(string \<times> string) list \<Rightarrow> string \<Rightarrow> string list" where
  "children es n \<equiv> map snd (filter (\<lambda>p. fst p = n) es)"

abbreviation pending_in :: "(string \<times> string) list \<Rightarrow> string set \<Rightarrow> string \<Rightarrow> nat" where
  "pending_in es P v \<equiv> length (filter (\<lambda>p. snd p = v \<and> fst p \<notin> P) es)"

lemma init_counts_get: "map_of (init_counts bp) v = (if v \<in> set (node_ids bp) then Some 0 else None)"
proof -
  have "map_of (map (\<lambda>n. (nd_id n, 0 :: nat)) xs) v = (if v \<in> nd_id ` set xs then Some 0 else None)"
    for xs by (induction xs) auto
  from this [of "rev (bp_nodes bp)"] show ?thesis
    unfolding init_counts_def im_collect_def
    by (auto simp: imap.get_fold_put rev_map split: option.splits)
qed

lemma init_counts_wf: "im_wf (init_counts bp)"
  by (simp add: init_counts_def im_wf_collect)

text \<open>What the first pass over the edges computes.\<close>

definition counted :: "string set \<Rightarrow> (string \<times> string) list \<Rightarrow> counts \<times> (string \<Rightarrow> string list) \<Rightarrow> bool" where
  "counted V es st \<longleftrightarrow> im_wf (fst st) \<and>
     (\<forall>v. map_of (fst st) v = (if v \<in> V then Some (pending_in es {} v) else None)) \<and>
     (\<forall>n. snd st n = children es n)"

lemma count_edge_counted:
  assumes "counted V es st"
  shows "counted V (es @ (if ed_from e \<in> V \<and> ed_to e \<in> V then [(ed_from e, ed_to e)] else []))
    (count_edge e st)"
  using assms unfolding counted_def count_edge_def
  by (cases st) (auto simp: im_get_update im_wf_update)

lemma fold_count_edge_counted:
  "counted V es st \<Longrightarrow>
   counted V (es @ [(ed_from e, ed_to e). e \<leftarrow> xs, ed_from e \<in> V \<and> ed_to e \<in> V]) (fold count_edge xs st)"
proof (induction xs arbitrary: es st)
  case Nil
  then show ?case by simp
next
  case (Cons x xs)
  from count_edge_counted [OF Cons.prems, of x] Cons.IH show ?case by fastforce
qed

lemma edge_counts_counted: "counted (set (node_ids bp)) (known_edges bp) (edge_counts bp)"
proof -
  have "counted (set (node_ids bp)) [] (init_counts bp, \<lambda>_. [])"
    by (simp add: counted_def init_counts_get init_counts_wf)
  from fold_count_edge_counted [OF this, of "bp_edges bp"] show ?thesis
    by (simp add: edge_counts_def known_edges_def)
qed

section \<open>The loop\<close>

text \<open>
  Relaxing the children of a node lowers each count by the number of edges from the node,
  and queues exactly the nodes whose count reaches zero.
\<close>

lemma relax_correct:
  assumes "\<And>v. v \<in> set cs \<Longrightarrow> \<exists>k. map_of m v = Some k \<and> count_list cs v \<le> k"
  shows "\<exists>news m'. relax cs q m = Some (news @ q, m') \<and> distinct news \<and>
    set news = {v \<in> set cs. map_of m v = Some (count_list cs v)} \<and>
    (\<forall>v. map_of m' v = map_option (\<lambda>k. k - count_list cs v) (map_of m v))"
  using assms
proof (induction cs arbitrary: q m)
  case Nil
  then show ?case by (auto simp: option.map_ident)
next
  case (Cons c cs)
  from Cons.prems [of c] obtain k where k: "map_of m c = Some k" "Suc (count_list cs c) \<le> k"
    by auto
  then obtain d where d: "k = Suc d" "count_list cs c \<le> d" by (cases k) auto
  let ?m = "AList.update c d m" and ?q = "if d = 0 then c # q else q"
  have "\<exists>k. map_of ?m v = Some k \<and> count_list cs v \<le> k" if v: "v \<in> set cs" for v
    using Cons.prems [of v] v d by (auto simp: im_get_update)
  from Cons.IH [OF this, of ?q] obtain news m' where
    r: "relax cs ?q ?m = Some (news @ ?q, m')" and dist: "distinct news" and
    news: "set news = {v \<in> set cs. map_of ?m v = Some (count_list cs v)}" and
    m': "\<forall>v. map_of m' v = map_option (\<lambda>k. k - count_list cs v) (map_of ?m v)" by blast
  have c_new: "c \<notin> set news" if "d = 0"
    using that d news by (auto simp: count_list_0_iff)
  have "relax (c # cs) q m = Some ((news @ (if d = 0 then [c] else [])) @ q, m')"
    using k d r by auto
  moreover have "distinct (news @ (if d = 0 then [c] else []))"
    using dist c_new by auto
  moreover have "set (news @ (if d = 0 then [c] else [])) =
      {v \<in> set (c # cs). map_of m v = Some (count_list (c # cs) v)}"
  proof (rule set_eqI)
    fix v
    show "v \<in> set (news @ (if d = 0 then [c] else [])) \<longleftrightarrow>
        v \<in> {v \<in> set (c # cs). map_of m v = Some (count_list (c # cs) v)}"
    proof (cases "v = c")
      case True
      have "v \<in> set news \<longleftrightarrow> c \<in> set cs \<and> d = count_list cs c"
        unfolding news using True by (simp add: im_get_update)
      moreover have "c \<notin> set cs \<longleftrightarrow> count_list cs c = 0" by (simp add: count_list_0_iff)
      ultimately show ?thesis using True k d by auto
    next
      case False
      then have "v \<in> set news \<longleftrightarrow> v \<in> set cs \<and> map_of m v = Some (count_list cs v)"
        unfolding news by (simp add: im_get_update)
      with False show ?thesis by simp
    qed
  qed
  moreover have "\<forall>v. map_of m' v = map_option (\<lambda>k. k - count_list (c # cs) v) (map_of m v)"
    using m' k d by (auto simp: im_get_update)
  ultimately show ?case by blast
qed

text \<open>
  The invariant of the loop. \<open>P\<close> is the list of the nodes taken so far, the last one
  first: no node is taken or queued twice, the counts are the numbers of edges from nodes
  not yet taken, the nodes with count zero are the ones taken or queued, and every taken
  node comes after all its predecessors.
\<close>

fun topo_ok :: "(string \<times> string) set \<Rightarrow> string list \<Rightarrow> bool" where
  "topo_ok E [] \<longleftrightarrow> True"
| "topo_ok E (n # P) \<longleftrightarrow> (\<forall>u. (u, n) \<in> E \<longrightarrow> u \<in> set P) \<and> topo_ok E P"

definition kahn_inv ::
  "string set \<Rightarrow> (string \<times> string) list \<Rightarrow> string list \<Rightarrow> string list \<Rightarrow> counts \<Rightarrow> bool" where
  "kahn_inv V es P q m \<longleftrightarrow>
     distinct (P @ q) \<and> set (P @ q) \<subseteq> V \<and>
     (\<forall>v. map_of m v = (if v \<in> V then Some (pending_in es (set P) v) else None)) \<and>
     (\<forall>v \<in> V. pending_in es (set P) v = 0 \<longleftrightarrow> v \<in> set (P @ q)) \<and>
     topo_ok (set es) P"

lemma count_children: "count_list (children es n) v = length (filter (\<lambda>p. snd p = v \<and> fst p = n) es)"
  by (induction es) auto

lemma pending_in_step:
  assumes "n \<notin> P"
  shows "pending_in es P v = pending_in es (insert n P) v + count_list (children es n) v"
  using assms unfolding count_children by (induction es) auto

lemma pending_in_0: "pending_in es P v = 0 \<longleftrightarrow> (\<forall>u. (u, v) \<in> set es \<longrightarrow> u \<in> P)"
  by (auto simp: filter_empty_conv)

lemma kahn_step:
  assumes inv: "kahn_inv V es P (n # q) m" and V: "set es \<subseteq> V \<times> V"
  shows "\<exists>q' m'. relax (children es n) q m = Some (q', m') \<and> kahn_inv V es (n # P) q' m'"
proof -
  from inv have n: "n \<in> V" "n \<notin> set P" and n0: "pending_in es (set P) n = 0"
    by (auto simp: kahn_inv_def)
  note split = pending_in_step [OF n(2), where es = es]
  have m: "map_of m v = (if v \<in> V then Some (pending_in es (set P) v) else None)" for v
    using inv by (simp add: kahn_inv_def)
  have "\<exists>k. map_of m v = Some k \<and> count_list (children es n) v \<le> k"
    if "v \<in> set (children es n)" for v
  proof -
    from that V have "v \<in> V" by auto
    then show ?thesis using m [of v] split [of v] by simp
  qed
  from relax_correct [OF this, of q] obtain news m' where
    r: "relax (children es n) q m = Some (news @ q, m')" and dist: "distinct news" and
    news: "set news = {v \<in> set (children es n). map_of m v = Some (count_list (children es n) v)}" and
    m': "\<And>v. map_of m' v = map_option (\<lambda>k. k - count_list (children es n) v) (map_of m v)" by blast
  have m'_eq: "map_of m' v = (if v \<in> V then Some (pending_in es (set (n # P)) v) else None)" for v
    using m' [of v] m [of v] split [of v] by simp
  have news_iff: "v \<in> set news \<longleftrightarrow>
      v \<in> V \<and> pending_in es (set (n # P)) v = 0 \<and> pending_in es (set P) v \<noteq> 0" for v
    using m [of v] split [of v] count_list_0_iff [of "children es n" v] news V
    by (auto split: if_splits)
  have zero: "pending_in es (set (n # P)) v = 0 \<longleftrightarrow> v \<in> set ((n # P) @ news @ q)" if "v \<in> V" for v
    using inv that news_iff [of v] split [of v] unfolding kahn_inv_def by auto
  have "distinct ((n # P) @ news @ q)"
    using inv dist news_iff unfolding kahn_inv_def by auto
  moreover have "set ((n # P) @ news @ q) \<subseteq> V"
    using inv news_iff by (auto simp: kahn_inv_def)
  moreover have "topo_ok (set es) (n # P)"
    using inv n0 unfolding pending_in_0 by (simp add: kahn_inv_def)
  ultimately have "kahn_inv V es (n # P) (news @ q) m'"
    unfolding kahn_inv_def using m'_eq zero by blast
  with r show ?thesis by blast
qed

lemma kahn_loop_end:
  assumes "kahn_inv V es P q m" "set es \<subseteq> V \<times> V" "adj = children es"
  shows "\<exists>P' m'. kahn_loop adj q m (length P) = Some (length P') \<and> kahn_inv V es P' [] m'"
  using assms
proof (induction adj q m "length P" arbitrary: P rule: kahn_loop.induct)
  case (1 adj m)
  then show ?case by auto
next
  case (2 adj n queue m)
  from kahn_step [OF 2(2,3)] obtain q' m' where
    r: "relax (children es n) queue m = Some (q', m')" and inv: "kahn_inv V es (n # P) q' m'" by blast
  have "\<exists>P' m''. kahn_loop adj q' m' (length (n # P)) = Some (length P') \<and> kahn_inv V es P' [] m''"
    by (rule 2(1) [OF _ refl _ inv 2(3,4)]) (use r 2(4) in auto)
  with r 2(4) show ?case by simp
qed

section \<open>Correctness\<close>

lemma topo_ok_trancl:
  assumes "topo_ok E P" "distinct P" "(u, v) \<in> E\<^sup>+" "P = xs @ v # ys"
  shows "u \<in> set ys"
  using assms
proof (induction P arbitrary: xs u v ys)
  case Nil
  then show ?case by simp
next
  case (Cons n P)
  have tail: "u \<in> set zs" if "(u, w) \<in> E\<^sup>+" "P = ws @ w # zs" for u w ws zs
    using Cons.IH [OF _ _ that] Cons.prems(1,2) by simp
  show ?case
  proof (cases xs)
    case Nil
    with Cons.prems(4) have v: "v = n" "ys = P" by auto
    from Cons.prems(3) show ?thesis
    proof (cases rule: tranclE)
      case base
      with v Cons.prems(1) show ?thesis by simp
    next
      case (step w)
      with v Cons.prems(1) have "w \<in> set P" by simp
      then obtain ws zs where "P = ws @ w # zs" by (auto simp: in_set_conv_decomp)
      with tail [OF step(1)] v show ?thesis by simp
    qed
  next
    case (Cons x xs')
    with Cons.prems(4) tail [OF Cons.prems(3)] show ?thesis by simp
  qed
qed

lemma topo_ok_acyclic:
  assumes "topo_ok E P" "distinct P" "E \<subseteq> set P \<times> set P"
  shows "acyclic E"
  unfolding acyclic_def
proof (intro allI notI)
  fix v assume c: "(v, v) \<in> E\<^sup>+"
  then obtain u where "(v, u) \<in> E" by (meson tranclD)
  with assms(3) have "v \<in> set P" by auto
  then obtain xs ys where P: "P = xs @ v # ys" by (auto simp: in_set_conv_decomp)
  with topo_ok_trancl [OF assms(1,2) c P] assms(2) show False by simp
qed

text \<open>A finite set in which every element has a predecessor contains a cycle.\<close>

lemma predecessors_cycle:
  assumes "finite W" "W \<noteq> {}" "\<And>w. w \<in> W \<Longrightarrow> \<exists>u \<in> W. (u, w) \<in> E"
  shows "\<not> acyclic E"
proof
  assume "acyclic E"
  then have "wf (E \<inter> W \<times> W)"
    using assms(1) by (intro finite_acyclic_wf) (auto intro: acyclic_subset)
  then obtain w where "w \<in> W" "\<And>u. (u, w) \<in> E \<inter> W \<times> W \<Longrightarrow> u \<notin> W"
    using assms(2) by (metis ex_in_conv wfE_min)
  with assms(3) show False by blast
qed

lemma kahn_end_acyclic:
  assumes inv: "kahn_inv V es P [] m" and V: "set es \<subseteq> V \<times> V" "finite V"
  shows "length P = card V \<longleftrightarrow> acyclic (set es)"
proof
  assume "length P = card V"
  then have "set P = V"
    using inv V(2) by (auto simp: kahn_inv_def distinct_card card_subset_eq)
  with inv V(1) show "acyclic (set es)"
    by (intro topo_ok_acyclic [of _ P]) (auto simp: kahn_inv_def)
next
  assume ac: "acyclic (set es)"
  have "\<exists>u \<in> V - set P. (u, w) \<in> set es" if "w \<in> V - set P" for w
  proof -
    from that inv have "pending_in es (set P) w \<noteq> 0" by (simp add: kahn_inv_def)
    with V(1) show ?thesis unfolding pending_in_0 by auto
  qed
  then have "V - set P = {}"
    using predecessors_cycle [of "V - set P" "set es"] ac V(2) by blast
  with inv show "length P = card V"
    unfolding kahn_inv_def by (metis Diff_eq_empty_iff append_Nil2 distinct_card subset_antisym)
qed

lemma kahn_start:
  assumes c: "counted V es (m, adj)" and q: "mset q = mset (start_nodes m)"
  shows "kahn_inv V es [] q m"
proof -
  from c have m: "im_wf m" "\<And>v. map_of m v = (if v \<in> V then Some (pending_in es {} v) else None)"
    by (auto simp: counted_def)
  have "distinct (start_nodes m)"
    using m(1) by (simp add: start_nodes_def im_wf_def distinct_map_filter)
  moreover have "v \<in> set (start_nodes m) \<longleftrightarrow> map_of m v = Some 0" for v
    using m(1) by (force simp: start_nodes_def im_wf_def)
  moreover have "distinct q \<longleftrightarrow> distinct (start_nodes m)" "set q = set (start_nodes m)"
    using q by (auto dest: mset_eq_imp_distinct_iff mset_eq_setD)
  ultimately show ?thesis
    using m(2) by (auto simp: kahn_inv_def split: if_splits)
qed

text \<open>The order of the first nodes does not matter.\<close>

lemma kahn_any_order:
  assumes "mset q = mset (start_nodes (fst (edge_counts bp)))"
  shows "\<exists>k. kahn_loop (snd (edge_counts bp)) q (fst (edge_counts bp)) 0 = Some k \<and>
    (k = length (bp_nodes bp) \<longleftrightarrow> distinct (node_ids bp) \<and> acyclic (graph_rel bp)) \<and>
    k \<le> length (bp_nodes bp)"
proof -
  let ?V = "set (node_ids bp)" and ?es = "known_edges bp"
  obtain m adj where st: "edge_counts bp = (m, adj)" by fastforce
  have c: "counted ?V ?es (m, adj)" using edge_counts_counted [of bp] by (simp add: st)
  then have adj: "adj = children ?es" by (auto simp: counted_def)
  have V: "set ?es \<subseteq> ?V \<times> ?V" by (auto simp: known_edges_def split: if_splits)
  have q: "mset q = mset (start_nodes m)" using assms by (simp add: st)
  from kahn_loop_end [OF kahn_start [OF c q] V adj] obtain P m' where
    loop: "kahn_loop adj q m 0 = Some (length P)" and inv: "kahn_inv ?V ?es P [] m'"
    by auto
  have le: "length P \<le> card ?V"
    using inv unfolding kahn_inv_def by (metis append_Nil2 card_mono distinct_card finite_set)
  have "length P = length (bp_nodes bp) \<longleftrightarrow> distinct (node_ids bp) \<and> length P = card ?V"
    using le card_length [of "node_ids bp"] card_distinct [of "node_ids bp"]
      distinct_card [of "node_ids bp"]
    by (metis le_antisym length_map)
  also have "\<dots> \<longleftrightarrow> distinct (node_ids bp) \<and> acyclic (graph_rel bp)"
    using kahn_end_acyclic [OF inv V] by (simp add: graph_rel_def)
  finally show ?thesis
    using loop le card_length [of "node_ids bp"] by (simp add: st)
qed

lemma has_cycle_iff:
  "has_cycle bp = Some (\<not> distinct (node_ids bp) \<or> \<not> acyclic (graph_rel bp))"
  using kahn_any_order [OF refl, of bp]
  by (auto simp: has_cycle_def split: prod.splits)

text \<open>
  C20. Kahn's algorithm as written decides what it is meant to: it never hits a missing or
  negative count, and it reports a cycle exactly when two nodes share an id or the edges
  between existing nodes have a cycle.
\<close>

theorem has_cycle_correct:
  "has_cycle bp = Some (\<not> (distinct (node_ids bp) \<and> acyclic (graph_rel bp)))"
  by (simp add: has_cycle_iff)

end
