(* ===== verification/Validate.thy ===== *)
theory Validate
  imports Cycle Node_Registry Condition Interpolate
begin

text \<open>
  Blueprint validation (\<open>automation/validate.rs\<close>): the diagnostics with their codes and
  messages, one definition per pass of \<open>validate\<close>, in the order of the source. Where the
  code iterates over a hash set the order of the diagnostics is not specified; the model
  takes the order of the nodes.
\<close>

section \<open>Diagnostics\<close>

datatype severity = SevError | SevWarning

record diagnostic =
  dg_severity :: severity
  dg_code :: string
  dg_message :: string
  dg_node :: "string option"

definition diag_error :: "string \<Rightarrow> string \<Rightarrow> string option \<Rightarrow> diagnostic" where
  "diag_error code message nd =
     \<lparr>dg_severity = SevError, dg_code = code, dg_message = message, dg_node = nd\<rparr>"

definition diag_warning :: "string \<Rightarrow> string \<Rightarrow> string option \<Rightarrow> diagnostic" where
  "diag_warning code message nd =
     \<lparr>dg_severity = SevWarning, dg_code = code, dg_message = message, dg_node = nd\<rparr>"

type_synonym report = "diagnostic list"

definition report_is_valid :: "report \<Rightarrow> bool" where
  "report_is_valid r \<longleftrightarrow> \<not> list_ex (\<lambda>d. dg_severity d = SevError) r"

definition report_errors :: "report \<Rightarrow> diagnostic list" where
  "report_errors r = filter (\<lambda>d. dg_severity d = SevError) r"

abbreviation tick :: "string \<Rightarrow> string" where
  "tick s \<equiv> ''`'' @ s @ ''`''"

section \<open>Field values\<close>

definition is_single_template :: "string \<Rightarrow> bool" where
  "is_single_template value =
     (let trimmed = trim value
      in if \<not> prefix ''{{'' trimmed \<or> \<not> suffix ''}}'' trimmed then False
         else (let inner = trim (take (length trimmed - 4) (drop 2 trimmed))
               in inner \<noteq> [] \<and> \<not> str_contains inner ''{{'' \<and> \<not> str_contains inner ''}}''))"

definition check_loop_max_iterations :: "json \<Rightarrow> string option" where
  "check_loop_max_iterations value =
     (case as_u64 value of
        Some n \<Rightarrow> if n = 0 then Some ''expected a positive integer or a {{...}} template'' else None
      | None \<Rightarrow>
          (case as_str value of
             Some template \<Rightarrow>
               if \<not> is_single_template template
               then Some ''expected a positive integer or a single {{...}} template'' else None
           | None \<Rightarrow> Some ''expected a positive integer or a {{...}} template''))"

text \<open>
  The slice between the braces (\<open>trimmed[2..trimmed.len() - 2]\<close>) is always in range: a
  text that starts and ends with double braces has at least four bytes.
\<close>

lemma single_template_slice: "prefix ''{{'' s \<Longrightarrow> suffix ''}}'' s \<Longrightarrow> 4 \<le> length s"
  by (cases s rule: rev_cases; cases "butlast s" rule: rev_cases)
    (auto simp: prefix_def suffix_def append_eq_Cons_conv Cons_eq_append_conv)

text \<open>\<open>{:?}\<close> of a list of plain option names.\<close>

fun debug_items :: "string list \<Rightarrow> string" where
  "debug_items [] = []"
| "debug_items [s] = [CHR 0x22] @ s @ [CHR 0x22]"
| "debug_items (s # t # ss) = [CHR 0x22] @ s @ [CHR 0x22] @ '', '' @ debug_items (t # ss)"

fun check_value_kind :: "field_type \<Rightarrow> json \<Rightarrow> string option" where
  "check_value_kind BoolField v = (if is_boolean v then None else Some ''expected a boolean'')"
| "check_value_kind NumberField v = (if is_number v then None else Some ''expected a number'')"
| "check_value_kind KvMap v = (if is_object v then None else Some ''expected an object'')"
| "check_value_kind BranchPort v =
     (case as_array v of
        Some vs \<Rightarrow> if list_all is_string vs then None else Some ''expected an array of strings''
      | None \<Rightarrow> Some ''expected an array of strings'')"
| "check_value_kind (Enum options) v =
     (case as_str v of
        Some s \<Rightarrow> if s \<in> set options then None
                  else Some (tick s @ '' is not one of ['' @ debug_items options @ '']'')
      | None \<Rightarrow> Some ''expected a string'')"
| "check_value_kind _ v = (if is_string v then None else Some ''expected a string'')"

text \<open>Delivery fields name the invocation's values or the run id only.\<close>

function delivery_refs :: "string \<Rightarrow> string option" where
  "delivery_refs rest =
     (case find_sub ''{{'' rest of
        None \<Rightarrow> None
      | Some start \<Rightarrow>
          (let after = drop (start + 2) rest
           in case find_sub ''}}'' after of
                None \<Rightarrow> Some ''unterminated interpolation''
              | Some fin \<Rightarrow>
                  (let path = trim (take fin after)
                   in case validate_path path of
                        Inl e \<Rightarrow> Some e
                      | Inr _ \<Rightarrow>
                          if path \<noteq> ''run.id'' \<and> \<not> prefix ''trigger.output.'' path
                          then Some ''delivery fields only support trigger.output values and reserved run.id''
                          else delivery_refs (drop (fin + 2) after))))"
  by pat_completeness auto
termination
  by (relation "measure length") (auto dest!: find_sub_Some)

declare delivery_refs.simps [simp del]

definition validate_delivery_template :: "string \<Rightarrow> string option" where
  "validate_delivery_template value =
     (if trim value = [] then Some ''expected a nonempty delivery field'' else delivery_refs value)"

section \<open>Ports\<close>

definition declares_output_port :: "node_type_def \<Rightarrow> node \<Rightarrow> string \<Rightarrow> bool" where
  "declares_output_port def n port =
     (case nt_outputs_from_field def of
        Some field \<Rightarrow>
          (case map_of (nd_fields n) field of
             None \<Rightarrow> False
           | Some v \<Rightarrow>
               (case as_array v of
                  None \<Rightarrow> False
                | Some values \<Rightarrow> list_ex (\<lambda>value. as_str value = Some port) values))
      | None \<Rightarrow> list_ex (\<lambda>out. port_id out = port) (nt_outputs def))"

definition is_valid_port_id :: "string \<Rightarrow> bool" where
  "is_valid_port_id port =
     (case port of
        [] \<Rightarrow> False
      | first # chars \<Rightarrow>
          (ascii_alphabetic first \<or> first = CHR ''_'') \<and>
          list_all (\<lambda>c. ascii_alphanumeric c \<or> c = CHR ''_'' \<or> c = CHR ''-'') chars)"

section \<open>Decision choices\<close>

fun choice_diags :: "blueprint \<Rightarrow> node \<Rightarrow> string list \<Rightarrow> json list \<Rightarrow> report" where
  "choice_diags bp n seen [] = []"
| "choice_diags bp n seen (v # vs) =
     (case as_str v of
        None \<Rightarrow> choice_diags bp n seen vs
      | Some choice \<Rightarrow>
          (if is_valid_port_id choice then []
           else [diag_error ''invalid_decision_choice''
             (''decision node '' @ tick (nd_id n) @ '' choice '' @ tick choice @
              '' is not a valid output port id'') (Some (nd_id n))]) @
          (if choice \<in> set seen
           then [diag_error ''duplicate_decision_choice''
             (''decision node '' @ tick (nd_id n) @ '' declares choice '' @ tick choice @
              '' more than once'') (Some (nd_id n))]
           else []) @
          (if is_valid_port_id choice \<and>
              \<not> list_ex (\<lambda>e. ed_from e = nd_id n \<and> ed_from_port e = choice) (bp_edges bp)
           then [diag_error ''unconnected_decision_choice''
             (''decision node '' @ tick (nd_id n) @ '' choice '' @ tick choice @
              '' has no outgoing edge'') (Some (nd_id n))]
           else []) @
          choice_diags bp n (choice # seen) vs)"

definition validate_decision_choices :: "blueprint \<Rightarrow> node \<Rightarrow> report" where
  "validate_decision_choices bp n =
     (case map_of (nd_fields n) ''choices'' of
        None \<Rightarrow> []
      | Some v \<Rightarrow>
          (case as_array v of
             None \<Rightarrow> []
           | Some choices \<Rightarrow>
               if choices = []
               then [diag_error ''empty_decision_choices''
                 (''decision node '' @ tick (nd_id n) @ '' must declare at least one choice'')
                 (Some (nd_id n))]
               else choice_diags bp n [] choices))"

section \<open>The passes\<close>

text \<open>First pass: every id after its first use.\<close>

fun duplicate_diags :: "string list \<Rightarrow> node list \<Rightarrow> report" where
  "duplicate_diags seen [] = []"
| "duplicate_diags seen (n # ns) =
     (if nd_id n \<in> set seen
      then [diag_error ''duplicate_node_id'' (''duplicate node id '' @ tick (nd_id n)) (Some (nd_id n))]
      else []) @ duplicate_diags (nd_id n # seen) ns"

text \<open>Second pass: one field of a node; the iteration bound of a loop only warns.\<close>

definition field_diags :: "node \<Rightarrow> field_def \<Rightarrow> report" where
  "field_diags n field =
     (let present = map_of (nd_fields n) (fd_id field) in
      (if fd_required field \<and> present = None
       then [diag_error ''missing_required_field''
         (''node '' @ tick (nd_id n) @ '' is missing required field '' @ tick (fd_id field)) (Some (nd_id n))]
       else []) @
      (case present of
         None \<Rightarrow> []
       | Some value \<Rightarrow>
           if nd_type n = ''loop'' \<and> fd_id field = ''max_iterations''
           then (case check_loop_max_iterations value of
                   Some msg \<Rightarrow> [diag_warning ''invalid_loop_max_iterations''
                     (''node '' @ tick (nd_id n) @ '' field `max_iterations`: '' @ msg) (Some (nd_id n))]
                 | None \<Rightarrow> [])
           else
             (if nd_type n = ''branch'' \<and> fd_id field = ''condition'' \<or>
                 nd_type n = ''loop'' \<and> fd_id field = ''until''
              then (case as_str value of
                      None \<Rightarrow> []
                    | Some condition \<Rightarrow>
                        (case validate_path condition of
                           Inl message \<Rightarrow> [diag_error ''invalid_condition''
                             (''node '' @ tick (nd_id n) @ '' field '' @ tick (fd_id field) @ '': '' @ message)
                             (Some (nd_id n))]
                         | Inr _ \<Rightarrow> []))
              else []) @
             (case check_value_kind (fd_type field) value of
                Some msg \<Rightarrow> [diag_error ''invalid_field_value''
                  (''node '' @ tick (nd_id n) @ '' field '' @ tick (fd_id field) @ '': '' @ msg) (Some (nd_id n))]
              | None \<Rightarrow> [])))"

definition delivery_diags :: "node \<Rightarrow> string \<Rightarrow> report" where
  "delivery_diags n key =
     (case map_of (nd_fields n) key of
        None \<Rightarrow> []
      | Some v \<Rightarrow>
          (case as_str v of
             None \<Rightarrow> []
           | Some value \<Rightarrow>
               (case validate_delivery_template value of
                  Some message \<Rightarrow> [diag_error ''invalid_delivery_template''
                    (''node '' @ tick (nd_id n) @ '' field '' @ tick key @ '': '' @ message) (Some (nd_id n))]
                | None \<Rightarrow> [])))"

definition parent_diags :: "blueprint \<Rightarrow> node \<Rightarrow> report" where
  "parent_diags bp n =
     (case nd_parent n of
        None \<Rightarrow> []
      | Some parent_id \<Rightarrow>
          (let parent_is_loop =
                 (case find_node bp parent_id of None \<Rightarrow> False | Some p \<Rightarrow> nd_type p = ''loop'')
           in (if \<not> parent_is_loop
               then [diag_error ''invalid_parent''
                 (''node '' @ tick (nd_id n) @ '' parent '' @ tick parent_id @ '' is not a loop node'')
                 (Some (nd_id n))]
               else []) @
              (if nd_type n = ''loop'' \<and> parent_is_loop
               then [diag_error ''nested_loop_unsupported''
                 (''loop node '' @ tick (nd_id n) @ '' cannot be nested inside loop '' @ tick parent_id @
                  '' until nested-loop replay is supported'') (Some (nd_id n))]
               else [])))"

definition node_diags :: "blueprint \<Rightarrow> node \<Rightarrow> report" where
  "node_diags bp n =
     (case find_node_type (nd_type n) of
        None \<Rightarrow> [diag_error ''unknown_node_type''
          (''unknown node type '' @ tick (nd_type n) @ '' (see `wardian automation node-types`)'')
          (Some (nd_id n))]
      | Some def \<Rightarrow>
          if \<not> nt_supported def
          then [diag_error ''unsupported_node_type''
            (''node type '' @ tick (nd_type n) @ '' is registered but not supported by the automation runtime'')
            (Some (nd_id n))]
          else
            concat (map (field_diags n) (nt_fields def)) @
            (if nd_type n = ''decision'' then validate_decision_choices bp n else []) @
            (if nd_type n = ''message_send''
             then concat (map (delivery_diags n) [''recipient'', ''artifact_path'']) else []) @
            parent_diags bp n)"

text \<open>Third pass: loops have a body. Fourth pass: edges and ports.\<close>

definition body_of :: "blueprint \<Rightarrow> string \<Rightarrow> string list" where
  "body_of bp loop_id = map nd_id (filter (\<lambda>n. nd_parent n = Some loop_id) (bp_nodes bp))"

definition empty_loop_diags :: "blueprint \<Rightarrow> node \<Rightarrow> report" where
  "empty_loop_diags bp n =
     (if nd_type n = ''loop'' \<and> \<not> list_ex (\<lambda>child. nd_parent child = Some (nd_id n)) (bp_nodes bp)
      then [diag_error ''empty_loop_body''
        (''loop node '' @ tick (nd_id n) @ '' must contain at least one body node'') (Some (nd_id n))]
      else [])"

definition dangling :: "edge \<Rightarrow> diagnostic" where
  "dangling e = diag_error ''dangling_edge''
     (''edge '' @ tick (ed_from e) @ '' -> '' @ tick (ed_to e) @ '' references a missing node'') None"

definition edge_diags :: "blueprint \<Rightarrow> edge \<Rightarrow> report" where
  "edge_diags bp e =
     (case find_node bp (ed_from e) of
        None \<Rightarrow> [dangling e]
      | Some from_node \<Rightarrow>
          (case find_node bp (ed_to e) of
             None \<Rightarrow> [dangling e]
           | Some to_node \<Rightarrow>
               (case find_node_type (nd_type from_node) of
                  None \<Rightarrow> []
                | Some def \<Rightarrow>
                    if nt_supported def \<and> \<not> declares_output_port def from_node (ed_from_port e)
                    then [diag_error ''unknown_output_port''
                      (''edge '' @ tick (ed_from e) @ '' -> '' @ tick (ed_to e) @
                       '' uses unknown output port '' @ tick (ed_from_port e) @ '' on node '' @
                       tick (ed_from e)) (Some (ed_from e))]
                    else []) @
               (case find_node_type (nd_type to_node) of
                  None \<Rightarrow> []
                | Some def \<Rightarrow>
                    if nt_supported def \<and> \<not> list_ex (\<lambda>port. port_id port = ed_to_port e) (nt_inputs def)
                    then [diag_error ''unknown_input_port''
                      (''edge '' @ tick (ed_from e) @ '' -> '' @ tick (ed_to e) @
                       '' uses unknown input port '' @ tick (ed_to_port e) @ '' on node '' @
                       tick (ed_to e)) (Some (ed_to e))]
                    else [])))"

text \<open>
  Fifth pass: the body of a loop is reachable from its \<open>body\<close> port. The frontier is a
  stack (\<open>Vec::pop\<close>), kept with its top first.
\<close>

definition body_children :: "edge list \<Rightarrow> string list \<Rightarrow> string \<Rightarrow> string list" where
  "body_children es body n = [ed_to e. e \<leftarrow> es, ed_from e = n \<and> ed_to e \<in> set body]"

function reach_loop :: "edge list \<Rightarrow> string list \<Rightarrow> string list \<Rightarrow> string list \<Rightarrow> string list" where
  "reach_loop es body reachable [] = reachable"
| "reach_loop es body reachable (n # frontier) =
     (if n \<in> set reachable then reach_loop es body reachable frontier
      else reach_loop es body (n # reachable) (rev (body_children es body n) @ frontier))"
  by pat_completeness auto
termination
proof (relation "measures [\<lambda>(es, body, reachable, frontier). card (set body \<union> set frontier - set reachable),
    \<lambda>(es, body, reachable, frontier). length frontier]")
  fix es :: "edge list" and body reachable :: "string list" and n :: string and frontier
  assume n: "n \<in> set reachable"
  have "set body \<union> set frontier - set reachable = set body \<union> set (n # frontier) - set reachable"
    using n by auto
  then show "((es, body, reachable, frontier), es, body, reachable, n # frontier)
      \<in> measures [\<lambda>(es, body, reachable, frontier). card (set body \<union> set frontier - set reachable),
          \<lambda>(es, body, reachable, frontier). length frontier]"
    by simp
next
  fix es :: "edge list" and body reachable :: "string list" and n :: string and frontier
  assume n: "n \<notin> set reachable"
  have "set (body_children es body n) \<subseteq> set body" by (auto simp: body_children_def split: if_splits)
  then have "set body \<union> set (rev (body_children es body n) @ frontier) - set (n # reachable)
      \<subset> set body \<union> set (n # frontier) - set reachable"
    using n by auto
  then have "card (set body \<union> set (rev (body_children es body n) @ frontier) - set (n # reachable))
      < card (set body \<union> set (n # frontier) - set reachable)"
    by (intro psubset_card_mono) auto
  then show "((es, body, n # reachable, rev (body_children es body n) @ frontier), es, body, reachable, n # frontier)
      \<in> measures [\<lambda>(es, body, reachable, frontier). card (set body \<union> set frontier - set reachable),
          \<lambda>(es, body, reachable, frontier). length frontier]"
    by simp
qed simp

definition body_entries :: "blueprint \<Rightarrow> node \<Rightarrow> string list" where
  "body_entries bp n =
     [ed_to e. e \<leftarrow> bp_edges bp,
        ed_from e = nd_id n \<and> ed_from_port e = ''body'' \<and> ed_to e \<in> set (body_of bp (nd_id n))]"

definition reachable_body :: "blueprint \<Rightarrow> node \<Rightarrow> string list" where
  "reachable_body bp n =
     reach_loop (bp_edges bp) (body_of bp (nd_id n)) [] (rev (body_entries bp n))"

definition loop_body_diags :: "blueprint \<Rightarrow> node \<Rightarrow> report" where
  "loop_body_diags bp n =
     (let body = body_of bp (nd_id n); reachable = reachable_body bp n in
      if nd_type n \<noteq> ''loop'' \<or> body = [] then []
      else
        (if reachable = []
         then [diag_error ''missing_loop_body_entry''
           (''loop node '' @ tick (nd_id n) @ '' must connect its `body` port to a body node'')
           (Some (nd_id n))]
         else []) @
        [diag_error ''unreachable_loop_body''
           (''loop body node '' @ tick i @ '' is not reachable from loop '' @ tick (nd_id n) @
            '' body port'') (Some i).
         i \<leftarrow> remdups body, i \<notin> set reachable] @
        [diag_error ''loop_body_external_input''
           (''loop body node '' @ tick (ed_to e) @ '' cannot receive an inbound edge from outside loop '' @
            tick (nd_id n)) (Some (ed_to e)).
         e \<leftarrow> bp_edges bp,
         ed_to e \<in> set body \<and> ed_from e \<noteq> nd_id n \<and> ed_from e \<notin> set body])"

text \<open>The whole validation; \<open>None\<close> is the panic of the cycle check, which never happens.\<close>

definition validate :: "blueprint \<Rightarrow> report option" where
  "validate bp =
     (case has_cycle bp of
        None \<Rightarrow> None
      | Some cycle \<Rightarrow> Some
          (duplicate_diags [] (bp_nodes bp) @
           concat (map (node_diags bp) (bp_nodes bp)) @
           concat (map (empty_loop_diags bp) (bp_nodes bp)) @
           concat (map (edge_diags bp) (bp_edges bp)) @
           concat (map (loop_body_diags bp) (bp_nodes bp)) @
           (if cycle
            then [diag_error ''cycle_detected''
              ''graph contains a cycle; use a loop container instead of a back-edge'' None]
            else [])))"

section \<open>Reports without errors\<close>

named_theorems valid_simps \<open>when a part of the report has no error\<close>

lemma report_is_valid_simps [simp]:
  "report_is_valid []"
  "report_is_valid (d # r) \<longleftrightarrow> dg_severity d \<noteq> SevError \<and> report_is_valid r"
  "report_is_valid (r @ r') \<longleftrightarrow> report_is_valid r \<and> report_is_valid r'"
  "report_is_valid (concat rs) \<longleftrightarrow> (\<forall>r \<in> set rs. report_is_valid r)"
  by (auto simp: report_is_valid_def list_ex_iff)

lemma diag_severity [simp]:
  "dg_severity (diag_error c m i) = SevError"
  "dg_severity (diag_warning c m i) = SevWarning"
  "dg_severity (dangling e) = SevError"
  by (simp_all add: diag_error_def diag_warning_def dangling_def)

lemma report_is_valid_each [simp]:
  "report_is_valid (concat (map (\<lambda>x. if P x then [diag_error c (m x) (i x)] else []) xs)) \<longleftrightarrow>
     (\<forall>x \<in> set xs. \<not> P x)"
  by (induction xs) auto

lemma report_is_valid_errors: "report_is_valid r \<longleftrightarrow> report_errors r = []"
  by (auto simp: report_is_valid_def report_errors_def filter_empty_conv list_ex_iff)

lemma valid_duplicate [valid_simps]:
  "report_is_valid (duplicate_diags seen ns) \<longleftrightarrow>
     distinct (map nd_id ns) \<and> set (map nd_id ns) \<inter> set seen = {}"
  by (induction ns arbitrary: seen) auto

definition choice_strings :: "json list \<Rightarrow> string list" where
  "choice_strings vs = List.map_filter as_str vs"

lemma choice_strings_simps [simp]:
  "choice_strings [] = []"
  "choice_strings (v # vs) =
     (case as_str v of None \<Rightarrow> choice_strings vs | Some c \<Rightarrow> c # choice_strings vs)"
  by (simp_all add: choice_strings_def List.map_filter_simps split: option.splits)

definition connected_choice :: "blueprint \<Rightarrow> node \<Rightarrow> string \<Rightarrow> bool" where
  "connected_choice bp n c \<longleftrightarrow> is_valid_port_id c \<and>
     (\<exists>e \<in> set (bp_edges bp). ed_from e = nd_id n \<and> ed_from_port e = c)"

lemma valid_choices [valid_simps]:
  "report_is_valid (choice_diags bp n seen vs) \<longleftrightarrow>
     distinct (choice_strings vs) \<and> set (choice_strings vs) \<inter> set seen = {} \<and>
     (\<forall>c \<in> set (choice_strings vs). connected_choice bp n c)"
  by (induction bp n seen vs rule: choice_diags.induct)
    (auto simp: connected_choice_def list_ex_iff split: option.splits)

section \<open>Reachability inside a loop body\<close>

definition body_rel :: "edge list \<Rightarrow> string list \<Rightarrow> (string \<times> string) set" where
  "body_rel es body = {(f, t). t \<in> set (body_children es body f)}"

lemma reach_loop_sound:
  "set (reach_loop es body R F) \<subseteq> set R \<union> {v. \<exists>u \<in> set F. (u, v) \<in> (body_rel es body)\<^sup>*}"
proof (induction es body R F rule: reach_loop.induct)
  case (1 es body R)
  then show ?case by simp
next
  case (2 es body R n F)
  show ?case
  proof (cases "n \<in> set R")
    case True
    with 2(1) show ?thesis by auto
  next
    case False
    have "(n, v) \<in> (body_rel es body)\<^sup>*" if "u \<in> set (body_children es body n)"
      "(u, v) \<in> (body_rel es body)\<^sup>*" for u v
      using that by (auto simp: body_rel_def intro: converse_rtrancl_into_rtrancl)
    with False 2(2) [OF False] show ?thesis by fastforce
  qed
qed

lemma reach_loop_mono: "set R \<union> set F \<subseteq> set (reach_loop es body R F)"
  by (induction es body R F rule: reach_loop.induct) auto

lemma reach_loop_closed:
  "(\<forall>u \<in> set R. set (body_children es body u) \<subseteq> set R \<union> set F) \<Longrightarrow>
   v \<in> set (reach_loop es body R F) \<Longrightarrow>
   set (body_children es body v) \<subseteq> set (reach_loop es body R F)"
proof (induction es body R F rule: reach_loop.induct)
  case (1 es body R)
  then show ?case by auto
next
  case (2 es body R n F)
  show ?case
  proof (cases "n \<in> set R")
    case True
    with 2(1) [OF True] 2(3,4) show ?thesis by (auto simp: insert_absorb)
  next
    case False
    have "\<forall>u \<in> set (n # R). set (body_children es body u) \<subseteq>
        set (n # R) \<union> set (rev (body_children es body n) @ F)"
      using 2(3) by auto
    from 2(2) [OF False this] 2(4) False show ?thesis by simp
  qed
qed

lemma reach_loop_correct:
  "set (reach_loop es body [] F) = {v. \<exists>u \<in> set F. (u, v) \<in> (body_rel es body)\<^sup>*}"
proof
  show "set (reach_loop es body [] F) \<subseteq> {v. \<exists>u \<in> set F. (u, v) \<in> (body_rel es body)\<^sup>*}"
    using reach_loop_sound [of es body "[]" F] by simp
  have "v \<in> set (reach_loop es body [] F)" if "(u, v) \<in> (body_rel es body)\<^sup>*" "u \<in> set F" for u v
    using that
  proof (induction rule: rtrancl_induct)
    case base
    then show ?case using reach_loop_mono by fastforce
  next
    case (step y z)
    then show ?case
      using reach_loop_closed [of "[]" es body F y] by (auto simp: body_rel_def)
  qed
  then show "{v. \<exists>u \<in> set F. (u, v) \<in> (body_rel es body)\<^sup>*} \<subseteq> set (reach_loop es body [] F)"
    by auto
qed

text \<open>A body node the loop reaches: through its \<open>body\<close> port and then inside the body.\<close>

definition loop_reaches :: "blueprint \<Rightarrow> node \<Rightarrow> string \<Rightarrow> bool" where
  "loop_reaches bp n i \<longleftrightarrow>
     (\<exists>e \<in> set (bp_edges bp). ed_from e = nd_id n \<and> ed_from_port e = ''body'' \<and>
        ed_to e \<in> set (body_of bp (nd_id n)) \<and>
        (ed_to e, i) \<in> {(f, t). t \<in> set (body_of bp (nd_id n)) \<and>
           (\<exists>e' \<in> set (bp_edges bp). ed_from e' = f \<and> ed_to e' = t)}\<^sup>*)"

lemma reachable_body_iff: "i \<in> set (reachable_body bp n) \<longleftrightarrow> loop_reaches bp n i"
proof -
  have "body_rel (bp_edges bp) (body_of bp (nd_id n)) =
      {(f, t). t \<in> set (body_of bp (nd_id n)) \<and> (\<exists>e' \<in> set (bp_edges bp). ed_from e' = f \<and> ed_to e' = t)}"
    by (auto simp: body_rel_def body_children_def)
  then show ?thesis
    unfolding reachable_body_def reach_loop_correct loop_reaches_def
    by (auto simp: body_entries_def split: if_splits)
qed

section \<open>What an accepted blueprint is\<close>

text \<open>The structure the engine relies on.\<close>

definition edges_ok :: "blueprint \<Rightarrow> bool" where
  "edges_ok bp \<longleftrightarrow> (\<forall>e \<in> set (bp_edges bp). \<exists>f t.
     find_node bp (ed_from e) = Some f \<and> find_node bp (ed_to e) = Some t \<and>
     (\<forall>d. find_node_type (nd_type f) = Some d \<and> nt_supported d \<longrightarrow>
        declares_output_port d f (ed_from_port e)) \<and>
     (\<forall>d. find_node_type (nd_type t) = Some d \<and> nt_supported d \<longrightarrow>
        (\<exists>port \<in> set (nt_inputs d). port_id port = ed_to_port e)))"

definition parents_ok :: "blueprint \<Rightarrow> bool" where
  "parents_ok bp \<longleftrightarrow> (\<forall>n \<in> set (bp_nodes bp). \<forall>p. nd_parent n = Some p \<longrightarrow>
     (\<exists>l. find_node bp p = Some l \<and> nd_type l = ''loop'') \<and> nd_type n \<noteq> ''loop'')"

definition loops_ok :: "blueprint \<Rightarrow> bool" where
  "loops_ok bp \<longleftrightarrow> (\<forall>n \<in> set (bp_nodes bp). nd_type n = ''loop'' \<longrightarrow>
     body_of bp (nd_id n) \<noteq> [] \<and>
     (\<forall>i \<in> set (body_of bp (nd_id n)). loop_reaches bp n i) \<and>
     (\<forall>e \<in> set (bp_edges bp). ed_to e \<in> set (body_of bp (nd_id n)) \<longrightarrow>
        ed_from e = nd_id n \<or> ed_from e \<in> set (body_of bp (nd_id n))))"

definition types_ok :: "blueprint \<Rightarrow> bool" where
  "types_ok bp \<longleftrightarrow> (\<forall>n \<in> set (bp_nodes bp). \<exists>d. find_node_type (nd_type n) = Some d \<and>
     nt_supported d \<and>
     (\<forall>f \<in> set (nt_fields d). fd_required f \<longrightarrow> map_of (nd_fields n) (fd_id f) \<noteq> None))"

text \<open>The authored values: kinds, conditions, decision choices and delivery templates.\<close>

definition value_ok :: "node \<Rightarrow> field_def \<Rightarrow> json \<Rightarrow> bool" where
  "value_ok n f v \<longleftrightarrow>
     nd_type n = ''loop'' \<and> fd_id f = ''max_iterations'' \<or>
     check_value_kind (fd_type f) v = None \<and>
     (nd_type n = ''branch'' \<and> fd_id f = ''condition'' \<or> nd_type n = ''loop'' \<and> fd_id f = ''until''
        \<longrightarrow> (\<forall>c. as_str v = Some c \<longrightarrow> (\<exists>path. validate_path c = Inr path)))"

definition choices_ok :: "blueprint \<Rightarrow> node \<Rightarrow> bool" where
  "choices_ok bp n \<longleftrightarrow> (\<forall>v vs. map_of (nd_fields n) ''choices'' = Some v \<and> as_array v = Some vs \<longrightarrow>
     vs \<noteq> [] \<and> distinct (choice_strings vs) \<and>
     (\<forall>c \<in> set (choice_strings vs). connected_choice bp n c))"

definition delivery_ok :: "node \<Rightarrow> bool" where
  "delivery_ok n \<longleftrightarrow> (\<forall>key \<in> {''recipient'', ''artifact_path''}. \<forall>v t.
     map_of (nd_fields n) key = Some v \<and> as_str v = Some t \<longrightarrow> validate_delivery_template t = None)"

definition values_ok :: "blueprint \<Rightarrow> bool" where
  "values_ok bp \<longleftrightarrow> (\<forall>n \<in> set (bp_nodes bp).
     (\<forall>d f v. find_node_type (nd_type n) = Some d \<and> f \<in> set (nt_fields d) \<and>
        map_of (nd_fields n) (fd_id f) = Some v \<longrightarrow> value_ok n f v) \<and>
     (nd_type n = ''decision'' \<longrightarrow> choices_ok bp n) \<and>
     (nd_type n = ''message_send'' \<longrightarrow> delivery_ok n))"

lemma valid_field [valid_simps]:
  "report_is_valid (field_diags n f) \<longleftrightarrow>
     (fd_required f \<longrightarrow> map_of (nd_fields n) (fd_id f) \<noteq> None) \<and>
     (\<forall>v. map_of (nd_fields n) (fd_id f) = Some v \<longrightarrow> value_ok n f v)"
  unfolding field_diags_def value_ok_def Let_def
  by (auto split: option.splits sum.splits)

lemma valid_decision [valid_simps]:
  "report_is_valid (validate_decision_choices bp n) \<longleftrightarrow> choices_ok bp n"
  unfolding validate_decision_choices_def choices_ok_def
  by (auto simp: valid_simps split: option.splits)

lemma valid_delivery [valid_simps]:
  "report_is_valid (concat (map (delivery_diags n) [''recipient'', ''artifact_path''])) \<longleftrightarrow> delivery_ok n"
  unfolding delivery_diags_def delivery_ok_def
  by (auto split: option.splits)

lemma valid_parent [valid_simps]:
  "report_is_valid (parent_diags bp n) \<longleftrightarrow>
     (\<forall>p. nd_parent n = Some p \<longrightarrow>
       (\<exists>l. find_node bp p = Some l \<and> nd_type l = ''loop'') \<and> nd_type n \<noteq> ''loop'')"
  unfolding parent_diags_def Let_def
  by (auto split: option.splits)

lemma valid_node [valid_simps]:
  "report_is_valid (node_diags bp n) \<longleftrightarrow>
     (\<exists>d. find_node_type (nd_type n) = Some d \<and> nt_supported d \<and>
        (\<forall>f \<in> set (nt_fields d). report_is_valid (field_diags n f))) \<and>
     (nd_type n = ''decision'' \<longrightarrow> choices_ok bp n) \<and>
     (nd_type n = ''message_send'' \<longrightarrow> delivery_ok n) \<and>
     report_is_valid (parent_diags bp n)"
  using valid_delivery [of n]
  by (auto simp: node_diags_def valid_decision split: option.splits)

lemma body_of_empty: "body_of bp i = [] \<longleftrightarrow> (\<forall>n \<in> set (bp_nodes bp). nd_parent n \<noteq> Some i)"
  by (auto simp: body_of_def filter_empty_conv)

lemma valid_empty_loop [valid_simps]:
  "report_is_valid (empty_loop_diags bp n) \<longleftrightarrow> (nd_type n = ''loop'' \<longrightarrow> body_of bp (nd_id n) \<noteq> [])"
  by (auto simp: empty_loop_diags_def body_of_empty list_ex_iff)

lemma valid_edge [valid_simps]:
  "report_is_valid (edge_diags bp e) \<longleftrightarrow> (\<exists>f t.
     find_node bp (ed_from e) = Some f \<and> find_node bp (ed_to e) = Some t \<and>
     (\<forall>d. find_node_type (nd_type f) = Some d \<and> nt_supported d \<longrightarrow>
        declares_output_port d f (ed_from_port e)) \<and>
     (\<forall>d. find_node_type (nd_type t) = Some d \<and> nt_supported d \<longrightarrow>
        (\<exists>port \<in> set (nt_inputs d). port_id port = ed_to_port e)))"
  unfolding edge_diags_def
  by (auto simp: list_ex_iff split: option.splits)

lemma valid_loop_body [valid_simps]:
  assumes "body_of bp (nd_id n) \<noteq> []"
  shows "report_is_valid (loop_body_diags bp n) \<longleftrightarrow> (nd_type n = ''loop'' \<longrightarrow>
     (\<forall>i \<in> set (body_of bp (nd_id n)). loop_reaches bp n i) \<and>
     (\<forall>e \<in> set (bp_edges bp). ed_to e \<in> set (body_of bp (nd_id n)) \<longrightarrow>
        ed_from e = nd_id n \<or> ed_from e \<in> set (body_of bp (nd_id n))))"
proof -
  obtain i where "i \<in> set (body_of bp (nd_id n))" using assms by (cases "body_of bp (nd_id n)") auto
  then have "reachable_body bp n = [] \<longrightarrow> \<not> (\<forall>i \<in> set (body_of bp (nd_id n)). loop_reaches bp n i)"
    using reachable_body_iff [of i bp n] by auto
  then show ?thesis
    using assms unfolding loop_body_diags_def Let_def
    by (auto simp: reachable_body_iff simp del: report_is_valid_simps(4))
qed

lemma validate_iff:
  "\<exists>r. validate bp = Some r \<and>
     (report_is_valid r \<longleftrightarrow>
        distinct (node_ids bp) \<and> acyclic (graph_rel bp) \<and> edges_ok bp \<and> types_ok bp \<and>
        parents_ok bp \<and> loops_ok bp \<and> values_ok bp)"
proof -
  have loop: "report_is_valid (empty_loop_diags bp n) \<and> report_is_valid (loop_body_diags bp n) \<longleftrightarrow>
      (nd_type n = ''loop'' \<longrightarrow> body_of bp (nd_id n) \<noteq> [] \<and>
        (\<forall>i \<in> set (body_of bp (nd_id n)). loop_reaches bp n i) \<and>
        (\<forall>e \<in> set (bp_edges bp). ed_to e \<in> set (body_of bp (nd_id n)) \<longrightarrow>
          ed_from e = nd_id n \<or> ed_from e \<in> set (body_of bp (nd_id n))))" for n
  proof (cases "nd_type n = ''loop'' \<and> body_of bp (nd_id n) \<noteq> []")
    case True
    then show ?thesis using valid_loop_body [of bp n] by (simp add: valid_empty_loop)
  next
    case False
    then show ?thesis by (auto simp: valid_empty_loop loop_body_diags_def)
  qed
  have loops: "(\<forall>n \<in> set (bp_nodes bp). report_is_valid (empty_loop_diags bp n)) \<and>
      (\<forall>n \<in> set (bp_nodes bp). report_is_valid (loop_body_diags bp n)) \<longleftrightarrow> loops_ok bp"
    unfolding loops_ok_def ball_conj_distrib [symmetric] loop ..
  have edges: "(\<forall>e \<in> set (bp_edges bp). report_is_valid (edge_diags bp e)) \<longleftrightarrow> edges_ok bp"
    unfolding edges_ok_def valid_edge ..
  have nodes: "(\<forall>n \<in> set (bp_nodes bp). report_is_valid (node_diags bp n)) \<longleftrightarrow>
      types_ok bp \<and> values_ok bp \<and> parents_ok bp"
    unfolding types_ok_def values_ok_def parents_ok_def ball_conj_distrib [symmetric]
      valid_node valid_field valid_parent
  proof (intro ball_cong refl, goal_cases)
    case (1 n)
    then show ?case by (cases "find_node_type (nd_type n)") auto
  qed
  show ?thesis
    using loops edges nodes
    by (auto simp: validate_def has_cycle_iff valid_duplicate)
qed

text \<open>
  C19. Validation accepts exactly the blueprints the engine may run. It always returns a
  report, and the report has no error if and only if: node ids are unique; the graph is
  acyclic; every edge joins existing nodes over ports their types declare; every node has a
  supported type and its required fields; parents are loops and loops are not nested; every
  loop has a body, all of it reachable from its \<open>body\<close> port and entered from the loop only;
  and the authored values have the declared kinds, conditions, choices and templates.
\<close>

theorem validate_characterized:
  "\<exists>r. validate bp = Some r \<and>
     (report_is_valid r \<longleftrightarrow>
        distinct (node_ids bp) \<and> acyclic (graph_rel bp) \<and> edges_ok bp \<and> types_ok bp \<and>
        parents_ok bp \<and> loops_ok bp \<and> values_ok bp)"
  by (rule validate_iff)

end
