(* ===== verification/Engine_State.thy ===== *)
theory Engine_State
  imports Blueprint
begin

text \<open>
  The state of an automation run and its durable events (\<open>engine/state.rs\<close>,
  \<open>engine/event.rs\<close>, \<open>engine/error.rs\<close>). The node map is an ordered map because the
  driver iterates over it; the other maps are only read and written by key. Edges are
  addressed by their index. Sequence numbers count the events of one log held in memory
  and are natural numbers; loop iterations keep their 32 bits.
\<close>

section \<open>Errors\<close>

datatype engine_error =
    Io string
  | Serde string
  | AutomationError string
  | NotAwaitingApproval string
  | ApprovalDecisionInProgress
  | InterpolationError string
  | InvalidState string

text \<open>
  An operation fails with an error of the engine, or the thread panics; the last is the
  increment of a 64-bit sequence number or of a 32-bit iteration count at its largest value,
  which panics in a build with overflow checks and gives 0 in one without.
\<close>

datatype failure = Err engine_error | Panic | Overflow

definition next_number :: "nat \<Rightarrow> failure + nat" where
  "next_number n = (if Suc n < 2 ^ 64 then Inr (Suc n) else Inl Overflow)"

lemma next_number_eq_Inr [simp]: "next_number n = Inr m \<longleftrightarrow> Suc n < 2 ^ 64 \<and> m = Suc n"
  by (auto simp: next_number_def)

lemma next_number_eq_Inl [simp]: "next_number n = Inl f \<longleftrightarrow> 2 ^ 64 \<le> Suc n \<and> f = Overflow"
  by (auto simp: next_number_def)

definition next_iteration :: "u32 \<Rightarrow> failure + u32" where
  "next_iteration n = (if n = - 1 then Inl Overflow else Inr (n + 1))"

lemma next_iteration_eq_Inr [simp]: "next_iteration n = Inr m \<longleftrightarrow> n \<noteq> - 1 \<and> m = n + 1"
  by (auto simp: next_iteration_def)

lemma next_iteration_eq_Inl [simp]: "next_iteration n = Inl f \<longleftrightarrow> n = - 1 \<and> f = Overflow"
  by (auto simp: next_iteration_def)

lemma next_number_below [simp]: "Suc n < 2 ^ 64 \<Longrightarrow> next_number n = Inr (Suc n)"
  by simp

type_synonym step_error = string

definition step_skipped :: "string \<Rightarrow> step_error" where
  "step_skipped reason = ''WARDIAN_STEP_SKIPPED:'' @ reason"

definition skipped_reason :: "step_error \<Rightarrow> string option" where
  "skipped_reason e =
     (if prefix ''WARDIAN_STEP_SKIPPED:'' e then Some (drop (length ''WARDIAN_STEP_SKIPPED:'') e)
      else None)"

lemma skipped_reason_skipped: "skipped_reason (step_skipped r) = Some r"
  by (simp add: skipped_reason_def step_skipped_def)

section \<open>Run state\<close>

datatype run_status = RunRunning | RunAwaiting | RunDone | RunBroken

datatype node_status = Pending | Running | Completed | Failed | Skipped

record delivery_binding =
  db_recipient_id :: string
  db_artifact_path :: string

record run_state =
  rs_run_id :: string
  rs_blueprint_id :: string
  rs_blueprint_hash :: "string option"
  rs_status :: run_status
  rs_nodes :: "(string \<times> node_status) list"
  rs_registry :: json
  rs_loop_iter :: "string \<rightharpoonup> u32"
  rs_delivered :: "string \<rightharpoonup> nat set"
  rs_skipped :: "nat set"
  rs_next_seq :: nat
  rs_failure :: "string option"
  rs_deliveries :: "string \<rightharpoonup> delivery_binding"

definition new_run_state :: "string \<Rightarrow> string \<Rightarrow> run_state" where
  "new_run_state run_id blueprint_id =
     \<lparr>rs_run_id = run_id, rs_blueprint_id = blueprint_id, rs_blueprint_hash = None,
      rs_status = RunRunning, rs_nodes = [],
      rs_registry = JObject [(''nodes'', jempty), (''trigger'', JObject [(''output'', jempty)]),
        (''storage'', jempty), (''run'', JObject [(''id'', JString run_id)])],
      rs_loop_iter = Map.empty, rs_delivered = Map.empty, rs_skipped = {}, rs_next_seq = 0,
      rs_failure = None, rs_deliveries = Map.empty\<rparr>"

definition normalize_legacy :: "run_state \<Rightarrow> run_state" where
  "normalize_legacy s =
     (case as_object (rs_registry s) of
        None \<Rightarrow> s
      | Some m \<Rightarrow> s\<lparr>rs_registry := JObject (im_or_insert ''storage'' jempty
          (AList.update ''run'' (JObject [(''id'', JString (rs_run_id s))]) m))\<rparr>)"

definition node_status_of :: "run_state \<Rightarrow> string \<Rightarrow> node_status option" where
  "node_status_of s i = map_of (rs_nodes s) i"

definition status_or_pending :: "run_state \<Rightarrow> string \<Rightarrow> node_status" where
  "status_or_pending s i = (case node_status_of s i of None \<Rightarrow> Pending | Some st \<Rightarrow> st)"

definition set_node_status :: "string \<Rightarrow> node_status \<Rightarrow> run_state \<Rightarrow> run_state" where
  "set_node_status i st s = s\<lparr>rs_nodes := bt_insert i st (rs_nodes s)\<rparr>"

text \<open>Writes into the registry panic where a value on the way is not an object.\<close>

definition write_registry :: "string list \<Rightarrow> json \<Rightarrow> run_state \<Rightarrow> failure + run_state" where
  "write_registry path v s =
     (case jset_path path v (rs_registry s) of
        None \<Rightarrow> Inl Panic
      | Some r \<Rightarrow> Inr (s\<lparr>rs_registry := r\<rparr>))"

definition set_node_output :: "string \<Rightarrow> json \<Rightarrow> run_state \<Rightarrow> failure + run_state" where
  "set_node_output i out s = write_registry [''nodes'', i, ''output''] out s"

definition node_output :: "run_state \<Rightarrow> string \<Rightarrow> json option" where
  "node_output s i = jget_path [''nodes'', i, ''output''] (rs_registry s)"

definition set_trigger :: "json \<Rightarrow> run_state \<Rightarrow> failure + run_state" where
  "set_trigger out s = write_registry [''trigger'', ''output''] out s"

lemma status_set [simp, core_simps]:
  "status_or_pending (set_node_status i st s) j = (if j = i then st else status_or_pending s j)"
  by (simp add: status_or_pending_def node_status_of_def set_node_status_def)

lemma status_of_set [simp, core_simps]:
  "node_status_of (set_node_status i st s) j = (if j = i then Some st else node_status_of s j)"
  by (simp add: node_status_of_def set_node_status_def)

lemma set_node_status_fields [simp]:
  "rs_run_id (set_node_status i st s) = rs_run_id s"
  "rs_blueprint_id (set_node_status i st s) = rs_blueprint_id s"
  "rs_blueprint_hash (set_node_status i st s) = rs_blueprint_hash s"
  "rs_status (set_node_status i st s) = rs_status s"
  "rs_registry (set_node_status i st s) = rs_registry s"
  "rs_loop_iter (set_node_status i st s) = rs_loop_iter s"
  "rs_delivered (set_node_status i st s) = rs_delivered s"
  "rs_skipped (set_node_status i st s) = rs_skipped s"
  "rs_next_seq (set_node_status i st s) = rs_next_seq s"
  "rs_failure (set_node_status i st s) = rs_failure s"
  "rs_deliveries (set_node_status i st s) = rs_deliveries s"
  by (simp_all add: set_node_status_def)

section \<open>Events\<close>

datatype event_kind =
    RunStarted "string option" "string option" string u32 json
  | MessageSendPrepared string string string
  | NodeStarted string
  | NodeCompleted string json
  | DecisionCompleted string json string
  | StateUpdated string string json
  | Notification string string
  | NodeFailed string string
  | BranchTaken string string
  | DecisionMade string string
  | LoopIteration string u32
  | LoopCompleted string
  | NodeSkipped string
  | AwaitingApproval string
  | ApprovalGranted string string "string option"
  | ApprovalRejected string string "string option"
  | RunCompleted
  | RunFailed string

record event =
  ev_seq :: nat
  ev_ts :: string
  ev_kind :: event_kind

section \<open>The shape of the registry\<close>

text \<open>
  The registry is an object with an object of nodes, each member an object, an object for
  the trigger and one for the storage. Under it no write into the registry panics.
\<close>

definition registry_ok :: "json \<Rightarrow> bool" where
  "registry_ok r \<longleftrightarrow> is_object r \<and>
     (\<exists>nm. jget ''nodes'' r = Some (JObject nm) \<and> (\<forall>k v. map_of nm k = Some v \<longrightarrow> is_object v)) \<and>
     (\<exists>tm. jget ''trigger'' r = Some (JObject tm)) \<and>
     (\<exists>sm. jget ''storage'' r = Some (JObject sm))"

definition state_ok :: "run_state \<Rightarrow> bool" where
  "state_ok s \<longleftrightarrow> registry_ok (rs_registry s) \<and> bt_wf (rs_nodes s)"

lemma registry_ok_new: "registry_ok (rs_registry (new_run_state r b))"
  by (simp add: registry_ok_def new_run_state_def)

lemma state_ok_new: "state_ok (new_run_state r b)"
  using registry_ok_new [of r b] by (simp add: state_ok_def new_run_state_def)

lemma state_ok_normalize: "state_ok s \<Longrightarrow> state_ok (normalize_legacy s)"
  unfolding state_ok_def normalize_legacy_def registry_ok_def
  by (auto simp: im_get_or_insert im_get_update elim!: is_objectE)

lemma normalize_legacy_idem: "normalize_legacy (normalize_legacy s) = normalize_legacy s"
proof (cases "as_object (rs_registry s)")
  case None
  then show ?thesis by (simp add: normalize_legacy_def)
next
  case (Some m)
  let ?m1 = "AList.update ''run'' (JObject [(''id'', JString (rs_run_id s))]) m"
  let ?m2 = "im_or_insert ''storage'' jempty ?m1"
  have run: "map_of ?m2 ''run'' = Some (JObject [(''id'', JString (rs_run_id s))])"
    by (simp add: im_get_or_insert im_get_update)
  have noop: "AList.update k v kvs = kvs" if "map_of kvs k = Some v" for k and v :: json and kvs
    using that by (induction kvs) (auto split: if_splits)
  have "im_or_insert ''storage'' jempty ?m2 = ?m2"
    using im_get_or_insert [of "''storage''" jempty ?m1 "''storage''"]
    by (simp add: im_or_insert_def split: option.splits)
  with Some noop [OF run] show ?thesis by (simp add: normalize_legacy_def)
qed

lemma registry_write_node:
  assumes "registry_ok r"
  shows "\<exists>r'. jset_path [''nodes'', i, f] v r = Some r' \<and> registry_ok r'"
proof -
  from assms obtain m where r: "r = JObject m" by (auto simp: registry_ok_def elim: is_objectE)
  with assms obtain nm where nm: "map_of m ''nodes'' = Some (JObject nm)"
    "\<forall>k v. map_of nm k = Some v \<longrightarrow> is_object v" by (auto simp: registry_ok_def)
  define c where "c = (case map_of nm i of None \<Rightarrow> JNull | Some c \<Rightarrow> c)"
  have "c = JNull \<or> is_object c" using nm(2) by (auto simp: c_def split: option.splits)
  then obtain c' where c': "jset_path [f] v c = Some c'" "is_object c'"
    by (auto elim!: is_objectE)
  let ?nm = "AList.update i c' nm"
  have "jset_path [''nodes'', i, f] v r = Some (JObject (AList.update ''nodes'' (JObject ?nm) m))"
    using c'(1) nm(1) by (simp add: r c_def)
  moreover have "registry_ok (JObject (AList.update ''nodes'' (JObject ?nm) m))"
    using assms nm(2) c'(2) unfolding registry_ok_def r by (auto simp: im_get_update)
  ultimately show ?thesis by blast
qed

lemma registry_write_trigger:
  assumes "registry_ok r"
  shows "\<exists>r'. jset_path [''trigger'', f] v r = Some r' \<and> registry_ok r'"
  using assms unfolding registry_ok_def
  by (auto simp: im_get_update elim!: is_objectE)

lemma set_node_output_ok:
  "state_ok s \<Longrightarrow> \<exists>s'. set_node_output i v s = Inr s' \<and> state_ok s' \<and> s' = s\<lparr>rs_registry := rs_registry s'\<rparr>"
  using registry_write_node [of "rs_registry s" i "''output''" v]
  by (auto simp: set_node_output_def write_registry_def state_ok_def)

lemma set_trigger_ok:
  "state_ok s \<Longrightarrow> \<exists>s'. set_trigger v s = Inr s' \<and> state_ok s' \<and> s' = s\<lparr>rs_registry := rs_registry s'\<rparr>"
  using registry_write_trigger [of "rs_registry s" "''output''" v]
  by (auto simp: set_trigger_def write_registry_def state_ok_def)

end
