(* ===== verification/Engine_Core.thy ===== *)
theory Engine_Core
  imports Engine_State Interpolate Condition
begin

text \<open>
  The pure core of the automation engine (\<open>engine/core.rs\<close>, \<open>engine/graph.rs\<close>): the
  adjacency of a blueprint, the nodes that can run, the fold of one event into the run
  state, the cascade of skips, and the advance of the loops. \<open>printer\<close> renders the numbers
  of a document, which the JSON library does.
\<close>

section \<open>The graph\<close>

definition edges_where :: "(edge \<Rightarrow> bool) \<Rightarrow> blueprint \<Rightarrow> nat list" where
  "edges_where P bp = filter (\<lambda>i. P (bp_edges bp ! i)) [0..<length (bp_edges bp)]"

definition inbound :: "blueprint \<Rightarrow> string \<Rightarrow> nat list" where
  "inbound bp n = edges_where (\<lambda>e. ed_to e = n) bp"

definition outbound_from_port :: "blueprint \<Rightarrow> string \<Rightarrow> string \<Rightarrow> nat list" where
  "outbound_from_port bp n port = edges_where (\<lambda>e. ed_from e = n \<and> ed_from_port e = port) bp"

definition outbound :: "blueprint \<Rightarrow> string \<Rightarrow> nat list" where
  "outbound bp n = edges_where (\<lambda>e. ed_from e = n) bp"

definition entry_nodes :: "blueprint \<Rightarrow> string list" where
  "entry_nodes bp = [nd_id n. n \<leftarrow> bp_nodes bp, inbound bp (nd_id n) = []]"

definition body_nodes :: "blueprint \<Rightarrow> string \<Rightarrow> string list" where
  "body_nodes bp lp = [nd_id n. n \<leftarrow> bp_nodes bp, nd_parent n = Some lp]"

lemma in_edges_where [simp]:
  "i \<in> set (edges_where P bp) \<longleftrightarrow> i < length (bp_edges bp) \<and> P (bp_edges bp ! i)"
  by (auto simp: edges_where_def)

lemma in_inbound [simp]:
  "i \<in> set (inbound bp n) \<longleftrightarrow> i < length (bp_edges bp) \<and> ed_to (bp_edges bp ! i) = n"
  by (simp add: inbound_def)

lemma in_outbound [simp]:
  "i \<in> set (outbound bp n) \<longleftrightarrow> i < length (bp_edges bp) \<and> ed_from (bp_edges bp ! i) = n"
  by (simp add: outbound_def)

lemma distinct_edges_where: "distinct (edges_where P bp)"
  by (simp add: edges_where_def)

section \<open>Runnable nodes\<close>

definition delivered_to :: "run_state \<Rightarrow> string \<Rightarrow> nat set" where
  "delivered_to s n = (case rs_delivered s n of None \<Rightarrow> {} | Some d \<Rightarrow> d)"

definition runnable :: "blueprint \<Rightarrow> run_state \<Rightarrow> node \<Rightarrow> bool" where
  "runnable bp s nd \<longleftrightarrow>
     status_or_pending s (nd_id nd) = Pending \<and>
     (if inbound bp (nd_id nd) = [] then nd_parent nd = None
      else list_all (\<lambda>i. i \<in> delivered_to s (nd_id nd) \<or> i \<in> rs_skipped s) (inbound bp (nd_id nd)) \<and>
           list_ex (\<lambda>i. i \<in> delivered_to s (nd_id nd)) (inbound bp (nd_id nd)))"

definition step :: "blueprint \<Rightarrow> run_state \<Rightarrow> string list" where
  "step bp s = (if rs_status s \<noteq> RunRunning then []
                else map nd_id (filter (runnable bp s) (bp_nodes bp)))"

definition is_approval :: "blueprint \<Rightarrow> string \<Rightarrow> bool" where
  "is_approval bp i = (case find_node bp i of None \<Rightarrow> False | Some n \<Rightarrow> nd_type n = ''approval'')"

section \<open>Delivery\<close>

text \<open>
  One outbound edge of a completed node: an edge of the selected port delivers, and wakes
  a successor that had been skipped; an edge of another port is marked not taken.
\<close>

definition deliver_edge :: "blueprint \<Rightarrow> string \<Rightarrow> nat \<Rightarrow> run_state \<Rightarrow> run_state" where
  "deliver_edge bp port i s =
     (let e = bp_edges bp ! i
      in if ed_from_port e = port
         then let s1 = s\<lparr>rs_skipped := rs_skipped s - {i},
                         rs_delivered := (rs_delivered s)(ed_to e \<mapsto> insert i (delivered_to s (ed_to e)))\<rparr>
              in if status_or_pending s1 (ed_to e) = Skipped
                 then set_node_status (ed_to e) Pending s1 else s1
         else s\<lparr>rs_skipped := insert i (rs_skipped s)\<rparr>)"

definition deliver_from_port :: "blueprint \<Rightarrow> string \<Rightarrow> string \<Rightarrow> run_state \<Rightarrow> run_state" where
  "deliver_from_port bp n port s = fold (deliver_edge bp port) (outbound bp n) s"

definition deliver_chosen_port :: "blueprint \<Rightarrow> string \<Rightarrow> string \<Rightarrow> run_state \<Rightarrow> run_state" where
  "deliver_chosen_port bp n chosen s = deliver_from_port bp n chosen s"

definition skip_node :: "blueprint \<Rightarrow> string \<Rightarrow> run_state \<Rightarrow> run_state" where
  "skip_node bp n s =
     (let s1 = set_node_status n Skipped s
      in s1\<lparr>rs_skipped := fold insert (outbound bp n) (rs_skipped s1)\<rparr>)"

section \<open>Events\<close>

definition apply_state_update :: "string \<Rightarrow> json \<Rightarrow> run_state \<Rightarrow> failure + run_state" where
  "apply_state_update op entries s =
     (case as_object entries of
        None \<Rightarrow> Inl (Err (InvalidState ''state entries must be an object''))
      | Some kvs \<Rightarrow>
          (case jget ''storage'' (rs_registry s) of
             None \<Rightarrow> Inl (Err (InvalidState ''run registry is missing storage''))
           | Some st \<Rightarrow>
               (case as_object st of
                  None \<Rightarrow> Inl (Err (InvalidState ''run registry storage must be an object''))
                | Some m \<Rightarrow>
                    if op = ''set'' \<or> op = ''merge'' then
                      write_registry [''storage''] (JObject (fold (\<lambda>(k, v). AList.update k v) kvs m)) s
                    else if op = ''delete'' then
                      write_registry [''storage''] (JObject (fold im_remove (map fst kvs) m)) s
                    else Inl (Err (InvalidState (''unknown state op: '' @ op))))))"

definition runtime_trigger_output :: "json \<Rightarrow> string \<Rightarrow> json" where
  "runtime_trigger_output trig ts =
     (case trig of
        JObject m \<Rightarrow> JObject (im_or_insert ''timestamp'' (JString ts) m)
      | v \<Rightarrow> JObject [(''timestamp'', JString ts), (''payload'', v)])"

text \<open>
  The next iteration of a loop: the outputs of the body become \<open>prev\<close>, the body's nodes
  are pending again and the edges inside it and into it from the loop are open again. The
  sum of iterations wraps at 32 bits, as in a release build.
\<close>

definition reset_body_node :: "string \<Rightarrow> run_state \<Rightarrow> failure + run_state" where
  "reset_body_node n s =
     res_bind (case node_output s n of
                 None \<Rightarrow> Inr s
               | Some out \<Rightarrow> write_registry [''nodes'', n, ''prev''] out s)
       (\<lambda>s1. Inr ((set_node_status n Pending s1)\<lparr>rs_delivered := (rs_delivered s1)(n := None)\<rparr>))"

definition body_edges :: "blueprint \<Rightarrow> string \<Rightarrow> nat set" where
  "body_edges bp lp =
     (let body = set (body_nodes bp lp)
      in set (edges_where (\<lambda>e. ed_to e \<in> body \<and> (ed_from e \<in> body \<or> ed_from e = lp)) bp))"

definition loop_error :: "string \<Rightarrow> string \<Rightarrow> failure" where
  "loop_error lp msg = Err (InvalidState (''loop `'' @ lp @ msg))"

definition apply_loop_iteration :: "blueprint \<Rightarrow> string \<Rightarrow> u32 \<Rightarrow> run_state \<Rightarrow> failure + run_state" where
  "apply_loop_iteration bp lp iteration s =
     (if iteration = 0 then
        Inr (deliver_from_port bp lp ''body''
          ((set_node_status lp Running s)\<lparr>rs_loop_iter := (rs_loop_iter s)(lp \<mapsto> 0)\<rparr>))
      else (case rs_loop_iter s lp of
        None \<Rightarrow> Inl (loop_error lp ''` advanced before its initial iteration'')
      | Some previous \<Rightarrow>
          res_bind (next_iteration previous) (\<lambda>following.
          if following \<noteq> iteration
          then Inl (loop_error lp (''` expected iteration '' @ show_nat (unat following) @
                 '', got '' @ show_nat (unat iteration)))
          else res_bind (run_steps (\<lambda>s n. reset_body_node n s) s (body_nodes bp lp))
            (\<lambda>s1. Inr (deliver_from_port bp lp ''body''
               (s1\<lparr>rs_skipped := rs_skipped s1 - body_edges bp lp,
                   rs_loop_iter := (rs_loop_iter s1)(lp \<mapsto> iteration)\<rparr>))))))"

definition apply_run_started ::
  "blueprint \<Rightarrow> string option \<Rightarrow> string option \<Rightarrow> string \<Rightarrow> u32 \<Rightarrow> json \<Rightarrow> string \<Rightarrow> run_state \<Rightarrow>
   failure + run_state" where
  "apply_run_started bp run_id hash blueprint_id schema trig ts s =
     (if blueprint_id \<noteq> bp_id bp then
        Inl (Err (InvalidState (''automation event belongs to blueprint `'' @ blueprint_id @
          ''`, requested `'' @ bp_id bp @ ''`'')))
      else if schema \<noteq> bp_schema bp then
        Inl (Err (InvalidState (''automation event schema is '' @ show_nat (unat schema) @
          '', requested blueprint schema is '' @ show_nat (unat (bp_schema bp)))))
      else
        res_bind (case run_id of
            None \<Rightarrow> Inr s
          | Some r \<Rightarrow>
              if rs_next_seq s = 0 \<and> rs_run_id s \<notin> {''replay'', ''rebuilt''} \<and> rs_run_id s \<noteq> r
              then Inl (Err (InvalidState (''automation run identity changed from `'' @ rs_run_id s @
                     ''` to `'' @ r @ ''`'')))
              else Inr (s\<lparr>rs_run_id := r\<rparr>))
          (\<lambda>s1. let s2 = (case hash of None \<Rightarrow> s1 | Some h \<Rightarrow> s1\<lparr>rs_blueprint_hash := Some h\<rparr>)
                in set_trigger (runtime_trigger_output trig ts) (normalize_legacy s2)))"

definition apply_message_prepared ::
  "string \<Rightarrow> string \<Rightarrow> string \<Rightarrow> run_state \<Rightarrow> failure + run_state" where
  "apply_message_prepared n recipient artifact s =
     (let binding = \<lparr>db_recipient_id = recipient, db_artifact_path = artifact\<rparr>
      in if \<exists>previous \<in> set_option (rs_deliveries s n). previous \<noteq> binding
         then Inl (Err (InvalidState ''message_send binding cannot change within a run''))
         else Inr (s\<lparr>rs_deliveries := (rs_deliveries s)(n \<mapsto> binding)\<rparr>))"

fun apply_kind :: "blueprint \<Rightarrow> string \<Rightarrow> event_kind \<Rightarrow> run_state \<Rightarrow> failure + run_state" where
  "apply_kind bp ts (RunStarted run_id hash blueprint_id schema trig) s =
     apply_run_started bp run_id hash blueprint_id schema trig ts s"
| "apply_kind bp ts (MessageSendPrepared n recipient artifact) s =
     apply_message_prepared n recipient artifact s"
| "apply_kind bp ts (NodeStarted n) s = Inr (set_node_status n Running s)"
| "apply_kind bp ts (NodeCompleted n out) s =
     res_bind (set_node_output n out s) (\<lambda>s1.
       let s2 = set_node_status n Completed s1
       in Inr (if (case find_node bp n of None \<Rightarrow> True | Some nd \<Rightarrow> nd_type nd \<noteq> ''decision'')
               then deliver_from_port bp n ''out'' s2 else s2))"
| "apply_kind bp ts (DecisionCompleted n out port) s =
     res_bind (set_node_output n out s) (\<lambda>s1.
       Inr (deliver_chosen_port bp n port (set_node_status n Completed s1)))"
| "apply_kind bp ts (StateUpdated n op entries) s = apply_state_update op entries s"
| "apply_kind bp ts (Notification n msg) s = Inr s"
| "apply_kind bp ts (NodeFailed n err) s =
     Inr ((set_node_status n Failed s)\<lparr>rs_status := RunBroken, rs_failure := Some (n @ '': '' @ err)\<rparr>)"
| "apply_kind bp ts (BranchTaken n port) s =
     Inr (deliver_chosen_port bp n port (set_node_status n Completed s))"
| "apply_kind bp ts (DecisionMade n port) s =
     Inr (deliver_chosen_port bp n port (set_node_status n Completed s))"
| "apply_kind bp ts (NodeSkipped n) s = Inr (skip_node bp n s)"
| "apply_kind bp ts RunCompleted s = Inr (s\<lparr>rs_status := RunDone\<rparr>)"
| "apply_kind bp ts (RunFailed err) s = Inr (s\<lparr>rs_status := RunBroken, rs_failure := Some err\<rparr>)"
| "apply_kind bp ts (LoopIteration n iteration) s = apply_loop_iteration bp n iteration s"
| "apply_kind bp ts (LoopCompleted n) s =
     Inr (deliver_from_port bp n ''done'' (set_node_status n Completed s))"
| "apply_kind bp ts (AwaitingApproval n) s =
     Inr ((set_node_status n Running s)\<lparr>rs_status := RunAwaiting\<rparr>)"
| "apply_kind bp ts (ApprovalGranted n actor note) s =
     Inr (deliver_from_port bp n ''out'' (set_node_status n Completed (s\<lparr>rs_status := RunRunning\<rparr>)))"
| "apply_kind bp ts (ApprovalRejected n actor note) s =
     Inr ((set_node_status n Failed s)\<lparr>rs_status := RunBroken,
          rs_failure := Some (n @ '': approval rejected'')\<rparr>)"

definition apply_event :: "blueprint \<Rightarrow> run_state \<Rightarrow> event \<Rightarrow> failure + run_state" where
  "apply_event bp s ev = res_bind (apply_kind bp (ev_ts ev) (ev_kind ev) s)
                     (\<lambda>s'. res_bind (next_number (ev_seq ev)) (\<lambda>q. Inr (s'\<lparr>rs_next_seq := q\<rparr>)))"

section \<open>Cascade of skips\<close>

definition to_skip :: "blueprint \<Rightarrow> run_state \<Rightarrow> string list" where
  "to_skip bp s = map nd_id (filter (\<lambda>nd. status_or_pending s (nd_id nd) = Pending \<and>
     inbound bp (nd_id nd) \<noteq> [] \<and> list_all (\<lambda>i. i \<in> rs_skipped s) (inbound bp (nd_id nd)))
     (bp_nodes bp))"

definition pending_ids :: "blueprint \<Rightarrow> run_state \<Rightarrow> string set" where
  "pending_ids bp s = {i \<in> set (node_ids bp). status_or_pending s i = Pending}"

lemma skip_node_status [simp, core_simps]:
  "status_or_pending (skip_node bp n s) i = (if i = n then Skipped else status_or_pending s i)"
  by (simp add: skip_node_def status_or_pending_def node_status_of_def set_node_status_def)

lemma fold_skip_status:
  "status_or_pending (fold (skip_node bp) ns s) i =
     (if i \<in> set ns then Skipped else status_or_pending s i)"
  by (induction ns arbitrary: s) auto

function cascade_skips :: "blueprint \<Rightarrow> run_state \<Rightarrow> run_state" where
  "cascade_skips bp s =
     (if to_skip bp s = [] then s else cascade_skips bp (fold (skip_node bp) (to_skip bp s) s))"
  by pat_completeness auto
termination
proof (relation "measure (\<lambda>(bp, s). card (pending_ids bp s))")
  fix bp s
  assume some: "to_skip bp s \<noteq> []"
  let ?s = "fold (skip_node bp) (to_skip bp s) s"
  have sub: "set (to_skip bp s) \<subseteq> pending_ids bp s"
    by (auto simp: to_skip_def pending_ids_def)
  have "pending_ids bp ?s = pending_ids bp s - set (to_skip bp s)"
    by (auto simp: pending_ids_def fold_skip_status)
  moreover have "finite (pending_ids bp s)" by (simp add: pending_ids_def)
  ultimately have "pending_ids bp ?s \<subset> pending_ids bp s" using sub some
    by (cases "to_skip bp s") auto
  then show "((bp, ?s), (bp, s)) \<in> measure (\<lambda>(bp, s). card (pending_ids bp s))"
    by (simp add: psubset_card_mono pending_ids_def)
qed simp

declare cascade_skips.simps [simp del]

definition finalize_if_done :: "blueprint \<Rightarrow> run_state \<Rightarrow> run_state" where
  "finalize_if_done bp s =
     (if rs_status s \<noteq> RunRunning then s
      else let s1 = cascade_skips bp s
           in if list_ex (\<lambda>e. snd e = Running) (rs_nodes s1) \<or> step bp s1 \<noteq> [] then s1
              else s1\<lparr>rs_status := RunDone\<rparr>)"

section \<open>Loops\<close>

definition clamp_u32 :: "u64 \<Rightarrow> u32" where
  "clamp_u32 n = (if n < 2 ^ 32 then ucast n else - 1)"

definition resolve_u32_field :: "printer \<Rightarrow> (string \<times> json) list \<Rightarrow> string \<Rightarrow> json \<Rightarrow> u32 \<Rightarrow> u32" where
  "resolve_u32_field pr flds key registry dflt =
     (case map_of flds key of
        None \<Rightarrow> dflt
      | Some v \<Rightarrow>
          (case as_u64 v of
             Some n \<Rightarrow> clamp_u32 n
           | None \<Rightarrow>
               (case as_str v of
                  None \<Rightarrow> dflt
                | Some template \<Rightarrow>
                    (case resolve pr template registry of
                       Inl _ \<Rightarrow> dflt
                     | Inr r \<Rightarrow>
                         (case parse_u64 (trim r) of None \<Rightarrow> dflt | Some n \<Rightarrow> clamp_u32 n)))))"

definition loop_max :: "printer \<Rightarrow> blueprint \<Rightarrow> run_state \<Rightarrow> string \<Rightarrow> u32" where
  "loop_max pr bp s lp =
     max (case find_node bp lp of
            None \<Rightarrow> 1
          | Some nd \<Rightarrow> resolve_u32_field pr (nd_fields nd) ''max_iterations'' (rs_registry s) 1) 1"

definition loop_until :: "blueprint \<Rightarrow> run_state \<Rightarrow> string \<Rightarrow> failure + bool" where
  "loop_until bp s lp =
     (case (case find_node bp lp of None \<Rightarrow> None | Some nd \<Rightarrow> map_of (nd_fields nd) ''until'') of
        None \<Rightarrow> Inr False
      | Some v \<Rightarrow>
          (case as_str v of
             None \<Rightarrow> Inl (loop_error lp ''` until condition must be a registry path'')
           | Some c \<Rightarrow>
               (case validate_path c of
                  Inl msg \<Rightarrow> Inl (loop_error lp (''` until condition is invalid: '' @ msg))
                | Inr p \<Rightarrow> Inr (lookup_truthy (rs_registry s) p))))"

definition body_terminal :: "blueprint \<Rightarrow> run_state \<Rightarrow> string \<Rightarrow> bool" where
  "body_terminal bp s lp =
     list_all (\<lambda>b. status_or_pending s b \<in> {Completed, Skipped, Failed}) (body_nodes bp lp)"

definition loop_iteration_of :: "run_state \<Rightarrow> string \<Rightarrow> u32" where
  "loop_iteration_of s lp = (case rs_loop_iter s lp of None \<Rightarrow> 0 | Some n \<Rightarrow> n)"

fun advance_each :: "printer \<Rightarrow> blueprint \<Rightarrow> run_state \<Rightarrow> string list \<Rightarrow> failure + event_kind list" where
  "advance_each pr bp s [] = Inr []"
| "advance_each pr bp s (lp # lps) =
     (if body_nodes bp lp = [] then
        res_bind (advance_each pr bp s lps) (\<lambda>evs. Inr (LoopCompleted lp # evs))
      else if \<not> body_terminal bp s lp then advance_each pr bp s lps
      else
        res_bind (loop_until bp s lp) (\<lambda>until_met.
        res_bind (if until_met then Inr (LoopCompleted lp)
          else res_bind (next_iteration (loop_iteration_of s lp)) (\<lambda>following.
            Inr (if following < loop_max pr bp s lp then LoopIteration lp following
                 else LoopCompleted lp))) (\<lambda>ev.
        res_bind (advance_each pr bp s lps) (\<lambda>evs. Inr (ev # evs)))))"

definition running_loops :: "blueprint \<Rightarrow> run_state \<Rightarrow> string list" where
  "running_loops bp s = map nd_id (filter (\<lambda>nd. nd_type nd = ''loop'' \<and>
     status_or_pending s (nd_id nd) = Running) (bp_nodes bp))"

definition advance_loops :: "printer \<Rightarrow> blueprint \<Rightarrow> run_state \<Rightarrow> failure + event_kind list" where
  "advance_loops pr bp s = advance_each pr bp s (running_loops bp s)"

end
