(* ===== verification/Engine_Laws.thy ===== *)
theory Engine_Laws
  imports Engine_Core
begin

text \<open>
  What makes the engine core correct: the fold of an event never panics and keeps the
  invariant of the run state, the storage of a run and the bindings of its deliveries are
  changed by their own events only, the cascade of skips reaches the least closed state
  and equals the events the driver logs for it, and the loops stay within their bounds.
\<close>

section \<open>Fields an operation leaves alone\<close>

lemma deliver_edge_fields [simp]:
  "rs_run_id (deliver_edge bp port i s) = rs_run_id s"
  "rs_blueprint_id (deliver_edge bp port i s) = rs_blueprint_id s"
  "rs_blueprint_hash (deliver_edge bp port i s) = rs_blueprint_hash s"
  "rs_status (deliver_edge bp port i s) = rs_status s"
  "rs_registry (deliver_edge bp port i s) = rs_registry s"
  "rs_loop_iter (deliver_edge bp port i s) = rs_loop_iter s"
  "rs_next_seq (deliver_edge bp port i s) = rs_next_seq s"
  "rs_failure (deliver_edge bp port i s) = rs_failure s"
  "rs_deliveries (deliver_edge bp port i s) = rs_deliveries s"
  by (simp_all add: deliver_edge_def Let_def)

lemma deliver_from_port_fields [simp]:
  "rs_run_id (deliver_from_port bp n port s) = rs_run_id s"
  "rs_blueprint_id (deliver_from_port bp n port s) = rs_blueprint_id s"
  "rs_blueprint_hash (deliver_from_port bp n port s) = rs_blueprint_hash s"
  "rs_status (deliver_from_port bp n port s) = rs_status s"
  "rs_registry (deliver_from_port bp n port s) = rs_registry s"
  "rs_loop_iter (deliver_from_port bp n port s) = rs_loop_iter s"
  "rs_next_seq (deliver_from_port bp n port s) = rs_next_seq s"
  "rs_failure (deliver_from_port bp n port s) = rs_failure s"
  "rs_deliveries (deliver_from_port bp n port s) = rs_deliveries s"
proof -
  have "rs_run_id (fold (deliver_edge bp port) is s) = rs_run_id s \<and>
    rs_blueprint_id (fold (deliver_edge bp port) is s) = rs_blueprint_id s \<and>
    rs_blueprint_hash (fold (deliver_edge bp port) is s) = rs_blueprint_hash s \<and>
    rs_status (fold (deliver_edge bp port) is s) = rs_status s \<and>
    rs_registry (fold (deliver_edge bp port) is s) = rs_registry s \<and>
    rs_loop_iter (fold (deliver_edge bp port) is s) = rs_loop_iter s \<and>
    rs_next_seq (fold (deliver_edge bp port) is s) = rs_next_seq s \<and>
    rs_failure (fold (deliver_edge bp port) is s) = rs_failure s \<and>
    rs_deliveries (fold (deliver_edge bp port) is s) = rs_deliveries s" for "is"
    by (induction "is" arbitrary: s) simp_all
  then show "rs_run_id (deliver_from_port bp n port s) = rs_run_id s"
    "rs_blueprint_id (deliver_from_port bp n port s) = rs_blueprint_id s"
    "rs_blueprint_hash (deliver_from_port bp n port s) = rs_blueprint_hash s"
    "rs_status (deliver_from_port bp n port s) = rs_status s"
    "rs_registry (deliver_from_port bp n port s) = rs_registry s"
    "rs_loop_iter (deliver_from_port bp n port s) = rs_loop_iter s"
    "rs_next_seq (deliver_from_port bp n port s) = rs_next_seq s"
    "rs_failure (deliver_from_port bp n port s) = rs_failure s"
    "rs_deliveries (deliver_from_port bp n port s) = rs_deliveries s"
    by (simp_all add: deliver_from_port_def)
qed

lemma deliver_chosen_port_eq [simp]: "deliver_chosen_port bp n port s = deliver_from_port bp n port s"
  by (simp add: deliver_chosen_port_def)

lemma skip_node_fields [simp]:
  "rs_run_id (skip_node bp n s) = rs_run_id s"
  "rs_blueprint_id (skip_node bp n s) = rs_blueprint_id s"
  "rs_blueprint_hash (skip_node bp n s) = rs_blueprint_hash s"
  "rs_status (skip_node bp n s) = rs_status s"
  "rs_registry (skip_node bp n s) = rs_registry s"
  "rs_loop_iter (skip_node bp n s) = rs_loop_iter s"
  "rs_delivered (skip_node bp n s) = rs_delivered s"
  "rs_next_seq (skip_node bp n s) = rs_next_seq s"
  "rs_failure (skip_node bp n s) = rs_failure s"
  "rs_deliveries (skip_node bp n s) = rs_deliveries s"
  by (simp_all add: skip_node_def)

lemma fold_insert_set: "fold insert xs A = A \<union> set xs"
  by (induction xs arbitrary: A) auto

lemma skip_node_skipped [simp]: "rs_skipped (skip_node bp n s) = rs_skipped s \<union> set (outbound bp n)"
  by (simp add: skip_node_def fold_insert_set)

lemma skip_node_nodes [simp]: "rs_nodes (skip_node bp n s) = bt_insert n Skipped (rs_nodes s)"
  by (simp add: skip_node_def set_node_status_def)

lemma write_registry_fields:
  "write_registry p v s = Inr s' \<Longrightarrow> s' = s\<lparr>rs_registry := rs_registry s'\<rparr>"
  by (auto simp: write_registry_def split: option.splits)

section \<open>The invariant\<close>

text \<open>
  The registry has its shape, the node map is ordered, and the indices recorded as
  delivered or skipped are edges of the blueprint, the delivered ones of a node being
  inbound edges of that node.
\<close>

definition edges_in_range :: "blueprint \<Rightarrow> run_state \<Rightarrow> bool" where
  "edges_in_range bp s \<longleftrightarrow> (\<forall>n. delivered_to s n \<subseteq> set (inbound bp n)) \<and>
     rs_skipped s \<subseteq> {0..<length (bp_edges bp)}"

definition run_ok :: "blueprint \<Rightarrow> run_state \<Rightarrow> bool" where
  "run_ok bp s \<longleftrightarrow> state_ok s \<and> edges_in_range bp s"

lemma run_ok_new: "run_ok bp (new_run_state r b)"
  using state_ok_new [of r b]
  by (simp add: run_ok_def edges_in_range_def new_run_state_def delivered_to_def)

lemma state_ok_set_status: "state_ok s \<Longrightarrow> state_ok (set_node_status i st s)"
  by (simp add: state_ok_def set_node_status_def bt_wf_insert)

lemma delivered_set_status [simp]: "delivered_to (set_node_status i st s) n = delivered_to s n"
  by (simp add: delivered_to_def)

lemma run_ok_set_status [intro]: "run_ok bp s \<Longrightarrow> run_ok bp (set_node_status i st s)"
  by (simp add: run_ok_def state_ok_set_status edges_in_range_def)

lemma run_ok_cong:
  assumes "rs_nodes s = rs_nodes t" "rs_registry s = rs_registry t"
    and "rs_delivered s = rs_delivered t" "rs_skipped s = rs_skipped t"
  shows "run_ok bp s \<longleftrightarrow> run_ok bp t"
  using assms by (simp add: run_ok_def state_ok_def edges_in_range_def delivered_to_def)

lemma run_ok_fields [simp]:
  "run_ok bp (s\<lparr>rs_run_id := a\<rparr>) = run_ok bp s"
  "run_ok bp (s\<lparr>rs_blueprint_hash := b\<rparr>) = run_ok bp s"
  "run_ok bp (s\<lparr>rs_status := c\<rparr>) = run_ok bp s"
  "run_ok bp (s\<lparr>rs_loop_iter := d\<rparr>) = run_ok bp s"
  "run_ok bp (s\<lparr>rs_next_seq := e\<rparr>) = run_ok bp s"
  "run_ok bp (s\<lparr>rs_failure := f\<rparr>) = run_ok bp s"
  "run_ok bp (s\<lparr>rs_deliveries := g\<rparr>) = run_ok bp s"
  by (rule run_ok_cong; simp)+

lemma run_ok_deliver_edge:
  assumes "run_ok bp s" "i < length (bp_edges bp)"
  shows "run_ok bp (deliver_edge bp port i s)"
proof -
  let ?e = "bp_edges bp ! i"
  let ?s = "s\<lparr>rs_skipped := rs_skipped s - {i},
      rs_delivered := (rs_delivered s)(ed_to ?e \<mapsto> insert i (delivered_to s (ed_to ?e)))\<rparr>"
  have "run_ok bp ?s"
    using assms by (auto simp: run_ok_def state_ok_def edges_in_range_def delivered_to_def
        split: option.splits)
  moreover have "run_ok bp (s\<lparr>rs_skipped := insert i (rs_skipped s)\<rparr>)"
    using assms by (auto simp: run_ok_def state_ok_def edges_in_range_def delivered_to_def)
  ultimately show ?thesis by (auto simp: deliver_edge_def Let_def)
qed

lemma run_ok_deliver [intro]: "run_ok bp s \<Longrightarrow> run_ok bp (deliver_from_port bp n port s)"
proof -
  have "run_ok bp (fold (deliver_edge bp port) is s)"
    if "run_ok bp s" "\<forall>i \<in> set is. i < length (bp_edges bp)" for "is" s
    using that by (induction "is" arbitrary: s) (auto intro: run_ok_deliver_edge)
  then show "run_ok bp s \<Longrightarrow> run_ok bp (deliver_from_port bp n port s)"
    by (simp add: deliver_from_port_def)
qed

lemma run_ok_skip [intro]: "run_ok bp s \<Longrightarrow> run_ok bp (skip_node bp n s)"
  by (auto simp: run_ok_def state_ok_def edges_in_range_def delivered_to_def bt_wf_insert)

lemma run_ok_registry:
  "run_ok bp s \<Longrightarrow> state_ok s' \<Longrightarrow> s' = s\<lparr>rs_registry := rs_registry s'\<rparr> \<Longrightarrow> run_ok bp s'"
  unfolding run_ok_def edges_in_range_def delivered_to_def
  by (metis (no_types, lifting) run_state.select_convs(8,9) run_state.surjective run_state.update_convs(6))

lemma set_node_output_run_ok:
  "run_ok bp s \<Longrightarrow> \<exists>s'. set_node_output n v s = Inr s' \<and> run_ok bp s'"
  using set_node_output_ok [of s n v] run_ok_registry by (auto simp: run_ok_def)


section \<open>The fold of an event\<close>

text \<open>A result that does not panic and keeps the invariant where it is a state.\<close>

definition safe_result :: "blueprint \<Rightarrow> failure + run_state \<Rightarrow> bool" where
  "safe_result bp r \<longleftrightarrow> (case r of Inl f \<Rightarrow> \<exists>e. f = Err e | Inr s \<Rightarrow> run_ok bp s)"

lemma safe_result_simps [simp]:
  "safe_result bp (Inr s) \<longleftrightarrow> run_ok bp s"
  "safe_result bp (Inl f) \<longleftrightarrow> (\<exists>e. f = Err e)"
  by (simp_all add: safe_result_def)

lemma safe_result_bind:
  "safe_result bp r \<Longrightarrow> (\<And>s. r = Inr s \<Longrightarrow> run_ok bp s \<Longrightarrow> safe_result bp (f s)) \<Longrightarrow>
   safe_result bp (res_bind r f)"
  by (cases r) auto

lemma safe_result_output: "run_ok bp s \<Longrightarrow> safe_result bp (set_node_output n v s)"
  using set_node_output_run_ok [of bp s n v] by auto

lemma safe_result_prev: "run_ok bp s \<Longrightarrow> safe_result bp (write_registry [''nodes'', n, f] v s)"
proof -
  assume ok: "run_ok bp s"
  then obtain r where "jset_path [''nodes'', n, f] v (rs_registry s) = Some r" "registry_ok r"
    using registry_write_node [of "rs_registry s" n f v] by (auto simp: run_ok_def state_ok_def)
  with ok show ?thesis
    by (simp add: write_registry_def run_ok_def state_ok_def edges_in_range_def delivered_to_def)
qed

lemma safe_result_trigger: "run_ok bp s \<Longrightarrow> safe_result bp (set_trigger v s)"
  using set_trigger_ok [of s v] run_ok_registry [of bp s] by (auto simp: run_ok_def)

lemma registry_storage:
  assumes "registry_ok r"
  obtains m where "jset_path [''storage''] (JObject sm) r = Some (JObject (AList.update ''storage'' (JObject sm) m))"
    and "registry_ok (JObject (AList.update ''storage'' (JObject sm) m))" and "r = JObject m"
proof -
  from assms obtain m where r: "r = JObject m" by (auto simp: registry_ok_def elim: is_objectE)
  have "jset_path [''storage''] (JObject sm) r = Some (JObject (AList.update ''storage'' (JObject sm) m))"
    by (simp add: r)
  moreover have "registry_ok (JObject (AList.update ''storage'' (JObject sm) m))"
    using assms unfolding r registry_ok_def by (auto simp: im_get_update)
  ultimately show ?thesis using that r by blast
qed

lemma safe_result_storage: "run_ok bp s \<Longrightarrow> safe_result bp (write_registry [''storage''] (JObject sm) s)"
proof -
  assume ok: "run_ok bp s"
  then have "registry_ok (rs_registry s)" by (simp add: run_ok_def state_ok_def)
  then obtain m where "jset_path [''storage''] (JObject sm) (rs_registry s) =
      Some (JObject (AList.update ''storage'' (JObject sm) m))"
    "registry_ok (JObject (AList.update ''storage'' (JObject sm) m))"
    by (rule registry_storage)
  with ok show ?thesis
    by (simp add: write_registry_def run_ok_def state_ok_def edges_in_range_def delivered_to_def
        del: jset_path.simps)
qed

lemma safe_apply_state_update: "run_ok bp s \<Longrightarrow> safe_result bp (apply_state_update op entries s)"
  unfolding apply_state_update_def
  by (auto simp: safe_result_storage split: option.splits)

lemma run_ok_normalize [intro]: "run_ok bp s \<Longrightarrow> run_ok bp (normalize_legacy s)"
  using state_ok_normalize [of s] run_ok_registry [of bp s "normalize_legacy s"]
  by (auto simp: run_ok_def normalize_legacy_def edges_in_range_def delivered_to_def split: option.splits)

lemma safe_apply_run_started:
  "run_ok bp s \<Longrightarrow> safe_result bp (apply_run_started bp r h b sc trig ts s)"
  unfolding apply_run_started_def Let_def
  by (auto intro!: safe_result_bind safe_result_trigger run_ok_normalize split: option.splits)

lemma safe_reset_body_node: "run_ok bp s \<Longrightarrow> safe_result bp (reset_body_node n s)"
proof -
  have clear: "run_ok bp ((set_node_status n Pending t)\<lparr>rs_delivered := (rs_delivered t)(n := None)\<rparr>)"
    if "run_ok bp t" for t
    using that by (auto simp: run_ok_def state_ok_def edges_in_range_def delivered_to_def
        set_node_status_def bt_wf_insert)
  then show "run_ok bp s \<Longrightarrow> safe_result bp (reset_body_node n s)"
    unfolding reset_body_node_def
    by (intro safe_result_bind) (auto intro: safe_result_prev split: option.splits)
qed

lemma safe_reset_body:
  "run_ok bp s \<Longrightarrow> safe_result bp (run_steps (\<lambda>s n. reset_body_node n s) s ns)"
  by (induction ns arbitrary: s) (auto intro!: safe_result_bind safe_reset_body_node)

text \<open>A loop whose recorded iteration has no successor in 32 bits.\<close>

definition last_iteration :: "run_state \<Rightarrow> bool" where
  "last_iteration s \<longleftrightarrow> - 1 \<in> ran (rs_loop_iter s)"

lemma safe_apply_loop_iteration:
  "run_ok bp s \<Longrightarrow> safe_result bp (apply_loop_iteration bp lp k s) \<or>
     apply_loop_iteration bp lp k s = Inl Overflow \<and> last_iteration s"
proof -
  assume ok: "run_ok bp s"
  have "safe_result bp (res_bind (run_steps (\<lambda>s n. reset_body_node n s) s (body_nodes bp lp))
      (\<lambda>s1. Inr (deliver_from_port bp lp ''body''
         (s1\<lparr>rs_skipped := rs_skipped s1 - body_edges bp lp,
             rs_loop_iter := (rs_loop_iter s1)(lp \<mapsto> k)\<rparr>))))"
  proof (rule safe_result_bind [OF safe_reset_body [OF ok]])
    fix s1 assume "run_ok bp s1"
    then have "run_ok bp (s1\<lparr>rs_skipped := rs_skipped s1 - body_edges bp lp,
             rs_loop_iter := (rs_loop_iter s1)(lp \<mapsto> k)\<rparr>)"
      by (auto simp: run_ok_def state_ok_def edges_in_range_def delivered_to_def)
    then show "safe_result bp (Inr (deliver_from_port bp lp ''body''
         (s1\<lparr>rs_skipped := rs_skipped s1 - body_edges bp lp,
             rs_loop_iter := (rs_loop_iter s1)(lp \<mapsto> k)\<rparr>)))" by auto
  qed
  with ok show ?thesis
    unfolding apply_loop_iteration_def
    by (auto simp: loop_error_def next_iteration_def last_iteration_def ran_def
        intro!: run_ok_deliver split: option.splits)
qed

lemma safe_apply_other:
  "run_ok bp s \<Longrightarrow> (\<forall>n i. k \<noteq> LoopIteration n i) \<Longrightarrow> safe_result bp (apply_kind bp ts k s)"
proof (cases k)
  case (MessageSendPrepared n a b)
  then show "run_ok bp s \<Longrightarrow> ?thesis"
    by (simp add: apply_message_prepared_def Let_def)
qed (auto simp: Let_def safe_apply_run_started safe_apply_state_update
  intro!: safe_result_bind safe_result_output run_ok_deliver run_ok_set_status)

lemma safe_apply_kind:
  "run_ok bp s \<Longrightarrow> safe_result bp (apply_kind bp ts k s) \<or>
     apply_kind bp ts k s = Inl Overflow \<and> last_iteration s"
  using safe_apply_other [of bp s k ts] safe_apply_loop_iteration [of bp s] by (cases k) auto

lemma apply_kind_ok: "run_ok bp s \<Longrightarrow> apply_kind bp ts k s = Inr t \<Longrightarrow> run_ok bp t"
  using safe_apply_kind [of bp s ts k] by simp

text \<open>
  An event that cannot be folded is an error, or its sequence number is the last one, or it
  asks for the successor of the last iteration.
\<close>

lemma safe_apply:
  assumes "run_ok bp s"
  shows "case apply_event bp s ev of
    Inl f \<Rightarrow> (\<exists>e. f = Err e) \<or> f = Overflow \<and> (2 ^ 64 \<le> Suc (ev_seq ev) \<or> last_iteration s)
  | Inr t \<Rightarrow> run_ok bp t"
proof (cases "apply_kind bp (ev_ts ev) (ev_kind ev) s")
  case (Inl f)
  with safe_apply_kind [OF assms, of "ev_ts ev" "ev_kind ev"] show ?thesis by (auto simp: apply_event_def)
next
  case (Inr t)
  with apply_kind_ok [OF assms] have "run_ok bp t" by simp
  with Inr show ?thesis by (simp add: apply_event_def next_number_def)
qed

interpretation core: guarded_machine "apply_event bp" "run_ok bp" "\<lambda>f. f \<noteq> Panic" for bp
proof
  fix s e s' f assume ok: "run_ok bp s"
  show "run_ok bp s'" if "apply_event bp s e = Inr s'" using safe_apply [OF ok, of e] that by simp
  show "f \<noteq> Panic" if "apply_event bp s e = Inl f" using safe_apply [OF ok, of e] that by auto
qed

text \<open>An iteration costs an event, so after \<open>n\<close> events every recorded one is below \<open>n\<close>.\<close>

definition iterations_below :: "nat \<Rightarrow> run_state \<Rightarrow> bool" where
  "iterations_below n s \<longleftrightarrow> (\<forall>k \<in> ran (rs_loop_iter s). unat k < n)"

lemma iterations_below_same:
  "iterations_below n s \<Longrightarrow> rs_loop_iter t = rs_loop_iter s \<Longrightarrow> iterations_below (Suc n) t"
  by (auto simp: iterations_below_def less_SucI)

lemma write_registry_iter: "write_registry p v s = Inr t \<Longrightarrow> rs_loop_iter t = rs_loop_iter s"
  by (auto simp: write_registry_def split: option.splits)

lemma reset_body_iter:
  "run_steps (\<lambda>s n. reset_body_node n s) s ns = Inr t \<Longrightarrow> rs_loop_iter t = rs_loop_iter s"
proof (induction ns arbitrary: s)
  case (Cons n ns)
  then obtain u where u: "reset_body_node n s = Inr u"
    "run_steps (\<lambda>s n. reset_body_node n s) u ns = Inr t" by (auto simp: res_bind_eq_Inr)
  from u(1) have "rs_loop_iter u = rs_loop_iter s"
    by (auto simp: reset_body_node_def res_bind_eq_Inr dest: write_registry_iter split: option.splits)
  with Cons.IH [OF u(2)] show ?case by simp
qed simp

lemma word_suc_less:
  fixes a b :: "'a::len word"
  assumes "unat a < unat b"
  shows "unat (a + 1) = Suc (unat a)"
proof -
  have "unat b < 2 ^ LENGTH('a)" by simp
  with assms have "Suc (unat a) < 2 ^ LENGTH('a)" by linarith
  then show ?thesis by (simp add: unat_word_ariths(1))
qed

lemma unat_suc: "(k :: u32) \<noteq> - 1 \<Longrightarrow> unat (k + 1) = Suc (unat k)"
  by (rule word_suc_less [of k "- 1"]) (simp add: word_order.not_eq_extremum word_less_nat_alt)

lemma iterations_below_loop:
  assumes "apply_loop_iteration bp lp k s = Inr t" "iterations_below n s"
  shows "iterations_below (Suc n) t"
proof -
  have "rs_loop_iter t = (rs_loop_iter s)(lp \<mapsto> k) \<and> unat k < Suc n"
  proof (cases "k = 0")
    case True
    with assms(1) show ?thesis by (auto simp: apply_loop_iteration_def)
  next
    case False
    with assms(1) obtain p u where p: "rs_loop_iter s lp = Some p" "p \<noteq> - 1" "k = p + 1"
      and u: "run_steps (\<lambda>s n. reset_body_node n s) s (body_nodes bp lp) = Inr u"
      and t: "t = deliver_from_port bp lp ''body'' (u\<lparr>rs_skipped := rs_skipped u - body_edges bp lp,
                   rs_loop_iter := (rs_loop_iter u)(lp \<mapsto> k)\<rparr>)"
      by (auto simp: apply_loop_iteration_def res_bind_eq_Inr split: option.splits if_splits)
    have "unat p < n" using p(1) assms(2) by (auto simp: iterations_below_def ran_def)
    then have "unat k < Suc n" unfolding p(3) unat_suc [OF p(2)] by simp
    with t reset_body_iter [OF u] show ?thesis by simp
  qed
  with assms(2) show ?thesis by (auto simp: iterations_below_def ran_def less_SucI)
qed

lemma iterations_below_kind:
  assumes "apply_kind bp ts k s = Inr t" "iterations_below n s"
  shows "iterations_below (Suc n) t"
proof (cases k)
  case (LoopIteration lp i)
  with assms show ?thesis using iterations_below_loop by simp
next
  case (RunStarted r h b sc trig)
  have legacy: "rs_loop_iter (normalize_legacy u) = rs_loop_iter u" for u
    by (simp add: normalize_legacy_def split: option.split)
  from RunStarted assms show ?thesis
    by (intro iterations_below_same [OF assms(2)])
      (auto simp: apply_run_started_def res_bind_eq_Inr set_trigger_def legacy
        dest!: write_registry_iter split: if_splits option.splits)
qed (use assms in \<open>auto simp: res_bind_eq_Inr Let_def apply_message_prepared_def apply_state_update_def
      set_node_output_def dest!: write_registry_iter intro!: iterations_below_same [OF assms(2)]
      split: if_splits option.splits\<close>)

lemma run_steps_overflow:
  "run_ok bp s \<Longrightarrow> iterations_below n s \<Longrightarrow> run_steps (apply_event bp) s evs = Inl f \<Longrightarrow>
   (\<exists>e. f = Err e) \<or>
   f = Overflow \<and> ((\<exists>ev \<in> set evs. 2 ^ 64 \<le> Suc (ev_seq ev)) \<or> 2 ^ 32 < n + length evs)"
proof (induction evs arbitrary: s n)
  case (Cons ev evs)
  show ?case
  proof (cases "apply_event bp s ev")
    case (Inl g)
    have "2 ^ 32 \<le> n" if "last_iteration s"
    proof -
      have "unat (- 1 :: u32) < n" using that Cons.prems(2) by (auto simp: last_iteration_def iterations_below_def)
      then show ?thesis by (simp add: unsigned_minus_1_eq_mask mask_eq_exp_minus_1)
    qed
    with Inl Cons.prems safe_apply [OF Cons.prems(1), of ev] show ?thesis by auto
  next
    case (Inr t)
    with safe_apply [OF Cons.prems(1), of ev] have ok: "run_ok bp t" by simp
    from Inr obtain u q where u: "apply_kind bp (ev_ts ev) (ev_kind ev) s = Inr u" "t = u\<lparr>rs_next_seq := q\<rparr>"
      by (auto simp: apply_event_def res_bind_eq_Inr)
    from iterations_below_kind [OF u(1) Cons.prems(2)] have "iterations_below (Suc n) t"
      by (simp add: u(2) iterations_below_def)
    from Cons.IH [OF ok this] Cons.prems(3) Inr show ?thesis by auto
  qed
qed simp

lemma apply_event_seq:
  "apply_event bp s ev = Inr s' \<Longrightarrow> rs_next_seq s' = Suc (ev_seq ev)"
  "apply_event bp s ev = Inr s' \<Longrightarrow> Suc (ev_seq ev) < 2 ^ 64"
  unfolding apply_event_def by (auto simp: res_bind_eq_Inr)

lemma run_steps_next_seq:
  "run_steps (apply_event bp) s evs = Inr t \<Longrightarrow>
   rs_next_seq t = (if evs = [] then rs_next_seq s else Suc (ev_seq (last evs)))"
proof (induction evs arbitrary: s)
  case (Cons e es)
  from Cons.prems obtain u where u: "apply_event bp s e = Inr u" "run_steps (apply_event bp) u es = Inr t"
    by (auto simp: res_bind_eq_Inr)
  from u(1) have "rs_next_seq u = Suc (ev_seq e)" by (rule apply_event_seq(1))
  with Cons.IH [OF u(2)] show ?case by simp
qed simp

text \<open>
  C2. Folding any event log over a fresh run fails with an error of the engine and never by a
  write into the registry that hits a value that is not an object or an edge index out of
  bounds; the one thing that can go wrong besides is an overflow, and that takes an event that
  has the largest 64-bit sequence number, which has no successor, or a log of more than 2^32
  events, without which no loop comes to the largest 32-bit iteration. A state the fold reaches keeps the run invariant,
  and its next sequence number is the successor of the last event's.
\<close>

theorem fold_events_safe:
  "(case run_steps (apply_event bp) (new_run_state r b) evs of
      Inl f \<Rightarrow> (\<exists>e. f = Err e) \<or>
        f = Overflow \<and> ((\<exists>ev \<in> set evs. 2 ^ 64 \<le> Suc (ev_seq ev)) \<or> 2 ^ 32 < length evs)
    | Inr s \<Rightarrow> run_ok bp s \<and> rs_next_seq s = (if evs = [] then 0 else Suc (ev_seq (last evs))))"
proof -
  let ?res = "run_steps (apply_event bp) (new_run_state r b) evs"
  show ?thesis
  proof (cases ?res)
    case (Inl f)
    have "iterations_below 0 (new_run_state r b)" by (simp add: iterations_below_def new_run_state_def)
    from run_steps_overflow [OF run_ok_new this Inl] Inl show ?thesis by simp
  next
    case (Inr s)
    then show ?thesis using core.run_keeps [OF run_ok_new] run_steps_next_seq [OF Inr]
      by (simp add: new_run_state_def)
  qed
qed


section \<open>The cascade of skips\<close>

text \<open>
  The nodes no event can reach any more: pending nodes all of whose inbound edges are
  marked not taken or leave such a node.
\<close>

inductive_set dead :: "blueprint \<Rightarrow> run_state \<Rightarrow> string set" for bp s where
  dead: "nd \<in> set (bp_nodes bp) \<Longrightarrow> status_or_pending s (nd_id nd) = Pending \<Longrightarrow>
    inbound bp (nd_id nd) \<noteq> [] \<Longrightarrow>
    \<forall>i \<in> set (inbound bp (nd_id nd)). i \<in> rs_skipped s \<or> ed_from (bp_edges bp ! i) \<in> dead bp s \<Longrightarrow>
    nd_id nd \<in> dead bp s"

lemma dead_pending: "i \<in> dead bp s \<Longrightarrow> status_or_pending s i = Pending"
  by (erule dead.cases) simp

lemma fold_skip_fields:
  "rs_skipped (fold (skip_node bp) ns s) = rs_skipped s \<union> (\<Union>n \<in> set ns. set (outbound bp n))"
  "rs_status (fold (skip_node bp) ns s) = rs_status s"
  "rs_nodes (fold (skip_node bp) ns s) = fold (\<lambda>n. bt_insert n Skipped) ns (rs_nodes s)"
  by (induction ns arbitrary: s) auto

lemma to_skip_member:
  "i \<in> set (to_skip bp s) \<longleftrightarrow> (\<exists>nd \<in> set (bp_nodes bp). nd_id nd = i \<and>
     status_or_pending s i = Pending \<and> inbound bp i \<noteq> [] \<and> set (inbound bp i) \<subseteq> rs_skipped s)"
  by (auto simp: to_skip_def list_all_iff)

lemma to_skip_dead: "i \<in> set (to_skip bp s) \<Longrightarrow> i \<in> dead bp s"
  by (auto simp only: to_skip_member intro: dead.dead)

lemma dead_skip_round: "dead bp s = set (to_skip bp s) \<union> dead bp (fold (skip_node bp) (to_skip bp s) s)"
proof
  let ?s = "fold (skip_node bp) (to_skip bp s) s"
  show "dead bp s \<subseteq> set (to_skip bp s) \<union> dead bp ?s"
  proof
    fix i assume "i \<in> dead bp s"
    then show "i \<in> set (to_skip bp s) \<union> dead bp ?s"
    proof (induction rule: dead.induct)
      case (dead nd)
      show ?case
      proof (cases "nd_id nd \<in> set (to_skip bp s)")
        case False
        have "nd_id nd \<in> dead bp ?s"
          by (rule dead.dead)
            (use dead.hyps dead.IH False in \<open>auto simp: fold_skip_status fold_skip_fields\<close>)
        then show ?thesis ..
      qed simp
    qed
  qed
next
  let ?s = "fold (skip_node bp) (to_skip bp s) s"
  have "i \<in> dead bp s" if "i \<in> dead bp ?s" for i
    using that
  proof (induction rule: dead.induct)
    case (dead nd)
    show ?case
      by (rule dead.dead)
        (use dead.hyps dead.IH in \<open>auto simp: fold_skip_status fold_skip_fields to_skip_dead
           split: if_splits\<close>)
  qed
  then show "set (to_skip bp s) \<union> dead bp ?s \<subseteq> dead bp s"
    using to_skip_dead by blast
qed

lemma cascade_skips_fold: "\<exists>ns. set ns = dead bp s \<and> cascade_skips bp s = fold (skip_node bp) ns s"
proof (induction bp s rule: cascade_skips.induct)
  case (1 bp s)
  show ?case
  proof (cases "to_skip bp s = []")
    case True
    have "i \<notin> dead bp s" for i
    proof
      assume "i \<in> dead bp s"
      then show False
      proof (induction rule: dead.induct)
        case (dead nd)
        then have "nd_id nd \<in> set (to_skip bp s)" by (auto simp: to_skip_member)
        with True show False by simp
      qed
    qed
    then have "set [] = dead bp s" by auto
    with True show ?thesis by (intro exI [of _ "[]"]) (simp add: cascade_skips.simps)
  next
    case False
    let ?s = "fold (skip_node bp) (to_skip bp s) s"
    from 1 [OF False] obtain ns where ns: "set ns = dead bp ?s"
      "cascade_skips bp ?s = fold (skip_node bp) ns ?s" by blast
    have "cascade_skips bp s = fold (skip_node bp) (to_skip bp s @ ns) s"
      using False ns(2) by (simp add: cascade_skips.simps [of bp s])
    moreover have "set (to_skip bp s @ ns) = dead bp s"
      using ns(1) dead_skip_round [of bp s] by simp
    ultimately show ?thesis by blast
  qed
qed

lemma bt_wf_unique:
  assumes "bt_wf m" "bt_wf m'" "map_of m = map_of m'"
  shows "m = m'"
proof -
  have d: "distinct (map fst m)" "distinct (map fst m')"
    using assms(1,2) by (auto intro: bt_wf_distinct)
  then have sets: "set m = set m'" using assms(3) map_of_inject_set by blast
  have "inj_on fst (set m)" using d(1) by (simp add: distinct_map)
  moreover have "sorted (map fst m)" "sorted (map fst m')"
    using assms(1,2) by (simp_all add: bt_wf_def strict_sorted_iff)
  ultimately show ?thesis
    using d sets map_sorted_distinct_set_unique [of fst m m'] by simp
qed

lemma fold_skip_nodes:
  "bt_wf m \<Longrightarrow> bt_wf (fold (\<lambda>n. bt_insert n Skipped) ns m) \<and>
    map_of (fold (\<lambda>n. bt_insert n Skipped) ns m) =
      (\<lambda>i. if i \<in> set ns then Some Skipped else map_of m i)"
  by (induction ns arbitrary: m) (auto simp: bt_wf_insert)

text \<open>Which nodes are skipped decides the state, their order does not.\<close>

lemma fold_skip_order:
  assumes "state_ok s" "set ns = set ms"
  shows "fold (skip_node bp) ns s = fold (skip_node bp) ms s"
proof -
  have shape: "fold (skip_node bp) ks t = t\<lparr>rs_nodes := rs_nodes (fold (skip_node bp) ks t),
      rs_skipped := rs_skipped (fold (skip_node bp) ks t)\<rparr>" for ks t
  proof (induction ks arbitrary: t)
    case (Cons k ks)
    show ?case by (subst fold_simps, subst Cons.IH) (simp add: skip_node_def set_node_status_def)
  qed simp
  have "rs_nodes (fold (skip_node bp) ns s) = rs_nodes (fold (skip_node bp) ms s)"
    unfolding fold_skip_fields
    by (rule bt_wf_unique) (use assms fold_skip_nodes [of "rs_nodes s"] in \<open>simp_all add: state_ok_def\<close>)
  moreover have "rs_skipped (fold (skip_node bp) ns s) = rs_skipped (fold (skip_node bp) ms s)"
    using assms(2) by (simp add: fold_skip_fields)
  ultimately show ?thesis using shape [of ns s] shape [of ms s] by metis
qed

text \<open>
  C16. The cascade skips exactly the dead nodes, marks exactly their outbound edges, and
  ends in a state in which no further node qualifies: it computes the least fixed point in
  finitely many rounds, whatever order the blueprint lists its nodes in.
\<close>

theorem cascade_skips_exact:
  "to_skip bp (cascade_skips bp s) = [] \<and>
   node_status_of (cascade_skips bp s) i = (if i \<in> dead bp s then Some Skipped else node_status_of s i) \<and>
   rs_skipped (cascade_skips bp s) =
     rs_skipped s \<union> {e. e < length (bp_edges bp) \<and> ed_from (bp_edges bp ! e) \<in> dead bp s}"
proof -
  obtain ns where ns: "set ns = dead bp s" "cascade_skips bp s = fold (skip_node bp) ns s"
    using cascade_skips_fold by blast
  have status: "node_status_of (fold (skip_node bp) ks t) i =
      (if i \<in> set ks then Some Skipped else node_status_of t i)" for ks t
    by (induction ks arbitrary: t) (auto simp: node_status_of_def)
  have "to_skip bp (cascade_skips bp s) = []"
  proof (induction bp s rule: cascade_skips.induct)
    case (1 bp s)
    then show ?case by (cases "to_skip bp s = []") (simp_all add: cascade_skips.simps [of bp s])
  qed
  moreover have "(\<Union>n \<in> dead bp s. set (outbound bp n)) =
      {e. e < length (bp_edges bp) \<and> ed_from (bp_edges bp ! e) \<in> dead bp s}"
    by (rule set_eqI) simp
  ultimately show ?thesis
    by (simp add: ns status fold_skip_fields del: in_outbound)
qed


section \<open>Delivery\<close>

lemma deliver_edge_delivered:
  "delivered_to (deliver_edge bp port i s) m = delivered_to s m \<union>
     (if ed_from_port (bp_edges bp ! i) = port \<and> ed_to (bp_edges bp ! i) = m then {i} else {})"
  by (auto simp: deliver_edge_def Let_def delivered_to_def)

lemma deliver_edge_skipped:
  "rs_skipped (deliver_edge bp port i s) =
     (if ed_from_port (bp_edges bp ! i) = port then rs_skipped s - {i} else insert i (rs_skipped s))"
  by (simp add: deliver_edge_def Let_def)

lemma status_or_pending_fields [simp]:
  "status_or_pending (s\<lparr>rs_skipped := a\<rparr>) i = status_or_pending s i"
  "status_or_pending (s\<lparr>rs_delivered := b\<rparr>) i = status_or_pending s i"
  "status_or_pending (s\<lparr>rs_status := c\<rparr>) i = status_or_pending s i"
  "status_or_pending (s\<lparr>rs_loop_iter := d\<rparr>) i = status_or_pending s i"
  "status_or_pending (s\<lparr>rs_next_seq := e\<rparr>) i = status_or_pending s i"
  "status_or_pending (s\<lparr>rs_failure := f\<rparr>) i = status_or_pending s i"
  "status_or_pending (s\<lparr>rs_registry := g\<rparr>) i = status_or_pending s i"
  by (simp_all add: status_or_pending_def node_status_of_def)

lemma delivered_to_fields [simp]:
  "delivered_to (s\<lparr>rs_skipped := a\<rparr>) i = delivered_to s i"
  "delivered_to (s\<lparr>rs_status := c\<rparr>) i = delivered_to s i"
  "delivered_to (s\<lparr>rs_loop_iter := d\<rparr>) i = delivered_to s i"
  "delivered_to (s\<lparr>rs_next_seq := e\<rparr>) i = delivered_to s i"
  "delivered_to (s\<lparr>rs_failure := f\<rparr>) i = delivered_to s i"
  "delivered_to (s\<lparr>rs_registry := g\<rparr>) i = delivered_to s i"
  by (simp_all add: delivered_to_def)

lemma deliver_edge_status:
  "status_or_pending (deliver_edge bp port i s) m =
     (if status_or_pending s m = Skipped \<and> ed_from_port (bp_edges bp ! i) = port \<and>
         ed_to (bp_edges bp ! i) = m then Pending else status_or_pending s m)"
  by (auto simp: deliver_edge_def Let_def)

lemma deliver_edges_exact:
  assumes "distinct is"
  shows "delivered_to (fold (deliver_edge bp port) is s) m = delivered_to s m \<union>
      {i \<in> set is. ed_from_port (bp_edges bp ! i) = port \<and> ed_to (bp_edges bp ! i) = m} \<and>
    rs_skipped (fold (deliver_edge bp port) is s) =
      (rs_skipped s - {i \<in> set is. ed_from_port (bp_edges bp ! i) = port}) \<union>
      {i \<in> set is. ed_from_port (bp_edges bp ! i) \<noteq> port} \<and>
    status_or_pending (fold (deliver_edge bp port) is s) m =
      (if status_or_pending s m = Skipped \<and>
          (\<exists>i \<in> set is. ed_from_port (bp_edges bp ! i) = port \<and> ed_to (bp_edges bp ! i) = m)
       then Pending else status_or_pending s m)"
  using assms
proof (induction "is" arbitrary: s)
  case Nil
  show ?case by simp
next
  case (Cons i "is")
  let ?s = "deliver_edge bp port i s"
  have d: "distinct is" "i \<notin> set is" using Cons.prems by simp_all
  note IH1 = Cons.IH [OF d(1), of ?s, THEN conjunct1]
  note IH2 = Cons.IH [OF d(1), of ?s, THEN conjunct2, THEN conjunct1]
  note IH3 = Cons.IH [OF d(1), of ?s, THEN conjunct2, THEN conjunct2]
  have 1: "delivered_to (fold (deliver_edge bp port) (i # is) s) m = delivered_to s m \<union>
      {j \<in> set (i # is). ed_from_port (bp_edges bp ! j) = port \<and> ed_to (bp_edges bp ! j) = m}"
    unfolding fold_simps IH1 deliver_edge_delivered by auto
  have 2: "rs_skipped (fold (deliver_edge bp port) (i # is) s) =
      (rs_skipped s - {j \<in> set (i # is). ed_from_port (bp_edges bp ! j) = port}) \<union>
      {j \<in> set (i # is). ed_from_port (bp_edges bp ! j) \<noteq> port}"
    unfolding fold_simps IH2 deliver_edge_skipped using d(2) by auto
  have 3: "status_or_pending (fold (deliver_edge bp port) (i # is) s) m =
      (if status_or_pending s m = Skipped \<and>
          (\<exists>j \<in> set (i # is). ed_from_port (bp_edges bp ! j) = port \<and> ed_to (bp_edges bp ! j) = m)
       then Pending else status_or_pending s m)"
    unfolding fold_simps IH3 deliver_edge_status
    by (cases "ed_from_port (bp_edges bp ! i) = port"; cases "ed_to (bp_edges bp ! i) = m";
        cases "status_or_pending s m = Skipped") simp_all
  show ?case by (intro conjI 1 2 3)
qed

lemma deliver_from_port_exact:
  "delivered_to (deliver_from_port bp n port s) m = delivered_to s m \<union>
     {i \<in> set (outbound bp n). ed_from_port (bp_edges bp ! i) = port \<and> ed_to (bp_edges bp ! i) = m}"
  "rs_skipped (deliver_from_port bp n port s) =
     (rs_skipped s - {i \<in> set (outbound bp n). ed_from_port (bp_edges bp ! i) = port}) \<union>
     {i \<in> set (outbound bp n). ed_from_port (bp_edges bp ! i) \<noteq> port}"
  "status_or_pending (deliver_from_port bp n port s) m =
     (if status_or_pending s m = Skipped \<and>
         (\<exists>i \<in> set (outbound bp n). ed_from_port (bp_edges bp ! i) = port \<and> ed_to (bp_edges bp ! i) = m)
      then Pending else status_or_pending s m)"
proof -
  have d: "distinct (outbound bp n)" by (simp add: outbound_def distinct_edges_where)
  note e = deliver_edges_exact [OF d, of bp port s m]
  from e show "delivered_to (deliver_from_port bp n port s) m = delivered_to s m \<union>
     {i \<in> set (outbound bp n). ed_from_port (bp_edges bp ! i) = port \<and> ed_to (bp_edges bp ! i) = m}"
    unfolding deliver_from_port_def by blast
  from e show "rs_skipped (deliver_from_port bp n port s) =
     (rs_skipped s - {i \<in> set (outbound bp n). ed_from_port (bp_edges bp ! i) = port}) \<union>
     {i \<in> set (outbound bp n). ed_from_port (bp_edges bp ! i) \<noteq> port}"
    unfolding deliver_from_port_def by blast
  from e show "status_or_pending (deliver_from_port bp n port s) m =
     (if status_or_pending s m = Skipped \<and>
         (\<exists>i \<in> set (outbound bp n). ed_from_port (bp_edges bp ! i) = port \<and> ed_to (bp_edges bp ! i) = m)
      then Pending else status_or_pending s m)"
    unfolding deliver_from_port_def by blast
qed

text \<open>A node can run: the condition of \<open>step\<close> in terms of sets.\<close>

lemma in_step:
  "i \<in> set (step bp s) \<longleftrightarrow> rs_status s = RunRunning \<and>
     (\<exists>nd \<in> set (bp_nodes bp). nd_id nd = i \<and> status_or_pending s i = Pending \<and>
       (if inbound bp i = [] then nd_parent nd = None
        else set (inbound bp i) \<subseteq> delivered_to s i \<union> rs_skipped s \<and>
             (\<exists>e \<in> set (inbound bp i). e \<in> delivered_to s i)))"
  by (auto simp: step_def runnable_def list_all_iff list_ex_iff simp del: in_inbound)

text \<open>
  Entering a loop marks its \<open>done\<close> edges as not taken. A pending successor of the loop
  that another branch has already delivered to therefore becomes runnable while the loop
  is still running: a join placed after a loop does not wait for it.
\<close>

theorem join_runs_before_loop_done:
  assumes "rs_status s = RunRunning"
    and "find_node bp j = Some nd" "j \<noteq> lp" "status_or_pending s j = Pending"
    and "\<forall>i \<in> set (inbound bp j). i \<in> delivered_to s j \<or>
           ed_from (bp_edges bp ! i) = lp \<and> ed_from_port (bp_edges bp ! i) = ''done''"
    and "\<exists>i \<in> set (inbound bp j). i \<in> delivered_to s j" and "Suc q < 2 ^ 64"
  shows "\<exists>s'. apply_event bp s \<lparr>ev_seq = q, ev_ts = ts, ev_kind = LoopIteration lp 0\<rparr> = Inr s' \<and>
    status_or_pending s' lp = Running \<and> j \<in> set (step bp s')"
proof -
  let ?t = "(set_node_status lp Running s)\<lparr>rs_loop_iter := (rs_loop_iter s)(lp \<mapsto> 0)\<rparr>"
  let ?u = "deliver_from_port bp lp ''body'' ?t"
  let ?s = "?u\<lparr>rs_next_seq := Suc q\<rparr>"
  have run: "apply_event bp s \<lparr>ev_seq = q, ev_ts = ts, ev_kind = LoopIteration lp 0\<rparr> = Inr ?s"
    using assms(7) by (simp add: apply_event_def apply_loop_iteration_def)
  have lp: "status_or_pending ?s lp = Running"
    by (simp add: deliver_from_port_exact)
  have j: "status_or_pending ?s j = Pending"
    using assms(3,4) by (simp add: deliver_from_port_exact)
  have sub: "delivered_to s j \<subseteq> delivered_to ?s j"
    by (auto simp: deliver_from_port_exact)
  have resolved: "set (inbound bp j) \<subseteq> delivered_to ?s j \<union> rs_skipped ?s"
  proof
    fix i assume i: "i \<in> set (inbound bp j)"
    from bspec [OF assms(5) i] consider "i \<in> delivered_to s j" |
      "i \<in> set (outbound bp lp)" "ed_from_port (bp_edges bp ! i) \<noteq> ''body''"
      using i by fastforce
    then show "i \<in> delivered_to ?s j \<union> rs_skipped ?s"
    proof cases
      case 1
      with sub show ?thesis by blast
    next
      case 2
      then have "i \<in> rs_skipped ?s" by (simp add: deliver_from_port_exact)
      then show ?thesis ..
    qed
  qed
  have some: "\<exists>i \<in> set (inbound bp j). i \<in> delivered_to ?s j" using assms(6) sub by blast
  moreover have "inbound bp j \<noteq> []" using assms(6) by auto
  moreover have "nd \<in> set (bp_nodes bp) \<and> nd_id nd = j" using assms(2) by (rule find_node_Some)
  moreover have "rs_status ?s = RunRunning" using assms(1) by simp
  ultimately have "j \<in> set (step bp ?s)"
    unfolding in_step using j resolved by (metis (no_types, lifting))
  with run lp show ?thesis by blast
qed


definition plain_node :: "string \<Rightarrow> string \<Rightarrow> string option \<Rightarrow> node" where
  "plain_node i ty parent = \<lparr>nd_id = i, nd_type = ty, nd_name = None, nd_parent = parent,
     nd_fields = [], nd_position = None\<rparr>"

definition plain_edge :: "string \<Rightarrow> string \<Rightarrow> string \<Rightarrow> edge" where
  "plain_edge a port b = \<lparr>ed_from = a, ed_to = b, ed_from_port = port, ed_to_port = ''in''\<rparr>"

definition loop_join :: blueprint where
  "loop_join = \<lparr>bp_schema = 2, bp_id = ''wf'', bp_name = ''wf'',
     bp_nodes = [plain_node ''t'' ''manual_trigger'' None, plain_node ''lp'' ''loop'' None,
                 plain_node ''b'' ''task'' (Some ''lp''), plain_node ''j'' ''join'' None],
     bp_edges = [plain_edge ''t'' ''out'' ''lp'', plain_edge ''lp'' ''body'' ''b'',
                 plain_edge ''lp'' ''done'' ''j'', plain_edge ''t'' ''out'' ''j''],
     bp_body = []\<rparr>"

definition loop_join_triggered :: run_state where
  "loop_join_triggered = deliver_from_port loop_join ''t'' ''out''
     (set_node_status ''t'' Completed (new_run_state ''r'' ''wf''))"

lemma loop_join_edges:
  "inbound loop_join ''j'' = [2, 3]" "outbound loop_join ''t'' = [0, 3]"
  "bp_edges loop_join ! 2 = plain_edge ''lp'' ''done'' ''j''"
  "bp_edges loop_join ! 3 = plain_edge ''t'' ''out'' ''j''"
  "bp_edges loop_join ! 0 = plain_edge ''t'' ''out'' ''lp''"
  by (simp_all add: inbound_def outbound_def edges_where_def loop_join_def plain_edge_def upt_rec
      numeral_nat)

theorem join_runs_before_loop_done_witness:
  "\<exists>s'. apply_event loop_join loop_join_triggered
      \<lparr>ev_seq = 2, ev_ts = ''now'', ev_kind = LoopIteration ''lp'' 0\<rparr> = Inr s' \<and>
    status_or_pending s' ''lp'' = Running \<and> ''j'' \<in> set (step loop_join s')"
proof (rule join_runs_before_loop_done)
  have del: "delivered_to loop_join_triggered ''j'' = {3}"
    unfolding loop_join_triggered_def deliver_from_port_exact loop_join_edges
    by (auto simp: loop_join_edges plain_edge_def new_run_state_def delivered_to_def
        set_node_status_def)
  show "rs_status loop_join_triggered = RunRunning"
    by (simp add: loop_join_triggered_def new_run_state_def)
  show "find_node loop_join ''j'' = Some (plain_node ''j'' ''join'' None)"
    by (simp add: find_node_def loop_join_def plain_node_def)
  show "''j'' \<noteq> ''lp''" by simp
  show "status_or_pending loop_join_triggered ''j'' = Pending"
    unfolding loop_join_triggered_def deliver_from_port_exact
    by (simp add: new_run_state_def status_or_pending_def node_status_of_def set_node_status_def)
  show "\<forall>i \<in> set (inbound loop_join ''j''). i \<in> delivered_to loop_join_triggered ''j'' \<or>
      ed_from (bp_edges loop_join ! i) = ''lp'' \<and> ed_from_port (bp_edges loop_join ! i) = ''done''"
    unfolding loop_join_edges(1) by (simp add: loop_join_edges del plain_edge_def)
  show "\<exists>i \<in> set (inbound loop_join ''j''). i \<in> delivered_to loop_join_triggered ''j''"
    unfolding loop_join_edges(1) by (simp add: del)
  show "Suc 2 < 2 ^ 64" by simp
qed

section \<open>Loops\<close>

lemma body_nodes_terminal_Nil: "body_nodes bp lp = [] \<Longrightarrow> body_terminal bp s lp"
  by (simp add: body_terminal_def)

text \<open>What one loop of \<open>advance_loops\<close> contributes.\<close>

definition loop_decides :: "printer \<Rightarrow> blueprint \<Rightarrow> run_state \<Rightarrow> string \<Rightarrow> event_kind \<Rightarrow> bool" where
  "loop_decides pr bp s lp e \<longleftrightarrow> body_terminal bp s lp \<and>
     (body_nodes bp lp = [] \<and> e = LoopCompleted lp \<or>
      body_nodes bp lp \<noteq> [] \<and> (\<exists>u. loop_until bp s lp = Inr u \<and>
        e = (if \<not> u \<and> loop_iteration_of s lp + 1 < loop_max pr bp s lp
             then LoopIteration lp (loop_iteration_of s lp + 1) else LoopCompleted lp)))"

lemma loop_decides_owner:
  "loop_decides pr bp s l e \<Longrightarrow> e = LoopCompleted l \<or> (\<exists>k. e = LoopIteration l k)"
  by (auto simp: loop_decides_def split: if_splits)

lemma advance_each_Cons:
  "advance_each pr bp s (lp # lps) = Inr evs \<Longrightarrow>
   (\<exists>e es. evs = e # es \<and> loop_decides pr bp s lp e \<and> advance_each pr bp s lps = Inr es) \<or>
   \<not> body_terminal bp s lp \<and> advance_each pr bp s lps = Inr evs"
  by (cases "body_nodes bp lp = []"; cases "body_terminal bp s lp")
    (auto simp: res_bind_eq_Inr Let_def loop_decides_def body_nodes_terminal_Nil split: if_splits)

lemma advance_each_member:
  "advance_each pr bp s lps = Inr evs \<Longrightarrow> e \<in> set evs \<Longrightarrow> \<exists>lp \<in> set lps. loop_decides pr bp s lp e"
proof (induction lps arbitrary: evs)
  case (Cons lp lps)
  from advance_each_Cons [OF Cons.prems(1)] show ?case
    using Cons.IH Cons.prems(2) by fastforce
qed simp

lemma advance_each_covers:
  "advance_each pr bp s lps = Inr evs \<Longrightarrow> lp \<in> set lps \<Longrightarrow> body_terminal bp s lp \<Longrightarrow>
   LoopCompleted lp \<in> set evs \<or> LoopIteration lp (loop_iteration_of s lp + 1) \<in> set evs"
proof (induction lps arbitrary: evs)
  case Nil
  then show ?case by simp
next
  case (Cons l lps)
  from advance_each_Cons [OF Cons.prems(1)] show ?case
    using Cons.IH Cons.prems(2,3) by (fastforce simp: loop_decides_def)
qed

lemma in_running_loops:
  "lp \<in> set (running_loops bp s) \<longleftrightarrow> status_or_pending s lp = Running \<and>
     (\<exists>nd \<in> set (bp_nodes bp). nd_id nd = lp \<and> nd_type nd = ''loop'')"
  by (auto simp: running_loops_def)

text \<open>
  C17. The loops advance within their bounds. While a loop's iteration is below its limit,
  the 32-bit count does not wrap; the next iteration is the successor and still below the
  limit, and starts only when the loop runs, its body has ended and its \<open>until\<close> path does
  not hold; the loop completes only when its body has ended and the path holds or the
  limit is reached; and a running loop whose body has ended always does one or the other.
\<close>

theorem advance_loops_bounded:
  assumes "advance_loops pr bp s = Inr evs"
    and "unat (loop_iteration_of s lp) < unat (loop_max pr bp s lp)"
  shows "(\<forall>k. LoopIteration lp k \<in> set evs \<longrightarrow>
      lp \<in> set (running_loops bp s) \<and> body_nodes bp lp \<noteq> [] \<and> body_terminal bp s lp \<and>
      loop_until bp s lp = Inr False \<and> unat k = Suc (unat (loop_iteration_of s lp)) \<and>
      unat k < unat (loop_max pr bp s lp)) \<and>
    (LoopCompleted lp \<in> set evs \<longrightarrow>
      lp \<in> set (running_loops bp s) \<and> body_terminal bp s lp \<and>
      (body_nodes bp lp = [] \<or> loop_until bp s lp = Inr True \<or>
       Suc (unat (loop_iteration_of s lp)) = unat (loop_max pr bp s lp))) \<and>
    (lp \<in> set (running_loops bp s) \<and> body_terminal bp s lp \<longrightarrow>
      LoopCompleted lp \<in> set evs \<or> LoopIteration lp (loop_iteration_of s lp + 1) \<in> set evs)"
proof -
  note suc = word_suc_less [OF assms(2)]
  have each: "advance_each pr bp s (running_loops bp s) = Inr evs"
    using assms(1) by (simp add: advance_loops_def)
  have mem: "lp \<in> set (running_loops bp s) \<and> loop_decides pr bp s lp e"
    if e: "e \<in> set evs" and own: "e = LoopCompleted lp \<or> e = LoopIteration lp k" for e k
  proof -
    obtain l where l: "l \<in> set (running_loops bp s)" "loop_decides pr bp s l e"
      using advance_each_member [OF each e] by blast
    with loop_decides_owner [OF l(2)] own show ?thesis by auto
  qed
  have iter: "lp \<in> set (running_loops bp s) \<and> body_nodes bp lp \<noteq> [] \<and> body_terminal bp s lp \<and>
      loop_until bp s lp = Inr False \<and> unat k = Suc (unat (loop_iteration_of s lp)) \<and>
      unat k < unat (loop_max pr bp s lp)" if "LoopIteration lp k \<in> set evs" for k
    using mem [OF that, of k] suc
    by (auto simp: loop_decides_def word_less_nat_alt split: if_splits)
  have "lp \<in> set (running_loops bp s) \<and> body_terminal bp s lp \<and>
      (body_nodes bp lp = [] \<or> loop_until bp s lp = Inr True \<or>
       Suc (unat (loop_iteration_of s lp)) = unat (loop_max pr bp s lp))"
    if "LoopCompleted lp \<in> set evs"
    using mem [OF that] suc assms(2)
    by (auto simp: loop_decides_def word_less_nat_alt split: if_splits)
  with iter advance_each_covers [OF each] show ?thesis by blast
qed


definition counted_loop :: blueprint where
  "counted_loop = loop_join\<lparr>bp_nodes := [plain_node ''t'' ''manual_trigger'' None,
     (plain_node ''lp'' ''loop'' None)\<lparr>nd_fields := [(''max_iterations'', JNumber (PosInt 3))]\<rparr>,
     plain_node ''b'' ''task'' (Some ''lp''), plain_node ''j'' ''join'' None]\<rparr>"

definition second_iteration :: run_state where
  "second_iteration = set_node_status ''lp'' Running (set_node_status ''b'' Completed
     ((new_run_state ''r'' ''wf'')\<lparr>rs_loop_iter := [''lp'' \<mapsto> 1]\<rparr>))"

lemma counted_loop_facts:
  "body_nodes counted_loop ''lp'' = [''b'']"
  "running_loops counted_loop second_iteration = [''lp'']"
  "loop_until counted_loop second_iteration ''lp'' = Inr False"
  "loop_max pr counted_loop second_iteration ''lp'' = 3"
  "loop_iteration_of second_iteration ''lp'' = 1"
  "body_terminal counted_loop second_iteration ''lp''"
proof -
  show body: "body_nodes counted_loop ''lp'' = [''b'']"
    by (simp add: body_nodes_def counted_loop_def plain_node_def)
  show "running_loops counted_loop second_iteration = [''lp'']"
    by (simp add: running_loops_def counted_loop_def plain_node_def second_iteration_def)
  have fields: "find_node counted_loop ''lp'' = Some ((plain_node ''lp'' ''loop'' None)
      \<lparr>nd_fields := [(''max_iterations'', JNumber (PosInt 3))]\<rparr>)"
    by (simp add: find_node_def counted_loop_def plain_node_def)
  show "loop_until counted_loop second_iteration ''lp'' = Inr False"
    by (simp add: loop_until_def fields plain_node_def)
  show "loop_max pr counted_loop second_iteration ''lp'' = 3"
    by (simp add: loop_max_def fields resolve_u32_field_def clamp_u32_def max_def word_le_nat_alt)
  show "loop_iteration_of second_iteration ''lp'' = 1"
    by (simp add: loop_iteration_of_def second_iteration_def)
  show "body_terminal counted_loop second_iteration ''lp''"
    by (simp add: body_terminal_def body second_iteration_def)
qed

theorem advance_loops_bounded_witness:
  "advance_loops (\<lambda>_. []) counted_loop second_iteration = Inr [LoopIteration ''lp'' 2] \<and>
   unat (2::u32) = Suc (unat (loop_iteration_of second_iteration ''lp'')) \<and>
   unat (2::u32) < unat (loop_max (\<lambda>_. []) counted_loop second_iteration ''lp'')"
proof -
  have adv: "advance_loops (\<lambda>_. []) counted_loop second_iteration = Inr [LoopIteration ''lp'' 2]"
    by (simp add: advance_loops_def counted_loop_facts next_iteration_def)
  moreover have "unat (loop_iteration_of second_iteration ''lp'') <
      unat (loop_max (\<lambda>_. []) counted_loop second_iteration ''lp'')"
    by (simp add: counted_loop_facts)
  note advance_loops_bounded [OF adv this]
  then have "\<forall>k. LoopIteration ''lp'' k \<in> set [LoopIteration ''lp'' (2::u32)] \<longrightarrow>
      unat k = Suc (unat (loop_iteration_of second_iteration ''lp'')) \<and>
      unat k < unat (loop_max (\<lambda>_. []) counted_loop second_iteration ''lp'')"
    by blast
  ultimately show ?thesis by simp
qed

lemma jset_path_head:
  "jset_path (k # ks) w v = Some v' \<Longrightarrow>
   \<exists>c. jset_path ks w (case jget k v of None \<Rightarrow> JNull | Some c \<Rightarrow> c) = Some c \<and> jget k v' = Some c"
  by (auto simp: im_get_update jget_def split: json.splits option.splits)

lemma jget_path_default:
  "jget_path (k # ks) v = (case jget k v of None \<Rightarrow> None | Some c \<Rightarrow> jget_path ks c)"
  "ks \<noteq> [] \<Longrightarrow> jget_path ks (case x of None \<Rightarrow> JNull | Some c \<Rightarrow> c) =
     (case x of None \<Rightarrow> None | Some c \<Rightarrow> jget_path ks c)"
  by (cases ks; auto simp: jget_def split: option.splits)+

text \<open>A write at a path of three keys shows at that path and leaves its siblings alone.\<close>

lemma registry_write_get:
  assumes "jset_path [k, n, f] v r = Some r'"
  shows "jget_path [k, m, g] r' = (if m = n \<and> g = f then Some v else jget_path [k, m, g] r)"
proof -
  from jset_path_head [OF assms] obtain c where
    c: "jset_path [n, f] v (case jget k r of None \<Rightarrow> JNull | Some c \<Rightarrow> c) = Some c" "jget k r' = Some c"
    by blast
  from jset_path_head [OF c(1)] obtain d where
    d: "jset_path [f] v (case jget n (case jget k r of None \<Rightarrow> JNull | Some c \<Rightarrow> c) of
          None \<Rightarrow> JNull | Some c \<Rightarrow> c) = Some d" "jget n c = Some d" by blast
  have r': "jget_path [k, m, g] r' = jget_path [m, g] c" using c(2) by simp
  have r: "jget_path [k, m, g] r = jget_path [m, g] (case jget k r of None \<Rightarrow> JNull | Some c \<Rightarrow> c)"
    by (subst jget_path_default(2)) simp_all
  show ?thesis
  proof (cases "m = n")
    case False
    then have "jget_path [m, g] c = jget_path [m, g] (case jget k r of None \<Rightarrow> JNull | Some c \<Rightarrow> c)"
      using jset_path_other [OF c(1)] by simp
    with False show ?thesis by (simp only: r r' if_False simp_thms)
  next
    case True
    have "jget_path [n, g] (case jget k r of None \<Rightarrow> JNull | Some c \<Rightarrow> c) = jget_path [g]
        (case jget n (case jget k r of None \<Rightarrow> JNull | Some c \<Rightarrow> c) of None \<Rightarrow> JNull | Some c \<Rightarrow> c)"
      by (subst jget_path_default(2)) simp_all
    moreover have "jget_path [n, g] c = jget_path [g] d" using d(2) by simp
    moreover have "jget_path [g] d = (if g = f then Some v else jget_path [g]
        (case jget n (case jget k r of None \<Rightarrow> JNull | Some c \<Rightarrow> c) of None \<Rightarrow> JNull | Some c \<Rightarrow> c))"
      using jset_path_get [OF d(1)] jset_path_other [OF d(1), of g] by simp
    ultimately show ?thesis by (simp only: True r [unfolded True] r' [unfolded True] simp_thms)
  qed
qed


section \<open>The next iteration of a loop\<close>

definition node_prev :: "run_state \<Rightarrow> string \<Rightarrow> json option" where
  "node_prev s n = jget_path [''nodes'', n, ''prev''] (rs_registry s)"

lemma write_registry_get:
  "write_registry [k, n, f] v s = Inr s' \<Longrightarrow>
   jget_path [k, m, g] (rs_registry s') =
     (if m = n \<and> g = f then Some v else jget_path [k, m, g] (rs_registry s))"
  using registry_write_get
  by (auto simp: write_registry_def simp del: jset_path.simps jget_path.simps split: option.splits)

lemma reset_body_node_effect:
  assumes "reset_body_node n s = Inr s'"
  shows "status_or_pending s' m = (if m = n then Pending else status_or_pending s m) \<and>
    delivered_to s' m = (if m = n then {} else delivered_to s m) \<and>
    rs_skipped s' = rs_skipped s \<and> rs_loop_iter s' = rs_loop_iter s \<and>
    rs_status s' = rs_status s \<and> node_output s' m = node_output s m \<and>
    node_prev s' m = (if m = n \<and> node_output s n \<noteq> None then node_output s n else node_prev s m)"
proof -
  obtain t where t: "(case node_output s n of None \<Rightarrow> Inr s
      | Some out \<Rightarrow> write_registry [''nodes'', n, ''prev''] out s) = Inr t"
    and s': "s' = (set_node_status n Pending t)\<lparr>rs_delivered := (rs_delivered t)(n := None)\<rparr>"
    using assms by (auto simp: reset_body_node_def res_bind_eq_Inr)
  have same: "t = s\<lparr>rs_registry := rs_registry t\<rparr>"
    using t write_registry_fields by (auto split: option.splits)
  have reg: "jget_path [''nodes'', m, g] (rs_registry t) =
      (if m = n \<and> g = ''prev'' \<and> node_output s n \<noteq> None then node_output s n
       else jget_path [''nodes'', m, g] (rs_registry s))" for g
    using t write_registry_get by (auto split: option.splits simp del: jget_path.simps)
  have "node_output s' m = node_output s m"
    using reg [of "''output''"] by (simp add: s' node_output_def del: jget_path.simps)
  moreover have "node_prev s' m = (if m = n \<and> node_output s n \<noteq> None then node_output s n else node_prev s m)"
    using reg [of "''prev''"]
    by (cases "m = n"; cases "node_output s n") (simp_all add: s' node_prev_def del: jget_path.simps)
  moreover have "status_or_pending t m = status_or_pending s m" "delivered_to t m = delivered_to s m"
    "rs_skipped t = rs_skipped s" "rs_loop_iter t = rs_loop_iter s" "rs_status t = rs_status s"
    by (subst same, simp)+
  ultimately show ?thesis by (simp add: s') (simp add: delivered_to_def)
qed

lemma reset_body_effect:
  "run_steps (\<lambda>s n. reset_body_node n s) s ns = Inr s' \<Longrightarrow>
    status_or_pending s' m = (if m \<in> set ns then Pending else status_or_pending s m) \<and>
    delivered_to s' m = (if m \<in> set ns then {} else delivered_to s m) \<and>
    rs_skipped s' = rs_skipped s \<and> rs_loop_iter s' = rs_loop_iter s \<and>
    rs_status s' = rs_status s \<and> node_output s' m = node_output s m \<and>
    node_prev s' m = (if m \<in> set ns \<and> node_output s m \<noteq> None then node_output s m else node_prev s m)"
proof (induction ns arbitrary: s)
  case Nil
  then show ?case by simp
next
  case (Cons n ns)
  then obtain t where t: "reset_body_node n s = Inr t"
    "run_steps (\<lambda>s n. reset_body_node n s) t ns = Inr s'" by (auto simp: res_bind_eq_Inr)
  from Cons.IH [OF t(2)] reset_body_node_effect [OF t(1), of m] show ?case
    by (cases "m = n"; cases "node_output s n") simp_all
qed

lemma reset_body_node_total: "run_ok bp s \<Longrightarrow> \<exists>s'. reset_body_node n s = Inr s' \<and> run_ok bp s'"
proof -
  assume "run_ok bp s"
  then have safe: "safe_result bp (reset_body_node n s)" by (rule safe_reset_body_node)
  have "f = Panic" if "reset_body_node n s = Inl f" for f
    using that by (auto simp: reset_body_node_def res_bind_eq_Inl write_registry_def split: option.splits)
  with safe show ?thesis by (cases "reset_body_node n s") auto
qed

lemma reset_body_total: "run_ok bp s \<Longrightarrow> \<exists>s'. run_steps (\<lambda>s n. reset_body_node n s) s ns = Inr s'"
proof (induction ns arbitrary: s)
  case (Cons n ns)
  then show ?case using reset_body_node_total [OF Cons.prems, of n] by fastforce
qed simp

text \<open>
  The next iteration of a loop starts afresh: it is accepted exactly when it follows
  the recorded one, and then every body node is pending, has only the loop's body edges
  delivered, keeps its output and shows the same output as that of the previous iteration;
  no edge inside the body or into it from the body port stays marked as not taken.
\<close>

theorem loop_iteration_restarts_body:
  assumes "run_ok bp s" "k \<noteq> 0"
  shows "((\<exists>s'. apply_loop_iteration bp lp k s = Inr s') \<longleftrightarrow>
      (\<exists>p. rs_loop_iter s lp = Some p \<and> p + 1 = k)) \<and>
    (\<forall>s'. apply_loop_iteration bp lp k s = Inr s' \<longrightarrow>
      rs_loop_iter s' = (rs_loop_iter s)(lp \<mapsto> k) \<and>
      (\<forall>b \<in> set (body_nodes bp lp).
         status_or_pending s' b = Pending \<and>
         delivered_to s' b = set (filter (\<lambda>i. ed_to (bp_edges bp ! i) = b) (outbound_from_port bp lp ''body'')) \<and>
         node_output s' b = node_output s b \<and>
         (node_output s b \<noteq> None \<longrightarrow> node_prev s' b = node_output s b)) \<and>
      rs_skipped s' \<inter> body_edges bp lp \<subseteq>
         {i. ed_from (bp_edges bp ! i) = lp \<and> ed_from_port (bp_edges bp ! i) \<noteq> ''body''})"
proof -
  let ?run = "run_steps (\<lambda>s n. reset_body_node n s) s (body_nodes bp lp)"
  let ?ready = "\<lambda>t. t\<lparr>rs_skipped := rs_skipped t - body_edges bp lp,
               rs_loop_iter := (rs_loop_iter t)(lp \<mapsto> k)\<rparr>"
  have total: "\<exists>t. ?run = Inr t"
    using reset_body_total [OF assms(1)] .
  have eq: "apply_loop_iteration bp lp k s = Inr s' \<longleftrightarrow>
      (\<exists>p. rs_loop_iter s lp = Some p \<and> p + 1 = k) \<and>
      (\<exists>t. ?run = Inr t \<and> s' = deliver_from_port bp lp ''body'' (?ready t))" for s'
    using assms(2) by (auto simp: apply_loop_iteration_def res_bind_eq_Inr split: option.splits)
  have iff: "(\<exists>s'. apply_loop_iteration bp lp k s = Inr s') \<longleftrightarrow>
      (\<exists>p. rs_loop_iter s lp = Some p \<and> p + 1 = k)"
    using total unfolding eq by blast
  have effect: "rs_loop_iter s' = (rs_loop_iter s)(lp \<mapsto> k) \<and>
      (\<forall>b \<in> set (body_nodes bp lp).
         status_or_pending s' b = Pending \<and>
         delivered_to s' b = set (filter (\<lambda>i. ed_to (bp_edges bp ! i) = b) (outbound_from_port bp lp ''body'')) \<and>
         node_output s' b = node_output s b \<and>
         (node_output s b \<noteq> None \<longrightarrow> node_prev s' b = node_output s b)) \<and>
      rs_skipped s' \<inter> body_edges bp lp \<subseteq>
         {i. ed_from (bp_edges bp ! i) = lp \<and> ed_from_port (bp_edges bp ! i) \<noteq> ''body''}"
    if "apply_loop_iteration bp lp k s = Inr s'" for s'
  proof -
    from that obtain t where t: "?run = Inr t" and s': "s' = deliver_from_port bp lp ''body'' (?ready t)"
      unfolding eq by blast
    note eff = reset_body_effect [OF t]
    have reg: "node_output s' b = node_output t b" "node_prev s' b = node_prev t b" for b
      by (simp_all add: s' node_output_def node_prev_def del: jget_path.simps)
    have iter: "rs_loop_iter s' = (rs_loop_iter s)(lp \<mapsto> k)"
      using eff by (simp add: s')
    have body: "status_or_pending s' b = Pending \<and>
         delivered_to s' b = set (filter (\<lambda>i. ed_to (bp_edges bp ! i) = b) (outbound_from_port bp lp ''body'')) \<and>
         node_output s' b = node_output s b \<and>
         (node_output s b \<noteq> None \<longrightarrow> node_prev s' b = node_output s b)"
      if b: "b \<in> set (body_nodes bp lp)" for b
    proof -
      have "status_or_pending s' b = Pending" "delivered_to s' b =
          set (filter (\<lambda>i. ed_to (bp_edges bp ! i) = b) (outbound_from_port bp lp ''body''))"
        unfolding s' deliver_from_port_exact using eff [of b] b
        by (auto simp: outbound_from_port_def)
      with eff [of b] b reg show ?thesis by simp
    qed
    have skipped: "rs_skipped s' \<inter> body_edges bp lp \<subseteq>
         {i. ed_from (bp_edges bp ! i) = lp \<and> ed_from_port (bp_edges bp ! i) \<noteq> ''body''}"
      unfolding s' deliver_from_port_exact by auto
    from iter body skipped show ?thesis by blast
  qed
  show ?thesis by (intro conjI iff allI impI effect)
qed


theorem loop_iteration_restarts_body_witness:
  "run_ok counted_loop second_iteration \<and>
   (\<exists>s'. apply_loop_iteration counted_loop ''lp'' 2 second_iteration = Inr s' \<and>
     status_or_pending s' ''b'' = Pending \<and> rs_loop_iter s' ''lp'' = Some 2)"
proof -
  have ok: "run_ok counted_loop second_iteration"
    unfolding second_iteration_def
    by (intro run_ok_set_status) (simp add: run_ok_new)
  have iter: "rs_loop_iter second_iteration ''lp'' = Some 1"
    by (simp add: second_iteration_def)
  have two: "(2::u32) \<noteq> 0" by simp
  have b: "''b'' \<in> set (body_nodes counted_loop ''lp'')" by (simp add: counted_loop_facts)
  note eff = loop_iteration_restarts_body [OF ok two, of "''lp''"]
  have "\<exists>p. rs_loop_iter second_iteration ''lp'' = Some p \<and> p + 1 = 2" using iter by simp
  with eff obtain s' where s': "apply_loop_iteration counted_loop ''lp'' 2 second_iteration = Inr s'"
    by blast
  with eff b have "status_or_pending s' ''b'' = Pending"
    "rs_loop_iter s' = (rs_loop_iter second_iteration)(''lp'' \<mapsto> 2)" by blast+
  with ok s' show ?thesis by auto
qed

section \<open>Delivery bindings\<close>

lemma write_registry_deliveries:
  "write_registry p v s = Inr s' \<Longrightarrow> rs_deliveries s' = rs_deliveries s"
  by (drule write_registry_fields) (metis run_state.ext_inject run_state.surjective run_state.update_convs(6))

lemma reset_body_deliveries:
  "run_steps (\<lambda>s n. reset_body_node n s) s ns = Inr s' \<Longrightarrow> rs_deliveries s' = rs_deliveries s"
proof (induction ns arbitrary: s)
  case (Cons n ns)
  then obtain t where t: "reset_body_node n s = Inr t"
    "run_steps (\<lambda>s n. reset_body_node n s) t ns = Inr s'" by (auto simp: res_bind_eq_Inr)
  from t(1) have "rs_deliveries t = rs_deliveries s"
    by (auto simp: reset_body_node_def res_bind_eq_Inr write_registry_deliveries split: option.splits)
  with Cons.IH [OF t(2)] show ?case by simp
qed simp

lemma apply_kind_deliveries:
  "apply_kind bp ts k s = Inr s' \<Longrightarrow> rs_deliveries s n = Some b \<Longrightarrow> rs_deliveries s' n = Some b"
proof (cases k)
  case (RunStarted r h i sc tr)
  then show "apply_kind bp ts k s = Inr s' \<Longrightarrow> rs_deliveries s n = Some b \<Longrightarrow> ?thesis"
    by (auto simp: apply_run_started_def Let_def res_bind_eq_Inr set_trigger_def normalize_legacy_def
        write_registry_deliveries split: option.splits if_splits)
next
  case (MessageSendPrepared m a p)
  then show "apply_kind bp ts k s = Inr s' \<Longrightarrow> rs_deliveries s n = Some b \<Longrightarrow> ?thesis"
    by (auto simp: apply_message_prepared_def Let_def split: if_splits)
next
  case (StateUpdated m op e)
  then show "apply_kind bp ts k s = Inr s' \<Longrightarrow> rs_deliveries s n = Some b \<Longrightarrow> ?thesis"
    by (auto simp: apply_state_update_def write_registry_deliveries split: option.splits if_splits)
next
  case (LoopIteration m i)
  then show "apply_kind bp ts k s = Inr s' \<Longrightarrow> rs_deliveries s n = Some b \<Longrightarrow> ?thesis"
    by (auto simp: apply_loop_iteration_def res_bind_eq_Inr reset_body_deliveries
        split: option.splits if_splits)
next
  case (NodeCompleted m out)
  then show "apply_kind bp ts k s = Inr s' \<Longrightarrow> rs_deliveries s n = Some b \<Longrightarrow> ?thesis"
    by (auto simp: res_bind_eq_Inr Let_def set_node_output_def write_registry_deliveries split: if_splits)
next
  case (DecisionCompleted m out port)
  then show "apply_kind bp ts k s = Inr s' \<Longrightarrow> rs_deliveries s n = Some b \<Longrightarrow> ?thesis"
    by (auto simp: res_bind_eq_Inr set_node_output_def write_registry_deliveries)
qed auto

lemma apply_event_deliveries:
  "apply_event bp s ev = Inr s' \<Longrightarrow> rs_deliveries s n = Some b \<Longrightarrow> rs_deliveries s' n = Some b"
  by (auto simp: apply_event_def res_bind_eq_Inr apply_kind_deliveries)

text \<open>
  The recipient and the artifact bound to a message node before the run starts never
  change: over every log that folds, a binding stays, and an event that would bind the
  node to anything else is refused.
\<close>

theorem delivery_binding_immutable:
  assumes "rs_deliveries s n = Some b"
  shows "(\<forall>evs s'. run_steps (apply_event bp) s evs = Inr s' \<longrightarrow> rs_deliveries s' n = Some b) \<and>
    (\<forall>evs q ts recipient artifact. \<lparr>db_recipient_id = recipient, db_artifact_path = artifact\<rparr> \<noteq> b \<longrightarrow>
       (\<forall>s'. run_steps (apply_event bp) s (evs @ [\<lparr>ev_seq = q, ev_ts = ts,
          ev_kind = MessageSendPrepared n recipient artifact\<rparr>]) \<noteq> Inr s'))"
proof -
  have keep: "rs_deliveries s' n = Some b"
    if "run_steps (apply_event bp) t evs = Inr s'" "rs_deliveries t n = Some b" for evs t s'
    using that
    by (induction evs arbitrary: t) (auto simp: res_bind_eq_Inr dest: apply_event_deliveries)
  have "run_steps (apply_event bp) s (evs @ [\<lparr>ev_seq = q, ev_ts = ts,
          ev_kind = MessageSendPrepared n recipient artifact\<rparr>]) \<noteq> Inr s'"
    if "\<lparr>db_recipient_id = recipient, db_artifact_path = artifact\<rparr> \<noteq> b"
    for evs q ts recipient artifact s'
  proof
    assume "run_steps (apply_event bp) s (evs @ [\<lparr>ev_seq = q, ev_ts = ts,
          ev_kind = MessageSendPrepared n recipient artifact\<rparr>]) = Inr s'"
    then obtain t where "run_steps (apply_event bp) s evs = Inr t"
      and refuse: "apply_event bp t \<lparr>ev_seq = q, ev_ts = ts,
          ev_kind = MessageSendPrepared n recipient artifact\<rparr> = Inr s'"
      by (auto simp: run_steps_append res_bind_eq_Inr)
    with keep assms have "rs_deliveries t n = Some b" by blast
    with refuse that show False
      by (auto simp: apply_event_def apply_message_prepared_def Let_def)
  qed
  with keep assms show ?thesis by blast
qed

theorem delivery_binding_immutable_witness:
  "\<forall>s'. run_steps (apply_event loop_join) ((new_run_state ''r'' ''wf'')
      \<lparr>rs_deliveries := [''m'' \<mapsto> \<lparr>db_recipient_id = ''x'', db_artifact_path = ''a''\<rparr>]\<rparr>)
     ([] @ [\<lparr>ev_seq = 1, ev_ts = ''now'', ev_kind = MessageSendPrepared ''m'' ''y'' ''a''\<rparr>]) \<noteq> Inr s'"
proof -
  let ?s = "(new_run_state ''r'' ''wf'')
      \<lparr>rs_deliveries := [''m'' \<mapsto> \<lparr>db_recipient_id = ''x'', db_artifact_path = ''a''\<rparr>]\<rparr>"
  have bound: "rs_deliveries ?s ''m'' = Some \<lparr>db_recipient_id = ''x'', db_artifact_path = ''a''\<rparr>"
    by simp
  have other: "\<lparr>db_recipient_id = ''y'', db_artifact_path = ''a''\<rparr> \<noteq> \<lparr>db_recipient_id = ''x'', db_artifact_path = ''a''\<rparr>"
    by simp
  show ?thesis
    by (intro allI) (rule delivery_binding_immutable [OF bound, THEN conjunct2, rule_format, OF other])
qed


section \<open>Storage\<close>

definition storage_get :: "run_state \<Rightarrow> string \<Rightarrow> json option" where
  "storage_get s k = jget_path [''storage'', k] (rs_registry s)"

definition registry_get :: "run_state \<Rightarrow> string \<Rightarrow> json option" where
  "registry_get s k = jget k (rs_registry s)"

text \<open>
  A state update is a batch of assignments on the run's storage: \<open>set\<close> and \<open>merge\<close>
  give every key of the entries its (last) value and keep the other keys, \<open>delete\<close> removes
  exactly the keys of the entries; the rest of the registry, the nodes and the edges are
  untouched, and any other operation is refused.
\<close>

theorem state_update_effect:
  assumes "run_ok bp s" "jwf (rs_registry s)"
  shows "(\<forall>op \<in> {''set'', ''merge''}. \<exists>s'. apply_state_update op (JObject kvs) s = Inr s' \<and>
      (\<forall>k. storage_get s' k = (case map_of (rev kvs) k of None \<Rightarrow> storage_get s k | Some v \<Rightarrow> Some v)) \<and>
      s' = s\<lparr>rs_registry := rs_registry s'\<rparr> \<and> (\<forall>k. k \<noteq> ''storage'' \<longrightarrow> registry_get s' k = registry_get s k)) \<and>
    (\<exists>s'. apply_state_update ''delete'' (JObject kvs) s = Inr s' \<and>
      (\<forall>k. storage_get s' k = (if k \<in> fst ` set kvs then None else storage_get s k)) \<and>
      s' = s\<lparr>rs_registry := rs_registry s'\<rparr> \<and> (\<forall>k. k \<noteq> ''storage'' \<longrightarrow> registry_get s' k = registry_get s k)) \<and>
    (\<forall>op. op \<notin> {''set'', ''merge'', ''delete''} \<longrightarrow>
      apply_state_update op (JObject kvs) s = Inl (Err (InvalidState (''unknown state op: '' @ op))))"
proof -
  from assms(1) have "registry_ok (rs_registry s)" by (simp add: run_ok_def state_ok_def)
  then obtain rm sm where rm: "rs_registry s = JObject rm" "map_of rm ''storage'' = Some (JObject sm)"
    by (auto simp: registry_ok_def elim!: is_objectE)
  have wf: "im_wf sm"
  proof -
    have "jget ''storage'' (rs_registry s) = Some (JObject sm)" using rm by simp
    from jwf_get [OF assms(2) this] show ?thesis by (simp add: im_wf_def)
  qed
  have wr: "write_registry [''storage''] (JObject m) s =
      Inr (s\<lparr>rs_registry := JObject (AList.update ''storage'' (JObject m) rm)\<rparr>)" for m
    using rm by (simp add: write_registry_def)
  have get: "storage_get (s\<lparr>rs_registry := JObject (AList.update ''storage'' (JObject m) rm)\<rparr>) k = map_of m k"
    for m k by (auto simp: storage_get_def im_get_update split: option.splits)
  have other: "k \<noteq> ''storage'' \<Longrightarrow>
      registry_get (s\<lparr>rs_registry := JObject (AList.update ''storage'' (JObject m) rm)\<rparr>) k = registry_get s k"
    for m k using rm by (simp add: registry_get_def im_get_update)
  have old: "storage_get s k = map_of sm k" for k
    using rm by (simp add: storage_get_def split: option.splits)
  have upd: "apply_state_update op (JObject kvs) s =
      write_registry [''storage''] (JObject (fold (\<lambda>(k, v). AList.update k v) kvs sm)) s"
    if "op \<in> {''set'', ''merge''}" for op
    using that rm by (auto simp: apply_state_update_def)
  have del: "apply_state_update ''delete'' (JObject kvs) s =
      write_registry [''storage''] (JObject (fold im_remove (map fst kvs) sm)) s"
    using rm by (simp add: apply_state_update_def)
  have bad: "apply_state_update op (JObject kvs) s = Inl (Err (InvalidState (''unknown state op: '' @ op)))"
    if "op \<notin> {''set'', ''merge'', ''delete''}" for op
    using that rm by (simp add: apply_state_update_def)
  have result: "\<exists>s'. write_registry [''storage''] (JObject m) s = Inr s' \<and>
      (\<forall>k. storage_get s' k = f k) \<and>
      s' = s\<lparr>rs_registry := rs_registry s'\<rparr> \<and> (\<forall>k. k \<noteq> ''storage'' \<longrightarrow> registry_get s' k = registry_get s k)"
    if "map_of m = f" for m f
    unfolding wr using get other that by simp
  have "map_of (fold (\<lambda>(k, v). AList.update k v) kvs sm) =
      (\<lambda>k. case map_of (rev kvs) k of None \<Rightarrow> storage_get s k | Some v \<Rightarrow> Some v)"
    by (simp add: fun_eq_iff old imap.get_fold_put [OF wf] split: option.splits)
  from result [OF this] upd have 1: "\<forall>op \<in> {''set'', ''merge''}. \<exists>s'. apply_state_update op (JObject kvs) s = Inr s' \<and>
      (\<forall>k. storage_get s' k = (case map_of (rev kvs) k of None \<Rightarrow> storage_get s k | Some v \<Rightarrow> Some v)) \<and>
      s' = s\<lparr>rs_registry := rs_registry s'\<rparr> \<and> (\<forall>k. k \<noteq> ''storage'' \<longrightarrow> registry_get s' k = registry_get s k)"
    by metis
  have "map_of (fold im_remove (map fst kvs) sm) =
      (\<lambda>k. if k \<in> fst ` set kvs then None else storage_get s k)"
    by (simp add: fun_eq_iff old imap.get_fold_del [OF wf])
  from result [OF this] del have 2: "\<exists>s'. apply_state_update ''delete'' (JObject kvs) s = Inr s' \<and>
      (\<forall>k. storage_get s' k = (if k \<in> fst ` set kvs then None else storage_get s k)) \<and>
      s' = s\<lparr>rs_registry := rs_registry s'\<rparr> \<and> (\<forall>k. k \<noteq> ''storage'' \<longrightarrow> registry_get s' k = registry_get s k)"
    by metis
  from 1 2 bad show ?thesis by blast
qed

theorem state_update_effect_witness:
  "\<exists>s'. apply_state_update ''set'' (JObject [(''n'', JBool True)]) (new_run_state ''r'' ''wf'') = Inr s' \<and>
     storage_get s' ''n'' = Some (JBool True)"
proof -
  let ?s = "new_run_state ''r'' ''wf''"
  have ok: "run_ok loop_join ?s" by (rule run_ok_new)
  have wf: "jwf (rs_registry ?s)" by (simp add: new_run_state_def im_wf_def)
  have "''set'' \<in> {''set'', ''merge''}" by simp
  from state_update_effect [OF ok wf, of "[(''n'', JBool True)]", THEN conjunct1, rule_format, OF this]
  obtain s' where "apply_state_update ''set'' (JObject [(''n'', JBool True)]) ?s = Inr s'"
    "storage_get s' ''n'' = (case map_of (rev [(''n'', JBool True)]) ''n'' of
       None \<Rightarrow> storage_get ?s ''n'' | Some v \<Rightarrow> Some v)" by blast
  then show ?thesis by simp
qed

end
