(* ===== verification/Engine_Store.thy ===== *)
theory Engine_Store
  imports Engine_Laws
begin

text \<open>
  The files of a run (\<open>engine/store.rs\<close>) and the actions over them. A run directory holds
  the event log, a checkpoint of the run state and the snapshot of the blueprint; a line
  of the log that cannot be read is kept with the error of reading it. An append writes the
  event and then the end of its line, so it can stop within the event or before the end of
  the line, and the next append continues that line. What lies outside
  the engine (whether a file operation succeeds, how far an append to the log gets, the clock, the marker and the lock other
  processes touch, the host that executes the steps) is the record \<open>env\<close> over a state
  \<open>'w\<close> of the outside world. Serializing a value and reading it back gives the value, apart from the Markdown body of a
  blueprint, which is not serialized.
\<close>

section \<open>Requests to the host\<close>

record agent_task_request =
  tr_node :: string
  tr_agent :: string
  tr_prompt :: string
  tr_output_schema :: "string option"

record decision_request =
  dr_node :: string
  dr_agent :: string
  dr_prompt :: string
  dr_choices :: "string list"

record shell_request =
  sr_node :: string
  sr_command :: string
  sr_cwd :: "string option"

record script_request =
  cr_node :: string
  cr_runtime :: string
  cr_path :: string

record message_send_request =
  mr_node :: string
  mr_recipient :: string
  mr_artifact_path :: string

record notify_request =
  nr_node :: string
  nr_message :: string

record memory_commit_request =
  mc_node :: string
  mc_agent_id :: string
  mc_workspace :: "string option"
  mc_conversation_id :: "string option"
  mc_source_sequence :: "u64 option"
  mc_archive_available :: "bool option"
  mc_idempotency_key :: "string option"
  mc_payload :: json

datatype lock_result = Acquired | Contended | LockIo string

text \<open>How far an append gets; the answer of the file system goes with an append that fails.\<close>

datatype append_end =
    LineWritten
  | NothingWritten string
  | PartWritten string
  | TextWritten string

record 'w env =
  en_printer :: printer
  en_digest :: "json \<Rightarrow> string"
  en_debug :: "event_kind \<Rightarrow> string"
  en_io :: "'w \<Rightarrow> string option \<times> 'w"
  en_append :: "'w \<Rightarrow> append_end \<times> 'w"
  en_broken :: "'w \<Rightarrow> engine_error"
  en_now :: "'w \<Rightarrow> string \<times> 'w"
  en_cancel_requested :: "'w \<Rightarrow> bool \<times> 'w"
  en_cancel_clear :: "'w \<Rightarrow> string option \<times> 'w"
  en_lock :: "'w \<Rightarrow> lock_result \<times> 'w"
  en_unlock :: "'w \<Rightarrow> 'w"
  en_agent_task :: "agent_task_request \<Rightarrow> 'w \<Rightarrow> (step_error + json) \<times> 'w"
  en_decision :: "decision_request \<Rightarrow> 'w \<Rightarrow> (step_error + string) \<times> 'w"
  en_shell :: "shell_request \<Rightarrow> 'w \<Rightarrow> (step_error + json) \<times> 'w"
  en_script :: "script_request \<Rightarrow> 'w \<Rightarrow> (step_error + json) \<times> 'w"
  en_preflight :: "message_send_request \<Rightarrow> bool \<Rightarrow> 'w \<Rightarrow> (step_error + string) \<times> 'w"
  en_message_send :: "message_send_request \<Rightarrow> 'w \<Rightarrow> (step_error + json) \<times> 'w"
  en_notify :: "notify_request \<Rightarrow> 'w \<Rightarrow> (step_error + unit) \<times> 'w"
  en_memory_commit :: "memory_commit_request \<Rightarrow> 'w \<Rightarrow> (step_error + json) \<times> 'w"

section \<open>The run directory\<close>

text \<open>The lines of the log; \<open>rd_open\<close>: the last one is not ended.\<close>

record run_dir =
  rd_events :: "(engine_error + event) list"
  rd_open :: bool
  rd_checkpoint :: "(string + run_state) option"
  rd_blueprint :: "(string + blueprint) option"

definition empty_dir :: run_dir where
  "empty_dir = \<lparr>rd_events = [], rd_open = False, rd_checkpoint = None, rd_blueprint = None\<rparr>"

type_synonym 'w world = "run_dir \<times> 'w"

type_synonym ('w, 'a) act = "'w world \<Rightarrow> (failure + 'a) \<times> 'w world"

definition act_of :: "failure + 'a \<Rightarrow> ('w, 'a) act" where
  "act_of r w = (r, w)"

definition ret :: "'a \<Rightarrow> ('w, 'a) act" where
  "ret x = act_of (Inr x)"

definition fail :: "engine_error \<Rightarrow> ('w, 'a) act" where
  "fail e = act_of (Inl (Err e))"

definition act_bind :: "('w, 'a) act \<Rightarrow> ('a \<Rightarrow> ('w, 'b) act) \<Rightarrow> ('w, 'b) act" where
  "act_bind m f w = (case m w of (Inl e, w') \<Rightarrow> (Inl e, w') | (Inr x, w') \<Rightarrow> f x w')"

text \<open>Reading and changing the files, and drawing from the outside world.\<close>

definition get_dir :: "('w, run_dir) act" where
  "get_dir w = (Inr (fst w), w)"

definition change_dir :: "(run_dir \<Rightarrow> run_dir) \<Rightarrow> ('w, unit) act" where
  "change_dir f w = (Inr (), (f (fst w), snd w))"

definition outside :: "('w \<Rightarrow> 'a \<times> 'w) \<Rightarrow> ('w, 'a) act" where
  "outside f w = (case f (snd w) of (x, v) \<Rightarrow> (Inr x, (fst w, v)))"

definition io :: "('w \<Rightarrow> string option \<times> 'w) \<Rightarrow> ('w, unit) act" where
  "io f = act_bind (outside f) (\<lambda>r. case r of None \<Rightarrow> ret () | Some msg \<Rightarrow> fail (Io msg))"

lemma act_bind_assoc: "act_bind (act_bind m f) g = act_bind m (\<lambda>x. act_bind (f x) g)"
  by (rule ext) (auto simp: act_bind_def split: prod.splits sum.splits)

lemma act_bind_ret [simp]: "act_bind (ret x) f = f x" "act_bind m ret = m"
  by (rule ext, auto simp: act_bind_def ret_def act_of_def split: prod.splits sum.splits)+

section \<open>The store\<close>

definition parse_lines :: "(engine_error + event) list \<Rightarrow> failure + event list" where
  "parse_lines = res_map (\<lambda>l. case l of Inl e \<Rightarrow> Inl (Err e) | Inr ev \<Rightarrow> Inr ev)"

text \<open>
  Bytes at the end of the log: on a line that was not ended they make a line that is not an
  event; the error of reading it is \<open>broken\<close>.
\<close>

definition add_text :: "engine_error \<Rightarrow> engine_error + event \<Rightarrow> bool \<Rightarrow> run_dir \<Rightarrow> run_dir" where
  "add_text broken l ended d =
     (if rd_open d
      then d\<lparr>rd_events := butlast (rd_events d) @ [Inl broken], rd_open := \<not> ended\<rparr>
      else d\<lparr>rd_events := rd_events d @ [l], rd_open := \<not> ended\<rparr>)"

definition append_event :: "'w env \<Rightarrow> event \<Rightarrow> ('w, unit) act" where
  "append_event env ev = act_bind (io (en_io env)) (\<lambda>_.
     act_bind (outside (\<lambda>w. (en_broken env w, w))) (\<lambda>broken.
     act_bind (outside (en_append env)) (\<lambda>reached. case reached of
       LineWritten \<Rightarrow> change_dir (add_text broken (Inr ev) True)
     | NothingWritten msg \<Rightarrow> fail (Io msg)
     | PartWritten msg \<Rightarrow>
         act_bind (change_dir (add_text broken (Inl broken) False)) (\<lambda>_. fail (Io msg))
     | TextWritten msg \<Rightarrow>
         act_bind (change_dir (add_text broken (Inr ev) False)) (\<lambda>_. fail (Io msg)))))"

definition read_events :: "'w env \<Rightarrow> ('w, event list) act" where
  "read_events env = act_bind get_dir (\<lambda>d.
     if rd_events d = [] then ret []
     else act_bind (io (en_io env)) (\<lambda>_. act_of (parse_lines (rd_events d))))"

definition write_checkpoint :: "'w env \<Rightarrow> run_state \<Rightarrow> ('w, unit) act" where
  "write_checkpoint env s = act_bind (io (en_io env)) (\<lambda>_.
     change_dir (\<lambda>d. d\<lparr>rd_checkpoint := Some (Inr s)\<rparr>))"

definition read_checkpoint :: "'w env \<Rightarrow> ('w, run_state option) act" where
  "read_checkpoint env = act_bind get_dir (\<lambda>d.
     case rd_checkpoint d of
       None \<Rightarrow> ret None
     | Some c \<Rightarrow> act_bind (io (en_io env)) (\<lambda>_.
         case c of Inl msg \<Rightarrow> fail (Serde msg) | Inr s \<Rightarrow> ret (Some (normalize_legacy s))))"

definition write_blueprint_snapshot :: "'w env \<Rightarrow> blueprint \<Rightarrow> ('w, unit) act" where
  "write_blueprint_snapshot env bp = act_bind get_dir (\<lambda>d.
     case rd_blueprint d of
       None \<Rightarrow> act_bind (io (en_io env)) (\<lambda>_. change_dir (\<lambda>d. d\<lparr>rd_blueprint := Some (Inr (bp\<lparr>bp_body := []\<rparr>))\<rparr>))
     | Some c \<Rightarrow> act_bind (io (en_io env)) (\<lambda>_.
         case c of
           Inl msg \<Rightarrow> fail (Serde msg)
         | Inr existing \<Rightarrow>
             if \<not> json_eq (blueprint_to_json existing) (blueprint_to_json bp)
             then fail (InvalidState ''automation blueprint snapshot already exists and differs'')
             else ret ()))"

definition read_blueprint_snapshot :: "'w env \<Rightarrow> ('w, blueprint option) act" where
  "read_blueprint_snapshot env = act_bind get_dir (\<lambda>d.
     case rd_blueprint d of
       None \<Rightarrow> ret None
     | Some c \<Rightarrow> act_bind (io (en_io env)) (\<lambda>_.
         case c of Inl msg \<Rightarrow> fail (Serde msg) | Inr bp \<Rightarrow> ret (Some bp)))"

end
