(* ===== verification/Engine_Driver.thy ===== *)
theory Engine_Driver
  imports Engine_Store Validate
begin

text \<open>
  The driver of a run (\<open>engine/driver.rs\<close>): starting, resuming, cancelling and replaying,
  the decisions on approvals, the main loop and the dispatch of one node. Every function
  that touches the run directory or the host is an action; the run state it updates in
  place is an argument and its result.
\<close>

section \<open>Messages\<close>

fun show_error :: "engine_error \<Rightarrow> string" where
  "show_error (Io msg) = ''io error: '' @ msg"
| "show_error (Serde msg) = ''serialization error: '' @ msg"
| "show_error (AutomationError msg) = ''automation error: '' @ msg"
| "show_error (NotAwaitingApproval n) = ''run is not awaiting approval at node `'' @ n @ ''`''"
| "show_error ApprovalDecisionInProgress = ''approval decision is already being resolved for this run''"
| "show_error (InterpolationError msg) = ''unresolved interpolation: '' @ msg"
| "show_error (InvalidState msg) = ''invalid run state: '' @ msg"

definition show_step_error :: "step_error \<Rightarrow> string" where
  "show_step_error e = ''step failed: '' @ e"

definition invalid :: "string \<Rightarrow> failure + 'a" where
  "invalid msg = Inl (Err (InvalidState msg))"

fun join_with :: "string \<Rightarrow> string list \<Rightarrow> string" where
  "join_with sep [] = []"
| "join_with sep [x] = x"
| "join_with sep (x # y # xs) = x @ sep @ join_with sep (y # xs)"

definition cancelled_by_operator :: string where
  "cancelled_by_operator = ''automation cancelled by operator''"

definition unresolved :: "string \<Rightarrow> step_error" where
  "unresolved path = ''unresolved {{'' @ path @ ''}}''"

section \<open>Guards\<close>

definition blueprint_hash :: "'w env \<Rightarrow> blueprint \<Rightarrow> string" where
  "blueprint_hash env bp = ''sha256:'' @ en_digest env (blueprint_to_json bp)"

definition ensure_valid_blueprint :: "blueprint \<Rightarrow> failure + unit" where
  "ensure_valid_blueprint bp =
     (case validate bp of
        None \<Rightarrow> Inl Panic
      | Some report \<Rightarrow>
          if report_is_valid report then Inr ()
          else invalid (''automation blueprint is invalid: '' @
            join_with ''; '' (map (\<lambda>d. dg_code d @ '': '' @ dg_message d) (report_errors report))))"

definition ensure_blueprint_matches :: "'w env \<Rightarrow> blueprint \<Rightarrow> run_state \<Rightarrow> failure + unit" where
  "ensure_blueprint_matches env bp s =
     (if rs_blueprint_id s \<noteq> bp_id bp then
        invalid (''automation blueprint identity mismatch: run belongs to `'' @ rs_blueprint_id s @
          ''`, requested `'' @ bp_id bp @ ''`'')
      else (case rs_blueprint_hash s of
          None \<Rightarrow> Inr ()
        | Some expected \<Rightarrow>
            let actual = blueprint_hash env bp
            in if expected \<noteq> actual
               then invalid (''automation blueprint changed after run start: expected '' @ expected @
                      '', found '' @ actual)
               else Inr ()))"

fun sequence_from :: "nat \<Rightarrow> event list \<Rightarrow> failure + nat" where
  "sequence_from expected [] = Inr expected"
| "sequence_from expected (ev # evs) =
     (if ev_seq ev \<noteq> expected
      then invalid (''automation event sequence gap: expected '' @ show_nat expected @ '', got '' @
             show_nat (ev_seq ev))
      else res_bind (next_number expected) (\<lambda>q. sequence_from q evs))"

definition validate_event_sequence :: "event list \<Rightarrow> failure + nat" where
  "validate_event_sequence evs = sequence_from 0 evs"

definition replay_sentinel :: "string \<Rightarrow> bool" where
  "replay_sentinel r \<longleftrightarrow> r = ''replay'' \<or> r = ''rebuilt''"

definition validate_event_identity :: "'w env \<Rightarrow> blueprint \<Rightarrow> run_state \<Rightarrow> event list \<Rightarrow> failure + unit" where
  "validate_event_identity env bp s evs =
     (case evs of
        [] \<Rightarrow> Inl Panic
      | ev # _ \<Rightarrow>
          (case (ev_seq ev, ev_kind ev) of
             (0, RunStarted run_id event_hash blueprint_id schema trig) \<Rightarrow>
               if blueprint_id \<noteq> bp_id bp then
                 invalid (''automation event belongs to blueprint `'' @ blueprint_id @ ''`, requested `'' @ bp_id bp @ ''`'')
               else if schema \<noteq> bp_schema bp then
                 invalid (''automation event schema is '' @ show_nat (unat schema) @
                   '', requested blueprint schema is '' @ show_nat (unat (bp_schema bp)))
               else if rs_blueprint_id s \<noteq> bp_id bp then
                 invalid (''automation checkpoint belongs to blueprint `'' @ rs_blueprint_id s @
                   ''`, requested `'' @ bp_id bp @ ''`'')
               else if \<not> replay_sentinel (rs_run_id s) \<and> run_id \<noteq> None \<and> the run_id \<noteq> rs_run_id s then
                 invalid (''automation checkpoint belongs to run `'' @ rs_run_id s @
                   ''`, event log belongs to `'' @ the run_id @ ''`'')
               else if event_hash \<noteq> None \<and> rs_blueprint_hash s \<noteq> None \<and>
                       the (rs_blueprint_hash s) \<noteq> the event_hash then
                 invalid (''automation checkpoint blueprint hash is `'' @ the (rs_blueprint_hash s) @
                   ''`, event log hash is `'' @ the event_hash @ ''`'')
               else Inr ()
           | (_, kind) \<Rightarrow>
               invalid (''automation event log must start with run_started at sequence 0, found '' @
                 en_debug env kind)))"

text \<open>
  The loop of \<open>fold_event_log\<close>: events below the checkpoint's sequence are only counted.
\<close>

fun fold_from :: "blueprint \<Rightarrow> nat \<Rightarrow> nat \<Rightarrow> run_state \<Rightarrow> event list \<Rightarrow> failure + run_state" where
  "fold_from bp checkpoint expected s [] = Inr s"
| "fold_from bp checkpoint expected s (ev # evs) =
     (if ev_seq ev \<noteq> expected then
        invalid (''automation event sequence gap: expected '' @ show_nat expected @ '', got '' @
          show_nat (ev_seq ev))
      else if checkpoint \<le> ev_seq ev then
        (if ev_seq ev \<noteq> rs_next_seq s then
           invalid (''automation event sequence gap: expected '' @ show_nat (rs_next_seq s) @ '', got '' @
             show_nat (ev_seq ev))
         else res_bind (apply_event bp s ev) (\<lambda>s'.
           res_bind (next_number expected) (\<lambda>q. fold_from bp checkpoint q s' evs)))
      else res_bind (next_number expected) (\<lambda>q. fold_from bp checkpoint q s evs))"

definition fold_event_log :: "'w env \<Rightarrow> blueprint \<Rightarrow> run_state \<Rightarrow> event list \<Rightarrow> failure + run_state" where
  "fold_event_log env bp s evs =
     (if evs = [] then invalid ''automation event log is empty''
      else
        res_bind (validate_event_sequence evs) (\<lambda>event_next.
        res_bind (validate_event_identity env bp s evs) (\<lambda>_.
        res_bind (fold_from bp (rs_next_seq s) 0 s evs) (\<lambda>s'.
          if event_next < rs_next_seq s then
            invalid (''automation event log ends at sequence '' @ show_nat (length evs - 1) @
              '', checkpoint expects '' @ show_nat (rs_next_seq s - 1))
          else Inr s'))))"

section \<open>Emitting and loading\<close>

text \<open>Stamp the sequence number and the time, fold, append to the log, write the checkpoint.\<close>

definition emit :: "'w env \<Rightarrow> blueprint \<Rightarrow> event_kind \<Rightarrow> run_state \<Rightarrow> ('w, run_state) act" where
  "emit env bp kind s =
     act_bind (outside (en_now env)) (\<lambda>ts.
     let ev = \<lparr>ev_seq = rs_next_seq s, ev_ts = ts, ev_kind = kind\<rparr>
     in act_bind (act_of (apply_event bp s ev)) (\<lambda>s'.
        act_bind (append_event env ev) (\<lambda>_.
        act_bind (write_checkpoint env s') (\<lambda>_. ret s'))))"

fun emit_all :: "'w env \<Rightarrow> blueprint \<Rightarrow> event_kind list \<Rightarrow> run_state \<Rightarrow> ('w, run_state) act" where
  "emit_all env bp [] s = ret s"
| "emit_all env bp (k # ks) s = act_bind (emit env bp k s) (emit_all env bp ks)"

definition load_state :: "'w env \<Rightarrow> blueprint \<Rightarrow> ('w, run_state) act" where
  "load_state env bp =
     act_bind (read_checkpoint env) (\<lambda>c.
     act_bind (read_events env) (\<lambda>evs.
       act_of (fold_event_log env bp
         (case c of None \<Rightarrow> new_run_state ''rebuilt'' (bp_id bp) | Some s \<Rightarrow> s) evs)))"

definition replay :: "'w env \<Rightarrow> blueprint \<Rightarrow> ('w, run_state) act" where
  "replay env bp =
     act_bind (read_events env) (\<lambda>evs.
     act_bind (act_of (fold_event_log env bp (new_run_state ''replay'' (bp_id bp)) evs)) (\<lambda>s.
     act_bind (act_of (ensure_blueprint_matches env bp s)) (\<lambda>_. ret s)))"

definition initialize_with_id :: "'w env \<Rightarrow> blueprint \<Rightarrow> string \<Rightarrow> json \<Rightarrow> ('w, run_state) act" where
  "initialize_with_id env bp run_id trig =
     act_bind (act_of (ensure_valid_blueprint bp)) (\<lambda>_.
     let s = new_run_state run_id (bp_id bp)
     in act_bind (write_blueprint_snapshot env bp) (\<lambda>_.
        emit env bp (RunStarted (Some run_id) (Some (blueprint_hash env bp)) (bp_id bp) (bp_schema bp) trig) s))"

section \<open>Requests\<close>

definition field_str :: "node \<Rightarrow> string \<Rightarrow> string option" where
  "field_str nd key = (case map_of (nd_fields nd) key of None \<Rightarrow> None | Some v \<Rightarrow> as_str v)"

definition resolve_text :: "'w env \<Rightarrow> run_state \<Rightarrow> string \<Rightarrow> step_error + string" where
  "resolve_text env s raw =
     (case resolve (en_printer env) raw (rs_registry s) of
        Inl path \<Rightarrow> Inl (unresolved path) | Inr text \<Rightarrow> Inr text)"

definition message_send_request :: "'w env \<Rightarrow> node \<Rightarrow> run_state \<Rightarrow> step_error + message_send_request" where
  "message_send_request env nd s =
     (case rs_deliveries s (nd_id nd) of
        Some b \<Rightarrow> Inr \<lparr>mr_node = nd_id nd, mr_recipient = db_recipient_id b,
                       mr_artifact_path = db_artifact_path b\<rparr>
      | None \<Rightarrow>
          let field = (\<lambda>key. case field_str nd key of
                None \<Rightarrow> Inl (''missing message_send field `'' @ key @ ''`'')
              | Some raw \<Rightarrow> resolve_text env s raw)
          in res_bind (field ''recipient'') (\<lambda>recipient.
             res_bind (field ''artifact_path'') (\<lambda>path.
               Inr \<lparr>mr_node = nd_id nd, mr_recipient = recipient, mr_artifact_path = path\<rparr>)))"

definition eval_branch :: "run_state \<Rightarrow> node \<Rightarrow> engine_error + string" where
  "eval_branch s nd =
     (let cond = (case field_str nd ''condition'' of None \<Rightarrow> [] | Some c \<Rightarrow> c)
      in case validate_path cond of
           Inl msg \<Rightarrow> Inl (InvalidState (''branch condition is invalid: '' @ msg))
         | Inr path \<Rightarrow> Inr (if lookup_truthy (rs_registry s) path then ''on_true'' else ''on_false''))"

fun resolve_json :: "'w env \<Rightarrow> run_state \<Rightarrow> json \<Rightarrow> step_error + json" where
  "resolve_json env s (JString t) = res_bind (resolve_text env s t) (\<lambda>r. Inr (JString r))"
| "resolve_json env s (JArray vs) =
     res_bind (res_map (resolve_json env s) vs) (\<lambda>rs. Inr (JArray rs))"
| "resolve_json env s (JObject m) =
     res_bind (res_map (\<lambda>kv. res_bind (resolve_json env s (snd kv)) (\<lambda>r. Inr (fst kv, r))) m)
       (\<lambda>rs. Inr (JObject (im_collect rs)))"
| "resolve_json env s JNull = Inr JNull"
| "resolve_json env s (JBool b) = Inr (JBool b)"
| "resolve_json env s (JNumber n) = Inr (JNumber n)"

definition execute_state ::
  "'w env \<Rightarrow> run_state \<Rightarrow> node \<Rightarrow> step_error + json \<times> (string \<times> json) option" where
  "execute_state env s nd =
     (case field_str nd ''op'' of
        None \<Rightarrow> Inl ''state node requires an operation''
      | Some op \<Rightarrow>
          res_bind (resolve_json env s (case map_of (nd_fields nd) ''entries'' of
              None \<Rightarrow> jempty | Some v \<Rightarrow> v)) (\<lambda>entries.
          case as_object entries of
            None \<Rightarrow> Inl ''state entries must be an object''
          | Some entry_map \<Rightarrow>
              (case Option.bind (jget ''storage'' (rs_registry s)) as_object of
                 None \<Rightarrow> Inl ''run registry storage must be an object''
               | Some storage \<Rightarrow>
                   if op = ''get'' then
                     Inr (if entry_map = [] then JObject storage
                          else JObject (im_collect (map (\<lambda>k. (k, case map_of storage k of
                                 None \<Rightarrow> JNull | Some v \<Rightarrow> v)) (map fst entry_map))), None)
                   else if op = ''set'' \<or> op = ''merge'' \<or> op = ''delete'' then
                     Inr (if op = ''delete'' then jempty else entries, Some (op, entries))
                   else Inl (''unknown state op: '' @ op))))"

section \<open>Side effects\<close>

record executed_step =
  es_output :: json
  es_chosen_port :: "string option"
  es_notification :: "string option"

definition step_output :: "json \<Rightarrow> executed_step" where
  "step_output v = \<lparr>es_output = v, es_chosen_port = None, es_notification = None\<rparr>"

text \<open>A request that cannot be built fails the step before the host is called.\<close>

definition call_host ::
  "step_error + 'r \<Rightarrow> ('r \<Rightarrow> 'w \<Rightarrow> (step_error + 'a) \<times> 'w) \<Rightarrow> ('a \<Rightarrow> step_error + executed_step) \<Rightarrow>
   'w \<Rightarrow> (step_error + executed_step) \<times> 'w" where
  "call_host req host done w =
     (case req of
        Inl e \<Rightarrow> (Inl e, w)
      | Inr r \<Rightarrow> (case host r w of (Inl e, w') \<Rightarrow> (Inl e, w') | (Inr a, w') \<Rightarrow> (done a, w')))"

definition decision_choices :: "node \<Rightarrow> string list" where
  "decision_choices nd =
     (case Option.bind (map_of (nd_fields nd) ''choices'') as_array of
        None \<Rightarrow> [] | Some vs \<Rightarrow> List.map_filter as_str vs)"

definition memory_commit_request :: "'w env \<Rightarrow> run_state \<Rightarrow> node \<Rightarrow> step_error + memory_commit_request" where
  "memory_commit_request env s nd =
     (let f = (\<lambda>key. resolve_text env s (case field_str nd key of None \<Rightarrow> [] | Some raw \<Rightarrow> raw));
          trig = Option.bind (jget ''trigger'' (rs_registry s)) (jget ''output'');
          field = (\<lambda>key. Option.bind trig (jget key))
      in res_bind (f ''source_node'') (\<lambda>source_node.
         if (case field_str nd ''agent_id'' of None \<Rightarrow> [] | Some t \<Rightarrow> trim t) \<noteq> ''{{trigger.output.agent_id}}''
         then Inl ''memory_commit agent_id must be the invocation-owned {{trigger.output.agent_id}}''
         else res_bind (f ''agent_id'') (\<lambda>agent_id.
           case node_output s source_node of
             None \<Rightarrow> Inl (''memory_commit source node `'' @ source_node @ ''` has no output'')
           | Some payload \<Rightarrow>
               Inr \<lparr>mc_node = nd_id nd, mc_agent_id = agent_id,
                 mc_workspace = Option.bind (field ''workspace'') as_str,
                 mc_conversation_id = Option.bind (field ''conversation_id'') as_str,
                 mc_source_sequence = Option.bind (field ''source_sequence'') as_u64,
                 mc_archive_available = Option.bind (field ''archive_available'') as_bool,
                 mc_idempotency_key = Option.bind (field ''idempotency_key'') as_str,
                 mc_payload = payload\<rparr>)))"

definition run_side_effect :: "'w env \<Rightarrow> run_state \<Rightarrow> node \<Rightarrow> 'w \<Rightarrow> (step_error + executed_step) \<times> 'w" where
  "run_side_effect env s nd w =
     (let f = (\<lambda>key. resolve_text env s (case field_str nd key of None \<Rightarrow> [] | Some raw \<Rightarrow> raw));
          output = (\<lambda>v. Inr (step_output v))
      in if nd_type nd = ''task'' then
           call_host (res_bind (f ''agent'') (\<lambda>agent. res_bind (f ''prompt'') (\<lambda>prompt.
               Inr \<lparr>tr_node = nd_id nd, tr_agent = agent, tr_prompt = prompt,
                    tr_output_schema = field_str nd ''output_schema''\<rparr>)))
             (en_agent_task env) output w
         else if nd_type nd = ''decision'' then
           call_host (res_bind (f ''agent'') (\<lambda>agent. res_bind (f ''prompt'') (\<lambda>prompt.
               Inr \<lparr>dr_node = nd_id nd, dr_agent = agent, dr_prompt = prompt,
                    dr_choices = decision_choices nd\<rparr>)))
             (en_decision env)
             (\<lambda>port. if port \<notin> set (decision_choices nd)
                then Inl (''decision chose undeclared port `'' @ port @ ''`'')
                else Inr \<lparr>es_output = JObject [(''chosen'', JString port)],
                          es_chosen_port = Some port, es_notification = None\<rparr>) w
         else if nd_type nd = ''shell'' then
           call_host (res_bind (f ''command'') (\<lambda>command.
               Inr \<lparr>sr_node = nd_id nd, sr_command = command, sr_cwd = field_str nd ''cwd''\<rparr>))
             (en_shell env) output w
         else if nd_type nd = ''script'' then
           call_host (res_bind (f ''runtime'') (\<lambda>runtime. res_bind (f ''path'') (\<lambda>path.
               Inr \<lparr>cr_node = nd_id nd, cr_runtime = runtime, cr_path = path\<rparr>)))
             (en_script env) output w
         else if nd_type nd = ''message_send'' then
           call_host (message_send_request env nd s) (en_message_send env) output w
         else if nd_type nd = ''notify'' then
           (case f ''message'' of
              Inl e \<Rightarrow> (Inl e, w)
            | Inr msg \<Rightarrow> call_host (Inr \<lparr>nr_node = nd_id nd, nr_message = msg\<rparr>) (en_notify env)
                (\<lambda>_. Inr \<lparr>es_output = jempty, es_chosen_port = None, es_notification = Some msg\<rparr>) w)
         else if nd_type nd = ''memory_commit'' then
           call_host (memory_commit_request env s nd) (en_memory_commit env) output w
         else (Inl (''no executor for node type `'' @ nd_type nd @ ''`''), w))"

section \<open>Dispatch\<close>

definition emit_loop_enter :: "'w env \<Rightarrow> blueprint \<Rightarrow> string \<Rightarrow> run_state \<Rightarrow> ('w, run_state) act" where
  "emit_loop_enter env bp lp s = emit env bp (LoopIteration lp 0) s"

definition dispatch_state :: "'w env \<Rightarrow> blueprint \<Rightarrow> node \<Rightarrow> run_state \<Rightarrow> ('w, run_state) act" where
  "dispatch_state env bp nd s =
     act_bind (emit env bp (NodeStarted (nd_id nd)) s) (\<lambda>s1.
     case execute_state env s1 nd of
       Inr (out, update) \<Rightarrow>
         act_bind (case update of
             None \<Rightarrow> ret s1
           | Some (op, entries) \<Rightarrow> emit env bp (StateUpdated (nd_id nd) op entries) s1)
         (\<lambda>s2. emit env bp (NodeCompleted (nd_id nd) out) s2)
     | Inl e \<Rightarrow> emit env bp (NodeFailed (nd_id nd) e) s1)"

definition dispatch_effect :: "'w env \<Rightarrow> blueprint \<Rightarrow> node \<Rightarrow> run_state \<Rightarrow> ('w, run_state) act" where
  "dispatch_effect env bp nd s =
     act_bind (emit env bp (NodeStarted (nd_id nd)) s) (\<lambda>s1.
     act_bind (outside (run_side_effect env s1 nd)) (\<lambda>r.
     case r of
       Inr st \<Rightarrow>
         act_bind (case es_notification st of
             None \<Rightarrow> ret s1
           | Some msg \<Rightarrow> emit env bp (Notification (nd_id nd) msg) s1)
         (\<lambda>s2. case es_chosen_port st of
             Some port \<Rightarrow> emit env bp (DecisionCompleted (nd_id nd) (es_output st) port) s2
           | None \<Rightarrow> emit env bp (NodeCompleted (nd_id nd) (es_output st)) s2)
     | Inl e \<Rightarrow>
         if skipped_reason e \<noteq> None then emit env bp (NodeSkipped (nd_id nd)) s1
         else emit env bp (NodeFailed (nd_id nd) e) s1))"

definition is_trigger :: "node \<Rightarrow> bool" where
  "is_trigger nd \<longleftrightarrow> suffix ''_trigger'' (nd_type nd) \<or> nd_type nd = ''manual_trigger''"

definition dispatch :: "'w env \<Rightarrow> blueprint \<Rightarrow> string \<Rightarrow> run_state \<Rightarrow> ('w, run_state) act" where
  "dispatch env bp i s =
     (case find_node bp i of
        None \<Rightarrow> fail (InvalidState (''missing node '' @ i))
      | Some nd \<Rightarrow>
          if (case find_node_type (nd_type nd) of None \<Rightarrow> False | Some def \<Rightarrow> \<not> nt_supported def) then
            emit env bp (NodeFailed (nd_id nd) (''node type `'' @ nd_type nd @
              ''` is registered but not supported by the automation runtime'')) s
          else if is_trigger nd \<or> nd_type nd = ''join'' then
            emit env bp (NodeCompleted (nd_id nd)
              (if is_trigger nd
               then (case Option.bind (jget ''trigger'' (rs_registry s)) (jget ''output'') of
                       None \<Rightarrow> jempty | Some v \<Rightarrow> v)
               else jempty)) s
          else if is_approval bp i then emit env bp (AwaitingApproval (nd_id nd)) s
          else if nd_type nd = ''loop'' then emit_loop_enter env bp i s
          else if nd_type nd = ''branch'' then
            (case eval_branch s nd of
               Inr port \<Rightarrow> emit env bp (BranchTaken (nd_id nd) port) s
             | Inl e \<Rightarrow> emit env bp (NodeFailed (nd_id nd) (show_error e)) s)
          else if nd_type nd = ''state'' then dispatch_state env bp nd s
          else dispatch_effect env bp nd s)"

section \<open>The main loop\<close>

text \<open>\<open>Leave s\<close> is a return from \<open>drive\<close> with the state, \<open>Proceed s\<close> goes on.\<close>

datatype 's control = Leave 's | Proceed 's

definition then_do :: "('w, 's control) act \<Rightarrow> ('s \<Rightarrow> ('w, 's control) act) \<Rightarrow> ('w, 's control) act" where
  "then_do m f = act_bind m (\<lambda>c. case c of Leave s \<Rightarrow> ret (Leave s) | Proceed s \<Rightarrow> f s)"

definition preflight_node ::
  "'w env \<Rightarrow> blueprint \<Rightarrow> bool \<Rightarrow> node \<Rightarrow> run_state \<Rightarrow> ('w, run_state control) act" where
  "preflight_node env bp fresh nd s =
     (if node_status_of s (nd_id nd) \<in> {Some Completed, Some Skipped} then ret (Proceed s)
      else
        let refused = (\<lambda>e s. act_bind (emit env bp (RunFailed (''message_send preflight `'' @ nd_id nd @
              ''`: '' @ show_step_error e)) s) (\<lambda>s'. ret (Leave s')))
        in case message_send_request env nd s of
             Inl e \<Rightarrow> refused e s
           | Inr req \<Rightarrow>
               act_bind (outside (en_preflight env req fresh)) (\<lambda>r.
               case r of
                 Inl e \<Rightarrow> refused e s
               | Inr recipient \<Rightarrow>
                   (case rs_deliveries s (nd_id nd) of
                      Some b \<Rightarrow>
                        if db_recipient_id b \<noteq> recipient
                        then refused ''bound message_send recipient no longer exists'' s
                        else ret (Proceed s)
                    | None \<Rightarrow>
                        act_bind (emit env bp (MessageSendPrepared (nd_id nd) recipient
                          (mr_artifact_path req)) s) (\<lambda>s'. ret (Proceed s')))))"

fun preflight ::
  "'w env \<Rightarrow> blueprint \<Rightarrow> bool \<Rightarrow> node list \<Rightarrow> run_state \<Rightarrow> ('w, run_state control) act" where
  "preflight env bp fresh [] s = ret (Proceed s)"
| "preflight env bp fresh (nd # nds) s =
     then_do (preflight_node env bp fresh nd s) (preflight env bp fresh nds)"

definition fresh_run :: "blueprint \<Rightarrow> run_state \<Rightarrow> bool" where
  "fresh_run bp s \<longleftrightarrow> \<not> list_ex (\<lambda>nd. nd_type nd \<noteq> ''manual_trigger'' \<and>
     node_status_of s (nd_id nd) \<noteq> None) (bp_nodes bp)"

definition cancel_event :: event_kind where
  "cancel_event = RunFailed cancelled_by_operator"

definition check_cancel :: "'w env \<Rightarrow> blueprint \<Rightarrow> run_state \<Rightarrow> ('w, run_state control) act" where
  "check_cancel env bp s =
     act_bind (outside (en_cancel_requested env)) (\<lambda>requested.
     if \<not> requested then ret (Proceed s)
     else case rs_status s of
       RunRunning \<Rightarrow>
         act_bind (emit env bp cancel_event s) (\<lambda>s'.
         act_bind (io (en_cancel_clear env)) (\<lambda>_. ret (Leave s')))
     | RunAwaiting \<Rightarrow> ret (Leave s)
     | _ \<Rightarrow> act_bind (io (en_cancel_clear env)) (\<lambda>_. ret (Leave s)))"

definition loops_phase :: "'w env \<Rightarrow> blueprint \<Rightarrow> run_state \<Rightarrow> ('w, run_state control) act" where
  "loops_phase env bp s =
     (case advance_loops (en_printer env) bp s of
        Inr events \<Rightarrow> act_bind (emit_all env bp events s) (\<lambda>s'. ret (Proceed s'))
      | Inl Panic \<Rightarrow> act_of (Inl Panic)
      | Inl Overflow \<Rightarrow> act_of (Inl Overflow)
      | Inl (Err e) \<Rightarrow> act_bind (emit env bp (RunFailed (show_error e)) s) (\<lambda>s'. ret (Leave s')))"

definition newly_skipped :: "run_state \<Rightarrow> run_state \<Rightarrow> string list" where
  "newly_skipped finalized s = map fst (filter (\<lambda>e. snd e = Skipped \<and>
     status_or_pending s (fst e) \<noteq> Skipped) (rs_nodes finalized))"

definition finalize_phase :: "'w env \<Rightarrow> blueprint \<Rightarrow> run_state \<Rightarrow> ('w, run_state control) act" where
  "finalize_phase env bp s =
     (let finalized = finalize_if_done bp s
      in act_bind (emit_all env bp (map NodeSkipped (newly_skipped finalized s)) s) (\<lambda>s1.
         act_bind (write_checkpoint env s1) (\<lambda>_.
         if rs_status finalized \<noteq> RunRunning then
           (if rs_status finalized = RunDone
            then act_bind (emit env bp RunCompleted s1) (\<lambda>s2. ret (Leave s2))
            else ret (Leave s1))
         else ret (Proceed s1))))"

definition after_dispatch :: "'w env \<Rightarrow> blueprint \<Rightarrow> run_state \<Rightarrow> ('w, run_state control) act" where
  "after_dispatch env bp s =
     (if rs_status s = RunAwaiting then ret (Leave s)
      else act_bind (outside (en_cancel_requested env)) (\<lambda>requested.
        if requested then
          act_bind (if rs_status s = RunRunning then emit env bp cancel_event s else ret s) (\<lambda>s1.
          act_bind (if rs_status s1 = RunDone \<or> rs_status s1 = RunBroken
                    then io (en_cancel_clear env) else ret ()) (\<lambda>_. ret (Leave s1)))
        else if rs_status s = RunBroken then ret (Leave s) else ret (Proceed s)))"

fun dispatch_all :: "'w env \<Rightarrow> blueprint \<Rightarrow> string list \<Rightarrow> run_state \<Rightarrow> ('w, run_state control) act" where
  "dispatch_all env bp [] s = ret (Proceed s)"
| "dispatch_all env bp (i # is) s =
     then_do (act_bind (dispatch env bp i s) (after_dispatch env bp)) (dispatch_all env bp is)"

definition drive_round :: "'w env \<Rightarrow> blueprint \<Rightarrow> run_state \<Rightarrow> ('w, run_state control) act" where
  "drive_round env bp s =
     then_do (check_cancel env bp s) (\<lambda>s.
     then_do (loops_phase env bp s) (\<lambda>s.
     then_do (finalize_phase env bp s) (\<lambda>s.
       if step bp s = [] then ret (Leave s) else dispatch_all env bp (step bp s) s)))"

text \<open>
  The loop runs with fuel, one unit a round; \<open>None\<close> is a loop that has not returned yet.
\<close>

fun drive_loop :: "nat \<Rightarrow> 'w env \<Rightarrow> blueprint \<Rightarrow> run_state \<Rightarrow> 'w world \<Rightarrow> ((failure + run_state) \<times> 'w world) option" where
  "drive_loop 0 env bp s w = None"
| "drive_loop (Suc fuel) env bp s w =
     (case drive_round env bp s w of
        (Inl e, w') \<Rightarrow> Some (Inl e, w')
      | (Inr (Leave s'), w') \<Rightarrow> Some (Inr s', w')
      | (Inr (Proceed s'), w') \<Rightarrow> drive_loop fuel env bp s' w')"

definition drive_start :: "'w env \<Rightarrow> blueprint \<Rightarrow> run_state \<Rightarrow> ('w, run_state control) act" where
  "drive_start env bp s =
     (let s = normalize_legacy s
      in if rs_status s = RunRunning
         then preflight env bp (fresh_run bp s)
                (filter (\<lambda>nd. nd_type nd = ''message_send'') (bp_nodes bp)) s
         else ret (Proceed s))"

definition drive :: "nat \<Rightarrow> 'w env \<Rightarrow> blueprint \<Rightarrow> run_state \<Rightarrow> 'w world \<Rightarrow> ((failure + run_state) \<times> 'w world) option" where
  "drive fuel env bp s w =
     (case drive_start env bp s w of
        (Inl e, w') \<Rightarrow> Some (Inl e, w')
      | (Inr (Leave s'), w') \<Rightarrow> Some (Inr s', w')
      | (Inr (Proceed s'), w') \<Rightarrow> drive_loop fuel env bp s' w')"

end
