(* ===== verification/Engine_Api.thy ===== *)
theory Engine_Api
  imports Engine_Driver
begin

text \<open>
  The entry points of the engine over the driver (\<open>impl Engine\<close> in \<open>engine/driver.rs\<close>):
  starting, continuing and resuming a run, the decisions on a parked run, cancelling it,
  and reading back a launch failure. Those that drive take the fuel of the main loop.
\<close>

section \<open>Driving\<close>

definition drive_from_state ::
  "nat \<Rightarrow> 'w env \<Rightarrow> blueprint \<Rightarrow> run_state \<Rightarrow> 'w world \<Rightarrow> ((failure + run_state) \<times> 'w world) option" where
  "drive_from_state fuel env bp s w =
     (case act_bind (act_of (ensure_valid_blueprint bp)) (\<lambda>_. act_of (ensure_blueprint_matches env bp s)) w of
        (Inl e, w') \<Rightarrow> Some (Inl e, w')
      | (Inr _, w') \<Rightarrow> drive fuel env bp s w')"

definition start_with_id ::
  "nat \<Rightarrow> 'w env \<Rightarrow> blueprint \<Rightarrow> string \<Rightarrow> json \<Rightarrow> 'w world \<Rightarrow> ((failure + run_state) \<times> 'w world) option" where
  "start_with_id fuel env bp run_id trig w =
     (case initialize_with_id env bp run_id trig w of
        (Inl e, w') \<Rightarrow> Some (Inl e, w')
      | (Inr s, w') \<Rightarrow> drive_from_state fuel env bp s w')"

text \<open>Nodes in flight when the run stopped are dispatched again; loops stay as they are.\<close>

definition in_flight :: "blueprint \<Rightarrow> run_state \<Rightarrow> string list" where
  "in_flight bp s = filter (\<lambda>i. case find_node bp i of None \<Rightarrow> True | Some nd \<Rightarrow> nd_type nd \<noteq> ''loop'')
     (map fst (filter (\<lambda>e. snd e = Running) (rs_nodes s)))"

definition reset_in_flight :: "blueprint \<Rightarrow> run_state \<Rightarrow> run_state" where
  "reset_in_flight bp s = fold (\<lambda>i. set_node_status i Pending) (in_flight bp s) s"

definition resume_load :: "'w env \<Rightarrow> blueprint \<Rightarrow> ('w, run_state) act" where
  "resume_load env bp =
     act_bind (act_of (ensure_valid_blueprint bp)) (\<lambda>_.
     act_bind (load_state env bp) (\<lambda>s.
     act_bind (act_of (ensure_blueprint_matches env bp s)) (\<lambda>_. ret s)))"

definition resume ::
  "nat \<Rightarrow> 'w env \<Rightarrow> blueprint \<Rightarrow> 'w world \<Rightarrow> ((failure + run_state) \<times> 'w world) option" where
  "resume fuel env bp w =
     (case resume_load env bp w of
        (Inl e, w') \<Rightarrow> Some (Inl e, w')
      | (Inr s, w') \<Rightarrow>
          if rs_status s = RunAwaiting then Some (Inr s, w')
          else drive fuel env bp (reset_in_flight bp s) w')"

section \<open>Decisions on a parked run\<close>

definition with_approval_guard :: "'w env \<Rightarrow> ('w, 'a) act \<Rightarrow> ('w, 'a) act" where
  "with_approval_guard env m = act_bind (outside (en_lock env)) (\<lambda>r.
     case r of
       Contended \<Rightarrow> fail ApprovalDecisionInProgress
     | LockIo msg \<Rightarrow> fail (Io msg)
     | Acquired \<Rightarrow> (\<lambda>w. case m w of (res, w') \<Rightarrow> (res, (fst w', en_unlock env (snd w')))))"

fun last_awaiting :: "event list \<Rightarrow> string option" where
  "last_awaiting [] = None"
| "last_awaiting (ev # evs) =
     (case last_awaiting evs of
        Some n \<Rightarrow> Some n
      | None \<Rightarrow> (case ev_kind ev of AwaitingApproval n \<Rightarrow> Some n | _ \<Rightarrow> None))"

definition ensure_approval_node :: "'w env \<Rightarrow> blueprint \<Rightarrow> string \<Rightarrow> ('w, unit) act" where
  "ensure_approval_node env bp requested =
     (if \<not> is_approval bp requested
      then act_of (invalid (''approval decision targets non-approval node `'' @ requested @ ''`''))
      else act_bind (read_events env) (\<lambda>evs.
        case last_awaiting evs of
          None \<Rightarrow> act_of (invalid ''awaiting approval node is missing from the event log'')
        | Some expected \<Rightarrow>
            if expected \<noteq> requested
            then act_of (invalid (''approval decision targets `'' @ requested @
                   ''`, but run is awaiting approval at `'' @ expected @ ''`''))
            else ret ()))"

definition decide :: "'w env \<Rightarrow> blueprint \<Rightarrow> string \<Rightarrow> event_kind \<Rightarrow> ('w, run_state) act" where
  "decide env bp n kind = with_approval_guard env (
     act_bind (load_state env bp) (\<lambda>s.
     act_bind (act_of (ensure_valid_blueprint bp)) (\<lambda>_.
     act_bind (act_of (ensure_blueprint_matches env bp s)) (\<lambda>_.
     if rs_status s \<noteq> RunAwaiting then fail (NotAwaitingApproval n)
     else act_bind (ensure_approval_node env bp n) (\<lambda>_. emit env bp kind s)))))"

definition record_approval_granted ::
  "'w env \<Rightarrow> blueprint \<Rightarrow> string \<Rightarrow> string \<Rightarrow> string option \<Rightarrow> ('w, run_state) act" where
  "record_approval_granted env bp n actor note = decide env bp n (ApprovalGranted n actor note)"

definition reject_approval ::
  "'w env \<Rightarrow> blueprint \<Rightarrow> string \<Rightarrow> string \<Rightarrow> string option \<Rightarrow> ('w, run_state) act" where
  "reject_approval env bp n actor note = decide env bp n (ApprovalRejected n actor note)"

definition grant_approval ::
  "nat \<Rightarrow> 'w env \<Rightarrow> blueprint \<Rightarrow> string \<Rightarrow> string \<Rightarrow> string option \<Rightarrow> 'w world \<Rightarrow>
   ((failure + run_state) \<times> 'w world) option" where
  "grant_approval fuel env bp n actor note w =
     (case record_approval_granted env bp n actor note w of
        (Inl e, w') \<Rightarrow> Some (Inl e, w')
      | (Inr s, w') \<Rightarrow> drive_from_state fuel env bp s w')"

section \<open>Cancelling\<close>

definition cancel :: "'w env \<Rightarrow> blueprint \<Rightarrow> ('w, run_state) act" where
  "cancel env bp = with_approval_guard env (
     act_bind (load_state env bp) (\<lambda>s.
     act_bind (act_of (ensure_blueprint_matches env bp s)) (\<lambda>_.
     case rs_status s of
       RunAwaiting \<Rightarrow>
         act_bind (emit env bp cancel_event s) (\<lambda>s'.
         act_bind (io (en_cancel_clear env)) (\<lambda>_. ret s'))
     | RunDone \<Rightarrow> act_bind (io (en_cancel_clear env)) (\<lambda>_. ret s)
     | RunBroken \<Rightarrow> act_bind (io (en_cancel_clear env)) (\<lambda>_. ret s)
     | RunRunning \<Rightarrow> ret s)))"

text \<open>
  Cancelling a parked run without its blueprint: from the checkpoint and the log alone.
\<close>

definition cancel_awaiting :: "'w env \<Rightarrow> ('w, run_state) act" where
  "cancel_awaiting env = with_approval_guard env (
     act_bind (read_checkpoint env) (\<lambda>c.
     case c of
       None \<Rightarrow> fail (InvalidState ''automation checkpoint is missing'')
     | Some s \<Rightarrow>
         if rs_status s \<noteq> RunAwaiting then fail (NotAwaitingApproval ''unknown'')
         else
           act_bind (read_events env) (\<lambda>evs.
           act_bind (act_of (validate_event_sequence evs)) (\<lambda>event_next.
           if event_next < rs_next_seq s then
             act_of (invalid (''automation checkpoint expects sequence '' @ show_nat (rs_next_seq s) @
               '', event log ends at '' @ show_nat (event_next - 1)))
           else
             act_bind (if \<not> list_ex (\<lambda>ev. ev_kind ev = cancel_event) evs
               then act_bind (outside (en_now env)) (\<lambda>ts.
                    act_bind (append_event env \<lparr>ev_seq = event_next, ev_ts = ts, ev_kind = cancel_event\<rparr>)
                      (\<lambda>_. act_of (next_number event_next)))
               else ret event_next) (\<lambda>next_seq.
             let s' = s\<lparr>rs_next_seq := next_seq, rs_status := RunBroken,
                        rs_failure := Some cancelled_by_operator\<rparr>
             in act_bind (write_checkpoint env s') (\<lambda>_.
                act_bind (io (en_cancel_clear env)) (\<lambda>_. ret s')))))))"

section \<open>Launch failures\<close>

definition replay_launch_failure :: "'w env \<Rightarrow> string \<Rightarrow> ('w, run_state) act" where
  "replay_launch_failure env blueprint_id =
     act_bind (read_checkpoint env) (\<lambda>c.
     case c of
       None \<Rightarrow> fail (InvalidState ''automation checkpoint is missing'')
     | Some s \<Rightarrow>
         if rs_blueprint_id s \<noteq> blueprint_id then
           act_of (invalid (''automation checkpoint belongs to blueprint `'' @ rs_blueprint_id s @
             ''`, requested `'' @ blueprint_id @ ''`''))
         else act_bind (read_events env) (\<lambda>evs.
           case (case evs of
                   [] \<Rightarrow> None
                 | ev # _ \<Rightarrow> (case (ev_seq ev, ev_kind ev) of (0, RunFailed err) \<Rightarrow> Some err | _ \<Rightarrow> None)) of
             None \<Rightarrow> act_of (invalid
               ''automation launch-failure artifact must start with run_failed at sequence 0'')
           | Some err \<Rightarrow>
               if length evs \<noteq> 1 then
                 act_of (invalid ''automation launch-failure artifact must contain exactly one event'')
               else if rs_status s \<noteq> RunBroken \<or> rs_next_seq s \<noteq> 1 \<or> rs_failure s \<noteq> Some err then
                 act_of (invalid ''automation launch-failure artifact does not match its failed checkpoint'')
               else ret s))"

end
