(* ===== verification/Engine_Recovery.thy ===== *)
theory Engine_Recovery
  imports Engine_Api
begin

text \<open>
  Recovery of runs. An invariant that relates the run state to the run directory and that
  every emitted event keeps is kept by the whole driver (locale \<open>run_invariant\<close>). The
  instance that matters: at every moment the log folds to the state and the checkpoint is
  a prefix of that fold. A crash is a file operation that fails, so the statements on
  failing runs speak of crashes between any two writes.
\<close>

section \<open>Invariants of the driver\<close>

definition keeps ::
  "(run_state \<Rightarrow> run_dir \<Rightarrow> bool) \<Rightarrow> (run_dir \<Rightarrow> bool) \<Rightarrow> ('a \<Rightarrow> run_state) \<Rightarrow> ('w, 'a) act \<Rightarrow> run_state \<Rightarrow> bool" where
  "keeps R E get m s \<longleftrightarrow> (\<forall>d w. R s d \<longrightarrow>
     (case m (d, w) of (Inr x, (d', w')) \<Rightarrow> R (get x) d' | (Inl e, (d', w')) \<Rightarrow> E d' \<or> (\<exists>s'. R s' d')))"

lemma keepsI:
  "(\<And>d w x d' w'. R s d \<Longrightarrow> m (d, w) = (Inr x, (d', w')) \<Longrightarrow> R (get x) d') \<Longrightarrow>
   (\<And>d w e d' w'. R s d \<Longrightarrow> m (d, w) = (Inl e, (d', w')) \<Longrightarrow> E d' \<or> (\<exists>s'. R s' d')) \<Longrightarrow> keeps R E get m s"
  unfolding keeps_def by (simp split: prod.split sum.split)

lemma keepsD:
  "keeps R E get m s \<Longrightarrow> R s d \<Longrightarrow> m (d, w) = (Inr x, (d', w')) \<Longrightarrow> R (get x) d'"
  "keeps R E get m s \<Longrightarrow> R s d \<Longrightarrow> m (d, w) = (Inl e, (d', w')) \<Longrightarrow> E d' \<or> (\<exists>s'. R s' d')"
  unfolding keeps_def by (drule_tac x = d in spec, drule_tac x = w in spec, simp)+

lemma keeps_ret [intro]: "get x = s \<Longrightarrow> keeps R E get (ret x) s"
  by (rule keepsI) (auto simp: ret_def act_of_def)

lemma keeps_act_of [intro]: "(\<And>x. r = Inr x \<Longrightarrow> get x = s) \<Longrightarrow> keeps R E get (act_of r) s"
  by (rule keepsI) (auto simp: act_of_def)

lemma keeps_fail [intro]: "keeps R E get (fail e) s"
  unfolding fail_def by (rule keeps_act_of) simp

lemma keeps_outside: "keeps R E (\<lambda>_. s) (outside f) s"
  by (rule keepsI) (auto simp: outside_def split: prod.splits)

lemma keeps_bind:
  assumes "keeps R E g m s" "\<And>x. keeps R E get (f x) (g x)"
  shows "keeps R E get (act_bind m f) s"
proof (rule keepsI)
  fix d w x d' w' assume R: "R s d" and run: "act_bind m f (d, w) = (Inr x, (d', w'))"
  then obtain y d1 w1 where m: "m (d, w) = (Inr y, (d1, w1))" "f y (d1, w1) = (Inr x, (d', w'))"
    by (auto simp: act_bind_def split: prod.splits sum.splits)
  from keepsD(1) [OF assms(1) R m(1)] keepsD(1) [OF assms(2) _ m(2)] show "R (get x) d'" by blast
next
  fix d w e d' w' assume R: "R s d" and run: "act_bind m f (d, w) = (Inl e, (d', w'))"
  then consider "m (d, w) = (Inl e, (d', w'))" |
    y d1 w1 where "m (d, w) = (Inr y, (d1, w1))" "f y (d1, w1) = (Inl e, (d', w'))"
    by (auto simp: act_bind_def split: prod.splits sum.splits)
  then show "E d' \<or> (\<exists>s'. R s' d')"
  proof cases
    case 1
    then show ?thesis by (rule keepsD(2) [OF assms(1) R])
  next
    case (2 y d1 w1)
    from keepsD(1) [OF assms(1) R 2(1)] keepsD(2) [OF assms(2) _ 2(2)] show ?thesis by blast
  qed
qed

lemma keeps_outside_bind: "(\<And>x. keeps R E get (f x) s) \<Longrightarrow> keeps R E get (act_bind (outside h) f) s"
  by (rule keeps_bind [OF keeps_outside])

lemma keeps_io: "keeps R E (\<lambda>_. s) (io f) s"
  unfolding io_def by (rule keeps_outside_bind) (auto split: option.splits)

lemma keeps_io_bind: "(\<And>x. keeps R E get (f x) s) \<Longrightarrow> keeps R E get (act_bind (io h) f) s"
  by (rule keeps_bind [OF keeps_io])

abbreviation control_state :: "run_state control \<Rightarrow> run_state" where
  "control_state c \<equiv> (case c of Leave s \<Rightarrow> s | Proceed s \<Rightarrow> s)"

lemma keeps_then:
  assumes "keeps R E control_state m s" "\<And>t. keeps R E control_state (f t) t"
  shows "keeps R E control_state (then_do m f) s"
  unfolding then_do_def
  by (rule keeps_bind [OF assms(1)]) (auto split: control.split intro: assms(2))

text \<open>The events the driver emits after the start of the run.\<close>

fun is_started :: "event_kind \<Rightarrow> bool" where
  "is_started (RunStarted r h b sc t) \<longleftrightarrow> True"
| "is_started _ \<longleftrightarrow> False"

locale run_invariant =
  fixes R :: "run_state \<Rightarrow> run_dir \<Rightarrow> bool"
    and E :: "run_dir \<Rightarrow> bool"
    and env :: "'w env"
    and bp :: blueprint
  assumes emit_keeps: "\<not> is_started k \<Longrightarrow> keeps R E (\<lambda>t. t) (emit env bp k s) s"
    and save_keeps: "R s d \<Longrightarrow> R s (d\<lparr>rd_checkpoint := Some (Inr s)\<rparr>)"
    and normal: "R s d \<Longrightarrow> normalize_legacy s = s"
begin

lemma emit_then: "\<not> is_started k \<Longrightarrow> (\<And>t. keeps R E get (f t) t) \<Longrightarrow> keeps R E get (act_bind (emit env bp k s) f) s"
  by (rule keeps_bind [OF emit_keeps]) auto

lemma emit_all_keeps: "\<forall>k \<in> set ks. \<not> is_started k \<Longrightarrow> keeps R E (\<lambda>t. t) (emit_all env bp ks s) s"
  by (induction ks arbitrary: s) (auto intro: emit_then)

lemma save: "keeps R E (\<lambda>_. s) (write_checkpoint env s) s"
  unfolding write_checkpoint_def
  by (rule keeps_io_bind, rule keepsI) (auto simp: change_dir_def save_keeps)

lemma dispatch_state_keeps: "keeps R E (\<lambda>t. t) (dispatch_state env bp nd s) s"
proof -
  have "keeps R E (\<lambda>t. t) (act_bind (case u of None \<Rightarrow> ret t
           | Some (op, entries) \<Rightarrow> emit env bp (StateUpdated (nd_id nd) op entries) t)
         (\<lambda>t'. emit env bp (NodeCompleted (nd_id nd) out) t')) t" for u t out
    by (rule keeps_bind [where g = "\<lambda>t. t"]) (auto split: option.split intro: emit_keeps)
  then show ?thesis
    unfolding dispatch_state_def
    by (intro emit_then) (auto split: sum.split intro: emit_keeps)
qed

lemma dispatch_effect_keeps: "keeps R E (\<lambda>t. t) (dispatch_effect env bp nd s) s"
proof -
  have "keeps R E (\<lambda>t. t) (act_bind (case n of None \<Rightarrow> ret t
           | Some msg \<Rightarrow> emit env bp (Notification (nd_id nd) msg) t)
         (\<lambda>t'. case p of
             Some port \<Rightarrow> emit env bp (DecisionCompleted (nd_id nd) out port) t'
           | None \<Rightarrow> emit env bp (NodeCompleted (nd_id nd) out) t')) t" for n p t out
    by (rule keeps_bind [where g = "\<lambda>t. t"]) (auto split: option.split intro: emit_keeps)
  then show ?thesis
    unfolding dispatch_effect_def
    by (intro emit_then keeps_outside_bind) (auto split: sum.split intro: emit_keeps)
qed

lemma dispatch_keeps: "keeps R E (\<lambda>t. t) (dispatch env bp i s) s"
  unfolding dispatch_def emit_loop_enter_def
  by (auto split: option.split sum.split intro: emit_keeps dispatch_state_keeps dispatch_effect_keeps)

lemma preflight_node_keeps: "keeps R E control_state (preflight_node env bp fresh nd s) s"
  unfolding preflight_node_def Let_def
  by (auto split: option.split sum.split intro!: keeps_outside_bind emit_then keeps_ret)

lemma preflight_keeps: "keeps R E control_state (preflight env bp fresh nds s) s"
  by (induction nds arbitrary: s) (auto intro: keeps_then preflight_node_keeps)

lemma check_cancel_keeps: "keeps R E control_state (check_cancel env bp s) s"
  unfolding check_cancel_def
  by (rule keeps_outside_bind)
    (auto simp: cancel_event_def split: run_status.split intro!: emit_then keeps_io_bind)

lemma advance_each_kinds:
  "advance_each pr bp' s lps = Inr evs \<Longrightarrow> \<forall>k \<in> set evs. \<not> is_started k"
  using advance_each_member loop_decides_owner by fastforce

lemma loops_phase_keeps: "keeps R E control_state (loops_phase env bp s) s"
proof (cases "advance_loops (en_printer env) bp s")
  case (Inr events)
  then have "\<forall>k \<in> set events. \<not> is_started k"
    unfolding advance_loops_def by (rule advance_each_kinds)
  with Inr show ?thesis
    unfolding loops_phase_def by (auto intro!: keeps_bind [OF emit_all_keeps] keeps_ret)
next
  case (Inl f)
  then show ?thesis
    unfolding loops_phase_def by (cases f) (auto intro!: emit_then keeps_ret keeps_act_of)
qed

lemma finalize_phase_keeps: "keeps R E control_state (finalize_phase env bp s) s"
  unfolding finalize_phase_def Let_def
  by (rule keeps_bind [OF emit_all_keeps], simp, rule keeps_bind [OF save])
    (auto intro!: emit_then keeps_ret)

lemma after_dispatch_keeps: "keeps R E control_state (after_dispatch env bp s) s"
proof -
  have leave: "keeps R E control_state (act_bind (if rs_status t = RunDone \<or> rs_status t = RunBroken
                    then io (en_cancel_clear env) else ret ()) (\<lambda>_. ret (Leave t))) t" for t
    by (auto intro!: keeps_io_bind keeps_ret)
  have stop: "keeps R E control_state (act_bind (if rs_status s = RunRunning then emit env bp cancel_event s else ret s)
      (\<lambda>s1. act_bind (if rs_status s1 = RunDone \<or> rs_status s1 = RunBroken
                    then io (en_cancel_clear env) else ret ()) (\<lambda>_. ret (Leave s1)))) s"
    by (rule keeps_bind [where g = "\<lambda>t. t"]) (auto simp: cancel_event_def leave intro: emit_keeps)
  have go: "keeps R E control_state (if rs_status s = RunBroken then ret (Leave s) else ret (Proceed s)) s"
    by auto
  show ?thesis
  proof (cases "rs_status s = RunAwaiting")
    case True
    then show ?thesis by (auto simp: after_dispatch_def)
  next
    case False
    have "keeps R E control_state (if requested then act_bind
        (if rs_status s = RunRunning then emit env bp cancel_event s else ret s)
        (\<lambda>s1. act_bind (if rs_status s1 = RunDone \<or> rs_status s1 = RunBroken
                    then io (en_cancel_clear env) else ret ()) (\<lambda>_. ret (Leave s1)))
        else if rs_status s = RunBroken then ret (Leave s) else ret (Proceed s)) s" for requested
      using stop go by (cases requested) (simp_all only: if_True if_False)
    then show ?thesis
      unfolding after_dispatch_def if_not_P [OF False] by (rule keeps_outside_bind)
  qed
qed

lemma dispatch_all_keeps: "keeps R E control_state (dispatch_all env bp is s) s"
  by (induction "is" arbitrary: s)
    (auto intro!: keeps_then keeps_bind [OF dispatch_keeps] after_dispatch_keeps)

lemma drive_round_keeps: "keeps R E control_state (drive_round env bp s) s"
  unfolding drive_round_def
  by (intro keeps_then check_cancel_keeps loops_phase_keeps finalize_phase_keeps)
    (auto intro: dispatch_all_keeps)

lemma drive_loop_keeps:
  "drive_loop fuel env bp s (d, w) = Some (r, (d', w')) \<Longrightarrow> R s d \<Longrightarrow>
   (case r of Inr s' \<Rightarrow> R s' d' | Inl _ \<Rightarrow> E d' \<or> (\<exists>s'. R s' d'))"
proof (induction fuel arbitrary: s d w)
  case 0
  then show ?case by simp
next
  case (Suc fuel)
  obtain c d1 w1 where run: "drive_round env bp s (d, w) = (c, (d1, w1))"
    by (cases "drive_round env bp s (d, w)") auto
  note keep = keepsD [OF drive_round_keeps Suc.prems(2)]
  show ?case
  proof (cases c)
    case (Inl e)
    with Suc.prems(1) run keep(2) [of w e d1 w1] show ?thesis by auto
  next
    case (Inr ctl)
    with run keep(1) [of w ctl d1 w1] have R: "R (control_state ctl) d1" by simp
    show ?thesis
    proof (cases ctl)
      case (Leave t)
      with Suc.prems(1) run Inr R show ?thesis by auto
    next
      case (Proceed t)
      with Suc.prems(1) run Inr R show ?thesis using Suc.IH [of t d1 w1] by auto
    qed
  qed
qed

lemma drive_keeps:
  assumes "drive fuel env bp s (d, w) = Some (r, (d', w'))" "R s d"
  shows "case r of Inr s' \<Rightarrow> R s' d' | Inl _ \<Rightarrow> E d' \<or> (\<exists>s'. R s' d')"
proof -
  have start: "keeps R E control_state (drive_start env bp s) s"
    using assms(2) normal by (auto simp: drive_start_def Let_def intro: preflight_keeps)
  obtain c d1 w1 where run: "drive_start env bp s (d, w) = (c, (d1, w1))"
    by (cases "drive_start env bp s (d, w)") auto
  note keep = keepsD [OF start assms(2)]
  show ?thesis
  proof (cases c)
    case (Inl e)
    with assms(1) run keep(2) [of w e d1 w1] show ?thesis by (auto simp: drive_def)
  next
    case (Inr ctl)
    with run keep(1) [of w ctl d1 w1] have R: "R (control_state ctl) d1" by simp
    show ?thesis
    proof (cases ctl)
      case (Leave t)
      with assms(1) run Inr R show ?thesis by (auto simp: drive_def)
    next
      case (Proceed t)
      with assms(1) run Inr R show ?thesis using drive_loop_keeps [of fuel t d1 w1] by (auto simp: drive_def)
    qed
  qed
qed

end

section \<open>The identity of a run\<close>

text \<open>
  Apart from the start of the run no event touches its identity: the run id, the blueprint
  id and hash, and the copy of the run id in the registry.
\<close>

definition same_identity :: "run_state \<Rightarrow> run_state \<Rightarrow> bool" where
  "same_identity s t \<longleftrightarrow> rs_run_id t = rs_run_id s \<and> rs_blueprint_id t = rs_blueprint_id s \<and>
     rs_blueprint_hash t = rs_blueprint_hash s \<and>
     jget ''run'' (rs_registry t) = jget ''run'' (rs_registry s) \<and>
     (jget ''storage'' (rs_registry s) \<noteq> None \<longrightarrow> jget ''storage'' (rs_registry t) \<noteq> None)"

lemma same_identity_refl [simp]: "same_identity s s"
  by (simp add: same_identity_def)

lemma same_identity_trans: "same_identity s t \<Longrightarrow> same_identity t u \<Longrightarrow> same_identity s u"
  by (simp add: same_identity_def)

lemma same_identity_fields:
  "rs_run_id t = rs_run_id s \<Longrightarrow> rs_blueprint_id t = rs_blueprint_id s \<Longrightarrow>
   rs_blueprint_hash t = rs_blueprint_hash s \<Longrightarrow> rs_registry t = rs_registry s \<Longrightarrow> same_identity s t"
  by (simp add: same_identity_def)

lemma same_identity_write:
  assumes "write_registry (k # ks) v s = Inr t" "k \<noteq> ''run''"
  shows "same_identity s t"
proof -
  from assms(1) obtain r where r: "jset_path (k # ks) v (rs_registry s) = Some r"
    "t = s\<lparr>rs_registry := r\<rparr>" by (auto simp: write_registry_def split: option.splits)
  have "jget ''storage'' (rs_registry s) \<noteq> None \<longrightarrow> jget ''storage'' r \<noteq> None"
    using jset_path_head [OF r(1)] jset_path_other [OF r(1), of "''storage''"]
    by (cases "k = ''storage''") auto
  with r assms(2) jset_path_other [OF r(1), of "''run''"] show ?thesis
    by (simp add: same_identity_def)
qed

lemma same_identity_reset_body:
  "run_steps (\<lambda>s n. reset_body_node n s) s ns = Inr t \<Longrightarrow> same_identity s t"
proof (induction ns arbitrary: s)
  case (Cons n ns)
  then obtain u where u: "reset_body_node n s = Inr u"
    "run_steps (\<lambda>s n. reset_body_node n s) u ns = Inr t" by (auto simp: res_bind_eq_Inr)
  from u(1) obtain v where prev: "(case node_output s n of None \<Rightarrow> Inr s
      | Some out \<Rightarrow> write_registry [''nodes'', n, ''prev''] out s) = Inr v"
    and "u = (set_node_status n Pending v)\<lparr>rs_delivered := (rs_delivered v)(n := None)\<rparr>"
    by (auto simp: reset_body_node_def res_bind_eq_Inr)
  then have "same_identity v u" by (simp add: same_identity_fields)
  moreover from prev have v: "same_identity s v"
    by (auto split: option.splits dest: same_identity_write)
  ultimately have "same_identity s u" by (blast intro: same_identity_trans)
  with Cons.IH [OF u(2)] show ?case by (blast intro: same_identity_trans)
qed simp

lemma apply_kind_identity:
  assumes "\<not> is_started k" "apply_kind bp ts k s = Inr t"
  shows "same_identity s t"
proof (cases k)
  case (NodeCompleted n out)
  with assms(2) obtain u where u: "set_node_output n out s = Inr u"
    "t = (if (case find_node bp n of None \<Rightarrow> True | Some nd \<Rightarrow> nd_type nd \<noteq> ''decision'')
          then deliver_from_port bp n ''out'' (set_node_status n Completed u) else set_node_status n Completed u)"
    by (auto simp: res_bind_eq_Inr Let_def)
  then have "same_identity u t" by (auto intro: same_identity_fields)
  with u(1) show ?thesis
    unfolding set_node_output_def by (auto dest: same_identity_write intro: same_identity_trans)
next
  case (DecisionCompleted n out port)
  with assms(2) obtain u where u: "set_node_output n out s = Inr u"
    "t = deliver_from_port bp n port (set_node_status n Completed u)"
    by (auto simp: res_bind_eq_Inr)
  then have "same_identity u t" by (auto intro: same_identity_fields)
  with u(1) show ?thesis
    unfolding set_node_output_def by (auto dest: same_identity_write intro: same_identity_trans)
next
  case (StateUpdated n op entries)
  with assms(2) show ?thesis
    by (auto simp: apply_state_update_def dest: same_identity_write split: option.splits if_splits)
next
  case (LoopIteration n i)
  with assms(2) have "apply_loop_iteration bp n i s = Inr t" by simp
  then consider "t = deliver_from_port bp n ''body''
          ((set_node_status n Running s)\<lparr>rs_loop_iter := (rs_loop_iter s)(n \<mapsto> 0)\<rparr>)" |
    u where "run_steps (\<lambda>s n. reset_body_node n s) s (body_nodes bp n) = Inr u"
      "t = deliver_from_port bp n ''body'' (u\<lparr>rs_skipped := rs_skipped u - body_edges bp n,
                   rs_loop_iter := (rs_loop_iter u)(n \<mapsto> i)\<rparr>)"
    by (auto simp: apply_loop_iteration_def res_bind_eq_Inr split: if_splits option.splits)
  then show ?thesis
  proof cases
    case 1
    then show ?thesis by (simp add: same_identity_fields)
  next
    case (2 u)
    then have "same_identity u t" by (simp add: same_identity_fields)
    with same_identity_reset_body [OF 2(1)] show ?thesis by (rule same_identity_trans)
  qed
next
  case (MessageSendPrepared n a b)
  with assms(2) show ?thesis
    by (auto simp: apply_message_prepared_def Let_def intro: same_identity_fields split: if_splits)
qed (use assms in \<open>auto intro: same_identity_fields\<close>)

lemma apply_event_identity:
  assumes "\<not> is_started (ev_kind ev)" "apply_event bp s ev = Inr t"
  shows "same_identity s t"
proof -
  from assms(2) obtain u where u: "apply_kind bp (ev_ts ev) (ev_kind ev) s = Inr u"
    "t = u\<lparr>rs_next_seq := Suc (ev_seq ev)\<rparr>" by (auto simp: apply_event_def res_bind_eq_Inr)
  from apply_kind_identity [OF assms(1) u(1)] show ?thesis
    by (rule same_identity_trans) (simp add: u(2) same_identity_fields)
qed

lemma run_steps_identity:
  "run_steps (apply_event bp) s evs = Inr t \<Longrightarrow> \<forall>ev \<in> set evs. \<not> is_started (ev_kind ev) \<Longrightarrow>
   same_identity s t"
proof (induction evs arbitrary: s)
  case (Cons ev evs)
  then obtain u where "apply_event bp s ev = Inr u" "run_steps (apply_event bp) u evs = Inr t"
    by (auto simp: res_bind_eq_Inr)
  with Cons show ?case using apply_event_identity same_identity_trans by (metis list.set_intros)
qed simp

text \<open>States whose registry already has what a legacy checkpoint may miss.\<close>

definition normal_state :: "run_state \<Rightarrow> bool" where
  "normal_state s \<longleftrightarrow> jget ''run'' (rs_registry s) = Some (JObject [(''id'', JString (rs_run_id s))]) \<and>
     jget ''storage'' (rs_registry s) \<noteq> None"

lemma update_same: "map_of m k = Some v \<Longrightarrow> AList.update k v m = m"
  by (induction m) (auto split: if_splits)

lemma normal_state_fix: "normal_state s \<Longrightarrow> normalize_legacy s = s"
  by (cases "rs_registry s")
    (auto simp: normal_state_def normalize_legacy_def jget_def update_same im_or_insert_def)

lemma normal_state_identity: "normal_state s \<Longrightarrow> same_identity s t \<Longrightarrow> normal_state t"
  by (simp add: normal_state_def same_identity_def)

lemma normal_state_normalize:
  "is_object (rs_registry s) \<Longrightarrow> normal_state (normalize_legacy s)"
  by (auto simp: normal_state_def normalize_legacy_def im_get_or_insert im_get_update elim!: is_objectE)

section \<open>Recoverable directories\<close>

definition seqd :: "event list \<Rightarrow> bool" where
  "seqd evs \<longleftrightarrow> map ev_seq evs = [0..<length evs]"

definition starts_run :: "blueprint \<Rightarrow> string \<Rightarrow> event \<Rightarrow> bool" where
  "starts_run bp rid ev \<longleftrightarrow> (\<exists>h trig. ev_kind ev = RunStarted (Some rid) h (bp_id bp) (bp_schema bp) trig)"

text \<open>A log the driver wrote: numbered from zero, started once, folding to the state.\<close>

definition log_folds :: "blueprint \<Rightarrow> string \<Rightarrow> event list \<Rightarrow> run_state \<Rightarrow> bool" where
  "log_folds bp rid evs s \<longleftrightarrow> evs \<noteq> [] \<and> seqd evs \<and> starts_run bp rid (hd evs) \<and>
     (\<forall>ev \<in> set (tl evs). \<not> is_started (ev_kind ev)) \<and>
     run_steps (apply_event bp) (new_run_state rid (bp_id bp)) evs = Inr s"

text \<open>The checkpoint is absent or the fold of a nonempty prefix of the log.\<close>

definition recoverable :: "blueprint \<Rightarrow> string \<Rightarrow> run_state \<Rightarrow> run_dir \<Rightarrow> bool" where
  "recoverable bp rid s d \<longleftrightarrow> (\<exists>evs. rd_events d = map Inr evs \<and> log_folds bp rid evs s \<and>
     (rd_checkpoint d = None \<or>
      (\<exists>j c. 0 < j \<and> j \<le> length evs \<and> rd_checkpoint d = Some (Inr c) \<and>
        run_steps (apply_event bp) (new_run_state rid (bp_id bp)) (take j evs) = Inr c)))"

lemma run_steps_seq:
  "run_steps (apply_event bp) s evs = Inr t \<Longrightarrow>
   rs_next_seq t = (if evs = [] then rs_next_seq s else Suc (ev_seq (last evs)))"
proof (induction evs arbitrary: s)
  case (Cons ev evs)
  then obtain u where u: "apply_event bp s ev = Inr u" "run_steps (apply_event bp) u evs = Inr t"
    by (auto simp: res_bind_eq_Inr)
  from apply_event_seq(1) [OF u(1)] Cons.IH [OF u(2)] show ?case by simp
qed simp

lemma seqd_last: "seqd evs \<Longrightarrow> evs \<noteq> [] \<Longrightarrow> Suc (ev_seq (last evs)) = length evs"
proof -
  assume "seqd evs" "evs \<noteq> []"
  then have "last (map ev_seq evs) = last [0..<length evs]" by (simp add: seqd_def)
  with \<open>evs \<noteq> []\<close> show ?thesis by (simp add: last_map)
qed

lemma seqd_append: "seqd (evs @ [ev]) \<longleftrightarrow> seqd evs \<and> ev_seq ev = length evs"
  by (auto simp: seqd_def)

lemma log_folds_seq: "log_folds bp rid evs s \<Longrightarrow> rs_next_seq s = length evs"
  using run_steps_seq seqd_last by (fastforce simp: log_folds_def)

text \<open>Every event was folded, so the sequence numbers have not run out.\<close>

lemma log_folds_short: "log_folds bp rid evs s \<Longrightarrow> length evs < 2 ^ 64"
proof -
  assume folds: "log_folds bp rid evs s"
  then have evs: "evs \<noteq> []" "seqd evs"
    "run_steps (apply_event bp) (new_run_state rid (bp_id bp)) (butlast evs @ [last evs]) = Inr s"
    by (simp_all add: log_folds_def)
  then obtain t where "apply_event bp t (last evs) = Inr s"
    unfolding run_steps_append by (auto simp: res_bind_eq_Inr)
  from apply_event_seq(2) [OF this] seqd_last [OF evs(2,1)] show ?thesis by simp
qed

lemma log_folds_append:
  assumes "log_folds bp rid evs s" "\<not> is_started (ev_kind ev)" "ev_seq ev = rs_next_seq s"
    and "apply_event bp s ev = Inr t"
  shows "log_folds bp rid (evs @ [ev]) t"
  using assms log_folds_seq [OF assms(1)]
  by (auto simp: log_folds_def seqd_append run_steps_append)

lemma apply_started:
  assumes "starts_run bp rid ev" "run_ok bp s" "apply_event bp s ev = Inr t"
  shows "normal_state t \<and> rs_run_id t = rid \<and> rs_blueprint_id t = rs_blueprint_id s"
proof -
  obtain h trig where k: "ev_kind ev = RunStarted (Some rid) h (bp_id bp) (bp_schema bp) trig"
    using assms(1) by (auto simp: starts_run_def)
  let ?u = "case h of None \<Rightarrow> s\<lparr>rs_run_id := rid\<rparr> | Some x \<Rightarrow> s\<lparr>rs_run_id := rid, rs_blueprint_hash := Some x\<rparr>"
  have obj: "is_object (rs_registry ?u)"
    using assms(2) by (auto simp: run_ok_def state_ok_def registry_ok_def split: option.splits)
  from assms(3) k obtain v where v: "set_trigger (runtime_trigger_output trig (ev_ts ev)) (normalize_legacy ?u) = Inr v"
    "t = v\<lparr>rs_next_seq := Suc (ev_seq ev)\<rparr>"
    by (auto simp: apply_event_def apply_run_started_def Let_def res_bind_eq_Inr
        split: if_splits option.splits)
  have "same_identity (normalize_legacy ?u) v"
    using v(1) unfolding set_trigger_def by (rule same_identity_write) simp
  moreover have "same_identity v t" by (simp add: v(2) same_identity_fields)
  ultimately have id: "same_identity (normalize_legacy ?u) t" by (rule same_identity_trans)
  with normal_state_normalize [OF obj] have "normal_state t" by (rule normal_state_identity)
  moreover have "rs_run_id (normalize_legacy ?u) = rid" "rs_blueprint_id (normalize_legacy ?u) = rs_blueprint_id s"
    by (simp_all add: normalize_legacy_def split: option.splits)
  ultimately show ?thesis using id by (simp add: same_identity_def)
qed

lemma log_folds_normal:
  assumes "log_folds bp rid evs s"
  shows "normal_state s \<and> rs_run_id s = rid \<and> rs_blueprint_id s = bp_id bp"
proof -
  from assms obtain ev es where evs: "evs = ev # es" "starts_run bp rid ev"
    "\<forall>ev \<in> set es. \<not> is_started (ev_kind ev)"
    by (cases evs) (auto simp: log_folds_def)
  with assms obtain t where t: "apply_event bp (new_run_state rid (bp_id bp)) ev = Inr t"
    "run_steps (apply_event bp) t es = Inr s" by (auto simp: log_folds_def res_bind_eq_Inr)
  from apply_started [OF evs(2) run_ok_new t(1)] run_steps_identity [OF t(2) evs(3)]
  show ?thesis using normal_state_identity by (auto simp: same_identity_def new_run_state_def)
qed

lemma log_folds_hash:
  assumes "log_folds bp rid evs s"
  shows "rs_blueprint_hash s = None \<or> (\<exists>h trig. ev_kind (hd evs) =
    RunStarted (Some rid) h (bp_id bp) (bp_schema bp) trig \<and> (h = None \<or> h = rs_blueprint_hash s))"
proof -
  from assms obtain ev es h trig where evs: "evs = ev # es"
    "\<forall>ev \<in> set es. \<not> is_started (ev_kind ev)"
    and k: "ev_kind ev = RunStarted (Some rid) h (bp_id bp) (bp_schema bp) trig"
    by (cases evs) (auto simp: log_folds_def starts_run_def)
  with assms obtain t where t: "apply_event bp (new_run_state rid (bp_id bp)) ev = Inr t"
    "run_steps (apply_event bp) t es = Inr s" by (auto simp: log_folds_def res_bind_eq_Inr)
  let ?u = "case h of None \<Rightarrow> (new_run_state rid (bp_id bp))\<lparr>rs_run_id := rid\<rparr>
    | Some x \<Rightarrow> (new_run_state rid (bp_id bp))\<lparr>rs_run_id := rid, rs_blueprint_hash := Some x\<rparr>"
  from t(1) k obtain v where v: "set_trigger (runtime_trigger_output trig (ev_ts ev)) (normalize_legacy ?u) = Inr v"
    "t = v\<lparr>rs_next_seq := Suc (ev_seq ev)\<rparr>"
    by (auto simp: apply_event_def apply_run_started_def Let_def res_bind_eq_Inr
        split: if_splits option.splits)
  have "same_identity (normalize_legacy ?u) v"
    using v(1) unfolding set_trigger_def by (rule same_identity_write) simp
  then have "rs_blueprint_hash t = h"
    by (simp add: same_identity_def v(2) normalize_legacy_def new_run_state_def split: option.splits)
  then have "rs_blueprint_hash s = h"
    using run_steps_identity [OF t(2) evs(2)] by (simp add: same_identity_def)
  with evs(1) k show ?thesis by auto
qed

text \<open>
  What the driver keeps while it runs: the directory is recoverable and its log ends with a
  whole line. An append that stops half way leaves a last line without its end: the whole
  event, which still folds, or a part of it, which cannot be read; the lines before it fold.
\<close>

definition kept :: "blueprint \<Rightarrow> string \<Rightarrow> run_state \<Rightarrow> run_dir \<Rightarrow> bool" where
  "kept bp rid s d \<longleftrightarrow> recoverable bp rid s d \<and> \<not> rd_open d"

definition broken_tail :: "blueprint \<Rightarrow> string \<Rightarrow> run_dir \<Rightarrow> bool" where
  "broken_tail bp rid d \<longleftrightarrow> (\<exists>evs e. rd_events d = map Inr evs @ [Inl e] \<and>
     (evs = [] \<and> rd_checkpoint d = None \<or>
      (\<exists>s. recoverable bp rid s (d\<lparr>rd_events := map Inr evs, rd_open := False\<rparr>))))"

definition cut_short :: "blueprint \<Rightarrow> string \<Rightarrow> run_dir \<Rightarrow> bool" where
  "cut_short bp rid d \<longleftrightarrow> rd_open d \<and> ((\<exists>s. recoverable bp rid s d) \<or> broken_tail bp rid d)"

lemma recoverable_open [simp]: "recoverable bp rid s (d\<lparr>rd_open := b\<rparr>) = recoverable bp rid s d"
  by (simp add: recoverable_def)

lemma append_cases:
  assumes "append_event env ev (d, w) = (r, (d', w'))" "\<not> rd_open d"
  shows "r = Inr () \<and> d' = d\<lparr>rd_events := rd_events d @ [Inr ev], rd_open := False\<rparr> \<or>
    (\<exists>msg. r = Inl (Err (Io msg))) \<and> (d' = d \<or> d' = d\<lparr>rd_events := rd_events d @ [Inr ev], rd_open := True\<rparr> \<or>
      (\<exists>e. d' = d\<lparr>rd_events := rd_events d @ [Inl e], rd_open := True\<rparr>))"
  using assms
  by (auto simp: append_event_def act_bind_def outside_def io_def add_text_def change_dir_def ret_def fail_def act_of_def
      split: prod.splits option.splits append_end.splits sum.splits)

lemma emit_cases:
  assumes "emit env bp k s (d, w) = (r, (d', w'))" "\<not> rd_open d" "en_now env w = (ts, w1)"
    and "apply_event bp s \<lparr>ev_seq = rs_next_seq s, ev_ts = ts, ev_kind = k\<rparr> = Inr t"
  shows "r = Inr t \<and> d' = d\<lparr>rd_events := rd_events d @ [Inr \<lparr>ev_seq = rs_next_seq s, ev_ts = ts, ev_kind = k\<rparr>],
      rd_open := False, rd_checkpoint := Some (Inr t)\<rparr> \<or>
    (\<exists>msg. r = Inl (Err (Io msg))) \<and> (d' = d \<or>
      (\<exists>b. d' = d\<lparr>rd_events := rd_events d @ [Inr \<lparr>ev_seq = rs_next_seq s, ev_ts = ts, ev_kind = k\<rparr>], rd_open := b\<rparr>) \<or>
      (\<exists>e. d' = d\<lparr>rd_events := rd_events d @ [Inl e], rd_open := True\<rparr>))"
proof -
  let ?ev = "\<lparr>ev_seq = rs_next_seq s, ev_ts = ts, ev_kind = k\<rparr>"
  obtain q d2 w2 where app: "append_event env ?ev (d, w1) = (q, (d2, w2))"
    by (cases "append_event env ?ev (d, w1)") auto
  have run: "emit env bp k s (d, w) = (case q of Inl f \<Rightarrow> (Inl f, (d2, w2))
      | Inr u \<Rightarrow> act_bind (write_checkpoint env t) (\<lambda>_. ret t) (d2, w2))"
    using assms(3,4) app by (auto simp: emit_def act_bind_def outside_def act_of_def Let_def split: sum.split)
  show ?thesis
  proof (cases q)
    case (Inl f)
    with append_cases [OF app assms(2)] run assms(1) show ?thesis by auto
  next
    case (Inr u)
    with append_cases [OF app assms(2)]
    have d2: "d2 = d\<lparr>rd_events := rd_events d @ [Inr ?ev], rd_open := False\<rparr>" by simp
    have "(\<exists>msg. r = Inl (Err (Io msg))) \<and> d' = d2 \<or> r = Inr t \<and> d' = d2\<lparr>rd_checkpoint := Some (Inr t)\<rparr>"
      using run assms(1) Inr
      by (auto simp: write_checkpoint_def act_bind_def outside_def io_def change_dir_def ret_def fail_def act_of_def
          split: prod.splits option.splits)
    then show ?thesis unfolding d2 by (elim disjE conjE) (auto intro: exI [of _ False])
  qed
qed

lemma act_bind_Inr:
  "act_bind m f w = (Inr y, w') \<longleftrightarrow> (\<exists>x w1. m w = (Inr x, w1) \<and> f x w1 = (Inr y, w'))"
  by (auto simp: act_bind_def split: prod.splits sum.splits)

lemma act_of_Inr: "act_of r w = (Inr y, w') \<longleftrightarrow> r = Inr y \<and> w' = w"
  by (auto simp: act_of_def)

lemma emit_Inr:
  assumes "emit env bp k s (d, w) = (Inr t, (d', w'))" "\<not> rd_open d"
  shows "\<exists>ts. apply_event bp s \<lparr>ev_seq = rs_next_seq s, ev_ts = ts, ev_kind = k\<rparr> = Inr t \<and>
    d' = d\<lparr>rd_events := rd_events d @ [Inr \<lparr>ev_seq = rs_next_seq s, ev_ts = ts, ev_kind = k\<rparr>],
           rd_open := False, rd_checkpoint := Some (Inr t)\<rparr>"
proof -
  obtain ts w1 where ts: "en_now env w = (ts, w1)" by (cases "en_now env w")
  let ?ev = "\<lparr>ev_seq = rs_next_seq s, ev_ts = ts, ev_kind = k\<rparr>"
  obtain u where u: "apply_event bp s ?ev = Inr u"
    using assms(1) ts by (cases "apply_event bp s ?ev")
      (auto simp: emit_def Let_def act_bind_Inr act_of_Inr outside_def)
  from emit_cases [OF assms ts u] u show ?thesis by (intro exI [of _ ts]) auto
qed

text \<open>A plan of events that is emitted whole appends one event for each of its kinds.\<close>

lemma emit_all_Inr:
  assumes "emit_all env bp ks s (d, w) = (Inr t, (d', w'))" "\<not> rd_open d"
  shows "\<exists>evs. map ev_kind evs = ks \<and> map ev_seq evs = [rs_next_seq s..<rs_next_seq s + length ks] \<and>
    run_steps (apply_event bp) s evs = Inr t \<and>
    rd_events d' = rd_events d @ map Inr evs \<and> \<not> rd_open d'"
  using assms
proof (induction ks arbitrary: s d w)
  case Nil
  then show ?case by (auto simp: ret_def act_of_def)
next
  case (Cons k ks)
  from Cons.prems(1) obtain u d1 w1 where u: "emit env bp k s (d, w) = (Inr u, (d1, w1))"
    "emit_all env bp ks u (d1, w1) = (Inr t, (d', w'))"
    by (auto simp: act_bind_Inr)
  from emit_Inr [OF u(1) Cons.prems(2)] obtain ts where
    ap: "apply_event bp s \<lparr>ev_seq = rs_next_seq s, ev_ts = ts, ev_kind = k\<rparr> = Inr u"
    and d1: "rd_events d1 = rd_events d @ [Inr \<lparr>ev_seq = rs_next_seq s, ev_ts = ts, ev_kind = k\<rparr>]" "\<not> rd_open d1"
    by auto
  from Cons.IH [OF u(2) d1(2)] obtain evs where evs: "map ev_kind evs = ks"
    "map ev_seq evs = [rs_next_seq u..<rs_next_seq u + length ks]"
    "run_steps (apply_event bp) u evs = Inr t" "rd_events d' = rd_events d1 @ map Inr evs" "\<not> rd_open d'" by blast
  have "rs_next_seq u = Suc (rs_next_seq s)" using apply_event_seq(1) [OF ap] by simp
  with evs ap d1 show ?case
    by (intro exI [of _ "\<lparr>ev_seq = rs_next_seq s, ev_ts = ts, ev_kind = k\<rparr> # evs"]) (simp add: upt_conv_Cons del: upt_Suc)
qed

lemma recoverable_emit:
  assumes "\<not> is_started k"
  shows "keeps (kept bp rid) (cut_short bp rid) (\<lambda>t. t) (emit env bp k s) s"
proof -
  have main: "case emit env bp k s (d, w) of (Inr t, (d', w')) \<Rightarrow> kept bp rid t d'
      | (Inl e, (d', w')) \<Rightarrow> cut_short bp rid d' \<or> (\<exists>t. kept bp rid t d')"
    if K: "kept bp rid s d" for d w
  proof -
    have R: "recoverable bp rid s d" and whole: "\<not> rd_open d" using K by (simp_all add: kept_def)
    obtain ts w1 where ts: "en_now env w = (ts, w1)" by (cases "en_now env w")
    let ?ev = "\<lparr>ev_seq = rs_next_seq s, ev_ts = ts, ev_kind = k\<rparr>"
    from R obtain evs where evs: "rd_events d = map Inr evs" "log_folds bp rid evs s"
      and check: "rd_checkpoint d = None \<or>
      (\<exists>j c. 0 < j \<and> j \<le> length evs \<and> rd_checkpoint d = Some (Inr c) \<and>
        run_steps (apply_event bp) (new_run_state rid (bp_id bp)) (take j evs) = Inr c)"
      by (auto simp: recoverable_def)
    show ?thesis
    proof (cases "apply_event bp s ?ev")
      case (Inl f)
      then show ?thesis using K
        by (auto simp: emit_def act_bind_def outside_def act_of_def ts Let_def)
    next
      case (Inr t)
      let ?d1 = "d\<lparr>rd_events := rd_events d @ [Inr ?ev]\<rparr>"
      have folds: "log_folds bp rid (evs @ [?ev]) t"
        by (rule log_folds_append [OF evs(2)]) (use assms Inr in simp_all)
      have R1: "recoverable bp rid t ?d1"
        unfolding recoverable_def
      proof (intro exI conjI)
        show "rd_events ?d1 = map Inr (evs @ [?ev])" using evs(1) by simp
        show "log_folds bp rid (evs @ [?ev]) t" by (rule folds)
        show "rd_checkpoint ?d1 = None \<or> (\<exists>j c. 0 < j \<and> j \<le> length (evs @ [?ev]) \<and>
            rd_checkpoint ?d1 = Some (Inr c) \<and>
            run_steps (apply_event bp) (new_run_state rid (bp_id bp)) (take j (evs @ [?ev])) = Inr c)"
          using check by fastforce
      qed
      have R2: "recoverable bp rid t (?d1\<lparr>rd_checkpoint := Some (Inr t)\<rparr>)"
        unfolding recoverable_def
      proof (intro exI conjI)
        show "rd_events (?d1\<lparr>rd_checkpoint := Some (Inr t)\<rparr>) = map Inr (evs @ [?ev])" using evs(1) by simp
        show "log_folds bp rid (evs @ [?ev]) t" by (rule folds)
        show "rd_checkpoint (?d1\<lparr>rd_checkpoint := Some (Inr t)\<rparr>) = None \<or>
            (\<exists>j c. 0 < j \<and> j \<le> length (evs @ [?ev]) \<and>
            rd_checkpoint (?d1\<lparr>rd_checkpoint := Some (Inr t)\<rparr>) = Some (Inr c) \<and>
            run_steps (apply_event bp) (new_run_state rid (bp_id bp)) (take j (evs @ [?ev])) = Inr c)"
          using folds by (intro disjI2 exI [of _ "length (evs @ [?ev])"] exI [of _ t]) (simp add: log_folds_def)
      qed
      have tail: "cut_short bp rid (d\<lparr>rd_events := rd_events d @ [Inl e], rd_open := True\<rparr>)" for e
        using R evs(1) by (auto simp: cut_short_def broken_tail_def recoverable_def)
      have ended: "cut_short bp rid (?d1\<lparr>rd_open := True\<rparr>)" using R1 by (auto simp: cut_short_def)
      have kept: "kept bp rid t (?d1\<lparr>rd_open := False\<rparr>)"
        "kept bp rid t (?d1\<lparr>rd_open := False, rd_checkpoint := Some (Inr t)\<rparr>)"
        using R1 R2 by (simp_all add: kept_def recoverable_def)
      have "cut_short bp rid (?d1\<lparr>rd_open := b\<rparr>) \<or> kept bp rid t (?d1\<lparr>rd_open := b\<rparr>)" for b
        using ended kept(1) by (cases b) auto
      then show ?thesis
        using emit_cases [OF _ whole ts Inr] K tail kept(2)
        by (auto split: prod.splits sum.splits) metis+
    qed
  qed
  show ?thesis by (rule keepsI) (use main in \<open>force split: prod.splits sum.splits\<close>)+
qed

interpretation recovery: run_invariant "kept bp rid" "cut_short bp rid" env bp for bp rid and env :: "'w env"
proof
  show "keeps (kept bp rid) (cut_short bp rid) (\<lambda>t. t) (emit env bp k s) s" if "\<not> is_started k" for k s
    using that by (rule recoverable_emit)
  show "kept bp rid s (d\<lparr>rd_checkpoint := Some (Inr s)\<rparr>)" if R: "kept bp rid s d" for s d
  proof -
    from R obtain evs where "rd_events d = map Inr evs" "log_folds bp rid evs s"
      by (auto simp: kept_def recoverable_def)
    moreover from this have "0 < length evs \<and> run_steps (apply_event bp) (new_run_state rid (bp_id bp))
        (take (length evs) evs) = Inr s" by (simp add: log_folds_def)
    ultimately show ?thesis using R unfolding kept_def recoverable_def by auto
  qed
  show "normalize_legacy s = s" if "kept bp rid s d" for s d
    using that log_folds_normal normal_state_fix by (auto simp: kept_def recoverable_def)
qed

section \<open>Loading\<close>

lemma seqd_from:
  "map ev_seq evs = [n..<n + length evs] \<Longrightarrow> n + length evs < 2 ^ 64 \<Longrightarrow>
   sequence_from n evs = Inr (n + length evs)"
proof (induction evs arbitrary: n)
  case (Cons ev evs)
  then have "ev_seq ev = n" "map ev_seq evs = [Suc n..<Suc n + length evs]"
    by (simp_all add: upt_rec)
  with Cons.IH [of "Suc n"] Cons.prems(2) show ?case by simp
qed simp

lemma fold_from_run:
  assumes "map ev_seq evs = [n..<n + length evs]" "rs_next_seq s = max c n"
    and "c \<le> n + length evs" "n + length evs < 2 ^ 64"
  shows "fold_from bp c n s evs = run_steps (apply_event bp) s (drop (c - n) evs)"
  using assms
proof (induction evs arbitrary: n s)
  case Nil
  then show ?case by simp
next
  case (Cons ev evs)
  then have seq: "ev_seq ev = n" "map ev_seq evs = [Suc n..<Suc n + length evs]"
    by (simp_all add: upt_rec)
  show ?case
  proof (cases "c \<le> n")
    case True
    have "fold_from bp c (Suc n) t evs = run_steps (apply_event bp) t evs" if "apply_event bp s ev = Inr t" for t
      using Cons.IH [OF seq(2), of t] apply_event_seq(1) [OF that] True seq(1) Cons.prems(4) by simp
    with True Cons.prems(2,4) seq(1) show ?thesis
      by (cases "apply_event bp s ev") (simp_all add: max_def)
  next
    case False
    then have "fold_from bp c (Suc n) s evs = run_steps (apply_event bp) s (drop (c - Suc n) evs)"
      using Cons.IH [OF seq(2), of s] Cons.prems(2,3,4) by (simp add: max_def)
    moreover have "c - n = Suc (c - Suc n)" using False by simp
    ultimately show ?thesis using False seq(1) Cons.prems(4) by simp
  qed
qed

text \<open>Replays and rebuilds start from a sentinel and adopt the identity of the log.\<close>

lemma sentinel_start:
  assumes "starts_run bp rid ev" "replay_sentinel r"
  shows "apply_event bp (new_run_state r (bp_id bp)) ev = apply_event bp (new_run_state rid (bp_id bp)) ev"
proof -
  obtain h trig where k: "ev_kind ev = RunStarted (Some rid) h (bp_id bp) (bp_schema bp) trig"
    using assms(1) by (auto simp: starts_run_def)
  let ?u = "\<lambda>r. case h of None \<Rightarrow> (new_run_state r (bp_id bp))\<lparr>rs_run_id := rid\<rparr>
      | Some x \<Rightarrow> (new_run_state r (bp_id bp))\<lparr>rs_run_id := rid, rs_blueprint_hash := Some x\<rparr>"
  have "normalize_legacy (?u r) = normalize_legacy (?u rid)"
    by (cases h) (simp_all add: normalize_legacy_def new_run_state_def)
  moreover have "apply_event bp (new_run_state q (bp_id bp)) ev =
      res_bind (set_trigger (runtime_trigger_output trig (ev_ts ev)) (normalize_legacy (?u q)))
        (\<lambda>s'. res_bind (next_number (ev_seq ev)) (\<lambda>q. Inr (s'\<lparr>rs_next_seq := q\<rparr>)))" if "replay_sentinel q \<or> q = rid" for q
    using that k by (cases h) (auto simp: apply_event_def apply_run_started_def new_run_state_def
        replay_sentinel_def Let_def)
  ultimately show ?thesis using assms(2) by simp
qed

lemma identity_ok:
  assumes "log_folds bp rid evs s" "rs_blueprint_id c = bp_id bp"
    and "replay_sentinel (rs_run_id c) \<or> rs_run_id c = rid"
    and "rs_blueprint_hash c = None \<or> (\<exists>h trig. ev_kind (hd evs) =
        RunStarted (Some rid) h (bp_id bp) (bp_schema bp) trig \<and> (h = None \<or> h = rs_blueprint_hash c))"
  shows "validate_event_identity env bp c evs = Inr ()"
proof -
  from assms(1) obtain ev es h trig where evs: "evs = ev # es"
    "ev_kind ev = RunStarted (Some rid) h (bp_id bp) (bp_schema bp) trig" and "seqd evs"
    by (cases evs) (auto simp: log_folds_def starts_run_def)
  then have "ev_seq ev = 0" by (simp add: seqd_def upt_rec)
  with evs assms(2-4) show ?thesis by (auto simp: validate_event_identity_def)
qed

lemma fold_log_from_prefix:
  assumes folds: "log_folds bp rid evs s" and j: "0 < j" "j \<le> length evs"
    and c: "run_steps (apply_event bp) (new_run_state rid (bp_id bp)) (take j evs) = Inr c"
  shows "fold_event_log env bp c evs = Inr s"
proof -
  have evs: "evs \<noteq> []" "seqd evs" using folds by (simp_all add: log_folds_def)
  have pre: "log_folds bp rid (take j evs) c"
    using folds j c unfolding log_folds_def seqd_def
    by (auto simp: hd_take take_map [symmetric] tl_take min_def dest!: in_set_takeD)
  have seq: "validate_event_sequence evs = Inr (length evs)"
    using seqd_from [of evs 0] evs(2) log_folds_short [OF folds] by (simp add: seqd_def validate_event_sequence_def)
  have next_c: "rs_next_seq c = j" using log_folds_seq [OF pre] j by simp
  have "run_steps (apply_event bp) (new_run_state rid (bp_id bp)) (take j evs @ drop j evs) = Inr s"
    using folds by (simp add: log_folds_def)
  then have "run_steps (apply_event bp) c (drop j evs) = Inr s"
    unfolding run_steps_append c by simp
  then have fold: "fold_from bp j 0 c evs = Inr s"
    using fold_from_run [of evs 0 c j bp] evs(2) next_c j log_folds_short [OF folds] by (simp add: seqd_def)
  have hash: "rs_blueprint_hash c = None \<or> (\<exists>h trig. ev_kind (hd evs) =
        RunStarted (Some rid) h (bp_id bp) (bp_schema bp) trig \<and> (h = None \<or> h = rs_blueprint_hash c))"
    using log_folds_hash [OF pre] j by (simp add: hd_take)
  have "validate_event_identity env bp c evs = Inr ()"
    by (rule identity_ok [OF folds]) (use log_folds_normal [OF pre] hash in simp_all)
  with seq fold next_c evs(1) j show ?thesis by (simp add: fold_event_log_def)
qed

lemma fold_log_sentinel:
  assumes folds: "log_folds bp rid evs s" and r: "replay_sentinel r"
  shows "fold_event_log env bp (new_run_state r (bp_id bp)) evs = Inr s"
proof -
  let ?c = "new_run_state r (bp_id bp)"
  from folds obtain ev es where evs: "evs = ev # es" "starts_run bp rid ev" "seqd evs"
    by (cases evs) (auto simp: log_folds_def)
  have seq: "validate_event_sequence evs = Inr (length evs)"
    using seqd_from [of evs 0] evs(3) log_folds_short [OF folds] by (simp add: seqd_def validate_event_sequence_def)
  have "run_steps (apply_event bp) ?c evs = run_steps (apply_event bp) (new_run_state rid (bp_id bp)) evs"
    by (simp add: evs(1) sentinel_start [OF evs(2) r])
  then have "fold_from bp 0 0 ?c evs = Inr s"
    using fold_from_run [of evs 0 ?c 0 bp] evs(3) folds log_folds_short [OF folds]
    by (simp add: seqd_def log_folds_def new_run_state_def)
  moreover have "validate_event_identity env bp ?c evs = Inr ()"
    by (rule identity_ok [OF folds]) (use r in \<open>simp_all add: new_run_state_def\<close>)
  ultimately show ?thesis
    using seq evs(1) by (simp add: fold_event_log_def new_run_state_def)
qed

lemma parse_lines_Inr: "parse_lines (map Inr evs) = Inr evs"
  by (induction evs) (simp_all add: parse_lines_def)

definition io_error :: "failure + 'a \<Rightarrow> bool" where
  "io_error r \<longleftrightarrow> (\<exists>msg. r = Inl (Err (Io msg)))"

lemma io_cases:
  "(\<exists>v. io f (d, w) = (Inr (), (d, v))) \<or> (\<exists>msg v. io f (d, w) = (Inl (Err (Io msg)), (d, v)))"
  by (auto simp: io_def act_bind_def outside_def ret_def fail_def act_of_def
      split: prod.splits option.splits)

lemma io_Inr: "io f (d, w) = (Inr y, (d', w')) \<Longrightarrow> d' = d"
  using io_cases [of f d w] by auto

lemma read_events_cases:
  assumes "rd_events d = map Inr evs"
  shows "(\<exists>v. read_events env (d, w) = (Inr evs, (d, v))) \<or>
    (\<exists>msg v. read_events env (d, w) = (Inl (Err (Io msg)), (d, v)))"
proof (cases "evs = []")
  case True
  with assms show ?thesis by (simp add: read_events_def act_bind_def get_dir_def ret_def act_of_def)
next
  case False
  with assms io_cases [of "en_io env" d w] show ?thesis
    by (auto simp: read_events_def act_bind_def get_dir_def act_of_def parse_lines_Inr)
qed

lemma read_checkpoint_cases:
  assumes "rd_checkpoint d = map_option Inr c"
  shows "(\<exists>v. read_checkpoint env (d, w) = (Inr (map_option normalize_legacy c), (d, v))) \<or>
    (\<exists>msg v. read_checkpoint env (d, w) = (Inl (Err (Io msg)), (d, v)))"
  using assms io_cases [of "en_io env" d w]
  by (cases c) (auto simp: read_checkpoint_def act_bind_def get_dir_def ret_def act_of_def)

text \<open>What a load of a recoverable directory returns.\<close>

lemma recoverable_fold:
  assumes "recoverable bp rid s d"
  shows "\<exists>evs c. rd_events d = map Inr evs \<and> rd_checkpoint d = map_option Inr c \<and>
    fold_event_log env bp (case map_option normalize_legacy c of
       None \<Rightarrow> new_run_state ''rebuilt'' (bp_id bp) | Some s \<Rightarrow> s) evs = Inr s"
proof -
  from assms obtain evs where evs: "rd_events d = map Inr evs" "log_folds bp rid evs s"
    and check: "rd_checkpoint d = None \<or>
      (\<exists>j c. 0 < j \<and> j \<le> length evs \<and> rd_checkpoint d = Some (Inr c) \<and>
        run_steps (apply_event bp) (new_run_state rid (bp_id bp)) (take j evs) = Inr c)"
    by (auto simp: recoverable_def)
  show ?thesis
  proof (cases "rd_checkpoint d")
    case None
    have "replay_sentinel ''rebuilt''" by (simp add: replay_sentinel_def)
    from fold_log_sentinel [OF evs(2) this, of env] None evs(1) show ?thesis
      by (intro exI [of _ evs] exI [of _ None]) simp
  next
    case (Some x)
    with check obtain j c where j: "0 < j" "j \<le> length evs" "x = Inr c"
      "run_steps (apply_event bp) (new_run_state rid (bp_id bp)) (take j evs) = Inr c" by auto
    have "log_folds bp rid (take j evs) c"
      using evs(2) j unfolding log_folds_def seqd_def
      by (auto simp: hd_take take_map [symmetric] tl_take min_def dest!: in_set_takeD)
    then have "normalize_legacy c = c" using log_folds_normal normal_state_fix by blast
    with fold_log_from_prefix [OF evs(2) j(1,2,4), of env] Some j(3) evs(1) show ?thesis
      by (intro exI [of _ evs] exI [of _ "Some c"]) simp
  qed
qed

lemma load_recoverable:
  assumes "recoverable bp rid s d"
  shows "(\<exists>v. load_state env bp (d, w) = (Inr s, (d, v))) \<or>
    (\<exists>msg v. load_state env bp (d, w) = (Inl (Err (Io msg)), (d, v)))"
proof -
  obtain evs c where evs: "rd_events d = map Inr evs" and c: "rd_checkpoint d = map_option Inr c"
    and fold: "fold_event_log env bp (case map_option normalize_legacy c of
       None \<Rightarrow> new_run_state ''rebuilt'' (bp_id bp) | Some s \<Rightarrow> s) evs = Inr s"
    using recoverable_fold [OF assms, of env] by blast
  from read_checkpoint_cases [OF c, of env w] show ?thesis
  proof (elim disjE exE)
    fix v assume v: "read_checkpoint env (d, w) = (Inr (map_option normalize_legacy c), (d, v))"
    from read_events_cases [OF evs, of env v] v fold show ?thesis
      by (auto simp: load_state_def act_bind_def act_of_def)
  next
    fix msg v assume "read_checkpoint env (d, w) = (Inl (Err (Io msg)), (d, v))"
    then show ?thesis by (auto simp: load_state_def act_bind_def)
  qed
qed

text \<open>
  C1. Crash recovery. Take the log of a run as the driver writes it (numbered from zero,
  started once) and a checkpoint that is missing or lags behind the log by any number of
  events. Loading the directory returns the state the whole log folds to, and a replay of
  the log alone returns the same state when it belongs to the blueprint; the only other
  outcome is a file operation that fails.
\<close>

theorem load_state_recovers:
  assumes "recoverable bp rid s d"
  shows "(fst (load_state env bp (d, w)) = Inr s \<or> io_error (fst (load_state env bp (d, w)))) \<and>
    (ensure_blueprint_matches env bp s = Inr () \<longrightarrow>
       fst (replay env bp (d, w)) = Inr s \<or> io_error (fst (replay env bp (d, w))))"
proof -
  have load: "fst (load_state env bp (d, w)) = Inr s \<or> io_error (fst (load_state env bp (d, w)))"
    using load_recoverable [OF assms, of env w] by (auto simp: io_error_def)
  from assms obtain evs where evs: "rd_events d = map Inr evs" "log_folds bp rid evs s"
    by (auto simp: recoverable_def)
  have "replay_sentinel ''replay''" by (simp add: replay_sentinel_def)
  note fold = fold_log_sentinel [OF evs(2) this, of env]
  have "fst (replay env bp (d, w)) = Inr s \<or> io_error (fst (replay env bp (d, w)))"
    if "ensure_blueprint_matches env bp s = Inr ()"
    using read_events_cases [OF evs(1), of env w] fold that
    by (auto simp: replay_def act_bind_def act_of_def ret_def io_error_def)
  with load show ?thesis by blast
qed

section \<open>Whole runs\<close>

text \<open>A run that has not written anything, or keeps its directory, or was cut short.\<close>

definition begun_dir :: "blueprint \<Rightarrow> string \<Rightarrow> run_dir \<Rightarrow> bool" where
  "begun_dir bp rid d \<longleftrightarrow> rd_events d = [] \<and> rd_checkpoint d = None \<or> (\<exists>s. kept bp rid s d) \<or> cut_short bp rid d"

lemma started_recoverable:
  assumes "rd_events d = []" "rd_checkpoint d = None" "\<not> rd_open d"
    and "emit env bp (RunStarted (Some rid) h (bp_id bp) (bp_schema bp) trig)
           (new_run_state rid (bp_id bp)) (d, w) = (r, (d', w'))"
  shows "(\<forall>s. r = Inr s \<longrightarrow> kept bp rid s d') \<and> begun_dir bp rid d'"
proof -
  let ?s = "new_run_state rid (bp_id bp)"
  let ?k = "RunStarted (Some rid) h (bp_id bp) (bp_schema bp) trig"
  obtain ts w1 where ts: "en_now env w = (ts, w1)" by (cases "en_now env w")
  let ?ev = "\<lparr>ev_seq = rs_next_seq ?s, ev_ts = ts, ev_kind = ?k\<rparr>"
  show ?thesis
  proof (cases "apply_event bp ?s ?ev")
    case (Inl f)
    with assms show ?thesis
      by (auto simp: emit_def act_bind_def outside_def act_of_def ts Let_def begun_dir_def)
  next
    case (Inr t)
    have folds: "log_folds bp rid [?ev] t"
      using Inr by (simp add: log_folds_def seqd_def starts_run_def new_run_state_def)
    have R1: "recoverable bp rid t (d\<lparr>rd_events := [Inr ?ev], rd_open := b\<rparr>)" for b
      unfolding recoverable_def using assms(2) folds by (intro exI [of _ "[?ev]"]) simp
    have R2: "recoverable bp rid t (d\<lparr>rd_events := [Inr ?ev], rd_open := b, rd_checkpoint := Some (Inr t)\<rparr>)" for b
      unfolding recoverable_def using folds
      by (intro exI [of _ "[?ev]"] conjI disjI2 exI [of _ 1] exI [of _ t]) (simp_all add: log_folds_def)
    have "begun_dir bp rid (d\<lparr>rd_events := [Inr ?ev], rd_open := b\<rparr>)" for b
      using R1 by (cases b) (auto simp: begun_dir_def kept_def cut_short_def)
    moreover have "begun_dir bp rid (d\<lparr>rd_events := [Inl e], rd_open := True\<rparr>)" for e
      using assms(2) by (auto simp: begun_dir_def cut_short_def broken_tail_def)
    moreover have "begun_dir bp rid d" using assms(1,2) by (simp add: begun_dir_def)
    moreover have "kept bp rid t (d\<lparr>rd_events := [Inr ?ev], rd_open := False, rd_checkpoint := Some (Inr t)\<rparr>)"
      using R2 [of False] by (simp add: kept_def)
    moreover from this have "begun_dir bp rid (d\<lparr>rd_events := [Inr ?ev], rd_open := False, rd_checkpoint := Some (Inr t)\<rparr>)"
      unfolding begun_dir_def by blast
    ultimately show ?thesis
      using emit_cases [OF assms(4,3) ts Inr, unfolded assms(1) append_Nil] by auto
  qed
qed

lemma snapshot_keeps_log:
  "write_blueprint_snapshot env bp (d, w) = (r, (d', w')) \<Longrightarrow>
   rd_events d' = rd_events d \<and> rd_open d' = rd_open d \<and> rd_checkpoint d' = rd_checkpoint d"
  by (auto simp: write_blueprint_snapshot_def act_bind_def get_dir_def io_def outside_def change_dir_def
      ret_def fail_def act_of_def split: option.splits prod.splits sum.splits if_splits)

lemma initialize_recoverable:
  assumes "rd_events d = []" "rd_checkpoint d = None" "\<not> rd_open d"
    and "initialize_with_id env bp rid trig (d, w) = (r, (d', w'))"
  shows "(\<forall>s. r = Inr s \<longrightarrow> kept bp rid s d') \<and> begun_dir bp rid d'"
proof (cases "ensure_valid_blueprint bp")
  case (Inl e)
  with assms show ?thesis by (auto simp: initialize_with_id_def act_bind_def act_of_def begun_dir_def)
next
  case (Inr u)
  obtain q d1 w1 where snap: "write_blueprint_snapshot env bp (d, w) = (q, (d1, w1))"
    by (cases "write_blueprint_snapshot env bp (d, w)") auto
  from snapshot_keeps_log [OF snap] assms have d1: "rd_events d1 = []" "rd_checkpoint d1 = None" "\<not> rd_open d1" by simp_all
  show ?thesis
  proof (cases q)
    case (Inl e)
    with assms(4) Inr snap d1 show ?thesis
      by (auto simp: initialize_with_id_def act_bind_def act_of_def Let_def begun_dir_def)
  next
    case (Inr v)
    with assms(4) snap \<open>ensure_valid_blueprint bp = Inr u\<close>
    have "emit env bp (RunStarted (Some rid) (Some (blueprint_hash env bp)) (bp_id bp) (bp_schema bp) trig)
        (new_run_state rid (bp_id bp)) (d1, w1) = (r, (d', w'))"
      by (simp add: initialize_with_id_def act_bind_def act_of_def Let_def)
    from started_recoverable [OF d1 this] show ?thesis .
  qed
qed

lemma drive_from_state_recoverable:
  assumes "drive_from_state fuel env bp s (d, w) = Some (r, (d', w'))" "kept bp rid s d"
  shows "case r of Inr t \<Rightarrow> kept bp rid t d' | Inl _ \<Rightarrow> cut_short bp rid d' \<or> (\<exists>t. kept bp rid t d')"
proof -
  have "act_bind (act_of (ensure_valid_blueprint bp)) (\<lambda>_. act_of (ensure_blueprint_matches env bp s)) (d, w) =
      (res_bind (ensure_valid_blueprint bp) (\<lambda>_. ensure_blueprint_matches env bp s), (d, w))"
    by (cases "ensure_valid_blueprint bp") (simp_all add: act_bind_def act_of_def)
  with assms(1) consider e where "r = Inl e" "d' = d" | "drive fuel env bp s (d, w) = Some (r, (d', w'))"
    by (auto simp: drive_from_state_def split: sum.splits)
  then show ?thesis
  proof cases
    case (1 e)
    with assms(2) show ?thesis by auto
  next
    case 2
    from recovery.drive_keeps [OF this assms(2)] show ?thesis .
  qed
qed

text \<open>A log whose last line cannot be read: every load fails with the error of that line.\<close>

lemma broken_tail_load:
  assumes "rd_events d = map Inr evs @ [Inl e]"
    and "evs = [] \<and> rd_checkpoint d = None \<or> recoverable bp rid s (d\<lparr>rd_events := map Inr evs, rd_open := False\<rparr>)"
  shows "fst (load_state env bp (d, w)) = Inl (Err e) \<or> io_error (fst (load_state env bp (d, w)))"
proof -
  have "\<exists>c. rd_checkpoint d = map_option Inr c"
    using assms(2) recoverable_fold [of bp rid s "d\<lparr>rd_events := map Inr evs, rd_open := False\<rparr>"]
    by (auto intro: exI [of _ None])
  then obtain c where c: "rd_checkpoint d = map_option Inr c" by blast
  have parse: "parse_lines (rd_events d) = Inl (Err e)"
    unfolding assms(1) by (induction evs) (simp_all add: parse_lines_def)
  have events: "\<exists>f d1 w1. read_events env (d, v) = (Inl f, (d1, w1)) \<and> (f = Err e \<or> (\<exists>msg. f = Err (Io msg)))" for v
    using io_cases [of "en_io env" d v] parse assms(1)
    by (auto simp: read_events_def act_bind_def get_dir_def act_of_def)
  from read_checkpoint_cases [OF c, of env w] show ?thesis
  proof (elim disjE exE)
    fix v assume v: "read_checkpoint env (d, w) = (Inr (map_option normalize_legacy c), (d, v))"
    from events [of v] v show ?thesis by (auto simp: load_state_def act_bind_def io_error_def)
  next
    fix msg v assume "read_checkpoint env (d, w) = (Inl (Err (Io msg)), (d, v))"
    then show ?thesis by (simp add: load_state_def act_bind_def io_error_def)
  qed
qed


end
