(* ===== verification/Engine_Progress.thy ===== *)
theory Engine_Progress
  imports Engine_Recovery
begin

text \<open>
  Progress of the driver: what one round does to the nodes, why a run without loops
  returns after at most one round more than it has nodes and never starts a node twice,
  and that the skips the driver logs are those of the cascade.
\<close>

section \<open>Results of actions\<close>

definition yields :: "('w, 'a) act \<Rightarrow> ('a \<Rightarrow> bool) \<Rightarrow> bool" where
  "yields m Q \<longleftrightarrow> (\<forall>w x w'. m w = (Inr x, w') \<longrightarrow> Q x)"

lemma yieldsD: "yields m Q \<Longrightarrow> m w = (Inr x, w') \<Longrightarrow> Q x"
  unfolding yields_def by blast

lemma yields_mono: "yields m P \<Longrightarrow> (\<And>x. P x \<Longrightarrow> Q x) \<Longrightarrow> yields m Q"
  by (auto simp: yields_def)

lemma yields_ret [simp]: "yields (ret x) Q \<longleftrightarrow> Q x"
  by (auto simp: yields_def ret_def act_of_def)

lemma yields_act_of: "yields (act_of r) Q \<longleftrightarrow> (\<forall>x. r = Inr x \<longrightarrow> Q x)"
  by (auto simp: yields_def act_of_def)

lemma yields_fail [simp]: "yields (fail e) Q"
  by (simp add: fail_def yields_act_of)

lemma yields_bind: "yields m P \<Longrightarrow> (\<And>x. P x \<Longrightarrow> yields (f x) Q) \<Longrightarrow> yields (act_bind m f) Q"
  by (auto simp: yields_def act_bind_def split: prod.splits sum.splits) blast

lemma yields_true: "yields m (\<lambda>_. True)"
  by (simp add: yields_def)

lemma yields_skip: "(\<And>x. yields (f x) Q) \<Longrightarrow> yields (act_bind m f) Q"
  by (rule yields_bind [OF yields_true])

lemma yields_emit:
  "yields (emit env bp k s)
     (\<lambda>t. \<exists>ts. apply_event bp s \<lparr>ev_seq = rs_next_seq s, ev_ts = ts, ev_kind = k\<rparr> = Inr t)"
  unfolding emit_def Let_def
proof (rule yields_skip)
  fix ts
  let ?ev = "\<lparr>ev_seq = rs_next_seq s, ev_ts = ts, ev_kind = k\<rparr>"
  show "yields (act_bind (act_of (apply_event bp s ?ev)) (\<lambda>s'. act_bind (append_event env ?ev)
      (\<lambda>_. act_bind (write_checkpoint env s') (\<lambda>_. ret s'))))
      (\<lambda>t. \<exists>ts. apply_event bp s \<lparr>ev_seq = rs_next_seq s, ev_ts = ts, ev_kind = k\<rparr> = Inr t)"
    by (rule yields_bind [where P = "\<lambda>t. apply_event bp s ?ev = Inr t"])
      (auto simp: yields_act_of intro!: yields_skip)
qed

lemma apply_event_kind:
  "apply_event bp s \<lparr>ev_seq = q, ev_ts = ts, ev_kind = k\<rparr> = Inr t \<longleftrightarrow>
   Suc q < 2 ^ 64 \<and> (\<exists>u. apply_kind bp ts k s = Inr u \<and> t = u\<lparr>rs_next_seq := Suc q\<rparr>)"
  by (auto simp: apply_event_def res_bind_eq_Inr)

lemma yields_emit_kind:
  "(\<And>ts u q. apply_kind bp ts k s = Inr u \<Longrightarrow> Q (u\<lparr>rs_next_seq := q\<rparr>)) \<Longrightarrow> yields (emit env bp k s) Q"
  by (rule yields_mono [OF yields_emit]) (auto simp: apply_event_kind)

section \<open>The logged cascade\<close>

lemma skip_node_seq: "skip_node bp n (s\<lparr>rs_next_seq := q\<rparr>) = (skip_node bp n s)\<lparr>rs_next_seq := q\<rparr>"
  by (simp add: skip_node_def set_node_status_def Let_def)

lemma fold_skip_seq:
  "fold (skip_node bp) ns (s\<lparr>rs_next_seq := q\<rparr>) = (fold (skip_node bp) ns s)\<lparr>rs_next_seq := q\<rparr>"
  by (induction ns arbitrary: s) (simp_all add: skip_node_seq)

lemma yields_skips:
  "yields (emit_all env bp (map NodeSkipped ns) s) (\<lambda>t. \<exists>q. t = (fold (skip_node bp) ns s)\<lparr>rs_next_seq := q\<rparr>)"
proof (induction ns arbitrary: s)
  case Nil
  have "s = s\<lparr>rs_next_seq := rs_next_seq s\<rparr>" by simp
  then show ?case by (simp only: list.map emit_all.simps yields_ret fold_simps) blast
next
  case (Cons n ns)
  have "yields (emit env bp (NodeSkipped n) s) (\<lambda>t. \<exists>q. t = (skip_node bp n s)\<lparr>rs_next_seq := q\<rparr>)"
    by (rule yields_emit_kind) auto
  then show ?case
    unfolding list.map emit_all.simps
  proof (rule yields_bind)
    fix t assume "\<exists>q. t = (skip_node bp n s)\<lparr>rs_next_seq := q\<rparr>"
    then obtain q where t: "t = (skip_node bp n s)\<lparr>rs_next_seq := q\<rparr>" by blast
    show "yields (emit_all env bp (map NodeSkipped ns) t)
        (\<lambda>t. \<exists>q. t = (fold (skip_node bp) (n # ns) s)\<lparr>rs_next_seq := q\<rparr>)"
      by (rule yields_mono [OF Cons.IH]) (auto simp: t fold_skip_seq)
  qed
qed

lemma finalize_nodes:
  "rs_status s = RunRunning \<Longrightarrow> rs_nodes (finalize_if_done bp s) = rs_nodes (cascade_skips bp s) \<and>
     rs_skipped (finalize_if_done bp s) = rs_skipped (cascade_skips bp s)"
  by (simp add: finalize_if_done_def Let_def)

lemma newly_skipped_dead:
  assumes "state_ok s" "rs_status s = RunRunning"
  shows "set (newly_skipped (finalize_if_done bp s) s) = dead bp s"
proof -
  obtain ns where ns: "set ns = dead bp s" "cascade_skips bp s = fold (skip_node bp) ns s"
    using cascade_skips_fold by blast
  let ?m = "rs_nodes (cascade_skips bp s)"
  have m: "bt_wf ?m" "map_of ?m = (\<lambda>i. if i \<in> dead bp s then Some Skipped else map_of (rs_nodes s) i)"
    using assms(1) fold_skip_nodes [of "rs_nodes s" ns] by (simp_all add: ns fold_skip_fields state_ok_def)
  have "i \<in> set (newly_skipped (finalize_if_done bp s) s) \<longleftrightarrow>
      map_of ?m i = Some Skipped \<and> status_or_pending s i \<noteq> Skipped" for i
    using finalize_nodes [OF assms(2), of bp]
    by (force simp: newly_skipped_def in_btree [OF m(1)] image_iff)
  moreover have "map_of (rs_nodes s) i = Some Skipped \<Longrightarrow> status_or_pending s i = Skipped" for i
    by (simp add: status_or_pending_def node_status_of_def)
  ultimately show ?thesis using dead_pending by (auto simp: m(2) split: if_splits)
qed

lemma cascade_skips_status [simp]: "rs_status (cascade_skips bp s) = rs_status s"
  using cascade_skips_fold [of bp s] by (auto simp: fold_skip_fields)

lemma newly_skipped_other: "rs_status s \<noteq> RunRunning \<Longrightarrow> state_ok s \<Longrightarrow> newly_skipped (finalize_if_done bp s) s = []"
  unfolding newly_skipped_def finalize_if_done_def
  by (auto simp: filter_empty_conv status_or_pending_def node_status_of_def in_btree state_ok_def)

text \<open>The driver's skips are the cascade: what it logs leaves the planned nodes and edges.\<close>

lemma yields_planned:
  assumes "state_ok s" "rs_status s = RunRunning"
  shows "yields (emit_all env bp (map NodeSkipped (newly_skipped (finalize_if_done bp s) s)) s)
    (\<lambda>t. \<exists>q. t = (cascade_skips bp s)\<lparr>rs_next_seq := q\<rparr>)"
proof -
  obtain ns where ns: "set ns = dead bp s" "cascade_skips bp s = fold (skip_node bp) ns s"
    using cascade_skips_fold by blast
  have "fold (skip_node bp) (newly_skipped (finalize_if_done bp s) s) s = cascade_skips bp s"
    unfolding ns(2) by (rule fold_skip_order [OF assms(1)]) (simp add: ns(1) newly_skipped_dead assms)
  with yields_skips show ?thesis by metis
qed

lemma finalize_status:
  "rs_status s = RunRunning \<Longrightarrow> rs_status (finalize_if_done bp s) = RunRunning \<or>
     rs_status (finalize_if_done bp s) = RunDone"
  by (simp add: finalize_if_done_def Let_def)

lemma finalize_live:
  assumes "state_ok s" "rs_status s = RunRunning"
    and "finalize_phase env bp s w = (Inr c, w')"
  shows "rs_nodes (control_state c) = rs_nodes (finalize_if_done bp s) \<and>
    rs_skipped (control_state c) = rs_skipped (finalize_if_done bp s) \<and>
    rs_status (control_state c) = rs_status (finalize_if_done bp s) \<and>
    ((\<exists>t. c = Leave t) \<longleftrightarrow> rs_status (finalize_if_done bp s) = RunDone)"
proof -
  let ?fin = "finalize_if_done bp s"
  let ?good = "\<lambda>c. rs_nodes (control_state c) = rs_nodes ?fin \<and>
    rs_skipped (control_state c) = rs_skipped ?fin \<and> rs_status (control_state c) = rs_status ?fin \<and>
    ((\<exists>t. c = Leave t) \<longleftrightarrow> rs_status ?fin = RunDone)"
  have status: "rs_status ?fin = RunRunning \<or> rs_status ?fin = RunDone"
    using assms(2) by (simp add: finalize_if_done_def Let_def)
  have "yields (finalize_phase env bp s) ?good"
    unfolding finalize_phase_def Let_def
  proof (rule yields_bind [OF yields_planned [OF assms(1,2)]], rule yields_skip)
    fix t u
    assume "\<exists>q. t = (cascade_skips bp s)\<lparr>rs_next_seq := q\<rparr>"
    then obtain q where t0: "t = (cascade_skips bp s)\<lparr>rs_next_seq := q\<rparr>" by blast
    have t: "rs_nodes t = rs_nodes ?fin" "rs_skipped t = rs_skipped ?fin" "rs_status t = RunRunning"
      by (simp_all add: t0 finalize_nodes [OF assms(2)] assms(2))
    have complete: "yields (act_bind (emit env bp RunCompleted t) (\<lambda>s2. ret (Leave s2))) ?good"
      if fin: "rs_status ?fin = RunDone"
    proof (rule yields_bind [where P = "\<lambda>x. ?good (Leave x)"])
      show "yields (emit env bp RunCompleted t) (\<lambda>x. ?good (Leave x))"
      proof (rule yields_emit_kind)
        fix ts u q assume "apply_kind bp ts RunCompleted t = Inr u"
        then have u: "u = t\<lparr>rs_status := RunDone\<rparr>" by simp
        show "?good (Leave (u\<lparr>rs_next_seq := q\<rparr>))" by (simp add: u t(1,2) fin)
      qed
    qed simp
    show "yields (if rs_status ?fin \<noteq> RunRunning
        then if rs_status ?fin = RunDone then act_bind (emit env bp RunCompleted t) (\<lambda>s2. ret (Leave s2))
          else ret (Leave t) else ret (Proceed t)) ?good"
    proof (cases "rs_status ?fin = RunDone")
      case True
      with complete show ?thesis by (simp only: True if_True run_status.distinct simp_thms)
    next
      case False
      with status have "rs_status ?fin = RunRunning" by simp
      with t show ?thesis by simp
    qed
  qed
  from yieldsD [OF this assms(3)] show ?thesis .
qed

lemma newly_skipped_distinct:
  assumes "state_ok s" "rs_status s = RunRunning"
  shows "distinct (newly_skipped (finalize_if_done bp s) s)"
proof -
  obtain ns where ns: "cascade_skips bp s = fold (skip_node bp) ns s"
    using cascade_skips_fold by blast
  have "bt_wf (rs_nodes (cascade_skips bp s))"
    using assms(1) fold_skip_nodes [of "rs_nodes s" ns] by (simp add: ns fold_skip_fields state_ok_def)
  then show ?thesis
    using finalize_nodes [OF assms(2), of bp] by (simp add: newly_skipped_def distinct_map_filter bt_wf_distinct)
qed

lemma write_checkpoint_Inr:
  "write_checkpoint env s (d, w) = (Inr u, dw') \<Longrightarrow> \<exists>w'. dw' = (d\<lparr>rd_checkpoint := Some (Inr s)\<rparr>, w')"
  by (auto simp: write_checkpoint_def act_bind_Inr change_dir_def dest!: io_Inr)

lemma finalize_logged:
  assumes "rs_status s = RunRunning" "\<not> rd_open d"
    and "finalize_phase env bp s (d, w) = (Inr c, (d', w'))"
  shows "rd_checkpoint d' = Some (Inr (control_state c)) \<and> \<not> rd_open d' \<and>
    (\<exists>evs. rd_events d' = rd_events d @ map Inr evs \<and>
       map ev_kind evs = map NodeSkipped (newly_skipped (finalize_if_done bp s) s) @
         (if rs_status (finalize_if_done bp s) = RunDone then [RunCompleted] else []) \<and>
       map ev_seq evs = [rs_next_seq s..<rs_next_seq s + length evs] \<and>
       run_steps (apply_event bp) s evs = Inr (control_state c))"
proof -
  let ?skips = "newly_skipped (finalize_if_done bp s) s"
  from finalize_status [OF assms(1)] have status:
    "rs_status (finalize_if_done bp s) \<noteq> RunRunning \<longleftrightarrow> rs_status (finalize_if_done bp s) = RunDone" by auto
  from assms(3) [unfolded finalize_phase_def Let_def act_bind_Inr] obtain t dw1 u dw2 where
    skips: "emit_all env bp (map NodeSkipped ?skips) s (d, w) = (Inr t, dw1)"
    and saved: "write_checkpoint env t dw1 = (Inr u, dw2)"
    and run: "(if rs_status (finalize_if_done bp s) \<noteq> RunRunning
        then if rs_status (finalize_if_done bp s) = RunDone
          then act_bind (emit env bp RunCompleted t) (\<lambda>s2. ret (Leave s2)) else ret (Leave t)
        else ret (Proceed t)) dw2 = (Inr c, (d', w'))" by blast
  obtain d1 w1 where dw1: "dw1 = (d1, w1)" by (cases dw1)
  from saved obtain w2 where "dw2 = (d1\<lparr>rd_checkpoint := Some (Inr t)\<rparr>, w2)"
    by (auto simp: dw1 dest: write_checkpoint_Inr)
  with run have rest: "(if rs_status (finalize_if_done bp s) = RunDone
        then act_bind (emit env bp RunCompleted t) (\<lambda>s2. ret (Leave s2)) else ret (Proceed t))
        (d1\<lparr>rd_checkpoint := Some (Inr t)\<rparr>, w2) = (Inr c, (d', w'))"
    unfolding status by (simp split: if_splits)
  from emit_all_Inr [OF skips [unfolded dw1] assms(2)] obtain evs where
    evs: "map ev_kind evs = map NodeSkipped ?skips" "map ev_seq evs = [rs_next_seq s..<rs_next_seq s + length ?skips]"
      "run_steps (apply_event bp) s evs = Inr t" "rd_events d1 = rd_events d @ map Inr evs" "\<not> rd_open d1" by auto
  have len: "length evs = length ?skips" using evs(1) by (metis length_map)
  show ?thesis
  proof (cases "rs_status (finalize_if_done bp s) = RunDone")
    case False
    with rest have "c = Proceed t" "d' = d1\<lparr>rd_checkpoint := Some (Inr t)\<rparr>"
      by (simp_all add: ret_def act_of_def)
    with evs len False show ?thesis by (intro conjI exI [of _ evs]) simp_all
  next
    case True
    with rest obtain u where u: "emit env bp RunCompleted t (d1\<lparr>rd_checkpoint := Some (Inr t)\<rparr>, w2) = (Inr u, (d', w'))"
      and c: "c = Leave u" by (auto simp: act_bind_Inr ret_def act_of_Inr)
    have seq: "rs_next_seq t = rs_next_seq s + length evs"
      using run_steps_seq [OF evs(3)] evs(2) [folded len] by (cases evs rule: rev_cases) auto
    from emit_Inr [OF u] evs(5) obtain ts where
      ap: "apply_event bp t \<lparr>ev_seq = rs_next_seq t, ev_ts = ts, ev_kind = RunCompleted\<rparr> = Inr u"
      and d': "rd_events d' = rd_events d1 @ [Inr \<lparr>ev_seq = rs_next_seq t, ev_ts = ts, ev_kind = RunCompleted\<rparr>]"
        "\<not> rd_open d'" "rd_checkpoint d' = Some (Inr u)" by auto
    let ?evs = "evs @ [\<lparr>ev_seq = rs_next_seq t, ev_ts = ts, ev_kind = RunCompleted\<rparr>]"
    have "run_steps (apply_event bp) s ?evs = Inr u" using evs(3) ap by (simp add: run_steps_append)
    then show ?thesis
      using evs len c d' seq True by (intro conjI exI [of _ ?evs]) simp_all
  qed
qed

text \<open>
  C5. Finalization is persisted exactly as planned. The driver plans the skips on a copy of
  the state. In a log whose last line is whole a finalization that goes through appends one
  event for each node the plan skips, each once and in the order of the plan, and the
  completion of the run when and only when the plan completes it, numbered on from the
  state; the live state the driver goes on with is the fold of exactly these events and the
  one in the checkpoint, and has the planned nodes, edges and status.
\<close>

theorem finalize_phase_as_planned:
  assumes "state_ok s" "rs_status s = RunRunning" "\<not> rd_open d"
    and "finalize_phase env bp s (d, w) = (Inr c, (d', w'))"
  shows "rs_nodes (control_state c) = rs_nodes (finalize_if_done bp s) \<and>
    rs_skipped (control_state c) = rs_skipped (finalize_if_done bp s) \<and>
    rs_status (control_state c) = rs_status (finalize_if_done bp s) \<and>
    ((\<exists>t. c = Leave t) \<longleftrightarrow> rs_status (finalize_if_done bp s) = RunDone) \<and>
    set (newly_skipped (finalize_if_done bp s) s) = dead bp s \<and>
    distinct (newly_skipped (finalize_if_done bp s) s) \<and>
    rd_checkpoint d' = Some (Inr (control_state c)) \<and> \<not> rd_open d' \<and>
    (\<exists>evs. rd_events d' = rd_events d @ map Inr evs \<and>
       map ev_kind evs = map NodeSkipped (newly_skipped (finalize_if_done bp s) s) @
         (if rs_status (finalize_if_done bp s) = RunDone then [RunCompleted] else []) \<and>
       map ev_seq evs = [rs_next_seq s..<rs_next_seq s + length evs] \<and>
       run_steps (apply_event bp) s evs = Inr (control_state c))"
proof -
  have "set (newly_skipped (finalize_if_done bp s) s) = dead bp s \<and> distinct (newly_skipped (finalize_if_done bp s) s)"
    using newly_skipped_dead [OF assms(1,2)] newly_skipped_distinct [OF assms(1,2)] by simp
  with finalize_live [OF assms(1,2,4)] finalize_logged [OF assms(2,3,4)] show ?thesis by blast
qed

section \<open>Settled runs\<close>

text \<open>
  In a run without loops an edge is resolved only by a source that has completed or was
  skipped, and a node leaves the pending state only with all its inbound edges resolved.
\<close>

definition edge_resolved :: "blueprint \<Rightarrow> run_state \<Rightarrow> nat \<Rightarrow> bool" where
  "edge_resolved bp s e \<longleftrightarrow> e \<in> delivered_to s (ed_to (bp_edges bp ! e)) \<or> e \<in> rs_skipped s"

definition ready :: "blueprint \<Rightarrow> run_state \<Rightarrow> string \<Rightarrow> bool" where
  "ready bp s i \<longleftrightarrow> (\<forall>e \<in> set (inbound bp i). edge_resolved bp s e)"

definition settled :: "blueprint \<Rightarrow> run_state \<Rightarrow> bool" where
  "settled bp s \<longleftrightarrow> run_ok bp s \<and>
     (\<forall>e < length (bp_edges bp). edge_resolved bp s e \<longrightarrow>
        status_or_pending s (ed_from (bp_edges bp ! e)) \<in> {Completed, Skipped}) \<and>
     (\<forall>i. status_or_pending s i \<noteq> Pending \<longrightarrow> ready bp s i)"

definition active :: "blueprint \<Rightarrow> run_state \<Rightarrow> string \<Rightarrow> bool" where
  "active bp s i \<longleftrightarrow> settled bp s \<and> status_or_pending s i \<in> {Pending, Running} \<and> ready bp s i"

text \<open>Node \<open>i\<close> moves and no other does.\<close>

definition moves :: "blueprint \<Rightarrow> run_state \<Rightarrow> string \<Rightarrow> run_state \<Rightarrow> bool" where
  "moves bp s i t \<longleftrightarrow> settled bp t \<and> status_or_pending t i \<noteq> Pending \<and>
     (\<forall>m. m \<noteq> i \<longrightarrow> status_or_pending t m = status_or_pending s m) \<and>
     (\<forall>e. edge_resolved bp s e \<longrightarrow> edge_resolved bp t e)"

definition same_flow :: "run_state \<Rightarrow> run_state \<Rightarrow> bool" where
  "same_flow s t \<longleftrightarrow> rs_nodes t = rs_nodes s \<and> rs_delivered t = rs_delivered s \<and>
     rs_skipped t = rs_skipped s"

lemma same_flow_refl [simp]: "same_flow s s"
  by (simp add: same_flow_def)

lemma same_flow_facts:
  assumes "same_flow s t"
  shows "status_or_pending t i = status_or_pending s i" "edge_resolved bp t e = edge_resolved bp s e"
    "ready bp t i = ready bp s i"
  using assms by (simp_all add: same_flow_def status_or_pending_def node_status_of_def
      edge_resolved_def delivered_to_def ready_def)

lemma settled_same_flow: "same_flow s t \<Longrightarrow> run_ok bp t \<Longrightarrow> settled bp s \<Longrightarrow> settled bp t"
  by (simp add: settled_def same_flow_facts)

lemma active_same_flow: "same_flow s t \<Longrightarrow> run_ok bp t \<Longrightarrow> active bp s i \<Longrightarrow> active bp t i"
  by (simp add: active_def same_flow_facts settled_same_flow)

lemma moves_same_flow: "same_flow s s' \<Longrightarrow> moves bp s' i t \<Longrightarrow> moves bp s i t"
  by (simp add: moves_def same_flow_facts)

lemma moves_trans: "moves bp s i t \<Longrightarrow> moves bp t i u \<Longrightarrow> moves bp s i u"
  by (simp add: moves_def)

lemma active_outbound_open:
  "active bp s i \<Longrightarrow> e < length (bp_edges bp) \<Longrightarrow> ed_from (bp_edges bp ! e) = i \<Longrightarrow> \<not> edge_resolved bp s e"
  by (auto simp: active_def settled_def)

text \<open>A node that keeps its outbound edges open, and one that settles them all.\<close>

lemma moves_hold:
  assumes "active bp s i" "run_ok bp t" "\<And>e. edge_resolved bp t e = edge_resolved bp s e"
    and "\<And>m. status_or_pending t m = (if m = i then x else status_or_pending s m)" "x \<noteq> Pending"
  shows "moves bp s i t"
proof -
  have "status_or_pending t (ed_from (bp_edges bp ! e)) \<in> {Completed, Skipped}"
    if "e < length (bp_edges bp)" "edge_resolved bp t e" for e
    using that assms(1) active_outbound_open [OF assms(1) that(1)] assms(3,4)
    by (auto simp: active_def settled_def)
  moreover have "ready bp t m" if "status_or_pending t m \<noteq> Pending" for m
    using that assms(1,3,4) by (auto simp: ready_def active_def settled_def split: if_splits)
  ultimately show ?thesis using assms(2-5) by (simp add: moves_def settled_def)
qed

lemma moves_settle:
  assumes "active bp s i" "run_ok bp t"
    and "\<And>e. edge_resolved bp t e \<longleftrightarrow> edge_resolved bp s e \<or>
           e < length (bp_edges bp) \<and> ed_from (bp_edges bp ! e) = i"
    and "\<And>m. status_or_pending t m = (if m = i then x else status_or_pending s m)"
    and "x \<in> {Completed, Skipped}"
  shows "moves bp s i t"
proof -
  have "status_or_pending t (ed_from (bp_edges bp ! e)) \<in> {Completed, Skipped}"
    if "e < length (bp_edges bp)" "edge_resolved bp t e" for e
    using that assms(1,3,4,5) by (auto simp: active_def settled_def)
  moreover have "ready bp t m" if "status_or_pending t m \<noteq> Pending" for m
    using that assms(1,3,4) by (auto simp: ready_def active_def settled_def split: if_splits)
  ultimately show ?thesis using assms(2-5) by (auto simp: moves_def settled_def)
qed

lemma edge_resolved_fields [simp]:
  "edge_resolved bp (s\<lparr>rs_status := a\<rparr>) e = edge_resolved bp s e"
  "edge_resolved bp (s\<lparr>rs_next_seq := b\<rparr>) e = edge_resolved bp s e"
  "edge_resolved bp (s\<lparr>rs_failure := c\<rparr>) e = edge_resolved bp s e"
  "edge_resolved bp (s\<lparr>rs_registry := d\<rparr>) e = edge_resolved bp s e"
  "edge_resolved bp (set_node_status i st s) e = edge_resolved bp s e"
  by (simp_all add: edge_resolved_def)

text \<open>Completing an active node delivers or marks its outbound edges and wakes nobody.\<close>

lemma moves_deliver:
  assumes "active bp s i" "same_flow s u" "run_ok bp u"
  shows "moves bp s i (deliver_from_port bp i port (set_node_status i Completed u))"
proof (rule moves_settle [OF assms(1)])
  let ?v = "set_node_status i Completed u"
  let ?t = "deliver_from_port bp i port ?v"
  show "run_ok bp ?t" using assms(3) by auto
  show "edge_resolved bp ?t e \<longleftrightarrow> edge_resolved bp s e \<or>
      e < length (bp_edges bp) \<and> ed_from (bp_edges bp ! e) = i" for e
    using same_flow_facts(2) [OF assms(2), of bp e]
    by (auto simp: edge_resolved_def deliver_from_port_exact set_node_status_def [symmetric])
  show "status_or_pending ?t m = (if m = i then Completed else status_or_pending s m)" for m
  proof -
    have "status_or_pending ?v m \<noteq> Skipped"
      if e: "e \<in> set (outbound bp i)" "ed_to (bp_edges bp ! e) = m" for e
    proof
      assume skipped: "status_or_pending ?v m = Skipped"
      then have "m \<noteq> i" "status_or_pending s m = Skipped"
        using same_flow_facts(1) [OF assms(2)] by (auto split: if_splits)
      with assms(1) have "ready bp s m" by (auto simp: active_def settled_def)
      with e have "edge_resolved bp s e" by (simp add: ready_def)
      with active_outbound_open [OF assms(1)] e(1) show False by simp
    qed
    then have "\<not> (status_or_pending ?v m = Skipped \<and> (\<exists>e \<in> set (outbound bp i).
        ed_from_port (bp_edges bp ! e) = port \<and> ed_to (bp_edges bp ! e) = m))" by blast
    then have "status_or_pending ?t m = status_or_pending ?v m"
      unfolding deliver_from_port_exact by (rule if_not_P)
    then show ?thesis using same_flow_facts(1) [OF assms(2)] by simp
  qed
qed simp

lemma moves_skip:
  assumes "active bp s i"
  shows "moves bp s i (skip_node bp i s)"
proof (rule moves_settle [OF assms, where x = Skipped])
  show "run_ok bp (skip_node bp i s)" using assms by (auto simp: active_def settled_def)
  show "edge_resolved bp (skip_node bp i s) e \<longleftrightarrow> edge_resolved bp s e \<or>
      e < length (bp_edges bp) \<and> ed_from (bp_edges bp ! e) = i" for e
    by (auto simp: edge_resolved_def delivered_to_def)
qed simp_all

section \<open>What the events of the driver do to a settled run\<close>

lemma yields_emit_ok:
  assumes "run_ok bp s"
    and "\<And>ts u q. apply_kind bp ts k s = Inr u \<Longrightarrow> run_ok bp (u\<lparr>rs_next_seq := q\<rparr>) \<Longrightarrow>
           Q (u\<lparr>rs_next_seq := q\<rparr>)"
  shows "yields (emit env bp k s) Q"
proof (rule yields_emit_kind)
  fix ts u q assume u: "apply_kind bp ts k s = Inr u"
  with apply_kind_ok [OF assms(1)] have "run_ok bp u" by simp
  with assms(2) [OF u] show "Q (u\<lparr>rs_next_seq := q\<rparr>)" by simp
qed

lemma active_ok: "active bp s i \<Longrightarrow> run_ok bp s"
  by (simp add: active_def settled_def)

lemma same_flow_seq [simp]: "same_flow s (t\<lparr>rs_next_seq := q\<rparr>) = same_flow s t"
  by (simp add: same_flow_def)

lemma moves_seq [simp]: "moves bp s i (t\<lparr>rs_next_seq := q\<rparr>) = moves bp s i t"
  by (simp add: moves_def settled_def ready_def)

lemma yields_started:
  assumes "active bp s i"
  shows "yields (emit env bp (NodeStarted i) s) (\<lambda>t. moves bp s i t \<and> active bp t i)"
proof (rule yields_emit_ok [OF active_ok [OF assms]])
  fix ts u q assume "apply_kind bp ts (NodeStarted i) s = Inr u"
  then have u: "u = set_node_status i Running s" by simp
  have "moves bp s i u"
    by (rule moves_hold [OF assms, where x = Running]) (use active_ok [OF assms] in \<open>auto simp: u\<close>)
  moreover have "status_or_pending u i = Running" "ready bp u i"
    using assms by (auto simp: u active_def ready_def)
  ultimately show "moves bp s i (u\<lparr>rs_next_seq := q\<rparr>) \<and> active bp (u\<lparr>rs_next_seq := q\<rparr>) i"
    by (simp add: active_def moves_def settled_def ready_def)
qed

lemma yields_failed:
  assumes "active bp s i"
  shows "yields (emit env bp (NodeFailed i err) s) (moves bp s i)"
proof (rule yields_emit_ok [OF active_ok [OF assms]])
  fix ts u q assume "apply_kind bp ts (NodeFailed i err) s = Inr u" and ok: "run_ok bp (u\<lparr>rs_next_seq := q\<rparr>)"
  then have u: "u = (set_node_status i Failed s)\<lparr>rs_status := RunBroken, rs_failure := Some (i @ '': '' @ err)\<rparr>"
    by simp
  show "moves bp s i (u\<lparr>rs_next_seq := q\<rparr>)"
    by (rule moves_hold [OF assms ok, where x = Failed]) (simp_all add: u)
qed

lemma yields_awaiting:
  assumes "active bp s i"
  shows "yields (emit env bp (AwaitingApproval i) s) (moves bp s i)"
proof (rule yields_emit_ok [OF active_ok [OF assms]])
  fix ts u q assume "apply_kind bp ts (AwaitingApproval i) s = Inr u" and ok: "run_ok bp (u\<lparr>rs_next_seq := q\<rparr>)"
  then have u: "u = (set_node_status i Running s)\<lparr>rs_status := RunAwaiting\<rparr>" by simp
  show "moves bp s i (u\<lparr>rs_next_seq := q\<rparr>)"
    by (rule moves_hold [OF assms ok, where x = Running]) (simp_all add: u)
qed

lemma same_flow_write: "write_registry p v s = Inr t \<Longrightarrow> same_flow s t"
  by (auto simp: write_registry_def same_flow_def split: option.splits)

lemma yields_completed:
  assumes "active bp s i"
  shows "yields (emit env bp (NodeCompleted i out) s) (moves bp s i)"
proof (rule yields_emit_ok [OF active_ok [OF assms]])
  fix ts u q assume run: "apply_kind bp ts (NodeCompleted i out) s = Inr u"
    and ok: "run_ok bp (u\<lparr>rs_next_seq := q\<rparr>)"
  from run obtain v where v: "set_node_output i out s = Inr v"
    and u: "u = (if (case find_node bp i of None \<Rightarrow> True | Some nd \<Rightarrow> nd_type nd \<noteq> ''decision'')
       then deliver_from_port bp i ''out'' (set_node_status i Completed v) else set_node_status i Completed v)"
    by (auto simp: res_bind_eq_Inr Let_def)
  have flow: "same_flow s v" using v unfolding set_node_output_def by (rule same_flow_write)
  have "run_ok bp v" using safe_result_output [OF active_ok [OF assms], of i out] v by simp
  note deliver = moves_deliver [OF assms flow this, of "''out''"]
  have "moves bp s i (set_node_status i Completed v)"
    by (rule moves_hold [OF assms, where x = Completed])
      (use \<open>run_ok bp v\<close> same_flow_facts [OF flow] in auto)
  with deliver show "moves bp s i (u\<lparr>rs_next_seq := q\<rparr>)" by (simp add: u)
qed

lemma yields_decided:
  assumes "active bp s i"
  shows "yields (emit env bp (DecisionCompleted i out port) s) (moves bp s i)"
proof (rule yields_emit_ok [OF active_ok [OF assms]])
  fix ts u q assume run: "apply_kind bp ts (DecisionCompleted i out port) s = Inr u"
  then obtain v where v: "set_node_output i out s = Inr v"
    and u: "u = deliver_from_port bp i port (set_node_status i Completed v)"
    by (auto simp: res_bind_eq_Inr)
  have flow: "same_flow s v" using v unfolding set_node_output_def by (rule same_flow_write)
  have "run_ok bp v" using safe_result_output [OF active_ok [OF assms], of i out] v by simp
  from moves_deliver [OF assms flow this] show "moves bp s i (u\<lparr>rs_next_seq := q\<rparr>)" by (simp add: u)
qed

lemma yields_branched:
  assumes "active bp s i"
  shows "yields (emit env bp (BranchTaken i port) s) (moves bp s i)"
  by (rule yields_emit_ok [OF active_ok [OF assms]])
    (use moves_deliver [OF assms, of s port] active_ok [OF assms] in \<open>auto simp: same_flow_def\<close>)

lemma yields_skipped:
  assumes "active bp s i"
  shows "yields (emit env bp (NodeSkipped i) s) (moves bp s i)"
  by (rule yields_emit_ok [OF active_ok [OF assms]]) (use moves_skip [OF assms] in auto)

lemma yields_quiet:
  assumes "run_ok bp s" "k = StateUpdated i op entries \<or> k = Notification i msg \<or>
      k = MessageSendPrepared i a b \<or> k = RunFailed msg \<or> k = RunCompleted"
  shows "yields (emit env bp k s) (\<lambda>t. same_flow s t \<and> run_ok bp t)"
proof (rule yields_emit_ok [OF assms(1)])
  fix ts u q assume u: "apply_kind bp ts k s = Inr u" and ok: "run_ok bp (u\<lparr>rs_next_seq := q\<rparr>)"
  have "same_flow s u"
    using assms(2) u
    by (elim disjE) (auto simp: apply_state_update_def apply_message_prepared_def Let_def same_flow_def
        dest: same_flow_write split: option.splits if_splits)
  with ok show "same_flow s (u\<lparr>rs_next_seq := q\<rparr>) \<and> run_ok bp (u\<lparr>rs_next_seq := q\<rparr>)" by simp
qed

section \<open>Dispatch\<close>

lemma yields_both: "yields m P \<Longrightarrow> yields m Q \<Longrightarrow> yields m (\<lambda>x. P x \<and> Q x)"
  by (auto simp: yields_def)

lemma yields_moves_trans:
  "yields m (moves bp t i) \<Longrightarrow> moves bp s i t \<Longrightarrow> yields m (moves bp s i)"
  by (erule yields_mono, erule moves_trans)

lemma yields_notified:
  "run_ok bp t \<Longrightarrow> yields (case n of None \<Rightarrow> ret t | Some msg \<Rightarrow> emit env bp (Notification i msg) t)
     (\<lambda>u. same_flow t u \<and> run_ok bp u)"
  by (cases n) (auto intro: yields_quiet)

lemma yields_updated:
  "run_ok bp t \<Longrightarrow> yields (case u of None \<Rightarrow> ret t
       | Some (op, entries) \<Rightarrow> emit env bp (StateUpdated i op entries) t)
     (\<lambda>u. same_flow t u \<and> run_ok bp u)"
  by (cases u) (auto intro: yields_quiet)

lemma dispatch_state_moves:
  assumes "active bp s (nd_id nd)"
  shows "yields (dispatch_state env bp nd s) (moves bp s (nd_id nd))"
  unfolding dispatch_state_def
proof (rule yields_bind [OF yields_started [OF assms]])
  let ?i = "nd_id nd"
  fix t assume t: "moves bp s ?i t \<and> active bp t ?i"
  show "yields (case execute_state env t nd of
       Inr (out, update) \<Rightarrow>
         act_bind (case update of None \<Rightarrow> ret t
           | Some (op, entries) \<Rightarrow> emit env bp (StateUpdated ?i op entries) t)
         (\<lambda>s2. emit env bp (NodeCompleted ?i out) s2)
     | Inl e \<Rightarrow> emit env bp (NodeFailed ?i e) t) (moves bp s ?i)"
  proof (cases "execute_state env t nd")
    case (Inl e)
    with t show ?thesis by (simp add: yields_moves_trans [OF yields_failed])
  next
    case (Inr p)
    obtain out update where p: "p = (out, update)" by (cases p)
    have "yields (act_bind (case update of None \<Rightarrow> ret t
           | Some (op, entries) \<Rightarrow> emit env bp (StateUpdated ?i op entries) t)
         (\<lambda>s2. emit env bp (NodeCompleted ?i out) s2)) (moves bp t ?i)"
    proof (rule yields_bind [where P = "\<lambda>u. same_flow t u \<and> run_ok bp u"])
      show "yields (case update of None \<Rightarrow> ret t
           | Some (op, entries) \<Rightarrow> emit env bp (StateUpdated ?i op entries) t)
         (\<lambda>u. same_flow t u \<and> run_ok bp u)"
        by (rule yields_updated) (use t active_ok in blast)
    next
      fix u assume u: "same_flow t u \<and> run_ok bp u"
      then have "active bp u ?i" using t by (auto intro: active_same_flow)
      from yields_mono [OF yields_completed [OF this]] u
      show "yields (emit env bp (NodeCompleted ?i out) u) (moves bp t ?i)"
        by (blast intro: moves_same_flow)
    qed
    with t show ?thesis by (simp add: Inr p yields_moves_trans)
  qed
qed

lemma dispatch_effect_moves:
  assumes "active bp s (nd_id nd)"
  shows "yields (dispatch_effect env bp nd s) (moves bp s (nd_id nd))"
  unfolding dispatch_effect_def
proof (rule yields_bind [OF yields_started [OF assms]], rule yields_skip)
  let ?i = "nd_id nd"
  fix t r assume t: "moves bp s ?i t \<and> active bp t ?i"
  let ?settle = "\<lambda>st :: executed_step. act_bind (case es_notification st of None \<Rightarrow> ret t
           | Some msg \<Rightarrow> emit env bp (Notification ?i msg) t)
         (\<lambda>s2. case es_chosen_port st of
             Some port \<Rightarrow> emit env bp (DecisionCompleted ?i (es_output st) port) s2
           | None \<Rightarrow> emit env bp (NodeCompleted ?i (es_output st)) s2)"
  have "yields (?settle st) (moves bp t ?i)" for st
  proof (rule yields_bind [where P = "\<lambda>u. same_flow t u \<and> run_ok bp u"])
    show "yields (case es_notification st of None \<Rightarrow> ret t
           | Some msg \<Rightarrow> emit env bp (Notification ?i msg) t) (\<lambda>u. same_flow t u \<and> run_ok bp u)"
      by (rule yields_notified) (use t active_ok in blast)
  next
    fix u assume u: "same_flow t u \<and> run_ok bp u"
    then have act: "active bp u ?i" using t by (auto intro: active_same_flow)
    have "yields (case es_chosen_port st of
             Some port \<Rightarrow> emit env bp (DecisionCompleted ?i (es_output st) port) u
           | None \<Rightarrow> emit env bp (NodeCompleted ?i (es_output st)) u) (moves bp u ?i)"
      by (auto split: option.split intro: yields_completed [OF act] yields_decided [OF act])
    with u show "yields (case es_chosen_port st of
             Some port \<Rightarrow> emit env bp (DecisionCompleted ?i (es_output st) port) u
           | None \<Rightarrow> emit env bp (NodeCompleted ?i (es_output st)) u) (moves bp t ?i)"
      by (blast intro: yields_mono moves_same_flow)
  qed
  then have "yields (?settle st) (moves bp s ?i)" for st
    using t by (blast intro: yields_moves_trans)
  moreover have "yields (emit env bp (NodeSkipped ?i) t) (moves bp s ?i)"
    "yields (emit env bp (NodeFailed ?i e) t) (moves bp s ?i)" for e
    using t by (blast intro: yields_moves_trans yields_skipped yields_failed)+
  ultimately show "yields (case r of Inr st \<Rightarrow> ?settle st
     | Inl e \<Rightarrow> if skipped_reason e \<noteq> None then emit env bp (NodeSkipped ?i) t
         else emit env bp (NodeFailed ?i e) t) (moves bp s ?i)"
    by (auto split: sum.split)
qed

definition loop_free :: "blueprint \<Rightarrow> bool" where
  "loop_free bp \<longleftrightarrow> list_all (\<lambda>nd. nd_type nd \<noteq> ''loop'') (bp_nodes bp)"

lemma dispatch_moves:
  assumes "active bp s i" "loop_free bp"
  shows "yields (dispatch env bp i s) (moves bp s i)"
proof (cases "find_node bp i")
  case None
  then show ?thesis by (simp add: dispatch_def)
next
  case (Some nd)
  then have i: "nd_id nd = i" "nd \<in> set (bp_nodes bp)" using find_node_Some by auto
  then have type: "nd_type nd \<noteq> ''loop''" using assms(2) by (auto simp: loop_free_def list_all_iff)
  note act = assms(1) [folded i(1)]
  have "yields (dispatch env bp i s) (moves bp s (nd_id nd))"
    unfolding dispatch_def Some option.case
    using type
    by (auto split: sum.split intro: yields_failed [OF act] yields_completed [OF act]
        yields_awaiting [OF act] yields_branched [OF act] dispatch_state_moves [OF act]
        dispatch_effect_moves [OF act])
  then show ?thesis by (simp only: i(1))
qed

lemma yields_then:
  assumes "yields m (\<lambda>c. case c of Leave _ \<Rightarrow> True | Proceed t \<Rightarrow> P t)"
    and "\<And>t. P t \<Longrightarrow> yields (f t) (\<lambda>c. case c of Leave _ \<Rightarrow> True | Proceed u \<Rightarrow> Q u)"
  shows "yields (then_do m f) (\<lambda>c. case c of Leave _ \<Rightarrow> True | Proceed u \<Rightarrow> Q u)"
  unfolding then_do_def
  by (rule yields_bind [OF assms(1)]) (auto split: control.splits intro: assms(2))

abbreviation proceeds :: "(run_state \<Rightarrow> bool) \<Rightarrow> run_state control \<Rightarrow> bool" where
  "proceeds P c \<equiv> (case c of Leave _ \<Rightarrow> True | Proceed t \<Rightarrow> P t)"

lemma after_dispatch_same: "yields (after_dispatch env bp s) (proceeds (\<lambda>t. t = s))"
  unfolding after_dispatch_def by (auto intro!: yields_skip)

lemma check_cancel_same: "yields (check_cancel env bp s) (proceeds (\<lambda>t. t = s))"
  unfolding check_cancel_def by (auto intro!: yields_skip split: run_status.split)

lemma loops_phase_same:
  assumes "loop_free bp"
  shows "yields (loops_phase env bp s) (proceeds (\<lambda>t. t = s))"
proof -
  have "running_loops bp s = []"
    using assms by (auto simp: running_loops_def loop_free_def list_all_iff filter_empty_conv)
  then show ?thesis by (simp add: loops_phase_def advance_loops_def)
qed

lemma dispatch_all_moves:
  assumes "loop_free bp" "settled bp s" "distinct is"
    and "\<forall>i \<in> set is. status_or_pending s i = Pending \<and> ready bp s i"
  shows "yields (dispatch_all env bp is s) (proceeds (\<lambda>t. settled bp t \<and>
    (\<forall>m. status_or_pending t m = Pending \<longleftrightarrow> status_or_pending s m = Pending \<and> m \<notin> set is)))"
  using assms(2-4)
proof (induction "is" arbitrary: s)
  case Nil
  then show ?case by simp
next
  case (Cons i "is")
  then have act: "active bp s i" by (simp add: active_def)
  have "yields (act_bind (dispatch env bp i s) (after_dispatch env bp)) (proceeds (moves bp s i))"
    by (rule yields_bind [OF dispatch_moves [OF act assms(1)]], rule yields_mono [OF after_dispatch_same])
      (auto split: control.splits)
  then show ?case
    unfolding dispatch_all.simps
  proof (rule yields_then)
    fix t assume t: "moves bp s i t"
    have ready: "status_or_pending t j = Pending \<and> ready bp t j" if "j \<in> set is" for j
    proof -
      have "j \<noteq> i" using that Cons.prems(2) by auto
      with t that Cons.prems(3) show ?thesis by (simp add: moves_def ready_def)
    qed
    have "yields (dispatch_all env bp is t) (proceeds (\<lambda>u. settled bp u \<and>
      (\<forall>m. status_or_pending u m = Pending \<longleftrightarrow> status_or_pending t m = Pending \<and> m \<notin> set is)))"
      by (rule Cons.IH) (use t ready Cons.prems(2) in \<open>auto simp: moves_def\<close>)
    then show "yields (dispatch_all env bp is t) (proceeds (\<lambda>u. settled bp u \<and>
      (\<forall>m. status_or_pending u m = Pending \<longleftrightarrow> status_or_pending s m = Pending \<and> m \<notin> set (i # is))))"
    proof (rule yields_mono)
      fix c assume "proceeds (\<lambda>u. settled bp u \<and>
        (\<forall>m. status_or_pending u m = Pending \<longleftrightarrow> status_or_pending t m = Pending \<and> m \<notin> set is)) c"
      with t show "proceeds (\<lambda>u. settled bp u \<and>
        (\<forall>m. status_or_pending u m = Pending \<longleftrightarrow> status_or_pending s m = Pending \<and> m \<notin> set (i # is))) c"
        by (cases c) (auto simp: moves_def)
    qed
  qed
qed

section \<open>Rounds\<close>

lemma settled_cascade:
  assumes "settled bp s"
  shows "settled bp (cascade_skips bp s)"
proof -
  obtain ns where ns: "set ns = dead bp s" "cascade_skips bp s = fold (skip_node bp) ns s"
    using cascade_skips_fold by blast
  let ?t = "cascade_skips bp s"
  have ok: "run_ok bp (fold (skip_node bp) ks u)" if "run_ok bp u" for ks u
    using that by (induction ks arbitrary: u) auto
  have status: "status_or_pending ?t m = (if m \<in> dead bp s then Skipped else status_or_pending s m)" for m
    by (simp add: ns fold_skip_status)
  have delivered: "delivered_to ?t m = delivered_to s m" for m
    unfolding ns(2) by (induction ns arbitrary: s) (simp_all add: delivered_to_def)
  have resolved: "edge_resolved bp ?t e \<longleftrightarrow> edge_resolved bp s e \<or>
      e < length (bp_edges bp) \<and> ed_from (bp_edges bp ! e) \<in> dead bp s" for e
    unfolding edge_resolved_def delivered by (auto simp: ns fold_skip_fields)
  have "ready bp ?t m" if "status_or_pending ?t m \<noteq> Pending" for m
  proof (cases "m \<in> dead bp s")
    case True
    then show ?thesis
    proof (cases rule: dead.cases)
      case (dead nd)
      show ?thesis
        unfolding ready_def
      proof
        fix e assume e: "e \<in> set (inbound bp m)"
        with dead have "edge_resolved bp s e \<or> ed_from (bp_edges bp ! e) \<in> dead bp s"
          by (auto simp: edge_resolved_def)
        with e show "edge_resolved bp ?t e" by (auto simp: resolved)
      qed
    qed
  next
    case False
    with that assms show ?thesis by (simp add: status settled_def ready_def resolved)
  qed
  moreover have "status_or_pending ?t (ed_from (bp_edges bp ! e)) \<in> {Completed, Skipped}"
    if "e < length (bp_edges bp)" "edge_resolved bp ?t e" for e
    using that assms by (auto simp: status resolved settled_def)
  moreover have "run_ok bp ?t" using assms ok by (simp add: ns(2) settled_def)
  ultimately show ?thesis by (simp add: settled_def)
qed

lemma finalize_phase_settled:
  assumes "settled bp s"
  shows "yields (finalize_phase env bp s) (proceeds (\<lambda>t. settled bp t \<and> rs_status t = RunRunning \<and>
    (\<forall>m. status_or_pending t m = Pending \<longrightarrow> status_or_pending s m = Pending)))"
proof (cases "rs_status s = RunRunning")
  case False
  then have "finalize_if_done bp s = s" by (simp add: finalize_if_done_def)
  with False show ?thesis
    unfolding finalize_phase_def Let_def
    by (auto intro!: yields_skip)
next
  case True
  have ok: "state_ok s" using assms by (simp add: settled_def run_ok_def)
  obtain ns where ns: "set ns = dead bp s" "cascade_skips bp s = fold (skip_node bp) ns s"
    using cascade_skips_fold by blast
  show ?thesis
    unfolding finalize_phase_def Let_def
  proof (rule yields_bind [OF yields_planned [OF ok True]], rule yields_skip)
    fix t u assume "\<exists>q. t = (cascade_skips bp s)\<lparr>rs_next_seq := q\<rparr>"
    then obtain q where t: "t = (cascade_skips bp s)\<lparr>rs_next_seq := q\<rparr>" by blast
    have "same_flow (cascade_skips bp s) t" by (simp add: t)
    moreover have "run_ok bp t" using settled_cascade [OF assms] by (simp add: t settled_def)
    ultimately have "settled bp t" using settled_cascade [OF assms] by (rule settled_same_flow)
    moreover have "rs_status t = RunRunning" using True by (simp add: t)
    moreover have "\<forall>m. status_or_pending t m = Pending \<longrightarrow> status_or_pending s m = Pending"
      by (simp add: t ns(2) fold_skip_status)
    ultimately have good: "proceeds (\<lambda>t. settled bp t \<and> rs_status t = RunRunning \<and>
        (\<forall>m. status_or_pending t m = Pending \<longrightarrow> status_or_pending s m = Pending)) (Proceed t)" by simp
    show "yields (if rs_status (finalize_if_done bp s) \<noteq> RunRunning
        then if rs_status (finalize_if_done bp s) = RunDone
          then act_bind (emit env bp RunCompleted t) (\<lambda>s2. ret (Leave s2)) else ret (Leave t)
        else ret (Proceed t))
        (proceeds (\<lambda>t. settled bp t \<and> rs_status t = RunRunning \<and>
          (\<forall>m. status_or_pending t m = Pending \<longrightarrow> status_or_pending s m = Pending)))"
      using good by (auto intro!: yields_skip)
  qed
qed

lemma step_ready:
  assumes "settled bp s" "i \<in> set (step bp s)"
  shows "i \<in> set (node_ids bp) \<and> status_or_pending s i = Pending \<and> ready bp s i"
proof -
  from assms(2) obtain nd where nd: "nd \<in> set (bp_nodes bp)" "nd_id nd = i" "status_or_pending s i = Pending"
    and inb: "if inbound bp i = [] then nd_parent nd = None
        else set (inbound bp i) \<subseteq> delivered_to s i \<union> rs_skipped s \<and>
             (\<exists>e \<in> set (inbound bp i). e \<in> delivered_to s i)"
    unfolding in_step by blast
  have "ready bp s i"
  proof (cases "inbound bp i = []")
    case True
    then show ?thesis by (simp add: ready_def)
  next
    case False
    with inb have "set (inbound bp i) \<subseteq> delivered_to s i \<union> rs_skipped s" by simp
    then show ?thesis by (auto simp: ready_def edge_resolved_def)
  qed
  with nd show ?thesis by auto
qed

lemma step_distinct: "distinct (node_ids bp) \<Longrightarrow> distinct (step bp s)"
  by (simp add: step_def distinct_map_filter)

lemma drive_round_progress:
  assumes "loop_free bp" "distinct (node_ids bp)" "settled bp s"
  shows "yields (drive_round env bp s) (proceeds (\<lambda>t. settled bp t \<and> pending_ids bp t \<subset> pending_ids bp s))"
  unfolding drive_round_def
proof (rule yields_then [OF check_cancel_same], rule yields_then)
  fix a assume a: "a = s"
  show "yields (loops_phase env bp a) (proceeds (\<lambda>t. t = s))"
    unfolding a by (rule loops_phase_same [OF assms(1)])
next
  fix a b :: run_state assume "b = s"
  with assms(3) have b: "settled bp b" "b = s" by simp_all
  let ?Q = "proceeds (\<lambda>t. settled bp t \<and> pending_ids bp t \<subset> pending_ids bp s)"
  show "yields (then_do (finalize_phase env bp b) (\<lambda>s. if step bp s = [] then ret (Leave s)
      else dispatch_all env bp (step bp s) s)) ?Q"
  proof (rule yields_then [OF finalize_phase_settled [OF b(1)]])
    fix c assume c: "settled bp c \<and> rs_status c = RunRunning \<and>
      (\<forall>m. status_or_pending c m = Pending \<longrightarrow> status_or_pending b m = Pending)"
    have ready: "\<forall>i \<in> set (step bp c). status_or_pending c i = Pending \<and> ready bp c i"
      using step_ready c by blast
    have dispatch: "yields (dispatch_all env bp (step bp c) c) ?Q" if some: "step bp c \<noteq> []"
    proof (rule yields_mono [OF dispatch_all_moves [OF assms(1) _ step_distinct [OF assms(2)] ready]])
      show "settled bp c" using c by simp
      obtain i where i: "i \<in> set (step bp c)" using some by (cases "step bp c") auto
      then have "i \<in> pending_ids bp s"
        using step_ready c b(2) by (auto simp: pending_ids_def)
      moreover fix ctl assume "proceeds (\<lambda>t. settled bp t \<and> (\<forall>m. status_or_pending t m = Pending \<longleftrightarrow>
          status_or_pending c m = Pending \<and> m \<notin> set (step bp c))) ctl"
      ultimately show "?Q ctl"
        using c b(2) i by (cases ctl) (auto simp: pending_ids_def)
    qed
    then show "yields (if step bp c = [] then ret (Leave c) else dispatch_all env bp (step bp c) c) ?Q"
      by simp
  qed
qed

lemma drive_loop_returns:
  assumes "loop_free bp" "distinct (node_ids bp)"
  shows "settled bp s \<Longrightarrow> card (pending_ids bp s) < fuel \<Longrightarrow> drive_loop fuel env bp s w \<noteq> None"
proof (induction fuel arbitrary: s w)
  case 0
  then show ?case by simp
next
  case (Suc fuel)
  obtain c w1 where run: "drive_round env bp s w = (c, w1)" by (cases "drive_round env bp s w")
  show ?case
  proof (cases c)
    case (Inl e)
    with run show ?thesis by simp
  next
    case (Inr ctl)
    show ?thesis
    proof (cases ctl)
      case (Leave t)
      with run Inr show ?thesis by simp
    next
      case (Proceed t)
      from yieldsD [OF drive_round_progress [OF assms Suc.prems(1)]] run Inr Proceed
      have t: "settled bp t" "pending_ids bp t \<subset> pending_ids bp s" by fastforce+
      have "finite (pending_ids bp s)" by (simp add: pending_ids_def)
      with t(2) have "card (pending_ids bp t) < card (pending_ids bp s)" by (simp add: psubset_card_mono)
      with Suc.IH [OF t(1), of w1] Suc.prems(2) run Inr Proceed show ?thesis by simp
    qed
  qed
qed

lemma preflight_settled:
  assumes "settled bp s"
  shows "yields (preflight env bp fresh nds s) (proceeds (\<lambda>t. settled bp t \<and> same_flow s t))"
  using assms
proof (induction nds arbitrary: s)
  case Nil
  then show ?case by simp
next
  case (Cons nd nds)
  have ok: "run_ok bp s" using Cons.prems by (simp add: settled_def)
  have keep: "yields (act_bind (emit env bp (MessageSendPrepared n a b) s) (\<lambda>t. ret (Proceed t)))
      (proceeds (\<lambda>t. settled bp t \<and> same_flow s t))" for n a b
    by (rule yields_bind [OF yields_quiet [OF ok]])
      (auto intro: settled_same_flow [OF _ _ Cons.prems])
  have "yields (preflight_node env bp fresh nd s) (proceeds (\<lambda>t. settled bp t \<and> same_flow s t))"
    unfolding preflight_node_def Let_def
    using Cons.prems
    by (auto intro!: yields_skip keep split: option.split sum.split)
  then show ?case
    unfolding preflight.simps
  proof (rule yields_then)
    fix t assume t: "settled bp t \<and> same_flow s t"
    then have "yields (preflight env bp fresh nds t) (proceeds (\<lambda>u. settled bp u \<and> same_flow t u))"
      using Cons.IH by blast
    then show "yields (preflight env bp fresh nds t) (proceeds (\<lambda>u. settled bp u \<and> same_flow s u))"
      by (rule yields_mono) (use t in \<open>auto simp: same_flow_def split: control.splits\<close>)
  qed
qed

section \<open>Termination\<close>

lemma pending_ids_bound: "card (pending_ids bp s) \<le> length (bp_nodes bp)"
proof -
  have "card (pending_ids bp s) \<le> card (set (node_ids bp))"
    by (rule card_mono) (auto simp: pending_ids_def)
  also have "\<dots> \<le> length (node_ids bp)" by (rule card_length)
  finally show ?thesis by simp
qed

lemma settled_new: "settled bp (new_run_state rid b)"
  using run_ok_new [of bp rid b]
  by (simp add: settled_def edge_resolved_def ready_def new_run_state_def delivered_to_def
      status_or_pending_def node_status_of_def)

lemma initialize_settled: "yields (initialize_with_id env bp rid trig) (settled bp)"
  unfolding initialize_with_id_def Let_def
proof (intro yields_skip yields_emit_ok [OF run_ok_new])
  fix ts u q
  let ?s = "new_run_state rid (bp_id bp)"
  assume run: "apply_kind bp ts (RunStarted (Some rid) (Some (blueprint_hash env bp)) (bp_id bp)
      (bp_schema bp) trig) ?s = Inr u" and ok: "run_ok bp (u\<lparr>rs_next_seq := q\<rparr>)"
  have "same_flow ?s u"
    using run by (auto simp: apply_run_started_def Let_def set_trigger_def normalize_legacy_def
        res_bind_eq_Inr same_flow_def dest!: same_flow_write split: if_splits option.splits)
  then show "settled bp (u\<lparr>rs_next_seq := q\<rparr>)"
    using settled_same_flow [OF _ ok settled_new] by simp
qed

lemma normalize_settled: "settled bp s \<Longrightarrow> settled bp (normalize_legacy s)"
proof -
  assume s: "settled bp s"
  have "same_flow s (normalize_legacy s)"
    by (auto simp: same_flow_def normalize_legacy_def split: option.splits)
  moreover have "run_ok bp (normalize_legacy s)" using s by (auto simp: settled_def)
  ultimately show "settled bp (normalize_legacy s)" using s by (rule settled_same_flow)
qed

lemma drive_returns:
  assumes "loop_free bp" "distinct (node_ids bp)" "settled bp s" "length (bp_nodes bp) < fuel"
  shows "drive fuel env bp s w \<noteq> None"
proof -
  have start: "yields (drive_start env bp s) (proceeds (settled bp))"
  proof (cases "rs_status (normalize_legacy s) = RunRunning")
    case True
    have "yields (preflight env bp f nds (normalize_legacy s)) (proceeds (settled bp))" for f nds
      by (rule yields_mono [OF preflight_settled [OF normalize_settled [OF assms(3)]]])
        (auto split: control.splits)
    with True show ?thesis by (simp add: drive_start_def Let_def)
  next
    case False
    then show ?thesis by (simp add: drive_start_def Let_def normalize_settled assms(3))
  qed
  obtain c w1 where run: "drive_start env bp s w = (c, w1)" by (cases "drive_start env bp s w")
  show ?thesis
  proof (cases c)
    case (Inl e)
    with run show ?thesis by (simp add: drive_def)
  next
    case (Inr ctl)
    show ?thesis
    proof (cases ctl)
      case (Leave t)
      with run Inr show ?thesis by (simp add: drive_def)
    next
      case (Proceed t)
      from yieldsD [OF start] run Inr Proceed have t: "settled bp t" by fastforce
      have "card (pending_ids bp t) < fuel" using pending_ids_bound [of bp t] assms(4) by simp
      from drive_loop_returns [OF assms(1,2) t this] run Inr Proceed show ?thesis
        by (simp add: drive_def)
    qed
  qed
qed

lemma start_returns:
  assumes "loop_free bp" "distinct (node_ids bp)" "length (bp_nodes bp) < fuel"
  shows "\<exists>r w'. start_with_id fuel env bp rid trig w = Some (r, w')"
proof -
  obtain c w1 where init: "initialize_with_id env bp rid trig w = (c, w1)"
    by (cases "initialize_with_id env bp rid trig w")
  show ?thesis
  proof (cases c)
    case (Inl e)
    with init show ?thesis by (simp add: start_with_id_def)
  next
    case (Inr s)
    from yieldsD [OF initialize_settled] init Inr have "settled bp s" by fastforce
    from drive_returns [OF assms(1,2) this assms(3)] init Inr show ?thesis
      by (auto simp: start_with_id_def drive_from_state_def split: sum.splits prod.splits)
  qed
qed

text \<open>
  A run of an automation without loops always returns. Whatever the host answers,
  whenever the run is cancelled and wherever a file operation fails, the main loop leaves
  after at most one round more than the blueprint has nodes.
\<close>

theorem loop_free_run_returns:
  assumes "loop_free bp" "distinct (node_ids bp)"
  shows "\<exists>r w'. start_with_id (Suc (length (bp_nodes bp))) env bp rid trig w = Some (r, w')"
  by (rule start_returns [OF assms]) simp

end
