(* ===== verification/Engine_Approval.thy ===== *)
theory Engine_Approval
  imports Engine_Recovery
begin

text \<open>
  Decisions on a parked run, and resuming an interrupted one: a decision is taken on the
  node the run waits for and at most once, the hash guard compares blueprints as documents,
  and what a resume changes without logging it.
\<close>

section \<open>Decisions\<close>

lemma fail_Inr [simp]: "fail e w \<noteq> (Inr y, w')"
  by (simp add: fail_def act_of_def)

lemma guard_Inr:
  "with_approval_guard env m (d, w) = (Inr y, (d', w')) \<Longrightarrow>
   \<exists>w1 w2. m (d, w1) = (Inr y, (d', w2))"
  by (auto simp: with_approval_guard_def act_bind_Inr outside_def split: prod.splits lock_result.splits)
    blast

lemma load_Inr:
  assumes "recoverable bp rid s d" "load_state env bp (d, w) = (Inr t, (d', w'))"
  shows "t = s \<and> d' = d"
  using load_recoverable [OF assms(1), of env w] assms(2) by auto

lemma read_events_Inr:
  "rd_events d = map Inr evs \<Longrightarrow> read_events env (d, w) = (Inr es, (d', w')) \<Longrightarrow> es = evs \<and> d' = d"
  using read_events_cases [of d evs env w] by auto

lemma ensure_node_Inr:
  assumes "rd_events d = map Inr evs" "ensure_approval_node env bp n (d, w) = (Inr u, (d1, w1))"
  shows "is_approval bp n \<and> last_awaiting evs = Some n \<and> d1 = d"
proof (cases "is_approval bp n")
  case False
  with assms(2) show ?thesis by (simp add: ensure_approval_node_def act_of_Inr invalid_def)
next
  case True
  with assms(2) obtain es d2 w2 where es: "read_events env (d, w) = (Inr es, (d2, w2))"
    "(case last_awaiting es of
        None \<Rightarrow> act_of (invalid ''automation event log is empty'')
      | Some expected \<Rightarrow> if expected \<noteq> n then act_of (invalid []) else ret ()) (d2, w2) = (Inr u, (d1, w1))"
    by (force simp: ensure_approval_node_def act_bind_Inr act_of_Inr invalid_def split: option.splits if_splits)
  from read_events_Inr [OF assms(1) es(1)] es(2) True show ?thesis
    by (auto simp: act_of_Inr invalid_def ret_def split: option.splits if_splits)
qed

lemma decide_steps:
  assumes "decide env bp n k (d, w) = (Inr t, (d', w'))"
  shows "\<exists>s d1 v v1 d2 v2 v3. load_state env bp (d, v) = (Inr s, (d1, v1)) \<and> rs_status s = RunAwaiting \<and>
    ensure_approval_node env bp n (d1, v1) = (Inr (), (d2, v2)) \<and> emit env bp k s (d2, v2) = (Inr t, (d', v3))"
proof -
  let ?m = "act_bind (load_state env bp) (\<lambda>s.
     act_bind (act_of (ensure_valid_blueprint bp)) (\<lambda>_.
     act_bind (act_of (ensure_blueprint_matches env bp s)) (\<lambda>_.
     if rs_status s \<noteq> RunAwaiting then fail (NotAwaitingApproval n)
     else act_bind (ensure_approval_node env bp n) (\<lambda>_. emit env bp k s))))"
  from guard_Inr [OF assms [unfolded decide_def]] obtain v w2 where
    "?m (d, v) = (Inr t, (d', w2))" by blast
  then obtain s dv1 where "load_state env bp (d, v) = (Inr s, dv1)" "rs_status s = RunAwaiting"
    "act_bind (ensure_approval_node env bp n) (\<lambda>_. emit env bp k s) dv1 = (Inr t, (d', w2))"
    by (auto simp: act_bind_Inr act_of_Inr split: if_splits)
  then show ?thesis by (cases dv1) (fastforce simp: act_bind_Inr)
qed

text \<open>A load that goes through has read every line, and the state is at the end of the log.\<close>

lemma sequence_Inr: "sequence_from n evs = Inr q \<Longrightarrow> q = n + length evs \<and> map ev_seq evs = [n..<n + length evs]"
proof (induction evs arbitrary: n)
  case (Cons ev evs)
  then have "ev_seq ev = n" "sequence_from (Suc n) evs = Inr q"
    by (auto simp: res_bind_eq_Inr invalid_def split: if_splits)
  with Cons.IH [of "Suc n"] show ?case by (simp add: upt_conv_Cons del: upt_Suc)
qed simp

lemma fold_from_seq:
  "fold_from bp c n s evs = Inr t \<Longrightarrow> rs_next_seq s = max c n \<Longrightarrow> rs_next_seq t = max c (n + length evs)"
proof (induction evs arbitrary: n s)
  case (Cons ev evs)
  show ?case
  proof (cases "c \<le> ev_seq ev")
    case True
    with Cons.prems obtain u where u: "ev_seq ev = n" "apply_event bp s ev = Inr u"
      "fold_from bp c (Suc n) u evs = Inr t" by (auto simp: res_bind_eq_Inr invalid_def split: if_splits)
    with Cons.IH [OF u(3)] apply_event_seq(1) [OF u(2)] True show ?thesis by simp
  next
    case False
    with Cons.prems have u: "ev_seq ev = n" "fold_from bp c (Suc n) s evs = Inr t"
      by (auto simp: res_bind_eq_Inr invalid_def split: if_splits)
    with Cons.IH [OF u(2)] Cons.prems(2) False show ?thesis by simp
  qed
qed simp

lemma fold_log_Inr:
  assumes "fold_event_log env bp s evs = Inr t"
  shows "evs \<noteq> [] \<and> map ev_seq evs = [0..<length evs] \<and> fold_from bp (rs_next_seq s) 0 s evs = Inr t \<and>
    rs_next_seq t = length evs"
proof -
  from assms obtain q where q: "evs \<noteq> []" "sequence_from 0 evs = Inr q"
    "fold_from bp (rs_next_seq s) 0 s evs = Inr t" "\<not> q < rs_next_seq s"
    by (auto simp: fold_event_log_def res_bind_eq_Inr validate_event_sequence_def invalid_def split: if_splits)
  from fold_from_seq [OF q(3)] sequence_Inr [OF q(2)] q(4) have "rs_next_seq t = length evs" by simp
  with q(1,3) sequence_Inr [OF q(2)] show ?thesis by simp
qed

lemma parse_lines_eq: "parse_lines ls = Inr evs \<Longrightarrow> ls = map Inr evs"
proof (induction ls arbitrary: evs)
  case (Cons l ls)
  then show ?case by (cases l) (auto simp: parse_lines_def res_bind_eq_Inr)
qed (simp add: parse_lines_def)

lemma read_events_eq:
  assumes "read_events env (d, w) = (Inr evs, (d', w'))"
  shows "rd_events d = map Inr evs \<and> d' = d"
proof (cases "rd_events d = []")
  case True
  with assms show ?thesis by (simp add: read_events_def act_bind_def get_dir_def ret_def act_of_def)
next
  case False
  with assms show ?thesis
    by (auto simp: read_events_def act_bind_Inr get_dir_def act_of_Inr dest: io_Inr parse_lines_eq)
qed

definition checkpoint_or_new :: "blueprint \<Rightarrow> run_dir \<Rightarrow> run_state" where
  "checkpoint_or_new bp d =
     (case rd_checkpoint d of Some (Inr c) \<Rightarrow> normalize_legacy c | _ \<Rightarrow> new_run_state ''rebuilt'' (bp_id bp))"

lemma read_checkpoint_Inr:
  "read_checkpoint env (d, w) = (Inr c, (d', w')) \<Longrightarrow>
   d' = d \<and> (case c of None \<Rightarrow> new_run_state ''rebuilt'' (bp_id bp) | Some s \<Rightarrow> s) = checkpoint_or_new bp d"
  by (auto simp: read_checkpoint_def act_bind_Inr get_dir_def ret_def act_of_Inr checkpoint_or_new_def
      dest!: io_Inr split: option.splits sum.splits)

lemma load_state_Inr:
  assumes "load_state env bp (d, w) = (Inr s, (d', w'))"
  shows "d' = d \<and> (\<exists>evs. rd_events d = map Inr evs \<and> fold_event_log env bp (checkpoint_or_new bp d) evs = Inr s)"
proof -
  from assms [unfolded load_state_def act_bind_Inr] obtain c dw1 evs dw2 where
    c: "read_checkpoint env (d, w) = (Inr c, dw1)" and evs: "read_events env dw1 = (Inr evs, dw2)"
    and fold: "act_of (fold_event_log env bp
         (case c of None \<Rightarrow> new_run_state ''rebuilt'' (bp_id bp) | Some s \<Rightarrow> s) evs) dw2 = (Inr s, (d', w'))"
    by blast
  obtain d1 w1 where dw1: "dw1 = (d1, w1)" by (cases dw1)
  obtain d2 w2 where dw2: "dw2 = (d2, w2)" by (cases dw2)
  from read_checkpoint_Inr [OF c [unfolded dw1], of bp] read_events_eq [OF evs [unfolded dw1 dw2]] fold dw2
  show ?thesis by (auto simp: act_of_Inr)
qed

lemma decide_Inr:
  assumes "decide env bp n k (d, w) = (Inr t, (d', w'))" "\<not> rd_open d"
  shows "is_approval bp n \<and> (\<exists>s evs ts. rd_events d = map Inr evs \<and>
    fold_event_log env bp (checkpoint_or_new bp d) evs = Inr s \<and> rs_status s = RunAwaiting \<and>
    last_awaiting evs = Some n \<and>
    apply_event bp s \<lparr>ev_seq = length evs, ev_ts = ts, ev_kind = k\<rparr> = Inr t \<and>
    d' = d\<lparr>rd_events := map Inr (evs @ [\<lparr>ev_seq = length evs, ev_ts = ts, ev_kind = k\<rparr>]),
           rd_open := False, rd_checkpoint := Some (Inr t)\<rparr>)"
proof -
  from decide_steps [OF assms(1)] obtain s d1 v v1 d2 v2 v3 where
    load: "load_state env bp (d, v) = (Inr s, (d1, v1))" and await: "rs_status s = RunAwaiting"
    and node: "ensure_approval_node env bp n (d1, v1) = (Inr (), (d2, v2))"
    and emit: "emit env bp k s (d2, v2) = (Inr t, (d', v3))" by blast
  from load_state_Inr [OF load] obtain evs where evs: "d1 = d" "rd_events d = map Inr evs"
    "fold_event_log env bp (checkpoint_or_new bp d) evs = Inr s" by blast
  from ensure_node_Inr [OF evs(2) node [unfolded evs(1)]]
  have app: "is_approval bp n" "last_awaiting evs = Some n" and "d2 = d" by simp_all
  from emit_Inr [OF emit] \<open>d2 = d\<close> assms(2) fold_log_Inr [OF evs(3)] obtain ts where
    "apply_event bp s \<lparr>ev_seq = length evs, ev_ts = ts, ev_kind = k\<rparr> = Inr t"
    "d' = d\<lparr>rd_events := map Inr (evs @ [\<lparr>ev_seq = length evs, ev_ts = ts, ev_kind = k\<rparr>]),
           rd_open := False, rd_checkpoint := Some (Inr t)\<rparr>" by (auto simp: evs(2))
  with app evs(2,3) await show ?thesis by blast
qed

section \<open>Parking again\<close>

text \<open>Only an \<open>AwaitingApproval\<close> event parks a run.\<close>

fun parks :: "event_kind \<Rightarrow> bool" where
  "parks (AwaitingApproval n) \<longleftrightarrow> True"
| "parks _ \<longleftrightarrow> False"

lemma write_registry_status: "write_registry p v s = Inr t \<Longrightarrow> rs_status t = rs_status s"
  by (auto simp: write_registry_def split: option.splits)

lemma reset_body_status:
  "run_steps (\<lambda>s n. reset_body_node n s) s ns = Inr t \<Longrightarrow> rs_status t = rs_status s"
proof (induction ns arbitrary: s)
  case (Cons n ns)
  then obtain u where u: "reset_body_node n s = Inr u"
    "run_steps (\<lambda>s n. reset_body_node n s) u ns = Inr t" by (auto simp: res_bind_eq_Inr)
  from u(1) have "rs_status u = rs_status s"
    by (auto simp: reset_body_node_def res_bind_eq_Inr dest: write_registry_status split: option.splits)
  with Cons.IH [OF u(2)] show ?case by simp
qed simp

lemma normalize_status [simp]: "rs_status (normalize_legacy s) = rs_status s"
  by (simp add: normalize_legacy_def split: option.split)

lemma apply_event_unparked:
  assumes "apply_event bp s ev = Inr t" "\<not> parks (ev_kind ev)" "rs_status s \<noteq> RunAwaiting"
  shows "rs_status t \<noteq> RunAwaiting"
proof -
  from assms(1) obtain u where u: "apply_kind bp (ev_ts ev) (ev_kind ev) s = Inr u" "rs_status t = rs_status u"
    by (auto simp: apply_event_def res_bind_eq_Inr)
  from u(1) assms(2,3) have "rs_status u \<noteq> RunAwaiting"
    by (cases "ev_kind ev")
      (auto simp: res_bind_eq_Inr Let_def apply_message_prepared_def apply_state_update_def
        apply_run_started_def apply_loop_iteration_def set_trigger_def set_node_output_def
        dest!: write_registry_status reset_body_status split: if_splits option.splits)
  with u(2) show ?thesis by simp
qed

lemma fold_from_unparked:
  "fold_from bp c n s evs = Inr t \<Longrightarrow> \<forall>ev \<in> set evs. c \<le> ev_seq ev \<longrightarrow> \<not> parks (ev_kind ev) \<Longrightarrow>
   rs_status s \<noteq> RunAwaiting \<Longrightarrow> rs_status t \<noteq> RunAwaiting"
proof (induction evs arbitrary: n s)
  case (Cons ev evs)
  show ?case
  proof (cases "c \<le> ev_seq ev")
    case True
    with Cons.prems(1) obtain u where u: "apply_event bp s ev = Inr u" "fold_from bp c (Suc n) u evs = Inr t"
      by (auto simp: res_bind_eq_Inr invalid_def split: if_splits)
    from apply_event_unparked [OF u(1)] Cons.prems(2,3) True have "rs_status u \<noteq> RunAwaiting" by simp
    with Cons.IH [OF u(2)] Cons.prems(2) show ?thesis by simp
  next
    case False
    with Cons.prems(1) have "fold_from bp c (Suc n) s evs = Inr t"
      by (auto simp: res_bind_eq_Inr invalid_def split: if_splits)
    with Cons.IH Cons.prems(2,3) show ?thesis by simp
  qed
qed simp

text \<open>
  A later directory of the run: its log goes on from \<open>evs\<close> without parking and its checkpoint
  was written after \<open>evs\<close>, by the fold or by a resume that reset nodes in flight.
\<close>

definition goes_on :: "event list \<Rightarrow> run_dir \<Rightarrow> bool" where
  "goes_on evs d \<longleftrightarrow> (\<exists>more c. rd_events d = map Inr (evs @ more) \<and> list_all (\<lambda>ev. \<not> parks (ev_kind ev)) more \<and>
     rd_checkpoint d = Some (Inr c) \<and> length evs \<le> rs_next_seq c \<and> rs_status c \<noteq> RunAwaiting)"

lemma goes_on_decide:
  assumes "goes_on evs d" "\<not> rd_open d"
  shows "fst (decide env bp m k (d, v)) \<noteq> Inr r"
proof
  assume "fst (decide env bp m k (d, v)) = Inr r"
  then obtain d' v' where "decide env bp m k (d, v) = (Inr r, (d', v'))"
    by (cases "decide env bp m k (d, v)") auto
  from decide_Inr [OF this assms(2)] obtain s all where all: "rd_events d = map Inr all"
    "fold_event_log env bp (checkpoint_or_new bp d) all = Inr s" "rs_status s = RunAwaiting" by blast
  from assms(1) obtain more c where more: "rd_events d = map Inr (evs @ more)"
    "list_all (\<lambda>ev. \<not> parks (ev_kind ev)) more" and c: "rd_checkpoint d = Some (Inr c)"
    "length evs \<le> rs_next_seq c" "rs_status c \<noteq> RunAwaiting" by (auto simp: goes_on_def)
  have all_eq: "all = evs @ more" using all(1) more(1) by (metis inj_Inr inj_map_eq_map)
  have start: "checkpoint_or_new bp d = normalize_legacy c" by (simp add: checkpoint_or_new_def c(1))
  have nxt: "rs_next_seq (normalize_legacy c) = rs_next_seq c" by (simp add: normalize_legacy_def split: option.split)
  from fold_log_Inr [OF all(2)] have seqs: "map ev_seq all = [0..<length all]"
    and fold: "fold_from bp (rs_next_seq c) 0 (normalize_legacy c) all = Inr s" by (simp_all add: start nxt)
  have "map ev_seq evs = [0..<length evs]"
    using arg_cong [OF seqs, of "take (length evs)"] by (simp add: all_eq)
  then have "ev_seq ev < length evs" if "ev \<in> set evs" for ev
    using that by (metis atLeastLessThan_iff imageI list.set_map set_upt)
  then have "\<forall>ev \<in> set all. rs_next_seq c \<le> ev_seq ev \<longrightarrow> \<not> parks (ev_kind ev)"
    using more(2) c(2) by (fastforce simp: all_eq list_all_iff)
  from fold_from_unparked [OF fold this] c(3) all(3) show False by simp
qed

text \<open>
  C18. An approval is decided on the node that waits, and once. Take any run directory whose
  log ends with a whole line, a resumed run's included. A granted decision means that the
  directory loads a parked run and that the node is an approval and the last one the log
  says the run waits for; exactly one event is appended, the node is completed, and the run
  goes on from the new checkpoint. No later decision, on any node and by anyone, succeeds
  before the run parks again: not on this directory and not on any later one whose log goes
  on without parking, ends with a whole line and has a checkpoint of a run that is not
  parked, written at that moment or later.
\<close>

theorem approval_granted_once:
  assumes "\<not> rd_open d"
    and "record_approval_granted env bp n actor note (d, w) = (Inr s', (d', w'))"
  shows "is_approval bp n \<and>
    (\<exists>s evs ts. rd_events d = map Inr evs \<and> fold_event_log env bp (checkpoint_or_new bp d) evs = Inr s \<and>
      rs_status s = RunAwaiting \<and> last_awaiting evs = Some n \<and>
      (let done = evs @ [\<lparr>ev_seq = length evs, ev_ts = ts, ev_kind = ApprovalGranted n actor note\<rparr>]
       in rd_events d' = map Inr done \<and> goes_on done d' \<and>
          (\<forall>d'' m actor' note' v r. goes_on done d'' \<and> \<not> rd_open d'' \<longrightarrow>
             fst (record_approval_granted env bp m actor' note' (d'', v)) \<noteq> Inr r \<and>
             fst (reject_approval env bp m actor' note' (d'', v)) \<noteq> Inr r))) \<and>
    \<not> rd_open d' \<and> rd_checkpoint d' = Some (Inr s') \<and>
    rs_status s' = RunRunning \<and> status_or_pending s' n = Completed"
proof -
  let ?k = "ApprovalGranted n actor note"
  have decide: "decide env bp n ?k (d, w) = (Inr s', (d', w'))"
    using assms(2) by (simp add: record_approval_granted_def)
  from decide_Inr [OF decide assms(1)] obtain s evs ts where
    base: "is_approval bp n" "rd_events d = map Inr evs" "fold_event_log env bp (checkpoint_or_new bp d) evs = Inr s"
      "rs_status s = RunAwaiting" "last_awaiting evs = Some n"
    and folded: "apply_event bp s \<lparr>ev_seq = length evs, ev_ts = ts, ev_kind = ?k\<rparr> = Inr s'"
    and d': "d' = d\<lparr>rd_events := map Inr (evs @ [\<lparr>ev_seq = length evs, ev_ts = ts, ev_kind = ?k\<rparr>]),
           rd_open := False, rd_checkpoint := Some (Inr s')\<rparr>" by blast
  let ?done = "evs @ [\<lparr>ev_seq = length evs, ev_ts = ts, ev_kind = ?k\<rparr>]"
  from folded have s': "s' = (deliver_from_port bp n ''out'' (set_node_status n Completed
      (s\<lparr>rs_status := RunRunning\<rparr>)))\<lparr>rs_next_seq := Suc (length evs)\<rparr>"
    by (simp add: apply_event_def res_bind_eq_Inr)
  have run: "rs_status s' = RunRunning" "status_or_pending s' n = Completed"
    by (simp_all add: s' deliver_from_port_exact)
  have on: "goes_on ?done d'"
    unfolding goes_on_def d' using run by (intro exI [of _ "[]"] exI [of _ s']) (simp add: s')
  have "fst (record_approval_granted env bp m actor' note' (d'', v)) \<noteq> Inr r \<and>
      fst (reject_approval env bp m actor' note' (d'', v)) \<noteq> Inr r"
    if "goes_on ?done d''" "\<not> rd_open d''" for d'' m actor' note' v r
    unfolding record_approval_granted_def reject_approval_def by (intro conjI goes_on_decide [OF that])
  with base on run show ?thesis
    unfolding Let_def by (intro conjI exI [of _ s] exI [of _ evs] exI [of _ ts] allI impI) (simp_all add: d')
qed

text \<open>
  The guard against edited blueprints. For a run that stores the hash of the blueprint
  it was started with, a blueprint passes the guard exactly when it has the run's id and
  serializes to the same document, provided the digest tells the two documents apart;
  in particular an edit of the Markdown body alone always passes.
\<close>

theorem blueprint_guard_exact:
  assumes "rs_blueprint_hash s = Some (blueprint_hash env bp0)" "rs_blueprint_id s = bp_id bp0"
    and "en_digest env (blueprint_to_json bp) = en_digest env (blueprint_to_json bp0) \<Longrightarrow>
         blueprint_to_json bp = blueprint_to_json bp0"
  shows "(ensure_blueprint_matches env bp s = Inr () \<longleftrightarrow>
      bp_id bp = bp_id bp0 \<and> blueprint_to_json bp = blueprint_to_json bp0) \<and>
    ensure_blueprint_matches env (bp0\<lparr>bp_body := text\<rparr>) s = Inr ()"
proof -
  have body: "ensure_blueprint_matches env (bp0\<lparr>bp_body := text\<rparr>) s = Inr ()"
    using assms(1,2) by (simp add: ensure_blueprint_matches_def blueprint_hash_def)
  have "ensure_blueprint_matches env bp s = Inr () \<longleftrightarrow>
      bp_id bp = bp_id bp0 \<and> en_digest env (blueprint_to_json bp) = en_digest env (blueprint_to_json bp0)"
    using assms(1,2)
    by (auto simp: ensure_blueprint_matches_def blueprint_hash_def invalid_def Let_def)
  with body assms(3) show ?thesis by auto
qed

section \<open>Resuming\<close>

lemma reset_status:
  "status_or_pending (fold (\<lambda>i. set_node_status i Pending) is s) m =
     (if m \<in> set is then Pending else status_or_pending s m)"
  by (induction "is" arbitrary: s) auto

lemma in_flight_iff:
  assumes "state_ok s"
  shows "i \<in> set (in_flight bp s) \<longleftrightarrow> status_or_pending s i = Running \<and>
    (\<forall>nd. find_node bp i = Some nd \<longrightarrow> nd_type nd \<noteq> ''loop'')"
proof -
  have "(i, Running) \<in> set (rs_nodes s) \<longleftrightarrow> status_or_pending s i = Running"
    using assms by (auto simp: in_btree state_ok_def status_or_pending_def node_status_of_def
        split: option.splits)
  then show ?thesis
    by (force simp: in_flight_def image_iff split: option.splits)
qed

lemma reset_in_flight_status:
  "state_ok s \<Longrightarrow> status_or_pending (reset_in_flight bp s) i =
     (if status_or_pending s i = Running \<and> (\<forall>nd. find_node bp i = Some nd \<longrightarrow> nd_type nd \<noteq> ''loop'')
      then Pending else status_or_pending s i)"
  by (simp add: reset_in_flight_def reset_status in_flight_iff)

lemma reset_in_flight_fields [simp]:
  "rs_status (reset_in_flight bp s) = rs_status s"
  "rs_next_seq (reset_in_flight bp s) = rs_next_seq s"
  "rs_registry (reset_in_flight bp s) = rs_registry s"
  "rs_run_id (reset_in_flight bp s) = rs_run_id s"
proof -
  have "rs_status (fold (\<lambda>i. set_node_status i Pending) is s) = rs_status s \<and>
    rs_next_seq (fold (\<lambda>i. set_node_status i Pending) is s) = rs_next_seq s \<and>
    rs_registry (fold (\<lambda>i. set_node_status i Pending) is s) = rs_registry s \<and>
    rs_run_id (fold (\<lambda>i. set_node_status i Pending) is s) = rs_run_id s" for "is"
    by (induction "is" arbitrary: s) simp_all
  then show "rs_status (reset_in_flight bp s) = rs_status s"
    "rs_next_seq (reset_in_flight bp s) = rs_next_seq s"
    "rs_registry (reset_in_flight bp s) = rs_registry s"
    "rs_run_id (reset_in_flight bp s) = rs_run_id s"
    by (simp_all add: reset_in_flight_def)
qed

lemma resume_load_Inr:
  assumes "recoverable bp rid s d" "resume_load env bp (d, w) = (Inr t, (d', w'))"
  shows "t = s \<and> d' = d"
  using assms(2)
  by (auto simp: resume_load_def act_bind_Inr act_of_Inr ret_def dest!: load_Inr [OF assms(1)])

lemma recoverable_state_ok: "recoverable bp rid s d \<Longrightarrow> run_ok bp s"
proof -
  assume "recoverable bp rid s d"
  then obtain evs where "run_steps (apply_event bp) (new_run_state rid (bp_id bp)) evs = Inr s"
    by (auto simp: recoverable_def log_folds_def)
  then show ?thesis by (rule core.run_keeps [OF run_ok_new])
qed

text \<open>
  A resume changes the run without logging it. When an interrupted run is resumed and
  cancelled before its nodes start again, the checkpoint it leaves says that the nodes that
  were in flight are pending, while the log still folds to a state in which they run; so a
  checkpoint is not always the fold of the log.
\<close>

theorem resume_reset_unlogged:
  assumes "recoverable bp rid s d" "rs_status s = RunRunning" "\<not> rd_open d"
    and "status_or_pending s i = Running" "find_node bp i = Some nd" "nd_type nd \<noteq> ''loop''"
    and "list_all (\<lambda>nd. nd_type nd \<noteq> ''message_send'') (bp_nodes bp)"
    and "\<And>w. en_cancel_requested env w = (True, w)"
    and "resume fuel env bp (d, w) = Some (Inr t, (d', w'))"
  shows "rd_checkpoint d' = Some (Inr t) \<and> status_or_pending t i = Pending \<and>
    (\<exists>evs u. rd_events d' = map Inr evs \<and>
       run_steps (apply_event bp) (new_run_state rid (bp_id bp)) evs = Inr u \<and>
       status_or_pending u i = Running)"
proof -
  let ?r = "reset_in_flight bp s"
  from assms(1) obtain evs where evs: "rd_events d = map Inr evs" "log_folds bp rid evs s"
    by (auto simp: recoverable_def)
  from assms(9) obtain s1 d1 w1 where load: "resume_load env bp (d, w) = (Inr s1, (d1, w1))"
    by (auto simp: resume_def split: prod.splits sum.splits)
  from resume_load_Inr [OF assms(1) load] have s1: "s1 = s" "d1 = d" by simp_all
  have drive: "drive fuel env bp ?r (d, w1) = Some (Inr t, (d', w'))"
    using assms(9) load assms(2) by (simp add: resume_def s1)
  have "normal_state s" using log_folds_normal [OF evs(2)] by simp
  then have "normal_state ?r" by (simp add: normal_state_def)
  then have "normalize_legacy ?r = ?r" by (rule normal_state_fix)
  moreover have "filter (\<lambda>nd. nd_type nd = ''message_send'') (bp_nodes bp) = []"
    using assms(7) by (auto simp: filter_empty_conv list_all_iff)
  ultimately have "drive_start env bp ?r = ret (Proceed ?r)"
    by (simp add: drive_start_def Let_def)
  with drive have loop: "drive_loop fuel env bp ?r (d, w1) = Some (Inr t, (d', w'))"
    by (simp add: drive_def ret_def act_of_def)
  then obtain f where fuel: "fuel = Suc f" by (cases fuel) auto
  have stop: "check_cancel env bp ?r = act_bind (outside (en_cancel_requested env)) (\<lambda>_.
      act_bind (emit env bp cancel_event ?r) (\<lambda>s'. act_bind (io (en_cancel_clear env)) (\<lambda>_. ret (Leave s'))))"
    unfolding check_cancel_def act_bind_def outside_def using assms(2,8) by (simp add: fun_eq_iff)
  let ?stop = "act_bind (outside (en_cancel_requested env)) (\<lambda>_.
      act_bind (emit env bp cancel_event ?r) (\<lambda>s'. act_bind (io (en_cancel_clear env)) (\<lambda>_. ret (Leave s'))))"
  have round: "drive_round env bp ?r = ?stop"
    unfolding drive_round_def stop then_do_def act_bind_assoc act_bind_ret control.case ..
  have leave: "\<exists>u. c = Leave u" if "?stop w = (Inr c, w')" for c w w'
    using that by (auto simp: act_bind_Inr ret_def act_of_Inr)
  have "?stop (d, w1) = (Inr (Leave t), (d', w'))"
    using loop leave [of "(d, w1)"] unfolding fuel drive_loop.simps round
    by (auto split: prod.splits sum.splits control.splits)
  then obtain w2 w3 d3 where emit: "emit env bp cancel_event ?r (d, w2) = (Inr t, (d3, w3))" and "d' = d3"
    by (auto simp: act_bind_Inr outside_def ret_def act_of_Inr dest: io_Inr split: prod.splits)
  from emit_Inr [OF emit assms(3)] \<open>d' = d3\<close> obtain ts where
    t: "apply_event bp ?r \<lparr>ev_seq = rs_next_seq s, ev_ts = ts, ev_kind = cancel_event\<rparr> = Inr t"
    and d': "rd_events d' = map Inr (evs @ [\<lparr>ev_seq = rs_next_seq s, ev_ts = ts, ev_kind = cancel_event\<rparr>])"
      "rd_checkpoint d' = Some (Inr t)" using evs(1) by auto
  have "state_ok s" using recoverable_state_ok [OF assms(1)] by (simp add: run_ok_def)
  then have "status_or_pending t i = Pending"
    using t assms(4-6) by (auto simp: apply_event_def cancel_event_def reset_in_flight_status res_bind_eq_Inr)
  moreover have "Suc (rs_next_seq s) < 2 ^ 64" using apply_event_seq(2) [OF t] by simp
  then have "run_steps (apply_event bp) (new_run_state rid (bp_id bp))
      (evs @ [\<lparr>ev_seq = rs_next_seq s, ev_ts = ts, ev_kind = cancel_event\<rparr>]) =
      Inr (s\<lparr>rs_status := RunBroken, rs_failure := Some cancelled_by_operator, rs_next_seq := Suc (rs_next_seq s)\<rparr>)"
    using evs(2) by (simp add: log_folds_def run_steps_append apply_event_def cancel_event_def)
  ultimately show ?thesis using d' assms(4) by fastforce
qed

end
