(* ===== verification/Engine_Mock.thy ===== *)
theory Engine_Mock
  imports Engine_Progress Engine_Approval
begin

text \<open>
  The host of the repository's own tests, \<open>MockExecutor\<close> of \<open>engine/executor.rs\<close>: it
  records the calls and answers from scripted tables. With files that never fail, a fixed
  clock and no cancellation it is an environment of the driver, the one the examples of
  the driver's theorems run in.
\<close>

record mock =
  mk_task_outputs :: "string \<rightharpoonup> json"
  mk_decisions :: "string \<rightharpoonup> string"
  mk_fail_nodes :: "string \<rightharpoonup> string"
  mk_skip_nodes :: "string \<rightharpoonup> string"

type_synonym calls = "string list"

definition mock_new :: mock where
  "mock_new = \<lparr>mk_task_outputs = Map.empty, mk_decisions = Map.empty, mk_fail_nodes = Map.empty,
     mk_skip_nodes = Map.empty\<rparr>"

definition with_task_output :: "string \<Rightarrow> json \<Rightarrow> mock \<Rightarrow> mock" where
  "with_task_output n out m = m\<lparr>mk_task_outputs := (mk_task_outputs m)(n \<mapsto> out)\<rparr>"

definition with_decision :: "string \<Rightarrow> string \<Rightarrow> mock \<Rightarrow> mock" where
  "with_decision n port m = m\<lparr>mk_decisions := (mk_decisions m)(n \<mapsto> port)\<rparr>"

definition with_skipped :: "string \<Rightarrow> string \<Rightarrow> mock \<Rightarrow> mock" where
  "with_skipped n reason m = m\<lparr>mk_skip_nodes := (mk_skip_nodes m)(n \<mapsto> reason)\<rparr>"

definition check_fail :: "mock \<Rightarrow> string \<Rightarrow> step_error + unit" where
  "check_fail m n =
     (case mk_skip_nodes m n of
        Some reason \<Rightarrow> Inl (step_skipped reason)
      | None \<Rightarrow> (case mk_fail_nodes m n of Some e \<Rightarrow> Inl e | None \<Rightarrow> Inr ()))"

text \<open>Record the call, then fail or answer.\<close>

definition mock_call :: "mock \<Rightarrow> string \<Rightarrow> string \<Rightarrow> (step_error + 'a) \<Rightarrow> calls \<Rightarrow> (step_error + 'a) \<times> calls" where
  "mock_call m label n answer cs =
     (res_bind (check_fail m n) (\<lambda>_. answer), cs @ [label @ '':'' @ n])"

definition mock_agent_task :: "mock \<Rightarrow> agent_task_request \<Rightarrow> calls \<Rightarrow> (step_error + json) \<times> calls" where
  "mock_agent_task m req = mock_call m ''task'' (tr_node req)
     (Inr (case mk_task_outputs m (tr_node req) of None \<Rightarrow> jempty | Some out \<Rightarrow> out))"

definition mock_decision :: "mock \<Rightarrow> decision_request \<Rightarrow> calls \<Rightarrow> (step_error + string) \<times> calls" where
  "mock_decision m req = mock_call m ''decision'' (dr_node req)
     (case mk_decisions m (dr_node req) of
        Some port \<Rightarrow> Inr port
      | None \<Rightarrow> (case dr_choices req of [] \<Rightarrow> Inl ''decision has no choices'' | c # _ \<Rightarrow> Inr c))"

definition exit_code_zero :: json where
  "exit_code_zero = JObject [(''exit_code'', JNumber (PosInt 0))]"

definition mock_shell :: "mock \<Rightarrow> shell_request \<Rightarrow> calls \<Rightarrow> (step_error + json) \<times> calls" where
  "mock_shell m req = mock_call m ''shell'' (sr_node req) (Inr exit_code_zero)"

definition mock_script :: "mock \<Rightarrow> script_request \<Rightarrow> calls \<Rightarrow> (step_error + json) \<times> calls" where
  "mock_script m req = mock_call m ''script'' (cr_node req) (Inr exit_code_zero)"

definition mock_preflight :: "message_send_request \<Rightarrow> bool \<Rightarrow> calls \<Rightarrow> (step_error + string) \<times> calls" where
  "mock_preflight req fresh cs = (Inr (mr_recipient req), cs)"

definition mock_message_send :: "mock \<Rightarrow> message_send_request \<Rightarrow> calls \<Rightarrow> (step_error + json) \<times> calls" where
  "mock_message_send m req = mock_call m ''message_send'' (mr_node req)
     (Inr (JObject [(''recipient_id'', JString (mr_recipient req)),
                    (''artifact_path'', JString (mr_artifact_path req))]))"

definition mock_notify :: "mock \<Rightarrow> notify_request \<Rightarrow> calls \<Rightarrow> (step_error + unit) \<times> calls" where
  "mock_notify m req = mock_call m ''notify'' (nr_node req) (Inr ())"

definition mock_memory_commit :: "mock \<Rightarrow> memory_commit_request \<Rightarrow> calls \<Rightarrow> (step_error + json) \<times> calls" where
  "mock_memory_commit m req = mock_call m ''memory_commit'' (mc_node req) (Inr (mc_payload req))"

text \<open>The environment around the mock: the digest and the printer stay constant functions.\<close>

definition mock_env :: "mock \<Rightarrow> calls env" where
  "mock_env m = \<lparr>en_printer = (\<lambda>_. ''0''), en_digest = (\<lambda>_. ''d''), en_debug = (\<lambda>_. ''event''),
     en_io = (\<lambda>w. (None, w)), en_append = (\<lambda>w. (LineWritten, w)),
     en_broken = (\<lambda>w. Serde ''not an event''), en_now = (\<lambda>w. (''now'', w)),
     en_cancel_requested = (\<lambda>w. (False, w)), en_cancel_clear = (\<lambda>w. (None, w)),
     en_lock = (\<lambda>w. (Acquired, w)), en_unlock = (\<lambda>w. w),
     en_agent_task = mock_agent_task m, en_decision = mock_decision m, en_shell = mock_shell m,
     en_script = mock_script m, en_preflight = mock_preflight,
     en_message_send = mock_message_send m, en_notify = mock_notify m,
     en_memory_commit = mock_memory_commit m\<rparr>"

lemma next_numbers:
  "next_number 0 = Inr 1" "next_number (Suc 0) = Inr 2" "next_number 2 = Inr 3" "next_number 3 = Inr 4"
  by (simp_all add: next_number_def)

text \<open>A trigger and a task after it.\<close>

definition trigger_task :: blueprint where
  "trigger_task = \<lparr>bp_schema = 2, bp_id = ''wf'', bp_name = ''wf'',
     bp_nodes = [plain_node ''t'' ''manual_trigger'' None, sample_task ''a''],
     bp_edges = [plain_edge ''t'' ''out'' ''a''], bp_body = []\<rparr>"

lemma trigger_task_shape: "loop_free trigger_task" "distinct (node_ids trigger_task)"
  by (simp_all add: trigger_task_def loop_free_def plain_node_def sample_task_def)

section \<open>Examples\<close>

theorem loop_free_run_returns_witness:
  "\<exists>r w'. start_with_id (Suc (length (bp_nodes trigger_task))) (mock_env mock_new) trigger_task
     ''run'' jempty (empty_dir, []) = Some (r, w')"
  by (rule loop_free_run_returns [OF trigger_task_shape])


definition first_event :: event where
  "first_event = \<lparr>ev_seq = 0, ev_ts = ''now'',
     ev_kind = RunStarted (Some ''run'') (Some ''sha256:d'') ''wf'' 2 jempty\<rparr>"

definition first_dir :: run_dir where
  "first_dir = \<lparr>rd_events = [Inr first_event], rd_open = False, rd_checkpoint = None, rd_blueprint = None\<rparr>"

definition first_state :: run_state where
  "first_state = (new_run_state ''run'' ''wf'')\<lparr>rs_blueprint_hash := Some ''sha256:d'',
     rs_registry := JObject [(''nodes'', jempty),
       (''trigger'', JObject [(''output'', JObject [(''timestamp'', JString ''now'')])]),
       (''storage'', jempty), (''run'', JObject [(''id'', JString ''run'')])],
     rs_next_seq := 1\<rparr>"

lemma first_event_folds: "apply_event trigger_task (new_run_state ''run'' ''wf'') first_event = Inr first_state"
  by (simp add: apply_event_def first_event_def apply_run_started_def trigger_task_def Let_def
      normalize_legacy_def new_run_state_def im_or_insert_def set_trigger_def write_registry_def
      runtime_trigger_output_def first_state_def)

lemma first_dir_recoverable: "recoverable trigger_task ''run'' first_state first_dir"
proof -
  have id: "bp_id trigger_task = ''wf''" "bp_schema trigger_task = 2" by (simp_all add: trigger_task_def)
  have "log_folds trigger_task ''run'' [first_event] first_state"
    using first_event_folds
    by (simp add: log_folds_def seqd_def starts_run_def id first_event_def)
  then show ?thesis
    unfolding recoverable_def by (intro exI [of _ "[first_event]"]) (simp add: first_dir_def)
qed

theorem load_state_recovers_witness:
  "fst (load_state (mock_env mock_new) trigger_task (first_dir, [])) = Inr first_state \<or>
   io_error (fst (load_state (mock_env mock_new) trigger_task (first_dir, [])))"
  using load_state_recovers [OF first_dir_recoverable, of "mock_env mock_new" "[]"] by blast

lemma mock_io [simp]: "io (en_io (mock_env m)) w = (Inr (), w)"
  by (cases w) (simp add: io_def mock_env_def act_bind_def outside_def ret_def act_of_def)

lemma mock_now [simp]: "outside (en_now (mock_env m)) w = (Inr ''now'', w)"
  by (cases w) (simp add: outside_def mock_env_def)

lemma mock_append [simp]:
  "outside (en_append (mock_env m)) w = (Inr LineWritten, w)"
  "outside (\<lambda>v. (en_broken (mock_env m) v, v)) w = (Inr (Serde ''not an event''), w)"
  by (cases w; simp add: outside_def mock_env_def)+

lemma mock_emit:
  "apply_event bp s \<lparr>ev_seq = rs_next_seq s, ev_ts = ''now'', ev_kind = k\<rparr> = Inr t \<Longrightarrow>
   \<exists>d'. emit (mock_env m) bp k s (d, w) = (Inr t, (d', w))"
  by (simp add: emit_def Let_def act_bind_def act_of_def append_event_def write_checkpoint_def
      change_dir_def ret_def)

text \<open>The trigger has taken another port, so the task is never going to run.\<close>

definition branch_away :: run_state where
  "branch_away = first_state\<lparr>rs_nodes := [(''t'', Completed)], rs_skipped := {0}\<rparr>"

lemma branch_away_plan:
  "newly_skipped (finalize_if_done trigger_task branch_away) branch_away = [''a'']"
  "rs_status (finalize_if_done trigger_task branch_away) = RunDone"
proof -
  have nodes: "rs_nodes branch_away = [(''t'', Completed)]" "rs_status branch_away = RunRunning"
    "rs_skipped branch_away = {0}"
    by (simp_all add: branch_away_def first_state_def new_run_state_def)
  have ids: "bp_nodes trigger_task = [plain_node ''t'' ''manual_trigger'' None, sample_task ''a'']"
    "inbound trigger_task ''t'' = []" "inbound trigger_task ''a'' = [0]" "outbound trigger_task ''a'' = []"
    by (simp_all add: trigger_task_def inbound_def outbound_def edges_where_def plain_edge_def)
  have status: "status_or_pending branch_away i = (if i = ''t'' then Completed else Pending)" for i
    by (simp add: status_or_pending_def node_status_of_def nodes)
  let ?t = "skip_node trigger_task ''a'' branch_away"
  have "to_skip trigger_task branch_away = [''a'']" "to_skip trigger_task ?t = []"
    by (simp_all add: to_skip_def ids nodes status plain_node_def sample_task_def)
  then have cascade: "cascade_skips trigger_task branch_away = ?t"
    by (simp add: cascade_skips.simps)
  have after: "bt_insert ''a'' Skipped (rs_nodes branch_away) = [(''a'', Skipped), (''t'', Completed)]"
    by (simp add: nodes)
  have "step trigger_task ?t = []"
    by (simp add: step_def runnable_def ids status plain_node_def sample_task_def)
  then have fin: "finalize_if_done trigger_task branch_away = ?t\<lparr>rs_status := RunDone\<rparr>"
    by (simp add: finalize_if_done_def nodes cascade after Let_def)
  show "newly_skipped (finalize_if_done trigger_task branch_away) branch_away = [''a'']"
    by (simp add: fin newly_skipped_def after status)
  show "rs_status (finalize_if_done trigger_task branch_away) = RunDone" by (simp add: fin)
qed

lemma branch_away_facts: "state_ok branch_away" "rs_status branch_away = RunRunning" "rs_next_seq branch_away = 1"
proof -
  have "state_ok first_state"
    using safe_apply [OF run_ok_new [of trigger_task "''run''" "''wf''"], of first_event]
    by (simp add: first_event_folds run_ok_def)
  then show "state_ok branch_away" by (simp add: branch_away_def state_ok_def bt_wf_def)
qed (simp_all add: branch_away_def first_state_def new_run_state_def)

theorem finalize_phase_as_planned_witness:
  "\<exists>c d' w' evs. finalize_phase (mock_env mock_new) trigger_task branch_away (first_dir, []) = (Inr c, (d', w')) \<and>
     rs_status (control_state c) = RunDone \<and> rd_checkpoint d' = Some (Inr (control_state c)) \<and>
     rd_events d' = Inr first_event # map Inr evs \<and>
     map ev_kind evs = [NodeSkipped ''a'', RunCompleted] \<and> map ev_seq evs = [1, 2]"
proof -
  note b = branch_away_facts
  let ?t = "(skip_node trigger_task ''a'' branch_away)\<lparr>rs_next_seq := 2\<rparr>"
  let ?u = "?t\<lparr>rs_status := RunDone, rs_next_seq := 3\<rparr>"
  have "apply_event trigger_task branch_away \<lparr>ev_seq = rs_next_seq branch_away, ev_ts = ''now'',
      ev_kind = NodeSkipped ''a''\<rparr> = Inr ?t" by (simp add: apply_event_def b next_numbers)
  from mock_emit [OF this] obtain d1 where one: "emit (mock_env mock_new) trigger_task (NodeSkipped ''a'')
      branch_away (first_dir, []) = (Inr ?t, (d1, []))" by blast
  have "apply_event trigger_task ?t \<lparr>ev_seq = rs_next_seq ?t, ev_ts = ''now'', ev_kind = RunCompleted\<rparr> = Inr ?u"
    by (simp add: apply_event_def next_numbers)
  from mock_emit [OF this] obtain d2 where two: "emit (mock_env mock_new) trigger_task RunCompleted ?t
      (d1\<lparr>rd_checkpoint := Some (Inr ?t)\<rparr>, []) = (Inr ?u, (d2, []))" by blast
  have run: "finalize_phase (mock_env mock_new) trigger_task branch_away (first_dir, []) =
      (Inr (Leave ?u), (d2, []))"
    by (simp add: finalize_phase_def branch_away_plan act_bind_def one two write_checkpoint_def mock_io
        change_dir_def ret_def act_of_def Let_def)
  have whole: "\<not> rd_open first_dir" by (simp add: first_dir_def)
  note plan = finalize_phase_as_planned [OF b(1,2) whole run, unfolded branch_away_plan b(3)]
  then obtain evs where evs: "rd_events d2 = rd_events first_dir @ map Inr evs"
    "map ev_kind evs = map NodeSkipped [''a''] @ (if RunDone = RunDone then [RunCompleted] else [])"
    "map ev_seq evs = [1..<1 + length evs]" by blast
  have "length evs = 2" using arg_cong [OF evs(2), of length] by simp
  with evs have "rd_events d2 = Inr first_event # map Inr evs" "map ev_kind evs = [NodeSkipped ''a'', RunCompleted]"
    "map ev_seq evs = [1, 2]" by (simp_all add: first_dir_def upt_rec)
  with run plan show ?thesis
    by (intro exI [of _ "Leave ?u"] exI [of _ d2] exI [of _ "[]"] exI [of _ evs] conjI) simp_all
qed

section \<open>Valid examples\<close>

definition trigger_approval :: blueprint where
  "trigger_approval = trigger_task\<lparr>bp_nodes := [plain_node ''t'' ''manual_trigger'' None,
      plain_node ''a'' ''approval'' None]\<rparr>"

lemma two_node_graph:
  assumes "bp_nodes bp = [plain_node ''t'' ''manual_trigger'' None, n]" "nd_id n = ''a''"
    and "bp_edges bp = [plain_edge ''t'' ''out'' ''a'']"
    and "nd_parent n = None" "nd_type n \<noteq> ''loop''" "nd_type n \<noteq> ''decision''" "nd_type n \<noteq> ''message_send''"
    and "find_node_type (nd_type n) = Some d" "nt_supported d" "nt_inputs d = default_in"
    and "\<forall>f \<in> set (nt_fields d). report_is_valid (field_diags n f)"
  shows "ensure_valid_blueprint bp = Inr ()"
proof -
  have t: "nd_id (plain_node ''t'' ''manual_trigger'' None) = ''t''"
    "nd_type (plain_node ''t'' ''manual_trigger'' None) = ''manual_trigger''"
    "nd_parent (plain_node ''t'' ''manual_trigger'' None) = None"
    "nd_fields (plain_node ''t'' ''manual_trigger'' None) = []"
    by (simp_all add: plain_node_def)
  have find: "find_node bp ''t'' = Some (plain_node ''t'' ''manual_trigger'' None)" "find_node bp ''a'' = Some n"
    using assms(1,2) by (simp_all add: find_node_def t)
  have edge: "ed_from (plain_edge ''t'' ''out'' ''a'') = ''t''" "ed_to (plain_edge ''t'' ''out'' ''a'') = ''a''"
    "ed_from_port (plain_edge ''t'' ''out'' ''a'') = ''out''" "ed_to_port (plain_edge ''t'' ''out'' ''a'') = ''in''"
    by (simp_all add: plain_edge_def)
  have trigger: "nt_supported nt_manual_trigger" "\<forall>f \<in> set (nt_fields nt_manual_trigger). \<not> fd_required f"
    "declares_output_port nt_manual_trigger (plain_node ''t'' ''manual_trigger'' None) ''out''"
    by (simp_all add: nt_manual_trigger_def declares_output_port_def default_out_def port_new_def fd_new_def)
  have ids: "distinct (node_ids bp)" using assms(1,2) by (simp add: t)
  have "graph_rel bp \<subseteq> {(''t'', ''a'')}"
    using assms(1-3) by (auto simp: graph_rel_def known_edges_def edge split: if_splits)
  then have "acyclic (graph_rel bp)"
    by (rule acyclic_subset [rotated]) (simp add: acyclic_insert wf_acyclic)
  moreover have "edges_ok bp"
    unfolding edges_ok_def using assms(3,8,10) trigger
    by (auto simp: edge find t default_in_def port_new_def)
  moreover have "types_ok bp"
    unfolding types_ok_def using assms(1,8,9,11) trigger
    by (auto simp: t valid_simps)
  moreover have "parents_ok bp" using assms(1,4) by (simp add: parents_ok_def t)
  moreover have "loops_ok bp" using assms(1,5) by (simp add: loops_ok_def t)
  moreover have "values_ok bp"
    unfolding values_ok_def using assms(1,6,7,8,11) trigger
    by (auto simp: t valid_simps)
  ultimately show ?thesis
    using validate_iff [of bp] ids by (auto simp: ensure_valid_blueprint_def)
qed

lemma trigger_task_valid: "ensure_valid_blueprint trigger_task = Inr ()"
  by (rule two_node_graph [where n = "sample_task ''a''" and d = nt_task])
    (simp_all add: trigger_task_def sample_task_def nt_task_def valid_simps
      value_ok_def fd_new_def fd_make_required_def fd_with_help_def is_string_def)

lemma trigger_approval_valid: "ensure_valid_blueprint trigger_approval = Inr ()"
  by (rule two_node_graph [where n = "plain_node ''a'' ''approval'' None" and d = nt_approval])
    (simp_all add: trigger_approval_def trigger_task_def plain_node_def
      nt_approval_def valid_simps fd_new_def fd_with_help_def)

text \<open>A run parked at an approval.\<close>

definition parked_log :: "event list" where
  "parked_log = [first_event,
     \<lparr>ev_seq = 1, ev_ts = ''now'', ev_kind = NodeCompleted ''t'' jempty\<rparr>,
     \<lparr>ev_seq = 2, ev_ts = ''now'', ev_kind = AwaitingApproval ''a''\<rparr>]"

definition parked_dir :: run_dir where
  "parked_dir = \<lparr>rd_events = map Inr parked_log, rd_open = False, rd_checkpoint = None, rd_blueprint = None\<rparr>"

lemma first_event_folds':
  "bp_id bp = ''wf'' \<Longrightarrow> bp_schema bp = 2 \<Longrightarrow>
   apply_event bp (new_run_state ''run'' ''wf'') first_event = Inr first_state"
  by (simp add: apply_event_def first_event_def apply_run_started_def Let_def
      normalize_legacy_def new_run_state_def im_or_insert_def set_trigger_def write_registry_def
      runtime_trigger_output_def first_state_def)

lemma parked_recoverable:
  "\<exists>s. recoverable trigger_approval ''run'' s parked_dir \<and> rs_status s = RunAwaiting \<and>
     rs_blueprint_hash s = Some ''sha256:d'' \<and> rs_blueprint_id s = ''wf'' \<and> rs_next_seq s = 3"
proof -
  have id: "bp_id trigger_approval = ''wf''" "bp_schema trigger_approval = 2"
    by (simp_all add: trigger_approval_def trigger_task_def)
  have ok: "run_ok trigger_approval first_state"
    using safe_apply [OF run_ok_new [of trigger_approval "''run''" "''wf''"], of first_event]
    by (simp add: first_event_folds' id)
  obtain s1 where s1: "set_node_output ''t'' jempty first_state = Inr s1"
    using set_node_output_run_ok [OF ok] by blast
  then have same: "same_identity first_state s1"
    unfolding set_node_output_def by (rule same_identity_write) simp
  have find: "find_node trigger_approval ''t'' = Some (plain_node ''t'' ''manual_trigger'' None)"
    by (simp add: find_node_def trigger_approval_def plain_node_def)
  let ?s2 = "(deliver_from_port trigger_approval ''t'' ''out'' (set_node_status ''t'' Completed s1))\<lparr>rs_next_seq := Suc (Suc 0)\<rparr>"
  let ?s3 = "(set_node_status ''a'' Running ?s2)\<lparr>rs_status := RunAwaiting, rs_next_seq := 3\<rparr>"
  have "run_steps (apply_event trigger_approval) (new_run_state ''run'' ''wf'') parked_log = Inr ?s3"
    unfolding parked_log_def
    by (simp add: first_event_folds' id) (simp add: apply_event_def s1 find plain_node_def Let_def)
  then have "log_folds trigger_approval ''run'' parked_log ?s3"
    by (simp add: log_folds_def id parked_log_def seqd_def starts_run_def first_event_def)
  then have "recoverable trigger_approval ''run'' ?s3 parked_dir"
    unfolding recoverable_def by (intro exI [of _ parked_log]) (simp add: parked_dir_def)
  moreover have "rs_blueprint_hash s1 = Some ''sha256:d''" "rs_blueprint_id s1 = ''wf''"
    using same by (simp_all add: same_identity_def first_state_def new_run_state_def)
  ultimately show ?thesis by (intro exI [of _ ?s3]) simp
qed

lemma mock_read:
  "rd_events d = map Inr evs \<Longrightarrow> read_events (mock_env m) (d, w) = (Inr evs, (d, w))"
  by (simp add: read_events_def act_bind_def get_dir_def ret_def act_of_def parse_lines_Inr)

lemma mock_load:
  assumes "recoverable bp rid s d"
  shows "load_state (mock_env m) bp (d, w) = (Inr s, (d, w))"
proof -
  obtain evs c where evs: "rd_events d = map Inr evs" and c: "rd_checkpoint d = map_option Inr c"
    and fold: "fold_event_log (mock_env m) bp (case map_option normalize_legacy c of
       None \<Rightarrow> new_run_state ''rebuilt'' (bp_id bp) | Some s \<Rightarrow> s) evs = Inr s"
    using recoverable_fold [OF assms, of "mock_env m"] by blast
  note mock_read [OF evs, of m w]
  moreover have "read_checkpoint (mock_env m) (d, w) = (Inr (map_option normalize_legacy c), (d, w))"
    using c by (cases c) (simp_all add: read_checkpoint_def act_bind_def get_dir_def ret_def act_of_def)
  ultimately show ?thesis
    using fold by (simp add: load_state_def act_bind_def act_of_def)
qed

lemma mock_guard [simp]: "with_approval_guard (mock_env m) a w = a w"
  by (cases w; cases "a w")
    (simp add: with_approval_guard_def act_bind_def outside_def mock_env_def)

lemma mock_matches:
  "rs_blueprint_id s = bp_id bp \<Longrightarrow> rs_blueprint_hash s = Some ''sha256:d'' \<Longrightarrow>
   ensure_blueprint_matches (mock_env m) bp s = Inr ()"
  by (simp add: ensure_blueprint_matches_def blueprint_hash_def mock_env_def)

theorem approval_granted_once_witness:
  "\<exists>s' d' w'. record_approval_granted (mock_env mock_new) trigger_approval ''a'' ''me'' None (parked_dir, []) =
       (Inr s', (d', w')) \<and> rs_status s' = RunRunning \<and> status_or_pending s' ''a'' = Completed \<and>
     (\<forall>m actor note v r. fst (record_approval_granted (mock_env mock_new) trigger_approval m actor note (d', v)) \<noteq> Inr r)"
proof -
  obtain s where R: "recoverable trigger_approval ''run'' s parked_dir" and s: "rs_status s = RunAwaiting"
    "rs_blueprint_hash s = Some ''sha256:d''" "rs_blueprint_id s = ''wf''" "rs_next_seq s = 3"
    using parked_recoverable by blast
  let ?k = "ApprovalGranted ''a'' ''me'' None"
  have id: "bp_id trigger_approval = ''wf''" by (simp add: trigger_approval_def trigger_task_def)
  have events: "read_events (mock_env mock_new) (parked_dir, []) = (Inr parked_log, (parked_dir, []))"
    by (rule mock_read) (simp add: parked_dir_def)
  have node: "ensure_approval_node (mock_env mock_new) trigger_approval ''a'' (parked_dir, []) =
      (Inr (), (parked_dir, []))"
    by (simp add: ensure_approval_node_def act_bind_def events)
      (simp add: parked_log_def first_event_def is_approval_def find_node_def trigger_approval_def
        plain_node_def ret_def act_of_def)
  obtain t where "apply_event trigger_approval s \<lparr>ev_seq = rs_next_seq s, ev_ts = ''now'', ev_kind = ?k\<rparr> = Inr t"
    by (simp add: apply_event_def s next_numbers)
  from mock_emit [OF this] obtain d' where
    emit: "emit (mock_env mock_new) trigger_approval ?k s (parked_dir, []) = (Inr t, (d', []))" by blast
  have "record_approval_granted (mock_env mock_new) trigger_approval ''a'' ''me'' None (parked_dir, []) =
       (Inr t, (d', []))"
    using emit node s id
    by (simp add: record_approval_granted_def decide_def act_bind_def mock_load [OF R] act_of_def
        trigger_approval_valid mock_matches)
  note this approval_granted_once [OF _ this, unfolded Let_def]
  then show ?thesis by (simp add: parked_dir_def) blast
qed

theorem blueprint_guard_exact_witness:
  "ensure_blueprint_matches (mock_env mock_new) (trigger_task\<lparr>bp_body := ''notes''\<rparr>) first_state = Inr ()"
proof -
  have hash: "rs_blueprint_hash first_state = Some (blueprint_hash (mock_env mock_new) trigger_task)"
    by (simp add: first_state_def new_run_state_def blueprint_hash_def mock_env_def)
  have id: "rs_blueprint_id first_state = bp_id trigger_task"
    by (simp add: first_state_def new_run_state_def trigger_task_def)
  show ?thesis
    by (rule blueprint_guard_exact [OF hash id, of trigger_task, THEN conjunct2]) simp
qed

text \<open>A run interrupted while its task was running, resumed under a pending cancellation.\<close>

definition interrupted_log :: "event list" where
  "interrupted_log = [first_event, \<lparr>ev_seq = 1, ev_ts = ''now'', ev_kind = NodeStarted ''a''\<rparr>]"

definition interrupted_dir :: run_dir where
  "interrupted_dir = \<lparr>rd_events = map Inr interrupted_log, rd_open = False, rd_checkpoint = None, rd_blueprint = None\<rparr>"

definition cancelling_env :: "calls env" where
  "cancelling_env = (mock_env mock_new)\<lparr>en_cancel_requested := (\<lambda>w. (True, w))\<rparr>"

lemma interrupted_recoverable:
  "recoverable trigger_task ''run'' ((set_node_status ''a'' Running first_state)\<lparr>rs_next_seq := 2\<rparr>) interrupted_dir"
proof -
  have id: "bp_id trigger_task = ''wf''" "bp_schema trigger_task = 2" by (simp_all add: trigger_task_def)
  have "run_steps (apply_event trigger_task) (new_run_state ''run'' ''wf'') interrupted_log =
      Inr ((set_node_status ''a'' Running first_state)\<lparr>rs_next_seq := 2\<rparr>)"
    unfolding interrupted_log_def
    by (simp add: first_event_folds) (simp add: apply_event_def next_numbers)
  then have "log_folds trigger_task ''run'' interrupted_log
      ((set_node_status ''a'' Running first_state)\<lparr>rs_next_seq := 2\<rparr>)"
    by (simp add: log_folds_def id interrupted_log_def seqd_def starts_run_def first_event_def)
  then show ?thesis
    unfolding recoverable_def by (intro exI [of _ interrupted_log]) (simp add: interrupted_dir_def)
qed

lemma cancelling_same:
  "io (en_io cancelling_env) = io (en_io (mock_env mock_new))"
  "outside (en_now cancelling_env) = outside (en_now (mock_env mock_new))"
  "io (en_cancel_clear cancelling_env) w = (Inr (), w)"
  "en_append cancelling_env = en_append (mock_env mock_new)"
  "en_broken cancelling_env = en_broken (mock_env mock_new)"
  "en_cancel_requested cancelling_env v = (True, v)"
  "en_digest cancelling_env = en_digest (mock_env mock_new)"
  by (cases w) (simp_all add: cancelling_env_def mock_env_def io_def act_bind_def outside_def ret_def act_of_def)

lemma cancelling_files:
  "load_state cancelling_env bp = load_state (mock_env mock_new) bp"
  "emit cancelling_env bp k s = emit (mock_env mock_new) bp k s"
  "ensure_blueprint_matches cancelling_env bp s = ensure_blueprint_matches (mock_env mock_new) bp s"
proof -
  have debug: "en_debug cancelling_env = en_debug (mock_env mock_new)" by (simp add: cancelling_env_def)
  have "validate_event_identity cancelling_env = validate_event_identity (mock_env mock_new)"
    by (intro ext) (simp only: validate_event_identity_def debug)
  then have fold: "fold_event_log cancelling_env = fold_event_log (mock_env mock_new)"
    by (intro ext) (simp only: fold_event_log_def)
  show "load_state cancelling_env bp = load_state (mock_env mock_new) bp"
    unfolding load_state_def read_checkpoint_def read_events_def cancelling_same(1) fold ..
  show "emit cancelling_env bp k s = emit (mock_env mock_new) bp k s"
    unfolding emit_def append_event_def write_checkpoint_def cancelling_same(1,2,4,5) ..
  show "ensure_blueprint_matches cancelling_env bp s = ensure_blueprint_matches (mock_env mock_new) bp s"
    unfolding ensure_blueprint_matches_def blueprint_hash_def cancelling_same(7) ..
qed

theorem resume_reset_unlogged_witness:
  "\<exists>t d' w' evs u. resume 1 cancelling_env trigger_task (interrupted_dir, []) = Some (Inr t, (d', w')) \<and>
     rd_checkpoint d' = Some (Inr t) \<and> status_or_pending t ''a'' = Pending \<and>
     rd_events d' = map Inr evs \<and>
     run_steps (apply_event trigger_task) (new_run_state ''run'' ''wf'') evs = Inr u \<and>
     status_or_pending u ''a'' = Running"
proof -
  let ?s = "(set_node_status ''a'' Running first_state)\<lparr>rs_next_seq := 2\<rparr>"
  let ?r = "reset_in_flight trigger_task ?s"
  note R = interrupted_recoverable
  have whole: "\<not> rd_open interrupted_dir" by (simp add: interrupted_dir_def)
  have id: "bp_id trigger_task = ''wf''" by (simp add: trigger_task_def)
  have run: "rs_status ?s = RunRunning" by (simp add: first_state_def new_run_state_def)
  have match: "ensure_blueprint_matches (mock_env mock_new) trigger_task ?s = Inr ()"
    by (rule mock_matches) (simp_all add: id first_state_def new_run_state_def)
  have load: "resume_load cancelling_env trigger_task (interrupted_dir, []) = (Inr ?s, (interrupted_dir, []))"
    by (simp add: resume_load_def act_bind_def act_of_def trigger_task_valid cancelling_files
        mock_load [OF R] ret_def match)
  have quiet: "list_all (\<lambda>nd. nd_type nd \<noteq> ''message_send'') (bp_nodes trigger_task)"
    by (simp add: trigger_task_def plain_node_def sample_task_def)
  have task: "find_node trigger_task ''a'' = Some (sample_task ''a'')"
    by (simp add: find_node_def trigger_task_def plain_node_def sample_task_def)
  have "normal_state ?r"
    by (simp add: normal_state_def first_state_def new_run_state_def)
  then have "normalize_legacy ?r = ?r" by (rule normal_state_fix)
  moreover have "filter (\<lambda>nd. nd_type nd = ''message_send'') (bp_nodes trigger_task) = []"
    using quiet by (auto simp: filter_empty_conv list_all_iff)
  ultimately have start: "drive_start cancelling_env trigger_task ?r = ret (Proceed ?r)"
    by (simp add: drive_start_def Let_def)
  obtain t where t: "apply_event trigger_task ?r \<lparr>ev_seq = rs_next_seq ?r, ev_ts = ''now'', ev_kind = cancel_event\<rparr> = Inr t"
    by (simp add: apply_event_def cancel_event_def next_numbers)
  from mock_emit [OF this] obtain d' where
    emit: "emit cancelling_env trigger_task cancel_event ?r (interrupted_dir, []) = (Inr t, (d', []))"
    by (metis cancelling_files(2))
  have "drive_round cancelling_env trigger_task ?r (interrupted_dir, []) = (Inr (Leave t), (d', []))"
    using run emit
    by (simp add: drive_round_def then_do_def check_cancel_def act_bind_def outside_def cancelling_same
        ret_def act_of_def)
  then have "resume 1 cancelling_env trigger_task (interrupted_dir, []) = Some (Inr t, (d', []))"
    using load start run by (simp add: resume_def drive_def ret_def act_of_def)
  from resume_reset_unlogged [OF R run whole _ task _ quiet cancelling_same(6) this] this
  show ?thesis by (auto simp: sample_task_def id)
qed

end
