(* ===== verification/Engine_Termination.thy ===== *)
theory Engine_Termination
  imports Engine_Progress
begin

text \<open>
  Every run of a valid automation returns, loops included. A rank of the run state, bounded by
  the size of the blueprint and the 32 bits of an iteration count, falls in every round of the
  main loop that goes on.
\<close>

section \<open>The rank of a run state\<close>

definition loop_ids :: "blueprint \<Rightarrow> string set" where
  "loop_ids bp = {nd_id nd | nd. nd \<in> set (bp_nodes bp) \<and> nd_type nd = ''loop''}"

text \<open>The iterations a loop has left, the entry counted as one.\<close>

definition loop_rest :: "run_state \<Rightarrow> string \<Rightarrow> nat" where
  "loop_rest s lp =
     (case status_or_pending s lp of
        Pending \<Rightarrow> 2 ^ 32 + 1
      | Skipped \<Rightarrow> 2 ^ 32 + 1
      | Running \<Rightarrow> 2 ^ 32 - unat (loop_iteration_of s lp)
      | _ \<Rightarrow> 0)"

definition loops_left :: "blueprint \<Rightarrow> run_state \<Rightarrow> nat" where
  "loops_left bp s = (\<Sum>lp \<in> loop_ids bp. loop_rest s lp)"

definition open_ids :: "blueprint \<Rightarrow> run_state \<Rightarrow> string set" where
  "open_ids bp s = {i \<in> set (node_ids bp). status_or_pending s i \<notin> {Completed, Failed}}"

text \<open>Iterations left first, then the nodes not at their end, then the pending nodes.\<close>

definition rank :: "blueprint \<Rightarrow> run_state \<Rightarrow> nat" where
  "rank bp s =
     (let n = Suc (length (bp_nodes bp))
      in (loops_left bp s * n + card (open_ids bp s)) * n + card (pending_ids bp s))"

definition round_bound :: "blueprint \<Rightarrow> nat" where
  "round_bound bp =
     (let n = Suc (length (bp_nodes bp)) in Suc ((n * (2 ^ 32 + 1) * n + n) * n + n))"

lemma finite_loop_ids [simp]: "finite (loop_ids bp)"
  by (simp add: loop_ids_def)

lemma loop_ids_sub: "loop_ids bp \<subseteq> set (node_ids bp)"
  by (auto simp: loop_ids_def)

lemma loop_rest_cong:
  "status_or_pending t lp = status_or_pending s lp \<Longrightarrow> rs_loop_iter t lp = rs_loop_iter s lp \<Longrightarrow>
   loop_rest t lp = loop_rest s lp"
  by (simp add: loop_rest_def loop_iteration_of_def split: node_status.split)

lemma loop_rest_waiting: "status_or_pending s lp \<in> {Pending, Skipped} \<Longrightarrow> loop_rest s lp = 2 ^ 32 + 1"
  by (auto simp: loop_rest_def)

lemma loop_rest_seq [simp]: "loop_rest (s\<lparr>rs_next_seq := q\<rparr>) = loop_rest s"
  by (rule ext, rule loop_rest_cong) simp_all

lemma open_ids_finite [simp]: "finite (open_ids bp s)"
  by (simp add: open_ids_def)

lemma pending_ids_finite [simp]: "finite (pending_ids bp s)"
  by (simp add: pending_ids_def)

lemma ids_card: "A \<subseteq> set (node_ids bp) \<Longrightarrow> card A < Suc (length (bp_nodes bp))"
proof -
  assume "A \<subseteq> set (node_ids bp)"
  then have "card A \<le> card (set (node_ids bp))" by (simp add: card_mono)
  also have "\<dots> \<le> length (node_ids bp)" by (rule card_length)
  finally show ?thesis by simp
qed

lemma open_card: "card (open_ids bp s) < Suc (length (bp_nodes bp))"
  by (rule ids_card) (auto simp: open_ids_def)

lemma pending_card: "card (pending_ids bp s) < Suc (length (bp_nodes bp))"
  by (rule ids_card) (auto simp: pending_ids_def)

lemma digit_less: "a < (b :: nat) \<Longrightarrow> x < n \<Longrightarrow> a * n + x < b * n + y"
proof -
  assume "a < b" "x < n"
  then have "a * n + x < Suc a * n" by simp
  also have "\<dots> \<le> b * n" using \<open>a < b\<close> by (intro mult_le_mono1) simp
  finally show ?thesis by simp
qed

lemma rank_loops: "loops_left bp t < loops_left bp s \<Longrightarrow> rank bp t < rank bp s"
  unfolding rank_def Let_def by (intro digit_less open_card pending_card)

lemma rank_open:
  "loops_left bp t \<le> loops_left bp s \<Longrightarrow> card (open_ids bp t) < card (open_ids bp s) \<Longrightarrow> rank bp t < rank bp s"
  unfolding rank_def Let_def
  by (intro digit_less pending_card add_le_less_mono mult_le_mono1)

lemma rank_pending:
  "loops_left bp t \<le> loops_left bp s \<Longrightarrow> card (open_ids bp t) \<le> card (open_ids bp s) \<Longrightarrow>
   card (pending_ids bp t) < card (pending_ids bp s) \<Longrightarrow> rank bp t < rank bp s"
  unfolding rank_def Let_def
  by (intro add_le_less_mono mult_le_mono1 add_mono)

lemma rank_mono:
  "loops_left bp t \<le> loops_left bp s \<Longrightarrow> card (open_ids bp t) \<le> card (open_ids bp s) \<Longrightarrow>
   card (pending_ids bp t) \<le> card (pending_ids bp s) \<Longrightarrow> rank bp t \<le> rank bp s"
  unfolding rank_def Let_def
  by (intro add_mono mult_le_mono1)

lemma loop_rest_bound: "loop_rest s lp \<le> 2 ^ 32 + 1"
  by (auto simp: loop_rest_def split: node_status.split intro: le_trans [OF diff_le_self])

lemma rank_bound: "rank bp s < round_bound bp"
proof -
  let ?n = "Suc (length (bp_nodes bp))"
  have "loops_left bp s \<le> card (loop_ids bp) * (2 ^ 32 + 1)"
    unfolding loops_left_def using sum_bounded_above [of "loop_ids bp" "loop_rest s" "2 ^ 32 + 1"]
      loop_rest_bound by simp
  also have "\<dots> \<le> ?n * (2 ^ 32 + 1)"
    using ids_card [OF loop_ids_sub] by (intro mult_le_mono1) (rule less_imp_le)
  finally have loops: "loops_left bp s \<le> ?n * (2 ^ 32 + 1)" .
  have "rank bp s \<le> (?n * (2 ^ 32 + 1) * ?n + ?n) * ?n + ?n"
    unfolding rank_def Let_def
    using open_card [of bp s] pending_card [of bp s] loops
    by (intro add_mono mult_le_mono1) simp_all
  then show ?thesis by (simp only: round_bound_def Let_def less_Suc_eq_le)
qed

section \<open>Moves that lower the rank\<close>

text \<open>Outside the nodes \<open>X\<close> the only change is that a skipped node is woken.\<close>

definition only_wakes :: "run_state \<Rightarrow> string set \<Rightarrow> run_state \<Rightarrow> bool" where
  "only_wakes s X t \<longleftrightarrow> (\<forall>m. m \<notin> X \<longrightarrow>
     status_or_pending t m = status_or_pending s m \<or>
     status_or_pending s m = Skipped \<and> status_or_pending t m = Pending)"

definition same_iters :: "run_state \<Rightarrow> string set \<Rightarrow> run_state \<Rightarrow> bool" where
  "same_iters s X t \<longleftrightarrow> (\<forall>m. m \<notin> X \<longrightarrow> rs_loop_iter t m = rs_loop_iter s m)"

lemma only_wakes_rest:
  "only_wakes s X t \<Longrightarrow> same_iters s Y t \<Longrightarrow> m \<notin> X \<union> Y \<Longrightarrow> loop_rest t m = loop_rest s m"
  by (cases "status_or_pending t m = status_or_pending s m")
    (auto simp: only_wakes_def same_iters_def loop_rest_waiting intro: loop_rest_cong)

lemma loops_left_le:
  assumes "only_wakes s X t" "same_iters s Y t"
    and "\<And>m. m \<in> loop_ids bp \<Longrightarrow> m \<in> X \<union> Y \<Longrightarrow> loop_rest t m \<le> loop_rest s m"
  shows "loops_left bp t \<le> loops_left bp s"
  unfolding loops_left_def
  by (rule sum_mono) (metis assms only_wakes_rest order_refl)

lemma loops_left_less:
  assumes "only_wakes s X t" "same_iters s Y t"
    and "\<And>m. m \<in> loop_ids bp \<Longrightarrow> m \<in> X \<union> Y \<Longrightarrow> loop_rest t m \<le> loop_rest s m"
    and "lp \<in> loop_ids bp" "loop_rest t lp < loop_rest s lp"
  shows "loops_left bp t < loops_left bp s"
  unfolding loops_left_def
  by (rule sum_strict_mono_ex1) (use assms only_wakes_rest in \<open>auto intro!: bexI [of _ lp], metis order_refl\<close>)

lemma only_wakes_open:
  assumes "only_wakes s X t" "X \<inter> set (node_ids bp) \<subseteq> open_ids bp s"
  shows "open_ids bp t \<subseteq> open_ids bp s"
  using assms by (fastforce simp: only_wakes_def open_ids_def)

text \<open>A pending node ends, is skipped, or is a loop that is entered.\<close>

lemma rank_ended:
  assumes "only_wakes s {i} t" "same_iters s {} t" "i \<in> set (node_ids bp)"
    and "status_or_pending s i = Pending" "status_or_pending t i \<in> {Completed, Failed}"
  shows "rank bp t < rank bp s"
proof (rule rank_open)
  show "loops_left bp t \<le> loops_left bp s"
    by (rule loops_left_le [OF assms(1,2)]) (use assms(5) in \<open>auto simp: loop_rest_def\<close>)
  have "i \<in> open_ids bp s" "i \<notin> open_ids bp t" using assms(3-5) by (auto simp: open_ids_def)
  moreover have "open_ids bp t \<subseteq> open_ids bp s"
    by (rule only_wakes_open [OF assms(1)]) (use \<open>i \<in> open_ids bp s\<close> in blast)
  ultimately have "open_ids bp t \<subset> open_ids bp s" by blast
  then show "card (open_ids bp t) < card (open_ids bp s)" by (simp add: psubset_card_mono)
qed

text \<open>Nodes that are pending are skipped and no other moves.\<close>

lemma rank_skips:
  assumes "\<And>m. status_or_pending t m = (if m \<in> X then Skipped else status_or_pending s m)"
    and "\<And>m. m \<in> X \<Longrightarrow> status_or_pending s m = Pending" "same_iters s {} t"
  shows "rank bp t \<le> rank bp s" "i \<in> X \<Longrightarrow> i \<in> set (node_ids bp) \<Longrightarrow> rank bp t < rank bp s"
proof -
  have rest: "loop_rest t m = loop_rest s m" for m
    using assms(1) [of m] assms(2) [of m] assms(3)
    by (cases "m \<in> X") (auto simp: same_iters_def loop_rest_waiting intro: loop_rest_cong)
  have loops: "loops_left bp t \<le> loops_left bp s" by (simp add: loops_left_def rest)
  have "open_ids bp t = open_ids bp s"
    using assms(1,2) by (force simp: open_ids_def)
  then have opens: "card (open_ids bp t) \<le> card (open_ids bp s)" by simp
  have sub: "pending_ids bp t \<subseteq> pending_ids bp s" using assms(1) by (auto simp: pending_ids_def)
  then show "rank bp t \<le> rank bp s" by (intro rank_mono loops opens) (simp add: card_mono)
  assume "i \<in> X" "i \<in> set (node_ids bp)"
  then have "i \<in> pending_ids bp s" "i \<notin> pending_ids bp t"
    using assms(1,2) by (auto simp: pending_ids_def)
  with sub have "pending_ids bp t \<subset> pending_ids bp s" by blast
  then show "rank bp t < rank bp s" by (intro rank_pending loops opens) (simp add: psubset_card_mono)
qed

lemma rank_entered:
  assumes "only_wakes s {i} t" "same_iters s {i} t" "i \<in> loop_ids bp"
    and "status_or_pending s i = Pending" "status_or_pending t i = Running"
  shows "rank bp t < rank bp s"
proof (rule rank_loops, rule loops_left_less [OF assms(1,2) _ assms(3)])
  have "loop_rest t i \<le> 2 ^ 32" using assms(5) by (simp add: loop_rest_def)
  moreover have "loop_rest s i = 2 ^ 32 + 1" using assms(4) by (simp add: loop_rest_def)
  ultimately show less: "loop_rest t i < loop_rest s i" by simp
  fix m assume "m \<in> {i} \<union> {i}"
  with less show "loop_rest t m \<le> loop_rest s m" by simp
qed

text \<open>A running loop goes to its next iteration or completes; the nodes of its body are no loops.\<close>

lemma rank_advanced:
  assumes "only_wakes s (insert lp (set body)) t" "same_iters s {lp} t" "set body \<inter> loop_ids bp = {}"
    and "lp \<in> loop_ids bp" "loop_rest t lp < loop_rest s lp"
  shows "rank bp t < rank bp s"
  by (rule rank_loops, rule loops_left_less [OF assms(1,2) _ assms(4,5)])
    (use assms(3,5) in auto)

section \<open>States with room for another iteration\<close>

definition iters_ok :: "run_state \<Rightarrow> bool" where
  "iters_ok s \<longleftrightarrow> (\<forall>lp k. rs_loop_iter s lp = Some k \<longrightarrow> k \<noteq> - 1)"

definition bounded :: "blueprint \<Rightarrow> run_state \<Rightarrow> bool" where
  "bounded bp s \<longleftrightarrow> run_ok bp s \<and> iters_ok s"

lemma iters_ok_same: "same_iters s {} t \<Longrightarrow> iters_ok s \<Longrightarrow> iters_ok t"
  by (simp add: iters_ok_def same_iters_def)

lemma same_iters_fields [simp]:
  "same_iters s X (t\<lparr>rs_status := a\<rparr>) = same_iters s X t"
  "same_iters s X (t\<lparr>rs_next_seq := b\<rparr>) = same_iters s X t"
  "same_iters s X (t\<lparr>rs_failure := c\<rparr>) = same_iters s X t"
  "same_iters s X (set_node_status i st t) = same_iters s X t"
  "same_iters s X (deliver_from_port bp n port t) = same_iters s X t"
  "same_iters s X (skip_node bp n t) = same_iters s X t"
  "same_iters s X s"
  by (simp_all add: same_iters_def)

lemma iters_ok_fields [simp]:
  "iters_ok (t\<lparr>rs_status := a\<rparr>) = iters_ok t"
  "iters_ok (t\<lparr>rs_next_seq := b\<rparr>) = iters_ok t"
  "iters_ok (t\<lparr>rs_failure := c\<rparr>) = iters_ok t"
  "iters_ok (t\<lparr>rs_registry := d\<rparr>) = iters_ok t"
  "iters_ok (t\<lparr>rs_deliveries := e\<rparr>) = iters_ok t"
  "iters_ok (set_node_status i st t) = iters_ok t"
  "iters_ok (deliver_from_port bp n port t) = iters_ok t"
  "iters_ok (skip_node bp n t) = iters_ok t"
  by (simp_all add: iters_ok_def)

lemma same_iters_registry [simp]: "same_iters s X (t\<lparr>rs_registry := r\<rparr>) = same_iters s X t"
  by (simp add: same_iters_def)

lemma only_wakes_fields [simp]:
  "only_wakes s X (t\<lparr>rs_status := a\<rparr>) = only_wakes s X t"
  "only_wakes s X (t\<lparr>rs_next_seq := b\<rparr>) = only_wakes s X t"
  "only_wakes s X (t\<lparr>rs_failure := c\<rparr>) = only_wakes s X t"
  "only_wakes s X s"
  by (simp_all add: only_wakes_def)

lemma only_wakes_set: "i \<in> X \<Longrightarrow> only_wakes s X t \<Longrightarrow> only_wakes s X (set_node_status i st t)"
  by (auto simp: only_wakes_def)

lemma only_wakes_deliver: "only_wakes s X t \<Longrightarrow> only_wakes s X (deliver_from_port bp n port t)"
  by (auto simp: only_wakes_def deliver_from_port_exact)

lemma rank_seq [simp]: "rank bp (s\<lparr>rs_next_seq := q\<rparr>) = rank bp s"
  by (simp add: rank_def loops_left_def open_ids_def pending_ids_def)

section \<open>What a dispatch does to the rank\<close>

text \<open>
  While node \<open>i\<close> runs only its own status changes (\<open>held\<close>); when it is done the rank has
  fallen, unless the run waits for an approval, and the nodes that were pending still are.
\<close>

definition held :: "blueprint \<Rightarrow> run_state \<Rightarrow> string \<Rightarrow> run_state \<Rightarrow> bool" where
  "held bp s i t \<longleftrightarrow> bounded bp t \<and> same_iters s {} t \<and>
     (\<forall>m. m \<noteq> i \<longrightarrow> status_or_pending t m = status_or_pending s m)"

definition falls :: "blueprint \<Rightarrow> run_state \<Rightarrow> string \<Rightarrow> run_state \<Rightarrow> bool" where
  "falls bp s i t \<longleftrightarrow> bounded bp t \<and> (rs_status t = RunAwaiting \<or> rank bp t < rank bp s) \<and>
     (\<forall>m. m \<noteq> i \<longrightarrow> status_or_pending s m = Pending \<longrightarrow> status_or_pending t m = Pending)"

definition starting :: "blueprint \<Rightarrow> run_state \<Rightarrow> string \<Rightarrow> bool" where
  "starting bp s i \<longleftrightarrow> bounded bp s \<and> i \<in> set (node_ids bp) \<and> status_or_pending s i = Pending"

lemma starting_held: "starting bp s i \<Longrightarrow> held bp s i s"
  by (simp add: starting_def held_def)

lemma held_ok: "held bp s i t \<Longrightarrow> run_ok bp t"
  by (simp add: held_def bounded_def)

lemma held_falls:
  assumes "starting bp s i" "held bp s i u" "only_wakes u {i} t" "same_iters u {} t" "run_ok bp t"
    and "status_or_pending t i \<in> {Completed, Failed}"
  shows "falls bp s i t"
proof -
  have wakes: "only_wakes s {i} t" using assms(2,3) by (simp add: only_wakes_def held_def)
  have iters: "same_iters s {} t" using assms(2,4) by (simp add: same_iters_def held_def)
  have "iters_ok t" using iters_ok_same [OF iters] assms(1) by (simp add: starting_def bounded_def)
  moreover have "rank bp t < rank bp s"
    by (rule rank_ended [OF wakes iters _ _ assms(6)]) (use assms(1) in \<open>simp_all add: starting_def\<close>)
  ultimately show ?thesis using wakes assms(5)
    by (auto simp: falls_def bounded_def only_wakes_def)
qed

lemma held_skips:
  assumes "starting bp s i" "held bp s i u"
  shows "falls bp s i ((skip_node bp i u)\<lparr>rs_next_seq := q\<rparr>)"
proof -
  let ?t = "skip_node bp i u"
  have status: "status_or_pending ?t m = (if m \<in> {i} then Skipped else status_or_pending s m)" for m
    using assms(2) by (simp add: held_def)
  have iters: "same_iters s {} ?t" using assms(2) by (simp add: held_def)
  have "run_ok bp ?t" using held_ok [OF assms(2)] by auto
  moreover have "iters_ok ?t" using iters_ok_same [OF iters] assms(1) by (simp add: starting_def bounded_def)
  moreover have "rank bp ?t < rank bp s"
    by (rule rank_skips(2) [OF status _ iters, where i = i]) (use assms(1) in \<open>simp_all add: starting_def\<close>)
  ultimately show ?thesis using assms(2) by (auto simp: falls_def bounded_def held_def)
qed

text \<open>The events of a dispatch.\<close>

lemma yields_started_held:
  assumes "starting bp s i"
  shows "yields (emit env bp (NodeStarted i) s) (held bp s i)"
proof (rule yields_emit_ok [OF held_ok [OF starting_held [OF assms]]])
  fix ts u q assume u: "apply_kind bp ts (NodeStarted i) s = Inr u" and ok: "run_ok bp (u\<lparr>rs_next_seq := q\<rparr>)"
  then show "held bp s i (u\<lparr>rs_next_seq := q\<rparr>)"
    using assms by (auto simp: held_def bounded_def starting_def)
qed

lemma yields_held_quiet:
  assumes "held bp s i t"
    and "k = StateUpdated n op entries \<or> k = Notification n msg"
  shows "yields (emit env bp k t) (held bp s i)"
proof (rule yields_emit_ok [OF held_ok [OF assms(1)]])
  fix ts u q assume u: "apply_kind bp ts k t = Inr u" and ok: "run_ok bp (u\<lparr>rs_next_seq := q\<rparr>)"
  have "\<exists>r. u = t\<lparr>rs_registry := r\<rparr>"
  proof (cases "k = Notification n msg")
    case True
    with u have "u = t\<lparr>rs_registry := rs_registry t\<rparr>" by simp
    then show ?thesis ..
  next
    case False
    with assms(2) u show ?thesis
      by (auto simp: apply_state_update_def dest!: write_registry_fields split: option.splits if_splits)
  qed
  then obtain r where "u = t\<lparr>rs_registry := r\<rparr>" ..
  with assms(1) ok show "held bp s i (u\<lparr>rs_next_seq := q\<rparr>)"
    by (simp add: held_def bounded_def)
qed

lemma yields_falls_failed:
  assumes "starting bp s i" "held bp s i u"
  shows "yields (emit env bp (NodeFailed i err) u) (falls bp s i)"
proof (rule yields_emit_ok [OF held_ok [OF assms(2)]])
  fix ts t q assume t: "apply_kind bp ts (NodeFailed i err) u = Inr t" and ok: "run_ok bp (t\<lparr>rs_next_seq := q\<rparr>)"
  show "falls bp s i (t\<lparr>rs_next_seq := q\<rparr>)"
    by (rule held_falls [OF assms _ _ ok]) (use t in \<open>auto simp: only_wakes_def\<close>)
qed

lemma yields_falls_delivered:
  assumes "starting bp s i" "held bp s i u"
    and "\<And>ts t. apply_kind bp ts k u = Inr t \<Longrightarrow> \<exists>v port. v = u\<lparr>rs_registry := rs_registry v\<rparr> \<and>
      t \<in> {set_node_status i Completed v, deliver_from_port bp i port (set_node_status i Completed v)}"
  shows "yields (emit env bp k u) (falls bp s i)"
proof (rule yields_emit_ok [OF held_ok [OF assms(2)]])
  fix ts t q assume t: "apply_kind bp ts k u = Inr t" and ok: "run_ok bp (t\<lparr>rs_next_seq := q\<rparr>)"
  from assms(3) [OF t] obtain v port where v: "v = u\<lparr>rs_registry := rs_registry v\<rparr>"
    and t: "t \<in> {set_node_status i Completed v, deliver_from_port bp i port (set_node_status i Completed v)}"
    by blast
  have same: "status_or_pending v m = status_or_pending u m" "rs_loop_iter v m = rs_loop_iter u m" for m
    by (subst v, simp)+
  have "only_wakes u {i} (set_node_status i Completed v)" by (simp add: only_wakes_def same)
  moreover from this have "only_wakes u {i} (deliver_from_port bp i port (set_node_status i Completed v))"
    by (rule only_wakes_deliver)
  moreover have "same_iters u {} v" by (simp add: same_iters_def same)
  ultimately show "falls bp s i (t\<lparr>rs_next_seq := q\<rparr>)"
    using t by (intro held_falls [OF assms(1,2) _ _ ok]) (auto simp: deliver_from_port_exact)
qed

lemma yields_falls_completed:
  assumes "starting bp s i" "held bp s i u"
  shows "yields (emit env bp (NodeCompleted i out) u) (falls bp s i)"
    "yields (emit env bp (DecisionCompleted i out port) u) (falls bp s i)"
    "yields (emit env bp (BranchTaken i port) u) (falls bp s i)"
proof -
  have out: "set_node_output i out u = Inr v \<Longrightarrow> v = u\<lparr>rs_registry := rs_registry v\<rparr>" for v
    unfolding set_node_output_def by (rule write_registry_fields)
  show "yields (emit env bp (NodeCompleted i out) u) (falls bp s i)"
    by (rule yields_falls_delivered [OF assms])
      (auto simp: res_bind_eq_Inr Let_def dest!: out split: if_splits)
  show "yields (emit env bp (DecisionCompleted i out port) u) (falls bp s i)"
    by (rule yields_falls_delivered [OF assms]) (auto simp: res_bind_eq_Inr dest!: out)
  show "yields (emit env bp (BranchTaken i port) u) (falls bp s i)"
    by (rule yields_falls_delivered [OF assms]) (auto intro!: exI [of _ u])
qed

lemma yields_falls_skipped:
  assumes "starting bp s i" "held bp s i u"
  shows "yields (emit env bp (NodeSkipped i) u) (falls bp s i)"
  by (rule yields_emit_kind) (use held_skips [OF assms] in auto)

lemma yields_falls_awaiting:
  assumes "starting bp s i"
  shows "yields (emit env bp (AwaitingApproval i) s) (falls bp s i)"
proof (rule yields_emit_ok [OF held_ok [OF starting_held [OF assms]]])
  fix ts t q assume t: "apply_kind bp ts (AwaitingApproval i) s = Inr t" and ok: "run_ok bp (t\<lparr>rs_next_seq := q\<rparr>)"
  with assms show "falls bp s i (t\<lparr>rs_next_seq := q\<rparr>)"
    by (auto simp: falls_def bounded_def starting_def)
qed

lemma yields_falls_entered:
  assumes "starting bp s i" "i \<in> loop_ids bp"
  shows "yields (emit_loop_enter env bp i s) (falls bp s i)"
  unfolding emit_loop_enter_def
proof (rule yields_emit_ok [OF held_ok [OF starting_held [OF assms(1)]]])
  fix ts t q assume run: "apply_kind bp ts (LoopIteration i 0) s = Inr t"
    and ok: "run_ok bp (t\<lparr>rs_next_seq := q\<rparr>)"
  let ?u = "(set_node_status i Running s)\<lparr>rs_loop_iter := (rs_loop_iter s)(i \<mapsto> 0)\<rparr>"
  from run have t: "t = deliver_from_port bp i ''body'' ?u" by (simp add: apply_loop_iteration_def)
  have wakes: "only_wakes s {i} t"
    unfolding t by (rule only_wakes_deliver) (simp add: only_wakes_def)
  have "same_iters s {i} t" "status_or_pending t i = Running"
    by (simp_all add: t same_iters_def deliver_from_port_exact)
  then have "rank bp t < rank bp s"
    by (intro rank_entered [OF wakes _ assms(2)]) (use assms(1) in \<open>simp_all add: starting_def\<close>)
  moreover have "iters_ok t"
    using assms(1) by (simp add: t starting_def bounded_def iters_ok_def)
  ultimately show "falls bp s i (t\<lparr>rs_next_seq := q\<rparr>)"
    using ok wakes by (auto simp: falls_def bounded_def only_wakes_def)
qed

lemma dispatch_state_falls:
  assumes "starting bp s (nd_id nd)"
  shows "yields (dispatch_state env bp nd s) (falls bp s (nd_id nd))"
  unfolding dispatch_state_def
proof (rule yields_bind [OF yields_started_held [OF assms]])
  let ?i = "nd_id nd"
  fix t assume t: "held bp s ?i t"
  have updated: "yields (case update of None \<Rightarrow> ret t
      | Some (op, entries) \<Rightarrow> emit env bp (StateUpdated ?i op entries) t) (held bp s ?i)" for update
    by (cases update) (auto simp: t intro: yields_held_quiet [OF t])
  show "yields (case execute_state env t nd of
       Inr (out, update) \<Rightarrow>
         act_bind (case update of None \<Rightarrow> ret t
           | Some (op, entries) \<Rightarrow> emit env bp (StateUpdated ?i op entries) t)
         (\<lambda>s2. emit env bp (NodeCompleted ?i out) s2)
     | Inl e \<Rightarrow> emit env bp (NodeFailed ?i e) t) (falls bp s ?i)"
    by (auto split: sum.split intro!: yields_falls_failed [OF assms t] yields_bind [OF updated]
        yields_falls_completed(1) [OF assms])
qed

lemma dispatch_effect_falls:
  assumes "starting bp s (nd_id nd)"
  shows "yields (dispatch_effect env bp nd s) (falls bp s (nd_id nd))"
  unfolding dispatch_effect_def
proof (rule yields_bind [OF yields_started_held [OF assms]], rule yields_skip)
  let ?i = "nd_id nd"
  fix t r assume t: "held bp s ?i t"
  have notified: "yields (case n of None \<Rightarrow> ret t | Some msg \<Rightarrow> emit env bp (Notification ?i msg) t)
      (held bp s ?i)" for n
    by (cases n) (auto simp: t intro: yields_held_quiet [OF t])
  let ?settle = "\<lambda>st. act_bind (case es_notification st of None \<Rightarrow> ret t
        | Some msg \<Rightarrow> emit env bp (Notification ?i msg) t)
      (\<lambda>s2. case es_chosen_port st of
          Some port \<Rightarrow> emit env bp (DecisionCompleted ?i (es_output st) port) s2
        | None \<Rightarrow> emit env bp (NodeCompleted ?i (es_output st)) s2)"
  have settle: "yields (?settle st) (falls bp s ?i)" for st
    by (rule yields_bind [OF notified])
      (auto split: option.split intro: yields_falls_completed [OF assms])
  show "yields (case r of
      Inr st \<Rightarrow> ?settle st
    | Inl e \<Rightarrow> if skipped_reason e \<noteq> None then emit env bp (NodeSkipped ?i) t
        else emit env bp (NodeFailed ?i e) t) (falls bp s ?i)"
    using settle by (auto split: sum.split intro!: yields_falls_failed [OF assms t]
        yields_falls_skipped [OF assms t])
qed

lemma dispatch_falls:
  assumes "starting bp s i" "distinct (node_ids bp)"
  shows "yields (dispatch env bp i s) (falls bp s i)"
proof (cases "find_node bp i")
  case None
  then show ?thesis by (simp add: dispatch_def)
next
  case (Some nd)
  then have i: "nd_id nd = i" "nd \<in> set (bp_nodes bp)" using find_node_Some by auto
  note start = assms(1) [folded i(1)]
  note held = starting_held [OF start]
  have enter: "yields (emit_loop_enter env bp i s) (falls bp s (nd_id nd))" if "nd_type nd = ''loop''"
    unfolding i(1) by (rule yields_falls_entered [OF assms(1)]) (use that i in \<open>auto simp: loop_ids_def\<close>)
  have "yields (dispatch env bp i s) (falls bp s (nd_id nd))"
    unfolding dispatch_def Some option.case
    using enter
    by (auto split: sum.split intro: yields_falls_failed [OF start held]
        yields_falls_completed [OF start held] yields_falls_awaiting [OF start]
        dispatch_state_falls [OF start] dispatch_effect_falls [OF start])
  then show ?thesis by (simp only: i(1))
qed

lemma after_dispatch_goes_on:
  "yields (after_dispatch env bp s) (proceeds (\<lambda>t. t = s \<and> rs_status s \<noteq> RunAwaiting))"
  unfolding after_dispatch_def by (auto intro!: yields_skip)

lemma dispatch_all_falls:
  assumes "distinct (node_ids bp)" "distinct is" "bounded bp s"
    and "\<forall>i \<in> set is. i \<in> set (node_ids bp) \<and> status_or_pending s i = Pending"
  shows "yields (dispatch_all env bp is s) (proceeds (\<lambda>t. bounded bp t \<and>
    rank bp t \<le> rank bp s \<and> (is \<noteq> [] \<longrightarrow> rank bp t < rank bp s)))"
  using assms(2-4)
proof (induction "is" arbitrary: s)
  case Nil
  then show ?case by simp
next
  case (Cons i "is")
  then have start: "starting bp s i" by (simp add: starting_def)
  let ?went = "\<lambda>t. bounded bp t \<and> rank bp t < rank bp s \<and>
    (\<forall>m. m \<noteq> i \<longrightarrow> status_or_pending s m = Pending \<longrightarrow> status_or_pending t m = Pending)"
  have "yields (act_bind (dispatch env bp i s) (after_dispatch env bp)) (proceeds ?went)"
    by (rule yields_bind [OF dispatch_falls [OF start assms(1)]],
        rule yields_mono [OF after_dispatch_goes_on]) (auto simp: falls_def split: control.splits)
  then show ?case
    unfolding dispatch_all.simps
  proof (rule yields_then)
    fix t assume t: "?went t"
    have "yields (dispatch_all env bp is t) (proceeds (\<lambda>u. bounded bp u \<and>
        rank bp u \<le> rank bp t \<and> (is \<noteq> [] \<longrightarrow> rank bp u < rank bp t)))"
    proof (rule Cons.IH)
      show "\<forall>j \<in> set is. j \<in> set (node_ids bp) \<and> status_or_pending t j = Pending"
      proof
        fix j assume j: "j \<in> set is"
        with Cons.prems(1) have "j \<noteq> i" by auto
        with t j Cons.prems(3) show "j \<in> set (node_ids bp) \<and> status_or_pending t j = Pending" by simp
      qed
    qed (use t Cons.prems(1) in simp_all)
    then show "yields (dispatch_all env bp is t) (proceeds (\<lambda>u. bounded bp u \<and>
        rank bp u \<le> rank bp s \<and> (i # is \<noteq> [] \<longrightarrow> rank bp u < rank bp s)))"
      by (rule yields_mono) (use t in \<open>auto split: control.splits\<close>)
  qed
qed

section \<open>What the loops do to the rank\<close>

lemma body_no_loops: "parents_ok bp \<Longrightarrow> distinct (node_ids bp) \<Longrightarrow> set (body_nodes bp lp) \<inter> loop_ids bp = {}"
  by (auto simp: body_nodes_def loop_ids_def parents_ok_def distinct_map dest: inj_onD)

lemma only_wakes_trans:
  "only_wakes s X t \<Longrightarrow> only_wakes t X u \<Longrightarrow> only_wakes s X u"
  by (force simp: only_wakes_def)

text \<open>The events \<open>advance_loops\<close> plans, each for another running loop.\<close>

definition planned :: "event_kind \<Rightarrow> string \<Rightarrow> bool" where
  "planned e lp \<longleftrightarrow> e = LoopCompleted lp \<or> (\<exists>k. e = LoopIteration lp k \<and> k \<noteq> 0 \<and> k \<noteq> - 1)"

lemma unat_u32: "unat (k :: u32) < 2 ^ 32"
  using unsigned_less [of k] by simp

lemma word_suc_room: "(p :: u32) + 1 \<noteq> 0 \<Longrightarrow> unat (p + 1) = Suc (unat p)"
  by (metis Suc_eq_plus1 unatSuc add.commute)

lemma loop_decides_planned:
  assumes "loop_decides pr bp s lp e" "iters_ok s"
  shows "planned e lp"
proof -
  let ?it = "loop_iteration_of s lp"
  have "?it \<noteq> - 1" using assms(2) by (auto simp: loop_iteration_of_def iters_ok_def split: option.split)
  then have "?it + 1 \<noteq> 0" unfolding eq_neg_iff_add_eq_0 .
  moreover have "?it + 1 \<noteq> - 1" if "?it + 1 < loop_max pr bp s lp"
  proof
    assume "?it + 1 = - 1"
    with that have "- 1 < loop_max pr bp s lp" by simp
    with word_n1_ge [of "loop_max pr bp s lp"] show False by (rule leD [THEN notE])
  qed
  ultimately have "planned (LoopIteration lp (?it + 1)) lp" if "?it + 1 < loop_max pr bp s lp"
    using that unfolding planned_def by blast
  moreover have "planned (LoopCompleted lp) lp" by (simp add: planned_def)
  ultimately show ?thesis using assms(1) unfolding loop_decides_def by metis
qed

lemma advance_each_planned:
  "advance_each pr bp s lps = Inr evs \<Longrightarrow> iters_ok s \<Longrightarrow> distinct lps \<Longrightarrow>
   \<exists>ls. list_all2 planned evs ls \<and> set ls \<subseteq> set lps \<and> distinct ls"
proof (induction lps arbitrary: evs)
  case Nil
  then show ?case by auto
next
  case (Cons lp lps)
  from advance_each_Cons [OF Cons.prems(1)] show ?case
  proof
    assume "\<exists>e es. evs = e # es \<and> loop_decides pr bp s lp e \<and> advance_each pr bp s lps = Inr es"
    then obtain e es where e: "evs = e # es" "loop_decides pr bp s lp e" "advance_each pr bp s lps = Inr es"
      by blast
    from Cons.IH [OF e(3)] Cons.prems(2,3) obtain ls where
      "list_all2 planned es ls" "set ls \<subseteq> set lps" "distinct ls" by auto
    with e loop_decides_planned [OF e(2) Cons.prems(2)] Cons.prems(3) show ?thesis
      by (intro exI [of _ "lp # ls"]) auto
  next
    assume "\<not> body_terminal bp s lp \<and> advance_each pr bp s lps = Inr evs"
    with Cons.IH [of evs] Cons.prems(2,3) show ?thesis by auto
  qed
qed

definition loop_falls :: "blueprint \<Rightarrow> run_state \<Rightarrow> string \<Rightarrow> run_state \<Rightarrow> bool" where
  "loop_falls bp s lp t \<longleftrightarrow> bounded bp t \<and> rank bp t < rank bp s \<and>
     (\<forall>l \<in> loop_ids bp. l \<noteq> lp \<longrightarrow> status_or_pending s l = Running \<longrightarrow> status_or_pending t l = Running)"

lemma yields_loop_completed:
  assumes "bounded bp s" "lp \<in> loop_ids bp" "status_or_pending s lp = Running"
  shows "yields (emit env bp (LoopCompleted lp) s) (loop_falls bp s lp)"
proof (rule yields_emit_ok)
  show "run_ok bp s" using assms(1) by (simp add: bounded_def)
  fix ts t q assume run: "apply_kind bp ts (LoopCompleted lp) s = Inr t" and ok: "run_ok bp (t\<lparr>rs_next_seq := q\<rparr>)"
  then have t: "t = deliver_from_port bp lp ''done'' (set_node_status lp Completed s)" by simp
  have wakes: "only_wakes s (insert lp (set [])) t"
    unfolding t by (rule only_wakes_deliver) (simp add: only_wakes_def)
  have "loop_rest t lp = 0" by (simp add: t loop_rest_def deliver_from_port_exact)
  moreover have "0 < loop_rest s lp" using assms(3) unat_u32 [of "loop_iteration_of s lp"]
    by (simp add: loop_rest_def)
  ultimately have "rank bp t < rank bp s"
    by (intro rank_advanced [OF wakes _ _ assms(2)]) (simp_all add: t)
  with ok assms(1) wakes show "loop_falls bp s lp (t\<lparr>rs_next_seq := q\<rparr>)"
    by (fastforce simp: loop_falls_def bounded_def t only_wakes_def)
qed

lemma yields_loop_iteration:
  assumes "bounded bp s" "lp \<in> loop_ids bp" "status_or_pending s lp = Running"
    and "k \<noteq> 0" "k \<noteq> - 1" "set (body_nodes bp lp) \<inter> loop_ids bp = {}"
  shows "yields (emit env bp (LoopIteration lp k) s) (loop_falls bp s lp)"
proof (rule yields_emit_ok)
  show "run_ok bp s" using assms(1) by (simp add: bounded_def)
  fix ts t q assume run: "apply_kind bp ts (LoopIteration lp k) s = Inr t"
    and ok: "run_ok bp (t\<lparr>rs_next_seq := q\<rparr>)"
  from run assms(4) obtain p u where p: "rs_loop_iter s lp = Some p" "p + 1 = k"
    and u: "run_steps (\<lambda>s n. reset_body_node n s) s (body_nodes bp lp) = Inr u"
    and t: "t = deliver_from_port bp lp ''body''
         (u\<lparr>rs_skipped := rs_skipped u - body_edges bp lp, rs_loop_iter := (rs_loop_iter u)(lp \<mapsto> k)\<rparr>)"
    by (auto simp: apply_loop_iteration_def res_bind_eq_Inr split: option.splits if_splits)
  note eff = reset_body_effect [OF u]
  have wakes: "only_wakes s (insert lp (set (body_nodes bp lp))) t"
    unfolding t by (rule only_wakes_deliver) (use eff in \<open>simp add: only_wakes_def\<close>)
  have iters: "rs_loop_iter t = (rs_loop_iter s)(lp \<mapsto> k)" using eff by (simp add: t)
  have running: "status_or_pending t l = Running"
    if "l \<in> loop_ids bp" "status_or_pending s l = Running" for l
  proof -
    have "l \<notin> set (body_nodes bp lp)" using that(1) assms(6) by blast
    with that(2) eff [of l] show ?thesis by (simp add: t deliver_from_port_exact)
  qed
  have "unat k = Suc (unat p)" using word_suc_room [of p] p(2) assms(4) by simp
  moreover have "unat k < 2 ^ 32" by (rule unat_u32)
  ultimately have "loop_rest t lp < loop_rest s lp"
    using running [OF assms(2,3)] assms(3) p(1)
    by (simp add: loop_rest_def loop_iteration_of_def iters)
  then have "rank bp t < rank bp s"
    by (intro rank_advanced [OF wakes _ assms(6,2)]) (simp_all add: same_iters_def iters)
  moreover have "iters_ok t" using assms(1,5) by (auto simp: iters_ok_def iters bounded_def)
  ultimately show "loop_falls bp s lp (t\<lparr>rs_next_seq := q\<rparr>)"
    using ok running by (simp add: loop_falls_def bounded_def)
qed

lemma emit_all_falls:
  assumes "\<And>lp. set (body_nodes bp lp) \<inter> loop_ids bp = {}"
  shows "list_all2 planned evs ls \<Longrightarrow> bounded bp s \<Longrightarrow> distinct ls \<Longrightarrow>
    \<forall>l \<in> set ls. l \<in> loop_ids bp \<and> status_or_pending s l = Running \<Longrightarrow>
    yields (emit_all env bp evs s) (\<lambda>t. bounded bp t \<and> rank bp t \<le> rank bp s)"
proof (induction evs ls arbitrary: s rule: list_all2_induct)
  case Nil
  then show ?case by simp
next
  case (Cons e evs l ls)
  have l: "l \<in> loop_ids bp" "status_or_pending s l = Running" using Cons.prems(3) by auto
  have "yields (emit env bp e s) (loop_falls bp s l)"
    using Cons.hyps(1) yields_loop_completed [OF Cons.prems(1) l]
      yields_loop_iteration [OF Cons.prems(1) l _ _ assms] by (auto simp: planned_def)
  then show ?case
    unfolding emit_all.simps
  proof (rule yields_bind)
    fix t assume t: "loop_falls bp s l t"
    have "\<forall>m \<in> set ls. m \<in> loop_ids bp \<and> status_or_pending t m = Running"
    proof
      fix m assume m: "m \<in> set ls"
      with Cons.prems(2) have "m \<noteq> l" by auto
      with m t Cons.prems(3) show "m \<in> loop_ids bp \<and> status_or_pending t m = Running"
        by (simp add: loop_falls_def)
    qed
    then have "yields (emit_all env bp evs t) (\<lambda>u. bounded bp u \<and> rank bp u \<le> rank bp t)"
      using Cons.IH [of t] t Cons.prems(2) by (simp add: loop_falls_def)
    then show "yields (emit_all env bp evs t) (\<lambda>u. bounded bp u \<and> rank bp u \<le> rank bp s)"
      by (rule yields_mono) (use t in \<open>simp add: loop_falls_def\<close>)
  qed
qed

lemma loops_phase_falls:
  assumes "distinct (node_ids bp)" "parents_ok bp" "bounded bp s"
  shows "yields (loops_phase env bp s) (proceeds (\<lambda>t. bounded bp t \<and> rank bp t \<le> rank bp s))"
proof (cases "advance_loops (en_printer env) bp s")
  case (Inl f)
  then show ?thesis by (auto simp: loops_phase_def yields_act_of intro!: yields_skip split: failure.split)
next
  case (Inr evs)
  have "distinct (running_loops bp s)"
    using assms(1) by (simp add: running_loops_def distinct_map_filter)
  from advance_each_planned [OF Inr [unfolded advance_loops_def] _ this] assms(3) obtain ls where
    ls: "list_all2 planned evs ls" "set ls \<subseteq> set (running_loops bp s)" "distinct ls"
    by (auto simp: bounded_def)
  have "yields (emit_all env bp evs s) (\<lambda>t. bounded bp t \<and> rank bp t \<le> rank bp s)"
    by (rule emit_all_falls [OF body_no_loops [OF assms(2,1)] ls(1) assms(3) ls(3)])
      (use ls(2) in_running_loops in \<open>fastforce simp: loop_ids_def\<close>)
  then show ?thesis by (auto simp: loops_phase_def Inr intro: yields_bind)
qed

section \<open>Rounds\<close>

lemma finalize_phase_falls:
  assumes "bounded bp s"
  shows "yields (finalize_phase env bp s) (proceeds (\<lambda>t. bounded bp t \<and> rank bp t \<le> rank bp s))"
proof (cases "rs_status s = RunRunning")
  case False
  then have "finalize_if_done bp s = s" by (simp add: finalize_if_done_def)
  with False show ?thesis
    unfolding finalize_phase_def Let_def by (auto intro!: yields_skip)
next
  case True
  have ok: "state_ok s" "run_ok bp s" using assms by (simp_all add: bounded_def run_ok_def)
  obtain ns where ns: "set ns = dead bp s" "cascade_skips bp s = fold (skip_node bp) ns s"
    using cascade_skips_fold by blast
  have cascade: "run_ok bp (fold (skip_node bp) ks u) \<and> rs_loop_iter (fold (skip_node bp) ks u) = rs_loop_iter u"
    if "run_ok bp u" for ks u
    using that
  proof (induction ks arbitrary: u)
    case (Cons k ks)
    have "run_ok bp (skip_node bp k u)" using Cons.prems by auto
    from Cons.IH [OF this] show ?case by simp
  qed simp
  have status: "status_or_pending (cascade_skips bp s) m =
      (if m \<in> dead bp s then Skipped else status_or_pending s m)" for m
    by (simp add: ns fold_skip_status)
  have iters: "same_iters s {} (cascade_skips bp s)"
    using cascade [OF ok(2)] by (simp add: ns same_iters_def)
  have "rank bp (cascade_skips bp s) \<le> rank bp s"
    by (rule rank_skips(1) [OF status _ iters]) (rule dead_pending)
  moreover have "bounded bp (cascade_skips bp s)"
    using cascade [OF ok(2)] iters_ok_same [OF iters] assms by (simp add: ns(2) bounded_def)
  ultimately have good: "bounded bp t \<and> rank bp t \<le> rank bp s"
    if "\<exists>q. t = (cascade_skips bp s)\<lparr>rs_next_seq := q\<rparr>" for t
    using that by (auto simp: bounded_def)
  show ?thesis
    unfolding finalize_phase_def Let_def
    by (rule yields_bind [OF yields_planned [OF ok(1) True]], rule yields_skip)
      (use good in \<open>auto intro!: yields_skip\<close>)
qed

lemma drive_round_falls:
  assumes "distinct (node_ids bp)" "parents_ok bp" "bounded bp s"
  shows "yields (drive_round env bp s) (proceeds (\<lambda>t. bounded bp t \<and> rank bp t < rank bp s))"
  unfolding drive_round_def
proof (rule yields_then [OF check_cancel_same], rule yields_then)
  fix a assume "a = s"
  with loops_phase_falls [OF assms]
  show "yields (loops_phase env bp a) (proceeds (\<lambda>t. bounded bp t \<and> rank bp t \<le> rank bp s))" by simp
next
  fix b assume b: "bounded bp b \<and> rank bp b \<le> rank bp s"
  let ?Q = "proceeds (\<lambda>t. bounded bp t \<and> rank bp t < rank bp s)"
  show "yields (then_do (finalize_phase env bp b) (\<lambda>s. if step bp s = [] then ret (Leave s)
      else dispatch_all env bp (step bp s) s)) ?Q"
  proof (rule yields_then [OF finalize_phase_falls])
    show "bounded bp b" using b by simp
    fix c assume c: "bounded bp c \<and> rank bp c \<le> rank bp b"
    have ready: "\<forall>i \<in> set (step bp c). i \<in> set (node_ids bp) \<and> status_or_pending c i = Pending"
      by (auto simp: in_step)
    have "yields (dispatch_all env bp (step bp c) c) ?Q" if "step bp c \<noteq> []"
      by (rule yields_mono [OF dispatch_all_falls [OF assms(1) step_distinct [OF assms(1)] _ ready]])
        (use b c that in \<open>auto split: control.splits\<close>)
    then show "yields (if step bp c = [] then ret (Leave c) else dispatch_all env bp (step bp c) c) ?Q"
      by simp
  qed
qed

lemma drive_loop_ends:
  assumes "distinct (node_ids bp)" "parents_ok bp"
  shows "bounded bp s \<Longrightarrow> rank bp s < fuel \<Longrightarrow> drive_loop fuel env bp s w \<noteq> None"
proof (induction fuel arbitrary: s w)
  case 0
  then show ?case by simp
next
  case (Suc fuel)
  obtain c w1 where run: "drive_round env bp s w = (c, w1)" by (cases "drive_round env bp s w")
  show ?case
  proof (cases "\<exists>t. c = Inr (Proceed t)")
    case True
    then obtain t where c: "c = Inr (Proceed t)" ..
    from yieldsD [OF drive_round_falls [OF assms Suc.prems(1)]] run c
    have t: "bounded bp t" "rank bp t < rank bp s" by fastforce+
    with Suc.IH [OF t(1), of w1] Suc.prems(2) run c show ?thesis by simp
  next
    case False
    with run show ?thesis by (auto split: sum.split control.split)
  qed
qed

section \<open>Runs\<close>

lemma preflight_bounded:
  "bounded bp s \<Longrightarrow> yields (preflight env bp fresh nds s) (proceeds (bounded bp))"
proof (induction nds arbitrary: s)
  case Nil
  then show ?case by simp
next
  case (Cons nd nds)
  have prepared: "yields (act_bind (emit env bp (MessageSendPrepared n a b) s) (\<lambda>t. ret (Proceed t)))
      (proceeds (bounded bp))" for n a b
  proof (rule yields_bind)
    show "yields (emit env bp (MessageSendPrepared n a b) s) (bounded bp)"
      by (rule yields_emit_ok) (use Cons.prems in
        \<open>auto simp: bounded_def apply_message_prepared_def Let_def split: if_splits\<close>)
  qed simp
  have "yields (preflight_node env bp fresh nd s) (proceeds (bounded bp))"
    unfolding preflight_node_def Let_def
    using Cons.prems by (auto intro!: yields_skip prepared split: option.split sum.split)
  then show ?case
    unfolding preflight.simps by (rule yields_then) (rule Cons.IH)
qed

lemma bounded_normalize: "bounded bp s \<Longrightarrow> bounded bp (normalize_legacy s)"
  by (auto simp: bounded_def iters_ok_def normalize_legacy_def [of s] split: option.split
      dest: run_ok_normalize)

lemma drive_ends:
  assumes "distinct (node_ids bp)" "parents_ok bp" "bounded bp s"
  shows "drive (round_bound bp) env bp s w \<noteq> None"
proof -
  have start: "yields (drive_start env bp s) (proceeds (bounded bp))"
    by (simp add: drive_start_def Let_def preflight_bounded bounded_normalize assms(3))
  obtain c w1 where run: "drive_start env bp s w = (c, w1)" by (cases "drive_start env bp s w")
  show ?thesis
  proof (cases "\<exists>t. c = Inr (Proceed t)")
    case True
    then obtain t where c: "c = Inr (Proceed t)" ..
    from yieldsD [OF start] run c have "bounded bp t" by fastforce
    from drive_loop_ends [OF assms(1,2) this rank_bound] run c show ?thesis by (simp add: drive_def)
  next
    case False
    with run show ?thesis by (auto simp: drive_def split: sum.split control.split)
  qed
qed

lemma initialize_bounded: "yields (initialize_with_id env bp rid trig) (bounded bp)"
  unfolding initialize_with_id_def Let_def
proof (intro yields_skip yields_emit_ok [OF run_ok_new])
  fix ts u q
  let ?s = "new_run_state rid (bp_id bp)"
  assume run: "apply_kind bp ts (RunStarted (Some rid) (Some (blueprint_hash env bp)) (bp_id bp)
      (bp_schema bp) trig) ?s = Inr u" and ok: "run_ok bp (u\<lparr>rs_next_seq := q\<rparr>)"
  have "iters_ok ?s" by (simp add: iters_ok_def new_run_state_def)
  moreover have "rs_loop_iter u = rs_loop_iter ?s"
    using run by (auto simp: apply_run_started_def Let_def set_trigger_def normalize_legacy_def
        write_registry_def res_bind_eq_Inr split: if_splits option.splits)
  ultimately show "bounded bp (u\<lparr>rs_next_seq := q\<rparr>)"
    using ok by (simp add: bounded_def iters_ok_def)
qed

lemma initialize_valid:
  "initialize_with_id env bp rid trig w = (Inr s, w') \<Longrightarrow> distinct (node_ids bp) \<and> parents_ok bp"
  using validate_iff [of bp]
  by (auto simp: initialize_with_id_def ensure_valid_blueprint_def act_bind_def act_of_def invalid_def
      split: option.splits if_splits)

text \<open>
  C3. Every run of an automation returns. Whatever the blueprint, the answers of the host, the
  values its loops are bounded by, the moment it is cancelled and the file operations that
  fail: started runs leave the main loop within \<open>round_bound\<close> rounds, a number that only
  depends on how many nodes the blueprint has. An invalid blueprint is refused at the start.
\<close>

theorem every_run_returns:
  "\<exists>r w'. start_with_id (round_bound bp) env bp rid trig w = Some (r, w')"
proof -
  obtain c w1 where init: "initialize_with_id env bp rid trig w = (c, w1)"
    by (cases "initialize_with_id env bp rid trig w")
  show ?thesis
  proof (cases c)
    case (Inl e)
    with init show ?thesis by (simp add: start_with_id_def)
  next
    case (Inr s)
    from yieldsD [OF initialize_bounded] init Inr have "bounded bp s" by fastforce
    moreover have "distinct (node_ids bp) \<and> parents_ok bp" using initialize_valid init Inr by blast
    ultimately have drive: "drive (round_bound bp) env bp s v \<noteq> None" for v
      by (simp only: drive_ends simp_thms)
    have "drive_from_state (round_bound bp) env bp s w1 \<noteq> None"
      using drive by (simp add: drive_from_state_def split: sum.split prod.split)
    then obtain r w' where "drive_from_state (round_bound bp) env bp s w1 = Some (r, w')" by auto
    with init Inr show ?thesis by (simp add: start_with_id_def)
  qed
qed

end
