(* ===== verification/Topology.thy ===== *)
theory Topology
  imports Json
begin

text \<open>
  The communication topology of the agents (\<open>crates/wardian-core/src/topology.rs\<close>):
  undirected edges drawn by hand or seeded from teams, pairs the user asked to ignore,
  and pairs whose edge was deleted and must not be seeded again. The file it is kept in
  is an optional topology (a missing or an unreadable file is \<open>None\<close>), the outcome of
  the file-system calls of a write is an argument, and so is the parser of timestamps.
\<close>

section \<open>State\<close>

type_synonym pair = "string \<times> string"

record topology_edge =
  edge_a :: string
  edge_b :: string
  edge_created_at :: string

record ignored_pair =
  pair_a :: string
  pair_b :: string

record topology =
  t_version :: "8 word"
  t_edges :: "topology_edge list"
  t_ignored :: "ignored_pair list"
  t_suppressed :: "ignored_pair list"

definition topology_schema_version :: "8 word" where
  "topology_schema_version = 3"

definition team_seed_migration_version :: "8 word" where
  "team_seed_migration_version = 2"

definition topology_default :: topology where
  "topology_default =
     \<lparr>t_version = topology_schema_version, t_edges = [], t_ignored = [], t_suppressed = []\<rparr>"

definition edge_pair :: "topology_edge \<Rightarrow> pair" where
  "edge_pair e = (edge_a e, edge_b e)"

definition ign_pair :: "ignored_pair \<Rightarrow> pair" where
  "ign_pair p = (pair_a p, pair_b p)"

abbreviation edge_pairs :: "topology \<Rightarrow> pair set" where
  "edge_pairs t \<equiv> edge_pair ` set (t_edges t)"

abbreviation ignored :: "topology \<Rightarrow> pair set" where
  "ignored t \<equiv> ign_pair ` set (t_ignored t)"

abbreviation suppressed :: "topology \<Rightarrow> pair set" where
  "suppressed t \<equiv> ign_pair ` set (t_suppressed t)"

text \<open>The canonical undirected pair: trimmed, ordered, neither empty nor a self pair.\<close>

definition canonical_pair :: "string \<Rightarrow> string \<Rightarrow> pair option" where
  "canonical_pair x y =
     (let x = trim x; y = trim y in
      if x = [] \<or> y = [] \<or> x = y then None
      else if x < y then Some (x, y) else Some (y, x))"

definition canonical :: "pair \<Rightarrow> bool" where
  "canonical p \<longleftrightarrow> canonical_pair (fst p) (snd p) = Some p"

text \<open>Canonicalization keeps the first entry of a pair and sorts by pair.\<close>

fun canonical_edges :: "pair list \<Rightarrow> topology_edge list \<Rightarrow> topology_edge list" where
  "canonical_edges seen [] = []"
| "canonical_edges seen (e # es) =
     (case canonical_pair (edge_a e) (edge_b e) of
        None \<Rightarrow> canonical_edges seen es
      | Some (a, b) \<Rightarrow>
          if (a, b) \<in> set seen then canonical_edges seen es
          else \<lparr>edge_a = a, edge_b = b, edge_created_at = edge_created_at e\<rparr>
                 # canonical_edges ((a, b) # seen) es)"

fun canonical_ignored :: "pair list \<Rightarrow> ignored_pair list \<Rightarrow> ignored_pair list" where
  "canonical_ignored seen [] = []"
| "canonical_ignored seen (p # ps) =
     (case canonical_pair (pair_a p) (pair_b p) of
        None \<Rightarrow> canonical_ignored seen ps
      | Some (a, b) \<Rightarrow>
          if (a, b) \<in> set seen then canonical_ignored seen ps
          else \<lparr>pair_a = a, pair_b = b\<rparr> # canonical_ignored ((a, b) # seen) ps)"

definition canonicalize :: "topology \<Rightarrow> topology" where
  "canonicalize t =
     t\<lparr>t_edges := sort_key edge_pair (canonical_edges [] (t_edges t)),
       t_ignored := sort_key ign_pair (canonical_ignored [] (t_ignored t)),
       t_suppressed := sort_key ign_pair (canonical_ignored [] (t_suppressed t))\<rparr>"

text \<open>A missing or corrupt file resolves to an empty topology.\<close>

definition load_topology :: "topology option \<Rightarrow> topology" where
  "load_topology file = (case file of None \<Rightarrow> topology_default | Some t \<Rightarrow> canonicalize t)"

text \<open>What a write leaves in the file, when no file-system call fails.\<close>

definition save_topology :: "string option \<Rightarrow> topology \<Rightarrow> string + topology" where
  "save_topology io_error t =
     (let c = (canonicalize t)\<lparr>t_version := topology_schema_version\<rparr> in
      case io_error of Some e \<Rightarrow> Inl e | None \<Rightarrow> Inr c)"

section \<open>Operations\<close>

text \<open>Each operation returns the new topology and the flag the code returns.\<close>

definition add_edge :: "string \<Rightarrow> string \<Rightarrow> string \<Rightarrow> topology \<Rightarrow> topology \<times> bool" where
  "add_edge x y created_at t =
     (case canonical_pair x y of
        None \<Rightarrow> (t, False)
      | Some (a, b) \<Rightarrow>
          let kept = filter (\<lambda>p. \<not> (pair_a p = a \<and> pair_b p = b)) (t_suppressed t);
              cleared = length kept \<noteq> length (t_suppressed t);
              t1 = t\<lparr>t_suppressed := kept\<rparr>
          in if list_ex (\<lambda>e. edge_a e = a \<and> edge_b e = b) (t_edges t) then (t1, cleared)
             else (t1\<lparr>t_edges := t_edges t @
                       [\<lparr>edge_a = a, edge_b = b, edge_created_at = created_at\<rparr>]\<rparr>, True))"

definition remove_edge :: "string \<Rightarrow> string \<Rightarrow> topology \<Rightarrow> topology \<times> bool" where
  "remove_edge x y t =
     (case canonical_pair x y of
        None \<Rightarrow> (t, False)
      | Some (a, b) \<Rightarrow>
          let kept = filter (\<lambda>e. \<not> (edge_a e = a \<and> edge_b e = b)) (t_edges t)
          in (t\<lparr>t_edges := kept\<rparr>, length kept \<noteq> length (t_edges t)))"

definition suppress_seed_pair :: "string \<Rightarrow> string \<Rightarrow> topology \<Rightarrow> topology \<times> bool" where
  "suppress_seed_pair x y t =
     (case canonical_pair x y of
        None \<Rightarrow> (t, False)
      | Some (a, b) \<Rightarrow>
          if list_ex (\<lambda>p. pair_a p = a \<and> pair_b p = b) (t_suppressed t) then (t, False)
          else (t\<lparr>t_suppressed := t_suppressed t @ [\<lparr>pair_a = a, pair_b = b\<rparr>]\<rparr>, True))"

record team_membership =
  team_id :: string
  team_agent_ids :: "string list"

definition team_memberships_contain_pair :: "team_membership list \<Rightarrow> string \<Rightarrow> string \<Rightarrow> bool" where
  "team_memberships_contain_pair teams a b =
     list_ex (\<lambda>team. list_ex (\<lambda>i. i = a) (team_agent_ids team)
                   \<and> list_ex (\<lambda>i. i = b) (team_agent_ids team)) teams"

definition remove_edge_and_suppress_seed_if_team_pair ::
    "string \<Rightarrow> string \<Rightarrow> team_membership list \<Rightarrow> topology \<Rightarrow> topology \<times> bool" where
  "remove_edge_and_suppress_seed_if_team_pair x y teams t =
     (case canonical_pair x y of
        None \<Rightarrow> (t, False)
      | Some (a, b) \<Rightarrow>
          (case remove_edge a b t of
             (t1, removed) \<Rightarrow>
               if removed \<and> team_memberships_contain_pair teams a b
               then (fst (suppress_seed_pair a b t1), removed)
               else (t1, removed)))"

definition ignore_pair :: "string \<Rightarrow> string \<Rightarrow> topology \<Rightarrow> topology \<times> bool" where
  "ignore_pair x y t =
     (case canonical_pair x y of
        None \<Rightarrow> (t, False)
      | Some (a, b) \<Rightarrow>
          if list_ex (\<lambda>p. pair_a p = a \<and> pair_b p = b) (t_ignored t) then (t, False)
          else (t\<lparr>t_ignored := t_ignored t @ [\<lparr>pair_a = a, pair_b = b\<rparr>]\<rparr>, True))"

definition unignore_pair :: "string \<Rightarrow> string \<Rightarrow> topology \<Rightarrow> topology \<times> bool" where
  "unignore_pair x y t =
     (case canonical_pair x y of
        None \<Rightarrow> (t, False)
      | Some (a, b) \<Rightarrow>
          let kept = filter (\<lambda>p. \<not> (pair_a p = a \<and> pair_b p = b)) (t_ignored t)
          in (t\<lparr>t_ignored := kept\<rparr>, length kept \<noteq> length (t_ignored t)))"

definition is_ignored :: "string \<Rightarrow> string \<Rightarrow> topology \<Rightarrow> bool" where
  "is_ignored x y t =
     (case canonical_pair x y of
        None \<Rightarrow> False
      | Some (a, b) \<Rightarrow> list_ex (\<lambda>p. pair_a p = a \<and> pair_b p = b) (t_ignored t))"

definition is_seed_suppressed :: "string \<Rightarrow> string \<Rightarrow> topology \<Rightarrow> bool" where
  "is_seed_suppressed x y t =
     (case canonical_pair x y of
        None \<Rightarrow> False
      | Some (a, b) \<Rightarrow> list_ex (\<lambda>p. pair_a p = a \<and> pair_b p = b) (t_suppressed t))"

definition retain_agents :: "string set \<Rightarrow> topology \<Rightarrow> topology \<times> bool" where
  "retain_agents known t =
     (let es = filter (\<lambda>e. edge_a e \<in> known \<and> edge_b e \<in> known) (t_edges t);
          is = filter (\<lambda>p. pair_a p \<in> known \<and> pair_b p \<in> known) (t_ignored t);
          ss = filter (\<lambda>p. pair_a p \<in> known \<and> pair_b p \<in> known) (t_suppressed t)
      in (t\<lparr>t_edges := es, t_ignored := is, t_suppressed := ss\<rparr>,
          length es \<noteq> length (t_edges t) \<or> length is \<noteq> length (t_ignored t)
            \<or> length ss \<noteq> length (t_suppressed t)))"

text \<open>\<open>sort\<close> then \<open>dedup\<close>: \<open>remdups_adj\<close> drops repeated neighbours of a list.\<close>

definition neighbors :: "string \<Rightarrow> topology \<Rightarrow> string list" where
  "neighbors uuid t =
     remdups_adj (sort (List.map_filter
       (\<lambda>e. if edge_a e = uuid then Some (edge_b e)
            else if edge_b e = uuid then Some (edge_a e) else None) (t_edges t)))"

section \<open>Resolving the agents an agent may talk to\<close>

record agent_ref =
  ref_uuid :: string
  ref_workspace :: "string option"

record neighbor =
  nb_uuid :: string
  nb_reasons :: "string list"

record neighbors_view =
  view_agent_uuid :: string
  view_members :: "neighbor list"

definition reason_manual :: string where
  "reason_manual = ''manual''"

definition rule_workspace_fallback :: string where
  "rule_workspace_fallback = ''workspace-fallback''"

definition member_uuids :: "neighbors_view \<Rightarrow> string set" where
  "member_uuids v = set (map nb_uuid (view_members v))"

text \<open>Collecting the agents into a map: the last agent of a uuid wins.\<close>

definition known_agents :: "agent_ref list \<Rightarrow> (string \<times> agent_ref) list" where
  "known_agents agents = fold (\<lambda>g. bt_insert (ref_uuid g) g) agents []"

definition push_reason ::
    "string \<Rightarrow> (string \<times> agent_ref) list \<Rightarrow> string \<Rightarrow> string
       \<Rightarrow> (string \<times> string list) list \<Rightarrow> (string \<times> string list) list" where
  "push_reason me known reason uuid m =
     (if uuid = me \<or> map_of known uuid = None then m
      else let entry = (case map_of m uuid of None \<Rightarrow> [] | Some rs \<Rightarrow> rs)
           in bt_insert uuid (if reason \<in> set entry then entry else entry @ [reason]) m)"

definition resolve_neighbors :: "string \<Rightarrow> topology \<Rightarrow> agent_ref list \<Rightarrow> neighbors_view" where
  "resolve_neighbors me t agents =
     (let known = known_agents agents;
          manual = neighbors me t;
          m1 = fold (push_reason me known reason_manual) manual [];
          my_workspace =
            (case Option.bind (map_of known me) ref_workspace of
               None \<Rightarrow> None
             | Some w \<Rightarrow> if w = [] then None else Some w);
          m2 = (case (manual = [], my_workspace) of
                  (True, Some w) \<Rightarrow>
                    fold (\<lambda>other m.
                      if ref_workspace other = Some w \<and> \<not> is_ignored me (ref_uuid other) t
                      then push_reason me known (''rule:'' @ rule_workspace_fallback)
                             (ref_uuid other) m
                      else m) agents m1
                | _ \<Rightarrow> m1)
      in \<lparr>view_agent_uuid = me,
          view_members = map (\<lambda>(u, rs). \<lparr>nb_uuid = u, nb_reasons = rs\<rparr>) m2\<rparr>)"

section \<open>Seeding edges from teams\<close>

definition seed_pair :: "string \<Rightarrow> string \<times> string \<Rightarrow> topology \<times> nat \<Rightarrow> topology \<times> nat" where
  "seed_pair created_at ij st =
     (case st of (t, added) \<Rightarrow>
        if is_seed_suppressed (fst ij) (snd ij) t then (t, added)
        else (case add_edge (fst ij) (snd ij) created_at t of
                (t', True) \<Rightarrow> (t', added + 1)
              | (t', False) \<Rightarrow> (t', added)))"

text \<open>The two nested loops: \<open>i\<close> from the front, \<open>j\<close> over the members after it.\<close>

fun pairs_of :: "'a list \<Rightarrow> ('a \<times> 'a) list" where
  "pairs_of [] = []"
| "pairs_of (x # xs) = map (Pair x) xs @ pairs_of xs"

definition seed_team_clique :: "string list \<Rightarrow> string \<Rightarrow> topology \<Rightarrow> topology \<times> nat" where
  "seed_team_clique members created_at t =
     fold (seed_pair created_at) (pairs_of members) (t, 0)"

definition needs_team_seed_migration :: "topology \<Rightarrow> bool" where
  "needs_team_seed_migration t \<longleftrightarrow> t_version t < team_seed_migration_version"

definition needs_team_seed_migration_for_home :: "bool \<Rightarrow> topology \<Rightarrow> bool" where
  "needs_team_seed_migration_for_home file_exists t \<longleftrightarrow>
     needs_team_seed_migration t \<or> \<not> file_exists"

definition needs_seed_suppression_migration :: "topology \<Rightarrow> bool" where
  "needs_seed_suppression_migration t \<longleftrightarrow>
     t_version t \<ge> team_seed_migration_version \<and> t_version t < topology_schema_version"

definition suppress_missing_pair :: "string \<times> string \<Rightarrow> topology \<times> nat \<Rightarrow> topology \<times> nat" where
  "suppress_missing_pair ij st =
     (case st of (t, added) \<Rightarrow>
        let has_edge = (case canonical_pair (fst ij) (snd ij) of
                          None \<Rightarrow> False
                        | Some (a, b) \<Rightarrow> list_ex (\<lambda>e. edge_a e = a \<and> edge_b e = b) (t_edges t))
        in if has_edge then (t, added)
           else (case suppress_seed_pair (fst ij) (snd ij) t of
                   (t', True) \<Rightarrow> (t', added + 1)
                 | (t', False) \<Rightarrow> (t', added)))"

definition suppress_missing_team_seed_pairs ::
    "team_membership list \<Rightarrow> topology \<Rightarrow> topology \<times> nat" where
  "suppress_missing_team_seed_pairs teams t =
     fold (\<lambda>team st. fold suppress_missing_pair (pairs_of (team_agent_ids team)) st) teams (t, 0)"

text \<open>The teams of \<open>watchlists/index.json\<close>; a missing or corrupt file has none.\<close>

definition team_of_json :: "json \<Rightarrow> team_membership option" where
  "team_of_json team =
     Option.bind (Option.bind (jget ''id'' team) as_str) (\<lambda>tid.
     Option.bind (case jget ''agentIds'' team of
                    Some v \<Rightarrow> Some v
                  | None \<Rightarrow> jget ''agent_ids'' team) (\<lambda>v.
     Option.bind (as_array v) (\<lambda>ids.
       Some \<lparr>team_id = tid, team_agent_ids = List.map_filter as_str ids\<rparr>)))"

definition load_team_memberships :: "json option \<Rightarrow> team_membership list" where
  "load_team_memberships file =
     (case Option.bind (Option.bind file (jget ''teams'')) as_array of
        None \<Rightarrow> []
      | Some teams \<Rightarrow> List.map_filter team_of_json teams)"

section \<open>Privileged mutations\<close>

datatype topology_operation = Link | Unlink | Ignore | Unignore

fun action :: "topology_operation \<Rightarrow> string" where
  "action Link = ''link''"
| "action Unlink = ''unlink''"
| "action Ignore = ''ignore''"
| "action Unignore = ''unignore''"

record topology_mutation_outcome =
  out_a :: string
  out_b :: string
  out_changed :: bool

definition apply_topology_operation ::
    "topology_operation \<Rightarrow> string \<Rightarrow> string \<Rightarrow> string \<Rightarrow> team_membership list \<Rightarrow> topology
       \<Rightarrow> topology \<times> topology_mutation_outcome option" where
  "apply_topology_operation op x y created_at teams t =
     (case canonical_pair x y of
        None \<Rightarrow> (t, None)
      | Some (a, b) \<Rightarrow>
          (case (case op of
                   Link \<Rightarrow> add_edge a b created_at t
                 | Unlink \<Rightarrow> remove_edge_and_suppress_seed_if_team_pair a b teams t
                 | Ignore \<Rightarrow> ignore_pair a b t
                 | Unignore \<Rightarrow> unignore_pair a b t) of
             (t', changed) \<Rightarrow>
               (t', Some \<lparr>out_a = a, out_b = b, out_changed = changed\<rparr>)))"

datatype topology_auth_denied = UnknownCaller | SelfServeRequired

definition authorize_topology_mutation_v1 ::
    "string set \<Rightarrow> string option \<Rightarrow> string \<Rightarrow> string \<Rightarrow> topology_auth_denied + unit" where
  "authorize_topology_mutation_v1 known caller a b =
     (case caller of
        None \<Rightarrow> Inr ()
      | Some s \<Rightarrow>
          if s \<notin> known then Inl UnknownCaller
          else if a = s \<or> b = s then Inr ()
          else Inl SelfServeRequired)"

section \<open>Dropping references to unknown agents\<close>

definition stale_ids :: "string set \<Rightarrow> topology \<Rightarrow> string list" where
  "stale_ids known t =
     remdups_adj (sort (filter (\<lambda>s. s \<notin> known)
       (concat (map (\<lambda>e. [edge_a e, edge_b e]) (t_edges t)) @
        concat (map (\<lambda>p. [pair_a p, pair_b p]) (t_ignored t)) @
        concat (map (\<lambda>p. [pair_a p, pair_b p]) (t_suppressed t)))))"

record quarantine_record =
  q_session_id :: string
  q_session_name :: "string option"
  q_recorded_at :: string
  q_reason :: string

text \<open>
  The home directory as far as reconciliation touches it: the topology file and the
  quarantine log. The argument \<open>log_error\<close> gives the failure of the append for a record,
  \<open>save_error\<close> that of the write of the topology.
\<close>

record topology_home =
  home_topology :: "topology option"
  home_quarantine :: "quarantine_record list"

definition record_quarantine ::
    "string option \<Rightarrow> string \<Rightarrow> string \<Rightarrow> string option \<Rightarrow> string \<Rightarrow> topology_home
       \<Rightarrow> string option \<times> topology_home" where
  "record_quarantine io_error now session_id session_name reason h =
     (case io_error of
        Some e \<Rightarrow> (Some e, h)
      | None \<Rightarrow>
          (None, h\<lparr>home_quarantine := home_quarantine h @
                    [\<lparr>q_session_id = session_id, q_session_name = session_name,
                      q_recorded_at = now, q_reason = reason\<rparr>]\<rparr>))"

definition quarantine_reason :: string where
  "quarantine_reason = ''topology reconciliation removed a reference to an unknown agent''"

fun quarantine_all ::
    "(string \<Rightarrow> string option) \<Rightarrow> string \<Rightarrow> string list \<Rightarrow> topology_home
       \<Rightarrow> string option \<times> topology_home" where
  "quarantine_all log_error now [] h = (None, h)"
| "quarantine_all log_error now (s # ss) h =
     (case record_quarantine (log_error s) now s None quarantine_reason h of
        (Some e, h') \<Rightarrow> (Some e, h')
      | (None, h') \<Rightarrow> quarantine_all log_error now ss h')"

definition load_reconciled_topology ::
    "(string \<Rightarrow> string option) \<Rightarrow> string option \<Rightarrow> string \<Rightarrow> string set \<Rightarrow> topology_home
       \<Rightarrow> (string + topology \<times> bool) \<times> topology_home" where
  "load_reconciled_topology log_error save_error now known h =
     (let t = load_topology (home_topology h) in
      case quarantine_all log_error now (stale_ids known t) h of
        (Some e, h1) \<Rightarrow> (Inl e, h1)
      | (None, h1) \<Rightarrow>
          (case retain_agents known t of
             (t1, changed) \<Rightarrow>
               if changed
               then (case save_topology save_error t1 of
                       Inl e \<Rightarrow> (Inl e, h1)
                     | Inr f \<Rightarrow> (Inr (t1, changed), h1\<lparr>home_topology := Some f\<rparr>))
               else (Inr (t1, changed), h1)))"

section \<open>Activity of a pair\<close>

datatype interaction_kind = Message | Task | Reply | Notification

datatype interaction_status =
    Created | Queued | Delivering | Delivered | AwaitingReply | Completed | Failed | Expired

text \<open>The fields of an interaction record the aggregation reads.\<close>

record interaction_record =
  ir_kind :: interaction_kind
  ir_sender :: "string option"
  ir_targets :: "string list"
  ir_status :: interaction_status
  ir_created_at :: string

record pair_activity =
  pa_a :: string
  pa_b :: string
  pa_last_message_at :: string
  pa_active_ask :: bool
  pa_awaiting_reply_from :: "string option"

definition active_ask_window_ms :: int where
  "active_ask_window_ms = 60 * 60 * 1000"

text \<open>
  The age of an ask is a difference of 64-bit integers. The argument \<open>parse_ms\<close> is the
  RFC 3339 parser of the library the code uses.
\<close>

definition within_window :: "(string \<Rightarrow> 64 word option) \<Rightarrow> 64 word \<Rightarrow> string \<Rightarrow> bool" where
  "within_window parse_ms now_ms created_at =
     (case parse_ms created_at of
        None \<Rightarrow> False
      | Some record_ms \<Rightarrow>
          0 \<le> sint (now_ms - record_ms) \<and> sint (now_ms - record_ms) \<le> active_ask_window_ms)"

definition note_activity ::
    "(string \<Rightarrow> 64 word option) \<Rightarrow> 64 word \<Rightarrow> interaction_record \<Rightarrow> string \<Rightarrow> string
       \<Rightarrow> (pair \<times> pair_activity) list \<Rightarrow> (pair \<times> pair_activity) list" where
  "note_activity parse_ms now_ms r sender target m =
     (case canonical_pair sender target of
        None \<Rightarrow> m
      | Some (a, b) \<Rightarrow>
          let entry = (case map_of m (a, b) of
                Some e \<Rightarrow> e
              | None \<Rightarrow> \<lparr>pa_a = a, pa_b = b, pa_last_message_at = ir_created_at r,
                         pa_active_ask = False, pa_awaiting_reply_from = None\<rparr>);
              e1 = (if ir_created_at r > pa_last_message_at entry
                    then entry\<lparr>pa_last_message_at := ir_created_at r\<rparr> else entry);
              e2 = (if ir_kind r = Task \<and> ir_status r = AwaitingReply
                       \<and> within_window parse_ms now_ms (ir_created_at r)
                    then e1\<lparr>pa_active_ask := True, pa_awaiting_reply_from := Some target\<rparr>
                    else e1)
          in bt_insert (a, b) e2 m)"

definition pair_activity_from_records ::
    "(string \<Rightarrow> 64 word option) \<Rightarrow> interaction_record list \<Rightarrow> 64 word \<Rightarrow> pair_activity list" where
  "pair_activity_from_records parse_ms records now_ms =
     map snd (fold (\<lambda>r m.
       case ir_sender r of
         None \<Rightarrow> m
       | Some sender \<Rightarrow> fold (note_activity parse_ms now_ms r sender) (ir_targets r) m) records [])"

end
