(* ===== verification/Topology_Laws.thy ===== *)
theory Topology_Laws
  imports Topology
begin

text \<open>
  What the operations on the topology do to the three sets of pairs, the invariant they
  keep (canonical pairs, no duplicates, no edge that is suppressed), and the properties
  of seeding, deletion, neighbour resolution, reconciliation and persistence.
\<close>

section \<open>Canonical pairs\<close>

lemma canonical_iff:
  "canonical (a, b) \<longleftrightarrow> trim a = a \<and> trim b = b \<and> a \<noteq> [] \<and> b \<noteq> [] \<and> a < b"
  by (auto simp: canonical_def canonical_pair_def Let_def split: if_splits)

lemma canonical_pair_Some:
  "canonical_pair x y = Some (a, b) \<longleftrightarrow>
     canonical (a, b) \<and> (a = trim x \<and> b = trim y \<or> a = trim y \<and> b = trim x)"
  unfolding canonical_iff by (auto simp: canonical_pair_def Let_def not_less_iff_gr_or_eq)

lemma canonical_pair_canonical [simp]: "canonical (a, b) \<Longrightarrow> canonical_pair a b = Some (a, b)"
  by (simp add: canonical_def)

lemma canonical_pair_comm: "canonical_pair x y = canonical_pair y x"
  by (auto simp: canonical_pair_def Let_def)

lemma canonical_pair_SomeD: "canonical_pair x y = Some p \<Longrightarrow> canonical p"
  by (cases p) (simp add: canonical_pair_Some)

lemma ex_edge_iff: "list_ex (\<lambda>e. edge_a e = a \<and> edge_b e = b) es \<longleftrightarrow> (a, b) \<in> edge_pair ` set es"
  by (auto simp: list_ex_iff edge_pair_def image_iff)

lemma ex_ign_iff: "list_ex (\<lambda>p. pair_a p = a \<and> pair_b p = b) ps \<longleftrightarrow> (a, b) \<in> ign_pair ` set ps"
  by (auto simp: list_ex_iff ign_pair_def image_iff)

lemma drop_edge_pairs:
  "edge_pair ` {e \<in> set es. edge_a e = a \<longrightarrow> edge_b e \<noteq> b} = edge_pair ` set es - {(a, b)}"
  by (auto simp: edge_pair_def)

lemma drop_ign_pairs:
  "ign_pair ` {p \<in> set ps. pair_a p = a \<longrightarrow> pair_b p \<noteq> b} = ign_pair ` set ps - {(a, b)}"
  by (auto simp: ign_pair_def)

lemma filter_length_neq: "length (filter P xs) \<noteq> length xs \<longleftrightarrow> (\<exists>x \<in> set xs. \<not> P x)"
  by (metis filter_True length_filter_less less_irrefl)

lemma dropped_edge_iff:
  "length (filter (\<lambda>e. edge_a e = a \<longrightarrow> edge_b e \<noteq> b) es) \<noteq> length es
     \<longleftrightarrow> (a, b) \<in> edge_pair ` set es"
  unfolding filter_length_neq by (auto simp: edge_pair_def image_iff)

lemma dropped_ign_iff:
  "length (filter (\<lambda>p. pair_a p = a \<longrightarrow> pair_b p \<noteq> b) ps) \<noteq> length ps
     \<longleftrightarrow> (a, b) \<in> ign_pair ` set ps"
  unfolding filter_length_neq by (auto simp: ign_pair_def image_iff)

named_theorems pair_sets \<open>the sets of pairs after an operation\<close>

lemmas pair_set_facts =
  ex_edge_iff ex_ign_iff drop_edge_pairs drop_ign_pairs dropped_edge_iff dropped_ign_iff

lemma add_edge_edges [pair_sets]:
  "edge_pairs (fst (add_edge x y at t)) =
     (case canonical_pair x y of None \<Rightarrow> edge_pairs t | Some p \<Rightarrow> insert p (edge_pairs t))"
  by (auto simp: add_edge_def Let_def pair_set_facts edge_pair_def split: option.splits)

lemma add_edge_suppressed [pair_sets]:
  "suppressed (fst (add_edge x y at t)) =
     (case canonical_pair x y of None \<Rightarrow> suppressed t | Some p \<Rightarrow> suppressed t - {p})"
  by (auto simp: add_edge_def Let_def pair_set_facts split: option.splits)

lemma add_edge_ignored [pair_sets]: "t_ignored (fst (add_edge x y at t)) = t_ignored t"
  by (auto simp: add_edge_def Let_def split: option.splits)

lemma add_edge_flag:
  "snd (add_edge x y at t) \<longleftrightarrow>
     (\<exists>p. canonical_pair x y = Some p \<and> (p \<notin> edge_pairs t \<or> p \<in> suppressed t))"
  by (auto simp: add_edge_def Let_def pair_set_facts split: option.splits)

lemma remove_edge_edges [pair_sets]:
  "edge_pairs (fst (remove_edge x y t)) =
     (case canonical_pair x y of None \<Rightarrow> edge_pairs t | Some p \<Rightarrow> edge_pairs t - {p})"
  by (auto simp: remove_edge_def Let_def pair_set_facts split: option.splits)

lemma remove_edge_rest [pair_sets]:
  "t_suppressed (fst (remove_edge x y t)) = t_suppressed t"
  "t_ignored (fst (remove_edge x y t)) = t_ignored t"
  by (auto simp: remove_edge_def Let_def split: option.splits)

lemma remove_edge_flag:
  "snd (remove_edge x y t) \<longleftrightarrow> (\<exists>p. canonical_pair x y = Some p \<and> p \<in> edge_pairs t)"
  by (auto simp: remove_edge_def Let_def pair_set_facts split: option.splits)

lemma suppress_pairs [pair_sets]:
  "suppressed (fst (suppress_seed_pair x y t)) =
     (case canonical_pair x y of None \<Rightarrow> suppressed t | Some p \<Rightarrow> insert p (suppressed t))"
  by (auto simp: suppress_seed_pair_def pair_set_facts ign_pair_def split: option.splits)

lemma suppress_rest [pair_sets]:
  "t_edges (fst (suppress_seed_pair x y t)) = t_edges t"
  "t_ignored (fst (suppress_seed_pair x y t)) = t_ignored t"
  by (auto simp: suppress_seed_pair_def split: option.splits)

lemma is_seed_suppressed_iff:
  "is_seed_suppressed x y t \<longleftrightarrow> (\<exists>p. canonical_pair x y = Some p \<and> p \<in> suppressed t)"
  by (auto simp: is_seed_suppressed_def ex_ign_iff split: option.splits)

lemma is_ignored_iff:
  "is_ignored x y t \<longleftrightarrow> (\<exists>p. canonical_pair x y = Some p \<and> p \<in> ignored t)"
  by (auto simp: is_ignored_def ex_ign_iff split: option.splits)

lemma ignore_pairs [pair_sets]:
  "ignored (fst (ignore_pair x y t)) =
     (case canonical_pair x y of None \<Rightarrow> ignored t | Some p \<Rightarrow> insert p (ignored t))"
  "t_edges (fst (ignore_pair x y t)) = t_edges t"
  "t_suppressed (fst (ignore_pair x y t)) = t_suppressed t"
  by (auto simp: ignore_pair_def pair_set_facts ign_pair_def split: option.splits)

lemma unignore_pairs [pair_sets]:
  "ignored (fst (unignore_pair x y t)) =
     (case canonical_pair x y of None \<Rightarrow> ignored t | Some p \<Rightarrow> ignored t - {p})"
  "t_edges (fst (unignore_pair x y t)) = t_edges t"
  "t_suppressed (fst (unignore_pair x y t)) = t_suppressed t"
  by (auto simp: unignore_pair_def Let_def pair_set_facts split: option.splits)

section \<open>The invariant\<close>

definition topology_wf :: "topology \<Rightarrow> bool" where
  "topology_wf t \<longleftrightarrow>
     list_all canonical (map edge_pair (t_edges t)) \<and> distinct (map edge_pair (t_edges t)) \<and>
     list_all canonical (map ign_pair (t_ignored t)) \<and> distinct (map ign_pair (t_ignored t)) \<and>
     list_all canonical (map ign_pair (t_suppressed t)) \<and> distinct (map ign_pair (t_suppressed t))"

text \<open>A pair that has an edge is not suppressed: the state every operation restores.\<close>

definition unambiguous :: "topology \<Rightarrow> bool" where
  "unambiguous t \<longleftrightarrow> edge_pairs t \<inter> suppressed t = {}"

lemma wf_canonical:
  "topology_wf t \<Longrightarrow> p \<in> edge_pairs t \<or> p \<in> ignored t \<or> p \<in> suppressed t \<Longrightarrow> canonical p"
  by (auto simp: topology_wf_def list_all_iff)

lemma distinct_map_filter_append:
  "distinct (map f xs) \<Longrightarrow> f x \<notin> f ` set xs \<Longrightarrow> distinct (map f (xs @ [x]))"
  by auto

lemma wf_add_edge: "topology_wf t \<Longrightarrow> topology_wf (fst (add_edge x y at t))"
  by (auto simp: topology_wf_def add_edge_def Let_def ex_edge_iff edge_pair_def list_all_iff
      canonical_pair_SomeD distinct_map_filter split: option.splits)

lemma wf_remove_edge: "topology_wf t \<Longrightarrow> topology_wf (fst (remove_edge x y t))"
  by (auto simp: topology_wf_def remove_edge_def Let_def list_all_iff distinct_map_filter
      split: option.splits)

lemma wf_suppress: "topology_wf t \<Longrightarrow> topology_wf (fst (suppress_seed_pair x y t))"
  by (auto simp: topology_wf_def suppress_seed_pair_def ex_ign_iff ign_pair_def list_all_iff
      canonical_pair_SomeD split: option.splits)

lemma wf_ignore: "topology_wf t \<Longrightarrow> topology_wf (fst (ignore_pair x y t))"
  by (auto simp: topology_wf_def ignore_pair_def ex_ign_iff ign_pair_def list_all_iff
      canonical_pair_SomeD split: option.splits)

lemma wf_unignore: "topology_wf t \<Longrightarrow> topology_wf (fst (unignore_pair x y t))"
  by (auto simp: topology_wf_def unignore_pair_def Let_def list_all_iff distinct_map_filter
      split: option.splits)

lemma wf_retain: "topology_wf t \<Longrightarrow> topology_wf (fst (retain_agents known t))"
  by (auto simp: topology_wf_def retain_agents_def Let_def list_all_iff distinct_map_filter)

lemma unlink_fst:
  "fst (remove_edge_and_suppress_seed_if_team_pair x y teams t) =
     (case canonical_pair x y of None \<Rightarrow> t
      | Some (a, b) \<Rightarrow>
          if (a, b) \<in> edge_pairs t \<and> team_memberships_contain_pair teams a b
          then fst (suppress_seed_pair a b (fst (remove_edge a b t)))
          else fst (remove_edge a b t))"
proof (cases "canonical_pair x y")
  case None
  then show ?thesis by (simp add: remove_edge_and_suppress_seed_if_team_pair_def)
next
  case (Some p)
  then obtain a b where p: "canonical_pair x y = Some (a, b)" by (cases p) simp
  then have "canonical (a, b)" by (rule canonical_pair_SomeD)
  with p show ?thesis using remove_edge_flag [of a b t]
    by (cases "remove_edge a b t") (auto simp: remove_edge_and_suppress_seed_if_team_pair_def)
qed

lemma unlink_flag:
  "snd (remove_edge_and_suppress_seed_if_team_pair x y teams t) \<longleftrightarrow>
     (\<exists>p. canonical_pair x y = Some p \<and> p \<in> edge_pairs t)"
proof (cases "canonical_pair x y")
  case None
  then show ?thesis by (simp add: remove_edge_and_suppress_seed_if_team_pair_def)
next
  case (Some p)
  then obtain a b where p: "canonical_pair x y = Some (a, b)" by (cases p) simp
  then have "canonical (a, b)" by (rule canonical_pair_SomeD)
  with p show ?thesis using remove_edge_flag [of a b t]
    by (cases "remove_edge a b t") (auto simp: remove_edge_and_suppress_seed_if_team_pair_def)
qed

text \<open>Every operation in one place, by its effect on the four parts of the state.\<close>

lemma apply_operation_fst:
  assumes "canonical_pair x y = Some (a, b)"
  shows "fst (apply_topology_operation op x y at teams t) =
     (case op of
        Link \<Rightarrow> fst (add_edge a b at t)
      | Unlink \<Rightarrow> fst (remove_edge_and_suppress_seed_if_team_pair a b teams t)
      | Ignore \<Rightarrow> fst (ignore_pair a b t)
      | Unignore \<Rightarrow> fst (unignore_pair a b t))"
  using assms by (auto simp: apply_topology_operation_def split: prod.splits topology_operation.splits)

lemma apply_operation_invalid:
  "canonical_pair x y = None \<Longrightarrow> apply_topology_operation op x y at teams t = (t, None)"
  by (simp add: apply_topology_operation_def)

lemma wf_apply_operation:
  assumes "topology_wf t"
  shows "topology_wf (fst (apply_topology_operation op x y at teams t))"
proof (cases "canonical_pair x y")
  case None
  with assms show ?thesis by (simp add: apply_operation_invalid)
next
  case (Some p)
  then obtain a b where "canonical_pair x y = Some (a, b)" by (cases p) simp
  from apply_operation_fst [OF this] assms show ?thesis
    by (auto simp: unlink_fst wf_add_edge wf_remove_edge wf_suppress wf_ignore wf_unignore
        split: topology_operation.splits option.splits)
qed

lemma unambiguous_apply_operation:
  assumes "unambiguous t"
  shows "unambiguous (fst (apply_topology_operation op x y at teams t))"
proof (cases "canonical_pair x y")
  case None
  with assms show ?thesis by (simp add: apply_operation_invalid)
next
  case (Some p)
  then obtain a b where c: "canonical_pair x y = Some (a, b)" by (cases p) simp
  then have "canonical (a, b)" by (rule canonical_pair_SomeD)
  with apply_operation_fst [OF c] assms show ?thesis
    by (auto simp: unambiguous_def unlink_fst pair_sets split: topology_operation.splits)
qed

section \<open>Canonicalization and persistence\<close>

lemma edge_pair_simp [simp]: "edge_pair \<lparr>edge_a = a, edge_b = b, edge_created_at = c\<rparr> = (a, b)"
  by (simp add: edge_pair_def)

lemma ign_pair_simp [simp]: "ign_pair \<lparr>pair_a = a, pair_b = b\<rparr> = (a, b)"
  by (simp add: ign_pair_def)

lemma canonical_edges_pairs:
  "edge_pair ` set (canonical_edges seen es) =
     {p. \<exists>e \<in> set es. canonical_pair (edge_a e) (edge_b e) = Some p} - set seen"
proof (induction seen es rule: canonical_edges.induct)
  case (1 seen)
  then show ?case by simp
next
  case (2 seen e es)
  show ?case
  proof (cases "canonical_pair (edge_a e) (edge_b e)")
    case None
    with "2.IH"(1) show ?thesis by auto
  next
    case (Some p)
    obtain a b where p: "p = (a, b)" by (cases p)
    show ?thesis
    proof (cases "(a, b) \<in> set seen")
      case True
      with Some p "2.IH"(2) [of "(a, b)" a b] show ?thesis by auto
    next
      case False
      with Some p "2.IH"(3) [of "(a, b)" a b] show ?thesis by auto
    qed
  qed
qed

lemma canonical_ignored_pairs:
  "ign_pair ` set (canonical_ignored seen ps) =
     {p. \<exists>e \<in> set ps. canonical_pair (pair_a e) (pair_b e) = Some p} - set seen"
proof (induction seen ps rule: canonical_ignored.induct)
  case (1 seen)
  then show ?case by simp
next
  case (2 seen e es)
  show ?case
  proof (cases "canonical_pair (pair_a e) (pair_b e)")
    case None
    with "2.IH"(1) show ?thesis by auto
  next
    case (Some p)
    obtain a b where p: "p = (a, b)" by (cases p)
    show ?thesis
    proof (cases "(a, b) \<in> set seen")
      case True
      with Some p "2.IH"(2) [of "(a, b)" a b] show ?thesis by auto
    next
      case False
      with Some p "2.IH"(3) [of "(a, b)" a b] show ?thesis by auto
    qed
  qed
qed

lemma canonical_edges_distinct: "distinct (map edge_pair (canonical_edges seen es))"
proof (induction seen es rule: canonical_edges.induct)
  case (2 seen e es)
  then show ?case
    by (cases "canonical_pair (edge_a e) (edge_b e)")
      (auto simp: canonical_edges_pairs)
qed simp

lemma canonical_ignored_distinct: "distinct (map ign_pair (canonical_ignored seen ps))"
proof (induction seen ps rule: canonical_ignored.induct)
  case (2 seen e es)
  then show ?case
    by (cases "canonical_pair (pair_a e) (pair_b e)")
      (auto simp: canonical_ignored_pairs)
qed simp

lemma distinct_sort_key: "distinct (map f (sort_key g xs)) \<longleftrightarrow> distinct (map f xs)"
  by (metis mset_eq_imp_distinct_iff mset_map mset_sort)

lemma wf_canonicalize: "topology_wf (canonicalize t)"
  unfolding topology_wf_def canonicalize_def
  by (auto simp: distinct_sort_key canonical_edges_distinct canonical_ignored_distinct list_all_iff
      dest!: canonical_edges_pairs [THEN equalityD1, THEN subsetD, OF imageI]
        canonical_ignored_pairs [THEN equalityD1, THEN subsetD, OF imageI]
        dest: canonical_pair_SomeD)

text \<open>On canonical, distinct entries the canonicalization only sorts.\<close>

lemma canonical_edges_id:
  "list_all canonical (map edge_pair es) \<Longrightarrow> distinct (map edge_pair es) \<Longrightarrow>
     set seen \<inter> edge_pair ` set es = {} \<Longrightarrow> canonical_edges seen es = es"
  by (induction seen es rule: canonical_edges.induct) (auto simp: edge_pair_def)

lemma canonical_ignored_id:
  "list_all canonical (map ign_pair ps) \<Longrightarrow> distinct (map ign_pair ps) \<Longrightarrow>
     set seen \<inter> ign_pair ` set ps = {} \<Longrightarrow> canonical_ignored seen ps = ps"
  by (induction seen ps rule: canonical_ignored.induct) (auto simp: ign_pair_def)

lemma canonicalize_wf:
  "topology_wf t \<Longrightarrow> canonicalize t =
     t\<lparr>t_edges := sort_key edge_pair (t_edges t), t_ignored := sort_key ign_pair (t_ignored t),
       t_suppressed := sort_key ign_pair (t_suppressed t)\<rparr>"
  by (simp add: topology_wf_def canonicalize_def canonical_edges_id canonical_ignored_id)

lemma canonicalize_sets:
  "topology_wf t \<Longrightarrow> edge_pairs (canonicalize t) = edge_pairs t"
  "topology_wf t \<Longrightarrow> ignored (canonicalize t) = ignored t"
  "topology_wf t \<Longrightarrow> suppressed (canonicalize t) = suppressed t"
  by (simp_all add: canonicalize_wf)

lemma canonicalize_idem: "canonicalize (canonicalize t) = canonicalize t"
  using canonicalize_wf [OF wf_canonicalize, of t]
  by (simp add: canonicalize_def sort_key_id_if_sorted)

lemma load_topology_wf: "topology_wf (load_topology file)"
  by (cases "file") (simp_all add: load_topology_def wf_canonicalize topology_default_def,
    simp add: topology_wf_def)

section \<open>Seeding\<close>

lemma canonical_pair_self [simp]: "canonical_pair x x = None"
  by (simp add: canonical_pair_def)

definition pairs_within :: "string list \<Rightarrow> pair set" where
  "pairs_within ms = {p. \<exists>x \<in> set ms. \<exists>y \<in> set ms. canonical_pair x y = Some p}"

lemma pairs_of_canonical:
  "{p. \<exists>ij \<in> set (pairs_of ms). canonical_pair (fst ij) (snd ij) = Some p} = pairs_within ms"
proof (induction ms)
  case Nil
  then show ?case by (simp add: pairs_within_def)
next
  case (Cons x ms)
  have "{p. \<exists>ij \<in> set (pairs_of (x # ms)). canonical_pair (fst ij) (snd ij) = Some p} =
      {p. \<exists>y \<in> set ms. canonical_pair x y = Some p} \<union>
      {p. \<exists>ij \<in> set (pairs_of ms). canonical_pair (fst ij) (snd ij) = Some p}"
    by (simp add: bex_Un) blast
  also have "\<dots> = {p. \<exists>y \<in> set ms. canonical_pair x y = Some p} \<union> pairs_within ms"
    unfolding Cons.IH ..
  also have "\<dots> = pairs_within (x # ms)"
    using canonical_pair_comm [of _ x] by (auto simp: pairs_within_def)
  finally show ?case .
qed

lemma add_edge_unsuppressed:
  assumes "\<not> is_seed_suppressed x y t"
  shows "t_suppressed (fst (add_edge x y at t)) = t_suppressed t"
    and "snd (add_edge x y at t) \<longleftrightarrow> (\<exists>p. canonical_pair x y = Some p \<and> p \<notin> edge_pairs t)"
    and "length (t_edges (fst (add_edge x y at t))) =
           length (t_edges t) + (if snd (add_edge x y at t) then 1 else 0)"
    and "t_version (fst (add_edge x y at t)) = t_version t"
proof -
  have keep: "filter (\<lambda>p. \<not> (pair_a p = a \<and> pair_b p = b)) (t_suppressed t) = t_suppressed t"
    if "canonical_pair x y = Some (a, b)" for a b
    using assms that by (intro filter_True) (auto simp: is_seed_suppressed_def list_ex_iff)
  show "t_suppressed (fst (add_edge x y at t)) = t_suppressed t"
    "t_version (fst (add_edge x y at t)) = t_version t"
    using keep by (auto simp: add_edge_def Let_def simp del: de_Morgan_conj split: option.splits)
  show flag: "snd (add_edge x y at t) \<longleftrightarrow> (\<exists>p. canonical_pair x y = Some p \<and> p \<notin> edge_pairs t)"
    using assms unfolding add_edge_flag is_seed_suppressed_iff by blast
  show "length (t_edges (fst (add_edge x y at t))) =
           length (t_edges t) + (if snd (add_edge x y at t) then 1 else 0)"
    unfolding flag by (auto simp: add_edge_def Let_def ex_edge_iff split: option.splits)
qed

lemma seed_pair_effect:
  fixes t :: topology
  assumes "seed_pair at (x, y) (t, n) = (t', n')"
  shows "edge_pairs t' = edge_pairs t \<union> ({p. canonical_pair x y = Some p} - suppressed t)"
    and "t_suppressed t' = t_suppressed t" and "t_ignored t' = t_ignored t"
    and "t_version t' = t_version t"
    and "length (t_edges t') + n = length (t_edges t) + n'"
    and "topology_wf t \<Longrightarrow> topology_wf t'"
proof -
  consider (skip) "is_seed_suppressed x y t" "t' = t" "n' = n"
    | (add) "\<not> is_seed_suppressed x y t" "t' = fst (add_edge x y at t)"
        "n' = n + (if snd (add_edge x y at t) then 1 else 0)"
    using assms by (auto simp: seed_pair_def split: if_splits prod.splits bool.splits)
  note cases = this
  show "edge_pairs t' = edge_pairs t \<union> ({p. canonical_pair x y = Some p} - suppressed t)"
    using cases by cases (auto simp: add_edge_edges is_seed_suppressed_iff split: option.splits)
  show "t_suppressed t' = t_suppressed t" "t_version t' = t_version t"
    using cases by (cases; simp add: add_edge_unsuppressed)+
  show "t_ignored t' = t_ignored t"
    using cases by cases (simp_all add: add_edge_ignored)
  show "length (t_edges t') + n = length (t_edges t) + n'"
    using cases by cases (simp_all add: add_edge_unsuppressed(3))
  show "topology_wf t \<Longrightarrow> topology_wf t'"
    using cases by cases (simp_all add: wf_add_edge)
qed

lemma seed_fold_effect:
  fixes t :: topology
  assumes "fold (seed_pair at) ps (t, n) = (t', n')"
  shows "edge_pairs t' = edge_pairs t \<union>
           ({p. \<exists>ij \<in> set ps. canonical_pair (fst ij) (snd ij) = Some p} - suppressed t) \<and>
         t_suppressed t' = t_suppressed t \<and> t_ignored t' = t_ignored t \<and>
         t_version t' = t_version t \<and>
         length (t_edges t') + n = length (t_edges t) + n' \<and>
         (topology_wf t \<longrightarrow> topology_wf t')"
  using assms
proof (induction ps arbitrary: t n)
  case Nil
  then show ?case by simp
next
  case (Cons ij ps)
  obtain t1 n1 where st: "seed_pair at (fst ij, snd ij) (t, n) = (t1, n1)" by fastforce
  with Cons.prems have "fold (seed_pair at) ps (t1, n1) = (t', n')" by simp
  from Cons.IH [OF this] seed_pair_effect [OF st] show ?case by auto
qed

lemmas seed_effect = seed_fold_effect [OF surjective_pairing]

lemma seed_clique_edges:
  "edge_pairs (fst (seed_team_clique ms at t)) = edge_pairs t \<union> (pairs_within ms - suppressed t)"
  unfolding seed_team_clique_def pairs_of_canonical [symmetric] using seed_effect by simp

lemma seed_clique_rest:
  "t_suppressed (fst (seed_team_clique ms at t)) = t_suppressed t"
  "t_ignored (fst (seed_team_clique ms at t)) = t_ignored t"
  "length (t_edges (fst (seed_team_clique ms at t))) =
     length (t_edges t) + snd (seed_team_clique ms at t)"
  "t_version (fst (seed_team_clique ms at t)) = t_version t"
  "topology_wf t \<Longrightarrow> topology_wf (fst (seed_team_clique ms at t))"
  unfolding seed_team_clique_def using seed_effect [where n = 0] by auto

lemma suppress_version: "t_version (fst (suppress_seed_pair x y t)) = t_version t"
  by (auto simp: suppress_seed_pair_def split: option.splits)

lemma suppress_missing_effect:
  fixes t :: topology
  assumes "suppress_missing_pair ij (t, n) = (t', n')"
  shows "t_edges t' = t_edges t \<and> t_ignored t' = t_ignored t \<and> t_version t' = t_version t \<and>
         suppressed t' = suppressed t \<union>
           ({p. canonical_pair (fst ij) (snd ij) = Some p} - edge_pairs t) \<and>
         (topology_wf t \<longrightarrow> topology_wf t')"
proof -
  let ?has = "\<exists>p. canonical_pair (fst ij) (snd ij) = Some p \<and> p \<in> edge_pairs t"
  have "t' = (if ?has then t else fst (suppress_seed_pair (fst ij) (snd ij) t))"
    using assms by (auto simp: suppress_missing_pair_def Let_def ex_edge_iff
        split: if_splits prod.splits bool.splits option.splits)
  then show ?thesis
    by (cases ?has) (auto simp: pair_sets wf_suppress suppress_version split: option.splits)
qed

lemma suppress_missing_fold:
  fixes t :: topology
  assumes "fold suppress_missing_pair ps (t, n) = (t', n')"
  shows "t_edges t' = t_edges t \<and> t_ignored t' = t_ignored t \<and> t_version t' = t_version t \<and>
         suppressed t' = suppressed t \<union>
           ({p. \<exists>ij \<in> set ps. canonical_pair (fst ij) (snd ij) = Some p} - edge_pairs t) \<and>
         (topology_wf t \<longrightarrow> topology_wf t')"
  using assms
proof (induction ps arbitrary: t n)
  case Nil
  then show ?case by simp
next
  case (Cons ij ps)
  obtain t1 n1 where st: "suppress_missing_pair ij (t, n) = (t1, n1)" by fastforce
  with Cons.prems have "fold suppress_missing_pair ps (t1, n1) = (t', n')" by simp
  from Cons.IH [OF this] suppress_missing_effect [OF st] show ?case by auto
qed

lemma suppress_missing_teams_fold:
  fixes t :: topology
  assumes "fold (\<lambda>team st. fold suppress_missing_pair (pairs_of (team_agent_ids team)) st) teams (t, n)
             = (t', n')"
  shows "t_edges t' = t_edges t \<and> t_ignored t' = t_ignored t \<and> t_version t' = t_version t \<and>
         suppressed t' = suppressed t \<union>
           ((\<Union>team \<in> set teams. pairs_within (team_agent_ids team)) - edge_pairs t) \<and>
         (topology_wf t \<longrightarrow> topology_wf t')"
  using assms
proof (induction teams arbitrary: t n)
  case Nil
  then show ?case by simp
next
  case (Cons team teams)
  obtain t1 n1 where st: "fold suppress_missing_pair (pairs_of (team_agent_ids team)) (t, n) = (t1, n1)"
    by fastforce
  with Cons.prems have "fold (\<lambda>team st. fold suppress_missing_pair (pairs_of (team_agent_ids team)) st)
      teams (t1, n1) = (t', n')" by simp
  from Cons.IH [OF this] suppress_missing_fold [OF st] show ?case
    by (auto simp: pairs_of_canonical)
qed

lemmas suppress_missing_all =
  suppress_missing_teams_fold [OF surjective_pairing, of teams t 0 for teams t]

lemma suppress_missing_teams:
  "t_edges (fst (suppress_missing_team_seed_pairs teams t)) = t_edges t"
  "t_ignored (fst (suppress_missing_team_seed_pairs teams t)) = t_ignored t"
  "suppressed (fst (suppress_missing_team_seed_pairs teams t)) = suppressed t \<union>
     ((\<Union>team \<in> set teams. pairs_within (team_agent_ids team)) - edge_pairs t)"
  "topology_wf t \<Longrightarrow> topology_wf (fst (suppress_missing_team_seed_pairs teams t))"
  unfolding suppress_missing_team_seed_pairs_def using suppress_missing_all [of teams t]
  by simp_all

section \<open>Histories of a topology\<close>

text \<open>
  What the writers do to a topology over its life: the privileged operations, the seed
  passes, the migration, the reconciliation with the roster and a save followed by the
  next load.
\<close>

datatype topology_event =
    Operate topology_operation string string string "team_membership list"
  | Seed "string list" string
  | MigrateSuppressions "team_membership list"
  | RetainAgents "string set"
  | SaveAndLoad

fun topology_step :: "topology \<Rightarrow> topology_event \<Rightarrow> string + topology" where
  "topology_step t (Operate op x y at teams) = Inr (fst (apply_topology_operation op x y at teams t))"
| "topology_step t (Seed ms at) = Inr (fst (seed_team_clique ms at t))"
| "topology_step t (MigrateSuppressions teams) = Inr (fst (suppress_missing_team_seed_pairs teams t))"
| "topology_step t (RetainAgents known) = Inr (fst (retain_agents known t))"
| "topology_step t SaveAndLoad =
     res_bind (save_topology None t) (\<lambda>f. Inr (load_topology (Some f)))"

lemma retain_sets:
  "edge_pairs (fst (retain_agents known t)) = {p \<in> edge_pairs t. fst p \<in> known \<and> snd p \<in> known}"
  "ignored (fst (retain_agents known t)) = {p \<in> ignored t. fst p \<in> known \<and> snd p \<in> known}"
  "suppressed (fst (retain_agents known t)) = {p \<in> suppressed t. fst p \<in> known \<and> snd p \<in> known}"
  by (auto simp: retain_agents_def Let_def edge_pair_def ign_pair_def)

lemma stamped_wf: "topology_wf (t\<lparr>t_version := v\<rparr>) = topology_wf t"
  by (simp add: topology_wf_def)

lemma canonicalize_version: "canonicalize (t\<lparr>t_version := v\<rparr>) = (canonicalize t)\<lparr>t_version := v\<rparr>"
  by (simp add: canonicalize_def)

lemma load_saved:
  "save_topology None t = Inr f \<Longrightarrow> load_topology (Some f) = f"
  using canonicalize_idem [of t]
  by (auto simp: save_topology_def load_topology_def Let_def canonicalize_version)

lemma saved_fields:
  assumes "save_topology None t = Inr f"
  shows "f = (canonicalize t)\<lparr>t_version := topology_schema_version\<rparr>"
  using assms by (simp add: save_topology_def Let_def)

lemma saved_sets:
  assumes "topology_wf t" and "save_topology None t = Inr f"
  shows "edge_pairs f = edge_pairs t" and "ignored f = ignored t" and "suppressed f = suppressed t"
    and "topology_wf f"
  using canonicalize_sets [OF assms(1)] wf_canonicalize [of t]
  by (simp_all add: saved_fields [OF assms(2)] stamped_wf)

definition sound :: "topology \<Rightarrow> bool" where
  "sound t \<longleftrightarrow> topology_wf t \<and> unambiguous t"

lemma topology_step_total: "\<exists>t'. topology_step t e = Inr t'"
  by (cases e) (simp_all add: save_topology_def Let_def)

lemma topology_step_sound:
  assumes "sound t" and "topology_step t e = Inr t'"
  shows "sound t'"
proof -
  have wf: "topology_wf t" and un: "unambiguous t" using assms(1) by (simp_all add: sound_def)
  show ?thesis
  proof (cases e)
    case (Operate op x y at teams)
    with assms(2) wf un show ?thesis
      by (auto simp: sound_def wf_apply_operation unambiguous_apply_operation)
  next
    case (Seed ms at)
    with assms(2) have "t' = fst (seed_team_clique ms at t)" by simp
    with wf un show ?thesis
      using seed_clique_rest(5) [OF wf] seed_clique_edges [of ms at t]
        seed_clique_rest(1) [of ms at t]
      by (auto simp: sound_def unambiguous_def)
  next
    case (MigrateSuppressions teams)
    with assms(2) have "t' = fst (suppress_missing_team_seed_pairs teams t)" by simp
    with wf un show ?thesis
      using suppress_missing_teams(1,3) [of teams t] suppress_missing_teams(4) [OF wf]
      by (auto simp: sound_def unambiguous_def)
  next
    case (RetainAgents known)
    with assms(2) have "t' = fst (retain_agents known t)" by simp
    with wf un show ?thesis
      by (auto simp: sound_def unambiguous_def wf_retain retain_sets)
  next
    case SaveAndLoad
    with assms(2) obtain f where f: "save_topology None t = Inr f" "t' = load_topology (Some f)"
      by (auto simp: res_bind_eq_Inr)
    with load_saved have "t' = f" by simp
    with saved_sets [OF wf f(1)] un show ?thesis by (simp add: sound_def unambiguous_def)
  qed
qed

interpretation topo: guarded_machine topology_step sound "\<lambda>_. False"
proof unfold_locales
  fix t e t' assume "sound t" "topology_step t e = Inr t'"
  then show "sound t'" by (rule topology_step_sound)
next
  fix t e f assume "topology_step t e = Inl f"
  with topology_step_total [of t e] show False by auto
qed

text \<open>The events that give a deleted pair its edge back, or forget one of its agents.\<close>

fun revives :: "pair \<Rightarrow> topology_event \<Rightarrow> bool" where
  "revives p (Operate op x y at teams) \<longleftrightarrow> op = Link \<and> canonical_pair x y = Some p"
| "revives p (RetainAgents known) \<longleftrightarrow> fst p \<notin> known \<or> snd p \<notin> known"
| "revives p _ \<longleftrightarrow> False"

definition buried :: "pair \<Rightarrow> topology \<Rightarrow> bool" where
  "buried p t \<longleftrightarrow> topology_wf t \<and> p \<in> suppressed t \<and> p \<notin> edge_pairs t"

lemma buried_step:
  assumes "buried p t" and "\<not> revives p e" and "topology_step t e = Inr t'"
  shows "buried p t'"
proof -
  have wf: "topology_wf t" and p: "p \<in> suppressed t" "p \<notin> edge_pairs t"
    using assms(1) by (simp_all add: buried_def)
  show ?thesis
  proof (cases e)
    case (Operate op x y at teams)
    with assms(3) have t': "t' = fst (apply_topology_operation op x y at teams t)" by simp
    have wf': "topology_wf t'" unfolding t' using wf by (rule wf_apply_operation)
    have "p \<in> suppressed t' \<and> p \<notin> edge_pairs t'"
    proof (cases "canonical_pair x y")
      case None
      with t' p show ?thesis by (simp add: apply_operation_invalid)
    next
      case (Some q)
      obtain a b where q: "q = (a, b)" by (cases q)
      with Some have c: "canonical_pair x y = Some (a, b)" by simp
      then have "canonical (a, b)" by (rule canonical_pair_SomeD)
      with apply_operation_fst [OF c] p assms(2) Operate c show ?thesis unfolding t'
        by (auto simp: unlink_fst pair_sets split: topology_operation.splits)
    qed
    with wf' show ?thesis by (simp add: buried_def)
  next
    case (Seed ms at)
    with assms(3) have "t' = fst (seed_team_clique ms at t)" by simp
    with p show ?thesis
      using seed_clique_rest(5) [OF wf] seed_clique_edges [of ms at t]
        seed_clique_rest(1) [of ms at t]
      by (auto simp: buried_def)
  next
    case (MigrateSuppressions teams)
    with assms(3) have "t' = fst (suppress_missing_team_seed_pairs teams t)" by simp
    with p show ?thesis
      using suppress_missing_teams(1,3) [of teams t] suppress_missing_teams(4) [OF wf]
      by (auto simp: buried_def)
  next
    case (RetainAgents known)
    with assms(3) have "t' = fst (retain_agents known t)" by simp
    with p assms(2) RetainAgents wf show ?thesis
      by (simp add: buried_def wf_retain retain_sets)
  next
    case SaveAndLoad
    with assms(3) obtain f where f: "save_topology None t = Inr f" "t' = load_topology (Some f)"
      by (auto simp: res_bind_eq_Inr)
    with load_saved have "t' = f" by simp
    with saved_sets [OF wf f(1)] p show ?thesis by (simp add: buried_def)
  qed
qed

lemma buried_run:
  "buried p t \<Longrightarrow> list_all (\<lambda>e. \<not> revives p e) es \<Longrightarrow> run_steps topology_step t es = Inr t' \<Longrightarrow>
     buried p t'"
  by (induction es arbitrary: t) (auto simp: res_bind_eq_Inr dest: buried_step)

lemma unlink_buries:
  assumes "topology_wf t" and "canonical_pair x y = Some (a, b)" and "(a, b) \<in> edge_pairs t"
    and "team_memberships_contain_pair teams a b"
  shows "buried (a, b) (fst (apply_topology_operation Unlink x y at teams t))"
proof -
  have c: "canonical (a, b)" using assms(2) by (rule canonical_pair_SomeD)
  with assms show ?thesis
    using wf_apply_operation [OF assms(1), of Unlink x y at teams]
    by (simp add: buried_def apply_operation_fst unlink_fst pair_sets)
qed

section \<open>Neighbours\<close>

lemma neighbors_set: "set (neighbors me t) = {u. (me, u) \<in> edge_pairs t \<or> (u, me) \<in> edge_pairs t}"
  by (auto simp: neighbors_def edge_pair_def List.map_filter_def image_iff split: if_splits) force+

definition with_reason :: "string \<Rightarrow> string list \<Rightarrow> string list" where
  "with_reason r rs = (if r \<in> set rs then rs else rs @ [r])"

lemma with_reason_twice [simp]: "with_reason r (with_reason r rs) = with_reason r rs"
  by (simp add: with_reason_def)

definition reasons_at :: "(string \<times> string list) list \<Rightarrow> string \<Rightarrow> string list" where
  "reasons_at m u = (case map_of m u of None \<Rightarrow> [] | Some rs \<Rightarrow> rs)"

lemma push_reason_at:
  "map_of (push_reason me known r v m) u =
     (if u = v \<and> u \<noteq> me \<and> map_of known u \<noteq> None then Some (with_reason r (reasons_at m u))
      else map_of m u)"
  by (simp add: push_reason_def Let_def with_reason_def reasons_at_def split: option.splits)

lemma push_reason_wf: "bt_wf m \<Longrightarrow> bt_wf (push_reason me known r v m)"
  by (simp add: push_reason_def Let_def bt_wf_insert)

text \<open>Pushing one reason for some of the members of a list.\<close>

lemma push_some:
  "map_of (fold (\<lambda>x m. if P x then push_reason me known r (g x) m else m) xs m) u =
     (if u \<noteq> me \<and> map_of known u \<noteq> None \<and> (\<exists>x \<in> set xs. P x \<and> g x = u)
      then Some (with_reason r (reasons_at m u)) else map_of m u)"
proof (induction xs arbitrary: m)
  case Nil
  then show ?case by simp
next
  case (Cons x xs)
  let ?m = "if P x then push_reason me known r (g x) m else m"
  have "reasons_at ?m u =
      (if P x \<and> u = g x \<and> u \<noteq> me \<and> map_of known u \<noteq> None then with_reason r (reasons_at m u)
       else reasons_at m u)"
    by (auto simp: reasons_at_def push_reason_at)
  moreover have "map_of ?m u =
      (if P x \<and> u = g x \<and> u \<noteq> me \<and> map_of known u \<noteq> None then Some (with_reason r (reasons_at m u))
       else map_of m u)"
    by (auto simp: push_reason_at)
  ultimately show ?case using Cons.IH [of ?m] by auto
qed

lemma push_some_wf:
  "bt_wf m \<Longrightarrow> bt_wf (fold (\<lambda>x m. if P x then push_reason me known r (g x) m else m) xs m)"
  by (induction xs arbitrary: m) (auto simp: push_reason_wf)

lemma known_agents_fold:
  "map_of (fold (\<lambda>g. bt_insert (ref_uuid g) g) agents m) u \<noteq> None \<longleftrightarrow>
     u \<in> ref_uuid ` set agents \<or> map_of m u \<noteq> None"
  by (induction agents arbitrary: m) auto

lemma known_agents_iff: "map_of (known_agents agents) u \<noteq> None \<longleftrightarrow> u \<in> ref_uuid ` set agents"
  unfolding known_agents_def by (simp only: known_agents_fold) simp

lemma map_of_bt_eq: "bt_wf m \<Longrightarrow> (u, rs) \<in> set m \<longleftrightarrow> map_of m u = Some rs"
  by (simp add: bt_wf_distinct)

lemma members_of_map:
  assumes "bt_wf m" and "\<And>u. map_of m u = (if u \<in> A then Some [r] else None)"
  shows "map nb_reasons (map (\<lambda>(u, rs). \<lparr>nb_uuid = u, nb_reasons = rs\<rparr>) m) = replicate (length m) [r]"
    and "set (map nb_uuid (map (\<lambda>(u, rs). \<lparr>nb_uuid = u, nb_reasons = rs\<rparr>) m)) = A"
    and "sorted_wrt (<) (map nb_uuid (map (\<lambda>(u, rs). \<lparr>nb_uuid = u, nb_reasons = rs\<rparr>) m))"
proof -
  have in_m: "(u, rs) \<in> set m \<longleftrightarrow> u \<in> A \<and> rs = [r]" for u rs
    using map_of_bt_eq [OF assms(1)] assms(2) by (simp split: if_splits) metis
  show "map nb_reasons (map (\<lambda>(u, rs). \<lparr>nb_uuid = u, nb_reasons = rs\<rparr>) m) = replicate (length m) [r]"
    using in_m by (intro replicate_eqI) auto
  have fsts: "map nb_uuid (map (\<lambda>(u, rs). \<lparr>nb_uuid = u, nb_reasons = rs\<rparr>) m) = map fst m" by auto
  show "set (map nb_uuid (map (\<lambda>(u, rs). \<lparr>nb_uuid = u, nb_reasons = rs\<rparr>) m)) = A"
    unfolding fsts using in_m by force
  show "sorted_wrt (<) (map nb_uuid (map (\<lambda>(u, rs). \<lparr>nb_uuid = u, nb_reasons = rs\<rparr>) m))"
    unfolding fsts using assms(1) by (simp add: bt_wf_def)
qed

text \<open>The agents the workspace rule shows: those that share a non-empty workspace.\<close>

definition fallback_visible :: "string \<Rightarrow> topology \<Rightarrow> agent_ref list \<Rightarrow> string set" where
  "fallback_visible me t agents =
     {u. \<exists>g w other. map_of (known_agents agents) me = Some g \<and> ref_workspace g = Some w \<and> w \<noteq> [] \<and>
         other \<in> set agents \<and> ref_uuid other = u \<and> ref_workspace other = Some w \<and>
         \<not> is_ignored me u t}"

definition manual_neighbours :: "string \<Rightarrow> topology \<Rightarrow> string set" where
  "manual_neighbours me t = {u. (me, u) \<in> edge_pairs t \<or> (u, me) \<in> edge_pairs t}"

lemma resolve_map:
  obtains m where "resolve_neighbors me t agents =
      \<lparr>view_agent_uuid = me, view_members = map (\<lambda>(u, rs). \<lparr>nb_uuid = u, nb_reasons = rs\<rparr>) m\<rparr>"
    and "bt_wf m"
    and "\<And>u. map_of m u =
      (if u \<in> {u \<in> (if manual_neighbours me t = {} then fallback_visible me t agents
                     else manual_neighbours me t). u \<noteq> me \<and> u \<in> ref_uuid ` set agents}
       then Some [if manual_neighbours me t = {} then ''rule:'' @ rule_workspace_fallback
                  else reason_manual]
       else None)"
proof -
  let ?k = "known_agents agents"
  let ?m1 = "fold (push_reason me ?k reason_manual) (neighbors me t) []"
  have m1: "map_of ?m1 u = (if u \<noteq> me \<and> map_of ?k u \<noteq> None \<and> u \<in> manual_neighbours me t
      then Some [reason_manual] else None)" for u
    using push_some [of "\<lambda>_. True" me ?k reason_manual "\<lambda>x. x" "neighbors me t" "[]" u]
    by (simp add: reasons_at_def with_reason_def neighbors_set manual_neighbours_def)
  have w1: "bt_wf ?m1"
    using push_some_wf [of "[]" "\<lambda>_. True" me ?k reason_manual "\<lambda>x. x" "neighbors me t"] by simp
  show thesis
  proof (cases "neighbors me t = []")
    case False
    then have ne: "manual_neighbours me t \<noteq> {}"
      using neighbors_set [of me t] by (metis manual_neighbours_def set_empty)
    show thesis
    proof (rule that [of ?m1])
      show "resolve_neighbors me t agents =
          \<lparr>view_agent_uuid = me, view_members = map (\<lambda>(u, rs). \<lparr>nb_uuid = u, nb_reasons = rs\<rparr>) ?m1\<rparr>"
        using False by (simp add: resolve_neighbors_def Let_def)
      show "bt_wf ?m1" by (rule w1)
      fix u
      show "map_of ?m1 u =
          (if u \<in> {u \<in> (if manual_neighbours me t = {} then fallback_visible me t agents
                     else manual_neighbours me t). u \<noteq> me \<and> u \<in> ref_uuid ` set agents}
           then Some [if manual_neighbours me t = {} then ''rule:'' @ rule_workspace_fallback
                  else reason_manual]
           else None)"
        unfolding m1 known_agents_iff using ne by auto
    qed
  next
    case True
    then have none: "manual_neighbours me t = {}"
      using neighbors_set [of me t] by (simp add: manual_neighbours_def)
    let ?ws = "case Option.bind (map_of ?k me) ref_workspace of
        None \<Rightarrow> None | Some w \<Rightarrow> if w = [] then None else Some w"
    show thesis
    proof (cases ?ws)
      case None
      then have "fallback_visible me t agents = {}"
        by (auto simp: fallback_visible_def split: option.splits if_splits)
      with None True none show thesis
        by (intro that [of "[]"]) (simp_all add: resolve_neighbors_def Let_def)
    next
      case (Some w)
      let ?r = "''rule:'' @ rule_workspace_fallback"
      let ?P = "\<lambda>other. ref_workspace other = Some w \<and> \<not> is_ignored me (ref_uuid other) t"
      let ?m2 = "fold (\<lambda>other m. if ?P other then push_reason me ?k ?r (ref_uuid other) m else m)
          agents []"
      have vis: "u \<in> fallback_visible me t agents \<longleftrightarrow> (\<exists>x \<in> set agents. ?P x \<and> ref_uuid x = u)" for u
        using Some by (auto simp: fallback_visible_def bind_eq_Some_conv split: option.splits if_splits)
      have m2: "map_of ?m2 u = (if u \<noteq> me \<and> map_of ?k u \<noteq> None \<and> u \<in> fallback_visible me t agents
          then Some [?r] else None)" for u
        unfolding vis push_some by (simp add: reasons_at_def with_reason_def)
      show thesis
      proof (rule that [of ?m2])
        show "resolve_neighbors me t agents =
            \<lparr>view_agent_uuid = me, view_members = map (\<lambda>(u, rs). \<lparr>nb_uuid = u, nb_reasons = rs\<rparr>) ?m2\<rparr>"
          using True Some by (simp add: resolve_neighbors_def Let_def)
        show "bt_wf ?m2" by (rule push_some_wf) simp
        fix u
        show "map_of ?m2 u =
          (if u \<in> {u \<in> (if manual_neighbours me t = {} then fallback_visible me t agents
                     else manual_neighbours me t). u \<noteq> me \<and> u \<in> ref_uuid ` set agents}
           then Some [if manual_neighbours me t = {} then ''rule:'' @ rule_workspace_fallback
                  else reason_manual]
           else None)"
          unfolding m2 known_agents_iff using none by auto
      qed
    qed
  qed
qed

section \<open>Properties\<close>

text \<open>
  C27. Whatever sequence of operations, seed passes, migrations, reconciliations and
  save-load cycles is run from a sound topology (the default one is sound), it succeeds,
  and the topology keeps only canonical pairs, keeps no pair twice, and never holds a
  pair both as an edge and as a suppressed pair.
\<close>

theorem topology_stays_sound:
  assumes "sound t"
  shows "\<exists>t'. run_steps topology_step t es = Inr t' \<and> topology_wf t' \<and>
           edge_pairs t' \<inter> suppressed t' = {}"
proof (cases "run_steps topology_step t es")
  case (Inl e)
  with topo.run_fails_legally [OF assms] show ?thesis by simp
next
  case (Inr t')
  with topo.run_keeps [OF assms] show ?thesis by (auto simp: sound_def unambiguous_def)
qed

lemma default_sound: "sound topology_default"
  by (simp add: sound_def unambiguous_def topology_default_def topology_wf_def)

theorem topology_stays_sound_witness:
  "\<exists>t'. run_steps topology_step topology_default
     [Operate Link ''b'' ''a'' ''now'' [], Seed [''a'', ''b'', ''c''] ''later'',
      Operate Unlink ''a'' ''b'' ''now'' [\<lparr>team_id = ''t'', team_agent_ids = [''a'', ''b'']\<rparr>],
      SaveAndLoad] = Inr t' \<and> topology_wf t' \<and> edge_pairs t' \<inter> suppressed t' = {}"
  by (rule topology_stays_sound [OF default_sound])

text \<open>
  C22. Deleting the edge of a pair that a team still contains is durable: no later
  sequence of seed passes, migrations, ignores, unlinks, reconciliations that know both
  agents and save-load cycles brings the edge back, only linking the same pair does.
\<close>

theorem unlink_is_durable:
  assumes "topology_wf t" and "canonical_pair x y = Some (a, b)" and "(a, b) \<in> edge_pairs t"
    and "team_memberships_contain_pair teams a b"
    and "list_all (\<lambda>e. \<not> revives (a, b) e) es"
    and "run_steps topology_step (fst (apply_topology_operation Unlink x y at teams t)) es = Inr t'"
  shows "(a, b) \<notin> edge_pairs t' \<and> is_seed_suppressed x y t'"
  using buried_run [OF unlink_buries [OF assms(1-4)] assms(5,6)] assms(2)
  by (simp add: buried_def is_seed_suppressed_iff)

definition ab_topology :: topology where
  "ab_topology = \<lparr>t_version = 3,
     t_edges = [\<lparr>edge_a = ''a'', edge_b = ''b'', edge_created_at = ''now''\<rparr>],
     t_ignored = [], t_suppressed = []\<rparr>"

definition ab_teams :: "team_membership list" where
  "ab_teams = [\<lparr>team_id = ''t'', team_agent_ids = [''b'', ''a'']\<rparr>]"

lemma trim_examples: "trim ''a'' = ''a''" "trim ''b'' = ''b''" "trim '' a'' = ''a''"
  by (rule trim_id; simp add: leading_word_def ws_words_def)+
    (simp add: trim_def strip_words.simps leading_word_def ws_words_def)

lemma ab_canonical: "canonical_pair ''b'' ''a'' = Some (''a'', ''b'')"
  by (simp add: canonical_pair_def trim_examples Let_def)

lemma ab_wf: "topology_wf ab_topology"
  using canonical_pair_SomeD [OF ab_canonical] by (simp add: topology_wf_def ab_topology_def)

theorem unlink_is_durable_witness:
  "(''a'', ''b'') \<notin> edge_pairs (fst (seed_team_clique [''a'', ''b''] ''later''
     (fst (apply_topology_operation Unlink ''b'' ''a'' ''now'' ab_teams ab_topology))))
   \<and> is_seed_suppressed ''b'' ''a'' (fst (seed_team_clique [''a'', ''b''] ''later''
     (fst (apply_topology_operation Unlink ''b'' ''a'' ''now'' ab_teams ab_topology))))"
  by (rule unlink_is_durable [OF ab_wf ab_canonical, where es = "[Seed [''a'', ''b''] ''later'']"
        and teams = ab_teams and at = "''now''"])
    (simp_all add: ab_topology_def ab_teams_def team_memberships_contain_pair_def)

text \<open>
  The suppression is recorded only when the team lists the trimmed identifiers. When
  a member of the team carries white space, seeding creates the edge under the trimmed
  identifier, deleting the edge finds no team for that identifier, and the next seed
  pass creates the edge again.
\<close>

theorem unlink_not_durable_for_padded_ids:
  "\<exists>t teams ms. edge_pairs t = {} \<and> teams = [\<lparr>team_id = ''t'', team_agent_ids = ms\<rparr>] \<and>
     (let seeded = fst (seed_team_clique ms ''now'' t);
          unlinked = fst (apply_topology_operation Unlink ''a'' ''b'' ''now'' teams seeded);
          reseeded = fst (seed_team_clique ms ''later'' unlinked)
      in edge_pairs seeded = {(''a'', ''b'')} \<and> edge_pairs unlinked = {} \<and>
         edge_pairs reseeded = {(''a'', ''b'')})"
proof -
  let ?ms = "['' a'', ''b'']"
  let ?teams = "[\<lparr>team_id = ''t'', team_agent_ids = ?ms\<rparr>]"
  let ?t = "topology_default"
  have cp: "canonical_pair '' a'' ''b'' = Some (''a'', ''b'')" "canonical_pair ''b'' '' a'' = Some (''a'', ''b'')"
    "canonical_pair ''a'' ''b'' = Some (''a'', ''b'')"
    by (simp_all add: canonical_pair_def trim_examples Let_def)
  have within: "pairs_within ?ms = {(''a'', ''b'')}"
    by (auto simp: pairs_within_def cp)
  have no_team: "\<not> team_memberships_contain_pair ?teams ''a'' ''b''"
    by (simp add: team_memberships_contain_pair_def)
  let ?s = "fst (seed_team_clique ?ms ''now'' ?t)"
  let ?u = "fst (apply_topology_operation Unlink ''a'' ''b'' ''now'' ?teams ?s)"
  have s: "edge_pairs ?s = {(''a'', ''b'')}" "t_suppressed ?s = []"
    by (simp_all add: seed_clique_edges seed_clique_rest within topology_default_def)
  have u: "?u = fst (remove_edge ''a'' ''b'' ?s)"
    using no_team by (simp add: apply_operation_fst [OF cp(3)] unlink_fst cp)
  have u': "edge_pairs ?u = {}" "t_suppressed ?u = []"
    unfolding u using s by (simp_all add: pair_sets cp)
  have "edge_pairs (fst (seed_team_clique ?ms ''later'' ?u)) = {(''a'', ''b'')}"
    by (simp add: seed_clique_edges within u')
  with s u' show ?thesis
    by (intro exI [of _ ?t] exI [of _ ?teams] exI [of _ ?ms]) (simp add: topology_default_def Let_def)
qed

text \<open>
  Seeding a team adds exactly the missing edges between its members, except the
  suppressed pairs, touches nothing else, and returns the number of edges it added.
\<close>

theorem seed_team_clique_exact:
  "edge_pairs (fst (seed_team_clique ms at t)) =
     edge_pairs t \<union>
     ({p. \<exists>x \<in> set ms. \<exists>y \<in> set ms. canonical_pair x y = Some p} - suppressed t) \<and>
   t_suppressed (fst (seed_team_clique ms at t)) = t_suppressed t \<and>
   t_ignored (fst (seed_team_clique ms at t)) = t_ignored t \<and>
   t_version (fst (seed_team_clique ms at t)) = t_version t \<and>
   snd (seed_team_clique ms at t) =
     length (t_edges (fst (seed_team_clique ms at t))) - length (t_edges t)"
  using seed_clique_edges [of ms at t] seed_clique_rest(1-4) [where ms = ms and at = at]
  by (simp add: pairs_within_def)

text \<open>
  The neighbours of an agent: with at least one manual edge, the known agents it
  shares an edge with, all for the reason \<open>manual\<close>; without one, the known agents of its
  own non-empty workspace, except the pairs that are ignored, all for the fallback rule.
  The agent itself is never among them, and they are listed once each, in order.
\<close>

theorem resolve_neighbors_correct:
  "member_uuids (resolve_neighbors me t agents) =
     {u. u \<noteq> me \<and> u \<in> ref_uuid ` set agents \<and>
         u \<in> (if manual_neighbours me t = {} then fallback_visible me t agents
              else manual_neighbours me t)} \<and>
   sorted_wrt (<) (map nb_uuid (view_members (resolve_neighbors me t agents))) \<and>
   map nb_reasons (view_members (resolve_neighbors me t agents)) =
     replicate (length (view_members (resolve_neighbors me t agents)))
       [if manual_neighbours me t = {} then ''rule:workspace-fallback'' else ''manual'']"
proof -
  obtain m where r: "resolve_neighbors me t agents =
      \<lparr>view_agent_uuid = me, view_members = map (\<lambda>(u, rs). \<lparr>nb_uuid = u, nb_reasons = rs\<rparr>) m\<rparr>"
    and wf: "bt_wf m"
    and at: "\<And>u. map_of m u =
      (if u \<in> {u \<in> (if manual_neighbours me t = {} then fallback_visible me t agents
                     else manual_neighbours me t). u \<noteq> me \<and> u \<in> ref_uuid ` set agents}
       then Some [if manual_neighbours me t = {} then ''rule:'' @ rule_workspace_fallback
                  else reason_manual]
       else None)"
    by (rule resolve_map [of me t agents]) blast
  from members_of_map [OF wf at] show ?thesis
    unfolding r member_uuids_def
    by (auto simp: rule_workspace_fallback_def reason_manual_def)
qed

text \<open>
  Saving and loading gives back the same topology: the file is a fixed point of the
  canonicalization, holds the same edges with their creation times, the same ignored and
  the same suppressed pairs, and carries the current schema version.
\<close>

theorem save_load_roundtrip:
  assumes "topology_wf t"
  shows "\<exists>f. save_topology None t = Inr f \<and> load_topology (Some f) = f \<and>
           mset (t_edges f) = mset (t_edges t) \<and> mset (t_ignored f) = mset (t_ignored t) \<and>
           mset (t_suppressed f) = mset (t_suppressed t) \<and>
           t_version f = topology_schema_version"
proof -
  let ?f = "(canonicalize t)\<lparr>t_version := topology_schema_version\<rparr>"
  have f: "save_topology None t = Inr ?f" by (simp add: save_topology_def Let_def)
  then have "load_topology (Some ?f) = ?f" by (rule load_saved)
  with f show ?thesis using canonicalize_wf [OF assms] by (intro exI [of _ ?f]) simp
qed

theorem save_load_roundtrip_witness:
  "\<exists>f. save_topology None ab_topology = Inr f \<and> load_topology (Some f) = f \<and>
     mset (t_edges f) = mset (t_edges ab_topology) \<and>
     mset (t_ignored f) = mset (t_ignored ab_topology) \<and>
     mset (t_suppressed f) = mset (t_suppressed ab_topology) \<and>
     t_version f = topology_schema_version"
  by (rule save_load_roundtrip [OF ab_wf])

section \<open>Reconciliation\<close>

definition mentioned :: "topology \<Rightarrow> string set" where
  "mentioned t = (\<Union>p \<in> edge_pairs t \<union> ignored t \<union> suppressed t. {fst p, snd p})"

lemma stale_ids_set: "set (stale_ids known t) = mentioned t - known"
  by (auto simp: stale_ids_def mentioned_def edge_pair_def ign_pair_def)

lemma quarantine_all_effect:
  "quarantine_all le now ss h = (res, h') \<Longrightarrow>
     home_topology h' = home_topology h \<and>
     set (home_quarantine h) \<subseteq> set (home_quarantine h') \<and>
     (res = None \<longrightarrow> set ss \<subseteq> q_session_id ` set (home_quarantine h'))"
proof (induction ss arbitrary: h)
  case Nil
  then show ?case by auto
next
  case (Cons s ss)
  show ?case
  proof (cases "le s")
    case None
    let ?h = "snd (record_quarantine None now s None quarantine_reason h)"
    from Cons.prems None have "quarantine_all le now ss ?h = (res, h')"
      by (simp add: record_quarantine_def)
    from Cons.IH [OF this] show ?thesis by (force simp: record_quarantine_def)
  next
    case (Some e)
    with Cons.prems show ?thesis by (auto simp: record_quarantine_def)
  qed
qed

lemma mentioned_subset:
  "mentioned t \<subseteq> known \<longleftrightarrow>
     (\<forall>e \<in> set (t_edges t). edge_a e \<in> known \<and> edge_b e \<in> known) \<and>
     (\<forall>p \<in> set (t_ignored t). pair_a p \<in> known \<and> pair_b p \<in> known) \<and>
     (\<forall>p \<in> set (t_suppressed t). pair_a p \<in> known \<and> pair_b p \<in> known)"
  unfolding mentioned_def UN_subset_iff ball_Un by (simp add: edge_pair_def ign_pair_def)

lemma retain_flag: "snd (retain_agents known t) \<longleftrightarrow> \<not> mentioned t \<subseteq> known"
  unfolding mentioned_subset retain_agents_def Let_def snd_conv filter_length_neq by blast

text \<open>
  Reconciliation with the roster preserves the evidence before it removes: when it
  succeeds, the topology it returns holds exactly the edges, ignores and suppressions
  whose two agents are known, the flag says whether that removed anything, the file is
  rewritten exactly then, and every unknown agent that was mentioned has a quarantine
  record. When it fails, the file is what it was.
\<close>

theorem reconciliation_preserves_evidence:
  assumes "load_reconciled_topology log_error save_error now known h = (res, h')"
  shows "case res of
      Inl e \<Rightarrow> home_topology h' = home_topology h
    | Inr (t, changed) \<Rightarrow>
        edge_pairs t = {p \<in> edge_pairs (load_topology (home_topology h)). fst p \<in> known \<and> snd p \<in> known} \<and>
        ignored t = {p \<in> ignored (load_topology (home_topology h)). fst p \<in> known \<and> snd p \<in> known} \<and>
        suppressed t = {p \<in> suppressed (load_topology (home_topology h)). fst p \<in> known \<and> snd p \<in> known} \<and>
        changed = (\<not> mentioned (load_topology (home_topology h)) \<subseteq> known) \<and>
        mentioned (load_topology (home_topology h)) - known \<subseteq> q_session_id ` set (home_quarantine h') \<and>
        (if changed then \<exists>f. save_topology None t = Inr f \<and> home_topology h' = Some f
         else home_topology h' = home_topology h)"
proof -
  let ?t = "load_topology (home_topology h)"
  obtain q h1 where q: "quarantine_all log_error now (stale_ids known ?t) h = (q, h1)" by fastforce
  note eff = quarantine_all_effect [OF q]
  show ?thesis
  proof (cases q)
    case (Some e)
    with assms q eff show ?thesis by (auto simp: load_reconciled_topology_def Let_def)
  next
    case None
    obtain t changed where r: "retain_agents known ?t = (t, changed)" by fastforce
    then have t: "t = fst (retain_agents known ?t)" and c: "changed = snd (retain_agents known ?t)"
      by simp_all
    from eff None have ids: "mentioned ?t - known \<subseteq> q_session_id ` set (home_quarantine h1)"
      by (simp add: stale_ids_set)
    show ?thesis
    proof (cases "changed \<and> save_error \<noteq> None")
      case True
      with assms q None r eff show ?thesis
        by (auto simp: load_reconciled_topology_def Let_def save_topology_def)
    next
      case False
      with assms q None r have "res = Inr (t, changed)"
        "home_quarantine h' = home_quarantine h1"
        "if changed then \<exists>f. save_topology None t = Inr f \<and> home_topology h' = Some f
         else home_topology h' = home_topology h1"
        by (auto simp: load_reconciled_topology_def Let_def save_topology_def split: if_splits)
      with ids eff t [symmetric] c show ?thesis
        using retain_sets [of known ?t] retain_flag [of known ?t] by simp
    qed
  qed
qed

theorem reconciliation_preserves_evidence_witness:
  "\<exists>res h'. load_reconciled_topology (\<lambda>_. None) None ''now'' {''a''}
       \<lparr>home_topology = Some ab_topology, home_quarantine = []\<rparr> = (res, h') \<and>
     (case res of
        Inl e \<Rightarrow> home_topology h' = Some ab_topology
      | Inr (t, changed) \<Rightarrow>
          mentioned (load_topology (Some ab_topology)) - {''a''} \<subseteq> q_session_id ` set (home_quarantine h'))"
proof -
  obtain res h' where r: "load_reconciled_topology (\<lambda>_. None) None ''now'' {''a''}
       \<lparr>home_topology = Some ab_topology, home_quarantine = []\<rparr> = (res, h')" by fastforce
  from reconciliation_preserves_evidence [OF r] r show ?thesis
    by (intro exI [of _ res] exI [of _ h']) (simp split: sum.splits prod.splits)
qed

end
