(* ===== verification/Topology_Control.thy ===== *)
theory Topology_Control
  imports Topology_Laws
begin

text \<open>
  The writers of the topology: the desktop command \<open>mutate_ui\<close> and the control-plane entry
  \<open>dispatch_topology_mutation\<close> (\<open>src-tauri/src/commands/topology.rs\<close>), which authorize,
  apply, persist and audit one operation, the seed pass after a save of the watchlists
  (\<open>src-tauri/src/commands/watchlist.rs\<close>) and the one of the command-line client
  (\<open>crates/wardian-cli/src/watchlist.rs\<close>). What the file system and the clock answer
  during one call is the environment of the call.
\<close>

record topology_audit_record =
  au_at :: string
  au_caller :: string
  au_operation :: string
  au_a :: string
  au_b :: string
  au_outcome :: string
  au_error_code :: "string option"

text \<open>
  The stored state: the topology file, the records appended to the audit log, and the
  number of \<open>topology-changed\<close> events sent to the windows.
\<close>

record topology_store =
  st_file :: "topology option"
  st_audit :: "topology_audit_record list"
  st_emitted :: nat

text \<open>
  The answers of one call: the errors of resolving the home directory, of the process
  lock, of the write and of the audit append; the document of the team file; the roster;
  the times read for a denial and for an operation.
\<close>

record topology_call =
  call_home :: "string option"
  call_lock :: "string option"
  call_save :: "string option"
  call_audit :: "string option"
  call_teams :: "json option"
  call_known :: "string set"
  call_denied_at :: string
  call_at :: string

definition audit_topology_mutation ::
    "topology_call \<Rightarrow> topology_audit_record \<Rightarrow> topology_store \<Rightarrow> topology_store" where
  "audit_topology_mutation c r st =
     (case call_audit c of
        None \<Rightarrow> st\<lparr>st_audit := st_audit st @ [r]\<rparr>
      | Some _ \<Rightarrow> st)"

datatype topology_control_error = CtlUnknownCaller | CtlSelfServeRequired | CtlIo string

text \<open>\<open>save_topology\<close> and \<open>app.emit\<close> when the operation changed something.\<close>

definition persist_outcome ::
    "topology_call \<Rightarrow> topology \<Rightarrow> topology_mutation_outcome \<Rightarrow> topology_store
       \<Rightarrow> string + topology_store" where
  "persist_outcome c t out st =
     (if out_changed out
      then (case save_topology (call_save c) t of
              Inl e \<Rightarrow> Inl e
            | Inr f \<Rightarrow> Inr (st\<lparr>st_file := Some f, st_emitted := st_emitted st + 1\<rparr>))
      else Inr st)"

definition outcome_record ::
    "string \<Rightarrow> topology_operation \<Rightarrow> string \<Rightarrow> topology_mutation_outcome \<Rightarrow> topology_audit_record" where
  "outcome_record caller op at out =
     \<lparr>au_at = at, au_caller = caller, au_operation = action op, au_a = out_a out, au_b = out_b out,
      au_outcome = (if out_changed out then ''applied'' else ''unchanged''), au_error_code = None\<rparr>"

definition mutate_ui ::
    "topology_call \<Rightarrow> topology_operation \<Rightarrow> string \<Rightarrow> string \<Rightarrow> topology_store
       \<Rightarrow> (string + bool) \<times> topology_store" where
  "mutate_ui c op a b st =
     (case call_home c of Some e \<Rightarrow> (Inl e, st) | None \<Rightarrow>
      case call_lock c of Some e \<Rightarrow> (Inl e, st) | None \<Rightarrow>
      case apply_topology_operation op a b (call_at c) (load_team_memberships (call_teams c))
             (load_topology (st_file st)) of
        (t, None) \<Rightarrow> (Inl ''invalid topology pair'', st)
      | (t, Some out) \<Rightarrow>
          (case persist_outcome c t out st of
             Inl e \<Rightarrow> (Inl e, st)
           | Inr st' \<Rightarrow>
               (Inr (out_changed out),
                audit_topology_mutation c (outcome_record ''operator'' op (call_at c) out) st')))"

record topology_mutation_response =
  resp_action :: string
  resp_a :: string
  resp_b :: string
  resp_changed :: bool

definition caller_label :: "string option \<Rightarrow> string" where
  "caller_label caller = (case caller of None \<Rightarrow> ''operator'' | Some i \<Rightarrow> ''agent:'' @ i)"

fun auth_error_code :: "topology_auth_denied \<Rightarrow> string" where
  "auth_error_code UnknownCaller = ''not_found''"
| "auth_error_code SelfServeRequired = ''self_serve_required''"

fun auth_control_error :: "topology_auth_denied \<Rightarrow> topology_control_error" where
  "auth_control_error UnknownCaller = CtlUnknownCaller"
| "auth_control_error SelfServeRequired = CtlSelfServeRequired"

definition denied_record ::
    "string option \<Rightarrow> topology_operation \<Rightarrow> string \<Rightarrow> string \<Rightarrow> string \<Rightarrow> topology_auth_denied
       \<Rightarrow> topology_audit_record" where
  "denied_record caller op a b at d =
     \<lparr>au_at = at, au_caller = caller_label caller, au_operation = action op, au_a = a, au_b = b,
      au_outcome = ''denied'', au_error_code = Some (auth_error_code d)\<rparr>"

definition dispatch_topology_mutation ::
    "topology_call \<Rightarrow> topology_operation \<Rightarrow> string \<Rightarrow> string \<Rightarrow> string option \<Rightarrow> topology_store
       \<Rightarrow> (topology_control_error + topology_mutation_response) \<times> topology_store" where
  "dispatch_topology_mutation c op a b caller st =
     (case call_home c of Some e \<Rightarrow> (Inl (CtlIo e), st) | None \<Rightarrow>
      case call_lock c of Some e \<Rightarrow> (Inl (CtlIo e), st) | None \<Rightarrow>
      case authorize_topology_mutation_v1 (call_known c) caller a b of
        Inl d \<Rightarrow>
          (Inl (auth_control_error d),
           audit_topology_mutation c (denied_record caller op a b (call_denied_at c) d) st)
      | Inr _ \<Rightarrow>
          (case apply_topology_operation op a b (call_at c) (load_team_memberships (call_teams c))
                  (load_topology (st_file st)) of
             (t, None) \<Rightarrow> (Inl (CtlIo ''invalid topology pair''), st)
           | (t, Some out) \<Rightarrow>
               (case persist_outcome c t out st of
                  Inl e \<Rightarrow> (Inl (CtlIo e), st)
                | Inr st' \<Rightarrow>
                    (Inr \<lparr>resp_action = action op, resp_a = out_a out, resp_b = out_b out,
                          resp_changed = out_changed out\<rparr>,
                     audit_topology_mutation c
                       (outcome_record (caller_label caller) op (call_at c) out) st'))))"

section \<open>Seeding after a save of the watchlists\<close>

definition team_agent_ids_of :: "json \<Rightarrow> string list" where
  "team_agent_ids_of team =
     (case Option.bind (case jget ''agentIds'' team of
                          Some v \<Rightarrow> Some v
                        | None \<Rightarrow> jget ''agent_ids'' team) as_array of
        None \<Rightarrow> []
      | Some ids \<Rightarrow> List.map_filter as_str ids)"

definition team_memberships :: "json \<Rightarrow> team_membership list" where
  "team_memberships state =
     (case Option.bind (jget ''teams'' state) as_array of
        None \<Rightarrow> []
      | Some teams \<Rightarrow>
          List.map_filter
            (\<lambda>team. Option.bind (Option.bind (jget ''id'' team) as_str) (\<lambda>i.
               let ids = team_agent_ids_of team in
               if i \<noteq> [] \<and> ids \<noteq> [] then Some \<lparr>team_id = i, team_agent_ids = ids\<rparr> else None))
            teams)"

text \<open>
  The pass loads the topology, records the suppressions a version 2 file still owes, adds
  the missing edges of the teams and writes the file when something changed.
\<close>

definition seed_team_topology_with_migration ::
    "topology_call \<Rightarrow> json \<Rightarrow> json \<Rightarrow> topology_store \<Rightarrow> (string + bool) \<times> topology_store" where
  "seed_team_topology_with_migration c state migration_state st =
     (case call_lock c of Some e \<Rightarrow> (Inl e, st) | None \<Rightarrow>
      let t0 = load_topology (st_file st);
          changed = needs_seed_suppression_migration t0;
          t1 = (if changed
                then (fst (suppress_missing_team_seed_pairs (team_memberships migration_state) t0))
                       \<lparr>t_version := topology_schema_version\<rparr>
                else t0)
      in case Option.bind (jget ''teams'' state) as_array of
           None \<Rightarrow> (Inr changed, st)
         | Some teams \<Rightarrow>
             (case fold (\<lambda>team (t, n).
                      let ids = team_agent_ids_of team in
                      if ids \<noteq> [] then (case seed_team_clique ids (call_at c) t of
                                            (t', k) \<Rightarrow> (t', n + k))
                      else (t, n)) teams (t1, 0) of
                (t2, added) \<Rightarrow>
                  if added = 0 \<and> \<not> changed then (Inr False, st)
                  else (case save_topology (call_save c) t2 of
                          Inl e \<Rightarrow> (Inl e, st)
                        | Inr f \<Rightarrow> (Inr True, st\<lparr>st_file := Some f\<rparr>))))"

text \<open>The pass of the command-line client, on the teams before and after its change.\<close>

definition seed_topology ::
    "topology_call \<Rightarrow> team_membership list \<Rightarrow> team_membership list \<Rightarrow> topology_store
       \<Rightarrow> (string + unit) \<times> topology_store" where
  "seed_topology c previous_teams teams st =
     (case call_lock c of Some e \<Rightarrow> (Inl e, st) | None \<Rightarrow>
      let t0 = load_topology (st_file st);
          t1 = (if needs_seed_suppression_migration t0
                then (fst (suppress_missing_team_seed_pairs previous_teams t0))
                       \<lparr>t_version := topology_schema_version\<rparr>
                else t0);
          t2 = fold (\<lambda>team t. fst (seed_team_clique (team_agent_ids team) (call_at c) t)) teams t1
      in if length (t_edges t2) \<noteq> length (t_edges t0)
            \<or> length (t_suppressed t2) \<noteq> length (t_suppressed t0)
            \<or> t_version t2 \<noteq> t_version t0
         then (case save_topology (call_save c) t2 of
                 Inl e \<Rightarrow> (Inl e, st)
               | Inr f \<Rightarrow> (Inr (), st\<lparr>st_file := Some f\<rparr>))
         else (Inr (), st))"

section \<open>Lemmas\<close>

lemma audit_file [simp]: "st_file (audit_topology_mutation c r st) = st_file st"
  "st_emitted (audit_topology_mutation c r st) = st_emitted st"
  by (simp_all add: audit_topology_mutation_def split: option.splits)

lemma audit_log: "call_audit c = None \<Longrightarrow> st_audit (audit_topology_mutation c r st) = st_audit st @ [r]"
  by (simp add: audit_topology_mutation_def)

lemma persist_cases:
  "persist_outcome c t out st = Inr st' \<Longrightarrow>
     (if out_changed out then \<exists>f. save_topology None t = Inr f \<and> st_file st' = Some f
      else st_file st' = st_file st) \<and>
     st_emitted st' = st_emitted st + (if out_changed out then 1 else 0) \<and>
     st_audit st' = st_audit st"
  by (cases "call_save c")
    (auto simp: persist_outcome_def save_topology_def Let_def split: if_splits sum.splits)

lemma apply_operation_outcome:
  "apply_topology_operation op x y at teams t = (t', Some out) \<Longrightarrow>
     canonical_pair x y = Some (out_a out, out_b out) \<and>
     t' = fst (apply_topology_operation op x y at teams t)"
  by (auto simp: apply_topology_operation_def split: option.splits prod.splits)

text \<open>The pairs other than the named one that an operation touches: none.\<close>

definition pair_state :: "pair \<Rightarrow> topology \<Rightarrow> bool \<times> bool \<times> bool" where
  "pair_state p t = (p \<in> edge_pairs t, p \<in> ignored t, p \<in> suppressed t)"

lemma apply_operation_other_pairs:
  assumes "canonical_pair x y = Some q" and "p \<noteq> q"
  shows "pair_state p (fst (apply_topology_operation op x y at teams t)) = pair_state p t"
proof -
  obtain a b where q: "q = (a, b)" by (cases q)
  then have c: "canonical_pair x y = Some (a, b)" using assms(1) by simp
  then have "canonical (a, b)" by (rule canonical_pair_SomeD)
  with apply_operation_fst [OF c, of op at teams t] assms(2) q show ?thesis
    by (auto simp: pair_state_def unlink_fst pair_sets split: topology_operation.splits)
qed

lemma pair_state_saved:
  "topology_wf t \<Longrightarrow> save_topology None t = Inr f \<Longrightarrow> pair_state p f = pair_state p t"
  using saved_sets by (simp add: pair_state_def)

lemma seed_all_edges:
  "edge_pairs (fold (\<lambda>team t. fst (seed_team_clique (team_agent_ids team) at t)) teams t) =
     edge_pairs t \<union> ((\<Union>team \<in> set teams. pairs_within (team_agent_ids team)) - suppressed t)"
  by (induction teams arbitrary: t) (auto simp: seed_clique_edges seed_clique_rest)

lemma seed_all_wf:
  "topology_wf t \<Longrightarrow>
     topology_wf (fold (\<lambda>team t. fst (seed_team_clique (team_agent_ids team) at t)) teams t)"
  by (induction teams arbitrary: t) (auto simp: seed_clique_rest)

text \<open>The ways a dispatch ends, once the home and the lock are there.\<close>

lemma dispatch_cases:
  assumes "dispatch_topology_mutation c op a b caller st = (r, st')"
  shows "(\<exists>e. r = Inl (CtlIo e) \<and> st' = st) \<or>
    (\<exists>d. authorize_topology_mutation_v1 (call_known c) caller a b = Inl d \<and>
         r = Inl (auth_control_error d) \<and>
         st' = audit_topology_mutation c (denied_record caller op a b (call_denied_at c) d) st) \<or>
    (\<exists>t out st1. authorize_topology_mutation_v1 (call_known c) caller a b = Inr () \<and>
         apply_topology_operation op a b (call_at c) (load_team_memberships (call_teams c))
           (load_topology (st_file st)) = (t, Some out) \<and>
         persist_outcome c t out st = Inr st1 \<and>
         r = Inr \<lparr>resp_action = action op, resp_a = out_a out, resp_b = out_b out,
                  resp_changed = out_changed out\<rparr> \<and>
         st' = audit_topology_mutation c (outcome_record (caller_label caller) op (call_at c) out) st1)"
  using assms unfolding dispatch_topology_mutation_def
  by (auto split: option.splits sum.splits prod.splits)

lemma authorize_agent:
  "authorize_topology_mutation_v1 known (Some s) a b = Inr () \<longleftrightarrow> s \<in> known \<and> (a = s \<or> b = s)"
  by (auto simp: authorize_topology_mutation_v1_def)

section \<open>Properties\<close>

text \<open>
  C26. The control plane lets an agent change only its own pairs: when a dispatch for the
  session of an agent changes the topology file, the session is in the roster and is one
  of the two endpoints, the request succeeded, and every pair that does not involve that
  agent has the edge, the ignore mark and the suppression it had.
\<close>

theorem dispatch_respects_authority:
  assumes "dispatch_topology_mutation c op a b (Some s) st = (r, st')"
    and "st_file st' \<noteq> st_file st"
  shows "s \<in> call_known c \<and> (a = s \<or> b = s) \<and> (\<exists>resp. r = Inr resp \<and> resp_changed resp) \<and>
    (\<forall>p. fst p \<noteq> trim s \<and> snd p \<noteq> trim s \<longrightarrow>
       pair_state p (load_topology (st_file st')) = pair_state p (load_topology (st_file st)))"
proof -
  from dispatch_cases [OF assms(1)] assms(2) obtain t out st1 where
    auth: "authorize_topology_mutation_v1 (call_known c) (Some s) a b = Inr ()"
    and ap: "apply_topology_operation op a b (call_at c) (load_team_memberships (call_teams c))
           (load_topology (st_file st)) = (t, Some out)"
    and per: "persist_outcome c t out st = Inr st1"
    and r: "r = Inr \<lparr>resp_action = action op, resp_a = out_a out, resp_b = out_b out,
                  resp_changed = out_changed out\<rparr>"
    and st': "st_file st' = st_file st1"
    by auto
  from persist_cases [OF per] assms(2) st' obtain f where
    ch: "out_changed out" and f: "save_topology None t = Inr f" "st_file st' = Some f"
    by (auto split: if_splits)
  have t: "t = fst (apply_topology_operation op a b (call_at c)
      (load_team_memberships (call_teams c)) (load_topology (st_file st)))" by (simp add: ap)
  have wf: "topology_wf t" unfolding t by (intro wf_apply_operation load_topology_wf)
  from apply_operation_outcome [OF ap] have cp: "canonical_pair a b = Some (out_a out, out_b out)" ..
  have who: "s \<in> call_known c \<and> (a = s \<or> b = s)" using auth by (simp add: authorize_agent)
  have "pair_state p (load_topology (st_file st')) = pair_state p (load_topology (st_file st))"
    if p: "fst p \<noteq> trim s" "snd p \<noteq> trim s" for p
  proof -
    have "p \<noteq> (out_a out, out_b out)" using cp who p by (auto simp: canonical_pair_Some)
    from apply_operation_other_pairs [OF cp this] t
    have "pair_state p t = pair_state p (load_topology (st_file st))" by simp
    with pair_state_saved [OF wf f(1)] load_saved [OF f(1)] f(2) show ?thesis by simp
  qed
  with who r ch show ?thesis by simp
qed

definition ab_call :: topology_call where
  "ab_call = \<lparr>call_home = None, call_lock = None, call_save = None, call_audit = None,
     call_teams = None, call_known = {''a'', ''b''}, call_denied_at = ''t0'', call_at = ''t1''\<rparr>"

definition empty_store :: topology_store where
  "empty_store = \<lparr>st_file = None, st_audit = [], st_emitted = 0\<rparr>"

definition ab_linked :: topology_store where
  "ab_linked = \<lparr>st_file = Some \<lparr>t_version = 3,
       t_edges = [\<lparr>edge_a = ''a'', edge_b = ''b'', edge_created_at = ''t1''\<rparr>],
       t_ignored = [], t_suppressed = []\<rparr>,
     st_audit = [\<lparr>au_at = ''t1'', au_caller = ''agent:a'', au_operation = ''link'',
       au_a = ''a'', au_b = ''b'', au_outcome = ''applied'', au_error_code = None\<rparr>],
     st_emitted = 1\<rparr>"

lemma ab_link:
  "dispatch_topology_mutation ab_call Link ''b'' ''a'' (Some ''a'') empty_store =
     (Inr \<lparr>resp_action = ''link'', resp_a = ''a'', resp_b = ''b'', resp_changed = True\<rparr>, ab_linked)"
  using ab_canonical canonical_pair_comm [of "''a''" "''b''"]
  by (simp add: dispatch_topology_mutation_def ab_call_def empty_store_def ab_linked_def
      authorize_topology_mutation_v1_def apply_topology_operation_def add_edge_def
      load_topology_def topology_default_def topology_schema_version_def persist_outcome_def
      save_topology_def canonicalize_def audit_topology_mutation_def outcome_record_def
      caller_label_def Let_def)

theorem dispatch_respects_authority_witness:
  "''a'' \<in> call_known ab_call \<and>
   pair_state (''c'', ''d'') (load_topology (st_file ab_linked)) =
     pair_state (''c'', ''d'') (load_topology (st_file empty_store))"
proof -
  have "st_file ab_linked \<noteq> st_file empty_store" by (simp add: ab_linked_def empty_store_def)
  from dispatch_respects_authority [OF ab_link this] trim_examples show ?thesis by force
qed

text \<open>
  A dispatch about two different agents whose file-system calls succeed appends
  exactly one audit record, which names the caller and the operation and says denied,
  applied or unchanged as the response does; the file is left as it was unless something
  changed, and the windows are notified exactly then.
\<close>

theorem dispatch_is_audited:
  assumes "dispatch_topology_mutation c op a b caller st = (r, st')"
    and "call_home c = None" and "call_lock c = None" and "call_save c = None"
    and "call_audit c = None" and "canonical_pair a b \<noteq> None"
  shows "\<exists>rec. st_audit st' = st_audit st @ [rec] \<and> au_caller rec = caller_label caller \<and>
    au_operation rec = action op \<and>
    (case r of
       Inl e \<Rightarrow> e \<in> {CtlUnknownCaller, CtlSelfServeRequired} \<and> au_outcome rec = ''denied'' \<and>
         st_file st' = st_file st \<and> st_emitted st' = st_emitted st
     | Inr resp \<Rightarrow>
         canonical_pair a b = Some (resp_a resp, resp_b resp) \<and>
         au_a rec = resp_a resp \<and> au_b rec = resp_b resp \<and>
         (if resp_changed resp
          then au_outcome rec = ''applied'' \<and> st_emitted st' = st_emitted st + 1
          else au_outcome rec = ''unchanged'' \<and> st_emitted st' = st_emitted st \<and>
               st_file st' = st_file st))"
proof -
  obtain q where q: "canonical_pair a b = Some q" using assms(6) by auto
  have no_io: "\<not> (\<exists>e. r = Inl (CtlIo e))"
  proof
    assume "\<exists>e. r = Inl (CtlIo e)"
    with assms(1-5) q show False
      unfolding dispatch_topology_mutation_def
      by (auto simp: persist_outcome_def save_topology_def Let_def apply_topology_operation_def
          split: sum.splits prod.splits if_splits) (metis auth_control_error.elims
            topology_control_error.distinct(3,5))+
  qed
  from dispatch_cases [OF assms(1)] no_io consider
    (denied) d where "r = Inl (auth_control_error d)"
      "st' = audit_topology_mutation c (denied_record caller op a b (call_denied_at c) d) st"
  | (applied) t out st1 where
      "apply_topology_operation op a b (call_at c) (load_team_memberships (call_teams c))
           (load_topology (st_file st)) = (t, Some out)"
      "persist_outcome c t out st = Inr st1"
      "r = Inr \<lparr>resp_action = action op, resp_a = out_a out, resp_b = out_b out,
                  resp_changed = out_changed out\<rparr>"
      "st' = audit_topology_mutation c (outcome_record (caller_label caller) op (call_at c) out) st1"
    by blast
  then show ?thesis
  proof cases
    case denied
    then show ?thesis
      by (cases d) (simp_all add: audit_log [OF assms(5)] denied_record_def)
  next
    case applied
    from persist_cases [OF applied(2)] apply_operation_outcome [OF applied(1)] applied(3,4)
    show ?thesis
      by (auto simp: audit_log [OF assms(5)] outcome_record_def split: if_splits)
  qed
qed

theorem dispatch_is_audited_witness:
  "\<exists>rec. st_audit ab_linked = st_audit empty_store @ [rec] \<and> au_operation rec = action Link"
proof -
  have "call_home ab_call = None" "call_lock ab_call = None" "call_save ab_call = None"
    "call_audit ab_call = None" "canonical_pair ''b'' ''a'' \<noteq> None"
    by (simp_all add: ab_call_def ab_canonical)
  from dispatch_is_audited [OF ab_link this] show ?thesis by blast
qed

text \<open>
  Not every attempt is audited: a request about a pair that is not one (a self pair,
  an empty endpoint) fails and leaves the audit log as it was.
\<close>

theorem invalid_pair_is_not_audited:
  assumes "canonical_pair a b = None" and "call_home c = None" and "call_lock c = None"
    and "authorize_topology_mutation_v1 (call_known c) caller a b = Inr ()"
  shows "dispatch_topology_mutation c op a b caller st = (Inl (CtlIo ''invalid topology pair''), st)"
  using assms by (simp add: dispatch_topology_mutation_def apply_operation_invalid)

theorem invalid_pair_is_not_audited_witness:
  "dispatch_topology_mutation ab_call Link ''a'' ''a'' (Some ''a'') empty_store =
     (Inl (CtlIo ''invalid topology pair''), empty_store)"
  by (rule invalid_pair_is_not_audited)
    (simp_all add: ab_call_def authorize_topology_mutation_v1_def)

text \<open>
  The migration of a version 2 file keeps the deletions of its user: a pair of a
  previous team that has no edge in the file has none after the seed pass of the
  command-line client, whatever the new teams are.
\<close>

theorem seed_topology_keeps_deletions:
  assumes "st_file st = Some f" and "t_version f = 2"
    and "team \<in> set previous_teams" and "x \<in> set (team_agent_ids team)"
    and "y \<in> set (team_agent_ids team)" and "canonical_pair x y = Some p"
    and "p \<notin> edge_pairs (load_topology (Some f))"
    and "seed_topology c previous_teams teams st = (Inr (), st')"
  shows "p \<notin> edge_pairs (load_topology (st_file st'))"
proof -
  let ?t0 = "load_topology (Some f)"
  let ?m = "fst (suppress_missing_team_seed_pairs previous_teams ?t0)"
  let ?t1 = "?m\<lparr>t_version := topology_schema_version\<rparr>"
  let ?t2 = "fold (\<lambda>team t. fst (seed_team_clique (team_agent_ids team) (call_at c) t)) teams ?t1"
  have v: "needs_seed_suppression_migration ?t0"
    using assms(2) by (simp add: load_topology_def canonicalize_def needs_seed_suppression_migration_def
        team_seed_migration_version_def topology_schema_version_def)
  have wf1: "topology_wf ?t1"
    by (simp add: stamped_wf suppress_missing_teams(4) load_topology_wf)
  have p1: "p \<in> suppressed ?t1" "p \<notin> edge_pairs ?t1"
    using assms(3-7) by (auto simp: suppress_missing_teams pairs_within_def)
  then have p2: "p \<notin> edge_pairs ?t2"
    unfolding seed_all_edges by blast
  have wf2: "topology_wf ?t2" using wf1 by (rule seed_all_wf)
  have "st' = st \<or> (\<exists>g. save_topology None ?t2 = Inr g \<and> st_file st' = Some g)"
    using assms(1,8) v
    by (cases "call_save c")
      (auto simp: seed_topology_def Let_def save_topology_def split: option.splits if_splits)
  then show ?thesis
  proof
    assume "st' = st"
    with assms(1,7) show ?thesis by simp
  next
    assume "\<exists>g. save_topology None ?t2 = Inr g \<and> st_file st' = Some g"
    then obtain g where g: "save_topology None ?t2 = Inr g" "st_file st' = Some g" by blast
    from saved_sets(1) [OF wf2 g(1)] load_saved [OF g(1)] g(2) p2 show ?thesis by simp
  qed
qed

definition v2_store :: topology_store where
  "v2_store = \<lparr>st_file = Some \<lparr>t_version = 2, t_edges = [], t_ignored = [], t_suppressed = []\<rparr>,
     st_audit = [], st_emitted = 0\<rparr>"

theorem seed_topology_keeps_deletions_witness:
  "(''a'', ''b'') \<notin> edge_pairs (load_topology (st_file (snd (seed_topology ab_call ab_teams ab_teams v2_store))))"
proof (rule seed_topology_keeps_deletions [where st = v2_store and c = ab_call and teams = ab_teams
      and previous_teams = ab_teams and x = "''b''" and y = "''a''"
      and f = "\<lparr>t_version = 2, t_edges = [], t_ignored = [], t_suppressed = []\<rparr>"
      and team = "\<lparr>team_id = ''t'', team_agent_ids = [''b'', ''a'']\<rparr>"])
  show "canonical_pair ''b'' ''a'' = Some (''a'', ''b'')" by (rule ab_canonical)
  have "fst (seed_topology ab_call ab_teams ab_teams v2_store) = Inr ()"
    by (auto simp: seed_topology_def Let_def ab_call_def v2_store_def save_topology_def)
  then show "seed_topology ab_call ab_teams ab_teams v2_store =
      (Inr (), snd (seed_topology ab_call ab_teams ab_teams v2_store))"
    by (simp add: prod_eq_iff)
qed (simp_all add: v2_store_def ab_teams_def load_topology_def canonicalize_def)

text \<open>
  When the saved watchlists hold no list of teams, the pass of the desktop client
  over a version 2 file reports a change and writes nothing: the file still has version 2
  and the suppressions it computed are lost.
\<close>

theorem migration_reported_but_not_written:
  assumes "call_lock c = None" and "st_file st = Some f" and "t_version f = 2"
    and "jget ''teams'' state = None"
  shows "seed_team_topology_with_migration c state migration_state st = (Inr True, st)"
  using assms
  by (simp add: seed_team_topology_with_migration_def Let_def load_topology_def canonicalize_def
      needs_seed_suppression_migration_def team_seed_migration_version_def topology_schema_version_def)

theorem migration_reported_but_not_written_witness:
  "seed_team_topology_with_migration ab_call (JArray []) (JArray []) v2_store = (Inr True, v2_store)"
  by (rule migration_reported_but_not_written
        [where f = "\<lparr>t_version = 2, t_edges = [], t_ignored = [], t_suppressed = []\<rparr>"])
    (simp_all add: ab_call_def v2_store_def jget_def)

end
