(* ===== verification/Stable_Sort.thy ===== *)
theory Stable_Sort
  imports Main
begin

text \<open>
  Rust's \<open>Vec::sort_by\<close> and SQL's \<open>ORDER BY\<close> over a scan, as a stable insertion sort over any
  total preorder, and the law of a bounded window of the sorted list.
\<close>

text \<open>\<open>Vec::sort_by\<close> is stable: insertion from the back, before the first that is not less.\<close>

fun insert_by :: "('a \<Rightarrow> 'a \<Rightarrow> bool) \<Rightarrow> 'a \<Rightarrow> 'a list \<Rightarrow> 'a list" where
  "insert_by le x [] = [x]"
| "insert_by le x (y # ys) = (if le x y then x # y # ys else y # insert_by le x ys)"

definition sort_by :: "('a \<Rightarrow> 'a \<Rightarrow> bool) \<Rightarrow> 'a list \<Rightarrow> 'a list" where
  "sort_by le xs = foldr (insert_by le) xs []"

fun put_last :: "('a \<Rightarrow> 'a \<Rightarrow> bool) \<Rightarrow> 'a \<Rightarrow> 'a list \<Rightarrow> 'a list" where
  "put_last le x [] = [x]"
| "put_last le x (y # ys) = (if le y x then y # put_last le x ys else x # y # ys)"

lemma length_put_last [simp]: "length (put_last le x ys) = Suc (length ys)"
  by (induction ys) auto

lemma take_put_last: "take k (put_last le x (take k ys)) = take k (put_last le x ys)"
  by (induction ys arbitrary: k) (auto simp: take_Cons split: nat.splits)

lemma set_insert_by [simp]: "set (insert_by le x ys) = insert x (set ys)"
  by (induction ys) auto

locale stable_order =
  fixes le :: "'a \<Rightarrow> 'a \<Rightarrow> bool"
  assumes total: "le x y \<or> le y x"
    and trans: "le x y \<Longrightarrow> le y z \<Longrightarrow> le x z"
begin

lemma insert_put_last: "insert_by le a (put_last le x ys) = put_last le x (insert_by le a ys)"
proof (induction ys)
  case Nil
  then show ?case by simp
next
  case (Cons y ys)
  then show ?case using total [of x y] trans [of a x y] trans [of a y x] by auto
qed

lemma sort_snoc: "sort_by le (xs @ [x]) = put_last le x (sort_by le xs)"
  by (induction xs) (simp_all add: sort_by_def insert_put_last)

lemma sorted_insert: "sorted_wrt le ys \<Longrightarrow> sorted_wrt le (insert_by le a ys)"
proof (induction ys)
  case Nil
  then show ?case by simp
next
  case (Cons y ys)
  then show ?case using total [of a y] trans [of a y] by auto
qed

lemma sorted_sort: "sorted_wrt le (sort_by le xs)"
  by (induction xs) (simp_all add: sort_by_def sorted_insert)

lemma sort_sorted: "sorted_wrt le ys \<Longrightarrow> sort_by le ys = ys"
proof (induction ys)
  case Nil
  then show ?case by (simp add: sort_by_def)
next
  case (Cons y ys)
  then show ?case by (cases ys) (simp_all add: sort_by_def)
qed

text \<open>Adding an element to the window and sorting it again keeps the window exact.\<close>

lemma window_step:
  "take k (sort_by le (take k (sort_by le xs) @ [x])) = take k (sort_by le (xs @ [x]))"
proof -
  have "sorted_wrt le (take k (sort_by le xs))"
    using sorted_sort [of xs] by (simp add: sorted_wrt_take)
  then show ?thesis by (simp add: sort_snoc sort_sorted take_put_last)
qed

end

lemma length_insert_by [simp]: "length (insert_by le x ys) = Suc (length ys)"
  by (induction ys) auto

lemma length_sort_by [simp]: "length (sort_by le xs) = length xs"
  by (induction xs) (simp_all add: sort_by_def)

end
