(* ===== verification/Queue.thy ===== *)
theory Queue
  imports Json Stable_Sort "HOL-Library.Option_ord"
begin

text \<open>
  The page of the inbox queue (\<open>crates/wardian-core/src/queue.rs\<close>): the persisted array is
  streamed once, and only a bounded sorted window of it is kept in memory. The file is
  the list of its items, \<open>None\<close> when it is missing, unreadable or not an array. The
  unsigned sizes of the code are natural numbers, with the saturation written out.
\<close>

section \<open>Items\<close>

definition usize_max :: nat where
  "usize_max = 2 ^ 64 - 1"

definition saturating_add :: "nat \<Rightarrow> nat \<Rightarrow> nat" where
  "saturating_add a b = min (a + b) usize_max"

record queue_projection =
  qp_items :: "json list"
  qp_read_ids :: "string set"
  qp_automation_runs :: "(string \<times> string) set"
  qp_truncated :: bool

definition empty_projection :: queue_projection where
  "empty_projection =
     \<lparr>qp_items = [], qp_read_ids = {}, qp_automation_runs = {}, qp_truncated = False\<rparr>"

definition str_member :: "string \<Rightarrow> json \<Rightarrow> string option" where
  "str_member k item = Option.bind (jget k item) as_str"

definition read_acknowledgement_id :: "json \<Rightarrow> string option" where
  "read_acknowledgement_id item =
     (if str_member ''type'' item = Some ''agent_update''
         \<and> Option.bind (jget ''read'' item) as_bool = Some True
      then str_member ''inbox_notification_id'' item else None)"

definition either_member :: "string \<Rightarrow> string \<Rightarrow> json \<Rightarrow> string option" where
  "either_member k legacy item =
     Option.bind (case jget k item of Some v \<Rightarrow> Some v | None \<Rightarrow> jget legacy item) as_str"

definition automation_run_identity :: "json \<Rightarrow> (string \<times> string) option" where
  "automation_run_identity item =
     (if str_member ''type'' item = Some ''automation_completed''
         \<or> str_member ''type'' item = Some ''workflow_completed''
      then Option.bind (either_member ''automation_id'' ''workflow_id'' item) (\<lambda>a.
           Option.bind (either_member ''automation_run_id'' ''workflow_run_id'' item) (\<lambda>r.
             Some (a, r)))
      else None)"

definition legacy_keys :: "(string \<times> string) list" where
  "legacy_keys =
     [(''workflow_id'', ''automation_id''), (''workflow_run_id'', ''automation_run_id''),
      (''workflow_name'', ''automation_name''), (''workflow_approval'', ''automation_approval'')]"

definition rename_key :: "string \<times> string \<Rightarrow> (string \<times> json) list \<Rightarrow> (string \<times> json) list" where
  "rename_key ks m =
     (case map_of m (fst ks) of
        None \<Rightarrow> m
      | Some v \<Rightarrow> im_or_insert (snd ks) v (im_remove (fst ks) m))"

definition normalize_type :: "(string \<times> json) list \<Rightarrow> (string \<times> json) list" where
  "normalize_type m =
     (case Option.bind (map_of m ''type'') as_str of
        None \<Rightarrow> m
      | Some ty \<Rightarrow>
          if ty = ''workflow_completed''
          then AList.update ''type'' (JString ''automation_completed'') m
          else if ty = ''workflow_failed''
          then im_or_insert ''status'' (JString ''failed'')
                 (AList.update ''type'' (JString ''automation_completed'') m)
          else m)"

definition normalize_legacy_item :: "json \<Rightarrow> json" where
  "normalize_legacy_item item =
     (case as_object item of
        None \<Rightarrow> item
      | Some m \<Rightarrow> JObject (fold rename_key legacy_keys (normalize_type m)))"

text \<open>\<open>as_i64\<close>: an unsigned number above the signed range has no signed value.\<close>

fun as_i64 :: "json \<Rightarrow> int option" where
  "as_i64 (JNumber (PosInt n)) = (if uint n < 2 ^ 63 then Some (uint n) else None)"
| "as_i64 (JNumber (NegInt i)) = Some i"
| "as_i64 _ = None"

definition item_timestamp :: "json \<Rightarrow> int option" where
  "item_timestamp item =
     (case Option.bind (jget ''timestamp'' item) as_i64 of
        Some t \<Rightarrow> Some t
      | None \<Rightarrow> Option.bind (Option.bind (jget ''timestamp'' item) as_u64)
                  (\<lambda>n. if uint n < 2 ^ 63 then Some (uint n) else None))"

definition is_recent :: "int \<Rightarrow> json \<Rightarrow> bool" where
  "is_recent cutoff item = (case item_timestamp item of None \<Rightarrow> False | Some t \<Rightarrow> t > cutoff)"

definition timestamp_or_0 :: "json \<Rightarrow> int" where
  "timestamp_or_0 item = (case item_timestamp item of None \<Rightarrow> 0 | Some t \<Rightarrow> t)"

text \<open>Newest first, then by identifier downwards; a missing identifier is the smallest.\<close>

definition comes_before :: "json \<Rightarrow> json \<Rightarrow> bool" where
  "comes_before l r \<longleftrightarrow>
     timestamp_or_0 r < timestamp_or_0 l \<or>
     timestamp_or_0 r = timestamp_or_0 l \<and> str_member ''id'' r \<le> str_member ''id'' l"

interpretation items: stable_order comes_before
proof unfold_locales
  fix x y z
  show "comes_before x y \<or> comes_before y x"
    using linear [of "str_member ''id'' x" "str_member ''id'' y"]
    by (auto simp: comes_before_def not_less_iff_gr_or_eq)
  assume "comes_before x y" "comes_before y z"
  then show "comes_before x z"
    using order_trans [of "str_member ''id'' z" "str_member ''id'' y" "str_member ''id'' x"]
    by (auto simp: comes_before_def)
qed

section \<open>The streaming read\<close>

definition dismissed :: "json \<Rightarrow> bool" where
  "dismissed item \<longleftrightarrow> Option.bind (jget ''dismissed'' item) as_bool = Some True"

definition visit_item ::
    "nat \<Rightarrow> int \<Rightarrow> (json \<Rightarrow> bool) \<Rightarrow> json \<Rightarrow> json list \<times> queue_projection
       \<Rightarrow> json list \<times> queue_projection" where
  "visit_item capacity cutoff matches item st =
     (case st of (visible, p) \<Rightarrow>
      case read_acknowledgement_id item of
        Some i \<Rightarrow> (visible, p\<lparr>qp_read_ids := insert i (qp_read_ids p)\<rparr>)
      | None \<Rightarrow>
          let item = normalize_legacy_item item;
              p1 = (case automation_run_identity item of
                      None \<Rightarrow> p
                    | Some run \<Rightarrow>
                        if dismissed item \<or> is_recent cutoff item
                        then p\<lparr>qp_automation_runs := insert run (qp_automation_runs p)\<rparr> else p)
          in if dismissed item \<or> jget ''automation_approval'' item \<noteq> None then (visible, p1)
             else if \<not> is_recent cutoff item then (visible, p1)
             else if \<not> matches item then (visible, p1)
             else let sorted = sort_by comes_before (visible @ [item])
                  in if length sorted > capacity
                     then (butlast sorted, p1\<lparr>qp_truncated := True\<rparr>)
                     else (sorted, p1))"

definition visit_seq ::
    "nat \<Rightarrow> nat \<Rightarrow> int \<Rightarrow> (json \<Rightarrow> bool) \<Rightarrow> json list \<Rightarrow> queue_projection" where
  "visit_seq limit offset cutoff matches queue =
     (let capacity = saturating_add (saturating_add offset limit) 1
      in case fold (visit_item capacity cutoff matches) queue ([], empty_projection) of
           (visible, p) \<Rightarrow>
             p\<lparr>qp_truncated := qp_truncated p \<or> length visible > saturating_add offset limit,
               qp_items := take limit (drop offset visible)\<rparr>)"

definition read_recent_items_matching ::
    "nat \<Rightarrow> nat \<Rightarrow> int \<Rightarrow> (json \<Rightarrow> bool) \<Rightarrow> json list option \<Rightarrow> queue_projection" where
  "read_recent_items_matching limit offset cutoff matches file =
     (case file of
        None \<Rightarrow> empty_projection
      | Some queue \<Rightarrow> visit_seq limit offset cutoff matches queue)"

definition read_recent_items :: "nat \<Rightarrow> nat \<Rightarrow> int \<Rightarrow> json list option \<Rightarrow> queue_projection" where
  "read_recent_items limit offset cutoff file =
     read_recent_items_matching limit offset cutoff (\<lambda>_. True) file"

section \<open>What the window holds\<close>

text \<open>The items a reader could see, and the metadata, in one pass without a bound.\<close>

definition shown :: "int \<Rightarrow> (json \<Rightarrow> bool) \<Rightarrow> json \<Rightarrow> json option" where
  "shown cutoff matches item =
     (let n = normalize_legacy_item item in
      if read_acknowledgement_id item = None \<and> \<not> dismissed n \<and> jget ''automation_approval'' n = None
         \<and> is_recent cutoff n \<and> matches n
      then Some n else None)"

definition all_shown :: "int \<Rightarrow> (json \<Rightarrow> bool) \<Rightarrow> json list \<Rightarrow> json list" where
  "all_shown cutoff matches queue = List.map_filter (shown cutoff matches) queue"

definition run_of :: "int \<Rightarrow> json \<Rightarrow> (string \<times> string) option" where
  "run_of cutoff item =
     (let n = normalize_legacy_item item in
      if read_acknowledgement_id item = None \<and> (dismissed n \<or> is_recent cutoff n)
      then automation_run_identity n else None)"

lemma all_shown_snoc:
  "all_shown cutoff matches (xs @ [x]) = all_shown cutoff matches xs @
     (case shown cutoff matches x of None \<Rightarrow> [] | Some n \<Rightarrow> [n])"
  by (simp add: all_shown_def List.map_filter_def split: option.splits)

lemma visit_shown:
  "visit_item cap cutoff matches item (visible, p) =
     (let p1 = p\<lparr>qp_read_ids := qp_read_ids p \<union> set_option (read_acknowledgement_id item),
                qp_automation_runs := qp_automation_runs p \<union> set_option (run_of cutoff item)\<rparr>
      in case shown cutoff matches item of
           None \<Rightarrow> (visible, p1)
         | Some n \<Rightarrow>
             if length visible \<ge> cap
             then (take (length visible) (sort_by comes_before (visible @ [n])), p1\<lparr>qp_truncated := True\<rparr>)
             else (sort_by comes_before (visible @ [n]), p1))"
  by (auto simp: visit_item_def shown_def run_of_def Let_def butlast_conv_take split: option.splits)

lemma window_invariant:
  assumes "fold (visit_item cap cutoff matches) queue ([], empty_projection) = (visible, p)"
  shows "visible = take cap (sort_by comes_before (all_shown cutoff matches queue)) \<and>
    qp_truncated p = (length (all_shown cutoff matches queue) > cap) \<and>
    qp_read_ids p = (\<Union>item \<in> set queue. set_option (read_acknowledgement_id item)) \<and>
    qp_automation_runs p = (\<Union>item \<in> set queue. set_option (run_of cutoff item)) \<and>
    qp_items p = []"
  using assms
proof (induction queue arbitrary: visible p rule: rev_induct)
  case Nil
  then show ?case by (auto simp: empty_projection_def all_shown_def List.map_filter_def sort_by_def)
next
  case (snoc x xs)
  obtain v q where vq: "fold (visit_item cap cutoff matches) xs ([], empty_projection) = (v, q)"
    by fastforce
  note IH = snoc.IH [OF vq]
  let ?a = "all_shown cutoff matches xs"
  have v: "v = take cap (sort_by comes_before ?a)" using IH by blast
  have step: "visit_item cap cutoff matches x (v, q) = (visible, p)"
    using snoc.prems vq by simp
  show ?case
  proof (cases "shown cutoff matches x")
    case None
    with step IH show ?thesis
      unfolding visit_shown by (auto simp: all_shown_snoc Let_def)
  next
    case (Some n)
    have len: "length v = min cap (length ?a)" by (simp add: v)
    have win: "take cap (sort_by comes_before (v @ [n])) =
        take cap (sort_by comes_before (?a @ [n]))"
      unfolding v by (rule items.window_step)
    show ?thesis
    proof (cases "length v \<ge> cap")
      case True
      with len have "length v = cap" "length ?a \<ge> cap" by auto
      with step Some win IH show ?thesis
        unfolding visit_shown by (auto simp: all_shown_snoc Let_def)
    next
      case False
      with len have "length ?a < cap" by auto
      then have "take cap (sort_by comes_before (v @ [n])) = sort_by comes_before (v @ [n])"
        using False by simp
      with step Some win IH False \<open>length ?a < cap\<close> show ?thesis
        unfolding visit_shown by (auto simp: all_shown_snoc Let_def)
    qed
  qed
qed

lemma capacity_enough:
  "length queue < usize_max \<Longrightarrow> cap = saturating_add (saturating_add offset limit) 1 \<Longrightarrow>
     n \<le> length queue \<Longrightarrow>
     (n > cap \<or> min cap n > saturating_add offset limit) = (n > offset + limit) \<and>
     (n \<le> cap \<or> offset + limit \<le> cap)"
  by (auto simp: saturating_add_def min_def split: if_splits)

lemma length_all_shown: "length (all_shown cutoff matches queue) \<le> length queue"
  by (simp add: all_shown_def List.map_filter_def)

text \<open>
  C35. The streaming read returns the page an unbounded read would: of all items that are
  shown (not acknowledgements, not dismissed, no approvals, recent, matching), sorted
  newest first, the \<open>limit\<close> items after the first \<open>offset\<close>; \<open>truncated\<close> says whether there
  are more items than that; and the metadata of every item of the file is kept, whatever
  the window dropped.
\<close>

theorem streaming_page_exact:
  assumes "length queue < usize_max"
  shows "read_recent_items_matching limit offset cutoff matches (Some queue) =
    \<lparr>qp_items = take limit (drop offset (sort_by comes_before (all_shown cutoff matches queue))),
     qp_read_ids = (\<Union>item \<in> set queue. set_option (read_acknowledgement_id item)),
     qp_automation_runs = (\<Union>item \<in> set queue. set_option (run_of cutoff item)),
     qp_truncated = (length (all_shown cutoff matches queue) > offset + limit)\<rparr>"
proof -
  let ?cap = "saturating_add (saturating_add offset limit) 1"
  let ?s = "sort_by comes_before (all_shown cutoff matches queue)"
  obtain v p where vp: "fold (visit_item ?cap cutoff matches) queue ([], empty_projection) = (v, p)"
    by fastforce
  note inv = window_invariant [OF vp]
  note cap = capacity_enough [OF assms refl length_all_shown [of cutoff matches queue], of offset limit]
  have page: "take limit (drop offset (take ?cap ?s)) = take limit (drop offset ?s)"
    using cap by (auto simp: take_drop min_absorb1 min_absorb2)
  have "length v = min ?cap (length (all_shown cutoff matches queue))" using inv by simp
  then have trunc: "(qp_truncated p \<or> length v > saturating_add offset limit) =
      (length (all_shown cutoff matches queue) > offset + limit)"
    using inv cap by auto
  have run: "read_recent_items_matching limit offset cutoff matches (Some queue) =
      p\<lparr>qp_truncated := qp_truncated p \<or> length v > saturating_add offset limit,
        qp_items := take limit (drop offset v)\<rparr>"
    by (simp only: read_recent_items_matching_def visit_seq_def Let_def vp option.case prod.case)
  have v: "v = take ?cap ?s" using inv by blast
  show ?thesis unfolding run trunc unfolding v page using inv by (cases p) simp
qed

definition two_items :: "json list" where
  "two_items =
     [JObject [(''id'', JString ''x''), (''timestamp'', JNumber (PosInt 5))],
      JObject [(''id'', JString ''y''), (''timestamp'', JNumber (PosInt 9))]]"

theorem streaming_page_exact_witness:
  "qp_items (read_recent_items_matching 1 0 0 (\<lambda>_. True) (Some two_items)) =
     take 1 (drop 0 (sort_by comes_before (all_shown 0 (\<lambda>_. True) two_items)))"
  using streaming_page_exact [of two_items 1 0 0 "\<lambda>_. True"]
  by (simp add: two_items_def usize_max_def)

section \<open>Legacy items\<close>

lemma rename_get:
  assumes "im_wf m" and "old \<noteq> new"
  shows "map_of (rename_key (old, new) m) k =
    (if k = old then None
     else if k = new then (case map_of m new of Some v \<Rightarrow> Some v | None \<Rightarrow> map_of m old)
     else map_of m k)"
  using assms
  by (auto simp: rename_key_def im_get_or_insert im_get_remove im_wf_remove split: option.splits)

lemma rename_wf: "im_wf m \<Longrightarrow> im_wf (rename_key ks m)"
  by (simp add: rename_key_def im_wf_or_insert im_wf_remove split: option.splits)

lemma rename_frame:
  "im_wf m \<Longrightarrow> distinct (map fst ks @ map snd ks) \<Longrightarrow> k \<notin> set (map fst ks @ map snd ks) \<Longrightarrow>
     map_of (fold rename_key ks m) k = map_of m k"
proof (induction ks arbitrary: m)
  case Nil
  then show ?case by simp
next
  case (Cons ab ks)
  obtain a b where ab: "ab = (a, b)" by (cases ab)
  with Cons.prems have "a \<noteq> b" "k \<noteq> a" "k \<noteq> b" by auto
  moreover have "map_of (fold rename_key ks (rename_key ab m)) k = map_of (rename_key ab m) k"
    using Cons.prems by (intro Cons.IH) (auto simp: rename_wf)
  ultimately show ?case using Cons.prems(1) by (simp add: ab rename_get)
qed

lemma rename_all:
  "im_wf m \<Longrightarrow> distinct (map fst ks @ map snd ks) \<Longrightarrow> (old, new) \<in> set ks \<Longrightarrow>
     map_of (fold rename_key ks m) old = None \<and>
     map_of (fold rename_key ks m) new =
       (case map_of m new of Some v \<Rightarrow> Some v | None \<Rightarrow> map_of m old)"
proof (induction ks arbitrary: m)
  case Nil
  then show ?case by simp
next
  case (Cons ab ks)
  obtain a b where ab: "ab = (a, b)" by (cases ab)
  have wf: "im_wf (rename_key ab m)" using Cons.prems(1) by (rule rename_wf)
  have dist: "distinct (map fst ks @ map snd ks)" using Cons.prems(2) by simp
  from Cons.prems(2) ab have ne: "a \<noteq> b" by auto
  show ?case
  proof (cases "(old, new) = ab")
    case True
    with ab Cons.prems(2) have "old \<notin> set (map fst ks @ map snd ks)" "new \<notin> set (map fst ks @ map snd ks)"
      by auto
    from rename_frame [OF wf dist this(1)] rename_frame [OF wf dist this(2)] True ab ne
    show ?thesis using Cons.prems(1) by (auto simp: rename_get)
  next
    case False
    with Cons.prems(3) have mem: "(old, new) \<in> set ks" by auto
    then have "old \<in> fst ` set ks" "new \<in> snd ` set ks" by force+
    with Cons.prems(2) ab have "old \<noteq> a" "old \<noteq> b" "new \<noteq> a" "new \<noteq> b" by auto
    with Cons.IH [OF wf dist mem] ne Cons.prems(1) show ?thesis
      by (auto simp: ab rename_get split: option.splits)
  qed
qed

lemma normalize_type_wf: "im_wf m \<Longrightarrow> im_wf (normalize_type m)"
  by (simp add: normalize_type_def im_wf_or_insert im_wf_update split: option.splits)

lemma normalize_type_get:
  "k \<noteq> ''type'' \<Longrightarrow> k \<noteq> ''status'' \<Longrightarrow> map_of (normalize_type m) k = map_of m k"
  by (simp add: normalize_type_def im_get_or_insert im_get_update split: option.splits)

text \<open>
  Normalizing an object with distinct keys removes the four legacy names; each
  canonical name keeps the value it had, and takes the legacy value when it had none.
\<close>

theorem normalize_legacy_item_exact:
  assumes "im_wf m" and "(old, new) \<in> set legacy_keys"
  shows "jget old (normalize_legacy_item (JObject m)) = None \<and>
    jget new (normalize_legacy_item (JObject m)) =
      (case map_of m new of Some v \<Rightarrow> Some v | None \<Rightarrow> map_of m old)"
proof -
  have "distinct (map fst legacy_keys @ map snd legacy_keys)" by (simp add: legacy_keys_def)
  from rename_all [OF normalize_type_wf [OF assms(1)] this assms(2)]
  have "map_of (fold rename_key legacy_keys (normalize_type m)) old = None \<and>
    map_of (fold rename_key legacy_keys (normalize_type m)) new =
      (case map_of (normalize_type m) new of Some v \<Rightarrow> Some v | None \<Rightarrow> map_of (normalize_type m) old)" .
  moreover have "old \<noteq> ''type''" "old \<noteq> ''status''" "new \<noteq> ''type''" "new \<noteq> ''status''"
    using assms(2) by (auto simp: legacy_keys_def)
  ultimately show ?thesis
    by (auto simp: normalize_legacy_item_def normalize_type_get split: option.splits)
qed

theorem normalize_legacy_item_exact_witness:
  "jget ''automation_id'' (normalize_legacy_item (JObject [(''workflow_id'', JString ''w'')])) =
     Some (JString ''w'')"
  using normalize_legacy_item_exact [of "[(''workflow_id'', JString ''w'')]" "''workflow_id''" "''automation_id''"]
  by (simp add: im_wf_def legacy_keys_def)

end
