(* ===== verification/Assignment.thy ===== *)
theory Assignment
  imports Prelude
begin

text \<open>
  The assignment of the roles of an automation to agents and providers
  (\<open>crates/wardian-core/src/automation/assignment.rs\<close> and the types of
  \<open>models/automation.rs\<close>). A hash map is the list of its entries in the order one
  iteration over it visits them, with distinct keys; the properties hold for every order.
\<close>

datatype agent_conversation_mode = Current | FreshBackground

datatype busy_policy = BusyWait | BusyQueue | BusySkip | BusyFail

datatype invocation_kind = Manual | Scheduled | Listener

text \<open>Agent: identifier, conversation, busy policy. Provider: name, workspace, model, effort.\<close>

datatype role_assignment =
    AgentRole string agent_conversation_mode busy_policy
  | TemporaryProvider string "string option" "string option" "string option"

definition known_providers :: "string list" where
  "known_providers = [''claude'', ''codex'', ''gemini'', ''antigravity'', ''opencode'', ''pi'', ''mock'']"

definition is_known_provider :: "string \<Rightarrow> bool" where
  "is_known_provider v \<longleftrightarrow> v \<in> set known_providers"

fun default_busy_policy_for :: "invocation_kind \<Rightarrow> busy_policy" where
  "default_busy_policy_for Manual = BusyFail"
| "default_busy_policy_for Scheduled = BusySkip"
| "default_busy_policy_for Listener = BusySkip"

definition assignment_of_target :: "invocation_kind \<Rightarrow> string \<Rightarrow> role_assignment" where
  "assignment_of_target invocation target =
     (if is_known_provider target then TemporaryProvider target None None None
      else AgentRole target Current (default_busy_policy_for invocation))"

definition normalize_assignments ::
    "(string \<times> role_assignment) list option \<Rightarrow> (string \<times> string) list \<Rightarrow> invocation_kind
       \<Rightarrow> (string \<times> role_assignment) list" where
  "normalize_assignments assignments bindings invocation =
     fold (\<lambda>(role, target). im_or_insert role (assignment_of_target invocation target)) bindings
       (case assignments of None \<Rightarrow> [] | Some a \<Rightarrow> a)"

definition blank :: "string option \<Rightarrow> bool" where
  "blank v = (case v of None \<Rightarrow> False | Some s \<Rightarrow> trim s = [])"

text \<open>What the loop body returns for one entry; \<open>None\<close> is falling through to the next.\<close>

definition assignment_error :: "string \<Rightarrow> role_assignment \<Rightarrow> string option" where
  "assignment_error role a =
     (if trim role = [] then Some ''assignment role names must not be empty''
      else case a of
        AgentRole agent_id _ _ \<Rightarrow>
          if trim agent_id = []
          then Some (''assignment `'' @ role @ ''` requires a non-empty agent_id'') else None
      | TemporaryProvider provider workspace model effort \<Rightarrow>
          if \<not> is_known_provider provider
          then Some (''assignment `'' @ role @ ''` uses unsupported provider `'' @ provider @ ''`'')
          else if blank workspace
          then Some (''assignment `'' @ role @ ''` has an empty temporary-provider workspace'')
          else if blank model
          then Some (''assignment `'' @ role @ ''` has an empty temporary-provider model'')
          else if blank effort
          then Some (''assignment `'' @ role @ ''` has an empty temporary-provider effort'')
          else None)"

fun validate_assignments :: "(string \<times> role_assignment) list \<Rightarrow> string + unit" where
  "validate_assignments [] = Inr ()"
| "validate_assignments ((role, a) # rest) =
     (case assignment_error role a of
        Some e \<Rightarrow> Inl e
      | None \<Rightarrow> validate_assignments rest)"

fun assignment_target :: "role_assignment \<Rightarrow> string" where
  "assignment_target (AgentRole agent_id _ _) = agent_id"
| "assignment_target (TemporaryProvider provider _ _ _) = provider"

definition legacy_bindings :: "(string \<times> role_assignment) list \<Rightarrow> (string \<times> string) list" where
  "legacy_bindings assignments = map (\<lambda>(role, a). (role, assignment_target a)) assignments"

section \<open>Properties\<close>

lemma target_of_assignment [simp]: "assignment_target (assignment_of_target i t) = t"
  by (simp add: assignment_of_target_def)

lemma fold_or_insert_get:
  "map_of (fold (\<lambda>(k, v). im_or_insert k (f v)) kvs m) k =
     (case map_of m k of Some w \<Rightarrow> Some w | None \<Rightarrow> map_option f (map_of kvs k))"
proof (induction kvs arbitrary: m)
  case Nil
  then show ?case by (simp split: option.splits)
next
  case (Cons kv kvs)
  then show ?case by (cases kv) (auto simp: im_get_or_insert split: option.splits)
qed

lemma map_of_legacy: "map_of (legacy_bindings as) k = map_option assignment_target (map_of as k)"
  by (induction as) (auto simp: legacy_bindings_def)

text \<open>
  Normalizing keeps every typed assignment, fills the remaining roles from the legacy
  bindings, and projecting back to legacy bindings gives, for every role without a typed
  assignment, the target it was bound to.
\<close>

theorem legacy_bindings_roundtrip:
  "map_of (normalize_assignments assignments bindings invocation) role =
     (case map_of (case assignments of None \<Rightarrow> [] | Some a \<Rightarrow> a) role of
        Some a \<Rightarrow> Some a
      | None \<Rightarrow> map_option (assignment_of_target invocation) (map_of bindings role)) \<and>
   map_of (legacy_bindings (normalize_assignments None bindings invocation)) = map_of bindings"
proof -
  have "map_of (legacy_bindings (normalize_assignments None bindings invocation)) k = map_of bindings k" for k
    unfolding map_of_legacy normalize_assignments_def fold_or_insert_get
    by (simp add: option.map_comp comp_def option.map_ident)
  then show ?thesis by (auto simp: normalize_assignments_def fold_or_insert_get)
qed

lemma validate_each: "validate_assignments as = Inr () \<longleftrightarrow> (\<forall>(r, a) \<in> set as. assignment_error r a = None)"
  by (induction as rule: validate_assignments.induct) (auto split: option.splits)

text \<open>
  A set of assignments passes validation exactly when every entry is in order: a role
  name that is not blank, and an agent with an identifier that is not blank, or a known
  provider without a blank workspace, model or effort. Whether it passes does not depend
  on the order in which the hash map is visited.
\<close>

theorem validate_assignments_exact:
  "(validate_assignments as = Inr ()) =
     (\<forall>(role, a) \<in> set as. trim role \<noteq> [] \<and>
        (case a of
           AgentRole agent_id _ _ \<Rightarrow> trim agent_id \<noteq> []
         | TemporaryProvider provider workspace model effort \<Rightarrow>
             is_known_provider provider \<and> \<not> blank workspace \<and> \<not> blank model \<and> \<not> blank effort))"
proof -
  have one: "assignment_error role a = None \<longleftrightarrow> trim role \<noteq> [] \<and>
        (case a of
           AgentRole agent_id _ _ \<Rightarrow> trim agent_id \<noteq> []
         | TemporaryProvider provider workspace model effort \<Rightarrow>
             is_known_provider provider \<and> \<not> blank workspace \<and> \<not> blank model \<and> \<not> blank effort)"
    for role a
    by (auto simp: assignment_error_def split: role_assignment.splits)
  show ?thesis unfolding validate_each by (simp add: one)
qed

lemma ascii_trim: "trim ''role'' = ''role''" "trim ''a'' = ''a''"
  by (rule trim_id; simp add: leading_word_def ws_words_def)+

theorem validate_assignments_exact_witness:
  "validate_assignments [(''role'', AgentRole ''a'' Current BusyWait)] = Inr ()"
  by (simp add: validate_assignments_exact ascii_trim del: validate_assignments.simps)

end
