(* ===== verification/Session_Close.thy ===== *)
theory Session_Close
  imports Assignment Json
begin

text \<open>
  The automations that run when a session closes (\<open>crates/wardian-core/src/session_close.rs\<close>):
  the stored invokers, their locked read-modify-write, and the ones a closing session
  triggers.
\<close>

record session_close_invoker =
  inv_id :: string
  inv_blueprint_id :: string
  inv_name :: string
  inv_enabled :: bool
  inv_require_archive :: bool
  inv_source_agent_id :: "string option"
  inv_boundary_reasons :: "string list"
  inv_provider :: "string option"
  inv_workspace :: "string option"
  inv_input :: json
  inv_bindings :: "(string \<times> string) list"
  inv_assignments :: "(string \<times> role_assignment) list"

text \<open>What reading the file gives: nothing there, an error, bytes that do not decode, a list.\<close>

datatype invoker_file =
    FileMissing
  | FileUnreadable string
  | FileMalformed string
  | FileHolds "session_close_invoker list"

definition load_invokers :: "invoker_file option \<Rightarrow> session_close_invoker list" where
  "load_invokers home =
     (case home of Some (FileHolds is) \<Rightarrow> is | _ \<Rightarrow> [])"

datatype invoker_error = HomeUnavailable | InvalidData string | OtherIo string

fun read_for_mutation :: "invoker_file \<Rightarrow> invoker_error + session_close_invoker list" where
  "read_for_mutation FileMissing = Inr []"
| "read_for_mutation (FileUnreadable e) = Inl (OtherIo e)"
| "read_for_mutation (FileMalformed e) = Inl (InvalidData e)"
| "read_for_mutation (FileHolds is) = Inr is"

text \<open>
  The whole operation under the lock: \<open>setup\<close> is the failure of creating the directory,
  the lock file or of locking, \<open>write\<close> that of the atomic replacement. The closure returns
  its result with the changed list, or an error. The file is \<open>None\<close> without a home.
\<close>

definition mutate_invokers ::
    "string option \<Rightarrow> string option \<Rightarrow>
     (session_close_invoker list \<Rightarrow> invoker_error + 'r \<times> session_close_invoker list) \<Rightarrow>
     invoker_file option \<Rightarrow> (invoker_error + 'r) \<times> invoker_file option" where
  "mutate_invokers setup write mutate home =
     (case home of
        None \<Rightarrow> (Inl HomeUnavailable, home)
      | Some f \<Rightarrow>
          (case setup of
             Some e \<Rightarrow> (Inl (OtherIo e), home)
           | None \<Rightarrow>
               (case read_for_mutation f of
                  Inl e \<Rightarrow> (Inl e, home)
                | Inr invokers \<Rightarrow>
                    (case mutate invokers of
                       Inl e \<Rightarrow> (Inl e, home)
                     | Inr (result, invokers') \<Rightarrow>
                         (case write of
                            Some e \<Rightarrow> (Inl (OtherIo e), home)
                          | None \<Rightarrow> (Inr result, Some (FileHolds invokers')))))))"

definition matching_invokers ::
    "string \<Rightarrow> string \<Rightarrow> invoker_file option \<Rightarrow> session_close_invoker list" where
  "matching_invokers agent_id boundary_reason home =
     filter (\<lambda>i. inv_enabled i \<and>
        (case inv_source_agent_id i of None \<Rightarrow> True | Some source \<Rightarrow> source = agent_id) \<and>
        (inv_boundary_reasons i = [] \<or> boundary_reason \<in> set (inv_boundary_reasons i)))
       (load_invokers home)"

definition archive_requirement_satisfied :: "session_close_invoker \<Rightarrow> bool \<Rightarrow> bool" where
  "archive_requirement_satisfied i archive_available \<longleftrightarrow>
     \<not> inv_require_archive i \<or> archive_available"

section \<open>Properties\<close>

text \<open>
  A read-modify-write of the invokers fails closed: whenever it fails, the file is
  what it was; a file that exists and cannot be decoded always makes it fail; and when it
  succeeds, the file holds exactly the list the closure returned for the stored list (the
  empty list for a missing file), so the next load sees it.
\<close>

theorem mutation_fails_closed:
  "(case mutate_invokers setup write mutate home of
      (Inl e, home') \<Rightarrow> home' = home
    | (Inr r, home') \<Rightarrow>
        \<exists>f is is'. home = Some f \<and> read_for_mutation f = Inr is \<and> mutate is = Inr (r, is') \<and>
          home' = Some (FileHolds is') \<and> load_invokers home' = is') \<and>
   fst (mutate_invokers setup None mutate (Some (FileMalformed m))) =
     Inl (case setup of Some e \<Rightarrow> OtherIo e | None \<Rightarrow> InvalidData m)"
  by (auto simp: mutate_invokers_def load_invokers_def split: option.splits sum.splits)

end
