(* ===== verification/Lease.thy ===== *)
theory Lease
  imports Prelude
begin

text \<open>
  The leases that keep two processes from driving one conversation
  (\<open>crates/wardian-core/src/conversation_lease.rs\<close>): a file of leases, read and replaced
  under a lock shared by all processes of a home. An operation is one locked
  read-modify-write; what the lock, the file system, the clock and the generator of
  identifiers answer during it is its environment. Instants are integers; the parser of
  RFC 3339 timestamps is a parameter of the environment.
\<close>

section \<open>State\<close>

record lease =
  l_agent_id :: string
  l_provider :: string
  l_resume_session :: string
  l_owner_kind :: string
  l_owner_id :: string
  l_acquisition_id :: string
  l_owner_node_id :: "string option"
  l_mode :: string
  l_started_at :: string
  l_heartbeat_at :: string
  l_expires_at :: string

record lease_owner =
  o_kind :: string
  o_id :: string
  o_acquisition :: string

definition owner_of :: "lease \<Rightarrow> lease_owner" where
  "owner_of l = \<lparr>o_kind = l_owner_kind l, o_id = l_owner_id l, o_acquisition = l_acquisition_id l\<rparr>"

datatype acquire_outcome = Acquired | Conflict lease

datatype retarget_outcome = Retargeted | RetargetConflict lease | RetargetNotActive

datatype spawn_validation = SpawnValid | SpawnConflict lease | SpawnNotActive

text \<open>The lease file: missing, unreadable, not decodable, or a schema and the leases.\<close>

datatype lease_file =
    NoFile
  | Unreadable string
  | Undecodable string
  | Leases nat "lease list"

record lease_env =
  le_parse :: "string \<Rightarrow> int option"
  le_clock :: int
  le_guard :: "string option"
  le_save :: "string option"
  le_uuids :: "string \<times> string"

section \<open>Validation and conflicts\<close>

definition empty_field :: "lease \<Rightarrow> string option" where
  "empty_field l =
     map_option fst (find (\<lambda>(f, v). trim v = [])
       [(''agent_id'', l_agent_id l), (''provider'', l_provider l),
        (''owner_kind'', l_owner_kind l), (''owner_id'', l_owner_id l)])"

definition bad_time :: "(string \<Rightarrow> int option) \<Rightarrow> lease \<Rightarrow> string option" where
  "bad_time parse l =
     map_option fst (find (\<lambda>(f, v). parse v = None)
       [(''started_at'', l_started_at l), (''heartbeat_at'', l_heartbeat_at l),
        (''expires_at'', l_expires_at l)])"

definition lease_modes :: "string list" where
  "lease_modes = [''background_resume'', ''background_fresh'', ''lifecycle_transition'',
     ''uncertain_previous_provider'']"

definition validate_lease :: "(string \<Rightarrow> int option) \<Rightarrow> nat \<Rightarrow> lease \<Rightarrow> string + unit" where
  "validate_lease parse index l =
     (let err = (\<lambda>msg. Inl (''conversation lease '' @ show_nat index @ msg)) in
      case empty_field l of
        Some f \<Rightarrow> err ('' has empty '' @ f)
      | None \<Rightarrow>
          if l_mode l \<notin> set lease_modes then err '' has unknown mode''
          else if l_mode l = ''background_resume'' \<and> trim (l_resume_session l) = []
          then err '' has empty resume_session''
          else if l_mode l = ''uncertain_previous_provider'' \<and>
                  (l_owner_kind l \<noteq> ''prior_provider_hold'' \<or> trim (l_resume_session l) = [])
          then err '' has invalid previous provider hold''
          else (case bad_time parse l of
                  Some f \<Rightarrow> err ('' has invalid '' @ f)
                | None \<Rightarrow> Inr ()))"

fun validate_all :: "(string \<Rightarrow> int option) \<Rightarrow> nat \<Rightarrow> lease list \<Rightarrow> string + unit" where
  "validate_all parse i [] = Inr ()"
| "validate_all parse i (l # ls) =
     res_bind (validate_lease parse i l) (\<lambda>_. validate_all parse (Suc i) ls)"

definition ends_after :: "(string \<Rightarrow> int option) \<Rightarrow> lease \<Rightarrow> int \<Rightarrow> bool" where
  "ends_after parse l now = (case parse (l_expires_at l) of None \<Rightarrow> False | Some e \<Rightarrow> e > now)"

definition is_hold :: "lease \<Rightarrow> bool" where
  "is_hold l \<longleftrightarrow> l_mode l = ''uncertain_previous_provider''"

definition lease_conflicts :: "(string \<Rightarrow> int option) \<Rightarrow> lease \<Rightarrow> string \<Rightarrow> string \<Rightarrow> int \<Rightarrow> bool" where
  "lease_conflicts parse l agent_id session now =
     (if is_hold l then trim session \<noteq> [] \<and> l_resume_session l = session
      else ends_after parse l now \<and>
           (l_agent_id l = agent_id \<or> trim session \<noteq> [] \<and> l_resume_session l = session))"

definition instant :: "lease_env \<Rightarrow> string \<Rightarrow> int" where
  "instant env now = (case le_parse env now of None \<Rightarrow> le_clock env | Some t \<Rightarrow> t)"

definition find_active_conflict ::
    "lease_env \<Rightarrow> lease list \<Rightarrow> string \<Rightarrow> string \<Rightarrow> string \<Rightarrow> lease option" where
  "find_active_conflict env ls agent_id session now =
     find (\<lambda>l. lease_conflicts (le_parse env) l agent_id session (instant env now)) ls"

definition is_headless_execution_lease :: "lease \<Rightarrow> bool" where
  "is_headless_execution_lease l \<longleftrightarrow> l_mode l = ''background_resume'' \<or> l_mode l = ''background_fresh''"

definition find_active_execution_conflict ::
    "lease_env \<Rightarrow> lease list \<Rightarrow> string \<Rightarrow> string \<Rightarrow> string \<Rightarrow> lease option" where
  "find_active_execution_conflict env ls agent_id session now =
     find (\<lambda>l. is_headless_execution_lease l \<and>
        lease_conflicts (le_parse env) l agent_id session (instant env now)) ls"

definition matches_owner :: "lease_owner \<Rightarrow> lease \<Rightarrow> bool" where
  "matches_owner ow l \<longleftrightarrow>
     l_owner_kind l = o_kind ow \<and> l_owner_id l = o_id ow \<and> l_acquisition_id l = o_acquisition ow"

definition release_owner :: "string \<Rightarrow> string \<Rightarrow> lease list \<Rightarrow> lease list" where
  "release_owner kind oid ls = filter (\<lambda>l. l_owner_kind l \<noteq> kind \<or> l_owner_id l \<noteq> oid) ls"

definition add_or_replace_owner :: "lease \<Rightarrow> lease list \<Rightarrow> lease list" where
  "add_or_replace_owner l ls = release_owner (l_owner_kind l) (l_owner_id l) ls @ [l]"

definition release_lease_owner :: "lease_owner \<Rightarrow> lease list \<Rightarrow> lease list" where
  "release_lease_owner ow ls = filter (\<lambda>l. \<not> matches_owner ow l) ls"

text \<open>\<open>iter().position(p)\<close>\<close>

fun position :: "('a \<Rightarrow> bool) \<Rightarrow> 'a list \<Rightarrow> nat option" where
  "position p [] = None"
| "position p (x # xs) = (if p x then Some 0 else map_option Suc (position p xs))"

section \<open>The file\<close>

definition load_leases_checked :: "lease_env \<Rightarrow> lease_file \<Rightarrow> string + lease list" where
  "load_leases_checked env file =
     (case file of
        NoFile \<Rightarrow> Inr []
      | Unreadable e \<Rightarrow> Inl (''failed to read conversation leases: '' @ e)
      | Undecodable e \<Rightarrow> Inl (''failed to parse conversation leases: '' @ e)
      | Leases schema ls \<Rightarrow>
          if schema \<noteq> 1 then Inl (''unsupported conversation lease schema '' @ show_nat schema)
          else res_bind (validate_all (le_parse env) 0 ls) (\<lambda>_. Inr ls))"

definition load_leases :: "lease_env \<Rightarrow> lease_file \<Rightarrow> lease list" where
  "load_leases env file = (case load_leases_checked env file of Inl _ \<Rightarrow> [] | Inr ls \<Rightarrow> ls)"

text \<open>Both locks, then the checked load: the start of every operation.\<close>

definition locked_load :: "lease_env \<Rightarrow> lease_file \<Rightarrow> string + lease list" where
  "locked_load env file =
     (case le_guard env of Some e \<Rightarrow> Inl e | None \<Rightarrow> load_leases_checked env file)"

definition save_leases ::
    "lease_env \<Rightarrow> string \<Rightarrow> lease list \<Rightarrow> 'r \<Rightarrow> lease_file \<Rightarrow> (string + 'r) \<times> lease_file" where
  "save_leases env what ls result file =
     (case le_save env of
        Some e \<Rightarrow> (Inl (''failed to save '' @ what @ '': '' @ e), file)
      | None \<Rightarrow> (Inr result, Leases 1 ls))"

section \<open>Operations\<close>

definition try_acquire_lease ::
    "lease_env \<Rightarrow> lease \<Rightarrow> string \<Rightarrow> lease_file \<Rightarrow> (string + acquire_outcome) \<times> lease_file" where
  "try_acquire_lease env l now file =
     (if trim (l_acquisition_id l) = []
      then (Inl ''conversation lease acquisition id is required'', file)
      else case validate_lease (le_parse env) 0 l of
        Inl e \<Rightarrow> (Inl e, file)
      | Inr _ \<Rightarrow>
          (case locked_load env file of
             Inl e \<Rightarrow> (Inl e, file)
           | Inr ls \<Rightarrow>
               (case find_active_conflict env ls (l_agent_id l) (l_resume_session l) now of
                  Some c \<Rightarrow> (Inr (Conflict c), file)
                | None \<Rightarrow>
                    save_leases env ''conversation lease'' (add_or_replace_owner l ls) Acquired file)))"

definition acquire_lease ::
    "lease_env \<Rightarrow> lease \<Rightarrow> string \<Rightarrow> lease_file \<Rightarrow> (string + unit) \<times> lease_file" where
  "acquire_lease env l now file =
     (case try_acquire_lease env l now file of
        (Inl e, file') \<Rightarrow> (Inl e, file')
      | (Inr Acquired, file') \<Rightarrow> (Inr (), file')
      | (Inr (Conflict c), file') \<Rightarrow>
          (Inl (''agent '' @ l_agent_id l @ '' saved conversation is already leased by '' @
             l_owner_kind c @ '' '' @ l_owner_id c), file'))"

definition release_owner_persisted ::
    "lease_env \<Rightarrow> string \<Rightarrow> string \<Rightarrow> lease_file \<Rightarrow> (string + unit) \<times> lease_file" where
  "release_owner_persisted env kind oid file =
     (case locked_load env file of
        Inl e \<Rightarrow> (Inl e, file)
      | Inr ls \<Rightarrow> save_leases env ''conversation lease release'' (release_owner kind oid ls) () file)"

definition release_lease_owner_persisted ::
    "lease_env \<Rightarrow> lease_owner \<Rightarrow> lease_file \<Rightarrow> (string + unit) \<times> lease_file" where
  "release_lease_owner_persisted env ow file =
     (case locked_load env file of
        Inl e \<Rightarrow> (Inl e, file)
      | Inr ls \<Rightarrow> save_leases env ''conversation lease release'' (release_lease_owner ow ls) () file)"

definition renew_lease_owner_persisted ::
    "lease_env \<Rightarrow> lease_owner \<Rightarrow> string \<Rightarrow> string \<Rightarrow> lease_file \<Rightarrow> (string + bool) \<times> lease_file" where
  "renew_lease_owner_persisted env ow heartbeat expires file =
     (case le_parse env heartbeat of
        None \<Rightarrow> (Inl ''invalid conversation lease heartbeat_at'', file)
      | Some now \<Rightarrow>
          if le_parse env expires = None
          then (Inl ''invalid conversation lease expires_at'', file)
          else (case locked_load env file of
            Inl e \<Rightarrow> (Inl e, file)
          | Inr ls \<Rightarrow>
              (case position (matches_owner ow) ls of
                 None \<Rightarrow> (Inr False, file)
               | Some i \<Rightarrow>
                   if \<not> ends_after (le_parse env) (ls ! i) now then (Inr False, file)
                   else save_leases env ''conversation lease renewal''
                     (ls[i := (ls ! i)\<lparr>l_heartbeat_at := heartbeat, l_expires_at := expires\<rparr>])
                     True file)))"

text \<open>The first lease, other than the owned one, that conflicts.\<close>

definition other_conflict ::
    "lease_env \<Rightarrow> lease list \<Rightarrow> nat \<Rightarrow> string \<Rightarrow> string \<Rightarrow> int \<Rightarrow> lease option" where
  "other_conflict env ls i agent_id session now =
     map_option snd (find (\<lambda>(j, l). j \<noteq> i \<and> lease_conflicts (le_parse env) l agent_id session now)
       (List.enumerate 0 ls))"

definition retarget_lifecycle_lease_persisted ::
    "lease_env \<Rightarrow> lease_owner \<Rightarrow> string \<Rightarrow> string \<Rightarrow> string \<Rightarrow> string \<Rightarrow> string \<Rightarrow> lease_file \<Rightarrow>
     (string + retarget_outcome) \<times> lease_file" where
  "retarget_lifecycle_lease_persisted env ow agent_id provider session heartbeat expires file =
     (case le_parse env heartbeat of
        None \<Rightarrow> (Inl ''invalid conversation lease heartbeat_at'', file)
      | Some now \<Rightarrow>
          (case le_parse env expires of
             None \<Rightarrow> (Inl ''invalid conversation lease expires_at'', file)
           | Some expiry \<Rightarrow>
               if expiry \<le> now then (Inl ''conversation lease expiry must follow heartbeat'', file)
               else (case locked_load env file of
                 Inl e \<Rightarrow> (Inl e, file)
               | Inr ls \<Rightarrow>
                   (case position (matches_owner ow) ls of
                      None \<Rightarrow> (Inr RetargetNotActive, file)
                    | Some i \<Rightarrow>
                        if o_kind ow \<noteq> ''agent_lifecycle'' \<or> l_mode (ls ! i) \<noteq> ''lifecycle_transition''
                           \<or> l_agent_id (ls ! i) \<noteq> agent_id \<or> l_provider (ls ! i) \<noteq> provider
                           \<or> \<not> ends_after (le_parse env) (ls ! i) now
                        then (Inr RetargetNotActive, file)
                        else (case other_conflict env ls i agent_id session now of
                          Some c \<Rightarrow> (Inr (RetargetConflict c), file)
                        | None \<Rightarrow>
                            save_leases env ''conversation lease retarget''
                              (ls[i := (ls ! i)\<lparr>l_resume_session := session,
                                         l_heartbeat_at := heartbeat, l_expires_at := expires\<rparr>])
                              Retargeted file)))))"

definition validate_provider_spawn_lease_persisted ::
    "lease_env \<Rightarrow> lease_owner \<Rightarrow> string \<Rightarrow> string \<Rightarrow> string \<Rightarrow> string \<Rightarrow> lease_file \<Rightarrow>
     (string + spawn_validation) \<times> lease_file" where
  "validate_provider_spawn_lease_persisted env ow agent_id provider session now_text file =
     (case le_parse env now_text of
        None \<Rightarrow> (Inl ''invalid conversation lease validation time'', file)
      | Some now \<Rightarrow>
          (case locked_load env file of
             Inl e \<Rightarrow> (Inl e, file)
           | Inr ls \<Rightarrow>
               (case position (matches_owner ow) ls of
                  None \<Rightarrow> (Inr SpawnNotActive, file)
                | Some i \<Rightarrow>
                    if o_kind ow \<noteq> ''provider_spawn'' \<or> l_mode (ls ! i) \<noteq> ''lifecycle_transition''
                       \<or> l_agent_id (ls ! i) \<noteq> agent_id \<or> l_provider (ls ! i) \<noteq> provider
                       \<or> l_resume_session (ls ! i) \<noteq> session
                       \<or> \<not> ends_after (le_parse env) (ls ! i) now
                    then (Inr SpawnNotActive, file)
                    else (case other_conflict env ls i agent_id session now of
                      Some c \<Rightarrow> (Inr (SpawnConflict c), file)
                    | None \<Rightarrow> (Inr SpawnValid, file)))))"

definition hold_lease :: "lease_env \<Rightarrow> string \<Rightarrow> string \<Rightarrow> string \<Rightarrow> string \<Rightarrow> lease" where
  "hold_lease env agent_id provider session now =
     \<lparr>l_agent_id = agent_id, l_provider = provider, l_resume_session = session,
      l_owner_kind = ''prior_provider_hold'', l_owner_id = fst (le_uuids env),
      l_acquisition_id = snd (le_uuids env), l_owner_node_id = None,
      l_mode = ''uncertain_previous_provider'', l_started_at = now, l_heartbeat_at = now,
      l_expires_at = ''9999-12-31T23:59:59Z''\<rparr>"

definition hold_previous_provider_session_persisted ::
    "lease_env \<Rightarrow> lease_owner \<Rightarrow> string \<Rightarrow> string \<Rightarrow> string \<Rightarrow> string \<Rightarrow> lease_file \<Rightarrow>
     (string + lease_owner) \<times> lease_file" where
  "hold_previous_provider_session_persisted env ow agent_id provider session now_text file =
     (case le_parse env now_text of
        None \<Rightarrow> (Inl ''invalid previous provider hold timestamp'', file)
      | Some now \<Rightarrow>
          if trim session = [] then (Inl ''previous provider hold requires a session identity'', file)
          else (case locked_load env file of
            Inl e \<Rightarrow> (Inl e, file)
          | Inr ls \<Rightarrow>
              if \<not> (case find (matches_owner ow) ls of
                      None \<Rightarrow> False
                    | Some l \<Rightarrow>
                        o_kind ow = ''agent_lifecycle'' \<and> l_mode l = ''lifecycle_transition'' \<and>
                        l_agent_id l = agent_id \<and> l_provider l = provider \<and>
                        l_resume_session l = session \<and> ends_after (le_parse env) l now)
              then (Inl ''exact lifecycle lease no longer owns the previous provider session'', file)
              else let hold = hold_lease env agent_id provider session now_text
                   in save_leases env ''previous provider hold'' (ls @ [hold]) (owner_of hold) file))"

section \<open>The guard\<close>

record lease_guard =
  g_owner :: lease_owner
  g_released :: bool
  g_retain_on_drop :: bool

definition guard_new :: "lease \<Rightarrow> lease_guard" where
  "guard_new l = \<lparr>g_owner = owner_of l, g_released = False, g_retain_on_drop = False\<rparr>"

definition guard_release ::
    "lease_env \<Rightarrow> lease_guard \<Rightarrow> lease_file \<Rightarrow> (string + unit) \<times> lease_guard \<times> lease_file" where
  "guard_release env g file =
     (case release_lease_owner_persisted env (g_owner g) file of
        (Inl e, file') \<Rightarrow> (Inl e, g, file')
      | (Inr _, file') \<Rightarrow> (Inr (), g\<lparr>g_released := True\<rparr>, file'))"

definition guard_retain_on_drop :: "lease_guard \<Rightarrow> lease_guard" where
  "guard_retain_on_drop g = g\<lparr>g_retain_on_drop := True\<rparr>"

definition guard_retain_until_expiry :: "lease_guard \<Rightarrow> lease_guard" where
  "guard_retain_until_expiry g = g\<lparr>g_released := True\<rparr>"

definition guard_drop :: "lease_env \<Rightarrow> lease_guard \<Rightarrow> lease_file \<Rightarrow> lease_file" where
  "guard_drop env g file =
     (if \<not> g_released g \<and> \<not> g_retain_on_drop g
      then snd (release_lease_owner_persisted env (g_owner g) file) else file)"

end
