(* ===== verification/Lease_Laws.thy ===== *)
theory Lease_Laws
  imports Lease
begin

text \<open>
  What the conversation leases guarantee. Every locked operation moves the list of leases
  in one of six ways (\<open>lease_move\<close>), and the properties of sequences of operations, from
  any number of processes, are proved over the moves.
\<close>

section \<open>The stored leases\<close>

definition held :: "lease_file \<Rightarrow> lease list" where
  "held file = (case file of Leases _ ls \<Rightarrow> ls | _ \<Rightarrow> [])"

lemma held_simps [simp]: "held NoFile = []" "held (Leases n ls) = ls"
  by (simp_all add: held_def)

definition valid_lease :: "(string \<Rightarrow> int option) \<Rightarrow> lease \<Rightarrow> bool" where
  "valid_lease parse l \<longleftrightarrow> validate_lease parse 0 l = Inr ()"

lemma valid_at_any_index: "validate_lease parse i l = Inr () \<longleftrightarrow> valid_lease parse l"
  by (auto simp: valid_lease_def validate_lease_def Let_def split: option.splits)

lemma validate_all_Inr: "validate_all parse i ls = Inr u \<longleftrightarrow> list_all (valid_lease parse) ls"
  by (induction ls arbitrary: i) (auto simp: res_bind_eq_Inr valid_at_any_index)

definition loadable :: "(string \<Rightarrow> int option) \<Rightarrow> lease_file \<Rightarrow> bool" where
  "loadable parse file \<longleftrightarrow>
     (case file of NoFile \<Rightarrow> True | Leases schema ls \<Rightarrow> schema = 1 \<and> list_all (valid_lease parse) ls
      | _ \<Rightarrow> False)"

lemma loadable_written [simp]:
  "loadable parse (Leases (Suc 0) ls) \<longleftrightarrow> list_all (valid_lease parse) ls"
  by (simp add: loadable_def)

lemma load_checked_iff:
  "load_leases_checked env file = Inr ls \<longleftrightarrow> loadable (le_parse env) file \<and> ls = held file"
  by (auto simp: load_leases_checked_def loadable_def held_def res_bind_eq_Inr validate_all_Inr
      split: lease_file.splits)

lemma locked_load_iff:
  "locked_load env file = Inr ls \<longleftrightarrow>
     le_guard env = None \<and> loadable (le_parse env) file \<and> ls = held file"
  by (auto simp: locked_load_def load_checked_iff split: option.splits)

lemma position_Some: "position p xs = Some i \<Longrightarrow> i < length xs \<and> p (xs ! i)"
  by (induction xs arbitrary: i) (auto split: if_splits)

lemma find_enumerate_None:
  "find (\<lambda>(j, l). j \<noteq> i \<and> p l) (List.enumerate n ls) = None \<longleftrightarrow>
     (\<forall>j<length ls. n + j \<noteq> i \<longrightarrow> \<not> p (ls ! j))"
  by (auto simp: find_None_iff in_set_enumerate_eq) (metis le_add1 add_diff_cancel_left' add.commute less_diff_conv)

lemma other_conflict_None:
  "other_conflict env ls i agent session now = None \<longleftrightarrow>
     (\<forall>j<length ls. j \<noteq> i \<longrightarrow> \<not> lease_conflicts (le_parse env) (ls ! j) agent session now)"
  using find_enumerate_None [of i "\<lambda>l. lease_conflicts (le_parse env) l agent session now" 0 ls]
  by (simp add: other_conflict_def)

section \<open>The moves\<close>

inductive lease_move ::
    "(string \<Rightarrow> int option) \<Rightarrow> int \<Rightarrow> lease list \<Rightarrow> lease list \<Rightarrow> bool"
  for parse :: "string \<Rightarrow> int option" and t :: int where
  stay: "lease_move parse t ls ls"
| enter: "\<lbrakk>valid_lease parse l;
     \<forall>m \<in> set ls. \<not> lease_conflicts parse m (l_agent_id l) (l_resume_session l) t\<rbrakk> \<Longrightarrow>
     lease_move parse t ls (add_or_replace_owner l ls)"
| leave: "lease_move parse t ls (filter p ls)"
| renew: "\<lbrakk>i < length ls; ends_after parse (ls ! i) t; parse heartbeat \<noteq> None;
     parse expires \<noteq> None\<rbrakk> \<Longrightarrow>
     lease_move parse t ls
       (ls[i := (ls ! i)\<lparr>l_heartbeat_at := heartbeat, l_expires_at := expires\<rparr>])"
| rebind: "\<lbrakk>i < length ls; ends_after parse (ls ! i) t; parse heartbeat \<noteq> None;
     parse expires \<noteq> None; l_mode (ls ! i) = ''lifecycle_transition'';
     \<forall>j<length ls. j \<noteq> i \<longrightarrow> \<not> lease_conflicts parse (ls ! j) (l_agent_id (ls ! i)) session t\<rbrakk> \<Longrightarrow>
     lease_move parse t ls
       (ls[i := (ls ! i)\<lparr>l_resume_session := session, l_heartbeat_at := heartbeat,
                   l_expires_at := expires\<rparr>])"
| fence: "\<lbrakk>is_hold h; valid_lease parse h\<rbrakk> \<Longrightarrow> lease_move parse t ls (ls @ [h])"

inductive_cases lease_moveE: "lease_move parse t ls ls'"

section \<open>Operations as events\<close>

datatype lease_op =
    AcquireOp lease string
  | ReleaseOwnerOp string string
  | ReleaseOp lease_owner
  | RenewOp lease_owner string string
  | RetargetOp lease_owner string string string string string
  | HoldOp lease_owner string string string string
  | SpawnCheckOp lease_owner string string string string

text \<open>The error of an operation, if it failed, and the file it leaves.\<close>

definition outcome :: "('e + 'r) \<times> lease_file \<Rightarrow> 'e option \<times> lease_file" where
  "outcome r = (case fst r of Inl e \<Rightarrow> Some e | Inr _ \<Rightarrow> None, snd r)"

fun lease_do :: "lease_env \<Rightarrow> lease_op \<Rightarrow> lease_file \<Rightarrow> string option \<times> lease_file" where
  "lease_do env (AcquireOp l now) file = outcome (acquire_lease env l now file)"
| "lease_do env (ReleaseOwnerOp kind oid) file = outcome (release_owner_persisted env kind oid file)"
| "lease_do env (ReleaseOp ow) file = outcome (release_lease_owner_persisted env ow file)"
| "lease_do env (RenewOp ow hb e) file = outcome (renew_lease_owner_persisted env ow hb e file)"
| "lease_do env (RetargetOp ow a p s hb e) file =
     outcome (retarget_lifecycle_lease_persisted env ow a p s hb e file)"
| "lease_do env (HoldOp ow a p s now) file =
     outcome (hold_previous_provider_session_persisted env ow a p s now file)"
| "lease_do env (SpawnCheckOp ow a p s now) file =
     outcome (validate_provider_spawn_lease_persisted env ow a p s now file)"

text \<open>The instant an operation works with; the releases need none.\<close>

fun op_instant :: "lease_env \<Rightarrow> lease_op \<Rightarrow> int option" where
  "op_instant env (AcquireOp l now) = Some (instant env now)"
| "op_instant env (RenewOp ow hb e) = le_parse env hb"
| "op_instant env (RetargetOp ow a p s hb e) = le_parse env hb"
| "op_instant env (HoldOp ow a p s now) = le_parse env now"
| "op_instant env (SpawnCheckOp ow a p s now) = le_parse env now"
| "op_instant env _ = None"

lemmas lease_op_defs =
  acquire_lease_def try_acquire_lease_def release_owner_persisted_def
  release_lease_owner_persisted_def renew_lease_owner_persisted_def
  retarget_lifecycle_lease_persisted_def hold_previous_provider_session_persisted_def
  validate_provider_spawn_lease_persisted_def save_leases_def

text \<open>Every operation that fails leaves the file alone, and one that cannot load it fails.\<close>

lemma outcome_simps [simp]:
  "outcome (Inl e, f) = (Some e, f)" "outcome (Inr r, f) = (None, f)"
  by (simp_all add: outcome_def)

lemma failed_op_keeps_file: "lease_do env op file = (Some e, file') \<Longrightarrow> file' = file"
  by (cases op) (auto simp: lease_op_defs Let_def split: option.splits sum.splits if_splits prod.splits)


section \<open>Every operation is a move\<close>

text \<open>What an operation may do to the file: nothing, or a move of the leases it loaded.\<close>

definition moves :: "(string \<Rightarrow> int option) \<Rightarrow> int \<Rightarrow> lease_file \<Rightarrow> lease_file \<Rightarrow> bool" where
  "moves parse t file file' \<longleftrightarrow>
     file' = file \<or>
     loadable parse file \<and> (\<exists>ls'. file' = Leases 1 ls' \<and> lease_move parse t (held file) ls')"

lemma moves_same [simp]: "moves parse t file file"
  by (simp add: moves_def)

lemma moves_saved:
  "\<lbrakk>locked_load env file = Inr ls; lease_move (le_parse env) t ls ls'\<rbrakk> \<Longrightarrow>
     moves (le_parse env) t file (Leases (Suc 0) ls')"
  by (auto simp: moves_def locked_load_iff)

text \<open>
  The end of time the holds are written with is a timestamp, and the generator of
  identifiers returns no blank one.
\<close>

definition hold_writable :: "lease_env \<Rightarrow> bool" where
  "hold_writable env \<longleftrightarrow>
     le_parse env ''9999-12-31T23:59:59Z'' \<noteq> None \<and> trim (fst (le_uuids env)) \<noteq> []"

lemma acquire_moves:
  "snd (acquire_lease env l now file) = file' \<Longrightarrow> moves (le_parse env) (instant env now) file file'"
  by (auto simp: acquire_lease_def try_acquire_lease_def save_leases_def find_active_conflict_def
      find_None_iff valid_lease_def split: option.splits sum.splits if_splits
      intro!: moves_saved lease_move.enter)

lemma release_moves:
  "moves (le_parse env) t file (snd (release_owner_persisted env kind oid file))"
  "moves (le_parse env) t file (snd (release_lease_owner_persisted env ow file))"
  by (auto simp: release_owner_persisted_def release_lease_owner_persisted_def save_leases_def
      release_owner_def release_lease_owner_def split: option.splits sum.splits
      intro!: moves_saved lease_move.leave)

lemma renew_moves:
  assumes "le_parse env hb = Some t"
  shows "moves (le_parse env) t file (snd (renew_lease_owner_persisted env ow hb e file))"
  using assms
  by (auto simp: renew_lease_owner_persisted_def save_leases_def split: option.splits sum.splits
      dest: position_Some intro!: moves_saved lease_move.renew)

lemma retarget_moves:
  assumes "le_parse env hb = Some t"
  shows "moves (le_parse env) t file
           (snd (retarget_lifecycle_lease_persisted env ow a p s hb e file))"
  using assms
  by (auto simp: retarget_lifecycle_lease_persisted_def save_leases_def other_conflict_None
      split: option.splits sum.splits dest: position_Some intro!: moves_saved lease_move.rebind)

lemma trim_hold_kind: "trim ''prior_provider_hold'' \<noteq> []"
  by code_simp

lemma written_hold:
  assumes "valid_lease (le_parse env) l" "hold_writable env" "trim session \<noteq> []"
    and "le_parse env now \<noteq> None"
  shows "is_hold (hold_lease env (l_agent_id l) (l_provider l) session now)"
    and "valid_lease (le_parse env) (hold_lease env (l_agent_id l) (l_provider l) session now)"
proof -
  have "trim (l_agent_id l) \<noteq> []" "trim (l_provider l) \<noteq> []"
    using assms(1) by (auto simp: valid_lease_def validate_lease_def empty_field_def split: option.splits if_splits)
  then show "is_hold (hold_lease env (l_agent_id l) (l_provider l) session now)"
    and "valid_lease (le_parse env) (hold_lease env (l_agent_id l) (l_provider l) session now)"
    using assms(2-)
    by (auto simp: hold_lease_def is_hold_def hold_writable_def valid_lease_def validate_lease_def
        empty_field_def bad_time_def lease_modes_def trim_hold_kind)
qed

lemma loaded_valid:
  "\<lbrakk>locked_load env file = Inr ls; find p ls = Some l\<rbrakk> \<Longrightarrow> valid_lease (le_parse env) l"
  by (auto simp: locked_load_iff loadable_def list_all_iff find_Some_iff split: lease_file.splits)

lemma hold_moves:
  assumes "le_parse env now = Some t" "hold_writable env"
  shows "moves (le_parse env) t file
           (snd (hold_previous_provider_session_persisted env ow a p s now file))"
  using assms
  by (auto simp: hold_previous_provider_session_persisted_def save_leases_def Let_def
      split: option.splits sum.splits dest: loaded_valid
      intro!: moves_saved lease_move.fence written_hold)

lemma spawn_check_moves:
  "snd (validate_provider_spawn_lease_persisted env ow a p s now file) = file"
  by (auto simp: validate_provider_spawn_lease_persisted_def split: option.splits sum.splits)


lemma bad_instant_keeps_file:
  "le_parse env hb = None \<Longrightarrow> snd (renew_lease_owner_persisted env ow hb e file) = file"
  "le_parse env hb = None \<Longrightarrow> snd (retarget_lifecycle_lease_persisted env ow a p s hb e file) = file"
  "le_parse env hb = None \<Longrightarrow>
     snd (hold_previous_provider_session_persisted env ow a p s hb file) = file"
  by (simp_all add: renew_lease_owner_persisted_def retarget_lifecycle_lease_persisted_def
      hold_previous_provider_session_persisted_def)

lemma snd_outcome [simp]: "snd (outcome r) = snd r"
  by (simp add: outcome_def)

lemma lease_do_moves:
  assumes "hold_writable env" "case op_instant env op of None \<Rightarrow> True | Some u \<Rightarrow> u = t"
  shows "moves (le_parse env) t file (snd (lease_do env op file))"
  using assms
  by (cases op)
    (auto simp: acquire_moves release_moves renew_moves retarget_moves hold_moves
      spawn_check_moves bad_instant_keeps_file split: option.splits)

section \<open>Exclusion\<close>

definition clash :: "lease \<Rightarrow> lease \<Rightarrow> bool" where
  "clash a b \<longleftrightarrow>
     l_agent_id a = l_agent_id b \<or>
     trim (l_resume_session a) \<noteq> [] \<and> l_resume_session a = l_resume_session b"

text \<open>A lease that excludes others of its agent: not a hold, and not over.\<close>

definition driving :: "(string \<Rightarrow> int option) \<Rightarrow> int \<Rightarrow> lease \<Rightarrow> bool" where
  "driving parse t l \<longleftrightarrow> \<not> is_hold l \<and> ends_after parse l t"

definition compatible :: "(string \<Rightarrow> int option) \<Rightarrow> int \<Rightarrow> lease \<Rightarrow> lease \<Rightarrow> bool" where
  "compatible parse t a b \<longleftrightarrow> driving parse t a \<and> driving parse t b \<longrightarrow> \<not> clash a b"

definition exclusive :: "(string \<Rightarrow> int option) \<Rightarrow> int \<Rightarrow> lease list \<Rightarrow> bool" where
  "exclusive parse t ls \<longleftrightarrow> sorted_wrt (compatible parse t) ls"

lemma clash_sym: "clash a b \<longleftrightarrow> clash b a"
  by (auto simp: clash_def)

lemma compatible_sym: "compatible parse t a b \<longleftrightarrow> compatible parse t b a"
  using clash_sym by (auto simp: compatible_def)

lemma conflict_clash:
  "driving parse t m \<Longrightarrow>
     lease_conflicts parse m (l_agent_id l) (l_resume_session l) t \<longleftrightarrow> clash l m"
  by (auto simp: lease_conflicts_def driving_def clash_def)

lemma driving_earlier: "driving parse u l \<Longrightarrow> t \<le> u \<Longrightarrow> driving parse t l"
  by (auto simp: driving_def ends_after_def split: option.splits)

lemma exclusive_later: "exclusive parse t ls \<Longrightarrow> t \<le> u \<Longrightarrow> exclusive parse u ls"
  unfolding exclusive_def
  by (erule sorted_wrt_mono_rel [rotated]) (auto simp: compatible_def dest: driving_earlier)

lemma exclusive_update:
  assumes "exclusive parse t ls" "\<And>j. j < length ls \<Longrightarrow> j \<noteq> i \<Longrightarrow> compatible parse t l (ls ! j)"
  shows "exclusive parse t (ls[i := l])"
  unfolding exclusive_def sorted_wrt_iff_nth_less
proof (intro allI impI)
  fix j k
  assume jk: "j < k" "k < length (ls[i := l])"
  have "compatible parse t (ls ! j) (ls ! k)"
    using assms(1) jk by (simp add: exclusive_def sorted_wrt_iff_nth_less)
  then show "compatible parse t (ls[i := l] ! j) (ls[i := l] ! k)"
    using assms(2) [of j] assms(2) [of k] jk compatible_sym [of parse t l]
    by (cases "i = j"; cases "i = k") auto
qed

lemma exclusive_nth:
  assumes "exclusive parse t ls" "i < length ls" "j < length ls" "i \<noteq> j"
  shows "compatible parse t (ls ! i) (ls ! j)"
proof (cases "i < j")
  case True
  with assms show ?thesis by (simp add: exclusive_def sorted_wrt_iff_nth_less)
next
  case False
  with assms have "compatible parse t (ls ! j) (ls ! i)"
    by (simp add: exclusive_def sorted_wrt_iff_nth_less)
  then show ?thesis by (simp add: compatible_sym)
qed

lemma compatible_same_identity:
  "\<lbrakk>compatible parse t a m; ends_after parse a t; l_mode b = l_mode a;
    l_agent_id b = l_agent_id a; l_resume_session b = l_resume_session a\<rbrakk> \<Longrightarrow>
     compatible parse t b m"
  by (auto simp: compatible_def driving_def is_hold_def clash_def)

lemma compatible_no_conflict:
  "\<not> lease_conflicts parse m (l_agent_id l) (l_resume_session l) t \<Longrightarrow> compatible parse t l m"
  by (auto simp: compatible_def conflict_clash)

lemma move_keeps_exclusive:
  assumes "lease_move parse t ls ls'" "exclusive parse t ls"
  shows "exclusive parse t ls'"
  using assms
proof (cases rule: lease_move.cases)
  case (enter l)
  then have "\<forall>m \<in> set ls. compatible parse t m l"
    using compatible_no_conflict compatible_sym by blast
  with enter assms(2) show ?thesis
    by (simp add: exclusive_def add_or_replace_owner_def release_owner_def sorted_wrt_append
        sorted_wrt_filter)
next
  case (leave p)
  with assms(2) show ?thesis by (simp add: exclusive_def sorted_wrt_filter)
next
  case (renew i heartbeat expires)
  with assms(2) show ?thesis
    by (auto intro!: exclusive_update compatible_same_identity [of parse t "ls ! i"] exclusive_nth)
next
  case (rebind i heartbeat expires session)
  let ?l = "(ls ! i)\<lparr>l_resume_session := session, l_heartbeat_at := heartbeat,
               l_expires_at := expires\<rparr>"
  have "compatible parse t ?l (ls ! j)" if "j < length ls" "j \<noteq> i" for j
    using rebind that by (intro compatible_no_conflict) simp
  with rebind assms(2) show ?thesis by (simp add: exclusive_update)
next
  case (fence h)
  with assms(2) show ?thesis
    by (simp add: exclusive_def sorted_wrt_append compatible_def driving_def)
qed (use assms in simp)

lemma bad_time_None:
  "bad_time parse l = None \<longleftrightarrow>
     parse (l_started_at l) \<noteq> None \<and> parse (l_heartbeat_at l) \<noteq> None \<and> parse (l_expires_at l) \<noteq> None"
  by (auto simp: bad_time_def split: if_splits)

lemma valid_renewed:
  "\<lbrakk>valid_lease parse l; parse h \<noteq> None; parse e \<noteq> None\<rbrakk> \<Longrightarrow>
     valid_lease parse (l\<lparr>l_heartbeat_at := h, l_expires_at := e\<rparr>)"
  by (auto simp: valid_lease_def validate_lease_def empty_field_def bad_time_def
      split: option.splits if_splits)

lemma valid_rebound:
  "\<lbrakk>valid_lease parse l; parse h \<noteq> None; parse e \<noteq> None; l_mode l = ''lifecycle_transition''\<rbrakk> \<Longrightarrow>
     valid_lease parse (l\<lparr>l_resume_session := s, l_heartbeat_at := h, l_expires_at := e\<rparr>)"
  by (auto simp: valid_lease_def validate_lease_def empty_field_def bad_time_def
      split: option.splits if_splits)

lemma move_keeps_valid:
  assumes "lease_move parse t ls ls'" "list_all (valid_lease parse) ls"
  shows "list_all (valid_lease parse) ls'"
  using assms
  by (cases rule: lease_move.cases)
    (auto simp: list_all_iff add_or_replace_owner_def release_owner_def
      dest!: set_update_subset_insert [THEN subsetD] intro: valid_renewed valid_rebound)


section \<open>Sequences of operations\<close>

text \<open>
  The state of a home: the instant of the last operation and the lease file. A sequence is
  admitted when the instants the operations work with do not decrease in the order in which
  they obtain the lock, and the holds can be written.
\<close>

fun lease_step ::
    "(string \<Rightarrow> int option) \<Rightarrow> int \<times> lease_file \<Rightarrow> lease_env \<times> lease_op \<Rightarrow>
     unit + int \<times> lease_file" where
  "lease_step parse (t, file) (env, op) =
     (let env' = env\<lparr>le_parse := parse\<rparr>;
          u = (case op_instant env' op of None \<Rightarrow> t | Some u \<Rightarrow> u)
      in if u < t \<or> \<not> hold_writable env' then Inl ()
         else Inr (u, snd (lease_do env' op file)))"

definition lease_inv :: "(string \<Rightarrow> int option) \<Rightarrow> int \<times> lease_file \<Rightarrow> bool" where
  "lease_inv parse s \<longleftrightarrow> loadable parse (snd s) \<and> exclusive parse (fst s) (held (snd s))"

lemma lease_step_keeps:
  assumes "lease_inv parse s" "lease_step parse s ev = Inr s'"
  shows "lease_inv parse s'"
proof -
  obtain t "file" where s: "s = (t, file)" by (cases s)
  obtain env op where ev: "ev = (env, op)" by (cases ev)
  define env' where "env' = env\<lparr>le_parse := parse\<rparr>"
  obtain u where u: "t \<le> u" "hold_writable env'" "s' = (u, snd (lease_do env' op file))"
    and ui: "u = (case op_instant env' op of None \<Rightarrow> t | Some u \<Rightarrow> u)"
    using assms(2) by (auto simp: s ev env'_def Let_def split: if_splits)
  have "moves parse u file (snd s')"
    using lease_do_moves [where env = env' and t = u] u ui by (auto simp: env'_def split: option.splits)
  moreover have "exclusive parse u (held file)"
    using assms(1) u by (auto simp: lease_inv_def s intro: exclusive_later)
  ultimately show ?thesis
    using assms(1) u
    by (auto simp: lease_inv_def s moves_def loadable_def
        dest: move_keeps_exclusive move_keeps_valid split: lease_file.splits)
qed

interpretation leases: guarded_machine "lease_step parse" "lease_inv parse" "\<lambda>_. True" for parse
  by unfold_locales (auto intro: lease_step_keeps)

lemma lease_inv_start: "lease_inv parse (t, NoFile)"
  by (simp add: lease_inv_def loadable_def exclusive_def)

subsection \<open>Holds\<close>

text \<open>The operations that may remove the leases of an owner kind and identifier.\<close>

fun names_owner :: "string \<Rightarrow> string \<Rightarrow> lease_op \<Rightarrow> bool" where
  "names_owner kind oid (AcquireOp l now) \<longleftrightarrow> l_owner_kind l = kind \<and> l_owner_id l = oid"
| "names_owner kind oid (ReleaseOwnerOp k i) \<longleftrightarrow> k = kind \<and> i = oid"
| "names_owner kind oid (ReleaseOp ow) \<longleftrightarrow> o_kind ow = kind \<and> o_id ow = oid"
| "names_owner kind oid _ \<longleftrightarrow> False"

definition fenced :: "string \<Rightarrow> string \<Rightarrow> string \<Rightarrow> lease_file \<Rightarrow> bool" where
  "fenced kind oid session file \<longleftrightarrow>
     (\<exists>h \<in> set (held file). is_hold h \<and> l_resume_session h = session \<and>
        l_owner_kind h = kind \<and> l_owner_id h = oid)"

lemma fenced_update:
  assumes "\<exists>h \<in> set ls. is_hold h \<and> l_resume_session h = s \<and> l_owner_kind h = k \<and> l_owner_id h = i"
    and "is_hold (ls ! j) \<Longrightarrow> is_hold l \<and> l_resume_session l = l_resume_session (ls ! j) \<and>
      l_owner_kind l = l_owner_kind (ls ! j) \<and> l_owner_id l = l_owner_id (ls ! j)"
  shows "\<exists>h \<in> set (ls[j := l]). is_hold h \<and> l_resume_session h = s \<and> l_owner_kind h = k \<and>
    l_owner_id h = i"
proof -
  obtain m where m: "m < length ls" "is_hold (ls ! m)" "l_resume_session (ls ! m) = s"
      "l_owner_kind (ls ! m) = k" "l_owner_id (ls ! m) = i"
    using assms(1) by (metis in_set_conv_nth)
  then have "ls[j := l] ! m \<in> set (ls[j := l])" by simp
  moreover have "is_hold (ls[j := l] ! m) \<and> l_resume_session (ls[j := l] ! m) = s \<and>
      l_owner_kind (ls[j := l] ! m) = k \<and> l_owner_id (ls[j := l] ! m) = i"
    using assms(2) m by (cases "j = m") auto
  ultimately show ?thesis by blast
qed

lemma fenced_kept:
  assumes "fenced k i s file" "\<not> names_owner k i op"
  shows "fenced k i s (snd (lease_do env op file))"
proof (cases op)
  case (RenewOp ow hb e)
  with assms show ?thesis
    by (auto simp: fenced_def renew_lease_owner_persisted_def save_leases_def locked_load_iff
        is_hold_def split: option.splits sum.splits intro!: fenced_update [unfolded is_hold_def])
next
  case (RetargetOp ow a p s' hb e)
  with assms show ?thesis
    by (auto simp: fenced_def retarget_lifecycle_lease_persisted_def save_leases_def
        locked_load_iff is_hold_def split: option.splits sum.splits
        intro!: fenced_update [unfolded is_hold_def])
qed (use assms in \<open>auto simp: fenced_def lease_op_defs locked_load_iff add_or_replace_owner_def
    release_owner_def release_lease_owner_def matches_owner_def Let_def
    split: option.splits sum.splits prod.splits if_splits\<close>)

lemma fenced_run:
  "\<lbrakk>run_steps (lease_step parse) (t, file) es = Inr (t', file'); fenced k i s file;
    list_all (\<lambda>(env, op). \<not> names_owner k i op) es\<rbrakk> \<Longrightarrow> fenced k i s file'"
proof (induction es arbitrary: t "file")
  case Nil
  then show ?case by simp
next
  case (Cons ev es)
  then show ?case
    by (cases ev) (auto simp: res_bind_eq_Inr Let_def split: if_splits intro: fenced_kept)
qed


section \<open>Properties\<close>

text \<open>
  C28. Two writers never hold the same conversation. Start from a home without a lease file
  and let any processes perform any sequence of acquisitions, releases, renewals,
  retargets, holds and spawn checks, each seeing any clock, identifiers and failures of its
  own, as long as the instants they pass do not decrease in the order in which they obtain
  the lock. Then the file always loads again, and at the instant of the last operation or
  any later one, two stored leases that have not expired and are not holds are for
  different agents and do not share a (non-blank) resume session.
\<close>

theorem leases_exclusive:
  assumes "run_steps (lease_step parse) (t0, NoFile) es = Inr (t, stored)"
  shows "load_leases_checked (env\<lparr>le_parse := parse\<rparr>) stored = Inr (held stored) \<and>
    (\<forall>i j u. i < j \<and> j < length (held stored) \<and> t \<le> u \<and>
       driving parse u (held stored ! i) \<and> driving parse u (held stored ! j) \<longrightarrow>
       \<not> clash (held stored ! i) (held stored ! j))"
proof -
  have inv: "lease_inv parse (t, stored)"
    using leases.run_keeps [OF lease_inv_start assms] .
  then have "exclusive parse u (held stored)" if "t \<le> u" for u
    using that by (auto simp: lease_inv_def intro: exclusive_later)
  then show ?thesis
    using inv by (auto simp: lease_inv_def load_checked_iff exclusive_def sorted_wrt_iff_nth_less
        compatible_def)
qed

text \<open>Concrete leases: a timestamp is read as its length, so instants are easy to write.\<close>

definition tick :: "string \<Rightarrow> int option" where
  "tick s = Some (int (length s))"

definition calm_env :: lease_env where
  "calm_env = \<lparr>le_parse = tick, le_clock = 0, le_guard = None, le_save = None,
     le_uuids = (''u1'', ''u2'')\<rparr>"

definition some_lease :: "string \<Rightarrow> string \<Rightarrow> string \<Rightarrow> string \<Rightarrow> lease" where
  "some_lease agent session oid expires =
     \<lparr>l_agent_id = agent, l_provider = ''codex'', l_resume_session = session,
      l_owner_kind = ''agent_lifecycle'', l_owner_id = oid, l_acquisition_id = ''q'',
      l_owner_node_id = None, l_mode = ''lifecycle_transition'', l_started_at = ''x'',
      l_heartbeat_at = ''x'', l_expires_at = expires\<rparr>"

definition lease_a :: lease where
  "lease_a = some_lease ''a'' ''s1'' ''o1'' ''xxxxxxxx''"

definition lease_b :: lease where
  "lease_b = some_lease ''b'' ''s2'' ''o2'' ''xxxxxxxx''"

lemma step_a:
  "lease_step tick (0, NoFile) (calm_env, AcquireOp lease_a ''x'') = Inr (1, Leases 1 [lease_a])"
  by code_simp

lemma step_b:
  "lease_step tick (1, Leases 1 [lease_a]) (calm_env, AcquireOp lease_b ''xx'') =
     Inr (2, Leases 1 [lease_a, lease_b])"
  by code_simp

lemma run_a_b:
  "run_steps (lease_step tick) (0, NoFile)
     [(calm_env, AcquireOp lease_a ''x''), (calm_env, AcquireOp lease_b ''xx'')] =
     Inr (2, Leases 1 [lease_a, lease_b])"
  using step_a step_b by (simp del: lease_step.simps)

lemma both_drive: "driving tick 3 lease_a" "driving tick 3 lease_b"
  by code_simp+

theorem leases_exclusive_witness: "\<not> clash lease_a lease_b"
  using leases_exclusive [OF run_a_b, THEN conjunct2, rule_format, of 0 1 3] both_drive by simp

text \<open>
  C32. A hold fences its session for as long as it is stored. Once the file holds an uncertain
  previous provider on a session, then after any admitted sequence of operations in which
  nobody releases or replaces the hold's owner (renewals of it, retargets and further holds
  included), no acquisition for that session is granted and no lifecycle lease is retargeted
  to it, whatever the time, the clock and the parser of timestamps say: time alone never
  lifts a hold.
\<close>

theorem hold_fences_session:
  assumes "fenced kind oid session file0" "trim session \<noteq> []"
    and "run_steps (lease_step parse) (t0, file0) es = Inr (t, stored)"
    and "list_all (\<lambda>(env, op). \<not> names_owner kind oid op) es"
  shows "fenced kind oid session stored \<and>
    (\<forall>env l now. l_resume_session l = session \<longrightarrow>
       fst (try_acquire_lease env l now stored) \<noteq> Inr Acquired) \<and>
    (\<forall>env ow agent provider hb e.
       fst (retarget_lifecycle_lease_persisted env ow agent provider session hb e stored) \<noteq>
         Inr Retargeted)"
proof -
  have f: "fenced kind oid session stored" using fenced_run assms by blast
  then obtain h where h: "h \<in> set (held stored)" "is_hold h" "l_resume_session h = session"
    by (auto simp: fenced_def)
  then have c: "lease_conflicts p h a session u" for p a u
    using assms(2) by (simp add: lease_conflicts_def)
  have "fst (try_acquire_lease env l now stored) \<noteq> Inr Acquired"
    if "l_resume_session l = session" for env l now
    using h c that
    by (auto simp: try_acquire_lease_def save_leases_def find_active_conflict_def find_None_iff
        locked_load_iff split: option.splits sum.splits)
  moreover obtain j where j: "j < length (held stored)" "held stored ! j = h"
    using h(1) by (auto simp: in_set_conv_nth)
  then have "fst (retarget_lifecycle_lease_persisted env ow agent provider session hb e stored) \<noteq>
      Inr Retargeted" for env ow agent provider hb e
    using c h(2)
    by (auto simp: retarget_lifecycle_lease_persisted_def save_leases_def other_conflict_None
        locked_load_iff is_hold_def split: option.splits sum.splits)
  ultimately show ?thesis using f by blast
qed

definition hold_a :: lease where
  "hold_a = hold_lease calm_env ''a'' ''codex'' ''s1'' ''x''"

lemma step_hold_b:
  "run_steps (lease_step tick) (1, Leases 1 [hold_a]) [(calm_env, AcquireOp lease_b ''xx'')] =
     Inr (2, Leases 1 [hold_a, lease_b])"
  by code_simp

lemma hold_a_facts:
  "fenced ''prior_provider_hold'' ''u1'' ''s1'' (Leases 1 [hold_a])" "trim ''s1'' \<noteq> []"
  "list_all (\<lambda>(env, op). \<not> names_owner ''prior_provider_hold'' ''u1'' op)
     [(calm_env, AcquireOp lease_b ''xx'')]"
  "l_resume_session lease_a = ''s1''"
  by code_simp+

theorem hold_fences_session_witness:
  "fst (try_acquire_lease calm_env lease_a ''xxx'' (Leases 1 [hold_a, lease_b])) \<noteq> Inr Acquired"
  using hold_fences_session [OF hold_a_facts(1,2) step_hold_b hold_a_facts(3)] hold_a_facts(4)
  by blast

text \<open>Replacing an element outside a filter by another one outside it.\<close>

lemma filter_update:
  "\<lbrakk>i < length xs; \<not> p (xs ! i); \<not> p x\<rbrakk> \<Longrightarrow> filter p (xs[i := x]) = filter p xs"
  by (induction xs arbitrary: i) (auto split: nat.splits)

lemma matches_owner_update [simp]:
  "matches_owner ow (l_heartbeat_at_update f l) \<longleftrightarrow> matches_owner ow l"
  "matches_owner ow (l_expires_at_update f l) \<longleftrightarrow> matches_owner ow l"
  "matches_owner ow (l_resume_session_update f l) \<longleftrightarrow> matches_owner ow l"
  by (simp_all add: matches_owner_def)

text \<open>
  An operation that presents an acquisition touches nobody else: releasing, renewing or
  retargeting by an owner leaves every lease of another acquisition in place, unchanged and
  in order, also one that reuses the same owner kind and identifier under a newer
  acquisition. A renewal answers true only when a lease of exactly that acquisition was
  stored and had not expired at the heartbeat, so an expired lease is never revived.
\<close>

theorem stale_owner_harmless:
  "filter (\<lambda>l. \<not> matches_owner ow l) (held (snd (release_lease_owner_persisted env ow file))) =
     filter (\<lambda>l. \<not> matches_owner ow l) (held file) \<and>
   filter (\<lambda>l. \<not> matches_owner ow l) (held (snd (renew_lease_owner_persisted env ow hb e file))) =
     filter (\<lambda>l. \<not> matches_owner ow l) (held file) \<and>
   filter (\<lambda>l. \<not> matches_owner ow l)
     (held (snd (retarget_lifecycle_lease_persisted env ow a p s hb e file))) =
     filter (\<lambda>l. \<not> matches_owner ow l) (held file) \<and>
   (fst (renew_lease_owner_persisted env ow hb e file) = Inr True \<longrightarrow>
     (\<exists>l t. l \<in> set (held file) \<and> matches_owner ow l \<and> le_parse env hb = Some t \<and>
        ends_after (le_parse env) l t))"
proof (intro conjI impI)
  show "filter (\<lambda>l. \<not> matches_owner ow l) (held (snd (release_lease_owner_persisted env ow file))) =
      filter (\<lambda>l. \<not> matches_owner ow l) (held file)"
    by (auto simp: release_lease_owner_persisted_def release_lease_owner_def save_leases_def
        locked_load_iff split: option.splits sum.splits)
  show "filter (\<lambda>l. \<not> matches_owner ow l)
      (held (snd (renew_lease_owner_persisted env ow hb e file))) =
      filter (\<lambda>l. \<not> matches_owner ow l) (held file)"
    by (auto simp: renew_lease_owner_persisted_def save_leases_def locked_load_iff filter_update
        split: option.splits sum.splits dest!: position_Some)
  show "filter (\<lambda>l. \<not> matches_owner ow l)
      (held (snd (retarget_lifecycle_lease_persisted env ow a p s hb e file))) =
      filter (\<lambda>l. \<not> matches_owner ow l) (held file)"
    by (auto simp: retarget_lifecycle_lease_persisted_def save_leases_def locked_load_iff
        filter_update split: option.splits sum.splits dest!: position_Some)
  assume "fst (renew_lease_owner_persisted env ow hb e file) = Inr True"
  then show "\<exists>l t. l \<in> set (held file) \<and> matches_owner ow l \<and> le_parse env hb = Some t \<and>
      ends_after (le_parse env) l t"
    by (auto simp: renew_lease_owner_persisted_def save_leases_def locked_load_iff
        split: option.splits sum.splits if_splits dest!: position_Some intro!: bexI exI)
qed

lemma renew_a:
  "fst (renew_lease_owner_persisted calm_env (owner_of lease_a) ''xxx'' ''xxxxxxxxx''
     (Leases 1 [lease_a, lease_b])) = Inr True"
  by code_simp

theorem stale_owner_harmless_witness:
  "\<exists>l t. l \<in> {lease_a, lease_b} \<and> matches_owner (owner_of lease_a) l \<and> tick ''xxx'' = Some t \<and>
     ends_after tick l t"
  using stale_owner_harmless [of "owner_of lease_a" calm_env "Leases 1 [lease_a, lease_b]"
      "''xxx''" "''xxxxxxxxx''"] renew_a
  by (auto simp: calm_env_def)

text \<open>What stands in the way of an acquisition.\<close>

definition excludes :: "(string \<Rightarrow> int option) \<Rightarrow> int \<Rightarrow> lease \<Rightarrow> lease \<Rightarrow> bool" where
  "excludes parse t l m \<longleftrightarrow>
     (if is_hold m then trim (l_resume_session l) \<noteq> [] \<and> l_resume_session m = l_resume_session l
      else driving parse t m \<and> clash m l)"

text \<open>
  An acquisition is granted exactly when nothing excludes it. For a valid lease with an
  acquisition identifier, a file that loads, and no failure of the locks or of the write: it
  is granted if and only if no stored hold is on its session and no stored lease that has
  not expired at the given instant is of its agent or its session. When granted, the file
  holds the new lease last, after the stored leases of other owners in their order;
  otherwise the file is unchanged and the answer names the first stored lease that excludes it.
\<close>

theorem acquire_exact:
  assumes "trim (l_acquisition_id l) \<noteq> []" "valid_lease (le_parse env) l"
    and "le_guard env = None" "le_save env = None" "loadable (le_parse env) file"
  shows "case try_acquire_lease env l now file of
      (Inr Acquired, file') \<Rightarrow>
        list_all (\<lambda>m. \<not> excludes (le_parse env) (instant env now) l m) (held file) \<and>
        held file' = filter (\<lambda>m. l_owner_kind m \<noteq> l_owner_kind l \<or> l_owner_id m \<noteq> l_owner_id l)
          (held file) @ [l]
    | (Inr (Conflict c), file') \<Rightarrow>
        file' = file \<and> find (excludes (le_parse env) (instant env now) l) (held file) = Some c
    | (Inl e, file') \<Rightarrow> False"
proof -
  have "lease_conflicts (le_parse env) m (l_agent_id l) (l_resume_session l) (instant env now) =
      excludes (le_parse env) (instant env now) l m" for m
    by (auto simp: excludes_def lease_conflicts_def driving_def clash_def)
  moreover have "locked_load env file = Inr (held file)"
    using assms by (simp add: locked_load_iff)
  ultimately show ?thesis
    using assms(1-4)
    by (auto simp: try_acquire_lease_def save_leases_def find_active_conflict_def find_None_iff
        valid_lease_def add_or_replace_owner_def release_owner_def list_all_iff
        split: option.splits)
qed

lemma acquire_b_ready:
  "trim (l_acquisition_id lease_b) \<noteq> []" "valid_lease (le_parse calm_env) lease_b"
  "le_guard calm_env = None" "le_save calm_env = None"
  "loadable (le_parse calm_env) (Leases 1 [lease_a])"
  "fst (try_acquire_lease calm_env lease_b ''xx'' (Leases 1 [lease_a])) = Inr Acquired"
  by code_simp+

theorem acquire_exact_witness: "\<not> excludes tick 2 lease_b lease_a"
proof -
  have "instant calm_env ''xx'' = 2" by code_simp
  then show ?thesis
    using acquire_exact [OF acquire_b_ready(1-5), of "''xx''"] acquire_b_ready(6)
    by (auto simp: calm_env_def split: prod.splits)
qed

text \<open>
  Every operation fails closed: one that fails leaves the file as it was, and one that
  succeeds has loaded the file, so an unreadable or undecodable file, a foreign schema or a
  single invalid lease is never taken for an empty list, and never overwritten.
\<close>

theorem lease_operations_fail_closed:
  "case lease_do env op file of
     (Some e, file') \<Rightarrow> file' = file
   | (None, file') \<Rightarrow> load_leases_checked env file = Inr (held file)"
proof (cases "lease_do env op file")
  case (Pair err file')
  show ?thesis
  proof (cases err)
    case None
    with Pair have "load_leases_checked env file = Inr (held file)"
      by (cases op) (auto simp: lease_op_defs locked_load_iff load_checked_iff outcome_def Let_def
          split: option.splits sum.splits if_splits prod.splits)
    with Pair None show ?thesis by simp
  next
    case (Some e)
    with Pair show ?thesis using failed_op_keeps_file by simp
  qed
qed

end
