(* ===== verification/Workers.thy ===== *)
theory Workers
  imports Prelude "HOL-Library.Option_ord"
begin

text \<open>
  The registry of temporary workers (\<open>crates/wardian-core/src/temporary_workers.rs\<close>): one
  SQL table of automation attempts and of children spawned by providers. The table is the
  list of its rows in the order of insertion, which is the order a scan visits; a
  statement is a function on that list, with the three-valued comparisons written out and
  its constraints checked on the result. Instants are integers (nanoseconds); the parser
  and the printer of RFC 3339 timestamps, the clock, the generator of identifiers and the
  failures of the database are the environment.
\<close>

section \<open>Records\<close>

datatype worker_kind = AutomationWorker | ProviderChild

fun kind_str :: "worker_kind \<Rightarrow> string" where
  "kind_str AutomationWorker = ''automation''"
| "kind_str ProviderChild = ''provider_child''"

definition parse_kind :: "string \<Rightarrow> string + worker_kind" where
  "parse_kind v =
     (if v = ''automation'' then Inr AutomationWorker
      else if v = ''provider_child'' then Inr ProviderChild
      else Inl (''unknown temporary worker kind: '' @ v))"

datatype worker_state =
  WRequested | WRunning | WWaiting | WSucceeded | WFailed | WCancelled | WUnknown

fun is_terminal :: "worker_state \<Rightarrow> bool" where
  "is_terminal WSucceeded = True"
| "is_terminal WFailed = True"
| "is_terminal WCancelled = True"
| "is_terminal _ = False"

fun state_str :: "worker_state \<Rightarrow> string" where
  "state_str WRequested = ''requested''"
| "state_str WRunning = ''running''"
| "state_str WWaiting = ''waiting''"
| "state_str WSucceeded = ''succeeded''"
| "state_str WFailed = ''failed''"
| "state_str WCancelled = ''cancelled''"
| "state_str WUnknown = ''unknown''"

definition parse_state :: "string \<Rightarrow> string + worker_state" where
  "parse_state v =
     (if v = ''requested'' then Inr WRequested
      else if v = ''running'' then Inr WRunning
      else if v = ''waiting'' then Inr WWaiting
      else if v = ''succeeded'' then Inr WSucceeded
      else if v = ''failed'' then Inr WFailed
      else if v = ''cancelled'' then Inr WCancelled
      else if v = ''unknown'' then Inr WUnknown
      else Inl (''unknown temporary worker state: '' @ v))"

record worker_origin =
  or_blueprint_id :: string
  or_run_id :: string
  or_node_id :: string

record native_caps =
  nc_provider :: string
  nc_transport :: string
  nc_protocol_version :: string
  nc_persistent_session :: bool
  nc_positive_turn_start :: bool
  nc_late_reconciliation :: bool
  nc_cancellation :: bool
  nc_invalidate_premise :: bool
  nc_approval_requests :: bool
  nc_max_payload_bytes :: "nat option"
  nc_execution_timeout_ms :: "nat option"

record worker_caps =
  wc_inspection :: bool
  wc_follow_up :: bool
  wc_interruption :: bool
  wc_resume :: bool
  wc_source :: string
  wc_native :: "native_caps option"

definition observe_only :: "string \<Rightarrow> worker_caps" where
  "observe_only reason =
     \<lparr>wc_inspection = True, wc_follow_up = False, wc_interruption = False, wc_resume = False,
      wc_source = reason, wc_native = None\<rparr>"

record worker =
  w_id :: string
  w_kind :: worker_kind
  w_provider :: string
  w_workspace :: string
  w_root_agent_id :: "string option"
  w_parent_worker_id :: "string option"
  w_parent_session :: "string option"
  w_blueprint_id :: "string option"
  w_run_id :: "string option"
  w_node_id :: "string option"
  w_attempt :: "nat option"
  w_runtime_session_id :: string
  w_session :: "string option"
  w_generation :: "nat option"
  w_owner :: "string option"
  w_state :: worker_state
  w_outcome :: "string option"
  w_caps :: worker_caps
  w_coverage :: string
  w_source_key :: "string option"
  w_source_path :: "string option"
  w_requested_at :: string
  w_started_at :: "string option"
  w_terminal_at :: "string option"
  w_last_observed_at :: string
  w_follow_up_at :: "string option"
  w_resumable_until :: "string option"
  w_retained_until :: "string option"
  w_error :: "string option"

record automation_registration =
  ar_provider :: string
  ar_workspace :: string
  ar_runtime_session_id :: string
  ar_origin :: worker_origin

record child_registration =
  cr_provider :: string
  cr_workspace :: string
  cr_root_agent_id :: "string option"
  cr_parent_worker_id :: "string option"
  cr_parent_session :: string
  cr_runtime_session_id :: string
  cr_session :: string
  cr_origin :: "worker_origin option"
  cr_state :: worker_state
  cr_outcome :: "string option"
  cr_source_path :: string
  cr_coverage :: string
  cr_requested_at :: "string option"
  cr_terminal_at :: "string option"

datatype qualification = Qualified | PendingOrUnqualified

record codex_observation =
  co_registration :: child_registration
  co_qualification :: qualification
  co_turn_started_at :: "string option"

section \<open>The environment\<close>

record worker_env =
  we_parse :: "string \<Rightarrow> int option"
  we_show :: "int \<Rightarrow> string"
  we_now :: int
  we_uuid :: string
  we_owner :: string
  we_foreign_keys :: bool
  we_db :: "string option"
  we_exec :: "string option"
  we_last :: "string option"

definition resume_eligibility_days :: int where
  "resume_eligibility_days = 7"

definition detail_retention_days :: int where
  "detail_retention_days = 30"

definition days :: "int \<Rightarrow> int" where
  "days n = n * 86400 * 1000000000"

definition now_str :: "worker_env \<Rightarrow> string" where
  "now_str env = we_show env (we_now env)"

definition retention_dates ::
    "worker_env \<Rightarrow> worker_state \<Rightarrow> string \<Rightarrow> string option \<times> string option \<times> string option" where
  "retention_dates env st observed_at =
     (if \<not> is_terminal st then (None, None, None)
      else let observed = (case we_parse env observed_at of None \<Rightarrow> we_now env | Some t \<Rightarrow> t)
           in (Some (we_show env observed),
               Some (we_show env (observed + days resume_eligibility_days)),
               Some (we_show env (observed + days detail_retention_days))))"

definition source_key :: "string \<Rightarrow> string \<Rightarrow> string \<Rightarrow> string" where
  "source_key provider session_id path =
     (if provider = ''codex'' \<or> provider = ''claude'' then provider @ ''|'' @ path
      else provider @ ''|'' @ session_id @ ''|'' @ path)"

section \<open>The table\<close>

text \<open>Comparisons with NULL are not true; \<open>COALESCE\<close> takes the first value that is not NULL.\<close>

definition sql_eq :: "'a option \<Rightarrow> 'a option \<Rightarrow> bool" where
  "sql_eq a b \<longleftrightarrow> a \<noteq> None \<and> a = b"

definition sql_after :: "string option \<Rightarrow> string \<Rightarrow> bool" where
  "sql_after a t = (case a of None \<Rightarrow> False | Some s \<Rightarrow> t < s)"

definition coalesce :: "'a option \<Rightarrow> 'a option \<Rightarrow> 'a option" where
  "coalesce a b = (case a of None \<Rightarrow> b | Some v \<Rightarrow> Some v)"

definition automation_key :: "worker \<Rightarrow> (string \<times> string \<times> string \<times> nat) option" where
  "automation_key r =
     (if w_kind r \<noteq> AutomationWorker then None
      else case (w_blueprint_id r, w_run_id r, w_node_id r, w_attempt r) of
        (Some b, Some u, Some n, Some a) \<Rightarrow> Some (b, u, n, a)
      | _ \<Rightarrow> None)"

definition child_key :: "worker \<Rightarrow> (string \<times> string) option" where
  "child_key r =
     (if w_kind r \<noteq> ProviderChild then None else map_option (Pair (w_provider r)) (w_session r))"

definition unique_index :: "('a \<Rightarrow> 'k option) \<Rightarrow> 'a list \<Rightarrow> bool" where
  "unique_index key rows = distinct (List.map_filter key rows)"

text \<open>The primary key and the two unique indexes.\<close>

definition table_constraints :: "worker list \<Rightarrow> bool" where
  "table_constraints rows \<longleftrightarrow>
     distinct (map w_id rows) \<and> unique_index automation_key rows \<and> unique_index child_key rows"

text \<open>The foreign key: a parent that the statement writes is the identifier of a row.\<close>

definition foreign_key_ok :: "worker list \<Rightarrow> worker list \<Rightarrow> bool" where
  "foreign_key_ok rows rows' \<longleftrightarrow>
     list_all (\<lambda>(k, r).
       w_parent_worker_id r = None
       \<or> k < length rows \<and> w_parent_worker_id (rows ! k) = w_parent_worker_id r
       \<or> w_parent_worker_id r \<in> set (map (Some \<circ> w_id) rows'))
       (List.enumerate 0 rows')"

definition sql_commit :: "worker_env \<Rightarrow> worker list \<Rightarrow> 'r \<Rightarrow> worker list \<Rightarrow> (string + 'r) \<times> worker list" where
  "sql_commit env rows' result rows =
     (case we_exec env of
        Some e \<Rightarrow> (Inl e, rows)
      | None \<Rightarrow>
          if table_constraints rows' \<and> (we_foreign_keys env \<longrightarrow> foreign_key_ok rows rows')
          then (Inr result, rows')
          else (Inl ''constraint failed'', rows))"

definition sql_update ::
    "worker_env \<Rightarrow> (worker \<Rightarrow> bool) \<Rightarrow> (worker \<Rightarrow> worker) \<Rightarrow> worker list \<Rightarrow> (string + nat) \<times> worker list" where
  "sql_update env p f rows =
     sql_commit env (map (\<lambda>r. if p r then f r else r) rows) (length (filter p rows)) rows"

definition insert_record :: "worker_env \<Rightarrow> worker \<Rightarrow> worker list \<Rightarrow> (string + unit) \<times> worker list" where
  "insert_record env r rows = sql_commit env (rows @ [r]) () rows"

definition find_by_provider_session :: "string \<Rightarrow> string \<Rightarrow> worker list \<Rightarrow> worker option" where
  "find_by_provider_session provider session rows =
     find (\<lambda>r. w_provider r = provider \<and> w_session r = Some session) rows"

definition load_worker :: "string \<Rightarrow> worker list \<Rightarrow> worker option" where
  "load_worker wid rows = find (\<lambda>r. w_id r = wid) rows"

text \<open>\<open>get_db_conn\<close> and a single statement whose count of changed rows is compared with one.\<close>

definition changed_one ::
    "worker_env \<Rightarrow> (worker \<Rightarrow> bool) \<Rightarrow> (worker \<Rightarrow> worker) \<Rightarrow> worker list \<Rightarrow> (string + bool) \<times> worker list" where
  "changed_one env p f rows =
     (case we_db env of
        Some e \<Rightarrow> (Inl e, rows)
      | None \<Rightarrow>
          (case sql_update env p f rows of
             (Inl e, rows') \<Rightarrow> (Inl e, rows')
           | (Inr n, rows') \<Rightarrow> (Inr (n = 1), rows')))"

section \<open>Automation workers\<close>

definition next_attempt :: "worker_origin \<Rightarrow> worker list \<Rightarrow> nat" where
  "next_attempt origin rows =
     fold max (List.map_filter w_attempt (filter (\<lambda>r. w_kind r = AutomationWorker \<and>
        w_blueprint_id r = Some (or_blueprint_id origin) \<and>
        w_run_id r = Some (or_run_id origin) \<and>
        w_node_id r = Some (or_node_id origin)) rows)) 0 + 1"

definition automation_record :: "worker_env \<Rightarrow> automation_registration \<Rightarrow> nat \<Rightarrow> worker" where
  "automation_record env i attempt =
     \<lparr>w_id = we_uuid env, w_kind = AutomationWorker, w_provider = ar_provider i,
      w_workspace = ar_workspace i, w_root_agent_id = None, w_parent_worker_id = None,
      w_parent_session = None, w_blueprint_id = Some (or_blueprint_id (ar_origin i)),
      w_run_id = Some (or_run_id (ar_origin i)), w_node_id = Some (or_node_id (ar_origin i)),
      w_attempt = Some attempt, w_runtime_session_id = ar_runtime_session_id i,
      w_session = None, w_generation = Some attempt, w_owner = Some (we_owner env),
      w_state = WRequested, w_outcome = None,
      w_caps = observe_only ''headless provider capability is not generation-bound'',
      w_coverage = ''pending'', w_source_key = None, w_source_path = None,
      w_requested_at = now_str env, w_started_at = None, w_terminal_at = None,
      w_last_observed_at = now_str env, w_follow_up_at = None, w_resumable_until = None,
      w_retained_until = None, w_error = None\<rparr>"

text \<open>A count that does not fit 32 bits is a conversion error; the transaction rolls back.\<close>

definition register_automation_worker ::
    "worker_env \<Rightarrow> automation_registration \<Rightarrow> worker list \<Rightarrow> (string + worker) \<times> worker list" where
  "register_automation_worker env i rows =
     (case we_db env of
        Some e \<Rightarrow> (Inl e, rows)
      | None \<Rightarrow>
          let attempt = next_attempt (ar_origin i) rows; r = automation_record env i attempt
          in if attempt \<ge> 2 ^ 32 then (Inl ''integer out of range'', rows)
             else (case insert_record env r rows of
               (Inl e, _) \<Rightarrow> (Inl e, rows)
             | (Inr _, rows') \<Rightarrow>
                 (case we_last env of Some e \<Rightarrow> (Inl e, rows) | None \<Rightarrow> (Inr r, rows'))))"

text \<open>The rows a worker's owner may still change: its own, of its generation.\<close>

definition owned_row :: "worker \<Rightarrow> worker \<Rightarrow> bool" where
  "owned_row w r \<longleftrightarrow>
     w_id r = w_id w \<and> sql_eq (w_owner r) (w_owner w) \<and> sql_eq (w_generation r) (w_generation w)"

definition mark_running :: "worker_env \<Rightarrow> worker \<Rightarrow> worker list \<Rightarrow> (string + bool) \<times> worker list" where
  "mark_running env w rows =
     changed_one env (\<lambda>r. owned_row w r \<and> w_state r = WRequested)
       (\<lambda>r. r\<lparr>w_state := WRunning, w_started_at := coalesce (w_started_at r) (Some (now_str env)),
              w_last_observed_at := now_str env\<rparr>) rows"

definition mark_unknown ::
    "worker_env \<Rightarrow> worker \<Rightarrow> string \<Rightarrow> string option \<Rightarrow> worker list \<Rightarrow> (string + bool) \<times> worker list" where
  "mark_unknown env w coverage error rows =
     changed_one env (\<lambda>r. owned_row w r \<and> (w_state r = WRequested \<or> w_state r = WRunning))
       (\<lambda>r. r\<lparr>w_state := WUnknown, w_coverage := coverage, w_error := coalesce error (w_error r),
              w_last_observed_at := now_str env\<rparr>) rows"

definition mark_terminal ::
    "worker_env \<Rightarrow> worker \<Rightarrow> worker_state \<Rightarrow> string option \<Rightarrow> string option \<Rightarrow> string option \<Rightarrow>
     string \<Rightarrow> string option \<Rightarrow> worker list \<Rightarrow> (string + bool) \<times> worker list" where
  "mark_terminal env w st outcome session source_path coverage error rows =
     (if \<not> is_terminal st
      then (Inl ''temporary worker terminal update requires a terminal state'', rows)
      else let key = map_option (source_key (w_provider w) (w_id w)) source_path
           in changed_one env (\<lambda>r. owned_row w r \<and> (w_state r = WRequested \<or> w_state r = WRunning))
                (\<lambda>r. r\<lparr>w_state := st, w_outcome := outcome,
                       w_session := coalesce session (w_session r),
                       w_source_key := coalesce key (w_source_key r),
                       w_source_path := coalesce source_path (w_source_path r),
                       w_terminal_at := Some (now_str env), w_last_observed_at := now_str env,
                       w_resumable_until :=
                         Some (we_show env (we_now env + days resume_eligibility_days)),
                       w_retained_until :=
                         Some (we_show env (we_now env + days detail_retention_days)),
                       w_coverage := coverage, w_error := error\<rparr>) rows)"

definition record_follow_up_accepted ::
    "worker_env \<Rightarrow> string \<Rightarrow> worker list \<Rightarrow> (string + unit) \<times> worker list" where
  "record_follow_up_accepted env wid rows =
     (case we_db env of
        Some e \<Rightarrow> (Inl e, rows)
      | None \<Rightarrow>
          (case sql_update env (\<lambda>r. w_id r = wid)
             (\<lambda>r. r\<lparr>w_follow_up_at := Some (now_str env), w_last_observed_at := now_str env,
                    w_resumable_until :=
                      Some (we_show env (we_now env + days resume_eligibility_days)),
                    w_retained_until :=
                      Some (we_show env (we_now env + days detail_retention_days))\<rparr>) rows of
             (Inl e, rows') \<Rightarrow> (Inl e, rows')
           | (Inr n, rows') \<Rightarrow>
               if n = 0 then (Inl (''temporary worker not found: '' @ wid), rows')
               else (Inr (), rows')))"


section \<open>Provider children\<close>

datatype automation_observation_error = ObsoleteRoot | ObservationStorage string

text \<open>Whether the observation may clear terminal evidence, or why it is refused.\<close>

definition validate_codex_observation :: "codex_observation \<Rightarrow> string + bool" where
  "validate_codex_observation o' =
     (let r = co_registration o' in
      if cr_provider r \<noteq> ''codex''
      then Inl ''Codex lifecycle observations require provider=codex''
      else if co_qualification o' = PendingOrUnqualified \<and>
              (cr_state r \<noteq> WUnknown \<or> cr_outcome r \<noteq> None \<or> cr_terminal_at r \<noteq> None \<or>
               co_turn_started_at o' \<noteq> None)
      then Inl ''pending Codex observations must publish Unknown without terminal fields''
      else if co_qualification o' = Qualified \<and> cr_state r \<noteq> WRunning \<and> \<not> is_terminal (cr_state r)
      then Inl ''qualified Codex observations require Running or a terminal state''
      else Inr (co_qualification o' = PendingOrUnqualified))"

definition valid_provider_timestamp :: "worker_env \<Rightarrow> string option \<Rightarrow> string option" where
  "valid_provider_timestamp env v =
     (case v of None \<Rightarrow> None | Some s \<Rightarrow> if we_parse env s \<noteq> None then Some s else None)"

definition terminal_observation_is_newer ::
    "worker_env \<Rightarrow> string option \<Rightarrow> string option \<Rightarrow> bool \<Rightarrow> bool" where
  "terminal_observation_is_newer env incoming existing existing_is_terminal =
     (case (Option.bind incoming (we_parse env), Option.bind existing (we_parse env)) of
        (Some i, Some e) \<Rightarrow> e < i
      | (Some _, None) \<Rightarrow> True
      | (None, Some _) \<Rightarrow> False
      | (None, None) \<Rightarrow> \<not> existing_is_terminal)"

definition row_origin :: "worker \<Rightarrow> (string \<times> string \<times> string) option" where
  "row_origin r =
     (case (w_blueprint_id r, w_run_id r, w_node_id r) of
        (Some b, Some u, Some n) \<Rightarrow> Some (b, u, n) | _ \<Rightarrow> None)"

definition ownership_conflict :: "worker \<Rightarrow> child_registration \<Rightarrow> bool" where
  "ownership_conflict existing i \<longleftrightarrow>
     w_root_agent_id existing \<noteq> cr_root_agent_id i
     \<or> w_parent_session existing \<noteq> Some (cr_parent_session i)
     \<or> row_origin existing \<noteq>
         map_option (\<lambda>r. (or_blueprint_id r, or_run_id r, or_node_id r)) (cr_origin i)
     \<or> (case (w_parent_worker_id existing, cr_parent_worker_id i) of
          (Some parent, Some expected) \<Rightarrow> parent \<noteq> expected | _ \<Rightarrow> False)"

text \<open>The update of a row when provider timestamps are not required.\<close>

definition legacy_child_update :: "worker_env \<Rightarrow> child_registration \<Rightarrow> worker \<Rightarrow> worker" where
  "legacy_child_update env i r =
     (let observed = now_str env;
          baseline = (case valid_provider_timestamp env (cr_terminal_at i) of
                        None \<Rightarrow> observed | Some t \<Rightarrow> t);
          (terminal_at, resumable, retained) = retention_dates env (cr_state i) baseline
      in r\<lparr>w_state := (if cr_state i = WUnknown \<and> is_terminal (w_state r) then w_state r
                      else cr_state i),
           w_outcome := coalesce (cr_outcome i) (w_outcome r),
           w_parent_worker_id := coalesce (cr_parent_worker_id i) (w_parent_worker_id r),
           w_source_path := Some (cr_source_path i),
           w_source_key := Some (source_key (cr_provider i) (w_id r) (cr_source_path i)),
           w_coverage := cr_coverage i, w_last_observed_at := observed,
           w_terminal_at := coalesce (w_terminal_at r) terminal_at,
           w_resumable_until := coalesce (w_resumable_until r) resumable,
           w_retained_until := coalesce (w_retained_until r) retained\<rparr>)"

text \<open>The update of an existing child from evidence that carries the provider's time.\<close>

definition evidence_update ::
    "worker_env \<Rightarrow> child_registration \<Rightarrow> string option \<Rightarrow> bool \<Rightarrow> worker \<Rightarrow> worker \<Rightarrow> worker" where
  "evidence_update env i turn_started allow_pending_clear existing r =
     (let observed = now_str env;
          incoming = valid_provider_timestamp env (cr_terminal_at i);
          replaces = (is_terminal (cr_state i) \<and>
            terminal_observation_is_newer env incoming (w_terminal_at existing)
              (is_terminal (w_state existing)));
          clears = (cr_state i = WRunning \<or> allow_pending_clear);
          preserve = (is_terminal (w_state existing) \<and> \<not> clears \<and>
            (cr_state i = WUnknown \<or> is_terminal (cr_state i) \<and> \<not> replaces));
          st = (if preserve then w_state existing else cr_state i);
          outcome =
            (if clears then None
             else if preserve then w_outcome existing
             else if is_terminal (cr_state i) then cr_outcome i
             else coalesce (cr_outcome i) (w_outcome existing));
          (terminal_at, resumable, retained) =
            (if clears then (None, None, None)
             else if replaces then
               (let baseline = (case incoming of None \<Rightarrow> observed | Some t \<Rightarrow> t)
                in (incoming, snd (retention_dates env (cr_state i) baseline)))
             else if preserve then
               (w_terminal_at existing, w_resumable_until existing, w_retained_until existing)
             else (None, None, None));
          started =
            (if clears \<or> replaces
             then coalesce (valid_provider_timestamp env turn_started) (w_started_at existing)
             else w_started_at existing)
      in r\<lparr>w_state := st, w_outcome := outcome,
           w_parent_worker_id := coalesce (cr_parent_worker_id i) (w_parent_worker_id r),
           w_source_path := Some (cr_source_path i),
           w_source_key := Some (source_key (cr_provider i) (w_id existing) (cr_source_path i)),
           w_coverage := cr_coverage i, w_last_observed_at := observed, w_started_at := started,
           w_terminal_at := terminal_at, w_resumable_until := resumable,
           w_retained_until := retained\<rparr>)"

definition child_record ::
    "worker_env \<Rightarrow> child_registration \<Rightarrow> string option \<Rightarrow> bool \<Rightarrow> worker" where
  "child_record env i turn_started provider_timestamp_only =
     (let observed = now_str env;
          requested = (case valid_provider_timestamp env (cr_requested_at i) of
                         None \<Rightarrow> observed | Some t \<Rightarrow> t);
          incoming = valid_provider_timestamp env (cr_terminal_at i);
          baseline = (case incoming of None \<Rightarrow> observed | Some t \<Rightarrow> t);
          (legacy_terminal, resumable, retained) = retention_dates env (cr_state i) baseline
      in \<lparr>w_id = we_uuid env, w_kind = ProviderChild, w_provider = cr_provider i,
          w_workspace = cr_workspace i, w_root_agent_id = cr_root_agent_id i,
          w_parent_worker_id = cr_parent_worker_id i,
          w_parent_session = Some (cr_parent_session i),
          w_blueprint_id = map_option or_blueprint_id (cr_origin i),
          w_run_id = map_option or_run_id (cr_origin i),
          w_node_id = map_option or_node_id (cr_origin i),
          w_attempt = None, w_runtime_session_id = cr_runtime_session_id i,
          w_session = Some (cr_session i), w_generation = None, w_owner = None,
          w_state = cr_state i, w_outcome = cr_outcome i,
          w_caps = observe_only ''codex child adapter is observe-only'',
          w_coverage = cr_coverage i,
          w_source_key = Some (source_key (cr_provider i) (we_uuid env) (cr_source_path i)),
          w_source_path = Some (cr_source_path i), w_requested_at = requested,
          w_started_at = coalesce (valid_provider_timestamp env turn_started) (Some requested),
          w_terminal_at = (if provider_timestamp_only then incoming else legacy_terminal),
          w_last_observed_at = observed, w_follow_up_at = None, w_resumable_until = resumable,
          w_retained_until = retained, w_error = None\<rparr>)"

definition register_provider_child ::
    "worker_env \<Rightarrow> child_registration \<Rightarrow> string option \<Rightarrow> bool \<Rightarrow> bool \<Rightarrow> worker list \<Rightarrow>
     (string + worker) \<times> worker list" where
  "register_provider_child env i turn_started allow_pending_clear provider_timestamp_only rows =
     (case we_db env of
        Some e \<Rightarrow> (Inl e, rows)
      | None \<Rightarrow>
          (case find_by_provider_session (cr_provider i) (cr_session i) rows of
             Some existing \<Rightarrow>
               if ownership_conflict existing i
               then (Inl (''conflicting verified ownership for '' @ cr_provider i @ '' session '' @
                 cr_session i), rows)
               else (case sql_update env (\<lambda>r. w_id r = w_id existing)
                       (if provider_timestamp_only
                        then evidence_update env i turn_started allow_pending_clear existing
                        else legacy_child_update env i) rows of
                 (Inl e, rows') \<Rightarrow> (Inl e, rows')
               | (Inr _, rows') \<Rightarrow>
                   (case we_last env of
                      Some e \<Rightarrow> (Inl e, rows')
                    | None \<Rightarrow>
                        (case load_worker (w_id existing) rows' of
                           None \<Rightarrow> (Inl ''updated worker disappeared'', rows')
                         | Some r \<Rightarrow> (Inr r, rows'))))
           | None \<Rightarrow>
               let r = child_record env i turn_started provider_timestamp_only
               in (case insert_record env r rows of
                     (Inl e, rows') \<Rightarrow> (Inl e, rows')
                   | (Inr _, rows') \<Rightarrow> (Inr r, rows'))))"

definition observe_codex_provider_child ::
    "worker_env \<Rightarrow> codex_observation \<Rightarrow> worker list \<Rightarrow> (string + worker) \<times> worker list" where
  "observe_codex_provider_child env o' rows =
     (case validate_codex_observation o' of
        Inl e \<Rightarrow> (Inl e, rows)
      | Inr allow \<Rightarrow>
          register_provider_child env (co_registration o') (co_turn_started_at o') allow True rows)"

definition root_is_current :: "worker \<Rightarrow> worker \<Rightarrow> child_registration \<Rightarrow> bool" where
  "root_is_current current expected i \<longleftrightarrow>
     w_kind expected = AutomationWorker \<and> w_provider expected = ''codex'' \<and>
     w_kind current = w_kind expected \<and> w_provider current = w_provider expected \<and>
     w_runtime_session_id current = w_runtime_session_id expected \<and>
     w_generation current = w_generation expected \<and> w_owner current = w_owner expected \<and>
     w_attempt current = w_attempt expected \<and> w_blueprint_id current = w_blueprint_id expected \<and>
     w_run_id current = w_run_id expected \<and> w_node_id current = w_node_id expected \<and>
     w_workspace current = w_workspace expected \<and> w_session current = w_session expected \<and>
     w_state current = w_state expected \<and> w_root_agent_id current = w_root_agent_id expected \<and>
     w_parent_worker_id current = w_parent_worker_id expected \<and>
     w_parent_session current = w_parent_session expected \<and>
     (case w_session expected of None \<Rightarrow> False | Some s \<Rightarrow> trim s \<noteq> []) \<and>
     cr_runtime_session_id i = w_runtime_session_id expected \<and>
     cr_workspace i = w_workspace expected \<and> cr_root_agent_id i = w_root_agent_id expected \<and>
     map_option or_blueprint_id (cr_origin i) = w_blueprint_id expected \<and>
     map_option or_run_id (cr_origin i) = w_run_id expected \<and>
     map_option or_node_id (cr_origin i) = w_node_id expected"

text \<open>
  The check of the captured root and the publication of its child in one transaction, with
  \<open>commit\<close> the failure of its end; whatever fails rolls the table back.
\<close>

definition observe_codex_provider_child_for_automation ::
    "worker_env \<Rightarrow> string option \<Rightarrow> codex_observation \<Rightarrow> worker \<Rightarrow> worker list \<Rightarrow>
     (automation_observation_error + worker) \<times> worker list" where
  "observe_codex_provider_child_for_automation env commit o' expected rows =
     (case we_db env of
        Some e \<Rightarrow> (Inl (ObservationStorage e), rows)
      | None \<Rightarrow>
          (case load_worker (w_id expected) rows of
             None \<Rightarrow> (Inl ObsoleteRoot, rows)
           | Some current \<Rightarrow>
               if \<not> root_is_current current expected (co_registration o')
               then (Inl ObsoleteRoot, rows)
               else (case observe_codex_provider_child env o' rows of
                 (Inl e, _) \<Rightarrow> (Inl (ObservationStorage e), rows)
               | (Inr r, rows') \<Rightarrow>
                   (case commit of
                      Some e \<Rightarrow> (Inl (ObservationStorage e), rows)
                    | None \<Rightarrow> (Inr r, rows')))))"

section \<open>Maintenance\<close>

definition reconcile_stale_automation_owners ::
    "worker_env \<Rightarrow> worker list \<Rightarrow> (string + nat) \<times> worker list" where
  "reconcile_stale_automation_owners env rows =
     (case we_db env of
        Some e \<Rightarrow> (Inl e, rows)
      | None \<Rightarrow>
          sql_update env
            (\<lambda>r. w_kind r = AutomationWorker \<and> (w_state r = WRequested \<or> w_state r = WRunning) \<and>
                 w_owner r \<noteq> None \<and> w_owner r \<noteq> Some (we_owner env))
            (\<lambda>r. r\<lparr>w_state := WUnknown, w_last_observed_at := now_str env,
                   w_coverage := ''runtime_owner_lost''\<rparr>) rows)"

definition detail_expired :: "string \<Rightarrow> worker \<Rightarrow> bool" where
  "detail_expired observed_at r \<longleftrightarrow>
     is_terminal (w_state r) \<and>
     (case w_retained_until r of None \<Rightarrow> False | Some t \<Rightarrow> t \<le> observed_at) \<and>
     (w_source_path r \<noteq> None \<or> w_outcome r \<noteq> None \<or> w_error r \<noteq> None)"

definition apply_detail_retention :: "worker_env \<Rightarrow> worker list \<Rightarrow> (string + nat) \<times> worker list" where
  "apply_detail_retention env rows =
     (case we_db env of
        Some e \<Rightarrow> (Inl e, rows)
      | None \<Rightarrow>
          sql_update env (detail_expired (now_str env))
            (\<lambda>r. r\<lparr>w_outcome := None, w_error := None, w_source_key := None, w_source_path := None,
                   w_coverage := ''detail_retention_expired''\<rparr>) rows)"

section \<open>Queries\<close>

definition kind_rank :: "worker_kind \<Rightarrow> nat" where
  "kind_rank k = (case k of AutomationWorker \<Rightarrow> 0 | ProviderChild \<Rightarrow> 1)"

text \<open>\<open>ORDER BY\<close> puts NULL first; rows that compare equal keep the order of the scan.\<close>

definition list_for_run :: "string \<Rightarrow> string \<Rightarrow> worker list \<Rightarrow> worker list" where
  "list_for_run blueprint run rows =
     sort_key (\<lambda>r. (w_node_id r, kind_rank (w_kind r), w_attempt r, w_requested_at r))
       (filter (\<lambda>r. w_blueprint_id r = Some blueprint \<and> w_run_id r = Some run) rows)"

definition detail_live :: "string \<Rightarrow> worker \<Rightarrow> bool" where
  "detail_live observed_at r \<longleftrightarrow>
     w_state r \<in> {WRequested, WRunning, WWaiting, WUnknown} \<or> sql_after (w_retained_until r) observed_at"

definition list_for_root :: "string \<Rightarrow> string \<Rightarrow> worker list \<Rightarrow> worker list" where
  "list_for_root observed_at root rows =
     sort_key (\<lambda>r. (w_requested_at r, w_id r))
       (filter (\<lambda>r. w_root_agent_id r = Some root \<and> detail_live observed_at r) rows)"

definition needs_attention :: "string \<Rightarrow> worker \<Rightarrow> bool" where
  "needs_attention observed_at r \<longleftrightarrow>
     w_state r \<in> {WWaiting, WUnknown} \<or>
     w_state r = WFailed \<and> sql_after (w_retained_until r) observed_at"

definition run_key :: "worker \<Rightarrow> (string \<times> string) option" where
  "run_key r = (case (w_blueprint_id r, w_run_id r) of (Some b, Some u) \<Rightarrow> Some (b, u) | _ \<Rightarrow> None)"

definition attention_counts_by_run :: "string \<Rightarrow> worker list \<Rightarrow> ((string \<times> string) \<times> nat) list" where
  "attention_counts_by_run observed_at rows =
     (let hits = filter (\<lambda>r. run_key r \<noteq> None \<and> needs_attention observed_at r) rows
      in map (\<lambda>k. (k, length (filter (\<lambda>r. run_key r = Some k) hits)))
           (remdups (List.map_filter run_key hits)))"

record root_summary =
  sm_root_agent_id :: string
  sm_active :: nat
  sm_past :: nat
  sm_unknown :: nat
  sm_attention :: nat
  sm_waiting :: nat
  sm_failed :: nat
  sm_unknown_attention :: nat

definition root_agent_summaries :: "string \<Rightarrow> worker list \<Rightarrow> root_summary list" where
  "root_agent_summaries observed_at rows =
     (let live = filter (\<lambda>r. w_root_agent_id r \<noteq> None \<and> detail_live observed_at r) rows;
          count = (\<lambda>root states.
            length (filter (\<lambda>r. w_root_agent_id r = Some root \<and> w_state r \<in> set states) live))
      in map (\<lambda>root.
           \<lparr>sm_root_agent_id = root, sm_active = count root [WRequested, WRunning, WWaiting],
            sm_past = count root [WSucceeded, WFailed, WCancelled],
            sm_unknown = count root [WUnknown],
            sm_attention = count root [WWaiting, WFailed, WUnknown],
            sm_waiting = count root [WWaiting], sm_failed = count root [WFailed],
            sm_unknown_attention = count root [WUnknown]\<rparr>)
         (sort (remdups (List.map_filter w_root_agent_id live))))"

definition telemetry_records :: "string \<Rightarrow> worker list \<Rightarrow> worker list" where
  "telemetry_records observed_at rows =
     filter (\<lambda>r. w_source_path r \<noteq> None \<and> detail_live observed_at r) rows"

definition codex_automation_roots :: "string \<Rightarrow> worker list \<Rightarrow> worker list" where
  "codex_automation_roots observed_at rows =
     filter (\<lambda>r. w_kind r = AutomationWorker \<and> w_provider r = ''codex'' \<and> w_session r \<noteq> None \<and>
        detail_live observed_at r) rows"

text \<open>The pieces of a \<open>GROUP_CONCAT\<close>.\<close>

definition split_sql_list :: "string option \<Rightarrow> string list" where
  "split_sql_list v =
     (case v of None \<Rightarrow> []
      | Some s \<Rightarrow> filter (\<lambda>p. p \<noteq> []) (map trim (split_on (CHR '','') s)))"

end
