(* ===== verification/Workers_Laws.thy ===== *)
theory Workers_Laws
  imports Workers
begin

text \<open>
  What the registry of temporary workers guarantees over any sequence of operations by any
  number of processes: the table stays sound, an automation attempt only moves forward,
  and the evidence about a provider child converges to the latest one.
\<close>

section \<open>Statements\<close>

lemma coalesce_simps [simp]: "coalesce None b = b" "coalesce (Some v) b = Some v"
  by (simp_all add: coalesce_def)

lemma coalesce_same [simp]: "coalesce a a = a"
  by (cases a) simp_all

text \<open>What a statement leaves is the table it had or one that satisfies the constraints.\<close>

lemma sql_commit_cases:
  "snd (sql_commit env rows' result rows) = rows \<or>
   snd (sql_commit env rows' result rows) = rows' \<and> table_constraints rows'"
  by (simp add: sql_commit_def split: option.split)

lemma sql_update_cases:
  "snd (sql_update env p f rows) = rows \<or>
   snd (sql_update env p f rows) = map (\<lambda>r. if p r then f r else r) rows \<and>
   table_constraints (map (\<lambda>r. if p r then f r else r) rows)"
  unfolding sql_update_def by (rule sql_commit_cases)

lemma changed_one_snd: "snd (changed_one env p f rows) \<in> {rows, snd (sql_update env p f rows)}"
  by (auto simp: changed_one_def split: option.splits prod.splits sum.splits)

definition same_identity :: "worker \<Rightarrow> worker \<Rightarrow> bool" where
  "same_identity r r' \<longleftrightarrow>
     w_id r' = w_id r \<and> w_kind r' = w_kind r \<and> w_provider r' = w_provider r \<and>
     w_workspace r' = w_workspace r \<and> w_root_agent_id r' = w_root_agent_id r \<and>
     w_parent_session r' = w_parent_session r \<and> w_blueprint_id r' = w_blueprint_id r \<and>
     w_run_id r' = w_run_id r \<and> w_node_id r' = w_node_id r \<and> w_attempt r' = w_attempt r \<and>
     w_runtime_session_id r' = w_runtime_session_id r \<and> w_generation r' = w_generation r \<and>
     w_owner r' = w_owner r \<and> w_caps r' = w_caps r \<and> w_requested_at r' = w_requested_at r"

text \<open>How far an attempt has come.\<close>

fun progress :: "worker_state \<Rightarrow> nat" where
  "progress WRequested = 0"
| "progress WRunning = 1"
| "progress _ = 2"

text \<open>
  One row later: it is about the same worker; the state of an automation attempt is the
  same or further, and that of one that ended is final, with what it recorded at its end
  (the outcome may be forgotten).
\<close>

definition later :: "worker \<Rightarrow> worker \<Rightarrow> bool" where
  "later r r' \<longleftrightarrow>
     same_identity r r' \<and>
     (w_kind r = AutomationWorker \<longrightarrow>
        (w_state r' = w_state r \<or> progress (w_state r) < progress (w_state r')) \<and>
        (progress (w_state r) = 2 \<longrightarrow>
           w_terminal_at r' = w_terminal_at r \<and> w_started_at r' = w_started_at r \<and>
           w_session r' = w_session r \<and>
           (w_outcome r' = w_outcome r \<or> w_outcome r' = None)))"

lemma later_refl [simp]: "later r r"
  by (simp add: later_def same_identity_def)

lemma progress_le: "progress st \<le> 2"
  by (cases st) auto

lemma later_trans: "later a b \<Longrightarrow> later b c \<Longrightarrow> later a c"
  using progress_le [of "w_state c"] unfolding later_def same_identity_def
  by (auto dest: order.strict_trans)

text \<open>An attempt belongs to a process and a node of a run; a child to a provider session.\<close>

definition row_ok :: "worker \<Rightarrow> bool" where
  "row_ok r \<longleftrightarrow>
     (case w_kind r of
        AutomationWorker \<Rightarrow>
          w_owner r \<noteq> None \<and> w_blueprint_id r \<noteq> None \<and> w_run_id r \<noteq> None \<and> w_node_id r \<noteq> None \<and>
          w_attempt r \<noteq> None \<and> w_generation r = w_attempt r \<and> w_parent_session r = None \<and>
          w_state r \<noteq> WWaiting \<and>
          (is_terminal (w_state r) \<longrightarrow> w_terminal_at r \<noteq> None \<and> w_retained_until r \<noteq> None)
      | ProviderChild \<Rightarrow>
          w_owner r = None \<and> w_attempt r = None \<and> w_generation r = None \<and> w_session r \<noteq> None \<and>
          w_parent_session r \<noteq> None)"

section \<open>Operations\<close>

datatype worker_op =
    RegisterOp automation_registration
  | RunningOp worker
  | UnknownOp worker string "string option"
  | TerminalOp worker worker_state "string option" "string option" "string option" string
      "string option"
  | FollowUpOp string
  | ChildOp child_registration "string option" bool bool
  | ObserveOp codex_observation
  | ObserveForOp "string option" codex_observation worker
  | ReconcileOp
  | RetentionOp

fun worker_do :: "worker_env \<Rightarrow> worker_op \<Rightarrow> worker list \<Rightarrow> worker list" where
  "worker_do env (RegisterOp i) rows = snd (register_automation_worker env i rows)"
| "worker_do env (RunningOp w) rows = snd (mark_running env w rows)"
| "worker_do env (UnknownOp w c e) rows = snd (mark_unknown env w c e rows)"
| "worker_do env (TerminalOp w st oc se path c e) rows =
     snd (mark_terminal env w st oc se path c e rows)"
| "worker_do env (FollowUpOp wid) rows = snd (record_follow_up_accepted env wid rows)"
| "worker_do env (ChildOp i t a pt) rows = snd (register_provider_child env i t a pt rows)"
| "worker_do env (ObserveOp ob) rows = snd (observe_codex_provider_child env ob rows)"
| "worker_do env (ObserveForOp c ob root) rows =
     snd (observe_codex_provider_child_for_automation env c ob root rows)"
| "worker_do env ReconcileOp rows = snd (reconcile_stale_automation_owners env rows)"
| "worker_do env RetentionOp rows = snd (apply_detail_retention env rows)"

text \<open>
  The two ways the table changes: rows are updated in place, or a row is inserted last.
\<close>

inductive table_step :: "worker list \<Rightarrow> worker list \<Rightarrow> bool" where
  same: "table_step rows rows"
| updated: "\<lbrakk>\<And>r. r \<in> set rows \<Longrightarrow> row_ok r \<Longrightarrow> later r (f r) \<and> row_ok (f r);
     table_constraints (map f rows)\<rbrakk> \<Longrightarrow> table_step rows (map f rows)"
| attempted: "\<lbrakk>w_kind r = AutomationWorker; row_ok r; w_attempt r = Some (next_attempt i rows);
     w_blueprint_id r = Some (or_blueprint_id i); w_run_id r = Some (or_run_id i);
     w_node_id r = Some (or_node_id i); table_constraints (rows @ [r])\<rbrakk> \<Longrightarrow>
     table_step rows (rows @ [r])"
| spawned: "\<lbrakk>w_kind r = ProviderChild; row_ok r; table_constraints (rows @ [r])\<rbrakk> \<Longrightarrow>
     table_step rows (rows @ [r])"

lemma table_step_update:
  assumes "\<And>r. r \<in> set rows \<Longrightarrow> row_ok r \<Longrightarrow> p r \<Longrightarrow> later r (f r) \<and> row_ok (f r)"
  shows "table_step rows (snd (sql_update env p f rows))"
  using sql_update_cases [of env p f rows]
proof
  assume "snd (sql_update env p f rows) = rows"
  then show ?thesis by (simp add: table_step.same)
next
  assume "snd (sql_update env p f rows) = map (\<lambda>r. if p r then f r else r) rows \<and>
    table_constraints (map (\<lambda>r. if p r then f r else r) rows)"
  then show ?thesis
    using assms by (auto intro!: table_step.updated)
qed

lemma table_step_changed_one:
  assumes "\<And>r. r \<in> set rows \<Longrightarrow> row_ok r \<Longrightarrow> p r \<Longrightarrow> later r (f r) \<and> row_ok (f r)"
  shows "table_step rows (snd (changed_one env p f rows))"
  using changed_one_snd [of env p f rows] table_step_update [of rows p f env] assms
  by (auto intro: table_step.same)

lemmas row_defs = later_def same_identity_def row_ok_def owned_row_def sql_eq_def


lemma mark_running_steps: "table_step rows (snd (mark_running env w rows))"
  unfolding mark_running_def
  by (rule table_step_changed_one) (auto simp: row_defs split: worker_kind.splits)

lemma mark_unknown_steps: "table_step rows (snd (mark_unknown env w c e rows))"
  unfolding mark_unknown_def
  by (rule table_step_changed_one) (auto simp: row_defs split: worker_kind.splits)

lemma terminal_progress: "is_terminal st \<Longrightarrow> progress st = 2 \<and> st \<noteq> WWaiting"
  by (cases st) auto

lemma mark_terminal_steps: "table_step rows (snd (mark_terminal env w st oc se path c e rows))"
proof (cases "is_terminal st")
  case False
  then show ?thesis by (simp add: mark_terminal_def table_step.same)
next
  case True
  then show ?thesis
    unfolding mark_terminal_def Let_def
    by (auto simp: row_defs terminal_progress split: worker_kind.splits
        intro!: table_step_changed_one)
qed

lemma follow_up_steps: "table_step rows (snd (record_follow_up_accepted env wid rows))"
proof -
  have "table_step rows (snd (sql_update env (\<lambda>r. w_id r = wid)
      (\<lambda>r. r\<lparr>w_follow_up_at := a, w_last_observed_at := b, w_resumable_until := c,
             w_retained_until := Some d\<rparr>) rows))" for a b c d
    by (rule table_step_update) (auto simp: row_defs split: worker_kind.splits)
  then show ?thesis
    by (auto simp: record_follow_up_accepted_def intro: table_step.same
        split: option.splits prod.splits sum.splits) (metis snd_conv)+
qed

lemma reconcile_steps: "table_step rows (snd (reconcile_stale_automation_owners env rows))"
  unfolding reconcile_stale_automation_owners_def
  by (auto simp: row_defs split: worker_kind.splits option.splits
      intro!: table_step_update table_step.same)

lemma retention_steps: "table_step rows (snd (apply_detail_retention env rows))"
  unfolding apply_detail_retention_def
  by (auto simp: row_defs detail_expired_def split: worker_kind.splits option.splits
      intro!: table_step_update table_step.same)

lemma rolled_back: "snd (case x of (Inl e, _) \<Rightarrow> (Inl (f e), rows) | (Inr y, rows') \<Rightarrow> g y rows') =
    (case fst x of Inl e \<Rightarrow> rows | Inr y \<Rightarrow> snd (g y (snd x)))"
  by (simp split: prod.split sum.split)

lemma register_steps: "table_step rows (snd (register_automation_worker env i rows))"
proof -
  let ?r = "automation_record env i (next_attempt (ar_origin i) rows)"
  have "table_step rows (rows @ [?r])" if "table_constraints (rows @ [?r])"
    using that
    by (auto simp: automation_record_def row_ok_def intro!: table_step.attempted [where i = "ar_origin i"])
  then show ?thesis
    by (auto simp: register_automation_worker_def Let_def insert_record_def sql_commit_def
        intro: table_step.same split: option.split)
qed

text \<open>A registration that is not refused never addresses an automation attempt.\<close>

lemma no_conflict_child: "row_ok r \<Longrightarrow> \<not> ownership_conflict r i \<Longrightarrow> w_kind r = ProviderChild"
  by (auto simp: row_ok_def ownership_conflict_def split: worker_kind.splits)

lemma legacy_update_ok:
  "w_kind r = ProviderChild \<Longrightarrow> row_ok r \<Longrightarrow>
     later r (legacy_child_update env i r) \<and> row_ok (legacy_child_update env i r)"
  by (simp add: legacy_child_update_def Let_def split_def later_def same_identity_def row_ok_def)

lemma evidence_update_ok:
  "w_kind r = ProviderChild \<Longrightarrow> row_ok r \<Longrightarrow>
     later r (evidence_update env i t a e r) \<and> row_ok (evidence_update env i t a e r)"
  by (simp add: evidence_update_def Let_def split_def later_def same_identity_def row_ok_def)

lemma child_record_ok:
  "w_kind (child_record env i t po) = ProviderChild" "row_ok (child_record env i t po)"
  by (simp_all add: child_record_def Let_def split_def row_ok_def)


definition attempts_of :: "worker_origin \<Rightarrow> worker list \<Rightarrow> nat list" where
  "attempts_of i rows =
     List.map_filter w_attempt (filter (\<lambda>r. w_kind r = AutomationWorker \<and>
        w_blueprint_id r = Some (or_blueprint_id i) \<and> w_run_id r = Some (or_run_id i) \<and>
        w_node_id r = Some (or_node_id i)) rows)"

text \<open>
  A sound table: no identifier twice, no attempt twice, no child session twice, every row
  is what its kind says, and the attempts of a node are numbered from one without gaps.
\<close>

definition table_sound :: "worker list \<Rightarrow> bool" where
  "table_sound rows \<longleftrightarrow>
     table_constraints rows \<and> list_all row_ok rows \<and>
     (\<forall>i. attempts_of i rows = [1..<Suc (length (attempts_of i rows))])"

lemma same_row: "\<lbrakk>distinct (map w_id rows); r \<in> set rows; e \<in> set rows; w_id r = w_id e\<rbrakk> \<Longrightarrow> r = e"
  by (auto simp: distinct_map dest: inj_onD)

lemma child_steps:
  assumes "table_sound rows"
  shows "table_step rows (snd (register_provider_child env i t a po rows))"
proof (cases "find_by_provider_session (cr_provider i) (cr_session i) rows")
  case None
  then show ?thesis
    by (auto simp: register_provider_child_def insert_record_def sql_commit_def Let_def
        intro: table_step.same table_step.spawned [OF child_record_ok] split: option.splits)
next
  case (Some e)
  have e: "e \<in> set rows" "row_ok e"
    using Some assms
    by (auto simp: find_by_provider_session_def find_Some_iff table_sound_def list_all_iff)
  let ?f = "if po then evidence_update env i t a e else legacy_child_update env i"
  have "table_step rows (snd (sql_update env (\<lambda>r. w_id r = w_id e) ?f rows))"
    if "\<not> ownership_conflict e i"
  proof (rule table_step_update)
    fix r
    assume r: "r \<in> set rows" "w_id r = w_id e"
    then have "r = e" using same_row assms e(1) by (auto simp: table_sound_def table_constraints_def)
    then show "later r (?f r) \<and> row_ok (?f r)"
      using that e no_conflict_child evidence_update_ok legacy_update_ok by auto
  qed
  then show ?thesis
    using Some
    by (auto simp: register_provider_child_def intro: table_step.same
        split: option.splits prod.splits sum.splits if_splits)
qed

lemma observe_steps:
  "table_sound rows \<Longrightarrow> table_step rows (snd (observe_codex_provider_child env ob rows))"
  by (auto simp: observe_codex_provider_child_def intro: table_step.same child_steps
      split: sum.splits)

lemma observe_for_steps:
  assumes "table_sound rows"
  shows "table_step rows (snd (observe_codex_provider_child_for_automation env c ob root rows))"
  using observe_steps [OF assms, of env ob]
  by (auto simp: observe_codex_provider_child_for_automation_def intro: table_step.same
      split: option.splits sum.splits prod.splits)

lemma worker_do_steps: "table_sound rows \<Longrightarrow> table_step rows (worker_do env op rows)"
  by (cases op)
    (simp_all add: register_steps mark_running_steps mark_unknown_steps mark_terminal_steps
      follow_up_steps child_steps observe_steps observe_for_steps reconcile_steps retention_steps)

subsection \<open>Soundness\<close>

lemma attempts_of_simps:
  "attempts_of i [] = []"
  "attempts_of i (r # rows) =
     (if w_kind r = AutomationWorker \<and> w_blueprint_id r = Some (or_blueprint_id i) \<and>
         w_run_id r = Some (or_run_id i) \<and> w_node_id r = Some (or_node_id i)
      then (case w_attempt r of None \<Rightarrow> [] | Some a \<Rightarrow> [a]) else []) @ attempts_of i rows"
  by (simp_all add: attempts_of_def map_filter_def split: option.split)

lemma later_attempts:
  "\<forall>r \<in> set rows. later r (f r) \<Longrightarrow> attempts_of i (map f rows) = attempts_of i rows"
  by (induction rows) (simp_all add: attempts_of_simps row_defs)

lemma attempts_snoc:
  "attempts_of i (rows @ [r]) =
     attempts_of i rows @ (if w_kind r = AutomationWorker \<and>
        w_blueprint_id r = Some (or_blueprint_id i) \<and> w_run_id r = Some (or_run_id i) \<and>
        w_node_id r = Some (or_node_id i) then (case w_attempt r of None \<Rightarrow> [] | Some a \<Rightarrow> [a])
        else [])"
  by (auto simp: attempts_of_def map_filter_def split: option.splits)

lemma fold_max: "fold max xs (m::nat) = Max (insert m (set xs))"
  using Max.set_eq_fold [of m xs] by simp

lemma next_attempt_fresh:
  assumes "attempts_of i rows = [1..<Suc n]"
  shows "next_attempt i rows = Suc n"
proof -
  have "insert 0 (set (attempts_of i rows)) = {0..n}"
    unfolding assms by auto
  then have "Max (insert 0 (set (attempts_of i rows))) = n"
    by (metis Max_eqI atLeastAtMost_iff finite_atLeastAtMost le0 order_refl)
  then show ?thesis by (simp add: next_attempt_def attempts_of_def fold_max)
qed

lemma table_step_sound:
  assumes "table_step rows rows'" "table_sound rows"
  shows "table_sound rows'"
  using assms
proof (cases rule: table_step.cases)
  case (updated f)
  then have "\<forall>r \<in> set rows. later r (f r) \<and> row_ok (f r)"
    using assms(2) by (auto simp: table_sound_def list_all_iff)
  with updated assms(2) show ?thesis
    by (auto simp: table_sound_def list_all_iff later_attempts)
next
  case (attempted r i)
  have "attempts_of j rows' = [1..<Suc (length (attempts_of j rows'))]" for j
  proof (cases "or_blueprint_id j = or_blueprint_id i \<and> or_run_id j = or_run_id i \<and>
      or_node_id j = or_node_id i")
    case True
    then have "attempts_of j rows' = attempts_of j rows @ [next_attempt j rows]"
      using attempted True by (simp add: attempts_snoc next_attempt_def)
    moreover have "attempts_of j rows = [1..<Suc (length (attempts_of j rows))]"
      using assms(2) unfolding table_sound_def by blast
    ultimately show ?thesis using next_attempt_fresh [of j rows] by simp
  next
    case False
    then have "attempts_of j rows' = attempts_of j rows"
      using attempted by (simp add: attempts_snoc) argo
    with assms(2) show ?thesis by (simp add: table_sound_def)
  qed
  moreover have "table_constraints rows'" "list_all row_ok rows'"
    using attempted assms(2) by (auto simp: table_sound_def)
  ultimately show ?thesis by (simp add: table_sound_def)
next
  case (spawned r)
  moreover have "table_constraints rows'" "list_all row_ok rows'"
    using spawned assms(2) by (auto simp: table_sound_def)
  ultimately show ?thesis
    using assms(2) by (simp add: table_sound_def attempts_snoc)
qed (use assms in simp)

definition worker_step ::
    "worker list \<Rightarrow> worker_env \<times> worker_op \<Rightarrow> unit + worker list" where
  "worker_step rows ev = Inr (worker_do (fst ev) (snd ev) rows)"

interpretation workers: guarded_machine worker_step table_sound "\<lambda>_. False"
  by unfold_locales
    (auto simp: worker_step_def intro: table_step_sound worker_do_steps)

lemma empty_table_sound: "table_sound []"
  by (simp add: table_sound_def table_constraints_def unique_index_def attempts_of_def
      map_filter_simps)

definition worker_run :: "(worker_env \<times> worker_op) list \<Rightarrow> worker list \<Rightarrow> worker list" where
  "worker_run es rows = fold (\<lambda>(env, op) rows. worker_do env op rows) es rows"

lemma worker_run_steps: "run_steps worker_step rows es = Inr (worker_run es rows)"
  by (induction es arbitrary: rows) (simp_all add: worker_run_def worker_step_def split_def)

lemma worker_run_sound: "table_sound rows \<Longrightarrow> table_sound (worker_run es rows)"
  using workers.run_keeps worker_run_steps by blast


subsection \<open>History\<close>

definition extends :: "worker list \<Rightarrow> worker list \<Rightarrow> bool" where
  "extends rows rows' \<longleftrightarrow>
     length rows \<le> length rows' \<and> list_all2 later rows (take (length rows) rows')"

lemma extends_refl [simp]: "extends rows rows"
  by (simp add: extends_def list_all2_refl)

lemma extends_trans:
  assumes "extends a b" "extends b c"
  shows "extends a c"
proof -
  have "list_all2 later (take (length a) b) (take (length a) c)"
    using assms list_all2_takeI [of later b "take (length b) c" "length a"]
    by (simp add: extends_def min_absorb1)
  then have "list_all2 later a (take (length a) c)"
    using assms(1) by (auto simp: extends_def intro: list_all2_trans [OF later_trans])
  then show ?thesis using assms by (simp add: extends_def)
qed

lemma table_step_extends: "table_step rows rows' \<Longrightarrow> table_sound rows \<Longrightarrow> extends rows rows'"
  by (induction rule: table_step.induct)
    (auto simp: extends_def table_sound_def list_all_iff list_all2_map2 list_all2_refl
      intro!: list_all2_all_nthI)

lemma worker_run_extends: "table_sound rows \<Longrightarrow> extends rows (worker_run es rows)"
proof (induction es arbitrary: rows)
  case Nil
  then show ?case by (simp add: worker_run_def)
next
  case (Cons ev es)
  obtain env op where ev: "ev = (env, op)" by (cases ev)
  have step: "table_step rows (worker_do env op rows)"
    using Cons.prems by (rule worker_do_steps)
  then have "extends (worker_do env op rows) (worker_run es (worker_do env op rows))"
    using Cons.IH table_step_sound Cons.prems by blast
  then show ?case
    using table_step_extends [OF step Cons.prems] by (auto simp: worker_run_def ev intro: extends_trans)
qed

section \<open>Properties\<close>

text \<open>
  C33. Whatever the processes do, in any order and with any failures of the database, the
  registry of workers is a sound history. From an empty table: no identifier, no attempt of
  a node and no session of a provider is stored twice, the attempts of each node of a run
  are numbered 1, 2, 3 and so on in the order of their rows, and every row is what its kind
  says. From then on no row disappears or changes its identity, its owner or its origin; an
  automation attempt never goes back to an earlier state, and once it has succeeded, failed,
  been cancelled or become unknown, its state, its session and its times of start and end
  are final and its outcome can only be forgotten. Unknown is final too: the comment on
  reconcile_stale_automation_owners says that the records of a process that is gone are
  unknown until evidence of the provider resolves them, but no statement of the code changes
  the state of such a row.
\<close>

theorem worker_history_sound:
  "table_sound (worker_run es []) \<and>
   extends (worker_run es []) (worker_run (es @ later_es) [])"
proof -
  have "table_sound (worker_run es [])"
    using worker_run_sound empty_table_sound by blast
  then show ?thesis
    using worker_run_extends [of "worker_run es []" later_es] by (simp add: worker_run_def)
qed

text \<open>An update of a sound table that keeps the keys and the parents always succeeds.\<close>

lemma same_keys_constraints:
  assumes "\<And>r. r \<in> set rows \<Longrightarrow> w_id (f r) = w_id r \<and> automation_key (f r) = automation_key r \<and>
      child_key (f r) = child_key r"
  shows "table_constraints (map f rows) \<longleftrightarrow> table_constraints rows"
proof -
  have "List.map_filter automation_key (map f rows) = List.map_filter automation_key rows"
    "List.map_filter child_key (map f rows) = List.map_filter child_key rows"
    "map w_id (map f rows) = map w_id rows"
    using assms by (induction rows) (auto simp: map_filter_simps split: option.split)
  then show ?thesis by (simp only: table_constraints_def unique_index_def)
qed

lemma same_parents_foreign_key:
  assumes "\<And>r. r \<in> set rows \<Longrightarrow> w_parent_worker_id (f r) = w_parent_worker_id r"
  shows "foreign_key_ok rows (map f rows)"
  using assms by (auto simp: foreign_key_ok_def list_all_iff in_set_enumerate_eq)

lemma update_succeeds:
  assumes "table_sound rows" "we_exec env = None"
    and "\<And>r. r \<in> set rows \<Longrightarrow> p r \<Longrightarrow> w_id (f r) = w_id r \<and> automation_key (f r) = automation_key r \<and>
      child_key (f r) = child_key r \<and> w_parent_worker_id (f r) = w_parent_worker_id r"
  shows "sql_update env p f rows =
    (Inr (length (filter p rows)), map (\<lambda>r. if p r then f r else r) rows)"
proof -
  let ?g = "\<lambda>r. if p r then f r else r"
  have "table_constraints (map ?g rows)"
    using assms(1,3) by (subst same_keys_constraints) (auto simp: table_sound_def)
  moreover have "foreign_key_ok rows (map ?g rows)"
    using assms(3) by (intro same_parents_foreign_key) auto
  ultimately show ?thesis using assms(2) by (simp add: sql_update_def sql_commit_def)
qed


definition unfinished :: "worker \<Rightarrow> bool" where
  "unfinished r \<longleftrightarrow> w_state r = WRequested \<or> w_state r = WRunning"

lemma owned_automation: "owned_row w r \<Longrightarrow> row_ok r \<Longrightarrow> w_kind r = AutomationWorker"
  by (auto simp: owned_row_def sql_eq_def row_ok_def split: worker_kind.splits)

lemma child_key_automation: "w_kind r = AutomationWorker \<Longrightarrow> child_key r = None"
  by (simp add: child_key_def)

lemma filter_one_row:
  assumes "distinct (map w_id rows)"
  shows "length (filter (\<lambda>r. w_id r = i \<and> p r) rows) = (if \<exists>r \<in> set rows. w_id r = i \<and> p r then 1 else 0)"
  using assms
proof (induction rows)
  case Nil
  then show ?case by simp
next
  case (Cons a rows)
  then have "w_id a \<notin> w_id ` set rows" by simp
  then have "w_id r \<noteq> w_id a" if "r \<in> set rows" for r
    using that by (metis imageI)
  with Cons show ?case by auto
qed

lemma owned_filter_one:
  assumes "table_sound rows"
  shows "length (filter (\<lambda>r. owned_row w r \<and> p r) rows) = 1 \<longleftrightarrow> (\<exists>r \<in> set rows. owned_row w r \<and> p r)"
  using filter_one_row [of rows "w_id w"
      "\<lambda>r. sql_eq (w_owner r) (w_owner w) \<and> sql_eq (w_generation r) (w_generation w) \<and> p r"] assms
  by (auto simp: owned_row_def conj_assoc table_sound_def table_constraints_def)

text \<open>The update of \<open>mark_terminal\<close> and its precondition on a sound table with a database that answers.\<close>

lemma changed_one_owned:
  assumes "table_sound rows" "we_db env = None" "we_exec env = None"
    and "\<And>r. r \<in> set rows \<Longrightarrow> owned_row w r \<Longrightarrow> w_kind r = AutomationWorker \<Longrightarrow>
      w_id (f r) = w_id r \<and> automation_key (f r) = automation_key r \<and>
      w_kind (f r) = w_kind r \<and> w_parent_worker_id (f r) = w_parent_worker_id r"
  shows "changed_one env (\<lambda>r. owned_row w r \<and> p r) f rows =
    (Inr (\<exists>r \<in> set rows. owned_row w r \<and> p r),
     map (\<lambda>r. if owned_row w r \<and> p r then f r else r) rows)"
proof -
  have "sql_update env (\<lambda>r. owned_row w r \<and> p r) f rows =
      (Inr (length (filter (\<lambda>r. owned_row w r \<and> p r) rows)),
       map (\<lambda>r. if owned_row w r \<and> p r then f r else r) rows)"
  proof (rule update_succeeds [OF assms(1,3)])
    fix r
    assume r: "r \<in> set rows" "owned_row w r \<and> p r"
    then have "w_kind r = AutomationWorker"
      using assms(1) owned_automation by (auto simp: table_sound_def list_all_iff)
    then show "w_id (f r) = w_id r \<and> automation_key (f r) = automation_key r \<and>
        child_key (f r) = child_key r \<and> w_parent_worker_id (f r) = w_parent_worker_id r"
      using assms(4) r child_key_automation by metis
  qed
  then show ?thesis
    using assms(2) owned_filter_one [OF assms(1)] by (simp add: changed_one_def)
qed

lemma changed_one_nothing:
  assumes "table_sound rows" "we_db env = None" "we_exec env = None" "\<And>r. r \<in> set rows \<Longrightarrow> \<not> p r"
  shows "changed_one env p f rows = (Inr False, rows)"
proof -
  have "sql_update env p f rows =
      (Inr (length (filter p rows)), map (\<lambda>r. if p r then f r else r) rows)"
    using assms by (intro update_succeeds) auto
  moreover have "filter p rows = []" "map (\<lambda>r. if p r then f r else r) rows = rows"
    using assms(4) by (auto simp: filter_empty_conv intro: map_idI)
  ultimately show ?thesis using assms(2) by (simp add: changed_one_def)
qed

text \<open>
  Only the owner finishes an attempt, and only once. On a sound table, with a database
  that answers, a terminal report answers true exactly when the reporting record's row is
  stored under its owner and its generation and is still requested or running; that row
  then has the reported state, outcome and error, ends at the time of the report and keeps
  its detail for thirty days from then, and no other row changes. A report by a stale owner
  or generation, or about an attempt that has ended, answers false and changes nothing.
\<close>

theorem owner_finishes_once:
  assumes "table_sound rows" "is_terminal st" "we_db env = None" "we_exec env = None"
  shows "case mark_terminal env w st outcome session path coverage error rows of (res, rows') \<Rightarrow>
    res = Inr (\<exists>r \<in> set rows. owned_row w r \<and> unfinished r) \<and>
    list_all2 (\<lambda>r r'. if owned_row w r \<and> unfinished r
        then w_state r' = st \<and> w_outcome r' = outcome \<and> w_error r' = error \<and>
          w_coverage r' = coverage \<and> w_terminal_at r' = Some (now_str env) \<and>
          w_retained_until r' = Some (we_show env (we_now env + 30 * 86400 * 10 ^ 9)) \<and>
          same_identity r r'
        else r' = r) rows rows' \<and>
    (\<forall>later_env st' o' s' p' c' e'. is_terminal st' \<and> we_db later_env = None \<and> we_exec later_env = None \<longrightarrow>
       mark_terminal later_env w st' o' s' p' c' e' rows' = (Inr False, rows'))"
proof -
  define f :: "worker \<Rightarrow> worker" where "f = (\<lambda>r. r\<lparr>w_state := st, w_outcome := outcome,
      w_session := coalesce session (w_session r),
      w_source_key := coalesce (map_option (source_key (w_provider w) (w_id w)) path) (w_source_key r),
      w_source_path := coalesce path (w_source_path r),
      w_terminal_at := Some (now_str env), w_last_observed_at := now_str env,
      w_resumable_until := Some (we_show env (we_now env + days resume_eligibility_days)),
      w_retained_until := Some (we_show env (we_now env + days detail_retention_days)),
      w_coverage := coverage, w_error := error\<rparr>)"
  define rows' where "rows' = map (\<lambda>r. if owned_row w r \<and> unfinished r then f r else r) rows"
  have eq: "mark_terminal env w st outcome session path coverage error rows =
      (Inr (\<exists>r \<in> set rows. owned_row w r \<and> unfinished r), rows')"
    using assms
    by (simp add: mark_terminal_def Let_def f_def [symmetric] unfinished_def [symmetric] rows'_def)
      (rule changed_one_owned; simp add: f_def automation_key_def)
  have sound: "table_sound rows'"
    using mark_terminal_steps [of rows env w st outcome session path coverage error] eq
      table_step_sound assms(1) by simp
  have gone: "\<not> (\<exists>r \<in> set rows'. owned_row w r \<and> unfinished r)"
    using assms(2) by (auto simp: rows'_def f_def unfinished_def owned_row_def)
  then have "mark_terminal e2 w st' o' s' p' c' e' rows' = (Inr False, rows')"
    if "is_terminal st'" "we_db e2 = None" "we_exec e2 = None" for e2 st' o' s' p' c' e'
    using that sound
    by (auto simp: mark_terminal_def Let_def unfinished_def [symmetric] intro!: changed_one_nothing)
  moreover have "list_all2 (\<lambda>r r'. if owned_row w r \<and> unfinished r
        then w_state r' = st \<and> w_outcome r' = outcome \<and> w_error r' = error \<and>
          w_coverage r' = coverage \<and> w_terminal_at r' = Some (now_str env) \<and>
          w_retained_until r' = Some (we_show env (we_now env + 30 * 86400 * 10 ^ 9)) \<and>
          same_identity r r'
        else r' = r) rows rows'"
    by (auto simp: rows'_def f_def list_all2_map2 same_identity_def days_def
        detail_retention_days_def intro!: list_all2_all_nthI)
  ultimately show ?thesis by (simp add: eq)
qed


text \<open>Concrete rows: a timestamp of the examples is read as its length.\<close>

definition tick_env :: "int \<Rightarrow> worker_env" where
  "tick_env now =
     \<lparr>we_parse = (\<lambda>s. Some (int (length s))), we_show = (\<lambda>t. replicate (nat t) (CHR ''x'')),
      we_now = now, we_uuid = ''u1'', we_owner = ''p1'', we_foreign_keys = True,
      we_db = None, we_exec = None, we_last = None\<rparr>"

definition some_attempt :: worker where
  "some_attempt = automation_record (tick_env 1)
     \<lparr>ar_provider = ''codex'', ar_workspace = ''w'', ar_runtime_session_id = ''s'',
      ar_origin = \<lparr>or_blueprint_id = ''b'', or_run_id = ''r'', or_node_id = ''n''\<rparr>\<rparr> 1"

lemma one_attempt_sound: "table_sound [some_attempt]"
proof -
  have "table_sound (worker_run [(tick_env 1, RegisterOp
      \<lparr>ar_provider = ''codex'', ar_workspace = ''w'', ar_runtime_session_id = ''s'',
       ar_origin = \<lparr>or_blueprint_id = ''b'', or_run_id = ''r'', or_node_id = ''n''\<rparr>\<rparr>)] [])"
    using worker_run_sound empty_table_sound by blast
  then show ?thesis
    by (simp add: worker_run_def register_automation_worker_def Let_def insert_record_def
        sql_commit_def next_attempt_def table_constraints_def unique_index_def foreign_key_ok_def
        some_attempt_def automation_record_def tick_env_def map_filter_simps automation_key_def
        child_key_def)
qed

theorem owner_finishes_once_witness:
  "fst (mark_terminal (tick_env 2) some_attempt WFailed None None None ''c'' None [some_attempt]) =
     Inr True"
proof -
  have "table_sound [some_attempt]" "is_terminal WFailed" "we_db (tick_env 2) = None"
    "we_exec (tick_env 2) = None"
    using one_attempt_sound by (simp_all add: tick_env_def)
  from owner_finishes_once [OF this, where w = some_attempt and outcome = None and session = None
      and path = None and coverage = "''c''" and error = None]
  show ?thesis
    by (auto simp: some_attempt_def automation_record_def owned_row_def sql_eq_def unfinished_def
        split: prod.splits)
qed

text \<open>An update of rows that a filter drops before and after it is not seen through it.\<close>

lemma filter_hidden:
  "(\<And>r. d r \<Longrightarrow> \<not> p r \<and> \<not> p (f r)) \<Longrightarrow>
     filter p (map (\<lambda>r. if d r then f r else r) xs) = filter p xs"
  by (induction xs) auto

text \<open>
  Forgetting details is invisible to the views. Whatever the table holds, a retention
  pass at some time leaves every list, count and summary that is asked for at that time as
  it was, keeps the number, the order, the identities and the states of the rows, and a
  second pass at that time changes no row.
\<close>

theorem retention_is_invisible:
  assumes "apply_detail_retention env rows = (res, rows')"
  shows "list_for_root (now_str env) root rows' = list_for_root (now_str env) root rows \<and>
    telemetry_records (now_str env) rows' = telemetry_records (now_str env) rows \<and>
    codex_automation_roots (now_str env) rows' = codex_automation_roots (now_str env) rows \<and>
    attention_counts_by_run (now_str env) rows' = attention_counts_by_run (now_str env) rows \<and>
    root_agent_summaries (now_str env) rows' = root_agent_summaries (now_str env) rows \<and>
    list_all2 (\<lambda>r r'. same_identity r r' \<and> w_state r' = w_state r) rows rows' \<and>
    (\<forall>n. res = Inr n \<longrightarrow> n = length (filter (detail_expired (now_str env)) rows) \<and>
       filter (detail_expired (now_str env)) rows' = [])"
proof -
  let ?t = "now_str env"
  let ?f = "\<lambda>r. r\<lparr>w_outcome := None, w_error := None, w_source_key := None,
    w_source_path := None, w_coverage := ''detail_retention_expired''\<rparr>"
  let ?g = "\<lambda>r. if detail_expired ?t r then ?f r else r"
  have dead: "\<not> detail_live ?t r" "\<not> needs_attention ?t r" "\<not> detail_live ?t (?f r)"
    "\<not> needs_attention ?t (?f r)" if "detail_expired ?t r" for r
    using that
    by (cases "w_state r"; auto simp: detail_expired_def detail_live_def needs_attention_def
        sql_after_def split: option.splits)+
  consider "rows' = rows" "\<forall>n. res \<noteq> Inr n"
    | "rows' = map ?g rows" "res = Inr (length (filter (detail_expired ?t) rows))"
    using assms by (auto simp: apply_detail_retention_def sql_update_def sql_commit_def
        split: option.splits if_splits)
  then show ?thesis
  proof cases
    case 1
    then show ?thesis by (auto simp: same_identity_def intro: list_all2_refl)
  next
    case 2
    have "filter (detail_expired ?t) (map ?g rows) = []"
      by (auto simp: filter_empty_conv detail_expired_def)
    moreover have "list_all2 (\<lambda>r r'. same_identity r r' \<and> w_state r' = w_state r) rows (map ?g rows)"
      by (auto simp: list_all2_map2 same_identity_def intro!: list_all2_all_nthI)
    ultimately show ?thesis
      using 2 dead
      by (simp add: list_for_root_def telemetry_records_def codex_automation_roots_def
          attention_counts_by_run_def root_agent_summaries_def filter_hidden)
  qed
qed


definition finished_attempt :: worker where
  "finished_attempt =
     some_attempt\<lparr>w_state := WFailed, w_outcome := Some ''o'', w_retained_until := Some ''x''\<rparr>"

definition forgotten_attempt :: worker where
  "forgotten_attempt =
     some_attempt\<lparr>w_state := WFailed, w_retained_until := Some ''x'',
       w_coverage := ''detail_retention_expired''\<rparr>"

lemma forget_one:
  "apply_detail_retention (tick_env 3) [finished_attempt] = (Inr 1, [forgotten_attempt])"
  by (simp add: apply_detail_retention_def sql_update_def sql_commit_def table_constraints_def
      unique_index_def foreign_key_ok_def finished_attempt_def forgotten_attempt_def
      some_attempt_def automation_record_def tick_env_def now_str_def detail_expired_def
      map_filter_simps automation_key_def child_key_def numeral_3_eq_3)

theorem retention_is_invisible_witness:
  "detail_expired (now_str (tick_env 3)) finished_attempt \<and>
   \<not> detail_expired (now_str (tick_env 3)) forgotten_attempt"
proof -
  have "1 = length (filter (detail_expired (now_str (tick_env 3))) [finished_attempt]) \<and>
    filter (detail_expired (now_str (tick_env 3))) [forgotten_attempt] = []"
    using retention_is_invisible [OF forget_one] by blast
  then show ?thesis by (simp split: if_splits)
qed

subsection \<open>The latest evidence\<close>

text \<open>Everything of an environment but its parser is free in the statements below.\<close>

definition answers :: "worker_env \<Rightarrow> bool" where
  "answers env \<longleftrightarrow> we_db env = None \<and> we_exec env = None \<and> we_last env = None"

lemma find_in: "find p xs = Some e \<Longrightarrow> e \<in> set xs \<and> p e"
  by (induction xs) (auto split: if_splits)

lemma find_update:
  assumes "find p rows = Some e" "distinct (map w_id rows)"
    and "\<And>r. r \<in> set rows \<Longrightarrow> p (f r) \<longleftrightarrow> p r"
  shows "find p (map (\<lambda>r. if w_id r = w_id e then f r else r) rows) = Some (f e)"
  using assms
proof (induction rows)
  case Nil
  then show ?case by simp
next
  case (Cons a rows)
  show ?case
  proof (cases "p a")
    case True
    then show ?thesis using Cons.prems by auto
  next
    case False
    then have "find p rows = Some e" using Cons.prems(1) by simp
    moreover from this have "w_id a \<noteq> w_id e"
      using Cons.prems(2) find_in by (metis distinct.simps(2) imageI list.simps(9) set_map)
    ultimately show ?thesis using Cons False by simp
  qed
qed

lemma evidence_keys [simp]:
  "w_id (evidence_update env i t a e r) = w_id r"
  "w_kind (evidence_update env i t a e r) = w_kind r"
  "w_provider (evidence_update env i t a e r) = w_provider r"
  "w_session (evidence_update env i t a e r) = w_session r"
  "w_root_agent_id (evidence_update env i t a e r) = w_root_agent_id r"
  "w_parent_session (evidence_update env i t a e r) = w_parent_session r"
  "w_parent_worker_id (evidence_update env i t a e r) =
     coalesce (cr_parent_worker_id i) (w_parent_worker_id r)"
  "row_origin (evidence_update env i t a e r) = row_origin r"
  "automation_key (evidence_update env i t a e r) = automation_key r"
  "child_key (evidence_update env i t a e r) = child_key r"
  by (simp_all add: evidence_update_def Let_def split_def row_origin_def automation_key_def
      child_key_def)

text \<open>One observation of a known child that names no other parent.\<close>

lemma observe_known_child:
  assumes "table_sound rows" "answers env" "validate_codex_observation ob = Inr allow"
    and "find_by_provider_session ''codex'' (cr_session (co_registration ob)) rows = Some e"
    and "\<not> ownership_conflict e (co_registration ob)"
    and "cr_parent_worker_id (co_registration ob) \<in> {None, w_parent_worker_id e}"
  defines "u \<equiv> evidence_update env (co_registration ob) (co_turn_started_at ob) allow e"
  shows "observe_codex_provider_child env ob rows =
    (Inr (u e), map (\<lambda>r. if w_id r = w_id e then u r else r) rows)"
proof -
  have e: "e \<in> set rows" using assms(4) by (auto simp: find_by_provider_session_def find_Some_iff)
  have dist: "distinct (map w_id rows)"
    using assms(1) by (simp add: table_sound_def table_constraints_def)
  have codex: "cr_provider (co_registration ob) = ''codex''"
    using assms(3) by (auto simp: validate_codex_observation_def Let_def split: if_splits)
  have "sql_update env (\<lambda>r. w_id r = w_id e) u rows =
      (Inr (length (filter (\<lambda>r. w_id r = w_id e) rows)),
       map (\<lambda>r. if w_id r = w_id e then u r else r) rows)"
  proof (rule update_succeeds [OF assms(1)])
    show "we_exec env = None" using assms(2) by (simp add: answers_def)
    fix r
    assume "r \<in> set rows" "w_id r = w_id e"
    then have "r = e" using same_row [OF dist] e by blast
    then show "w_id (u r) = w_id r \<and> automation_key (u r) = automation_key r \<and>
        child_key (u r) = child_key r \<and> w_parent_worker_id (u r) = w_parent_worker_id r"
      using assms(6) by (auto simp: u_def coalesce_def split: option.splits)
  qed
  moreover have "load_worker (w_id e) (map (\<lambda>r. if w_id r = w_id e then u r else r) rows) = Some (u e)"
  proof -
    have "find (\<lambda>r. w_id r = w_id e) rows = Some e"
      using e dist by (auto simp: find_Some_iff in_set_conv_nth distinct_conv_nth)
    then show ?thesis
      unfolding load_worker_def by (rule find_update) (simp_all add: dist u_def)
  qed
  ultimately show ?thesis
    using assms(2-5) codex
    by (simp add: observe_codex_provider_child_def register_provider_child_def answers_def u_def)
qed


type_synonym evidence = "worker_state \<times> string option \<times> string option"

definition view :: "worker \<Rightarrow> evidence" where
  "view r = (w_state r, w_outcome r, w_terminal_at r)"

definition evidence_of :: "codex_observation \<Rightarrow> evidence" where
  "evidence_of ob = (cr_state (co_registration ob), cr_outcome (co_registration ob),
     cr_terminal_at (co_registration ob))"

definition stamp :: "(string \<Rightarrow> int option) \<Rightarrow> evidence \<Rightarrow> int option" where
  "stamp parse v = Option.bind (snd (snd v)) parse"

text \<open>A qualified observation that the child of a row has ended, at a time of the provider.\<close>

definition ends_child ::
    "(string \<Rightarrow> int option) \<Rightarrow> worker \<Rightarrow> worker_env \<times> codex_observation \<Rightarrow> bool" where
  "ends_child parse e ev \<longleftrightarrow>
     (let i = co_registration (snd ev) in
      answers (fst ev) \<and> we_parse (fst ev) = parse \<and> cr_provider i = ''codex'' \<and>
      co_qualification (snd ev) = Qualified \<and> is_terminal (cr_state i) \<and>
      stamp parse (evidence_of (snd ev)) \<noteq> None \<and> w_session e = Some (cr_session i) \<and>
      \<not> ownership_conflict e i \<and> cr_parent_worker_id i \<in> {None, w_parent_worker_id e})"

definition observe_all :: "(worker_env \<times> codex_observation) list \<Rightarrow> worker list \<Rightarrow> worker list" where
  "observe_all obs rows =
     fold (\<lambda>(env, ob) rows. snd (observe_codex_provider_child env ob rows)) obs rows"

definition open_or_settled :: "(string \<Rightarrow> int option) \<Rightarrow> worker \<Rightarrow> bool" where
  "open_or_settled parse e \<longleftrightarrow>
     (if is_terminal (w_state e) then stamp parse (view e) \<noteq> None else w_terminal_at e = None)"

lemma ending_update:
  assumes "ends_child parse e (env, ob)" "open_or_settled parse e"
  defines "r \<equiv> evidence_update env (co_registration ob) (co_turn_started_at ob) False e e"
  shows "view r = (if is_terminal (w_state e) \<and> \<not> stamp parse (view e) < stamp parse (evidence_of ob)
     then view e else evidence_of ob)"
    and "open_or_settled parse r" "is_terminal (w_state r)"
proof -
  obtain t x where t: "cr_terminal_at (co_registration ob) = Some t" "parse t = Some x"
    using assms(1) by (auto simp: ends_child_def Let_def stamp_def evidence_of_def bind_eq_Some_conv)
  have parse: "we_parse env = parse" and fin: "is_terminal (cr_state (co_registration ob))"
    using assms(1) by (simp_all add: ends_child_def Let_def)
  have run: "cr_state (co_registration ob) \<noteq> WRunning" "cr_state (co_registration ob) \<noteq> WUnknown"
    using fin by auto
  have newer: "terminal_observation_is_newer env (Some t) (w_terminal_at e) (is_terminal (w_state e))
      \<longleftrightarrow> stamp parse (view e) < Some x"
    by (auto simp: terminal_observation_is_newer_def parse t(2) stamp_def view_def split: option.splits)
  have old: "\<not> is_terminal (w_state e) \<Longrightarrow> stamp parse (view e) < Some x"
    using assms(2) by (simp add: open_or_settled_def stamp_def view_def)
  show v: "view r = (if is_terminal (w_state e) \<and> \<not> stamp parse (view e) < stamp parse (evidence_of ob)
     then view e else evidence_of ob)"
    using fin run newer old
    by (auto simp: r_def evidence_update_def Let_def split_def valid_provider_timestamp_def parse t
        view_def evidence_of_def stamp_def)
  show "is_terminal (w_state r)"
    using v fin by (auto simp: view_def evidence_of_def split: if_splits)
  then show "open_or_settled parse r"
    using v assms(2) t by (auto simp: open_or_settled_def stamp_def evidence_of_def split: if_splits)
qed

lemma ends_child_same:
  "\<lbrakk>ends_child parse e ev; w_session r = w_session e; w_root_agent_id r = w_root_agent_id e;
    w_parent_session r = w_parent_session e; w_parent_worker_id r = w_parent_worker_id e;
    row_origin r = row_origin e\<rbrakk> \<Longrightarrow> ends_child parse r ev"
  by (simp add: ends_child_def ownership_conflict_def Let_def)

lemma observe_all_latest:
  assumes "table_sound rows" "find_by_provider_session ''codex'' session rows = Some e"
    and "open_or_settled parse e" "\<forall>ev \<in> set obs. ends_child parse e ev"
  shows "\<exists>r. find_by_provider_session ''codex'' session (observe_all obs rows) = Some r \<and>
    (view r = view e \<and> (obs = [] \<or> is_terminal (w_state e)) \<or>
     view r \<in> set (map (evidence_of \<circ> snd) obs)) \<and>
    (is_terminal (w_state e) \<longrightarrow> stamp parse (view e) \<le> stamp parse (view r)) \<and>
    (\<forall>ev \<in> set obs. stamp parse (evidence_of (snd ev)) \<le> stamp parse (view r))"
  using assms
proof (induction obs arbitrary: rows e)
  case Nil
  then show ?case by (simp add: observe_all_def)
next
  case (Cons ev obs)
  obtain env ob where ev: "ev = (env, ob)" by (cases ev)
  define u where "u = evidence_update env (co_registration ob) (co_turn_started_at ob) False e"
  define rows' where "rows' = map (\<lambda>r. if w_id r = w_id e then u r else r) rows"
  have ends: "ends_child parse e (env, ob)" using Cons.prems(4) ev by simp
  have "w_session e = Some session"
    using find_in [OF Cons.prems(2) [unfolded find_by_provider_session_def]] by simp
  then have sess: "cr_session (co_registration ob) = session"
    using ends by (simp add: ends_child_def Let_def)
  have par: "cr_parent_worker_id (co_registration ob) \<in> {None, w_parent_worker_id e}"
    using ends by (simp add: ends_child_def Let_def)
  have val: "validate_codex_observation ob = Inr False"
    using ends by (auto simp: ends_child_def validate_codex_observation_def Let_def)
  have obs: "observe_codex_provider_child env ob rows = (Inr (u e), rows')"
    using observe_known_child [OF Cons.prems(1) _ val] ends Cons.prems(2) sess
    by (simp add: u_def rows'_def ends_child_def Let_def)
  have find': "find_by_provider_session ''codex'' session rows' = Some (u e)"
    unfolding find_by_provider_session_def rows'_def
    using Cons.prems(1,2)
    by (intro find_update) (simp_all add: find_by_provider_session_def table_sound_def
        table_constraints_def u_def)
  have sound': "table_sound rows'"
    using table_step_sound [OF observe_steps [OF Cons.prems(1)] Cons.prems(1), of env ob] obs
    by simp
  note upd = ending_update [OF ends Cons.prems(3), folded u_def]
  have ends': "\<forall>ev \<in> set obs. ends_child parse (u e) ev"
  proof
    fix x
    assume "x \<in> set obs"
    then have "ends_child parse e x" using Cons.prems(4) by simp
    then show "ends_child parse (u e) x"
      by (rule ends_child_same) (use par in \<open>auto simp: u_def\<close>)
  qed
  from Cons.IH [OF sound' find' upd(2) ends'] obtain r where
    r: "find_by_provider_session ''codex'' session (observe_all obs rows') = Some r"
    "view r = view (u e) \<or> view r \<in> set (map (evidence_of \<circ> snd) obs)"
    "stamp parse (view (u e)) \<le> stamp parse (view r)"
    "\<forall>ev \<in> set obs. stamp parse (evidence_of (snd ev)) \<le> stamp parse (view r)"
    using upd(3) by blast
  have k: "view (u e) = view e \<and> is_terminal (w_state e) \<or> view (u e) = evidence_of ob"
    "is_terminal (w_state e) \<longrightarrow> stamp parse (view e) \<le> stamp parse (view (u e))"
    "stamp parse (evidence_of ob) \<le> stamp parse (view (u e))"
    using upd(1) by (auto split: if_splits)
  have step: "observe_all (ev # obs) rows = observe_all obs rows'"
    by (simp add: observe_all_def ev obs)
  show ?case
    unfolding step
  proof (intro exI conjI)
    show "find_by_provider_session ''codex'' session (observe_all obs rows') = Some r"
      by (rule r(1))
    show "view r = view e \<and> (ev # obs = [] \<or> is_terminal (w_state e)) \<or>
        view r \<in> set (map (evidence_of \<circ> snd) (ev # obs))"
      using r(2) k(1) by (elim disjE conjE) (simp_all add: ev)
    show "is_terminal (w_state e) \<longrightarrow> stamp parse (view e) \<le> stamp parse (view r)"
      using order_trans [OF _ r(3)] k(2) by blast
    show "\<forall>ev \<in> set (ev # obs). stamp parse (evidence_of (snd ev)) \<le> stamp parse (view r)"
      using r(4) order_trans [OF k(3) r(3)] by (simp add: ev)
  qed
qed

text \<open>
  The evidence about a child converges to the latest. Take a stored child whose turn is
  open and any sequence of qualified observations, from any watchers and in any order, that
  it succeeded, failed or was cancelled, each with a readable provider timestamp and of the
  same ownership. When the database answers, the child is still found by its session, and
  its state, outcome and time of end are those of one of the observations, none of which
  has a later timestamp: a stale or repeated observation never overwrites a newer one.
\<close>

theorem latest_evidence_wins:
  assumes "table_sound rows" "find_by_provider_session ''codex'' session rows = Some e"
    and "\<not> is_terminal (w_state e)" "w_terminal_at e = None"
    and "obs \<noteq> []" "\<forall>ev \<in> set obs. ends_child parse e ev"
  shows "\<exists>r. find_by_provider_session ''codex'' session (observe_all obs rows) = Some r \<and>
    view r \<in> set (map (evidence_of \<circ> snd) obs) \<and>
    list_all (\<lambda>ev. stamp parse (evidence_of (snd ev)) \<le> stamp parse (view r)) obs"
  using observe_all_latest [OF assms(1,2) _ assms(6)] assms(3-5)
  by (fastforce simp: open_or_settled_def list_all_iff)


definition child_report :: "worker_state \<Rightarrow> string option \<Rightarrow> codex_observation" where
  "child_report st at =
     \<lparr>co_registration =
        \<lparr>cr_provider = ''codex'', cr_workspace = ''w'', cr_root_agent_id = None,
         cr_parent_worker_id = None, cr_parent_session = ''p'', cr_runtime_session_id = ''s'',
         cr_session = ''c'', cr_origin = None, cr_state = st, cr_outcome = None,
         cr_source_path = ''f'', cr_coverage = ''v'', cr_requested_at = None, cr_terminal_at = at\<rparr>,
      co_qualification = Qualified, co_turn_started_at = None\<rparr>"

definition running_child :: worker where
  "running_child = child_record (tick_env 1) (co_registration (child_report WRunning None)) None True"

lemma running_child_sound: "table_sound [running_child]"
proof -
  have "worker_run [(tick_env 1, ObserveOp (child_report WRunning None))] [] = [running_child]"
    by (simp add: worker_run_def observe_codex_provider_child_def validate_codex_observation_def
        child_report_def register_provider_child_def find_by_provider_session_def tick_env_def
        running_child_def insert_record_def sql_commit_def table_constraints_def unique_index_def
        foreign_key_ok_def child_record_def Let_def split_def map_filter_simps automation_key_def
        child_key_def)
  then show ?thesis using worker_run_sound empty_table_sound by metis
qed

theorem latest_evidence_wins_witness:
  "\<exists>r. find_by_provider_session ''codex'' ''c''
      (observe_all [(tick_env 2, child_report WFailed (Some ''xxxxx'')),
        (tick_env 3, child_report WSucceeded (Some ''xxx''))] [running_child]) = Some r \<and>
    w_state r = WFailed"
proof -
  let ?obs = "[(tick_env 2, child_report WFailed (Some ''xxxxx'')),
    (tick_env 3, child_report WSucceeded (Some ''xxx''))]"
  have "find_by_provider_session ''codex'' ''c'' [running_child] = Some running_child"
    "\<not> is_terminal (w_state running_child)" "w_terminal_at running_child = None" "?obs \<noteq> []"
    by (simp_all add: find_by_provider_session_def running_child_def child_record_def Let_def
        split_def child_report_def tick_env_def valid_provider_timestamp_def)
  moreover have "\<forall>ev \<in> set ?obs. ends_child (we_parse (tick_env 0)) running_child ev"
    by (simp add: ends_child_def Let_def answers_def tick_env_def child_report_def stamp_def
        evidence_of_def running_child_def child_record_def split_def ownership_conflict_def
        row_origin_def)
  ultimately obtain r where r:
    "find_by_provider_session ''codex'' ''c'' (observe_all ?obs [running_child]) = Some r"
    "view r \<in> set (map (evidence_of \<circ> snd) ?obs)"
    "list_all (\<lambda>ev. stamp (we_parse (tick_env 0)) (evidence_of (snd ev)) \<le>
       stamp (we_parse (tick_env 0)) (view r)) ?obs"
    using latest_evidence_wins [OF running_child_sound] by blast
  then have "w_state r = WFailed"
    by (auto simp: view_def evidence_of_def child_report_def stamp_def tick_env_def)
  with r(1) show ?thesis by blast
qed

end
