(* ===== verification/Worker_Runner.thy ===== *)
theory Worker_Runner
  imports Workers_Laws Json
begin

text \<open>
  How the desktop's runner of headless agents drives the registry of temporary workers
  (\<open>src-tauri/src/automation/runner.rs\<close>): it registers an attempt before it starts the
  provider, reports the result after it, and a guard reports an unknown outcome when the
  future is dropped. The answer of the provider process is a parameter, and other
  processes may operate on the registry while it runs.
\<close>

section \<open>The runner\<close>

datatype run_error_kind = DefiniteFailure | Uncertain | RunCancelled

record run_error =
  re_kind :: run_error_kind
  re_message :: string

record run_spec =
  sp_provider :: string
  sp_cwd :: string
  sp_session_id :: string
  sp_origin :: "worker_origin option"

record lifecycle =
  lc_record :: worker
  lc_completed :: bool

definition drop_lifecycle :: "worker_env \<Rightarrow> lifecycle option \<Rightarrow> worker list \<Rightarrow> worker list" where
  "drop_lifecycle env lc rows =
     (case lc of
        None \<Rightarrow> rows
      | Some l \<Rightarrow>
          if lc_completed l then rows
          else snd (mark_unknown env (lc_record l) ''execution_future_dropped'' None rows))"

text \<open>The registration, the start, and the drop of the guard when the start fails.\<close>

definition begin_temporary_worker ::
    "worker_env \<Rightarrow> worker_env \<Rightarrow> worker_env \<Rightarrow> run_spec \<Rightarrow> worker list \<Rightarrow>
     (string + lifecycle option) \<times> worker list" where
  "begin_temporary_worker reg_env start_env drop_env spec rows =
     (case sp_origin spec of
        None \<Rightarrow> (Inr None, rows)
      | Some origin \<Rightarrow>
          (case register_automation_worker reg_env
             \<lparr>ar_provider = sp_provider spec, ar_workspace = sp_cwd spec,
              ar_runtime_session_id = sp_session_id spec, ar_origin = origin\<rparr> rows of
             (Inl e, rows1) \<Rightarrow> (Inl (''failed to register temporary worker: '' @ e), rows1)
           | (Inr w, rows1) \<Rightarrow>
               let l = \<lparr>lc_record = w, lc_completed = False\<rparr>
               in (case mark_running start_env w rows1 of
                     (Inl e, rows2) \<Rightarrow>
                       (Inl (''failed to start temporary worker registry entry: '' @ e),
                        drop_lifecycle drop_env (Some l) rows2)
                   | (Inr False, rows2) \<Rightarrow>
                       (Inl ''temporary worker ownership changed before execution started'',
                        drop_lifecycle drop_env (Some l) rows2)
                   | (Inr True, rows2) \<Rightarrow> (Inr (Some l), rows2))))"

definition error_state :: "run_error \<Rightarrow> worker_state option" where
  "error_state e =
     (case re_kind e of
        DefiniteFailure \<Rightarrow> Some WFailed
      | Uncertain \<Rightarrow> None
      | RunCancelled \<Rightarrow> Some WCancelled)"

type_synonym run_result = "run_error + string \<times> string option"

text \<open>What a definite result reports: state, outcome, session, coverage, error.\<close>

definition report_of ::
    "worker \<Rightarrow> run_result \<Rightarrow>
     worker_state \<times> string option \<times> string option \<times> string \<times> string option" where
  "report_of w result =
     (case result of
        Inr (_, session) \<Rightarrow>
          (WSucceeded, Some ''completed'', session,
           (if w_provider w = ''codex'' \<and> session \<noteq> None then ''provider_session_identified''
            else if session \<noteq> None then ''provider_observation_adapter_unavailable''
            else ''provider_session_unavailable''), None)
      | Inl e \<Rightarrow>
          (if re_kind e = RunCancelled
           then (WCancelled, Some ''cancelled_by_run'', None, ''run_cancellation_acknowledged'', None)
           else (WFailed, Some ''provider_failed'', None, ''provider_session_unavailable'',
                 Some (re_message e))))"

definition finish_temporary_worker ::
    "worker_env \<Rightarrow> lifecycle option \<Rightarrow> run_result \<Rightarrow> worker list \<Rightarrow>
     (string + unit) \<times> lifecycle option \<times> worker list" where
  "finish_temporary_worker env lc result rows =
     (case lc of
        None \<Rightarrow> (Inr (), None, rows)
      | Some l \<Rightarrow>
          (case (case result of Inl e \<Rightarrow> if error_state e = None then Some e else None | Inr _ \<Rightarrow> None) of
             Some e \<Rightarrow>
               (case mark_unknown env (lc_record l) ''provider_outcome_uncertain''
                   (Some (re_message e)) rows of
                  (Inl m, rows') \<Rightarrow>
                    (Inl (''failed to preserve uncertain temporary worker: '' @ m), lc, rows')
                | (Inr _, rows') \<Rightarrow> (Inr (), Some (l\<lparr>lc_completed := True\<rparr>), rows'))
           | None \<Rightarrow>
               (case report_of (lc_record l) result of
                  (st, outcome, session, coverage, error) \<Rightarrow>
                    (case mark_terminal env (lc_record l) st outcome session None coverage error rows of
                       (Inl m, rows') \<Rightarrow>
                         (Inl (''failed to complete temporary worker registry entry: '' @ m), lc, rows')
                     | (Inr _, rows') \<Rightarrow> (Inr (), Some (l\<lparr>lc_completed := True\<rparr>), rows')))))"

definition provider_session_id :: "json \<Rightarrow> string option" where
  "provider_session_id v =
     Option.bind (case jget ''thread_id'' v of Some x \<Rightarrow> Some x | None \<Rightarrow> jget ''session_id'' v) as_str"

definition response_from_headless_value :: "(json \<Rightarrow> string) \<Rightarrow> json \<Rightarrow> string" where
  "response_from_headless_value print v =
     (case Option.bind (jget ''response'' v) as_str of
        Some s \<Rightarrow> s
      | None \<Rightarrow> (case Option.bind (jget ''text'' v) as_str of Some s \<Rightarrow> s | None \<Rightarrow> print v))"

record runner_envs =
  ru_register :: worker_env
  ru_start :: worker_env
  ru_finish :: worker_env
  ru_drop :: worker_env

text \<open>
  One run. While the provider works, other processes perform \<open>others\<close> on the registry. The
  answer is \<open>None\<close> when the future is dropped before the provider answers.
\<close>

definition run_headless_agent ::
    "runner_envs \<Rightarrow> (json \<Rightarrow> string) \<Rightarrow> run_spec \<Rightarrow> (worker_env \<times> worker_op) list \<Rightarrow>
     (run_error + json) option \<Rightarrow> worker list \<Rightarrow> (string + string) option \<times> worker list" where
  "run_headless_agent envs print spec others answer rows =
     (case begin_temporary_worker (ru_register envs) (ru_start envs) (ru_drop envs) spec rows of
        (Inl e, rows1) \<Rightarrow> (Some (Inl e), rows1)
      | (Inr lc, rows1) \<Rightarrow>
          let rows2 = worker_run others rows1
          in (case answer of
                None \<Rightarrow> (None, drop_lifecycle (ru_drop envs) lc rows2)
              | Some a \<Rightarrow>
                  let run = (case a of
                        Inl e \<Rightarrow> Inl e
                      | Inr v \<Rightarrow> Inr (response_from_headless_value print v, provider_session_id v))
                  in (case finish_temporary_worker (ru_finish envs) lc run rows2 of
                        (Inl e, lc', rows3) \<Rightarrow>
                          (Some (Inl e), drop_lifecycle (ru_drop envs) lc' rows3)
                      | (Inr _, lc', rows3) \<Rightarrow>
                          (Some (case run of Inl e \<Rightarrow> Inl (re_message e) | Inr (response, _) \<Rightarrow> Inr response),
                           drop_lifecycle (ru_drop envs) lc' rows3))))"


section \<open>Every attempt settles\<close>

text \<open>The row of an attempt, wherever the table has come since its registration.\<close>

definition tracked :: "worker \<Rightarrow> worker list \<Rightarrow> bool" where
  "tracked w rows \<longleftrightarrow> table_sound rows \<and> (\<exists>r \<in> set rows. owned_row w r)"

definition ended :: "worker_state \<Rightarrow> bool" where
  "ended s \<longleftrightarrow> s \<in> {WSucceeded, WFailed, WCancelled, WUnknown}"

definition settled_as :: "worker \<Rightarrow> (worker_state \<Rightarrow> bool) \<Rightarrow> worker list \<Rightarrow> bool" where
  "settled_as w P rows \<longleftrightarrow> (\<exists>r \<in> set rows. owned_row w r \<and> P (w_state r))"

lemma extends_row:
  assumes "extends rows rows'" "r \<in> set rows"
  shows "\<exists>r' \<in> set rows'. later r r'"
proof -
  obtain k where k: "k < length rows" "rows ! k = r" using assms(2) by (auto simp: in_set_conv_nth)
  then have "later r (take (length rows) rows' ! k)"
    using assms(1) list_all2_nthD by (fastforce simp: extends_def)
  moreover have "take (length rows) rows' ! k \<in> set rows'"
    using assms(1) k(1) by (auto simp: extends_def)
  ultimately show ?thesis by blast
qed

lemma later_owned: "later r r' \<Longrightarrow> owned_row w r \<Longrightarrow> owned_row w r'"
  by (auto simp: later_def same_identity_def owned_row_def)

lemma tracked_extends: "\<lbrakk>tracked w rows; extends rows rows'; table_sound rows'\<rbrakk> \<Longrightarrow> tracked w rows'"
  unfolding tracked_def using extends_row later_owned by metis

lemma tracked_step: "tracked w rows \<Longrightarrow> table_step rows rows' \<Longrightarrow> tracked w rows'"
  using tracked_extends table_step_extends table_step_sound by (auto simp: tracked_def)

lemma tracked_run: "tracked w rows \<Longrightarrow> tracked w (worker_run es rows)"
  using tracked_extends worker_run_extends worker_run_sound by (auto simp: tracked_def)

lemma unfinished_or_settled: "row_ok r \<Longrightarrow> w_kind r = AutomationWorker \<Longrightarrow> unfinished r \<or> ended (w_state r)"
  by (cases "w_state r") (auto simp: unfinished_def ended_def row_ok_def)

text \<open>A report that the database answers settles an attempt, as reported if it was open.\<close>

lemma changed_one_answers:
  "changed_one env p f rows = (Inr b, rows') \<Longrightarrow> we_db env = None \<and> we_exec env = None"
  by (auto simp: changed_one_def sql_update_def sql_commit_def
      split: option.splits prod.splits sum.splits if_splits)

lemma report_settles:
  assumes "tracked w rows"
    and "changed_one env (\<lambda>r. owned_row w r \<and> (w_state r = WRequested \<or> w_state r = WRunning)) f rows =
      (Inr b, rows')"
    and "\<And>r. w_state (f r) = st" "ended st"
    and "\<And>r. w_id (f r) = w_id r \<and> w_kind (f r) = w_kind r \<and> w_owner (f r) = w_owner r \<and>
      w_generation (f r) = w_generation r \<and> w_parent_worker_id (f r) = w_parent_worker_id r"
    and "\<And>r. automation_key (f r) = automation_key r"
  shows "settled_as w ended rows'"
    and "settled_as w (\<lambda>s. s = WRequested \<or> s = WRunning) rows \<Longrightarrow> settled_as w (\<lambda>s. s = st) rows'"
proof -
  have env: "we_db env = None" "we_exec env = None" using changed_one_answers [OF assms(2)] by simp_all
  have eq: "rows' = map (\<lambda>r. if owned_row w r \<and> unfinished r then f r else r) rows"
    using assms(1,2,5,6) changed_one_owned [of rows env w f unfinished] env
    by (simp add: tracked_def unfinished_def)
  have open': "settled_as w (\<lambda>s. s = st) rows'" if "r \<in> set rows" "owned_row w r" "unfinished r" for r
  proof -
    have "f r \<in> set rows'" unfolding eq using that by (auto intro!: image_eqI [of _ _ r])
    moreover have "owned_row w (f r)" using that assms(5) by (simp add: owned_row_def)
    ultimately show ?thesis using assms(3) by (auto simp: settled_as_def)
  qed
  then show "settled_as w (\<lambda>s. s = st) rows'"
    if "settled_as w (\<lambda>s. s = WRequested \<or> s = WRunning) rows"
    using that by (auto simp: settled_as_def unfinished_def)
  obtain r where r: "r \<in> set rows" "owned_row w r" using assms(1) by (auto simp: tracked_def)
  then have "unfinished r \<or> ended (w_state r)"
    using assms(1) owned_automation unfinished_or_settled
    by (auto simp: tracked_def table_sound_def list_all_iff)
  then show "settled_as w ended rows'"
  proof
    assume "unfinished r"
    then show ?thesis using open' [OF r] assms(4) by (auto simp: settled_as_def)
  next
    assume p: "ended (w_state r)"
    then have "\<not> unfinished r" by (auto simp: unfinished_def ended_def)
    then have "r \<in> set rows'" unfolding eq using r by (auto intro!: image_eqI [of _ _ r])
    then show ?thesis using p r(2) unfolding settled_as_def by blast
  qed
qed

lemma mark_unknown_settles:
  assumes "tracked w rows" "mark_unknown env w c e rows = (Inr b, rows')"
  shows "settled_as w ended rows'"
    and "settled_as w (\<lambda>s. s = WRequested \<or> s = WRunning) rows \<Longrightarrow>
      settled_as w (\<lambda>s. s = WUnknown) rows'"
  using report_settles [OF assms(1) assms(2) [unfolded mark_unknown_def]]
  by (simp_all add: automation_key_def ended_def)

lemma mark_terminal_settles:
  assumes "tracked w rows" "mark_terminal env w st oc se p c e rows = (Inr b, rows')"
  shows "settled_as w ended rows'"
    and "settled_as w (\<lambda>s. s = WRequested \<or> s = WRunning) rows \<Longrightarrow> settled_as w (\<lambda>s. s = st) rows'"
proof -
  have st: "is_terminal st" using assms(2) by (auto simp: mark_terminal_def split: if_splits)
  then have two: "ended st" by (cases st) (auto simp: ended_def)
  note eq = assms(2) [unfolded mark_terminal_def Let_def, simplified st, simplified]
  show "settled_as w ended rows'"
    by (rule report_settles(1) [OF assms(1) eq _ two]) (simp_all add: automation_key_def)
  show "settled_as w (\<lambda>s. s = st) rows'" if "settled_as w (\<lambda>s. s = WRequested \<or> s = WRunning) rows"
    by (rule report_settles(2) [OF assms(1) eq _ two _ _ that]) (simp_all add: automation_key_def)
qed

lemma mark_unknown_Inr:
  assumes "table_sound rows" "answers env"
  shows "\<exists>b. fst (mark_unknown env w c e rows) = Inr b"
  unfolding mark_unknown_def
  using assms by (subst changed_one_owned) (auto simp: answers_def automation_key_def)

lemma drop_settles:
  assumes "tracked w rows" "answers env" "lc_record l = w"
    and "lc_completed l \<Longrightarrow> settled_as w ended rows"
  shows "settled_as w ended (drop_lifecycle env (Some l) rows)"
proof (cases "lc_completed l")
  case True
  then show ?thesis using assms(4) by (simp add: drop_lifecycle_def)
next
  case False
  obtain b where "fst (mark_unknown env w ''execution_future_dropped'' None rows) = Inr b"
    using mark_unknown_Inr [OF _ assms(2)] assms(1) unfolding tracked_def by blast
  then show ?thesis
    using mark_unknown_settles(1) [OF assms(1)] False assms(3)
    by (auto simp: drop_lifecycle_def) (metis prod.collapse)
qed

lemma registered_tracked:
  assumes "register_automation_worker env i rows = (Inr w, rows')" "table_sound rows"
  shows "tracked w rows'"
proof -
  have "table_sound rows'"
    using table_step_sound [OF register_steps assms(2), of env i] assms(1) by simp
  moreover have "w \<in> set rows'" "w = automation_record env i (next_attempt (ar_origin i) rows)"
    using assms(1)
    by (auto simp: register_automation_worker_def Let_def insert_record_def sql_commit_def
        split: option.splits if_splits)
  moreover have "owned_row w w"
    using calculation(3) by (simp add: owned_row_def sql_eq_def automation_record_def)
  ultimately show ?thesis unfolding tracked_def by blast
qed


text \<open>The end of a report: the attempt is settled and the guard disarmed, or it stays armed.\<close>

lemma finish_settles:
  assumes "tracked w rows" "finish_temporary_worker env (Some l) run rows = (res, lc', rows')"
    and "lc_record l = w" "\<not> lc_completed l"
  shows "tracked w rows' \<and> (\<exists>l'. lc' = Some l' \<and> lc_record l' = w \<and>
    (lc_completed l' \<longrightarrow> settled_as w ended rows'))"
proof -
  have "tracked w (snd (mark_unknown env w c e rows))" for c e
    using tracked_step [OF assms(1) mark_unknown_steps] .
  moreover have "tracked w (snd (mark_terminal env w st oc se p c e rows))" for st oc se p c e
    using tracked_step [OF assms(1) mark_terminal_steps] .
  ultimately show ?thesis
    using assms(2-4) mark_unknown_settles(1) [OF assms(1)] mark_terminal_settles(1) [OF assms(1)]
    by (auto simp: finish_temporary_worker_def split: option.splits prod.splits sum.splits
        dest: arg_cong [of _ _ snd]) (metis snd_conv)+
qed


text \<open>Beginning registers nothing, or an attempt that is tracked and, on failure, dropped.\<close>

lemma begin_settles:
  assumes "begin_temporary_worker reg start drop_env spec rows = (res, rows1)" "table_sound rows"
    and "sp_origin spec = Some origin" "answers drop_env"
    and "register_automation_worker reg
      \<lparr>ar_provider = sp_provider spec, ar_workspace = sp_cwd spec,
       ar_runtime_session_id = sp_session_id spec, ar_origin = origin\<rparr> rows = (Inr w, rows0)"
  shows "(case res of Inl e \<Rightarrow> settled_as w ended rows1
    | Inr lc \<Rightarrow> lc = Some \<lparr>lc_record = w, lc_completed = False\<rparr> \<and> tracked w rows1 \<and>
        settled_as w (\<lambda>s. s = WRequested \<or> s = WRunning) rows1)"
proof -
  let ?l = "\<lparr>lc_record = w, lc_completed = False\<rparr>"
  have t0: "tracked w rows0" using registered_tracked assms(2,5) by blast
  obtain r2 rows2 where m: "mark_running start w rows0 = (r2, rows2)" by fastforce
  have t2: "tracked w rows2"
    using tracked_step [OF t0 mark_running_steps, of start w] m by simp
  then have d: "settled_as w ended (drop_lifecycle drop_env (Some ?l) rows2)"
    by (rule drop_settles [OF _ assms(4)]) simp_all
  show ?thesis
  proof (cases "r2 = Inr True")
    case True
    then have eq: "rows2 = map (\<lambda>r. if owned_row w r \<and> w_state r = WRequested
        then r\<lparr>w_state := WRunning, w_started_at := coalesce (w_started_at r) (Some (now_str start)),
               w_last_observed_at := now_str start\<rparr> else r) rows0 \<and>
        (\<exists>r \<in> set rows0. owned_row w r \<and> w_state r = WRequested)"
      using m t0 changed_one_answers [OF m [unfolded mark_running_def True]]
      by (simp add: mark_running_def True)
        (subst (asm) changed_one_owned; auto simp: tracked_def automation_key_def)
    then obtain r where r: "r \<in> set rows0" "owned_row w r" "w_state r = WRequested" by blast
    let ?r = "r\<lparr>w_state := WRunning, w_started_at := coalesce (w_started_at r) (Some (now_str start)),
               w_last_observed_at := now_str start\<rparr>"
    have "?r \<in> set rows2" using eq r by (auto intro!: image_eqI [of _ _ r])
    moreover have "owned_row w ?r" using r(2) by (simp add: owned_row_def)
    ultimately have "settled_as w (\<lambda>s. s = WRequested \<or> s = WRunning) rows2"
      by (auto simp: settled_as_def intro!: bexI [of _ ?r])
    then show ?thesis
      using assms(1,3,5) m True t2 by (auto simp: begin_temporary_worker_def Let_def)
  next
    case False
    then have "rows1 = drop_lifecycle drop_env (Some ?l) rows2 \<and> (\<exists>e. res = Inl e)"
      using assms(1,3,5) m
      by (auto simp: begin_temporary_worker_def Let_def split: sum.splits bool.splits)
    then show ?thesis using d by auto
  qed
qed

section \<open>Properties\<close>

text \<open>
  C34. Every registered attempt ends settled. Whatever the provider answers, also when its
  future is dropped before it does, whatever other processes do to the registry meanwhile
  and whichever report fails, a run that registered an attempt leaves its row in an end
  state, succeeded, failed, cancelled or unknown, provided the database answers the last
  report of the guard. A run whose registration fails leaves the table as it was.
\<close>

theorem attempt_always_settles:
  assumes "table_sound rows" "sp_origin spec = Some origin" "answers (ru_drop envs)"
    and "run_headless_agent envs print spec others answer rows = (res, rows')"
  shows "case register_automation_worker (ru_register envs)
      \<lparr>ar_provider = sp_provider spec, ar_workspace = sp_cwd spec,
       ar_runtime_session_id = sp_session_id spec, ar_origin = origin\<rparr> rows of
      (Inl e, _) \<Rightarrow> rows' = rows
    | (Inr w, _) \<Rightarrow> \<exists>r \<in> set rows'. owned_row w r \<and>
        w_state r \<in> {WSucceeded, WFailed, WCancelled, WUnknown}"
proof -
  let ?i = "\<lparr>ar_provider = sp_provider spec, ar_workspace = sp_cwd spec,
       ar_runtime_session_id = sp_session_id spec, ar_origin = origin\<rparr>"
  obtain reg rows0 where reg: "register_automation_worker (ru_register envs) ?i rows = (reg, rows0)"
    by fastforce
  show ?thesis
  proof (cases reg)
    case (Inl e)
    then have "rows0 = rows"
      using reg by (auto simp: register_automation_worker_def Let_def split: option.splits
          prod.splits sum.splits if_splits)
    then show ?thesis
      using reg Inl assms(2,4) by (auto simp: run_headless_agent_def begin_temporary_worker_def)
  next
    case (Inr w)
    let ?l = "\<lparr>lc_record = w, lc_completed = False\<rparr>"
    obtain b rows1 where b: "begin_temporary_worker (ru_register envs) (ru_start envs)
        (ru_drop envs) spec rows = (b, rows1)"
      by fastforce
    note beg = begin_settles [OF b assms(1-3) reg [unfolded Inr]]
    have "settled_as w ended rows'"
    proof (cases b)
      case (Inl e)
      then show ?thesis using beg b assms(4) by (simp add: run_headless_agent_def)
    next
      case (Inr lc)
      let ?rows2 = "worker_run others rows1"
      have lc: "lc = Some ?l" and t: "tracked w ?rows2"
        using beg Inr tracked_run by auto
      show ?thesis
      proof (cases answer)
        case None
        then show ?thesis
          using drop_settles [OF t assms(3), of ?l] b Inr lc assms(4)
          by (simp add: run_headless_agent_def Let_def)
      next
        case (Some a)
        let ?run = "case a of Inl e \<Rightarrow> Inl e
          | Inr v \<Rightarrow> Inr (response_from_headless_value print v, provider_session_id v)"
        obtain f lc' rows3 where f: "finish_temporary_worker (ru_finish envs) (Some ?l) ?run ?rows2 =
            (f, lc', rows3)"
          by (cases "finish_temporary_worker (ru_finish envs) (Some ?l) ?run ?rows2") auto
        obtain l' where l': "tracked w rows3" "lc' = Some l'" "lc_record l' = w"
            "lc_completed l' \<longrightarrow> settled_as w ended rows3"
          using finish_settles [OF t f] by auto
        then have "settled_as w ended (drop_lifecycle (ru_drop envs) lc' rows3)"
          using drop_settles assms(3) by blast
        moreover have "rows' = drop_lifecycle (ru_drop envs) lc' rows3"
          using assms(4) b Inr lc Some f
          by (auto simp: run_headless_agent_def Let_def split: sum.splits)
        ultimately show ?thesis by simp
      qed
    qed
    then show ?thesis using reg Inr by (simp add: settled_as_def ended_def)
  qed
qed


definition some_spec :: run_spec where
  "some_spec = \<lparr>sp_provider = ''codex'', sp_cwd = ''w'', sp_session_id = ''s'',
     sp_origin = Some \<lparr>or_blueprint_id = ''b'', or_run_id = ''r'', or_node_id = ''n''\<rparr>\<rparr>"

definition calm_envs :: runner_envs where
  "calm_envs = \<lparr>ru_register = tick_env 1, ru_start = tick_env 2, ru_finish = tick_env 3,
     ru_drop = tick_env 4\<rparr>"

lemma first_registration:
  "register_automation_worker (ru_register calm_envs)
     \<lparr>ar_provider = sp_provider some_spec, ar_workspace = sp_cwd some_spec,
      ar_runtime_session_id = sp_session_id some_spec,
      ar_origin = \<lparr>or_blueprint_id = ''b'', or_run_id = ''r'', or_node_id = ''n''\<rparr>\<rparr> [] =
   (Inr some_attempt, [some_attempt])"
  by (simp add: register_automation_worker_def Let_def insert_record_def sql_commit_def
      next_attempt_def table_constraints_def unique_index_def foreign_key_ok_def some_attempt_def
      automation_record_def tick_env_def map_filter_simps automation_key_def child_key_def
      calm_envs_def some_spec_def)

theorem attempt_always_settles_witness:
  "\<exists>r \<in> set (snd (run_headless_agent calm_envs (\<lambda>_. []) some_spec [] None [])).
     owned_row some_attempt r \<and> w_state r \<in> {WSucceeded, WFailed, WCancelled, WUnknown}"
proof -
  have "sp_origin some_spec = Some \<lparr>or_blueprint_id = ''b'', or_run_id = ''r'', or_node_id = ''n''\<rparr>"
    "answers (ru_drop calm_envs)"
    by (simp_all add: some_spec_def calm_envs_def answers_def tick_env_def)
  from attempt_always_settles [OF empty_table_sound this prod.collapse [symmetric]]
  show ?thesis by (auto simp: first_registration)
qed

fun result_state :: "run_error + 'a \<Rightarrow> worker_state" where
  "result_state (Inr _) = WSucceeded"
| "result_state (Inl e) =
     (case re_kind e of DefiniteFailure \<Rightarrow> WFailed | RunCancelled \<Rightarrow> WCancelled | Uncertain \<Rightarrow> WUnknown)"

lemma mark_terminal_Inr:
  assumes "table_sound rows" "answers env" "is_terminal st"
  shows "\<exists>b. fst (mark_terminal env w st oc se p c e rows) = Inr b"
  unfolding mark_terminal_def Let_def
  using assms by (simp, subst changed_one_owned) (auto simp: answers_def automation_key_def)

lemma finish_records:
  assumes "tracked w rows" "settled_as w (\<lambda>s. s = WRequested \<or> s = WRunning) rows"
    and "answers env" "lc_record l = w"
  shows "\<exists>rows'. finish_temporary_worker env (Some l) run rows =
      (Inr (), Some (l\<lparr>lc_completed := True\<rparr>), rows') \<and>
      settled_as w (\<lambda>s. s = result_state run) rows'"
proof -
  have sound: "table_sound rows" using assms(1) by (simp add: tracked_def)
  show ?thesis
  proof (cases "\<exists>e. run = Inl e \<and> re_kind e = Uncertain")
    case True
    then obtain e where e: "run = Inl e" "re_kind e = Uncertain" by blast
    obtain b rows' where m: "mark_unknown env w ''provider_outcome_uncertain'' (Some (re_message e)) rows
        = (Inr b, rows')"
      using mark_unknown_Inr [OF sound assms(3)] by (metis prod.collapse)
    then show ?thesis
      using mark_unknown_settles(2) [OF assms(1) m assms(2)] e assms(4)
      by (simp add: finish_temporary_worker_def error_state_def)
  next
    case False
    obtain st oc se c m where rep: "report_of w run = (st, oc, se, c, m)" by (cases "report_of w run") auto
    have st: "is_terminal st" "st = result_state run"
      using rep False
      by (auto simp: report_of_def split: sum.splits prod.splits if_splits run_error_kind.splits)
    obtain b rows' where t: "mark_terminal env w st oc se None c m rows = (Inr b, rows')"
      using mark_terminal_Inr [OF sound assms(3) st(1)] by (metis prod.collapse)
    have "(case run of Inl e \<Rightarrow> if error_state e = None then Some e else None | Inr _ \<Rightarrow> None) = None"
      using False by (auto simp: error_state_def split: sum.splits run_error_kind.splits)
    then show ?thesis
      using mark_terminal_settles(2) [OF assms(1) t assms(2)] st(2) t rep assms(4)
      by (simp add: finish_temporary_worker_def)
  qed
qed

text \<open>
  The registry records what the provider answered. When no other process interferes and
  the database answers, a run that started its attempt leaves it succeeded when the provider
  answered a value, cancelled or failed when it answered so, and unknown when the answer was
  uncertain or never came.
\<close>

theorem answer_is_recorded:
  assumes "table_sound rows" "sp_origin spec = Some origin" "answers (ru_finish envs)"
    and "answers (ru_drop envs)"
    and "begin_temporary_worker (ru_register envs) (ru_start envs) (ru_drop envs) spec rows =
      (Inr (Some l), rows1)"
    and "run_headless_agent envs print spec [] answer rows = (res, rows')"
  shows "\<exists>r \<in> set rows'. owned_row (lc_record l) r \<and>
    w_state r = (case answer of None \<Rightarrow> WUnknown | Some a \<Rightarrow> result_state a)"
proof -
  obtain w rows0 where reg: "register_automation_worker (ru_register envs)
      \<lparr>ar_provider = sp_provider spec, ar_workspace = sp_cwd spec,
       ar_runtime_session_id = sp_session_id spec, ar_origin = origin\<rparr> rows = (Inr w, rows0)"
    using assms(2,5) by (auto simp: begin_temporary_worker_def split: sum.splits prod.splits)
  have beg: "l = \<lparr>lc_record = w, lc_completed = False\<rparr>" "tracked w rows1"
      "settled_as w (\<lambda>s. s = WRequested \<or> s = WRunning) rows1"
    using begin_settles [OF assms(5,1,2,4) reg] by simp_all
  have "settled_as w (\<lambda>s. s = (case answer of None \<Rightarrow> WUnknown | Some a \<Rightarrow> result_state a)) rows'"
  proof (cases answer)
    case None
    obtain b rows2 where m: "mark_unknown (ru_drop envs) w ''execution_future_dropped'' None rows1 =
        (Inr b, rows2)"
      using mark_unknown_Inr [OF _ assms(4)] beg(2) unfolding tracked_def by (metis prod.collapse)
    then have "rows2 = rows'"
      using assms(5,6) None beg(1)
      by (simp add: run_headless_agent_def drop_lifecycle_def worker_run_def)
    then show ?thesis using mark_unknown_settles(2) [OF beg(2) m beg(3)] None by simp
  next
    case (Some a)
    let ?run = "case a of Inl e \<Rightarrow> Inl e
      | Inr v \<Rightarrow> Inr (response_from_headless_value print v, provider_session_id v)"
    obtain rows3 where f: "finish_temporary_worker (ru_finish envs) (Some l) ?run rows1 =
        (Inr (), Some (l\<lparr>lc_completed := True\<rparr>), rows3)"
      and st: "settled_as w (\<lambda>s. s = result_state ?run) rows3"
      using finish_records [OF beg(2,3) assms(3), of l ?run] beg(1) by auto
    have "rows' = rows3"
      using assms(5,6) Some f
      by (simp add: run_headless_agent_def drop_lifecycle_def worker_run_def Let_def)
    moreover have "result_state ?run = result_state a" by (cases a) simp_all
    ultimately show ?thesis using st Some by simp
  qed
  then show ?thesis using beg(1) by (auto simp: settled_as_def)
qed

lemma first_begin:
  "begin_temporary_worker (ru_register calm_envs) (ru_start calm_envs) (ru_drop calm_envs) some_spec []
     = (Inr (Some \<lparr>lc_record = some_attempt, lc_completed = False\<rparr>),
        [some_attempt\<lparr>w_state := WRunning, w_started_at := Some ''xx'',
           w_last_observed_at := ''xx''\<rparr>])"
  using first_registration
  by (simp add: begin_temporary_worker_def some_spec_def calm_envs_def mark_running_def
      changed_one_def sql_update_def sql_commit_def owned_row_def sql_eq_def some_attempt_def
      automation_record_def tick_env_def now_str_def table_constraints_def unique_index_def
      foreign_key_ok_def map_filter_simps automation_key_def child_key_def numeral_2_eq_2)

theorem answer_is_recorded_witness:
  "\<exists>r \<in> set (snd (run_headless_agent calm_envs (\<lambda>_. []) some_spec []
      (Some (Inl \<lparr>re_kind = RunCancelled, re_message = ''m''\<rparr>)) [])). w_state r = WCancelled"
proof -
  have "sp_origin some_spec = Some \<lparr>or_blueprint_id = ''b'', or_run_id = ''r'', or_node_id = ''n''\<rparr>"
    "answers (ru_finish calm_envs)" "answers (ru_drop calm_envs)"
    by (simp_all add: some_spec_def calm_envs_def answers_def tick_env_def)
  from answer_is_recorded [OF empty_table_sound this first_begin prod.collapse [symmetric],
      where answer = "Some (Inl \<lparr>re_kind = RunCancelled, re_message = ''m''\<rparr>)" and print = "\<lambda>_. []"]
  show ?thesis by (elim bexE conjE) (rule bexI, simp_all)
qed

end
