(* ===== verification/Workbench.thy ===== *)
theory Workbench
  imports Json
begin

text \<open>
  The saved layout of the desktop window and its validation
  (\<open>crates/wardian-core/src/models/workbench.rs\<close>): a tree of splits whose leaves are groups
  of tabs, the surfaces shown in the tabs, the recently closed ones and the shell. What serde
  prints and what chrono accepts are parameters.
\<close>

section \<open>Data\<close>

definition WORKBENCH_SCHEMA_VERSION :: u64 where "WORKBENCH_SCHEMA_VERSION = 1"
definition MAX_SAFE_INTEGER :: u64 where "MAX_SAFE_INTEGER = 9007199254740991"
definition MAX_WORKBENCH_DOCUMENT_BYTES :: nat where "MAX_WORKBENCH_DOCUMENT_BYTES = 2 * 1024 * 1024"
definition MAX_WORKBENCH_SURFACE_STATE_BYTES :: nat where "MAX_WORKBENCH_SURFACE_STATE_BYTES = 64 * 1024"
definition MAX_WORKBENCH_TREE_DEPTH :: nat where "MAX_WORKBENCH_TREE_DEPTH = 64"
definition MAX_RECENTLY_CLOSED_SURFACES :: nat where "MAX_RECENTLY_CLOSED_SURFACES = 20"

datatype split_direction = Horizontal | Vertical

datatype wb_node =
    GroupNode string
  | SplitNode string split_direction f64 wb_node wb_node

record wb_group =
  wg_group_id :: string
  wg_surface_ids :: "string list"
  wg_active_surface_id :: "string option"

text \<open>Surface, partner, provisional resource.\<close>

datatype provenance = ExplicitDuplicate string "string option" string

record wb_surface =
  ws_surface_id :: string
  ws_surface_type :: string
  ws_resource_key :: "string option"
  ws_provenance :: "provenance option"
  ws_state_schema_version :: u64
  ws_state :: json

record closed_surface =
  cl_surface :: wb_surface
  cl_previous_group_id :: string
  cl_previous_index :: u64

record wb_shell =
  sh_left_collapsed :: bool
  sh_left_width :: f64
  sh_right_collapsed :: bool
  sh_right_width :: f64
  sh_terminal_open :: bool
  sh_terminal_height :: f64

record wb_doc =
  wd_schema_version :: u64
  wd_revision :: u64
  wd_saved_at :: string
  wd_root :: wb_node
  wd_groups :: "(string \<times> wb_group) list"
  wd_surfaces :: "(string \<times> wb_surface) list"
  wd_active_group_id :: string
  wd_recently_closed :: "closed_surface list"
  wd_shell :: wb_shell

record wb_codec =
  wc_to_vec :: "wb_doc \<Rightarrow> string"
  wc_value_to_vec :: "json \<Rightarrow> string"
  wc_date :: "int \<Rightarrow> nat \<Rightarrow> nat \<Rightarrow> bool"
  wc_time :: "nat \<Rightarrow> nat \<Rightarrow> nat \<Rightarrow> nat \<Rightarrow> bool"

definition default_document :: wb_doc where
  "default_document =
     \<lparr>wd_schema_version = WORKBENCH_SCHEMA_VERSION, wd_revision = 0,
      wd_saved_at = ''1970-01-01T00:00:00.000Z'', wd_root = GroupNode ''group-1'',
      wd_groups = [(''group-1'', \<lparr>wg_group_id = ''group-1'', wg_surface_ids = [],
        wg_active_surface_id = None\<rparr>)],
      wd_surfaces = [], wd_active_group_id = ''group-1'', wd_recently_closed = [],
      wd_shell = \<lparr>sh_left_collapsed = False, sh_left_width = Finite 240 0,
        sh_right_collapsed = False, sh_right_width = Finite 240 0,
        sh_terminal_open = False, sh_terminal_height = Finite 360 0\<rparr>\<rparr>"

section \<open>Numbers and timestamps\<close>

fun f64_is_finite :: "f64 \<Rightarrow> bool" where
  "f64_is_finite (Finite m e) \<longleftrightarrow> True"
| "f64_is_finite NegZero \<longleftrightarrow> True"
| "f64_is_finite _ \<longleftrightarrow> False"

definition float_le :: "int \<Rightarrow> int \<Rightarrow> int \<Rightarrow> int \<Rightarrow> bool" where
  "float_le m e m' e' \<longleftrightarrow> m * 2 ^ nat (e - min e e') \<le> m' * 2 ^ nat (e' - min e e')"

text \<open>\<open>(0.1..=0.9).contains\<close>: the bounds are the doubles nearest to these decimals.\<close>

fun ratio_in_range :: "f64 \<Rightarrow> bool" where
  "ratio_in_range (Finite m e) \<longleftrightarrow>
     float_le 3602879701896397 (- 55) m e \<and> float_le m e 8106479329266893 (- 53)"
| "ratio_in_range _ \<longleftrightarrow> False"

fun f64_negative :: "f64 \<Rightarrow> bool" where
  "f64_negative (Finite m e) \<longleftrightarrow> m < 0"
| "f64_negative (Infinite neg) \<longleftrightarrow> neg"
| "f64_negative _ \<longleftrightarrow> False"

definition slice :: "nat \<Rightarrow> nat \<Rightarrow> 'a list \<Rightarrow> 'a list" where
  "slice a b xs = take (b - a) (drop a xs)"

definition is_canonical_timestamp :: "('c) wb_codec_scheme \<Rightarrow> string \<Rightarrow> bool" where
  "is_canonical_timestamp c value =
     (if length value \<noteq> 24 \<or> value ! 4 \<noteq> CHR ''-'' \<or> value ! 7 \<noteq> CHR ''-'' \<or> value ! 10 \<noteq> CHR ''T'' \<or>
         value ! 13 \<noteq> CHR '':'' \<or> value ! 16 \<noteq> CHR '':'' \<or> value ! 19 \<noteq> CHR ''.'' \<or> value ! 23 \<noteq> CHR ''Z''
      then False
      else if list_ex (\<lambda>(a, b). \<not> list_all ascii_digit (slice a b value))
        [(0, 4), (5, 7), (8, 10), (11, 13), (14, 16), (17, 19), (20, 23)]
      then False
      else let parse = (\<lambda>a b. decimal (slice a b value)) in
        wc_date c (int (parse 0 4)) (parse 5 7) (parse 8 10) \<and>
        wc_time c (parse 11 13) (parse 14 16) (parse 17 19) (parse 20 23))"

section \<open>Validation\<close>

datatype validation_error = ValidationError string string

definition err_if :: "bool \<Rightarrow> string \<Rightarrow> string \<Rightarrow> validation_error list" where
  "err_if b path message = (if b then [ValidationError path message] else [])"

definition indexed :: "string \<Rightarrow> nat \<Rightarrow> string" where
  "indexed path i = path @ ''['' @ show_nat i @ '']''"

definition safe_integer_errors :: "u64 \<Rightarrow> string \<Rightarrow> validation_error list" where
  "safe_integer_errors value path = err_if (value > MAX_SAFE_INTEGER) path ''must be a non-negative safe integer''"

text \<open>The tree: the groups referenced so far, the split ids seen, the errors.\<close>

fun validate_node ::
  "wb_node \<Rightarrow> nat \<Rightarrow> string \<Rightarrow> string list \<times> string set \<times> validation_error list \<Rightarrow>
   string list \<times> string set \<times> validation_error list" where
  "validate_node (GroupNode g) depth path (refs, ids, errs) =
     (if depth > MAX_WORKBENCH_TREE_DEPTH
      then (refs, ids, errs @ [ValidationError path ''exceeds the 64-node tree depth limit''])
      else if g = [] then (refs, ids, errs @ [ValidationError (path @ ''.group_id'') ''must be a non-empty string''])
      else (refs @ [g], ids, errs))"
| "validate_node (SplitNode i dir ratio a b) depth path (refs, ids, errs) =
     (if depth > MAX_WORKBENCH_TREE_DEPTH
      then (refs, ids, errs @ [ValidationError path ''exceeds the 64-node tree depth limit''])
      else
        let errs1 = errs @
              (if i = [] then [ValidationError (path @ ''.node_id'') ''must be a non-empty string'']
               else err_if (i \<in> ids) (path @ ''.node_id'') ''must be unique'') @
              err_if (\<not> f64_is_finite ratio \<or> \<not> ratio_in_range ratio)
                (path @ ''.ratio'') ''must be a finite number in 0.1..0.9''
        in validate_node b (Suc depth) (path @ ''.second'')
             (validate_node a (Suc depth) (path @ ''.first'')
               (refs, if i = [] then ids else insert i ids, errs1)))"

text \<open>The tabs of one group, with the tabs before them.\<close>

fun tab_errors :: "string \<Rightarrow> nat \<Rightarrow> string list \<Rightarrow> string list \<Rightarrow> validation_error list" where
  "tab_errors path index seen [] = []"
| "tab_errors path index seen (i # is) =
     (if i = [] then [ValidationError (indexed (path @ ''.surface_ids'') index) ''must be a non-empty string'']
      else err_if (i \<in> set seen) (indexed (path @ ''.surface_ids'') index) ''must not be duplicated in a group'') @
     tab_errors path (Suc index) (if i = [] then seen else i # seen) is"

definition group_errors :: "string \<times> wb_group \<Rightarrow> validation_error list" where
  "group_errors entry =
     (let (key, g) = entry; path = ''$.groups.'' @ key in
      err_if (wg_group_id g \<noteq> key) (path @ ''.group_id'') ''must match its record key'' @
      tab_errors path 0 [] (wg_surface_ids g) @
      (if wg_surface_ids g = []
       then err_if (wg_active_surface_id g \<noteq> None) (path @ ''.active_surface_id'') ''must be null for an empty group''
       else err_if (case wg_active_surface_id g of None \<Rightarrow> True
                  | Some active \<Rightarrow> active = [] \<or> active \<notin> set (wg_surface_ids g))
              (path @ ''.active_surface_id'') ''must reference a tab in the group''))"

definition open_surface_references :: "wb_doc \<Rightarrow> string list" where
  "open_surface_references doc = [i. (key, g) \<leftarrow> wd_groups doc, i \<leftarrow> wg_surface_ids g, i \<noteq> []]"

definition reference_counts :: "string list \<Rightarrow> (string \<rightharpoonup> nat)" where
  "reference_counts values =
     foldl (\<lambda>counts v. counts(v \<mapsto> Suc (case counts v of None \<Rightarrow> 0 | Some n \<Rightarrow> n))) Map.empty values"

definition provenance_errors :: "wb_surface \<Rightarrow> string \<Rightarrow> validation_error list" where
  "provenance_errors s path =
     (case ws_provenance s of
        None \<Rightarrow> []
      | Some (ExplicitDuplicate duplicate partner provisional) \<Rightarrow>
          err_if (duplicate \<noteq> ws_surface_id s) (path @ ''.duplicate_surface_id'') ''must match the owning surface_id'' @
          err_if (partner = Some []) (path @ ''.partner_surface_id'') ''must be a non-empty string or null'' @
          err_if (partner = Some (ws_surface_id s)) (path @ ''.partner_surface_id'')
            ''must not reference the duplicate surface itself'' @
          err_if (provisional = []) (path @ ''.provisional_resource_key'') ''must be a non-empty string'')"

text \<open>The walk over a JSON value with its explicit stack, the last entry on top.\<close>

fun number_ok :: "json_num \<Rightarrow> bool" where
  "number_ok FloatNegZero \<longleftrightarrow> False"
| "number_ok _ \<longleftrightarrow> True"

definition number_message :: string where
  "number_message = ''must contain only round-trippable finite JSON numbers''"

function json_walk :: "(json \<times> string) list \<Rightarrow> validation_error list" where
  "json_walk [] = []"
| "json_walk ((value, path) # stack) =
     (case value of
        JNumber n \<Rightarrow> err_if (\<not> number_ok n) path number_message @ json_walk stack
      | JArray vs \<Rightarrow> json_walk (map (\<lambda>i. (vs ! i, indexed path i)) [0..<length vs] @ stack)
      | JObject m \<Rightarrow> json_walk (map (\<lambda>(k, v). (v, path @ ''.'' @ k)) m @ stack)
      | _ \<Rightarrow> json_walk stack)"
  by pat_completeness auto

text \<open>How many values a stack holds, nested ones included.\<close>

fun json_weight :: "json \<Rightarrow> nat" where
  "json_weight (JArray vs) = Suc (sum_list (map json_weight vs))"
| "json_weight (JObject m) = Suc (sum_list (map (\<lambda>e. json_weight (snd e)) m))"
| "json_weight _ = 1"

lemma json_weight_pos: "0 < json_weight v"
  by (cases v) auto

lemma array_weight:
  "sum_list (map ((\<lambda>e. json_weight (fst e)) \<circ> (\<lambda>i. (vs ! i, p i))) [0..<length vs]) =
   sum_list (map json_weight vs)"
proof -
  have "map ((\<lambda>e. json_weight (fst e)) \<circ> (\<lambda>i. (vs ! i, p i))) [0..<length vs] = map json_weight vs"
    by (rule nth_equalityI) simp_all
  then show ?thesis by simp
qed

termination json_walk
proof (relation "measure (\<lambda>stack. sum_list (map (\<lambda>e. json_weight (fst e)) stack))")
  show "(map (\<lambda>i. (vs ! i, indexed path i)) [0..<length vs] @ stack, (value, path) # stack)
      \<in> measure (\<lambda>stack. sum_list (map (\<lambda>e. json_weight (fst e)) stack))"
    if "value = JArray vs" for "value" path stack vs
    using that array_weight [of vs "indexed path"] by simp
  show "(map (\<lambda>(k, v). (v, path @ ''.'' @ k)) m @ stack, (value, path) # stack)
      \<in> measure (\<lambda>stack. sum_list (map (\<lambda>e. json_weight (fst e)) stack))"
    if "value = JObject m" for "value" path stack m
    using that by (simp add: comp_def split_def)
qed (auto simp: json_weight_pos)

definition surface_errors :: "'c wb_codec_scheme \<Rightarrow> wb_surface \<Rightarrow> string \<Rightarrow> validation_error list" where
  "surface_errors c s path =
     err_if (ws_surface_id s = []) (path @ ''.surface_id'') ''must be a non-empty string'' @
     err_if (ws_surface_type s = []) (path @ ''.surface_type'') ''must be a non-empty string'' @
     provenance_errors s (path @ ''.presentation_provenance'') @
     safe_integer_errors (ws_state_schema_version s) (path @ ''.state_schema_version'') @
     json_walk [(ws_state s, path @ ''.state'')] @
     err_if (length (wc_value_to_vec c (ws_state s)) > MAX_WORKBENCH_SURFACE_STATE_BYTES)
       (path @ ''.state'') ''exceeds the 64 KiB UTF-8 limit''"

definition shell_errors :: "wb_shell \<Rightarrow> validation_error list" where
  "shell_errors s = concat (map (\<lambda>(path, value).
       err_if (\<not> f64_is_finite value \<or> f64_negative value \<or> value = NegZero) path ''must be a finite non-negative number'')
     [(''$.shell.left_sidebar_width'', sh_left_width s),
      (''$.shell.right_sidebar_width'', sh_right_width s),
      (''$.shell.bottom_terminal_height'', sh_terminal_height s)])"

definition closed_errors :: "'c wb_codec_scheme \<Rightarrow> nat \<times> closed_surface \<Rightarrow> validation_error list" where
  "closed_errors c entry =
     (let (index, cl) = entry; path = indexed ''$.recently_closed'' index in
      surface_errors c (cl_surface cl) (path @ ''.surface'') @
      err_if (cl_previous_group_id cl = []) (path @ ''.previous_group_id'') ''must be a non-empty string'' @
      safe_integer_errors (cl_previous_index cl) (path @ ''.previous_index''))"

definition graph_errors :: "'c wb_codec_scheme \<Rightarrow> wb_doc \<Rightarrow> validation_error list" where
  "graph_errors c doc =
     (let (refs, ids, tree_errs) = validate_node (wd_root doc) 1 ''$.root'' ([], {}, []);
          group_counts = reference_counts refs;
          opened = open_surface_references doc;
          surface_counts = reference_counts opened in
      err_if (wd_schema_version doc \<noteq> WORKBENCH_SCHEMA_VERSION) ''$.schema_version'' ''must equal 1'' @
      safe_integer_errors (wd_revision doc) ''$.revision'' @
      err_if (\<not> is_canonical_timestamp c (wd_saved_at doc)) ''$.saved_at''
        ''must be a canonical UTC millisecond timestamp'' @
      tree_errs @
      concat (map group_errors (wd_groups doc)) @
      concat (map (\<lambda>k. err_if (group_counts k \<noteq> Some 1) (''$.groups.'' @ k)
        ''must be referenced exactly once by the tree'') (map fst (wd_groups doc))) @
      concat (map (\<lambda>g. err_if (g \<notin> fst ` set (wd_groups doc)) ''$.root'' (''references missing group '' @ g)) refs) @
      concat (map (\<lambda>(k, s). surface_errors c s (''$.surfaces.'' @ k) @
        err_if (ws_surface_id s \<noteq> k) (''$.surfaces.'' @ k @ ''.surface_id'') ''must match its record key'')
        (wd_surfaces doc)) @
      concat (map (\<lambda>k. err_if (surface_counts k \<noteq> Some 1) (''$.surfaces.'' @ k)
        ''must be referenced exactly once by a group'') (map fst (wd_surfaces doc))) @
      concat (map (\<lambda>i. err_if (i \<notin> fst ` set (wd_surfaces doc)) ''$.groups'' (''references missing surface '' @ i)) opened) @
      err_if (wd_active_group_id doc = [] \<or> wd_active_group_id doc \<notin> fst ` set (wd_groups doc) \<or>
            wd_active_group_id doc \<notin> set refs) ''$.active_group_id'' ''must reference a tree group'' @
      err_if (length (wd_recently_closed doc) > MAX_RECENTLY_CLOSED_SURFACES) ''$.recently_closed''
        ''must contain at most 20 surfaces'' @
      concat (map (closed_errors c) (enumerate 0 (wd_recently_closed doc))) @
      shell_errors (wd_shell doc))"

definition validate_doc :: "'c wb_codec_scheme \<Rightarrow> wb_doc \<Rightarrow> validation_error list + unit" where
  "validate_doc c doc =
     (let errs = graph_errors c doc;
          errs = (if errs = [] then err_if (length (wc_to_vec c doc) > MAX_WORKBENCH_DOCUMENT_BYTES) ''$''
                    ''exceeds the 2 MiB UTF-8 document limit'' else errs)
      in if errs = [] then Inr () else Inl errs)"

end
