(* ===== verification/Atomic_File.thy ===== *)
theory Atomic_File
  imports Prelude
begin

text \<open>
  Atomic, durable replacement of a file (\<open>crates/wardian-core/src/atomic_file.rs\<close>) in one
  directory. A system call asks the environment whether it works, fails without an effect, or
  reports an error after its effect (which is also how a crash at that point looks from the
  directory). Besides what the directory shows, the model keeps for every name what it may
  hold after a loss of power: contents that were not flushed are torn, and a changed entry
  may come back in any of its versions since the directory itself was last flushed. The
  directory is made when a file is first staged; nothing flushes the directories above it, so
  until the operating system does, a loss of power may take a new directory away with all its
  files. The operating system is a Unix one; a missing directory shows no entries.
\<close>

section \<open>The directory\<close>

datatype dir_entry = RegularFile string bool | OtherEntry

datatype survivor = Absent | Whole string | Torn

datatype folder = FolderMissing | FolderUnflushed | FolderDurable

record disk =
  dk_folder :: folder
  dk_entries :: "(string \<times> dir_entry) list"
  dk_survives :: "string \<Rightarrow> survivor list"

fun survivor_of :: "dir_entry option \<Rightarrow> survivor" where
  "survivor_of None = Absent"
| "survivor_of (Some (RegularFile c synced)) = (if synced then Whole c else Torn)"
| "survivor_of (Some OtherEntry) = Torn"

definition entry :: "'d disk_scheme \<Rightarrow> string \<Rightarrow> dir_entry option" where
  "entry d n = map_of (dk_entries d) n"

definition put_entry :: "string \<Rightarrow> dir_entry \<Rightarrow> 'd disk_scheme \<Rightarrow> 'd disk_scheme" where
  "put_entry n e d = d\<lparr>dk_entries := AList.update n e (dk_entries d),
     dk_survives := (dk_survives d)(n := survivor_of (Some e) # dk_survives d n)\<rparr>"

definition drop_entry :: "string \<Rightarrow> 'd disk_scheme \<Rightarrow> 'd disk_scheme" where
  "drop_entry n d = d\<lparr>dk_entries := AList.delete n (dk_entries d),
     dk_survives := (dk_survives d)(n := Absent # dk_survives d n)\<rparr>"

text \<open>Making the directory, and those above it, where it is missing.\<close>

definition make_folder :: "'d disk_scheme \<Rightarrow> 'd disk_scheme" where
  "make_folder d = (if dk_folder d = FolderMissing then d\<lparr>dk_folder := FolderUnflushed\<rparr> else d)"

text \<open>Flushing the directory: every name in it survives as it is shown.\<close>

definition sync_dir :: "'d disk_scheme \<Rightarrow> 'd disk_scheme" where
  "sync_dir d = d\<lparr>dk_survives := (\<lambda>n. [survivor_of (entry d n)])\<rparr>"

section \<open>Effects\<close>

datatype io_error = NotFound | AlreadyExists | OsError string

datatype io_answer = Works | Fails string | Breaks string nat

text \<open>The points at which a hook can make an operation stop.\<close>

datatype write_role = PrimaryRole | BackupRole | OtherRole

datatype fault_point =
    BeforeTempSync write_role
  | AfterTempSync write_role
  | BeforeReplace write_role
  | AfterReplace write_role
  | BeforeParentSync write_role
  | AfterParentSync write_role

type_synonym 'w hook = "fault_point \<Rightarrow> 'w \<Rightarrow> string option \<times> 'w"

definition no_atomic_fault :: "'w hook" where
  "no_atomic_fault p w = (None, w)"

record 'w fs_env =
  fs_answer :: "'w \<Rightarrow> io_answer \<times> 'w"
  fs_uuid :: "'w \<Rightarrow> string \<times> 'w"

type_synonym ('d, 'w, 'e, 'a) fx = "'d disk_scheme \<times> 'w \<Rightarrow> ('e + 'a) \<times> ('d disk_scheme \<times> 'w)"

definition fx_ret :: "'a \<Rightarrow> ('d, 'w, 'e, 'a) fx" where
  "fx_ret x s = (Inr x, s)"

definition fx_fail :: "'e \<Rightarrow> ('d, 'w, 'e, 'a) fx" where
  "fx_fail e s = (Inl e, s)"

definition fx_bind :: "('d, 'w, 'e, 'a) fx \<Rightarrow> ('a \<Rightarrow> ('d, 'w, 'e, 'b) fx) \<Rightarrow> ('d, 'w, 'e, 'b) fx" where
  "fx_bind m f s = (case m s of (Inl e, s') \<Rightarrow> (Inl e, s') | (Inr x, s') \<Rightarrow> f x s')"

text \<open>A call with its effect on the directory, and what is left of it when it breaks.\<close>

definition syscall ::
  "'w fs_env \<Rightarrow> ('d disk_scheme \<Rightarrow> 'd disk_scheme) \<Rightarrow> (nat \<Rightarrow> 'd disk_scheme \<Rightarrow> 'd disk_scheme) \<Rightarrow>
   ('d, 'w, io_error, unit) fx" where
  "syscall env f g = (\<lambda>(d, w).
     case fs_answer env w of
       (Works, w') \<Rightarrow> (Inr (), (f d, w'))
     | (Fails e, w') \<Rightarrow> (Inl (OsError e), (d, w'))
     | (Breaks e n, w') \<Rightarrow> (Inl (OsError e), (g n d, w')))"

definition quiet_call :: "'w fs_env \<Rightarrow> ('d, 'w, io_error, unit) fx" where
  "quiet_call env = syscall env (\<lambda>d. d) (\<lambda>_ d. d)"

definition create_dir_all :: "'w fs_env \<Rightarrow> ('d, 'w, io_error, unit) fx" where
  "create_dir_all env = syscall env make_folder (\<lambda>k d. if k = 0 then d else make_folder d)"

definition new_uuid :: "'w fs_env \<Rightarrow> ('d, 'w, io_error, string) fx" where
  "new_uuid env = (\<lambda>(d, w). let (u, w') = fs_uuid env w in (Inr u, (d, w')))"

definition check_hook :: "'w hook \<Rightarrow> fault_point \<Rightarrow> ('d, 'w, io_error, unit) fx" where
  "check_hook hook p = (\<lambda>(d, w).
     case hook p w of (None, w') \<Rightarrow> (Inr (), (d, w')) | (Some e, w') \<Rightarrow> (Inl (OsError e), (d, w')))"

definition read_file :: "'w fs_env \<Rightarrow> string \<Rightarrow> ('d, 'w, io_error, string) fx" where
  "read_file env n = fx_bind (quiet_call env) (\<lambda>_ (d, w).
     case entry d n of
       None \<Rightarrow> (Inl NotFound, (d, w))
     | Some (RegularFile c synced) \<Rightarrow> (Inr c, (d, w))
     | Some OtherEntry \<Rightarrow> (Inl (OsError ''not a regular file''), (d, w)))"

definition create_new :: "'w fs_env \<Rightarrow> string \<Rightarrow> ('d, 'w, io_error, unit) fx" where
  "create_new env n = (\<lambda>(d, w).
     if dk_folder d = FolderMissing then (Inl NotFound, (d, w))
     else if entry d n \<noteq> None then (Inl AlreadyExists, (d, w))
     else syscall env (put_entry n (RegularFile [] False)) (\<lambda>_. put_entry n (RegularFile [] False)) (d, w))"

definition write_all :: "'w fs_env \<Rightarrow> string \<Rightarrow> string \<Rightarrow> ('d, 'w, io_error, unit) fx" where
  "write_all env n bytes = syscall env (put_entry n (RegularFile bytes False))
     (\<lambda>k. put_entry n (RegularFile (take k bytes) False))"

definition sync_all :: "'w fs_env \<Rightarrow> string \<Rightarrow> string \<Rightarrow> ('d, 'w, io_error, unit) fx" where
  "sync_all env n bytes = syscall env (put_entry n (RegularFile bytes True)) (\<lambda>_ d. d)"

definition move_entry :: "string \<Rightarrow> string \<Rightarrow> 'd disk_scheme \<Rightarrow> 'd disk_scheme" where
  "move_entry from to d =
     (case entry d from of None \<Rightarrow> d | Some e \<Rightarrow> put_entry to e (drop_entry from d))"

definition rename_file :: "'w fs_env \<Rightarrow> string \<Rightarrow> string \<Rightarrow> ('d, 'w, io_error, unit) fx" where
  "rename_file env from to = (\<lambda>(d, w).
     if entry d from = None then (Inl NotFound, (d, w))
     else if entry d to = Some OtherEntry then (Inl (OsError ''not a regular file''), (d, w))
     else syscall env (move_entry from to) (\<lambda>_. move_entry from to) (d, w))"

definition remove_file :: "'w fs_env \<Rightarrow> string \<Rightarrow> ('d, 'w, io_error, unit) fx" where
  "remove_file env n = syscall env (drop_entry n) (\<lambda>_. drop_entry n)"

section \<open>Staging and replacing\<close>

definition temp_name :: "string \<Rightarrow> string \<Rightarrow> string" where
  "temp_name file_name u = ''.'' @ file_name @ ''.'' @ u @ ''.tmp''"

definition stage_bytes_atomic_with_hook ::
  "'w fs_env \<Rightarrow> 'w hook \<Rightarrow> string \<Rightarrow> string \<Rightarrow> write_role \<Rightarrow> ('d, 'w, io_error, string) fx" where
  "stage_bytes_atomic_with_hook env hook file_name bytes role =
     fx_bind (create_dir_all env) (\<lambda>_.
     fx_bind (new_uuid env) (\<lambda>u.
     let tmp = temp_name file_name u
     in fx_bind (create_new env tmp) (\<lambda>_.
        fx_bind (write_all env tmp bytes) (\<lambda>_.
        fx_bind (check_hook hook (BeforeTempSync role)) (\<lambda>_.
        fx_bind (sync_all env tmp bytes) (\<lambda>_.
        fx_bind (check_hook hook (AfterTempSync role)) (\<lambda>_. fx_ret tmp)))))))"

definition replace_staged_atomic_durable_with_hook ::
  "'w fs_env \<Rightarrow> 'w hook \<Rightarrow> string \<Rightarrow> string \<Rightarrow> write_role \<Rightarrow> ('d, 'w, io_error, unit) fx" where
  "replace_staged_atomic_durable_with_hook env hook from to role =
     fx_bind (check_hook hook (BeforeReplace role)) (\<lambda>_.
     fx_bind (rename_file env from to) (\<lambda>_.
     fx_bind (check_hook hook (AfterReplace role)) (\<lambda>_.
     fx_bind (check_hook hook (BeforeParentSync role)) (\<lambda>_.
     fx_bind (quiet_call env) (\<lambda>_.
     fx_bind (syscall env sync_dir (\<lambda>_ d. d)) (\<lambda>_.
     check_hook hook (AfterParentSync role)))))))"

definition write_bytes_atomic_durable_with_hook ::
  "'w fs_env \<Rightarrow> 'w hook \<Rightarrow> string \<Rightarrow> string \<Rightarrow> write_role \<Rightarrow> ('d, 'w, io_error, unit) fx" where
  "write_bytes_atomic_durable_with_hook env hook file_name bytes role =
     fx_bind (stage_bytes_atomic_with_hook env hook file_name bytes role) (\<lambda>tmp.
       replace_staged_atomic_durable_with_hook env hook tmp file_name role)"

definition write_bytes_atomic_durable ::
  "'w fs_env \<Rightarrow> string \<Rightarrow> string \<Rightarrow> ('d, 'w, io_error, unit) fx" where
  "write_bytes_atomic_durable env file_name bytes =
     write_bytes_atomic_durable_with_hook env no_atomic_fault file_name bytes OtherRole"

section \<open>Left-over files\<close>

definition ascii_hexdigit :: "char \<Rightarrow> bool" where
  "ascii_hexdigit c \<longleftrightarrow> ascii_digit c \<or> (CHR ''a'' \<le> c \<and> c \<le> CHR ''f'') \<or> (CHR ''A'' \<le> c \<and> c \<le> CHR ''F'')"

definition is_owned_atomic_temp_name :: "string \<Rightarrow> string \<Rightarrow> string \<Rightarrow> bool" where
  "is_owned_atomic_temp_name name target_name legacy_name =
     (if name = legacy_name then True
      else let pre = ''.'' @ target_name @ ''.'' in
        if \<not> prefix pre name then False
        else let rest = drop (length pre) name in
          if \<not> suffix ''.tmp'' rest then False
          else let identifier = take (length rest - 4) rest in
            length identifier = 32 \<and> list_all ascii_hexdigit identifier)"

fun remove_owned :: "'w fs_env \<Rightarrow> string \<Rightarrow> string list \<Rightarrow> ('d, 'w, io_error, unit) fx" where
  "remove_owned env file_name [] = fx_ret ()"
| "remove_owned env file_name (n # ns) =
     fx_bind (quiet_call env) (\<lambda>_.
     fx_bind (if is_owned_atomic_temp_name n file_name (''.'' @ file_name @ ''.tmp'')
              then fx_bind (quiet_call env) (\<lambda>_ (d, w).
                (case entry d n of
                   Some (RegularFile c synced) \<Rightarrow> remove_file env n (d, w)
                 | _ \<Rightarrow> (Inr (), (d, w))))
              else fx_ret ())
       (\<lambda>_. remove_owned env file_name ns))"

definition cleanup_atomic_temps :: "'w fs_env \<Rightarrow> string \<Rightarrow> ('d, 'w, io_error, unit) fx" where
  "cleanup_atomic_temps env file_name =
     fx_bind (quiet_call env) (\<lambda>_ (d, w). remove_owned env file_name (map fst (dk_entries d)) (d, w))"

end
