(* ===== verification/Workbench_Store.thy ===== *)
theory Workbench_Store
  imports Workbench Atomic_File
begin

text \<open>
  Loading, compare-and-swap saving and resetting of the saved layout
  (\<open>crates/wardian-core/src/workbench.rs\<close>): a primary file and the last known good one beside
  it, the token of a document (the digest of its bytes), and the ledger that recognizes a
  request that is sent again. The operations of one home run one at a time, under its lock;
  \<open>we_home\<close> is the key of the home. The codec (serde, SHA-256), the file system and the clock
  are parameters.
\<close>

section \<open>Requests and results\<close>

datatype load_source = PrimarySource | BackupSource | DefaultSource | FutureSource

datatype persistence_outcome = Saved | RevisionConflict | FutureSchemaOutcome

record load_result =
  lr_source :: load_source
  lr_document :: "wb_doc option"
  lr_notice :: "string option"
  lr_durable_revision :: "u64 option"
  lr_durable_token :: "string option"

record save_request =
  sq_document :: wb_doc
  sq_expected_revision :: u64
  sq_expected_token :: string
  sq_request_id :: string

record save_result =
  sr_outcome :: persistence_outcome
  sr_durable_revision :: "u64 option"
  sr_durable_token :: "string option"
  sr_request_id :: string

record reset_request =
  rq_expected_revision :: u64
  rq_expected_token :: string
  rq_request_id :: string

record reset_result =
  rr_outcome :: persistence_outcome
  rr_durable_revision :: "u64 option"
  rr_durable_token :: "string option"
  rr_request_id :: string
  rr_document :: "wb_doc option"

datatype slot_state =
    SlotMissing
  | SlotInvalid
  | SlotFuture
  | SlotValid wb_doc string string

text \<open>Source, document, token, notice, the bytes of a valid primary.\<close>

datatype resolved_state =
    ResolvedFuture string
  | ResolvedV1 load_source wb_doc string "string option" "string option"

datatype wb_error = InvalidDocument "validation_error list" | WbIo io_error | Unresponsive

section \<open>The ledger of requests\<close>

definition MAX_REQUEST_LEDGER_ENTRIES_PER_HOME :: nat where "MAX_REQUEST_LEDGER_ENTRIES_PER_HOME = 256"
definition MAX_REQUEST_LEDGER_HOMES :: nat where "MAX_REQUEST_LEDGER_HOMES = 64"

datatype request_kind = SaveKind | ResetKind

datatype stored_result = StoredSave save_result | StoredReset reset_result

record request_entry =
  re_kind :: request_kind
  re_fingerprint :: string
  re_result :: stored_result

record home_ledger =
  hl_entries :: "(string \<times> request_entry) list"
  hl_order :: "string list"

record ledgers =
  lg_homes :: "(string \<times> home_ledger) list"
  lg_order :: "string list"

definition touch_home :: "string \<Rightarrow> ledgers \<Rightarrow> ledgers" where
  "touch_home home l = l\<lparr>lg_order := filter (\<lambda>known. known \<noteq> home) (lg_order l) @ [home]\<rparr>"

fun prune_list :: "string list \<Rightarrow> (string \<times> home_ledger) list \<Rightarrow> string list \<times> (string \<times> home_ledger) list" where
  "prune_list [] homes = ([], homes)"
| "prune_list (oldest # order) homes =
     (if length homes > MAX_REQUEST_LEDGER_HOMES then prune_list order (AList.delete oldest homes)
      else (oldest # order, homes))"

definition prune_homes :: "ledgers \<Rightarrow> ledgers" where
  "prune_homes l = (let (order, homes) = prune_list (lg_order l) (lg_homes l)
     in l\<lparr>lg_homes := homes, lg_order := order\<rparr>)"

text \<open>The loop over the entries does not end when the order is empty too early (\<open>None\<close>).\<close>

fun trim_entries ::
  "string list \<Rightarrow> (string \<times> request_entry) list \<Rightarrow> (string list \<times> (string \<times> request_entry) list) option" where
  "trim_entries [] entries = (if length entries > MAX_REQUEST_LEDGER_ENTRIES_PER_HOME then None else Some ([], entries))"
| "trim_entries (oldest # order) entries =
     (if length entries > MAX_REQUEST_LEDGER_ENTRIES_PER_HOME then trim_entries order (AList.delete oldest entries)
      else Some (oldest # order, entries))"

definition find_ledger_entry :: "string \<Rightarrow> string \<Rightarrow> ledgers \<Rightarrow> request_entry option \<times> ledgers" where
  "find_ledger_entry home request_id l =
     (let found = Option.bind (map_of (lg_homes l) home) (\<lambda>h. map_of (hl_entries h) request_id)
      in (found, if map_of (lg_homes l) home \<noteq> None then touch_home home l else l))"

definition remember_request :: "string \<Rightarrow> string \<Rightarrow> request_entry \<Rightarrow> ledgers \<Rightarrow> ledgers option" where
  "remember_request home request_id e l =
     (let l1 = touch_home home l;
          h = (case map_of (lg_homes l1) home of None \<Rightarrow> \<lparr>hl_entries = [], hl_order = []\<rparr> | Some h \<Rightarrow> h);
          order = (if map_of (hl_entries h) request_id = None then hl_order h @ [request_id] else hl_order h)
      in case trim_entries order (AList.update request_id e (hl_entries h)) of
           None \<Rightarrow> None
         | Some (order, entries) \<Rightarrow>
             Some (prune_homes (l1\<lparr>lg_homes := AList.update home \<lparr>hl_entries = entries, hl_order = order\<rparr>
               (lg_homes l1)\<rparr>)))"

section \<open>Unambiguous JSON\<close>

text \<open>What the deserializer hands to the visitor.\<close>

datatype token_tree =
    TokUnit
  | TokBool bool
  | TokI64 int
  | TokU64 u64
  | TokF64 f64
  | TokStr string
  | TokSeq "token_tree list"
  | TokMap "(string \<times> token_tree) list"

fun strict_tree :: "token_tree \<Rightarrow> bool" and strict_trees :: "token_tree list \<Rightarrow> bool"
  and strict_entries :: "string set \<Rightarrow> (string \<times> token_tree) list \<Rightarrow> bool" where
  "strict_tree (TokF64 x) \<longleftrightarrow> x \<noteq> NegZero"
| "strict_tree (TokSeq ts) \<longleftrightarrow> strict_trees ts"
| "strict_tree (TokMap m) \<longleftrightarrow> strict_entries {} m"
| "strict_tree _ \<longleftrightarrow> True"
| "strict_trees [] \<longleftrightarrow> True"
| "strict_trees (t # ts) \<longleftrightarrow> strict_tree t \<and> strict_trees ts"
| "strict_entries keys [] \<longleftrightarrow> True"
| "strict_entries keys ((k, t) # m) \<longleftrightarrow> k \<notin> keys \<and> strict_tree t \<and> strict_entries (insert k keys) m"

text \<open>The scan of the bytes for a negative zero: strings are skipped, numbers are read.\<close>

fun skip_string :: "string \<Rightarrow> string" where
  "skip_string [] = []"
| "skip_string (c # r) =
     (if c = CHR 0x5C then skip_string (drop 1 r)
      else if c = CHR 0x22 then r else skip_string r)"

fun scan_digits :: "bool \<Rightarrow> string \<Rightarrow> bool \<times> string" where
  "scan_digits nonzero [] = (nonzero, [])"
| "scan_digits nonzero (c # r) =
     (if ascii_digit c then scan_digits (nonzero \<or> c \<noteq> CHR ''0'') r else (nonzero, c # r))"

definition scan_fraction :: "bool \<Rightarrow> string \<Rightarrow> bool \<times> string" where
  "scan_fraction nonzero rest =
     (case rest of
        c # r \<Rightarrow> if c = CHR ''.'' then scan_digits nonzero r else (nonzero, rest)
      | [] \<Rightarrow> (nonzero, rest))"

definition scan_significand :: "string \<Rightarrow> bool \<times> string" where
  "scan_significand s = (let (nonzero, rest) = scan_digits False s in scan_fraction nonzero rest)"

definition skip_sign :: "string \<Rightarrow> string" where
  "skip_sign s = (case s of
     sign # r \<Rightarrow> if sign = CHR ''+'' \<or> sign = CHR ''-'' then r else s
   | [] \<Rightarrow> s)"

definition scan_exponent :: "string \<Rightarrow> string" where
  "scan_exponent s =
     (case s of
        c # r \<Rightarrow> if c = CHR ''e'' \<or> c = CHR ''E'' then snd (scan_digits False (skip_sign r)) else s
      | [] \<Rightarrow> s)"

lemma skip_string_length: "length (skip_string s) \<le> length s"
proof (induction s rule: length_induct)
  case (1 s)
  show ?case
  proof (cases s)
    case (Cons c r)
    have "length (skip_string t) \<le> length t" if "length t < length s" for t using 1 that by blast
    from this [of r] this [of "drop 1 r"] Cons
    have "length (skip_string r) \<le> Suc (length r)" "length (skip_string (drop 1 r)) \<le> Suc (length r)"
      by simp_all linarith
    then show ?thesis unfolding Cons skip_string.simps by (simp only: if_split length_Cons le_SucI) simp
  qed simp
qed

lemma scan_digits_length: "length (snd (scan_digits b s)) \<le> length s"
  by (induction b s rule: scan_digits.induct) auto

lemma scan_fraction_length: "length (snd (scan_fraction b s)) \<le> length s"
proof (cases s)
  case (Cons c r)
  then show ?thesis using scan_digits_length [of b r] by (cases "c = CHR ''.''") (simp_all add: scan_fraction_def)
qed (simp add: scan_fraction_def)

lemma scan_significand_length: "length (snd (scan_significand s)) \<le> length s"
proof (cases "scan_digits False s")
  case (Pair nonzero rest)
  with scan_digits_length [of False s] scan_fraction_length [of nonzero rest]
  show ?thesis by (simp add: scan_significand_def)
qed

lemma skip_sign_length: "length (skip_sign s) \<le> length s"
  by (cases s) (simp_all add: skip_sign_def)

lemma scan_exponent_length: "length (scan_exponent s) \<le> length s"
proof (cases s)
  case (Cons c r)
  show ?thesis
  proof (cases "c = CHR ''e'' \<or> c = CHR ''E''")
    case True
    then have "scan_exponent s = snd (scan_digits False (skip_sign r))" by (simp add: scan_exponent_def Cons)
    with scan_digits_length [of False "skip_sign r"] skip_sign_length [of r] Cons show ?thesis by simp
  next
    case False
    then show ?thesis by (simp add: scan_exponent_def Cons)
  qed
qed (simp add: scan_exponent_def)

lemma scan_significand_digit:
  assumes "ascii_digit c"
  shows "length (snd (scan_significand (c # s))) \<le> length s"
proof (cases "scan_digits (c \<noteq> CHR ''0'') s")
  case (Pair nonzero rest)
  with scan_digits_length [of "c \<noteq> CHR ''0''" s] have "length rest \<le> length s" by simp
  moreover have "scan_significand (c # s) = scan_fraction nonzero rest"
    using assms Pair by (simp add: scan_significand_def)
  ultimately show ?thesis using scan_fraction_length [of nonzero rest] by simp
qed

function contains_negative_zero_lexeme :: "string \<Rightarrow> bool" where
  "contains_negative_zero_lexeme [] = False"
| "contains_negative_zero_lexeme (c # r) =
     (if c = CHR 0x22 then contains_negative_zero_lexeme (skip_string r)
      else
        let negative = (c = CHR ''-'') in
        if \<not> (ascii_digit c \<or> negative \<and> r \<noteq> [] \<and> ascii_digit (hd r)) then contains_negative_zero_lexeme r
        else
          let p = scan_significand (if negative then r else c # r) in
          if negative \<and> \<not> fst p then True else contains_negative_zero_lexeme (scan_exponent (snd p)))"
  by pat_completeness simp_all
termination
proof (relation "measure length")
  fix c r negative and p :: "bool \<times> string"
  assume starts: "\<not> \<not> (ascii_digit c \<or> negative \<and> r \<noteq> [] \<and> ascii_digit (hd r))"
    and p: "p = scan_significand (if negative then r else c # r)"
  have "length (snd p) \<le> length r"
  proof (cases negative)
    case True
    with p scan_significand_length [of r] show ?thesis by simp
  next
    case False
    with starts p scan_significand_digit [of c r] show ?thesis by simp
  qed
  with scan_exponent_length [of "snd p"]
  show "(scan_exponent (snd p), c # r) \<in> measure length" by simp
qed (simp_all add: skip_string_length le_imp_less_Suc)

declare contains_negative_zero_lexeme.simps [simp del]

section \<open>Slots\<close>

record wb_io = wb_codec +
  wi_tokens :: "string \<Rightarrow> token_tree option"
  wi_from_slice :: "string \<Rightarrow> json option"
  wi_from_value :: "json \<Rightarrow> wb_doc option"
  wi_digest :: "string \<Rightarrow> string"

definition token_for :: "wb_io \<Rightarrow> string \<Rightarrow> string" where
  "token_for c bytes = wi_digest c bytes"

definition strict_json_preflight :: "wb_io \<Rightarrow> string \<Rightarrow> bool" where
  "strict_json_preflight c bytes =
     (case wi_tokens c bytes of
        None \<Rightarrow> False
      | Some t \<Rightarrow> strict_tree t \<and> \<not> contains_negative_zero_lexeme bytes)"

definition classify_bytes :: "wb_io \<Rightarrow> string \<Rightarrow> slot_state" where
  "classify_bytes c bytes =
     (if \<not> strict_json_preflight c bytes then SlotInvalid
      else case wi_from_slice c bytes of
        None \<Rightarrow> SlotInvalid
      | Some v \<Rightarrow>
          (case Option.bind (jget ''schema_version'' v) as_u64 of
             None \<Rightarrow> SlotInvalid
           | Some schema_version \<Rightarrow>
               if schema_version > WORKBENCH_SCHEMA_VERSION then SlotFuture
               else if length bytes > MAX_WORKBENCH_DOCUMENT_BYTES then SlotInvalid
               else if schema_version \<noteq> WORKBENCH_SCHEMA_VERSION then SlotInvalid
               else case wi_from_value c v of
                 None \<Rightarrow> SlotInvalid
               | Some doc \<Rightarrow>
                   (case validate_doc c doc of
                      Inl _ \<Rightarrow> SlotInvalid
                    | Inr _ \<Rightarrow> SlotValid doc bytes (token_for c bytes))))"

record session = disk +
  ss_ledgers :: ledgers

record 'w wb_env =
  we_fs :: "'w fs_env"
  we_codec :: wb_io
  we_now :: "'w \<Rightarrow> string \<times> 'w"
  we_home :: string

type_synonym ('w, 'a) wb = "(unit session_ext, 'w, wb_error, 'a) fx"

definition fx_io :: "('d, 'w, io_error, 'a) fx \<Rightarrow> ('d, 'w, wb_error, 'a) fx" where
  "fx_io m s = (case m s of (Inl e, s') \<Rightarrow> (Inl (WbIo e), s') | (Inr x, s') \<Rightarrow> (Inr x, s'))"

definition primary_name :: string where "primary_name = ''workbench.json''"

definition backup_name :: string where "backup_name = ''workbench.backup.json''"

definition classify_slot :: "'w wb_env \<Rightarrow> string \<Rightarrow> ('w, slot_state) wb" where
  "classify_slot env n s =
     (case read_file (we_fs env) n s of
        (Inl NotFound, s') \<Rightarrow> (Inr SlotMissing, s')
      | (Inl e, s') \<Rightarrow> (Inl (WbIo e), s')
      | (Inr bytes, s') \<Rightarrow> (Inr (classify_bytes (we_codec env) bytes), s'))"

definition future_primary_notice :: string where
  "future_primary_notice = ''This workbench was written by a newer Wardian version and is read-only.''"

definition future_backup_notice :: string where
  "future_backup_notice = ''The workbench backup was written by a newer Wardian version and is read-only.''"

definition default_notice :: "slot_state \<Rightarrow> slot_state \<Rightarrow> string option" where
  "default_notice primary backup =
     (if primary = SlotInvalid then Some ''Wardian could not restore the saved workbench and opened a default.''
      else if backup = SlotInvalid then Some ''Wardian could not restore the workbench backup and opened a default.''
      else None)"

definition resolve_default :: "wb_io \<Rightarrow> slot_state \<Rightarrow> slot_state \<Rightarrow> wb_error + resolved_state" where
  "resolve_default c primary backup =
     (case validate_doc c default_document of
        Inl errs \<Rightarrow> Inl (InvalidDocument errs)
      | Inr _ \<Rightarrow> Inr (ResolvedV1 DefaultSource default_document (token_for c (wc_to_vec c default_document))
          (default_notice primary backup) None))"

definition resolve_state :: "'w wb_env \<Rightarrow> ('w, resolved_state) wb" where
  "resolve_state env =
     fx_bind (fx_io (cleanup_atomic_temps (we_fs env) primary_name)) (\<lambda>_.
     fx_bind (fx_io (cleanup_atomic_temps (we_fs env) backup_name)) (\<lambda>_.
     fx_bind (classify_slot env primary_name) (\<lambda>primary.
     case primary of
       SlotFuture \<Rightarrow> fx_ret (ResolvedFuture future_primary_notice)
     | SlotValid doc bytes token \<Rightarrow>
         fx_bind (classify_slot env backup_name) (\<lambda>backup.
         if backup = SlotFuture then fx_ret (ResolvedFuture future_backup_notice)
         else fx_ret (ResolvedV1 PrimarySource doc token None (Some bytes)))
     | _ \<Rightarrow>
         fx_bind (classify_slot env backup_name) (\<lambda>backup.
         case backup of
           SlotFuture \<Rightarrow> fx_ret (ResolvedFuture future_backup_notice)
         | SlotValid doc _ token \<Rightarrow> fx_ret (ResolvedV1 BackupSource doc token
             (Some ''Wardian recovered the workbench from its last-known-good backup.'') None)
         | _ \<Rightarrow> (\<lambda>s. (resolve_default (we_codec env) primary backup, s))))))"

section \<open>Loading\<close>

definition resolved_to_load_result :: "resolved_state \<Rightarrow> load_result" where
  "resolved_to_load_result r =
     (case r of
        ResolvedFuture notice \<Rightarrow> \<lparr>lr_source = FutureSource, lr_document = None, lr_notice = Some notice,
          lr_durable_revision = None, lr_durable_token = None\<rparr>
      | ResolvedV1 source doc token notice _ \<Rightarrow> \<lparr>lr_source = source, lr_document = Some doc, lr_notice = notice,
          lr_durable_revision = Some (wd_revision doc), lr_durable_token = Some token\<rparr>)"

definition load_workbench :: "'w wb_env \<Rightarrow> ('w, load_result) wb" where
  "load_workbench env = fx_bind (resolve_state env) (\<lambda>r. fx_ret (resolved_to_load_result r))"

section \<open>Persisting\<close>

definition persist_bytes_with_hook ::
  "'w wb_env \<Rightarrow> 'w hook \<Rightarrow> resolved_state \<Rightarrow> string \<Rightarrow> ('w, unit) wb" where
  "persist_bytes_with_hook env hook resolved bytes =
     fx_bind (fx_io (stage_bytes_atomic_with_hook (we_fs env) hook primary_name bytes PrimaryRole)) (\<lambda>tmp.
     fx_bind (case resolved of
         ResolvedV1 _ _ _ _ (Some current) \<Rightarrow>
           fx_io (write_bytes_atomic_durable_with_hook (we_fs env) hook backup_name current BackupRole)
       | _ \<Rightarrow> fx_ret ()) (\<lambda>_.
     fx_io (replace_staged_atomic_durable_with_hook (we_fs env) hook tmp primary_name PrimaryRole)))"

definition persist_bytes :: "'w wb_env \<Rightarrow> resolved_state \<Rightarrow> string \<Rightarrow> ('w, unit) wb" where
  "persist_bytes env = persist_bytes_with_hook env no_atomic_fault"

definition ledger_entry :: "'w wb_env \<Rightarrow> string \<Rightarrow> ('w, request_entry option) wb" where
  "ledger_entry env request_id = (\<lambda>(d, w).
     let (found, l) = find_ledger_entry (we_home env) request_id (ss_ledgers d)
     in (Inr found, (d\<lparr>ss_ledgers := l\<rparr>, w)))"

definition remember :: "'w wb_env \<Rightarrow> string \<Rightarrow> request_entry \<Rightarrow> ('w, unit) wb" where
  "remember env request_id e = (\<lambda>(d, w).
     case remember_request (we_home env) request_id e (ss_ledgers d) of
       None \<Rightarrow> (Inl Unresponsive, (d, w))
     | Some l \<Rightarrow> (Inr (), (d\<lparr>ss_ledgers := l\<rparr>, w)))"

definition saved_result_matches_current_primary ::
  "resolved_state \<Rightarrow> u64 option \<Rightarrow> string option \<Rightarrow> bool" where
  "saved_result_matches_current_primary resolved revision token =
     (case resolved of
        ResolvedV1 PrimarySource doc current_token _ _ \<Rightarrow>
          revision = Some (wd_revision doc) \<and> token = Some current_token
      | _ \<Rightarrow> False)"

definition durable_revision :: "resolved_state \<Rightarrow> u64 option" where
  "durable_revision r = (case r of ResolvedFuture _ \<Rightarrow> None | ResolvedV1 _ doc _ _ _ \<Rightarrow> Some (wd_revision doc))"

definition durable_token :: "resolved_state \<Rightarrow> string option" where
  "durable_token r = (case r of ResolvedFuture _ \<Rightarrow> None | ResolvedV1 _ _ token _ _ \<Rightarrow> Some token)"

definition save_result_for_resolved :: "resolved_state \<Rightarrow> persistence_outcome \<Rightarrow> string \<Rightarrow> save_result" where
  "save_result_for_resolved r outcome request_id =
     \<lparr>sr_outcome = outcome, sr_durable_revision = durable_revision r, sr_durable_token = durable_token r,
      sr_request_id = request_id\<rparr>"

definition reset_result_for_resolved ::
  "resolved_state \<Rightarrow> persistence_outcome \<Rightarrow> string \<Rightarrow> wb_doc option \<Rightarrow> reset_result" where
  "reset_result_for_resolved r outcome request_id doc =
     \<lparr>rr_outcome = outcome, rr_durable_revision = durable_revision r, rr_durable_token = durable_token r,
      rr_request_id = request_id, rr_document = doc\<rparr>"

section \<open>Saving\<close>

definition fingerprint_of :: "u64 \<Rightarrow> string \<Rightarrow> string" where
  "fingerprint_of revision token = show_nat (unat revision) @ '':'' @ token"

text \<open>The answer to a request that is in the ledger.\<close>

definition replayed_save :: "resolved_state \<Rightarrow> string \<Rightarrow> request_entry \<Rightarrow> save_result option" where
  "replayed_save resolved fingerprint e =
     (if re_kind e = SaveKind \<and> re_fingerprint e = fingerprint
      then (case re_result e of
              StoredSave result \<Rightarrow>
                if saved_result_matches_current_primary resolved (sr_durable_revision result) (sr_durable_token result)
                then Some result else None
            | StoredReset _ \<Rightarrow> None)
      else None)"

definition saved_and_remembered ::
  "'w wb_env \<Rightarrow> string \<Rightarrow> string \<Rightarrow> u64 \<Rightarrow> string \<Rightarrow> ('w, save_result) wb" where
  "saved_and_remembered env request_id fingerprint revision token =
     (let result = \<lparr>sr_outcome = Saved, sr_durable_revision = Some revision, sr_durable_token = Some token,
            sr_request_id = request_id\<rparr>
      in fx_bind (remember env request_id \<lparr>re_kind = SaveKind, re_fingerprint = fingerprint,
           re_result = StoredSave result\<rparr>) (\<lambda>_. fx_ret result))"

text \<open>A valid request, after its lookup in the ledger.\<close>

definition save_looked_up ::
  "'w wb_env \<Rightarrow> save_request \<Rightarrow> resolved_state \<Rightarrow> load_source \<Rightarrow> wb_doc \<Rightarrow> string \<Rightarrow> request_entry option \<Rightarrow>
   ('w, save_result) wb" where
  "save_looked_up env request resolved source durable_document token found =
     (let incoming_bytes = wc_to_vec (we_codec env) (sq_document request);
          incoming_token = token_for (we_codec env) incoming_bytes;
          fingerprint = fingerprint_of (wd_revision (sq_document request)) incoming_token;
          conflict = fx_ret (save_result_for_resolved resolved RevisionConflict (sq_request_id request))
      in case found of
           Some e \<Rightarrow>
             (case replayed_save resolved fingerprint e of
                Some result \<Rightarrow> fx_ret result
              | None \<Rightarrow> conflict)
         | None \<Rightarrow>
             if source = PrimarySource \<and> wd_revision (sq_document request) = wd_revision durable_document \<and>
                incoming_token = token
             then saved_and_remembered env (sq_request_id request) fingerprint (wd_revision durable_document) token
             else if \<not> (sq_expected_revision request = wd_revision durable_document \<and>
                        sq_expected_token request = token \<and>
                        sq_expected_revision request < MAX_SAFE_INTEGER \<and>
                        sq_expected_revision request \<noteq> - 1 \<and>
                        sq_expected_revision request + 1 = wd_revision (sq_document request))
             then conflict
             else fx_bind (persist_bytes env resolved incoming_bytes) (\<lambda>_.
               saved_and_remembered env (sq_request_id request) fingerprint
                 (wd_revision (sq_document request)) incoming_token))"

definition save_workbench_locked :: "'w wb_env \<Rightarrow> save_request \<Rightarrow> ('w, save_result) wb" where
  "save_workbench_locked env request =
     fx_bind (resolve_state env) (\<lambda>resolved.
     case resolved of
       ResolvedFuture _ \<Rightarrow> fx_ret (save_result_for_resolved resolved FutureSchemaOutcome (sq_request_id request))
     | ResolvedV1 source durable_document token _ _ \<Rightarrow>
         (case validate_doc (we_codec env) (sq_document request) of
            Inl errs \<Rightarrow> fx_fail (InvalidDocument errs)
          | Inr _ \<Rightarrow> fx_bind (ledger_entry env (sq_request_id request))
              (save_looked_up env request resolved source durable_document token)))"

section \<open>Resetting\<close>

fun node_eq :: "wb_node \<Rightarrow> wb_node \<Rightarrow> bool" where
  "node_eq (GroupNode g) (GroupNode g') \<longleftrightarrow> g = g'"
| "node_eq (SplitNode i dir ratio a b) (SplitNode i' dir' ratio' a' b') \<longleftrightarrow>
     i = i' \<and> dir = dir' \<and> f64_eq ratio ratio' \<and> node_eq a a' \<and> node_eq b b'"
| "node_eq _ _ \<longleftrightarrow> False"

definition surface_eq :: "wb_surface \<Rightarrow> wb_surface \<Rightarrow> bool" where
  "surface_eq s s' \<longleftrightarrow> ws_surface_id s = ws_surface_id s' \<and> ws_surface_type s = ws_surface_type s' \<and>
     ws_resource_key s = ws_resource_key s' \<and> ws_provenance s = ws_provenance s' \<and>
     ws_state_schema_version s = ws_state_schema_version s' \<and> json_eq (ws_state s) (ws_state s')"

definition closed_eq :: "closed_surface \<Rightarrow> closed_surface \<Rightarrow> bool" where
  "closed_eq a b \<longleftrightarrow> surface_eq (cl_surface a) (cl_surface b) \<and>
     cl_previous_group_id a = cl_previous_group_id b \<and> cl_previous_index a = cl_previous_index b"

definition shell_eq :: "wb_shell \<Rightarrow> wb_shell \<Rightarrow> bool" where
  "shell_eq a b \<longleftrightarrow> sh_left_collapsed a = sh_left_collapsed b \<and> f64_eq (sh_left_width a) (sh_left_width b) \<and>
     sh_right_collapsed a = sh_right_collapsed b \<and> f64_eq (sh_right_width a) (sh_right_width b) \<and>
     sh_terminal_open a = sh_terminal_open b \<and> f64_eq (sh_terminal_height a) (sh_terminal_height b)"

definition doc_eq :: "wb_doc \<Rightarrow> wb_doc \<Rightarrow> bool" where
  "doc_eq a b \<longleftrightarrow> wd_schema_version a = wd_schema_version b \<and> wd_revision a = wd_revision b \<and>
     wd_saved_at a = wd_saved_at b \<and> node_eq (wd_root a) (wd_root b) \<and> wd_groups a = wd_groups b \<and>
     list_all2 (\<lambda>(k, s) (k', s'). k = k' \<and> surface_eq s s') (wd_surfaces a) (wd_surfaces b) \<and>
     wd_active_group_id a = wd_active_group_id b \<and>
     list_all2 closed_eq (wd_recently_closed a) (wd_recently_closed b) \<and>
     shell_eq (wd_shell a) (wd_shell b)"

definition is_reset_target :: "wb_doc \<Rightarrow> u64 \<Rightarrow> bool" where
  "is_reset_target doc revision =
     doc_eq doc (default_document\<lparr>wd_revision := revision, wd_saved_at := wd_saved_at doc\<rparr>)"

definition reset_retry_token_matches :: "'w wb_env \<Rightarrow> u64 \<Rightarrow> string \<Rightarrow> ('w, bool) wb" where
  "reset_retry_token_matches env expected_revision expected_token =
     fx_bind (classify_slot env backup_name) (\<lambda>backup.
     let by_default = (expected_revision = 0 \<and>
           token_for (we_codec env) (wc_to_vec (we_codec env) default_document) = expected_token)
     in case backup of
          SlotValid doc _ token \<Rightarrow>
            if wd_revision doc = expected_revision then fx_ret (token = expected_token) else fx_ret by_default
        | _ \<Rightarrow> fx_ret by_default)"

definition replayed_reset :: "resolved_state \<Rightarrow> string \<Rightarrow> request_entry \<Rightarrow> reset_result option" where
  "replayed_reset resolved fingerprint e =
     (if re_kind e = ResetKind \<and> re_fingerprint e = fingerprint
      then (case re_result e of
              StoredReset result \<Rightarrow>
                if saved_result_matches_current_primary resolved (rr_durable_revision result) (rr_durable_token result)
                then Some result else None
            | StoredSave _ \<Rightarrow> None)
      else None)"

definition reset_and_remembered ::
  "'w wb_env \<Rightarrow> string \<Rightarrow> string \<Rightarrow> wb_doc \<Rightarrow> string \<Rightarrow> ('w, reset_result) wb" where
  "reset_and_remembered env request_id fingerprint doc token =
     (let result = \<lparr>rr_outcome = Saved, rr_durable_revision = Some (wd_revision doc), rr_durable_token = Some token,
            rr_request_id = request_id, rr_document = Some doc\<rparr>
      in fx_bind (remember env request_id \<lparr>re_kind = ResetKind, re_fingerprint = fingerprint,
           re_result = StoredReset result\<rparr>) (\<lambda>_. fx_ret result))"

definition read_clock :: "'w wb_env \<Rightarrow> ('w, string) wb" where
  "read_clock env = (\<lambda>(d, w). let (now, w') = we_now env w in (Inr now, (d, w')))"

definition write_default :: "'w wb_env \<Rightarrow> reset_request \<Rightarrow> string \<Rightarrow> resolved_state \<Rightarrow> ('w, reset_result) wb" where
  "write_default env request fingerprint resolved =
     fx_bind (read_clock env) (\<lambda>now.
     let doc = default_document\<lparr>wd_revision := rq_expected_revision request + 1, wd_saved_at := now\<rparr>
     in case validate_doc (we_codec env) doc of
          Inl errs \<Rightarrow> fx_fail (InvalidDocument errs)
        | Inr _ \<Rightarrow>
            (let bytes = wc_to_vec (we_codec env) doc; token = token_for (we_codec env) bytes
             in fx_bind (persist_bytes env resolved bytes) (\<lambda>_.
                  reset_and_remembered env (rq_request_id request) fingerprint doc token)))"

definition reset_looked_up ::
  "'w wb_env \<Rightarrow> reset_request \<Rightarrow> resolved_state \<Rightarrow> load_source \<Rightarrow> wb_doc \<Rightarrow> string \<Rightarrow> request_entry option \<Rightarrow>
   ('w, reset_result) wb" where
  "reset_looked_up env request resolved source durable_document token found =
     (let fingerprint = fingerprint_of (rq_expected_revision request) (rq_expected_token request);
          conflict = fx_ret (reset_result_for_resolved resolved RevisionConflict (rq_request_id request) None);
          fresh = (if rq_expected_revision request = wd_revision durable_document \<and>
                      rq_expected_token request = token \<and> rq_expected_revision request < MAX_SAFE_INTEGER
                   then write_default env request fingerprint resolved
                   else conflict)
      in case found of
           Some e \<Rightarrow>
             (case replayed_reset resolved fingerprint e of
                Some result \<Rightarrow> fx_ret result
              | None \<Rightarrow> conflict)
         | None \<Rightarrow>
             if source = PrimarySource \<and> rq_expected_revision request < MAX_SAFE_INTEGER \<and>
                wd_revision durable_document = rq_expected_revision request + 1 \<and>
                is_reset_target durable_document (wd_revision durable_document)
             then fx_bind (reset_retry_token_matches env (rq_expected_revision request) (rq_expected_token request))
               (\<lambda>matches. if matches
                  then reset_and_remembered env (rq_request_id request) fingerprint durable_document token
                  else fresh)
             else fresh)"

definition reset_workbench_locked :: "'w wb_env \<Rightarrow> reset_request \<Rightarrow> ('w, reset_result) wb" where
  "reset_workbench_locked env request =
     fx_bind (resolve_state env) (\<lambda>resolved.
     case resolved of
       ResolvedFuture _ \<Rightarrow> fx_ret (reset_result_for_resolved resolved FutureSchemaOutcome (rq_request_id request) None)
     | ResolvedV1 source durable_document token _ _ \<Rightarrow>
         fx_bind (ledger_entry env (rq_request_id request))
           (reset_looked_up env request resolved source durable_document token))"

end
