(* ===== verification/Workbench_Valid.thy ===== *)
theory Workbench_Valid
  imports Workbench
begin

text \<open>
  Which layouts the validation accepts: a tree of bounded depth whose leaves are the groups,
  each once, groups whose tabs are the surfaces, each once, with an active tab where there are
  tabs, and values that survive a round trip through the saved file.
\<close>

section \<open>The tree\<close>

fun leaves :: "wb_node \<Rightarrow> string list" where
  "leaves (GroupNode g) = [g]"
| "leaves (SplitNode i dir ratio a b) = leaves a @ leaves b"

fun splits :: "wb_node \<Rightarrow> string list" where
  "splits (GroupNode g) = []"
| "splits (SplitNode i dir ratio a b) = i # splits a @ splits b"

fun ratios :: "wb_node \<Rightarrow> f64 list" where
  "ratios (GroupNode g) = []"
| "ratios (SplitNode i dir ratio a b) = ratio # ratios a @ ratios b"

fun height :: "wb_node \<Rightarrow> nat" where
  "height (GroupNode g) = 1"
| "height (SplitNode i dir ratio a b) = Suc (max (height a) (height b))"

definition tree_ok :: "wb_node \<Rightarrow> bool" where
  "tree_ok t \<longleftrightarrow> height t \<le> MAX_WORKBENCH_TREE_DEPTH \<and> [] \<notin> set (leaves t) \<and>
     [] \<notin> set (splits t) \<and> distinct (splits t) \<and> list_all ratio_in_range (ratios t)"

lemma err_if_Nil [simp]: "err_if b p m = [] \<longleftrightarrow> \<not> b"
  by (simp add: err_if_def)

lemma range_finite: "ratio_in_range r \<Longrightarrow> f64_is_finite r"
  by (cases r) auto

lemma validate_node_spec:
  "validate_node t d path (refs, ids, errs) = (refs', ids', errs') \<Longrightarrow>
   (errs' = [] \<longleftrightarrow> errs = [] \<and> d + height t \<le> Suc MAX_WORKBENCH_TREE_DEPTH \<and> [] \<notin> set (leaves t) \<and>
      [] \<notin> set (splits t) \<and> distinct (splits t) \<and> set (splits t) \<inter> ids = {} \<and>
      list_all ratio_in_range (ratios t)) \<and>
   (errs' = [] \<longrightarrow> refs' = refs @ leaves t \<and> ids' = ids \<union> set (splits t))"
proof (induction t arbitrary: d path refs ids errs refs' ids' errs')
  case (GroupNode g)
  then show ?case by (auto split: if_splits)
next
  case (SplitNode i dir ratio a b)
  show ?case
  proof (cases "d > MAX_WORKBENCH_TREE_DEPTH")
    case True
    with SplitNode.prems show ?thesis by auto
  next
    case False
    let ?errs = "errs @
              (if i = [] then [ValidationError (path @ ''.node_id'') ''must be a non-empty string'']
               else err_if (i \<in> ids) (path @ ''.node_id'') ''must be unique'') @
              err_if (\<not> f64_is_finite ratio \<or> \<not> ratio_in_range ratio)
                (path @ ''.ratio'') ''must be a finite number in 0.1..0.9''"
    let ?ids = "if i = [] then ids else insert i ids"
    obtain r1 i1 e1 where a: "validate_node a (Suc d) (path @ ''.first'') (refs, ?ids, ?errs) = (r1, i1, e1)"
      by (cases "validate_node a (Suc d) (path @ ''.first'') (refs, ?ids, ?errs)") auto
    have b: "validate_node b (Suc d) (path @ ''.second'') (r1, i1, e1) = (refs', ids', errs')"
      using SplitNode.prems False a by (simp add: Let_def)
    have errs: "?errs = [] \<longleftrightarrow> errs = [] \<and> i \<noteq> [] \<and> i \<notin> ids \<and> ratio_in_range ratio"
      using range_finite [of ratio] by auto
    note A = SplitNode.IH(1) [OF a] and B = SplitNode.IH(2) [OF b]
    show ?thesis
    proof (cases "e1 = []")
      case True
      with A have r: "r1 = refs @ leaves a" "i1 = insert i ids \<union> set (splits a)" "i \<noteq> []" "i \<notin> ids"
        "errs = []" "ratio_in_range ratio" "Suc d + height a \<le> Suc MAX_WORKBENCH_TREE_DEPTH"
        "[] \<notin> set (leaves a)" "[] \<notin> set (splits a)" "distinct (splits a)"
        "set (splits a) \<inter> insert i ids = {}" "list_all ratio_in_range (ratios a)"
        unfolding errs by auto
      show ?thesis using B True r unfolding r(1,2) by auto
    next
      case False
      with B have "errs' \<noteq> []" by blast
      moreover have "\<not> (errs = [] \<and> Suc d + height a \<le> Suc MAX_WORKBENCH_TREE_DEPTH \<and> [] \<notin> set (leaves a) \<and>
          [] \<notin> set (splits a) \<and> distinct (splits a) \<and> set (splits a) \<inter> insert i ids = {} \<and>
          list_all ratio_in_range (ratios a) \<and> i \<noteq> [] \<and> i \<notin> ids \<and> ratio_in_range ratio)"
        using A False unfolding errs by auto
      ultimately show ?thesis by auto
    qed
  qed
qed

lemma validate_tree:
  assumes "validate_node t 1 path ([], {}, []) = (refs, ids, errs)"
  shows "errs = [] \<longleftrightarrow> tree_ok t" "errs = [] \<Longrightarrow> refs = leaves t"
  using validate_node_spec [OF assms] by (auto simp: tree_ok_def)

section \<open>References\<close>

lemma reference_counts_eq:
  "reference_counts vs v = (if v \<in> set vs then Some (count_list vs v) else None)"
  unfolding reference_counts_def
proof (induction vs rule: rev_induct)
  case Nil
  then show ?case by simp
next
  case (snoc w vs)
  then show ?case by (auto simp: count_list_append count_notin)
qed

text \<open>Every key is referenced once and every reference is a key.\<close>

lemma referenced_once:
  assumes "distinct ks"
  shows "(\<forall>k \<in> set ks. reference_counts vs k = Some 1) \<and> set vs \<subseteq> set ks \<longleftrightarrow> distinct vs \<and> set vs = set ks"
proof -
  have one: "reference_counts vs k = Some 1 \<longleftrightarrow> count_list vs k = 1" for k
    by (auto simp: reference_counts_eq count_notin)
  have distinct: "distinct vs \<longleftrightarrow> (\<forall>v \<in> set vs. count_list vs v = 1)"
    using distinct_count_atmost_1 [of "vs"] unfolding One_nat_def
    by (auto simp: count_mset [symmetric] distinct_count_atmost_1 split: if_splits)
  show ?thesis
    unfolding one distinct by (auto simp: count_notin) (metis count_notin nat.distinct(1))
qed

section \<open>The parts of a document\<close>

fun json_numbers_ok :: "json \<Rightarrow> bool" where
  "json_numbers_ok (JNumber n) \<longleftrightarrow> number_ok n"
| "json_numbers_ok (JArray vs) \<longleftrightarrow> (\<forall>v \<in> set vs. json_numbers_ok v)"
| "json_numbers_ok (JObject m) \<longleftrightarrow> (\<forall>e \<in> set m. json_numbers_ok (snd e))"
| "json_numbers_ok _ \<longleftrightarrow> True"

lemma json_walk_ok: "json_walk stack = [] \<longleftrightarrow> (\<forall>e \<in> set stack. json_numbers_ok (fst e))"
proof (induction stack rule: json_walk.induct)
  case 1
  then show ?case by simp
next
  case (2 v path stack)
  show ?case
  proof (cases v)
    case (JArray vs)
    have "(\<forall>e \<in> set (map (\<lambda>i. (vs ! i, indexed path i)) [0..<length vs]). json_numbers_ok (fst e)) \<longleftrightarrow>
        (\<forall>v \<in> set vs. json_numbers_ok v)"
      by (auto simp: all_set_conv_all_nth)
    with 2 JArray show ?thesis by (simp add: ball_Un del: set_map)
  next
    case (JObject m)
    with 2 JObject show ?thesis by (auto simp: ball_Un split_def)
  qed (use 2 in simp_all)
qed

definition provenance_ok :: "wb_surface \<Rightarrow> bool" where
  "provenance_ok s \<longleftrightarrow>
     (\<forall>duplicate partner provisional. ws_provenance s = Some (ExplicitDuplicate duplicate partner provisional) \<longrightarrow>
        duplicate = ws_surface_id s \<and> partner \<noteq> Some [] \<and> partner \<noteq> Some (ws_surface_id s) \<and> provisional \<noteq> [])"

definition surface_ok :: "'c wb_codec_scheme \<Rightarrow> wb_surface \<Rightarrow> bool" where
  "surface_ok c s \<longleftrightarrow> ws_surface_id s \<noteq> [] \<and> ws_surface_type s \<noteq> [] \<and> provenance_ok s \<and>
     ws_state_schema_version s \<le> MAX_SAFE_INTEGER \<and> json_numbers_ok (ws_state s) \<and>
     length (wc_value_to_vec c (ws_state s)) \<le> MAX_WORKBENCH_SURFACE_STATE_BYTES"

definition group_ok :: "string \<Rightarrow> wb_group \<Rightarrow> bool" where
  "group_ok key g \<longleftrightarrow> wg_group_id g = key \<and> [] \<notin> set (wg_surface_ids g) \<and> distinct (wg_surface_ids g) \<and>
     (case wg_active_surface_id g of
        None \<Rightarrow> wg_surface_ids g = []
      | Some active \<Rightarrow> active \<in> set (wg_surface_ids g))"

definition width_ok :: "f64 \<Rightarrow> bool" where
  "width_ok w \<longleftrightarrow> f64_is_finite w \<and> \<not> f64_negative w \<and> w \<noteq> NegZero"

definition tabs :: "wb_doc \<Rightarrow> string list" where
  "tabs doc = concat (map (\<lambda>(key, g). wg_surface_ids g) (wd_groups doc))"

definition doc_ok :: "'c wb_codec_scheme \<Rightarrow> wb_doc \<Rightarrow> bool" where
  "doc_ok c doc \<longleftrightarrow>
     wd_schema_version doc = WORKBENCH_SCHEMA_VERSION \<and> wd_revision doc \<le> MAX_SAFE_INTEGER \<and>
     is_canonical_timestamp c (wd_saved_at doc) \<and>
     tree_ok (wd_root doc) \<and> distinct (leaves (wd_root doc)) \<and>
     set (leaves (wd_root doc)) = fst ` set (wd_groups doc) \<and>
     (\<forall>(key, g) \<in> set (wd_groups doc). group_ok key g) \<and>
     distinct (tabs doc) \<and> set (tabs doc) = fst ` set (wd_surfaces doc) \<and>
     (\<forall>(key, s) \<in> set (wd_surfaces doc). ws_surface_id s = key \<and> surface_ok c s) \<and>
     wd_active_group_id doc \<in> fst ` set (wd_groups doc) \<and>
     length (wd_recently_closed doc) \<le> MAX_RECENTLY_CLOSED_SURFACES \<and>
     (\<forall>cl \<in> set (wd_recently_closed doc). surface_ok c (cl_surface cl) \<and>
        cl_previous_group_id cl \<noteq> [] \<and> cl_previous_index cl \<le> MAX_SAFE_INTEGER) \<and>
     width_ok (sh_left_width (wd_shell doc)) \<and> width_ok (sh_right_width (wd_shell doc)) \<and>
     width_ok (sh_terminal_height (wd_shell doc)) \<and>
     length (wc_to_vec c doc) \<le> MAX_WORKBENCH_DOCUMENT_BYTES"

lemma surface_errors_ok: "surface_errors c s path = [] \<longleftrightarrow> surface_ok c s"
  by (auto simp: surface_errors_def surface_ok_def provenance_errors_def provenance_ok_def json_walk_ok
      safe_integer_errors_def not_less simp del: json_walk.simps split: option.split provenance.split)

lemma tab_errors_ok:
  "tab_errors path index seen is = [] \<longleftrightarrow> [] \<notin> set is \<and> distinct is \<and> set is \<inter> set seen = {}"
  by (induction path index seen "is" rule: tab_errors.induct) auto

lemma group_errors_ok: "group_errors e = [] \<longleftrightarrow> group_ok (fst e) (snd e)"
  by (cases e) (auto simp: group_errors_def group_ok_def tab_errors_ok Let_def split: option.split)

lemma shell_errors_ok:
  "shell_errors s = [] \<longleftrightarrow> width_ok (sh_left_width s) \<and> width_ok (sh_right_width s) \<and> width_ok (sh_terminal_height s)"
  by (simp add: shell_errors_def width_ok_def)

lemma closed_errors_ok:
  "(\<forall>e \<in> set (enumerate 0 cls). closed_errors c e = []) \<longleftrightarrow>
   (\<forall>cl \<in> set cls. surface_ok c (cl_surface cl) \<and> cl_previous_group_id cl \<noteq> [] \<and>
      cl_previous_index cl \<le> MAX_SAFE_INTEGER)"
proof -
  have one: "closed_errors c e = [] \<longleftrightarrow> surface_ok c (cl_surface (snd e)) \<and> cl_previous_group_id (snd e) \<noteq> [] \<and>
      cl_previous_index (snd e) \<le> MAX_SAFE_INTEGER" for e
    by (cases e) (simp add: closed_errors_def Let_def surface_errors_ok safe_integer_errors_def not_less)
  have "snd ` set (enumerate 0 cls) = set cls" by (simp flip: set_map)
  then show ?thesis by (force simp: one)
qed

section \<open>The whole document\<close>

lemma concat_map_Nil: "concat (map f xs) = [] \<longleftrightarrow> (\<forall>x \<in> set xs. f x = [])"
  by auto

lemma nonempty_items: "[] \<notin> set is \<Longrightarrow> concat (map (\<lambda>i. if i \<noteq> [] then [i] else []) is) = is"
  by (induction "is") auto

lemma opened_tabs:
  "\<forall>(key, g) \<in> set (wd_groups doc). [] \<notin> set (wg_surface_ids g) \<Longrightarrow> open_surface_references doc = tabs doc"
  unfolding open_surface_references_def tabs_def
  by (rule arg_cong [where f = concat], rule map_cong) (auto intro: nonempty_items)

lemma graph_errors_ok:
  assumes "bt_wf (wd_groups doc)" "bt_wf (wd_surfaces doc)"
  shows "graph_errors c doc = [] \<and> length (wc_to_vec c doc) \<le> MAX_WORKBENCH_DOCUMENT_BYTES \<longleftrightarrow> doc_ok c doc"
proof -
  obtain refs ids errs where tree: "validate_node (wd_root doc) 1 ''$.root'' ([], {}, []) = (refs, ids, errs)"
    by (cases "validate_node (wd_root doc) 1 ''$.root'' ([], {}, [])") auto
  note tree_ok = validate_tree [OF tree]
  let ?groups = "\<forall>(key, g) \<in> set (wd_groups doc). group_ok key g"
  have once: "(\<forall>k \<in> fst ` set ks. reference_counts vs k = Some 1) \<and> (\<forall>v \<in> set vs. v \<in> fst ` set ks) \<longleftrightarrow>
      distinct vs \<and> set vs = fst ` set ks" if "bt_wf ks" for ks :: "(string \<times> 'v) list" and vs
    using referenced_once [OF bt_wf_distinct [OF that], of vs] by auto
  have tabs: "open_surface_references doc = tabs doc" if ?groups
    by (rule opened_tabs) (use that in \<open>auto simp: group_ok_def\<close>)
  have graph: "graph_errors c doc = [] \<longleftrightarrow>
     wd_schema_version doc = WORKBENCH_SCHEMA_VERSION \<and> wd_revision doc \<le> MAX_SAFE_INTEGER \<and>
     is_canonical_timestamp c (wd_saved_at doc) \<and> errs = [] \<and> ?groups \<and>
     ((\<forall>k \<in> fst ` set (wd_groups doc). reference_counts refs k = Some 1) \<and>
      (\<forall>g \<in> set refs. g \<in> fst ` set (wd_groups doc))) \<and>
     (\<forall>(key, s) \<in> set (wd_surfaces doc). ws_surface_id s = key \<and> surface_ok c s) \<and>
     ((\<forall>k \<in> fst ` set (wd_surfaces doc). reference_counts (open_surface_references doc) k = Some 1) \<and>
      (\<forall>i \<in> set (open_surface_references doc). i \<in> fst ` set (wd_surfaces doc))) \<and>
     (wd_active_group_id doc \<noteq> [] \<and> wd_active_group_id doc \<in> fst ` set (wd_groups doc) \<and>
      wd_active_group_id doc \<in> set refs) \<and>
     length (wd_recently_closed doc) \<le> MAX_RECENTLY_CLOSED_SURFACES \<and>
     (\<forall>cl \<in> set (wd_recently_closed doc). surface_ok c (cl_surface cl) \<and>
        cl_previous_group_id cl \<noteq> [] \<and> cl_previous_index cl \<le> MAX_SAFE_INTEGER) \<and>
     width_ok (sh_left_width (wd_shell doc)) \<and> width_ok (sh_right_width (wd_shell doc)) \<and>
     width_ok (sh_terminal_height (wd_shell doc))"
    unfolding graph_errors_def tree Let_def prod.case append_is_Nil_conv shell_errors_ok
      concat_map_Nil closed_errors_ok err_if_Nil safe_integer_errors_def not_less not_not set_map ball_simps
    by (auto simp: group_errors_ok surface_errors_ok not_less split_beta)
  show ?thesis
  proof (cases "errs = [] \<and> ?groups \<and> set refs = fst ` set (wd_groups doc)")
    case True
    then have refs: "refs = leaves (wd_root doc)" and opened: "open_surface_references doc = tabs doc"
      using tree_ok tabs by simp_all
    have "[] \<notin> set refs" using True tree_ok(1) unfolding refs tree_ok_def by blast
    with True have active: "wd_active_group_id doc \<noteq> [] \<and> wd_active_group_id doc \<in> fst ` set (wd_groups doc) \<and>
        wd_active_group_id doc \<in> set refs \<longleftrightarrow> wd_active_group_id doc \<in> fst ` set (wd_groups doc)" by metis
    have shape: "set (leaves (wd_root doc)) = fst ` set (wd_groups doc)" using True refs by simp
    show ?thesis
      unfolding graph once [OF assms(1)] once [OF assms(2)] active unfolding doc_ok_def opened
      using True tree_ok(1) shape unfolding refs by (simp del: set_map) blast
  next
    case False
    then show ?thesis
      unfolding graph once [OF assms(1)] once [OF assms(2)] doc_ok_def using tree_ok by blast
  qed
qed



end
