(* ===== verification/Atomic_Laws.thy ===== *)
theory Atomic_Laws
  imports Atomic_File
begin

text \<open>
  What a durable write promises, wherever it stops: the target keeps its contents or has the
  new ones, in whole, and it is acknowledged only when the new contents survive a loss of
  power. Temporary files are the names that start with a dot.
\<close>

section \<open>Triples over file effects\<close>

definition ends ::
  "('d disk_scheme \<Rightarrow> bool) \<Rightarrow> ('d, 'w, 'e, 'a) fx \<Rightarrow> ('e + 'a \<Rightarrow> 'd disk_scheme \<Rightarrow> bool) \<Rightarrow> bool" where
  "ends P m Q \<longleftrightarrow> (\<forall>d w r d' w'. P d \<longrightarrow> m (d, w) = (r, (d', w')) \<longrightarrow> Q r d')"

lemma endsI: "(\<And>d w r d' w'. P d \<Longrightarrow> m (d, w) = (r, (d', w')) \<Longrightarrow> Q r d') \<Longrightarrow> ends P m Q"
  by (auto simp: ends_def)

lemma endsD: "ends P m Q \<Longrightarrow> P d \<Longrightarrow> m (d, w) = (r, (d', w')) \<Longrightarrow> Q r d'"
  unfolding ends_def by blast

lemma ends_mono:
  "ends P m Q \<Longrightarrow> (\<And>d. P' d \<Longrightarrow> P d) \<Longrightarrow> (\<And>r d. Q r d \<Longrightarrow> Q' r d) \<Longrightarrow> ends P' m Q'"
  unfolding ends_def by blast

lemma ends_at: "ends P m Q \<Longrightarrow> P d0 \<Longrightarrow> (\<And>w. m' (d0, w) = m (d0, w)) \<Longrightarrow> ends (\<lambda>d. d = d0) m' Q"
  unfolding ends_def by metis

lemma ends_ret [simp]: "ends P (fx_ret x) Q \<longleftrightarrow> (\<forall>d. P d \<longrightarrow> Q (Inr x) d)"
  by (auto simp: ends_def fx_ret_def)

lemma ends_fail [simp]: "ends P (fx_fail e) Q \<longleftrightarrow> (\<forall>d. P d \<longrightarrow> Q (Inl e) d)"
  by (auto simp: ends_def fx_fail_def)

lemma ends_guarded: "ends (\<lambda>d. P d \<and> b \<and> c) m Q \<longleftrightarrow> (b \<longrightarrow> c \<longrightarrow> ends P m Q)"
  unfolding ends_def by blast

lemma ends_bind:
  assumes "ends P m (\<lambda>r d. case r of Inl e \<Rightarrow> Q (Inl e) d | Inr x \<Rightarrow> R x d)"
    and "\<And>x. ends (R x) (f x) Q"
  shows "ends P (fx_bind m f) Q"
proof (rule endsI)
  fix d w r d' w' assume P: "P d" and run: "fx_bind m f (d, w) = (r, (d', w'))"
  obtain r1 d1 w1 where m: "m (d, w) = (r1, (d1, w1))" by (cases "m (d, w)") auto
  from endsD [OF assms(1) P m] run show "Q r d'"
    by (cases r1) (auto simp: fx_bind_def m dest: endsD [OF assms(2)])
qed

lemma ends_syscall:
  "(\<And>d. P d \<Longrightarrow> Q (Inr ()) (f d)) \<Longrightarrow> (\<And>d e. P d \<Longrightarrow> Q (Inl e) d) \<Longrightarrow>
   (\<And>d e n. P d \<Longrightarrow> Q (Inl e) (g n d)) \<Longrightarrow> ends P (syscall env f g) Q"
  by (auto simp: ends_def syscall_def split: prod.splits io_answer.splits)

lemma ends_quiet:
  "(\<And>d. P d \<Longrightarrow> Q (Inr ()) d) \<Longrightarrow> (\<And>d e. P d \<Longrightarrow> Q (Inl e) d) \<Longrightarrow> ends P (quiet_call env) Q"
  unfolding quiet_call_def by (rule ends_syscall)

lemma ends_hook:
  "(\<And>d. P d \<Longrightarrow> Q (Inr ()) d) \<Longrightarrow> (\<And>d e. P d \<Longrightarrow> Q (Inl e) d) \<Longrightarrow> ends P (check_hook hook p) Q"
  by (auto simp: ends_def check_hook_def split: prod.splits option.splits)

lemma ends_uuid: "(\<And>d u. P d \<Longrightarrow> Q (Inr u) d) \<Longrightarrow> ends P (new_uuid env) Q"
  by (auto simp: ends_def new_uuid_def split: prod.splits)

section \<open>What the directory shows and what survives\<close>

abbreviation dotted :: "string \<Rightarrow> bool" where
  "dotted n \<equiv> prefix ''.'' n"

type_synonym slot = "dir_entry option \<times> survivor list"

type_synonym files = "string \<Rightarrow> slot"

text \<open>The files that are not temporary, with the rest of the state.\<close>

definition view :: "'d disk_scheme \<Rightarrow> files \<times> 'd" where
  "view d = ((\<lambda>n. if dotted n then (None, []) else (entry d n, dk_survives d n)), disk.more d)"

definition wrote :: "string \<Rightarrow> string \<Rightarrow> files \<Rightarrow> files" where
  "wrote n c F = F(n := (Some (RegularFile c True), Whole c # snd (F n)))"

definition settled :: "files \<Rightarrow> files" where
  "settled F = (\<lambda>n. if dotted n then (None, []) else (fst (F n), [survivor_of (fst (F n))]))"

definition written :: "string \<Rightarrow> string \<Rightarrow> files \<times> 'd \<Rightarrow> files \<times> 'd" where
  "written n c v = (wrote n c (fst v), snd v)"

definition flushed :: "files \<times> 'd \<Rightarrow> files \<times> 'd" where
  "flushed v = (settled (fst v), snd v)"

lemma entry_put [simp]: "entry (put_entry n e d) m = (if m = n then Some e else entry d m)"
  by (simp add: entry_def put_entry_def im_get_update)

lemma entry_drop [simp]: "entry (drop_entry n d) m = (if m = n then None else entry d m)"
  by (simp add: entry_def drop_entry_def delete_conv restrict_map_def)

lemma entry_sync [simp]: "entry (sync_dir d) m = entry d m"
  by (simp add: entry_def sync_dir_def)

lemma view_temp [simp]:
  "dotted n \<Longrightarrow> view (put_entry n e d) = view d"
  "dotted n \<Longrightarrow> view (drop_entry n d) = view d"
  by (auto simp: view_def fun_eq_iff) (simp_all add: put_entry_def drop_entry_def)

lemma view_put: "\<not> dotted n \<Longrightarrow> view (put_entry n (RegularFile c True) d) = written n c (view d)"
  by (auto simp: view_def written_def wrote_def fun_eq_iff) (simp_all add: put_entry_def)

lemma view_sync: "view (sync_dir d) = flushed (view d)"
  by (auto simp: view_def flushed_def settled_def fun_eq_iff) (simp_all add: sync_dir_def)

lemma view_move:
  "dotted tmp \<Longrightarrow> \<not> dotted n \<Longrightarrow> entry d tmp = Some (RegularFile c True) \<Longrightarrow>
   view (move_entry tmp n d) = written n c (view d)"
  by (simp add: move_entry_def view_put)

lemma entry_make [simp]: "entry (make_folder d) m = entry d m"
  by (simp add: entry_def make_folder_def)

lemma view_make [simp]: "view (make_folder d) = view d"
  by (auto simp: view_def fun_eq_iff) (simp_all add: make_folder_def)

lemma temp_dotted [simp]: "dotted (temp_name n u)"
  by (simp add: temp_name_def)

section \<open>Staging and replacing\<close>

definition keeps_entries :: "(string \<Rightarrow> dir_entry option) \<Rightarrow> 'd disk_scheme \<Rightarrow> bool" where
  "keeps_entries E d \<longleftrightarrow> (\<forall>n. dotted n \<longrightarrow> E n \<noteq> None \<longrightarrow> entry d n = E n)"

lemma keeps_put: "E n = None \<Longrightarrow> keeps_entries E d \<Longrightarrow> keeps_entries E (put_entry n e d)"
  by (auto simp: keeps_entries_def)

lemma keeps_make [simp]: "keeps_entries E (make_folder d) = keeps_entries E d"
  by (simp add: keeps_entries_def)

lemma ends_make:
  "(\<And>d. P d \<Longrightarrow> Q (Inr ()) (make_folder d)) \<Longrightarrow> (\<And>d e. P d \<Longrightarrow> Q (Inl e) d) \<Longrightarrow>
   (\<And>d e. P d \<Longrightarrow> Q (Inl e) (make_folder d)) \<Longrightarrow> ends P (create_dir_all env) Q"
  unfolding create_dir_all_def by (rule ends_syscall) auto

lemma ends_create:
  assumes "\<And>d. P d \<Longrightarrow> view d = V \<and> keeps_entries E d" "dotted tmp"
  shows "ends P (create_new env tmp) (\<lambda>r d. view d = V \<and> keeps_entries E d \<and> (r = Inr () \<longrightarrow> E tmp = None))"
proof (rule endsI)
  fix d w r d' w' assume d: "P d" and run: "create_new env tmp (d, w) = (r, (d', w'))"
  have new: "E tmp = None" if "entry d tmp = None"
    using assms(1) [OF d] assms(2) that by (auto simp: keeps_entries_def)
  show "view d' = V \<and> keeps_entries E d' \<and> (r = Inr () \<longrightarrow> E tmp = None)"
    using run assms(1) [OF d] assms(2) new
    by (auto simp: create_new_def syscall_def keeps_put split: if_splits prod.splits io_answer.splits)
qed

lemma stage_ends:
  "ends (\<lambda>d. view d = V \<and> keeps_entries E d) (stage_bytes_atomic_with_hook env hook file_name bytes role)
     (\<lambda>r d. view d = V \<and> keeps_entries E d \<and>
        (\<forall>tmp. r = Inr tmp \<longrightarrow> dotted tmp \<and> E tmp = None \<and> entry d tmp = Some (RegularFile bytes True)))"
proof -
  let ?I = "\<lambda>d. view d = V \<and> keeps_entries E d"
  show ?thesis
    unfolding stage_bytes_atomic_with_hook_def Let_def
  proof (rule ends_bind [where R = "\<lambda>_. ?I"], goal_cases)
    case 1
    show ?case by (rule ends_make) auto
  next
    case 2
    show ?case
    proof (rule ends_bind [where R = "\<lambda>_. ?I"], goal_cases)
      case 1
      show ?case by (rule ends_uuid) auto
    next
      case (2 u)
      let ?tmp = "temp_name file_name u"
      let ?J = "\<lambda>d. ?I d \<and> E ?tmp = None"
      let ?K = "\<lambda>d. ?J d \<and> entry d ?tmp = Some (RegularFile bytes True)"
      show ?case
      proof (rule ends_bind [where R = "\<lambda>_. ?J"], goal_cases)
        case 1
        show ?case by (rule ends_mono [OF ends_create [where P = ?I and V = V and E = E]])
            (auto split: sum.split)
      next
        case 2
        show ?case
          unfolding write_all_def sync_all_def
          by (intro ends_bind [where R = "\<lambda>_. ?J"] ends_bind [where R = "\<lambda>_. ?K"] ends_syscall ends_hook)
            (auto simp: keeps_put)
      qed
    qed
  qed
qed

text \<open>Where a replacement can stop: before the rename, after it, and after the flush.\<close>

definition replacing :: "string \<Rightarrow> string \<Rightarrow> files \<times> 'd \<Rightarrow> 'e + unit \<Rightarrow> 'd disk_scheme \<Rightarrow> bool" where
  "replacing n c V r d \<longleftrightarrow>
     view d = V \<and> r \<noteq> Inr () \<or> view d = written n c V \<and> r \<noteq> Inr () \<or>
     view d = flushed (written n c V)"

lemma keeps_move: "E tmp = None \<Longrightarrow> \<not> dotted n \<Longrightarrow> keeps_entries E d \<Longrightarrow> keeps_entries E (move_entry tmp n d)"
  by (auto simp: keeps_entries_def move_entry_def split: option.split)

lemma keeps_sync [simp]: "keeps_entries E (sync_dir d) = keeps_entries E d"
  by (simp add: keeps_entries_def)

lemma ends_rename:
  assumes "\<And>d. P d \<Longrightarrow> Q (Inr ()) (move_entry from to d)" "\<And>d e. P d \<Longrightarrow> Q (Inl e) d"
    "\<And>d e. P d \<Longrightarrow> Q (Inl e) (move_entry from to d)"
  shows "ends P (rename_file env from to) Q"
  using assms by (auto simp: ends_def rename_file_def syscall_def split: if_splits prod.splits io_answer.splits)

lemma replace_ends:
  assumes "dotted tmp" "\<not> dotted n" "E tmp = None"
  shows "ends (\<lambda>d. view d = V \<and> keeps_entries E d \<and> entry d tmp = Some (RegularFile c True))
    (replace_staged_atomic_durable_with_hook env hook tmp n role)
    (\<lambda>r d. replacing n c V r d \<and> keeps_entries E d)"
proof -
  let ?I = "\<lambda>d. view d = V \<and> keeps_entries E d \<and> entry d tmp = Some (RegularFile c True)"
  let ?J = "\<lambda>d. view d = written n c V \<and> keeps_entries E d"
  let ?K = "\<lambda>d. view d = flushed (written n c V) \<and> keeps_entries E d"
  show ?thesis
    unfolding replace_staged_atomic_durable_with_hook_def
    by (intro ends_bind [where R = "\<lambda>_. ?I"] ends_bind [where R = "\<lambda>_. ?J"] ends_bind [where R = "\<lambda>_. ?K"]
        ends_hook ends_rename ends_quiet ends_syscall)
      (auto simp: replacing_def view_move [OF assms(1,2)] keeps_move [where E = E, OF assms(3,2)] view_sync)
qed

lemma write_ends:
  assumes "\<not> dotted n"
  shows "ends (\<lambda>d. view d = V \<and> keeps_entries E d) (write_bytes_atomic_durable_with_hook env hook n c role)
    (\<lambda>r d. replacing n c V r d \<and> keeps_entries E d)"
  unfolding write_bytes_atomic_durable_with_hook_def
proof (rule ends_bind)
  show "ends (\<lambda>d. view d = V \<and> keeps_entries E d) (stage_bytes_atomic_with_hook env hook n c role)
    (\<lambda>r d. case r of Inl e \<Rightarrow> replacing n c V (Inl e :: io_error + unit) d \<and> keeps_entries E d
      | Inr tmp \<Rightarrow> (view d = V \<and> keeps_entries E d \<and> entry d tmp = Some (RegularFile c True)) \<and>
          dotted tmp \<and> E tmp = None)"
    by (rule ends_mono [OF stage_ends [where V = V and E = E]]) (auto simp: replacing_def split: sum.splits)
  fix tmp
  show "ends (\<lambda>d. (view d = V \<and> keeps_entries E d \<and> entry d tmp = Some (RegularFile c True)) \<and>
      dotted tmp \<and> E tmp = None) (replace_staged_atomic_durable_with_hook env hook tmp n role)
    (\<lambda>r d. replacing n c V r d \<and> keeps_entries E d)"
    unfolding ends_guarded using replace_ends [OF _ assms] by blast
qed

section \<open>A durable directory stays durable\<close>

abbreviation folder_durable :: "'d disk_scheme \<Rightarrow> bool" where
  "folder_durable d \<equiv> dk_folder d = FolderDurable"

definition stays :: "('d, 'w, 'e, 'a) fx \<Rightarrow> bool" where
  "stays m \<longleftrightarrow> ends folder_durable m (\<lambda>_. folder_durable)"

named_theorems stays_rules

lemma stays_bind [stays_rules]: "stays m \<Longrightarrow> (\<And>x. stays (f x)) \<Longrightarrow> stays (fx_bind m f)"
  unfolding stays_def
  by (rule ends_bind [where R = "\<lambda>_. folder_durable"]) (auto elim: ends_mono split: sum.split)

lemma folder_ops [simp]:
  "dk_folder (put_entry n e d) = dk_folder d" "dk_folder (drop_entry n d) = dk_folder d"
  "dk_folder (sync_dir d) = dk_folder d" "dk_folder (move_entry from to d) = dk_folder d"
  by (simp_all add: put_entry_def drop_entry_def sync_dir_def move_entry_def split: option.split)

lemma make_durable [simp]: "folder_durable d \<Longrightarrow> make_folder d = d"
  by (simp add: make_folder_def)

lemma stays_syscall [stays_rules]:
  "(\<And>d. folder_durable d \<Longrightarrow> folder_durable (f d)) \<Longrightarrow> (\<And>n d. folder_durable d \<Longrightarrow> folder_durable (g n d)) \<Longrightarrow>
   stays (syscall env f g)"
  unfolding stays_def by (rule ends_syscall) auto

lemma stays_ret [stays_rules]: "stays (fx_ret x)" "stays (fx_fail e)"
  by (simp_all add: stays_def)

lemma stays_at: "(\<And>d w. m (d, w) = m' d (d, w)) \<Longrightarrow> (\<And>d. stays (m' d)) \<Longrightarrow> stays m"
  unfolding stays_def ends_def by metis

lemma stays_calls [stays_rules]:
  "stays (quiet_call env)" "stays (create_dir_all env)" "stays (write_all env n b)" "stays (sync_all env n b)"
  "stays (remove_file env n)" "stays (new_uuid env)" "stays (check_hook hook p)"
  unfolding quiet_call_def create_dir_all_def write_all_def sync_all_def remove_file_def
  by (auto intro!: stays_syscall) (auto simp: stays_def ends_def new_uuid_def check_hook_def split: prod.splits option.splits)

lemma stays_files [stays_rules]: "stays (create_new env n)" "stays (rename_file env from to)"
  by (auto simp: stays_def ends_def create_new_def rename_file_def syscall_def
      split: if_splits prod.splits io_answer.splits)

lemma stays_read [stays_rules]: "stays (read_file env n)"
  unfolding read_file_def
  by (intro stays_rules) (auto simp: stays_def ends_def split: option.splits dir_entry.splits)

lemma stays_stage [stays_rules]: "stays (stage_bytes_atomic_with_hook env hook n bytes role)"
  unfolding stage_bytes_atomic_with_hook_def Let_def by (intro stays_rules)

lemma stays_replace [stays_rules]: "stays (replace_staged_atomic_durable_with_hook env hook from to role)"
  unfolding replace_staged_atomic_durable_with_hook_def by (intro stays_rules) simp_all

lemma stays_write [stays_rules]: "stays (write_bytes_atomic_durable_with_hook env hook n bytes role)"
  unfolding write_bytes_atomic_durable_with_hook_def by (intro stays_rules)

lemma stays_remove_owned: "stays (remove_owned env n ns)"
proof (induction ns)
  case (Cons m ns)
  have one: "stays (\<lambda>(d, w). case entry d m of Some (RegularFile c synced) \<Rightarrow> remove_file env m (d, w) | _ \<Rightarrow> (Inr (), (d, w)))"
    by (rule stays_at [where m' = "\<lambda>d. case entry d m of Some (RegularFile c synced) \<Rightarrow> remove_file env m | _ \<Rightarrow> fx_ret ()"])
      (auto simp: fx_ret_def intro: stays_rules split: option.split dir_entry.split)
  show ?case
    unfolding remove_owned.simps by (intro stays_rules Cons.IH) (auto intro: stays_rules one)
qed (simp add: stays_rules)

lemma stays_cleanup [stays_rules]: "stays (cleanup_atomic_temps env n)"
  unfolding cleanup_atomic_temps_def
  by (intro stays_rules) (rule stays_at [where m' = "\<lambda>d. remove_owned env n (map fst (dk_entries d))"], simp_all add: stays_remove_owned)

section \<open>Left-over files\<close>

text \<open>Only owned names of regular files are removed, in whatever state the cleaning stops.\<close>

abbreviation owned :: "string \<Rightarrow> string \<Rightarrow> bool" where
  "owned file_name n \<equiv> is_owned_atomic_temp_name n file_name (''.'' @ file_name @ ''.tmp'')"

definition cleaned :: "string \<Rightarrow> 'd disk_scheme \<Rightarrow> 'd disk_scheme \<Rightarrow> bool" where
  "cleaned file_name d d' \<longleftrightarrow> view d' = view d \<and>
     (\<forall>n. entry d' n = entry d n \<or>
        owned file_name n \<and> entry d' n = None \<and> (\<exists>c synced. entry d n = Some (RegularFile c synced)))"

lemma owned_dotted: "owned file_name n \<Longrightarrow> dotted n"
  by (auto simp: is_owned_atomic_temp_name_def Let_def prefix_def split: if_splits)

lemma cleaned_refl [simp]: "cleaned file_name d d"
  by (simp add: cleaned_def)

lemma cleaned_entry: "cleaned file_name d0 d \<Longrightarrow> entry d n = Some e \<Longrightarrow> entry d0 n = Some e"
  unfolding cleaned_def by (metis option.distinct(1))

lemma cleaned_drop:
  assumes "cleaned file_name d0 d" "owned file_name n" "entry d n = Some (RegularFile c synced)"
  shows "cleaned file_name d0 (drop_entry n d)"
  using assms cleaned_entry [OF assms(1,3)] owned_dotted [OF assms(2)] by (simp add: cleaned_def)

definition gone :: "string \<Rightarrow> string list \<Rightarrow> 'd disk_scheme \<Rightarrow> bool" where
  "gone file_name ns d \<longleftrightarrow> (\<forall>n \<in> set ns. owned file_name n \<longrightarrow> (\<forall>c synced. entry d n \<noteq> Some (RegularFile c synced)))"

lemma gone_drop: "gone file_name ns d \<Longrightarrow> gone file_name ns (drop_entry n d)"
  by (simp add: gone_def)

lemma remove_owned_ends:
  "ends (\<lambda>d. cleaned file_name d0 d \<and> gone file_name ms d) (remove_owned env file_name ns)
     (\<lambda>r d. cleaned file_name d0 d \<and> (r = Inr () \<longrightarrow> gone file_name (ms @ ns) d))"
proof (induction ns arbitrary: ms)
  case Nil
  then show ?case by simp
next
  case (Cons n ns)
  let ?I = "\<lambda>d. cleaned file_name d0 d \<and> gone file_name ms d"
  let ?J = "\<lambda>d. cleaned file_name d0 d \<and> gone file_name (ms @ [n]) d"
  let ?attempt = "\<lambda>_ (d, w). case entry d n of Some (RegularFile c synced) \<Rightarrow> remove_file env n (d, w) | _ \<Rightarrow> (Inr (), (d, w))"
  have remove: "ends ?I (?attempt u) (\<lambda>r d. case r of Inl e \<Rightarrow> cleaned file_name d0 d | Inr _ \<Rightarrow> ?J d)"
    if own: "owned file_name n" for u
  proof (rule endsI)
    fix d w r d' w' assume d: "?I d" and run: "?attempt u (d, w) = (r, (d', w'))"
    show "case r of Inl e \<Rightarrow> cleaned file_name d0 d' | Inr _ \<Rightarrow> ?J d'"
    proof (cases "\<exists>c synced. entry d n = Some (RegularFile c synced)")
      case True
      then obtain c synced where regular: "entry d n = Some (RegularFile c synced)" by blast
      have "cleaned file_name d0 (drop_entry n d)" using d own regular by (blast intro: cleaned_drop)
      moreover have "gone file_name (ms @ [n]) (drop_entry n d)" using d by (simp add: gone_def)
      ultimately show ?thesis
        using run d regular by (auto simp: remove_file_def syscall_def split: prod.splits io_answer.splits)
    next
      case False
      then have "r = Inr () \<and> d' = d"
        using run by (auto split: option.splits dir_entry.splits)
      with d False show ?thesis by (auto simp: gone_def)
    qed
  qed
  have one: "ends ?I (if owned file_name n then fx_bind (quiet_call env) ?attempt else fx_ret ())
      (\<lambda>r d. case r of Inl e \<Rightarrow> cleaned file_name d0 d | Inr _ \<Rightarrow> ?J d)"
  proof (cases "owned file_name n")
    case True
    with remove show ?thesis by (auto intro!: ends_bind [where R = "\<lambda>_. ?I"] ends_quiet)
  next
    case False
    then show ?thesis by (auto simp: gone_def)
  qed
  have rest: "ends ?J (remove_owned env file_name ns)
      (\<lambda>r d. cleaned file_name d0 d \<and> (r = Inr () \<longrightarrow> gone file_name (ms @ n # ns) d))"
    using Cons.IH [of "ms @ [n]"] by simp
  show ?case
    unfolding remove_owned.simps
    by (intro ends_bind [where R = "\<lambda>_. ?I"] ends_quiet ends_bind [where R = "\<lambda>_. ?J", OF _ rest] ends_mono [OF one])
      (auto split: sum.splits)
qed

lemma cleanup_ends:
  "ends (\<lambda>d. d = d0) (cleanup_atomic_temps env file_name)
     (\<lambda>r d. cleaned file_name d0 d \<and>
        (r = Inr () \<longrightarrow> (\<forall>n. owned file_name n \<longrightarrow> (\<forall>c synced. entry d n \<noteq> Some (RegularFile c synced)))))"
  unfolding cleanup_atomic_temps_def
proof (rule ends_bind [where R = "\<lambda>_ d. d = d0"], rule ends_quiet)
  fix u
  let ?ns = "map fst (dk_entries d0)"
  have "ends (\<lambda>d. cleaned file_name d0 d \<and> gone file_name [] d) (remove_owned env file_name ?ns)
     (\<lambda>r d. cleaned file_name d0 d \<and> (r = Inr () \<longrightarrow> gone file_name ?ns d))"
    using remove_owned_ends [of file_name d0 "[]" env ?ns] by simp
  moreover have "entry d n \<noteq> Some (RegularFile c synced)"
    if "cleaned file_name d0 d" "gone file_name ?ns d" "owned file_name n" for d n c synced
  proof
    assume regular: "entry d n = Some (RegularFile c synced)"
    with that(1) have "entry d0 n = Some (RegularFile c synced)" by (rule cleaned_entry)
    then have "n \<in> set ?ns" by (force simp: entry_def dest: map_of_SomeD)
    with that(2,3) regular show False unfolding gone_def by blast
  qed
  ultimately have "ends (\<lambda>d. cleaned file_name d0 d \<and> gone file_name [] d) (remove_owned env file_name ?ns)
     (\<lambda>r d. cleaned file_name d0 d \<and>
        (r = Inr () \<longrightarrow> (\<forall>n. owned file_name n \<longrightarrow> (\<forall>c synced. entry d n \<noteq> Some (RegularFile c synced)))))"
    by (blast intro: ends_mono)
  then show "ends (\<lambda>d. d = d0) (\<lambda>(d, w). remove_owned env file_name (map fst (dk_entries d)) (d, w))
     (\<lambda>r d. cleaned file_name d0 d \<and>
        (r = Inr () \<longrightarrow> (\<forall>n. owned file_name n \<longrightarrow> (\<forall>c synced. entry d n \<noteq> Some (RegularFile c synced)))))"
    by (rule ends_at) (simp_all add: gone_def)
qed auto

end
