(* ===== verification/Workbench_Laws.thy ===== *)
theory Workbench_Laws
  imports Workbench_Store Workbench_Valid Atomic_Laws
begin

text \<open>
  What the saved layout promises: which document a home resolves to depends only on the
  contents of its two files; a save or a reset that stops anywhere leaves the old document or
  the new one, also after a loss of power; only the holder of the current revision and token
  replaces it; a request that is sent again is answered without a second write.
\<close>

section \<open>The document two files stand for\<close>

definition classify_content :: "wb_io \<Rightarrow> string option \<Rightarrow> slot_state" where
  "classify_content c x = (case x of None \<Rightarrow> SlotMissing | Some bytes \<Rightarrow> classify_bytes c bytes)"

definition resolve_slots :: "wb_io \<Rightarrow> string option \<Rightarrow> string option \<Rightarrow> wb_error + resolved_state" where
  "resolve_slots c primary_bytes backup_bytes =
     (let primary = classify_content c primary_bytes; backup = classify_content c backup_bytes in
      case primary of
        SlotFuture \<Rightarrow> Inr (ResolvedFuture future_primary_notice)
      | SlotValid doc bytes token \<Rightarrow>
          if backup = SlotFuture then Inr (ResolvedFuture future_backup_notice)
          else Inr (ResolvedV1 PrimarySource doc token None (Some bytes))
      | _ \<Rightarrow>
          (case backup of
             SlotFuture \<Rightarrow> Inr (ResolvedFuture future_backup_notice)
           | SlotValid doc _ token \<Rightarrow> Inr (ResolvedV1 BackupSource doc token
               (Some ''Wardian recovered the workbench from its last-known-good backup.'') None)
           | _ \<Rightarrow> resolve_default c primary backup))"

text \<open>The document and its token, whatever file they came from.\<close>

fun durable :: "wb_error + resolved_state \<Rightarrow> (wb_doc \<times> string) option" where
  "durable (Inr (ResolvedV1 _ doc token _ _)) = Some (doc, token)"
| "durable _ = None"

definition content :: "dir_entry option \<Rightarrow> string option" where
  "content e = (case e of Some (RegularFile bytes _) \<Rightarrow> Some bytes | _ \<Rightarrow> None)"

text \<open>What a home shows, and what it may show after a loss of power.\<close>

definition shown :: "files \<Rightarrow> string \<Rightarrow> string option" where
  "shown F n = content (fst (F n))"

definition resolves :: "wb_io \<Rightarrow> files \<Rightarrow> wb_error + resolved_state" where
  "resolves c F = resolve_slots c (shown F primary_name) (shown F backup_name)"

definition survives :: "files \<Rightarrow> string \<Rightarrow> string option \<Rightarrow> bool" where
  "survives F n x \<longleftrightarrow> Torn \<in> set (snd (F n)) \<or>
     (case x of None \<Rightarrow> Absent \<in> set (snd (F n)) | Some bytes \<Rightarrow> Whole bytes \<in> set (snd (F n)))"

text \<open>Both files were flushed and so was the directory.\<close>

definition slot_quiescent :: "slot \<Rightarrow> bool" where
  "slot_quiescent s = (case s of
     (None, versions) \<Rightarrow> versions = [Absent]
   | (Some (RegularFile bytes synced), versions) \<Rightarrow> synced \<and> versions = [Whole bytes]
   | _ \<Rightarrow> False)"

definition quiescent :: "files \<Rightarrow> bool" where
  "quiescent F \<longleftrightarrow> slot_quiescent (F primary_name) \<and> slot_quiescent (F backup_name)"

lemma slot_quiescent_cases:
  "slot_quiescent s \<longleftrightarrow> s = (None, [Absent]) \<or> (\<exists>bytes. s = (Some (RegularFile bytes True), [Whole bytes]))"
  by (auto simp: slot_quiescent_def split: prod.splits option.splits dir_entry.splits)

lemma slot_names [simp]: "\<not> dotted primary_name" "\<not> dotted backup_name" "primary_name \<noteq> backup_name"
  "backup_name \<noteq> primary_name"
  by (simp_all add: primary_name_def backup_name_def)

lemma quiescent_survives:
  "quiescent F \<Longrightarrow> n \<in> {primary_name, backup_name} \<Longrightarrow> survives F n x \<longleftrightarrow> x = shown F n"
  by (auto simp: quiescent_def slot_quiescent_cases survives_def shown_def content_def split: option.split)

section \<open>Resolving\<close>

lemma ends_io: "ends P m (\<lambda>r d. case r of Inl e \<Rightarrow> Q (Inl (WbIo e)) d | Inr x \<Rightarrow> Q (Inr x) d) \<Longrightarrow> ends P (fx_io m) Q"
proof (rule endsI)
  fix d w r d' w' assume P: "P d" and run: "fx_io m (d, w) = (r, (d', w'))"
    and m: "ends P m (\<lambda>r d. case r of Inl e \<Rightarrow> Q (Inl (WbIo e)) d | Inr x \<Rightarrow> Q (Inr x) d)"
  obtain r1 d1 w1 where s: "m (d, w) = (r1, (d1, w1))" by (cases "m (d, w)") auto
  from endsD [OF m P s] run show "Q r d'" by (cases r1) (auto simp: fx_io_def s)
qed

lemma ends_cleanup:
  "ends (\<lambda>d. view d = V) (fx_io (cleanup_atomic_temps env n)) (\<lambda>r d. view d = V)"
proof (rule endsI)
  fix d w r d' w' assume V: "view d = V" and run: "fx_io (cleanup_atomic_temps env n) (d, w) = (r, (d', w'))"
  obtain r1 d1 w1 where m: "cleanup_atomic_temps env n (d, w) = (r1, (d1, w1))"
    by (cases "cleanup_atomic_temps env n (d, w)") auto
  with run have "d' = d1" by (cases r1) (auto simp: fx_io_def)
  moreover have "cleaned n d d1" using endsD [OF cleanup_ends [of d env n] refl m] by simp
  ultimately show "view d' = V" using V by (simp add: cleaned_def)
qed

lemma ends_classify:
  assumes "\<not> dotted n"
  shows "ends (\<lambda>d. view d = V) (classify_slot env n)
    (\<lambda>r d. view d = V \<and> (\<forall>x. r = Inr x \<longrightarrow> x = classify_content (we_codec env) (shown (fst V) n)))"
proof (rule endsI)
  fix d w r d' w' assume V: "view d = V" and run: "classify_slot env n (d, w) = (r, (d', w'))"
  have slot: "fst (fst V n) = entry d n" using assms V by (auto simp: view_def)
  show "view d' = V \<and> (\<forall>x. r = Inr x \<longrightarrow> x = classify_content (we_codec env) (shown (fst V) n))"
    using run V
    by (auto simp: classify_slot_def read_file_def fx_bind_def quiet_call_def syscall_def classify_content_def
        shown_def content_def slot split: prod.splits io_answer.splits option.splits dir_entry.splits io_error.splits)
qed

lemma resolve_ends:
  "ends (\<lambda>d. view d = V) (resolve_state env)
    (\<lambda>r d. view d = V \<and> (\<forall>x. r = Inr x \<longrightarrow> resolves (we_codec env) (fst V) = Inr x))"
proof -
  let ?p = "classify_content (we_codec env) (shown (fst V) primary_name)"
  let ?b = "classify_content (we_codec env) (shown (fst V) backup_name)"
  let ?I = "\<lambda>d. view d = V"
  have primary: "ends ?I (classify_slot env primary_name)
      (\<lambda>r d. case r of Inl e \<Rightarrow> ?I d | Inr x \<Rightarrow> ?I d \<and> x = ?p \<and> True)"
    by (rule ends_mono [OF ends_classify [of primary_name V env]]) (auto split: sum.split)
  have backup: "ends ?I (classify_slot env backup_name)
      (\<lambda>r d. case r of Inl e \<Rightarrow> ?I d | Inr x \<Rightarrow> ?I d \<and> x = ?b \<and> True)"
    by (rule ends_mono [OF ends_classify [of backup_name V env]]) (auto split: sum.split)
  have cleaning: "ends ?I (fx_io (cleanup_atomic_temps (we_fs env) n)) (\<lambda>r d. case r of
        Inl e \<Rightarrow> view d = V \<and> (\<forall>x. Inl e = Inr x \<longrightarrow> resolves (we_codec env) (fst V) = Inr x)
      | Inr x \<Rightarrow> ?I d)" for n
    by (rule ends_mono [OF ends_cleanup]) (auto split: sum.split)
  have last: "ends (\<lambda>d. ?I d \<and> backup = ?b \<and> True) (case backup of
           SlotFuture \<Rightarrow> fx_ret (ResolvedFuture future_backup_notice)
         | SlotValid doc _ token \<Rightarrow> fx_ret (ResolvedV1 BackupSource doc token
             (Some ''Wardian recovered the workbench from its last-known-good backup.'') None)
         | _ \<Rightarrow> (\<lambda>s. (resolve_default (we_codec env) primary backup, s)))
      (\<lambda>r d. view d = V \<and> (\<forall>x. r = Inr x \<longrightarrow> resolves (we_codec env) (fst V) = Inr x))"
    if "primary = ?p" "?p = SlotMissing \<or> ?p = SlotInvalid" for primary backup
    unfolding ends_guarded
    using that by (auto simp: ends_def fx_ret_def resolves_def resolve_slots_def Let_def split: slot_state.splits)
  show ?thesis
    unfolding resolve_state_def
  proof (rule ends_bind [where R = "\<lambda>_. ?I"], rule cleaning, rule ends_bind [where R = "\<lambda>_. ?I"],
      rule cleaning, goal_cases)
    case 1
    show ?case
    proof (rule ends_bind [where R = "\<lambda>x d. ?I d \<and> x = ?p \<and> True"])
      show "ends ?I (classify_slot env primary_name) (\<lambda>r d. case r of
          Inl e \<Rightarrow> view d = V \<and> (\<forall>x. Inl e = Inr x \<longrightarrow> resolves (we_codec env) (fst V) = Inr x)
        | Inr x \<Rightarrow> ?I d \<and> x = ?p \<and> True)"
        by (rule ends_mono [OF primary]) (auto split: sum.splits)
      fix primary
      show "ends (\<lambda>d. ?I d \<and> primary = ?p \<and> True) (case primary of
          SlotFuture \<Rightarrow> fx_ret (ResolvedFuture future_primary_notice)
        | SlotValid doc bytes token \<Rightarrow>
            fx_bind (classify_slot env backup_name) (\<lambda>backup.
            if backup = SlotFuture then fx_ret (ResolvedFuture future_backup_notice)
            else fx_ret (ResolvedV1 PrimarySource doc token None (Some bytes)))
        | _ \<Rightarrow> fx_bind (classify_slot env backup_name) (\<lambda>backup.
            case backup of
              SlotFuture \<Rightarrow> fx_ret (ResolvedFuture future_backup_notice)
            | SlotValid doc _ token \<Rightarrow> fx_ret (ResolvedV1 BackupSource doc token
                (Some ''Wardian recovered the workbench from its last-known-good backup.'') None)
            | _ \<Rightarrow> (\<lambda>s. (resolve_default (we_codec env) primary backup, s))))
          (\<lambda>r d. view d = V \<and> (\<forall>x. r = Inr x \<longrightarrow> resolves (we_codec env) (fst V) = Inr x))"
        unfolding ends_guarded
      proof (intro impI)
        assume p: "primary = ?p"
        have read: "ends ?I (classify_slot env backup_name) (\<lambda>r d. case r of
            Inl e \<Rightarrow> view d = V \<and> (\<forall>x. (Inl e :: wb_error + resolved_state) = Inr x \<longrightarrow> resolves (we_codec env) (fst V) = Inr x)
          | Inr x \<Rightarrow> ?I d \<and> x = ?b \<and> True)"
          by (rule ends_mono [OF backup]) (auto split: sum.splits)
        show "ends ?I (case primary of
          SlotFuture \<Rightarrow> fx_ret (ResolvedFuture future_primary_notice)
        | SlotValid doc bytes token \<Rightarrow>
            fx_bind (classify_slot env backup_name) (\<lambda>backup.
            if backup = SlotFuture then fx_ret (ResolvedFuture future_backup_notice)
            else fx_ret (ResolvedV1 PrimarySource doc token None (Some bytes)))
        | _ \<Rightarrow> fx_bind (classify_slot env backup_name) (\<lambda>backup.
            case backup of
              SlotFuture \<Rightarrow> fx_ret (ResolvedFuture future_backup_notice)
            | SlotValid doc _ token \<Rightarrow> fx_ret (ResolvedV1 BackupSource doc token
                (Some ''Wardian recovered the workbench from its last-known-good backup.'') None)
            | _ \<Rightarrow> (\<lambda>s. (resolve_default (we_codec env) primary backup, s))))
          (\<lambda>r d. view d = V \<and> (\<forall>x. r = Inr x \<longrightarrow> resolves (we_codec env) (fst V) = Inr x))"
        proof (cases primary)
          case SlotFuture
          with p [symmetric] show ?thesis by (simp add: resolves_def resolve_slots_def Let_def)
        next
          case (SlotValid doc bytes token)
          have "ends (\<lambda>d. ?I d \<and> backup = ?b \<and> True)
              (if backup = SlotFuture then fx_ret (ResolvedFuture future_backup_notice)
               else fx_ret (ResolvedV1 PrimarySource doc token None (Some bytes)))
              (\<lambda>r d. view d = V \<and> (\<forall>x. r = Inr x \<longrightarrow> resolves (we_codec env) (fst V) = Inr x))" for backup
            unfolding ends_guarded using p [symmetric] SlotValid
            by (auto simp: resolves_def resolve_slots_def Let_def)
          from ends_bind [OF read this] show ?thesis by (simp add: SlotValid)
        next
          case SlotMissing
          with p have "?p = SlotMissing \<or> ?p = SlotInvalid" by simp
          from ends_bind [OF read last [OF p this]] show ?thesis by (simp add: SlotMissing)
        next
          case SlotInvalid
          with p have "?p = SlotMissing \<or> ?p = SlotInvalid" by simp
          from ends_bind [OF read last [OF p this]] show ?thesis by (simp add: SlotInvalid)
        qed
      qed
    qed
  qed
qed

section \<open>Persisting\<close>

fun current_bytes :: "resolved_state \<Rightarrow> string option" where
  "current_bytes (ResolvedV1 _ _ _ _ current) = current"
| "current_bytes (ResolvedFuture _) = None"

text \<open>A valid primary is first flushed to the backup.\<close>

definition backed_up :: "string option \<Rightarrow> files \<Rightarrow> files" where
  "backed_up current F = (case current of None \<Rightarrow> F | Some c \<Rightarrow> settled (wrote backup_name c F))"

definition replaced :: "string option \<Rightarrow> string \<Rightarrow> files \<Rightarrow> files" where
  "replaced current bytes F = settled (wrote primary_name bytes (backed_up current F))"

definition interrupted :: "string option \<Rightarrow> string \<Rightarrow> files \<Rightarrow> files \<Rightarrow> bool" where
  "interrupted current bytes F G \<longleftrightarrow> G = F \<or> (\<exists>c. current = Some c \<and> G = wrote backup_name c F) \<or>
     G = backed_up current F \<or> G = wrote primary_name bytes (backed_up current F)"

definition persisted :: "string option \<Rightarrow> string \<Rightarrow> files \<Rightarrow> 'e + unit \<Rightarrow> files \<Rightarrow> bool" where
  "persisted current bytes F r G \<longleftrightarrow>
     interrupted current bytes F G \<and> r \<noteq> Inr () \<or> G = replaced current bytes F"

lemma persist_ends:
  "ends (\<lambda>d. view d = (F, m)) (persist_bytes_with_hook env hook resolved bytes)
     (\<lambda>r d. \<exists>G. view d = (G, m) \<and> persisted (current_bytes resolved) bytes F r G)"
  unfolding persist_bytes_with_hook_def
proof (rule ends_bind [where R = "\<lambda>tmp d. (view d = (F, m) \<and> entry d tmp = Some (RegularFile bytes True)) \<and> dotted tmp \<and> True"],
    goal_cases)
  case 1
  show ?case
    by (rule ends_io, rule ends_mono [OF stage_ends [where V = "(F, m)" and E = "\<lambda>_. None"]])
      (auto simp: keeps_entries_def persisted_def interrupted_def split: sum.split)
next
  case (2 tmp)
  let ?E = "\<lambda>n. if n = tmp then Some (RegularFile bytes True) else None"
  let ?V = "(backed_up (current_bytes resolved) F, m)"
  let ?post = "\<lambda>r d. \<exists>G. view d = (G, m) \<and> persisted (current_bytes resolved) bytes F r G"
  have kept: "keeps_entries ?E d \<longleftrightarrow> entry d tmp = Some (RegularFile bytes True)" if "dotted tmp" for d :: "'b disk_scheme"
    using that by (auto simp: keeps_entries_def)
  have backup: "ends (\<lambda>d. view d = (F, m) \<and> entry d tmp = Some (RegularFile bytes True))
      (fx_io (write_bytes_atomic_durable_with_hook (we_fs env) hook backup_name c BackupRole))
      (\<lambda>r d. case r of Inl e \<Rightarrow> ?post (Inl e) d | Inr u \<Rightarrow> view d = ?V \<and> entry d tmp = Some (RegularFile bytes True))"
    if "dotted tmp" "current_bytes resolved = Some c" for c
    by (rule ends_io, rule ends_mono [OF write_ends [where V = "(F, m)" and E = ?E]])
      (auto simp: kept that replacing_def persisted_def interrupted_def backed_up_def written_def flushed_def
        split: sum.split)
  have primary: "ends (\<lambda>d. view d = ?V \<and> entry d tmp = Some (RegularFile bytes True))
      (fx_io (replace_staged_atomic_durable_with_hook (we_fs env) hook tmp primary_name PrimaryRole)) ?post"
    if "dotted tmp"
    by (rule ends_io, rule ends_mono [OF replace_ends [where V = ?V and E = "\<lambda>_. None" and tmp = tmp and c = bytes]])
      (auto simp: that keeps_entries_def replacing_def persisted_def interrupted_def replaced_def
        written_def flushed_def split: sum.split)
  show ?case
    unfolding ends_guarded
  proof (intro impI)
    assume tmp: "dotted tmp"
    show "ends (\<lambda>d. view d = (F, m) \<and> entry d tmp = Some (RegularFile bytes True))
      (fx_bind (case resolved of
         ResolvedV1 _ _ _ _ (Some current) \<Rightarrow>
           fx_io (write_bytes_atomic_durable_with_hook (we_fs env) hook backup_name current BackupRole)
       | _ \<Rightarrow> fx_ret ()) (\<lambda>_.
       fx_io (replace_staged_atomic_durable_with_hook (we_fs env) hook tmp primary_name PrimaryRole))) ?post"
      by (rule ends_bind [OF _ primary [OF tmp]], cases resolved)
        (auto simp: backup [OF tmp] backed_up_def split: option.split)
  qed
qed

end
