(* ===== verification/Workbench_Save.thy ===== *)
theory Workbench_Save
  imports Workbench_Laws
begin

text \<open>
  What a save and a reset of the layout promise: a home that stops anywhere, also by a loss of
  power, comes back with the old document or the new one; an acknowledged one comes back;
  only the holder of the current revision and token replaces it, once; a request that is sent
  again, also after a restart, is answered as before and writes nothing.
\<close>

section \<open>What survives\<close>

lemma survives_wrote: "survives (wrote n c F) m x \<longleftrightarrow> survives F m x \<or> m = n \<and> x = Some c"
  by (auto simp: survives_def wrote_def split: option.split)

lemma survives_settled:
  "\<not> dotted n \<Longrightarrow> quiescent F \<Longrightarrow> n \<in> {primary_name, backup_name} \<Longrightarrow>
   survives (settled (wrote m c F)) n x \<longleftrightarrow> (if n = m then x = Some c else survives F n x)"
  by (auto simp: survives_def wrote_def settled_def quiescent_def slot_quiescent_cases split: option.split)

lemma quiescent_settled: "quiescent F \<Longrightarrow> quiescent (settled (wrote n c F))"
  by (auto simp: quiescent_def slot_quiescent_cases settled_def wrote_def)

lemma shown_settled: "\<not> dotted m \<Longrightarrow> shown (settled (wrote n c F)) m = (if m = n then Some c else shown F m)"
  by (simp add: shown_def settled_def wrote_def content_def)

lemma quiescent_backed_up: "quiescent F \<Longrightarrow> quiescent (backed_up current F)"
  by (simp add: backed_up_def quiescent_settled split: option.split)

lemma quiescent_replaced: "quiescent F \<Longrightarrow> quiescent (replaced current bytes F)"
  by (simp add: replaced_def quiescent_settled quiescent_backed_up)

lemma survives_backed_up:
  "quiescent F \<Longrightarrow> survives (backed_up current F) primary_name x \<longleftrightarrow> x = shown F primary_name"
  "quiescent F \<Longrightarrow> survives (backed_up current F) backup_name x \<longleftrightarrow>
     x = (case current of None \<Rightarrow> shown F backup_name | Some c \<Rightarrow> Some c)"
  by (auto simp: backed_up_def survives_settled quiescent_survives split: option.split)

lemma shown_replaced:
  "shown (replaced current bytes F) primary_name = Some bytes"
  "shown (replaced current bytes F) backup_name = (case current of None \<Rightarrow> shown F backup_name | Some c \<Rightarrow> Some c)"
  by (simp_all add: replaced_def backed_up_def shown_settled split: option.split)

text \<open>The pairs of contents a replacement can stop at.\<close>

definition stopped_at :: "string option \<Rightarrow> string \<Rightarrow> files \<Rightarrow> string option \<Rightarrow> string option \<Rightarrow> bool" where
  "stopped_at current bytes F x y \<longleftrightarrow>
     x = shown F primary_name \<and> (y = shown F backup_name \<or> current \<noteq> None \<and> y = current) \<or>
     x = Some bytes \<and> y = (case current of None \<Rightarrow> shown F backup_name | Some c \<Rightarrow> Some c)"

lemma survives_interrupted:
  assumes "quiescent F" "interrupted current bytes F G"
    "survives G primary_name x" "survives G backup_name y"
  shows "stopped_at current bytes F x y"
  using assms
  by (auto simp: stopped_at_def interrupted_def survives_wrote survives_backed_up quiescent_survives split: option.splits)

lemma shown_wrote: "shown (wrote n c F) m = (if m = n then Some c else shown F m)"
  by (simp add: shown_def wrote_def content_def)

lemma shown_interrupted:
  assumes "interrupted current bytes F G"
  shows "stopped_at current bytes F (shown G primary_name) (shown G backup_name)"
  using assms
  by (auto simp: stopped_at_def interrupted_def shown_wrote backed_up_def shown_settled split: option.splits)

lemma survives_replaced:
  "quiescent F \<Longrightarrow> survives (replaced current bytes F) n x \<Longrightarrow> n \<in> {primary_name, backup_name} \<Longrightarrow>
   x = shown (replaced current bytes F) n"
  using quiescent_survives [OF quiescent_replaced] by blast

section \<open>Which document comes back\<close>

lemma classify_bytes_kept: "classify_bytes c bytes = SlotValid doc bytes' token \<Longrightarrow> bytes' = bytes"
  by (auto simp: classify_bytes_def split: if_splits option.splits sum.splits)

lemma classify_content_valid:
  "classify_content c x = SlotValid doc bytes token \<Longrightarrow> x = Some bytes \<and> classify_bytes c bytes = SlotValid doc bytes token"
  by (auto simp: classify_content_def dest: classify_bytes_kept split: option.splits)

text \<open>The primary of the state that was resolved, and its backup.\<close>

lemma resolved_cases:
  assumes "resolves c F = Inr (ResolvedV1 source doc token notice current)"
  shows "classify_content c (shown F backup_name) \<noteq> SlotFuture"
    and "current = Some bytes \<Longrightarrow> shown F primary_name = Some bytes \<and> source = PrimarySource \<and>
      classify_bytes c bytes = SlotValid doc bytes token"
    and "current = None \<Longrightarrow> source \<noteq> PrimarySource"
proof -
  note def = resolves_def resolve_slots_def Let_def resolve_default_def
  show "classify_content c (shown F backup_name) \<noteq> SlotFuture"
    using assms by (auto simp: def split: slot_state.splits)
  show "shown F primary_name = Some bytes \<and> source = PrimarySource \<and>
      classify_bytes c bytes = SlotValid doc bytes token" if "current = Some bytes"
  proof -
    have "classify_content c (shown F primary_name) = SlotValid doc bytes token \<and> source = PrimarySource"
      using assms that by (auto simp: def split: slot_state.splits if_splits sum.splits)
    then show ?thesis using classify_content_valid by blast
  qed
  show "source \<noteq> PrimarySource" if "current = None"
    using assms that by (auto simp: def split: slot_state.splits if_splits sum.splits)
qed

text \<open>A valid primary wins, unless the backup is from the future.\<close>

lemma resolve_valid_primary:
  "classify_bytes c bytes = SlotValid doc bytes token \<Longrightarrow> classify_content c y \<noteq> SlotFuture \<Longrightarrow>
   resolve_slots c (Some bytes) y = Inr (ResolvedV1 PrimarySource doc token None (Some bytes))"
  by (simp add: resolve_slots_def classify_content_def)

lemma backup_not_future:
  assumes "resolves c F = Inr (ResolvedV1 source doc token notice current)"
  shows "classify_content c (case current of None \<Rightarrow> shown F backup_name | Some b \<Rightarrow> Some b) \<noteq> SlotFuture"
  using resolved_cases [OF assms] by (auto simp: classify_content_def split: option.split)

lemma replaced_resolves:
  assumes "resolves c F = Inr (ResolvedV1 source doc token notice current)"
    and "classify_bytes c bytes = SlotValid doc' bytes token'"
  shows "resolves c (replaced current bytes F) = Inr (ResolvedV1 PrimarySource doc' token' None (Some bytes))"
  using resolve_valid_primary [OF assms(2) backup_not_future [OF assms(1)]]
  by (simp add: resolves_def shown_replaced)

text \<open>Wherever a replacement stops, the old document or the new one is what comes back.\<close>

lemma stopped_durable:
  assumes R: "resolves c F = Inr (ResolvedV1 source doc token notice current)"
    and new: "classify_bytes c bytes = SlotValid doc' bytes token'"
    and xy: "stopped_at current bytes F x y"
  shows "durable (resolve_slots c x y) \<in> {Some (doc, token), Some (doc', token')}"
  using xy unfolding stopped_at_def
proof (elim disjE conjE)
  assume "x = shown F primary_name" "y = shown F backup_name"
  then show ?thesis using R by (simp add: resolves_def)
next
  assume x: "x = shown F primary_name" and y: "current \<noteq> None" "y = current"
  then obtain b where b: "current = Some b" by blast
  have "classify_bytes c b = SlotValid doc b token" "shown F primary_name = Some b"
    using resolved_cases(2) [OF R b] by auto
  with x y b show ?thesis by (simp add: resolve_valid_primary classify_content_def)
next
  assume "x = Some bytes" "y = (case current of None \<Rightarrow> shown F backup_name | Some c \<Rightarrow> Some c)"
  then show ?thesis using resolve_valid_primary [OF new backup_not_future [OF R]] by simp
qed

lemma persisted_durable:
  assumes quiet: "quiescent F" and R: "resolves c F = Inr (ResolvedV1 source doc token notice current)"
    and new: "classify_bytes c bytes = SlotValid doc' bytes token'"
    and G: "persisted current bytes F r G"
    and xy: "survives G primary_name x" "survives G backup_name y"
  shows "durable (resolve_slots c x y) \<in> {Some (doc, token), Some (doc', token')} \<and>
    (r = Inr () \<longrightarrow> durable (resolve_slots c x y) = Some (doc', token'))"
proof (cases "G = replaced current bytes F")
  case True
  with xy survives_replaced [OF quiet] have "x = shown G primary_name" "y = shown G backup_name" by auto
  then have "resolve_slots c x y = resolves c G" by (simp add: resolves_def)
  with replaced_resolves [OF R new] True show ?thesis by simp
next
  case False
  with G have "interrupted current bytes F G" "r \<noteq> Inr ()" by (auto simp: persisted_def)
  with stopped_durable [OF R new survives_interrupted [OF quiet _ xy]] show ?thesis by blast
qed

section \<open>What a request does\<close>

abbreviation home_at :: "files \<Rightarrow> ledgers \<Rightarrow> session \<Rightarrow> bool" where
  "home_at F l d \<equiv> view d = (F, \<lparr>ss_ledgers = l\<rparr>)"

lemma home_at_self: "home_at (fst (view d)) (ss_ledgers d) d"
  by (cases d) (simp add: view_def)

lemma home_at_ledgers [simp]: "home_at F l d \<Longrightarrow> ss_ledgers d = l"
  by (cases d) (simp add: view_def)

lemma home_at_update: "home_at F l d \<Longrightarrow> home_at F l' (d\<lparr>ss_ledgers := l'\<rparr>)"
  by (cases d) (simp add: view_def entry_def cong: if_cong)

text \<open>What a request comes to once the home is resolved: an answer, an answer to remember, or
  bytes to persist before it is.\<close>

datatype 'r decision = Answers 'r | Remembers 'r request_entry | Persists string 'r request_entry

definition remembered :: "string \<Rightarrow> string \<Rightarrow> request_entry \<Rightarrow> ledgers \<Rightarrow> 'r \<Rightarrow> wb_error + 'r \<Rightarrow> ledgers \<Rightarrow> bool" where
  "remembered home i e l x r l' \<longleftrightarrow>
     (case remember_request home i e l of
        None \<Rightarrow> r = Inl Unresponsive \<and> l' = l
      | Some l1 \<Rightarrow> r = Inr x \<and> l' = l1)"

fun acted ::
  "string \<Rightarrow> string \<Rightarrow> string option \<Rightarrow> files \<Rightarrow> ledgers \<Rightarrow> 'r decision \<Rightarrow> wb_error + 'r \<Rightarrow> files \<Rightarrow> ledgers \<Rightarrow> bool" where
  "acted home i current F l (Answers x) r G l' \<longleftrightarrow> G = F \<and> l' = l \<and> r = Inr x"
| "acted home i current F l (Remembers x e) r G l' \<longleftrightarrow> G = F \<and> remembered home i e l x r l'"
| "acted home i current F l (Persists bytes x e) r G l' \<longleftrightarrow>
     interrupted current bytes F G \<and> l' = l \<and> (\<exists>err. r = Inl err) \<or>
     G = replaced current bytes F \<and> (l' = l \<and> (\<exists>err. r = Inl err) \<or> remembered home i e l x r l')"

definition save_entry :: "string \<Rightarrow> save_result \<Rightarrow> request_entry" where
  "save_entry fingerprint result = \<lparr>re_kind = SaveKind, re_fingerprint = fingerprint, re_result = StoredSave result\<rparr>"

definition saved_result :: "u64 \<Rightarrow> string \<Rightarrow> string \<Rightarrow> save_result" where
  "saved_result revision token i = \<lparr>sr_outcome = Saved, sr_durable_revision = Some revision,
     sr_durable_token = Some token, sr_request_id = i\<rparr>"

definition decide_save ::
  "wb_io \<Rightarrow> save_request \<Rightarrow> resolved_state \<Rightarrow> load_source \<Rightarrow> wb_doc \<Rightarrow> string \<Rightarrow> request_entry option \<Rightarrow> save_result decision" where
  "decide_save c q R source doc token found =
     (let i = sq_request_id q; revision = wd_revision (sq_document q);
          bytes = wc_to_vec c (sq_document q); incoming = token_for c bytes;
          fingerprint = fingerprint_of revision incoming;
          conflict = Answers (save_result_for_resolved R RevisionConflict i);
          entry = save_entry fingerprint (saved_result revision incoming i)
      in case found of
           Some e \<Rightarrow> (case replayed_save R fingerprint e of Some x \<Rightarrow> Answers x | None \<Rightarrow> conflict)
         | None \<Rightarrow>
             if source = PrimarySource \<and> revision = wd_revision doc \<and> incoming = token
             then Remembers (saved_result revision incoming i) entry
             else if sq_expected_revision q = wd_revision doc \<and> sq_expected_token q = token \<and>
                sq_expected_revision q < MAX_SAFE_INTEGER \<and> sq_expected_revision q + 1 = revision
             then Persists bytes (saved_result revision incoming i) entry
             else conflict)"

lemma ends_ledger:
  "ends (home_at F l) (ledger_entry env i) (\<lambda>r d. r = Inr (fst (find_ledger_entry (we_home env) i l)) \<and>
     home_at F (snd (find_ledger_entry (we_home env) i l)) d)"
  by (rule endsI) (auto simp: ledger_entry_def home_at_update split: prod.splits)

lemma ends_remember:
  "ends (home_at F l) (remember env i e) (\<lambda>r d. \<exists>l'. home_at F l' d \<and> remembered (we_home env) i e l () r l')"
  by (rule endsI) (auto simp: remember_def remembered_def home_at_update split: option.splits)

lemma remembered_ret: "remembered home i e l () (Inr u) l' \<Longrightarrow> remembered home i e l x (Inr x) l'"
  "remembered home i e l () (Inl err) l' \<Longrightarrow> remembered home i e l x (Inl err) l'"
  by (auto simp: remembered_def split: option.splits)

lemma ends_guard: "ends (\<lambda>d. P d \<and> b) m Q \<longleftrightarrow> (b \<longrightarrow> ends P m Q)"
  unfolding ends_def by blast

lemma ends_bind_at:
  assumes "ends P m (\<lambda>r d. case r of Inl e \<Rightarrow> Q (Inl e) d | Inr x \<Rightarrow> \<exists>l. R x l d)"
    and "\<And>x l. ends (R x l) (f x) Q"
  shows "ends P (fx_bind m f) Q"
proof (rule ends_bind [OF assms(1)])
  show "ends (\<lambda>d. \<exists>l. R x l d) (f x) Q" for x
    by (rule endsI, elim exE) (rule endsD [OF assms(2)])
qed

lemma remember_answer_ends:
  "ends (home_at F l) (fx_bind (remember env i e) (\<lambda>_. fx_ret x))
     (\<lambda>r d. \<exists>l'. home_at F l' d \<and> remembered (we_home env) i e l x r l')"
  by (rule ends_bind_at [where R = "\<lambda>u l' d. home_at F l' d \<and> remembered (we_home env) i e l () (Inr u) l' \<and> True",
      OF ends_mono [OF ends_remember]])
    (auto simp: ends_guarded dest: remembered_ret split: sum.split)

text \<open>The interface of the files: a write stops at one of the states that \<open>persisted\<close> lists. What
  a save and a reset do with it is proved once.\<close>

locale durable_writer =
  fixes persist :: "resolved_state \<Rightarrow> string \<Rightarrow> ('w, unit) wb"
  assumes persist_stops: "ends (\<lambda>d. view d = (F, m)) (persist R bytes)
    (\<lambda>r d. \<exists>G. view d = (G, m) \<and> persisted (current_bytes R) bytes F r G)"
begin

lemma answer_ends:
  assumes "\<And>F l. ends (home_at F l) after (\<lambda>r d. \<exists>l'. home_at F l' d \<and> remembered home i e l x r l')"
  shows "ends (home_at F l) (fx_bind (persist R bytes) (\<lambda>_. after))
     (\<lambda>r d. \<exists>G l'. home_at G l' d \<and> acted home i (current_bytes R) F l (Persists bytes x e) r G l')"
proof (rule ends_bind [where R = "\<lambda>_. home_at (replaced (current_bytes R) bytes F) l"])
  show "ends (home_at F l) (persist R bytes) (\<lambda>r d. case r of
      Inl err \<Rightarrow> \<exists>G l'. home_at G l' d \<and> acted home i (current_bytes R) F l (Persists bytes x e) (Inl err) G l'
    | Inr u \<Rightarrow> home_at (replaced (current_bytes R) bytes F) l d)"
    by (rule ends_mono [OF persist_stops]) (auto simp: persisted_def split: sum.splits)
  show "ends (home_at (replaced (current_bytes R) bytes F) l) after
     (\<lambda>r d. \<exists>G l'. home_at G l' d \<and> acted home i (current_bytes R) F l (Persists bytes x e) r G l')"
    by (rule ends_mono [OF assms]) auto
qed

end

interpretation writer: durable_writer "persist_bytes env" for env :: "'w wb_env"
  by unfold_locales (simp add: persist_bytes_def persist_ends)

text \<open>A save as one step from the files and the ledgers to the next.\<close>

definition saving :: "'w wb_env \<Rightarrow> save_request \<Rightarrow> files \<Rightarrow> ledgers \<Rightarrow> wb_error + save_result \<Rightarrow> files \<Rightarrow> ledgers \<Rightarrow> bool" where
  "saving env q F l r G l' \<longleftrightarrow>
     (\<exists>err. r = Inl err) \<and> G = F \<and> l' = l \<or>
     (\<exists>notice. resolves (we_codec env) F = Inr (ResolvedFuture notice) \<and> G = F \<and> l' = l \<and>
        r = Inr (save_result_for_resolved (ResolvedFuture notice) FutureSchemaOutcome (sq_request_id q))) \<or>
     (\<exists>source doc token notice current R. R = ResolvedV1 source doc token notice current \<and>
        resolves (we_codec env) F = Inr R \<and> validate_doc (we_codec env) (sq_document q) = Inr () \<and>
        (let (found, l1) = find_ledger_entry (we_home env) (sq_request_id q) l
         in acted (we_home env) (sq_request_id q) current F l1
              (decide_save (we_codec env) q R source doc token found) r G l'))"

lemma saving_failed [simp]: "saving env q F l (Inl err) F l"
  by (simp add: saving_def)

lemma safe_not_max: "(x :: u64) < MAX_SAFE_INTEGER \<Longrightarrow> x \<noteq> - 1"
  by (auto simp: MAX_SAFE_INTEGER_def)

lemma saved_and_remembered_ends:
  "ends (home_at F l) (saved_and_remembered env i fingerprint revision token)
     (\<lambda>r d. \<exists>l'. home_at F l' d \<and>
        remembered (we_home env) i (save_entry fingerprint (saved_result revision token i)) l (saved_result revision token i) r l')"
  unfolding saved_and_remembered_def Let_def save_entry_def saved_result_def by (rule remember_answer_ends)

lemma save_looked_up_ends:
  assumes "R = ResolvedV1 source doc token notice current"
  shows "ends (home_at F l) (save_looked_up env q R source doc token found)
    (\<lambda>r d. \<exists>G l'. home_at G l' d \<and>
       acted (we_home env) (sq_request_id q) current F l (decide_save (we_codec env) q R source doc token found) r G l')"
proof -
  have answer: "ends (home_at F l) (fx_ret x)
      (\<lambda>r d. \<exists>G l'. home_at G l' d \<and> acted (we_home env) (sq_request_id q) current F l (Answers x) r G l')" for x
    by simp
  have remember: "ends (home_at F l) (saved_and_remembered env (sq_request_id q) fp rev t)
      (\<lambda>r d. \<exists>G l'. home_at G l' d \<and> acted (we_home env) (sq_request_id q) current F l
         (Remembers (saved_result rev t (sq_request_id q)) (save_entry fp (saved_result rev t (sq_request_id q)))) r G l')"
    for fp rev t
    by (rule ends_mono [OF saved_and_remembered_ends]) auto
  note persist = writer.answer_ends [OF saved_and_remembered_ends, of F l env R, unfolded assms current_bytes.simps]
  let ?rev = "wd_revision (sq_document q)" and ?t = "token_for (we_codec env) (wc_to_vec (we_codec env) (sq_document q))"
  let ?cas = "sq_expected_revision q = wd_revision doc \<and> sq_expected_token q = token \<and>
    sq_expected_revision q < MAX_SAFE_INTEGER \<and> sq_expected_revision q + 1 = ?rev"
  have cas: "(sq_expected_revision q = wd_revision doc \<and> sq_expected_token q = token \<and>
    sq_expected_revision q < MAX_SAFE_INTEGER \<and> sq_expected_revision q \<noteq> - 1 \<and> sq_expected_revision q + 1 = ?rev) = ?cas"
    using safe_not_max by blast
  note defs = assms save_looked_up_def decide_save_def Let_def cas
  show ?thesis
  proof (cases found)
    case None
    consider "source = PrimarySource \<and> ?rev = wd_revision doc \<and> ?t = token"
      | "\<not> (source = PrimarySource \<and> ?rev = wd_revision doc \<and> ?t = token)" ?cas
      | "\<not> (source = PrimarySource \<and> ?rev = wd_revision doc \<and> ?t = token)" "\<not> ?cas" by blast
    then show ?thesis
    proof cases
      case 1
      with remember [of _ "wd_revision doc" token] show ?thesis unfolding defs None by simp
    next
      case 2
      have holds: "\<not> \<not> ?cas" unfolding not_not by (rule 2(2))
      show ?thesis
        unfolding defs None option.case if_not_P [OF 2(1)] if_not_P [OF holds] if_P [OF 2(2)] by (rule persist)
    next
      case 3
      show ?thesis unfolding defs None option.case if_not_P [OF 3(1)] if_P [OF 3(2)] if_not_P [OF 3(2)] by (rule answer)
    qed
  next
    case (Some e)
    then show ?thesis unfolding defs by (auto simp: answer split: option.split)
  qed
qed

lemma save_resolved_ends:
  assumes R: "resolves (we_codec env) F = Inr R"
  shows "ends (home_at F l) (case R of
       ResolvedFuture _ \<Rightarrow> fx_ret (save_result_for_resolved R FutureSchemaOutcome (sq_request_id q))
     | ResolvedV1 source durable_document token _ _ \<Rightarrow>
         (case validate_doc (we_codec env) (sq_document q) of
            Inl errs \<Rightarrow> fx_fail (InvalidDocument errs)
          | Inr _ \<Rightarrow> fx_bind (ledger_entry env (sq_request_id q))
              (save_looked_up env q R source durable_document token)))
     (\<lambda>r d. \<exists>G l'. home_at G l' d \<and> saving env q F l r G l')"
proof (cases R)
  case (ResolvedV1 source doc token notice current)
  let ?i = "sq_request_id q" and ?c = "we_codec env"
  obtain found l1 where look: "find_ledger_entry (we_home env) ?i l = (found, l1)" by fastforce
  show ?thesis
  proof (cases "validate_doc ?c (sq_document q)")
    case (Inl errs)
    then show ?thesis using ResolvedV1 by (auto simp: saving_def)
  next
    case (Inr u)
    then have ok: "validate_doc ?c (sq_document q) = Inr ()" by simp
    have "ends (home_at F l) (fx_bind (ledger_entry env ?i) (save_looked_up env q R source doc token))
        (\<lambda>r d. \<exists>G l'. home_at G l' d \<and>
           acted (we_home env) ?i current F l1 (decide_save ?c q R source doc token found) r G l')"
      by (rule ends_bind [where R = "\<lambda>x d. home_at F l1 d \<and> x = found", OF ends_mono [OF ends_ledger [of F l]]])
        (auto simp only: look ends_guard save_looked_up_ends [OF ResolvedV1] sum.case fst_conv snd_conv simp_thms)
    then show ?thesis
      unfolding ResolvedV1 resolved_state.case ok sum.case
      by (rule ends_mono) (use R ResolvedV1 ok look in \<open>auto simp: saving_def\<close>)
  qed
qed (use R in \<open>auto simp: saving_def\<close>)

lemma save_ends:
  "ends (home_at F l) (save_workbench_locked env q) (\<lambda>r d. \<exists>G l'. home_at G l' d \<and> saving env q F l r G l')"
  unfolding save_workbench_locked_def
  by (rule ends_bind [where R = "\<lambda>R d. home_at F l d \<and> resolves (we_codec env) F = Inr R",
        OF ends_mono [OF resolve_ends [where V = "(F, \<lparr>ss_ledgers = l\<rparr>)"]]])
    (auto simp: ends_guard intro: save_resolved_ends split: sum.split)

section \<open>What a reset does\<close>

definition reset_entry :: "string \<Rightarrow> reset_result \<Rightarrow> request_entry" where
  "reset_entry fingerprint result = \<lparr>re_kind = ResetKind, re_fingerprint = fingerprint, re_result = StoredReset result\<rparr>"

definition reset_done :: "wb_doc \<Rightarrow> string \<Rightarrow> string \<Rightarrow> reset_result" where
  "reset_done doc token i = \<lparr>rr_outcome = Saved, rr_durable_revision = Some (wd_revision doc),
     rr_durable_token = Some token, rr_request_id = i, rr_document = Some doc\<rparr>"

definition fresh_default :: "u64 \<Rightarrow> string \<Rightarrow> wb_doc" where
  "fresh_default expected now = default_document\<lparr>wd_revision := expected + 1, wd_saved_at := now\<rparr>"

definition clock :: "'w wb_env \<Rightarrow> 'w \<Rightarrow> string" where
  "clock env w = fst (we_now env w)"

text \<open>Does the backup, or the default, prove that the primary is the product of this request?\<close>

definition retry_matches :: "wb_io \<Rightarrow> reset_request \<Rightarrow> slot_state \<Rightarrow> bool" where
  "retry_matches c q backup \<longleftrightarrow>
     (let by_default = (rq_expected_revision q = 0 \<and>
        token_for c (wc_to_vec c default_document) = rq_expected_token q)
      in case backup of
           SlotValid doc _ token \<Rightarrow>
             if wd_revision doc = rq_expected_revision q then token = rq_expected_token q else by_default
         | _ \<Rightarrow> by_default)"

definition already_reset :: "wb_io \<Rightarrow> reset_request \<Rightarrow> load_source \<Rightarrow> wb_doc \<Rightarrow> slot_state \<Rightarrow> bool" where
  "already_reset c q source doc backup \<longleftrightarrow> source = PrimarySource \<and> rq_expected_revision q < MAX_SAFE_INTEGER \<and>
     wd_revision doc = rq_expected_revision q + 1 \<and> is_reset_target doc (wd_revision doc) \<and> retry_matches c q backup"

definition decide_reset ::
  "wb_io \<Rightarrow> reset_request \<Rightarrow> slot_state \<Rightarrow> string \<Rightarrow> resolved_state \<Rightarrow> load_source \<Rightarrow> wb_doc \<Rightarrow> string \<Rightarrow>
   request_entry option \<Rightarrow> reset_result decision" where
  "decide_reset c q backup now R source doc token found =
     (let i = rq_request_id q; fingerprint = fingerprint_of (rq_expected_revision q) (rq_expected_token q);
          conflict = Answers (reset_result_for_resolved R RevisionConflict i None);
          remember = (\<lambda>doc token. reset_entry fingerprint (reset_done doc token i));
          doc' = fresh_default (rq_expected_revision q) now;
          bytes = wc_to_vec c doc'
      in case found of
           Some e \<Rightarrow> (case replayed_reset R fingerprint e of Some x \<Rightarrow> Answers x | None \<Rightarrow> conflict)
         | None \<Rightarrow>
             if already_reset c q source doc backup then Remembers (reset_done doc token i) (remember doc token)
             else if rq_expected_revision q = wd_revision doc \<and> rq_expected_token q = token \<and>
                rq_expected_revision q < MAX_SAFE_INTEGER
             then Persists bytes (reset_done doc' (token_for c bytes) i) (remember doc' (token_for c bytes))
             else conflict)"

text \<open>A failure leaves the files; the time is read when the default is written, which is valid then.\<close>

definition resetting :: "'w wb_env \<Rightarrow> reset_request \<Rightarrow> files \<Rightarrow> ledgers \<Rightarrow> wb_error + reset_result \<Rightarrow> files \<Rightarrow> ledgers \<Rightarrow> bool" where
  "resetting env q F l r G l' \<longleftrightarrow>
     (\<exists>err. r = Inl err) \<and> G = F \<or>
     (\<exists>notice. resolves (we_codec env) F = Inr (ResolvedFuture notice) \<and> G = F \<and> l' = l \<and>
        r = Inr (reset_result_for_resolved (ResolvedFuture notice) FutureSchemaOutcome (rq_request_id q) None)) \<or>
     (\<exists>source doc token notice current R now backup. R = ResolvedV1 source doc token notice current \<and>
        resolves (we_codec env) F = Inr R \<and> backup = classify_content (we_codec env) (shown F backup_name) \<and>
        now \<in> range (clock env) \<and>
        (let (found, l1) = find_ledger_entry (we_home env) (rq_request_id q) l;
             decision = decide_reset (we_codec env) q backup now R source doc token found
         in acted (we_home env) (rq_request_id q) current F l1 decision r G l' \<and>
            (\<forall>bytes x e. decision = Persists bytes x e \<longrightarrow>
               validate_doc (we_codec env) (fresh_default (rq_expected_revision q) now) = Inr ())))"

lemma resetting_failed [simp]: "resetting env q F l (Inl err) F l'"
  by (simp add: resetting_def)

lemma retry_ends:
  "ends (home_at F l) (reset_retry_token_matches env (rq_expected_revision q) (rq_expected_token q))
     (\<lambda>r d. home_at F l d \<and> (\<forall>b. r = Inr b \<longrightarrow>
        b = retry_matches (we_codec env) q (classify_content (we_codec env) (shown F backup_name))))"
proof -
  let ?b = "classify_content (we_codec env) (shown F backup_name)"
  have read: "ends (home_at F l) (classify_slot env backup_name) (\<lambda>r d. case r of
      Inl e \<Rightarrow> home_at F l d \<and> (\<forall>b. (Inl e :: wb_error + bool) = Inr b \<longrightarrow> b = retry_matches (we_codec env) q ?b)
    | Inr x \<Rightarrow> home_at F l d \<and> x = ?b)"
    by (rule ends_mono [OF ends_classify [where n = backup_name and V = "(F, \<lparr>ss_ledgers = l\<rparr>)"]]) (auto split: sum.split)
  show ?thesis
    unfolding reset_retry_token_matches_def
    by (rule ends_bind [OF read], simp only: ends_guard, intro impI, simp only: retry_matches_def Let_def)
      (auto simp: retry_matches_def Let_def split: slot_state.split)
qed

lemma reset_and_remembered_ends:
  "ends (home_at F l) (reset_and_remembered env i fingerprint doc token)
     (\<lambda>r d. \<exists>l'. home_at F l' d \<and>
        remembered (we_home env) i (reset_entry fingerprint (reset_done doc token i)) l (reset_done doc token i) r l')"
  unfolding reset_and_remembered_def Let_def reset_entry_def reset_done_def by (rule remember_answer_ends)

lemma ends_clock: "ends (home_at F l) (read_clock env) (\<lambda>r d. case r of Inl e \<Rightarrow> Q (Inl e) d
     | Inr now \<Rightarrow> home_at F l d \<and> now \<in> range (clock env))"
  by (rule endsI) (auto simp: read_clock_def clock_def image_iff split: prod.splits, metis fst_conv)

text \<open>Where a reset arrives after its lookup.\<close>

definition reset_arrives ::
  "'w wb_env \<Rightarrow> reset_request \<Rightarrow> files \<Rightarrow> ledgers \<Rightarrow> resolved_state \<Rightarrow> (string \<Rightarrow> reset_result decision) \<Rightarrow>
   wb_error + reset_result \<Rightarrow> session \<Rightarrow> bool" where
  "reset_arrives env q F l R decide r d \<longleftrightarrow> (\<exists>G l'. home_at G l' d \<and> ((\<exists>err. r = Inl err) \<and> G = F \<or>
     (\<exists>now \<in> range (clock env). acted (we_home env) (rq_request_id q) (current_bytes R) F l (decide now) r G l' \<and>
        (\<forall>bytes x e. decide now = Persists bytes x e \<longrightarrow>
           validate_doc (we_codec env) (fresh_default (rq_expected_revision q) now) = Inr ()))))"

lemma write_default_ends:
  "ends (home_at F l) (write_default env q fingerprint R)
     (reset_arrives env q F l R (\<lambda>now. let doc = fresh_default (rq_expected_revision q) now;
        bytes = wc_to_vec (we_codec env) doc; t = token_for (we_codec env) bytes
        in Persists bytes (reset_done doc t (rq_request_id q)) (reset_entry fingerprint (reset_done doc t (rq_request_id q)))))"
  unfolding write_default_def
proof (rule ends_bind [OF ends_clock], unfold ends_guard, rule impI, goal_cases)
  case (1 now)
  let ?doc = "fresh_default (rq_expected_revision q) now"
  show ?case
  proof (cases "validate_doc (we_codec env) ?doc")
    case (Inl errs)
    then show ?thesis by (auto simp: fresh_default_def reset_arrives_def)
  next
    case (Inr u)
    then have ok: "validate_doc (we_codec env) (default_document\<lparr>wd_revision := rq_expected_revision q + 1, wd_saved_at := now\<rparr>) = Inr ()"
      by (simp add: fresh_default_def)
    show ?thesis
      unfolding Let_def ok sum.case
      by (rule ends_mono [OF writer.answer_ends [OF reset_and_remembered_ends]], assumption)
        (use ok 1 in \<open>unfold reset_arrives_def Let_def fresh_default_def, blast\<close>)
  qed
qed

lemma reset_looked_up_ends:
  assumes "R = ResolvedV1 source doc token notice current"
  shows "ends (home_at F l) (reset_looked_up env q R source doc token found)
    (reset_arrives env q F l R (\<lambda>now. decide_reset (we_codec env) q
       (classify_content (we_codec env) (shown F backup_name)) now R source doc token found))"
    (is "ends _ _ (?Q found)")
proof (cases found)
  case (Some e)
  then show ?thesis
    unfolding reset_looked_up_def decide_reset_def Let_def by (auto simp: reset_arrives_def split: option.split)
next
  case None
  let ?c = "we_codec env" and ?b = "classify_content (we_codec env) (shown F backup_name)"
  let ?fp = "fingerprint_of (rq_expected_revision q) (rq_expected_token q)"
  let ?cas = "rq_expected_revision q = wd_revision doc \<and> rq_expected_token q = token \<and>
    rq_expected_revision q < MAX_SAFE_INTEGER"
  let ?fresh = "if ?cas then write_default env q ?fp R
     else fx_ret (reset_result_for_resolved R RevisionConflict (rq_request_id q) None)"
  have fresh: "ends (home_at F l) ?fresh (?Q None)" if "\<not> already_reset ?c q source doc ?b"
  proof (cases ?cas)
    case True
    show ?thesis
      unfolding if_P [OF True] decide_reset_def Let_def option.case if_not_P [OF that]
      by (rule write_default_ends [unfolded Let_def])
  next
    case False
    show ?thesis
      unfolding if_not_P [OF False] decide_reset_def Let_def option.case if_not_P [OF that]
      by (auto simp: reset_arrives_def)
  qed
  have again: "ends (home_at F l) (reset_and_remembered env (rq_request_id q) ?fp doc token) (?Q None)"
    if "already_reset ?c q source doc ?b"
    unfolding decide_reset_def Let_def option.case if_P [OF that]
    by (rule ends_mono [OF reset_and_remembered_ends]) (auto simp: reset_arrives_def)
  let ?retry = "source = PrimarySource \<and> rq_expected_revision q < MAX_SAFE_INTEGER \<and>
     wd_revision doc = rq_expected_revision q + 1 \<and> is_reset_target doc (wd_revision doc)"
  show ?thesis
  proof (cases ?retry)
    case True
    then have already: "already_reset ?c q source doc ?b \<longleftrightarrow> retry_matches ?c q ?b"
      unfolding already_reset_def by blast
    have tried: "ends (home_at F l) (reset_retry_token_matches env (rq_expected_revision q) (rq_expected_token q))
        (\<lambda>r d. case r of Inl e \<Rightarrow> ?Q None (Inl e) d | Inr b \<Rightarrow> home_at F l d \<and> b = retry_matches ?c q ?b)"
      by (rule ends_mono [OF retry_ends]) (auto simp: reset_arrives_def split: sum.split)
    have then_act: "ends (home_at F l) (if retry_matches ?c q ?b
        then reset_and_remembered env (rq_request_id q) ?fp doc token else ?fresh) (?Q None)"
      using fresh again already by presburger
    show ?thesis
      unfolding reset_looked_up_def Let_def None option.case if_P [OF True]
      by (rule ends_bind [OF tried], unfold ends_guard, rule impI, erule ssubst, rule then_act)
  next
    case False
    then have "\<not> already_reset ?c q source doc ?b" unfolding already_reset_def by blast
    from fresh [OF this] show ?thesis
      unfolding reset_looked_up_def Let_def None option.case if_not_P [OF False] .
  qed
qed

lemma reset_resolved_ends:
  assumes R: "resolves (we_codec env) F = Inr R"
  shows "ends (home_at F l) (case R of
       ResolvedFuture _ \<Rightarrow> fx_ret (reset_result_for_resolved R FutureSchemaOutcome (rq_request_id q) None)
     | ResolvedV1 source durable_document token _ _ \<Rightarrow>
         fx_bind (ledger_entry env (rq_request_id q))
           (reset_looked_up env q R source durable_document token))
     (\<lambda>r d. \<exists>G l'. home_at G l' d \<and> resetting env q F l r G l')"
proof (cases R)
  case (ResolvedV1 source doc token notice current)
  let ?i = "rq_request_id q" and ?c = "we_codec env"
  obtain found l1 where look: "find_ledger_entry (we_home env) ?i l = (found, l1)" by fastforce
  have arrives: "ends (home_at F l) (fx_bind (ledger_entry env ?i) (reset_looked_up env q R source doc token))
      (reset_arrives env q F l1 R (\<lambda>now. decide_reset ?c q (classify_content ?c (shown F backup_name)) now
         R source doc token found))"
    by (rule ends_bind [where R = "\<lambda>x d. home_at F l1 d \<and> x = found", OF ends_mono [OF ends_ledger [of F l]]])
      (auto simp only: look ends_guard reset_looked_up_ends [OF ResolvedV1] sum.case fst_conv snd_conv simp_thms)
  show ?thesis
    unfolding ResolvedV1 resolved_state.case
    by (rule ends_mono [OF arrives [unfolded ResolvedV1]], assumption)
      (unfold reset_arrives_def resetting_def R ResolvedV1 look Let_def prod.case current_bytes.simps, blast)
qed (use R in \<open>auto simp: resetting_def\<close>)

lemma reset_ends:
  "ends (home_at F l) (reset_workbench_locked env q) (\<lambda>r d. \<exists>G l'. home_at G l' d \<and> resetting env q F l r G l')"
  unfolding reset_workbench_locked_def
  by (rule ends_bind [where R = "\<lambda>R d. home_at F l d \<and> resolves (we_codec env) F = Inr R",
        OF ends_mono [OF resolve_ends [where V = "(F, \<lparr>ss_ledgers = l\<rparr>)"]]])
    (auto simp: ends_guard intro: reset_resolved_ends split: sum.split)

end
