(* ===== verification/Workbench_Ledger.thy ===== *)
theory Workbench_Ledger
  imports Workbench_Store
begin

text \<open>
  The ledger that recognizes repeated requests: for at most 64 homes at most 256 requests,
  with the order in which they came. A request that is remembered can be looked up, the
  oldest ones are forgotten, and the loops that forget them end.
\<close>

section \<open>Parts of a remembered request\<close>

lemma prune_list_lookup:
  "prune_list order homes = (order', homes') \<Longrightarrow> map_of homes' k \<in> {None, map_of homes k}"
proof (induction order homes rule: prune_list.induct)
  case (2 oldest order homes)
  show ?case
  proof (cases "length homes > MAX_REQUEST_LEDGER_HOMES")
    case True
    with 2 have "map_of homes' k \<in> {None, map_of (AList.delete oldest homes) k}" by simp
    then show ?thesis by (auto simp: delete_conv restrict_map_def split: if_splits)
  qed (use 2 in simp)
qed simp

lemma trim_entries_lookup:
  "trim_entries order entries = Some (order', entries') \<Longrightarrow> map_of entries' k \<in> {None, map_of entries k}"
proof (induction order entries rule: trim_entries.induct)
  case (2 oldest order entries)
  show ?case
  proof (cases "length entries > MAX_REQUEST_LEDGER_ENTRIES_PER_HOME")
    case True
    with 2 have "map_of entries' k \<in> {None, map_of (AList.delete oldest entries) k}" by simp
    then show ?thesis by (auto simp: delete_conv restrict_map_def split: if_splits)
  qed (use 2 in simp)
qed (simp split: if_splits)

abbreviation looked_up :: "string \<Rightarrow> string \<Rightarrow> ledgers \<Rightarrow> request_entry option" where
  "looked_up home i l \<equiv> fst (find_ledger_entry home i l)"

lemma remember_parts:
  assumes "remember_request home i e l = Some l'"
  obtains old order entries homes where
    "old = (case map_of (lg_homes l) home of None \<Rightarrow> \<lparr>hl_entries = [], hl_order = []\<rparr> | Some h \<Rightarrow> h)"
    "trim_entries (if map_of (hl_entries old) i = None then hl_order old @ [i] else hl_order old)
       (AList.update i e (hl_entries old)) = Some (order, entries)"
    "homes = AList.update home \<lparr>hl_entries = entries, hl_order = order\<rparr> (lg_homes l)"
    "l' = prune_homes \<lparr>lg_homes = homes, lg_order = lg_order (touch_home home l)\<rparr>"
proof -
  let ?old = "case map_of (lg_homes l) home of None \<Rightarrow> \<lparr>hl_entries = [], hl_order = []\<rparr> | Some h \<Rightarrow> h"
  have homes: "lg_homes (touch_home home l) = lg_homes l" by (simp add: touch_home_def)
  let ?trim = "trim_entries (if map_of (hl_entries ?old) i = None then hl_order ?old @ [i] else hl_order ?old)
      (AList.update i e (hl_entries ?old))"
  have "?trim \<noteq> None"
  proof
    assume none: "?trim = None"
    show False using assms unfolding remember_request_def Let_def homes none by simp
  qed
  then obtain p where trim: "?trim = Some p" by blast
  obtain order entries where p: "p = (order, entries)" by (cases p)
  have "l' = prune_homes (touch_home home l\<lparr>lg_homes :=
      AList.update home \<lparr>hl_entries = entries, hl_order = order\<rparr> (lg_homes l)\<rparr>)"
    using assms unfolding remember_request_def Let_def homes trim p by simp
  then show thesis using that [OF refl trim [unfolded p] refl] by (cases l) (simp add: touch_home_def)
qed

lemma remember_lookup:
  assumes "remember_request home i e l = Some l'"
  shows "looked_up home i l' \<in> {None, Some e}"
  using assms
proof (cases rule: remember_parts)
  case (1 old order entries homes)
  obtain order' homes' where prune: "prune_list (lg_order (touch_home home l)) homes = (order', homes')" by fastforce
  have "lg_homes l' = homes'" unfolding 1(4) prune_homes_def by (simp add: prune)
  then have "map_of (lg_homes l') home \<in> {None, Some \<lparr>hl_entries = entries, hl_order = order\<rparr>}"
    using prune_list_lookup [OF prune, of home] unfolding 1(3) by (simp add: update_conv)
  moreover have "map_of entries i \<in> {None, Some e}"
    using trim_entries_lookup [OF 1(2), of i] by (simp add: update_conv)
  ultimately show ?thesis by (auto simp: find_ledger_entry_def Let_def)
qed

section \<open>The invariant\<close>

text \<open>An order lists the keys, each once.\<close>

definition keyed :: "string list \<Rightarrow> (string \<times> 'v) list \<Rightarrow> bool" where
  "keyed order xs \<longleftrightarrow> distinct order \<and> distinct (map fst xs) \<and> set order = set (map fst xs)"

definition home_ok :: "home_ledger \<Rightarrow> bool" where
  "home_ok h \<longleftrightarrow> keyed (hl_order h) (hl_entries h) \<and> length (hl_entries h) \<le> MAX_REQUEST_LEDGER_ENTRIES_PER_HOME"

definition ledgers_ok :: "ledgers \<Rightarrow> bool" where
  "ledgers_ok l \<longleftrightarrow> keyed (lg_order l) (lg_homes l) \<and> length (lg_homes l) \<le> MAX_REQUEST_LEDGER_HOMES \<and>
     (\<forall>h \<in> snd ` set (lg_homes l). home_ok h)"

text \<open>Both loops forget the oldest keys until the rest fits.\<close>

fun evict :: "nat \<Rightarrow> string list \<Rightarrow> (string \<times> 'v) list \<Rightarrow> string list \<times> (string \<times> 'v) list" where
  "evict n [] xs = ([], xs)"
| "evict n (oldest # order) xs =
     (if length xs > n then evict n order (AList.delete oldest xs) else (oldest # order, xs))"

lemma prune_evict: "prune_list order homes = evict MAX_REQUEST_LEDGER_HOMES order homes"
  by (induction order homes rule: prune_list.induct) auto

lemma keyed_length: "keyed order xs \<Longrightarrow> length xs = length order"
  unfolding keyed_def by (metis distinct_card length_map set_map)

lemma keyed_delete: "keyed (k # order) xs \<Longrightarrow> keyed order (AList.delete k xs)"
  unfolding keyed_def delete_keys by (auto simp: distinct_removeAll simp del: set_map)

lemma trim_evict:
  "keyed order xs \<Longrightarrow> trim_entries order xs = Some (evict MAX_REQUEST_LEDGER_ENTRIES_PER_HOME order xs)"
  by (induction order xs rule: trim_entries.induct) (auto simp: keyed_delete dest: keyed_length)

lemma evict_keyed:
  assumes "keyed order xs" "evict n order xs = (order', xs')"
  shows "keyed order' xs'" "length xs' \<le> n" "set xs' \<subseteq> set xs"
    and "0 < n \<Longrightarrow> order \<noteq> [] \<Longrightarrow> order' \<noteq> [] \<and> last order' = last order"
proof -
  have "keyed order' xs' \<and> length xs' \<le> n \<and> set xs' \<subseteq> set xs \<and>
      (0 < n \<longrightarrow> order \<noteq> [] \<longrightarrow> order' \<noteq> [] \<and> last order' = last order)"
    using assms
  proof (induction n order xs rule: evict.induct)
    case (1 n xs)
    then show ?case using keyed_length [OF 1(1)] by simp
  next
    case (2 n oldest order xs)
    show ?case
    proof (cases "length xs > n")
      case True
      have "0 < n \<longrightarrow> order \<noteq> []" using True keyed_length [OF 2(2)] by auto
      moreover have "set (AList.delete oldest xs) \<subseteq> set xs" by (auto simp: AList.delete_eq)
      ultimately show ?thesis using 2 True keyed_delete [OF 2(2)] by auto
    qed (use 2 in auto)
  qed
  then show "keyed order' xs'" "length xs' \<le> n" "set xs' \<subseteq> set xs"
    and "0 < n \<Longrightarrow> order \<noteq> [] \<Longrightarrow> order' \<noteq> [] \<and> last order' = last order" by auto
qed

lemma map_of_keys: "map_of xs k = None \<longleftrightarrow> k \<notin> set (map fst xs)"
  by (simp add: map_of_eq_None_iff)

lemma keyed_update:
  assumes "keyed order xs"
  shows "keyed (if map_of xs k = None then order @ [k] else order) (AList.update k v xs)"
  using assms unfolding keyed_def update_keys map_of_keys
  by (cases "k \<in> set (map fst xs)") (simp_all del: set_map)

lemma keyed_touch:
  assumes "keyed order xs"
  shows "keyed (filter (\<lambda>known. known \<noteq> k) order @ [k]) (AList.update k v xs)"
  using assms unfolding keyed_def update_keys
  by (cases "k \<in> set (map fst xs)") (auto simp del: set_map)

lemma last_key_kept:
  assumes "keyed order xs" "evict n order xs = (order', xs')" "0 < n" "order \<noteq> []"
  shows "map_of xs' (last order) \<noteq> None"
proof -
  have "last order \<in> set order'" using evict_keyed(4) [OF assms] by (metis last_in_set)
  then show ?thesis using evict_keyed(1) [OF assms(1,2)] unfolding map_of_keys keyed_def by simp
qed

section \<open>Remembering\<close>

definition empty_home :: home_ledger where
  "empty_home = \<lparr>hl_entries = [], hl_order = []\<rparr>"

definition home_of :: "string \<Rightarrow> ledgers \<Rightarrow> home_ledger" where
  "home_of home l = (case map_of (lg_homes l) home of None \<Rightarrow> empty_home | Some h \<Rightarrow> h)"

lemma home_of_ok: "ledgers_ok l \<Longrightarrow> home_ok (home_of home l)"
  by (auto simp: home_of_def ledgers_ok_def home_ok_def empty_home_def keyed_def
      split: option.split dest!: map_of_SomeD) force+

lemma evict_fits: "length xs \<le> n \<Longrightarrow> evict n order xs = (order, xs)"
  by (cases order) auto

lemma update_known_length: "map_of xs k \<noteq> None \<Longrightarrow> length (AList.update k v xs) = length xs"
  unfolding map_of_keys not_not by (metis length_map update_keys if_P)

lemma update_values: "snd ` set (AList.update k v xs) \<subseteq> insert v (snd ` set xs)"
  by (induction xs) auto

text \<open>A home after one more request.\<close>

lemma home_remembers:
  assumes "home_ok h"
  obtains order entries where
    "trim_entries (if map_of (hl_entries h) i = None then hl_order h @ [i] else hl_order h)
       (AList.update i e (hl_entries h)) = Some (order, entries)"
    "home_ok \<lparr>hl_entries = entries, hl_order = order\<rparr>" "map_of entries i = Some e"
proof -
  let ?order = "if map_of (hl_entries h) i = None then hl_order h @ [i] else hl_order h"
  let ?new = "AList.update i e (hl_entries h)"
  have keyed: "keyed ?order ?new" by (rule keyed_update) (use assms in \<open>simp add: home_ok_def\<close>)
  obtain order entries where ev: "evict MAX_REQUEST_LEDGER_ENTRIES_PER_HOME ?order ?new = (order, entries)" by fastforce
  have trim: "trim_entries ?order ?new = Some (order, entries)" using trim_evict [OF keyed] ev by simp
  have "map_of entries i \<noteq> None"
  proof (cases "map_of (hl_entries h) i = None")
    case True
    then show ?thesis
      using last_key_kept [OF keyed ev] by (simp add: MAX_REQUEST_LEDGER_ENTRIES_PER_HOME_def)
  next
    case False
    then have "entries = ?new"
      using ev assms evict_fits [of ?new] by (simp add: update_known_length home_ok_def)
    then show ?thesis by (simp add: update_conv)
  qed
  with trim_entries_lookup [OF trim, of i] have "map_of entries i = Some e" by (auto simp: update_conv)
  moreover have "home_ok \<lparr>hl_entries = entries, hl_order = order\<rparr>"
    using evict_keyed [OF keyed ev] by (simp add: home_ok_def)
  ultimately show thesis using that trim by blast
qed

lemma remember_ok:
  assumes ok: "ledgers_ok l"
  obtains l' where "remember_request home i e l = Some l'" "ledgers_ok l'" "looked_up home i l' = Some e"
proof -
  let ?h = "case map_of (lg_homes l) home of None \<Rightarrow> \<lparr>hl_entries = [], hl_order = []\<rparr> | Some h \<Rightarrow> h"
  have homes: "lg_homes (touch_home home l) = lg_homes l" by (simp add: touch_home_def)
  have "home_ok ?h" using home_of_ok [OF ok, of home] by (cases "map_of (lg_homes l) home") (simp_all add: home_of_def empty_home_def)
  from home_remembers [OF this, of i e] obtain order entries where
    trim: "trim_entries (if map_of (hl_entries ?h) i = None then hl_order ?h @ [i] else hl_order ?h)
       (AList.update i e (hl_entries ?h)) = Some (order, entries)"
    and new: "home_ok \<lparr>hl_entries = entries, hl_order = order\<rparr>" "map_of entries i = Some e" .
  let ?new = "\<lparr>hl_entries = entries, hl_order = order\<rparr>"
  let ?homes = "AList.update home ?new (lg_homes l)"
  let ?order = "filter (\<lambda>known. known \<noteq> home) (lg_order l) @ [home]"
  have keyed: "keyed ?order ?homes" by (rule keyed_touch) (use ok in \<open>simp add: ledgers_ok_def\<close>)
  obtain order' homes' where ev: "evict MAX_REQUEST_LEDGER_HOMES ?order ?homes = (order', homes')" by fastforce
  let ?l' = "\<lparr>lg_homes = homes', lg_order = order'\<rparr>"
  have "prune_homes (touch_home home l\<lparr>lg_homes := ?homes\<rparr>) = ?l'"
    by (cases l) (use ev in \<open>simp add: prune_homes_def touch_home_def prune_evict\<close>)
  then have run: "remember_request home i e l = Some ?l'"
    unfolding remember_request_def Let_def homes trim by simp
  have "map_of homes' home \<noteq> None"
    using last_key_kept [OF keyed ev] by (simp add: MAX_REQUEST_LEDGER_HOMES_def)
  moreover have "map_of homes' home \<in> {None, Some ?new}"
    using prune_list_lookup [of ?order ?homes order' homes' home] ev by (simp add: prune_evict update_conv)
  ultimately have found: "looked_up home i ?l' = Some e" using new(2) by (auto simp: find_ledger_entry_def Let_def)
  have kept: "snd ` set homes' \<subseteq> insert ?new (snd ` set (lg_homes l))"
    using image_mono [OF evict_keyed(3) [OF keyed ev], of snd] update_values by (rule subset_trans)
  have "\<forall>h \<in> insert ?new (snd ` set (lg_homes l)). home_ok h" using new(1) ok by (simp add: ledgers_ok_def)
  then have "\<forall>h \<in> snd ` set homes'. home_ok h" using kept by (metis subsetD)
  then have "ledgers_ok ?l'"
    using evict_keyed(1,2) [OF keyed ev] by (simp add: ledgers_ok_def)
  with run found that show thesis by blast
qed

lemma find_ok:
  assumes "ledgers_ok l"
  shows "ledgers_ok (snd (find_ledger_entry home i l))"
proof (cases "map_of (lg_homes l) home = None")
  case False
  then have "home \<in> set (map fst (lg_homes l))" unfolding map_of_keys by simp
  with assms have "keyed (filter (\<lambda>known. known \<noteq> home) (lg_order l) @ [home]) (lg_homes l)"
    unfolding ledgers_ok_def keyed_def by (auto simp del: set_map)
  with False assms show ?thesis by (simp add: find_ledger_entry_def Let_def touch_home_def ledgers_ok_def)
qed (use assms in \<open>simp add: find_ledger_entry_def Let_def\<close>)

section \<open>Any sequence of requests\<close>

datatype ledger_op = LookUp string string | Remember string string request_entry

fun ledger_step :: "ledgers \<Rightarrow> ledger_op \<Rightarrow> unit + ledgers" where
  "ledger_step l (LookUp home i) = Inr (snd (find_ledger_entry home i l))"
| "ledger_step l (Remember home i e) =
     (case remember_request home i e l of None \<Rightarrow> Inl () | Some l' \<Rightarrow> Inr l')"

definition empty_ledgers :: ledgers where
  "empty_ledgers = \<lparr>lg_homes = [], lg_order = []\<rparr>"

lemma empty_ledgers_ok: "ledgers_ok empty_ledgers"
  by (simp add: ledgers_ok_def keyed_def empty_ledgers_def)

lemma ledger_step_ok: "ledgers_ok l \<Longrightarrow> \<exists>l'. ledger_step l op = Inr l' \<and> ledgers_ok l'"
proof (cases op)
  case (Remember home i e)
  assume "ledgers_ok l"
  then show ?thesis by (rule remember_ok [of l home i e]) (simp add: Remember)
qed (simp add: find_ok)

interpretation ledger: guarded_machine ledger_step ledgers_ok "\<lambda>_. False"
proof
  fix l op l' f assume "ledgers_ok l"
  then obtain l1 where l1: "ledger_step l op = Inr l1" "ledgers_ok l1" using ledger_step_ok by blast
  show "ledgers_ok l'" if "ledger_step l op = Inr l'" using that l1 by simp
  show False if "ledger_step l op = Inl f" using that l1 by simp
qed

lemma ledger_runs: "\<exists>l. run_steps ledger_step empty_ledgers ops = Inr l \<and> ledgers_ok l"
  using ledger.run_keeps [OF empty_ledgers_ok] ledger.run_fails_legally [OF empty_ledgers_ok]
  by (cases "run_steps ledger_step empty_ledgers ops") auto

text \<open>
  C37. The ledger of requests stays bounded and remembers. After any sequence of lookups and
  remembered requests it holds at most 64 homes with at most 256 requests each, with orders
  that list exactly the keys; the loops that forget the oldest always end; and the request
  that was just remembered is found.
\<close>

theorem ledger_bounded_and_remembers:
  "\<exists>l. run_steps ledger_step empty_ledgers (ops @ [Remember home i e]) = Inr l \<and>
     length (lg_homes l) \<le> MAX_REQUEST_LEDGER_HOMES \<and>
     list_all (\<lambda>(k, h). length (hl_entries h) \<le> MAX_REQUEST_LEDGER_ENTRIES_PER_HOME \<and>
       distinct (hl_order h) \<and> set (hl_order h) = fst ` set (hl_entries h)) (lg_homes l) \<and>
     fst (find_ledger_entry home i l) = Some e"
proof -
  obtain l where l: "run_steps ledger_step empty_ledgers ops = Inr l" "ledgers_ok l" using ledger_runs by blast
  obtain l' where l': "remember_request home i e l = Some l'" "ledgers_ok l'" "looked_up home i l' = Some e"
    by (rule remember_ok [OF l(2)])
  moreover have "run_steps ledger_step empty_ledgers (ops @ [Remember home i e]) = Inr l'"
    by (simp add: run_steps_append l l')
  ultimately show ?thesis
    by (simp add: ledgers_ok_def home_ok_def keyed_def list_all_iff split_beta)
qed

end
