(* ===== verification/Workbench_Promises.thy ===== *)
theory Workbench_Promises
  imports Workbench_Save Workbench_Ledger
begin

text \<open>
  The promises of the saved layout as theorems over whole requests: power loss, files of a
  newer version, concurrent writers, repeated requests, the bound of the ledger. Serde is
  asked for one thing, of the document of the request: its printed bytes read back, and if not
  as itself (numbers with a fraction are read without the option for an exact round trip, so a
  ratio of many digits may come back as a neighbour) then as a document of the same revision.
\<close>

section \<open>Serialization reads back\<close>

definition reads_back :: "wb_io \<Rightarrow> wb_doc \<Rightarrow> bool" where
  "reads_back c doc \<longleftrightarrow> strict_json_preflight c (wc_to_vec c doc) \<and>
     (case wi_from_slice c (wc_to_vec c doc) of
        None \<Rightarrow> False
      | Some v \<Rightarrow> Option.bind (jget ''schema_version'' v) as_u64 = Some (wd_schema_version doc) \<and>
          wi_from_value c v = Some doc)"

lemma validate_fits:
  "validate_doc c doc = Inr () \<Longrightarrow>
   wd_schema_version doc = WORKBENCH_SCHEMA_VERSION \<and> length (wc_to_vec c doc) \<le> MAX_WORKBENCH_DOCUMENT_BYTES"
proof -
  assume "validate_doc c doc = Inr ()"
  then have graph: "graph_errors c doc = []"
    and "err_if (length (wc_to_vec c doc) > MAX_WORKBENCH_DOCUMENT_BYTES) ''$'' ''exceeds the 2 MiB UTF-8 document limit'' = []"
    by (simp_all add: validate_doc_def Let_def split: if_splits)
  moreover from graph have "wd_schema_version doc = WORKBENCH_SCHEMA_VERSION"
    unfolding graph_errors_def split_beta Let_def append_is_Nil_conv err_if_Nil by blast
  ultimately show ?thesis by (simp add: err_if_Nil)
qed

lemma reads_back_classify:
  assumes "reads_back c doc" "validate_doc c doc = Inr ()"
  shows "classify_bytes c (wc_to_vec c doc) = SlotValid doc (wc_to_vec c doc) (token_for c (wc_to_vec c doc))"
  using assms validate_fits [OF assms(2)] by (auto simp: reads_back_def classify_bytes_def split: option.splits)

text \<open>The token of a document as it is printed.\<close>

definition token_of :: "wb_io \<Rightarrow> wb_doc \<Rightarrow> string" where
  "token_of c doc = token_for c (wc_to_vec c doc)"

text \<open>What a valid document is once it was printed and read.\<close>

definition stored_as :: "wb_io \<Rightarrow> wb_doc \<Rightarrow> wb_doc \<Rightarrow> bool" where
  "stored_as c doc doc' \<longleftrightarrow> (validate_doc c doc = Inr () \<longrightarrow>
     classify_bytes c (wc_to_vec c doc) = SlotValid doc' (wc_to_vec c doc) (token_of c doc) \<and>
     wd_revision doc' = wd_revision doc)"

lemma stored_asD:
  assumes "stored_as c doc doc'" "validate_doc c doc = Inr ()"
  shows "classify_bytes c (wc_to_vec c doc) = SlotValid doc' (wc_to_vec c doc) (token_of c doc)"
    and "wd_revision doc' = wd_revision doc"
  using assms by (simp_all add: stored_as_def)

lemma reads_back_stored: "reads_back c doc \<Longrightarrow> stored_as c doc doc"
  using reads_back_classify by (simp add: stored_as_def token_of_def)

section \<open>What a decision leaves behind\<close>

lemma quiescent_same:
  "quiescent F \<Longrightarrow> survives F primary_name x \<Longrightarrow> survives F backup_name y \<Longrightarrow> resolve_slots c x y = resolves c F"
  by (simp add: quiescent_survives resolves_def)

text \<open>An answer that is replayed names the primary that was resolved.\<close>

lemma saved_matches:
  "saved_result_matches_current_primary (ResolvedV1 source doc token notice current) revision t \<Longrightarrow>
   source = PrimarySource \<and> revision = Some (wd_revision doc) \<and> t = Some token"
  by (auto simp: saved_result_matches_current_primary_def split: load_source.splits)

lemma replayed_save_current:
  "replayed_save (ResolvedV1 source doc token notice current) fingerprint e = Some x \<Longrightarrow>
   source = PrimarySource \<and> sr_durable_revision x = Some (wd_revision doc) \<and> sr_durable_token x = Some token"
  by (auto simp: replayed_save_def dest: saved_matches split: if_splits stored_result.splits)

lemma replayed_reset_current:
  "replayed_reset (ResolvedV1 source doc token notice current) fingerprint e = Some x \<Longrightarrow>
   source = PrimarySource \<and> rr_durable_revision x = Some (wd_revision doc) \<and> rr_durable_token x = Some token"
  by (auto simp: replayed_reset_def dest: saved_matches split: if_splits stored_result.splits)

text \<open>The three ways a save ends once the home is resolved.\<close>

lemma saving_cases:
  assumes "saving env q F l r G l'"
  obtains
    (failed) err where "r = Inl err" "G = F" "l' = l"
  | (future) notice where "resolves (we_codec env) F = Inr (ResolvedFuture notice)" "G = F" "l' = l"
      "r = Inr (save_result_for_resolved (ResolvedFuture notice) FutureSchemaOutcome (sq_request_id q))"
  | (decided) source doc token notice current found l1 where
      "resolves (we_codec env) F = Inr (ResolvedV1 source doc token notice current)"
      "validate_doc (we_codec env) (sq_document q) = Inr ()"
      "find_ledger_entry (we_home env) (sq_request_id q) l = (found, l1)"
      "acted (we_home env) (sq_request_id q) current F l1
         (decide_save (we_codec env) q (ResolvedV1 source doc token notice current) source doc token found) r G l'"
proof -
  obtain found l1 where look: "find_ledger_entry (we_home env) (sq_request_id q) l = (found, l1)" by fastforce
  from assms show thesis
    unfolding saving_def look Let_def prod.case using failed future decided [OF _ _ look] by blast
qed

text \<open>What a decision to save can be.\<close>

lemma decide_save_cases:
  assumes "decide_save c q R source doc token found = decision"
    and "R = ResolvedV1 source doc token notice current"
  obtains
    (replayed) e x where "decision = Answers x" "found = Some e"
      "replayed_save R (fingerprint_of (wd_revision (sq_document q)) (token_of c (sq_document q))) e = Some x"
  | (conflict) "decision = Answers (save_result_for_resolved R RevisionConflict (sq_request_id q))"
  | (same) fp where "decision = Remembers (saved_result (wd_revision doc) token (sq_request_id q))
        (save_entry fp (saved_result (wd_revision doc) token (sq_request_id q)))"
      "found = None" "source = PrimarySource" "wd_revision (sq_document q) = wd_revision doc"
      "token_of c (sq_document q) = token" "fp = fingerprint_of (wd_revision doc) token"
  | (fresh) fp x where "decision = Persists (wc_to_vec c (sq_document q)) x (save_entry fp x)"
      "found = None" "x = saved_result (wd_revision (sq_document q)) (token_of c (sq_document q)) (sq_request_id q)"
      "fp = fingerprint_of (wd_revision (sq_document q)) (token_of c (sq_document q))"
      "sq_expected_revision q = wd_revision doc" "sq_expected_token q = token"
      "sq_expected_revision q < MAX_SAFE_INTEGER" "sq_expected_revision q + 1 = wd_revision (sq_document q)"
proof -
  show thesis
  proof (cases found)
    case None
    then show thesis
      using assms(1) same fresh conflict
      unfolding decide_save_def Let_def token_of_def by (simp split: if_splits)
  next
    case (Some e)
    then show thesis
      using assms(1) [symmetric] replayed conflict
      unfolding decide_save_def Let_def token_of_def by (simp split: option.splits)
  qed
qed

section \<open>Loss of power\<close>

text \<open>What the two files of a home may hold after a loss of power: what survives of each, or
  nothing where the directory itself was made and never flushed.\<close>

definition comes_back :: "session \<Rightarrow> string option \<Rightarrow> string option \<Rightarrow> bool" where
  "comes_back d x y \<longleftrightarrow>
     survives (fst (view d)) primary_name x \<and> survives (fst (view d)) backup_name y \<or>
     dk_folder d \<noteq> FolderDurable \<and> x = None \<and> y = None"

lemma stays_io [stays_rules]: "stays m \<Longrightarrow> stays (fx_io m)"
  unfolding stays_def by (rule ends_io) (auto elim!: ends_mono split: sum.split)

lemma stays_classify [stays_rules]: "stays (classify_slot env n)"
  unfolding stays_def
proof (rule endsI)
  fix d :: session and w r d' w'
  assume d: "folder_durable d" and run: "classify_slot env n (d, w) = (r, (d', w'))"
  obtain r1 d1 w1 where read: "read_file (we_fs env) n (d, w) = (r1, (d1, w1))"
    by (cases "read_file (we_fs env) n (d, w)") auto
  have "folder_durable d1" using endsD [OF stays_read [unfolded stays_def] d read] .
  moreover have "d' = d1" using run read by (auto simp: classify_slot_def split: sum.splits io_error.splits)
  ultimately show "folder_durable d'" by simp
qed

lemma stays_ledger [stays_rules]: "stays (ledger_entry env i)" "stays (remember env i e)"
  by (auto simp: stays_def ends_def ledger_entry_def remember_def split: prod.splits option.splits)

lemma stays_pure: "stays (\<lambda>s. (r, s))"
  by (simp add: stays_def ends_def)

lemma stays_resolve [stays_rules]: "stays (resolve_state env)"
  unfolding resolve_state_def
  by (intro stays_rules) (auto intro!: stays_rules stays_pure split: slot_state.split)

lemma save_stays: "stays (save_workbench_locked env q)"
  unfolding save_workbench_locked_def save_looked_up_def saved_and_remembered_def persist_bytes_def
    persist_bytes_with_hook_def Let_def
  by (auto intro!: stays_rules split: resolved_state.split sum.split option.split)

definition acknowledges :: "u64 option \<Rightarrow> string option \<Rightarrow> wb_error + resolved_state \<Rightarrow> bool" where
  "acknowledges revision token R \<longleftrightarrow> (\<exists>doc t. durable R = Some (doc, t) \<and> revision = Some (wd_revision doc) \<and> token = Some t)"

lemma acknowledges_saved [simp]:
  "durable R = Some (doc, t) \<Longrightarrow> acknowledges (Some revision) (Some token) R \<longleftrightarrow> revision = wd_revision doc \<and> token = t"
  by (auto simp: acknowledges_def)

lemma remembered_answer: "remembered home i e l x (Inr y) l' \<Longrightarrow> y = x"
  by (auto simp: remembered_def split: option.splits)

lemma saving_survives:
  assumes reads: "stored_as (we_codec env) (sq_document q) doc'" and quiet: "quiescent F"
    and save: "saving env q F l r G l'"
    and xy: "survives G primary_name x" "survives G backup_name y"
  shows "durable (resolve_slots (we_codec env) x y) \<in>
      {durable (resolves (we_codec env) F), Some (doc', token_of (we_codec env) (sq_document q))}"
    and "r = Inr res \<Longrightarrow> sr_outcome res = Saved \<Longrightarrow>
      acknowledges (sr_durable_revision res) (sr_durable_token res) (resolve_slots (we_codec env) x y)"
proof -
  let ?c = "we_codec env" and ?doc = "sq_document q"
  note same = quiescent_same [OF quiet, of x y ?c]
  from save have "durable (resolve_slots ?c x y) \<in> {durable (resolves ?c F), Some (doc', token_of ?c ?doc)} \<and>
      (r = Inr res \<longrightarrow> sr_outcome res = Saved \<longrightarrow>
       acknowledges (sr_durable_revision res) (sr_durable_token res) (resolve_slots ?c x y))"
  proof (cases rule: saving_cases)
    case failed
    with xy same show ?thesis by simp
  next
    case future
    with xy same show ?thesis by (auto simp: save_result_for_resolved_def)
  next
    case (decided source doc token notice current found l1)
    let ?R = "ResolvedV1 source doc token notice current"
    have new: "classify_bytes ?c (wc_to_vec ?c ?doc) = SlotValid doc' (wc_to_vec ?c ?doc) (token_of ?c ?doc)"
      by (rule stored_asD(1) [OF reads decided(2)])
    note revision = stored_asD(2) [OF reads decided(2)]
    obtain decision where choice: "decide_save ?c q ?R source doc token found = decision" by simp
    from choice refl show ?thesis
    proof (cases rule: decide_save_cases)
      case (replayed e z)
      with decided(1,4) choice xy same show ?thesis by (auto dest: replayed_save_current)
    next
      case conflict
      with decided(1,4) choice xy same show ?thesis by (auto simp: save_result_for_resolved_def)
    next
      case (same fp)
      with decided(1,4) choice xy quiescent_same [OF quiet, of x y ?c] show ?thesis
        by (auto simp: saved_result_def dest!: remembered_answer)
    next
      case (fresh fp z)
      then have G: "interrupted current (wc_to_vec ?c ?doc) F G \<and> (\<exists>err. r = Inl err) \<or>
          G = replaced current (wc_to_vec ?c ?doc) F \<and> (r = Inr res \<longrightarrow> res = z)"
        using decided(4) choice by (auto dest: remembered_answer)
      then have "persisted current (wc_to_vec ?c ?doc) F (case r of Inl _ \<Rightarrow> Inl () | Inr _ \<Rightarrow> Inr ()) G"
        by (auto simp: persisted_def split: sum.split)
      from persisted_durable [OF quiet decided(1) new this xy] G fresh decided(1) show ?thesis
        using revision by (auto simp: saved_result_def)
    qed
  qed
  then show "durable (resolve_slots ?c x y) \<in> {durable (resolves ?c F), Some (doc', token_of ?c ?doc)}"
    and "r = Inr res \<Longrightarrow> sr_outcome res = Saved \<Longrightarrow>
      acknowledges (sr_durable_revision res) (sr_durable_token res) (resolve_slots ?c x y)" by blast+
qed

lemma save_run:
  assumes "save_workbench_locked env q (d, w) = (r, (d', w'))"
  shows "saving env q (fst (view d)) (ss_ledgers d) r (fst (view d')) (ss_ledgers d')"
proof -
  obtain G l' where "home_at G l' d'" "saving env q (fst (view d)) (ss_ledgers d) r G l'"
    using endsD [OF save_ends home_at_self assms] by blast
  then show ?thesis by simp
qed

lemma reset_run:
  assumes "reset_workbench_locked env q (d, w) = (r, (d', w'))"
  shows "resetting env q (fst (view d)) (ss_ledgers d) r (fst (view d')) (ss_ledgers d')"
proof -
  obtain G l' where "home_at G l' d'" "resetting env q (fst (view d)) (ss_ledgers d) r G l'"
    using endsD [OF reset_ends home_at_self assms] by blast
  then show ?thesis by simp
qed

lemma resetting_cases:
  assumes "resetting env q F l r G l'"
  obtains
    (failed) err where "r = Inl err" "G = F"
  | (future) notice where "resolves (we_codec env) F = Inr (ResolvedFuture notice)" "G = F" "l' = l"
      "r = Inr (reset_result_for_resolved (ResolvedFuture notice) FutureSchemaOutcome (rq_request_id q) None)"
  | (decided) source doc token notice current found l1 w backup decision where
      "resolves (we_codec env) F = Inr (ResolvedV1 source doc token notice current)"
      "backup = classify_content (we_codec env) (shown F backup_name)"
      "find_ledger_entry (we_home env) (rq_request_id q) l = (found, l1)"
      "decide_reset (we_codec env) q backup (clock env w) (ResolvedV1 source doc token notice current)
         source doc token found = decision"
      "acted (we_home env) (rq_request_id q) current F l1 decision r G l'"
      "\<And>bytes x e. decision = Persists bytes x e \<Longrightarrow>
         validate_doc (we_codec env) (fresh_default (rq_expected_revision q) (clock env w)) = Inr ()"
proof -
  obtain found l1 where look: "find_ledger_entry (we_home env) (rq_request_id q) l = (found, l1)" by fastforce
  from assms show thesis
    unfolding resetting_def look Let_def prod.case using failed future decided [OF _ refl look refl] by blast
qed

lemma decide_reset_cases:
  assumes "decide_reset c q backup now R source doc token found = decision"
    and "R = ResolvedV1 source doc token notice current"
  obtains
    (replayed) e x where "decision = Answers x" "found = Some e"
      "replayed_reset R (fingerprint_of (rq_expected_revision q) (rq_expected_token q)) e = Some x"
  | (conflict) "decision = Answers (reset_result_for_resolved R RevisionConflict (rq_request_id q) None)"
      "found \<noteq> None \<or> \<not> (rq_expected_revision q = wd_revision doc \<and> rq_expected_token q = token \<and>
         rq_expected_revision q < MAX_SAFE_INTEGER)"
  | (again) fp where "decision = Remembers (reset_done doc token (rq_request_id q))
        (reset_entry fp (reset_done doc token (rq_request_id q)))"
      "found = None" "already_reset c q source doc backup"
      "fp = fingerprint_of (rq_expected_revision q) (rq_expected_token q)"
  | (fresh) fp x default where "decision = Persists (wc_to_vec c default) x (reset_entry fp x)"
      "found = None" "default = fresh_default (rq_expected_revision q) now"
      "x = reset_done default (token_of c default) (rq_request_id q)"
      "fp = fingerprint_of (rq_expected_revision q) (rq_expected_token q)"
      "rq_expected_revision q = wd_revision doc" "rq_expected_token q = token"
      "rq_expected_revision q < MAX_SAFE_INTEGER"
proof -
  show thesis
  proof (cases found)
    case None
    then show thesis
      using assms(1) [symmetric] again fresh [OF _ _ refl] conflict
      unfolding decide_reset_def Let_def token_of_def by (simp split: if_splits)
  next
    case (Some e)
    then show thesis
      using assms(1) [symmetric] replayed conflict
      unfolding decide_reset_def Let_def token_of_def by (simp split: option.splits)
  qed
qed

lemma resetting_survives:
  assumes reads: "\<And>w. reads_back (we_codec env) (fresh_default (rq_expected_revision q) (clock env w))"
    and quiet: "quiescent F" and reset: "resetting env q F l r G l'"
    and xy: "survives G primary_name x" "survives G backup_name y"
  shows "durable (resolve_slots (we_codec env) x y) = durable (resolves (we_codec env) F) \<or>
      (\<exists>w. durable (resolve_slots (we_codec env) x y) = Some (fresh_default (rq_expected_revision q) (clock env w),
         token_of (we_codec env) (fresh_default (rq_expected_revision q) (clock env w))))"
    and "r = Inr res \<Longrightarrow> rr_outcome res = Saved \<Longrightarrow>
      acknowledges (rr_durable_revision res) (rr_durable_token res) (resolve_slots (we_codec env) x y)"
proof -
  let ?c = "we_codec env" and ?new = "\<lambda>w. fresh_default (rq_expected_revision q) (clock env w)"
  let ?goal = "(durable (resolve_slots ?c x y) = durable (resolves ?c F) \<or>
       (\<exists>w. durable (resolve_slots ?c x y) = Some (?new w, token_of ?c (?new w)))) \<and>
     (r = Inr res \<longrightarrow> rr_outcome res = Saved \<longrightarrow>
       acknowledges (rr_durable_revision res) (rr_durable_token res) (resolve_slots ?c x y))"
  note same = quiescent_same [OF quiet, of x y ?c]
  from reset have ?goal
  proof (cases rule: resetting_cases)
    case failed
    with xy same show ?thesis by simp
  next
    case future
    with xy same show ?thesis by (auto simp: reset_result_for_resolved_def)
  next
    case (decided source doc token notice current found l1 w backup decision)
    from decided(4) refl show ?thesis
    proof (cases rule: decide_reset_cases)
      case (replayed e z)
      with decided(1,5) xy same show ?thesis by (auto dest: replayed_reset_current)
    next
      case conflict
      with decided(1,5) xy same show ?thesis by (auto simp: reset_result_for_resolved_def)
    next
      case (again fp)
      with decided(1,5) xy same show ?thesis by (auto simp: reset_done_def dest!: remembered_answer)
    next
      case (fresh fp z default)
      have new: "classify_bytes ?c (wc_to_vec ?c default) = SlotValid default (wc_to_vec ?c default) (token_of ?c default)"
        using reads_back_classify [OF reads decided(6)] fresh by (simp add: token_of_def)
      have G: "interrupted current (wc_to_vec ?c default) F G \<and> (\<exists>err. r = Inl err) \<or>
          G = replaced current (wc_to_vec ?c default) F \<and> (r = Inr res \<longrightarrow> res = z)"
        using decided(5) fresh by (auto dest: remembered_answer)
      then have "persisted current (wc_to_vec ?c default) F (case r of Inl _ \<Rightarrow> Inl () | Inr _ \<Rightarrow> Inr ()) G"
        by (auto simp: persisted_def split: sum.split)
      from persisted_durable [OF quiet decided(1) new this xy] G fresh decided(1) show ?thesis
        by (auto simp: reset_done_def)
    qed
  qed
  then show "durable (resolve_slots ?c x y) = durable (resolves ?c F) \<or>
       (\<exists>w. durable (resolve_slots ?c x y) = Some (?new w, token_of ?c (?new w)))"
    and "r = Inr res \<Longrightarrow> rr_outcome res = Saved \<Longrightarrow>
      acknowledges (rr_durable_revision res) (rr_durable_token res) (resolve_slots ?c x y)" by blast+
qed

section \<open>Requests that are sent again\<close>

lemma remembered_lookup:
  "remembered home i e l x (Inr y) l' \<Longrightarrow> looked_up home i l' \<in> {None, Some e}"
  by (auto simp: remembered_def split: option.splits dest: remember_lookup)

text \<open>A request whose document is already the primary one is answered, whether or not the
  ledger still knows it.\<close>

lemma saving_again:
  assumes R: "resolves (we_codec env) F = Inr (ResolvedV1 PrimarySource doc token notice current)"
    and doc: "wd_revision doc = wd_revision (sq_document q)" "token = token_of (we_codec env) (sq_document q)"
    and known: "looked_up (we_home env) (sq_request_id q) l \<in>
      {None, Some (save_entry (fingerprint_of (wd_revision doc) token) (saved_result (wd_revision doc) token (sq_request_id q)))}"
    and save: "saving env q F l (Inr res) G l'"
  shows "res = saved_result (wd_revision doc) token (sq_request_id q) \<and> G = F"
  using save
proof (cases rule: saving_cases)
  case (decided source doc' token' notice' current' found l1)
  with R have same: "source = PrimarySource" "doc' = doc" "token' = token" by auto
  have found: "found = looked_up (we_home env) (sq_request_id q) l" using decided(3) by simp
  show ?thesis
    using known decided(4) doc unfolding same found [symmetric]
    by (auto simp: decide_save_def Let_def token_of_def [symmetric] replayed_save_def save_entry_def saved_result_def
        saved_result_matches_current_primary_def dest: remembered_answer)
qed (use R in auto)

lemma repeated_saving:
  assumes reads: "stored_as (we_codec env) (sq_document q) doc'"
    and unknown: "looked_up (we_home env) (sq_request_id q) l = None"
    and first: "saving env q F l (Inr res) G l1" "sr_outcome res = Saved"
    and known: "looked_up (we_home env) (sq_request_id q) l2 \<in> {None, looked_up (we_home env) (sq_request_id q) l1}"
    and second: "saving env q G l2 (Inr res') H l3"
  shows "res' = res \<and> H = G"
  using first(1)
proof (cases rule: saving_cases)
  case (decided source doc token notice current found l0)
  let ?c = "we_codec env" and ?R = "ResolvedV1 source doc token notice current"
  have found: "found = None" using decided(3) unknown by simp
  obtain decision where choice: "decide_save ?c q ?R source doc token found = decision" by simp
  from choice refl show ?thesis
  proof (cases rule: decide_save_cases)
    case (same fp)
    then have "G = F" and res: "res = saved_result (wd_revision doc) token (sq_request_id q)"
      and "looked_up (we_home env) (sq_request_id q) l1 \<in> {None, Some (save_entry fp res)}"
      using decided(4) choice by (auto dest: remembered_answer remembered_lookup)
    with known same decided(1) show ?thesis
      using saving_again [where env = env and F = G and doc = doc and q = q and l = l2, OF _ _ _ _ second] by auto
  next
    case (fresh fp z)
    then have G: "G = replaced current (wc_to_vec ?c (sq_document q)) F" and res: "res = z"
      and "looked_up (we_home env) (sq_request_id q) l1 \<in> {None, Some (save_entry fp res)}"
      using decided(4) choice by (auto dest: remembered_answer remembered_lookup)
    moreover have "resolves ?c G = Inr (ResolvedV1 PrimarySource doc' (token_of ?c (sq_document q)) None
        (Some (wc_to_vec ?c (sq_document q))))"
      unfolding G by (rule replaced_resolves [OF decided(1) stored_asD(1) [OF reads decided(2)]])
    ultimately show ?thesis
      using known fresh saving_again [where env = env and F = G and doc = doc' and q = q and l = l2, OF _ _ _ _ second]
        stored_asD(2) [OF reads decided(2)]
      by auto
  next
    case conflict
    with decided(4) choice first(2) show ?thesis by (simp add: save_result_for_resolved_def)
  qed (simp add: found)
qed (use first(2) in \<open>simp_all add: save_result_for_resolved_def\<close>)

lemma reset_target_fresh: "is_reset_target (fresh_default expected now) (expected + 1)"
  by (simp add: is_reset_target_def fresh_default_def default_document_def doc_eq_def shell_eq_def)

lemma resolved_without_primary:
  assumes "resolves c F = Inr (ResolvedV1 source doc token notice None)"
  obtains (backup) bytes where "classify_content c (shown F backup_name) = SlotValid doc bytes token"
    | (default) "doc = default_document" "token = token_of c default_document"
        "classify_content c (shown F backup_name) \<in> {SlotMissing, SlotInvalid}"
  using assms
  by (auto simp: resolves_def resolve_slots_def resolve_default_def Let_def token_of_def
      split: slot_state.splits if_splits sum.splits)

text \<open>What proves a reset after it was done.\<close>

lemma retry_after_reset:
  assumes R: "resolves c F = Inr (ResolvedV1 source doc token notice current)"
    and q: "rq_expected_revision q = wd_revision doc" "rq_expected_token q = token"
  shows "retry_matches c q (classify_content c (shown (replaced current bytes F) backup_name))"
proof (cases current)
  case (Some b)
  then have "classify_bytes c b = SlotValid doc b token" using resolved_cases(2) [OF R] by blast
  with Some q show ?thesis by (simp add: shown_replaced classify_content_def retry_matches_def)
next
  case None
  with R have "resolves c F = Inr (ResolvedV1 source doc token notice None)" by simp
  then show ?thesis
  proof (cases rule: resolved_without_primary)
    case (backup b)
    with None q show ?thesis by (simp add: shown_replaced retry_matches_def)
  next
    case default
    with None q show ?thesis by (auto simp: shown_replaced retry_matches_def token_of_def default_document_def)
  qed
qed

lemma resetting_again:
  assumes R: "resolves (we_codec env) F = Inr (ResolvedV1 PrimarySource doc token notice current)"
    and already: "already_reset (we_codec env) q PrimarySource doc
      (classify_content (we_codec env) (shown F backup_name))"
    and known: "looked_up (we_home env) (rq_request_id q) l \<in> {None,
      Some (reset_entry (fingerprint_of (rq_expected_revision q) (rq_expected_token q))
        (reset_done doc token (rq_request_id q)))}"
    and reset: "resetting env q F l (Inr res) G l'"
  shows "res = reset_done doc token (rq_request_id q) \<and> G = F"
  using reset
proof (cases rule: resetting_cases)
  case (decided source doc' token' notice' current' found l1 w backup decision)
  with R have same: "source = PrimarySource" "doc' = doc" "token' = token" by auto
  have found: "found = looked_up (we_home env) (rq_request_id q) l" using decided(3) by simp
  show ?thesis
    using known already decided(5) unfolding decided(4) [symmetric] same found [symmetric] decided(2) [symmetric]
    by (auto simp: decide_reset_def Let_def replayed_reset_def reset_entry_def reset_done_def
        saved_result_matches_current_primary_def dest: remembered_answer)
qed (use R in auto)

lemma repeated_resetting:
  assumes reads: "\<And>w. reads_back (we_codec env) (fresh_default (rq_expected_revision q) (clock env w))"
    and unknown: "looked_up (we_home env) (rq_request_id q) l = None"
    and first: "resetting env q F l (Inr res) G l1" "rr_outcome res = Saved"
    and known: "looked_up (we_home env) (rq_request_id q) l2 \<in> {None, looked_up (we_home env) (rq_request_id q) l1}"
    and second: "resetting env q G l2 (Inr res') H l3"
  shows "res' = res \<and> H = G"
  using first(1)
proof (cases rule: resetting_cases)
  case (decided source doc token notice current found l0 w backup decision)
  let ?c = "we_codec env" and ?R = "ResolvedV1 source doc token notice current"
  have found: "found = None" using decided(3) unknown by simp
  from decided(4) refl show ?thesis
  proof (cases rule: decide_reset_cases)
    case (again fp)
    then have "G = F" and "res = reset_done doc token (rq_request_id q)"
      and "looked_up (we_home env) (rq_request_id q) l1 \<in> {None, Some (reset_entry fp res)}"
      using decided(5) by (auto dest: remembered_answer remembered_lookup)
    moreover have "source = PrimarySource" using again by (simp add: already_reset_def)
    ultimately show ?thesis
      using known again decided(1,2) resetting_again [where env = env and F = G and doc = doc and q = q and l = l2,
        OF _ _ _ second] by auto
  next
    case (fresh fp z default)
    have new: "classify_bytes ?c (wc_to_vec ?c default) = SlotValid default (wc_to_vec ?c default) (token_of ?c default)"
      using reads_back_classify [OF reads decided(6)] fresh by (simp add: token_of_def)
    have G: "G = replaced current (wc_to_vec ?c default) F" and "res = z"
      and "looked_up (we_home env) (rq_request_id q) l1 \<in> {None, Some (reset_entry fp res)}"
      using decided(5) fresh by (auto dest: remembered_answer remembered_lookup)
    moreover have "resolves ?c G = Inr (ResolvedV1 PrimarySource default (token_of ?c default) None
        (Some (wc_to_vec ?c default)))"
      unfolding G by (rule replaced_resolves [OF decided(1) new])
    moreover have "already_reset ?c q PrimarySource default (classify_content ?c (shown G backup_name))"
      using retry_after_reset [OF decided(1) fresh(6,7)] fresh reset_target_fresh
      by (simp add: already_reset_def G fresh_default_def)
    ultimately show ?thesis
      using known fresh resetting_again [where env = env and F = G and doc = default and q = q and l = l2,
        OF _ _ _ second] by auto
  next
    case conflict
    with decided(5) first(2) show ?thesis by (simp add: reset_result_for_resolved_def)
  qed (simp add: found)
qed (use first(2) in \<open>simp_all add: reset_result_for_resolved_def\<close>)

section \<open>Compare and swap\<close>

lemma saving_swaps:
  assumes reads: "stored_as (we_codec env) (sq_document q) doc'" and save: "saving env q F l r G l'"
    and changed: "durable (resolves (we_codec env) G) \<noteq> durable (resolves (we_codec env) F)"
  obtains doc where "durable (resolves (we_codec env) F) = Some (doc, sq_expected_token q)"
    "sq_expected_revision q = wd_revision doc" "wd_revision doc < MAX_SAFE_INTEGER"
    "wd_revision (sq_document q) = wd_revision doc + 1"
    "durable (resolves (we_codec env) G) = Some (doc', token_of (we_codec env) (sq_document q))"
    "wd_revision doc' = wd_revision (sq_document q)"
  using save
proof (cases rule: saving_cases)
  case (decided source doc token notice current found l1)
  let ?c = "we_codec env" and ?R = "ResolvedV1 source doc token notice current" and ?doc = "sq_document q"
  have new: "classify_bytes ?c (wc_to_vec ?c ?doc) = SlotValid doc' (wc_to_vec ?c ?doc) (token_of ?c ?doc)"
    by (rule stored_asD(1) [OF reads decided(2)])
  obtain decision where choice: "decide_save ?c q ?R source doc token found = decision" by simp
  from choice refl show thesis
  proof (cases rule: decide_save_cases)
    case (fresh fp z)
    then have "interrupted current (wc_to_vec ?c ?doc) F G \<or> G = replaced current (wc_to_vec ?c ?doc) F"
      using decided(4) choice by auto
    then have "durable (resolves ?c G) \<in> {Some (doc, token), Some (doc', token_of ?c ?doc)}"
    proof
      assume "interrupted current (wc_to_vec ?c ?doc) F G"
      from stopped_durable [OF decided(1) new shown_interrupted [OF this]] show ?thesis by (simp add: resolves_def)
    next
      assume "G = replaced current (wc_to_vec ?c ?doc) F"
      then show ?thesis using replaced_resolves [OF decided(1) new] by simp
    qed
    with fresh decided(1) changed that stored_asD(2) [OF reads decided(2)] show thesis by auto
  next
    case (replayed e x)
    then have "G = F" using decided(4) choice by simp
    with changed show thesis by blast
  next
    case conflict
    then have "G = F" using decided(4) choice by simp
    with changed show thesis by blast
  next
    case (same fp)
    then have "G = F" using decided(4) choice by simp
    with changed show thesis by blast
  qed
next
  case failed
  with changed show thesis by blast
next
  case future
  with changed show thesis by blast
qed

section \<open>What a load hands out\<close>

lemma classified_valid: "classify_bytes c bytes = SlotValid doc bytes' token \<Longrightarrow> validate_doc c doc = Inr () \<and> token = token_for c bytes"
  by (auto simp: classify_bytes_def split: if_splits option.splits sum.splits)

lemma resolved_valid:
  assumes "resolves c F = Inr (ResolvedV1 source doc token notice current)"
  shows "validate_doc c doc = Inr ()"
proof (cases current)
  case (Some bytes)
  then show ?thesis using resolved_cases(2) [OF assms] classified_valid by blast
next
  case None
  with assms have "resolves c F = Inr (ResolvedV1 source doc token notice None)" by simp
  then show ?thesis
  proof (cases rule: resolved_without_primary)
    case (backup bytes)
    then show ?thesis using classify_content_valid classified_valid by blast
  next
    case default
    then show ?thesis
      using \<open>resolves c F = Inr (ResolvedV1 source doc token notice None)\<close>
      by (auto simp: resolves_def resolve_slots_def resolve_default_def Let_def split: slot_state.splits sum.splits
          dest!: classify_content_valid classified_valid)
  qed
qed

lemma load_run:
  assumes "load_workbench env (d, w) = (r, (d', w'))"
  shows "view d' = view d \<and>
    (\<forall>res. r = Inr res \<longrightarrow> (\<exists>R. resolves (we_codec env) (fst (view d)) = Inr R \<and> res = resolved_to_load_result R))"
proof -
  have "ends (\<lambda>e. view e = view d) (load_workbench env) (\<lambda>r e. view e = view d \<and>
      (\<forall>res. r = Inr res \<longrightarrow> (\<exists>R. resolves (we_codec env) (fst (view d)) = Inr R \<and> res = resolved_to_load_result R)))"
    unfolding load_workbench_def
    by (rule ends_bind [where R = "\<lambda>R e. view e = view d \<and> resolves (we_codec env) (fst (view d)) = Inr R",
          OF ends_mono [OF resolve_ends [where V = "view d"]]]) (auto split: sum.split)
  from endsD [OF this refl assms] show ?thesis .
qed

section \<open>Files of a newer version\<close>

lemma future_resolves:
  assumes "SlotFuture \<in> {classify_content c (shown F primary_name), classify_content c (shown F backup_name)}"
  obtains notice where "resolves c F = Inr (ResolvedFuture notice)"
  using assms by (cases "classify_content c (shown F primary_name)") (auto simp: resolves_def resolve_slots_def)

end
