(* ===== verification/Workbench_Progress.thy ===== *)
theory Workbench_Progress
  imports Workbench_Promises
begin

text \<open>
  What a save comes to when the disk does its work: every system call succeeds and there are
  no left-over temporary files in the way. Then the holder of the current revision is
  acknowledged.
\<close>

section \<open>Effects that succeed\<close>

definition does :: "('d disk_scheme \<Rightarrow> bool) \<Rightarrow> ('d, 'w, 'e, 'a) fx \<Rightarrow> ('a \<Rightarrow> 'd disk_scheme \<Rightarrow> bool) \<Rightarrow> bool" where
  "does P m Q \<longleftrightarrow> (\<forall>d w. P d \<longrightarrow> (\<exists>x d' w'. m (d, w) = (Inr x, (d', w')) \<and> Q x d'))"

definition disk_works :: "'w fs_env \<Rightarrow> bool" where
  "disk_works fs \<longleftrightarrow> (\<forall>w. fst (fs_answer fs w) = Works)"

lemma doesI: "(\<And>d w. P d \<Longrightarrow> \<exists>x d' w'. m (d, w) = (Inr x, (d', w')) \<and> Q x d') \<Longrightarrow> does P m Q"
  unfolding does_def by blast

lemma doesD: "does P m Q \<Longrightarrow> P d \<Longrightarrow> \<exists>x d' w'. m (d, w) = (Inr x, (d', w')) \<and> Q x d'"
  unfolding does_def by blast

lemma does_mono: "does P m Q \<Longrightarrow> (\<And>d. P' d \<Longrightarrow> P d) \<Longrightarrow> (\<And>x d. Q x d \<Longrightarrow> Q' x d) \<Longrightarrow> does P' m Q'"
  unfolding does_def by meson

lemma does_ret: "(\<And>d. P d \<Longrightarrow> Q x d) \<Longrightarrow> does P (fx_ret x) Q"
  by (auto simp: does_def fx_ret_def)

lemma does_bind:
  assumes "does P m R" and "\<And>x. does (R x) (f x) Q"
  shows "does P (fx_bind m f) Q"
proof (rule doesI)
  fix d w assume "P d"
  from doesD [OF assms(1) this] obtain x d1 w1 where m: "m (d, w) = (Inr x, (d1, w1))" "R x d1" by blast
  from doesD [OF assms(2) m(2)] show "\<exists>x d' w'. fx_bind m f (d, w) = (Inr x, (d', w')) \<and> Q x d'"
    by (simp add: fx_bind_def m(1))
qed

lemma does_syscall:
  assumes "disk_works fs" "\<And>d. P d \<Longrightarrow> Q () (f d)"
  shows "does P (syscall fs f g) Q"
proof (rule doesI)
  fix d w assume "P d"
  moreover obtain w' where "fs_answer fs w = (Works, w')"
    using assms(1) unfolding disk_works_def by (metis prod.collapse)
  ultimately show "\<exists>x d' w'. syscall fs f g (d, w) = (Inr x, (d', w')) \<and> Q x d'"
    using assms(2) by (simp add: syscall_def)
qed

lemma does_quiet: "disk_works fs \<Longrightarrow> (\<And>d. P d \<Longrightarrow> Q () d) \<Longrightarrow> does P (quiet_call fs) Q"
  unfolding quiet_call_def by (rule does_syscall)

lemma does_hook: "(\<And>d. P d \<Longrightarrow> Q () d) \<Longrightarrow> does P (check_hook no_atomic_fault p) Q"
  by (auto simp: does_def check_hook_def no_atomic_fault_def)

lemma does_uuid: "(\<And>d u. P d \<Longrightarrow> Q u d) \<Longrightarrow> does P (new_uuid fs) Q"
  by (auto simp: does_def new_uuid_def split: prod.split)

lemma does_guard: "does (\<lambda>d. P d \<and> b) m Q \<longleftrightarrow> (b \<longrightarrow> does P m Q)"
  unfolding does_def by blast

lemma does_io:
  assumes "does P m Q"
  shows "does P (fx_io m) Q"
proof (rule doesI)
  fix d w assume "P d"
  from doesD [OF assms this] obtain x d' w' where "m (d, w) = (Inr x, (d', w'))" "Q x d'" by blast
  then show "\<exists>x d' w'. fx_io m (d, w) = (Inr x, (d', w')) \<and> Q x d'" by (simp add: fx_io_def)
qed

lemma does_same: "does P m Q \<Longrightarrow> (\<And>d w. P d \<Longrightarrow> m' (d, w) = m (d, w)) \<Longrightarrow> does P m' Q"
  unfolding does_def by metis

lemma does_make:
  assumes "disk_works fs"
  shows "does P (create_dir_all fs) (\<lambda>_ d. \<exists>d0. P d0 \<and> d = make_folder d0)"
  unfolding create_dir_all_def by (rule does_syscall [OF assms]) blast

lemma make_folder_there [simp]: "dk_folder (make_folder d) \<noteq> FolderMissing"
  by (simp add: make_folder_def)

lemma does_create:
  assumes "disk_works fs" "\<And>d. P d \<Longrightarrow> dk_folder d \<noteq> FolderMissing \<and> entry d n = None" "\<And>d. P d \<Longrightarrow> Q () (put_entry n (RegularFile [] False) d)"
  shows "does P (create_new fs n) Q"
  by (rule does_same [OF does_syscall [OF assms(1), where f = "put_entry n (RegularFile [] False)"
          and g = "\<lambda>_. put_entry n (RegularFile [] False)"]])
    (use assms(2,3) in \<open>auto simp: create_new_def\<close>)

lemma does_rename:
  assumes "disk_works fs" "\<And>d. P d \<Longrightarrow> entry d from \<noteq> None \<and> entry d to \<noteq> Some OtherEntry"
    "\<And>d. P d \<Longrightarrow> Q () (move_entry from to d)"
  shows "does P (rename_file fs from to) Q"
  by (rule does_same [OF does_syscall [OF assms(1), where f = "move_entry from to" and g = "\<lambda>_. move_entry from to"]])
    (auto simp: rename_file_def assms(2,3) dest: assms(2))

section \<open>A tidy home\<close>

text \<open>The temporary files are these, and no directory is in the way.\<close>

definition leftover :: "(string \<Rightarrow> dir_entry option) \<Rightarrow> 'd disk_scheme \<Rightarrow> bool" where
  "leftover E d \<longleftrightarrow> (\<forall>n. dotted n \<longrightarrow> entry d n = E n) \<and>
     entry d primary_name \<noteq> Some OtherEntry \<and> entry d backup_name \<noteq> Some OtherEntry"

lemma temp_names_differ: "temp_name primary_name u \<noteq> temp_name backup_name v"
  by (simp add: temp_name_def primary_name_def backup_name_def)

lemma leftover_entry: "leftover E d \<Longrightarrow> dotted n \<Longrightarrow> entry d n = E n"
  by (simp add: leftover_def)

lemma leftover_put: "leftover E d \<Longrightarrow> dotted n \<Longrightarrow> leftover (E(n := Some e)) (put_entry n e d)"
  by (auto simp: leftover_def)

lemma leftover_move:
  "leftover E d \<Longrightarrow> dotted tmp \<Longrightarrow> \<not> dotted n \<Longrightarrow> E tmp = Some (RegularFile c True) \<Longrightarrow>
   leftover (E(tmp := None)) (move_entry tmp n d)"
  by (auto simp: leftover_def move_entry_def)

lemma leftover_sync [simp]: "leftover E (sync_dir d) = leftover E d"
  by (simp add: leftover_def)

lemma leftover_make [simp]: "leftover E (make_folder d) = leftover E d"
  by (simp add: leftover_def)

lemma leftover_same: "leftover E d \<Longrightarrow> (\<And>n. entry d' n = entry d n) \<Longrightarrow> leftover E d'"
  by (simp add: leftover_def)

lemma stage_does:
  assumes "disk_works fs" "\<And>u. E (temp_name n u) = None"
  shows "does (leftover E) (stage_bytes_atomic_with_hook fs no_atomic_fault n bytes role)
    (\<lambda>tmp d. \<exists>u. tmp = temp_name n u \<and> leftover (E(tmp := Some (RegularFile bytes True))) d)"
  unfolding stage_bytes_atomic_with_hook_def Let_def
proof (rule does_bind [where R = "\<lambda>_ d. leftover E d \<and> dk_folder d \<noteq> FolderMissing"],
    rule does_mono [OF does_make [OF assms(1), where P = "leftover E"]], assumption, clarsimp,
    rule does_bind [where R = "\<lambda>_ d. leftover E d \<and> dk_folder d \<noteq> FolderMissing"], rule does_uuid, assumption, goal_cases)
  case (1 _ u)
  let ?tmp = "temp_name n u"
  have put: "leftover (E(?tmp := Some e)) (put_entry ?tmp e d)" if "leftover (E(?tmp := e')) d" for d e e'
    using leftover_put [OF that, of ?tmp e] by simp
  have first: "leftover (E(?tmp := Some e)) (put_entry ?tmp e d)" if "leftover E d" for d e
    using leftover_put [OF that temp_dotted] .
  have created: "does (\<lambda>d. leftover E d \<and> dk_folder d \<noteq> FolderMissing) (create_new fs ?tmp)
      (\<lambda>_. leftover (E(?tmp := Some (RegularFile [] False))))"
    by (rule does_create [OF assms(1)]) (auto simp: leftover_entry assms(2) intro: first)
  show ?case
    unfolding write_all_def sync_all_def
    by (rule does_bind [OF created],
        rule does_bind [where R = "\<lambda>_. leftover (E(?tmp := Some (RegularFile bytes False)))"],
        rule does_syscall [OF assms(1)], erule put,
        rule does_bind [where R = "\<lambda>_. leftover (E(?tmp := Some (RegularFile bytes False)))"], rule does_hook, assumption,
        rule does_bind [where R = "\<lambda>_. leftover (E(?tmp := Some (RegularFile bytes True)))"],
        rule does_syscall [OF assms(1)], erule put,
        rule does_bind [where R = "\<lambda>_. leftover (E(?tmp := Some (RegularFile bytes True)))"], rule does_hook, assumption,
        rule does_ret) blast
qed

lemma replace_does:
  assumes "disk_works fs" "dotted tmp" "n \<in> {primary_name, backup_name}" "E tmp = Some (RegularFile c True)"
  shows "does (leftover E) (replace_staged_atomic_durable_with_hook fs no_atomic_fault tmp n role)
    (\<lambda>_. leftover (E(tmp := None)))"
proof -
  have moved: "leftover (E(tmp := None)) (move_entry tmp n d)" if "leftover E d" for d :: "'b disk_scheme"
    using leftover_move [OF that assms(2) _ assms(4)] assms(3) by auto
  have ready: "entry d tmp \<noteq> None \<and> entry d n \<noteq> Some OtherEntry" if "leftover E d" for d :: "'b disk_scheme"
    using that assms by (auto simp: leftover_def)
  show ?thesis
    unfolding replace_staged_atomic_durable_with_hook_def
    by (rule does_bind [where R = "\<lambda>_. leftover E"], rule does_hook, assumption,
        rule does_bind [where R = "\<lambda>_. leftover (E(tmp := None))"], rule does_rename [OF assms(1)], erule ready, erule moved,
        (rule does_bind [where R = "\<lambda>_. leftover (E(tmp := None))"], rule does_hook, assumption)+,
        rule does_bind [where R = "\<lambda>_. leftover (E(tmp := None))"], rule does_quiet [OF assms(1)], assumption,
        rule does_bind [where R = "\<lambda>_. leftover (E(tmp := None))"], rule does_syscall [OF assms(1)], simp,
        rule does_hook, assumption)
qed

section \<open>A save that is acknowledged\<close>

lemma remove_owned_does:
  assumes "disk_works fs" "\<And>d. P d \<Longrightarrow> leftover Map.empty d"
  shows "does P (remove_owned fs file_name ns) (\<lambda>_. P)"
proof (induction ns)
  case Nil
  show ?case by (simp add: does_ret)
next
  case (Cons n ns)
  have one: "does P (if owned file_name n then fx_bind (quiet_call fs) (\<lambda>_ (d, w). case entry d n of
        Some (RegularFile c synced) \<Rightarrow> remove_file fs n (d, w) | _ \<Rightarrow> (Inr (), (d, w))) else fx_ret ()) (\<lambda>_. P)"
  proof (cases "owned file_name n")
    case True
    show ?thesis
      unfolding if_P [OF True]
      by (rule does_bind [where R = "\<lambda>_. P"], rule does_quiet [OF assms(1)], assumption, rule doesI)
        (simp add: leftover_entry [OF assms(2) owned_dotted [OF True]])
  next
    case False
    then show ?thesis by (simp add: does_ret)
  qed
  show ?case
    unfolding remove_owned.simps
    by (rule does_bind [where R = "\<lambda>_. P"], rule does_quiet [OF assms(1)], assumption,
        rule does_bind [where R = "\<lambda>_. P"], rule one, rule Cons.IH)
qed

lemma cleanup_does:
  assumes "disk_works fs" "\<And>d. P d \<Longrightarrow> leftover Map.empty d"
  shows "does P (fx_io (cleanup_atomic_temps fs file_name)) (\<lambda>_. P)"
proof -
  have "does P (\<lambda>(d, w). remove_owned fs file_name (map fst (dk_entries d)) (d, w)) (\<lambda>_. P)"
    by (rule doesI) (use doesD [OF remove_owned_does [OF assms]] in simp)
  then show ?thesis
    unfolding cleanup_atomic_temps_def by (rule does_io [OF does_bind [OF does_quiet [OF assms(1)], rotated]])
qed

lemma classify_does:
  assumes "disk_works (we_fs env)" "\<And>d. P d \<Longrightarrow> view d = V" "\<And>d. P d \<Longrightarrow> entry d n \<noteq> Some OtherEntry" "\<not> dotted n"
  shows "does P (classify_slot env n) (\<lambda>x d. P d \<and> x = classify_content (we_codec env) (shown (fst V) n))"
proof (rule doesI)
  fix d w assume P: "P d"
  obtain w' where "fs_answer (we_fs env) w = (Works, w')"
    using assms(1) unfolding disk_works_def by (metis prod.collapse)
  then have quiet: "quiet_call (we_fs env) (d, w) = (Inr (), (d, w'))"
    by (simp add: quiet_call_def syscall_def)
  have slot: "fst (fst V n) = entry d n" using assms(2) [OF P] assms(4) by (auto simp: view_def)
  show "\<exists>x d' w'. classify_slot env n (d, w) = (Inr x, (d', w')) \<and> P d' \<and>
      x = classify_content (we_codec env) (shown (fst V) n)"
    using P assms(3) [OF P]
    by (cases "entry d n") (auto simp: classify_slot_def read_file_def fx_bind_def quiet shown_def content_def slot
        classify_content_def split: dir_entry.splits)
qed

lemma resolve_does:
  assumes works: "disk_works (we_fs env)" and R: "resolves (we_codec env) F = Inr R"
  shows "does (\<lambda>d. home_at F l d \<and> leftover Map.empty d) (resolve_state env)
    (\<lambda>x d. home_at F l d \<and> leftover Map.empty d \<and> x = R)"
proof -
  let ?P = "\<lambda>d. home_at F l d \<and> leftover Map.empty d"
  let ?b = "classify_content (we_codec env) (shown F backup_name)"
  have clean: "does ?P (fx_io (cleanup_atomic_temps (we_fs env) n)) (\<lambda>_. ?P)" for n
    by (rule cleanup_does [OF works]) simp
  have read: "does ?P (classify_slot env n) (\<lambda>x d. ?P d \<and> x = classify_content (we_codec env) (shown F n))"
    if "n \<in> {primary_name, backup_name}" for n
    using classify_does [OF works, of ?P "(F, \<lparr>ss_ledgers = l\<rparr>)" n] that by (auto simp: leftover_def)
  have answer: "does ?P (fx_ret x) (\<lambda>x d. home_at F l d \<and> leftover Map.empty d \<and> x = y)" if "x = y" for x y
    by (rule does_ret) (simp add: that)
  have second: "does ?P (fx_bind (classify_slot env backup_name) f) (\<lambda>x d. home_at F l d \<and> leftover Map.empty d \<and> x = y)"
    if "f ?b = fx_ret y" for f y
    by (rule does_bind [OF read], simp, unfold does_guard, rule impI, erule ssubst, unfold that, rule answer) simp
  have default: "(\<lambda>s. (Inr y, s)) = fx_ret y" for y by (simp add: fx_ret_def fun_eq_iff)
  show ?thesis
    unfolding resolve_state_def
  proof (rule does_bind [OF clean], rule does_bind [OF clean], rule does_bind [OF read], simp, unfold does_guard, rule impI)
    fix primary assume p: "primary = classify_content (we_codec env) (shown F primary_name)"
    show "does ?P (case primary of
       SlotFuture \<Rightarrow> fx_ret (ResolvedFuture future_primary_notice)
     | SlotValid doc bytes token \<Rightarrow>
         fx_bind (classify_slot env backup_name) (\<lambda>backup.
         if backup = SlotFuture then fx_ret (ResolvedFuture future_backup_notice)
         else fx_ret (ResolvedV1 PrimarySource doc token None (Some bytes)))
     | _ \<Rightarrow>
         fx_bind (classify_slot env backup_name) (\<lambda>backup.
         case backup of
           SlotFuture \<Rightarrow> fx_ret (ResolvedFuture future_backup_notice)
         | SlotValid doc _ token \<Rightarrow> fx_ret (ResolvedV1 BackupSource doc token
             (Some ''Wardian recovered the workbench from its last-known-good backup.'') None)
         | _ \<Rightarrow> (\<lambda>s. (resolve_default (we_codec env) primary backup, s))))
      (\<lambda>x d. home_at F l d \<and> leftover Map.empty d \<and> x = R)"
      using R [unfolded resolves_def resolve_slots_def Let_def p [symmetric]]
      by (cases primary; cases ?b) (auto simp only: slot_state.case slot_state.distinct sum.inject simp_thms default if_True if_False
          intro!: answer second)
  qed
qed

lemma persist_does:
  assumes works: "disk_works (we_fs env)"
  shows "does (leftover Map.empty) (persist_bytes env R bytes) (\<lambda>_ _. True)"
proof -
  let ?E = "\<lambda>tmp. Map.empty(tmp := Some (RegularFile bytes True))"
  have fresh: "?E (temp_name primary_name u) (temp_name backup_name v) = None" for u v
    using temp_names_differ [of u v] by simp
  have backup: "does (leftover (?E (temp_name primary_name u)))
      (fx_io (write_bytes_atomic_durable_with_hook (we_fs env) no_atomic_fault backup_name c BackupRole))
      (\<lambda>_. leftover (?E (temp_name primary_name u)))" for u c
    unfolding write_bytes_atomic_durable_with_hook_def
  proof (rule does_io, rule does_bind [OF stage_does [where E = "?E (temp_name primary_name u)" and n = backup_name, OF works fresh]],
      rule doesI)
    fix tmp d w assume "\<exists>v. tmp = temp_name backup_name v \<and>
      leftover ((?E (temp_name primary_name u))(tmp := Some (RegularFile c True))) d"
    then obtain v where tmp: "tmp = temp_name backup_name v"
      and d: "leftover ((?E (temp_name primary_name u))(tmp := Some (RegularFile c True))) d" by blast
    let ?m = "replace_staged_atomic_durable_with_hook (we_fs env) no_atomic_fault tmp backup_name BackupRole"
    have step: "does (leftover ((?E (temp_name primary_name u))(tmp := Some (RegularFile c True)))) ?m
        (\<lambda>_. leftover (((?E (temp_name primary_name u))(tmp := Some (RegularFile c True)))(tmp := None)))"
      by (rule replace_does [OF works]) (simp_all add: tmp)
    have undone: "((?E (temp_name primary_name u))(tmp := Some (RegularFile c True)))(tmp := None) = ?E (temp_name primary_name u)"
      using fresh [of u v] by (auto simp: tmp fun_eq_iff)
    show "\<exists>x d' w'. ?m (d, w) = (Inr x, (d', w')) \<and> leftover (?E (temp_name primary_name u)) d'"
      by (rule doesD [OF step [unfolded undone] d])
  qed
  have primary: "does (leftover (?E (temp_name primary_name u)))
      (fx_io (replace_staged_atomic_durable_with_hook (we_fs env) no_atomic_fault (temp_name primary_name u) primary_name PrimaryRole))
      (\<lambda>_ _. True)" for u
    by (rule does_io, rule does_mono [OF replace_does [OF works]]) auto
  show ?thesis
    unfolding persist_bytes_def persist_bytes_with_hook_def
  proof (rule does_bind [OF does_io [OF stage_does [where E = Map.empty, OF works]]], simp, rule doesI)
    fix tmp d w assume "\<exists>u. tmp = temp_name primary_name u \<and> leftover (?E tmp) d"
    then obtain u where tmp: "tmp = temp_name primary_name u" and d: "leftover (?E (temp_name primary_name u)) d" by blast
    have "does (leftover (?E tmp)) (fx_bind (case R of
         ResolvedV1 _ _ _ _ (Some current) \<Rightarrow>
           fx_io (write_bytes_atomic_durable_with_hook (we_fs env) no_atomic_fault backup_name current BackupRole)
       | _ \<Rightarrow> fx_ret ()) (\<lambda>_.
       fx_io (replace_staged_atomic_durable_with_hook (we_fs env) no_atomic_fault tmp primary_name PrimaryRole)))
       (\<lambda>_ _. True)"
      unfolding tmp
      by (rule does_bind [OF _ primary], cases R)
        (auto simp: backup does_ret split: option.split)
    from doesD [OF this, of d] d tmp
    show "\<exists>x d' w'. fx_bind (case R of
         ResolvedV1 _ _ _ _ (Some current) \<Rightarrow>
           fx_io (write_bytes_atomic_durable_with_hook (we_fs env) no_atomic_fault backup_name current BackupRole)
       | _ \<Rightarrow> fx_ret ()) (\<lambda>_.
       fx_io (replace_staged_atomic_durable_with_hook (we_fs env) no_atomic_fault tmp primary_name PrimaryRole)) (d, w) =
       (Inr x, (d', w')) \<and> True" by simp
  qed
qed

lemma does_ends: "does P m Q \<Longrightarrow> ends P m Q' \<Longrightarrow> does P m (\<lambda>x d. Q x d \<and> Q' (Inr x) d)"
  unfolding does_def ends_def by meson

lemma remember_does:
  "does (\<lambda>d. ledgers_ok (ss_ledgers d)) (saved_and_remembered env i fingerprint revision token) (\<lambda>_ _. True)"
proof (rule doesI)
  fix d :: session and w assume ok: "ledgers_ok (ss_ledgers d)"
  let ?e = "save_entry fingerprint (saved_result revision token i)"
  from remember_ok [OF ok] obtain l' where "remember_request (we_home env) i ?e (ss_ledgers d) = Some l'" .
  then show "\<exists>x d' w'. saved_and_remembered env i fingerprint revision token (d, w) = (Inr x, (d', w')) \<and> True"
    by (simp add: saved_and_remembered_def Let_def save_entry_def saved_result_def remember_def fx_bind_def fx_ret_def)
qed

lemma save_looked_up_does:
  assumes works: "disk_works (we_fs env)" and l: "ledgers_ok l" and R: "R = ResolvedV1 source doc token notice current"
  shows "does (\<lambda>d. home_at F l d \<and> leftover Map.empty d) (save_looked_up env q R source doc token found) (\<lambda>_ _. True)"
proof -
  let ?P = "\<lambda>d. home_at F l d \<and> leftover Map.empty d"
  have remember: "does ?P (saved_and_remembered env i fp rev t) (\<lambda>_ _. True)" for i fp rev t
    by (rule does_mono [OF remember_does]) (auto simp: l)
  have "does ?P (persist_bytes env R bytes) (\<lambda>_ _. True)" for bytes
    by (rule does_mono [OF persist_does [OF works]]) auto
  moreover have "ends ?P (persist_bytes env R bytes) (\<lambda>r d. ledgers_ok (ss_ledgers d))" for bytes
    unfolding persist_bytes_def by (rule ends_mono [OF persist_ends [where F = F and m = "\<lparr>ss_ledgers = l\<rparr>"]]) (auto simp: l)
  ultimately have "does ?P (persist_bytes env R bytes) (\<lambda>x d. True \<and> ledgers_ok (ss_ledgers d))" for bytes
    by (rule does_ends)
  then have persist: "does ?P (fx_bind (persist_bytes env R bytes) (\<lambda>_. saved_and_remembered env i fp rev t)) (\<lambda>_ _. True)"
    for bytes i fp rev t
    by (rule does_bind) (simp add: remember_does)
  show ?thesis
    unfolding save_looked_up_def Let_def
    by (cases found) (simp_all add: remember persist does_ret split: option.split)
qed

lemma save_does:
  assumes works: "disk_works (we_fs env)" and l: "ledgers_ok l"
    and R: "resolves (we_codec env) F = Inr (ResolvedV1 source doc token notice current)"
    and ok: "validate_doc (we_codec env) (sq_document q) = Inr ()"
  shows "does (\<lambda>d. home_at F l d \<and> leftover Map.empty d) (save_workbench_locked env q) (\<lambda>_ _. True)"
proof -
  obtain found l1 where look: "find_ledger_entry (we_home env) (sq_request_id q) l = (found, l1)" by fastforce
  have l1: "ledgers_ok l1" using find_ok [OF l, of "we_home env" "sq_request_id q"] by (simp add: look)
  have lookup: "does (\<lambda>d. home_at F l d \<and> leftover Map.empty d) (ledger_entry env (sq_request_id q))
      (\<lambda>x d. home_at F l1 d \<and> leftover Map.empty d)"
    by (rule doesI) (auto simp: ledger_entry_def look home_at_update leftover_def entry_def)
  let ?R = "ResolvedV1 source doc token notice current"
  show ?thesis
    unfolding save_workbench_locked_def
  proof (rule does_bind [OF resolve_does [OF works R]], rule doesI)
    fix x d w assume x: "home_at F l d \<and> leftover Map.empty d \<and> x = ?R"
    have "does (\<lambda>d. home_at F l d \<and> leftover Map.empty d) (fx_bind (ledger_entry env (sq_request_id q))
        (save_looked_up env q ?R source doc token)) (\<lambda>_ _. True)"
      by (rule does_bind [OF lookup save_looked_up_does [OF works l1 refl]])
    from doesD [OF this, of d w] x show "\<exists>y d' w'. (case x of
         ResolvedFuture _ \<Rightarrow> fx_ret (save_result_for_resolved x FutureSchemaOutcome (sq_request_id q))
       | ResolvedV1 source durable_document token _ _ \<Rightarrow> (case validate_doc (we_codec env) (sq_document q) of
            Inl errs \<Rightarrow> fx_fail (InvalidDocument errs)
          | Inr _ \<Rightarrow> fx_bind (ledger_entry env (sq_request_id q))
              (save_looked_up env q x source durable_document token))) (d, w) = (Inr y, (d', w')) \<and> True"
      by (simp add: ok)
  qed
qed

lemma successor_differs: "(x :: u64) + 1 \<noteq> x"
  by simp

lemma fresh_saving:
  assumes R: "resolves (we_codec env) F = Inr (ResolvedV1 source doc token notice current)"
    and unknown: "looked_up (we_home env) (sq_request_id q) l = None"
    and cas: "sq_expected_revision q = wd_revision doc" "sq_expected_token q = token"
      "sq_expected_revision q < MAX_SAFE_INTEGER" "wd_revision (sq_document q) = sq_expected_revision q + 1"
    and save: "saving env q F l (Inr res) G l'"
  shows "res = saved_result (wd_revision (sq_document q)) (token_of (we_codec env) (sq_document q)) (sq_request_id q) \<and>
    G = replaced current (wc_to_vec (we_codec env) (sq_document q)) F"
  using save
proof (cases rule: saving_cases)
  case (decided source' doc' token' notice' current' found l1)
  with R have same: "source' = source" "doc' = doc" "token' = token" "current' = current" by auto
  have found: "found = None" using decided(3) unknown by simp
  have "wd_revision (sq_document q) \<noteq> wd_revision doc" using cas successor_differs by metis
  then have "decide_save (we_codec env) q (ResolvedV1 source doc token notice' current) source doc token None =
      (let x = saved_result (wd_revision (sq_document q)) (token_of (we_codec env) (sq_document q)) (sq_request_id q)
       in Persists (wc_to_vec (we_codec env) (sq_document q)) x
         (save_entry (fingerprint_of (wd_revision (sq_document q)) (token_of (we_codec env) (sq_document q))) x))"
    using cas by (simp add: decide_save_def Let_def token_of_def)
  then show ?thesis using decided(4) unfolding same found by (auto simp: Let_def dest: remembered_answer)
qed (use R in auto)

lemma acknowledged_run:
  assumes "disk_works (we_fs env)" "ledgers_ok (ss_ledgers d)" "leftover Map.empty d"
    and "resolves (we_codec env) (fst (view d)) = Inr (ResolvedV1 source doc token notice current)"
    and "validate_doc (we_codec env) (sq_document q) = Inr ()"
    and "looked_up (we_home env) (sq_request_id q) (ss_ledgers d) = None"
    and "sq_expected_revision q = wd_revision doc" "sq_expected_token q = token"
    and "sq_expected_revision q < MAX_SAFE_INTEGER" "wd_revision (sq_document q) = sq_expected_revision q + 1"
  obtains d' w' where "save_workbench_locked env q (d, w) =
      (Inr (saved_result (wd_revision (sq_document q)) (token_of (we_codec env) (sq_document q)) (sq_request_id q)), (d', w'))"
    "fst (view d') = replaced current (wc_to_vec (we_codec env) (sq_document q)) (fst (view d))"
proof -
  have "home_at (fst (view d)) (ss_ledgers d) d \<and> leftover Map.empty d" using home_at_self assms(3) by blast
  from doesD [OF save_does [OF assms(1,2,4,5)] this] obtain res d' w' where
    run: "save_workbench_locked env q (d, w) = (Inr res, (d', w'))" by blast
  from fresh_saving [OF assms(4,6-10) save_run [OF run]] that run show thesis by blast
qed

section \<open>A reset that is acknowledged\<close>

lemma reset_remember_does:
  "does (\<lambda>d. ledgers_ok (ss_ledgers d)) (reset_and_remembered env i fingerprint doc token) (\<lambda>_ _. True)"
proof (rule doesI)
  fix d :: session and w assume ok: "ledgers_ok (ss_ledgers d)"
  let ?e = "reset_entry fingerprint (reset_done doc token i)"
  from remember_ok [OF ok] obtain l' where "remember_request (we_home env) i ?e (ss_ledgers d) = Some l'" .
  then show "\<exists>x d' w'. reset_and_remembered env i fingerprint doc token (d, w) = (Inr x, (d', w')) \<and> True"
    by (simp add: reset_and_remembered_def Let_def reset_entry_def reset_done_def remember_def fx_bind_def fx_ret_def)
qed

lemma write_default_does:
  assumes works: "disk_works (we_fs env)" and l: "ledgers_ok l"
    and valid: "\<And>w. validate_doc (we_codec env) (fresh_default (rq_expected_revision q) (clock env w)) = Inr ()"
  shows "does (\<lambda>d. home_at F l d \<and> leftover Map.empty d) (write_default env q fingerprint R) (\<lambda>_ _. True)"
proof -
  let ?P = "\<lambda>d. home_at F l d \<and> leftover Map.empty d"
  have "does ?P (persist_bytes env R bytes) (\<lambda>_ _. True)" for bytes
    by (rule does_mono [OF persist_does [OF works]]) auto
  moreover have "ends ?P (persist_bytes env R bytes) (\<lambda>r d. ledgers_ok (ss_ledgers d))" for bytes
    unfolding persist_bytes_def by (rule ends_mono [OF persist_ends [where F = F and m = "\<lparr>ss_ledgers = l\<rparr>"]]) (auto simp: l)
  ultimately have "does ?P (persist_bytes env R bytes) (\<lambda>x d. True \<and> ledgers_ok (ss_ledgers d))" for bytes
    by (rule does_ends)
  then have persist: "does ?P (fx_bind (persist_bytes env R bytes) (\<lambda>_. reset_and_remembered env i fp doc t)) (\<lambda>_ _. True)"
    for bytes i fp doc t
    by (rule does_bind) (simp add: reset_remember_does)
  have time: "does ?P (read_clock env) (\<lambda>now d. ?P d \<and> now \<in> range (clock env))"
    by (rule doesI) (auto simp: read_clock_def clock_def split: prod.split, metis fst_conv rangeI)
  show ?thesis
    unfolding write_default_def
  proof (rule does_bind [OF time], unfold does_guard, rule impI, elim rangeE)
    fix now w assume now: "now = clock env w"
    show "does ?P (let doc = default_document\<lparr>wd_revision := rq_expected_revision q + 1, wd_saved_at := now\<rparr>
       in case validate_doc (we_codec env) doc of
            Inl errs \<Rightarrow> fx_fail (InvalidDocument errs)
          | Inr _ \<Rightarrow>
              let bytes = wc_to_vec (we_codec env) doc; token = token_for (we_codec env) bytes
               in fx_bind (persist_bytes env R bytes) (\<lambda>_.
                    reset_and_remembered env (rq_request_id q) fingerprint doc token)) (\<lambda>_ _. True)"
      using valid [of w] persist by (simp add: Let_def fresh_default_def now)
  qed
qed

lemma reset_does:
  assumes works: "disk_works (we_fs env)" and l: "ledgers_ok l"
    and valid: "\<And>w. validate_doc (we_codec env) (fresh_default (rq_expected_revision q) (clock env w)) = Inr ()"
    and R: "resolves (we_codec env) F = Inr R"
  shows "does (\<lambda>d. home_at F l d \<and> leftover Map.empty d) (reset_workbench_locked env q) (\<lambda>_ _. True)"
proof -
  obtain found l1 where look: "find_ledger_entry (we_home env) (rq_request_id q) l = (found, l1)" by fastforce
  have l1: "ledgers_ok l1" using find_ok [OF l, of "we_home env" "rq_request_id q"] by (simp add: look)
  let ?P = "\<lambda>l d. home_at F l d \<and> leftover Map.empty d"
  have lookup: "does (?P l) (ledger_entry env (rq_request_id q)) (\<lambda>x. ?P l1)"
    by (rule doesI) (auto simp: ledger_entry_def look home_at_update leftover_def entry_def)
  have remember: "does (?P l1) (reset_and_remembered env i fp doc t) (\<lambda>_ _. True)" for i fp doc t
    by (rule does_mono [OF reset_remember_does]) (auto simp: l1)
  have read: "does (?P l1) (classify_slot env backup_name) (\<lambda>x. ?P l1)"
    by (rule does_mono [OF classify_does [OF works, of "?P l1" "(F, \<lparr>ss_ledgers = l1\<rparr>)" backup_name]]) (auto simp: leftover_def)
  have retry: "does (?P l1) (reset_retry_token_matches env rev t) (\<lambda>x. ?P l1)" for rev t
    unfolding reset_retry_token_matches_def Let_def
    by (rule does_bind [OF read]) (auto intro!: does_ret split: slot_state.split)
  note default = write_default_does [OF works l1 valid]
  have looked: "does (?P l1) (reset_looked_up env q R source doc token found) (\<lambda>_ _. True)" for source doc token found R
    unfolding reset_looked_up_def Let_def
    by (cases found) (auto intro!: does_ret does_bind [OF retry] remember default split: option.split)
  have after: "does (?P l) (fx_bind (ledger_entry env (rq_request_id q)) (reset_looked_up env q R source doc token)) (\<lambda>_ _. True)"
    for source doc token
    by (rule does_bind [OF lookup looked])
  show ?thesis
    unfolding reset_workbench_locked_def
    by (rule does_bind [OF resolve_does [OF works R]], rule doesI)
      (use doesD [OF after] in \<open>auto simp: fx_ret_def split: resolved_state.split\<close>)
qed

end
