(* ===== verification/Workbench_Theorems.thy ===== *)
theory Workbench_Theorems
  imports Workbench_Progress
begin

text \<open>
  The properties of the saved layout, each with a witness on a concrete home whose codec
  prints the revision of a document.
\<close>

section \<open>A concrete home\<close>

definition plain_codec :: wb_io where
  "plain_codec =
     \<lparr>wc_to_vec = (\<lambda>doc. show_nat (unat (wd_revision doc))), wc_value_to_vec = (\<lambda>_. []),
      wc_date = (\<lambda>_ _ _. True), wc_time = (\<lambda>_ _ _ _. True),
      wi_tokens = (\<lambda>bytes. if list_all ascii_digit bytes then Some (TokStr bytes) else None),
      wi_from_slice = (\<lambda>bytes. Some (JObject [(''revision'', JNumber (PosInt (word_of_nat (decimal bytes)))),
        (''schema_version'', JNumber (PosInt (if length bytes < 3 then 1 else 2)))])),
      wi_from_value = (\<lambda>v. map_option (\<lambda>n. default_document\<lparr>wd_revision := n\<rparr>)
        (Option.bind (jget ''revision'' v) as_u64)),
      wi_digest = (\<lambda>bytes. CHR ''#'' # bytes)\<rparr>"

abbreviation numbered :: "u64 \<Rightarrow> wb_doc" where
  "numbered n \<equiv> default_document\<lparr>wd_revision := n\<rparr>"

lemma plain_time: "is_canonical_timestamp plain_codec (wd_saved_at default_document)" by code_simp

lemma numbered_ok:
  "n \<le> MAX_SAFE_INTEGER \<Longrightarrow> length (show_nat (unat n)) \<le> MAX_WORKBENCH_DOCUMENT_BYTES \<Longrightarrow>
   doc_ok plain_codec (numbered n)"
  using plain_time
  by (simp add: doc_ok_def default_document_def tree_ok_def tabs_def group_ok_def width_ok_def
     MAX_RECENTLY_CLOSED_SURFACES_def MAX_WORKBENCH_TREE_DEPTH_def plain_codec_def)

lemma plain_bytes: "wc_to_vec plain_codec (numbered 1) = ''1''" "wc_to_vec plain_codec (numbered 2) = ''2''"
  by code_simp+

lemma plain_valid:
  assumes "n \<in> {1, 2}"
  shows "validate_doc plain_codec (numbered n) = Inr ()"
proof -
  have wf: "bt_wf (wd_groups (numbered n))" "bt_wf (wd_surfaces (numbered n))"
    by (simp_all add: default_document_def bt_wf_def)
  have "n \<le> MAX_SAFE_INTEGER" using assms by (auto simp: MAX_SAFE_INTEGER_def)
  moreover have "length (wc_to_vec plain_codec (numbered n)) = 1" using assms plain_bytes by auto
  then have "length (show_nat (unat n)) \<le> MAX_WORKBENCH_DOCUMENT_BYTES"
    by (simp add: MAX_WORKBENCH_DOCUMENT_BYTES_def plain_codec_def)
  ultimately have "doc_ok plain_codec (numbered n)" by (rule numbered_ok)
  then show ?thesis using graph_errors_ok [OF wf, of plain_codec] by (auto simp: validate_doc_def Let_def)
qed

lemma plain_token: "token_for plain_codec bytes = CHR ''#'' # bytes"
  by (simp add: token_for_def plain_codec_def)

lemma plain_reads: "reads_back plain_codec (numbered 1)" "reads_back plain_codec (numbered 2)" by code_simp+

lemmas plain_stored = reads_back_stored [OF plain_reads(2)]

lemma plain_classify: "classify_bytes plain_codec ''1'' = SlotValid (numbered 1) ''1'' ''#1''"
  using reads_back_classify [OF plain_reads(1) plain_valid] by (simp add: plain_bytes(1) plain_token)

definition good_fs :: "unit fs_env" where
  "good_fs = \<lparr>fs_answer = (\<lambda>w. (Works, w)), fs_uuid = (\<lambda>w. (''0'', w))\<rparr>"

definition plain_env :: "unit wb_env" where
  "plain_env = \<lparr>we_fs = good_fs, we_codec = plain_codec,
     we_now = (\<lambda>w. (''1970-01-01T00:00:00.000Z'', w)), we_home = ''home''\<rparr>"

definition plain_home :: "string \<Rightarrow> session" where
  "plain_home bytes = \<lparr>dk_folder = FolderDurable, dk_entries = [(primary_name, RegularFile bytes True)],
     dk_survives = (\<lambda>n. if n = primary_name then [Whole bytes] else [Absent]),
     ss_ledgers = \<lparr>lg_homes = [], lg_order = []\<rparr>\<rparr>"

text \<open>From revision 1 to revision 2.\<close>

definition plain_save :: save_request where
  "plain_save = \<lparr>sq_document = numbered 2, sq_expected_revision = 1, sq_expected_token = ''#1'',
     sq_request_id = ''request''\<rparr>"

lemma plain_parts [simp]:
  "we_fs plain_env = good_fs" "we_codec plain_env = plain_codec" "we_home plain_env = ''home''"
  "sq_document plain_save = numbered 2" "sq_expected_revision plain_save = 1"
  "sq_expected_token plain_save = ''#1''" "sq_request_id plain_save = ''request''"
  "token_of plain_codec (numbered 2) = ''#2''"
  by (simp_all add: plain_env_def plain_save_def token_of_def plain_bytes plain_token)

lemma plain_works: "disk_works good_fs"
  by (simp add: disk_works_def good_fs_def)

lemma plain_quiescent: "quiescent (fst (view (plain_home bytes)))"
  by (simp add: quiescent_def slot_quiescent_def plain_home_def view_def entry_def)

lemma plain_folder [simp]: "folder_durable (plain_home bytes)"
  by (simp add: plain_home_def)

lemma plain_tidy: "leftover Map.empty (plain_home bytes)"
  using slot_names(1) by (auto simp: leftover_def plain_home_def entry_def)

lemma plain_ledgers: "ledgers_ok (ss_ledgers (plain_home bytes))"
  by (simp add: ledgers_ok_def keyed_def plain_home_def)

lemma plain_unknown: "looked_up home i (ss_ledgers (plain_home bytes)) = None"
  by (simp add: find_ledger_entry_def plain_home_def)

lemma plain_resolves: "resolves plain_codec (fst (view (plain_home ''1''))) =
    Inr (ResolvedV1 PrimarySource (numbered 1) ''#1'' None (Some ''1''))"
  by (simp add: resolves_def resolve_slots_def shown_def content_def classify_content_def plain_classify view_def
      plain_home_def entry_def)

lemma plain_run:
  obtains d where "save_workbench_locked plain_env plain_save (plain_home ''1'', ()) =
      (Inr (saved_result 2 ''#2'' ''request''), (d, ()))"
    "fst (view d) = replaced (Some ''1'') ''2'' (fst (view (plain_home ''1'')))"
proof (rule acknowledged_run [of plain_env "plain_home ''1''" PrimarySource "numbered 1" "''#1''" None "Some ''1''" plain_save "()"])
  fix d w assume "save_workbench_locked plain_env plain_save (plain_home ''1'', ()) =
      (Inr (saved_result (wd_revision (sq_document plain_save)) (token_of (we_codec plain_env) (sq_document plain_save))
        (sq_request_id plain_save)), (d, w))"
    "fst (view d) = replaced (Some ''1'') (wc_to_vec (we_codec plain_env) (sq_document plain_save)) (fst (view (plain_home ''1'')))"
  then show thesis using that [of d] by (simp add: plain_bytes)
qed (simp_all add: plain_works plain_ledgers plain_tidy plain_resolves plain_valid plain_unknown MAX_SAFE_INTEGER_def)

text \<open>The home after the save, with the ledger of a process that was restarted.\<close>

definition saved_home :: session where
  "saved_home = \<lparr>dk_folder = FolderDurable, dk_entries = [(primary_name, RegularFile ''2'' True), (backup_name, RegularFile ''1'' True)],
     dk_survives = (\<lambda>n. if n = primary_name then [Whole ''2''] else if n = backup_name then [Whole ''1''] else [Absent]),
     ss_ledgers = \<lparr>lg_homes = [], lg_order = []\<rparr>\<rparr>"

lemma saved_home_ok: "leftover Map.empty saved_home" "ledgers_ok (ss_ledgers saved_home)"
  "looked_up home i (ss_ledgers saved_home) = None"
  using slot_names by (auto simp: leftover_def saved_home_def entry_def ledgers_ok_def keyed_def find_ledger_entry_def)

lemma saved_home_files: "fst (view saved_home) = replaced (Some ''1'') ''2'' (fst (view (plain_home ''1'')))"
  by (auto simp: fun_eq_iff replaced_def backed_up_def settled_def wrote_def view_def saved_home_def plain_home_def entry_def)

lemma saved_home_resolves: "resolves plain_codec (fst (view saved_home)) =
    Inr (ResolvedV1 PrimarySource (numbered 2) ''#2'' None (Some ''2''))"
proof -
  have "classify_bytes plain_codec ''2'' = SlotValid (numbered 2) ''2'' ''#2''"
    using reads_back_classify [OF plain_reads(2) plain_valid] by (simp add: plain_bytes(2) plain_token)
  from replaced_resolves [OF plain_resolves this] show ?thesis by (simp add: saved_home_files)
qed

lemma saved_home_run:
  obtains res d where "save_workbench_locked plain_env plain_save (saved_home, ()) = (Inr res, (d, ()))"
proof -
  have "does (\<lambda>d. home_at (fst (view saved_home)) (ss_ledgers saved_home) d \<and> leftover Map.empty d)
      (save_workbench_locked plain_env plain_save) (\<lambda>_ _. True)"
    by (rule save_does) (simp_all add: plain_works saved_home_ok saved_home_resolves plain_valid)
  from doesD [OF this] home_at_self [of saved_home] saved_home_ok(1) that show thesis by (metis old.unit.exhaust)
qed

definition plain_reset :: reset_request where
  "plain_reset = \<lparr>rq_expected_revision = 1, rq_expected_token = ''#1'', rq_request_id = ''reset''\<rparr>"

lemma plain_fresh: "fresh_default 1 (clock plain_env w) = numbered 2"
  by (simp add: fresh_default_def clock_def plain_env_def default_document_def)

lemma plain_reset_parts [simp]: "rq_expected_revision plain_reset = 1" "rq_expected_token plain_reset = ''#1''"
  "rq_request_id plain_reset = ''reset''"
  by (simp_all add: plain_reset_def)

lemma plain_reset_does:
  assumes "leftover Map.empty d" "ledgers_ok (ss_ledgers d)" "resolves plain_codec (fst (view d)) = Inr R"
  obtains res d' where "reset_workbench_locked plain_env plain_reset (d, ()) = (Inr res, (d', ()))"
proof -
  have "does (\<lambda>e. home_at (fst (view d)) (ss_ledgers d) e \<and> leftover Map.empty e)
      (reset_workbench_locked plain_env plain_reset) (\<lambda>_ _. True)"
    by (rule reset_does) (simp_all add: plain_works assms plain_fresh plain_valid)
  from doesD [OF this] home_at_self [of d] assms(1) that show thesis by (metis old.unit.exhaust)
qed

lemma plain_reset_run:
  obtains d where "reset_workbench_locked plain_env plain_reset (plain_home ''1'', ()) =
      (Inr (reset_done (numbered 2) ''#2'' ''reset''), (d, ()))"
    "fst (view d) = replaced (Some ''1'') ''2'' (fst (view (plain_home ''1'')))"
proof -
  obtain res d where run: "reset_workbench_locked plain_env plain_reset (plain_home ''1'', ()) = (Inr res, (d, ()))"
    by (rule plain_reset_does [OF plain_tidy plain_ledgers plain_resolves])
  from reset_run [OF run] show thesis
  proof (cases rule: resetting_cases)
    case (decided source doc token notice current found l1 w backup decision)
    then have "decide_reset plain_codec plain_reset backup (clock plain_env w)
        (ResolvedV1 PrimarySource (numbered 1) ''#1'' None (Some ''1'')) PrimarySource (numbered 1) ''#1'' None = decision"
      using plain_unknown [of "we_home plain_env" "rq_request_id plain_reset" "''1''"] by (auto simp: plain_resolves)
    then have "\<exists>e. decision = Persists ''2'' (reset_done (numbered 2) ''#2'' ''reset'') e"
      by (auto simp: decide_reset_def Let_def already_reset_def plain_fresh plain_bytes plain_token MAX_SAFE_INTEGER_def)
    then show thesis using decided(1,5) run that by (auto simp: plain_resolves dest!: remembered_answer)
  qed (auto simp: plain_resolves)
qed

section \<open>The properties\<close>

text \<open>
  C24. The holder of the current revision is served. When every system call works, no temporary
  file is in the way and the request is new, a valid document whose revision follows the
  current one, with the current token, is acknowledged with its own revision and token, and the
  home then resolves, from its primary file, to what the printed document reads back as, under
  that token. Serde is asked for nothing else than that it reads the document back with its
  revision (\<open>stored_as\<close>): a ratio of many digits may come back as a neighbouring number.
\<close>

theorem save_is_acknowledged:
  assumes "disk_works (we_fs env)" "ledgers_ok (ss_ledgers d)" "leftover Map.empty d"
    and "resolves (we_codec env) (fst (view d)) = Inr (ResolvedV1 source doc token notice current)"
    and "validate_doc (we_codec env) (sq_document q) = Inr ()" "stored_as (we_codec env) (sq_document q) doc'"
    and "looked_up (we_home env) (sq_request_id q) (ss_ledgers d) = None"
    and "sq_expected_revision q = wd_revision doc" "sq_expected_token q = token"
    and "sq_expected_revision q < MAX_SAFE_INTEGER" "wd_revision (sq_document q) = sq_expected_revision q + 1"
  shows "\<exists>d' w' bytes. save_workbench_locked env q (d, w) =
      (Inr (saved_result (wd_revision (sq_document q)) (token_of (we_codec env) (sq_document q)) (sq_request_id q)), (d', w')) \<and>
    resolves (we_codec env) (fst (view d')) =
      Inr (ResolvedV1 PrimarySource doc' (token_of (we_codec env) (sq_document q)) None (Some bytes)) \<and>
    wd_revision doc' = wd_revision (sq_document q)"
proof -
  obtain d' w' where
    "save_workbench_locked env q (d, w) =
      (Inr (saved_result (wd_revision (sq_document q)) (token_of (we_codec env) (sq_document q)) (sq_request_id q)), (d', w'))"
    "fst (view d') = replaced current (wc_to_vec (we_codec env) (sq_document q)) (fst (view d))"
    using acknowledged_run [OF assms(1-5,7-11)] .
  with replaced_resolves [OF assms(4) stored_asD(1) [OF assms(6,5)]] stored_asD(2) [OF assms(6,5)] show ?thesis
    by auto
qed

theorem save_is_acknowledged_witness:
  "\<exists>d' w' bytes. save_workbench_locked plain_env plain_save (plain_home ''1'', ()) =
     (Inr (saved_result 2 ''#2'' ''request''), (d', w')) \<and>
   resolves plain_codec (fst (view d')) = Inr (ResolvedV1 PrimarySource (numbered 2) ''#2'' None (Some bytes))"
  using save_is_acknowledged [of plain_env "plain_home ''1''" PrimarySource "numbered 1" "''#1''" None "Some ''1''"
      plain_save "numbered 2"]
  by (simp add: plain_works plain_ledgers plain_tidy plain_resolves plain_valid plain_stored plain_unknown MAX_SAFE_INTEGER_def)

text \<open>
  C6. A save survives a loss of power. Let a save start from flushed files, in a settings
  directory that is durable or is not there yet, and stop anywhere, with an answer or with an
  error. Whatever contents the two files come back with, the home resolves to the document and
  token it had or to what the document of the request reads back as, with its token; and if
  the directory was durable and the save was answered as saved, to the one with the answered
  revision and token. Two things are asked besides: serde reads the printed document back with
  its revision (\<open>stored_as\<close>), and, for the answer to be kept, that the directory was durable
  before. The code never flushes the entry of a directory it makes, so in a new home even an
  acknowledged save may be lost with the directory, and the home is then as it was before.
\<close>

theorem save_survives_power_loss:
  assumes "stored_as (we_codec env) (sq_document q) doc'" "quiescent (fst (view d))"
    and "folder_durable d \<or> dk_folder d = FolderMissing \<and> dk_entries d = []"
    and "save_workbench_locked env q (d, w) = (r, (d', w'))"
    and "comes_back d' x y"
  shows "durable (resolve_slots (we_codec env) x y) \<in>
      {durable (resolves (we_codec env) (fst (view d))), Some (doc', token_of (we_codec env) (sq_document q))} \<and>
    (folder_durable d \<longrightarrow> (\<forall>res. r = Inr res \<longrightarrow> sr_outcome res = Saved \<longrightarrow>
       acknowledges (sr_durable_revision res) (sr_durable_token res) (resolve_slots (we_codec env) x y)))"
proof (cases "survives (fst (view d')) primary_name x \<and> survives (fst (view d')) backup_name y")
  case True
  then show ?thesis using saving_survives [OF assms(1,2) save_run [OF assms(4)]] by blast
next
  case False
  with assms(5) have lost: "\<not> folder_durable d'" "x = None" "y = None" by (simp_all add: comes_back_def)
  have "\<not> folder_durable d" using endsD [OF save_stays [unfolded stays_def] _ assms(4)] lost(1) by blast
  moreover from this assms(3) have "shown (fst (view d)) n = None" for n
    by (simp add: shown_def content_def view_def entry_def)
  ultimately show ?thesis using lost(2,3) by (simp add: resolves_def)
qed

theorem save_survives_power_loss_witness:
  "acknowledges (Some 2) (Some ''#2'') (resolve_slots plain_codec (Some ''2'') (Some ''1''))"
proof -
  obtain d where run: "save_workbench_locked plain_env plain_save (plain_home ''1'', ()) =
      (Inr (saved_result 2 ''#2'' ''request''), (d, ()))"
    and files: "fst (view d) = replaced (Some ''1'') ''2'' (fst (view (plain_home ''1'')))" by (rule plain_run)
  have "survives (fst (view d)) n (shown (fst (view d)) n)" if "n \<in> {primary_name, backup_name}" for n
    using quiescent_survives [OF quiescent_replaced [OF plain_quiescent] that] by (simp add: files)
  from this [of primary_name] this [of backup_name]
    save_survives_power_loss [OF _ plain_quiescent _ run, of "numbered 2" "Some ''2''" "Some ''1''"]
  show ?thesis by (simp add: files shown_replaced plain_stored saved_result_def comes_back_def plain_folder)
qed

text \<open>
  A newer version's files are left alone. When the primary or the backup was written with a
  later schema, neither a save nor a reset changes what the directory shows or what survives a
  loss of power, and the only answer they give is that the schema is from the future.
\<close>

theorem future_files_untouched:
  assumes "SlotFuture \<in> {classify_content (we_codec env) (shown (fst (view d)) primary_name),
      classify_content (we_codec env) (shown (fst (view d)) backup_name)}"
    and "save_workbench_locked env q (d, w) = (r, (d', w'))"
    and "reset_workbench_locked env q2 (d, w) = (r2, (d2, w2))"
  shows "fst (view d') = fst (view d) \<and> fst (view d2) = fst (view d) \<and>
    (\<forall>res. r = Inr res \<longrightarrow> sr_outcome res = FutureSchemaOutcome) \<and>
    (\<forall>res. r2 = Inr res \<longrightarrow> rr_outcome res = FutureSchemaOutcome)"
proof -
  obtain notice where R: "resolves (we_codec env) (fst (view d)) = Inr (ResolvedFuture notice)"
    by (rule future_resolves [OF assms(1)])
  have "fst (view d') = fst (view d) \<and> (\<forall>res. r = Inr res \<longrightarrow> sr_outcome res = FutureSchemaOutcome)"
    using save_run [OF assms(2)] by (cases rule: saving_cases) (auto simp: R save_result_for_resolved_def)
  moreover have "fst (view d2) = fst (view d) \<and> (\<forall>res. r2 = Inr res \<longrightarrow> rr_outcome res = FutureSchemaOutcome)"
    using reset_run [OF assms(3)] by (cases rule: resetting_cases) (auto simp: R reset_result_for_resolved_def)
  ultimately show ?thesis by blast
qed

lemma plain_future: "classify_bytes plain_codec ''100'' = SlotFuture"
  by code_simp

theorem future_files_untouched_witness:
  "fst (view (fst (snd (save_workbench_locked plain_env plain_save (plain_home ''100'', ()))))) = fst (view (plain_home ''100''))"
proof -
  obtain r d' r2 d2 where runs: "save_workbench_locked plain_env plain_save (plain_home ''100'', ()) = (r, (d', ()))"
    "reset_workbench_locked plain_env plain_reset (plain_home ''100'', ()) = (r2, (d2, ()))"
    by (metis old.unit.exhaust prod_cases3)
  have "shown (fst (view (plain_home ''100''))) primary_name = Some ''100''"
    by (simp add: shown_def content_def view_def plain_home_def entry_def)
  then show ?thesis
    using future_files_untouched [OF _ runs] by (simp add: runs classify_content_def plain_future)
qed

text \<open>
  C23. A save is a compare-and-swap. Whatever it answers and wherever it stops, the document a
  home resolves to changes only when the request carried the current token and revision and its
  document the next revision, below the largest safe integer; then it changes to what that
  document reads back as, under the token of its bytes. Serde is asked to read the printed
  document back with its revision (\<open>stored_as\<close>), not to give every fraction back exactly.
\<close>

theorem save_compare_and_swap:
  assumes "stored_as (we_codec env) (sq_document q) doc'"
    and "save_workbench_locked env q (d, w) = (r, (d', w'))"
    and "durable (resolves (we_codec env) (fst (view d'))) \<noteq> durable (resolves (we_codec env) (fst (view d)))"
  shows "\<exists>doc. durable (resolves (we_codec env) (fst (view d))) = Some (doc, sq_expected_token q) \<and>
    sq_expected_revision q = wd_revision doc \<and> wd_revision doc < MAX_SAFE_INTEGER \<and>
    wd_revision (sq_document q) = wd_revision doc + 1 \<and>
    durable (resolves (we_codec env) (fst (view d'))) = Some (doc', token_of (we_codec env) (sq_document q)) \<and>
    wd_revision doc' = wd_revision (sq_document q)"
  using saving_swaps [OF assms(1) save_run [OF assms(2)] assms(3)] by metis

theorem save_compare_and_swap_witness:
  "\<exists>d. save_workbench_locked plain_env plain_save (plain_home ''1'', ()) = (Inr (saved_result 2 ''#2'' ''request''), (d, ())) \<and>
     durable (resolves plain_codec (fst (view d))) = Some (numbered 2, ''#2'')"
proof -
  obtain d where run: "save_workbench_locked plain_env plain_save (plain_home ''1'', ()) =
      (Inr (saved_result 2 ''#2'' ''request''), (d, ()))"
    and files: "fst (view d) = replaced (Some ''1'') ''2'' (fst (view (plain_home ''1'')))" by (rule plain_run)
  from save_compare_and_swap [OF _ run, of "numbered 2"] run show ?thesis
    by (auto simp: files plain_stored saved_home_files [symmetric] saved_home_resolves plain_resolves default_document_def)
qed

text \<open>
  A save can be sent again. Let a new request be answered as saved, and let it be run again
  on the same files, by the same process or by one whose ledger forgot the request, as after a
  restart. If the second run answers, it gives the same answer, and it leaves the files as they are.
\<close>

theorem repeated_save_answered_alike:
  assumes "stored_as (we_codec env) (sq_document q) doc'"
    and "looked_up (we_home env) (sq_request_id q) (ss_ledgers d) = None"
    and "save_workbench_locked env q (d, w) = (Inr res, (d1, w1))" "sr_outcome res = Saved"
    and "fst (view d2) = fst (view d1)"
    and "looked_up (we_home env) (sq_request_id q) (ss_ledgers d2) \<in>
      {None, looked_up (we_home env) (sq_request_id q) (ss_ledgers d1)}"
    and "save_workbench_locked env q (d2, w2) = (Inr res2, (d3, w3))"
  shows "res2 = res \<and> fst (view d3) = fst (view d2)"
  using repeated_saving [OF assms(1,2) save_run [OF assms(3)] assms(4,6) save_run [OF assms(7), unfolded assms(5)]] assms(5)
  by simp

theorem repeated_save_answered_alike_witness:
  "\<exists>d. save_workbench_locked plain_env plain_save (saved_home, ()) = (Inr (saved_result 2 ''#2'' ''request''), (d, ())) \<and>
     fst (view d) = fst (view saved_home)"
proof -
  obtain d where run: "save_workbench_locked plain_env plain_save (plain_home ''1'', ()) =
      (Inr (saved_result 2 ''#2'' ''request''), (d, ()))"
    and files: "fst (view d) = replaced (Some ''1'') ''2'' (fst (view (plain_home ''1'')))" by (rule plain_run)
  obtain res e where again: "save_workbench_locked plain_env plain_save (saved_home, ()) = (Inr res, (e, ()))"
    by (rule saved_home_run)
  from repeated_save_answered_alike [OF _ _ run _ _ _ again, of "numbered 2"] again show ?thesis
    by (simp add: files saved_home_files plain_stored plain_unknown saved_home_ok saved_result_def)
qed

text \<open>
  A reset can be sent again, although the time in its document differs. A second run on the
  same files, also after a restart that forgot the request, answers as the first did, the
  document with its first time included, and leaves the files as they are.
\<close>

theorem repeated_reset_answered_alike:
  assumes "\<And>w. reads_back (we_codec env) (fresh_default (rq_expected_revision q) (clock env w))"
    and "looked_up (we_home env) (rq_request_id q) (ss_ledgers d) = None"
    and "reset_workbench_locked env q (d, w) = (Inr res, (d1, w1))" "rr_outcome res = Saved"
    and "fst (view d2) = fst (view d1)"
    and "looked_up (we_home env) (rq_request_id q) (ss_ledgers d2) \<in>
      {None, looked_up (we_home env) (rq_request_id q) (ss_ledgers d1)}"
    and "reset_workbench_locked env q (d2, w2) = (Inr res2, (d3, w3))"
  shows "res2 = res \<and> fst (view d3) = fst (view d2)"
  using repeated_resetting [OF assms(1,2) reset_run [OF assms(3)] assms(4,6) reset_run [OF assms(7), unfolded assms(5)]] assms(5)
  by simp

theorem repeated_reset_answered_alike_witness:
  "\<exists>d. reset_workbench_locked plain_env plain_reset (saved_home, ()) =
     (Inr (reset_done (numbered 2) ''#2'' ''reset''), (d, ())) \<and> fst (view d) = fst (view saved_home)"
proof -
  obtain d where run: "reset_workbench_locked plain_env plain_reset (plain_home ''1'', ()) =
      (Inr (reset_done (numbered 2) ''#2'' ''reset''), (d, ()))"
    and files: "fst (view d) = replaced (Some ''1'') ''2'' (fst (view (plain_home ''1'')))" by (rule plain_reset_run)
  obtain res e where again: "reset_workbench_locked plain_env plain_reset (saved_home, ()) = (Inr res, (e, ()))"
    by (rule plain_reset_does [OF saved_home_ok(1,2) saved_home_resolves])
  from repeated_reset_answered_alike [OF _ _ run _ _ _ again] again show ?thesis
    by (simp add: files saved_home_files plain_reads plain_unknown saved_home_ok reset_done_def plain_fresh)
qed

text \<open>
  C36. Only valid layouts are handed out. Whatever bytes are in the two files, loading changes
  neither the files nor the ledgers, and a document it returns passes the validation and comes
  with its own revision.
\<close>

theorem loaded_layout_valid:
  assumes "load_workbench env (d, w) = (r, (d', w'))"
  shows "view d' = view d \<and> (\<forall>res doc. r = Inr res \<longrightarrow> lr_document res = Some doc \<longrightarrow>
    validate_doc (we_codec env) doc = Inr () \<and> lr_durable_revision res = Some (wd_revision doc))"
proof -
  have "validate_doc (we_codec env) doc = Inr () \<and> lr_durable_revision (resolved_to_load_result R) = Some (wd_revision doc)"
    if "resolves (we_codec env) (fst (view d)) = Inr R" "lr_document (resolved_to_load_result R) = Some doc" for R doc
    using that by (cases R) (auto simp: resolved_to_load_result_def dest: resolved_valid)
  then show ?thesis using load_run [OF assms] by blast
qed

theorem loaded_layout_valid_witness:
  "view (fst (snd (load_workbench plain_env (plain_home ''1'', ())))) = view (plain_home ''1'')"
proof -
  obtain r d' where run: "load_workbench plain_env (plain_home ''1'', ()) = (r, (d', ()))"
    by (metis old.unit.exhaust prod_cases3)
  from loaded_layout_valid [OF run] run show ?thesis by simp
qed

end
