(* ===== verification/Messaging.thy ===== *)
theory Messaging
  imports Prelude
begin

text \<open>
  Agent messaging, its data: the interaction records (\<open>control.rs\<close>), the messages and
  pages an agent receives (\<open>agent_messaging.rs\<close>), and the tables of
  \<open>db/agent_messaging.rs\<close> and \<open>db/agent_messaging/task_turns.rs\<close> with the statements
  that read and write them. A table is the list of its rows in the order of insertion; the
  values of enumerations and of JSON columns are stored decoded. A statement is a function
  on the tables; what the engine refuses (a primary key, a unique index, a check, a number
  that does not fit a column) is the error of the database. UUIDs, the clock, SHA-256, the
  JSON printer and the outcome of a commit are the environment.
\<close>

section \<open>Errors and the environment\<close>

datatype msg_error = MsgErr (err_code: string) (err_message: string)

text \<open>
  How a transaction ends: it commits, it fails and is rolled back, or it commits and the
  failure is reported all the same.
\<close>

datatype commit_outcome = CommitOk | CommitFails | CommitLost

datatype interaction_kind = IMessage | ITask | IReply | INotification

datatype interaction_status =
  ICreated | IQueued | IDelivering | IDelivered | IAwaitingReply | ICompleted | IFailed | IExpired

datatype trigger_policy = NotifyOnly | StartTurn | ReplyRequired

datatype body_ref = InlineBody string | FileBody string

datatype reply_status = RDone | RBlocked | RFailed

record interaction =
  ix_id :: string
  ix_kind :: interaction_kind
  ix_sender :: "string option"
  ix_targets :: "string list"
  ix_status :: interaction_status
  ix_policy :: trigger_policy
  ix_body :: body_ref
  ix_parent :: "string option"
  ix_created :: string
  ix_updated :: string
  ix_completed :: "string option"

record structured_reply =
  sr_request :: string
  sr_status :: reply_status
  sr_body :: string
  sr_target :: string
  sr_source :: "string option"
  sr_replied :: string

record provenance =
  pv_run :: string
  pv_node :: string

record agent_message =
  am_id :: string
  am_kind :: interaction_kind
  am_sender :: string
  am_host :: "provenance option"
  am_message :: string
  am_parent :: "string option"
  am_reply :: "reply_status option"
  am_created :: string

record message_page =
  pg_messages :: "agent_message list"
  pg_next :: string
  pg_ack :: string
  pg_more :: bool
  pg_timed_out :: bool
  pg_wake :: "string option"

text \<open>A context carries no other messages when it is built; the list that may be added is left out.\<close>

record message_context =
  cx_version :: nat
  cx_sender :: string
  cx_host :: "provenance option"
  cx_recipient :: string
  cx_kind :: interaction_kind
  cx_id :: string
  cx_parent :: "string option"
  cx_request :: "string option"
  cx_body :: string
  cx_reply :: "reply_status option"

datatype delivery_owner = Unclaimed | Receiver | Scheduler

record msg_env =
  me_uuid :: "nat \<Rightarrow> string"
  me_now :: string
  me_sha :: "string \<Rightarrow> string"
  me_pair :: "string \<Rightarrow> string \<Rightarrow> string"
  me_len :: "agent_message \<Rightarrow> nat"
  me_commit :: commit_outcome
  me_failure :: string

definition storage_error :: "msg_env \<Rightarrow> msg_error" where
  "storage_error env = MsgErr ''storage_error'' (me_failure env)"

definition new_id :: "msg_env \<Rightarrow> nat \<Rightarrow> string \<Rightarrow> string" where
  "new_id env n pre = pre @ ''_'' @ me_uuid env n"

definition max_message_bytes :: nat where
  "max_message_bytes = 64 * 1024"

definition max_receive_body_bytes :: nat where
  "max_receive_body_bytes = 128 * 1024"

definition max_receive_serialized_bytes :: nat where
  "max_receive_serialized_bytes = 512 * 1024"

definition max_receive_items :: nat where
  "max_receive_items = 100"

text \<open>A \<open>u64\<close> is bound as an INTEGER, which is signed.\<close>

definition sql_u64 :: "msg_env \<Rightarrow> u64 \<Rightarrow> msg_error + int" where
  "sql_u64 env g = (if unat g < 2 ^ 63 then Inr (int (unat g)) else Inl (storage_error env))"

text \<open>SQL's \<open>trim\<close> strips spaces only.\<close>

definition sql_blank :: "string \<Rightarrow> bool" where
  "sql_blank s \<longleftrightarrow> list_all (\<lambda>c. c = CHR '' '') s"

section \<open>Rows\<close>

record delivery =
  dl_id :: string
  dl_sender :: string
  dl_recipient :: string
  dl_operation :: string
  dl_key :: "string option"
  dl_fingerprint :: string
  dl_owner :: string
  dl_generation :: int
  dl_claim :: "string option"
  dl_req_provider :: "string option"
  dl_req_conversation :: "string option"
  dl_req_generation :: "int option"
  dl_cont :: "string option"
  dl_wake :: "int option"
  dl_rcp_provider :: "string option"
  dl_rcp_conversation :: "string option"
  dl_rcp_generation :: "int option"

record availability =
  av_seq :: int
  av_recipient :: string
  av_id :: string

record cursor_row =
  cu_token :: string
  cu_recipient :: string
  cu_seq :: int

record host_row =
  ho_id :: string
  ho_provenance :: provenance

record turn_row =
  tt_request :: string
  tt_claim :: string
  tt_recipient :: string
  tt_generation :: int
  tt_provider :: string
  tt_session :: string
  tt_turn :: string
  tt_mode :: string
  tt_settlement :: string
  tt_status :: "reply_status option"
  tt_body :: "string option"

text \<open>\<open>db_last\<close> is the largest sequence ever assigned: an autoincrement never reuses one.\<close>

record mdb =
  db_interactions :: "interaction list"
  db_deliveries :: "delivery list"
  db_avail :: "availability list"
  db_last :: int
  db_cursors :: "cursor_row list"
  db_hosts :: "host_row list"
  db_acks :: "(string \<times> int) list"
  db_replies :: "structured_reply list"
  db_turns :: "turn_row list"

definition empty_mdb :: mdb where
  "empty_mdb =
     \<lparr>db_interactions = [], db_deliveries = [], db_avail = [], db_last = 0, db_cursors = [],
      db_hosts = [], db_acks = [], db_replies = [], db_turns = []\<rparr>"

section \<open>Rows by their key\<close>

text \<open>What a look-up by key returns after an append, an update in place and a deletion.\<close>

named_theorems row_simps \<open>look-ups by key after a statement\<close>

lemma find_append_row [row_simps]:
  "find P (xs @ ys) = (case find P xs of None \<Rightarrow> find P ys | Some x \<Rightarrow> Some x)"
  by (induction xs) auto

lemma find_map_row:
  "(\<And>x. k (g x) = k x) \<Longrightarrow> find (\<lambda>x. k x = i) (map g xs) = map_option g (find (\<lambda>x. k x = i) xs)"
  by (induction xs) auto

lemma find_filter_row:
  "(\<And>x. x \<in> set xs \<Longrightarrow> k x = i \<Longrightarrow> Q x) \<Longrightarrow> find (\<lambda>x. k x = i) (filter Q xs) = find (\<lambda>x. k x = i) xs"
  by (induction xs) auto

lemma find_key_Some: "find (\<lambda>x. k x = i) xs = Some x \<Longrightarrow> x \<in> set xs \<and> k x = i"
  by (auto simp: find_Some_iff)

lemma find_key_None: "find (\<lambda>x. k x = i) xs = None \<longleftrightarrow> i \<notin> k ` set xs"
  by (auto simp: find_None_iff)

lemma find_unique_row:
  "distinct (map k xs) \<Longrightarrow> x \<in> set xs \<Longrightarrow> k x = i \<Longrightarrow> find (\<lambda>x. k x = i) xs = Some x"
  by (induction xs) auto

lemma distinct_map_rows: "(\<And>x. k (g x) = k x) \<Longrightarrow> map k (map g xs) = map k xs"
  by simp

section \<open>Statements\<close>

definition find_interaction :: "mdb \<Rightarrow> string \<Rightarrow> interaction option" where
  "find_interaction db i = find (\<lambda>r. ix_id r = i) (db_interactions db)"

definition find_delivery :: "mdb \<Rightarrow> string \<Rightarrow> delivery option" where
  "find_delivery db i = find (\<lambda>d. dl_id d = i) (db_deliveries db)"

definition find_reply :: "mdb \<Rightarrow> string \<Rightarrow> structured_reply option" where
  "find_reply db i = find (\<lambda>r. sr_request r = i) (db_replies db)"

definition find_turn :: "mdb \<Rightarrow> string \<Rightarrow> turn_row option" where
  "find_turn db i = find (\<lambda>t. tt_request t = i) (db_turns db)"

definition host_automation_provenance :: "mdb \<Rightarrow> string \<Rightarrow> provenance option" where
  "host_automation_provenance db i =
     map_option ho_provenance (find (\<lambda>h. ho_id h = i) (db_hosts db))"

definition load :: "mdb \<Rightarrow> string \<Rightarrow> msg_error + interaction" where
  "load db i =
     (case find_interaction db i of
        None \<Rightarrow> Inl (MsgErr ''not_found'' ''Interaction does not exist.'')
      | Some r \<Rightarrow> Inr r)"

text \<open>An update by identifier replaces the row in place and keeps when it was created.\<close>

definition upsert_interaction :: "interaction \<Rightarrow> mdb \<Rightarrow> mdb" where
  "upsert_interaction r db =
     db\<lparr>db_interactions :=
       (if find_interaction db (ix_id r) = None then db_interactions db @ [r]
        else map (\<lambda>o'. if ix_id o' = ix_id r then r\<lparr>ix_created := ix_created o'\<rparr> else o')
               (db_interactions db))\<rparr>"

definition upsert_reply :: "structured_reply \<Rightarrow> mdb \<Rightarrow> mdb" where
  "upsert_reply r db =
     db\<lparr>db_replies :=
       (if find_reply db (sr_request r) = None then db_replies db @ [r]
        else map (\<lambda>o'. if sr_request o' = sr_request r then r else o') (db_replies db))\<rparr>"

definition same_key :: "delivery \<Rightarrow> delivery \<Rightarrow> bool" where
  "same_key d e \<longleftrightarrow>
     dl_sender d = dl_sender e \<and> dl_operation d = dl_operation e \<and> dl_key d \<noteq> None \<and> dl_key d = dl_key e"

definition insert_delivery :: "msg_env \<Rightarrow> delivery \<Rightarrow> mdb \<Rightarrow> msg_error + mdb" where
  "insert_delivery env d db =
     (if list_ex (\<lambda>e. dl_id e = dl_id d \<or> same_key d e) (db_deliveries db) then Inl (storage_error env)
      else Inr (db\<lparr>db_deliveries := db_deliveries db @ [d]\<rparr>))"

definition insert_host :: "msg_env \<Rightarrow> host_row \<Rightarrow> mdb \<Rightarrow> msg_error + mdb" where
  "insert_host env h db =
     (if list_ex (\<lambda>e. ho_id e = ho_id h) (db_hosts db) then Inl (storage_error env)
      else Inr (db\<lparr>db_hosts := db_hosts db @ [h]\<rparr>))"

text \<open>The sequence is the next one of the table, and there is none after the largest INTEGER.\<close>

definition make_available :: "msg_env \<Rightarrow> string \<Rightarrow> string \<Rightarrow> mdb \<Rightarrow> msg_error + mdb" where
  "make_available env recipient i db =
     (if list_ex (\<lambda>a. av_recipient a = recipient \<and> av_id a = i) (db_avail db)
         \<or> db_last db + 1 \<ge> 2 ^ 63 then Inl (storage_error env)
      else Inr (db\<lparr>db_last := db_last db + 1,
                   db_avail := db_avail db @
                     [\<lparr>av_seq = db_last db + 1, av_recipient = recipient, av_id = i\<rparr>]\<rparr>))"

text \<open>An update of deliveries, with the number of rows it changes.\<close>

definition update_deliveries ::
    "(delivery \<Rightarrow> bool) \<Rightarrow> (delivery \<Rightarrow> delivery) \<Rightarrow> mdb \<Rightarrow> nat \<times> mdb" where
  "update_deliveries p f db =
     (length (filter p (db_deliveries db)),
      db\<lparr>db_deliveries := map (\<lambda>d. if p d then f d else d) (db_deliveries db)\<rparr>)"

definition update_turns :: "(turn_row \<Rightarrow> bool) \<Rightarrow> (turn_row \<Rightarrow> turn_row) \<Rightarrow> mdb \<Rightarrow> mdb" where
  "update_turns p f db = db\<lparr>db_turns := map (\<lambda>t. if p t then f t else t) (db_turns db)\<rparr>"

text \<open>The availability of a table joined with deliveries and interactions, by sequence.\<close>

definition joined ::
    "mdb \<Rightarrow> (availability \<Rightarrow> delivery \<Rightarrow> interaction option \<Rightarrow> bool) \<Rightarrow> string list" where
  "joined db p =
     map av_id (filter (\<lambda>a. case find_delivery db (av_id a) of None \<Rightarrow> False
                          | Some d \<Rightarrow> p a d (find_interaction db (av_id a)))
                 (sort_key av_seq (db_avail db)))"

section \<open>Transactions\<close>

text \<open>
  The body of a transaction ends with an error or with a value, and then with the tables
  to commit or, when it returns early, with none: what is not committed is rolled back.
  A single statement outside a transaction commits itself.
\<close>

type_synonym 'a tx = "msg_error + mdb option \<times> 'a"

definition run_tx :: "msg_env \<Rightarrow> mdb \<Rightarrow> 'a tx \<Rightarrow> (msg_error + 'a) \<times> mdb" where
  "run_tx env db t =
     (case t of
        Inl e \<Rightarrow> (Inl e, db)
      | Inr (None, x) \<Rightarrow> (Inr x, db)
      | Inr (Some db', x) \<Rightarrow>
          (case me_commit env of
             CommitOk \<Rightarrow> (Inr x, db')
           | CommitFails \<Rightarrow> (Inl (storage_error env), db)
           | CommitLost \<Rightarrow> (Inl (storage_error env), db')))"

definition committing :: "msg_error + mdb \<times> 'a \<Rightarrow> 'a tx" where
  "committing m = res_bind m (\<lambda>(db, x). Inr (Some db, x))"

end
