(* ===== verification/Messaging_Store.thy ===== *)
theory Messaging_Store
  imports Messaging
begin

text \<open>
  The store of agent messages (\<open>crates/wardian-core/src/db/agent_messaging.rs\<close>): admission
  with idempotency keys and the provenance of automation hosts, the claims of the scheduler,
  replies, the pages an agent receives with their cursors and acknowledgement, and the
  deletion of an agent with everything that refers to it (that part of \<open>db.rs\<close>).
\<close>

section \<open>Origins\<close>

record origin =
  og_provider :: string
  og_conversation :: string
  og_generation :: u64

definition origin_ok :: "origin \<Rightarrow> bool" where
  "origin_ok o' \<longleftrightarrow>
     trim (og_provider o') \<noteq> [] \<and> trim (og_conversation o') \<noteq> []
     \<and> og_generation o' \<noteq> 0 \<and> unat (og_generation o') < 2 ^ 63"

definition validate_requester_origin :: "origin \<Rightarrow> msg_error + unit" where
  "validate_requester_origin o' =
     (if origin_ok o' then Inr ()
      else Inl (MsgErr ''invalid_requester_origin''
        ''Requester origin requires a provider, durable conversation ID, and positive generation.''))"

definition validate_recipient_origin :: "origin \<Rightarrow> msg_error + unit" where
  "validate_recipient_origin o' =
     (if origin_ok o' then Inr ()
      else Inl (MsgErr ''invalid_recipient_origin''
        ''Recipient origin requires a provider, durable conversation ID, and positive generation.''))"

definition stored_origin ::
    "msg_error \<Rightarrow> string option \<Rightarrow> string option \<Rightarrow> int option \<Rightarrow> msg_error + origin option" where
  "stored_origin err p c g =
     (case (p, c, g) of
        (None, None, None) \<Rightarrow> Inr None
      | (Some p', Some c', Some g') \<Rightarrow>
          if trim p' \<noteq> [] \<and> trim c' \<noteq> [] \<and> g' > 0
          then Inr (Some \<lparr>og_provider = p', og_conversation = c', og_generation = of_int g'\<rparr>)
          else Inl err
      | _ \<Rightarrow> Inl err)"

definition requester_origin :: "msg_env \<Rightarrow> mdb \<Rightarrow> string \<Rightarrow> msg_error + origin option" where
  "requester_origin env db i =
     (case find_delivery db i of
        None \<Rightarrow> Inl (storage_error env)
      | Some d \<Rightarrow>
          stored_origin (MsgErr ''invalid_requester_origin'' ''Stored requester origin is incomplete or invalid.'')
            (dl_req_provider d) (dl_req_conversation d) (dl_req_generation d))"

definition recipient_origin :: "msg_env \<Rightarrow> mdb \<Rightarrow> string \<Rightarrow> msg_error + origin option" where
  "recipient_origin env db i =
     (case find_delivery db i of
        None \<Rightarrow> Inl (storage_error env)
      | Some d \<Rightarrow>
          stored_origin (MsgErr ''invalid_recipient_origin'' ''Stored recipient origin is incomplete or invalid.'')
            (dl_rcp_provider d) (dl_rcp_conversation d) (dl_rcp_generation d))"

section \<open>Admission\<close>

record admission =
  aq_sender :: string
  aq_recipient :: string
  aq_message :: string
  aq_key :: "string option"
  aq_task :: bool
  aq_generation :: u64

record admitted =
  ad_record :: interaction
  ad_owner :: delivery_owner
  ad_duplicate :: bool
  ad_state :: string

definition delivery_owner_of :: "string \<Rightarrow> delivery_owner" where
  "delivery_owner_of s =
     (if s = ''pending'' then Unclaimed
      else if s = ''receiver_available'' \<or> s = ''stored'' then Receiver
      else Scheduler)"

definition validate_message :: "string \<Rightarrow> msg_error + unit" where
  "validate_message m =
     (if trim m = [] \<or> length m > max_message_bytes
      then Inl (MsgErr ''invalid_message'' ''Message must contain text and be at most 64 KiB.'')
      else Inr ())"

definition fingerprint :: "msg_env \<Rightarrow> string \<Rightarrow> string \<Rightarrow> string" where
  "fingerprint env recipient m = me_sha env (me_pair env recipient m)"

definition find_keyed :: "mdb \<Rightarrow> string \<Rightarrow> string \<Rightarrow> string \<Rightarrow> delivery option" where
  "find_keyed db sender operation key =
     find (\<lambda>d. dl_sender d = sender \<and> dl_operation d = operation \<and> dl_key d = Some key)
       (db_deliveries db)"

definition verify_host_provenance :: "mdb \<Rightarrow> string \<Rightarrow> provenance \<Rightarrow> msg_error + unit" where
  "verify_host_provenance db i expected =
     (if host_automation_provenance db i = Some expected then Inr ()
      else Inl (MsgErr ''invalid_host_provenance''
        ''Stored admission has different or missing host provenance.''))"

text \<open>\<open>?\<close> on a check that may not apply.\<close>

definition guard_err :: "bool \<Rightarrow> string \<Rightarrow> string \<Rightarrow> msg_error + unit" where
  "guard_err bad code msg = (if bad then Inl (MsgErr code msg) else Inr ())"

definition opt_check :: "('a \<Rightarrow> msg_error + unit) \<Rightarrow> 'a option \<Rightarrow> msg_error + unit" where
  "opt_check f v = (case v of None \<Rightarrow> Inr () | Some x \<Rightarrow> f x)"

definition operation_of :: "admission \<Rightarrow> string" where
  "operation_of rq = (if aq_task rq then ''followup_task'' else ''send_message'')"

definition owner_on_admission :: "admission \<Rightarrow> string" where
  "owner_on_admission rq = (if aq_task rq then ''pending'' else ''stored'')"

definition admission_checks ::
    "admission \<Rightarrow> provenance option \<Rightarrow> origin option \<Rightarrow> origin option \<Rightarrow> bool \<Rightarrow> msg_error + unit" where
  "admission_checks rq host req_origin rcp_origin wake =
     res_bind (validate_message (aq_message rq)) (\<lambda>_.
     res_bind (guard_err (case aq_key rq of None \<Rightarrow> False | Some k \<Rightarrow> k = [] \<or> length k > 256)
       ''invalid_idempotency_key'' ''Key must contain 1 to 256 bytes.'') (\<lambda>_.
     res_bind (guard_err (req_origin \<noteq> None \<and> (\<not> aq_task rq \<or> host \<noteq> None))
       ''invalid_requester_origin'' ''Only managed followup tasks can carry requester origin.'') (\<lambda>_.
     res_bind (opt_check validate_requester_origin req_origin) (\<lambda>_.
     res_bind (opt_check validate_recipient_origin rcp_origin) (\<lambda>_.
     res_bind (guard_err (wake \<and> (aq_task rq \<or> host \<noteq> None))
       ''invalid_wake_policy'' ''Wake-on-admission is limited to managed informational messages.'') (\<lambda>_.
     guard_err (rcp_origin \<noteq> None \<and> \<not> wake)
       ''invalid_recipient_origin'' ''Recipient origin requires wake-on-admission eligibility.''))))))"

definition new_interaction :: "msg_env \<Rightarrow> admission \<Rightarrow> provenance option \<Rightarrow> interaction" where
  "new_interaction env rq host =
     \<lparr>ix_id = new_id env 0 (if aq_task rq then ''ask'' else ''int''),
      ix_kind = (if aq_task rq then ITask else IMessage),
      ix_sender = (if host = None then Some (aq_sender rq) else None),
      ix_targets = [aq_recipient rq],
      ix_status = (if aq_task rq then IAwaitingReply else IQueued),
      ix_policy = (if aq_task rq then ReplyRequired else NotifyOnly),
      ix_body = InlineBody (aq_message rq), ix_parent = None,
      ix_created = me_now env, ix_updated = me_now env, ix_completed = None\<rparr>"

text \<open>The origins have been validated, so their generations fit the column.\<close>

definition new_delivery ::
    "msg_env \<Rightarrow> admission \<Rightarrow> string \<Rightarrow> int \<Rightarrow> origin option \<Rightarrow> origin option \<Rightarrow> bool \<Rightarrow> delivery" where
  "new_delivery env rq i generation req_origin rcp_origin wake =
     \<lparr>dl_id = i, dl_sender = aq_sender rq, dl_recipient = aq_recipient rq,
      dl_operation = operation_of rq, dl_key = aq_key rq,
      dl_fingerprint = fingerprint env (aq_recipient rq) (aq_message rq),
      dl_owner = owner_on_admission rq, dl_generation = generation, dl_claim = None,
      dl_req_provider = map_option og_provider req_origin,
      dl_req_conversation = map_option og_conversation req_origin,
      dl_req_generation = map_option (\<lambda>o'. int (unat (og_generation o'))) req_origin,
      dl_cont = None, dl_wake = (if wake then Some 1 else None),
      dl_rcp_provider = map_option og_provider rcp_origin,
      dl_rcp_conversation = map_option og_conversation rcp_origin,
      dl_rcp_generation = map_option (\<lambda>o'. int (unat (og_generation o'))) rcp_origin\<rparr>"

definition admit_again ::
    "msg_env \<Rightarrow> mdb \<Rightarrow> admission \<Rightarrow> provenance option \<Rightarrow> delivery \<Rightarrow> msg_error + admitted" where
  "admit_again env db rq host d =
     res_bind (guard_err (dl_fingerprint d \<noteq> fingerprint env (aq_recipient rq) (aq_message rq))
       ''idempotency_conflict'' ''Key already admitted a different target or body.'') (\<lambda>_.
     res_bind (opt_check (verify_host_provenance db (dl_id d)) host) (\<lambda>_.
     res_bind (load db (dl_id d)) (\<lambda>r.
       Inr \<lparr>ad_record = r, ad_owner = delivery_owner_of (dl_owner d), ad_duplicate = True,
            ad_state = dl_owner d\<rparr>)))"

definition admit_new ::
    "msg_env \<Rightarrow> mdb \<Rightarrow> admission \<Rightarrow> provenance option \<Rightarrow> origin option \<Rightarrow> origin option \<Rightarrow> bool
      \<Rightarrow> msg_error + mdb \<times> admitted" where
  "admit_new env db rq host req_origin rcp_origin wake =
     (let r = new_interaction env rq host; owner = owner_on_admission rq
      in res_bind (sql_u64 env (aq_generation rq)) (\<lambda>g.
         res_bind (insert_delivery env (new_delivery env rq (ix_id r) g req_origin rcp_origin wake)
                     (upsert_interaction r db)) (\<lambda>db1.
         res_bind (case host of None \<Rightarrow> Inr db1
                   | Some p \<Rightarrow> insert_host env \<lparr>ho_id = ix_id r, ho_provenance = p\<rparr> db1) (\<lambda>db2.
         res_bind (make_available env (aq_recipient rq) (ix_id r) db2) (\<lambda>db3.
           Inr (db3, \<lparr>ad_record = r, ad_owner = delivery_owner_of owner, ad_duplicate = False,
                      ad_state = owner\<rparr>))))))"

definition admit_with_metadata ::
    "msg_env \<Rightarrow> mdb \<Rightarrow> admission \<Rightarrow> provenance option \<Rightarrow> origin option \<Rightarrow> origin option \<Rightarrow> bool
      \<Rightarrow> (msg_error + admitted) \<times> mdb" where
  "admit_with_metadata env db rq host req_origin rcp_origin wake =
     run_tx env db
       (res_bind (admission_checks rq host req_origin rcp_origin wake) (\<lambda>_.
          case (case aq_key rq of None \<Rightarrow> None
                | Some k \<Rightarrow> find_keyed db (aq_sender rq) (operation_of rq) k) of
            Some d \<Rightarrow> res_bind (admit_again env db rq host d) (\<lambda>a. Inr (None, a))
          | None \<Rightarrow> committing (admit_new env db rq host req_origin rcp_origin wake)))"

definition admit :: "msg_env \<Rightarrow> mdb \<Rightarrow> admission \<Rightarrow> (msg_error + admitted) \<times> mdb" where
  "admit env db rq = admit_with_metadata env db rq None None None False"

definition admit_with_wake_on_admission ::
    "msg_env \<Rightarrow> mdb \<Rightarrow> admission \<Rightarrow> origin option \<Rightarrow> (msg_error + admitted) \<times> mdb" where
  "admit_with_wake_on_admission env db rq rcp_origin =
     (if aq_task rq
      then (Inl (MsgErr ''invalid_wake_policy''
              ''Only informational messages can carry wake-on-admission eligibility.''), db)
      else case opt_check validate_recipient_origin rcp_origin of
        Inl e \<Rightarrow> (Inl e, db)
      | Inr _ \<Rightarrow> admit_with_metadata env db rq None None rcp_origin True)"

definition admit_with_requester_origin ::
    "msg_env \<Rightarrow> mdb \<Rightarrow> admission \<Rightarrow> origin option \<Rightarrow> (msg_error + admitted) \<times> mdb" where
  "admit_with_requester_origin env db rq req_origin =
     (if \<not> aq_task rq \<and> req_origin \<noteq> None
      then (Inl (MsgErr ''invalid_requester_origin'' ''Requester origin can only bind a followup task.''), db)
      else case opt_check validate_requester_origin req_origin of
        Inl e \<Rightarrow> (Inl e, db)
      | Inr _ \<Rightarrow> admit_with_metadata env db rq None req_origin None False)"

subsection \<open>Automation hosts\<close>

definition host_sender :: "string \<Rightarrow> string" where
  "host_sender run_id = ''host:automation:'' @ run_id"

definition host_automation_message_key :: "msg_env \<Rightarrow> string \<Rightarrow> string" where
  "host_automation_message_key env node = ''message_send:v1:'' @ me_sha env node"

definition bad_provenance :: "string \<Rightarrow> string \<Rightarrow> bool" where
  "bad_provenance run_id node \<longleftrightarrow> trim run_id = [] \<or> trim node = []"

definition provenance_error :: msg_error where
  "provenance_error = MsgErr ''invalid_host_provenance'' ''Automation run and node are required.''"

definition admit_host_automation_task ::
    "msg_env \<Rightarrow> mdb \<Rightarrow> string \<Rightarrow> string \<Rightarrow> string \<Rightarrow> string \<Rightarrow> u64 \<Rightarrow> (msg_error + admitted) \<times> mdb" where
  "admit_host_automation_task env db run_id node recipient m generation =
     (if bad_provenance run_id node then (Inl provenance_error, db)
      else admit_with_metadata env db
             \<lparr>aq_sender = host_sender run_id, aq_recipient = recipient, aq_message = m, aq_key = None,
              aq_task = True, aq_generation = generation\<rparr>
             (Some \<lparr>pv_run = run_id, pv_node = node\<rparr>) None None False)"

definition reconcile_host_automation_message ::
    "msg_env \<Rightarrow> mdb \<Rightarrow> string \<Rightarrow> string \<Rightarrow> (string \<times> string) option \<Rightarrow> msg_error + admitted option" where
  "reconcile_host_automation_message env db run_id node expected =
     (case find_keyed db (host_sender run_id) ''send_message'' (host_automation_message_key env node) of
        None \<Rightarrow> Inr None
      | Some d \<Rightarrow>
          res_bind (verify_host_provenance db (dl_id d) \<lparr>pv_run = run_id, pv_node = node\<rparr>) (\<lambda>_.
          res_bind (opt_check (\<lambda>(recipient, m).
              guard_err (dl_fingerprint d \<noteq> fingerprint env recipient m)
                ''idempotency_conflict'' ''Key already admitted a different target or body.'') expected) (\<lambda>_.
          res_bind (load db (dl_id d)) (\<lambda>r.
            Inr (Some \<lparr>ad_record = r, ad_owner = delivery_owner_of (dl_owner d), ad_duplicate = True,
                       ad_state = dl_owner d\<rparr>)))))"

text \<open>\<open>readable\<close>: whether the tables can be read once the admission has failed.\<close>

definition admit_host_automation_message ::
    "msg_env \<Rightarrow> bool \<Rightarrow> mdb \<Rightarrow> string \<Rightarrow> string \<Rightarrow> string \<Rightarrow> string \<Rightarrow> u64
      \<Rightarrow> (msg_error + admitted) \<times> mdb" where
  "admit_host_automation_message env readable db run_id node recipient m generation =
     (if bad_provenance run_id node then (Inl provenance_error, db)
      else
        case admit_with_metadata env db
               \<lparr>aq_sender = host_sender run_id, aq_recipient = recipient, aq_message = m,
                aq_key = Some (host_automation_message_key env node),
                aq_task = False, aq_generation = generation\<rparr>
               (Some \<lparr>pv_run = run_id, pv_node = node\<rparr>) None None False of
          (Inr a, db') \<Rightarrow> (Inr a, db')
        | (Inl e, db') \<Rightarrow>
            if \<not> readable then (Inl (storage_error env), db')
            else case reconcile_host_automation_message env db' run_id node (Some (recipient, m)) of
                Inl e' \<Rightarrow> (Inl e', db')
              | Inr (Some a) \<Rightarrow> (Inr a, db')
              | Inr None \<Rightarrow> (Inl e, db'))"

section \<open>Claims of the scheduler\<close>

record task_claim =
  tc_record :: interaction
  tc_token :: string
  tc_generation :: u64

definition holds_claim :: "task_claim \<Rightarrow> int \<Rightarrow> delivery \<Rightarrow> bool" where
  "holds_claim c g d \<longleftrightarrow>
     dl_id d = ix_id (tc_record c) \<and> dl_claim d = Some (tc_token c) \<and> dl_generation d = g
     \<and> dl_owner d = ''dispatching''"

definition owns_claim :: "msg_env \<Rightarrow> mdb \<Rightarrow> task_claim \<Rightarrow> msg_error + bool" where
  "owns_claim env db c =
     res_bind (sql_u64 env (tc_generation c)) (\<lambda>g. Inr (list_ex (holds_claim c g) (db_deliveries db)))"

definition next_pending_task_id :: "mdb \<Rightarrow> string \<Rightarrow> string option" where
  "next_pending_task_id db recipient =
     (case joined db (\<lambda>a d r. dl_recipient d = recipient \<and> dl_operation d = ''followup_task''
             \<and> dl_owner d = ''pending'' \<and> map_option ix_status r = Some IAwaitingReply) of
        [] \<Rightarrow> None
      | i # _ \<Rightarrow> Some i)"

definition dispatch_to :: "int \<Rightarrow> string \<Rightarrow> delivery \<Rightarrow> delivery" where
  "dispatch_to g token d = d\<lparr>dl_owner := ''dispatching'', dl_generation := g, dl_claim := Some token\<rparr>"

text \<open>
  An identifier is the primary key of the deliveries, so an update by identifier changes one
  row or none.
\<close>

definition claim_rows ::
    "msg_env \<Rightarrow> mdb \<Rightarrow> (delivery \<Rightarrow> bool) \<Rightarrow> string \<Rightarrow> u64 \<Rightarrow> task_claim option tx" where
  "claim_rows env db p i generation =
     (let token = new_id env 0 ''claim''
      in res_bind (sql_u64 env generation) (\<lambda>g.
           let (changed, db') = update_deliveries (\<lambda>d. dl_id d = i \<and> p d) (dispatch_to g token) db
           in if changed = 0 then Inr (None, None)
              else res_bind (load db' i) (\<lambda>r.
                Inr (Some db', Some \<lparr>tc_record = r, tc_token = token, tc_generation = generation\<rparr>))))"

definition claim_next_task ::
    "msg_env \<Rightarrow> mdb \<Rightarrow> string \<Rightarrow> u64 \<Rightarrow> (msg_error + task_claim option) \<times> mdb" where
  "claim_next_task env db recipient generation =
     run_tx env db
       (case next_pending_task_id db recipient of
          None \<Rightarrow> Inr (None, None)
        | Some i \<Rightarrow> claim_rows env db (\<lambda>d. dl_owner d = ''pending'') i generation)"

definition scheduler_states :: "string list" where
  "scheduler_states =
     [''provider_visible'', ''provider_accepted'', ''provider_completed'', ''uncertain'',
      ''failed_before_submit'']"

definition continuation_after :: "string \<Rightarrow> string" where
  "continuation_after s =
     (if s = ''provider_accepted'' \<or> s = ''provider_visible'' \<or> s = ''provider_completed'' then ''delivered''
      else if s = ''uncertain'' then ''uncertain'' else ''dispatching'')"

definition settle_delivery :: "string \<Rightarrow> delivery \<Rightarrow> delivery" where
  "settle_delivery s d =
     d\<lparr>dl_owner := s,
       dl_cont := (if dl_operation d = ''reply'' \<and> continuation_after s \<noteq> ''dispatching''
                   then Some (continuation_after s) else dl_cont d)\<rparr>"

definition finish_claim_rows :: "msg_env \<Rightarrow> task_claim \<Rightarrow> string \<Rightarrow> mdb \<Rightarrow> msg_error + mdb" where
  "finish_claim_rows env c s db =
     (if s \<notin> set scheduler_states then Inl (MsgErr ''invalid_state'' ''Invalid scheduler result.'')
      else res_bind (sql_u64 env (tc_generation c)) (\<lambda>g.
             let (changed, db') = update_deliveries (holds_claim c g) (settle_delivery s) db
             in if changed \<noteq> 1
                then Inl (MsgErr ''stale_claim'' ''Scheduler claim no longer owns this task.'')
                else Inr db'))"

definition finish_claim :: "msg_env \<Rightarrow> mdb \<Rightarrow> task_claim \<Rightarrow> string \<Rightarrow> (msg_error + unit) \<times> mdb" where
  "finish_claim env db c s = run_tx env db (committing (map_sum id (\<lambda>db'. (db', ())) (finish_claim_rows env c s db)))"

end
