(* ===== verification/Messaging_Receive.thy ===== *)
theory Messaging_Receive
  imports Messaging_Store
begin

text \<open>
  The rest of \<open>db/agent_messaging.rs\<close>: replies to tasks, the pages an agent receives, and
  the deletion of an agent; and \<open>db/agent_messaging/provider_claims.rs\<close>, what the scheduler
  asks and claims for information and for replies.
\<close>

section \<open>Replies\<close>

record replied =
  rp_task :: interaction
  rp_record :: interaction
  rp_reply :: structured_reply
  rp_duplicate :: bool

text \<open>The delivery of a reply copies the origin of the request from the delivery of the task.\<close>

definition reply_delivery :: "string \<Rightarrow> string \<Rightarrow> string \<Rightarrow> delivery \<Rightarrow> delivery" where
  "reply_delivery i sender recipient d =
     \<lparr>dl_id = i, dl_sender = sender, dl_recipient = recipient, dl_operation = ''reply'', dl_key = None,
      dl_fingerprint = [], dl_owner = ''stored'', dl_generation = 0, dl_claim = None,
      dl_req_provider = dl_req_provider d, dl_req_conversation = dl_req_conversation d,
      dl_req_generation = dl_req_generation d,
      dl_cont =
        Some (if (case dl_req_provider d of None \<Rightarrow> False | Some p \<Rightarrow> \<not> sql_blank p)
                 \<and> (case dl_req_conversation d of None \<Rightarrow> False | Some c \<Rightarrow> \<not> sql_blank c)
                 \<and> (case dl_req_generation d of None \<Rightarrow> False | Some g \<Rightarrow> g > 0)
              then ''pending'' else ''blocked_legacy_uncertain''),
      dl_wake = None, dl_rcp_provider = None, dl_rcp_conversation = None, dl_rcp_generation = None\<rparr>"

definition deliver_reply ::
    "msg_env \<Rightarrow> string \<Rightarrow> string \<Rightarrow> string option \<Rightarrow> string \<Rightarrow> mdb \<Rightarrow> msg_error + mdb" where
  "deliver_reply env i sender recipient request_id db =
     (case recipient of
        None \<Rightarrow> Inr db
      | Some to \<Rightarrow>
          (case find (\<lambda>d. dl_id d = request_id \<and> dl_operation d = ''followup_task'') (db_deliveries db) of
             None \<Rightarrow> Inl (MsgErr ''invalid_task'' ''Followup delivery origin could not be copied to its reply.'')
           | Some d \<Rightarrow>
               res_bind (insert_delivery env (reply_delivery i sender to d) db)
                 (make_available env to i)))"

definition completed_task :: "msg_env \<Rightarrow> interaction \<Rightarrow> interaction" where
  "completed_task env task =
     task\<lparr>ix_status := ICompleted, ix_updated := me_now env, ix_completed := Some (me_now env)\<rparr>"

definition reply_record :: "msg_env \<Rightarrow> string \<Rightarrow> interaction \<Rightarrow> string \<Rightarrow> string \<Rightarrow> interaction" where
  "reply_record env sender task request_id m =
     \<lparr>ix_id = new_id env 0 ''int'', ix_kind = IReply, ix_sender = Some sender,
      ix_targets = (case ix_sender task of None \<Rightarrow> [] | Some r \<Rightarrow> [r]),
      ix_status = ICompleted, ix_policy = NotifyOnly, ix_body = InlineBody m,
      ix_parent = Some request_id, ix_created = me_now env, ix_updated = me_now env,
      ix_completed = Some (me_now env)\<rparr>"

definition reply_again ::
    "msg_env \<Rightarrow> mdb \<Rightarrow> string \<Rightarrow> string \<Rightarrow> reply_status \<Rightarrow> string \<Rightarrow> interaction \<Rightarrow> structured_reply
      \<Rightarrow> msg_error + mdb \<times> replied" where
  "reply_again env db sender request_id status m task old =
     (if sr_status old \<noteq> status \<or> sr_body old \<noteq> m
      then Inl (MsgErr ''conflicting_reply'' ''Task already has a different terminal reply.'')
      else case find (\<lambda>r. ix_kind r = IReply \<and> ix_parent r = Some request_id) (db_interactions db) of
        None \<Rightarrow> Inl (storage_error env)
      | Some r \<Rightarrow>
          Inr (db, \<lparr>rp_task = task, rp_record = r,
                    rp_reply = \<lparr>sr_request = request_id, sr_status = status, sr_body = sr_body old,
                                sr_target = sender, sr_source = Some sender,
                                sr_replied = sr_replied old\<rparr>,
                    rp_duplicate = True\<rparr>))"

definition reply_new ::
    "msg_env \<Rightarrow> mdb \<Rightarrow> string \<Rightarrow> string \<Rightarrow> reply_status \<Rightarrow> string \<Rightarrow> task_claim option \<Rightarrow> interaction
      \<Rightarrow> msg_error + mdb \<times> replied" where
  "reply_new env db sender request_id status m claim task0 =
     res_bind (guard_err (ix_status task0 \<noteq> IAwaitingReply)
       ''conflicting_reply'' ''Task is already terminal.'') (\<lambda>_.
     res_bind (guard_err (ix_sender task0 = None \<and> host_automation_provenance db request_id = None)
       ''invalid_task'' ''Task has no requester or trusted host provenance.'') (\<lambda>_.
     let task = completed_task env task0;
         record' = reply_record env sender task0 request_id m;
         reply' = \<lparr>sr_request = request_id, sr_status = status, sr_body = m, sr_target = sender,
                   sr_source = Some sender, sr_replied = me_now env\<rparr>;
         db1 = upsert_reply reply' (upsert_interaction record' (upsert_interaction task db))
     in res_bind (deliver_reply env (ix_id record') sender (ix_sender task0) request_id db1) (\<lambda>db2.
        res_bind (case claim of None \<Rightarrow> Inr db2
                  | Some c \<Rightarrow> finish_claim_rows env c ''failed_before_submit'' db2) (\<lambda>db3.
          Inr (db3, \<lparr>rp_task = task, rp_record = record', rp_reply = reply', rp_duplicate = False\<rparr>)))))"

definition reply_in_transaction ::
    "msg_env \<Rightarrow> mdb \<Rightarrow> string \<Rightarrow> string \<Rightarrow> reply_status \<Rightarrow> string \<Rightarrow> task_claim option
      \<Rightarrow> msg_error + mdb \<times> replied" where
  "reply_in_transaction env db sender request_id status m claim =
     res_bind (case claim of None \<Rightarrow> Inr True | Some c \<Rightarrow> owns_claim env db c) (\<lambda>owns.
     res_bind (guard_err (\<not> owns) ''stale_claim'' ''Startup failure no longer owns this task.'') (\<lambda>_.
     res_bind (load db request_id) (\<lambda>task.
     res_bind (guard_err (ix_kind task \<noteq> ITask \<or> ix_targets task \<noteq> [sender])
       ''unauthorized'' ''Reply caller is not the task recipient.'') (\<lambda>_.
     res_bind (guard_err
         (\<not> list_ex (\<lambda>d. dl_id d = request_id \<and> dl_operation d = ''followup_task'') (db_deliveries db))
       ''not_found'' ''Task is not a v2 messaging task.'') (\<lambda>_.
     case find_reply db request_id of
       Some old \<Rightarrow> reply_again env db sender request_id status m task old
     | None \<Rightarrow> reply_new env db sender request_id status m claim task)))))"

definition reply_with_claim ::
    "msg_env \<Rightarrow> mdb \<Rightarrow> string \<Rightarrow> string \<Rightarrow> reply_status \<Rightarrow> string \<Rightarrow> task_claim option
      \<Rightarrow> (msg_error + replied) \<times> mdb" where
  "reply_with_claim env db sender request_id status m claim =
     (case validate_message m of
        Inl e \<Rightarrow> (Inl e, db)
      | Inr _ \<Rightarrow> run_tx env db (committing (reply_in_transaction env db sender request_id status m claim)))"

definition reply ::
    "msg_env \<Rightarrow> mdb \<Rightarrow> string \<Rightarrow> string \<Rightarrow> reply_status \<Rightarrow> string \<Rightarrow> (msg_error + replied) \<times> mdb" where
  "reply env db sender request_id status m = reply_with_claim env db sender request_id status m None"

definition startup_failure_text :: string where
  "startup_failure_text =
     ''Wardian delivery failed before this task reached the provider. No work was submitted. '' @
     ''Inspect the recipient's delivery diagnostics before assigning a new task.''"

definition reply_startup_failure :: "msg_env \<Rightarrow> mdb \<Rightarrow> task_claim \<Rightarrow> (msg_error + replied) \<times> mdb" where
  "reply_startup_failure env db c =
     (case ix_targets (tc_record c) of
        [] \<Rightarrow> (Inl (MsgErr ''invalid_task'' ''Task has no recipient.''), db)
      | sender # _ \<Rightarrow>
          reply_with_claim env db sender (ix_id (tc_record c)) RFailed startup_failure_text (Some c))"

section \<open>Receiving\<close>

text \<open>A cursor is \<open>am1_\<close> and the 32 digits of a UUID.\<close>

definition cursor_sequence :: "mdb \<Rightarrow> string \<Rightarrow> string \<Rightarrow> msg_error + int" where
  "cursor_sequence db recipient token =
     (if \<not> prefix ''am1_'' token \<or> length token \<noteq> 36
      then Inl (MsgErr ''invalid_cursor'' ''Invalid cursor version or format.'')
      else case find (\<lambda>c. cu_token c = token) (db_cursors db) of
        None \<Rightarrow> Inl (MsgErr ''expired_cursor'' ''Cursor is unknown or no longer available.'')
      | Some c \<Rightarrow>
          if cu_recipient c = recipient then Inr (cu_seq c)
          else Inl (MsgErr ''invalid_cursor'' ''Cursor belongs to another recipient.''))"

definition issue_cursor :: "msg_env \<Rightarrow> nat \<Rightarrow> string \<Rightarrow> int \<Rightarrow> mdb \<Rightarrow> msg_error + mdb \<times> string" where
  "issue_cursor env n recipient sequence db =
     (case find (\<lambda>c. cu_recipient c = recipient \<and> cu_seq c = sequence) (db_cursors db) of
        Some c \<Rightarrow> Inr (db, cu_token c)
      | None \<Rightarrow>
          let token = new_id env n ''am1''
          in if list_ex (\<lambda>c. cu_token c = token) (db_cursors db) then Inl (storage_error env)
             else Inr (db\<lparr>db_cursors := db_cursors db @
                         [\<lparr>cu_token = token, cu_recipient = recipient, cu_seq = sequence\<rparr>]\<rparr>, token))"

definition acknowledged :: "mdb \<Rightarrow> string \<Rightarrow> int" where
  "acknowledged db recipient = (case map_of (db_acks db) recipient of None \<Rightarrow> 0 | Some s \<Rightarrow> s)"

definition store_ack :: "string \<Rightarrow> int \<Rightarrow> mdb \<Rightarrow> mdb" where
  "store_ack recipient s db =
     db\<lparr>db_acks := AList.update recipient
         (case map_of (db_acks db) recipient of None \<Rightarrow> s | Some old \<Rightarrow> max old s) (db_acks db)\<rparr>"

definition receivable :: "delivery option \<Rightarrow> bool" where
  "receivable d =
     (case d of None \<Rightarrow> True
      | Some d \<Rightarrow> dl_owner d \<in> {''stored'', ''pending'', ''receiver_available''})"

definition receive_rows :: "mdb \<Rightarrow> string \<Rightarrow> int \<Rightarrow> availability list" where
  "receive_rows db recipient after =
     filter (\<lambda>a. av_recipient a = recipient \<and> av_seq a > after
               \<and> find_interaction db (av_id a) \<noteq> None \<and> receivable (find_delivery db (av_id a)))
       (sort_key av_seq (db_avail db))"

definition reply_status_of :: "msg_env \<Rightarrow> mdb \<Rightarrow> interaction \<Rightarrow> msg_error + reply_status option" where
  "reply_status_of env db r =
     (if ix_kind r \<noteq> IReply then Inr None
      else case find_reply db (case ix_parent r of None \<Rightarrow> [] | Some p \<Rightarrow> p) of
        None \<Rightarrow> Inl (storage_error env)
      | Some s \<Rightarrow> Inr (Some (sr_status s)))"

definition message_at :: "msg_env \<Rightarrow> mdb \<Rightarrow> string \<Rightarrow> msg_error + agent_message" where
  "message_at env db i =
     res_bind (load db i) (\<lambda>r.
       case ix_body r of
         FileBody _ \<Rightarrow> Inl (MsgErr ''invalid_message'' ''V2 body is not inline canonical text.'')
       | InlineBody body \<Rightarrow>
           res_bind (reply_status_of env db r) (\<lambda>s.
             Inr \<lparr>am_id = i, am_kind = ix_kind r,
                  am_sender = (case ix_sender r of None \<Rightarrow> [] | Some x \<Rightarrow> x),
                  am_host = host_automation_provenance db i, am_message = body,
                  am_parent = ix_parent r, am_reply = s, am_created = ix_created r\<rparr>))"

definition claim_for_receiver :: "msg_env \<Rightarrow> nat \<Rightarrow> string \<Rightarrow> mdb \<Rightarrow> mdb" where
  "claim_for_receiver env n i db =
     snd (update_deliveries (\<lambda>d. dl_id d = i \<and> dl_owner d \<in> {''stored'', ''pending''})
            (\<lambda>d. d\<lparr>dl_owner := ''receiver_available'', dl_claim := Some (new_id env n ''claim'')\<rparr>) db)"

text \<open>
  The loop over the rows: the tables, the messages and the sequence so far, and whether a
  budget stopped it. Each message draws one identifier.
\<close>

fun receive_loop ::
    "msg_env \<Rightarrow> availability list \<Rightarrow> mdb \<Rightarrow> int \<Rightarrow> nat \<Rightarrow> nat \<Rightarrow> agent_message list
      \<Rightarrow> msg_error + mdb \<times> int \<times> agent_message list \<times> bool" where
  "receive_loop env [] db sequence body ser msgs = Inr (db, sequence, msgs, False)"
| "receive_loop env (a # rows) db sequence body ser msgs =
     res_bind (message_at env db (av_id a)) (\<lambda>m.
       let encoded = me_len env m + 1
       in if body + length (am_message m) > max_receive_body_bytes
             \<or> ser + encoded > max_receive_serialized_bytes
          then if msgs = []
               then Inl (MsgErr ''invalid_message'' ''Stored message exceeds receive serialization budget.'')
               else Inr (db, sequence, msgs, True)
          else receive_loop env rows (claim_for_receiver env (length msgs) (av_id a) db) (av_seq a)
                 (body + length (am_message m)) (ser + encoded) (msgs @ [m]))"

definition receive_in_transaction ::
    "msg_env \<Rightarrow> mdb \<Rightarrow> string \<Rightarrow> string option \<Rightarrow> string option \<Rightarrow> nat \<Rightarrow> msg_error + mdb \<times> message_page" where
  "receive_in_transaction env db recipient cursor ack_cursor limit =
     (let acked = acknowledged db recipient
      in res_bind (case ack_cursor of None \<Rightarrow> Inr acked | Some t \<Rightarrow> cursor_sequence db recipient t) (\<lambda>asked.
         let ack = max asked acked
         in res_bind (case cursor of None \<Rightarrow> Inr ack | Some t \<Rightarrow> cursor_sequence db recipient t) (\<lambda>after.
            let rows = take (limit + 1) (receive_rows db recipient after)
            in res_bind (receive_loop env (take limit rows) db after 0 1024 []) (\<lambda>(db1, sequence, msgs, stopped).
               res_bind (issue_cursor env (length msgs) recipient sequence db1) (\<lambda>(db2, token).
                 Inr (if ack_cursor = None then db2 else store_ack recipient ack db2,
                      \<lparr>pg_messages = msgs, pg_next = token, pg_ack = token,
                       pg_more = (length rows > limit \<or> stopped), pg_timed_out = False,
                       pg_wake = None\<rparr>))))))"

definition receive ::
    "msg_env \<Rightarrow> mdb \<Rightarrow> string \<Rightarrow> string option \<Rightarrow> string option \<Rightarrow> u32 \<Rightarrow> (msg_error + message_page) \<times> mdb" where
  "receive env db recipient cursor ack_cursor limit =
     (if limit = 0 \<or> unat limit > max_receive_items
      then (Inl (MsgErr ''invalid_limit'' ''Receive limit must be 1 to 100.''), db)
      else run_tx env db
             (committing (receive_in_transaction env db recipient cursor ack_cursor (unat limit))))"

section \<open>Deletion\<close>

definition delete_identity :: "string \<Rightarrow> mdb \<Rightarrow> mdb" where
  "delete_identity i db =
     db\<lparr>db_turns := filter (\<lambda>t. tt_request t \<noteq> i) (db_turns db),
       db_hosts := filter (\<lambda>h. ho_id h \<noteq> i) (db_hosts db),
       db_avail := filter (\<lambda>a. av_id a \<noteq> i) (db_avail db),
       db_deliveries := filter (\<lambda>d. dl_id d \<noteq> i) (db_deliveries db)\<rparr>"

definition delete_references :: "string \<Rightarrow> string list \<Rightarrow> mdb \<Rightarrow> mdb" where
  "delete_references recipient ids db =
     (let db1 = db\<lparr>db_turns := filter (\<lambda>t. \<not> (tt_recipient t = recipient
              \<or> list_ex (\<lambda>d. dl_id d = tt_request t \<and> (dl_sender d = recipient \<or> dl_recipient d = recipient))
                  (db_deliveries db))) (db_turns db)\<rparr>;
          db2 = fold delete_identity ids db1
      in db2\<lparr>db_avail := filter (\<lambda>a. av_recipient a \<noteq> recipient) (db_avail db2),
             db_deliveries := filter (\<lambda>d. \<not> (dl_recipient d = recipient \<or> dl_sender d = recipient))
               (db_deliveries db2),
             db_cursors := filter (\<lambda>c. cu_recipient c \<noteq> recipient) (db_cursors db2),
             db_acks := filter (\<lambda>a. fst a \<noteq> recipient) (db_acks db2)\<rparr>)"

text \<open>
  The interactions of an agent and, until nothing is added, those whose parent is known.
\<close>

definition descendants :: "interaction list \<Rightarrow> string list \<Rightarrow> string list" where
  "descendants cs ids =
     map ix_id (filter (\<lambda>r. ix_id r \<notin> set ids
       \<and> (case ix_parent r of None \<Rightarrow> False | Some p \<Rightarrow> p \<in> set ids)) cs)"

function with_descendants :: "interaction list \<Rightarrow> string list \<Rightarrow> string list" where
  "with_descendants cs ids =
     (if descendants cs ids = [] then ids else with_descendants cs (ids @ descendants cs ids))"
  by pat_completeness auto
termination
proof (relation "measure (\<lambda>(cs, ids). card (ix_id ` set cs - set ids))")
  show "wf (measure (\<lambda>(cs, ids). card (ix_id ` set cs - set ids)))" by simp
next
  fix cs ids
  assume "descendants cs ids \<noteq> []"
  then obtain i where i: "i \<in> set (descendants cs ids)" by (cases "descendants cs ids") auto
  then have "i \<in> ix_id ` set cs - set ids" by (auto simp: descendants_def)
  with i have "ix_id ` set cs - set (ids @ descendants cs ids) \<subset> ix_id ` set cs - set ids" by auto
  then show "((cs, ids @ descendants cs ids), cs, ids) \<in> measure (\<lambda>(cs, ids). card (ix_id ` set cs - set ids))"
    by (simp add: psubset_card_mono)
qed

declare with_descendants.simps [simp del]

definition agent_interactions :: "mdb \<Rightarrow> string \<Rightarrow> string list" where
  "agent_interactions db s =
     with_descendants (db_interactions db)
       (map ix_id (filter (\<lambda>r. ix_sender r = Some s \<or> s \<in> set (ix_targets r)) (db_interactions db)))"

definition delete_interaction :: "string \<Rightarrow> mdb \<Rightarrow> mdb" where
  "delete_interaction i db =
     db\<lparr>db_replies := filter (\<lambda>r. sr_request r \<noteq> i) (db_replies db),
       db_interactions := filter (\<lambda>r. ix_id r \<noteq> i) (db_interactions db)\<rparr>"

text \<open>The part of the deletion of an agent that changes the tables of messaging.\<close>

definition delete_agent :: "msg_env \<Rightarrow> mdb \<Rightarrow> string \<Rightarrow> (msg_error + unit) \<times> mdb" where
  "delete_agent env db s =
     (let ids = agent_interactions db s;
          db1 = db\<lparr>db_replies := filter (\<lambda>r. sr_target r \<noteq> s) (db_replies db)\<rparr>
      in run_tx env db (Inr (Some (fold delete_interaction ids (delete_references s ids db1)), ())))"

section \<open>What the scheduler asks and claims\<close>

definition information_highwater :: "mdb \<Rightarrow> string \<Rightarrow> int" where
  "information_highwater db recipient =
     (let ss = map av_seq (filter (\<lambda>a. av_recipient a = recipient) (db_avail db))
      in if ss = [] then 0 else Max (set ss))"

definition pending_information :: "mdb \<Rightarrow> string \<Rightarrow> int \<Rightarrow> string list" where
  "pending_information db recipient highwater =
     take 100 (joined db (\<lambda>a d r. dl_recipient d = recipient \<and> dl_owner d = ''stored''
       \<and> dl_operation d = ''send_message'' \<and> (dl_wake d = None \<or> dl_wake d = Some 0)
       \<and> av_seq a \<le> highwater))"

definition pending_wakeable_information :: "mdb \<Rightarrow> string \<Rightarrow> string list" where
  "pending_wakeable_information db recipient =
     take 100 (joined db (\<lambda>a d r. dl_recipient d = recipient \<and> dl_owner d = ''stored''
       \<and> dl_operation d = ''send_message'' \<and> dl_wake d = Some 1))"

definition changed_one :: "nat \<times> mdb \<Rightarrow> bool tx" where
  "changed_one r = Inr (Some (snd r), fst r = 1)"

definition stale_wakeable_information :: "msg_env \<Rightarrow> mdb \<Rightarrow> string \<Rightarrow> (msg_error + bool) \<times> mdb" where
  "stale_wakeable_information env db i =
     run_tx env db (changed_one (update_deliveries
       (\<lambda>d. dl_id d = i \<and> dl_operation d = ''send_message'' \<and> dl_wake d = Some 1 \<and> dl_owner d = ''stored'')
       (\<lambda>d. d\<lparr>dl_owner := ''blocked_stale_origin''\<rparr>) db))"

definition waiting_states :: "string list" where
  "waiting_states = [''pending'', ''waiting_busy'', ''waiting_paused'', ''waiting_identity'']"

definition awaits_continuation :: "delivery \<Rightarrow> bool" where
  "awaits_continuation d \<longleftrightarrow>
     dl_owner d = ''stored'' \<and> dl_operation d = ''reply'' \<and> dl_cont d \<in> Some ` set waiting_states"

definition pending_reply_continuations :: "mdb \<Rightarrow> string \<Rightarrow> string list" where
  "pending_reply_continuations db recipient =
     take 100 (joined db (\<lambda>a d r. dl_recipient d = recipient \<and> awaits_continuation d))"

definition reply_continuation_is_pending :: "mdb \<Rightarrow> string \<Rightarrow> string \<Rightarrow> bool" where
  "reply_continuation_is_pending db recipient i \<longleftrightarrow>
     list_ex (\<lambda>d. dl_id d = i \<and> dl_recipient d = recipient \<and> awaits_continuation d) (db_deliveries db)"

definition claim_reply_continuation ::
    "msg_env \<Rightarrow> mdb \<Rightarrow> string \<Rightarrow> string \<Rightarrow> u64 \<Rightarrow> (msg_error + task_claim option) \<times> mdb" where
  "claim_reply_continuation env db recipient i generation =
     run_tx env db (claim_rows env db
       (\<lambda>d. dl_recipient d = recipient \<and> dl_owner d = ''stored'' \<and> dl_operation d = ''reply''
          \<and> dl_cont d = Some ''pending''
          \<and> list_ex (\<lambda>r. ix_id r = dl_id d \<and> ix_kind r = IReply) (db_interactions db)) i generation)"

definition continuation_states :: "string list" where
  "continuation_states = waiting_states @ [''blocked_legacy_uncertain'', ''blocked_stale_origin'']"

definition set_reply_continuation_state ::
    "msg_env \<Rightarrow> mdb \<Rightarrow> string \<Rightarrow> string \<Rightarrow> (msg_error + bool) \<times> mdb" where
  "set_reply_continuation_state env db i st =
     (if st \<notin> set continuation_states
      then (Inl (MsgErr ''invalid_state'' ''Invalid reply continuation state.''), db)
      else run_tx env db (changed_one (update_deliveries
             (\<lambda>d. dl_id d = i \<and> dl_operation d = ''reply'' \<and> dl_owner d = ''stored'')
             (\<lambda>d. d\<lparr>dl_cont := Some st,
                    dl_owner := (if prefix ''blocked_'' st then st else ''stored'')\<rparr>) db)))"

definition claim_information ::
    "msg_env \<Rightarrow> mdb \<Rightarrow> string \<Rightarrow> string \<Rightarrow> u64 \<Rightarrow> (msg_error + task_claim option) \<times> mdb" where
  "claim_information env db recipient i generation =
     run_tx env db (claim_rows env db
       (\<lambda>d. dl_recipient d = recipient \<and> dl_owner d = ''stored'' \<and> dl_operation d = ''send_message'')
       i generation)"

definition claim_wakeable_information ::
    "msg_env \<Rightarrow> mdb \<Rightarrow> string \<Rightarrow> string \<Rightarrow> u64 \<Rightarrow> (msg_error + task_claim option) \<times> mdb" where
  "claim_wakeable_information env db recipient i generation =
     run_tx env db (claim_rows env db
       (\<lambda>d. dl_recipient d = recipient \<and> dl_owner d = ''stored'' \<and> dl_operation d = ''send_message''
          \<and> dl_wake d = Some 1) i generation)"

definition reopen_delivery :: "delivery \<Rightarrow> delivery" where
  "reopen_delivery d =
     d\<lparr>dl_owner := (if dl_operation d = ''followup_task'' then ''pending'' else ''stored''),
       dl_claim := None,
       dl_cont := (if dl_operation d = ''reply'' then Some ''pending'' else dl_cont d)\<rparr>"

definition release_rows :: "msg_env \<Rightarrow> task_claim \<Rightarrow> mdb \<Rightarrow> msg_error + mdb" where
  "release_rows env c db =
     res_bind (sql_u64 env (tc_generation c)) (\<lambda>g.
       let (changed, db') = update_deliveries (holds_claim c g) reopen_delivery db
       in if changed \<noteq> 1
          then Inl (MsgErr ''stale_claim'' ''Delivery claim no longer owns this message.'')
          else Inr db')"

definition release_before_write :: "msg_env \<Rightarrow> mdb \<Rightarrow> task_claim \<Rightarrow> (msg_error + unit) \<times> mdb" where
  "release_before_write env db c =
     run_tx env db (committing (map_sum id (\<lambda>db'. (db', ())) (release_rows env c db)))"

definition message_context_of :: "msg_env \<Rightarrow> mdb \<Rightarrow> interaction \<Rightarrow> msg_error + message_context" where
  "message_context_of env db r =
     (case ix_body r of
        FileBody _ \<Rightarrow> Inl (MsgErr ''invalid_message'' ''Canonical message body is not inline.'')
      | InlineBody body \<Rightarrow>
          (case ix_targets r of
             [] \<Rightarrow> Inl (MsgErr ''invalid_message'' ''Canonical message has no recipient.'')
           | recipient # _ \<Rightarrow>
               res_bind (reply_status_of env db r) (\<lambda>s.
                 Inr \<lparr>cx_version = 1, cx_sender = (case ix_sender r of None \<Rightarrow> [] | Some x \<Rightarrow> x),
                      cx_host = host_automation_provenance db (ix_id r), cx_recipient = recipient,
                      cx_kind = ix_kind r, cx_id = ix_id r, cx_parent = ix_parent r,
                      cx_request = (case ix_kind r of ITask \<Rightarrow> Some (ix_id r) | IReply \<Rightarrow> ix_parent r
                                    | _ \<Rightarrow> None),
                      cx_body = body, cx_reply = s\<rparr>)))"

text \<open>The migration blocks the stored replies whose origin is unknown.\<close>

definition block_legacy_replies :: "mdb \<Rightarrow> mdb" where
  "block_legacy_replies db =
     snd (update_deliveries
       (\<lambda>d. dl_operation d = ''reply''
          \<and> ((case dl_req_provider d of None \<Rightarrow> True | Some p \<Rightarrow> sql_blank p)
             \<or> (case dl_req_conversation d of None \<Rightarrow> True | Some c \<Rightarrow> sql_blank c)
             \<or> (case dl_req_generation d of None \<Rightarrow> True | Some g \<Rightarrow> g \<le> 0))
          \<and> (dl_cont d = None \<or> dl_cont d \<in> Some ` set waiting_states))
       (\<lambda>d. d\<lparr>dl_cont := Some ''blocked_legacy_uncertain''\<rparr>) db)"

end
