(* ===== verification/Task_Turns.thy ===== *)
theory Task_Turns
  imports Messaging_Receive
begin

text \<open>
  The terminal outbox of task turns (\<open>crates/wardian-core/src/db/agent_messaging/task_turns.rs\<close>):
  a claimed task is bound to the exact turn of the provider that accepted it, the outcome of
  the turn is committed before it is published as the reply, and recovery publishes what was
  committed without running anything again.
\<close>

record turn_binding =
  tb_request :: string
  tb_claim :: string
  tb_recipient :: string
  tb_generation :: u64
  tb_provider :: string
  tb_session :: string
  tb_turn :: string
  tb_mode :: string

text \<open>The checks and the primary key of the table.\<close>

definition turn_row_ok :: "turn_row \<Rightarrow> bool" where
  "turn_row_ok t \<longleftrightarrow>
     tt_provider t = ''codex'' \<and> tt_mode t \<in> {''start'', ''steer''}
     \<and> (case tt_body t of None \<Rightarrow> True | Some b \<Rightarrow> length b \<le> max_message_bytes)
     \<and> (tt_settlement t \<in> {''bound'', ''uncertain''} \<and> tt_status t = None \<and> tt_body t = None
        \<or> tt_settlement t \<in> {''outcome_recorded'', ''published''} \<and> tt_status t \<noteq> None \<and> tt_body t \<noteq> None)"

definition insert_turn :: "msg_env \<Rightarrow> turn_row \<Rightarrow> mdb \<Rightarrow> msg_error + mdb" where
  "insert_turn env t db =
     (if \<not> turn_row_ok t \<or> list_ex (\<lambda>u. tt_request u = tt_request t) (db_turns db)
      then Inl (storage_error env)
      else Inr (db\<lparr>db_turns := db_turns db @ [t]\<rparr>))"

definition update_turns_checked ::
    "msg_env \<Rightarrow> (turn_row \<Rightarrow> bool) \<Rightarrow> (turn_row \<Rightarrow> turn_row) \<Rightarrow> mdb \<Rightarrow> msg_error + mdb" where
  "update_turns_checked env p f db =
     (if list_all (\<lambda>t. p t \<longrightarrow> turn_row_ok (f t)) (db_turns db) then Inr (update_turns p f db)
      else Inl (storage_error env))"

section \<open>Binding\<close>

definition task_recipient :: "mdb \<Rightarrow> string \<Rightarrow> msg_error + string" where
  "task_recipient db i =
     (case find (\<lambda>d. dl_id d = i \<and> dl_operation d = ''followup_task'') (db_deliveries db) of
        None \<Rightarrow> Inl (MsgErr ''invalid_task'' ''Binding requires a v2 task.'')
      | Some d \<Rightarrow> Inr (dl_recipient d))"

definition row_of_binding :: "turn_binding \<Rightarrow> int \<Rightarrow> turn_row" where
  "row_of_binding b g =
     \<lparr>tt_request = tb_request b, tt_claim = tb_claim b, tt_recipient = tb_recipient b,
      tt_generation = g, tt_provider = tb_provider b, tt_session = tb_session b, tt_turn = tb_turn b,
      tt_mode = tb_mode b, tt_settlement = ''bound'', tt_status = None, tt_body = None\<rparr>"

definition bind_in_transaction ::
    "msg_env \<Rightarrow> mdb \<Rightarrow> task_claim \<Rightarrow> string \<Rightarrow> string \<Rightarrow> string \<Rightarrow> string \<Rightarrow> msg_error + mdb \<times> turn_binding" where
  "bind_in_transaction env db c provider session turn mode =
     res_bind (owns_claim env db c) (\<lambda>owns.
     res_bind (guard_err (\<not> owns) ''stale_claim'' ''Task is no longer dispatching under this claim.'') (\<lambda>_.
     res_bind (load db (ix_id (tc_record c))) (\<lambda>task.
     res_bind (task_recipient db (ix_id task)) (\<lambda>recipient.
     res_bind (guard_err
         (ix_kind task \<noteq> ITask \<or> ix_kind (tc_record c) \<noteq> ITask
          \<or> ix_targets task \<noteq> [recipient] \<or> ix_targets (tc_record c) \<noteq> ix_targets task
          \<or> ix_sender task = None \<and> host_automation_provenance db (ix_id task) = None)
       ''invalid_task'' ''Claim does not identify the canonical task recipient and provenance.'') (\<lambda>_.
     let b = \<lparr>tb_request = ix_id task, tb_claim = tc_token c, tb_recipient = recipient,
              tb_generation = tc_generation c, tb_provider = provider, tb_session = session,
              tb_turn = turn, tb_mode = mode\<rparr>
     in res_bind (sql_u64 env (tb_generation b)) (\<lambda>g.
        res_bind (insert_turn env (row_of_binding b g) db) (\<lambda>db1.
        res_bind (finish_claim_rows env c ''provider_accepted'' db1) (\<lambda>db2. Inr (db2, b)))))))))"

definition bind_task_turn ::
    "msg_env \<Rightarrow> mdb \<Rightarrow> task_claim \<Rightarrow> string \<Rightarrow> string \<Rightarrow> string \<Rightarrow> string
      \<Rightarrow> (msg_error + turn_binding) \<times> mdb" where
  "bind_task_turn env db c provider session turn mode =
     (if provider \<noteq> ''codex'' \<or> trim session = [] \<or> trim turn = [] \<or> mode \<notin> {''start'', ''steer''}
      then (Inl (MsgErr ''invalid_binding'' ''Exact Codex session, turn, and admission mode are required.''), db)
      else run_tx env db (committing (bind_in_transaction env db c provider session turn mode)))"

section \<open>Outcomes\<close>

definition row_matches :: "turn_binding \<Rightarrow> int \<Rightarrow> turn_row \<Rightarrow> bool" where
  "row_matches b g t \<longleftrightarrow>
     tt_request t = tb_request b \<and> tt_claim t = tb_claim b \<and> tt_recipient t = tb_recipient b
     \<and> tt_generation t = g \<and> tt_provider t = tb_provider b \<and> tt_session t = tb_session b
     \<and> tt_turn t = tb_turn b \<and> tt_mode t = tb_mode b"

definition accepted_under :: "turn_row \<Rightarrow> delivery \<Rightarrow> bool" where
  "accepted_under t d \<longleftrightarrow>
     dl_id d = tt_request t \<and> dl_claim d = Some (tt_claim t) \<and> dl_generation d = tt_generation t
     \<and> dl_recipient d = tt_recipient t \<and> dl_operation d = ''followup_task''
     \<and> dl_owner d = ''provider_accepted''"

definition settlement :: "msg_env \<Rightarrow> mdb \<Rightarrow> turn_binding \<Rightarrow> msg_error + string" where
  "settlement env db b =
     res_bind (sql_u64 env (tb_generation b)) (\<lambda>g.
       case find (\<lambda>t. row_matches b g t \<and> list_ex (accepted_under t) (db_deliveries db)) (db_turns db) of
         None \<Rightarrow> Inl (MsgErr ''stale_binding'' ''Task turn binding or accepted claim no longer matches.'')
       | Some t \<Rightarrow>
           res_bind (load db (tb_request b)) (\<lambda>task.
             if ix_kind task \<noteq> ITask \<or> ix_targets task \<noteq> [tb_recipient b]
             then Inl (MsgErr ''invalid_task'' ''Binding does not identify the canonical task recipient.'')
             else Inr (tt_settlement t)))"

definition set_settlement :: "string \<Rightarrow> turn_row \<Rightarrow> turn_row" where
  "set_settlement s t = t\<lparr>tt_settlement := s\<rparr>"

definition record_outcome :: "reply_status \<Rightarrow> string \<Rightarrow> turn_row \<Rightarrow> turn_row" where
  "record_outcome status body t =
     t\<lparr>tt_settlement := ''outcome_recorded'', tt_status := Some status, tt_body := Some body\<rparr>"

definition record_in_transaction ::
    "msg_env \<Rightarrow> mdb \<Rightarrow> turn_binding \<Rightarrow> reply_status \<Rightarrow> string \<Rightarrow> msg_error + mdb \<times> unit" where
  "record_in_transaction env db b status body =
     res_bind (settlement env db b) (\<lambda>st.
       if st = ''bound''
       then res_bind (update_turns_checked env (\<lambda>t. tt_request t = tb_request b)
                        (record_outcome status body) db) (\<lambda>db'. Inr (db', ()))
       else if st = ''outcome_recorded'' \<or> st = ''published''
       then case find_turn db (tb_request b) of
              None \<Rightarrow> Inl (storage_error env)
            | Some t \<Rightarrow>
                if tt_status t = Some status \<and> tt_body t = Some body then Inr (db, ())
                else Inl (MsgErr ''conflicting_outcome'' ''Task turn already has a different terminal outcome.'')
       else Inl (MsgErr ''uncertain_binding'' ''Lost turn continuity cannot authorize an outcome.''))"

definition record_task_turn_outcome ::
    "msg_env \<Rightarrow> mdb \<Rightarrow> turn_binding \<Rightarrow> reply_status \<Rightarrow> string \<Rightarrow> (msg_error + unit) \<times> mdb" where
  "record_task_turn_outcome env db b status body =
     (case validate_message body of
        Inl e \<Rightarrow> (Inl e, db)
      | Inr _ \<Rightarrow> run_tx env db (committing (record_in_transaction env db b status body)))"

text \<open>A terminal body is read as text: the value NULL is an error of the database.\<close>

definition publish_in_transaction ::
    "msg_env \<Rightarrow> mdb \<Rightarrow> turn_binding \<Rightarrow> msg_error + mdb \<times> replied option" where
  "publish_in_transaction env db b =
     res_bind
       (if find_reply db (tb_request b) \<noteq> None then Inr (db, None)
        else case find_turn db (tb_request b) of
          None \<Rightarrow> Inl (storage_error env)
        | Some t \<Rightarrow>
            (case (tt_status t, tt_body t) of
               (Some status, Some body) \<Rightarrow>
                 res_bind (validate_message body) (\<lambda>_.
                 res_bind (reply_in_transaction env db (tb_recipient b) (tb_request b) status body None)
                   (\<lambda>(db', r). Inr (db', Some r)))
             | _ \<Rightarrow> Inl (storage_error env)))
       (\<lambda>(db1, replied).
         res_bind (update_turns_checked env (\<lambda>t. tt_request t = tb_request b)
                     (set_settlement ''published'') db1) (\<lambda>db2. Inr (db2, replied)))"

definition publish_task_turn_outcome ::
    "msg_env \<Rightarrow> mdb \<Rightarrow> turn_binding \<Rightarrow> (msg_error + replied option) \<times> mdb" where
  "publish_task_turn_outcome env db b =
     run_tx env db
       (res_bind (settlement env db b) (\<lambda>st.
          if st \<noteq> ''outcome_recorded'' then Inr (None, None)
          else committing (publish_in_transaction env db b)))"

section \<open>Recovery\<close>

definition binding_of_row :: "turn_row \<Rightarrow> turn_binding" where
  "binding_of_row t =
     \<lparr>tb_request = tt_request t, tb_claim = tt_claim t, tb_recipient = tt_recipient t,
      tb_generation = of_int (tt_generation t), tb_provider = tt_provider t, tb_session = tt_session t,
      tb_turn = tt_turn t, tb_mode = tt_mode t\<rparr>"

definition bindings_in_state :: "mdb \<Rightarrow> string \<Rightarrow> turn_binding list" where
  "bindings_in_state db st =
     map binding_of_row (sort_key tt_request (filter (\<lambda>t. tt_settlement t = st) (db_turns db)))"

definition pending_task_turn_bindings :: "mdb \<Rightarrow> turn_binding list" where
  "pending_task_turn_bindings db = bindings_in_state db ''bound''"

definition abandon_task_turn_observations :: "msg_env \<Rightarrow> mdb \<Rightarrow> (msg_error + unit) \<times> mdb" where
  "abandon_task_turn_observations env db =
     run_tx env db (committing (map_sum id (\<lambda>db'. (db', ()))
       (update_turns_checked env
          (\<lambda>t. tt_settlement t = ''bound'' \<and> tt_status t = None \<and> tt_body t = None)
          (set_settlement ''uncertain'') db)))"

definition mark_task_turn_uncertain ::
    "msg_env \<Rightarrow> mdb \<Rightarrow> turn_binding \<Rightarrow> (msg_error + unit) \<times> mdb" where
  "mark_task_turn_uncertain env db b =
     run_tx env db (committing
       (res_bind (settlement env db b) (\<lambda>st.
          if st = ''bound''
          then res_bind (update_turns_checked env (\<lambda>t. tt_request t = tb_request b)
                           (set_settlement ''uncertain'') db) (\<lambda>db'. Inr (db', ()))
          else if st = ''uncertain'' then Inr (db, ())
          else Inl (MsgErr ''invalid_state'' ''Known outcomes cannot be discarded as uncertain.''))))"

text \<open>Each publication is a transaction of its own, the next one in the next environment.\<close>

fun publish_each ::
    "(nat \<Rightarrow> msg_env) \<Rightarrow> mdb \<Rightarrow> turn_binding list \<Rightarrow> replied list \<Rightarrow> (msg_error + replied list) \<times> mdb" where
  "publish_each envs db [] replies = (Inr replies, db)"
| "publish_each envs db (b # bs) replies =
     (case publish_task_turn_outcome (envs 0) db b of
        (Inl e, db') \<Rightarrow> (Inl e, db')
      | (Inr None, db') \<Rightarrow> publish_each (\<lambda>n. envs (Suc n)) db' bs replies
      | (Inr (Some r), db') \<Rightarrow> publish_each (\<lambda>n. envs (Suc n)) db' bs (replies @ [r]))"

definition recover_task_turn_outcomes ::
    "(nat \<Rightarrow> msg_env) \<Rightarrow> mdb \<Rightarrow> (msg_error + replied list) \<times> mdb" where
  "recover_task_turn_outcomes envs db = publish_each envs db (bindings_in_state db ''outcome_recorded'') []"

end
