(* ===== verification/Messaging_Machine.thy ===== *)
theory Messaging_Machine
  imports Task_Turns
begin

text \<open>
  The store of messages as a machine. An operation is a call of the store and its answer is
  what the caller sees; the events are the atomic changes an operation is made of, with a
  label that names the delivery they move. The ownership of one delivery is an automaton
  over the labels: it specifies who may expose a message.
\<close>

section \<open>Operations and answers\<close>

datatype mop =
    AdmitMessage admission
  | AdmitWake admission "origin option"
  | AdmitTask admission "origin option"
  | AdmitHostTask string string string string u64
  | AdmitHostMessage bool string string string string u64
  | Reply string string reply_status string
  | StartupFailure task_claim
  | Receive string "string option" "string option" u32
  | DeleteAgent string
  | ClaimTask string u64
  | ClaimReply string string u64
  | ClaimInformation string string u64
  | ClaimWakeable string string u64
  | FinishClaim task_claim string
  | ReleaseClaim task_claim
  | StaleWakeable string
  | SetContinuation string string
  | BindTurn task_claim string string string string
  | RecordOutcome turn_binding reply_status string
  | PublishOutcome turn_binding
  | AbandonTurns
  | MarkUncertain turn_binding

datatype answer =
    Failed msg_error
  | Admitted admitted
  | Replied replied
  | Page message_page
  | Claimed "task_claim option"
  | Flag bool
  | Bound turn_binding
  | Published "replied option"
  | Finished

definition answer_by :: "('a \<Rightarrow> answer) \<Rightarrow> (msg_error + 'a) \<times> mdb \<Rightarrow> answer \<times> mdb" where
  "answer_by f r = ((case fst r of Inl e \<Rightarrow> Failed e | Inr x \<Rightarrow> f x), snd r)"

fun exec :: "msg_env \<Rightarrow> mop \<Rightarrow> mdb \<Rightarrow> answer \<times> mdb" where
  "exec env (AdmitMessage rq) db = answer_by Admitted (admit env db rq)"
| "exec env (AdmitWake rq o') db = answer_by Admitted (admit_with_wake_on_admission env db rq o')"
| "exec env (AdmitTask rq o') db = answer_by Admitted (admit_with_requester_origin env db rq o')"
| "exec env (AdmitHostTask run node to m g) db =
     answer_by Admitted (admit_host_automation_task env db run node to m g)"
| "exec env (AdmitHostMessage ok run node to m g) db =
     answer_by Admitted (admit_host_automation_message env ok db run node to m g)"
| "exec env (Reply s i st m) db = answer_by Replied (reply env db s i st m)"
| "exec env (StartupFailure c) db = answer_by Replied (reply_startup_failure env db c)"
| "exec env (Receive r c a l) db = answer_by Page (receive env db r c a l)"
| "exec env (DeleteAgent s) db = answer_by (\<lambda>_. Finished) (delete_agent env db s)"
| "exec env (ClaimTask r g) db = answer_by Claimed (claim_next_task env db r g)"
| "exec env (ClaimReply r i g) db = answer_by Claimed (claim_reply_continuation env db r i g)"
| "exec env (ClaimInformation r i g) db = answer_by Claimed (claim_information env db r i g)"
| "exec env (ClaimWakeable r i g) db = answer_by Claimed (claim_wakeable_information env db r i g)"
| "exec env (FinishClaim c s) db = answer_by (\<lambda>_. Finished) (finish_claim env db c s)"
| "exec env (ReleaseClaim c) db = answer_by (\<lambda>_. Finished) (release_before_write env db c)"
| "exec env (StaleWakeable i) db = answer_by Flag (stale_wakeable_information env db i)"
| "exec env (SetContinuation i s) db = answer_by Flag (set_reply_continuation_state env db i s)"
| "exec env (BindTurn c p s t m) db = answer_by Bound (bind_task_turn env db c p s t m)"
| "exec env (RecordOutcome b st m) db = answer_by (\<lambda>_. Finished) (record_task_turn_outcome env db b st m)"
| "exec env (PublishOutcome b) db = answer_by Published (publish_task_turn_outcome env db b)"
| "exec env AbandonTurns db = answer_by (\<lambda>_. Finished) (abandon_task_turn_observations env db)"
| "exec env (MarkUncertain b) db = answer_by (\<lambda>_. Finished) (mark_task_turn_uncertain env db b)"

text \<open>What an answer exposes: the messages of a page, and the message of a claim.\<close>

fun shown :: "answer \<Rightarrow> string set" where
  "shown (Page p) = am_id ` set (pg_messages p)"
| "shown _ = {}"

fun claimed :: "answer \<Rightarrow> string set" where
  "claimed (Claimed (Some c)) = {ix_id (tc_record c)}"
| "claimed _ = {}"

text \<open>Identifiers are new: no row of the tables mentions the ones that will be drawn.\<close>

definition known :: "mdb \<Rightarrow> string set" where
  "known db =
     ix_id ` set (db_interactions db) \<union> dl_id ` set (db_deliveries db) \<union> av_id ` set (db_avail db)
     \<union> ho_id ` set (db_hosts db) \<union> sr_request ` set (db_replies db) \<union> tt_request ` set (db_turns db)
     \<union> cu_token ` set (db_cursors db)"

definition fresh_env :: "msg_env \<Rightarrow> mdb \<Rightarrow> bool" where
  "fresh_env env db \<longleftrightarrow> (\<forall>n pre. pre \<in> {''ask'', ''int'', ''am1''} \<longrightarrow> new_id env n pre \<notin> known db)"

text \<open>A run: the operations in order, each in an environment whose identifiers are new.\<close>

inductive op_run :: "mdb \<Rightarrow> (mop \<times> answer) list \<Rightarrow> mdb \<Rightarrow> bool" where
  op_run_nil: "op_run db [] db"
| op_run_step:
    "fresh_env env db \<Longrightarrow> exec env op db = (a, db') \<Longrightarrow> op_run db' es db'' \<Longrightarrow> op_run db ((op, a) # es) db''"

inductive_cases op_run_nilE: "op_run db [] db'"
inductive_cases op_run_consE: "op_run db (e # es) db'"

lemma op_run_append: "op_run db (es @ fs) db'' \<longleftrightarrow> (\<exists>db'. op_run db es db' \<and> op_run db' fs db'')"
proof (induction es arbitrary: db)
  case Nil
  show ?case by (auto intro: op_run_nil elim: op_run_nilE)
next
  case (Cons e es)
  show ?case
    by (auto 0 4 simp: Cons.IH intro: op_run_step elim!: op_run_consE)
qed

section \<open>Events\<close>

datatype label =
    Created string bool
  | Shown string
  | Dispatched string string int
  | Released string
  | Settled string string
  | Erased "string list" "string list"
  | Quiet

text \<open>The deliveries after a change of the rows of one identifier.\<close>

abbreviation change_at :: "string \<Rightarrow> (delivery \<Rightarrow> bool) \<Rightarrow> (delivery \<Rightarrow> delivery) \<Rightarrow> mdb \<Rightarrow> mdb" where
  "change_at i p f db \<equiv>
     db\<lparr>db_deliveries := map (\<lambda>d. if dl_id d = i \<and> p d then f d else d) (db_deliveries db)\<rparr>"

section \<open>The ownership automaton\<close>

text \<open>
  Nothing is known of the identifier; an interaction without a delivery; open to both; held
  by the receiver; held by the scheduler under a claim; closed for good.
\<close>

datatype phase =
    Unknown
  | Untracked
  | Open
  | AtReceiver
  | AtScheduler "string option" int
  | Closed string

definition phase_of_delivery :: "delivery \<Rightarrow> phase" where
  "phase_of_delivery d =
     (if dl_owner d = ''stored'' \<or> dl_owner d = ''pending'' then Open
      else if dl_owner d = ''receiver_available'' then AtReceiver
      else if dl_owner d = ''dispatching'' then AtScheduler (dl_claim d) (dl_generation d)
      else Closed (dl_owner d))"

definition phase :: "mdb \<Rightarrow> string \<Rightarrow> phase" where
  "phase db i =
     (case find_delivery db i of
        Some d \<Rightarrow> phase_of_delivery d
      | None \<Rightarrow> if find_interaction db i = None then Unknown else Untracked)"

text \<open>What a label does to one identifier, and that the automaton refuses it.\<close>

fun own_next :: "string \<Rightarrow> label \<Rightarrow> phase \<Rightarrow> phase option" where
  "own_next i (Created j tracked) p =
     (if j \<noteq> i then Some p
      else if p = Unknown then Some (if tracked then Open else Untracked) else None)"
| "own_next i (Shown j) p =
     (if j \<noteq> i then Some p
      else case p of Open \<Rightarrow> Some AtReceiver | AtReceiver \<Rightarrow> Some AtReceiver | Untracked \<Rightarrow> Some Untracked
           | _ \<Rightarrow> None)"
| "own_next i (Dispatched j token g) p =
     (if j \<noteq> i then Some p else if p = Open then Some (AtScheduler (Some token) g) else None)"
| "own_next i (Released j) p =
     (if j \<noteq> i then Some p else case p of AtScheduler _ _ \<Rightarrow> Some Open | _ \<Rightarrow> None)"
| "own_next i (Settled j s) p =
     (if j \<noteq> i then Some p
      else case p of AtScheduler _ _ \<Rightarrow> Some (Closed s) | Open \<Rightarrow> Some (Closed s) | _ \<Rightarrow> None)"
| "own_next i (Erased gone ids) p =
     (if i \<in> set ids then Some Unknown
      else if i \<in> set gone then Some (if p = Unknown then Unknown else Untracked) else Some p)"
| "own_next i Quiet p = Some p"

fun own_run :: "string \<Rightarrow> label list \<Rightarrow> phase \<Rightarrow> phase option" where
  "own_run i [] p = Some p"
| "own_run i (l # ls) p = (case own_next i l p of None \<Rightarrow> None | Some p' \<Rightarrow> own_run i ls p')"

lemma own_run_append:
  "own_run i (ls @ ms) p = (case own_run i ls p of None \<Rightarrow> None | Some p' \<Rightarrow> own_run i ms p')"
  by (induction ls arbitrary: p) (auto split: option.splits)

end
