(* ===== verification/Messaging_Events.thy ===== *)
theory Messaging_Events
  imports Messaging_Machine
begin

text \<open>
  The events of the store of messages, and what a sound store is: the constraints of the
  schema, references that lead somewhere, owners that fit the operation, every reply record
  with the reply it stands for, and every bound turn with the delivery that accepted it.
\<close>

section \<open>Sound stores\<close>

definition keys_ok :: "mdb \<Rightarrow> bool" where
  "keys_ok db \<longleftrightarrow>
     distinct (map ix_id (db_interactions db)) \<and> distinct (map dl_id (db_deliveries db))
     \<and> distinct (map sr_request (db_replies db)) \<and> distinct (map tt_request (db_turns db))"

definition ack_backed :: "mdb \<Rightarrow> string \<Rightarrow> int \<Rightarrow> bool" where
  "ack_backed db r s \<longleftrightarrow> s = 0 \<or> (\<exists>c \<in> set (db_cursors db). cu_recipient c = r \<and> cu_seq c = s)"

definition sequences_ok :: "mdb \<Rightarrow> bool" where
  "sequences_ok db \<longleftrightarrow>
     sorted_wrt (<) (map av_seq (db_avail db)) \<and> 0 \<le> db_last db
     \<and> (\<forall>a \<in> set (db_avail db). 1 \<le> av_seq a \<and> av_seq a \<le> db_last db)
     \<and> (\<forall>c \<in> set (db_cursors db). 0 \<le> cu_seq c \<and> cu_seq c \<le> db_last db)
     \<and> (\<forall>(r, s) \<in> set (db_acks db). ack_backed db r s)"

definition inline_ok :: "interaction \<Rightarrow> bool" where
  "inline_ok r \<longleftrightarrow> (\<exists>b. ix_body r = InlineBody b \<and> length b \<le> max_message_bytes)"

definition task_fits :: "mdb \<Rightarrow> delivery \<Rightarrow> interaction \<Rightarrow> bool" where
  "task_fits db d r \<longleftrightarrow>
     ix_kind r = ITask \<and> ix_targets r = [dl_recipient d]
     \<and> (ix_sender r = None \<longrightarrow> host_automation_provenance db (dl_id d) \<noteq> None)
     \<and> (case find_reply db (dl_id d) of None \<Rightarrow> ix_status r = IAwaitingReply
        | Some q \<Rightarrow> sr_target q = dl_recipient d)"

definition fits :: "mdb \<Rightarrow> delivery \<Rightarrow> interaction \<Rightarrow> bool" where
  "fits db d r \<longleftrightarrow>
     ix_id r = dl_id d
     \<and> (dl_operation d = ''followup_task'' \<and> task_fits db d r
        \<or> dl_operation d = ''send_message'' \<and> ix_kind r = IMessage
        \<or> dl_operation d = ''reply'' \<and> ix_kind r = IReply)"

definition references_ok :: "mdb \<Rightarrow> bool" where
  "references_ok db \<longleftrightarrow>
     (\<forall>d \<in> set (db_deliveries db). \<exists>r \<in> set (db_interactions db). fits db d r)
     \<and> (\<forall>a \<in> set (db_avail db). \<exists>r \<in> set (db_interactions db). ix_id r = av_id a \<and> inline_ok r)"

definition legal_owner :: "delivery \<Rightarrow> bool" where
  "legal_owner d \<longleftrightarrow>
     dl_owner d \<in> {''stored'', ''pending'', ''receiver_available'', ''dispatching'',
                   ''blocked_stale_origin'', ''blocked_legacy_uncertain''} \<union> set scheduler_states
     \<and> (dl_owner d = ''dispatching'' \<longrightarrow> dl_claim d \<noteq> None)
     \<and> (dl_owner d = ''stored'' \<longrightarrow> dl_operation d \<noteq> ''followup_task'')
     \<and> (dl_owner d = ''pending'' \<longrightarrow> dl_operation d = ''followup_task'')"

definition owners_ok :: "mdb \<Rightarrow> bool" where
  "owners_ok db \<longleftrightarrow> (\<forall>d \<in> set (db_deliveries db). legal_owner d)"

definition reply_tracked :: "mdb \<Rightarrow> interaction \<Rightarrow> bool" where
  "reply_tracked db r \<longleftrightarrow>
     (\<exists>p q. ix_parent r = Some p \<and> find_reply db p = Some q \<and> ix_sender r = Some (sr_target q))"

definition replies_ok :: "mdb \<Rightarrow> bool" where
  "replies_ok db \<longleftrightarrow> (\<forall>r \<in> set (db_interactions db). ix_kind r = IReply \<longrightarrow> reply_tracked db r)"

definition turn_ok :: "mdb \<Rightarrow> turn_row \<Rightarrow> bool" where
  "turn_ok db t \<longleftrightarrow>
     turn_row_ok t \<and> 0 \<le> tt_generation t \<and> tt_generation t < 2 ^ 63
     \<and> (\<exists>d \<in> set (db_deliveries db). accepted_under t d)
     \<and> (\<forall>b. tt_body t = Some b \<longrightarrow> validate_message b = Inr ())
     \<and> (tt_settlement t = ''published'' \<longrightarrow> find_reply db (tt_request t) \<noteq> None)"

definition turns_ok :: "mdb \<Rightarrow> bool" where
  "turns_ok db \<longleftrightarrow> (\<forall>t \<in> set (db_turns db). turn_ok db t)"

definition sound :: "mdb \<Rightarrow> bool" where
  "sound db \<longleftrightarrow>
     keys_ok db \<and> sequences_ok db \<and> references_ok db \<and> owners_ok db \<and> replies_ok db \<and> turns_ok db"

lemmas sound_parts =
  keys_ok_def sequences_ok_def references_ok_def owners_ok_def replies_ok_def turns_ok_def

section \<open>Events\<close>

text \<open>What an admission adds to the tables.\<close>

definition admitted_tables ::
    "interaction \<Rightarrow> delivery \<Rightarrow> host_row list \<Rightarrow> mdb \<Rightarrow> mdb" where
  "admitted_tables r d hs db =
     db\<lparr>db_interactions := db_interactions db @ [r], db_deliveries := db_deliveries db @ [d],
       db_hosts := db_hosts db @ hs, db_last := db_last db + 1,
       db_avail := db_avail db @
         [\<lparr>av_seq = db_last db + 1, av_recipient = dl_recipient d, av_id = ix_id r\<rparr>]\<rparr>"

definition admissible :: "interaction \<Rightarrow> delivery \<Rightarrow> host_row list \<Rightarrow> bool" where
  "admissible r d hs \<longleftrightarrow>
     dl_id d = ix_id r \<and> inline_ok r \<and> dl_owner d \<in> {''stored'', ''pending''} \<and> legal_owner d
     \<and> (hs = [] \<or> (\<exists>h. hs = [h] \<and> ho_id h = ix_id r))
     \<and> (dl_operation d = ''followup_task'' \<and> ix_kind r = ITask \<and> ix_targets r = [dl_recipient d]
          \<and> ix_status r = IAwaitingReply \<and> (ix_sender r = None \<longrightarrow> hs \<noteq> [])
        \<or> dl_operation d = ''send_message'' \<and> ix_kind r = IMessage)"

text \<open>What an answer to a task adds: the task completed, the reply, and its delivery.\<close>

definition answered_tables ::
    "interaction \<Rightarrow> interaction \<Rightarrow> structured_reply \<Rightarrow> delivery option \<Rightarrow> mdb \<Rightarrow> mdb" where
  "answered_tables task r q d db =
     (let db1 = db\<lparr>db_interactions :=
                  map (\<lambda>o'. if ix_id o' = sr_request q then task\<lparr>ix_created := ix_created o'\<rparr> else o')
                    (db_interactions db) @ [r],
                db_replies := db_replies db @ [q]\<rparr>
      in case d of None \<Rightarrow> db1
         | Some d \<Rightarrow> db1\<lparr>db_deliveries := db_deliveries db1 @ [d], db_last := db_last db1 + 1,
                      db_avail := db_avail db1 @
                        [\<lparr>av_seq = db_last db1 + 1, av_recipient = dl_recipient d, av_id = ix_id r\<rparr>]\<rparr>)"

definition answerable ::
    "mdb \<Rightarrow> interaction \<Rightarrow> interaction \<Rightarrow> structured_reply \<Rightarrow> delivery option \<Rightarrow> bool" where
  "answerable db task r q d \<longleftrightarrow>
     find_reply db (sr_request q) = None
     \<and> (\<exists>old. find_interaction db (sr_request q) = Some old \<and> ix_kind old = ITask
          \<and> ix_targets old = [sr_target q] \<and> ix_id task = ix_id old \<and> ix_kind task = ITask
          \<and> ix_targets task = ix_targets old \<and> ix_sender task = ix_sender old \<and> ix_body task = ix_body old
          \<and> ix_parent task = ix_parent old)
     \<and> ix_kind r = IReply \<and> ix_parent r = Some (sr_request q) \<and> ix_sender r = Some (sr_target q)
     \<and> inline_ok r
     \<and> (case d of None \<Rightarrow> True
        | Some d \<Rightarrow> dl_id d = ix_id r \<and> dl_operation d = ''reply'' \<and> dl_owner d = ''stored'')"

definition erased_tables :: "string \<Rightarrow> mdb \<Rightarrow> mdb" where
  "erased_tables s db =
     (let ids = agent_interactions db s
      in db\<lparr>db_interactions := filter (\<lambda>r. ix_id r \<notin> set ids) (db_interactions db),
           db_deliveries := filter (\<lambda>d. dl_id d \<notin> set ids \<and> dl_recipient d \<noteq> s \<and> dl_sender d \<noteq> s)
             (db_deliveries db),
           db_avail := filter (\<lambda>a. av_id a \<notin> set ids \<and> av_recipient a \<noteq> s) (db_avail db),
           db_cursors := filter (\<lambda>c. cu_recipient c \<noteq> s) (db_cursors db),
           db_hosts := filter (\<lambda>h. ho_id h \<notin> set ids) (db_hosts db),
           db_acks := filter (\<lambda>a. fst a \<noteq> s) (db_acks db),
           db_replies := filter (\<lambda>r. sr_request r \<notin> set ids \<and> sr_target r \<noteq> s) (db_replies db),
           db_turns := filter (\<lambda>t. tt_request t \<notin> set ids \<and> tt_recipient t \<noteq> s
             \<and> \<not> list_ex (\<lambda>d. dl_id d = tt_request t \<and> (dl_sender d = s \<or> dl_recipient d = s))
                   (db_deliveries db)) (db_turns db)\<rparr>)"

text \<open>How the row of a turn moves: an outcome, a lost observation, a publication.\<close>

definition turn_moves :: "mdb \<Rightarrow> turn_row \<Rightarrow> turn_row \<Rightarrow> bool" where
  "turn_moves db t u \<longleftrightarrow>
     turn_row_ok u
     \<and> (tt_settlement t = ''bound''
          \<and> (u = set_settlement ''uncertain'' t
             \<or> (\<exists>st b. u = record_outcome st b t \<and> validate_message b = Inr ()))
        \<or> tt_settlement t = ''outcome_recorded'' \<and> u = set_settlement ''published'' t
          \<and> find_reply db (tt_request t) \<noteq> None)"

inductive event :: "mdb \<Rightarrow> label \<Rightarrow> mdb \<Rightarrow> bool" where
  ev_created:
    "ix_id r \<notin> known db \<Longrightarrow> admissible r d hs \<Longrightarrow>
     event db (Created (ix_id r) True) (admitted_tables r d hs db)"
| ev_answered:
    "ix_id r \<notin> known db \<Longrightarrow> answerable db task r q d \<Longrightarrow>
     event db (Created (ix_id r) (d \<noteq> None)) (answered_tables task r q d db)"
| ev_shown:
    "find_interaction db i \<noteq> None \<Longrightarrow> receivable (find_delivery db i) \<Longrightarrow>
     event db (Shown i) (claim_for_receiver env n i db)"
| ev_cursor:
    "0 \<le> cu_seq c \<Longrightarrow> cu_seq c \<le> db_last db \<Longrightarrow>
     event db Quiet (db\<lparr>db_cursors := db_cursors db @ [c]\<rparr>)"
| ev_ack: "ack_backed db r s \<Longrightarrow> 0 \<le> s \<Longrightarrow> event db Quiet (store_ack r s db)"
| ev_dispatched:
    "\<exists>d \<in> set (db_deliveries db). dl_id d = i \<and> p d \<Longrightarrow>
     (\<And>d. p d \<Longrightarrow> dl_owner d = ''stored'' \<or> dl_owner d = ''pending'') \<Longrightarrow>
     event db (Dispatched i token g) (change_at i p (dispatch_to g token) db)"
| ev_released:
    "\<exists>d \<in> set (db_deliveries db). dl_id d = i \<and> p d \<Longrightarrow>
     (\<And>d. p d \<Longrightarrow> dl_owner d = ''dispatching'') \<Longrightarrow>
     event db (Released i) (change_at i p reopen_delivery db)"
| ev_settled:
    "\<exists>d \<in> set (db_deliveries db). dl_id d = i \<and> p d \<Longrightarrow>
     (\<And>d. p d \<Longrightarrow> dl_owner d = ''dispatching'') \<Longrightarrow> s \<in> set scheduler_states \<Longrightarrow>
     event db (Settled i s) (change_at i p (settle_delivery s) db)"
| ev_blocked:
    "\<exists>d \<in> set (db_deliveries db). dl_id d = i \<and> p d \<Longrightarrow> (\<And>d. p d \<Longrightarrow> dl_owner d = ''stored'') \<Longrightarrow>
     s \<in> {''blocked_stale_origin'', ''blocked_legacy_uncertain''} \<Longrightarrow>
     event db (Settled i s) (change_at i p (\<lambda>d. d\<lparr>dl_owner := s, dl_cont := k d\<rparr>) db)"
| ev_waiting:
    "(\<And>d. p d \<Longrightarrow> dl_owner d = ''stored'') \<Longrightarrow>
     event db Quiet (change_at i p (\<lambda>d. d\<lparr>dl_cont := k d\<rparr>) db)"
| ev_bound:
    "\<exists>d \<in> set (db_deliveries db). dl_id d = tt_request t \<and> p d \<and> dl_recipient d = tt_recipient t
       \<and> dl_operation d = ''followup_task'' \<Longrightarrow>
     (\<And>d. p d \<Longrightarrow> dl_owner d = ''dispatching'' \<and> dl_claim d = Some (tt_claim t)
                 \<and> dl_generation d = tt_generation t) \<Longrightarrow>
     find_turn db (tt_request t) = None \<Longrightarrow> turn_row_ok t \<Longrightarrow> tt_settlement t = ''bound'' \<Longrightarrow>
     0 \<le> tt_generation t \<Longrightarrow> tt_generation t < 2 ^ 63 \<Longrightarrow>
     event db (Settled (tt_request t) ''provider_accepted'')
       (change_at (tt_request t) p (settle_delivery ''provider_accepted'')
         (db\<lparr>db_turns := db_turns db @ [t]\<rparr>))"
| ev_turns:
    "(\<And>t. t \<in> set (db_turns db) \<Longrightarrow> p t \<Longrightarrow> turn_moves db t (f t)) \<Longrightarrow>
     event db Quiet (update_turns p f db)"
| ev_erased:
    "event db (Erased (map dl_id (filter (\<lambda>d. dl_recipient d = s \<or> dl_sender d = s) (db_deliveries db)))
                (agent_interactions db s)) (erased_tables s db)"

end
