(* ===== verification/Messaging_Laws.thy ===== *)
theory Messaging_Laws
  imports Messaging_Events
begin

text \<open>
  Every event of the store keeps it sound and moves each delivery along the ownership
  automaton.
\<close>

section \<open>Look-ups\<close>

lemmas row_finds = find_interaction_def find_delivery_def find_reply_def find_turn_def

lemma find_interaction_SomeD: "find_interaction db i = Some r \<Longrightarrow> r \<in> set (db_interactions db) \<and> ix_id r = i"
  unfolding find_interaction_def by (rule find_key_Some)

lemma find_delivery_SomeD: "find_delivery db i = Some d \<Longrightarrow> d \<in> set (db_deliveries db) \<and> dl_id d = i"
  unfolding find_delivery_def by (rule find_key_Some)

lemma find_reply_SomeD: "find_reply db i = Some r \<Longrightarrow> r \<in> set (db_replies db) \<and> sr_request r = i"
  unfolding find_reply_def by (rule find_key_Some)

lemma find_turn_SomeD: "find_turn db i = Some t \<Longrightarrow> t \<in> set (db_turns db) \<and> tt_request t = i"
  unfolding find_turn_def by (rule find_key_Some)

lemma find_interaction_known: "find_interaction db i \<noteq> None \<Longrightarrow> i \<in> known db"
  by (auto simp: known_def dest!: find_interaction_SomeD)

lemma find_delivery_known: "find_delivery db i \<noteq> None \<Longrightarrow> i \<in> known db"
  by (auto simp: known_def dest!: find_delivery_SomeD)

lemma find_reply_known: "find_reply db i \<noteq> None \<Longrightarrow> i \<in> known db"
  by (auto simp: known_def dest!: find_reply_SomeD)

lemma unique_delivery:
  "keys_ok db \<Longrightarrow> d \<in> set (db_deliveries db) \<Longrightarrow> find_delivery db (dl_id d) = Some d"
  unfolding find_delivery_def keys_ok_def by (rule find_unique_row) simp_all

lemma unique_interaction:
  "keys_ok db \<Longrightarrow> r \<in> set (db_interactions db) \<Longrightarrow> find_interaction db (ix_id r) = Some r"
  unfolding find_interaction_def keys_ok_def by (rule find_unique_row) simp_all

text \<open>The rows of one kind do not depend on the other tables.\<close>

lemma finds_frame [simp]:
  "find_interaction (db\<lparr>db_deliveries := x1\<rparr>) i = find_interaction db i"
  "find_interaction (db\<lparr>db_avail := x2\<rparr>) i = find_interaction db i"
  "find_interaction (db\<lparr>db_last := x3\<rparr>) i = find_interaction db i"
  "find_interaction (db\<lparr>db_cursors := x4\<rparr>) i = find_interaction db i"
  "find_interaction (db\<lparr>db_hosts := x5\<rparr>) i = find_interaction db i"
  "find_interaction (db\<lparr>db_acks := x6\<rparr>) i = find_interaction db i"
  "find_interaction (db\<lparr>db_replies := x7\<rparr>) i = find_interaction db i"
  "find_interaction (db\<lparr>db_turns := x8\<rparr>) i = find_interaction db i"
  "find_delivery (db\<lparr>db_interactions := y1\<rparr>) i = find_delivery db i"
  "find_delivery (db\<lparr>db_avail := x2\<rparr>) i = find_delivery db i"
  "find_delivery (db\<lparr>db_last := x3\<rparr>) i = find_delivery db i"
  "find_delivery (db\<lparr>db_cursors := x4\<rparr>) i = find_delivery db i"
  "find_delivery (db\<lparr>db_hosts := x5\<rparr>) i = find_delivery db i"
  "find_delivery (db\<lparr>db_acks := x6\<rparr>) i = find_delivery db i"
  "find_delivery (db\<lparr>db_replies := x7\<rparr>) i = find_delivery db i"
  "find_delivery (db\<lparr>db_turns := x8\<rparr>) i = find_delivery db i"
  "find_reply (db\<lparr>db_interactions := y1\<rparr>) i = find_reply db i"
  "find_reply (db\<lparr>db_deliveries := x1\<rparr>) i = find_reply db i"
  "find_reply (db\<lparr>db_avail := x2\<rparr>) i = find_reply db i"
  "find_reply (db\<lparr>db_last := x3\<rparr>) i = find_reply db i"
  "find_reply (db\<lparr>db_cursors := x4\<rparr>) i = find_reply db i"
  "find_reply (db\<lparr>db_hosts := x5\<rparr>) i = find_reply db i"
  "find_reply (db\<lparr>db_acks := x6\<rparr>) i = find_reply db i"
  "find_reply (db\<lparr>db_turns := x8\<rparr>) i = find_reply db i"
  "find_turn (db\<lparr>db_interactions := y1\<rparr>) i = find_turn db i"
  "find_turn (db\<lparr>db_deliveries := x1\<rparr>) i = find_turn db i"
  "find_turn (db\<lparr>db_avail := x2\<rparr>) i = find_turn db i"
  "find_turn (db\<lparr>db_last := x3\<rparr>) i = find_turn db i"
  "find_turn (db\<lparr>db_cursors := x4\<rparr>) i = find_turn db i"
  "find_turn (db\<lparr>db_hosts := x5\<rparr>) i = find_turn db i"
  "find_turn (db\<lparr>db_acks := x6\<rparr>) i = find_turn db i"
  "find_turn (db\<lparr>db_replies := x7\<rparr>) i = find_turn db i"
  "host_automation_provenance (db\<lparr>db_interactions := y1\<rparr>) i = host_automation_provenance db i"
  "host_automation_provenance (db\<lparr>db_deliveries := x1\<rparr>) i = host_automation_provenance db i"
  "host_automation_provenance (db\<lparr>db_avail := x2\<rparr>) i = host_automation_provenance db i"
  "host_automation_provenance (db\<lparr>db_last := x3\<rparr>) i = host_automation_provenance db i"
  "host_automation_provenance (db\<lparr>db_cursors := x4\<rparr>) i = host_automation_provenance db i"
  "host_automation_provenance (db\<lparr>db_acks := x6\<rparr>) i = host_automation_provenance db i"
  "host_automation_provenance (db\<lparr>db_replies := x7\<rparr>) i = host_automation_provenance db i"
  "host_automation_provenance (db\<lparr>db_turns := x8\<rparr>) i = host_automation_provenance db i"
  by (simp_all add: row_finds host_automation_provenance_def)

text \<open>A change of deliveries in place.\<close>

definition delivery_map :: "(delivery \<Rightarrow> delivery) \<Rightarrow> mdb \<Rightarrow> mdb" where
  "delivery_map g db = db\<lparr>db_deliveries := map g (db_deliveries db)\<rparr>"

definition same_message :: "(delivery \<Rightarrow> delivery) \<Rightarrow> bool" where
  "same_message g \<longleftrightarrow>
     (\<forall>d. dl_id (g d) = dl_id d \<and> dl_operation (g d) = dl_operation d \<and> dl_recipient (g d) = dl_recipient d
        \<and> dl_sender (g d) = dl_sender d)"

lemma find_delivery_map:
  "same_message g \<Longrightarrow> find_delivery (delivery_map g db) i = map_option g (find_delivery db i)"
  by (simp add: find_delivery_def delivery_map_def same_message_def find_map_row)

lemma finds_delivery_map [simp]:
  "find_interaction (delivery_map g db) i = find_interaction db i"
  "find_reply (delivery_map g db) i = find_reply db i"
  "find_turn (delivery_map g db) i = find_turn db i"
  "host_automation_provenance (delivery_map g db) i = host_automation_provenance db i"
  by (simp_all add: delivery_map_def)

text \<open>
  It keeps the store sound when it keeps owners legal and leaves every delivery that a turn
  depends on.
\<close>

lemma sound_delivery_map:
  assumes db: "sound db" and g: "same_message g"
    and owner: "\<And>d. d \<in> set (db_deliveries db) \<Longrightarrow> legal_owner d \<Longrightarrow> legal_owner (g d)"
    and final: "\<And>d. dl_owner d = ''provider_accepted'' \<Longrightarrow>
      dl_owner (g d) = ''provider_accepted'' \<and> dl_claim (g d) = dl_claim d \<and> dl_generation (g d) = dl_generation d"
  shows "sound (delivery_map g db)"
proof -
  have ids: "map dl_id (map g (db_deliveries db)) = map dl_id (db_deliveries db)"
    using g by (simp add: same_message_def)
  have keys: "keys_ok (delivery_map g db)"
    using db by (simp add: sound_def keys_ok_def delivery_map_def ids del: map_map)
  have seqs: "sequences_ok (delivery_map g db)"
    using db by (simp add: sound_def sequences_ok_def delivery_map_def ack_backed_def)
  have "fits (delivery_map g db) (g d) r \<longleftrightarrow> fits db d r" for d r
    using g by (simp add: fits_def task_fits_def same_message_def cong: option.case_cong)
  then have refs: "references_ok (delivery_map g db)"
    using db by (auto simp: sound_def references_ok_def delivery_map_def)
  have owners: "owners_ok (delivery_map g db)"
    using db owner by (auto simp: sound_def owners_ok_def delivery_map_def)
  have replies: "replies_ok (delivery_map g db)"
    using db by (simp add: sound_def replies_ok_def reply_tracked_def delivery_map_def)
  have "accepted_under t d \<Longrightarrow> accepted_under t (g d)" for t d
    using g final [of d] by (simp add: accepted_under_def same_message_def)
  then have "turn_ok db t \<Longrightarrow> turn_ok (delivery_map g db) t" for t
    by (auto simp: turn_ok_def delivery_map_def)
  then have turns: "turns_ok (delivery_map g db)"
    using db by (simp add: sound_def turns_ok_def delivery_map_def)
  show ?thesis using keys seqs refs owners replies turns by (simp add: sound_def)
qed

section \<open>Events keep the store sound\<close>

definition at_id :: "string \<Rightarrow> (delivery \<Rightarrow> bool) \<Rightarrow> (delivery \<Rightarrow> delivery) \<Rightarrow> delivery \<Rightarrow> delivery" where
  "at_id i p f d = (if dl_id d = i \<and> p d then f d else d)"

lemma change_at_map: "change_at i p f db = delivery_map (at_id i p f) db"
  by (simp add: delivery_map_def at_id_def [abs_def])

lemma at_id_same:
  "(\<And>d. dl_id (f d) = dl_id d \<and> dl_operation (f d) = dl_operation d \<and> dl_recipient (f d) = dl_recipient d
     \<and> dl_sender (f d) = dl_sender d) \<Longrightarrow> same_message (at_id i p f)"
  by (simp add: same_message_def at_id_def)

lemma sound_change_at:
  assumes "sound db"
    and "\<And>d. dl_id (f d) = dl_id d \<and> dl_operation (f d) = dl_operation d \<and> dl_recipient (f d) = dl_recipient d
           \<and> dl_sender (f d) = dl_sender d"
    and "\<And>d. d \<in> set (db_deliveries db) \<Longrightarrow> p d \<Longrightarrow> legal_owner d \<Longrightarrow> legal_owner (f d)"
    and "\<And>d. p d \<Longrightarrow> dl_owner d \<noteq> ''provider_accepted''"
  shows "sound (change_at i p f db)"
  unfolding change_at_map
proof (rule sound_delivery_map [OF assms(1)])
  show "same_message (at_id i p f)" by (rule at_id_same) (rule assms(2))
qed (use assms(3,4) in \<open>auto simp: at_id_def\<close>)

lemma sound_shown:
  assumes "sound db"
  shows "sound (claim_for_receiver env n i db)"
  unfolding claim_for_receiver_def update_deliveries_def snd_conv
  by (rule sound_change_at [OF assms]) (auto simp: legal_owner_def)

lemma sound_dispatched:
  assumes "sound db" and "\<And>d. p d \<Longrightarrow> dl_owner d = ''stored'' \<or> dl_owner d = ''pending''"
  shows "sound (change_at i p (dispatch_to g token) db)"
  by (rule sound_change_at [OF assms(1)]) (use assms(2) in \<open>fastforce simp: dispatch_to_def legal_owner_def\<close>)+

lemma sound_released:
  assumes "sound db" and p: "\<And>d. p d \<Longrightarrow> dl_owner d = ''dispatching''"
  shows "sound (change_at i p reopen_delivery db)"
  by (rule sound_change_at [OF assms(1)]) (auto simp: reopen_delivery_def legal_owner_def dest: p)

lemma settled_legal: "s \<in> set scheduler_states \<Longrightarrow> legal_owner (settle_delivery s d)"
  by (auto simp: legal_owner_def settle_delivery_def scheduler_states_def)

lemma settle_same:
  "dl_id (settle_delivery s d) = dl_id d \<and> dl_operation (settle_delivery s d) = dl_operation d
     \<and> dl_recipient (settle_delivery s d) = dl_recipient d \<and> dl_sender (settle_delivery s d) = dl_sender d"
  by (simp add: settle_delivery_def)

lemma sound_settled:
  assumes "sound db" and p: "\<And>d. p d \<Longrightarrow> dl_owner d = ''dispatching''" and s: "s \<in> set scheduler_states"
  shows "sound (change_at i p (settle_delivery s) db)"
proof (rule sound_change_at [OF assms(1) settle_same])
  show "legal_owner (settle_delivery s d)" for d by (rule settled_legal [OF s])
qed (auto dest: p)

lemma sound_blocked:
  assumes "sound db" and p: "\<And>d. p d \<Longrightarrow> dl_owner d = ''stored''"
    and s: "s \<in> {''blocked_stale_origin'', ''blocked_legacy_uncertain''}"
  shows "sound (change_at i p (\<lambda>d. d\<lparr>dl_owner := s, dl_cont := k d\<rparr>) db)"
  by (rule sound_change_at [OF assms(1)]) (use s in \<open>auto simp: legal_owner_def dest: p\<close>)

lemma sound_waiting:
  assumes "sound db" and p: "\<And>d. p d \<Longrightarrow> dl_owner d = ''stored''"
  shows "sound (change_at i p (\<lambda>d. d\<lparr>dl_cont := k d\<rparr>) db)"
  by (rule sound_change_at [OF assms(1)]) (auto simp: legal_owner_def dest: p)

lemma sound_cursor:
  assumes "sound db" and "0 \<le> cu_seq c" and "cu_seq c \<le> db_last db"
  shows "sound (db\<lparr>db_cursors := db_cursors db @ [c]\<rparr>)"
  using assms
  by (auto simp: sound_def sound_parts ack_backed_def fits_def task_fits_def reply_tracked_def turn_ok_def
      cong: option.case_cong)

lemma set_alist_update: "set (AList.update k v al) \<subseteq> insert (k, v) (set al)"
  by (induction al) auto

lemma sound_ack:
  assumes "sound db" and "ack_backed db r s"
  shows "sound (store_ack r s db)"
proof -
  let ?new = "case map_of (db_acks db) r of None \<Rightarrow> s | Some old \<Rightarrow> max old s"
  have old: "ack_backed db r old" if "map_of (db_acks db) r = Some old" for old
    using assms(1) map_of_SomeD [OF that] by (auto simp: sound_def sequences_ok_def)
  have "ack_backed db r ?new" using assms(2) old by (auto simp: max_def split: option.splits)
  moreover have "set (AList.update r ?new (db_acks db)) \<subseteq> insert (r, ?new) (set (db_acks db))"
    by (rule set_alist_update)
  ultimately show ?thesis
    using assms(1)
    by (auto simp: sound_def sound_parts store_ack_def ack_backed_def fits_def task_fits_def reply_tracked_def
        turn_ok_def cong: option.case_cong)
qed

text \<open>An admission.\<close>

lemma admitted_finds:
  "find_reply (admitted_tables r d hs db) i = find_reply db i"
  "host_automation_provenance db i \<noteq> None \<Longrightarrow>
     host_automation_provenance (admitted_tables r d hs db) i = host_automation_provenance db i"
  by (auto simp: admitted_tables_def find_reply_def host_automation_provenance_def row_simps
      split: option.splits)

lemma admitted_provenance:
  assumes "ix_id r \<notin> known db" and "admissible r d hs" and "hs \<noteq> []"
  shows "host_automation_provenance (admitted_tables r d hs db) (ix_id r) \<noteq> None"
proof -
  obtain h where h: "hs = [h]" "ho_id h = ix_id r" using assms(2,3) by (auto simp: admissible_def)
  have "find (\<lambda>h. ho_id h = ix_id r) (db_hosts db) = None"
    using assms(1) by (auto simp: find_key_None known_def)
  with h show ?thesis by (simp add: admitted_tables_def host_automation_provenance_def row_simps)
qed

lemma fits_mono:
  assumes "fits db d r" and "find_reply db' (dl_id d) = find_reply db (dl_id d)"
    and "host_automation_provenance db (dl_id d) \<noteq> None \<Longrightarrow> host_automation_provenance db' (dl_id d) \<noteq> None"
  shows "fits db' d r"
  using assms by (auto simp: fits_def task_fits_def split: option.splits)

lemma fits_admitted:
  assumes "ix_id r \<notin> known db" and "admissible r d hs"
  shows "fits (admitted_tables r d hs db) d r"
proof -
  have "find_reply db (ix_id r) = None" using assms(1) find_reply_known by blast
  then have "find_reply (admitted_tables r d hs db) (ix_id r) = None" by (simp add: admitted_finds)
  then show ?thesis
    using assms(2) admitted_provenance [OF assms] by (auto simp: admissible_def fits_def task_fits_def)
qed

lemma sound_created:
  assumes db: "sound db" and new: "ix_id r \<notin> known db" and ok: "admissible r d hs"
  shows "sound (admitted_tables r d hs db)"
proof -
  let ?db = "admitted_tables r d hs db"
  have id: "dl_id d = ix_id r" using ok by (simp add: admissible_def)
  have keys: "keys_ok ?db"
    using db new id by (auto simp: sound_def keys_ok_def admitted_tables_def known_def)
  have seqs: "sequences_ok ?db"
    using db by (fastforce simp: sound_def sequences_ok_def admitted_tables_def sorted_wrt_append ack_backed_def)
  have old: "\<exists>r' \<in> set (db_interactions ?db). fits ?db e r'" if "e \<in> set (db_deliveries db)" for e
  proof -
    obtain r' where r': "r' \<in> set (db_interactions db)" "fits db e r'"
      using db \<open>e \<in> _\<close> by (auto simp: sound_def references_ok_def)
    have "fits ?db e r'" by (rule fits_mono [OF r'(2)]) (simp_all add: admitted_finds)
    with r'(1) have "r' \<in> set (db_interactions ?db)" "fits ?db e r'" by (simp_all add: admitted_tables_def)
    then show ?thesis by blast
  qed
  have "fits ?db d r" "r \<in> set (db_interactions ?db)"
    using fits_admitted [OF new ok] by (simp_all add: admitted_tables_def)
  with old have "\<exists>r' \<in> set (db_interactions ?db). fits ?db e r'" if "e \<in> set (db_deliveries ?db)" for e
    using that by (auto simp: admitted_tables_def)
  moreover have "inline_ok r" using ok by (simp add: admissible_def)
  ultimately have refs: "references_ok ?db"
    using db by (auto simp: sound_def references_ok_def admitted_tables_def)
  have owners: "owners_ok ?db"
    using db ok by (auto simp: sound_def owners_ok_def admitted_tables_def admissible_def)
  have kind: "ix_kind r \<noteq> IReply" using ok by (auto simp: admissible_def)
  have "reply_tracked db r' \<Longrightarrow> reply_tracked ?db r'" for r' by (simp add: reply_tracked_def admitted_finds)
  then have replies: "replies_ok ?db"
    using db kind by (auto simp: sound_def replies_ok_def admitted_tables_def)
  have "turn_ok db t \<Longrightarrow> turn_ok ?db t" for t
    unfolding turn_ok_def admitted_finds by (auto simp: admitted_tables_def)
  then have turns: "turns_ok ?db" using db by (simp add: sound_def turns_ok_def admitted_tables_def)
  show ?thesis using keys seqs refs owners replies turns by (simp add: sound_def)
qed

text \<open>An answer to a task.\<close>

lemma answered_fields:
  "db_turns (answered_tables task r q d db) = db_turns db"
  "db_hosts (answered_tables task r q d db) = db_hosts db"
  "db_cursors (answered_tables task r q d db) = db_cursors db"
  "db_acks (answered_tables task r q d db) = db_acks db"
  "db_replies (answered_tables task r q d db) = db_replies db @ [q]"
  "db_interactions (answered_tables task r q d db) =
     map (\<lambda>o'. if ix_id o' = sr_request q then task\<lparr>ix_created := ix_created o'\<rparr> else o') (db_interactions db) @ [r]"
  "db_deliveries (answered_tables task r q d db) = db_deliveries db @ (case d of None \<Rightarrow> [] | Some d \<Rightarrow> [d])"
  "db_last (answered_tables task r q d db) = db_last db + (if d = None then 0 else 1)"
  "db_avail (answered_tables task r q d db) = db_avail db @
     (case d of None \<Rightarrow> []
      | Some d \<Rightarrow> [\<lparr>av_seq = db_last db + 1, av_recipient = dl_recipient d, av_id = ix_id r\<rparr>])"
  by (simp_all add: answered_tables_def Let_def split: option.splits)

lemma answered_reply:
  assumes "find_reply db (sr_request q) = None"
  shows "find_reply (answered_tables task r q d db) i = (if i = sr_request q then Some q else find_reply db i)"
  using assms by (auto simp: find_reply_def answered_fields row_simps split: option.splits)

lemma answered_provenance:
  "host_automation_provenance (answered_tables task r q d db) i = host_automation_provenance db i"
  by (simp add: host_automation_provenance_def answered_fields)

lemma sound_answered:
  assumes db: "sound db" and new: "ix_id r \<notin> known db" and ok: "answerable db task r q d"
  shows "sound (answered_tables task r q d db)"
proof -
  let ?db = "answered_tables task r q d db" and ?p = "sr_request q"
  have fresh: "find_reply db ?p = None" using ok by (simp add: answerable_def)
  note replies' = answered_reply [OF fresh]
  obtain old where old: "find_interaction db ?p = Some old" "ix_kind old = ITask" "ix_targets old = [sr_target q]"
      "ix_id task = ix_id old" "ix_kind task = ITask" "ix_targets task = ix_targets old"
      "ix_sender task = ix_sender old" "ix_body task = ix_body old"
    using ok by (auto simp: answerable_def)
  have old': "old \<in> set (db_interactions db)" "ix_id old = ?p" using find_interaction_SomeD [OF old(1)] by auto
  let ?up = "\<lambda>o'. if ix_id o' = ?p then task\<lparr>ix_created := ix_created o'\<rparr> else o'"
  have upid: "ix_id (?up o') = ix_id o'" for o' using old(4) old'(2) by simp
  have single: "o' = old" if "o' \<in> set (db_interactions db)" "ix_id o' = ?p" for o'
    using unique_interaction [of db o'] db that old(1) by (simp add: sound_def)
  have notin: "ix_id r \<notin> dl_id ` set (db_deliveries db)" "ix_id r \<notin> ix_id ` set (db_interactions db)"
    using new by (simp_all add: known_def)
  have ids: "map ix_id (db_interactions ?db) = map ix_id (db_interactions db) @ [ix_id r]"
    unfolding answered_fields using upid by simp
  have did: "dl_id e = ix_id r" "dl_operation e = ''reply''" "dl_owner e = ''stored''" if "d = Some e" for e
    using ok that by (auto simp: answerable_def)
  have keys: "keys_ok ?db"
  proof -
    have "sr_request q \<notin> sr_request ` set (db_replies db)"
      using fresh by (simp add: find_reply_def find_key_None)
    then show ?thesis
      unfolding keys_ok_def ids using db notin did
      by (auto simp: sound_def keys_ok_def answered_fields split: option.splits)
  qed
  have seqs: "sequences_ok ?db"
    using db by (cases d)
      (fastforce simp: sound_def sequences_ok_def answered_fields sorted_wrt_append ack_backed_def)+
  have kept: "\<exists>r' \<in> set (db_interactions ?db). fits ?db e r'" if e: "e \<in> set (db_deliveries db)" for e
  proof -
    obtain r' where r': "r' \<in> set (db_interactions db)" "fits db e r'"
      using db e by (auto simp: sound_def references_ok_def)
    have "fits ?db e (?up r')"
    proof (cases "ix_id r' = ?p")
      case False
      then show ?thesis
        using r'(2) by (auto simp: fits_def task_fits_def replies' answered_provenance split: option.splits)
    next
      case True
      then have "r' = old" by (rule single [OF r'(1)])
      then show ?thesis
        using r'(2) True old old'(2) fresh
        by (auto simp: fits_def task_fits_def replies' answered_provenance)
    qed
    with r'(1) show ?thesis by (auto simp: answered_fields)
  qed
  have "ix_kind r = IReply" and inl: "inline_ok r" using ok by (auto simp: answerable_def)
  then have "fits ?db e r" if "d = Some e" for e using did [OF that] by (simp add: fits_def)
  then have new_fits: "\<exists>r' \<in> set (db_interactions ?db). fits ?db e r'" if "d = Some e" for e
    using that by (auto simp: answered_fields)
  have inline: "\<exists>r' \<in> set (db_interactions ?db). ix_id r' = av_id a \<and> inline_ok r'"
    if a: "a \<in> set (db_avail db)" for a
  proof -
    obtain r' where r': "r' \<in> set (db_interactions db)" "ix_id r' = av_id a" "inline_ok r'"
      using db a by (auto simp: sound_def references_ok_def)
    have "inline_ok (?up r')" using r'(3) single [OF r'(1)] old(8) by (auto simp: inline_ok_def)
    moreover have "ix_id (?up r') = av_id a" using upid r'(2) by metis
    moreover have "?up r' \<in> set (db_interactions ?db)"
      unfolding answered_fields set_append set_map using r'(1) by blast
    ultimately show ?thesis by blast
  qed
  have refs: "references_ok ?db"
    unfolding references_ok_def
  proof (intro conjI ballI)
    fix e assume "e \<in> set (db_deliveries ?db)"
    then show "\<exists>r' \<in> set (db_interactions ?db). fits ?db e r'"
      using kept new_fits by (auto simp: answered_fields(7) split: option.splits)
  next
    fix a assume "a \<in> set (db_avail ?db)"
    then show "\<exists>r' \<in> set (db_interactions ?db). ix_id r' = av_id a \<and> inline_ok r'"
      using inline inl by (auto simp: answered_fields split: option.splits)
  qed
  have owners: "owners_ok ?db"
    using db did by (auto simp: sound_def owners_ok_def answered_fields legal_owner_def split: option.splits)
  have "reply_tracked ?db o'" if o': "reply_tracked db o'" for o'
  proof -
    obtain p0 q0 where p0: "ix_parent o' = Some p0" "find_reply db p0 = Some q0" "ix_sender o' = Some (sr_target q0)"
      using o' by (auto simp: reply_tracked_def)
    then have "p0 \<noteq> ?p" using fresh by auto
    with p0 show ?thesis by (simp add: reply_tracked_def replies')
  qed
  moreover have "reply_tracked ?db r" using ok by (auto simp: reply_tracked_def replies' answerable_def)
  moreover have "\<forall>o' \<in> set (db_interactions db). ix_kind o' = IReply \<longrightarrow> reply_tracked db o'"
    using db by (simp add: sound_def replies_ok_def)
  ultimately have repl: "replies_ok ?db"
    unfolding replies_ok_def answered_fields set_append set_map using old(5) by auto
  have "turn_ok db t \<Longrightarrow> turn_ok ?db t" for t
    by (auto simp: turn_ok_def replies' answered_fields)
  then have turns: "turns_ok ?db" using db by (simp add: sound_def turns_ok_def answered_fields)
  show ?thesis using keys seqs refs owners repl turns by (simp add: sound_def)
qed

text \<open>A turn that is bound, and a turn that moves.\<close>

lemma sound_bound:
  assumes db: "sound db"
    and d: "\<exists>d \<in> set (db_deliveries db). dl_id d = tt_request t \<and> p d \<and> dl_recipient d = tt_recipient t
       \<and> dl_operation d = ''followup_task''"
    and p: "\<And>d. p d \<Longrightarrow> dl_owner d = ''dispatching'' \<and> dl_claim d = Some (tt_claim t)
                 \<and> dl_generation d = tt_generation t"
    and t: "find_turn db (tt_request t) = None" "turn_row_ok t" "tt_settlement t = ''bound''"
      "0 \<le> tt_generation t" "tt_generation t < 2 ^ 63"
  shows "sound (change_at (tt_request t) p (settle_delivery ''provider_accepted'')
         (db\<lparr>db_turns := db_turns db @ [t]\<rparr>))" (is "sound ?db")
proof -
  let ?mid = "change_at (tt_request t) p (settle_delivery ''provider_accepted'') db"
  have eq: "?db = ?mid\<lparr>db_turns := db_turns db @ [t]\<rparr>" by simp
  have mid: "sound ?mid"
    by (rule sound_settled [OF db]) (use p in \<open>auto simp: scheduler_states_def\<close>)
  obtain d where "d \<in> set (db_deliveries db)" "dl_id d = tt_request t" "p d" "dl_recipient d = tt_recipient t"
      "dl_operation d = ''followup_task''"
    using d by blast
  then have "settle_delivery ''provider_accepted'' d \<in> set (db_deliveries ?mid)"
    and "accepted_under t (settle_delivery ''provider_accepted'' d)"
    using p [of d] by (force, simp add: accepted_under_def settle_delivery_def)
  then have acc: "\<exists>d \<in> set (db_deliveries ?mid). accepted_under t d" by blast
  have "tt_body t = None" using t(2,3) by (auto simp: turn_row_ok_def)
  then have ok: "turn_ok ?mid t" using t acc by (simp add: turn_ok_def)
  have "tt_request t \<notin> tt_request ` set (db_turns db)"
    using t(1) by (simp add: find_turn_def find_key_None)
  with mid ok show ?thesis
    unfolding eq
    by (auto simp: sound_def sound_parts ack_backed_def fits_def task_fits_def reply_tracked_def turn_ok_def
        cong: option.case_cong)
qed

lemma turn_moves_keys:
  assumes "turn_moves db t u"
  shows "tt_request u = tt_request t \<and> tt_claim u = tt_claim t \<and> tt_recipient u = tt_recipient t
    \<and> tt_generation u = tt_generation t"
  using assms by (auto simp: turn_moves_def set_settlement_def record_outcome_def)

lemma turn_moves_ok: "turn_ok db t \<Longrightarrow> turn_moves db t u \<Longrightarrow> turn_ok db u"
  by (auto simp: turn_ok_def turn_moves_def set_settlement_def record_outcome_def accepted_under_def)

lemma sound_turns:
  assumes db: "sound db" and p: "\<And>t. t \<in> set (db_turns db) \<Longrightarrow> p t \<Longrightarrow> turn_moves db t (f t)"
  shows "sound (update_turns p f db)"
proof -
  let ?g = "\<lambda>t. if p t then f t else t"
  have "tt_request (?g t) = tt_request t" if "t \<in> set (db_turns db)" for t
    using turn_moves_keys [OF p [OF that]] by auto
  then have ids: "map tt_request (map ?g (db_turns db)) = map tt_request (db_turns db)" by simp
  have ok: "turn_ok db u" if u: "u \<in> set (map ?g (db_turns db))" for u
  proof -
    obtain t where t: "t \<in> set (db_turns db)" "u = ?g t" using u by (simp only: set_map image_iff) blast
    then have "turn_ok db t" using db by (simp add: sound_def turns_ok_def)
    with t turn_moves_ok [OF _ p [OF t(1)]] show ?thesis by auto
  qed
  have "turn_ok (update_turns p f db) u = turn_ok db u" for u by (simp add: turn_ok_def update_turns_def)
  moreover have "db_turns (update_turns p f db) = map ?g (db_turns db)" by (simp add: update_turns_def)
  ultimately have turns: "turns_ok (update_turns p f db)" using ok by (simp only: turns_ok_def) blast
  have "keys_ok (update_turns p f db)"
    using db ids by (simp add: sound_def keys_ok_def update_turns_def del: map_map)
  with db turns show ?thesis
    by (simp add: sound_def sound_parts update_turns_def ack_backed_def fits_def task_fits_def reply_tracked_def
        cong: option.case_cong)
qed

text \<open>The deletion of an agent.\<close>

lemma with_descendants_grows: "set ids \<subseteq> set (with_descendants cs ids)"
proof (induction cs ids rule: with_descendants.induct)
  case (1 cs ids)
  then show ?case by (subst with_descendants.simps) auto
qed

lemma with_descendants_closed: "descendants cs (with_descendants cs ids) = []"
proof (induction cs ids rule: with_descendants.induct)
  case (1 cs ids)
  then show ?case by (subst with_descendants.simps) (auto simp: with_descendants.simps [of cs ids])
qed

lemma agent_interactions_own:
  "r \<in> set (db_interactions db) \<Longrightarrow> ix_sender r = Some s \<or> s \<in> set (ix_targets r)
     \<Longrightarrow> ix_id r \<in> set (agent_interactions db s)"
  unfolding agent_interactions_def by (rule subsetD [OF with_descendants_grows]) auto

lemma agent_interactions_closed:
  "r \<in> set (db_interactions db) \<Longrightarrow> ix_parent r = Some p \<Longrightarrow> p \<in> set (agent_interactions db s)
     \<Longrightarrow> ix_id r \<in> set (agent_interactions db s)"
  using with_descendants_closed [of "db_interactions db"]
  unfolding agent_interactions_def descendants_def by (fastforce simp: filter_empty_conv)

lemma erased_fields:
  "db_interactions (erased_tables s db) =
     filter (\<lambda>r. ix_id r \<notin> set (agent_interactions db s)) (db_interactions db)"
  "db_deliveries (erased_tables s db) =
     filter (\<lambda>d. dl_id d \<notin> set (agent_interactions db s) \<and> dl_recipient d \<noteq> s \<and> dl_sender d \<noteq> s)
       (db_deliveries db)"
  "db_avail (erased_tables s db) =
     filter (\<lambda>a. av_id a \<notin> set (agent_interactions db s) \<and> av_recipient a \<noteq> s) (db_avail db)"
  "db_cursors (erased_tables s db) = filter (\<lambda>c. cu_recipient c \<noteq> s) (db_cursors db)"
  "db_hosts (erased_tables s db) = filter (\<lambda>h. ho_id h \<notin> set (agent_interactions db s)) (db_hosts db)"
  "db_acks (erased_tables s db) = filter (\<lambda>a. fst a \<noteq> s) (db_acks db)"
  "db_replies (erased_tables s db) =
     filter (\<lambda>r. sr_request r \<notin> set (agent_interactions db s) \<and> sr_target r \<noteq> s) (db_replies db)"
  "db_turns (erased_tables s db) =
     filter (\<lambda>t. tt_request t \<notin> set (agent_interactions db s) \<and> tt_recipient t \<noteq> s
       \<and> \<not> list_ex (\<lambda>d. dl_id d = tt_request t \<and> (dl_sender d = s \<or> dl_recipient d = s)) (db_deliveries db))
       (db_turns db)"
  "db_last (erased_tables s db) = db_last db"
  by (simp_all add: erased_tables_def Let_def)

lemma erased_reply:
  assumes "keys_ok db" and "i \<notin> set (agent_interactions db s)"
    and "\<And>q. find_reply db i = Some q \<Longrightarrow> sr_target q \<noteq> s"
  shows "find_reply (erased_tables s db) i = find_reply db i"
  unfolding find_reply_def erased_fields
proof (rule find_filter_row)
  fix q assume "q \<in> set (db_replies db)" "sr_request q = i"
  moreover from this have "find_reply db i = Some q"
    using assms(1) by (simp add: find_reply_def keys_ok_def find_unique_row)
  ultimately show "sr_request q \<notin> set (agent_interactions db s) \<and> sr_target q \<noteq> s"
    using assms(2,3) by simp
qed

lemma erased_provenance:
  "i \<notin> set (agent_interactions db s) \<Longrightarrow>
     host_automation_provenance (erased_tables s db) i = host_automation_provenance db i"
  by (simp add: host_automation_provenance_def erased_fields find_filter_row)

lemma fits_reply_target: "fits db d r \<Longrightarrow> dl_operation d = ''followup_task'' \<Longrightarrow>
    find_reply db (dl_id d) = Some q \<Longrightarrow> sr_target q = dl_recipient d"
  by (auto simp: fits_def task_fits_def)

lemma sound_erased:
  assumes db: "sound db"
  shows "sound (erased_tables s db)"
proof -
  let ?db = "erased_tables s db" and ?ids = "set (agent_interactions db s)"
  have keysdb: "keys_ok db" using db by (simp add: sound_def)
  have keys: "keys_ok ?db"
    using keysdb by (simp add: keys_ok_def erased_fields distinct_map_filter)
  have seqs: "sequences_ok ?db"
    using db by (auto simp: sound_def sequences_ok_def erased_fields sorted_wrt_map sorted_wrt_filter ack_backed_def)
  have fit: "fits ?db d r"
    if d: "d \<in> set (db_deliveries ?db)" and r: "fits db d r" for d r
  proof -
    have d': "dl_id d \<notin> ?ids" "dl_recipient d \<noteq> s" using d by (auto simp: erased_fields)
    show ?thesis
    proof (cases "dl_operation d = ''followup_task''")
      case True
      have "find_reply ?db (dl_id d) = find_reply db (dl_id d)"
        by (rule erased_reply [OF keysdb d'(1)]) (use fits_reply_target [OF r True] d'(2) in auto)
      then show ?thesis by (rule fits_mono [OF r]) (simp add: erased_provenance [OF d'(1)])
    next
      case False
      then show ?thesis using r by (simp add: fits_def)
    qed
  qed
  have refs: "references_ok ?db"
    unfolding references_ok_def
  proof (intro conjI ballI)
    fix d assume d: "d \<in> set (db_deliveries ?db)"
    then obtain r where r: "r \<in> set (db_interactions db)" "fits db d r"
      using db by (auto simp: erased_fields sound_def references_ok_def)
    have "ix_id r = dl_id d" using r(2) by (simp add: fits_def)
    with d r(1) have "r \<in> set (db_interactions ?db)" by (simp add: erased_fields)
    then show "\<exists>r \<in> set (db_interactions ?db). fits ?db d r" using fit [OF d r(2)] by blast
  next
    fix a assume "a \<in> set (db_avail ?db)"
    then show "\<exists>r \<in> set (db_interactions ?db). ix_id r = av_id a \<and> inline_ok r"
      using db by (fastforce simp: erased_fields sound_def references_ok_def)
  qed
  have owners: "owners_ok ?db" using db by (simp add: sound_def owners_ok_def erased_fields)
  have repl: "replies_ok ?db"
    unfolding replies_ok_def
  proof (intro ballI impI)
    fix r assume r: "r \<in> set (db_interactions ?db)" "ix_kind r = IReply"
    then have r': "r \<in> set (db_interactions db)" "ix_id r \<notin> ?ids" by (auto simp: erased_fields)
    with r(2) db obtain p q where p: "ix_parent r = Some p" "find_reply db p = Some q"
        "ix_sender r = Some (sr_target q)"
      by (auto simp: sound_def replies_ok_def reply_tracked_def)
    have "p \<notin> ?ids" using agent_interactions_closed [OF r'(1) p(1)] r'(2) by blast
    moreover have "sr_target q \<noteq> s" using agent_interactions_own [OF r'(1), of s] p(3) r'(2) by auto
    ultimately have "find_reply ?db p = Some q" using erased_reply [OF keysdb, of p s] p(2) by simp
    with p show "reply_tracked ?db r" by (simp add: reply_tracked_def)
  qed
  have turns: "turns_ok ?db"
    unfolding turns_ok_def
  proof
    fix t assume "t \<in> set (db_turns ?db)"
    then have t: "t \<in> set (db_turns db)" "tt_request t \<notin> ?ids" "tt_recipient t \<noteq> s"
      and nod: "\<And>d. d \<in> set (db_deliveries db) \<Longrightarrow> dl_id d = tt_request t \<Longrightarrow> dl_sender d \<noteq> s \<and> dl_recipient d \<noteq> s"
      by (auto simp: erased_fields list_ex_iff)
    have ok: "turn_ok db t" using db t(1) by (simp add: sound_def turns_ok_def)
    then obtain d where d: "d \<in> set (db_deliveries db)" "accepted_under t d" by (auto simp: turn_ok_def)
    have d': "d \<in> set (db_deliveries ?db)"
      using d t(2) nod by (auto simp: erased_fields accepted_under_def)
    obtain r where r: "fits db d r" using db d(1) by (auto simp: sound_def references_ok_def)
    have "find_reply ?db (tt_request t) = find_reply db (tt_request t)"
    proof (rule erased_reply [OF keysdb t(2)])
      fix q assume "find_reply db (tt_request t) = Some q"
      then show "sr_target q \<noteq> s" using fits_reply_target [OF r] d nod by (auto simp: accepted_under_def)
    qed
    with ok d d' show "turn_ok ?db t" by (auto simp: turn_ok_def)
  qed
  show ?thesis using keys seqs refs owners repl turns by (simp add: sound_def)
qed

theorem event_keeps_sound: "event db l db' \<Longrightarrow> sound db \<Longrightarrow> sound db'"
proof (induction rule: event.induct)
qed (blast intro: sound_created sound_answered sound_shown sound_cursor sound_ack sound_dispatched
    sound_released sound_settled sound_blocked sound_waiting sound_bound sound_turns sound_erased)+

section \<open>Events follow the ownership automaton\<close>

lemma phase_map:
  "same_message g \<Longrightarrow> phase (delivery_map g db) j =
     (case find_delivery db j of Some d \<Rightarrow> phase_of_delivery (g d)
      | None \<Rightarrow> if find_interaction db j = None then Unknown else Untracked)"
  by (simp add: phase_def find_delivery_map split: option.splits)

lemma phase_elsewhere:
  assumes "same_message (at_id i p f)" and "j \<noteq> i"
  shows "phase (delivery_map (at_id i p f) db) j = phase db j"
proof (cases "find_delivery db j")
  case (Some d)
  with assms(2) have "at_id i p f d = d" using find_delivery_SomeD [OF Some] by (simp add: at_id_def)
  with Some show ?thesis unfolding phase_map [OF assms(1)] by (simp add: phase_def)
next
  case None
  then show ?thesis unfolding phase_map [OF assms(1)] by (simp add: phase_def)
qed

text \<open>
  A change of the rows of one identifier that has one: elsewhere nothing happens, there the
  phase is that of the changed row.
\<close>

lemma own_next_change:
  assumes db: "sound db"
    and d: "\<exists>d \<in> set (db_deliveries db). dl_id d = i \<and> p d"
    and same: "\<And>d. dl_id (f d) = dl_id d \<and> dl_operation (f d) = dl_operation d \<and> dl_recipient (f d) = dl_recipient d
           \<and> dl_sender (f d) = dl_sender d"
    and there: "\<And>d. p d \<Longrightarrow> legal_owner d \<Longrightarrow> own_next i l (phase_of_delivery d) = Some (phase_of_delivery (f d))"
    and else': "\<And>j x. j \<noteq> i \<Longrightarrow> own_next j l x = Some x"
  shows "own_next j l (phase db j) = Some (phase (change_at i p f db) j)"
proof -
  have s: "same_message (at_id i p f)" by (rule at_id_same) (rule same)
  show ?thesis
  proof (cases "j = i")
    case False
    then show ?thesis using else' by (simp add: change_at_map phase_elsewhere [OF s])
  next
    case True
    obtain d where d': "d \<in> set (db_deliveries db)" "dl_id d = i" "p d" using d by blast
    have fd: "find_delivery db i = Some d"
      using unique_delivery [OF _ d'(1)] db d'(2) by (simp add: sound_def)
    have "legal_owner d" using db d'(1) by (simp add: sound_def owners_ok_def)
    moreover have "phase (change_at i p f db) i = phase_of_delivery (f d)"
      unfolding change_at_map phase_map [OF s] using fd d'(2,3) by (simp add: at_id_def)
    moreover have "phase db i = phase_of_delivery d" using fd by (simp add: phase_def)
    ultimately show ?thesis using True there [OF d'(3)] by simp
  qed
qed

lemma settled_phase:
  "s \<in> set scheduler_states \<Longrightarrow> phase_of_delivery (settle_delivery s d) = Closed s"
  by (auto simp: phase_of_delivery_def settle_delivery_def scheduler_states_def)

lemma phase_created:
  assumes db: "sound db" and "ix_id r \<notin> known db" and "admissible r d hs"
  shows "own_next j (Created (ix_id r) True) (phase db j) = Some (phase (admitted_tables r d hs db) j)"
proof -
  have id: "dl_id d = ix_id r" and ow: "phase_of_delivery d = Open"
    using assms(3) by (auto simp: admissible_def phase_of_delivery_def)
  have none: "find_delivery db (ix_id r) = None" "find_interaction db (ix_id r) = None"
    using assms(2) find_delivery_known find_interaction_known by blast+
  then show ?thesis
    using id ow
    by (auto simp: phase_def find_delivery_def find_interaction_def admitted_tables_def row_simps
        split: option.splits)
qed

lemma answered_interaction:
  assumes "ix_id task = sr_request q"
  shows "find_interaction (answered_tables task r q d db) j = None \<longleftrightarrow>
    find_interaction db j = None \<and> j \<noteq> ix_id r"
proof -
  have "ix_id (if ix_id o' = sr_request q then task\<lparr>ix_created := ix_created o'\<rparr> else o') = ix_id o'" for o'
    using assms by simp
  then have "ix_id ` set (db_interactions (answered_tables task r q d db)) =
      insert (ix_id r) (ix_id ` set (db_interactions db))"
    unfolding answered_fields set_append set_map image_Un image_image by simp
  then show ?thesis unfolding find_interaction_def find_key_None by auto
qed

lemma phase_answered:
  assumes db: "sound db" and "ix_id r \<notin> known db" and ok: "answerable db task r q d"
  shows "own_next j (Created (ix_id r) (d \<noteq> None)) (phase db j) = Some (phase (answered_tables task r q d db) j)"
proof -
  have none: "find_delivery db (ix_id r) = None" "find_interaction db (ix_id r) = None"
    using assms(2) find_delivery_known find_interaction_known by blast+
  obtain old where "find_interaction db (sr_request q) = Some old" "ix_id task = ix_id old"
    using ok by (auto simp: answerable_def)
  then have i: "find_interaction (answered_tables task r q d db) j = None \<longleftrightarrow>
      find_interaction db j = None \<and> j \<noteq> ix_id r"
    using answered_interaction [of task q r d db j] find_interaction_SomeD by fastforce
  have d: "dl_id e = ix_id r" "phase_of_delivery e = Open" if "d = Some e" for e
    using ok that by (auto simp: answerable_def phase_of_delivery_def)
  have del: "find_delivery (answered_tables task r q d db) j =
      (case find_delivery db j of None \<Rightarrow> if j = ix_id r then d else None | Some e \<Rightarrow> Some e)"
    using d by (auto simp: find_delivery_def answered_fields row_simps split: option.splits)
  show ?thesis
    using none d(2) by (auto simp: phase_def i del split: option.splits)
qed

lemma phase_shown:
  assumes db: "sound db" and i: "find_interaction db i \<noteq> None" and r: "receivable (find_delivery db i)"
  shows "own_next j (Shown i) (phase db j) = Some (phase (claim_for_receiver env n i db) j)"
proof -
  let ?p = "\<lambda>d. dl_owner d \<in> {''stored'', ''pending''}"
    and ?f = "\<lambda>d. d\<lparr>dl_owner := ''receiver_available'', dl_claim := Some (new_id env n ''claim'')\<rparr>"
  have s: "same_message (at_id i ?p ?f)" by (rule at_id_same) simp
  have eq: "claim_for_receiver env n i db = delivery_map (at_id i ?p ?f) db"
    by (simp add: claim_for_receiver_def update_deliveries_def delivery_map_def at_id_def [abs_def])
  show ?thesis
  proof (cases "j = i")
    case False
    then show ?thesis unfolding eq phase_elsewhere [OF s False] by simp
  next
    case True
    show ?thesis
    proof (cases "find_delivery db i")
      case None
      then show ?thesis using True i unfolding eq phase_map [OF s] by (simp add: phase_def)
    next
      case (Some d)
      with r have o': "dl_owner d = ''stored'' \<or> dl_owner d = ''pending'' \<or> dl_owner d = ''receiver_available''"
        by (simp add: receivable_def)
      have "dl_id d = i" using find_delivery_SomeD [OF Some] by simp
      with o' Some True show ?thesis
        unfolding eq phase_map [OF s] by (auto simp: phase_def phase_of_delivery_def at_id_def)
    qed
  qed
qed

lemma phase_erased:
  assumes db: "sound db"
  shows "own_next j (Erased (map dl_id (filter (\<lambda>d. dl_recipient d = s \<or> dl_sender d = s) (db_deliveries db)))
      (agent_interactions db s)) (phase db j) = Some (phase (erased_tables s db) j)"
proof (cases "j \<in> set (agent_interactions db s)")
  case True
  then have "find_delivery (erased_tables s db) j = None" "find_interaction (erased_tables s db) j = None"
    by (auto simp: find_delivery_def find_interaction_def erased_fields find_None_iff)
  with True show ?thesis by (simp add: phase_def)
next
  case False
  have int: "find_interaction (erased_tables s db) j = find_interaction db j"
    unfolding find_interaction_def erased_fields by (rule find_filter_row) (use False in auto)
  show ?thesis
  proof (cases "\<exists>d \<in> set (db_deliveries db). (dl_recipient d = s \<or> dl_sender d = s) \<and> dl_id d = j")
    case True
    then obtain d where d: "d \<in> set (db_deliveries db)" "dl_recipient d = s \<or> dl_sender d = s" "dl_id d = j" by blast
    then have fd: "find_delivery db j = Some d" using unique_delivery [OF _ d(1)] db by (simp add: sound_def)
    have "e = d" if "e \<in> set (db_deliveries db)" "dl_id e = j" for e
      using unique_delivery [OF _ that(1)] db that(2) fd by (simp add: sound_def)
    then have none: "find_delivery (erased_tables s db) j = None"
      using d(2) by (auto simp: find_delivery_def erased_fields find_None_iff)
    obtain r where "r \<in> set (db_interactions db)" "ix_id r = j"
      using db d(1,3) by (auto simp: sound_def references_ok_def fits_def)
    then have "find_interaction db j \<noteq> None" by (auto simp: find_interaction_def find_None_iff)
    moreover have "phase db j \<noteq> Unknown" using fd by (simp add: phase_def phase_of_delivery_def)
    ultimately show ?thesis using \<open>j \<notin> _\<close> True none int by (auto simp: phase_def)
  next
    case n: False
    have "find_delivery (erased_tables s db) j = find_delivery db j"
      unfolding find_delivery_def erased_fields by (rule find_filter_row) (use False n in auto)
    then show ?thesis using False n int by (auto simp: phase_def)
  qed
qed

lemma phase_quiet:
  assumes "find_delivery db' j = find_delivery db j" and "find_interaction db' j = find_interaction db j"
  shows "own_next j Quiet (phase db j) = Some (phase db' j)"
  using assms by (auto simp: phase_def split: option.splits)

lemma phase_waiting:
  "own_next j Quiet (phase db j) = Some (phase (change_at i p (\<lambda>d. d\<lparr>dl_cont := k d\<rparr>) db) j)"
proof -
  have s: "same_message (at_id i p (\<lambda>d. d\<lparr>dl_cont := k d\<rparr>))" by (rule at_id_same) simp
  show ?thesis
    unfolding change_at_map phase_map [OF s]
    by (simp add: phase_def at_id_def phase_of_delivery_def split: option.splits)
qed

theorem event_follows_automaton:
  assumes "event db l db'" and "sound db"
  shows "own_next j l (phase db j) = Some (phase db' j)"
  using assms
proof (cases rule: event.cases)
  case ev_created
  then show ?thesis using phase_created [OF assms(2)] by simp
next
  case ev_answered
  then show ?thesis using phase_answered [OF assms(2)] by simp
next
  case ev_shown
  then show ?thesis using phase_shown [OF assms(2)] by simp
next
  case ev_cursor
  show ?thesis unfolding ev_cursor(1,2) by (rule phase_quiet) (simp_all)
next
  case ev_ack
  show ?thesis unfolding ev_ack(1,2) by (rule phase_quiet) (simp_all add: store_ack_def)
next
  case (ev_dispatched i p token g)
  show ?thesis unfolding ev_dispatched(1,2)
    by (rule own_next_change [OF assms(2) ev_dispatched(3)])
      (use ev_dispatched(4) in \<open>fastforce simp: dispatch_to_def phase_of_delivery_def\<close>)+
next
  case (ev_released i p)
  show ?thesis unfolding ev_released(1,2)
    by (rule own_next_change [OF assms(2) ev_released(3)])
      (use ev_released(4) in \<open>auto simp: reopen_delivery_def phase_of_delivery_def\<close>)
next
  case (ev_settled i p s)
  show ?thesis unfolding ev_settled(1,2)
    by (rule own_next_change [OF assms(2) ev_settled(3) settle_same])
      (use ev_settled(4) settled_phase [OF ev_settled(5)] in \<open>auto simp: phase_of_delivery_def\<close>)
next
  case (ev_blocked i p s k)
  show ?thesis unfolding ev_blocked(1,2)
    by (rule own_next_change [OF assms(2) ev_blocked(3)])
      (use ev_blocked(4,5) in \<open>auto simp: phase_of_delivery_def\<close>)
next
  case ev_waiting
  then show ?thesis using phase_waiting by simp
next
  case (ev_bound t p)
  have "own_next j l (phase db j) =
      Some (phase (change_at (tt_request t) p (settle_delivery ''provider_accepted'') db) j)"
    unfolding ev_bound(1)
    by (rule own_next_change [OF assms(2) _ settle_same])
      (use ev_bound(3,4) settled_phase [of "''provider_accepted''"]
        in \<open>auto simp: phase_of_delivery_def scheduler_states_def\<close>)
  then show ?thesis
    unfolding ev_bound(2) by (simp add: phase_def find_delivery_def find_interaction_def cong: option.case_cong)
next
  case ev_turns
  show ?thesis unfolding ev_turns(1,2) by (rule phase_quiet) (simp_all add: update_turns_def)
next
  case ev_erased
  then show ?thesis using phase_erased [OF assms(2)] by simp
qed

end
