(* ===== verification/Messaging_Exec.thy ===== *)
theory Messaging_Exec
  imports Messaging_Laws
begin

text \<open>
  Every operation of the store of messages is a history of its events: the simulation that
  carries what holds of events to the operations.
\<close>

section \<open>Histories\<close>

inductive history :: "mdb \<Rightarrow> label list \<Rightarrow> mdb \<Rightarrow> bool" where
  history_nil: "history db [] db"
| history_step: "event db l db' \<Longrightarrow> history db' ls db'' \<Longrightarrow> history db (l # ls) db''"

inductive_cases history_nilE: "history db [] db'"
inductive_cases history_consE: "history db (l # ls) db'"

lemma history_one: "event db l db' \<Longrightarrow> history db [l] db'"
  by (auto intro: history.intros)

lemma history_append: "history db ls db' \<Longrightarrow> history db' ms db'' \<Longrightarrow> history db (ls @ ms) db''"
  by (induction rule: history.induct) (auto intro: history_step)

lemma history_sound: "history db ls db' \<Longrightarrow> sound db \<Longrightarrow> sound db'"
  by (induction rule: history.induct) (auto intro: event_keeps_sound)

lemma history_phase: "history db ls db' \<Longrightarrow> sound db \<Longrightarrow> own_run i ls (phase db i) = Some (phase db' i)"
  by (induction rule: history.induct) (simp_all add: event_follows_automaton event_keeps_sound)

text \<open>
  An operation that ends in a history: what is always true of its labels, and what is true
  when it answers with a value.
\<close>

definition does ::
    "mdb \<Rightarrow> (label list \<Rightarrow> bool) \<Rightarrow> ('a \<Rightarrow> label list \<Rightarrow> bool) \<Rightarrow> (msg_error + 'a) \<times> mdb \<Rightarrow> bool" where
  "does db A P res \<longleftrightarrow>
     (\<exists>ls. history db ls (snd res) \<and> A ls \<and> (\<forall>x. fst res = Inr x \<longrightarrow> P x ls))"

lemma does_fail: "A [] \<Longrightarrow> does db A P (Inl e, db)"
  by (auto simp: does_def intro: history_nil)

lemma does_tx:
  assumes "A []" and "\<And>x. t = Inr (None, x) \<Longrightarrow> P x []"
    and "\<And>db' x. t = Inr (Some db', x) \<Longrightarrow> \<exists>ls. history db ls db' \<and> A ls \<and> P x ls"
  shows "does db A P (run_tx env db t)"
proof (cases t)
  case (Inl e)
  then show ?thesis using assms(1) by (simp add: run_tx_def does_fail)
next
  case (Inr r)
  show ?thesis
  proof (cases "fst r")
    case None
    then show ?thesis
      using Inr assms(1,2) by (cases r) (auto simp: run_tx_def does_def intro: history_nil)
  next
    case (Some db')
    with Inr have t: "t = Inr (Some db', snd r)" by (cases r) simp
    then obtain ls where ls: "history db ls db'" "A ls" "P (snd r) ls" using assms(3) by blast
    then show ?thesis
      using t assms(1) by (cases "me_commit env") (auto simp: run_tx_def does_def intro: history_nil)
  qed
qed

lemma committing_Inr: "committing m = Inr (Some db', x) \<longleftrightarrow> m = Inr (db', x)"
  by (cases m) (auto simp: committing_def)

lemma committing_None: "committing m \<noteq> Inr (None, x)"
  by (cases m) (auto simp: committing_def)

lemma does_committing:
  assumes "A []" and "\<And>db' x. m = Inr (db', x) \<Longrightarrow> \<exists>ls. history db ls db' \<and> A ls \<and> P x ls"
  shows "does db A P (run_tx env db (committing m))"
  by (rule does_tx [where A = A and P = P]) (simp_all add: committing_Inr committing_None assms)

lemma does_weaken:
  "does db A P res \<Longrightarrow> (\<And>ls. A ls \<Longrightarrow> B ls) \<Longrightarrow> (\<And>x ls. A ls \<Longrightarrow> P x ls \<Longrightarrow> Q x ls) \<Longrightarrow> does db B Q res"
  unfolding does_def by blast

lemma does_soundly: "does db A P res \<Longrightarrow> sound db \<Longrightarrow> sound (snd res)"
  unfolding does_def by (blast intro: history_sound)

text \<open>Which labels an operation may have: only a release releases, only a deletion erases.\<close>

definition plain_label :: "label \<Rightarrow> bool" where
  "plain_label l \<longleftrightarrow> (case l of Released _ \<Rightarrow> False | Erased _ _ \<Rightarrow> False | _ \<Rightarrow> True)"

abbreviation plain :: "label list \<Rightarrow> bool" where
  "plain ls \<equiv> list_all plain_label ls"

lemma plain_simps [simp]:
  "plain_label (Created i b)" "plain_label (Shown i)" "plain_label (Dispatched i t g)"
  "plain_label (Settled i s)" "plain_label Quiet"
  by (simp_all add: plain_label_def)

lemma one_event:
  "event db l db' \<Longrightarrow> plain_label l \<Longrightarrow> Q [l] \<Longrightarrow> \<exists>ls. history db ls db' \<and> plain ls \<and> Q ls"
  by (rule exI [of _ "[l]"]) (simp add: history_one)

lemma no_event: "Q [] \<Longrightarrow> \<exists>ls. history db ls db \<and> plain ls \<and> Q ls"
  by (rule exI [of _ "[]"]) (simp add: history_nil)

section \<open>Admission\<close>

lemma fresh_new_id:
  "fresh_env env db \<Longrightarrow> pre \<in> {''ask'', ''int'', ''am1''} \<Longrightarrow> new_id env n pre \<notin> known db"
  unfolding fresh_env_def by blast

lemma upsert_new: "ix_id r \<notin> known db \<Longrightarrow>
    upsert_interaction r db = db\<lparr>db_interactions := db_interactions db @ [r]\<rparr>"
  using find_interaction_known [of db "ix_id r"] by (auto simp: upsert_interaction_def)

lemma validate_message_ok: "validate_message m = Inr u \<longleftrightarrow> trim m \<noteq> [] \<and> length m \<le> max_message_bytes"
  by (auto simp: validate_message_def)

lemma guard_err_ok [simp]: "guard_err b c m = Inr u \<longleftrightarrow> \<not> b"
  by (simp add: guard_err_def)

lemma guard_err_False [simp]: "guard_err False c m = Inr ()"
  by (simp add: guard_err_def)

definition host_rows :: "string \<Rightarrow> provenance option \<Rightarrow> host_row list" where
  "host_rows i host = (case host of None \<Rightarrow> [] | Some p \<Rightarrow> [\<lparr>ho_id = i, ho_provenance = p\<rparr>])"

lemma admit_new_Inr:
  assumes new: "ix_id (new_interaction env rq host) \<notin> known db"
    and ok: "admit_new env db rq host ro rc wake = Inr (db', a)"
  shows "\<exists>g. sql_u64 env (aq_generation rq) = Inr g
    \<and> db' = admitted_tables (new_interaction env rq host)
        (new_delivery env rq (ix_id (new_interaction env rq host)) g ro rc wake)
        (host_rows (ix_id (new_interaction env rq host)) host) db
    \<and> ad_record a = new_interaction env rq host \<and> \<not> ad_duplicate a \<and> ad_state a = owner_on_admission rq
    \<and> \<not> list_ex (same_key (new_delivery env rq (ix_id (new_interaction env rq host)) g ro rc wake)) (db_deliveries db)"
proof -
  let ?r = "new_interaction env rq host"
  have up: "upsert_interaction ?r db = db\<lparr>db_interactions := db_interactions db @ [?r]\<rparr>"
    by (rule upsert_new [OF new])
  obtain g db1 db2 db3 where g: "sql_u64 env (aq_generation rq) = Inr g"
    and d1: "insert_delivery env (new_delivery env rq (ix_id ?r) g ro rc wake)
               (db\<lparr>db_interactions := db_interactions db @ [?r]\<rparr>) = Inr db1"
    and d2: "(case host of None \<Rightarrow> Inr db1
              | Some p \<Rightarrow> insert_host env \<lparr>ho_id = ix_id ?r, ho_provenance = p\<rparr> db1) = Inr db2"
    and d3: "make_available env (aq_recipient rq) (ix_id ?r) db2 = Inr db3"
    and res: "db' = db3" "ad_record a = ?r" "\<not> ad_duplicate a" "ad_state a = owner_on_admission rq"
    using ok by (auto simp: admit_new_def Let_def res_bind_eq_Inr up)
  let ?d = "new_delivery env rq (ix_id ?r) g ro rc wake"
  have e1: "db1 = db\<lparr>db_interactions := db_interactions db @ [?r], db_deliveries := db_deliveries db @ [?d]\<rparr>"
    and nk: "\<not> list_ex (same_key ?d) (db_deliveries db)"
    using d1 by (auto simp: insert_delivery_def list_ex_iff split: if_splits)
  have e2: "db2 = db1\<lparr>db_hosts := db_hosts db @ host_rows (ix_id ?r) host\<rparr>"
    using d2 e1 by (auto simp: insert_host_def host_rows_def split: option.splits if_splits)
  have e3: "db3 = db2\<lparr>db_last := db_last db2 + 1, db_avail := db_avail db2 @
      [\<lparr>av_seq = db_last db2 + 1, av_recipient = aq_recipient rq, av_id = ix_id ?r\<rparr>]\<rparr>"
    using d3 by (simp add: make_available_def split: if_splits)
  have "dl_recipient ?d = aq_recipient rq" by (simp add: new_delivery_def)
  then have "db' = admitted_tables ?r ?d (host_rows (ix_id ?r) host) db"
    by (simp add: res(1) e1 e2 e3 admitted_tables_def)
  with g nk res show ?thesis by blast
qed

lemma admissible_new:
  assumes "validate_message (aq_message rq) = Inr u"
  shows "admissible (new_interaction env rq host)
    (new_delivery env rq (ix_id (new_interaction env rq host)) g ro rc wake)
    (host_rows (ix_id (new_interaction env rq host)) host)"
  using assms
  by (auto simp: admissible_def new_interaction_def new_delivery_def owner_on_admission_def operation_of_def
      inline_ok_def validate_message_ok legal_owner_def host_rows_def split: option.splits)

lemma new_interaction_fresh: "fresh_env env db \<Longrightarrow> ix_id (new_interaction env rq host) \<notin> known db"
  using fresh_new_id [of env db] by (simp add: new_interaction_def)

lemma does_admit:
  assumes fr: "fresh_env env db"
  shows "does db plain (\<lambda>a ls. True) (admit_with_metadata env db rq host ro rc wake)"
  unfolding admit_with_metadata_def
proof (rule does_tx)
  fix db' a
  assume t: "res_bind (admission_checks rq host ro rc wake) (\<lambda>_.
          case (case aq_key rq of None \<Rightarrow> None
                | Some k \<Rightarrow> find_keyed db (aq_sender rq) (operation_of rq) k) of
            Some d \<Rightarrow> res_bind (admit_again env db rq host d) (\<lambda>a. Inr (None, a))
          | None \<Rightarrow> committing (admit_new env db rq host ro rc wake)) = Inr (Some db', a)"
  then have v: "\<exists>u. validate_message (aq_message rq) = Inr u"
    and c: "admit_new env db rq host ro rc wake = Inr (db', a)"
    by (auto simp: res_bind_eq_Inr admission_checks_def committing_Inr split: option.splits)
  obtain u where u: "validate_message (aq_message rq) = Inr u" using v by blast
  note new = new_interaction_fresh [OF fr]
  obtain g where "db' = admitted_tables (new_interaction env rq host)
        (new_delivery env rq (ix_id (new_interaction env rq host)) g ro rc wake)
        (host_rows (ix_id (new_interaction env rq host)) host) db"
    using admit_new_Inr [OF new c] by blast
  with ev_created [OF new admissible_new [OF u]]
  have "event db (Created (ix_id (new_interaction env rq host)) True) db'" by simp
  then show "\<exists>ls. history db ls db' \<and> plain ls \<and> True" by (rule one_event) simp_all
qed simp_all

lemma does_refuse:
  "does db plain P (g db) \<Longrightarrow> does db plain P (if b then (Inl e, db) else g db)"
  by (simp add: does_fail)

lemma does_checked:
  "does db plain P r \<Longrightarrow> does db plain P (case c of Inl e \<Rightarrow> (Inl e, db) | Inr u \<Rightarrow> r)"
  by (cases c) (simp_all add: does_fail)

lemma does_admissions:
  assumes "fresh_env env db"
  shows "does db plain (\<lambda>a ls. True) (admit env db rq)"
    and "does db plain (\<lambda>a ls. True) (admit_with_wake_on_admission env db rq o')"
    and "does db plain (\<lambda>a ls. True) (admit_with_requester_origin env db rq o')"
    and "does db plain (\<lambda>a ls. True) (admit_host_automation_task env db run node to m g)"
    and "does db plain (\<lambda>a ls. True) (admit_host_automation_message env ok db run node to m g)"
proof -
  note adm = does_admit [OF assms]
  show "does db plain (\<lambda>a ls. True) (admit env db rq)" unfolding admit_def by (rule adm)
  show "does db plain (\<lambda>a ls. True) (admit_with_wake_on_admission env db rq o')"
    unfolding admit_with_wake_on_admission_def by (rule does_refuse, rule does_checked, rule adm)
  show "does db plain (\<lambda>a ls. True) (admit_with_requester_origin env db rq o')"
    unfolding admit_with_requester_origin_def by (rule does_refuse, rule does_checked, rule adm)
  show "does db plain (\<lambda>a ls. True) (admit_host_automation_task env db run node to m g)"
    unfolding admit_host_automation_task_def by (rule does_refuse) (rule adm)
  let ?res = "admit_with_metadata env db
      \<lparr>aq_sender = host_sender run, aq_recipient = to, aq_message = m,
       aq_key = Some (host_automation_message_key env node), aq_task = False, aq_generation = g\<rparr>
      (Some \<lparr>pv_run = run, pv_node = node\<rparr>) None None False"
  obtain r db' where res: "?res = (r, db')" by (cases ?res)
  have "snd (admit_host_automation_message env ok db run node to m g) = db'
      \<or> snd (admit_host_automation_message env ok db run node to m g) = db"
    unfolding admit_host_automation_message_def res by (auto split: sum.splits option.splits)
  then show "does db plain (\<lambda>a ls. True) (admit_host_automation_message env ok db run node to m g)"
  proof
    assume "snd (admit_host_automation_message env ok db run node to m g) = db"
    then show ?thesis by (auto simp: does_def intro!: exI [of _ "[]"] history_nil)
  next
    assume "snd (admit_host_automation_message env ok db run node to m g) = db'"
    then show ?thesis
      using adm [of "\<lparr>aq_sender = host_sender run, aq_recipient = to, aq_message = m,
         aq_key = Some (host_automation_message_key env node), aq_task = False, aq_generation = g\<rparr>"
         "Some \<lparr>pv_run = run, pv_node = node\<rparr>" None None False] res
      by (auto simp: does_def)
  qed
qed

section \<open>Claims\<close>

lemma update_deliveries_at:
  "update_deliveries (\<lambda>d. dl_id d = i \<and> p d) f db =
     (length (filter (\<lambda>d. dl_id d = i \<and> p d) (db_deliveries db)), change_at i p f db)"
  by (simp add: update_deliveries_def)

lemma changed_some:
  "length (filter P xs) \<noteq> 0 \<Longrightarrow> \<exists>x \<in> set xs. P x"
  by (simp add: filter_empty_conv)

lemma load_found: "load db i = Inr r \<longleftrightarrow> find_interaction db i = Some r"
  by (auto simp: load_def split: option.splits)

definition claim_labels :: "task_claim option \<Rightarrow> label list \<Rightarrow> bool" where
  "claim_labels r ls \<longleftrightarrow>
     (case r of None \<Rightarrow> ls = []
      | Some c \<Rightarrow> \<exists>g. int (unat (tc_generation c)) = g \<and> ls = [Dispatched (ix_id (tc_record c)) (tc_token c) g])"

lemma sql_u64_Inr: "sql_u64 env g = Inr n \<longleftrightarrow> n = int (unat g) \<and> unat g < 2 ^ 63"
  by (auto simp: sql_u64_def)

lemma does_claim:
  assumes p: "\<And>d. p d \<Longrightarrow> dl_owner d = ''stored'' \<or> dl_owner d = ''pending''"
  shows "does db plain claim_labels (run_tx env db (claim_rows env db p i generation))"
proof (rule does_tx)
  fix db' x
  assume "claim_rows env db p i generation = Inr (Some db', x)"
  then obtain g r where g: "sql_u64 env generation = Inr g"
    and n: "length (filter (\<lambda>d. dl_id d = i \<and> p d) (db_deliveries db)) \<noteq> 0"
    and db': "db' = change_at i p (dispatch_to g (new_id env 0 ''claim'')) db"
    and r: "load db' i = Inr r"
    and x: "x = Some \<lparr>tc_record = r, tc_token = new_id env 0 ''claim'', tc_generation = generation\<rparr>"
    by (auto simp: claim_rows_def Let_def update_deliveries_at res_bind_eq_Inr split: if_splits)
  have "event db (Dispatched i (new_id env 0 ''claim'') g) db'"
    unfolding db' by (rule ev_dispatched [OF changed_some [OF n] p])
  moreover have "ix_id r = i" using r find_interaction_SomeD by (auto simp: load_found)
  ultimately show "\<exists>ls. history db ls db' \<and> plain ls \<and> claim_labels x ls"
    using g x by (intro one_event [where Q = "claim_labels x"]) (auto simp: claim_labels_def sql_u64_Inr)
next
  fix x
  assume "claim_rows env db p i generation = Inr (None, x)"
  then show "claim_labels x []"
    by (auto simp: claim_rows_def Let_def update_deliveries_at res_bind_eq_Inr claim_labels_def split: if_splits)
qed simp

lemma does_claims:
  shows "does db plain claim_labels (claim_next_task env db recipient generation)"
    and "does db plain claim_labels (claim_reply_continuation env db recipient i generation)"
    and "does db plain claim_labels (claim_information env db recipient i generation)"
    and "does db plain claim_labels (claim_wakeable_information env db recipient i generation)"
proof -
  show "does db plain claim_labels (claim_next_task env db recipient generation)"
  proof (cases "next_pending_task_id db recipient")
    case None
    have "does db plain claim_labels (run_tx env db (Inr (None, None)))"
      by (rule does_tx) (simp_all add: claim_labels_def)
    with None show ?thesis by (simp add: claim_next_task_def)
  next
    case (Some j)
    have "does db plain claim_labels
        (run_tx env db (claim_rows env db (\<lambda>d. dl_owner d = ''pending'') j generation))"
      by (rule does_claim) simp
    with Some show ?thesis by (simp add: claim_next_task_def)
  qed
  show "does db plain claim_labels (claim_reply_continuation env db recipient i generation)"
    unfolding claim_reply_continuation_def by (rule does_claim) simp
  show "does db plain claim_labels (claim_information env db recipient i generation)"
    unfolding claim_information_def by (rule does_claim) simp
  show "does db plain claim_labels (claim_wakeable_information env db recipient i generation)"
    unfolding claim_wakeable_information_def by (rule does_claim) simp
qed

lemma holds_claim_id: "holds_claim c g d \<Longrightarrow> dl_id d = ix_id (tc_record c)"
  by (simp add: holds_claim_def)

lemma update_held:
  "update_deliveries (holds_claim c g) f db =
     (length (filter (holds_claim c g) (db_deliveries db)), change_at (ix_id (tc_record c)) (holds_claim c g) f db)"
proof -
  have "(if holds_claim c g d then f d else d)
      = (if dl_id d = ix_id (tc_record c) \<and> holds_claim c g d then f d else d)" for d
    using holds_claim_id by auto
  then show ?thesis by (simp add: update_deliveries_def)
qed

lemma held_some:
  "length (filter (holds_claim c g) ds) \<noteq> 0 \<Longrightarrow>
     \<exists>d \<in> set ds. dl_id d = ix_id (tc_record c) \<and> holds_claim c g d"
  using changed_some holds_claim_id by blast

lemma held_dispatching: "holds_claim c g d \<Longrightarrow> dl_owner d = ''dispatching''"
  by (simp add: holds_claim_def)

lemma finish_claim_rows_Inr:
  assumes "finish_claim_rows env c s db = Inr db'"
  shows "\<exists>g. sql_u64 env (tc_generation c) = Inr g \<and> s \<in> set scheduler_states
    \<and> (\<exists>d \<in> set (db_deliveries db). dl_id d = ix_id (tc_record c) \<and> holds_claim c g d)
    \<and> db' = change_at (ix_id (tc_record c)) (holds_claim c g) (settle_delivery s) db"
proof -
  obtain g where g: "sql_u64 env (tc_generation c) = Inr g" "s \<in> set scheduler_states"
    and n: "length (filter (holds_claim c g) (db_deliveries db)) = 1"
    and db': "db' = change_at (ix_id (tc_record c)) (holds_claim c g) (settle_delivery s) db"
    using assms by (auto simp: finish_claim_rows_def update_held res_bind_eq_Inr split: if_splits)
  have "length (filter (holds_claim c g) (db_deliveries db)) \<noteq> 0" using n by simp
  from held_some [OF this] g db' show ?thesis by blast
qed

lemma finish_claim_event:
  assumes "finish_claim_rows env c s db = Inr db'"
  shows "event db (Settled (ix_id (tc_record c)) s) db'"
proof -
  obtain g where g: "s \<in> set scheduler_states"
    "\<exists>d \<in> set (db_deliveries db). dl_id d = ix_id (tc_record c) \<and> holds_claim c g d"
    and db': "db' = change_at (ix_id (tc_record c)) (holds_claim c g) (settle_delivery s) db"
    using finish_claim_rows_Inr [OF assms] by blast
  show ?thesis unfolding db' by (rule ev_settled [OF g(2) held_dispatching g(1)])
qed

lemma does_finish: "does db plain (\<lambda>_ ls. ls = [Settled (ix_id (tc_record c)) s]) (finish_claim env db c s)"
  unfolding finish_claim_def
proof (rule does_committing)
  fix db' x
  assume "map_sum id (\<lambda>db'. (db', ())) (finish_claim_rows env c s db) = Inr (db', x)"
  then have "finish_claim_rows env c s db = Inr db'" by (cases "finish_claim_rows env c s db") simp_all
  from finish_claim_event [OF this]
  show "\<exists>ls. history db ls db' \<and> plain ls \<and> ls = [Settled (ix_id (tc_record c)) s]"
    by (rule one_event) simp_all
qed simp

text \<open>A release is the only operation with a label that releases.\<close>

lemma does_release:
  "does db (\<lambda>ls. set ls \<subseteq> {Released (ix_id (tc_record c))}) (\<lambda>_ ls. True) (release_before_write env db c)"
  unfolding release_before_write_def
proof (rule does_committing)
  fix db' x
  assume "map_sum id (\<lambda>db'. (db', ())) (release_rows env c db) = Inr (db', x)"
  then have "release_rows env c db = Inr db'" by (cases "release_rows env c db") simp_all
  then obtain g where n: "length (filter (holds_claim c g) (db_deliveries db)) = 1"
    and db': "db' = change_at (ix_id (tc_record c)) (holds_claim c g) reopen_delivery db"
    by (auto simp: release_rows_def update_held res_bind_eq_Inr split: if_splits)
  have "length (filter (holds_claim c g) (db_deliveries db)) \<noteq> 0" using n by simp
  then have "event db (Released (ix_id (tc_record c))) db'"
    unfolding db' by (intro ev_released held_some held_dispatching)
  then have "history db [Released (ix_id (tc_record c))] db'" by (rule history_one)
  then show "\<exists>ls. history db ls db' \<and> set ls \<subseteq> {Released (ix_id (tc_record c))} \<and> True"
    by (intro exI [of _ "[Released (ix_id (tc_record c))]"]) simp
qed simp

end
