(* ===== verification/Messaging_Pages.thy ===== *)
theory Messaging_Pages
  imports Messaging_Exec
begin

text \<open>The pages an agent receives: what the loop returns, and that a page is a history.\<close>

section \<open>The claim of the receiver\<close>

lemma claim_for_receiver_frame [simp]:
  "db_interactions (claim_for_receiver env n i db) = db_interactions db"
  "db_avail (claim_for_receiver env n i db) = db_avail db"
  "db_last (claim_for_receiver env n i db) = db_last db"
  "db_cursors (claim_for_receiver env n i db) = db_cursors db"
  "db_hosts (claim_for_receiver env n i db) = db_hosts db"
  "db_acks (claim_for_receiver env n i db) = db_acks db"
  "db_replies (claim_for_receiver env n i db) = db_replies db"
  "db_turns (claim_for_receiver env n i db) = db_turns db"
  by (simp_all add: claim_for_receiver_def update_deliveries_def)

definition receiver_takes :: "msg_env \<Rightarrow> nat \<Rightarrow> delivery \<Rightarrow> delivery" where
  "receiver_takes env n d =
     d\<lparr>dl_owner := ''receiver_available'', dl_claim := Some (new_id env n ''claim'')\<rparr>"

lemma claim_for_receiver_map:
  "claim_for_receiver env n i db =
     delivery_map (at_id i (\<lambda>d. dl_owner d \<in> {''stored'', ''pending''}) (receiver_takes env n)) db"
  by (simp add: claim_for_receiver_def update_deliveries_def delivery_map_def at_id_def [abs_def]
      receiver_takes_def [abs_def])

lemma receiver_takes_same: "same_message (at_id i p (receiver_takes env n))"
  by (rule at_id_same) (simp add: receiver_takes_def)

lemma receivable_kept:
  "receivable (find_delivery db j) \<Longrightarrow> receivable (find_delivery (claim_for_receiver env n i db) j)"
  unfolding claim_for_receiver_map find_delivery_map [OF receiver_takes_same]
  by (auto simp: receivable_def at_id_def receiver_takes_def split: option.splits)

lemma find_interaction_kept [simp]:
  "find_interaction (claim_for_receiver env n i db) j = find_interaction db j"
  by (simp add: find_interaction_def)

lemma find_reply_kept [simp]: "find_reply (claim_for_receiver env n i db) j = find_reply db j"
  by (simp add: find_reply_def)

lemma provenance_kept [simp]:
  "host_automation_provenance (claim_for_receiver env n i db) j = host_automation_provenance db j"
  by (simp add: host_automation_provenance_def)

text \<open>A message does not depend on who has it.\<close>

lemma reply_status_kept [simp]:
  "reply_status_of env (claim_for_receiver env' n i db) r = reply_status_of env db r"
  by (simp add: reply_status_of_def)

lemma message_at_kept [simp]: "message_at env (claim_for_receiver env' n i db) j = message_at env db j"
  by (simp add: message_at_def load_def cong: body_ref.case_cong)

lemma message_at_id: "message_at env db i = Inr m \<Longrightarrow> am_id m = i"
  unfolding message_at_def res_bind_eq_Inr by (erule exE, elim conjE) (auto simp: res_bind_eq_Inr split: body_ref.splits)

section \<open>The loop\<close>

text \<open>It returns the messages of the first rows, in order, and stops at the last one's sequence.\<close>

lemma receive_loop_Inr:
  assumes "receive_loop env rows db sequence body ser msgs = Inr (db', sequence', msgs', stopped)"
  shows "\<exists>k \<le> length rows. map am_id msgs' = map am_id msgs @ map av_id (take k rows)
    \<and> sequence' = last (sequence # map av_seq (take k rows)) \<and> (stopped \<longleftrightarrow> k < length rows)"
  using assms
proof (induction rows arbitrary: db sequence body ser msgs)
  case Nil
  then show ?case by simp
next
  case (Cons a rows)
  obtain m where m: "message_at env db (av_id a) = Inr m"
    using Cons.prems by (auto simp: res_bind_eq_Inr)
  let ?big = "body + length (am_message m) > max_receive_body_bytes
    \<or> ser + (me_len env m + 1) > max_receive_serialized_bytes"
  show ?case
  proof (cases ?big)
    case True
    with Cons.prems m have "sequence' = sequence" "msgs' = msgs" "stopped"
      by (auto simp: Let_def split: if_splits)
    then show ?thesis by (intro exI [of _ 0]) simp
  next
    case False
    with Cons.prems m have "receive_loop env rows (claim_for_receiver env (length msgs) (av_id a) db) (av_seq a)
        (body + length (am_message m)) (ser + (me_len env m + 1)) (msgs @ [m]) = Inr (db', sequence', msgs', stopped)"
      by (simp add: Let_def)
    from Cons.IH [OF this] obtain k where k: "k \<le> length rows"
        "map am_id msgs' = map am_id (msgs @ [m]) @ map av_id (take k rows)"
        "sequence' = last (av_seq a # map av_seq (take k rows))" "stopped \<longleftrightarrow> k < length rows"
      by blast
    then show ?thesis
      using message_at_id [OF m] by (intro exI [of _ "Suc k"]) simp
  qed
qed

lemma receive_loop_frame:
  assumes "receive_loop env rows db sequence body ser msgs = Inr (db', sequence', msgs', stopped)"
  shows "db_interactions db' = db_interactions db \<and> db_avail db' = db_avail db \<and> db_last db' = db_last db
    \<and> db_cursors db' = db_cursors db \<and> db_acks db' = db_acks db \<and> db_replies db' = db_replies db
    \<and> db_hosts db' = db_hosts db \<and> db_turns db' = db_turns db
    \<and> (\<forall>j. receivable (find_delivery db j) \<longrightarrow> receivable (find_delivery db' j))"
  using assms
proof (induction rows arbitrary: db sequence body ser msgs)
  case Nil
  then show ?case by simp
next
  case (Cons a rows)
  obtain m where m: "message_at env db (av_id a) = Inr m"
    using Cons.prems by (auto simp: res_bind_eq_Inr)
  show ?case
  proof (cases "body + length (am_message m) > max_receive_body_bytes
      \<or> ser + (me_len env m + 1) > max_receive_serialized_bytes")
    case True
    with Cons.prems m show ?thesis by (auto simp: Let_def split: if_splits)
  next
    case False
    with Cons.prems m have "receive_loop env rows (claim_for_receiver env (length msgs) (av_id a) db) (av_seq a)
        (body + length (am_message m)) (ser + (me_len env m + 1)) (msgs @ [m]) = Inr (db', sequence', msgs', stopped)"
      by (simp add: Let_def)
    from Cons.IH [OF this] show ?thesis by (simp add: receivable_kept)
  qed
qed

lemma receive_loop_history:
  assumes "receive_loop env rows db sequence body ser msgs = Inr (db', sequence', msgs', stopped)"
    and "\<forall>a \<in> set rows. find_interaction db (av_id a) \<noteq> None \<and> receivable (find_delivery db (av_id a))"
  shows "\<exists>ls. history db ls db' \<and> plain ls \<and> Shown ` am_id ` set msgs' \<subseteq> Shown ` am_id ` set msgs \<union> set ls"
  using assms
proof (induction rows arbitrary: db sequence body ser msgs)
  case Nil
  then show ?case by (auto intro!: exI [of _ "[]"] history_nil)
next
  case (Cons a rows)
  obtain m where m: "message_at env db (av_id a) = Inr m"
    using Cons.prems(1) by (auto simp: res_bind_eq_Inr)
  show ?case
  proof (cases "body + length (am_message m) > max_receive_body_bytes
      \<or> ser + (me_len env m + 1) > max_receive_serialized_bytes")
    case True
    with Cons.prems m have "db' = db" "msgs' = msgs" by (auto simp: Let_def split: if_splits)
    then show ?thesis by (auto intro!: exI [of _ "[]"] history_nil)
  next
    case False
    let ?db = "claim_for_receiver env (length msgs) (av_id a) db"
    have "event db (Shown (av_id a)) ?db" using Cons.prems(2) by (intro ev_shown) auto
    moreover have loop: "receive_loop env rows ?db (av_seq a)
        (body + length (am_message m)) (ser + (me_len env m + 1)) (msgs @ [m]) = Inr (db', sequence', msgs', stopped)"
      using False Cons.prems m by (simp add: Let_def)
    have "\<forall>a \<in> set rows. find_interaction ?db (av_id a) \<noteq> None \<and> receivable (find_delivery ?db (av_id a))"
      using Cons.prems(2) receivable_kept by simp
    from Cons.IH [OF loop this] obtain ls where "history ?db ls db'" "plain ls"
        "Shown ` am_id ` set msgs' \<subseteq> Shown ` am_id ` set (msgs @ [m]) \<union> set ls"
      by blast
    ultimately show ?thesis
      using message_at_id [OF m] by (intro exI [of _ "Shown (av_id a) # ls"]) (auto intro: history_step)
  qed
qed

section \<open>A page\<close>

lemma cursor_sequence_Inr:
  "cursor_sequence db r t = Inr s \<Longrightarrow> \<exists>c \<in> set (db_cursors db). cu_token c = t \<and> cu_recipient c = r \<and> cu_seq c = s"
  by (auto simp: cursor_sequence_def find_Some_iff split: if_splits option.splits)

lemma acknowledged_backed: "sound db \<Longrightarrow> ack_backed db r (acknowledged db r)"
  by (auto simp: acknowledged_def sound_def sequences_ok_def ack_backed_def split: option.splits dest!: map_of_SomeD)

lemma backed_bounds: "sound db \<Longrightarrow> ack_backed db r s \<Longrightarrow> 0 \<le> s \<and> s \<le> db_last db"
  by (auto simp: sound_def sequences_ok_def ack_backed_def)

definition asked_sequence :: "mdb \<Rightarrow> string \<Rightarrow> string option \<Rightarrow> int \<Rightarrow> msg_error + int" where
  "asked_sequence db r t s = (case t of None \<Rightarrow> Inr s | Some t \<Rightarrow> cursor_sequence db r t)"

lemma asked_backed:
  "asked_sequence db r t d = Inr s \<Longrightarrow> ack_backed db r d \<Longrightarrow> ack_backed db r s"
  by (auto simp: asked_sequence_def ack_backed_def split: option.splits dest!: cursor_sequence_Inr)

lemma backed_max: "ack_backed db r a \<Longrightarrow> ack_backed db r b \<Longrightarrow> ack_backed db r (max a b)"
  by (simp add: max_def)

text \<open>The parts of a page: where it starts, its loop, and its cursor.\<close>

lemma receive_Inr:
  assumes "receive_in_transaction env db r cursor ack_cursor limit = Inr (db', p)"
  obtains asked after db1 s msgs stopped db2 token where
    "asked_sequence db r ack_cursor (acknowledged db r) = Inr asked"
    "asked_sequence db r cursor (max asked (acknowledged db r)) = Inr after"
    "receive_loop env (take limit (receive_rows db r after)) db after 0 1024 [] = Inr (db1, s, msgs, stopped)"
    "issue_cursor env (length msgs) r s db1 = Inr (db2, token)"
    "db' = (if ack_cursor = None then db2 else store_ack r (max asked (acknowledged db r)) db2)"
    "p = \<lparr>pg_messages = msgs, pg_next = token, pg_ack = token,
          pg_more = (length (take (limit + 1) (receive_rows db r after)) > limit \<or> stopped),
          pg_timed_out = False, pg_wake = None\<rparr>"
proof -
  have tk: "take limit (take (limit + 1) xs) = take limit xs" for xs :: "availability list" by (simp add: min_def)
  from assms show ?thesis
    unfolding receive_in_transaction_def Let_def
    by (auto simp: res_bind_eq_Inr tk asked_sequence_def intro: that)
qed

lemma receive_rows_available:
  "a \<in> set (receive_rows db r after) \<Longrightarrow>
     a \<in> set (db_avail db) \<and> av_recipient a = r \<and> after < av_seq a
     \<and> find_interaction db (av_id a) \<noteq> None \<and> receivable (find_delivery db (av_id a))"
  by (auto simp: receive_rows_def)

lemma issue_cursor_history:
  assumes "issue_cursor env n r s db = Inr (db', t)" and "0 \<le> s" and "s \<le> db_last db"
  shows "\<exists>ls. history db ls db' \<and> plain ls \<and> set ls \<subseteq> {Quiet}"
proof (cases "db' = db")
  case True
  then show ?thesis by (auto intro!: exI [of _ "[]"] history_nil)
next
  case False
  with assms(1) have "db' = db\<lparr>db_cursors := db_cursors db @
      [\<lparr>cu_token = new_id env n ''am1'', cu_recipient = r, cu_seq = s\<rparr>]\<rparr>"
    by (auto simp: issue_cursor_def Let_def split: option.splits if_splits)
  with ev_cursor [of "\<lparr>cu_token = new_id env n ''am1'', cu_recipient = r, cu_seq = s\<rparr>" db] assms(2,3)
  have "event db Quiet db'" by simp
  then show ?thesis by (intro exI [of _ "[Quiet]"]) (simp add: history_one)
qed

lemma issue_cursor_backed:
  "issue_cursor env n r s db = Inr (db', t) \<Longrightarrow> set (db_cursors db) \<subseteq> set (db_cursors db')
     \<and> (\<exists>c \<in> set (db_cursors db'). cu_token c = t \<and> cu_recipient c = r \<and> cu_seq c = s)"
  by (auto simp: issue_cursor_def Let_def find_Some_iff split: option.splits if_splits)

lemma last_in: "last (x # xs) \<in> insert x (set xs)"
  by (induction xs arbitrary: x) auto

lemma take_subset: "x \<in> set (take k xs) \<Longrightarrow> x \<in> set xs"
  by (rule in_set_takeD)

lemma page_sequence_bounds:
  assumes db: "sound db" and after: "ack_backed db r after"
    and loop: "receive_loop env (take limit (receive_rows db r after)) db after 0 1024 [] = Inr (db1, s, msgs, st)"
  shows "after \<le> s \<and> 0 \<le> s \<and> s \<le> db_last db"
proof -
  let ?rows = "take limit (receive_rows db r after)"
  obtain k where s: "s = last (after # map av_seq (take k ?rows))"
    using receive_loop_Inr [OF loop] by blast
  have "s \<in> insert after (av_seq ` set (take k ?rows))" unfolding s using last_in by (metis set_map)
  moreover have "after < av_seq a \<and> av_seq a \<le> db_last db" if "a \<in> set (take k ?rows)" for a
    using receive_rows_available [OF take_subset [OF take_subset [OF that]]] db
    by (auto simp: sound_def sequences_ok_def)
  ultimately show ?thesis using backed_bounds [OF db after] by fastforce
qed

lemma does_receive_body:
  assumes db: "sound db"
    and ok: "receive_in_transaction env db r cursor ack_cursor limit = Inr (db', p)"
  shows "\<exists>ls. history db ls db' \<and> plain ls \<and> (\<forall>i \<in> am_id ` set (pg_messages p). Shown i \<in> set ls)"
  using ok
proof (rule receive_Inr)
  fix asked after db1 s msgs stopped db2 token
  assume asked: "asked_sequence db r ack_cursor (acknowledged db r) = Inr asked"
    and after: "asked_sequence db r cursor (max asked (acknowledged db r)) = Inr after"
    and loop: "receive_loop env (take limit (receive_rows db r after)) db after 0 1024 [] = Inr (db1, s, msgs, stopped)"
    and issue: "issue_cursor env (length msgs) r s db1 = Inr (db2, token)"
    and db': "db' = (if ack_cursor = None then db2 else store_ack r (max asked (acknowledged db r)) db2)"
    and p: "p = \<lparr>pg_messages = msgs, pg_next = token, pg_ack = token,
          pg_more = (length (take (limit + 1) (receive_rows db r after)) > limit \<or> stopped),
          pg_timed_out = False, pg_wake = None\<rparr>"
  note acked = acknowledged_backed [OF db, of r]
  have ack: "ack_backed db r (max asked (acknowledged db r))"
    using asked_backed [OF asked acked] acked by (rule backed_max)
  have bounds: "0 \<le> s \<and> s \<le> db_last db"
    using page_sequence_bounds [OF db asked_backed [OF after ack] loop] by simp
  note fr = receive_loop_frame [OF loop]
  have taken: "\<forall>a \<in> set (take limit (receive_rows db r after)).
      find_interaction db (av_id a) \<noteq> None \<and> receivable (find_delivery db (av_id a))"
    using receive_rows_available [OF take_subset] by simp
  obtain ls1 where ls1: "history db ls1 db1" "plain ls1" "Shown ` am_id ` set msgs \<subseteq> set ls1"
    using receive_loop_history [OF loop taken] by auto
  obtain ls2 where ls2: "history db1 ls2 db2" "plain ls2"
    using issue_cursor_history [OF issue] bounds fr by auto
  have "ack_backed db2 r (max asked (acknowledged db r))"
    using ack fr issue_cursor_backed [OF issue] by (auto simp: ack_backed_def)
  then have ev: "event db2 Quiet (store_ack r (max asked (acknowledged db r)) db2)"
    using backed_bounds [OF db ack] by (intro ev_ack) simp_all
  have "\<exists>ls3. history db2 ls3 db' \<and> plain ls3"
  proof (cases "ack_cursor = None")
    case True
    then show ?thesis using db' by (auto intro!: exI [of _ "[]"] history_nil)
  next
    case False
    with db' ev have "event db2 Quiet db'" by simp
    then show ?thesis by (intro exI [of _ "[Quiet]"]) (simp add: history_one)
  qed
  then obtain ls3 where "history db2 ls3 db'" "plain ls3" by blast
  with ls1 ls2 have "history db (ls1 @ ls2 @ ls3) db'" "plain (ls1 @ ls2 @ ls3)"
    by (auto intro: history_append)
  then show ?thesis using ls1(3) p by (intro exI [of _ "ls1 @ ls2 @ ls3"]) auto
qed

lemma does_receive:
  assumes "sound db"
  shows "does db plain (\<lambda>p ls. \<forall>i \<in> am_id ` set (pg_messages p). Shown i \<in> set ls)
    (receive env db r cursor ack_cursor limit)"
proof (cases "limit = 0 \<or> unat limit > max_receive_items")
  case True
  then show ?thesis by (simp add: receive_def does_fail)
next
  case False
  have "does db plain (\<lambda>p ls. \<forall>i \<in> am_id ` set (pg_messages p). Shown i \<in> set ls)
    (run_tx env db (committing (receive_in_transaction env db r cursor ack_cursor (unat limit))))"
    by (rule does_committing) (simp, rule does_receive_body [OF assms])
  with False show ?thesis by (simp add: receive_def)
qed

end
