(* ===== verification/Messaging_Simulation.thy ===== *)
theory Messaging_Simulation
  imports Messaging_Pages
begin

text \<open>
  The rest of the simulation: replies, pages, continuations, deletion and turns; then every
  operation is a history, and what its answer exposes is in the labels.
\<close>

section \<open>Continuations\<close>

lemma changed_one_Inr: "changed_one r = Inr (Some db', x) \<longleftrightarrow> db' = snd r \<and> x = (fst r = 1)"
  by (auto simp: changed_one_def)

lemma change_at_none:
  assumes "\<not> (\<exists>d \<in> set (db_deliveries db). dl_id d = i \<and> p d)"
  shows "change_at i p f db = db"
proof -
  have "map (\<lambda>d. if dl_id d = i \<and> p d then f d else d) (db_deliveries db) = db_deliveries db"
    using assms by (intro map_idI) auto
  then show ?thesis by simp
qed

lemma quiet_update:
  assumes "(\<exists>d \<in> set (db_deliveries db). dl_id d = i \<and> p d) \<Longrightarrow> event db l (change_at i p f db)"
    and "plain_label l"
  shows "\<exists>ls. history db ls (change_at i p f db) \<and> plain ls \<and> True"
proof (cases "\<exists>d \<in> set (db_deliveries db). dl_id d = i \<and> p d")
  case True
  from one_event [OF assms(1) [OF True] assms(2), of "\<lambda>_. True"] show ?thesis by simp
next
  case False
  then have eq: "change_at i p f db = db" by (rule change_at_none)
  show ?thesis unfolding eq by (rule no_event [of "\<lambda>_. True"]) simp
qed

lemma does_stale: "does db plain (\<lambda>_ ls. True) (stale_wakeable_information env db i)"
  unfolding stale_wakeable_information_def
proof (rule does_tx)
  let ?p = "\<lambda>d. dl_operation d = ''send_message'' \<and> dl_wake d = Some 1 \<and> dl_owner d = ''stored''"
  fix db' x
  assume "changed_one (update_deliveries
       (\<lambda>d. dl_id d = i \<and> dl_operation d = ''send_message'' \<and> dl_wake d = Some 1 \<and> dl_owner d = ''stored'')
       (\<lambda>d. d\<lparr>dl_owner := ''blocked_stale_origin''\<rparr>) db) = Inr (Some db', x)"
  then have db': "db' = change_at i ?p (\<lambda>d. d\<lparr>dl_owner := ''blocked_stale_origin'', dl_cont := dl_cont d\<rparr>) db"
    by (auto simp: changed_one_Inr update_deliveries_def)
  show "\<exists>ls. history db ls db' \<and> plain ls \<and> True"
    unfolding db'
  proof (rule quiet_update)
    assume ex: "\<exists>d \<in> set (db_deliveries db). dl_id d = i \<and> ?p d"
    show "event db (Settled i ''blocked_stale_origin'')
       (change_at i ?p (\<lambda>d. d\<lparr>dl_owner := ''blocked_stale_origin'', dl_cont := dl_cont d\<rparr>) db)"
      by (rule ev_blocked [OF ex]) simp_all
  qed simp
qed (simp_all add: changed_one_def)

lemma does_continuation: "does db plain (\<lambda>_ ls. True) (set_reply_continuation_state env db i st)"
proof (cases "st \<in> set continuation_states")
  case False
  then show ?thesis by (simp add: set_reply_continuation_state_def does_fail)
next
  case True
  let ?p = "\<lambda>d. dl_operation d = ''reply'' \<and> dl_owner d = ''stored''"
    and ?f = "\<lambda>d. d\<lparr>dl_cont := Some st, dl_owner := (if prefix ''blocked_'' st then st else ''stored'')\<rparr>"
  have "does db plain (\<lambda>_ ls. True) (run_tx env db (changed_one (update_deliveries
             (\<lambda>d. dl_id d = i \<and> dl_operation d = ''reply'' \<and> dl_owner d = ''stored'') ?f db)))"
  proof (rule does_tx)
    fix db' x
    assume "changed_one (update_deliveries
        (\<lambda>d. dl_id d = i \<and> dl_operation d = ''reply'' \<and> dl_owner d = ''stored'') ?f db) = Inr (Some db', x)"
    then have db': "db' = change_at i ?p ?f db" by (auto simp: changed_one_Inr update_deliveries_def)
    show "\<exists>ls. history db ls db' \<and> plain ls \<and> True"
    proof (cases "prefix ''blocked_'' st")
      case blocked: True
      then have st: "st \<in> {''blocked_stale_origin'', ''blocked_legacy_uncertain''}"
        using True blocked unfolding continuation_states_def waiting_states_def
        by (simp, elim disjE) simp_all
      have eq: "change_at i ?p ?f db = change_at i ?p (\<lambda>d. d\<lparr>dl_owner := st, dl_cont := Some st\<rparr>) db"
        using blocked by simp
      show ?thesis unfolding db' eq
      proof (rule quiet_update)
        assume ex: "\<exists>d \<in> set (db_deliveries db). dl_id d = i \<and> ?p d"
        show "event db (Settled i st) (change_at i ?p (\<lambda>d. d\<lparr>dl_owner := st, dl_cont := Some st\<rparr>) db)"
          by (rule ev_blocked [OF ex _ st]) simp
      qed simp
    next
      case False
      have "(if dl_id d = i \<and> ?p d then ?f d else d) =
          (if dl_id d = i \<and> ?p d then d\<lparr>dl_cont := Some st\<rparr> else d)" for d
        using False by (cases d) auto
      then have "map (\<lambda>d. if dl_id d = i \<and> ?p d then ?f d else d) (db_deliveries db)
          = map (\<lambda>d. if dl_id d = i \<and> ?p d then d\<lparr>dl_cont := Some st\<rparr> else d) (db_deliveries db)"
        by (rule map_cong [OF refl])
      then have eq: "change_at i ?p ?f db = change_at i ?p (\<lambda>d. d\<lparr>dl_cont := Some st\<rparr>) db"
        by (rule arg_cong [where f = "\<lambda>x. db\<lparr>db_deliveries := x\<rparr>"])
      show ?thesis unfolding db' eq
      proof (rule quiet_update)
        show "event db Quiet (change_at i ?p (\<lambda>d. d\<lparr>dl_cont := Some st\<rparr>) db)"
          by (rule ev_waiting) simp
      qed simp
    qed
  qed (simp_all add: changed_one_def)
  with True show ?thesis by (simp add: set_reply_continuation_state_def)
qed

section \<open>Replies\<close>

lemma upsert_existing:
  "find_interaction db (ix_id t) \<noteq> None \<Longrightarrow> upsert_interaction t db =
     db\<lparr>db_interactions := map (\<lambda>o'. if ix_id o' = ix_id t then t\<lparr>ix_created := ix_created o'\<rparr> else o')
        (db_interactions db)\<rparr>"
  by (simp add: upsert_interaction_def)

lemma upsert_task_and_record:
  assumes "find_interaction db (ix_id t) \<noteq> None" and "ix_id r \<notin> known db"
  shows "upsert_interaction r (upsert_interaction t db) =
    db\<lparr>db_interactions :=
       map (\<lambda>o'. if ix_id o' = ix_id t then t\<lparr>ix_created := ix_created o'\<rparr> else o') (db_interactions db) @ [r]\<rparr>"
proof -
  let ?up = "\<lambda>o'. if ix_id o' = ix_id t then t\<lparr>ix_created := ix_created o'\<rparr> else o'"
  have ids: "ix_id (?up o') = ix_id o'" for o' by simp
  have none: "find_interaction db (ix_id r) = None" using assms(2) find_interaction_known by blast
  have up: "upsert_interaction t db = db\<lparr>db_interactions := map ?up (db_interactions db)\<rparr>"
    by (rule upsert_existing [OF assms(1)])
  have "find (\<lambda>x. ix_id x = ix_id r) (map ?up (db_interactions db)) = None"
    unfolding find_map_row [of ix_id ?up, OF ids] using none by (simp add: find_interaction_def)
  then show ?thesis unfolding up by (simp add: upsert_interaction_def find_interaction_def)
qed

definition reply_delivery_of ::
    "msg_env \<Rightarrow> mdb \<Rightarrow> string \<Rightarrow> interaction \<Rightarrow> string \<Rightarrow> delivery option" where
  "reply_delivery_of env db sender task request_id =
     (case ix_sender task of None \<Rightarrow> None
      | Some to \<Rightarrow>
          map_option (reply_delivery (new_id env 0 ''int'') sender to)
            (find (\<lambda>d. dl_id d = request_id \<and> dl_operation d = ''followup_task'') (db_deliveries db)))"

definition reply_row :: "msg_env \<Rightarrow> string \<Rightarrow> string \<Rightarrow> reply_status \<Rightarrow> string \<Rightarrow> structured_reply" where
  "reply_row env sender request_id status m =
     \<lparr>sr_request = request_id, sr_status = status, sr_body = m, sr_target = sender,
      sr_source = Some sender, sr_replied = me_now env\<rparr>"

definition replied_tables ::
    "msg_env \<Rightarrow> mdb \<Rightarrow> string \<Rightarrow> string \<Rightarrow> reply_status \<Rightarrow> string \<Rightarrow> interaction \<Rightarrow> mdb" where
  "replied_tables env db sender request_id status m task =
     answered_tables (completed_task env task) (reply_record env sender task request_id m)
       (reply_row env sender request_id status m) (reply_delivery_of env db sender task request_id) db"

lemma reply_new_Inr:
  assumes fr: "fresh_env env db" and task: "find_interaction db request_id = Some task"
    and none: "find_reply db request_id = None"
    and ok: "reply_new env db sender request_id status m claim task = Inr (db', x)"
  shows "\<exists>db2. db2 = replied_tables env db sender request_id status m task
    \<and> (case claim of None \<Rightarrow> db' = db2 | Some c \<Rightarrow> finish_claim_rows env c ''failed_before_submit'' db2 = Inr db')
    \<and> x = \<lparr>rp_task = completed_task env task, rp_record = reply_record env sender task request_id m,
           rp_reply = reply_row env sender request_id status m, rp_duplicate = False\<rparr>
    \<and> ix_status task = IAwaitingReply"
proof -
  let ?r = "reply_record env sender task request_id m" and ?t = "completed_task env task"
    and ?q = "reply_row env sender request_id status m"
  have tid: "ix_id ?t = request_id" using find_interaction_SomeD [OF task] by (simp add: completed_task_def)
  have rid: "ix_id ?r \<notin> known db" using fresh_new_id [OF fr] by (simp add: reply_record_def)
  have "find_interaction db (ix_id ?t) \<noteq> None" using task tid by simp
  note up = upsert_task_and_record [OF this rid]
  let ?db1 = "db\<lparr>db_interactions := map (\<lambda>o'. if ix_id o' = request_id then ?t\<lparr>ix_created := ix_created o'\<rparr> else o')
                   (db_interactions db) @ [?r], db_replies := db_replies db @ [?q]\<rparr>"
  have q: "sr_request ?q = request_id" by (simp add: reply_row_def)
  have db1: "upsert_reply ?q (upsert_interaction ?r (upsert_interaction ?t db)) = ?db1"
    unfolding up using none q tid by (simp add: upsert_reply_def find_reply_def)
  obtain db2 where st: "ix_status task = IAwaitingReply"
    and d2: "deliver_reply env (ix_id ?r) sender (ix_sender task) request_id ?db1 = Inr db2"
    and fin: "case claim of None \<Rightarrow> db' = db2 | Some c \<Rightarrow> finish_claim_rows env c ''failed_before_submit'' db2 = Inr db'"
    and x: "x = \<lparr>rp_task = ?t, rp_record = ?r, rp_reply = ?q, rp_duplicate = False\<rparr>"
    using ok unfolding reply_new_def Let_def
    by (auto simp: res_bind_eq_Inr db1 reply_row_def [symmetric] split: option.splits)
  have "db2 = replied_tables env db sender request_id status m task"
  proof (cases "ix_sender task")
    case None
    then show ?thesis
      using d2 by (simp add: deliver_reply_def replied_tables_def answered_tables_def reply_delivery_of_def q)
  next
    case (Some to)
    let ?i = "ix_id ?r"
    obtain d db3 where d: "find (\<lambda>d. dl_id d = request_id \<and> dl_operation d = ''followup_task'') (db_deliveries db) = Some d"
      and d3: "insert_delivery env (reply_delivery ?i sender to d) ?db1 = Inr db3"
      and d4: "make_available env to ?i db3 = Inr db2"
      using d2 Some by (auto simp: deliver_reply_def res_bind_eq_Inr split: option.splits)
    have e3: "db3 = ?db1\<lparr>db_deliveries := db_deliveries db @ [reply_delivery ?i sender to d]\<rparr>"
      using d3 by (simp add: insert_delivery_def split: if_splits)
    have e4: "db2 = db3\<lparr>db_last := db_last db + 1, db_avail := db_avail db @
        [\<lparr>av_seq = db_last db + 1, av_recipient = to, av_id = ?i\<rparr>]\<rparr>"
      using d4 e3 by (simp add: make_available_def split: if_splits)
    have i: "?i = new_id env 0 ''int''" by (simp add: reply_record_def)
    have rc: "dl_recipient (reply_delivery ?i sender to d) = to" by (simp add: reply_delivery_def)
    show ?thesis
      using Some d rc by (simp add: e4 e3 replied_tables_def answered_tables_def reply_delivery_of_def q i)
  qed
  with st fin x show ?thesis by blast
qed

lemma fits_task:
  assumes "sound db" and "d \<in> set (db_deliveries db)" and "dl_operation d = ''followup_task''"
  shows "\<exists>r. find_interaction db (dl_id d) = Some r \<and> task_fits db d r"
proof -
  obtain r where r: "r \<in> set (db_interactions db)" "fits db d r"
    using assms by (auto simp: sound_def references_ok_def)
  then have "find_interaction db (dl_id d) = Some r"
    using unique_interaction [of db r] assms(1) by (simp add: sound_def fits_def)
  with r(2) assms(3) show ?thesis by (auto simp: fits_def)
qed

lemma event_replied:
  assumes fr: "fresh_env env db" and task: "find_interaction db request_id = Some task"
    and kind: "ix_kind task = ITask" "ix_targets task = [sender]" and none: "find_reply db request_id = None"
    and m: "validate_message m = Inr u"
  shows "event db (Created (new_id env 0 ''int'') (reply_delivery_of env db sender task request_id \<noteq> None))
    (replied_tables env db sender request_id status m task)"
proof -
  let ?r = "reply_record env sender task request_id m" and ?d = "reply_delivery_of env db sender task request_id"
  have rid: "ix_id ?r = new_id env 0 ''int''" by (simp add: reply_record_def)
  have "ix_id ?r \<notin> known db" using fresh_new_id [OF fr] rid by simp
  moreover have "answerable db (completed_task env task) ?r (reply_row env sender request_id status m) ?d"
    using task kind none m
    by (auto simp: answerable_def reply_row_def completed_task_def reply_record_def inline_ok_def
        validate_message_ok reply_delivery_of_def reply_delivery_def split: option.splits)
  ultimately show ?thesis unfolding replied_tables_def rid [symmetric] by (rule ev_answered)
qed

lemma reply_in_transaction_Inr:
  assumes fr: "fresh_env env db"
    and ok: "reply_in_transaction env db sender request_id status m claim = Inr (db', x)"
  shows "\<exists>task. find_interaction db request_id = Some task \<and> ix_kind task = ITask \<and> ix_targets task = [sender]
    \<and> (\<exists>d \<in> set (db_deliveries db). dl_id d = request_id \<and> dl_operation d = ''followup_task'')
    \<and> (case find_reply db request_id of
         Some old \<Rightarrow> db' = db \<and> reply_again env db sender request_id status m task old = Inr (db', x)
       | None \<Rightarrow> reply_new env db sender request_id status m claim task = Inr (db', x))"
proof -
  obtain owns task where owns: "(case claim of None \<Rightarrow> Inr True | Some c \<Rightarrow> owns_claim env db c) = Inr owns" "owns"
    and task: "find_interaction db request_id = Some task" "ix_kind task = ITask" "ix_targets task = [sender]"
    and d: "list_ex (\<lambda>d. dl_id d = request_id \<and> dl_operation d = ''followup_task'') (db_deliveries db)"
    and rest: "(case find_reply db request_id of
       Some old \<Rightarrow> reply_again env db sender request_id status m task old
     | None \<Rightarrow> reply_new env db sender request_id status m claim task) = Inr (db', x)"
    using ok unfolding reply_in_transaction_def res_bind_eq_Inr load_found guard_err_ok by blast
  have "\<exists>d \<in> set (db_deliveries db). dl_id d = request_id \<and> dl_operation d = ''followup_task''"
    using d by (simp add: list_ex_iff)
  moreover have "db' = db" if "reply_again env db sender request_id status m task old = Inr (db', x)" for old
    using that by (simp add: reply_again_def split: if_splits option.splits)
  ultimately show ?thesis
    using task rest by (cases "find_reply db request_id") simp_all
qed

lemma does_reply:
  assumes fr: "fresh_env env db"
  shows "does db plain (\<lambda>_ ls. True) (reply_with_claim env db sender request_id status m claim)"
proof (cases "validate_message m")
  case (Inl e)
  then show ?thesis by (simp add: reply_with_claim_def does_fail)
next
  case (Inr u)
  have "does db plain (\<lambda>_ ls. True)
      (run_tx env db (committing (reply_in_transaction env db sender request_id status m claim)))"
  proof (rule does_committing)
    fix db' x
    assume ok: "reply_in_transaction env db sender request_id status m claim = Inr (db', x)"
    obtain task where task: "find_interaction db request_id = Some task" "ix_kind task = ITask"
        "ix_targets task = [sender]"
      and step: "case find_reply db request_id of
         Some old \<Rightarrow> db' = db \<and> reply_again env db sender request_id status m task old = Inr (db', x)
       | None \<Rightarrow> reply_new env db sender request_id status m claim task = Inr (db', x)"
      using reply_in_transaction_Inr [OF fr ok] by blast
    show "\<exists>ls. history db ls db' \<and> plain ls \<and> True"
    proof (cases "find_reply db request_id")
      case (Some old)
      with step have "db' = db" by simp
      then show ?thesis using no_event [of "\<lambda>_. True"] by simp
    next
      case None
      let ?db2 = "replied_tables env db sender request_id status m task"
      from None step have "reply_new env db sender request_id status m claim task = Inr (db', x)" by simp
      from reply_new_Inr [OF fr task(1) None this]
      have fin: "case claim of None \<Rightarrow> db' = ?db2
          | Some c \<Rightarrow> finish_claim_rows env c ''failed_before_submit'' ?db2 = Inr db'" by blast
      note ev = event_replied [OF fr task None Inr, of status]
      show ?thesis
      proof (cases claim)
        case None
        with fin ev show ?thesis using one_event [OF _ _ TrueI] by fastforce
      next
        case (Some c)
        with fin have "event ?db2 (Settled (ix_id (tc_record c)) ''failed_before_submit'') db'"
          by (simp add: finish_claim_event)
        with ev show ?thesis
          by (intro exI [of _ "[Created (new_id env 0 ''int'') (reply_delivery_of env db sender task request_id \<noteq> None),
               Settled (ix_id (tc_record c)) ''failed_before_submit'']"])
            (auto intro: history.intros)
      qed
    qed
  qed simp
  with Inr show ?thesis by (simp add: reply_with_claim_def)
qed

lemma does_startup_failure:
  "fresh_env env db \<Longrightarrow> does db plain (\<lambda>_ ls. True) (reply_startup_failure env db c)"
  by (auto simp: reply_startup_failure_def does_fail does_reply split: list.splits)

section \<open>Deletion\<close>

lemma fold_delete_identity:
  "fold delete_identity ids db =
     db\<lparr>db_turns := filter (\<lambda>t. tt_request t \<notin> set ids) (db_turns db),
       db_hosts := filter (\<lambda>h. ho_id h \<notin> set ids) (db_hosts db),
       db_avail := filter (\<lambda>a. av_id a \<notin> set ids) (db_avail db),
       db_deliveries := filter (\<lambda>d. dl_id d \<notin> set ids) (db_deliveries db)\<rparr>"
  by (induction ids arbitrary: db) (simp_all add: delete_identity_def filter_filter conj_commute)

lemma fold_delete_interaction:
  "fold delete_interaction ids db =
     db\<lparr>db_replies := filter (\<lambda>r. sr_request r \<notin> set ids) (db_replies db),
       db_interactions := filter (\<lambda>r. ix_id r \<notin> set ids) (db_interactions db)\<rparr>"
  by (induction ids arbitrary: db) (simp_all add: delete_interaction_def filter_filter conj_commute)

lemma delete_agent_tables:
  "fold delete_interaction (agent_interactions db s) (delete_references s (agent_interactions db s)
     (db\<lparr>db_replies := filter (\<lambda>r. sr_target r \<noteq> s) (db_replies db)\<rparr>)) = erased_tables s db"
  unfolding fold_delete_interaction delete_references_def Let_def fold_delete_identity erased_tables_def
  by (simp add: filter_filter conj_ac de_Morgan_disj)

definition erased_label :: "mdb \<Rightarrow> string \<Rightarrow> label" where
  "erased_label db s =
     Erased (map dl_id (filter (\<lambda>d. dl_recipient d = s \<or> dl_sender d = s) (db_deliveries db)))
       (agent_interactions db s)"

lemma does_delete: "does db (\<lambda>ls. set ls \<subseteq> {erased_label db s}) (\<lambda>_ ls. True) (delete_agent env db s)"
  unfolding delete_agent_def Let_def delete_agent_tables
proof (rule does_tx)
  fix db' x
  assume "Inr (Some (erased_tables s db), ()) = Inr (Some db', x)"
  then have "history db [erased_label db s] db'"
    using ev_erased [of db s] by (simp add: erased_label_def history_one)
  then show "\<exists>ls. history db ls db' \<and> set ls \<subseteq> {erased_label db s} \<and> True"
    by (intro exI [of _ "[erased_label db s]"]) simp
qed simp_all

section \<open>Turns\<close>

lemma settlement_Inr:
  assumes db: "sound db" and ok: "settlement env db b = Inr st"
  shows "\<exists>t g. sql_u64 env (tb_generation b) = Inr g \<and> find_turn db (tb_request b) = Some t
    \<and> row_matches b g t \<and> (\<exists>d \<in> set (db_deliveries db). accepted_under t d) \<and> tt_settlement t = st
    \<and> (\<exists>task. find_interaction db (tb_request b) = Some task \<and> ix_kind task = ITask
         \<and> ix_targets task = [tb_recipient b])"
proof -
  obtain g where g: "sql_u64 env (tb_generation b) = Inr g"
    and rest: "(case find (\<lambda>t. row_matches b g t \<and> list_ex (accepted_under t) (db_deliveries db)) (db_turns db) of
         None \<Rightarrow> Inl (MsgErr ''stale_binding'' ''Task turn binding or accepted claim no longer matches.'')
       | Some t \<Rightarrow>
           res_bind (load db (tb_request b)) (\<lambda>task.
             if ix_kind task \<noteq> ITask \<or> ix_targets task \<noteq> [tb_recipient b]
             then Inl (MsgErr ''invalid_task'' ''Binding does not identify the canonical task recipient.'')
             else Inr (tt_settlement t))) = Inr st"
    using ok by (auto simp: settlement_def res_bind_eq_Inr)
  then obtain t where t: "find (\<lambda>t. row_matches b g t \<and> list_ex (accepted_under t) (db_deliveries db)) (db_turns db) = Some t"
    by (cases "find (\<lambda>t. row_matches b g t \<and> list_ex (accepted_under t) (db_deliveries db)) (db_turns db)") auto
  then have mem: "t \<in> set (db_turns db)" "row_matches b g t" "list_ex (accepted_under t) (db_deliveries db)"
    by (auto simp: find_Some_iff)
  have "find_turn db (tb_request b) = Some t"
    using db mem(1,2) find_unique_row [of tt_request "db_turns db" t]
    by (simp add: find_turn_def sound_def keys_ok_def row_matches_def)
  moreover have "\<exists>task. find_interaction db (tb_request b) = Some task \<and> ix_kind task = ITask
         \<and> ix_targets task = [tb_recipient b]" and "tt_settlement t = st"
    using rest by (auto simp: t res_bind_eq_Inr load_found split: if_splits)
  ultimately show ?thesis using g mem(2,3) by (auto simp: list_ex_iff)
qed

lemma unique_turn:
  assumes "sound db" and "find_turn db i = Some t" and "u \<in> set (db_turns db)" and "tt_request u = i"
  shows "u = t"
  using assms find_unique_row [of tt_request "db_turns db" u i] by (simp add: find_turn_def sound_def keys_ok_def)

lemma update_turns_checked_Inr:
  "update_turns_checked env p f db = Inr db' \<longleftrightarrow>
     db' = update_turns p f db \<and> (\<forall>t \<in> set (db_turns db). p t \<longrightarrow> turn_row_ok (f t))"
  by (auto simp: update_turns_checked_def list_all_iff)

lemma event_turn:
  assumes db: "sound db" and t: "find_turn db i = Some t"
    and ok: "update_turns_checked env (\<lambda>t. tt_request t = i) f db = Inr db'"
    and move: "turn_row_ok (f t) \<Longrightarrow> turn_moves db t (f t)"
  shows "event db Quiet db'"
proof -
  have db': "db' = update_turns (\<lambda>t. tt_request t = i) f db"
    and rows: "\<And>u. u \<in> set (db_turns db) \<Longrightarrow> tt_request u = i \<Longrightarrow> turn_row_ok (f u)"
    using ok by (auto simp: update_turns_checked_Inr)
  show ?thesis unfolding db'
  proof (rule ev_turns)
    fix u assume u: "u \<in> set (db_turns db)" "tt_request u = i"
    then have "u = t" using unique_turn [OF db t] by blast
    then show "turn_moves db u (f u)" using move rows [OF u] by simp
  qed
qed

lemma does_record: "sound db \<Longrightarrow> does db plain (\<lambda>_ ls. True) (record_task_turn_outcome env db b status body)"
proof (cases "validate_message body")
  case (Inl e)
  then show ?thesis by (simp add: record_task_turn_outcome_def does_fail)
next
  case (Inr u)
  assume db: "sound db"
  have "does db plain (\<lambda>_ ls. True) (run_tx env db (committing (record_in_transaction env db b status body)))"
  proof (rule does_committing)
    fix db' x
    assume ok: "record_in_transaction env db b status body = Inr (db', x)"
    then obtain st where st: "settlement env db b = Inr st"
      by (auto simp: record_in_transaction_def res_bind_eq_Inr)
    show "\<exists>ls. history db ls db' \<and> plain ls \<and> True"
    proof (cases "st = ''bound''")
      case False
      with ok st have "db' = db"
        by (auto simp: record_in_transaction_def split: if_splits option.splits)
      then show ?thesis using no_event [of "\<lambda>_. True"] by simp
    next
      case True
      obtain t where t: "find_turn db (tb_request b) = Some t" "tt_settlement t = ''bound''"
        using settlement_Inr [OF db st] True by blast
      have "update_turns_checked env (\<lambda>t. tt_request t = tb_request b) (record_outcome status body) db = Inr db'"
        using ok st True by (auto simp: record_in_transaction_def res_bind_eq_Inr)
      then have "event db Quiet db'"
        by (rule event_turn [OF db t(1)]) (use t(2) Inr in \<open>auto simp: turn_moves_def\<close>)
      then show ?thesis using one_event [of db Quiet db' "\<lambda>_. True"] by simp
    qed
  qed simp
  with Inr show ?thesis by (simp add: record_task_turn_outcome_def)
qed

lemma does_abandon: "sound db \<Longrightarrow> does db plain (\<lambda>_ ls. True) (abandon_task_turn_observations env db)"
  unfolding abandon_task_turn_observations_def
proof (rule does_committing)
  let ?p = "\<lambda>t. tt_settlement t = ''bound'' \<and> tt_status t = None \<and> tt_body t = None"
  fix db' x
  assume "map_sum id (\<lambda>db'. (db', ())) (update_turns_checked env ?p (set_settlement ''uncertain'') db) = Inr (db', x)"
  then have "update_turns_checked env ?p (set_settlement ''uncertain'') db = Inr db'"
    by (cases "update_turns_checked env ?p (set_settlement ''uncertain'') db") simp_all
  then have db': "db' = update_turns ?p (set_settlement ''uncertain'') db"
    and ok: "\<And>t. t \<in> set (db_turns db) \<Longrightarrow> ?p t \<Longrightarrow> turn_row_ok (set_settlement ''uncertain'' t)"
    by (auto simp: update_turns_checked_Inr)
  have "event db Quiet db'" unfolding db'
    by (rule ev_turns) (use ok in \<open>auto simp: turn_moves_def\<close>)
  then show "\<exists>ls. history db ls db' \<and> plain ls \<and> True" using one_event [of db Quiet db' "\<lambda>_. True"] by simp
qed simp

lemma does_uncertain: "sound db \<Longrightarrow> does db plain (\<lambda>_ ls. True) (mark_task_turn_uncertain env db b)"
  unfolding mark_task_turn_uncertain_def
proof (rule does_committing)
  fix db' x
  assume db: "sound db" and ok: "res_bind (settlement env db b) (\<lambda>st.
          if st = ''bound''
          then res_bind (update_turns_checked env (\<lambda>t. tt_request t = tb_request b)
                           (set_settlement ''uncertain'') db) (\<lambda>db'. Inr (db', ()))
          else if st = ''uncertain'' then Inr (db, ())
          else Inl (MsgErr ''invalid_state'' ''Known outcomes cannot be discarded as uncertain.'')) = Inr (db', x)"
  then obtain st where st: "settlement env db b = Inr st" by (auto simp: res_bind_eq_Inr)
  show "\<exists>ls. history db ls db' \<and> plain ls \<and> True"
  proof (cases "st = ''bound''")
    case False
    with ok st have "db' = db" by (auto split: if_splits)
    then show ?thesis using no_event [of "\<lambda>_. True"] by simp
  next
    case True
    obtain t where t: "find_turn db (tb_request b) = Some t" "tt_settlement t = ''bound''"
      using settlement_Inr [OF db st] True by blast
    have "update_turns_checked env (\<lambda>t. tt_request t = tb_request b) (set_settlement ''uncertain'') db = Inr db'"
      using ok st True by (auto simp: res_bind_eq_Inr)
    then have "event db Quiet db'"
      by (rule event_turn [OF db t(1)]) (use t(2) in \<open>auto simp: turn_moves_def\<close>)
    then show ?thesis using one_event [of db Quiet db' "\<lambda>_. True"] by simp
  qed
qed simp

lemma sql_u64_bounds:
  assumes "sql_u64 env n = Inr g"
  shows "0 \<le> g \<and> g < 2 ^ 63"
proof -
  have "g = int (unat n)" "unat n < 2 ^ 63" using assms by (simp_all only: sql_u64_Inr)
  then have "int (unat n) < int (2 ^ 63)" by (simp only: of_nat_less_iff)
  then have "int (unat n) < 2 ^ 63" by (simp only: of_nat_power of_nat_numeral)
  with \<open>g = int (unat n)\<close> show ?thesis by (simp only: of_nat_0_le_iff simp_thms)
qed

lemma bind_Inr:
  assumes "bind_in_transaction env db c provider session turn mode = Inr (db', b)"
  obtains g task recipient where
    "sql_u64 env (tc_generation c) = Inr g" "find_interaction db (ix_id (tc_record c)) = Some task"
    "task_recipient db (ix_id (tc_record c)) = Inr recipient" "ix_kind task = ITask" "ix_targets task = [recipient]"
    "b = \<lparr>tb_request = ix_id (tc_record c), tb_claim = tc_token c, tb_recipient = recipient,
          tb_generation = tc_generation c, tb_provider = provider, tb_session = session,
          tb_turn = turn, tb_mode = mode\<rparr>"
    "turn_row_ok (row_of_binding b g)" "find_turn db (ix_id (tc_record c)) = None"
    "finish_claim_rows env c ''provider_accepted'' (db\<lparr>db_turns := db_turns db @ [row_of_binding b g]\<rparr>) = Inr db'"
proof -
  obtain task recipient g db1 where l: "find_interaction db (ix_id (tc_record c)) = Some task"
    and r: "task_recipient db (ix_id task) = Inr recipient"
    and k: "ix_kind task = ITask" "ix_targets task = [recipient]"
    and b: "b = \<lparr>tb_request = ix_id task, tb_claim = tc_token c, tb_recipient = recipient,
          tb_generation = tc_generation c, tb_provider = provider, tb_session = session,
          tb_turn = turn, tb_mode = mode\<rparr>"
    and g: "sql_u64 env (tb_generation b) = Inr g"
    and i: "insert_turn env (row_of_binding b g) db = Inr db1"
    and f: "finish_claim_rows env c ''provider_accepted'' db1 = Inr db'"
    using assms unfolding bind_in_transaction_def Let_def res_bind_eq_Inr load_found guard_err_ok by blast
  have id: "ix_id task = ix_id (tc_record c)" using find_interaction_SomeD [OF l] by simp
  have rq: "tt_request (row_of_binding b g) = ix_id (tc_record c)" by (simp add: row_of_binding_def b id)
  have "turn_row_ok (row_of_binding b g)" "db1 = db\<lparr>db_turns := db_turns db @ [row_of_binding b g]\<rparr>"
    and "find_turn db (ix_id (tc_record c)) = None"
    using i rq by (auto simp: insert_turn_def list_ex_iff find_turn_def find_key_None split: if_splits)
  then show ?thesis using that [of g task recipient] l r k b g f id by simp
qed

lemma task_recipient_Inr:
  "task_recipient db i = Inr r \<Longrightarrow>
     \<exists>d \<in> set (db_deliveries db). dl_id d = i \<and> dl_operation d = ''followup_task'' \<and> dl_recipient d = r"
  by (auto simp: task_recipient_def find_Some_iff split: option.splits)

lemma does_bind_turn:
  assumes db: "sound db"
  shows "does db plain (\<lambda>_ ls. ls = [Settled (ix_id (tc_record c)) ''provider_accepted''])
    (bind_task_turn env db c provider session turn mode)"
  unfolding bind_task_turn_def
proof (rule does_refuse, rule does_committing)
  let ?i = "ix_id (tc_record c)"
  fix db' b
  assume "bind_in_transaction env db c provider session turn mode = Inr (db', b)"
  then show "\<exists>ls. history db ls db' \<and> plain ls \<and> ls = [Settled ?i ''provider_accepted'']"
  proof (rule bind_Inr)
    fix g task recipient
    let ?t = "row_of_binding b g" and ?mid = "db\<lparr>db_turns := db_turns db @ [row_of_binding b g]\<rparr>"
    assume g: "sql_u64 env (tc_generation c) = Inr g" and r: "task_recipient db ?i = Inr recipient"
      and b: "b = \<lparr>tb_request = ?i, tb_claim = tc_token c, tb_recipient = recipient,
          tb_generation = tc_generation c, tb_provider = provider, tb_session = session,
          tb_turn = turn, tb_mode = mode\<rparr>"
      and ok: "turn_row_ok ?t" and none: "find_turn db ?i = None"
      and f: "finish_claim_rows env c ''provider_accepted'' ?mid = Inr db'"
    have held: "\<exists>d \<in> set (db_deliveries db). dl_id d = ?i \<and> holds_claim c g d"
      and db': "db' = change_at ?i (holds_claim c g) (settle_delivery ''provider_accepted'') ?mid"
      using finish_claim_rows_Inr [OF f] g by auto
    obtain d where d: "d \<in> set (db_deliveries db)" "dl_id d = ?i" "dl_operation d = ''followup_task''"
        "dl_recipient d = recipient"
      using task_recipient_Inr [OF r] by blast
    obtain e where e: "e \<in> set (db_deliveries db)" "dl_id e = ?i" "holds_claim c g e" using held by blast
    have "e = d" using unique_delivery [of db e] unique_delivery [of db d] db d(1,2) e(1,2) by (simp add: sound_def)
    with d e have ex: "\<exists>d \<in> set (db_deliveries db). dl_id d = tt_request ?t \<and> holds_claim c g d
        \<and> dl_recipient d = tt_recipient ?t \<and> dl_operation d = ''followup_task''"
      by (intro bexI [of _ d]) (auto simp: row_of_binding_def b)
    have "0 \<le> g \<and> g < 2 ^ 63" by (rule sql_u64_bounds [OF g])
    moreover have "tt_generation ?t = g" "tt_settlement ?t = ''bound''" "tt_request ?t = ?i" "tt_claim ?t = tc_token c"
      by (simp_all add: row_of_binding_def b)
    ultimately have "event db (Settled (tt_request ?t) ''provider_accepted'')
        (change_at (tt_request ?t) (holds_claim c g) (settle_delivery ''provider_accepted'') ?mid)"
      using ok none by (intro ev_bound [OF ex]) (auto simp: holds_claim_def)
    then have "event db (Settled ?i ''provider_accepted'') db'" using db' \<open>tt_request ?t = ?i\<close> by simp
    then show ?thesis by (rule one_event) simp_all
  qed
qed simp

lemma replied_turns: "db_turns (replied_tables env db sender request_id status m task) = db_turns db"
  by (simp add: replied_tables_def answered_fields)

text \<open>What a publication does: the reply, unless there is one, and the settlement.\<close>

lemma publish_Inr:
  assumes fr: "fresh_env env db" and db: "sound db"
    and st: "settlement env db b = Inr ''outcome_recorded''"
    and ok: "publish_in_transaction env db b = Inr (db', r)"
  shows "\<exists>t db1. find_turn db (tb_request b) = Some t \<and> find_turn db1 (tb_request b) = Some t
    \<and> update_turns_checked env (\<lambda>t. tt_request t = tb_request b) (set_settlement ''published'') db1 = Inr db'
    \<and> (case find_reply db (tb_request b) of
         Some q \<Rightarrow> db1 = db \<and> r = None
       | None \<Rightarrow> \<exists>task status body. tt_status t = Some status \<and> tt_body t = Some body
           \<and> find_interaction db (tb_request b) = Some task \<and> ix_kind task = ITask
           \<and> ix_targets task = [tb_recipient b] \<and> validate_message body = Inr ()
           \<and> db1 = replied_tables env db (tb_recipient b) (tb_request b) status body task
           \<and> r = Some \<lparr>rp_task = completed_task env task,
                  rp_record = reply_record env (tb_recipient b) task (tb_request b) body,
                  rp_reply = reply_row env (tb_recipient b) (tb_request b) status body, rp_duplicate = False\<rparr>)"
proof -
  obtain t where t: "find_turn db (tb_request b) = Some t" using settlement_Inr [OF db st] by blast
  show ?thesis
  proof (cases "find_reply db (tb_request b)")
    case (Some q)
    then show ?thesis
      using ok t by (auto simp: publish_in_transaction_def res_bind_eq_Inr)
  next
    case None
    obtain status body where sb: "tt_status t = Some status" "tt_body t = Some body"
      using ok None t by (auto simp: publish_in_transaction_def split: option.splits)
    obtain db1 r0 where v: "validate_message body = Inr ()"
      and rep: "reply_in_transaction env db (tb_recipient b) (tb_request b) status body None = Inr (db1, r0)"
      and r: "r = Some r0"
      and up: "update_turns_checked env (\<lambda>t. tt_request t = tb_request b) (set_settlement ''published'') db1 = Inr db'"
      using ok None t sb by (auto simp: publish_in_transaction_def res_bind_eq_Inr)
    obtain task where task: "find_interaction db (tb_request b) = Some task" "ix_kind task = ITask"
        "ix_targets task = [tb_recipient b]"
      and new: "reply_new env db (tb_recipient b) (tb_request b) status body None task = Inr (db1, r0)"
      using reply_in_transaction_Inr [OF fr rep] None by auto
    from reply_new_Inr [OF fr task(1) None new]
    have e1: "db1 = replied_tables env db (tb_recipient b) (tb_request b) status body task"
      and e2: "r0 = \<lparr>rp_task = completed_task env task,
                  rp_record = reply_record env (tb_recipient b) task (tb_request b) body,
                  rp_reply = reply_row env (tb_recipient b) (tb_request b) status body, rp_duplicate = False\<rparr>"
      by auto
    have "find_turn db1 (tb_request b) = Some t" using t by (simp add: e1 find_turn_def replied_turns)
    with t sb v up task e1 e2 r None show ?thesis by auto
  qed
qed

lemma does_publish:
  assumes fr: "fresh_env env db" and db: "sound db"
  shows "does db plain (\<lambda>_ ls. True) (publish_task_turn_outcome env db b)"
  unfolding publish_task_turn_outcome_def
proof (rule does_tx)
  fix db' r
  assume t: "res_bind (settlement env db b) (\<lambda>st.
          if st \<noteq> ''outcome_recorded'' then Inr (None, None)
          else committing (publish_in_transaction env db b)) = Inr (Some db', r)"
  then have st: "settlement env db b = Inr ''outcome_recorded''"
    and ok: "publish_in_transaction env db b = Inr (db', r)"
    by (auto simp: res_bind_eq_Inr committing_Inr split: if_splits)
  obtain t db1 where t: "find_turn db (tb_request b) = Some t" "find_turn db1 (tb_request b) = Some t"
    and up: "update_turns_checked env (\<lambda>t. tt_request t = tb_request b) (set_settlement ''published'') db1 = Inr db'"
    and c: "case find_reply db (tb_request b) of
         Some q \<Rightarrow> db1 = db \<and> r = None
       | None \<Rightarrow> \<exists>task status body. tt_status t = Some status \<and> tt_body t = Some body
           \<and> find_interaction db (tb_request b) = Some task \<and> ix_kind task = ITask
           \<and> ix_targets task = [tb_recipient b] \<and> validate_message body = Inr ()
           \<and> db1 = replied_tables env db (tb_recipient b) (tb_request b) status body task
           \<and> r = Some \<lparr>rp_task = completed_task env task,
                  rp_record = reply_record env (tb_recipient b) task (tb_request b) body,
                  rp_reply = reply_row env (tb_recipient b) (tb_request b) status body, rp_duplicate = False\<rparr>"
    using publish_Inr [OF fr db st ok] by blast
  have rec: "tt_settlement t = ''outcome_recorded''" "tt_request t = tb_request b"
    using settlement_Inr [OF db st] t(1) find_turn_SomeD [OF t(1)] by auto
  have first: "\<exists>ls. history db ls db1 \<and> plain ls \<and> find_reply db1 (tb_request b) \<noteq> None"
  proof (cases "find_reply db (tb_request b)")
    case (Some q)
    with c show ?thesis by (auto intro!: exI [of _ "[]"] history_nil)
  next
    case None
    with c obtain task status body where k: "find_interaction db (tb_request b) = Some task" "ix_kind task = ITask"
        "ix_targets task = [tb_recipient b]" "validate_message body = Inr ()"
      and d1: "db1 = replied_tables env db (tb_recipient b) (tb_request b) status body task"
      by auto
    have "find_reply db1 (tb_request b) \<noteq> None"
      unfolding d1 replied_tables_def using None by (simp add: answered_reply reply_row_def)
    then show ?thesis
      using one_event [OF event_replied [OF fr k(1-3) None k(4), of status], of "\<lambda>_. find_reply db1 (tb_request b) \<noteq> None"]
      by (simp add: d1)
  qed
  then obtain ls where ls: "history db ls db1" "plain ls" "find_reply db1 (tb_request b) \<noteq> None" by blast
  have "event db1 Quiet db'"
    by (rule event_turn [OF history_sound [OF ls(1) db] t(2) up])
      (use rec ls(3) in \<open>auto simp: turn_moves_def\<close>)
  then have "history db (ls @ [Quiet]) db'" using ls(1) history_append history_one by blast
  with ls(2) show "\<exists>ls. history db ls db' \<and> plain ls \<and> True" by (intro exI [of _ "ls @ [Quiet]"]) simp
qed simp_all

section \<open>Every operation is a history\<close>

definition may_have :: "mop \<Rightarrow> label \<Rightarrow> bool" where
  "may_have op l \<longleftrightarrow>
     (case l of
        Released i \<Rightarrow> (\<exists>c. op = ReleaseClaim c \<and> i = ix_id (tc_record c))
      | Erased _ _ \<Rightarrow> (\<exists>s. op = DeleteAgent s)
      | _ \<Rightarrow> True)"

lemma plain_may_have: "plain_label l \<Longrightarrow> may_have op l"
  by (cases l) (simp_all add: plain_label_def may_have_def)

definition in_labels :: "answer \<Rightarrow> label list \<Rightarrow> bool" where
  "in_labels a ls \<longleftrightarrow>
     (\<forall>i \<in> shown a. Shown i \<in> set ls) \<and> (\<forall>i \<in> claimed a. \<exists>t g. Dispatched i t g \<in> set ls)
     \<and> (\<forall>b. a = Bound b \<longrightarrow> Settled (tb_request b) ''provider_accepted'' \<in> set ls)"

definition simulated :: "mdb \<Rightarrow> mop \<Rightarrow> answer \<times> mdb \<Rightarrow> bool" where
  "simulated db op r \<longleftrightarrow>
     (\<exists>ls. history db ls (snd r) \<and> list_all (may_have op) ls \<and> in_labels (fst r) ls)"

lemma simulated_by:
  assumes "does db A P res" and "\<And>ls. A ls \<Longrightarrow> list_all (may_have op) ls"
    and "\<And>x ls. P x ls \<Longrightarrow> in_labels (f x) ls"
  shows "simulated db op (answer_by f res)"
proof -
  obtain ls where ls: "history db ls (snd res)" "A ls" "\<And>x. fst res = Inr x \<Longrightarrow> P x ls"
    using assms(1) by (auto simp: does_def)
  have "in_labels (fst (answer_by f res)) ls"
    using assms(3) ls(3) by (cases "fst res") (simp_all add: answer_by_def in_labels_def)
  with ls assms(2) show ?thesis unfolding simulated_def by (intro exI [of _ ls]) (simp add: answer_by_def)
qed

lemma plain_all: "plain ls \<Longrightarrow> list_all (may_have op) ls"
  by (auto simp: list_all_iff plain_may_have)

lemma silent [simp]:
  "in_labels (Admitted a) ls" "in_labels (Replied r) ls" "in_labels (Flag b) ls" "in_labels (Published p) ls"
  "in_labels Finished ls"
  by (simp_all add: in_labels_def)

lemma in_labels_claim: "claim_labels r ls \<Longrightarrow> in_labels (Claimed r) ls"
  by (auto simp: claim_labels_def in_labels_def split: option.splits)

lemma released_all: "set ls \<subseteq> {Released (ix_id (tc_record c))} \<Longrightarrow> list_all (may_have (ReleaseClaim c)) ls"
  by (auto simp: list_all_iff may_have_def)

lemma erased_all: "set ls \<subseteq> {erased_label db s} \<Longrightarrow> list_all (may_have (DeleteAgent s)) ls"
  by (auto simp: list_all_iff may_have_def erased_label_def)

theorem exec_simulated:
  assumes fr: "fresh_env env db" and db: "sound db"
  shows "simulated db op (exec env op db)"
proof (cases op)
  case (AdmitMessage rq)
  then show ?thesis by (simp add: simulated_by [OF does_admissions(1) [OF fr] plain_all])
next
  case (AdmitWake rq o')
  then show ?thesis by (simp add: simulated_by [OF does_admissions(2) [OF fr] plain_all])
next
  case (AdmitTask rq o')
  then show ?thesis by (simp add: simulated_by [OF does_admissions(3) [OF fr] plain_all])
next
  case (AdmitHostTask run node to m g)
  then show ?thesis by (simp add: simulated_by [OF does_admissions(4) [OF fr] plain_all])
next
  case (AdmitHostMessage ok run node to m g)
  then show ?thesis by (simp add: simulated_by [OF does_admissions(5) [OF fr] plain_all])
next
  case (Reply s i st m)
  then show ?thesis by (simp add: reply_def simulated_by [OF does_reply [OF fr] plain_all])
next
  case (StartupFailure c)
  then show ?thesis by (simp add: simulated_by [OF does_startup_failure [OF fr] plain_all])
next
  case (Receive r c a l)
  have "simulated db op (answer_by Page (receive env db r c a l))"
    by (rule simulated_by [OF does_receive [OF db] plain_all]) (simp_all add: in_labels_def)
  with Receive show ?thesis by simp
next
  case (DeleteAgent s)
  then show ?thesis by (simp add: simulated_by [OF does_delete erased_all])
next
  case (ClaimTask r g)
  then show ?thesis by (simp add: simulated_by [OF does_claims(1) plain_all] in_labels_claim)
next
  case (ClaimReply r i g)
  then show ?thesis by (simp add: simulated_by [OF does_claims(2) plain_all] in_labels_claim)
next
  case (ClaimInformation r i g)
  then show ?thesis by (simp add: simulated_by [OF does_claims(3) plain_all] in_labels_claim)
next
  case (ClaimWakeable r i g)
  then show ?thesis by (simp add: simulated_by [OF does_claims(4) plain_all] in_labels_claim)
next
  case (FinishClaim c s)
  then show ?thesis by (simp add: simulated_by [OF does_finish plain_all])
next
  case (ReleaseClaim c)
  then show ?thesis by (simp add: simulated_by [OF does_release released_all])
next
  case (StaleWakeable i)
  then show ?thesis by (simp add: simulated_by [OF does_stale plain_all])
next
  case (SetContinuation i s)
  then show ?thesis by (simp add: simulated_by [OF does_continuation plain_all])
next
  case (BindTurn c p s t m)
  have "fst (bind_task_turn env db c p s t m) = Inr b \<Longrightarrow> tb_request b = ix_id (tc_record c)" for b
    by (auto simp: bind_task_turn_def run_tx_def committing_def res_bind_eq_Inr elim!: bind_Inr
        split: if_splits sum.splits option.splits commit_outcome.splits)
  with does_bind_turn [OF db, of c env p s t m]
  have "does db plain (\<lambda>b ls. ls = [Settled (ix_id (tc_record c)) ''provider_accepted'']
      \<and> tb_request b = ix_id (tc_record c)) (bind_task_turn env db c p s t m)"
    by (auto simp: does_def)
  then have "simulated db op (answer_by Bound (bind_task_turn env db c p s t m))"
    by (rule simulated_by [OF _ plain_all]) (simp_all add: in_labels_def)
  with BindTurn show ?thesis by simp
next
  case (RecordOutcome b st m)
  then show ?thesis by (simp add: simulated_by [OF does_record [OF db] plain_all])
next
  case (PublishOutcome b)
  then show ?thesis by (simp add: simulated_by [OF does_publish [OF fr db] plain_all])
next
  case AbandonTurns
  then show ?thesis by (simp add: simulated_by [OF does_abandon [OF db] plain_all])
next
  case (MarkUncertain b)
  then show ?thesis by (simp add: simulated_by [OF does_uncertain [OF db] plain_all])
qed

end
