(* ===== verification/Messaging_Ownership.thy ===== *)
theory Messaging_Ownership
  imports Messaging_Simulation
begin

text \<open>
  Who may expose a message: whole runs of operations, the interpretation of the machine with
  an invariant, and the exclusion of the receiver and the scheduler.
\<close>

section \<open>Runs\<close>

definition no_deletes :: "(mop \<times> answer) list \<Rightarrow> bool" where
  "no_deletes es \<longleftrightarrow> list_all (\<lambda>e. case fst e of DeleteAgent _ \<Rightarrow> False | _ \<Rightarrow> True) es"

definition releases :: "string \<Rightarrow> mop \<times> answer \<Rightarrow> bool" where
  "releases i e \<longleftrightarrow> (case fst e of ReleaseClaim c \<Rightarrow> ix_id (tc_record c) = i | _ \<Rightarrow> False)"

lemma exec_history:
  assumes "fresh_env env db" and "sound db" and "exec env op db = (a, db')"
  obtains ls where "history db ls db'" "list_all (may_have op) ls" "in_labels a ls"
  using exec_simulated [OF assms(1,2), of op] assms(3) by (auto simp: simulated_def)

lemma exec_sound: "fresh_env env db \<Longrightarrow> sound db \<Longrightarrow> exec env op db = (a, db') \<Longrightarrow> sound db'"
  by (rule exec_history [of env db op a db']) (auto intro: history_sound)

text \<open>A step of the machine that is given an environment whose identifiers are new.\<close>

definition msg_step :: "mdb \<Rightarrow> msg_env \<times> mop \<Rightarrow> unit + mdb" where
  "msg_step db e = (if fresh_env (fst e) db then Inr (snd (exec (fst e) (snd e) db)) else Inl ())"

interpretation messages: guarded_machine msg_step sound "\<lambda>_. True"
proof
  fix db e db'
  assume "sound db" and "msg_step db e = Inr db'"
  then have "fresh_env (fst e) db" "snd (exec (fst e) (snd e) db) = db'"
    by (auto simp: msg_step_def split: if_splits)
  with \<open>sound db\<close> show "sound db'"
    using exec_sound [of "fst e" db "snd e" "fst (exec (fst e) (snd e) db)" db'] by (metis prod.collapse)
qed simp

lemma op_run_machine: "op_run db es db' \<Longrightarrow> \<exists>ms. run_steps msg_step db ms = Inr db'"
proof (induction rule: op_run.induct)
  case (op_run_nil db)
  show ?case by (rule exI [of _ "[]"]) simp
next
  case (op_run_step env db op a db' es db'')
  then obtain ms where "run_steps msg_step db' ms = Inr db''" by blast
  with op_run_step have "run_steps msg_step db ((env, op) # ms) = Inr db''" by (simp add: msg_step_def)
  then show ?case by blast
qed

lemma op_run_sound: "op_run db es db' \<Longrightarrow> sound db \<Longrightarrow> sound db'"
  using op_run_machine messages.run_keeps by blast

lemma op_run_labels:
  assumes "op_run db es db'" and "sound db"
  shows "\<exists>ls. history db ls db' \<and> (\<forall>l \<in> set ls. \<exists>e \<in> set es. may_have (fst e) l)"
  using assms
proof (induction rule: op_run.induct)
  case (op_run_nil db)
  show ?case by (rule exI [of _ "[]"]) (simp add: history_nil)
next
  case (op_run_step env db op a db' es db'')
  obtain l1 where l1: "history db l1 db'" "list_all (may_have op) l1"
    using exec_history [OF op_run_step(1) op_run_step.prems op_run_step(2)] by blast
  have "sound db'" using exec_sound [OF op_run_step(1) op_run_step.prems op_run_step(2)] .
  with op_run_step.IH obtain l2 where l2: "history db' l2 db''" "\<forall>l \<in> set l2. \<exists>e \<in> set es. may_have (fst e) l"
    by blast
  have "\<forall>l \<in> set (l1 @ l2). \<exists>e \<in> set ((op, a) # es). may_have (fst e) l"
    using l1(2) l2(2) by (auto simp: list_all_iff)
  then show ?case using history_append [OF l1(1) l2(1)] by blast
qed

section \<open>What the automaton keeps\<close>

definition erasing :: "label \<Rightarrow> bool" where
  "erasing l \<longleftrightarrow> (case l of Erased _ _ \<Rightarrow> True | _ \<Rightarrow> False)"

lemma no_deletes_labels:
  assumes "no_deletes es" and "e \<in> set es" and "may_have (fst e) l"
  shows "\<not> erasing l"
  using assms by (cases l) (auto simp: erasing_def may_have_def no_deletes_def list_all_iff split: mop.splits prod.splits)

text \<open>Held by the receiver, or without a delivery: nothing but an erasure changes that.\<close>

lemma received_stays:
  "own_run i ls p = Some p' \<Longrightarrow> p \<in> {AtReceiver, Untracked} \<Longrightarrow> \<forall>l \<in> set ls. \<not> erasing l \<Longrightarrow>
     p' = p \<and> (\<forall>t g. Dispatched i t g \<notin> set ls)"
proof (induction ls arbitrary: p)
  case (Cons l ls)
  then obtain q where q: "own_next i l p = Some q" "own_run i ls q = Some p'" by (auto split: option.splits)
  with Cons.prems have "q = p" and "\<forall>t g. l \<noteq> Dispatched i t g"
    by (cases l; auto simp: erasing_def split: if_splits phase.splits)+
  with Cons.IH [OF q(2)] Cons.prems show ?case by auto
qed simp

definition taken :: "phase \<Rightarrow> bool" where
  "taken p \<longleftrightarrow> (case p of AtScheduler _ _ \<Rightarrow> True | Closed _ \<Rightarrow> True | _ \<Rightarrow> False)"

lemma taken_stays:
  "own_run i ls p = Some p' \<Longrightarrow> taken p \<Longrightarrow> \<forall>l \<in> set ls. \<not> erasing l \<and> l \<noteq> Released i \<Longrightarrow>
     taken p' \<and> Shown i \<notin> set ls \<and> (\<forall>t g. Dispatched i t g \<notin> set ls)"
proof (induction ls arbitrary: p)
  case (Cons l ls)
  then obtain q where q: "own_next i l p = Some q" "own_run i ls q = Some p'" by (auto split: option.splits)
  with Cons.prems have "taken q" and "\<forall>t g. l \<noteq> Dispatched i t g" and "l \<noteq> Shown i"
    by (cases l; auto simp: erasing_def taken_def split: if_splits phase.splits)+
  with Cons.IH [OF q(2)] Cons.prems show ?case by auto
qed simp

lemma closed_stays:
  "own_run i ls (Closed s) = Some p' \<Longrightarrow> \<forall>l \<in> set ls. \<not> erasing l \<Longrightarrow>
     p' = Closed s \<and> Shown i \<notin> set ls \<and> (\<forall>t g. Dispatched i t g \<notin> set ls)"
proof (induction ls)
  case (Cons l ls)
  then obtain q where q: "own_next i l (Closed s) = Some q" "own_run i ls q = Some p'" by (auto split: option.splits)
  with Cons.prems have "q = Closed s" and "\<forall>t g. l \<noteq> Dispatched i t g" and "l \<noteq> Shown i"
    by (cases l; auto simp: erasing_def split: if_splits)+
  with Cons.IH Cons.prems q(2) show ?case by auto
qed simp

lemma own_run_splits:
  assumes "own_run i ls p = Some p'" and "l \<in> set ls"
  obtains ms ns q q' where "ls = ms @ l # ns" "own_run i ms p = Some q" "own_next i l q = Some q'"
    "own_run i ns q' = Some p'"
proof -
  obtain ms ns where "ls = ms @ l # ns" using assms(2) by (auto simp: in_set_conv_decomp)
  with assms(1) that show ?thesis by (auto simp: own_run_append split: option.splits)
qed

lemma shown_phase:
  assumes "own_run i ls p = Some p'" and "Shown i \<in> set ls" and "\<forall>l \<in> set ls. \<not> erasing l"
  shows "p' \<in> {AtReceiver, Untracked}"
  using assms(1,2)
proof (rule own_run_splits)
  fix ms ns q q'
  assume s: "ls = ms @ Shown i # ns" "own_next i (Shown i) q = Some q'" "own_run i ns q' = Some p'"
  then have q': "q' \<in> {AtReceiver, Untracked}" by (auto split: phase.splits)
  have "\<forall>l \<in> set ns. \<not> erasing l" using assms(3) s(1) by simp
  with received_stays [OF s(3) q'] q' show ?thesis by simp
qed

lemma dispatched_phase:
  assumes "own_run i ls p = Some p'" and "Dispatched i t g \<in> set ls"
    and "\<forall>l \<in> set ls. \<not> erasing l \<and> l \<noteq> Released i"
  shows "taken p'"
  using assms(1,2)
proof (rule own_run_splits)
  fix ms ns q q'
  assume s: "ls = ms @ Dispatched i t g # ns" "own_next i (Dispatched i t g) q = Some q'" "own_run i ns q' = Some p'"
  then have q': "taken q'" by (auto simp: taken_def split: if_splits)
  have "\<forall>l \<in> set ns. \<not> erasing l \<and> l \<noteq> Released i" using assms(3) s(1) by simp
  with taken_stays [OF s(3) q'] show ?thesis by simp
qed

text \<open>The answers of a run whose operations delete nothing, from the labels.\<close>

lemma exposing_ops:
  assumes "may_have op l" and "i \<in> shown a \<union> claimed a" and "exec env op db = (a, db')"
  shows "\<not> erasing l \<and> (\<forall>j. l \<noteq> Released j)"
  using assms by (cases op; cases l)
    (auto simp: may_have_def erasing_def answer_by_def split: sum.splits)

section \<open>Properties\<close>


text \<open>
  C8. Every operation refines the ownership automaton: there is a sequence of labels that takes
  the phase of every message (unknown, without a delivery, open, at the receiver, at the
  scheduler under a claim, closed) from what it is before the operation to what it is after it;
  the messages of an answered page are shown in it, the message of an answered claim is
  dispatched in it; only a release puts a claimed message back, and only a deletion erases one.
\<close>

theorem operations_refine_ownership:
  assumes "sound db" and "fresh_env env db" and "exec env op db = (a, db')"
  shows "\<exists>ls. (\<forall>i. own_run i ls (phase db i) = Some (phase db' i)) \<and> in_labels a ls
    \<and> list_all (may_have op) ls"
proof -
  obtain ls where "history db ls db'" "list_all (may_have op) ls" "in_labels a ls"
    using exec_history [OF assms(2,1,3)] .
  then show ?thesis using history_phase [OF _ assms(1)] by blast
qed

lemma run_around:
  assumes run: "op_run db0 (es1 @ (op1, a1) # es2 @ (op2, a2) # es3) db9" and db: "sound db0"
  obtains db1 db2 db3 db4 env1 env2 where
    "sound db1" "fresh_env env1 db1" "exec env1 op1 db1 = (a1, db2)" "op_run db2 es2 db3"
    "sound db2" "sound db3" "fresh_env env2 db3" "exec env2 op2 db3 = (a2, db4)"
proof -
  from run obtain db1 where r1: "op_run db0 es1 db1" and r2: "op_run db1 ((op1, a1) # es2 @ (op2, a2) # es3) db9"
    by (auto simp: op_run_append)
  from r2 obtain env1 db2 where e1: "fresh_env env1 db1" "exec env1 op1 db1 = (a1, db2)"
    and r3: "op_run db2 (es2 @ (op2, a2) # es3) db9"
    by (auto elim: op_run_consE)
  from r3 obtain db3 where r4: "op_run db2 es2 db3" and r5: "op_run db3 ((op2, a2) # es3) db9"
    by (auto simp: op_run_append)
  from r5 obtain env2 db4 where e2: "fresh_env env2 db3" "exec env2 op2 db3 = (a2, db4)"
    by (auto elim: op_run_consE)
  have s1: "sound db1" using op_run_sound [OF r1 db] .
  have s2: "sound db2" using exec_sound [OF e1(1) s1 e1(2)] .
  show ?thesis using that [OF s1 e1 r4 s2 op_run_sound [OF r4 s2] e2] .
qed

text \<open>
  C7. Exactly one owner exposes a message, in every run of the store in which no agent is
  deleted meanwhile: once a page has shown it to its receiver, no claim of the scheduler ever
  gets it; and once the scheduler has claimed it, neither a page shows it nor another claim gets
  it, unless that claim is released in between with the proof that nothing was written.
\<close>

theorem one_owner_exposes:
  assumes run: "op_run db0 (es1 @ (op1, a1) # es2 @ (op2, a2) # es3) db9" and db: "sound db0"
    and del: "no_deletes es2"
  shows "\<not> (i \<in> shown a1 \<and> i \<in> claimed a2)
    \<and> (i \<in> claimed a1 \<and> i \<in> shown a2 \<union> claimed a2 \<longrightarrow> (\<exists>e \<in> set es2. releases i e))"
proof -
  obtain db1 db2 db3 db4 env1 env2 where s: "sound db1" "fresh_env env1 db1" "exec env1 op1 db1 = (a1, db2)"
      "op_run db2 es2 db3" "sound db2" "sound db3" "fresh_env env2 db3" "exec env2 op2 db3 = (a2, db4)"
    by (rule run_around [OF run db])
  obtain l1 where l1: "history db1 l1 db2" "list_all (may_have op1) l1" "in_labels a1 l1"
    by (rule exec_history [OF s(2,1,3)])
  obtain l2 where l2: "history db2 l2 db3" "\<forall>l \<in> set l2. \<exists>e \<in> set es2. may_have (fst e) l"
    using op_run_labels [OF s(4,5)] by blast
  obtain l3 where l3: "history db3 l3 db4" "list_all (may_have op2) l3" "in_labels a2 l3"
    by (rule exec_history [OF s(7,6,8)])
  have p1: "own_run i l1 (phase db1 i) = Some (phase db2 i)"
    and p2: "own_run i l2 (phase db2 i) = Some (phase db3 i)"
    and p3: "own_run i l3 (phase db3 i) = Some (phase db4 i)"
    using history_phase [OF l1(1) s(1)] history_phase [OF l2(1) s(5)] history_phase [OF l3(1) s(6)] by blast+
  have quiet2: "\<forall>l \<in> set l2. \<not> erasing l" using l2(2) no_deletes_labels [OF del] by blast
  have ops1: "\<forall>l \<in> set l1. \<not> erasing l \<and> l \<noteq> Released i" if "i \<in> shown a1 \<union> claimed a1"
    using exposing_ops [OF _ that s(3)] l1(2) by (auto simp: list_all_iff)
  have ops3: "\<forall>l \<in> set l3. \<not> erasing l \<and> l \<noteq> Released i" if "i \<in> shown a2 \<union> claimed a2"
    using exposing_ops [OF _ that s(8)] l3(2) by (auto simp: list_all_iff)
  have "\<not> (i \<in> shown a1 \<and> i \<in> claimed a2)"
  proof
    assume i: "i \<in> shown a1 \<and> i \<in> claimed a2"
    then have "Shown i \<in> set l1" using l1(3) by (simp add: in_labels_def)
    then have "phase db2 i \<in> {AtReceiver, Untracked}" using shown_phase [OF p1] ops1 i by blast
    then have "phase db3 i \<in> {AtReceiver, Untracked}" using received_stays [OF p2 _ quiet2] by auto
    then have "\<forall>t g. Dispatched i t g \<notin> set l3" using received_stays [OF p3] ops3 i by blast
    moreover have "\<exists>t g. Dispatched i t g \<in> set l3" using i l3(3) by (simp add: in_labels_def)
    ultimately show False by blast
  qed
  moreover have "\<exists>e \<in> set es2. releases i e" if i: "i \<in> claimed a1 \<and> i \<in> shown a2 \<union> claimed a2"
  proof (rule ccontr)
    assume no: "\<not> (\<exists>e \<in> set es2. releases i e)"
    have quiet: "\<forall>l \<in> set l2. \<not> erasing l \<and> l \<noteq> Released i"
      using quiet2 l2(2) no by (fastforce simp: may_have_def releases_def)
    obtain t g where "Dispatched i t g \<in> set l1" using i l1(3) by (auto simp: in_labels_def)
    then have "taken (phase db2 i)" using dispatched_phase [OF p1] ops1 i by blast
    then have "taken (phase db3 i)" using taken_stays [OF p2 _ quiet] by simp
    then have "Shown i \<notin> set l3 \<and> (\<forall>t g. Dispatched i t g \<notin> set l3)"
      using taken_stays [OF p3] ops3 i by blast
    then show False using i l3(3) by (auto simp: in_labels_def)
  qed
  ultimately show ?thesis by blast
qed

text \<open>
  C29. A delivery that the scheduler settled is final: once a claim is finished with any result,
  or bound to the turn of the provider that accepted it, no later page shows the message and no
  later claim gets it, whatever operations follow (as long as its agent is not deleted). Work that
  may have reached a provider is never handed out again.
\<close>

theorem settled_claim_is_final:
  assumes db: "sound db" and fr: "fresh_env env db"
    and settled: "exec env (FinishClaim c s) db = (Finished, db1)
      \<or> exec env (BindTurn c provider session turn mode) db = (Bound b, db1)"
    and run: "op_run db1 (es @ [(op, a)]) db2" and del: "no_deletes es"
  shows "ix_id (tc_record c) \<notin> shown a \<union> claimed a"
proof
  let ?i = "ix_id (tc_record c)"
  assume i: "?i \<in> shown a \<union> claimed a"
  obtain s' where h1: "history db [Settled ?i s'] db1"
  proof (cases "exec env (FinishClaim c s) db = (Finished, db1)")
    case True
    then have "\<exists>x. fst (finish_claim env db c s) = Inr x" "snd (finish_claim env db c s) = db1"
      by (auto simp: answer_by_def split: sum.splits)
    with does_finish [of db c s env] that show ?thesis by (auto simp: does_def)
  next
    case False
    with settled have "\<exists>x. fst (bind_task_turn env db c provider session turn mode) = Inr x"
        "snd (bind_task_turn env db c provider session turn mode) = db1"
      by (auto simp: answer_by_def split: sum.splits)
    with does_bind_turn [OF db, of c env provider session turn mode] that show ?thesis by (auto simp: does_def)
  qed
  have s1: "sound db1" by (rule history_sound [OF h1 db])
  have "own_run ?i [Settled ?i s'] (phase db ?i) = Some (phase db1 ?i)" by (rule history_phase [OF h1 db])
  then have closed: "phase db1 ?i = Closed s'" by (auto split: option.splits phase.splits)
  obtain db3 env2 db4 where r: "op_run db1 es db3" and e: "fresh_env env2 db3" "exec env2 op db3 = (a, db4)"
    using run by (auto simp: op_run_append elim: op_run_consE)
  have s3: "sound db3" by (rule op_run_sound [OF r s1])
  obtain l2 where l2: "history db1 l2 db3" "\<forall>l \<in> set l2. \<exists>e \<in> set es. may_have (fst e) l"
    using op_run_labels [OF r s1] by blast
  obtain l3 where l3: "history db3 l3 db4" "list_all (may_have op) l3" "in_labels a l3"
    by (rule exec_history [OF e(1) s3 e(2)])
  have "\<forall>l \<in> set l2. \<not> erasing l" using l2(2) no_deletes_labels [OF del] by blast
  then have "phase db3 ?i = Closed s'"
    using closed_stays [of ?i l2 s'] history_phase [OF l2(1) s1, of ?i] closed by simp
  moreover have "\<forall>l \<in> set l3. \<not> erasing l" using exposing_ops [OF _ i e(2)] l3(2) by (auto simp: list_all_iff)
  ultimately have "Shown ?i \<notin> set l3 \<and> (\<forall>t g. Dispatched ?i t g \<notin> set l3)"
    using closed_stays [of ?i l3 s'] history_phase [OF l3(1) s3, of ?i] by simp
  then show False using i l3(3) by (auto simp: in_labels_def)
qed

end
