(* ===== verification/Messaging_Cells.thy ===== *)
theory Messaging_Cells
  imports Messaging_Ownership
begin

text \<open>
  What the store of messages writes once: an interface for cells that keep their first value
  for as long as nothing is erased, and the cells of the store that satisfy it.
\<close>

section \<open>Cells that are written once\<close>

locale write_once =
  fixes grow :: "'s \<Rightarrow> 's \<Rightarrow> bool"
    and cell :: "'s \<Rightarrow> 'k \<Rightarrow> 'v option"
  assumes kept: "grow s s' \<Longrightarrow> cell s k = Some v \<Longrightarrow> cell s' k = Some v"
begin

lemma kept_along: "grow\<^sup>*\<^sup>* s s' \<Longrightarrow> cell s k = Some v \<Longrightarrow> cell s' k = Some v"
  by (induction rule: rtranclp_induct) (auto intro: kept)

lemma first_value: "grow\<^sup>*\<^sup>* s s' \<Longrightarrow> cell s k = Some v \<Longrightarrow> cell s' k = Some w \<Longrightarrow> w = v"
  using kept_along [of s s' k v] by simp

end

text \<open>Tables grow when rows are appended and the others are changed in what may change.\<close>

definition grows_by :: "('r \<Rightarrow> 'f) \<Rightarrow> 'r list \<Rightarrow> 'r list \<Rightarrow> bool" where
  "grows_by fixed xs ys \<longleftrightarrow> (\<exists>g zs. ys = map g xs @ zs \<and> (\<forall>x \<in> set xs. fixed (g x) = fixed x))"

lemma grows_by_refl: "grows_by fixed xs xs"
  unfolding grows_by_def by (rule exI [of _ id], rule exI [of _ "[]"]) simp

lemma grows_by_append: "grows_by fixed xs (xs @ zs)"
  unfolding grows_by_def by (rule exI [of _ id]) simp

lemma grows_by_map: "(\<And>x. x \<in> set xs \<Longrightarrow> fixed (g x) = fixed x) \<Longrightarrow> grows_by fixed xs (map g xs @ zs)"
  unfolding grows_by_def by blast

lemma grows_by_map': "(\<And>x. x \<in> set xs \<Longrightarrow> fixed (g x) = fixed x) \<Longrightarrow> grows_by fixed xs (map g xs)"
  using grows_by_map [of xs fixed g "[]"] by simp

text \<open>A look-up by what is fixed finds the same row, changed.\<close>

lemma grows_by_find:
  assumes "grows_by fixed xs ys" and "find (\<lambda>x. P (fixed x)) xs = Some x"
  shows "\<exists>y. find (\<lambda>x. P (fixed x)) ys = Some y \<and> fixed y = fixed x"
proof -
  obtain g zs where g: "ys = map g xs @ zs" "\<forall>x \<in> set xs. fixed (g x) = fixed x"
    using assms(1) by (auto simp: grows_by_def)
  have "find (\<lambda>x. P (fixed x)) (map g us) = map_option g (find (\<lambda>x. P (fixed x)) us)"
    if "set us \<subseteq> set xs" for us
    using that g(2) by (induction us) auto
  then have "find (\<lambda>x. P (fixed x)) ys = Some (g x)" using assms(2) g(1) by (simp add: row_simps)
  moreover have "x \<in> set xs" using assms(2) by (auto simp: find_Some_iff)
  ultimately show ?thesis using g(2) by blast
qed

section \<open>What does not change\<close>

definition fixed_interaction ::
    "interaction \<Rightarrow>
      string \<times> interaction_kind \<times> string list \<times> string option \<times> string option \<times> body_ref \<times> string" where
  "fixed_interaction r =
     (ix_id r, ix_kind r, ix_targets r, ix_sender r, ix_parent r, ix_body r, ix_created r)"

definition fixed_delivery ::
    "delivery \<Rightarrow> string \<times> string \<times> string \<times> string \<times> string option \<times> string" where
  "fixed_delivery d =
     (dl_id d, dl_operation d, dl_sender d, dl_recipient d, dl_key d, dl_fingerprint d)"

text \<open>The identity of a turn, and its outcome once there is one.\<close>

definition turn_outcome :: "turn_row \<Rightarrow> (reply_status \<times> string) option" where
  "turn_outcome t =
     (case (tt_status t, tt_body t) of (Some s, Some b) \<Rightarrow> Some (s, b) | _ \<Rightarrow> None)"

definition turns_grow :: "turn_row list \<Rightarrow> turn_row list \<Rightarrow> bool" where
  "turns_grow xs ys \<longleftrightarrow>
     (\<exists>g zs. ys = map g xs @ zs \<and> (\<forall>t \<in> set xs. tt_request (g t) = tt_request t
        \<and> (turn_outcome t \<noteq> None \<longrightarrow> turn_outcome (g t) = turn_outcome t)))"

definition grows :: "mdb \<Rightarrow> mdb \<Rightarrow> bool" where
  "grows db db' \<longleftrightarrow>
     grows_by fixed_interaction (db_interactions db) (db_interactions db')
     \<and> grows_by fixed_delivery (db_deliveries db) (db_deliveries db')
     \<and> grows_by id (db_replies db) (db_replies db') \<and> turns_grow (db_turns db) (db_turns db')
     \<and> grows_by id (db_avail db) (db_avail db') \<and> grows_by id (db_cursors db) (db_cursors db')
     \<and> (\<forall>i. find_interaction db i \<noteq> None \<longrightarrow>
            host_automation_provenance db' i = host_automation_provenance db i)"

lemma turns_grow_append: "turns_grow xs (xs @ zs)"
  unfolding turns_grow_def by (rule exI [of _ id]) simp

lemma turns_grow_refl: "turns_grow xs xs"
  using turns_grow_append [of xs "[]"] by simp

lemma provenance_admitted:
  assumes "ix_id r \<notin> known db" and "admissible r d hs" and "find_interaction db i \<noteq> None"
  shows "host_automation_provenance (admitted_tables r d hs db) i = host_automation_provenance db i"
proof -
  have "i \<noteq> ix_id r" using assms(1) find_interaction_known [OF assms(3)] by blast
  then show ?thesis
    using assms(2)
    by (auto simp: host_automation_provenance_def admitted_tables_def admissible_def row_simps split: option.splits)
qed

lemma grows_change_at:
  assumes "\<And>d. fixed_delivery (f d) = fixed_delivery d"
  shows "grows db (change_at i p f db)"
  using assms by (simp add: grows_def grows_by_refl turns_grow_refl) (rule grows_by_map', simp)

lemma turn_moves_outcome:
  assumes "turn_ok db t" and "turn_moves db t u"
  shows "tt_request u = tt_request t \<and> (turn_outcome t \<noteq> None \<longrightarrow> turn_outcome u = turn_outcome t)"
proof (cases "tt_settlement t = ''bound''")
  case True
  have "turn_row_ok t" using assms(1) by (simp add: turn_ok_def)
  with True have "turn_outcome t = None" by (simp add: turn_row_ok_def turn_outcome_def)
  then show ?thesis using turn_moves_keys [OF assms(2)] by simp
next
  case False
  then have "u = set_settlement ''published'' t" using assms(2) by (simp add: turn_moves_def)
  then show ?thesis by (simp add: set_settlement_def turn_outcome_def)
qed

lemma grows_turns:
  assumes db: "sound db" and p: "\<And>t. t \<in> set (db_turns db) \<Longrightarrow> p t \<Longrightarrow> turn_moves db t (f t)"
  shows "grows db (update_turns p f db)"
proof -
  let ?g = "\<lambda>t. if p t then f t else t"
  have "tt_request (?g t) = tt_request t \<and> (turn_outcome t \<noteq> None \<longrightarrow> turn_outcome (?g t) = turn_outcome t)"
    if "t \<in> set (db_turns db)" for t
    using turn_moves_outcome [OF _ p [OF that]] db that by (auto simp: sound_def turns_ok_def)
  then have "turns_grow (db_turns db) (map ?g (db_turns db))"
    unfolding turns_grow_def by (intro exI [of _ ?g] exI [of _ "[]"]) simp
  then show ?thesis by (simp add: grows_def update_turns_def grows_by_refl host_automation_provenance_def)
qed

lemma grows_answered:
  assumes db: "sound db" and ok: "answerable db task r q d"
  shows "grows db (answered_tables task r q d db)"
proof -
  obtain old where old: "find_interaction db (sr_request q) = Some old"
      "ix_kind task = ix_kind old" "ix_id task = ix_id old"
      "ix_targets task = ix_targets old" "ix_sender task = ix_sender old" "ix_body task = ix_body old"
      "ix_parent task = ix_parent old"
    using ok by (auto simp: answerable_def)
  have single: "o' = old" if "o' \<in> set (db_interactions db)" "ix_id o' = sr_request q" for o'
    using unique_interaction [of db o'] db that old(1) by (simp add: sound_def)
  have "fixed_interaction (if ix_id o' = sr_request q then task\<lparr>ix_created := ix_created o'\<rparr> else o')
      = fixed_interaction o'" if "o' \<in> set (db_interactions db)" for o'
    using single [OF that] old by (auto simp: fixed_interaction_def)
  then show ?thesis
    unfolding grows_def answered_fields by (simp add: grows_by_map grows_by_append grows_by_refl turns_grow_refl answered_provenance)
qed

theorem event_grows:
  assumes "event db l db'" and "sound db" and "\<not> erasing l"
  shows "grows db db'"
  using assms
proof (cases rule: event.cases)
  case ev_created
  then have "\<forall>i. find_interaction db i \<noteq> None \<longrightarrow> host_automation_provenance db' i = host_automation_provenance db i"
    using provenance_admitted by blast
  with ev_created show ?thesis
    by (simp add: grows_def admitted_tables_def grows_by_append grows_by_refl turns_grow_refl)
next
  case ev_answered
  then show ?thesis using grows_answered [OF assms(2)] by simp
next
  case (ev_shown i env n)
  have "grows db (change_at i (\<lambda>d. dl_owner d \<in> {''stored'', ''pending''}) (receiver_takes env n) db)"
    by (rule grows_change_at) (simp add: receiver_takes_def fixed_delivery_def)
  then show ?thesis
    unfolding ev_shown(2) claim_for_receiver_map change_at_map .
next
  case ev_cursor
  then show ?thesis by (simp add: grows_def grows_by_refl grows_by_append turns_grow_refl)
next
  case ev_ack
  then show ?thesis by (simp add: grows_def grows_by_refl turns_grow_refl store_ack_def)
next
  case ev_dispatched
  show ?thesis unfolding ev_dispatched(2) by (rule grows_change_at) (simp add: dispatch_to_def fixed_delivery_def)
next
  case ev_released
  show ?thesis unfolding ev_released(2) by (rule grows_change_at) (simp add: reopen_delivery_def fixed_delivery_def)
next
  case ev_settled
  show ?thesis unfolding ev_settled(2) by (rule grows_change_at) (simp add: settle_delivery_def fixed_delivery_def)
next
  case ev_blocked
  show ?thesis unfolding ev_blocked(2) by (rule grows_change_at) (simp add: fixed_delivery_def)
next
  case ev_waiting
  show ?thesis unfolding ev_waiting(2) by (rule grows_change_at) (simp add: fixed_delivery_def)
next
  case (ev_bound t p)
  have "grows db (change_at (tt_request t) p (settle_delivery ''provider_accepted'') db)"
    by (rule grows_change_at) (simp add: settle_delivery_def fixed_delivery_def)
  then show ?thesis unfolding ev_bound(2) by (simp add: grows_def turns_grow_append)
next
  case ev_turns
  then show ?thesis using grows_turns [OF assms(2)] by simp
next
  case ev_erased
  then show ?thesis using assms(3) by (simp add: erasing_def)
qed

lemma history_grows:
  "history db ls db' \<Longrightarrow> sound db \<Longrightarrow> \<forall>l \<in> set ls. \<not> erasing l \<Longrightarrow> grows\<^sup>*\<^sup>* db db'"
proof (induction rule: history.induct)
  case (history_step db l db' ls db'')
  then have "grows db db'" by (simp add: event_grows)
  moreover have "grows\<^sup>*\<^sup>* db' db''" using history_step event_keeps_sound by simp
  ultimately show ?case by (rule converse_rtranclp_into_rtranclp)
qed simp

lemma run_grows: "op_run db es db' \<Longrightarrow> sound db \<Longrightarrow> no_deletes es \<Longrightarrow> grows\<^sup>*\<^sup>* db db'"
  using op_run_labels history_grows no_deletes_labels by metis

section \<open>The cells of the store\<close>

definition interaction_cell ::
    "mdb \<Rightarrow> string \<Rightarrow> (string \<times> interaction_kind \<times> string list \<times> string option \<times> string option
      \<times> body_ref \<times> string) option" where
  "interaction_cell db i = map_option fixed_interaction (find_interaction db i)"

definition delivery_cell ::
    "mdb \<Rightarrow> string \<Rightarrow> (string \<times> string \<times> string \<times> string \<times> string option \<times> string) option" where
  "delivery_cell db i = map_option fixed_delivery (find_delivery db i)"

definition key_cell :: "mdb \<Rightarrow> string \<times> string \<times> string \<Rightarrow>
    (string \<times> string \<times> string \<times> string \<times> string option \<times> string) option" where
  "key_cell db k = map_option fixed_delivery (find_keyed db (fst k) (fst (snd k)) (snd (snd k)))"

definition reply_record_cell :: "mdb \<Rightarrow> string \<Rightarrow>
    (string \<times> interaction_kind \<times> string list \<times> string option \<times> string option \<times> body_ref \<times> string) option" where
  "reply_record_cell db i =
     map_option fixed_interaction
       (find (\<lambda>r. ix_kind r = IReply \<and> ix_parent r = Some i) (db_interactions db))"

definition outcome_cell :: "mdb \<Rightarrow> string \<Rightarrow> (reply_status \<times> string) option" where
  "outcome_cell db i = Option.bind (find_turn db i) turn_outcome"

lemma grows_cell:
  assumes "grows_by fixed xs ys" and "map_option fixed (find (\<lambda>x. P (fixed x)) xs) = Some v"
  shows "map_option fixed (find (\<lambda>x. P (fixed x)) ys) = Some v"
  using assms grows_by_find [OF assms(1)] by fastforce

interpretation interactions_once: write_once grows interaction_cell
proof
  fix db db' i v
  assume "grows db db'" and "interaction_cell db i = Some v"
  then show "interaction_cell db' i = Some v"
    using grows_cell [of fixed_interaction "db_interactions db" "db_interactions db'" "\<lambda>f. fst f = i" v]
    by (simp add: interaction_cell_def find_interaction_def grows_def fixed_interaction_def)
qed

interpretation deliveries_once: write_once grows delivery_cell
proof
  fix db db' i v
  assume "grows db db'" and "delivery_cell db i = Some v"
  then show "delivery_cell db' i = Some v"
    using grows_cell [of fixed_delivery "db_deliveries db" "db_deliveries db'" "\<lambda>f. fst f = i" v]
    by (simp add: delivery_cell_def find_delivery_def grows_def fixed_delivery_def)
qed

interpretation keys_once: write_once grows key_cell
proof
  fix db db' k v
  assume "grows db db'" and "key_cell db k = Some v"
  then show "key_cell db' k = Some v"
    using grows_cell [of fixed_delivery "db_deliveries db" "db_deliveries db'"
        "\<lambda>(i, o', s, r, key, f). s = fst k \<and> o' = fst (snd k) \<and> key = Some (snd (snd k))" v]
    by (simp add: key_cell_def find_keyed_def grows_def fixed_delivery_def)
qed

interpretation reply_records_once: write_once grows reply_record_cell
proof
  fix db db' i v
  assume "grows db db'" and "reply_record_cell db i = Some v"
  then show "reply_record_cell db' i = Some v"
    using grows_cell [of fixed_interaction "db_interactions db" "db_interactions db'"
        "\<lambda>(i', k, t, s, p, b). k = IReply \<and> p = Some i" v]
    by (simp add: reply_record_cell_def grows_def fixed_interaction_def)
qed

interpretation replies_once: write_once grows find_reply
proof
  fix db db' i v
  assume "grows db db'" and "find_reply db i = Some v"
  then show "find_reply db' i = Some v"
    using grows_cell [of id "db_replies db" "db_replies db'" "\<lambda>r. sr_request r = i" v]
    by (simp add: find_reply_def grows_def option.map_id)
qed

interpretation outcomes_once: write_once grows outcome_cell
proof
  fix db db' i v
  assume g: "grows db db'" and "outcome_cell db i = Some v"
  then obtain t where t: "find_turn db i = Some t" "turn_outcome t = Some v"
    by (auto simp: outcome_cell_def bind_eq_Some_conv)
  obtain f zs where f: "db_turns db' = map f (db_turns db) @ zs"
    and same: "\<forall>t \<in> set (db_turns db). tt_request (f t) = tt_request t
        \<and> (turn_outcome t \<noteq> None \<longrightarrow> turn_outcome (f t) = turn_outcome t)"
    using g by (auto simp: grows_def turns_grow_def)
  have "find (\<lambda>t. tt_request t = i) (map f us) = map_option f (find (\<lambda>t. tt_request t = i) us)"
    if "set us \<subseteq> set (db_turns db)" for us
    using that same by (induction us) auto
  then have "find_turn db' i = Some (f t)" using t(1) by (simp add: find_turn_def f row_simps)
  moreover have "t \<in> set (db_turns db)" using find_turn_SomeD [OF t(1)] by simp
  ultimately show "outcome_cell db' i = Some v" using same t(2) by (simp add: outcome_cell_def)
qed

definition cursor_cell :: "mdb \<Rightarrow> string \<Rightarrow> cursor_row option" where
  "cursor_cell db t = find (\<lambda>c. cu_token c = t) (db_cursors db)"

text \<open>Whether an interaction has the provenance of a host is settled when it is created.\<close>

definition provenance_cell :: "mdb \<Rightarrow> string \<Rightarrow> provenance option option" where
  "provenance_cell db i =
     (if interaction_cell db i = None then None else Some (host_automation_provenance db i))"

interpretation provenance_once: write_once grows provenance_cell
proof
  fix db db' i v
  assume g: "grows db db'" and c: "provenance_cell db i = Some v"
  obtain w where w: "interaction_cell db i = Some w" using c by (auto simp: provenance_cell_def split: if_splits)
  then have "find_interaction db i \<noteq> None" by (auto simp: interaction_cell_def)
  with g c w interactions_once.kept [OF g w] show "provenance_cell db' i = Some v"
    by (simp add: provenance_cell_def grows_def)
qed

interpretation cursors_once: write_once grows cursor_cell
proof
  fix db db' t v
  assume "grows db db'" and "cursor_cell db t = Some v"
  then show "cursor_cell db' t = Some v"
    using grows_by_find [of id "db_cursors db" "db_cursors db'" "\<lambda>c. cu_token c = t"]
    by (auto simp: cursor_cell_def grows_def)
qed

lemma grows_by_id: "grows_by id xs ys \<Longrightarrow> \<exists>zs. ys = xs @ zs"
  unfolding grows_by_def by (auto simp: map_idI)

text \<open>Availability is only appended.\<close>

lemma available_kept: "grows\<^sup>*\<^sup>* db db' \<Longrightarrow> \<exists>zs. db_avail db' = db_avail db @ zs"
proof (induction rule: rtranclp_induct)
  case (step db1 db2)
  then obtain ys zs where "db_avail db1 = db_avail db @ ys" "db_avail db2 = db_avail db1 @ zs"
    using grows_by_id unfolding grows_def by metis
  then show ?case by simp
qed simp

end
