(* ===== verification/Messaging_Promises.thy ===== *)
theory Messaging_Promises
  imports Messaging_Cells
begin

text \<open>
  What the store of messages promises to those who ask again: a reply settles a task once, an
  idempotency key admits once, a lost receipt is recovered, the first outcome of a turn wins,
  and a stale claim changes nothing.
\<close>

section \<open>Transactions that answered\<close>

lemma run_tx_Inr:
  "run_tx env db t = (Inr x, db') \<Longrightarrow>
     t = Inr (None, x) \<and> db' = db \<or> t = Inr (Some db', x) \<and> me_commit env = CommitOk"
  by (auto simp: run_tx_def split: sum.splits option.splits commit_outcome.splits)

lemma run_committing_Inr: "run_tx env db (committing m) = (Inr x, db') \<Longrightarrow> m = Inr (db', x)"
  using run_tx_Inr [of env db "committing m" x db'] by (simp add: committing_Inr committing_None)

lemma run_committing_ok: "me_commit env = CommitOk \<Longrightarrow> m = Inr (db', x) \<Longrightarrow> run_tx env db (committing m) = (Inr x, db')"
  by (simp add: run_tx_def committing_def)

lemma run_committing_err: "m = Inl e \<Longrightarrow> run_tx env db (committing m) = (Inl e, db)"
  by (simp add: run_tx_def committing_def)

lemma answer_by_value: "answer_by f r = (a, db') \<Longrightarrow> (\<exists>e. a = Failed e) \<or> (\<exists>x. r = (Inr x, db') \<and> a = f x)"
  by (cases r) (auto simp: answer_by_def split: sum.splits)

section \<open>Replies\<close>

definition conflicting_reply :: msg_error where
  "conflicting_reply = MsgErr ''conflicting_reply'' ''Task already has a different terminal reply.''"

definition unauthorized_reply :: msg_error where
  "unauthorized_reply = MsgErr ''unauthorized'' ''Reply caller is not the task recipient.''"

text \<open>A task that is settled: what the store holds about it.\<close>

definition settled_task :: "mdb \<Rightarrow> string \<Rightarrow> string \<Rightarrow> structured_reply \<Rightarrow> string \<Rightarrow> bool" where
  "settled_task db i s q rid \<longleftrightarrow>
     (\<exists>k. interaction_cell db i = Some (i, ITask, [s], k))
     \<and> (\<exists>d. delivery_cell db i = Some (i, ''followup_task'', d))
     \<and> find_reply db i = Some q \<and> (\<exists>f. reply_record_cell db i = Some (rid, f))"

lemma settled_task_kept: "grows\<^sup>*\<^sup>* db db' \<Longrightarrow> settled_task db i s q rid \<Longrightarrow> settled_task db' i s q rid"
  unfolding settled_task_def
  using interactions_once.kept_along deliveries_once.kept_along replies_once.kept_along
    reply_records_once.kept_along by blast

definition reply_of :: "string \<Rightarrow> string \<Rightarrow> structured_reply \<Rightarrow> structured_reply" where
  "reply_of i s q =
     \<lparr>sr_request = i, sr_status = sr_status q, sr_body = sr_body q, sr_target = s, sr_source = Some s,
      sr_replied = sr_replied q\<rparr>"

lemma reply_to_settled:
  assumes "settled_task db i s q rid"
  shows "reply_in_transaction env db s' i st m None =
    (if s' \<noteq> s then Inl unauthorized_reply
     else if sr_status q \<noteq> st \<or> sr_body q \<noteq> m then Inl conflicting_reply
     else reply_in_transaction env db s i st m None)
    \<and> (\<exists>y. reply_in_transaction env db s i (sr_status q) (sr_body q) None = Inr (db, y)
         \<and> rp_duplicate y \<and> ix_id (rp_record y) = rid \<and> rp_reply y = reply_of i s q)"
proof -
  obtain task where task: "find_interaction db i = Some task" "ix_kind task = ITask" "ix_targets task = [s]"
    using assms by (auto simp: settled_task_def interaction_cell_def fixed_interaction_def)
  obtain d where "find_delivery db i = Some d" "dl_operation d = ''followup_task''"
    using assms by (auto simp: settled_task_def delivery_cell_def fixed_delivery_def)
  then have d: "list_ex (\<lambda>d. dl_id d = i \<and> dl_operation d = ''followup_task'') (db_deliveries db)"
    using find_delivery_SomeD by (fastforce simp: list_ex_iff)
  obtain r where r: "find (\<lambda>r. ix_kind r = IReply \<and> ix_parent r = Some i) (db_interactions db) = Some r"
      "ix_id r = rid"
    using assms by (auto simp: settled_task_def reply_record_cell_def fixed_interaction_def)
  have q: "find_reply db i = Some q" using assms by (simp add: settled_task_def)
  show ?thesis
    using task d r q
    by (auto simp: reply_in_transaction_def load_def guard_err_def reply_again_def unauthorized_reply_def
        conflicting_reply_def reply_of_def)
qed

lemma reply_record_new:
  assumes db: "sound db" and none: "find_reply db i = None" and task: "find_interaction db i = Some task"
    and kind: "ix_kind task = ITask"
  shows "find (\<lambda>r. ix_kind r = IReply \<and> ix_parent r = Some i)
      (db_interactions (replied_tables env db s i st m task)) = Some (reply_record env s task i m)"
proof -
  let ?t = "completed_task env task"
  have "\<not> (ix_kind o' = IReply \<and> ix_parent o' = Some i)" if "o' \<in> set (db_interactions db)" for o'
    using db that none by (auto simp: sound_def replies_ok_def reply_tracked_def)
  then have "find (\<lambda>r. ix_kind r = IReply \<and> ix_parent r = Some i)
      (map (\<lambda>o'. if ix_id o' = i then ?t\<lparr>ix_created := ix_created o'\<rparr> else o') (db_interactions db)) = None"
    using kind by (auto simp: find_None_iff completed_task_def)
  then show ?thesis
    by (simp add: replied_tables_def answered_fields row_simps reply_row_def reply_record_def)
qed

lemma reply_settles:
  assumes db: "sound db" and fr: "fresh_env env db"
    and ok: "reply_in_transaction env db s i st m None = Inr (db', x)" and m: "validate_message m = Inr u"
  shows "\<exists>q. settled_task db' i s q (ix_id (rp_record x)) \<and> sr_status q = st \<and> sr_body q = m
    \<and> rp_reply x = reply_of i s q"
proof -
  obtain task where task: "find_interaction db i = Some task" "ix_kind task = ITask" "ix_targets task = [s]"
    and d: "\<exists>d \<in> set (db_deliveries db). dl_id d = i \<and> dl_operation d = ''followup_task''"
    and step: "case find_reply db i of
         Some old \<Rightarrow> db' = db \<and> reply_again env db s i st m task old = Inr (db', x)
       | None \<Rightarrow> reply_new env db s i st m None task = Inr (db', x)"
    using reply_in_transaction_Inr [OF fr ok] by blast
  have tid: "ix_id task = i" using find_interaction_SomeD [OF task(1)] by simp
  have c1: "\<exists>k. interaction_cell db i = Some (i, ITask, [s], k)"
    using task tid by (simp add: interaction_cell_def fixed_interaction_def)
  have c2: "\<exists>d. delivery_cell db i = Some (i, ''followup_task'', d)"
    using d unique_delivery [of db] db by (auto simp: delivery_cell_def fixed_delivery_def sound_def)
  show ?thesis
  proof (cases "find_reply db i")
    case (Some old)
    with step have "db' = db" and ag: "reply_again env db s i st m task old = Inr (db, x)" by auto
    obtain r where r: "find (\<lambda>r. ix_kind r = IReply \<and> ix_parent r = Some i) (db_interactions db) = Some r"
      and x: "x = \<lparr>rp_task = task, rp_record = r,
                    rp_reply = \<lparr>sr_request = i, sr_status = st, sr_body = sr_body old,
                                sr_target = s, sr_source = Some s, sr_replied = sr_replied old\<rparr>,
                    rp_duplicate = True\<rparr>"
      and same: "sr_status old = st" "sr_body old = m"
      using ag by (auto simp: reply_again_def split: if_splits option.splits)
    have "reply_record_cell db' i = Some (fixed_interaction r)"
      using r \<open>db' = db\<close> by (simp add: reply_record_cell_def)
    moreover have "ix_id (rp_record x) = ix_id r" and "rp_reply x = reply_of i s old"
      using same by (simp_all add: x reply_of_def)
    ultimately have "settled_task db' i s old (ix_id (rp_record x))"
      using c1 c2 Some \<open>db' = db\<close> by (simp add: settled_task_def fixed_interaction_def)
    with same \<open>rp_reply x = reply_of i s old\<close> show ?thesis by blast
  next
    case None
    with step have "reply_new env db s i st m None task = Inr (db', x)" by simp
    from reply_new_Inr [OF fr task(1) None this]
    have db': "db' = replied_tables env db s i st m task"
      and x: "x = \<lparr>rp_task = completed_task env task, rp_record = reply_record env s task i m,
           rp_reply = reply_row env s i st m, rp_duplicate = False\<rparr>"
      by auto
    have g: "grows db db'"
      using event_grows [OF event_replied [OF fr task None m, of st] db] unfolding db' by (simp add: erasing_def)
    have fr': "find_reply db' i = Some (reply_row env s i st m)"
      unfolding db' replied_tables_def using None by (simp add: answered_reply reply_row_def)
    have "reply_record_cell db' i = Some (fixed_interaction (reply_record env s task i m))"
      unfolding reply_record_cell_def db' reply_record_new [OF db None task(1,2)] by simp
    then have "settled_task db' i s (reply_row env s i st m) (ix_id (rp_record x))"
      using c1 c2 fr' interactions_once.kept [OF g] deliveries_once.kept [OF g]
      unfolding settled_task_def x fixed_interaction_def by simp blast
    then show ?thesis
      by (intro exI [of _ "reply_row env s i st m"]) (simp add: x reply_row_def reply_of_def)
  qed
qed

text \<open>
  C10. A reply settles a task once. After a reply that was answered, at any later point of any run
  in which no agent is deleted: the same reply sent again is answered as a duplicate with the
  identity of the first reply record and the same status, text and time, a different
  reply of the recipient is refused as conflicting, and a reply of anyone else is refused as
  unauthorized; none of them changes the store.
\<close>

theorem reply_settles_once:
  assumes db: "sound db" and fr: "fresh_env env db"
    and first: "exec env (Reply s i st m) db = (Replied x, db1)"
    and run: "op_run db1 es db2" and del: "no_deletes es" and commit: "me_commit env2 = CommitOk"
  shows "(\<exists>y. exec env2 (Reply s i st m) db2 = (Replied y, db2) \<and> rp_duplicate y
      \<and> ix_id (rp_record y) = ix_id (rp_record x) \<and> rp_reply y = rp_reply x)
    \<and> (\<forall>st' m'. validate_message m' = Inr () \<and> (st', m') \<noteq> (st, m) \<longrightarrow>
        exec env2 (Reply s i st' m') db2 = (Failed conflicting_reply, db2))
    \<and> (\<forall>s' st' m'. validate_message m' = Inr () \<and> s' \<noteq> s \<longrightarrow>
        exec env2 (Reply s' i st' m') db2 = (Failed unauthorized_reply, db2))"
proof -
  have rep: "reply env db s i st m = (Inr x, db1)" using answer_by_value [of Replied] first by fastforce
  then have m: "validate_message m = Inr ()"
    by (auto simp: reply_def reply_with_claim_def split: sum.splits)
  have ok: "reply_in_transaction env db s i st m None = Inr (db1, x)"
    using rep m by (auto simp: reply_def reply_with_claim_def dest: run_committing_Inr)
  obtain q where st: "settled_task db1 i s q (ix_id (rp_record x))" "rp_reply x = reply_of i s q"
    and q: "sr_status q = st" "sr_body q = m"
    using reply_settles [OF db fr ok m] by blast
  have s1: "sound db1" using exec_sound [OF fr db first] .
  note set2 = settled_task_kept [OF run_grows [OF run s1 del] st(1)]
  note again = reply_to_settled [OF set2, of env2]
  obtain y where y: "reply_in_transaction env2 db2 s i st m None = Inr (db2, y)" "rp_duplicate y"
      "ix_id (rp_record y) = ix_id (rp_record x)" "rp_reply y = reply_of i s q"
    using conjunct2 [OF again [of s st m]] unfolding q by blast
  have same: "exec env2 (Reply s i st m) db2 = (Replied y, db2)"
    using m y(1) by (simp add: reply_def reply_with_claim_def y(1) run_committing_ok [OF commit refl] answer_by_def)
  have other: "exec env2 (Reply s i st' m') db2 = (Failed conflicting_reply, db2)"
    if "validate_message m' = Inr ()" "(st', m') \<noteq> (st, m)" for st' m'
  proof -
    have "reply_in_transaction env2 db2 s i st' m' None = Inl conflicting_reply"
      using conjunct1 [OF again [of s st' m']] that(2) q by auto
    then show ?thesis using that(1) by (simp add: reply_def reply_with_claim_def run_committing_err answer_by_def)
  qed
  have stranger: "exec env2 (Reply s' i st' m') db2 = (Failed unauthorized_reply, db2)"
    if "validate_message m' = Inr ()" "s' \<noteq> s" for s' st' m'
  proof -
    have "reply_in_transaction env2 db2 s' i st' m' None = Inl unauthorized_reply"
      using conjunct1 [OF again [of s' st' m']] that(2) by simp
    then show ?thesis using that(1) by (simp add: reply_def reply_with_claim_def run_committing_err answer_by_def)
  qed
  have "rp_reply y = rp_reply x" using y(4) st(2) by simp
  with same y(2,3) have "\<exists>y. exec env2 (Reply s i st m) db2 = (Replied y, db2) \<and> rp_duplicate y
      \<and> ix_id (rp_record y) = ix_id (rp_record x) \<and> rp_reply y = rp_reply x"
    by (intro exI [of _ y] conjI)
  then show ?thesis
  proof (intro conjI allI impI)
    fix st' m' assume "validate_message m' = Inr () \<and> (st', m') \<noteq> (st, m)"
    then show "exec env2 (Reply s i st' m') db2 = (Failed conflicting_reply, db2)" by (elim conjE) (rule other)
  next
    fix s' st' m' assume "validate_message m' = Inr () \<and> s' \<noteq> s"
    then show "exec env2 (Reply s' i st' m') db2 = (Failed unauthorized_reply, db2)" by (elim conjE) (rule stranger)
  qed
qed

section \<open>Idempotent admission\<close>

definition idempotency_conflict :: msg_error where
  "idempotency_conflict = MsgErr ''idempotency_conflict'' ''Key already admitted a different target or body.''"

lemma find_keyed_SomeD:
  "find_keyed db s o' k = Some d \<Longrightarrow> d \<in> set (db_deliveries db) \<and> dl_sender d = s \<and> dl_operation d = o' \<and> dl_key d = Some k"
  by (auto simp: find_keyed_def find_Some_iff)

lemma delivery_loads:
  "sound db \<Longrightarrow> d \<in> set (db_deliveries db) \<Longrightarrow> \<exists>r. load db (dl_id d) = Inr r \<and> ix_id r = dl_id d"
  using unique_interaction [of db] by (fastforce simp: load_found sound_def references_ok_def fits_def)

text \<open>The delivery that a key stands for after an admission.\<close>

lemma admitted_key:
  assumes db: "sound db" and fr: "fresh_env env db" and k: "aq_key rq = Some k"
    and ok: "admit_with_metadata env db rq host ro rc wake = (Inr a, db')"
  shows "\<exists>f. key_cell db' (aq_sender rq, operation_of rq, k) =
      Some (ix_id (ad_record a), f) \<and> snd (snd (snd (snd f))) = fingerprint env (aq_recipient rq) (aq_message rq)"
    and "k \<noteq> [] \<and> length k \<le> 256"
proof -
  let ?old = "find_keyed db (aq_sender rq) (operation_of rq) k"
  have checks: "admission_checks rq host ro rc wake = Inr ()"
    and t: "(case ?old of Some d \<Rightarrow> res_bind (admit_again env db rq host d) (\<lambda>a. Inr (None, a))
          | None \<Rightarrow> committing (admit_new env db rq host ro rc wake)) = Inr (None, a) \<and> db' = db
       \<or> (case ?old of Some d \<Rightarrow> res_bind (admit_again env db rq host d) (\<lambda>a. Inr (None, a))
          | None \<Rightarrow> committing (admit_new env db rq host ro rc wake)) = Inr (Some db', a)"
    using run_tx_Inr [OF ok [unfolded admit_with_metadata_def]] k by (auto simp: res_bind_eq_Inr)
  show "k \<noteq> [] \<and> length k \<le> 256" using checks k by (auto simp: admission_checks_def res_bind_eq_Inr)
  show "\<exists>f. key_cell db' (aq_sender rq, operation_of rq, k) =
      Some (ix_id (ad_record a), f) \<and> snd (snd (snd (snd f))) = fingerprint env (aq_recipient rq) (aq_message rq)"
  proof (cases ?old)
    case (Some d)
    then have "db' = db" and ag: "admit_again env db rq host d = Inr a" using t by (auto simp: res_bind_eq_Inr)
    have "dl_fingerprint d = fingerprint env (aq_recipient rq) (aq_message rq)" "load db (dl_id d) = Inr (ad_record a)"
      using ag by (auto simp: admit_again_def res_bind_eq_Inr)
    moreover from this have "ix_id (ad_record a) = dl_id d" using find_interaction_SomeD by (auto simp: load_found)
    ultimately show ?thesis using Some \<open>db' = db\<close> by (simp add: key_cell_def fixed_delivery_def)
  next
    case None
    then have new: "admit_new env db rq host ro rc wake = Inr (db', a)"
      using t by (auto simp: committing_Inr committing_None)
    let ?r = "new_interaction env rq host"
    obtain g where db': "db' = admitted_tables ?r (new_delivery env rq (ix_id ?r) g ro rc wake) (host_rows (ix_id ?r) host) db"
      and a: "ad_record a = ?r"
      using admit_new_Inr [OF new_interaction_fresh [OF fr] new] by blast
    have "find_keyed db' (aq_sender rq) (operation_of rq) k = Some (new_delivery env rq (ix_id ?r) g ro rc wake)"
      using None k by (simp add: find_keyed_def db' admitted_tables_def row_simps new_delivery_def)
    then show ?thesis by (simp add: key_cell_def fixed_delivery_def new_delivery_def a)
  qed
qed


section \<open>Lost receipts\<close>

lemma admit_new_succeeds:
  assumes fr: "fresh_env env db" and g: "unat (aq_generation rq) < 2 ^ 63" and seq: "db_last db + 1 < 2 ^ 63"
    and key: "\<And>k. aq_key rq = Some k \<Longrightarrow> find_keyed db (aq_sender rq) (operation_of rq) k = None"
  shows "\<exists>db' a. admit_new env db rq host ro rc wake = Inr (db', a)"
proof -
  let ?r = "new_interaction env rq host"
  have new: "ix_id ?r \<notin> known db" by (rule new_interaction_fresh [OF fr])
  let ?db0 = "db\<lparr>db_interactions := db_interactions db @ [?r]\<rparr>"
  have up: "upsert_interaction ?r db = ?db0" by (rule upsert_new [OF new])
  obtain n where n: "sql_u64 env (aq_generation rq) = Inr n" using g by (simp add: sql_u64_def)
  let ?d = "new_delivery env rq (ix_id ?r) n ro rc wake"
  have "\<not> list_ex (\<lambda>e. dl_id e = dl_id ?d \<or> same_key ?d e) (db_deliveries db)"
  proof
    assume "list_ex (\<lambda>e. dl_id e = dl_id ?d \<or> same_key ?d e) (db_deliveries db)"
    then obtain e where e: "e \<in> set (db_deliveries db)" "dl_id e = ix_id ?r \<or> same_key ?d e"
      by (auto simp: list_ex_iff new_delivery_def)
    have "dl_id e \<noteq> ix_id ?r" using new imageI [OF e(1), of dl_id] by (auto simp: known_def)
    with e(2) have "same_key ?d e" by simp
    then obtain k where k: "aq_key rq = Some k" "dl_sender e = aq_sender rq" "dl_operation e = operation_of rq"
        "dl_key e = Some k"
      by (cases "dl_key e") (auto simp: same_key_def new_delivery_def)
    then show False using key [OF k(1)] e(1) by (auto simp: find_keyed_def find_None_iff)
  qed
  then have i: "insert_delivery env ?d ?db0 = Inr (?db0\<lparr>db_deliveries := db_deliveries db @ [?d]\<rparr>)"
    by (simp add: insert_delivery_def)
  have "ix_id ?r \<notin> ho_id ` set (db_hosts db)" and "ix_id ?r \<notin> av_id ` set (db_avail db)"
    using new unfolding known_def by blast+
  then have h: "\<not> list_ex (\<lambda>e. ho_id e = ix_id ?r) (db_hosts db)"
    and av: "\<not> list_ex (\<lambda>a. av_recipient a = aq_recipient rq \<and> av_id a = ix_id ?r) (db_avail db)"
    unfolding list_ex_iff by (metis imageI, metis imageI)
  show ?thesis
    unfolding admit_new_def Let_def up
    using n i h av seq by (cases host) (simp_all add: insert_host_def make_available_def)
qed

text \<open>
  C31. A receipt that is lost is recovered without sending again. When an automation host admits a
  message whose key is new and the commit takes effect but is reported as failed, the host
  is answered with the record that was committed; the same call made again, whatever becomes
  of its own commit, is answered with that same record and changes nothing. When the commit
  did not take effect, the host gets the failure and the store is as before.
\<close>

theorem lost_receipt_is_recovered:
  assumes db: "sound db" and fr: "fresh_env env db" and ok: "\<not> bad_provenance run node"
    and m: "validate_message m = Inr ()" and g: "unat g < 2 ^ 63" and seq: "db_last db + 1 < 2 ^ 63"
    and hash: "me_sha env node \<noteq> []" "length (me_sha env node) \<le> 64"
    and new: "find_keyed db (host_sender run) ''send_message'' (host_automation_message_key env node) = None"
    and lib: "me_sha env2 = me_sha env" "me_pair env2 = me_pair env"
  shows "(me_commit env = CommitLost \<longrightarrow>
      (\<exists>a db1. admit_host_automation_message env True db run node to m g = (Inr a, db1)
        \<and> ix_id (ad_record a) = new_id env 0 ''int''
        \<and> (\<exists>b. admit_host_automation_message env2 r db1 run node to m g = (Inr b, db1)
             \<and> ix_id (ad_record b) = ix_id (ad_record a))))
    \<and> (me_commit env = CommitFails \<longrightarrow>
      admit_host_automation_message env True db run node to m g = (Inl (storage_error env), db))"
proof -
  let ?key = "host_automation_message_key env node" and ?p = "\<lparr>pv_run = run, pv_node = node\<rparr>"
  let ?rq = "\<lparr>aq_sender = host_sender run, aq_recipient = to, aq_message = m, aq_key = Some ?key,
      aq_task = False, aq_generation = g\<rparr>"
  have op: "operation_of ?rq = ''send_message''" by (simp add: operation_of_def)
  have checks: "admission_checks ?rq (Some ?p) None None False = Inr ()"
    using m hash by (simp add: admission_checks_def opt_check_def guard_err_def host_automation_message_key_def)
  obtain db1 a0 where adm: "admit_new env db ?rq (Some ?p) None None False = Inr (db1, a0)"
    using admit_new_succeeds [OF fr, of ?rq "Some ?p" None None False] g seq new op by auto
  let ?r = "new_interaction env ?rq (Some ?p)"
  obtain n where db1: "db1 = admitted_tables ?r (new_delivery env ?rq (ix_id ?r) n None None False)
      (host_rows (ix_id ?r) (Some ?p)) db"
    using admit_new_Inr [OF new_interaction_fresh [OF fr] adm] by blast
  have rid: "ix_id ?r = new_id env 0 ''int''" by (simp add: new_interaction_def)
  note fresh = new_interaction_fresh [OF fr, of ?rq "Some ?p"]
  have tx: "admit_with_metadata env db ?rq (Some ?p) None None False =
      run_tx env db (committing (Inr (db1, a0)))"
    using checks new op adm by (simp add: admit_with_metadata_def)
  let ?d = "new_delivery env ?rq (ix_id ?r) n None None False"
  have keyed: "find_keyed db1 (host_sender run) ''send_message'' ?key = Some ?d"
    using new by (simp add: find_keyed_def db1 admitted_tables_def row_simps new_delivery_def op)
  have did: "dl_id ?d = ix_id ?r" by (simp add: new_delivery_def)
  have "find (\<lambda>h. ho_id h = ix_id ?r) (db_hosts db) = None" using fresh by (auto simp: find_key_None known_def)
  then have prov: "verify_host_provenance db1 (dl_id ?d) ?p = Inr ()"
    by (simp add: verify_host_provenance_def host_automation_provenance_def db1 admitted_tables_def row_simps
        host_rows_def did)
  have "find_interaction db (ix_id ?r) = None" using fresh find_interaction_known by blast
  then have ld: "load db1 (dl_id ?d) = Inr ?r"
    by (simp add: load_def find_interaction_def db1 admitted_tables_def row_simps did)
  have fpd: "dl_fingerprint ?d = fingerprint env to m" by (simp add: new_delivery_def)
  let ?a = "\<lparr>ad_record = ?r, ad_owner = delivery_owner_of (dl_owner ?d), ad_duplicate = True, ad_state = dl_owner ?d\<rparr>"
  have rec: "reconcile_host_automation_message env db1 run node (Some (to, m)) = Inr (Some ?a)"
    using keyed prov ld fpd by (simp add: reconcile_host_automation_message_def opt_check_def guard_err_def)
  have key2: "host_automation_message_key env2 node = ?key" using lib by (simp add: host_automation_message_key_def)
  have fp2: "fingerprint env2 x y = fingerprint env x y" for x y using lib by (simp add: fingerprint_def)
  have "admit_again env2 db1 ?rq (Some ?p) ?d = Inr ?a"
    using prov ld fpd fp2 by (simp add: admit_again_def opt_check_def guard_err_def)
  then have second: "admit_host_automation_message env2 r db1 run node to m g = (Inr ?a, db1)"
    using ok checks keyed op key2
    by (simp add: admit_host_automation_message_def admit_with_metadata_def run_tx_def)
  show ?thesis
  proof (intro conjI impI)
    assume "me_commit env = CommitLost"
    then have "admit_host_automation_message env True db run node to m g = (Inr ?a, db1)"
      using ok rec tx by (simp add: admit_host_automation_message_def run_tx_def committing_def)
    with second rid show "\<exists>a db1. admit_host_automation_message env True db run node to m g = (Inr a, db1)
        \<and> ix_id (ad_record a) = new_id env 0 ''int''
        \<and> (\<exists>b. admit_host_automation_message env2 r db1 run node to m g = (Inr b, db1)
             \<and> ix_id (ad_record b) = ix_id (ad_record a))" by auto
  next
    assume "me_commit env = CommitFails"
    then show "admit_host_automation_message env True db run node to m g = (Inl (storage_error env), db)"
      using ok new tx
      by (simp add: admit_host_automation_message_def run_tx_def committing_def reconcile_host_automation_message_def)
  qed
qed

section \<open>Stale claims\<close>

lemma startup_failure_valid: "validate_message startup_failure_text = Inr ()"
proof -
  have "leading_word ws_words startup_failure_text = None"
    and "leading_word (map rev ws_words) (rev startup_failure_text) = None"
    by code_simp+
  then have "trim startup_failure_text = startup_failure_text" by (rule trim_id)
  then show ?thesis by (simp add: validate_message_def startup_failure_text_def max_message_bytes_def)
qed

text \<open>
  A stale claim changes nothing. When no delivery of a claim's message is dispatching under
  the token and the generation of the claim, finishing it, releasing it, binding it to a turn and
  failing its task at startup are all refused as stale, and the store is as before.
\<close>

theorem stale_claim_changes_nothing:
  assumes g: "unat (tc_generation c) < 2 ^ 63"
    and stale: "\<And>d. d \<in> set (db_deliveries db) \<Longrightarrow> dl_id d = ix_id (tc_record c) \<Longrightarrow>
      dl_owner d = ''dispatching'' \<Longrightarrow> dl_claim d = Some (tc_token c) \<Longrightarrow>
      dl_generation d \<noteq> int (unat (tc_generation c))"
  shows "(\<forall>s \<in> set scheduler_states. \<exists>m. exec env (FinishClaim c s) db = (Failed (MsgErr ''stale_claim'' m), db))
    \<and> (\<exists>m. exec env (ReleaseClaim c) db = (Failed (MsgErr ''stale_claim'' m), db))
    \<and> (\<forall>session turn mode. trim session \<noteq> [] \<and> trim turn \<noteq> [] \<and> mode \<in> {''start'', ''steer''} \<longrightarrow>
         (\<exists>m. exec env (BindTurn c ''codex'' session turn mode) db = (Failed (MsgErr ''stale_claim'' m), db)))
    \<and> (ix_targets (tc_record c) \<noteq> [] \<longrightarrow>
         (\<exists>m. exec env (StartupFailure c) db = (Failed (MsgErr ''stale_claim'' m), db)))"
proof -
  let ?g = "int (unat (tc_generation c))"
  have sg: "sql_u64 env (tc_generation c) = Inr ?g" using g by (simp add: sql_u64_def)
  have none: "\<not> holds_claim c ?g d" if "d \<in> set (db_deliveries db)" for d
    using stale [OF that] by (auto simp: holds_claim_def)
  then have n: "length (filter (holds_claim c ?g) (db_deliveries db)) = 0" by (simp add: filter_empty_conv)
  have owns: "owns_claim env db c = Inr False"
    using sg none by (simp only: owns_claim_def res_bind_simps) (simp add: list_ex_iff)
  have fin: "finish_claim_rows env c s db = Inl (MsgErr ''stale_claim'' ''Scheduler claim no longer owns this task.'')"
    if "s \<in> set scheduler_states" for s
    using that n by (simp only: finish_claim_rows_def sg res_bind_simps update_held Let_def prod.case) simp
  have rel: "release_rows env c db = Inl (MsgErr ''stale_claim'' ''Delivery claim no longer owns this message.'')"
    using n by (simp only: release_rows_def sg res_bind_simps update_held Let_def prod.case) simp
  have bnd: "bind_in_transaction env db c p s t m =
      Inl (MsgErr ''stale_claim'' ''Task is no longer dispatching under this claim.'')" for p s t m
    by (simp add: bind_in_transaction_def owns guard_err_def)
  have rep: "reply_in_transaction env db s i st m (Some c) =
      Inl (MsgErr ''stale_claim'' ''Startup failure no longer owns this task.'')" for s i st m
    by (simp add: reply_in_transaction_def owns guard_err_def)
  show ?thesis
  proof (intro conjI ballI allI impI)
    fix s assume "s \<in> set scheduler_states"
    then show "\<exists>m. exec env (FinishClaim c s) db = (Failed (MsgErr ''stale_claim'' m), db)"
      by (simp add: finish_claim_def fin run_tx_def committing_def answer_by_def)
  next
    show "\<exists>m. exec env (ReleaseClaim c) db = (Failed (MsgErr ''stale_claim'' m), db)"
      by (simp add: release_before_write_def rel run_tx_def committing_def answer_by_def)
  next
    fix session turn mode
    assume "trim session \<noteq> [] \<and> trim turn \<noteq> [] \<and> mode \<in> {''start'', ''steer''}"
    then show "\<exists>m. exec env (BindTurn c ''codex'' session turn mode) db = (Failed (MsgErr ''stale_claim'' m), db)"
      by (simp add: bind_task_turn_def bnd run_tx_def committing_def answer_by_def)
  next
    assume "ix_targets (tc_record c) \<noteq> []"
    then show "\<exists>m. exec env (StartupFailure c) db = (Failed (MsgErr ''stale_claim'' m), db)"
      by (cases "ix_targets (tc_record c)")
        (simp_all add: reply_startup_failure_def reply_with_claim_def startup_failure_valid rep run_tx_def
          committing_def answer_by_def)
  qed
qed

section \<open>Outcomes\<close>

lemma turn_of_sound: "sound db \<Longrightarrow> find_turn db i = Some t \<Longrightarrow> turn_ok db t"
  using find_turn_SomeD [of db i t] by (simp add: sound_def turns_ok_def)

lemma bound_no_outcome: "turn_ok db t \<Longrightarrow> tt_settlement t = ''bound'' \<Longrightarrow> turn_outcome t = None"
  by (simp add: turn_ok_def turn_row_ok_def turn_outcome_def)

lemma find_turn_update:
  "(\<And>t. tt_request (f t) = tt_request t) \<Longrightarrow> find_turn (update_turns (\<lambda>t. tt_request t = i) f db) i = map_option f (find_turn db i)"
proof -
  assume f: "\<And>t. tt_request (f t) = tt_request t"
  have "find (\<lambda>t. tt_request t = i) (map (\<lambda>t. if tt_request t = i then f t else t) xs) =
      map_option f (find (\<lambda>t. tt_request t = i) xs)" for xs
    using f by (induction xs) auto
  then show ?thesis by (simp add: find_turn_def update_turns_def)
qed

lemma record_Inr:
  assumes db: "sound db" and ok: "record_in_transaction env db b st m = Inr (db', x)"
  shows "outcome_cell db' (tb_request b) = Some (st, m)
    \<and> (outcome_cell db (tb_request b) = None \<or> outcome_cell db (tb_request b) = Some (st, m))"
proof -
  obtain s where s: "settlement env db b = Inr s" using ok by (auto simp: record_in_transaction_def res_bind_eq_Inr)
  obtain t where t: "find_turn db (tb_request b) = Some t" "tt_settlement t = s"
    using settlement_Inr [OF db s] by blast
  show ?thesis
  proof (cases "s = ''bound''")
    case True
    with ok s have "update_turns_checked env (\<lambda>t. tt_request t = tb_request b) (record_outcome st m) db = Inr db'"
      by (auto simp: record_in_transaction_def res_bind_eq_Inr)
    then have "db' = update_turns (\<lambda>t. tt_request t = tb_request b) (record_outcome st m) db"
      by (simp add: update_turns_checked_Inr)
    then have "find_turn db' (tb_request b) = Some (record_outcome st m t)"
      using find_turn_update [of "record_outcome st m"] t(1) by (simp add: record_outcome_def)
    moreover have "outcome_cell db (tb_request b) = None"
      using bound_no_outcome [OF turn_of_sound [OF db t(1)]] t True by (simp add: outcome_cell_def)
    ultimately show ?thesis by (simp add: outcome_cell_def turn_outcome_def record_outcome_def)
  next
    case False
    with ok s t(1) have "db' = db" "tt_status t = Some st" "tt_body t = Some m"
      by (auto simp: record_in_transaction_def split: if_splits)
    with t(1) show ?thesis by (simp add: outcome_cell_def turn_outcome_def)
  qed
qed

text \<open>
  C12. The first outcome of a turn wins. After an outcome was recorded for a bound turn, at
  any later point of any run in which no agent is deleted, recording a different outcome
  for that task is refused and changes nothing, and a publication that makes a reply
  makes it with the status and the text that were recorded first.
\<close>

theorem first_outcome_wins:
  assumes db: "sound db" and fr: "fresh_env env db"
    and first: "exec env (RecordOutcome b st m) db = (Finished, db1)"
    and run: "op_run db1 es db2" and del: "no_deletes es" and fr2: "fresh_env env2 db2"
    and same: "tb_request b' = tb_request b"
  shows "(\<forall>st' m'. (st', m') \<noteq> (st, m) \<longrightarrow> (\<exists>e. exec env2 (RecordOutcome b' st' m') db2 = (Failed e, db2)))
    \<and> (\<forall>r db3. exec env2 (PublishOutcome b') db2 = (Published (Some r), db3) \<longrightarrow>
         sr_status (rp_reply r) = st \<and> sr_body (rp_reply r) = m)"
proof -
  have "\<exists>x. record_task_turn_outcome env db b st m = (Inr x, db1)"
    using answer_by_value [of "\<lambda>_. Finished"] first by fastforce
  then have "record_in_transaction env db b st m = Inr (db1, ())"
    by (auto simp: record_task_turn_outcome_def split: sum.splits dest: run_committing_Inr)
  then have c1: "outcome_cell db1 (tb_request b) = Some (st, m)" using record_Inr [OF db] by blast
  have s1: "sound db1" using exec_sound [OF fr db first] .
  have s2: "sound db2" using op_run_sound [OF run s1] .
  have c2: "outcome_cell db2 (tb_request b') = Some (st, m)"
    using outcomes_once.kept_along [OF run_grows [OF run s1 del] c1] same by simp
  show ?thesis
  proof (intro conjI allI impI)
    fix st' m' assume diff: "(st', m') \<noteq> (st, m)"
    show "\<exists>e. exec env2 (RecordOutcome b' st' m') db2 = (Failed e, db2)"
    proof (cases "validate_message m'")
      case (Inl e)
      then show ?thesis by (simp add: record_task_turn_outcome_def answer_by_def)
    next
      case (Inr u)
      have "record_in_transaction env2 db2 b' st' m' \<noteq> Inr (db', x)" for db' x
        using record_Inr [OF s2, of env2 b' st' m' db' x] c2 diff by auto
      then obtain e where "record_in_transaction env2 db2 b' st' m' = Inl e"
        by (cases "record_in_transaction env2 db2 b' st' m'") auto
      then show ?thesis using Inr by (simp add: record_task_turn_outcome_def run_committing_err answer_by_def)
    qed
  next
    fix r db3 assume "exec env2 (PublishOutcome b') db2 = (Published (Some r), db3)"
    then have "publish_task_turn_outcome env2 db2 b' = (Inr (Some r), db3)"
      using answer_by_value [of Published] by fastforce
    from run_tx_Inr [OF this [unfolded publish_task_turn_outcome_def]]
    have "settlement env2 db2 b' = Inr ''outcome_recorded''" and "publish_in_transaction env2 db2 b' = Inr (db3, Some r)"
      by (auto simp: res_bind_eq_Inr committing_Inr committing_None split: if_splits)
    from publish_Inr [OF fr2 s2 this] obtain t where t: "find_turn db2 (tb_request b') = Some t"
      and c: "\<exists>task status body. tt_status t = Some status \<and> tt_body t = Some body
           \<and> r = \<lparr>rp_task = completed_task env2 task,
                  rp_record = reply_record env2 (tb_recipient b') task (tb_request b') body,
                  rp_reply = reply_row env2 (tb_recipient b') (tb_request b') status body, rp_duplicate = False\<rparr>"
      by (auto split: option.splits)
    then show "sr_status (rp_reply r) = st" and "sr_body (rp_reply r) = m"
      using c2 by (auto simp: outcome_cell_def turn_outcome_def reply_row_def)
  qed
qed

end
