(* ===== verification/Messaging_Replay.thy ===== *)
theory Messaging_Replay
  imports Messaging_Promises
begin

text \<open>
  What a page is, exactly, and what asking for it again returns: the messages of a page are the
  longest run of available messages within its budgets, and a cursor that is used again
  returns the same messages first.
\<close>

section \<open>Messages of a sound store\<close>

lemma available_found:
  assumes db: "sound db" and a: "a \<in> set (db_avail db)"
  shows "\<exists>r. find_interaction db (av_id a) = Some r \<and> r \<in> set (db_interactions db) \<and> inline_ok r"
proof -
  obtain r where r: "r \<in> set (db_interactions db)" "ix_id r = av_id a" "inline_ok r"
    using db a by (auto simp: sound_def references_ok_def)
  then have "find_interaction db (av_id a) = Some r" using db unique_interaction [of db r] by (simp add: sound_def)
  with r show ?thesis by blast
qed

text \<open>Every available message can be read, and what is read does not change any more.\<close>

lemma message_at_sound:
  assumes db: "sound db" and a: "a \<in> set (db_avail db)"
  shows "\<exists>m. message_at env db (av_id a) = Inr m"
proof -
  obtain r where f: "find_interaction db (av_id a) = Some r"
    and r: "r \<in> set (db_interactions db)" "inline_ok r"
    using available_found [OF assms] by blast
  obtain b where b: "ix_body r = InlineBody b" using r(2) by (auto simp: inline_ok_def)
  have "\<exists>s. reply_status_of env db r = Inr s"
  proof (cases "ix_kind r = IReply")
    case True
    then obtain p q where "ix_parent r = Some p" "find_reply db p = Some q"
      using db r(1) by (auto simp: sound_def replies_ok_def reply_tracked_def)
    then show ?thesis by (simp add: reply_status_of_def)
  next
    case False
    then show ?thesis by (simp add: reply_status_of_def)
  qed
  then obtain s where "reply_status_of env db r = Inr s" by blast
  then show ?thesis using f b by (simp add: message_at_def load_def)
qed

lemma message_at_kept_along:
  assumes g: "grows\<^sup>*\<^sup>* db db'" and m: "message_at env db i = Inr m"
  shows "message_at env' db' i = Inr m"
proof -
  obtain r where r: "find_interaction db i = Some r" using m by (auto simp: message_at_def load_def res_bind_eq_Inr split: option.splits)
  then have c: "interaction_cell db i = Some (fixed_interaction r)" by (simp add: interaction_cell_def)
  have c': "interaction_cell db' i = Some (fixed_interaction r)" using interactions_once.kept_along [OF g c] .
  then obtain r' where r': "find_interaction db' i = Some r'" "fixed_interaction r' = fixed_interaction r"
    by (auto simp: interaction_cell_def)
  have p: "host_automation_provenance db' i = host_automation_provenance db i"
    using provenance_once.kept_along [OF g, of i] c c' by (simp add: provenance_cell_def)
  obtain b where b: "ix_body r = InlineBody b"
    using m r by (auto simp: message_at_def load_def split: body_ref.splits)
  obtain s where s: "reply_status_of env db r = Inr s"
    using m r b by (auto simp: message_at_def load_def res_bind_eq_Inr)
  have "reply_status_of env' db' r' = Inr s"
  proof (cases "ix_kind r = IReply")
    case True
    then obtain q where q: "find_reply db (case ix_parent r of None \<Rightarrow> [] | Some p \<Rightarrow> p) = Some q" "s = Some (sr_status q)"
      using s by (auto simp: reply_status_of_def split: option.splits)
    have "find_reply db' (case ix_parent r of None \<Rightarrow> [] | Some p \<Rightarrow> p) = Some q"
      using replies_once.kept_along [OF g q(1)] .
    then show ?thesis using True r'(2) q(2) by (simp add: reply_status_of_def fixed_interaction_def)
  next
    case False
    then show ?thesis using s r'(2) by (simp add: reply_status_of_def fixed_interaction_def)
  qed
  then show ?thesis
    using m r r' b s p by (simp add: message_at_def load_def fixed_interaction_def)
qed

section \<open>The loop over a page\<close>

definition body_bytes :: "agent_message list \<Rightarrow> nat" where
  "body_bytes ms = sum_list (map (\<lambda>m. length (am_message m)) ms)"

definition page_bytes :: "msg_env \<Rightarrow> agent_message list \<Rightarrow> nat" where
  "page_bytes env ms = sum_list (map (\<lambda>m. me_len env m + 1) ms)"

definition overfull :: "msg_env \<Rightarrow> nat \<Rightarrow> nat \<Rightarrow> agent_message list \<Rightarrow> bool" where
  "overfull env body ser ms \<longleftrightarrow>
     body + body_bytes ms > max_receive_body_bytes \<or> ser + page_bytes env ms > max_receive_serialized_bytes"

lemma bytes_Cons [simp]:
  "body_bytes [] = 0" "body_bytes (m # ms) = length (am_message m) + body_bytes ms"
  "page_bytes env [] = 0" "page_bytes env (m # ms) = me_len env m + 1 + page_bytes env ms"
  by (simp_all add: body_bytes_def page_bytes_def)

text \<open>The loop takes the longest run of messages that is not overfull.\<close>

lemma receive_loop_exact:
  assumes "receive_loop env rows db sequence body ser msgs = Inr (db', sequence', msgs', stopped)"
    and "map Inr ms = map (\<lambda>a. message_at env db (av_id a)) rows"
    and "\<not> overfull env body ser []"
  shows "\<exists>k \<le> length rows. msgs' = msgs @ take k ms \<and> sequence' = last (sequence # map av_seq (take k rows))
    \<and> (stopped \<longleftrightarrow> k < length rows) \<and> \<not> overfull env body ser (take k ms)
    \<and> (k < length rows \<longrightarrow> overfull env body ser (take (Suc k) ms) \<and> msgs' \<noteq> [])"
  using assms
proof (induction rows arbitrary: db sequence body ser msgs ms)
  case Nil
  then show ?case by simp
next
  case (Cons a rows)
  then obtain m ms' where ms: "ms = m # ms'" and m: "message_at env db (av_id a) = Inr m"
    and ms': "map Inr ms' = map (\<lambda>a. message_at env db (av_id a)) rows"
    by (cases ms) auto
  show ?case
  proof (cases "overfull env body ser [m]")
    case True
    with Cons.prems(1) m have "sequence' = sequence" "msgs' = msgs" "stopped" "msgs \<noteq> []"
      by (auto simp: Let_def overfull_def split: if_splits)
    with Cons.prems(3) True ms show ?thesis by (intro exI [of _ 0]) simp
  next
    case False
    let ?b = "body + length (am_message m)" and ?s = "ser + (me_len env m + 1)"
    have loop: "receive_loop env rows (claim_for_receiver env (length msgs) (av_id a) db) (av_seq a)
        ?b ?s (msgs @ [m]) = Inr (db', sequence', msgs', stopped)"
      using False Cons.prems(1) m by (simp add: Let_def overfull_def)
    have over: "overfull env ?b ?s xs \<longleftrightarrow> overfull env body ser (m # xs)" for xs
      by (simp add: overfull_def add.assoc)
    have "map Inr ms' = map (\<lambda>x. message_at env (claim_for_receiver env (length msgs) (av_id a) db) (av_id x)) rows"
      using ms' by simp
    from Cons.IH [OF loop this] False over obtain k where k: "k \<le> length rows" "msgs' = (msgs @ [m]) @ take k ms'"
        "sequence' = last (av_seq a # map av_seq (take k rows))" "stopped \<longleftrightarrow> k < length rows"
        "\<not> overfull env body ser (m # take k ms')"
        "k < length rows \<longrightarrow> overfull env body ser (m # take (Suc k) ms') \<and> msgs' \<noteq> []"
      by auto
    then show ?thesis using ms by (intro exI [of _ "Suc k"]) simp
  qed
qed

text \<open>When something has been taken, the loop returns.\<close>

lemma receive_loop_returns:
  assumes "\<forall>a \<in> set rows. \<exists>m. message_at env db (av_id a) = Inr m" and "msgs \<noteq> []"
  shows "\<exists>db' s tail st. receive_loop env rows db sequence body ser msgs = Inr (db', s, msgs @ tail, st)
    \<and> length tail \<le> length rows"
  using assms
proof (induction rows arbitrary: db sequence body ser msgs)
  case Nil
  then show ?case by (simp, intro exI [of _ False]) simp
next
  case (Cons a rows)
  obtain m where m: "message_at env db (av_id a) = Inr m" using Cons.prems(1) by auto
  let ?db = "claim_for_receiver env (length msgs) (av_id a) db"
  have "\<forall>a \<in> set rows. \<exists>m. message_at env ?db (av_id a) = Inr m" using Cons.prems(1) by simp
  from Cons.IH [OF this, of "msgs @ [m]"] obtain db' s tail st where
    "receive_loop env rows ?db (av_seq a) (body + length (am_message m)) (ser + (me_len env m + 1)) (msgs @ [m]) =
       Inr (db', s, (msgs @ [m]) @ tail, st)" "length tail \<le> length rows"
    by blast
  with m Cons.prems(2) show ?case
    by (cases "body + length (am_message m) > max_receive_body_bytes
          \<or> ser + (me_len env m + 1) > max_receive_serialized_bytes")
      (auto simp: Let_def)
qed

text \<open>The same messages, read again, fit again.\<close>

lemma receive_loop_again:
  assumes "\<not> overfull env body ser ms" and "me_len env = me_len env1"
    and "map Inr ms = map (\<lambda>a. message_at env db (av_id a)) rows"
  shows "\<exists>db' s b z. receive_loop env (rows @ extra) db sequence body ser msgs =
      receive_loop env extra db' s b z (msgs @ ms) \<and> (\<forall>e j. message_at e db' j = message_at e db j)"
  using assms
proof (induction rows arbitrary: db sequence body ser msgs ms)
  case Nil
  then have "receive_loop env ([] @ extra) db sequence body ser msgs = receive_loop env extra db sequence body ser (msgs @ ms)"
    by simp
  then show ?case by blast
next
  case (Cons a rows)
  then obtain m ms' where ms: "ms = m # ms'" and m: "message_at env db (av_id a) = Inr m"
    and ms': "map Inr ms' = map (\<lambda>a. message_at env db (av_id a)) rows"
    by (cases ms) auto
  let ?db = "claim_for_receiver env (length msgs) (av_id a) db"
    and ?b = "body + length (am_message m)" and ?s = "ser + (me_len env m + 1)"
  have fit: "\<not> overfull env ?b ?s ms'" using Cons.prems(1) ms by (simp add: overfull_def add.assoc)
  have small: "\<not> (?b > max_receive_body_bytes \<or> ?s > max_receive_serialized_bytes)"
    using Cons.prems(1) ms by (simp add: overfull_def)
  have "map Inr ms' = map (\<lambda>x. message_at env ?db (av_id x)) rows" using ms' by simp
  from Cons.IH [OF fit Cons.prems(2) this, of "av_seq a" "msgs @ [m]"] obtain db' s b z where
    "receive_loop env (rows @ extra) ?db (av_seq a) ?b ?s (msgs @ [m]) =
       receive_loop env extra db' s b z ((msgs @ [m]) @ ms')"
    and "\<forall>e j. message_at e db' j = message_at e ?db j"
    by blast
  with m small ms show ?case by (auto simp: Let_def)
qed

section \<open>The rows of a page\<close>

lemma receivable_free: "receivable (find_delivery db i) \<longleftrightarrow> \<not> taken (phase db i)"
  by (auto simp: receivable_def phase_def phase_of_delivery_def taken_def split: option.splits)

text \<open>The availability is in the order of its sequences.\<close>

definition offered :: "mdb \<Rightarrow> string \<Rightarrow> int \<Rightarrow> availability \<Rightarrow> bool" where
  "offered db r after a \<longleftrightarrow>
     av_recipient a = r \<and> av_seq a > after \<and> find_interaction db (av_id a) \<noteq> None
     \<and> receivable (find_delivery db (av_id a))"

lemma receive_rows_offered:
  assumes "sound db"
  shows "receive_rows db r after = filter (offered db r after) (db_avail db)"
proof -
  have "sorted_wrt (<) (map av_seq (db_avail db))" using assms by (simp add: sound_def sequences_ok_def)
  then have "sorted (map av_seq (db_avail db))" using strict_sorted_imp_sorted by blast
  then have "sort_key av_seq (db_avail db) = db_avail db" by (rule sort_key_id_if_sorted)
  then show ?thesis by (simp add: receive_rows_def offered_def [abs_def])
qed

lemma take_filter_split:
  "k \<le> length (filter P xs) \<Longrightarrow> \<exists>ys zs. xs = ys @ zs \<and> filter P ys = take k (filter P xs)"
proof (induction xs arbitrary: k)
  case Nil
  then show ?case by simp
next
  case (Cons x xs)
  show ?case
  proof (cases "P x \<and> k = 0")
    case True
    then show ?thesis by (intro exI [of _ "[]"] exI [of _ "x # xs"]) simp
  next
    case False
    let ?j = "if P x then k - 1 else k"
    have "?j \<le> length (filter P xs)" using Cons.prems False by (auto split: if_splits)
    from Cons.IH [OF this] obtain ys zs where "xs = ys @ zs" "filter P ys = take ?j (filter P xs)" by blast
    with False show ?thesis by (intro exI [of _ "x # ys"] exI [of _ zs]) (cases k, auto)
  qed
qed

definition no_releases :: "(mop \<times> answer) list \<Rightarrow> bool" where
  "no_releases es \<longleftrightarrow> list_all (\<lambda>e. case fst e of ReleaseClaim _ \<Rightarrow> False | _ \<Rightarrow> True) es"

lemma no_releases_labels:
  "no_releases es \<Longrightarrow> e \<in> set es \<Longrightarrow> may_have (fst e) l \<Longrightarrow> l \<noteq> Released i"
  by (auto simp: no_releases_def list_all_iff may_have_def split: mop.splits prod.splits)

text \<open>Who owned a message when a page was read owns it still, unless a claim was released.\<close>

lemma offered_stays:
  assumes db: "sound db" and fr: "fresh_env env db"
    and page: "exec env (Receive r c a l) db = (Page p, db1)"
    and run: "op_run db1 es db2" and del: "no_deletes es" and rel: "no_releases es"
    and row: "x \<in> set (db_avail db)" "offered db r after x \<longrightarrow> av_id x \<in> am_id ` set (pg_messages p)"
  shows "offered db2 r after x \<longleftrightarrow> offered db r after x"
proof -
  let ?i = "av_id x"
  obtain l1 where l1: "history db l1 db1" "list_all (may_have (Receive r c a l)) l1" "in_labels (Page p) l1"
    by (rule exec_history [OF fr db page])
  have s1: "sound db1" using history_sound [OF l1(1) db] .
  obtain l2 where l2: "history db1 l2 db2" "\<forall>l \<in> set l2. \<exists>e \<in> set es. may_have (fst e) l"
    using op_run_labels [OF run s1] by blast
  have s2: "sound db2" using history_sound [OF l2(1) s1] .
  have q1: "\<forall>l \<in> set l1. \<not> erasing l \<and> l \<noteq> Released ?i"
    using l1(2) by (auto simp: list_all_iff may_have_def erasing_def split: label.splits)
  have q2: "\<forall>l \<in> set l2. \<not> erasing l \<and> l \<noteq> Released ?i"
    using l2(2) no_deletes_labels [OF del] no_releases_labels [OF rel] by blast
  have p1: "own_run ?i l1 (phase db ?i) = Some (phase db1 ?i)" by (rule history_phase [OF l1(1) db])
  have p2: "own_run ?i l2 (phase db1 ?i) = Some (phase db2 ?i)" by (rule history_phase [OF l2(1) s1])
  have g: "grows\<^sup>*\<^sup>* db db2" using history_grows [OF history_append [OF l1(1) l2(1)] db] q1 q2 by auto
  have here: "find_interaction db ?i \<noteq> None" using available_found [OF db row(1)] by auto
  then obtain y where "find_interaction db ?i = Some y" by blast
  then have "interaction_cell db ?i = Some (fixed_interaction y)" by (simp add: interaction_cell_def)
  from interactions_once.kept_along [OF g this] have there: "find_interaction db2 ?i \<noteq> None"
    by (auto simp: interaction_cell_def)
  have "taken (phase db2 ?i)" if "taken (phase db ?i)"
    using taken_stays [OF p2] taken_stays [OF p1 that q1] q2 by blast
  moreover have "\<not> taken (phase db2 ?i)" if "?i \<in> am_id ` set (pg_messages p)"
  proof -
    have "Shown ?i \<in> set l1" using l1(3) that by (auto simp: in_labels_def)
    then have "phase db1 ?i \<in> {AtReceiver, Untracked}" using shown_phase [OF p1] q1 by blast
    then have "phase db2 ?i \<in> {AtReceiver, Untracked}" using received_stays [OF p2] q2 by auto
    then show ?thesis by (auto simp: taken_def)
  qed
  ultimately show ?thesis using row(2) here there by (auto simp: offered_def receivable_free)
qed

section \<open>Properties\<close>

lemma receive_page:
  assumes "exec env (Receive r c a l) db = (Page p, db1)"
  shows "l \<noteq> 0 \<and> unat l \<le> max_receive_items \<and> receive_in_transaction env db r c a (unat l) = Inr (db1, p)"
proof -
  have "receive env db r c a l = (Inr p, db1)" using answer_by_value [of Page] assms by fastforce
  then show ?thesis
    unfolding receive_def by (cases "l = 0 \<or> unat l > max_receive_items") (auto dest: run_committing_Inr)
qed

lemma map_messages:
  assumes "sound db" and "set rows \<subseteq> set (db_avail db)"
  shows "\<exists>ms. map Inr ms = map (\<lambda>a. message_at env db (av_id a)) rows"
proof -
  have "\<forall>a \<in> set rows. \<exists>m. message_at env db (av_id a) = Inr m" using message_at_sound assms by blast
  then obtain f where "\<forall>a \<in> set rows. message_at env db (av_id a) = Inr (f a)" by metis
  then show ?thesis by (intro exI [of _ "map f rows"]) simp
qed

text \<open>The rows a page is made of: those of the asked cursor, or of the acknowledgement.\<close>

lemma page_parts:
  assumes db: "sound db" and page: "exec env (Receive r c a l) db = (Page p, db1)"
  obtains asked after ms k where
    "asked_sequence db r a (acknowledged db r) = Inr asked"
    "asked_sequence db r c (max asked (acknowledged db r)) = Inr after"
    "map Inr ms = map (\<lambda>x. message_at env db (av_id x)) (take (unat l) (receive_rows db r after))"
    "k \<le> length ms" "pg_messages p = take k ms" "\<not> overfull env 0 1024 (take k ms)"
    "k < length ms \<longrightarrow> overfull env 0 1024 (take (Suc k) ms) \<and> k \<noteq> 0"
    "pg_more p \<longleftrightarrow> k < length (receive_rows db r after)"
    "\<exists>x \<in> set (db_cursors db1). cu_token x = pg_next p \<and> cu_recipient x = r
       \<and> cu_seq x = last (after # map av_seq (take k (receive_rows db r after)))"
    "acknowledged db1 r = (if a = None then acknowledged db r else max asked (acknowledged db r))"
proof -
  note rp = receive_page [OF page]
  from conjunct2 [OF conjunct2 [OF rp]] show thesis
  proof (rule receive_Inr)
    fix asked after dbl s msgs stopped db2 token
    assume asked: "asked_sequence db r a (acknowledged db r) = Inr asked"
      and after: "asked_sequence db r c (max asked (acknowledged db r)) = Inr after"
      and loop: "receive_loop env (take (unat l) (receive_rows db r after)) db after 0 1024 [] = Inr (dbl, s, msgs, stopped)"
      and issue: "issue_cursor env (length msgs) r s dbl = Inr (db2, token)"
      and db1: "db1 = (if a = None then db2 else store_ack r (max asked (acknowledged db r)) db2)"
      and p: "p = \<lparr>pg_messages = msgs, pg_next = token, pg_ack = token,
          pg_more = (length (take (unat l + 1) (receive_rows db r after)) > unat l \<or> stopped),
          pg_timed_out = False, pg_wake = None\<rparr>"
    let ?rows = "take (unat l) (receive_rows db r after)"
    have "set ?rows \<subseteq> set (db_avail db)" using receive_rows_available in_set_takeD by (metis subsetI)
    from map_messages [OF db this] obtain ms where ms: "map Inr ms = map (\<lambda>x. message_at env db (av_id x)) ?rows"
      by blast
    have len: "length ms = length ?rows" using arg_cong [OF ms, of length] by simp
    have "\<not> overfull env 0 1024 []"
      by (simp add: overfull_def max_receive_body_bytes_def max_receive_serialized_bytes_def)
    from receive_loop_exact [OF loop ms this] obtain k where k: "k \<le> length ?rows" "msgs = take k ms"
        "s = last (after # map av_seq (take k ?rows))" "stopped \<longleftrightarrow> k < length ?rows"
        "\<not> overfull env 0 1024 (take k ms)"
        "k < length ?rows \<longrightarrow> overfull env 0 1024 (take (Suc k) ms) \<and> msgs \<noteq> []"
      unfolding append_Nil by blast
    have "k \<le> unat l" using k(1) by auto
    then have tk: "take k ?rows = take k (receive_rows db r after)" by (simp add: min_absorb1)
    have s: "s = last (after # map av_seq (take k (receive_rows db r after)))" using k(3) unfolding tk .
    have "pg_more p \<longleftrightarrow> k < length (receive_rows db r after)" using k(1,4) by (auto simp: p)
    moreover have "\<exists>x \<in> set (db_cursors db1). cu_token x = pg_next p \<and> cu_recipient x = r
       \<and> cu_seq x = last (after # map av_seq (take k (receive_rows db r after)))"
      using issue_cursor_backed [OF issue] unfolding s db1 p by (auto simp: store_ack_def)
    moreover have "db_acks db2 = db_acks db"
      using issue receive_loop_frame [OF loop] by (auto simp: issue_cursor_def Let_def split: option.splits if_splits)
    then have "acknowledged db1 r = (if a = None then acknowledged db r else max asked (acknowledged db r))"
      by (auto simp: db1 acknowledged_def store_ack_def update_Some_unfold update_conv' split: option.splits)
    moreover have "k < length ms \<longrightarrow> overfull env 0 1024 (take (Suc k) ms) \<and> k \<noteq> 0"
      using k(2,6) len by auto
    ultimately show thesis using that [OF asked after ms] k(1,2,5) len by (simp add: p)
  qed
qed

definition page_fits :: "msg_env \<Rightarrow> agent_message list \<Rightarrow> bool" where
  "page_fits env ms \<longleftrightarrow>
     body_bytes ms \<le> max_receive_body_bytes \<and> 1024 + page_bytes env ms \<le> max_receive_serialized_bytes"

lemma page_fits_overfull: "page_fits env ms \<longleftrightarrow> \<not> overfull env 0 1024 ms"
  by (auto simp: page_fits_def overfull_def)

text \<open>
  C14. A page is exactly the longest run of messages within its limits. Of the available messages
  of the receiver after the cursor that was given (or after the acknowledgement), in the order
  of their sequences, it holds the first ones, as many as the limit (1 to 100) and the budgets of
  the bodies (128 KiB) and of the serialized page (512 KiB) allow; an empty page means
  that there is none; it says that there is more exactly when one was left; its cursor stands for the
  last message returned; and the acknowledgement moves only when a cursor is given for it, and
  never back.
\<close>

theorem receive_page_exact:
  assumes db: "sound db" and page: "exec env (Receive r c a l) db = (Page p, db1)"
  shows "1 \<le> unat l \<and> unat l \<le> 100
    \<and> (\<exists>asked after ms k.
         asked_sequence db r a (acknowledged db r) = Inr asked
       \<and> asked_sequence db r c (max asked (acknowledged db r)) = Inr after
       \<and> map Inr ms = map (\<lambda>x. message_at env db (av_id x)) (receive_rows db r after)
       \<and> k \<le> unat l \<and> k \<le> length ms \<and> pg_messages p = take k ms \<and> page_fits env (take k ms)
       \<and> (k < length ms \<longrightarrow> k \<noteq> 0 \<and> (k = unat l \<or> \<not> page_fits env (take (Suc k) ms)))
       \<and> (pg_more p \<longleftrightarrow> k < length ms)
       \<and> (\<exists>x \<in> set (db_cursors db1). cu_token x = pg_next p \<and> cu_recipient x = r
            \<and> cu_seq x = last (after # map av_seq (take k (receive_rows db r after))))
       \<and> acknowledged db1 r = (if a = None then acknowledged db r else max asked (acknowledged db r)))"
proof -
  have l: "1 \<le> unat l" "unat l \<le> 100"
    using receive_page [OF page] by (auto simp: max_receive_items_def word_gt_0 unat_gt_0 Suc_le_eq)
  show ?thesis
    using page
  proof (rule page_parts [OF db])
    fix asked after ms k
    assume asked: "asked_sequence db r a (acknowledged db r) = Inr asked"
      and after: "asked_sequence db r c (max asked (acknowledged db r)) = Inr after"
      and ms: "map Inr ms = map (\<lambda>x. message_at env db (av_id x)) (take (unat l) (receive_rows db r after))"
      and k: "k \<le> length ms" "pg_messages p = take k ms" "\<not> overfull env 0 1024 (take k ms)"
        "k < length ms \<longrightarrow> overfull env 0 1024 (take (Suc k) ms) \<and> k \<noteq> 0"
        "pg_more p \<longleftrightarrow> k < length (receive_rows db r after)"
      and cur: "\<exists>x \<in> set (db_cursors db1). cu_token x = pg_next p \<and> cu_recipient x = r
       \<and> cu_seq x = last (after # map av_seq (take k (receive_rows db r after)))"
      and ack: "acknowledged db1 r = (if a = None then acknowledged db r else max asked (acknowledged db r))"
    let ?rows = "receive_rows db r after"
    have "set ?rows \<subseteq> set (db_avail db)" using receive_rows_available by blast
    from map_messages [OF db this] obtain all where all: "map Inr all = map (\<lambda>x. message_at env db (av_id x)) ?rows"
      by blast
    have len: "length all = length ?rows" using arg_cong [OF all, of length] by simp
    have "(map Inr ms :: (msg_error + agent_message) list) = take (unat l) (map Inr all)"
      unfolding ms all by (rule take_map [symmetric])
    then have "(map Inr ms :: (msg_error + agent_message) list) = map Inr (take (unat l) all)"
      by (simp add: take_map)
    then have e: "ms = take (unat l) all" by (simp add: inj_map_eq_map)
    have kl: "k \<le> unat l" "k \<le> length all" using k(1) e by auto
    have "pg_messages p = take k all" using k(2) kl e by (simp add: min_absorb1)
    moreover have "page_fits env (take k all)" using k(3) kl e by (simp add: page_fits_overfull min_absorb1)
    moreover have "k \<noteq> 0 \<and> (k = unat l \<or> \<not> page_fits env (take (Suc k) all))" if "k < length all"
    proof (cases "k < unat l")
      case True
      with that have "k < length ms" using e by simp
      then show ?thesis using k(4) e True by (simp add: page_fits_overfull min_absorb1)
    next
      case False
      then show ?thesis using kl l by simp
    qed
    moreover have "pg_more p \<longleftrightarrow> k < length all" using k(5) len by simp
    ultimately show ?thesis using l asked after all kl cur ack by blast
  qed
qed

lemma page_grows:
  assumes db: "sound db" and fr: "fresh_env env db"
    and page: "exec env (Receive r c a l) db = (Page p, db1)"
  shows "grows\<^sup>*\<^sup>* db db1"
proof -
  obtain l1 where l1: "history db l1 db1" "list_all (may_have (Receive r c a l)) l1"
    by (rule exec_history [OF fr db page])
  have "\<forall>l \<in> set l1. \<not> erasing l"
    using l1(2) by (auto simp: list_all_iff may_have_def erasing_def split: label.splits)
  then show ?thesis by (rule history_grows [OF l1(1) db])
qed

lemma receive_rows_again:
  assumes db: "sound db" and fr: "fresh_env env db"
    and page: "exec env (Receive r c a l) db = (Page p, db1)"
    and run: "op_run db1 es db2" and del: "no_deletes es" and rel: "no_releases es"
    and k: "k \<le> length (receive_rows db r after)"
    and shown: "av_id ` set (take k (receive_rows db r after)) \<subseteq> am_id ` set (pg_messages p)"
  shows "\<exists>rest. receive_rows db2 r after = take k (receive_rows db r after) @ rest"
proof -
  have s1: "sound db1" using exec_sound [OF fr db page] .
  have s2: "sound db2" using op_run_sound [OF run s1] .
  have "grows\<^sup>*\<^sup>* db db1" by (rule page_grows [OF db fr page])
  with run_grows [OF run s1 del] have "grows\<^sup>*\<^sup>* db db2" by simp
  then obtain new where new: "db_avail db2 = db_avail db @ new" using available_kept by blast
  obtain ys zs where split: "db_avail db = ys @ zs"
      "filter (offered db r after) ys = take k (receive_rows db r after)"
    using take_filter_split [of k "offered db r after" "db_avail db"] k
    unfolding receive_rows_offered [OF db] by blast
  have same: "offered db2 r after x \<longleftrightarrow> offered db r after x" if x: "x \<in> set ys" for x
  proof (rule offered_stays [OF db fr page run del rel])
    show "x \<in> set (db_avail db)" using x split(1) by simp
    show "offered db r after x \<longrightarrow> av_id x \<in> am_id ` set (pg_messages p)"
    proof
      assume "offered db r after x"
      with x have "x \<in> set (filter (offered db r after) ys)" by simp
      then show "av_id x \<in> am_id ` set (pg_messages p)" using split(2) shown by auto
    qed
  qed
  have "filter (offered db2 r after) ys = take k (receive_rows db r after)"
    unfolding split(2) [symmetric] by (rule filter_cong [OF refl same])
  then show ?thesis
    using receive_rows_offered [OF s2, of r after] new split(1) by auto
qed

lemma cursor_kept_along:
  assumes "grows\<^sup>*\<^sup>* db db'" and "cursor_sequence db r t = Inr s"
  shows "cursor_sequence db' r t = Inr s"
  using assms(2) cursors_once.kept_along [OF assms(1), of t]
  by (auto simp: cursor_sequence_def cursor_cell_def split: if_splits option.splits)

text \<open>
  C15. A page that was not empty is returned again for its cursor. Whatever operations ran meanwhile
  (new admissions, other pages, claims, replies, outcomes), as long as no agent was deleted and no
  claim released: receiving with the same cursor and limit answers with a page that begins
  with exactly the messages of the first one, contents included, and adds messages only
  when the first page was below its limit.
\<close>

theorem page_is_repeated:
  assumes db: "sound db" and fr: "fresh_env env db"
    and page: "exec env (Receive r (Some t) a l) db = (Page p, db1)" and some: "pg_messages p \<noteq> []"
    and run: "op_run db1 es db2" and del: "no_deletes es" and rel: "no_releases es"
    and fr2: "fresh_env env2 db2" and commit: "me_commit env2 = CommitOk" and len: "me_len env2 = me_len env"
  shows "\<exists>p2 db3 tail. exec env2 (Receive r (Some t) None l) db2 = (Page p2, db3)
    \<and> pg_messages p2 = pg_messages p @ tail \<and> (length (pg_messages p) = unat l \<longrightarrow> tail = [])"
  using page
proof (rule page_parts [OF db])
  fix asked after ms k
  assume after: "asked_sequence db r (Some t) (max asked (acknowledged db r)) = Inr after"
    and ms: "map Inr ms = map (\<lambda>x. message_at env db (av_id x)) (take (unat l) (receive_rows db r after))"
    and k: "k \<le> length ms" "pg_messages p = take k ms" "\<not> overfull env 0 1024 (take k ms)"
  let ?rows = "receive_rows db r after"
  have lens: "length ms = length (take (unat l) ?rows)" using arg_cong [OF ms, of length] by simp
  then have kl: "k \<le> unat l" "k \<le> length ?rows" using k(1) by auto
  have pm: "map Inr (pg_messages p) = map (\<lambda>x. message_at env db (av_id x)) (take k ?rows)"
    using arg_cong [OF ms, of "take k"] kl(1) k(2) by (simp add: take_map min_absorb1)
  have ids: "av_id ` set (take k ?rows) \<subseteq> am_id ` set (pg_messages p)"
  proof
    fix i assume "i \<in> av_id ` set (take k ?rows)"
    then obtain x where x: "x \<in> set (take k ?rows)" "i = av_id x" by blast
    then have "message_at env db i \<in> set (map Inr (pg_messages p))" unfolding pm by auto
    then obtain m where "m \<in> set (pg_messages p)" "message_at env db i = Inr m" by auto
    then show "i \<in> am_id ` set (pg_messages p)" using message_at_id by blast
  qed
  obtain rest where rest: "receive_rows db2 r after = take k ?rows @ rest"
    using receive_rows_again [OF db fr page run del rel kl(2) ids] by blast
  have s1: "sound db1" using exec_sound [OF fr db page] .
  have s2: "sound db2" using op_run_sound [OF run s1] .
  have g: "grows\<^sup>*\<^sup>* db db2" using page_grows [OF db fr page] run_grows [OF run s1 del] by simp
  have again: "map Inr (pg_messages p) = map (\<lambda>x. message_at env2 db2 (av_id x)) (take k ?rows)"
  proof -
    have "message_at env2 db2 (av_id x) = message_at env db (av_id x)" if "x \<in> set (take k ?rows)" for x
    proof -
      have "message_at env db (av_id x) \<in> set (map Inr (pg_messages p))" unfolding pm using that by auto
      then obtain m where "message_at env db (av_id x) = Inr m" by auto
      with message_at_kept_along [OF g this] show ?thesis by simp
    qed
    then show ?thesis unfolding pm by simp
  qed
  have fit: "\<not> overfull env2 0 1024 (pg_messages p)" using k(2,3) len by (simp add: overfull_def page_bytes_def)
  obtain extra where extra: "take (unat l) (receive_rows db2 r after) = take k ?rows @ extra"
      "length extra \<le> unat l - k" "set extra \<subseteq> set (receive_rows db2 r after)"
    using kl rest by (auto simp: min_absorb1 min_absorb2 dest: in_set_takeD)
  obtain dbm sm b z where loop1: "receive_loop env2 (take k ?rows @ extra) db2 after 0 1024 [] =
      receive_loop env2 extra dbm sm b z ([] @ pg_messages p)"
    and same: "\<forall>e j. message_at e dbm j = message_at e db2 j"
    using receive_loop_again [OF fit refl again, of extra after "[]"] by blast
  have "\<forall>x \<in> set extra. \<exists>m. message_at env2 dbm (av_id x) = Inr m"
  proof
    fix x assume "x \<in> set extra"
    then have "x \<in> set (db_avail db2)" using extra(3) receive_rows_available by blast
    then show "\<exists>m. message_at env2 dbm (av_id x) = Inr m" unfolding same [rule_format] by (rule message_at_sound [OF s2])
  qed
  from receive_loop_returns [OF this some, of sm b z] obtain dbl s tail st where
    loop2: "receive_loop env2 extra dbm sm b z (pg_messages p) = Inr (dbl, s, pg_messages p @ tail, st)"
      "length tail \<le> length extra"
    by blast
  have loop: "receive_loop env2 (take (unat l) (receive_rows db2 r after)) db2 after 0 1024 [] =
      Inr (dbl, s, pg_messages p @ tail, st)"
    unfolding extra(1) loop1 append_Nil loop2(1) ..
  have "\<not> list_ex (\<lambda>c. cu_token c = new_id env2 n ''am1'') (db_cursors dbl)" for n
  proof -
    have "new_id env2 n ''am1'' \<notin> cu_token ` set (db_cursors db2)"
      using fresh_new_id [OF fr2, of "''am1''" n] by (simp add: known_def)
    moreover have "db_cursors dbl = db_cursors db2" using receive_loop_frame [OF loop] by simp
    ultimately show ?thesis unfolding list_ex_iff by (metis imageI)
  qed
  then have "\<exists>x. issue_cursor env2 n r s dbl = Inr x" for n
    by (cases "find (\<lambda>c. cu_recipient c = r \<and> cu_seq c = s) (db_cursors dbl)")
      (simp_all add: issue_cursor_def Let_def)
  then obtain dbc token where issue: "issue_cursor env2 (length (pg_messages p @ tail)) r s dbl = Inr (dbc, token)"
    by (metis prod.exhaust)
  have cur: "cursor_sequence db2 r t = Inr after"
    using cursor_kept_along [OF g] after by (simp add: asked_sequence_def)
  have tk: "take n (take (n + 1) xs) = take n xs" for n and xs :: "availability list" by (simp add: min_def)
  obtain p2 where p2: "receive_in_transaction env2 db2 r (Some t) None (unat l) = Inr (dbc, p2)"
      "pg_messages p2 = pg_messages p @ tail"
    using cur loop issue by (simp add: receive_in_transaction_def Let_def tk)
  have "l \<noteq> 0 \<and> unat l \<le> max_receive_items" using receive_page [OF page] by simp
  then have "exec env2 (Receive r (Some t) None l) db2 = (Page p2, dbc)"
    using p2(1) by (simp add: receive_def answer_by_def run_committing_ok [OF commit])
  moreover have "length (pg_messages p) = unat l \<longrightarrow> tail = []"
    using loop2(2) extra(2) k(1,2) by auto
  ultimately show ?thesis using p2(2) by blast
qed

end
