(* ===== verification/Messaging_Recovery.thy ===== *)
theory Messaging_Recovery
  imports Messaging_Promises
begin

text \<open>
  Recovery of the outbox of task turns: a publication of a recorded outcome of a sound store
  cannot fail but for the commit, and recovery publishes every recorded outcome.
\<close>

section \<open>One publication\<close>

lemma sql_of_int: "0 \<le> g \<Longrightarrow> g < 2 ^ 63 \<Longrightarrow> sql_u64 env (of_int g) = Inr g"
proof -
  assume g: "0 \<le> g" "g < 2 ^ 63"
  then have "uint (of_int g :: u64) = g" by (simp add: unsigned_of_int take_bit_int_eq_self)
  then have i: "int (unat (of_int g :: u64)) = g" by simp
  have "int (unat (of_int g :: u64)) < int (2 ^ 63)" unfolding i using g(2) by simp
  then have "unat (of_int g :: u64) < 2 ^ 63" by (simp only: of_nat_less_iff)
  with i show ?thesis by (simp add: sql_u64_def)
qed

lemma turn_task:
  assumes db: "sound db" and t: "t \<in> set (db_turns db)"
  shows "\<exists>d \<in> set (db_deliveries db). accepted_under t d
    \<and> (\<exists>r. find_interaction db (tt_request t) = Some r \<and> task_fits db d r)"
proof -
  obtain d where d: "d \<in> set (db_deliveries db)" "accepted_under t d"
    using db t by (auto simp: sound_def turns_ok_def turn_ok_def)
  then have "dl_operation d = ''followup_task''" "dl_id d = tt_request t" by (simp_all add: accepted_under_def)
  with fits_task [OF db d(1)] d show ?thesis by auto
qed

lemma settlement_of_row:
  assumes db: "sound db" and t: "t \<in> set (db_turns db)"
  shows "settlement env db (binding_of_row t) = Inr (tt_settlement t)"
proof -
  let ?b = "binding_of_row t"
  have ok: "turn_ok db t" using db t by (simp add: sound_def turns_ok_def)
  then have g: "sql_u64 env (tb_generation ?b) = Inr (tt_generation t)"
    by (simp add: turn_ok_def binding_of_row_def sql_of_int)
  obtain d r where d: "d \<in> set (db_deliveries db)" "accepted_under t d"
    and r: "find_interaction db (tt_request t) = Some r" "task_fits db d r"
    using turn_task [OF db t] by blast
  have "distinct (map tt_request (db_turns db))" using db by (simp add: sound_def keys_ok_def)
  then have only: "u = t" if "u \<in> set (db_turns db)" "tt_request u = tt_request t" for u
    using that t by (simp add: distinct_map inj_on_def)
  have "find (\<lambda>u. row_matches ?b (tt_generation t) u \<and> list_ex (accepted_under u) (db_deliveries db)) (db_turns db) = Some t"
  proof (cases "find (\<lambda>u. row_matches ?b (tt_generation t) u \<and> list_ex (accepted_under u) (db_deliveries db)) (db_turns db)")
    case None
    then have "\<not> (row_matches ?b (tt_generation t) t \<and> list_ex (accepted_under t) (db_deliveries db))"
      using t by (auto simp: find_None_iff)
    then show ?thesis using d by (auto simp: row_matches_def binding_of_row_def list_ex_iff)
  next
    case (Some u)
    then have "u \<in> set (db_turns db)" "tt_request u = tt_request t"
      by (auto simp: find_Some_iff row_matches_def binding_of_row_def)
    with only Some show ?thesis by simp
  qed
  moreover have "tt_recipient t = dl_recipient d" using d(2) by (simp add: accepted_under_def)
  ultimately show ?thesis
    using g r by (simp add: settlement_def load_def task_fits_def binding_of_row_def)
qed

lemma reply_new_succeeds:
  assumes fr: "fresh_env env db" and seq: "db_last db + 1 < 2 ^ 63"
    and task: "find_interaction db i = Some task" "ix_status task = IAwaitingReply"
      "ix_sender task \<noteq> None \<or> host_automation_provenance db i \<noteq> None"
    and d: "\<exists>d \<in> set (db_deliveries db). dl_id d = i \<and> dl_operation d = ''followup_task''"
  shows "\<exists>x. reply_new env db s i st m None task = Inr x"
proof -
  let ?new = "new_id env 0 ''int''"
  let ?db = "upsert_reply \<lparr>sr_request = i, sr_status = st, sr_body = m, sr_target = s,
                   sr_source = Some s, sr_replied = me_now env\<rparr>
      (upsert_interaction (reply_record env s task i m) (upsert_interaction (completed_task env task) db))"
  have frame: "db_deliveries ?db = db_deliveries db" "db_avail ?db = db_avail db" "db_last ?db = db_last db"
    by (simp_all add: upsert_reply_def upsert_interaction_def)
  have "?new \<notin> dl_id ` set (db_deliveries db)" "?new \<notin> av_id ` set (db_avail db)"
    using fresh_new_id [OF fr, of "''int''" 0] by (auto simp: known_def)
  then have new: "\<forall>x \<in> set (db_deliveries db). dl_id x \<noteq> ?new" "\<forall>x \<in> set (db_avail db). av_id x \<noteq> ?new"
    by (metis imageI)+
  have "\<exists>x. deliver_reply env ?new s (ix_sender task) i ?db = Inr x"
  proof (cases "ix_sender task")
    case None
    then show ?thesis by (simp add: deliver_reply_def)
  next
    case (Some to)
    have "find (\<lambda>d. dl_id d = i \<and> dl_operation d = ''followup_task'') (db_deliveries db) \<noteq> None"
      using d by (auto simp: find_None_iff)
    then obtain e where e: "find (\<lambda>d. dl_id d = i \<and> dl_operation d = ''followup_task'') (db_deliveries db) = Some e"
      by blast
    have "\<not> list_ex (\<lambda>x. dl_id x = ?new \<or> same_key (reply_delivery ?new s to e) x) (db_deliveries db)"
      using new(1) by (auto simp: list_ex_iff same_key_def reply_delivery_def)
    moreover have "\<not> list_ex (\<lambda>a. av_recipient a = to \<and> av_id a = ?new) (db_avail db)"
      using new(2) by (auto simp: list_ex_iff)
    moreover have "dl_id (reply_delivery ?new s to e) = ?new" by (simp add: reply_delivery_def)
    ultimately show ?thesis
      using Some e seq by (simp add: deliver_reply_def frame insert_delivery_def make_available_def)
  qed
  then obtain x where "deliver_reply env ?new s (ix_sender task) i ?db = Inr x" by blast
  then show ?thesis
    using task by (auto simp: reply_new_def Let_def guard_err_def reply_record_def)
qed

text \<open>A publication succeeds, and settles its row and no other.\<close>

definition published_row :: "turn_row \<Rightarrow> turn_row \<Rightarrow> turn_row" where
  "published_row t u = (if tt_request u = tt_request t then set_settlement ''published'' u else u)"

lemma published_request: "tt_request (published_row t u) = tt_request u"
  by (simp add: published_row_def set_settlement_def)

lemma published_ok:
  assumes db: "sound db" and t: "t \<in> set (db_turns db)" "tt_settlement t = ''outcome_recorded''"
    and same: "db_turns db1 = db_turns db"
  shows "update_turns_checked env (\<lambda>u. tt_request u = tt_request t) (set_settlement ''published'') db1 =
    Inr (db1\<lparr>db_turns := map (published_row t) (db_turns db)\<rparr>)"
proof -
  have "turn_row_ok (set_settlement ''published'' u)" if "u \<in> set (db_turns db)" "tt_request u = tt_request t" for u
  proof -
    have "distinct (map tt_request (db_turns db))" using db by (simp add: sound_def keys_ok_def)
    with that t(1) have "u = t" by (simp add: distinct_map inj_on_def)
    moreover have "turn_row_ok t" using db t(1) by (simp add: sound_def turns_ok_def turn_ok_def)
    ultimately show ?thesis using t(2) by (simp add: turn_row_ok_def set_settlement_def)
  qed
  then have "list_all (\<lambda>u. tt_request u = tt_request t \<longrightarrow> turn_row_ok (set_settlement ''published'' u)) (db_turns db1)"
    by (simp add: list_all_iff same)
  then show ?thesis
    by (simp add: update_turns_checked_def update_turns_def same published_row_def [abs_def])
qed

lemma publish_succeeds:
  assumes db: "sound db" and fr: "fresh_env env db" and seq: "db_last db + 1 < 2 ^ 63"
    and t: "t \<in> set (db_turns db)" "tt_settlement t = ''outcome_recorded''" and commit: "me_commit env = CommitOk"
  shows "\<exists>r db1. publish_task_turn_outcome env db (binding_of_row t) =
      (Inr r, db1\<lparr>db_turns := map (published_row t) (db_turns db)\<rparr>)
    \<and> (case find_reply db (tt_request t) of
         Some q \<Rightarrow> db1 = db
       | None \<Rightarrow> \<exists>task st body. turn_outcome t = Some (st, body) \<and> find_interaction db (tt_request t) = Some task
           \<and> db1 = replied_tables env db (tt_recipient t) (tt_request t) st body task)"
proof -
  let ?b = "binding_of_row t" and ?i = "tt_request t"
  have b: "tb_request ?b = ?i" "tb_recipient ?b = tt_recipient t" by (simp_all add: binding_of_row_def)
  have st: "settlement env db ?b = Inr ''outcome_recorded''" using settlement_of_row [OF db t(1)] t(2) by simp
  have ok: "turn_ok db t" using db t(1) by (simp add: sound_def turns_ok_def)
  have ft: "find_turn db ?i = Some t"
    using db t(1) find_unique_row [of tt_request "db_turns db" t] by (simp add: find_turn_def sound_def keys_ok_def)
  have "\<exists>db1 r. publish_in_transaction env db ?b = Inr (db1\<lparr>db_turns := map (published_row t) (db_turns db)\<rparr>, r)
    \<and> (case find_reply db ?i of
         Some q \<Rightarrow> db1 = db
       | None \<Rightarrow> \<exists>task st body. turn_outcome t = Some (st, body) \<and> find_interaction db ?i = Some task
           \<and> db1 = replied_tables env db (tt_recipient t) ?i st body task)"
  proof (cases "find_reply db ?i")
    case (Some q)
    have "publish_in_transaction env db ?b = Inr (db\<lparr>db_turns := map (published_row t) (db_turns db)\<rparr>, None)"
      using Some published_ok [OF db t refl] by (simp add: publish_in_transaction_def b)
    with Some show ?thesis by auto
  next
    case None
    obtain st body where sb: "tt_status t = Some st" "tt_body t = Some body"
      using ok t(2) by (auto simp: turn_ok_def turn_row_ok_def)
    have v: "validate_message body = Inr ()" using ok sb by (simp add: turn_ok_def)
    obtain d task where d: "d \<in> set (db_deliveries db)" "accepted_under t d"
      and task: "find_interaction db ?i = Some task" "task_fits db d task"
      using turn_task [OF db t(1)] by blast
    have d2: "dl_id d = ?i" "dl_operation d = ''followup_task''" "dl_recipient d = tt_recipient t"
      using d(2) by (simp_all add: accepted_under_def)
    have tf: "ix_kind task = ITask" "ix_targets task = [tt_recipient t]" "ix_status task = IAwaitingReply"
        "ix_sender task \<noteq> None \<or> host_automation_provenance db ?i \<noteq> None"
      using task(2) d2 None by (auto simp: task_fits_def)
    have de: "\<exists>d \<in> set (db_deliveries db). dl_id d = ?i \<and> dl_operation d = ''followup_task''"
      using d(1) d2 by blast
    obtain db1 r where new: "reply_new env db (tt_recipient t) ?i st body None task = Inr (db1, r)"
      using reply_new_succeeds [OF fr seq task(1) tf(3,4) de] by (metis prod.exhaust)
    have "reply_in_transaction env db (tt_recipient t) ?i st body None = Inr (db1, r)"
      using task(1) tf de None new by (simp add: reply_in_transaction_def load_def guard_err_def list_ex_iff)
    moreover have db1: "db1 = replied_tables env db (tt_recipient t) ?i st body task"
      using reply_new_Inr [OF fr task(1) None new] by simp
    have "db_turns db1 = db_turns db" by (simp add: db1 replied_turns)
    ultimately have "publish_in_transaction env db ?b = Inr (db1\<lparr>db_turns := map (published_row t) (db_turns db)\<rparr>, Some r)"
      using None ft sb v published_ok [OF db t] by (simp add: publish_in_transaction_def b)
    with None db1 task(1) sb show ?thesis by (auto simp: turn_outcome_def)
  qed
  then show ?thesis
    using st run_committing_ok [OF commit] by (fastforce simp: publish_task_turn_outcome_def)
qed

section \<open>All of them\<close>

text \<open>Environments for a sequence of transactions: none draws an identifier twice.\<close>

definition fresh_envs :: "(nat \<Rightarrow> msg_env) \<Rightarrow> mdb \<Rightarrow> bool" where
  "fresh_envs envs db \<longleftrightarrow>
     (\<forall>n. fresh_env (envs n) db)
     \<and> (\<forall>m n i pre. m < n \<and> pre \<in> {''ask'', ''int'', ''am1''} \<longrightarrow>
          new_id (envs n) i pre \<noteq> new_id (envs m) 0 ''int'')"

lemma known_replied:
  assumes "find_interaction db i = Some task"
  shows "known (replied_tables env db s i st m task) \<subseteq> insert (new_id env 0 ''int'') (known db)"
proof -
  have "ix_id task = i" using find_interaction_SomeD [OF assms] by simp
  moreover have "i \<in> known db" using find_interaction_known [of db i] assms by simp
  ultimately have i: "ix_id task = i" "i \<in> known db" by simp_all
  let ?db = "replied_tables env db s i st m task" and ?new = "new_id env 0 ''int''"
  have d: "dl_id d = ?new" if "reply_delivery_of env db s task i = Some d" for d
    using that by (auto simp: reply_delivery_of_def reply_delivery_def split: option.splits)
  note fields = replied_tables_def answered_fields
  have "ix_id ` set (db_interactions ?db) \<subseteq> insert ?new (known db)"
    using i by (auto simp: fields reply_record_def reply_row_def completed_task_def known_def)
  moreover have "dl_id ` set (db_deliveries ?db) \<subseteq> insert ?new (known db)"
    using d by (auto simp: fields known_def split: option.splits)
  moreover have "av_id ` set (db_avail ?db) \<subseteq> insert ?new (known db)"
    by (auto simp: fields known_def reply_record_def split: option.splits)
  moreover have "sr_request ` set (db_replies ?db) \<subseteq> insert ?new (known db)"
  proof -
    have "sr_request ` set (db_replies ?db) = insert i (sr_request ` set (db_replies db))"
      by (simp add: fields reply_row_def)
    moreover have "sr_request ` set (db_replies db) \<subseteq> known db" by (auto simp: known_def)
    ultimately show ?thesis using i(2) by (simp add: subset_insertI2)
  qed
  moreover have "ho_id ` set (db_hosts ?db) \<subseteq> insert ?new (known db)"
      "tt_request ` set (db_turns ?db) \<subseteq> insert ?new (known db)"
      "cu_token ` set (db_cursors ?db) \<subseteq> insert ?new (known db)"
    by (auto simp: fields known_def)
  ultimately show ?thesis unfolding known_def [of ?db] by simp
qed

lemma fresh_envs_next:
  assumes fr: "fresh_envs envs db" and sub: "known db' \<subseteq> insert (new_id (envs 0) 0 ''int'') (known db)"
  shows "fresh_envs (\<lambda>n. envs (Suc n)) db'"
  unfolding fresh_envs_def fresh_env_def
proof (intro conjI allI impI)
  fix n m :: nat and pre assume pre: "pre \<in> {''ask'', ''int'', ''am1''}"
  have "new_id (envs (Suc n)) m pre \<noteq> new_id (envs 0) 0 ''int''"
    using fr pre unfolding fresh_envs_def by blast
  moreover have "new_id (envs (Suc n)) m pre \<notin> known db"
    using fr pre unfolding fresh_envs_def fresh_env_def by blast
  ultimately show "new_id (envs (Suc n)) m pre \<notin> known db'" using sub by blast
next
  fix m n i :: nat and pre assume "m < n \<and> pre \<in> {''ask'', ''int'', ''am1''}"
  then show "new_id (envs (Suc n)) i pre \<noteq> new_id (envs (Suc m)) 0 ''int''"
    using fr unfolding fresh_envs_def by (metis Suc_less_eq)
qed

text \<open>The reply that stands for a request: the one there was, or the recorded outcome.\<close>

definition answered_by :: "mdb \<Rightarrow> mdb \<Rightarrow> turn_row \<Rightarrow> bool" where
  "answered_by db db' t \<longleftrightarrow>
     (\<exists>q. find_reply db' (tt_request t) = Some q
        \<and> (case find_reply db (tt_request t) of
             Some old \<Rightarrow> q = old
           | None \<Rightarrow> turn_outcome t = Some (sr_status q, sr_body q)))"

lemma publish_one:
  assumes db: "sound db" and fr: "fresh_envs envs db" and seq: "db_last db + 1 < 2 ^ 63"
    and t: "t \<in> set (db_turns db)" "tt_settlement t = ''outcome_recorded''"
    and commit: "\<forall>n. me_commit (envs n) = CommitOk"
  shows "\<exists>r db'. publish_task_turn_outcome (envs 0) db (binding_of_row t) = (Inr r, db')
    \<and> sound db' \<and> fresh_envs (\<lambda>n. envs (Suc n)) db' \<and> db_last db' \<le> db_last db + 1
    \<and> db_turns db' = map (published_row t) (db_turns db) \<and> answered_by db db' t
    \<and> (\<forall>j. j \<noteq> tt_request t \<longrightarrow> find_reply db' j = find_reply db j)"
proof -
  have fr0: "fresh_env (envs 0) db" using fr by (simp add: fresh_envs_def)
  obtain r db1 where pub: "publish_task_turn_outcome (envs 0) db (binding_of_row t) =
      (Inr r, db1\<lparr>db_turns := map (published_row t) (db_turns db)\<rparr>)"
    and c: "case find_reply db (tt_request t) of
         Some q \<Rightarrow> db1 = db
       | None \<Rightarrow> \<exists>task st body. turn_outcome t = Some (st, body) \<and> find_interaction db (tt_request t) = Some task
           \<and> db1 = replied_tables (envs 0) db (tt_recipient t) (tt_request t) st body task"
    using publish_succeeds [OF db fr0 seq t] commit by blast
  let ?db = "db1\<lparr>db_turns := map (published_row t) (db_turns db)\<rparr>"
  have "exec (envs 0) (PublishOutcome (binding_of_row t)) db = (Published r, ?db)"
    using pub by (simp add: answer_by_def)
  then have snd': "sound ?db" by (rule exec_sound [OF fr0 db])
  have facts: "known db1 \<subseteq> insert (new_id (envs 0) 0 ''int'') (known db) \<and> db_last db1 \<le> db_last db + 1
    \<and> answered_by db db1 t \<and> (\<forall>j. j \<noteq> tt_request t \<longrightarrow> find_reply db1 j = find_reply db j) \<and> db_turns db1 = db_turns db"
  proof (cases "find_reply db (tt_request t)")
    case (Some q)
    with c show ?thesis by (auto simp: answered_by_def)
  next
    case None
    with c obtain task st body where o': "turn_outcome t = Some (st, body)" "find_interaction db (tt_request t) = Some task"
      and db1: "db1 = replied_tables (envs 0) db (tt_recipient t) (tt_request t) st body task"
      by auto
    have rep: "find_reply db1 j = (if j = tt_request t then Some (reply_row (envs 0) (tt_recipient t) (tt_request t) st body)
        else find_reply db j)" for j
      unfolding db1 replied_tables_def using None by (simp add: answered_reply reply_row_def)
    have "db_last db1 \<le> db_last db + 1"
      unfolding db1 replied_tables_def answered_fields by (simp split: option.splits)
    then show ?thesis
      using known_replied [OF o'(2)] rep None o'(1)
      by (auto simp: db1 answered_by_def reply_row_def replied_turns)
  qed
  have req: "tt_request ` set (map (published_row t) (db_turns db)) = tt_request ` set (db_turns db)"
    by (simp add: image_image published_request)
  have "known ?db \<subseteq> insert (new_id (envs 0) 0 ''int'') (known db)"
    using facts req by (auto simp: known_def)
  from fresh_envs_next [OF fr this] have "fresh_envs (\<lambda>n. envs (Suc n)) ?db" .
  moreover have "answered_by db ?db t" and "\<forall>j. j \<noteq> tt_request t \<longrightarrow> find_reply ?db j = find_reply db j"
    using facts by (simp_all add: answered_by_def)
  ultimately show ?thesis using pub snd' facts by (intro exI [of _ r] exI [of _ ?db]) simp
qed

lemma answered_then:
  assumes "answered_by db1 db2 t" and "\<forall>j. j \<noteq> tt_request u \<longrightarrow> find_reply db1 j = find_reply db j"
    and "tt_request t \<noteq> tt_request u"
  shows "answered_by db db2 t"
  using assms by (simp add: answered_by_def)

lemma publish_all:
  assumes "sound db" and "fresh_envs envs db" and "\<forall>n. me_commit (envs n) = CommitOk"
    and "distinct (map tt_request ts)" and "\<forall>t \<in> set ts. t \<in> set (db_turns db) \<and> tt_settlement t = ''outcome_recorded''"
    and "db_last db + int (length ts) < 2 ^ 63"
  shows "\<exists>rs db'. publish_each envs db (map binding_of_row ts) acc = (Inr rs, db') \<and> sound db'
    \<and> db_turns db' = map (\<lambda>u. if tt_request u \<in> tt_request ` set ts then set_settlement ''published'' u else u) (db_turns db)
    \<and> (\<forall>t \<in> set ts. answered_by db db' t) \<and> (\<forall>j. j \<notin> tt_request ` set ts \<longrightarrow> find_reply db' j = find_reply db j)"
  using assms
proof (induction ts arbitrary: envs db acc)
  case Nil
  then show ?case by simp
next
  case (Cons t ts)
  have t: "t \<in> set (db_turns db)" "tt_settlement t = ''outcome_recorded''" using Cons.prems(5) by simp_all
  have seq: "db_last db + 1 < 2 ^ 63" using Cons.prems(6) by simp
  obtain r db1 where pub: "publish_task_turn_outcome (envs 0) db (binding_of_row t) = (Inr r, db1)"
    and s1: "sound db1" and f1: "fresh_envs (\<lambda>n. envs (Suc n)) db1" and l1: "db_last db1 \<le> db_last db + 1"
    and t1: "db_turns db1 = map (published_row t) (db_turns db)" and a1: "answered_by db db1 t"
    and o1: "\<forall>j. j \<noteq> tt_request t \<longrightarrow> find_reply db1 j = find_reply db j"
    using publish_one [OF Cons.prems(1,2) seq t Cons.prems(3)] by blast
  have apart: "tt_request t \<notin> tt_request ` set ts" using Cons.prems(4) by simp
  have c1: "\<forall>n. me_commit (envs (Suc n)) = CommitOk" using Cons.prems(3) by simp
  have d1: "distinct (map tt_request ts)" using Cons.prems(4) by simp
  have r1: "\<forall>u \<in> set ts. u \<in> set (db_turns db1) \<and> tt_settlement u = ''outcome_recorded''"
  proof
    fix u assume u: "u \<in> set ts"
    then have "tt_request u \<noteq> tt_request t" using apart by (metis imageI)
    then have "published_row t u = u" by (simp add: published_row_def)
    moreover have "u \<in> set (db_turns db)" "tt_settlement u = ''outcome_recorded''" using u Cons.prems(5) by simp_all
    ultimately show "u \<in> set (db_turns db1) \<and> tt_settlement u = ''outcome_recorded''"
      unfolding t1 by (metis image_eqI set_map)
  qed
  have e1: "db_last db1 + int (length ts) < 2 ^ 63" using Cons.prems(6) l1 by simp
  obtain acc' where each: "publish_each envs db (map binding_of_row (t # ts)) acc =
      publish_each (\<lambda>n. envs (Suc n)) db1 (map binding_of_row ts) acc'"
    using pub by (cases r) auto
  obtain rs db' where ih: "publish_each (\<lambda>n. envs (Suc n)) db1 (map binding_of_row ts) acc' = (Inr rs, db')" "sound db'"
    and t2: "db_turns db' = map (\<lambda>u. if tt_request u \<in> tt_request ` set ts then set_settlement ''published'' u else u) (db_turns db1)"
    and a2: "\<forall>t \<in> set ts. answered_by db1 db' t"
    and o2: "\<forall>j. j \<notin> tt_request ` set ts \<longrightarrow> find_reply db' j = find_reply db1 j"
    using Cons.IH [OF s1 f1 c1 d1 r1 e1] by blast
  have "db_turns db' = map (\<lambda>u. if tt_request u \<in> tt_request ` set (t # ts) then set_settlement ''published'' u else u) (db_turns db)"
    unfolding t2 t1 by (auto simp: published_row_def set_settlement_def)
  moreover have "answered_by db db' u" if u: "u \<in> set (t # ts)" for u
  proof (cases "u = t")
    case True
    then show ?thesis using a1 o2 apart by (simp add: answered_by_def)
  next
    case False
    with u have u2: "u \<in> set ts" by simp
    then have "tt_request u \<noteq> tt_request t" using apart by (metis imageI)
    then show ?thesis using answered_then [OF _ o1] a2 u2 by blast
  qed
  moreover have "\<forall>j. j \<notin> tt_request ` set (t # ts) \<longrightarrow> find_reply db' j = find_reply db j" using o1 o2 by simp
  ultimately show ?case using each ih by (intro exI [of _ rs] exI [of _ db']) simp
qed

text \<open>
  C13. Recovery publishes every outcome that was recorded. From any sound store, as long as the commits
  succeed and the sequence of the table does not run out, recovery returns; afterwards no row is left
  with a recorded outcome that is not published, exactly those rows have changed, and each
  of their tasks has a reply: the explicit reply if there was one, and otherwise the
  status and the text of the recorded outcome. No provider is involved.
\<close>

theorem recovery_publishes_all:
  assumes db: "sound db" and fr: "fresh_envs envs db" and commit: "\<forall>n. me_commit (envs n) = CommitOk"
    and room: "db_last db + int (length (db_turns db)) < 2 ^ 63"
  shows "\<exists>rs db'. recover_task_turn_outcomes envs db = (Inr rs, db') \<and> bindings_in_state db' ''outcome_recorded'' = []
    \<and> db_turns db' = map (\<lambda>t. if tt_settlement t = ''outcome_recorded'' then set_settlement ''published'' t else t) (db_turns db)
    \<and> (\<forall>t \<in> set (db_turns db). tt_settlement t = ''outcome_recorded'' \<longrightarrow> answered_by db db' t)"
proof -
  let ?P = "\<lambda>t. tt_settlement t = ''outcome_recorded''"
  let ?ts = "sort_key tt_request (filter ?P (db_turns db))"
  have dist: "distinct (map tt_request (db_turns db))" using db by (simp add: sound_def keys_ok_def)
  then have "distinct (map tt_request (filter ?P (db_turns db)))" by (simp add: distinct_map_filter)
  then have d: "distinct (map tt_request ?ts)" by (simp add: distinct_map)
  have mem: "\<forall>t \<in> set ?ts. t \<in> set (db_turns db) \<and> ?P t" by simp
  have "length ?ts \<le> length (db_turns db)" by (simp add: length_filter_le)
  then have "int (length ?ts) \<le> int (length (db_turns db))" by (simp only: of_nat_le_iff)
  with room have l: "db_last db + int (length ?ts) < 2 ^ 63" by linarith
  obtain rs db' where r: "publish_each envs db (map binding_of_row ?ts) [] = (Inr rs, db')"
    and t: "db_turns db' = map (\<lambda>u. if tt_request u \<in> tt_request ` set ?ts then set_settlement ''published'' u else u) (db_turns db)"
    and a: "\<forall>t \<in> set ?ts. answered_by db db' t"
    using publish_all [OF db fr commit d mem l] by blast
  have in_ts: "tt_request u \<in> tt_request ` set ?ts \<longleftrightarrow> ?P u" if "u \<in> set (db_turns db)" for u
    using that dist by (auto simp: distinct_map inj_on_def)
  have t': "db_turns db' = map (\<lambda>t. if ?P t then set_settlement ''published'' t else t) (db_turns db)"
    unfolding t by (rule map_cong [OF refl]) (simp only: in_ts)
  have "filter ?P (db_turns db') = []" unfolding t' by (auto simp: filter_empty_conv set_settlement_def)
  then have "bindings_in_state db' ''outcome_recorded'' = []" by (simp add: bindings_in_state_def)
  moreover have "recover_task_turn_outcomes envs db = (Inr rs, db')"
    using r by (simp add: recover_task_turn_outcomes_def bindings_in_state_def)
  ultimately show ?thesis using t' a by auto
qed

end
