(* ===== verification/Messaging_Deletion.thy ===== *)
theory Messaging_Deletion
  imports Messaging_Promises
begin

text \<open>
  What the deletion of an agent removes from the tables of messaging: the loop that collects
  identifiers computes the interactions that concern the agent, a closure under answers.
\<close>

text \<open>
  An interaction concerns an agent when the agent sent it or is a target of it, and when its
  parent concerns the agent.
\<close>

inductive concerns :: "interaction list \<Rightarrow> string \<Rightarrow> string \<Rightarrow> bool" for cs s where
  concerns_own: "r \<in> set cs \<Longrightarrow> ix_sender r = Some s \<or> s \<in> set (ix_targets r) \<Longrightarrow> concerns cs s (ix_id r)"
| concerns_answer: "r \<in> set cs \<Longrightarrow> ix_parent r = Some p \<Longrightarrow> concerns cs s p \<Longrightarrow> concerns cs s (ix_id r)"

lemma descendants_concern:
  assumes "\<forall>i \<in> set ids. concerns cs s i"
  shows "\<forall>i \<in> set (with_descendants cs ids). concerns cs s i"
  using assms
proof (induction cs ids rule: with_descendants.induct)
  case (1 cs ids)
  show ?case
  proof (cases "descendants cs ids = []")
    case True
    then show ?thesis using 1 by (simp add: with_descendants.simps)
  next
    case False
    have "\<forall>i \<in> set (descendants cs ids). concerns cs s i"
      using 1(2) by (auto simp: descendants_def intro: concerns_answer split: option.splits)
    with 1 False show ?thesis by (subst with_descendants.simps) auto
  qed
qed

lemma agent_interactions_exact: "i \<in> set (agent_interactions db s) \<longleftrightarrow> concerns (db_interactions db) s i"
proof
  let ?own = "map ix_id (filter (\<lambda>r. ix_sender r = Some s \<or> s \<in> set (ix_targets r)) (db_interactions db))"
  have "\<forall>i \<in> set ?own. concerns (db_interactions db) s i" by (auto intro: concerns_own)
  then show "concerns (db_interactions db) s i" if "i \<in> set (agent_interactions db s)"
    using that descendants_concern unfolding agent_interactions_def by blast
next
  assume "concerns (db_interactions db) s i"
  then show "i \<in> set (agent_interactions db s)"
  proof (induction rule: concerns.induct)
    case (concerns_own r)
    then show ?case by (rule agent_interactions_own)
  next
    case (concerns_answer r p)
    then show ?case using agent_interactions_closed by blast
  qed
qed

definition without_agent :: "string \<Rightarrow> mdb \<Rightarrow> mdb" where
  "without_agent s db =
     (let gone = concerns (db_interactions db) s;
          theirs = (\<lambda>i. list_ex (\<lambda>d. dl_id d = i \<and> (dl_sender d = s \<or> dl_recipient d = s)) (db_deliveries db))
      in db\<lparr>db_interactions := filter (\<lambda>r. \<not> gone (ix_id r)) (db_interactions db),
           db_deliveries := filter (\<lambda>d. \<not> gone (dl_id d) \<and> dl_recipient d \<noteq> s \<and> dl_sender d \<noteq> s)
             (db_deliveries db),
           db_avail := filter (\<lambda>a. \<not> gone (av_id a) \<and> av_recipient a \<noteq> s) (db_avail db),
           db_cursors := filter (\<lambda>c. cu_recipient c \<noteq> s) (db_cursors db),
           db_hosts := filter (\<lambda>h. \<not> gone (ho_id h)) (db_hosts db),
           db_acks := filter (\<lambda>a. fst a \<noteq> s) (db_acks db),
           db_replies := filter (\<lambda>r. \<not> gone (sr_request r) \<and> sr_target r \<noteq> s) (db_replies db),
           db_turns := filter (\<lambda>t. \<not> gone (tt_request t) \<and> tt_recipient t \<noteq> s \<and> \<not> theirs (tt_request t))
             (db_turns db)\<rparr>)"

lemma erased_without: "erased_tables s db = without_agent s db"
  by (simp only: erased_tables_def without_agent_def Let_def agent_interactions_exact)

text \<open>
  C30. Deleting an agent removes exactly what concerns it, in one transaction. The interactions that
  go are those the agent sent or received and, transitively, the answers to these; with them go their
  deliveries, availability, provenance, replies and turns, and every delivery,
  availability, reply, turn, cursor and acknowledgement of the agent itself. Everything else stays
  as it was and in its order, the sequence of the availability is not taken back, and when the commit
  fails nothing changes.
\<close>

theorem deletion_exact:
  "exec env (DeleteAgent s) db =
     (case me_commit env of
        CommitOk \<Rightarrow> (Finished, without_agent s db)
      | CommitFails \<Rightarrow> (Failed (storage_error env), db)
      | CommitLost \<Rightarrow> (Failed (storage_error env), without_agent s db))"
  unfolding exec.simps delete_agent_def Let_def delete_agent_tables erased_without
  by (simp add: run_tx_def answer_by_def split: commit_outcome.split)

end
