(* ===== verification/Messaging_Examples.thy ===== *)
theory Messaging_Examples
  imports Messaging_Replay Messaging_Recovery Messaging_Deletion
begin

text \<open>
  A run of the store of agent messages on concrete values: a task is admitted, claimed, bound
  to a turn of its provider, answered through the outbox, and the answer is published; and the
  witnesses of the properties of the theories of messaging.
\<close>

section \<open>A run\<close>

definition ex_env :: "char \<Rightarrow> commit_outcome \<Rightarrow> msg_env" where
  "ex_env c k =
     \<lparr>me_uuid = (\<lambda>n. c # replicate n (CHR ''x'')), me_now = ''now'', me_sha = id,
      me_pair = (\<lambda>a b. a @ ''|'' @ b), me_len = (\<lambda>m. length (am_message m) + 200),
      me_commit = k, me_failure = ''disk''\<rparr>"

definition ex_task :: admission where
  "ex_task = \<lparr>aq_sender = ''a'', aq_recipient = ''b'', aq_message = ''do'', aq_key = Some ''k'', aq_task = True,
     aq_generation = 1\<rparr>"

definition ex_ask :: interaction where
  "ex_ask = \<lparr>ix_id = ''ask_1'', ix_kind = ITask, ix_sender = Some ''a'', ix_targets = [''b''],
     ix_status = IAwaitingReply, ix_policy = ReplyRequired, ix_body = InlineBody ''do'', ix_parent = None,
     ix_created = ''now'', ix_updated = ''now'', ix_completed = None\<rparr>"

definition ex_row :: "string \<Rightarrow> string option \<Rightarrow> delivery" where
  "ex_row owner claim = \<lparr>dl_id = ''ask_1'', dl_sender = ''a'', dl_recipient = ''b'',
     dl_operation = ''followup_task'', dl_key = Some ''k'', dl_fingerprint = ''b|do'', dl_owner = owner,
     dl_generation = 1, dl_claim = claim, dl_req_provider = None, dl_req_conversation = None,
     dl_req_generation = None, dl_cont = None, dl_wake = None, dl_rcp_provider = None,
     dl_rcp_conversation = None, dl_rcp_generation = None\<rparr>"

definition ex_db :: "string \<Rightarrow> string option \<Rightarrow> turn_row list \<Rightarrow> mdb" where
  "ex_db owner claim ts = \<lparr>db_interactions = [ex_ask], db_deliveries = [ex_row owner claim],
     db_avail = [\<lparr>av_seq = 1, av_recipient = ''b'', av_id = ''ask_1''\<rparr>], db_last = 1, db_cursors = [],
     db_hosts = [], db_acks = [], db_replies = [], db_turns = ts\<rparr>"

definition ex_claim :: task_claim where
  "ex_claim = \<lparr>tc_record = ex_ask, tc_token = ''claim_2'', tc_generation = 1\<rparr>"

definition ex_binding :: turn_binding where
  "ex_binding = \<lparr>tb_request = ''ask_1'', tb_claim = ''claim_2'', tb_recipient = ''b'', tb_generation = 1,
     tb_provider = ''codex'', tb_session = ''s'', tb_turn = ''t'', tb_mode = ''start''\<rparr>"

definition ex_turn :: "string \<Rightarrow> reply_status option \<Rightarrow> string option \<Rightarrow> turn_row" where
  "ex_turn s st b = \<lparr>tt_request = ''ask_1'', tt_claim = ''claim_2'', tt_recipient = ''b'', tt_generation = 1,
     tt_provider = ''codex'', tt_session = ''s'', tt_turn = ''t'', tt_mode = ''start'', tt_settlement = s,
     tt_status = st, tt_body = b\<rparr>"

lemmas ex_defs = ex_task_def ex_ask_def ex_row_def ex_db_def ex_claim_def ex_binding_def ex_turn_def
  empty_mdb_def


lemma ex_trim: "trim ''do'' = ''do''" "trim ''ok'' = ''ok''" "trim ''s'' = ''s''" "trim ''t'' = ''t''"
  by (rule trim_id; simp add: leading_word_def ws_words_def)+

lemma ex_valid: "validate_message ''do'' = Inr ()" "validate_message ''ok'' = Inr ()"
  by (simp_all add: validate_message_def ex_trim max_message_bytes_def)

lemma ex_new_id: "new_id (ex_env c k) n pre = pre @ ''_'' @ c # replicate n (CHR ''x'')"
  by (simp add: new_id_def ex_env_def)

lemma ex_sql: "sql_u64 env 1 = Inr 1"
  by (simp add: sql_u64_def)

lemma ex_fields [simp]:
  "me_now (ex_env c k) = ''now''" "me_commit (ex_env c k) = k" "me_sha (ex_env c k) x = x"
  "me_pair (ex_env c k) x y = x @ ''|'' @ y" "me_len (ex_env c k) m = length (am_message m) + 200"
  by (simp_all add: ex_env_def)

lemma ex_fresh: "fresh_env (ex_env c k) empty_mdb"
  by (simp add: fresh_env_def known_def empty_mdb_def)

lemma ex_fresh_db: "c \<noteq> CHR ''1'' \<Longrightarrow> tt \<in> {[], [ex_turn s st b]} \<Longrightarrow> fresh_env (ex_env c k) (ex_db w cl tt)"
  by (auto simp: fresh_env_def known_def ex_new_id ex_defs)

lemma ex_admit:
  "exec (ex_env (CHR ''1'') CommitOk) (AdmitMessage ex_task) empty_mdb =
     (Admitted \<lparr>ad_record = ex_ask, ad_owner = Unclaimed, ad_duplicate = False, ad_state = ''pending''\<rparr>,
      ex_db ''pending'' None [])"
  by (simp add: answer_by_def admit_def admit_with_metadata_def run_tx_def admission_checks_def ex_valid
      guard_err_def opt_check_def find_keyed_def operation_of_def committing_def admit_new_def Let_def
      new_interaction_def new_delivery_def owner_on_admission_def ex_sql insert_delivery_def
      upsert_interaction_def find_interaction_def make_available_def delivery_owner_of_def fingerprint_def
      ex_new_id ex_defs)

lemma ex_claimed:
  "exec (ex_env (CHR ''2'') CommitOk) (ClaimTask ''b'' 1) (ex_db ''pending'' None []) =
     (Claimed (Some ex_claim), ex_db ''dispatching'' (Some ''claim_2'') [])"
  by (simp add: answer_by_def claim_next_task_def run_tx_def next_pending_task_id_def joined_def
      find_delivery_def find_interaction_def claim_rows_def ex_new_id ex_sql update_deliveries_def
      dispatch_to_def load_def Let_def ex_defs)

lemma ex_bound:
  "exec (ex_env (CHR ''3'') CommitOk) (BindTurn ex_claim ''codex'' ''s'' ''t'' ''start'')
       (ex_db ''dispatching'' (Some ''claim_2'') []) =
     (Bound ex_binding, ex_db ''provider_accepted'' (Some ''claim_2'') [ex_turn ''bound'' None None])"
  by (simp add: answer_by_def bind_task_turn_def ex_trim run_tx_def committing_def bind_in_transaction_def
      owns_claim_def ex_sql holds_claim_def guard_err_def load_def find_interaction_def task_recipient_def
      row_of_binding_def insert_turn_def turn_row_ok_def finish_claim_rows_def scheduler_states_def
      update_deliveries_def settle_delivery_def ex_defs)

lemma ex_recorded:
  "exec (ex_env (CHR ''4'') CommitOk) (RecordOutcome ex_binding RDone ''ok'')
       (ex_db ''provider_accepted'' (Some ''claim_2'') [ex_turn ''bound'' None None]) =
     (Finished, ex_db ''provider_accepted'' (Some ''claim_2'')
       [ex_turn ''outcome_recorded'' (Some RDone) (Some ''ok'')])"
  by (simp add: answer_by_def record_task_turn_outcome_def ex_valid run_tx_def committing_def
      record_in_transaction_def settlement_def ex_sql row_matches_def accepted_under_def load_def
      find_interaction_def update_turns_checked_def record_outcome_def turn_row_ok_def update_turns_def
      max_message_bytes_def ex_defs)

lemma ex_sound: "sound empty_mdb"
  by (simp add: sound_def sound_parts empty_mdb_def)

lemma ex_sound_db:
  "sound (ex_db ''pending'' None [])" "sound (ex_db ''dispatching'' (Some ''claim_2'') [])"
  "sound (ex_db ''provider_accepted'' (Some ''claim_2'') [ex_turn ''bound'' None None])"
proof -
  show 1: "sound (ex_db ''pending'' None [])" by (rule exec_sound [OF ex_fresh ex_sound ex_admit])
  show 2: "sound (ex_db ''dispatching'' (Some ''claim_2'') [])"
    by (rule exec_sound [OF ex_fresh_db 1 ex_claimed]) simp_all
  show "sound (ex_db ''provider_accepted'' (Some ''claim_2'') [ex_turn ''bound'' None None])"
    by (rule exec_sound [OF ex_fresh_db 2 ex_bound]) simp_all
qed

lemma ex_replied:
  obtains x db1 where "exec (ex_env (CHR ''2'') CommitOk) (Reply ''b'' ''ask_1'' RDone ''ok'')
    (ex_db ''pending'' None []) = (Replied x, db1)"
proof
  show "exec (ex_env (CHR ''2'') CommitOk) (Reply ''b'' ''ask_1'' RDone ''ok'') (ex_db ''pending'' None []) =
      (Replied (projr (fst (reply (ex_env (CHR ''2'') CommitOk) (ex_db ''pending'' None []) ''b'' ''ask_1''
          RDone ''ok''))),
       snd (exec (ex_env (CHR ''2'') CommitOk) (Reply ''b'' ''ask_1'' RDone ''ok'') (ex_db ''pending'' None [])))"
    by (simp add: answer_by_def reply_def reply_with_claim_def ex_valid run_tx_def committing_def
      reply_in_transaction_def guard_err_def load_def find_interaction_def find_reply_def reply_new_def
      Let_def completed_task_def reply_record_def deliver_reply_def reply_delivery_def insert_delivery_def
      make_available_def upsert_interaction_def upsert_reply_def ex_new_id same_key_def ex_defs)
qed

lemma ex_released:
  "exec (ex_env (CHR ''3'') CommitOk) (ReleaseClaim ex_claim) (ex_db ''dispatching'' (Some ''claim_2'') []) =
     (Finished, ex_db ''pending'' None [])"
  by (simp add: answer_by_def release_before_write_def run_tx_def committing_def release_rows_def ex_sql
      update_deliveries_def holds_claim_def reopen_delivery_def ex_defs)

lemmas ex_receive = answer_by_def receive_def max_receive_items_def run_tx_def committing_def
  receive_in_transaction_def acknowledged_def cursor_sequence_def receive_rows_def receivable_def find_delivery_def
  find_interaction_def issue_cursor_def Let_def message_at_def load_def reply_status_of_def
  host_automation_provenance_def claim_for_receiver_def update_deliveries_def max_receive_body_bytes_def
  max_receive_serialized_bytes_def ex_new_id ex_defs

lemma ex_received:
  "exec (ex_env (CHR ''4'') CommitOk) (Receive ''b'' None None 5)
       (ex_db ''provider_accepted'' (Some ''claim_2'') [ex_turn ''bound'' None None]) =
     (Page \<lparr>pg_messages = [], pg_next = ''am1_4'', pg_ack = ''am1_4'', pg_more = False, pg_timed_out = False,
        pg_wake = None\<rparr>,
      (ex_db ''provider_accepted'' (Some ''claim_2'') [ex_turn ''bound'' None None])
        \<lparr>db_cursors := [\<lparr>cu_token = ''am1_4'', cu_recipient = ''b'', cu_seq = 0\<rparr>]\<rparr>)"
  by (simp add: ex_receive)

lemma ex_published:
  "\<exists>r db3. exec (ex_env (CHR ''5'') CommitOk) (PublishOutcome ex_binding)
       (ex_db ''provider_accepted'' (Some ''claim_2'') [ex_turn ''outcome_recorded'' (Some RDone) (Some ''ok'')]) =
     (Published (Some r), db3)"
  by (simp add: answer_by_def publish_task_turn_outcome_def run_tx_def committing_def settlement_def ex_sql
      row_matches_def accepted_under_def load_def find_interaction_def publish_in_transaction_def find_reply_def
      find_turn_def ex_valid reply_in_transaction_def guard_err_def reply_new_def Let_def completed_task_def
      reply_record_def deliver_reply_def reply_delivery_def insert_delivery_def make_available_def
      upsert_interaction_def upsert_reply_def ex_new_id same_key_def update_turns_checked_def
      set_settlement_def turn_row_ok_def max_message_bytes_def ex_defs)

section \<open>Witnesses\<close>


theorem operations_refine_ownership_witness:
  "\<exists>ls. (\<forall>i. own_run i ls (phase (ex_db ''pending'' None []) i) =
      Some (phase (ex_db ''dispatching'' (Some ''claim_2'') []) i))
    \<and> in_labels (Claimed (Some ex_claim)) ls \<and> list_all (may_have (ClaimTask ''b'' 1)) ls"
  by (rule operations_refine_ownership [OF ex_sound_db(1) ex_fresh_db ex_claimed]) simp_all

theorem one_owner_exposes_witness:
  "\<exists>e \<in> set [(ReleaseClaim ex_claim, Finished)]. releases ''ask_1'' e"
proof -
  have "op_run (ex_db ''pending'' None []) ([] @ (ClaimTask ''b'' 1, Claimed (Some ex_claim)) #
      [(ReleaseClaim ex_claim, Finished)] @ (ClaimTask ''b'' 1, Claimed (Some ex_claim)) # [])
      (ex_db ''dispatching'' (Some ''claim_2'') [])"
    by (auto intro!: op_run_nil op_run_step [OF ex_fresh_db ex_claimed] op_run_step [OF ex_fresh_db ex_released])
  from one_owner_exposes [OF this ex_sound_db(1), of "''ask_1''"] show ?thesis
    by (simp add: no_deletes_def ex_claim_def ex_ask_def)
qed

theorem settled_claim_is_final_witness:
  "\<exists>p db2. exec (ex_env (CHR ''4'') CommitOk) (Receive ''b'' None None 5)
      (ex_db ''provider_accepted'' (Some ''claim_2'') [ex_turn ''bound'' None None]) = (Page p, db2)
    \<and> ''ask_1'' \<notin> shown (Page p) \<union> claimed (Page p)"
proof -
  have fr: "fresh_env (ex_env (CHR ''3'') CommitOk) (ex_db ''dispatching'' (Some ''claim_2'') [])"
    by (rule ex_fresh_db) simp_all
  have fr4: "fresh_env (ex_env (CHR ''4'') CommitOk)
      (ex_db ''provider_accepted'' (Some ''claim_2'') [ex_turn ''bound'' None None])"
    by (rule ex_fresh_db) simp_all
  have del: "no_deletes []" by (simp add: no_deletes_def)
  have i: "ix_id (tc_record ex_claim) = ''ask_1''" by (simp add: ex_claim_def ex_ask_def)
  show ?thesis
    using settled_claim_is_final [OF ex_sound_db(2) fr disjI2 [OF ex_bound],
        where es = "[]", unfolded append_Nil, OF op_run_step [OF fr4 ex_received op_run_nil] del] ex_received
    unfolding i by blast
qed

theorem reply_settles_once_witness:
  "\<exists>x db1. exec (ex_env (CHR ''2'') CommitOk) (Reply ''b'' ''ask_1'' RDone ''ok'') (ex_db ''pending'' None []) =
       (Replied x, db1)
     \<and> (\<exists>y. exec (ex_env (CHR ''3'') CommitOk) (Reply ''b'' ''ask_1'' RDone ''ok'') db1 = (Replied y, db1)
          \<and> ix_id (rp_record y) = ix_id (rp_record x))
     \<and> exec (ex_env (CHR ''3'') CommitOk) (Reply ''b'' ''ask_1'' RFailed ''ok'') db1 =
         (Failed conflicting_reply, db1)
     \<and> exec (ex_env (CHR ''3'') CommitOk) (Reply ''a'' ''ask_1'' RDone ''ok'') db1 =
         (Failed unauthorized_reply, db1)"
proof -
  obtain x db1 where f: "exec (ex_env (CHR ''2'') CommitOk) (Reply ''b'' ''ask_1'' RDone ''ok'')
      (ex_db ''pending'' None []) = (Replied x, db1)"
    by (rule ex_replied)
  have fr: "fresh_env (ex_env (CHR ''2'') CommitOk) (ex_db ''pending'' None [])" by (rule ex_fresh_db) simp_all
  have del: "no_deletes []" by (simp add: no_deletes_def)
  show ?thesis
    using reply_settles_once [OF ex_sound_db(1) fr f op_run_nil del, of "ex_env (CHR ''3'') CommitOk"] f
    by (fastforce simp: ex_valid)
qed


theorem lost_receipt_is_recovered_witness:
  "(\<exists>a db1. admit_host_automation_message (ex_env (CHR ''1'') CommitLost) True empty_mdb ''s'' ''t'' ''b'' ''do'' 1 =
        (Inr a, db1)
      \<and> (\<exists>b. admit_host_automation_message (ex_env (CHR ''2'') CommitOk) True db1 ''s'' ''t'' ''b'' ''do'' 1 =
           (Inr b, db1) \<and> ix_id (ad_record b) = ix_id (ad_record a)))
   \<and> admit_host_automation_message (ex_env (CHR ''1'') CommitFails) True empty_mdb ''s'' ''t'' ''b'' ''do'' 1 =
       (Inl (MsgErr ''storage_error'' ''disk''), empty_mdb)"
proof -
  have ok: "\<not> bad_provenance ''s'' ''t''" by (simp add: bad_provenance_def ex_trim)
  have g: "unat (1 :: u64) < 2 ^ 63" by simp
  have seq: "db_last empty_mdb + 1 < 2 ^ 63" by (simp add: empty_mdb_def)
  have h: "me_sha (ex_env (CHR ''1'') k) ''t'' \<noteq> []" "length (me_sha (ex_env (CHR ''1'') k) ''t'') \<le> 64" for k
    by simp_all
  have new: "find_keyed empty_mdb s p q = None" for s p q by (simp add: find_keyed_def empty_mdb_def)
  have lib: "me_sha (ex_env (CHR ''2'') CommitOk) = me_sha (ex_env c k)"
      "me_pair (ex_env (CHR ''2'') CommitOk) = me_pair (ex_env c k)" for c k
    by (simp_all add: ex_env_def)
  note l = lost_receipt_is_recovered [OF ex_sound ex_fresh ok ex_valid(1) g seq h new lib, of CommitLost]
  note f = lost_receipt_is_recovered [OF ex_sound ex_fresh ok ex_valid(1) g seq h new lib, of CommitFails]
  have "storage_error (ex_env c k) = MsgErr ''storage_error'' ''disk''" for c k
    by (simp add: storage_error_def ex_env_def)
  then show ?thesis using l f by simp blast
qed

theorem stale_claim_changes_nothing_witness:
  "(\<exists>m. exec (ex_env (CHR ''2'') CommitOk) (FinishClaim ex_claim ''uncertain'') (ex_db ''pending'' None []) =
       (Failed (MsgErr ''stale_claim'' m), ex_db ''pending'' None []))
   \<and> (\<exists>m. exec (ex_env (CHR ''2'') CommitOk) (ReleaseClaim ex_claim) (ex_db ''pending'' None []) =
       (Failed (MsgErr ''stale_claim'' m), ex_db ''pending'' None []))
   \<and> (\<exists>m. exec (ex_env (CHR ''2'') CommitOk) (BindTurn ex_claim ''codex'' ''s'' ''t'' ''start'') (ex_db ''pending'' None []) =
       (Failed (MsgErr ''stale_claim'' m), ex_db ''pending'' None []))
   \<and> (\<exists>m. exec (ex_env (CHR ''2'') CommitOk) (StartupFailure ex_claim) (ex_db ''pending'' None []) =
       (Failed (MsgErr ''stale_claim'' m), ex_db ''pending'' None []))"
proof -
  note stale = stale_claim_changes_nothing [of ex_claim "ex_db ''pending'' None []" "ex_env (CHR ''2'') CommitOk"]
  have t: "ix_targets (tc_record ex_claim) \<noteq> []" by (simp add: ex_claim_def ex_ask_def)
  have u: "''uncertain'' \<in> set scheduler_states" by (simp add: scheduler_states_def)
  have s: "trim ''s'' \<noteq> [] \<and> trim ''t'' \<noteq> [] \<and> ''start'' \<in> {''start'', ''steer''}" by (simp add: ex_trim)
  show ?thesis
    using stale t u s by (simp add: ex_db_def ex_row_def ex_claim_def)
qed

theorem first_outcome_wins_witness:
  "(\<exists>e. exec (ex_env (CHR ''5'') CommitOk) (RecordOutcome ex_binding RFailed ''ok'')
       (ex_db ''provider_accepted'' (Some ''claim_2'') [ex_turn ''outcome_recorded'' (Some RDone) (Some ''ok'')]) =
     (Failed e, ex_db ''provider_accepted'' (Some ''claim_2'')
       [ex_turn ''outcome_recorded'' (Some RDone) (Some ''ok'')]))
   \<and> (\<exists>r db3. exec (ex_env (CHR ''5'') CommitOk) (PublishOutcome ex_binding)
        (ex_db ''provider_accepted'' (Some ''claim_2'') [ex_turn ''outcome_recorded'' (Some RDone) (Some ''ok'')]) =
      (Published (Some r), db3) \<and> sr_status (rp_reply r) = RDone)"
proof -
  have fr: "fresh_env (ex_env (CHR ''4'') CommitOk)
      (ex_db ''provider_accepted'' (Some ''claim_2'') [ex_turn ''bound'' None None])"
    and fr2: "fresh_env (ex_env (CHR ''5'') CommitOk) (ex_db ''provider_accepted'' (Some ''claim_2'')
       [ex_turn ''outcome_recorded'' (Some RDone) (Some ''ok'')])"
    by (rule ex_fresh_db; simp)+
  have del: "no_deletes []" by (simp add: no_deletes_def)
  note w = first_outcome_wins [OF ex_sound_db(3) fr ex_recorded op_run_nil del fr2 refl]
  show ?thesis using w ex_published by blast
qed

section \<open>Pages and recovery\<close>

definition ex_token :: string where
  "ex_token = ''am1_00000000000000000000000000000000''"

definition ex_asked :: mdb where
  "ex_asked = (ex_db ''pending'' None [])\<lparr>db_cursors := [\<lparr>cu_token = ex_token, cu_recipient = ''b'', cu_seq = 0\<rparr>]\<rparr>"

definition ex_message :: agent_message where
  "ex_message = \<lparr>am_id = ''ask_1'', am_kind = ITask, am_sender = ''a'', am_host = None, am_message = ''do'',
     am_parent = None, am_reply = None, am_created = ''now''\<rparr>"

lemma ex_sound_asked: "sound ex_asked"
proof -
  have "event (ex_db ''pending'' None []) Quiet ((ex_db ''pending'' None [])\<lparr>db_cursors :=
      db_cursors (ex_db ''pending'' None []) @ [\<lparr>cu_token = ex_token, cu_recipient = ''b'', cu_seq = 0\<rparr>]\<rparr>)"
    by (rule ev_cursor) (simp_all add: ex_db_def)
  moreover have "db_cursors (ex_db ''pending'' None []) = []" by (simp add: ex_db_def)
  ultimately show ?thesis using event_keeps_sound ex_sound_db(1) by (fastforce simp: ex_asked_def)
qed

lemma ex_fresh_asked: "c \<noteq> CHR ''1'' \<Longrightarrow> c \<noteq> CHR ''0'' \<Longrightarrow> fresh_env (ex_env c k) ex_asked"
  by (auto simp: fresh_env_def known_def ex_new_id ex_asked_def ex_token_def ex_defs)

definition ex_shown :: mdb where
  "ex_shown = (ex_db ''receiver_available'' (Some ''claim_2'') [])
     \<lparr>db_cursors := [\<lparr>cu_token = ex_token, cu_recipient = ''b'', cu_seq = 0\<rparr>,
        \<lparr>cu_token = ''am1_2x'', cu_recipient = ''b'', cu_seq = 1\<rparr>]\<rparr>"

lemma ex_page:
  "exec (ex_env (CHR ''2'') CommitOk) (Receive ''b'' (Some ex_token) None 5) ex_asked =
     (Page \<lparr>pg_messages = [ex_message], pg_next = ''am1_2x'', pg_ack = ''am1_2x'', pg_more = False,
        pg_timed_out = False, pg_wake = None\<rparr>, ex_shown)"
  by (simp add: ex_receive ex_asked_def ex_shown_def ex_token_def ex_message_def)

lemma ex_fresh_shown: "fresh_env (ex_env (CHR ''3'') k) ex_shown"
  by (auto simp: fresh_env_def known_def ex_new_id ex_shown_def ex_token_def ex_defs)

definition ex_envs :: "nat \<Rightarrow> msg_env" where
  "ex_envs n = (ex_env (CHR ''5'') CommitOk)
     \<lparr>me_uuid := (\<lambda>i. replicate n (CHR ''y'') @ CHR ''z'' # replicate i (CHR ''x''))\<rparr>"

lemma replicate_until: "c \<noteq> d \<Longrightarrow> replicate n c @ d # xs = replicate m c @ d # ys \<Longrightarrow> n = m"
proof (induction n arbitrary: m)
  case 0
  then show ?case by (cases m) auto
next
  case (Suc n)
  then show ?case by (cases m) auto
qed

lemma ex_fresh_envs:
  "fresh_envs ex_envs (ex_db ''provider_accepted'' (Some ''claim_2'') [ex_turn ''outcome_recorded'' (Some RDone) (Some ''ok'')])"
proof -
  have id: "new_id (ex_envs n) i pre = pre @ ''_'' @ replicate n (CHR ''y'') @ CHR ''z'' # replicate i (CHR ''x'')" for n i pre
    by (simp add: new_id_def ex_envs_def)
  have "replicate n (CHR ''y'') @ CHR ''z'' # xs \<noteq> ''1''" for n xs by (cases n) auto
  moreover have "n = m" if "replicate n (CHR ''y'') @ CHR ''z'' # xs = replicate m (CHR ''y'') @ ''z''" for n m xs
    using replicate_until [of "CHR ''y''" "CHR ''z''" n xs m "[]"] that by simp
  ultimately show ?thesis
    by (fastforce simp: fresh_envs_def fresh_env_def known_def id ex_defs)
qed

lemma ex_sound_recorded:
  "sound (ex_db ''provider_accepted'' (Some ''claim_2'') [ex_turn ''outcome_recorded'' (Some RDone) (Some ''ok'')])"
  by (rule exec_sound [OF ex_fresh_db ex_sound_db(3) ex_recorded]) simp_all

theorem receive_page_exact_witness:
  "\<exists>p db1 k ms. exec (ex_env (CHR ''2'') CommitOk) (Receive ''b'' (Some ex_token) None 5) ex_asked = (Page p, db1)
     \<and> pg_messages p = take k ms \<and> (pg_more p \<longleftrightarrow> k < length ms) \<and> page_fits (ex_env (CHR ''2'') CommitOk) (take k ms)"
  using receive_page_exact [OF ex_sound_asked ex_page] ex_page by blast

theorem page_is_repeated_witness:
  "\<exists>p2 db3 tail. exec (ex_env (CHR ''3'') CommitOk) (Receive ''b'' (Some ex_token) None 5) ex_shown = (Page p2, db3)
     \<and> pg_messages p2 = ex_message # tail"
proof -
  have fr: "fresh_env (ex_env (CHR ''2'') CommitOk) ex_asked" by (rule ex_fresh_asked) simp_all
  have "no_deletes []" "no_releases []" by (simp_all add: no_deletes_def no_releases_def)
  then show ?thesis
    using page_is_repeated [OF ex_sound_asked fr ex_page _ op_run_nil _ _ ex_fresh_shown] by (fastforce simp: fun_eq_iff)
qed

theorem recovery_publishes_all_witness:
  "\<exists>rs db'. recover_task_turn_outcomes ex_envs (ex_db ''provider_accepted'' (Some ''claim_2'')
       [ex_turn ''outcome_recorded'' (Some RDone) (Some ''ok'')]) = (Inr rs, db')
     \<and> db_turns db' = [ex_turn ''published'' (Some RDone) (Some ''ok'')]"
proof -
  have c: "\<forall>n. me_commit (ex_envs n) = CommitOk" by (simp add: ex_envs_def)
  have room: "db_last (ex_db w k ts) + int (length (db_turns (ex_db w k [t]))) < 2 ^ 63" for w k ts t
    by (simp add: ex_db_def)
  show ?thesis
    using recovery_publishes_all [OF ex_sound_recorded ex_fresh_envs c room]
    by (auto simp: ex_db_def ex_turn_def set_settlement_def)
qed

section \<open>A released claim\<close>

text \<open>
  A cursor does not return the same messages when a claim was released meanwhile: the message the
  scheduler gave back was offered before the ones of the first page.
\<close>

definition ex_note :: interaction where
  "ex_note = ex_ask\<lparr>ix_id := ''int_9'', ix_kind := IMessage, ix_status := IQueued, ix_policy := NotifyOnly\<rparr>"

definition ex_both :: mdb where
  "ex_both = (ex_db ''dispatching'' (Some ''claim_2'') [])
     \<lparr>db_interactions := [ex_ask, ex_note],
      db_deliveries := [ex_row ''dispatching'' (Some ''claim_2''),
        (ex_row ''stored'' None)\<lparr>dl_id := ''int_9'', dl_operation := ''send_message'', dl_key := None\<rparr>],
      db_avail := [\<lparr>av_seq = 1, av_recipient = ''b'', av_id = ''ask_1''\<rparr>, \<lparr>av_seq = 2, av_recipient = ''b'', av_id = ''int_9''\<rparr>],
      db_last := 2, db_cursors := [\<lparr>cu_token = ex_token, cu_recipient = ''b'', cu_seq = 0\<rparr>]\<rparr>"

lemma release_changes_page:
  "\<exists>p1 db1 db2 p2 db3.
     exec (ex_env (CHR ''3'') CommitOk) (Receive ''b'' (Some ex_token) None 5) ex_both = (Page p1, db1)
   \<and> map am_id (pg_messages p1) = [''int_9'']
   \<and> exec (ex_env (CHR ''4'') CommitOk) (ReleaseClaim ex_claim) db1 = (Finished, db2)
   \<and> exec (ex_env (CHR ''5'') CommitOk) (Receive ''b'' (Some ex_token) None 5) db2 = (Page p2, db3)
   \<and> map am_id (pg_messages p2) = [''ask_1'', ''int_9'']"
  by (simp add: ex_receive ex_token_def ex_both_def ex_note_def release_before_write_def release_rows_def ex_sql holds_claim_def
      reopen_delivery_def)

end
