(* ===== verification/Agent_Config.thy ===== *)
theory Agent_Config
  imports Json
begin

text \<open>
  The persisted configuration of an agent
  (\<open>crates/wardian-core/src/models/agent_config.rs\<close>): the typed configuration of each
  provider, the flat fields of older files, and both directions between a configuration and
  the JSON value that is stored. What the derived readers and writers of a structure do with
  a member is written out once, for a value of a document (whose objects have no repeated
  keys); which error a reader reports is not distinguished.
\<close>

section \<open>Members of a structure\<close>

type_synonym u16 = "16 word"

datatype data_error = InvalidData

definition dec_string :: "json \<Rightarrow> data_error + string" where
  "dec_string v = (case v of JString s \<Rightarrow> Inr s | _ \<Rightarrow> Inl InvalidData)"

definition dec_bool :: "json \<Rightarrow> data_error + bool" where
  "dec_bool v = (case v of JBool b \<Rightarrow> Inr b | _ \<Rightarrow> Inl InvalidData)"

definition dec_uint :: "json \<Rightarrow> data_error + 'a::len word" where
  "dec_uint v = (case v of
     JNumber (PosInt n) \<Rightarrow> (if unat n < 2 ^ LENGTH('a) then Inr (ucast n) else Inl InvalidData)
   | _ \<Rightarrow> Inl InvalidData)"

definition dec_strings :: "json \<Rightarrow> data_error + string list" where
  "dec_strings v = (case v of JArray xs \<Rightarrow> res_map dec_string xs | _ \<Rightarrow> Inl InvalidData)"

definition dec_option :: "(json \<Rightarrow> data_error + 'a) \<Rightarrow> json \<Rightarrow> data_error + 'a option" where
  "dec_option d v = (if v = JNull then Inr None else res_bind (d v) (\<lambda>x. Inr (Some x)))"

definition enc_option :: "('a \<Rightarrow> json) \<Rightarrow> 'a option \<Rightarrow> json" where
  "enc_option e x = (case x of None \<Rightarrow> JNull | Some y \<Rightarrow> e y)"

definition enc_uint :: "'a::len word \<Rightarrow> json" where
  "enc_uint n = JNumber (PosInt (ucast n))"

definition enc_strings :: "string list \<Rightarrow> json" where
  "enc_strings xs = JArray (map JString xs)"

text \<open>A variant without fields: its name, or an object of its name and null.\<close>

definition dec_variant :: "(string \<times> 'a) list \<Rightarrow> json \<Rightarrow> data_error + 'a" where
  "dec_variant vs v =
     (case (case v of JString s \<Rightarrow> map_of vs s
                    | JObject m \<Rightarrow> (case m of [(s, JNull)] \<Rightarrow> map_of vs s | _ \<Rightarrow> None)
                    | _ \<Rightarrow> None) of
        None \<Rightarrow> Inl InvalidData
      | Some x \<Rightarrow> Inr x)"

text \<open>
  A structure is read from an object or from the array of its leading fields; a missing
  member has its default (\<open>#[serde(default)]\<close> on the structure), other members are ignored.
\<close>

type_synonym members = "string \<Rightarrow> json option"

definition struct_members :: "string list \<Rightarrow> json \<Rightarrow> data_error + members" where
  "struct_members names v = (case v of
     JObject m \<Rightarrow> Inr (map_of m)
   | JArray xs \<Rightarrow> (if length xs \<le> length names then Inr (map_of (zip names xs)) else Inl InvalidData)
   | _ \<Rightarrow> Inl InvalidData)"

definition member :: "members \<Rightarrow> string \<Rightarrow> (json \<Rightarrow> data_error + 'a) \<Rightarrow> 'a \<Rightarrow> data_error + 'a" where
  "member ms k d dflt = (case ms k of None \<Rightarrow> Inr dflt | Some v \<Rightarrow> d v)"

abbreviation opt_member :: "members \<Rightarrow> string \<Rightarrow> (json \<Rightarrow> data_error + 'a) \<Rightarrow> data_error + 'a option" where
  "opt_member ms k d \<equiv> member ms k (dec_option d) None"

text \<open>\<open>#[serde(skip_serializing_if = "Option::is_none")]\<close>, and the same for an empty list.\<close>

definition skip_none :: "string \<Rightarrow> ('a \<Rightarrow> json) \<Rightarrow> 'a option \<Rightarrow> (string \<times> json) list" where
  "skip_none k e x = (case x of None \<Rightarrow> [] | Some y \<Rightarrow> [(k, e y)])"

definition skip_empty :: "string \<Rightarrow> string list \<Rightarrow> (string \<times> json) list" where
  "skip_empty k xs = (if xs = [] then [] else [(k, enc_strings xs)])"

section \<open>Names of providers\<close>

definition ascii_lower :: "string \<Rightarrow> string" where
  "ascii_lower = map (\<lambda>c. if within (CHR ''A'') (CHR ''Z'') c then char_of (of_char c + 32 :: nat) else c)"

definition known_providers :: "string list" where
  "known_providers = [''claude'', ''gemini'', ''codex'', ''antigravity'', ''opencode'', ''pi'', ''mock'']"

definition provider_key :: "string \<Rightarrow> string" where
  "provider_key provider =
     (let k = ascii_lower (trim provider) in if k \<in> set known_providers then k else [])"

definition is_known_provider_type :: "string \<Rightarrow> bool" where
  "is_known_provider_type provider \<longleftrightarrow> provider \<in> set known_providers"

definition provider_type_name :: "string \<Rightarrow> string" where
  "provider_type_name provider =
     (if is_known_provider_type (provider_key provider) then provider_key provider
      else let p = ascii_lower (trim provider) in if p = [] then ''claude'' else p)"

section \<open>Configurations of the providers\<close>

record claude_provider_config =
  cl_reasoning_effort :: "string option"
  cl_permission_mode :: "string option"
  cl_max_turns :: "u32 option"
  cl_tools :: "string list option"
  cl_allowed_tools :: "string list option"
  cl_disallowed_tools :: "string list option"
  cl_append_system_prompt :: "string option"
  cl_mcp_config :: "string option"
  cl_strict_mcp_config :: "bool option"

definition claude_default :: claude_provider_config where
  "claude_default = \<lparr>cl_reasoning_effort = None, cl_permission_mode = None, cl_max_turns = None,
     cl_tools = None, cl_allowed_tools = None, cl_disallowed_tools = None,
     cl_append_system_prompt = None, cl_mcp_config = None, cl_strict_mcp_config = None\<rparr>"

definition claude_fields :: "string list" where
  "claude_fields = [''reasoning_effort'', ''permission_mode'', ''max_turns'', ''tools'', ''allowed_tools'',
     ''disallowed_tools'', ''append_system_prompt'', ''mcp_config'', ''strict_mcp_config'']"

definition enc_claude :: "claude_provider_config \<Rightarrow> (string \<times> json) list" where
  "enc_claude c =
     skip_none ''reasoning_effort'' JString (cl_reasoning_effort c) @
     skip_none ''permission_mode'' JString (cl_permission_mode c) @
     skip_none ''max_turns'' enc_uint (cl_max_turns c) @
     skip_none ''tools'' enc_strings (cl_tools c) @
     skip_none ''allowed_tools'' enc_strings (cl_allowed_tools c) @
     skip_none ''disallowed_tools'' enc_strings (cl_disallowed_tools c) @
     skip_none ''append_system_prompt'' JString (cl_append_system_prompt c) @
     skip_none ''mcp_config'' JString (cl_mcp_config c) @
     skip_none ''strict_mcp_config'' JBool (cl_strict_mcp_config c)"

definition dec_claude :: "json \<Rightarrow> data_error + claude_provider_config" where
  "dec_claude v =
     res_bind (struct_members claude_fields v) (\<lambda>ms.
     res_bind (opt_member ms ''reasoning_effort'' dec_string) (\<lambda>reasoning_effort.
     res_bind (opt_member ms ''permission_mode'' dec_string) (\<lambda>permission_mode.
     res_bind (opt_member ms ''max_turns'' dec_uint) (\<lambda>max_turns.
     res_bind (opt_member ms ''tools'' dec_strings) (\<lambda>tools.
     res_bind (opt_member ms ''allowed_tools'' dec_strings) (\<lambda>allowed_tools.
     res_bind (opt_member ms ''disallowed_tools'' dec_strings) (\<lambda>disallowed_tools.
     res_bind (opt_member ms ''append_system_prompt'' dec_string) (\<lambda>append_system_prompt.
     res_bind (opt_member ms ''mcp_config'' dec_string) (\<lambda>mcp_config.
     res_bind (opt_member ms ''strict_mcp_config'' dec_bool) (\<lambda>strict_mcp_config.
     Inr \<lparr>cl_reasoning_effort = reasoning_effort, cl_permission_mode = permission_mode,
       cl_max_turns = max_turns, cl_tools = tools, cl_allowed_tools = allowed_tools,
       cl_disallowed_tools = disallowed_tools, cl_append_system_prompt = append_system_prompt,
       cl_mcp_config = mcp_config, cl_strict_mcp_config = strict_mcp_config\<rparr>))))))))))"

record gemini_provider_config =
  ge_sandbox :: "bool option"
  ge_yolo :: "bool option"
  ge_approval_mode :: "string option"
  ge_policy :: "string list option"
  ge_admin_policy :: "string list option"
  ge_experimental_acp :: "bool option"
  ge_allowed_mcp_server_names :: "string list option"
  ge_extensions :: "string list option"
  ge_screen_reader :: "bool option"
  ge_output_format :: "string option"

definition gemini_default :: gemini_provider_config where
  "gemini_default = \<lparr>ge_sandbox = None, ge_yolo = None, ge_approval_mode = None, ge_policy = None,
     ge_admin_policy = None, ge_experimental_acp = None, ge_allowed_mcp_server_names = None,
     ge_extensions = None, ge_screen_reader = None, ge_output_format = None\<rparr>"

definition gemini_fields :: "string list" where
  "gemini_fields = [''sandbox'', ''yolo'', ''approval_mode'', ''policy'', ''admin_policy'',
     ''experimental_acp'', ''allowed_mcp_server_names'', ''extensions'', ''screen_reader'', ''output_format'']"

definition enc_gemini :: "gemini_provider_config \<Rightarrow> (string \<times> json) list" where
  "enc_gemini c =
     skip_none ''sandbox'' JBool (ge_sandbox c) @
     skip_none ''yolo'' JBool (ge_yolo c) @
     skip_none ''approval_mode'' JString (ge_approval_mode c) @
     skip_none ''policy'' enc_strings (ge_policy c) @
     skip_none ''admin_policy'' enc_strings (ge_admin_policy c) @
     skip_none ''experimental_acp'' JBool (ge_experimental_acp c) @
     skip_none ''allowed_mcp_server_names'' enc_strings (ge_allowed_mcp_server_names c) @
     skip_none ''extensions'' enc_strings (ge_extensions c) @
     skip_none ''screen_reader'' JBool (ge_screen_reader c) @
     skip_none ''output_format'' JString (ge_output_format c)"

definition dec_gemini :: "json \<Rightarrow> data_error + gemini_provider_config" where
  "dec_gemini v =
     res_bind (struct_members gemini_fields v) (\<lambda>ms.
     res_bind (opt_member ms ''sandbox'' dec_bool) (\<lambda>sandbox.
     res_bind (opt_member ms ''yolo'' dec_bool) (\<lambda>yolo.
     res_bind (opt_member ms ''approval_mode'' dec_string) (\<lambda>approval_mode.
     res_bind (opt_member ms ''policy'' dec_strings) (\<lambda>policy.
     res_bind (opt_member ms ''admin_policy'' dec_strings) (\<lambda>admin_policy.
     res_bind (opt_member ms ''experimental_acp'' dec_bool) (\<lambda>experimental_acp.
     res_bind (opt_member ms ''allowed_mcp_server_names'' dec_strings) (\<lambda>allowed_mcp_server_names.
     res_bind (opt_member ms ''extensions'' dec_strings) (\<lambda>extensions.
     res_bind (opt_member ms ''screen_reader'' dec_bool) (\<lambda>screen_reader.
     res_bind (opt_member ms ''output_format'' dec_string) (\<lambda>output_format.
     Inr \<lparr>ge_sandbox = sandbox, ge_yolo = yolo, ge_approval_mode = approval_mode, ge_policy = policy,
       ge_admin_policy = admin_policy, ge_experimental_acp = experimental_acp,
       ge_allowed_mcp_server_names = allowed_mcp_server_names, ge_extensions = extensions,
       ge_screen_reader = screen_reader, ge_output_format = output_format\<rparr>)))))))))))"

record codex_provider_config =
  cx_reasoning_effort :: "string option"
  cx_sandbox_mode :: "string option"
  cx_approval_policy :: "string option"
  cx_profile :: "string option"
  cx_full_auto :: "bool option"
  cx_search :: "bool option"
  cx_skip_git_repo_check :: "bool option"
  cx_ephemeral :: "bool option"
  cx_cleared_provider_sessions :: "string list"

definition codex_default :: codex_provider_config where
  "codex_default = \<lparr>cx_reasoning_effort = None, cx_sandbox_mode = None, cx_approval_policy = None,
     cx_profile = None, cx_full_auto = None, cx_search = None, cx_skip_git_repo_check = None,
     cx_ephemeral = None, cx_cleared_provider_sessions = []\<rparr>"

definition codex_fields :: "string list" where
  "codex_fields = [''reasoning_effort'', ''sandbox_mode'', ''approval_policy'', ''profile'', ''full_auto'',
     ''search'', ''skip_git_repo_check'', ''ephemeral'', ''cleared_provider_sessions'']"

definition enc_codex :: "codex_provider_config \<Rightarrow> (string \<times> json) list" where
  "enc_codex c =
     skip_none ''reasoning_effort'' JString (cx_reasoning_effort c) @
     skip_none ''sandbox_mode'' JString (cx_sandbox_mode c) @
     skip_none ''approval_policy'' JString (cx_approval_policy c) @
     skip_none ''profile'' JString (cx_profile c) @
     skip_none ''full_auto'' JBool (cx_full_auto c) @
     skip_none ''search'' JBool (cx_search c) @
     skip_none ''skip_git_repo_check'' JBool (cx_skip_git_repo_check c) @
     skip_none ''ephemeral'' JBool (cx_ephemeral c) @
     skip_empty ''cleared_provider_sessions'' (cx_cleared_provider_sessions c)"

definition dec_codex :: "json \<Rightarrow> data_error + codex_provider_config" where
  "dec_codex v =
     res_bind (struct_members codex_fields v) (\<lambda>ms.
     res_bind (opt_member ms ''reasoning_effort'' dec_string) (\<lambda>reasoning_effort.
     res_bind (opt_member ms ''sandbox_mode'' dec_string) (\<lambda>sandbox_mode.
     res_bind (opt_member ms ''approval_policy'' dec_string) (\<lambda>approval_policy.
     res_bind (opt_member ms ''profile'' dec_string) (\<lambda>profile.
     res_bind (opt_member ms ''full_auto'' dec_bool) (\<lambda>full_auto.
     res_bind (opt_member ms ''search'' dec_bool) (\<lambda>search.
     res_bind (opt_member ms ''skip_git_repo_check'' dec_bool) (\<lambda>skip_git_repo_check.
     res_bind (opt_member ms ''ephemeral'' dec_bool) (\<lambda>ephemeral.
     res_bind (member ms ''cleared_provider_sessions'' dec_strings []) (\<lambda>cleared_provider_sessions.
     Inr \<lparr>cx_reasoning_effort = reasoning_effort, cx_sandbox_mode = sandbox_mode,
       cx_approval_policy = approval_policy, cx_profile = profile, cx_full_auto = full_auto,
       cx_search = search, cx_skip_git_repo_check = skip_git_repo_check, cx_ephemeral = ephemeral,
       cx_cleared_provider_sessions = cleared_provider_sessions\<rparr>))))))))))"

record antigravity_provider_config =
  ag_reasoning_effort :: "string option"
  ag_sandbox :: "bool option"
  ag_dangerously_skip_permissions :: "bool option"
  ag_mode :: "string option"
  ag_agent :: "string option"
  ag_print_timeout :: "string option"
  ag_cleared_conversations :: "string list"

definition antigravity_default :: antigravity_provider_config where
  "antigravity_default = \<lparr>ag_reasoning_effort = None, ag_sandbox = None,
     ag_dangerously_skip_permissions = None, ag_mode = None, ag_agent = None, ag_print_timeout = None,
     ag_cleared_conversations = []\<rparr>"

definition antigravity_fields :: "string list" where
  "antigravity_fields = [''reasoning_effort'', ''sandbox'', ''dangerously_skip_permissions'', ''mode'',
     ''agent'', ''print_timeout'', ''cleared_conversations'']"

definition enc_antigravity :: "antigravity_provider_config \<Rightarrow> (string \<times> json) list" where
  "enc_antigravity c =
     skip_none ''reasoning_effort'' JString (ag_reasoning_effort c) @
     skip_none ''sandbox'' JBool (ag_sandbox c) @
     skip_none ''dangerously_skip_permissions'' JBool (ag_dangerously_skip_permissions c) @
     skip_none ''mode'' JString (ag_mode c) @
     skip_none ''agent'' JString (ag_agent c) @
     skip_none ''print_timeout'' JString (ag_print_timeout c) @
     skip_empty ''cleared_conversations'' (ag_cleared_conversations c)"

definition dec_antigravity :: "json \<Rightarrow> data_error + antigravity_provider_config" where
  "dec_antigravity v =
     res_bind (struct_members antigravity_fields v) (\<lambda>ms.
     res_bind (opt_member ms ''reasoning_effort'' dec_string) (\<lambda>reasoning_effort.
     res_bind (opt_member ms ''sandbox'' dec_bool) (\<lambda>sandbox.
     res_bind (opt_member ms ''dangerously_skip_permissions'' dec_bool) (\<lambda>dangerously_skip_permissions.
     res_bind (opt_member ms ''mode'' dec_string) (\<lambda>mode.
     res_bind (opt_member ms ''agent'' dec_string) (\<lambda>agent.
     res_bind (opt_member ms ''print_timeout'' dec_string) (\<lambda>print_timeout.
     res_bind (member ms ''cleared_conversations'' dec_strings []) (\<lambda>cleared_conversations.
     Inr \<lparr>ag_reasoning_effort = reasoning_effort, ag_sandbox = sandbox,
       ag_dangerously_skip_permissions = dangerously_skip_permissions, ag_mode = mode,
       ag_agent = agent, ag_print_timeout = print_timeout,
       ag_cleared_conversations = cleared_conversations\<rparr>))))))))"

record opencode_provider_config =
  oc_agent :: "string option"
  oc_auto :: "bool option"
  oc_port :: "u16 option"

definition opencode_default :: opencode_provider_config where
  "opencode_default = \<lparr>oc_agent = None, oc_auto = None, oc_port = None\<rparr>"

definition enc_opencode :: "opencode_provider_config \<Rightarrow> (string \<times> json) list" where
  "enc_opencode c =
     skip_none ''agent'' JString (oc_agent c) @
     skip_none ''auto'' JBool (oc_auto c) @
     skip_none ''port'' enc_uint (oc_port c)"

definition dec_opencode :: "json \<Rightarrow> data_error + opencode_provider_config" where
  "dec_opencode v =
     res_bind (struct_members [''agent'', ''auto'', ''port''] v) (\<lambda>ms.
     res_bind (opt_member ms ''agent'' dec_string) (\<lambda>agent.
     res_bind (opt_member ms ''auto'' dec_bool) (\<lambda>auto.
     res_bind (opt_member ms ''port'' dec_uint) (\<lambda>port.
     Inr \<lparr>oc_agent = agent, oc_auto = auto, oc_port = port\<rparr>))))"

record pi_provider_config =
  pi_reasoning_effort :: "string option"
  pi_project_trust :: "string option"
  pi_tools :: "string list option"
  pi_exclude_tools :: "string list option"
  pi_no_tools :: "bool option"
  pi_offline :: "bool option"

definition pi_default :: pi_provider_config where
  "pi_default = \<lparr>pi_reasoning_effort = None, pi_project_trust = None, pi_tools = None,
     pi_exclude_tools = None, pi_no_tools = None, pi_offline = None\<rparr>"

definition pi_fields :: "string list" where
  "pi_fields = [''reasoning_effort'', ''project_trust'', ''tools'', ''exclude_tools'', ''no_tools'', ''offline'']"

definition enc_pi :: "pi_provider_config \<Rightarrow> (string \<times> json) list" where
  "enc_pi c =
     skip_none ''reasoning_effort'' JString (pi_reasoning_effort c) @
     skip_none ''project_trust'' JString (pi_project_trust c) @
     skip_none ''tools'' enc_strings (pi_tools c) @
     skip_none ''exclude_tools'' enc_strings (pi_exclude_tools c) @
     skip_none ''no_tools'' JBool (pi_no_tools c) @
     skip_none ''offline'' JBool (pi_offline c)"

definition dec_pi :: "json \<Rightarrow> data_error + pi_provider_config" where
  "dec_pi v =
     res_bind (struct_members pi_fields v) (\<lambda>ms.
     res_bind (opt_member ms ''reasoning_effort'' dec_string) (\<lambda>reasoning_effort.
     res_bind (opt_member ms ''project_trust'' dec_string) (\<lambda>project_trust.
     res_bind (opt_member ms ''tools'' dec_strings) (\<lambda>tools.
     res_bind (opt_member ms ''exclude_tools'' dec_strings) (\<lambda>exclude_tools.
     res_bind (opt_member ms ''no_tools'' dec_bool) (\<lambda>no_tools.
     res_bind (opt_member ms ''offline'' dec_bool) (\<lambda>offline.
     Inr \<lparr>pi_reasoning_effort = reasoning_effort, pi_project_trust = project_trust, pi_tools = tools,
       pi_exclude_tools = exclude_tools, pi_no_tools = no_tools, pi_offline = offline\<rparr>)))))))"

record mock_provider_config =
  mk_scenario :: "string option"
  mk_delay_ms :: "u64 option"

definition mock_default :: mock_provider_config where
  "mock_default = \<lparr>mk_scenario = None, mk_delay_ms = None\<rparr>"

definition enc_mock :: "mock_provider_config \<Rightarrow> (string \<times> json) list" where
  "enc_mock c = skip_none ''scenario'' JString (mk_scenario c) @ skip_none ''delay_ms'' enc_uint (mk_delay_ms c)"

definition dec_mock :: "json \<Rightarrow> data_error + mock_provider_config" where
  "dec_mock v =
     res_bind (struct_members [''scenario'', ''delay_ms''] v) (\<lambda>ms.
     res_bind (opt_member ms ''scenario'' dec_string) (\<lambda>scenario.
     res_bind (opt_member ms ''delay_ms'' dec_uint) (\<lambda>delay_ms.
     Inr \<lparr>mk_scenario = scenario, mk_delay_ms = delay_ms\<rparr>)))"

section \<open>The tagged configuration\<close>

datatype provider_config_encoding = Nested | LegacyFlat

datatype provider_config =
    Claude claude_provider_config
  | Gemini gemini_provider_config
  | Codex codex_provider_config
  | Antigravity antigravity_provider_config
  | OpenCode opencode_provider_config
  | Pi pi_provider_config
  | MockProvider mock_provider_config
  | UnknownProvider json

definition type_name :: "provider_config \<Rightarrow> string" where
  "type_name c = (case c of
     Claude _ \<Rightarrow> ''claude'' | Gemini _ \<Rightarrow> ''gemini'' | Codex _ \<Rightarrow> ''codex''
   | Antigravity _ \<Rightarrow> ''antigravity'' | OpenCode _ \<Rightarrow> ''opencode'' | Pi _ \<Rightarrow> ''pi''
   | MockProvider _ \<Rightarrow> ''mock''
   | UnknownProvider v \<Rightarrow> (case Option.bind (jget ''type'' v) as_str of None \<Rightarrow> ''unknown'' | Some t \<Rightarrow> t))"

definition default_for_provider :: "string \<Rightarrow> provider_config" where
  "default_for_provider provider =
     (let k = provider_key provider in
      if k = ''gemini'' then Gemini gemini_default
      else if k = ''codex'' then Codex codex_default
      else if k = ''antigravity'' then Antigravity antigravity_default
      else if k = ''opencode'' then OpenCode opencode_default
      else if k = ''pi'' then Pi pi_default
      else if k = ''mock'' then MockProvider mock_default
      else if k = ''claude'' then Claude claude_default
      else let t = provider_type_name provider in
        if t = ''claude'' then Claude claude_default
        else UnknownProvider (JObject [(''type'', JString t)]))"

definition matches_provider :: "provider_config \<Rightarrow> string \<Rightarrow> bool" where
  "matches_provider c provider \<longleftrightarrow>
     (let t = provider_type_name provider in
      type_name c = t \<or>
      (case c of UnknownProvider _ \<Rightarrow> \<not> is_known_provider_type t | _ \<Rightarrow> False))"

definition to_value_with_type :: "string \<Rightarrow> (string \<times> json) list \<Rightarrow> json" where
  "to_value_with_type t ms = JObject (AList.update ''type'' (JString t) ms)"

definition provider_config_to_value :: "provider_config \<Rightarrow> json" where
  "provider_config_to_value c = (case c of
     Claude x \<Rightarrow> to_value_with_type ''claude'' (enc_claude x)
   | Gemini x \<Rightarrow> to_value_with_type ''gemini'' (enc_gemini x)
   | Codex x \<Rightarrow> to_value_with_type ''codex'' (enc_codex x)
   | Antigravity x \<Rightarrow> to_value_with_type ''antigravity'' (enc_antigravity x)
   | OpenCode x \<Rightarrow> to_value_with_type ''opencode'' (enc_opencode x)
   | Pi x \<Rightarrow> to_value_with_type ''pi'' (enc_pi x)
   | MockProvider x \<Rightarrow> to_value_with_type ''mock'' (enc_mock x)
   | UnknownProvider v \<Rightarrow> v)"

definition provider_config_from_value :: "json \<Rightarrow> data_error + provider_config" where
  "provider_config_from_value v =
     (let t = ascii_lower (case Option.bind (jget ''type'' v) as_str of None \<Rightarrow> [] | Some t \<Rightarrow> t) in
      if t = ''claude'' then res_bind (dec_claude v) (\<lambda>x. Inr (Claude x))
      else if t = ''gemini'' then res_bind (dec_gemini v) (\<lambda>x. Inr (Gemini x))
      else if t = ''codex'' then res_bind (dec_codex v) (\<lambda>x. Inr (Codex x))
      else if t = ''antigravity'' then res_bind (dec_antigravity v) (\<lambda>x. Inr (Antigravity x))
      else if t = ''opencode'' then res_bind (dec_opencode v) (\<lambda>x. Inr (OpenCode x))
      else if t = ''pi'' then res_bind (dec_pi v) (\<lambda>x. Inr (Pi x))
      else if t = ''mock'' then res_bind (dec_mock v) (\<lambda>x. Inr (MockProvider x))
      else Inr (UnknownProvider v))"

end
