(* ===== verification/Agent_Config_Doc.thy ===== *)
theory Agent_Config_Doc
  imports Agent_Config
begin

text \<open>
  The configuration of an agent as a whole (\<open>crates/wardian-core/src/models/agent_config.rs\<close>):
  the shared fields, the flat fields of older files (one record inside it, as the code treats
  them as a group), how a stored value is read with either encoding, how a configuration is
  written back, and the operations that keep the typed configuration and the flat fields in
  step. A configuration and what is read from a file before it is normalised
  (\<open>AgentConfigCompat\<close>) extend the same record.
\<close>

section \<open>The records\<close>

datatype session_persistence = PersistDefault | PersistFresh | PersistResume

datatype conversation_logging = LogDefault | LogEnabled | LogDisabled

definition session_persistence_names :: "(string \<times> session_persistence) list" where
  "session_persistence_names =
     [(''default'', PersistDefault), (''fresh'', PersistFresh), (''resume'', PersistResume)]"

definition conversation_logging_names :: "(string \<times> conversation_logging) list" where
  "conversation_logging_names =
     [(''default'', LogDefault), (''enabled'', LogEnabled), (''disabled'', LogDisabled)]"

fun enc_session_persistence :: "session_persistence \<Rightarrow> json" where
  "enc_session_persistence PersistDefault = JString ''default''"
| "enc_session_persistence PersistFresh = JString ''fresh''"
| "enc_session_persistence PersistResume = JString ''resume''"

fun enc_conversation_logging :: "conversation_logging \<Rightarrow> json" where
  "enc_conversation_logging LogDefault = JString ''default''"
| "enc_conversation_logging LogEnabled = JString ''enabled''"
| "enc_conversation_logging LogDisabled = JString ''disabled''"

record legacy_fields =
  lf_sandbox :: "bool option"
  lf_yolo :: "bool option"
  lf_approval_mode :: "string option"
  lf_policy :: "string list option"
  lf_experimental_acp :: "bool option"
  lf_allowed_mcp_server_names :: "string list option"
  lf_extensions :: "string list option"
  lf_screen_reader :: "bool option"
  lf_output_format :: "string option"
  lf_permission_mode :: "string option"
  lf_max_turns :: "u32 option"
  lf_allowed_tools :: "string list option"
  lf_disallowed_tools :: "string list option"
  lf_append_system_prompt :: "string option"
  lf_mcp_config :: "string option"
  lf_codex_sandbox_mode :: "string option"
  lf_codex_approval_policy :: "string option"
  lf_codex_profile :: "string option"
  lf_codex_full_auto :: "bool option"
  lf_codex_search :: "bool option"
  lf_codex_skip_git_repo_check :: "bool option"
  lf_codex_ephemeral :: "bool option"
  lf_codex_cleared_provider_sessions :: "string list"
  lf_opencode_agent :: "string option"
  lf_opencode_port :: "u16 option"

definition no_legacy :: legacy_fields where
  "no_legacy = \<lparr>lf_sandbox = None, lf_yolo = None, lf_approval_mode = None, lf_policy = None,
     lf_experimental_acp = None, lf_allowed_mcp_server_names = None, lf_extensions = None,
     lf_screen_reader = None, lf_output_format = None, lf_permission_mode = None,
     lf_max_turns = None, lf_allowed_tools = None, lf_disallowed_tools = None,
     lf_append_system_prompt = None, lf_mcp_config = None, lf_codex_sandbox_mode = None,
     lf_codex_approval_policy = None, lf_codex_profile = None, lf_codex_full_auto = None,
     lf_codex_search = None, lf_codex_skip_git_repo_check = None, lf_codex_ephemeral = None,
     lf_codex_cleared_provider_sessions = [], lf_opencode_agent = None, lf_opencode_port = None\<rparr>"

record agent_fields =
  ac_session_id :: string
  ac_session_name :: string
  ac_description :: string
  ac_agent_class :: string
  ac_folder :: string
  ac_git_worktree :: "bool option"
  ac_git_worktree_source :: "string option"
  ac_git_worktree_folder :: "string option"
  ac_resume_session :: "string option"
  ac_is_off :: bool
  ac_provider :: string
  ac_debug :: "bool option"
  ac_model :: "string option"
  ac_include_directories :: "string list option"
  ac_system_include_directories :: "string list option"
  ac_custom_args :: "string option"
  ac_session_persistence :: session_persistence
  ac_conversation_logging :: conversation_logging
  ac_fresh_provider_session_id :: "string option"
  ac_legacy :: legacy_fields

record agent_config = agent_fields +
  ac_provider_config :: provider_config
  ac_provider_config_encoding :: provider_config_encoding

record agent_config_compat = agent_fields +
  cc_provider_config :: "json option"

definition default_provider :: string where
  "default_provider = ''claude''"

definition agent_fields_default :: agent_fields where
  "agent_fields_default = \<lparr>ac_session_id = [], ac_session_name = [], ac_description = [],
     ac_agent_class = [], ac_folder = [], ac_git_worktree = None, ac_git_worktree_source = None,
     ac_git_worktree_folder = None, ac_resume_session = None, ac_is_off = False,
     ac_provider = default_provider, ac_debug = None, ac_model = None, ac_include_directories = None,
     ac_system_include_directories = None, ac_custom_args = None,
     ac_session_persistence = PersistDefault, ac_conversation_logging = LogDefault,
     ac_fresh_provider_session_id = None, ac_legacy = no_legacy\<rparr>"

definition agent_config_default :: agent_config where
  "agent_config_default = agent_fields.extend agent_fields_default
     (agent_config.fields (Claude claude_default) Nested)"

section \<open>Reading\<close>

definition shared_names :: "string list" where
  "shared_names = [''session_id'', ''session_name'', ''description'', ''agent_class'', ''folder'',
     ''git_worktree'', ''git_worktree_source'', ''git_worktree_folder'', ''resume_session'', ''is_off'',
     ''provider'', ''debug'', ''model'', ''include_directories'', ''system_include_directories'',
     ''custom_args'', ''session_persistence'', ''conversation_logging'', ''fresh_provider_session_id'']"

definition legacy_names :: "string list" where
  "legacy_names = [''sandbox'', ''yolo'', ''approval_mode'', ''policy'', ''experimental_acp'',
     ''allowed_mcp_server_names'', ''extensions'', ''screen_reader'', ''output_format'',
     ''permission_mode'', ''max_turns'', ''allowed_tools'', ''disallowed_tools'',
     ''append_system_prompt'', ''mcp_config'', ''codex_sandbox_mode'', ''codex_approval_policy'',
     ''codex_profile'', ''codex_full_auto'', ''codex_search'', ''codex_skip_git_repo_check'',
     ''codex_ephemeral'', ''codex_cleared_provider_sessions'', ''opencode_agent'', ''opencode_port'']"

definition dec_legacy :: "members \<Rightarrow> data_error + legacy_fields" where
  "dec_legacy ms =
     res_bind (opt_member ms ''sandbox'' dec_bool) (\<lambda>sandbox.
     res_bind (opt_member ms ''yolo'' dec_bool) (\<lambda>yolo.
     res_bind (opt_member ms ''approval_mode'' dec_string) (\<lambda>approval_mode.
     res_bind (opt_member ms ''policy'' dec_strings) (\<lambda>policy.
     res_bind (opt_member ms ''experimental_acp'' dec_bool) (\<lambda>experimental_acp.
     res_bind (opt_member ms ''allowed_mcp_server_names'' dec_strings) (\<lambda>allowed_mcp_server_names.
     res_bind (opt_member ms ''extensions'' dec_strings) (\<lambda>extensions.
     res_bind (opt_member ms ''screen_reader'' dec_bool) (\<lambda>screen_reader.
     res_bind (opt_member ms ''output_format'' dec_string) (\<lambda>output_format.
     res_bind (opt_member ms ''permission_mode'' dec_string) (\<lambda>permission_mode.
     res_bind (opt_member ms ''max_turns'' dec_uint) (\<lambda>max_turns.
     res_bind (opt_member ms ''allowed_tools'' dec_strings) (\<lambda>allowed_tools.
     res_bind (opt_member ms ''disallowed_tools'' dec_strings) (\<lambda>disallowed_tools.
     res_bind (opt_member ms ''append_system_prompt'' dec_string) (\<lambda>append_system_prompt.
     res_bind (opt_member ms ''mcp_config'' dec_string) (\<lambda>mcp_config.
     res_bind (opt_member ms ''codex_sandbox_mode'' dec_string) (\<lambda>codex_sandbox_mode.
     res_bind (opt_member ms ''codex_approval_policy'' dec_string) (\<lambda>codex_approval_policy.
     res_bind (opt_member ms ''codex_profile'' dec_string) (\<lambda>codex_profile.
     res_bind (opt_member ms ''codex_full_auto'' dec_bool) (\<lambda>codex_full_auto.
     res_bind (opt_member ms ''codex_search'' dec_bool) (\<lambda>codex_search.
     res_bind (opt_member ms ''codex_skip_git_repo_check'' dec_bool) (\<lambda>codex_skip_git_repo_check.
     res_bind (opt_member ms ''codex_ephemeral'' dec_bool) (\<lambda>codex_ephemeral.
     res_bind (member ms ''codex_cleared_provider_sessions'' dec_strings []) (\<lambda>codex_cleared_provider_sessions.
     res_bind (opt_member ms ''opencode_agent'' dec_string) (\<lambda>opencode_agent.
     res_bind (opt_member ms ''opencode_port'' dec_uint) (\<lambda>opencode_port.
     Inr \<lparr>lf_sandbox = sandbox, lf_yolo = yolo, lf_approval_mode = approval_mode, lf_policy = policy,
       lf_experimental_acp = experimental_acp, lf_allowed_mcp_server_names = allowed_mcp_server_names,
       lf_extensions = extensions, lf_screen_reader = screen_reader, lf_output_format = output_format,
       lf_permission_mode = permission_mode, lf_max_turns = max_turns, lf_allowed_tools = allowed_tools,
       lf_disallowed_tools = disallowed_tools, lf_append_system_prompt = append_system_prompt,
       lf_mcp_config = mcp_config, lf_codex_sandbox_mode = codex_sandbox_mode,
       lf_codex_approval_policy = codex_approval_policy, lf_codex_profile = codex_profile,
       lf_codex_full_auto = codex_full_auto, lf_codex_search = codex_search,
       lf_codex_skip_git_repo_check = codex_skip_git_repo_check, lf_codex_ephemeral = codex_ephemeral,
       lf_codex_cleared_provider_sessions = codex_cleared_provider_sessions,
       lf_opencode_agent = opencode_agent, lf_opencode_port = opencode_port\<rparr>)))))))))))))))))))))))))"

definition dec_fields :: "members \<Rightarrow> data_error + agent_fields" where
  "dec_fields ms =
     res_bind (member ms ''session_id'' dec_string []) (\<lambda>session_id.
     res_bind (member ms ''session_name'' dec_string []) (\<lambda>session_name.
     res_bind (member ms ''description'' dec_string []) (\<lambda>description.
     res_bind (member ms ''agent_class'' dec_string []) (\<lambda>agent_class.
     res_bind (member ms ''folder'' dec_string []) (\<lambda>folder.
     res_bind (opt_member ms ''git_worktree'' dec_bool) (\<lambda>git_worktree.
     res_bind (opt_member ms ''git_worktree_source'' dec_string) (\<lambda>git_worktree_source.
     res_bind (opt_member ms ''git_worktree_folder'' dec_string) (\<lambda>git_worktree_folder.
     res_bind (opt_member ms ''resume_session'' dec_string) (\<lambda>resume_session.
     res_bind (member ms ''is_off'' dec_bool False) (\<lambda>is_off.
     res_bind (member ms ''provider'' dec_string default_provider) (\<lambda>provider.
     res_bind (opt_member ms ''debug'' dec_bool) (\<lambda>debug.
     res_bind (opt_member ms ''model'' dec_string) (\<lambda>model.
     res_bind (opt_member ms ''include_directories'' dec_strings) (\<lambda>include_directories.
     res_bind (opt_member ms ''system_include_directories'' dec_strings) (\<lambda>system_include_directories.
     res_bind (opt_member ms ''custom_args'' dec_string) (\<lambda>custom_args.
     res_bind (member ms ''session_persistence'' (dec_variant session_persistence_names) PersistDefault)
       (\<lambda>session_persistence.
     res_bind (member ms ''conversation_logging'' (dec_variant conversation_logging_names) LogDefault)
       (\<lambda>conversation_logging.
     res_bind (opt_member ms ''fresh_provider_session_id'' dec_string) (\<lambda>fresh_provider_session_id.
     res_bind (dec_legacy ms) (\<lambda>legacy.
     Inr \<lparr>ac_session_id = session_id, ac_session_name = session_name, ac_description = description,
       ac_agent_class = agent_class, ac_folder = folder, ac_git_worktree = git_worktree,
       ac_git_worktree_source = git_worktree_source, ac_git_worktree_folder = git_worktree_folder,
       ac_resume_session = resume_session, ac_is_off = is_off, ac_provider = provider, ac_debug = debug,
       ac_model = model, ac_include_directories = include_directories,
       ac_system_include_directories = system_include_directories, ac_custom_args = custom_args,
       ac_session_persistence = session_persistence, ac_conversation_logging = conversation_logging,
       ac_fresh_provider_session_id = fresh_provider_session_id, ac_legacy = legacy\<rparr>))))))))))))))))))))"

text \<open>The stored provider configuration is any value; null counts as missing.\<close>

definition dec_compat :: "json \<Rightarrow> data_error + agent_config_compat" where
  "dec_compat v =
     res_bind (struct_members (shared_names @ [''provider_config''] @ legacy_names) v) (\<lambda>ms.
     res_bind (dec_fields ms) (\<lambda>fields.
     res_bind (opt_member ms ''provider_config'' Inr) (\<lambda>provider_config.
     Inr (agent_fields.extend fields (agent_config_compat.fields provider_config)))))"

definition claude_of_legacy :: "legacy_fields \<Rightarrow> claude_provider_config" where
  "claude_of_legacy l = claude_default\<lparr>cl_permission_mode := lf_permission_mode l,
     cl_max_turns := lf_max_turns l, cl_allowed_tools := lf_allowed_tools l,
     cl_disallowed_tools := lf_disallowed_tools l,
     cl_append_system_prompt := lf_append_system_prompt l, cl_mcp_config := lf_mcp_config l\<rparr>"

definition gemini_of_legacy :: "legacy_fields \<Rightarrow> gemini_provider_config" where
  "gemini_of_legacy l = \<lparr>ge_sandbox = lf_sandbox l, ge_yolo = lf_yolo l,
     ge_approval_mode = lf_approval_mode l, ge_policy = lf_policy l, ge_admin_policy = None,
     ge_experimental_acp = lf_experimental_acp l,
     ge_allowed_mcp_server_names = lf_allowed_mcp_server_names l, ge_extensions = lf_extensions l,
     ge_screen_reader = lf_screen_reader l, ge_output_format = lf_output_format l\<rparr>"

definition codex_of_legacy :: "legacy_fields \<Rightarrow> codex_provider_config" where
  "codex_of_legacy l = \<lparr>cx_reasoning_effort = None, cx_sandbox_mode = lf_codex_sandbox_mode l,
     cx_approval_policy = lf_codex_approval_policy l, cx_profile = lf_codex_profile l,
     cx_full_auto = lf_codex_full_auto l, cx_search = lf_codex_search l,
     cx_skip_git_repo_check = lf_codex_skip_git_repo_check l, cx_ephemeral = lf_codex_ephemeral l,
     cx_cleared_provider_sessions = lf_codex_cleared_provider_sessions l\<rparr>"

definition opencode_of_legacy :: "legacy_fields \<Rightarrow> opencode_provider_config" where
  "opencode_of_legacy l =
     \<lparr>oc_agent = lf_opencode_agent l, oc_auto = None, oc_port = lf_opencode_port l\<rparr>"

definition legacy_provider_config :: "string \<Rightarrow> legacy_fields \<Rightarrow> provider_config" where
  "legacy_provider_config provider l =
     (let k = provider_key provider in
      if k = ''gemini'' then Gemini (gemini_of_legacy l)
      else if k = ''codex'' then Codex (codex_of_legacy l)
      else if k = ''antigravity'' then Antigravity antigravity_default
      else if k = ''opencode'' then OpenCode (opencode_of_legacy l)
      else if k = ''pi'' then Pi pi_default
      else if k = ''mock'' then MockProvider mock_default
      else if k = ''claude'' then Claude (claude_of_legacy l)
      else if trim provider = [] then Claude (claude_of_legacy l)
      else default_for_provider provider)"

text \<open>The flat fields show what the typed configuration holds.\<close>

definition legacy_of :: "provider_config \<Rightarrow> legacy_fields" where
  "legacy_of c = (case c of
     Claude x \<Rightarrow> no_legacy\<lparr>lf_permission_mode := cl_permission_mode x, lf_max_turns := cl_max_turns x,
       lf_allowed_tools := cl_allowed_tools x, lf_disallowed_tools := cl_disallowed_tools x,
       lf_append_system_prompt := cl_append_system_prompt x, lf_mcp_config := cl_mcp_config x\<rparr>
   | Gemini x \<Rightarrow> no_legacy\<lparr>lf_sandbox := ge_sandbox x, lf_yolo := ge_yolo x,
       lf_approval_mode := ge_approval_mode x, lf_policy := ge_policy x,
       lf_experimental_acp := ge_experimental_acp x,
       lf_allowed_mcp_server_names := ge_allowed_mcp_server_names x, lf_extensions := ge_extensions x,
       lf_screen_reader := ge_screen_reader x, lf_output_format := ge_output_format x\<rparr>
   | Codex x \<Rightarrow> no_legacy\<lparr>lf_codex_sandbox_mode := cx_sandbox_mode x,
       lf_codex_approval_policy := cx_approval_policy x, lf_codex_profile := cx_profile x,
       lf_codex_full_auto := cx_full_auto x, lf_codex_search := cx_search x,
       lf_codex_skip_git_repo_check := cx_skip_git_repo_check x, lf_codex_ephemeral := cx_ephemeral x,
       lf_codex_cleared_provider_sessions := cx_cleared_provider_sessions x\<rparr>
   | OpenCode x \<Rightarrow> no_legacy\<lparr>lf_opencode_agent := oc_agent x, lf_opencode_port := oc_port x\<rparr>
   | _ \<Rightarrow> no_legacy)"

definition sync_legacy_fields :: "agent_config \<Rightarrow> agent_config" where
  "sync_legacy_fields c = c\<lparr>ac_legacy := legacy_of (ac_provider_config c)\<rparr>"

definition chosen_provider_config :: "agent_config_compat \<Rightarrow> provider_config" where
  "chosen_provider_config stored =
     (let provider = ac_provider stored;
          legacy = legacy_provider_config provider (ac_legacy stored);
          dflt = default_for_provider provider;
          parsed = (case cc_provider_config stored of
             None \<Rightarrow> None
           | Some v \<Rightarrow> (case provider_config_from_value v of Inl _ \<Rightarrow> None | Inr c \<Rightarrow> Some c))
      in case parsed of
           Some c \<Rightarrow> if matches_provider c provider then c else if legacy \<noteq> dflt then legacy else dflt
         | None \<Rightarrow> legacy)"

definition from_compat :: "agent_config_compat \<Rightarrow> agent_config" where
  "from_compat stored = sync_legacy_fields
     (agent_fields.extend
       ((agent_fields.truncate stored)\<lparr>ac_fresh_provider_session_id :=
          if ac_provider stored = ''pi'' \<and> ac_resume_session stored = None
          then ac_fresh_provider_session_id stored else None\<rparr>)
       (agent_config.fields (chosen_provider_config stored)
          (if cc_provider_config stored \<noteq> None then Nested else LegacyFlat)))"

definition read_agent_config :: "json \<Rightarrow> data_error + agent_config" where
  "read_agent_config v = res_bind (dec_compat v) (\<lambda>stored. Inr (from_compat stored))"

section \<open>Operations\<close>

definition pending_pi_session_id :: "agent_config \<Rightarrow> string option" where
  "pending_pi_session_id c =
     (if ac_provider c \<noteq> ''pi'' \<or> ac_resume_session c \<noteq> None then None
      else case ac_fresh_provider_session_id c of
        Some i \<Rightarrow> if trim i \<noteq> [] then Some i else None
      | None \<Rightarrow> None)"

definition claude_config :: "agent_config \<Rightarrow> claude_provider_config" where
  "claude_config c = (case ac_provider_config c of
     Claude x \<Rightarrow> if provider_key (ac_provider c) = ''claude'' then x else claude_default
   | _ \<Rightarrow> claude_default)"

definition gemini_config :: "agent_config \<Rightarrow> gemini_provider_config" where
  "gemini_config c = (case ac_provider_config c of
     Gemini x \<Rightarrow> if provider_key (ac_provider c) = ''gemini'' then x else gemini_default
   | _ \<Rightarrow> gemini_default)"

definition codex_config :: "agent_config \<Rightarrow> codex_provider_config" where
  "codex_config c = (case ac_provider_config c of
     Codex x \<Rightarrow> if provider_key (ac_provider c) = ''codex'' then x else codex_default
   | _ \<Rightarrow> codex_default)"

definition antigravity_config :: "agent_config \<Rightarrow> antigravity_provider_config" where
  "antigravity_config c = (case ac_provider_config c of
     Antigravity x \<Rightarrow> if provider_key (ac_provider c) = ''antigravity'' then x else antigravity_default
   | _ \<Rightarrow> antigravity_default)"

definition opencode_config :: "agent_config \<Rightarrow> opencode_provider_config" where
  "opencode_config c = (case ac_provider_config c of
     OpenCode x \<Rightarrow> if provider_key (ac_provider c) = ''opencode'' then x else opencode_default
   | _ \<Rightarrow> opencode_default)"

definition pi_config :: "agent_config \<Rightarrow> pi_provider_config" where
  "pi_config c = (case ac_provider_config c of
     Pi x \<Rightarrow> if provider_key (ac_provider c) = ''pi'' then x else pi_default
   | _ \<Rightarrow> pi_default)"

definition codex_config_update ::
  "(codex_provider_config \<Rightarrow> codex_provider_config) \<Rightarrow> agent_config \<Rightarrow> agent_config" where
  "codex_config_update f c = c\<lparr>ac_provider_config :=
     Codex (f (case ac_provider_config c of Codex x \<Rightarrow> x | _ \<Rightarrow> codex_default))\<rparr>"

definition antigravity_config_update ::
  "(antigravity_provider_config \<Rightarrow> antigravity_provider_config) \<Rightarrow> agent_config \<Rightarrow> agent_config" where
  "antigravity_config_update f c = c\<lparr>ac_provider_config :=
     Antigravity (f (case ac_provider_config c of Antigravity x \<Rightarrow> x | _ \<Rightarrow> antigravity_default))\<rparr>"

definition reset_provider_config :: "agent_config \<Rightarrow> agent_config" where
  "reset_provider_config c =
     sync_legacy_fields (c\<lparr>ac_provider_config := default_for_provider (ac_provider c)\<rparr>)"

definition normalize_provider_config :: "agent_config \<Rightarrow> agent_config" where
  "normalize_provider_config c =
     (if \<not> matches_provider (ac_provider_config c) (ac_provider c) then reset_provider_config c else c)"

definition mark_nested_for_save :: "agent_config \<Rightarrow> agent_config" where
  "mark_nested_for_save c = sync_legacy_fields (c\<lparr>ac_provider_config_encoding := Nested\<rparr>)"

definition validate_provider_config :: "agent_config \<Rightarrow> string + unit" where
  "validate_provider_config c =
     (if matches_provider (ac_provider_config c) (ac_provider c) then Inr ()
      else Inl (''provider_config type '' @ [CHR 0x27] @ type_name (ac_provider_config c) @ [CHR 0x27] @
                '' does not match provider '' @ [CHR 0x27] @ ac_provider c @ [CHR 0x27]))"

section \<open>Writing\<close>

definition enc_shared :: "agent_config \<Rightarrow> (string \<times> json) list" where
  "enc_shared c =
     [(''session_id'', JString (ac_session_id c)),
      (''session_name'', JString (ac_session_name c)),
      (''description'', JString (ac_description c)),
      (''agent_class'', JString (ac_agent_class c)),
      (''folder'', JString (ac_folder c)),
      (''git_worktree'', enc_option JBool (ac_git_worktree c)),
      (''git_worktree_source'', enc_option JString (ac_git_worktree_source c)),
      (''git_worktree_folder'', enc_option JString (ac_git_worktree_folder c)),
      (''resume_session'', enc_option JString (ac_resume_session c)),
      (''is_off'', JBool (ac_is_off c)),
      (''provider'', JString (ac_provider c)),
      (''debug'', enc_option JBool (ac_debug c)),
      (''model'', enc_option JString (ac_model c)),
      (''include_directories'', enc_option enc_strings (ac_include_directories c)),
      (''system_include_directories'', enc_option enc_strings (ac_system_include_directories c)),
      (''custom_args'', enc_option JString (ac_custom_args c)),
      (''session_persistence'', enc_session_persistence (ac_session_persistence c)),
      (''conversation_logging'', enc_conversation_logging (ac_conversation_logging c))] @
     skip_none ''fresh_provider_session_id'' JString (pending_pi_session_id c)"

definition enc_legacy_provider_fields :: "agent_config \<Rightarrow> (string \<times> json) list" where
  "enc_legacy_provider_fields c =
     (let k = provider_key (ac_provider c) in
      if k = ''gemini'' then
        (let x = gemini_config c in
         [(''sandbox'', enc_option JBool (ge_sandbox x)),
          (''yolo'', enc_option JBool (ge_yolo x)),
          (''approval_mode'', enc_option JString (ge_approval_mode x)),
          (''policy'', enc_option enc_strings (ge_policy x)),
          (''experimental_acp'', enc_option JBool (ge_experimental_acp x)),
          (''allowed_mcp_server_names'', enc_option enc_strings (ge_allowed_mcp_server_names x)),
          (''extensions'', enc_option enc_strings (ge_extensions x)),
          (''screen_reader'', enc_option JBool (ge_screen_reader x)),
          (''output_format'', enc_option JString (ge_output_format x))])
      else if k = ''codex'' then
        (let x = codex_config c in
         [(''codex_sandbox_mode'', enc_option JString (cx_sandbox_mode x)),
          (''codex_approval_policy'', enc_option JString (cx_approval_policy x)),
          (''codex_profile'', enc_option JString (cx_profile x)),
          (''codex_full_auto'', enc_option JBool (cx_full_auto x)),
          (''codex_search'', enc_option JBool (cx_search x)),
          (''codex_skip_git_repo_check'', enc_option JBool (cx_skip_git_repo_check x)),
          (''codex_ephemeral'', enc_option JBool (cx_ephemeral x))] @
         skip_empty ''codex_cleared_provider_sessions'' (cx_cleared_provider_sessions x))
      else if k = ''antigravity'' then []
      else if k = ''opencode'' then
        (let x = opencode_config c in
         [(''opencode_agent'', enc_option JString (oc_agent x)),
          (''opencode_port'', enc_option enc_uint (oc_port x))])
      else if k = ''pi'' then []
      else
        (let x = claude_config c in
         [(''permission_mode'', enc_option JString (cl_permission_mode x)),
          (''max_turns'', enc_option enc_uint (cl_max_turns x)),
          (''allowed_tools'', enc_option enc_strings (cl_allowed_tools x)),
          (''disallowed_tools'', enc_option enc_strings (cl_disallowed_tools x)),
          (''append_system_prompt'', enc_option JString (cl_append_system_prompt x)),
          (''mcp_config'', enc_option JString (cl_mcp_config x))]))"

definition write_agent_config :: "agent_config \<Rightarrow> json" where
  "write_agent_config c = JObject (enc_shared c @
     (if ac_provider_config_encoding c = LegacyFlat then enc_legacy_provider_fields c
      else [(''provider_config'', provider_config_to_value (ac_provider_config c))]))"

end
