(* ===== verification/Agent_Config_Laws.thy ===== *)
theory Agent_Config_Laws
  imports Agent_Config_Doc
begin

text \<open>
  What is stored of an agent's configuration can be read back. A codec is a writer and a
  reader that undoes it; the readers of the members are codecs, the optional members and the
  structures are built from them.
\<close>

section \<open>Codecs\<close>

named_theorems codec_simps \<open>a member that was written is read back\<close>

declare map_of_append [simp del]

definition or_member :: "('a \<Rightarrow> json) \<Rightarrow> 'a option \<Rightarrow> json option \<Rightarrow> json option" where
  "or_member e x r = (case x of None \<Rightarrow> r | Some y \<Rightarrow> Some (e y))"

lemma map_of_skip [codec_simps]:
  "map_of (skip_none k e x @ r) k' = (if k' = k then or_member e x (map_of r k') else map_of r k')"
  "map_of (skip_none k e x) k' = (if k' = k then or_member e x None else None)"
  by (auto simp: skip_none_def or_member_def split: option.splits)

lemma map_of_skip_empty [codec_simps]:
  "map_of (skip_empty k xs) k' = (if k' = k \<and> xs \<noteq> [] then Some (enc_strings xs) else None)"
  by (auto simp: skip_empty_def)

locale codec =
  fixes enc :: "'a \<Rightarrow> json" and dec :: "json \<Rightarrow> data_error + 'a"
  assumes dec_enc: "dec (enc x) = Inr x" and enc_not_null: "enc x \<noteq> JNull"
begin

lemma option_dec_enc: "dec_option dec (enc_option enc x) = Inr x"
  by (simp add: dec_option_def enc_option_def dec_enc enc_not_null split: option.split)

lemma written_member: "(case Some (enc x) of None \<Rightarrow> Inr d | Some v \<Rightarrow> dec v) = Inr x"
  by (simp add: dec_enc)

lemma skipped_member:
  "(case or_member enc x None of None \<Rightarrow> Inr None | Some v \<Rightarrow> dec_option dec v) = Inr x"
  by (cases x) (simp_all add: or_member_def dec_option_def dec_enc enc_not_null)

end

lemma res_map_strings [simp]: "res_map dec_string (map JString xs) = Inr xs"
  by (induction xs) (simp_all add: dec_string_def)

interpretation string_codec: codec JString dec_string
  by unfold_locales (simp_all add: dec_string_def)

interpretation bool_codec: codec JBool dec_bool
  by unfold_locales (simp_all add: dec_bool_def)

interpretation strings_codec: codec enc_strings dec_strings
  by unfold_locales (simp_all add: enc_strings_def dec_strings_def)

lemma uint_dec_enc:
  fixes n :: "'a::len word"
  assumes "LENGTH('a) \<le> 64"
  shows "dec_uint (enc_uint n) = Inr n"
proof -
  have bound: "unat n < 2 ^ LENGTH('a)" by (rule unsigned_less)
  also have "\<dots> \<le> (2::nat) ^ 64" using assms by (rule power_increasing) simp
  finally have "unat (ucast n :: u64) = unat n"
    by (simp add: unsigned_ucast_eq take_bit_nat_eq_self)
  moreover have "(ucast (ucast n :: u64) :: 'a word) = n"
    by (rule ucast_up_ucast_id) (simp add: is_up.rep_eq assms)
  ultimately show ?thesis using bound by (simp add: dec_uint_def enc_uint_def)
qed

interpretation u16_codec: codec "enc_uint :: u16 \<Rightarrow> json" dec_uint
  by unfold_locales (simp_all add: uint_dec_enc, simp add: enc_uint_def)

interpretation u32_codec: codec "enc_uint :: u32 \<Rightarrow> json" dec_uint
  by unfold_locales (simp_all add: uint_dec_enc, simp add: enc_uint_def)

interpretation u64_codec: codec "enc_uint :: u64 \<Rightarrow> json" dec_uint
  by unfold_locales (simp_all add: uint_dec_enc, simp add: enc_uint_def)

interpretation persistence_codec:
  codec enc_session_persistence "dec_variant session_persistence_names"
proof
  fix x show "dec_variant session_persistence_names (enc_session_persistence x) = Inr x"
    by (cases x) (simp_all add: dec_variant_def session_persistence_names_def)
  show "enc_session_persistence x \<noteq> JNull" by (cases x) simp_all
qed

interpretation logging_codec:
  codec enc_conversation_logging "dec_variant conversation_logging_names"
proof
  fix x show "dec_variant conversation_logging_names (enc_conversation_logging x) = Inr x"
    by (cases x) (simp_all add: dec_variant_def conversation_logging_names_def)
  show "enc_conversation_logging x \<noteq> JNull" by (cases x) simp_all
qed

lemmas read_back [codec_simps] =
  string_codec.skipped_member bool_codec.skipped_member strings_codec.skipped_member
  u16_codec.skipped_member u32_codec.skipped_member u64_codec.skipped_member
  string_codec.option_dec_enc bool_codec.option_dec_enc strings_codec.option_dec_enc
  u16_codec.option_dec_enc u32_codec.option_dec_enc u64_codec.option_dec_enc
  string_codec.dec_enc bool_codec.dec_enc strings_codec.dec_enc persistence_codec.dec_enc
  logging_codec.dec_enc

lemma read_back_list [codec_simps]:
  "(case (if xs \<noteq> [] then Some (enc_strings xs) else None) of None \<Rightarrow> Inr [] | Some v \<Rightarrow> dec_strings v) = Inr xs"
  by (simp add: strings_codec.dec_enc)

section \<open>The configuration of a provider\<close>

lemma members_with_type [codec_simps]:
  "struct_members ns (to_value_with_type t ms) = Inr ((map_of ms)(''type'' \<mapsto> JString t))"
  by (simp add: struct_members_def to_value_with_type_def im_get_update fun_eq_iff)

lemma claude_round_trip: "dec_claude (to_value_with_type t (enc_claude x)) = Inr x"
  by (simp add: dec_claude_def enc_claude_def member_def codec_simps)

lemma gemini_round_trip: "dec_gemini (to_value_with_type t (enc_gemini x)) = Inr x"
  by (simp add: dec_gemini_def enc_gemini_def member_def codec_simps)

lemma codex_round_trip: "dec_codex (to_value_with_type t (enc_codex x)) = Inr x"
  by (simp add: dec_codex_def enc_codex_def member_def codec_simps)

lemma antigravity_round_trip: "dec_antigravity (to_value_with_type t (enc_antigravity x)) = Inr x"
  by (simp add: dec_antigravity_def enc_antigravity_def member_def codec_simps)

lemma opencode_round_trip: "dec_opencode (to_value_with_type t (enc_opencode x)) = Inr x"
  by (simp add: dec_opencode_def enc_opencode_def member_def codec_simps)

lemma pi_round_trip: "dec_pi (to_value_with_type t (enc_pi x)) = Inr x"
  by (simp add: dec_pi_def enc_pi_def member_def codec_simps)

lemma mock_round_trip: "dec_mock (to_value_with_type t (enc_mock x)) = Inr x"
  by (simp add: dec_mock_def enc_mock_def member_def codec_simps)

text \<open>A value of another provider is one that no known tag leads to.\<close>

definition tag_of :: "json \<Rightarrow> string" where
  "tag_of v = ascii_lower (case Option.bind (jget ''type'' v) as_str of None \<Rightarrow> [] | Some t \<Rightarrow> t)"

definition provider_config_ok :: "provider_config \<Rightarrow> bool" where
  "provider_config_ok c = (case c of
     UnknownProvider v \<Rightarrow> v \<noteq> JNull \<and> jwf v \<and> tag_of v \<notin> set known_providers
   | _ \<Rightarrow> True)"

lemma tag_with_type: "tag_of (to_value_with_type t ms) = ascii_lower t"
  by (simp add: tag_of_def to_value_with_type_def im_get_update)

lemma provider_config_round_trip:
  "provider_config_ok c \<Longrightarrow> provider_config_from_value (provider_config_to_value c) = Inr c"
proof (cases c)
  case (UnknownProvider v)
  assume "provider_config_ok c"
  with UnknownProvider have "tag_of v \<notin> set known_providers"
    by (simp add: provider_config_ok_def)
  then show ?thesis
    unfolding provider_config_from_value_def Let_def
    by (simp add: UnknownProvider provider_config_to_value_def known_providers_def flip: tag_of_def)
qed (simp_all add: provider_config_from_value_def provider_config_to_value_def Let_def
    flip: tag_of_def,
  simp_all add: tag_with_type ascii_lower_def less_eq_char_def claude_round_trip gemini_round_trip
    codex_round_trip antigravity_round_trip opencode_round_trip pi_round_trip mock_round_trip)

lemma provider_config_not_null: "provider_config_ok c \<Longrightarrow> provider_config_to_value c \<noteq> JNull"
  by (cases c) (simp_all add: provider_config_to_value_def to_value_with_type_def provider_config_ok_def)

lemma from_value_ok:
  assumes "provider_config_from_value v = Inr c" and "v \<noteq> JNull" and "jwf v"
  shows "provider_config_ok c"
  using assms unfolding provider_config_from_value_def Let_def tag_of_def [symmetric]
  by (auto simp: provider_config_ok_def res_bind_eq_Inr known_providers_def split: if_splits)

section \<open>A configuration as a whole\<close>

definition no_keys :: "string list \<Rightarrow> (string \<times> json) list \<Rightarrow> bool" where
  "no_keys ks r \<longleftrightarrow> (\<forall>k \<in> set ks. map_of r k = None)"

lemma no_keysD: "no_keys ks r \<Longrightarrow> k \<in> set ks \<Longrightarrow> map_of r k = None"
  by (simp add: no_keys_def)

lemma shared_read_back:
  assumes "no_keys shared_names r"
    and "dec_legacy (map_of (enc_shared c @ r)) = Inr l"
  shows "dec_fields (map_of (enc_shared c @ r)) =
    Inr ((agent_fields.truncate c)\<lparr>ac_fresh_provider_session_id := pending_pi_session_id c, ac_legacy := l\<rparr>)"
proof -
  have "map_of r ''fresh_provider_session_id'' = None"
    using assms(1) by (rule no_keysD) (simp add: shared_names_def)
  then show ?thesis
    using assms(2)
    by (simp add: dec_fields_def member_def enc_shared_def codec_simps agent_fields.defs)
qed

lemma shared_keys: "set (map fst (enc_shared c)) \<subseteq> set shared_names"
  by (cases "pending_pi_session_id c") (simp_all add: enc_shared_def skip_none_def shared_names_def)

lemma legacy_keys: "set (map fst (enc_legacy_provider_fields c)) \<subseteq> set legacy_names"
  by (simp add: enc_legacy_provider_fields_def skip_empty_def legacy_names_def Let_def)

lemma names_apart:
  "list_all (\<lambda>k. k \<notin> set shared_names) (''provider_config'' # legacy_names)"
  "list_all (\<lambda>k. k \<noteq> ''provider_config'') legacy_names"
  by (simp_all add: shared_names_def legacy_names_def)

lemma after_shared:
  assumes "k \<in> set (''provider_config'' # legacy_names)"
  shows "map_of (enc_shared c @ r) k = map_of r k"
proof -
  have "k \<notin> set shared_names" using names_apart(1) assms unfolding list_all_iff by blast
  then have "map_of (enc_shared c) k = None"
    using shared_keys [of c] by (auto simp: map_of_eq_None_iff)
  then show ?thesis by (simp add: map_of_append map_add_def split: option.split)
qed

lemma dec_legacy_cong:
  "(\<And>k. k \<in> set legacy_names \<Longrightarrow> ms k = ms' k) \<Longrightarrow> dec_legacy ms = dec_legacy ms'"
  by (simp add: dec_legacy_def member_def legacy_names_def)

lemma dec_legacy_after_shared: "dec_legacy (map_of (enc_shared c @ r)) = dec_legacy (map_of r)"
  by (rule dec_legacy_cong) (simp add: after_shared)

lemma legacy_read_nested:
  "dec_legacy (map_of (enc_shared c @ [(''provider_config'', v)])) = Inr no_legacy"
  unfolding dec_legacy_after_shared by (simp add: dec_legacy_def member_def no_legacy_def)

text \<open>What the flat fields of a written file hold.\<close>

definition written_legacy :: "agent_config \<Rightarrow> legacy_fields" where
  "written_legacy c =
     (let k = provider_key (ac_provider c) in
      if k = ''gemini'' then legacy_of (Gemini (gemini_config c))
      else if k = ''codex'' then legacy_of (Codex (codex_config c))
      else if k = ''antigravity'' then no_legacy
      else if k = ''opencode'' then legacy_of (OpenCode (opencode_config c))
      else if k = ''pi'' then no_legacy
      else legacy_of (Claude (claude_config c)))"

section \<open>Names\<close>

lemma ascii_lower_Nil [simp]: "ascii_lower s = [] \<longleftrightarrow> s = []" "ascii_lower [] = []"
  by (simp_all add: ascii_lower_def)

lemma ascii_lower_idem [simp]: "ascii_lower (ascii_lower s) = ascii_lower s"
  by (induction s) (auto simp: ascii_lower_def less_eq_char_def)

lemma key_known: "provider_key p \<noteq> [] \<Longrightarrow> provider_key p \<in> set known_providers"
  by (auto simp: provider_key_def Let_def split: if_splits)

lemma key_unknown: "provider_key p = [] \<Longrightarrow> ascii_lower (trim p) \<notin> set known_providers"
  by (auto simp: provider_key_def Let_def known_providers_def split: if_splits)

lemma type_name_of_key:
  "provider_key p \<noteq> [] \<Longrightarrow> provider_type_name p = provider_key p"
  using key_known by (simp add: provider_type_name_def is_known_provider_type_def)

lemma type_name_of_other:
  assumes "provider_key p = []" and "trim p \<noteq> []"
  shows "provider_type_name p = ascii_lower (trim p)"
  using assms by (simp add: provider_type_name_def is_known_provider_type_def known_providers_def)

lemma type_name_of_blank: "trim p = [] \<Longrightarrow> provider_type_name p = ''claude''"
  by (simp add: provider_type_name_def is_known_provider_type_def provider_key_def known_providers_def)

lemma blank_key: "trim p = [] \<Longrightarrow> provider_key p = []"
  by (simp add: provider_key_def known_providers_def)

lemma key_cases [consumes 0, case_names gemini codex antigravity opencode pi mock claude blank other]:
  assumes "provider_key p = ''gemini'' \<Longrightarrow> P" "provider_key p = ''codex'' \<Longrightarrow> P"
    "provider_key p = ''antigravity'' \<Longrightarrow> P" "provider_key p = ''opencode'' \<Longrightarrow> P"
    "provider_key p = ''pi'' \<Longrightarrow> P" "provider_key p = ''mock'' \<Longrightarrow> P" "provider_key p = ''claude'' \<Longrightarrow> P"
    "provider_key p = [] \<Longrightarrow> trim p = [] \<Longrightarrow> P"
    "provider_key p = [] \<Longrightarrow> trim p \<noteq> [] \<Longrightarrow> P"
  shows P
  using assms key_known [of p] by (auto simp: known_providers_def)

lemma default_matches: "matches_provider (default_for_provider p) p \<and> provider_config_ok (default_for_provider p)"
proof (cases rule: key_cases [of p])
  case other
  with key_unknown [of p] type_name_of_other [of p] show ?thesis
    by (simp add: default_for_provider_def Let_def matches_provider_def type_name_def
        provider_config_ok_def im_wf_def tag_of_def known_providers_def)
next
  case blank
  then show ?thesis
    by (simp add: default_for_provider_def Let_def matches_provider_def type_name_def
        provider_config_ok_def type_name_of_blank)
qed (simp_all add: default_for_provider_def matches_provider_def type_name_def
    provider_config_ok_def type_name_of_key)

lemma legacy_matches:
  "matches_provider (legacy_provider_config p l) p \<and> provider_config_ok (legacy_provider_config p l)"
proof (cases rule: key_cases [of p])
  case other
  then have "legacy_provider_config p l = default_for_provider p"
    by (simp add: legacy_provider_config_def)
  then show ?thesis by (simp add: default_matches)
next
  case blank
  then show ?thesis
    by (simp add: legacy_provider_config_def matches_provider_def type_name_def provider_config_ok_def
        type_name_of_blank)
qed (simp_all add: legacy_provider_config_def matches_provider_def type_name_def provider_config_ok_def
    type_name_of_key)

lemma legacy_read_flat:
  "dec_legacy (map_of (enc_shared c @ enc_legacy_provider_fields c)) = Inr (written_legacy c)"
  unfolding dec_legacy_after_shared
  by (cases rule: key_cases [of "ac_provider c"])
    (simp_all add: enc_legacy_provider_fields_def written_legacy_def dec_legacy_def member_def Let_def
      codec_simps legacy_of_def no_legacy_def)

section \<open>Reading normalises, and what is written reads back\<close>

definition config_ok :: "agent_config \<Rightarrow> bool" where
  "config_ok c \<longleftrightarrow> matches_provider (ac_provider_config c) (ac_provider c) \<and>
     provider_config_ok (ac_provider_config c)"

lemma member_jwf:
  "struct_members ns v = Inr ms \<Longrightarrow> jwf v \<Longrightarrow> ms k = Some w \<Longrightarrow> jwf w"
  by (auto simp: struct_members_def dest!: map_of_SomeD set_zip_rightD split: json.splits if_splits)

lemma chosen_ok:
  assumes "\<And>v. cc_provider_config stored = Some v \<Longrightarrow> v \<noteq> JNull \<and> jwf v"
  shows "matches_provider (chosen_provider_config stored) (ac_provider stored) \<and>
    provider_config_ok (chosen_provider_config stored)"
  using assms from_value_ok legacy_matches default_matches
  by (fastforce simp: chosen_provider_config_def Let_def split: option.splits sum.splits)

lemma compat_member:
  assumes "dec_compat v = Inr stored" and "jwf v" and "cc_provider_config stored = Some w"
  shows "w \<noteq> JNull \<and> jwf w"
proof -
  from assms(1) obtain ms flds pc where
    ms: "struct_members (shared_names @ [''provider_config''] @ legacy_names) v = Inr ms" and
    pc: "opt_member ms ''provider_config'' Inr = Inr pc" and
    stored: "stored = agent_fields.extend flds (agent_config_compat.fields pc)"
    unfolding dec_compat_def res_bind_eq_Inr by blast
  have "pc = Some w" using assms(3) by (simp add: stored agent_fields.defs agent_config_compat.defs)
  with pc have "ms ''provider_config'' = Some w \<and> w \<noteq> JNull"
    by (auto simp: member_def dec_option_def split: option.splits if_splits)
  with member_jwf [OF ms assms(2)] show ?thesis by blast
qed

lemma from_compat_simps [simp]:
  "ac_provider_config (from_compat s) = chosen_provider_config s"
  "ac_provider (from_compat s) = ac_provider s"
  "ac_legacy (from_compat s) = legacy_of (chosen_provider_config s)"
  by (simp_all add: from_compat_def sync_legacy_fields_def agent_fields.defs agent_config.defs)

lemma read_ok: "read_agent_config v = Inr c \<Longrightarrow> jwf v \<Longrightarrow> config_ok c"
  using compat_member chosen_ok by (fastforce simp: read_agent_config_def res_bind_eq_Inr config_ok_def)

definition persisted :: "agent_config \<Rightarrow> agent_config" where
  "persisted c = sync_legacy_fields (c\<lparr>ac_fresh_provider_session_id := pending_pi_session_id c,
     ac_provider_config := (if ac_provider_config_encoding c = LegacyFlat
       then legacy_provider_config (ac_provider c) (written_legacy c) else ac_provider_config c)\<rparr>)"

lemma pending_only_pi: "\<not> (ac_provider c = ''pi'' \<and> ac_resume_session c = None) \<Longrightarrow> pending_pi_session_id c = None"
  by (auto simp: pending_pi_session_id_def)

lemma pending_persisted: "pending_pi_session_id (persisted c) = pending_pi_session_id c"
  by (simp add: pending_pi_session_id_def persisted_def sync_legacy_fields_def split: option.split)

lemma write_members:
  "struct_members ns (write_agent_config c) = Inr (map_of (enc_shared c @
     (if ac_provider_config_encoding c = LegacyFlat then enc_legacy_provider_fields c
      else [(''provider_config'', provider_config_to_value (ac_provider_config c))])))"
  by (simp add: struct_members_def write_agent_config_def)

lemma no_shared_in_legacy: "no_keys shared_names (enc_legacy_provider_fields c)"
  using legacy_keys [of c] names_apart(1)
  by (auto simp: no_keys_def map_of_eq_None_iff list_all_iff)

lemma no_shared_in_nested: "no_keys shared_names [(''provider_config'', v)]"
  using names_apart(1) by (auto simp: no_keys_def)

lemma stored_provider_config:
  "map_of (enc_shared c @ enc_legacy_provider_fields c) ''provider_config'' = None"
  "map_of (enc_shared c @ [(''provider_config'', v)]) ''provider_config'' = Some v"
  using legacy_keys [of c] names_apart(2)
  by (auto simp: after_shared map_of_eq_None_iff list_all_iff)

text \<open>The compatible form that the written value is read as.\<close>

definition written_compat :: "agent_config \<Rightarrow> agent_config_compat" where
  "written_compat c =
     (let flat = ac_provider_config_encoding c = LegacyFlat
      in agent_fields.extend
        ((agent_fields.truncate c)\<lparr>ac_fresh_provider_session_id := pending_pi_session_id c,
           ac_legacy := (if flat then written_legacy c else no_legacy)\<rparr>)
        (agent_config_compat.fields
          (if flat then None else Some (provider_config_to_value (ac_provider_config c)))))"

lemma read_compat:
  assumes "provider_config_ok (ac_provider_config c)"
  shows "dec_compat (write_agent_config c) = Inr (written_compat c)"
proof (cases "ac_provider_config_encoding c")
  case LegacyFlat
  have "dec_fields (map_of (enc_shared c @ enc_legacy_provider_fields c)) = Inr
      ((agent_fields.truncate c)\<lparr>ac_fresh_provider_session_id := pending_pi_session_id c,
        ac_legacy := written_legacy c\<rparr>)"
    by (rule shared_read_back [OF no_shared_in_legacy legacy_read_flat])
  then show ?thesis
    by (simp add: dec_compat_def write_members LegacyFlat member_def stored_provider_config written_compat_def)
next
  case Nested
  have "dec_fields (map_of (enc_shared c @ [(''provider_config'', provider_config_to_value (ac_provider_config c))]))
      = Inr ((agent_fields.truncate c)\<lparr>ac_fresh_provider_session_id := pending_pi_session_id c,
        ac_legacy := no_legacy\<rparr>)"
    by (rule shared_read_back [OF no_shared_in_nested legacy_read_nested])
  then show ?thesis using provider_config_not_null [OF assms]
    by (simp add: dec_compat_def write_members Nested member_def stored_provider_config written_compat_def
        dec_option_def)
qed

lemma chosen_written:
  assumes "config_ok c"
  shows "chosen_provider_config (written_compat c) =
    (if ac_provider_config_encoding c = LegacyFlat
     then legacy_provider_config (ac_provider c) (written_legacy c) else ac_provider_config c)"
  using assms
  by (cases "ac_provider_config_encoding c")
    (simp_all add: chosen_provider_config_def written_compat_def agent_fields.defs
      agent_config_compat.defs config_ok_def provider_config_round_trip)

lemma read_write:
  assumes "config_ok c"
  shows "read_agent_config (write_agent_config c) = Inr (persisted c)"
proof -
  let ?pc = "if ac_provider_config_encoding c = LegacyFlat
     then legacy_provider_config (ac_provider c) (written_legacy c) else ac_provider_config c"
  have "agent_fields.truncate (written_compat c) = (agent_fields.truncate c)\<lparr>ac_fresh_provider_session_id :=
      pending_pi_session_id c, ac_legacy := ac_legacy (written_compat c)\<rparr>"
    and "ac_provider (written_compat c) = ac_provider c"
    and "ac_resume_session (written_compat c) = ac_resume_session c"
    and "ac_fresh_provider_session_id (written_compat c) = pending_pi_session_id c"
    and "(if cc_provider_config (written_compat c) \<noteq> None then Nested else LegacyFlat) =
      ac_provider_config_encoding c"
    by (cases "ac_provider_config_encoding c";
      simp add: written_compat_def agent_fields.defs agent_config_compat.defs)+
  then have "from_compat (written_compat c) = persisted c"
    unfolding from_compat_def chosen_written [OF assms] persisted_def sync_legacy_fields_def
    by (intro agent_config.equality)
      (simp_all add: agent_fields.defs agent_config.defs pending_only_pi)
  then show ?thesis
    using assms by (simp add: read_agent_config_def read_compat config_ok_def)
qed

lemma flat_fields_stable:
  "enc_legacy_provider_fields (c\<lparr>ac_fresh_provider_session_id := i,
     ac_provider_config := legacy_provider_config (ac_provider c) (written_legacy c), ac_legacy := l\<rparr>) =
   enc_legacy_provider_fields c"
  by (cases rule: key_cases [of "ac_provider c"])
    (simp_all add: enc_legacy_provider_fields_def legacy_provider_config_def written_legacy_def
      gemini_config_def gemini_of_legacy_def codex_config_def codex_of_legacy_def opencode_config_def
      opencode_of_legacy_def claude_config_def claude_of_legacy_def legacy_of_def no_legacy_def
      default_for_provider_def Let_def claude_default_def split: provider_config.split)

lemma write_persisted: "write_agent_config (persisted c) = write_agent_config c"
proof -
  have "enc_shared (persisted c) = enc_shared c"
    by (simp add: enc_shared_def pending_persisted) (simp add: persisted_def sync_legacy_fields_def)
  moreover have "enc_legacy_provider_fields (persisted c) = enc_legacy_provider_fields c"
    if "ac_provider_config_encoding c = LegacyFlat"
    using that flat_fields_stable
    by (simp add: persisted_def sync_legacy_fields_def)
  moreover have "ac_provider_config (persisted c) = ac_provider_config c"
    if "ac_provider_config_encoding c = Nested"
    using that by (simp add: persisted_def sync_legacy_fields_def)
  moreover have "ac_provider_config_encoding (persisted c) = ac_provider_config_encoding c"
    by (simp add: persisted_def sync_legacy_fields_def)
  ultimately show ?thesis
    by (cases "ac_provider_config_encoding c") (simp_all add: write_agent_config_def)
qed

lemma persisted_ok: "config_ok c \<Longrightarrow> config_ok (persisted c)"
  by (simp add: config_ok_def persisted_def sync_legacy_fields_def legacy_matches)

text \<open>A configuration that was read, with either encoding, reads the same after it was written.\<close>

lemma flat_kept:
  assumes "trim p \<noteq> []" and "ac_provider c = p" and "ac_provider_config c = legacy_provider_config p l"
  shows "legacy_provider_config p (written_legacy c) = ac_provider_config c"
  using assms
  by (cases rule: key_cases [of p])
    (simp_all add: legacy_provider_config_def written_legacy_def gemini_config_def gemini_of_legacy_def
      codex_config_def codex_of_legacy_def opencode_config_def opencode_of_legacy_def claude_config_def
      claude_of_legacy_def legacy_of_def no_legacy_def claude_default_def)

lemma from_compat_encoding:
  "ac_provider_config_encoding (from_compat s) = (if cc_provider_config s \<noteq> None then Nested else LegacyFlat)"
  by (simp add: from_compat_def sync_legacy_fields_def agent_fields.defs agent_config.defs)

lemma flat_chosen:
  "cc_provider_config s = None \<Longrightarrow>
     chosen_provider_config s = legacy_provider_config (ac_provider s) (ac_legacy s)"
  by (simp add: chosen_provider_config_def)

lemma persisted_read:
  assumes "read_agent_config v = Inr c" and "trim (ac_provider c) \<noteq> []"
  shows "persisted c = c\<lparr>ac_fresh_provider_session_id := pending_pi_session_id c\<rparr>"
proof -
  from assms(1) obtain s where c: "c = from_compat s"
    by (auto simp: read_agent_config_def res_bind_eq_Inr)
  have "legacy_provider_config (ac_provider c) (written_legacy c) = ac_provider_config c"
    if "ac_provider_config_encoding c = LegacyFlat"
    using that assms(2) unfolding c
    by (intro flat_kept) (auto simp: from_compat_encoding flat_chosen split: if_splits)
  moreover have "ac_legacy c = legacy_of (ac_provider_config c)" by (simp add: c)
  ultimately show ?thesis
    by (intro agent_config.equality) (simp_all add: persisted_def sync_legacy_fields_def)
qed

end
