(* ===== verification/Agent_Config_Promises.thy ===== *)
theory Agent_Config_Promises
  imports Agent_Config_Laws
begin

text \<open>
  What an agent's stored configuration promises: reading brings the typed configuration in
  line with the agent's provider, and saving what was read loses nothing. The one exception
  is a blank provider in an old file, whose options are dropped by the next save.
\<close>

definition codex_file :: json where
  "codex_file = JObject [(''session_id'', JString ''a1''), (''provider'', JString ''Codex''),
     (''codex_profile'', JString ''work''), (''is_off'', JBool True),
     (''codex_cleared_provider_sessions'', JArray [JString ''s0''])]"

definition codex_read :: agent_config where
  "codex_read = (case read_agent_config codex_file of Inr c \<Rightarrow> c | Inl _ \<Rightarrow> agent_config_default)"

lemma codex_file_read: "read_agent_config codex_file = Inr codex_read"
  by code_simp

lemma codex_file_jwf: "jwf codex_file"
  by (simp add: codex_file_def im_wf_def)

text \<open>
  C39. Reading an agent's configuration brings its typed part in line with its provider: the
  check before a save accepts it, normalising it again changes nothing, and the flat fields
  show exactly what the typed configuration holds.
\<close>

theorem reading_normalises:
  assumes "read_agent_config v = Inr c" and "jwf v"
  shows "validate_provider_config c = Inr () \<and> normalize_provider_config c = c \<and>
    ac_legacy c = legacy_of (ac_provider_config c)"
proof -
  from assms(1) have "ac_legacy c = legacy_of (ac_provider_config c)"
    by (auto simp: read_agent_config_def res_bind_eq_Inr)
  with read_ok [OF assms] show ?thesis
    by (simp add: config_ok_def validate_provider_config_def normalize_provider_config_def)
qed

theorem reading_normalises_witness:
  "validate_provider_config codex_read = Inr () \<and> normalize_provider_config codex_read = codex_read \<and>
    ac_legacy codex_read = legacy_of (ac_provider_config codex_read)"
  by (rule reading_normalises [OF codex_file_read codex_file_jwf])

text \<open>
  C38. When the provider of a configuration that was read is not blank (something is left of
  it after trimming white space), saving the configuration and reading it again returns it,
  whichever of the two encodings its file has; only a reserved Pi session that is no longer
  pending is dropped. Without a provider this does not hold: the options of such an agent are
  lost, as the example below shows.
\<close>

theorem saving_keeps_config:
  assumes "read_agent_config v = Inr c" and "jwf v" and "trim (ac_provider c) \<noteq> []"
  shows "read_agent_config (write_agent_config c) =
    Inr (c\<lparr>ac_fresh_provider_session_id := pending_pi_session_id c\<rparr>)"
  using read_write [OF read_ok [OF assms(1,2)]] persisted_read [OF assms(1,3)] by simp

theorem saving_keeps_config_witness:
  "read_agent_config (write_agent_config codex_read) =
    Inr (codex_read\<lparr>ac_fresh_provider_session_id := pending_pi_session_id codex_read\<rparr>)"
  by (rule saving_keeps_config [OF codex_file_read codex_file_jwf]) code_simp

text \<open>A blank provider means Claude when its options are read, and none when they are written.\<close>

definition blank_file :: json where
  "blank_file = JObject [(''session_id'', JString ''a1''), (''provider'', JString []),
     (''permission_mode'', JString ''plan'')]"

theorem blank_provider_loses_options:
  "(case read_agent_config blank_file of Inl _ \<Rightarrow> False | Inr c \<Rightarrow>
      lf_permission_mode (ac_legacy c) = Some ''plan'' \<and>
      (case read_agent_config (write_agent_config c) of Inl _ \<Rightarrow> False | Inr c' \<Rightarrow>
         lf_permission_mode (ac_legacy c') = None))"
  by code_simp

end
