(* ===== verification/Spec2Isabelle.thy ===== *)
theory Spec2Isabelle
  imports Blueprint Interpolate Node_Registry Cycle Validate Engine_Mock
    Engine_Termination Topology_Control Queue Session_Close Lease_Laws Worker_Runner
    Workbench_Theorems Messaging_Examples Agent_Config_Promises
begin

text \<open>
  Wardian runs fleets of coding agents. This development models the core of the program
  that decides things, the crate \<open>wardian-core\<close> (\<open>src/crates/wardian-core/src\<close>, the paths
  below are relative to it), and the places of the desktop application
  (\<open>src/src-tauri/src\<close>) and of the command-line client where it is driven, and proves
  what makes it correct. Every operation is an executable function that follows the
  code branch by branch; what the code asks of the world (file system, database, clock,
  random identifiers, host processes, number printing, RFC 3339 and YAML codecs) is a
  record of answers, so every failure is a value the theorems quantify over.

  Parts and theories.

  Shared: \<open>Prelude\<close> (results as sums, Rust strings as bytes with \<open>trim\<close> and \<open>split\<close>,
  ordered and insertion-ordered maps behind the locale \<open>kv_store\<close>, the locale
  \<open>guarded_machine\<close> of steps that keep an invariant), \<open>Json\<close> (\<open>serde_json::Value\<close>),
  \<open>Stable_Sort\<close> (the locale \<open>stable_order\<close> of sorted windows).

  Automations. A blueprint is a graph of nodes and ports. \<open>Blueprint\<close>
  (\<open>automation/blueprint.rs\<close>, \<open>normalize.rs\<close>, \<open>diff.rs\<close>) holds the data, the canonical
  order and the diff; \<open>Condition\<close> and \<open>Interpolate\<close> the two small languages of node
  fields (\<open>automation/condition.rs\<close>, \<open>engine/interpolate.rs\<close>); \<open>Node_Registry\<close> the table
  of node types (\<open>automation/registry.rs\<close>); \<open>Cycle\<close> and \<open>Validate\<close> the validation
  (\<open>automation/validate.rs\<close>), proved equivalent to a declarative description, with Kahn's
  algorithm proved to decide acyclicity; \<open>Assignment\<close> the roles of an automation.

  The engine. \<open>Engine_State\<close> and \<open>Engine_Core\<close> (\<open>engine/state.rs\<close>, \<open>event.rs\<close>, \<open>core.rs\<close>,
  \<open>graph.rs\<close>) are event-sourced: \<open>step\<close> lists the runnable nodes, \<open>apply_event\<close> is the only
  writer of the state, \<open>finalize_if_done\<close> and \<open>advance_loops\<close> plan skips and iterations.
  \<open>Engine_Store\<close> is the run directory (an append-only log, checkpoints, markers) and a
  small state monad over it with failures: an append may write nothing, a part of its line,
  or the line without its end, on which the next append then writes; \<open>Engine_Driver\<close> and \<open>Engine_Api\<close>
  (\<open>engine/driver.rs\<close>) the loop that dispatches nodes to the host, and starting, resuming,
  replaying, cancelling and approving. \<open>Engine_Laws\<close> proves the core (no panic, the run
  invariant, skips, loops, storage, message bindings), \<open>Engine_Recovery\<close> that the
  directory always recovers the run unless an append was cut short within a line,
  \<open>Engine_Progress\<close> that finalization is logged and persisted as planned, \<open>Engine_Termination\<close> that every run returns, \<open>Engine_Approval\<close> the decisions and the blueprint
  guard; \<open>Engine_Mock\<close> instantiates the host with the repository's own test executor.

  Topology. \<open>Topology\<close> (\<open>topology.rs\<close>, \<open>registry_reconciliation.rs\<close>) is who may talk to
  whom: edges, ignored pairs, seeds of teams and their suppressions, canonical files.
  \<open>Topology_Control\<close> holds its writers (\<open>src-tauri\<close>: \<open>commands/topology.rs\<close>,
  \<open>topology_audit.rs\<close>, \<open>commands/watchlist.rs\<close>; the client's \<open>watchlist.rs\<close>), with authority
  and audit. \<open>Topology_Laws\<close> proves soundness, durability of deletions, exactness of
  seeding and of neighbours, and the round trip of the file.

  Coordination between processes. \<open>Lease\<close> (\<open>conversation_lease.rs\<close>) is the file of leases
  on provider conversations; \<open>Lease_Laws\<close> reduces every locked operation to one of six
  moves and proves mutual exclusion, holds, and that every operation fails closed.
  \<open>Workers\<close> (\<open>temporary_workers.rs\<close>) is the table of temporary workers, each SQL statement
  a function with its constraints; \<open>Workers_Laws\<close> proves the table a sound history and the
  evidence convergent; \<open>Worker_Runner\<close> (\<open>src-tauri\<close>: \<open>automation/runner.rs\<close>) composes it
  with a run of the provider, whatever other processes do meanwhile.

  Agent messaging. \<open>Messaging\<close> holds the records (\<open>agent_messaging.rs\<close>, \<open>control.rs\<close>) and the
  tables of the store of messages, each the list of its rows, with the statements that read
  and write them. \<open>Messaging_Store\<close> and \<open>Messaging_Receive\<close> are \<open>db/agent_messaging.rs\<close> and
  \<open>provider_claims.rs\<close>: admission, replies, pages, claims, releases, the deletion of an agent;
  \<open>Task_Turns\<close> is \<open>task_turns.rs\<close>, the outbox of the outcomes of provider turns. A transaction
  commits, fails, or commits with its receipt lost. \<open>Messaging_Machine\<close> makes one machine of all
  operations and gives the abstract specification, the automaton of who owns a message;
  \<open>Messaging_Events\<close> the atomic events and what a sound store is, \<open>Messaging_Laws\<close> that every event
  keeps it and follows the automaton, \<open>Messaging_Exec\<close>, \<open>Messaging_Pages\<close> and
  \<open>Messaging_Simulation\<close> that every operation is a history of events. From these
  \<open>Messaging_Ownership\<close> proves that one owner exposes a message, \<open>Messaging_Cells\<close> what is
  written once, \<open>Messaging_Promises\<close> what callers that repeat themselves may rely on,
  \<open>Messaging_Replay\<close> what a page is and that a cursor returns it again, \<open>Messaging_Recovery\<close> that
  recovery publishes every recorded outcome, and \<open>Messaging_Deletion\<close> what the deletion of an
  agent removes; \<open>Messaging_Examples\<close> evaluates a run of the machine.

  Agents. \<open>Agent_Config\<close> and \<open>Agent_Config_Doc\<close> (\<open>models/agent_config.rs\<close>) are the stored
  configuration of an agent: the typed options of each provider, the two encodings of a file,
  reading with normalisation and writing; \<open>Agent_Config_Laws\<close> proves writer and reader codecs,
  from those of the members up (the locale \<open>codec\<close>), and \<open>Agent_Config_Promises\<close> that a save
  loses nothing.

  The saved layout. \<open>Atomic_File\<close> (\<open>atomic_file.rs\<close>) is the durable replacement of a file:
  one directory with what it shows and, for every name, what may be left after a loss of
  power; each system call works, fails, or breaks with its effect done or half done.
  \<open>Atomic_Laws\<close> has the triples over such effects (\<open>ends\<close>) and the states a write can stop
  in. \<open>Workbench\<close> (\<open>models/workbench.rs\<close>) is the layout document and its validation, which
  \<open>Workbench_Valid\<close> proves equivalent to a description of well-formed layouts.
  \<open>Workbench_Store\<close> (\<open>workbench.rs\<close>) loads, saves and resets the document with a backup, a
  token and a ledger of requests; \<open>Workbench_Laws\<close> shows how a home resolves,
  \<open>Workbench_Ledger\<close> the ledger's bounds, \<open>Workbench_Save\<close> what every run of a save or a reset
  amounts to, \<open>Workbench_Promises\<close> and \<open>Workbench_Progress\<close> safety and progress from that, and
  \<open>Workbench_Theorems\<close> states them for whole requests. Serde's printing and parsing of a
  document, SHA-256, the calendar and the clock are parameters. Of a saved document the
  theorems ask \<open>stored_as\<close>, that its print is read as a document of the same revision, which
  need not be the same one: serde_json is built without exact reading of fractions. Only the
  theorems on resets ask \<open>reads_back\<close> of the default document, whose numbers are
  integers. The entry of a settings directory that the code makes is never flushed; the
  model has directories that are missing, made but not flushed, and durable.

  Readers. \<open>Queue\<close> (\<open>queue.rs\<close>) is the bounded page of the inbox, proved equal to sorting
  the whole file; \<open>Session_Close\<close> (\<open>session_close.rs\<close>) the stored invokers.

  How it fits together. A run of an automation is validated (\<open>Validate\<close>), started and driven
  (\<open>Engine_Api\<close>, \<open>Engine_Driver\<close>); its agent nodes go to the host, which registers a worker
  (\<open>Worker_Runner\<close>), takes a lease on a saved conversation (\<open>Lease\<close>) or routes a message to a
  neighbour (\<open>Topology\<close>), which is admitted to the store of messages (\<open>Messaging_Store\<close>).

  Bounds and fuel. The main loop of the driver is a \<open>while\<close> without a bound; it is modelled
  with fuel. \<open>every_run_returns\<close> shows that \<open>round_bound\<close> rounds are enough for every
  blueprint: a rank made of the iterations the loops have left (at most \<open>2 ^ 32 + 1\<close> each), the
  nodes not at their end and the pending nodes falls in every round that goes on. Without loops
  one round more than the blueprint has nodes is enough (\<open>loop_free_run_returns\<close>). All other recursion terminates by itself
  (queues of Kahn's algorithm, cascades of skips, placeholders of a template). Loop counters
  are 32-bit words, as in the code; sequence numbers, sizes and attempts are natural numbers,
  with the saturation or the failed conversion written out where the code has one. The
  increments of a sequence number (64 bits) and of an iteration (32 bits) fail with
  \<open>Overflow\<close> at the largest value, as in a build with overflow checks. Instants
  of leases and workers are integers.

  Locales and their interpretations: \<open>kv_store\<close> on both containers (\<open>btree\<close>, \<open>imap\<close>),
  \<open>guarded_machine\<close> on the fold of events (\<open>core\<close>), the topology (\<open>topo\<close>), the lease file
  (\<open>leases\<close>) and the workers (\<open>workers\<close>), \<open>stable_order\<close> on the inbox (\<open>items\<close>), and
  \<open>run_invariant\<close>, what every emitted event keeps, on the recovery of a run (\<open>recovery\<close>);
  \<open>guarded_machine\<close> also on the ledger of requests (\<open>ledger\<close>), and \<open>durable_writer\<close>, where a
  write can stop, on the replacement of the layout (\<open>writer\<close>). The store of messages is a
  \<open>guarded_machine\<close> too (\<open>messages\<close>), and eight of its cells satisfy \<open>write_once\<close>
  (\<open>interactions_once\<close>, \<open>deliveries_once\<close>, \<open>keys_once\<close>, \<open>reply_records_once\<close>, \<open>replies_once\<close>,
  \<open>outcomes_once\<close>, \<open>provenance_once\<close>, \<open>cursors_once\<close>). \<open>codec\<close>, a writer whose reader undoes
  it, holds of the eight kinds of members of a configuration (\<open>string_codec\<close> and its siblings).

  Not modelled. The bytes of JSON, YAML and SQL and the operating system's locks are below
  the model: their outcomes are answers of the environment; so are the renames of the files
  other than the layout's. Of the layout, the canonical path that identifies a home and the
  lock table are not modelled (one home, its operations one after the other), nor is the
  replacement of files on Windows. Of agent messaging, the prompts, the wire types, the adding of
  missing columns and the desktop's dispatcher are not modelled. Telemetry,
  memory, library, artifacts, listeners, schedules, replacement of agents and the archive
  of conversations are not modelled yet. The desktop's process manager, provider adapters,
  delivery, terminals, browser and remote gateway drive external processes and windows,
  and the user interface is not Rust.
\<close>

end
